(* ===== verification/Prelude.thy ===== *)
theory Prelude
  imports Main "HOL-Library.Word" "HOL-Library.Multiset"
begin

text \<open>
  The shared vocabulary of the development: the widths of the machine integers the C++ code uses,
  the collections of rewrite rules the component theories extend, and generic facts on words,
  lists, maps and finite sums that several components need.

  Unsigned integers of the source keep their width (\<open>u8\<close>, \<open>u16\<close>, \<open>u32\<close>, \<open>u64\<close>), so that \<open>+\<close>
  and \<open>-\<close> wrap as they do in C++. A \<open>size_t\<close> that indexes or counts bytes of an object in memory
  is a \<open>nat\<close> where no operation on it can wrap, and a \<open>64 word\<close> where the code masks it.
\<close>

type_synonym u8 = "8 word"
type_synonym u16 = "16 word"
type_synonym u32 = "32 word"
type_synonym u64 = "64 word"

text \<open>
  \<open>qf_defs\<close> collects the plain definitions that a proof unfolds to read an operation as the code
  has it; \<open>inv_rules\<close> collects the preservation lemmas of the invariants.
\<close>

named_theorems qf_defs
named_theorems inv_rules

section \<open>Words\<close>

lemma unat_plus_small: "unat a + unat b < 2 ^ LENGTH('a) \<Longrightarrow> unat (a + b) = unat a + unat b"
  for a b :: "'a::len word"
  by (simp add: unat_word_ariths)

lemma unat_minus_le: "b \<le> a \<Longrightarrow> unat (a - b) = unat a - unat b"
  for a b :: "'a::len word"
  by (simp add: unat_sub)

lemma unat_diff_add: "b \<le> a \<Longrightarrow> unat (a - b) + unat b = unat a"
  for a b :: "'a::len word"
  by (simp add: unat_minus_le word_le_nat_alt)

lemma unat_of_nat_small: "n < 2 ^ LENGTH('a) \<Longrightarrow> unat (of_nat n :: 'a::len word) = n"
  by (simp add: unat_of_nat)

lemma word_less_plus_1: "a \<noteq> - 1 \<Longrightarrow> a < a + 1"
  for a :: "'a::len word"
  using unatSuc [of a] by (simp add: word_less_nat_alt add.commute eq_neg_iff_add_eq_0)

lemma word_of_nat_unat_plus: "of_nat (unat a + n) = a + of_nat n"
  for a :: "'a::len word"
  by simp

lemma unat_eq_of_nat: "unat a = n \<Longrightarrow> a = of_nat n"
  for a :: "'a::len word"
  by auto

lemma of_nat_eq_0_small: "n < 2 ^ LENGTH('a) \<Longrightarrow> (of_nat n :: 'a::len word) = 0 \<longleftrightarrow> n = 0"
  by (auto simp: word_of_nat_eq_0_iff dest: dvd_imp_le)

lemma unat_lt_pow: "unat a < 2 ^ LENGTH('a)"
  for a :: "'a::len word"
  by (rule unsigned_less)

lemma unat_u8_lt [simp]: "unat (b :: u8) < 256"
  using unat_lt_pow [of b] by simp

lemma unat_u16_lt [simp]: "unat (b :: u16) < 65536"
  using unat_lt_pow [of b] by simp

lemma unat_u32_lt [simp]: "unat (b :: u32) < 4294967296"
  using unat_lt_pow [of b] by simp

lemma unat_u64_lt [simp]: "unat (b :: u64) < 18446744073709551616"
  using unat_lt_pow [of b] by simp

section \<open>Sums over the orders of a store\<close>

text \<open>
  A price level aggregates the orders of a finite store. The two sums below are what such an
  aggregate means; the lemmas say how they move when one key of the store changes.
\<close>

definition sum_where :: "('k \<rightharpoonup> 'v) \<Rightarrow> ('v \<Rightarrow> bool) \<Rightarrow> ('v \<Rightarrow> nat) \<Rightarrow> nat" where
  "sum_where m P f = (\<Sum>k \<in> dom m. if P (the (m k)) then f (the (m k)) else 0)"

definition count_where :: "('k \<rightharpoonup> 'v) \<Rightarrow> ('v \<Rightarrow> bool) \<Rightarrow> nat" where
  "count_where m P = sum_where m P (\<lambda>_. 1)"

lemma sum_where_empty [simp]: "sum_where Map.empty P f = 0"
  by (simp add: sum_where_def)

lemma sum_where_insert:
  assumes "finite (dom m)" and "m k = None"
  shows "sum_where (m(k \<mapsto> v)) P f = sum_where m P f + (if P v then f v else 0)"
proof -
  have "(\<Sum>j \<in> dom m. if P (the ((m(k \<mapsto> v)) j)) then f (the ((m(k \<mapsto> v)) j)) else 0)
      = (\<Sum>j \<in> dom m. if P (the (m j)) then f (the (m j)) else 0)"
    using assms(2) by (intro sum.cong) auto
  moreover have "k \<notin> dom m"
    using assms(2) by auto
  ultimately show ?thesis
    using assms(1) by (simp add: sum_where_def)
qed

lemma sum_where_delete:
  assumes "finite (dom m)" and "m k = Some v"
  shows "sum_where m P f = sum_where (m(k := None)) P f + (if P v then f v else 0)"
  using sum_where_insert [of "m(k := None)" k v P f] assms by (simp add: map_upd_triv)

lemma sum_where_update:
  assumes "finite (dom m)" and "m k = Some v"
  shows "sum_where (m(k \<mapsto> w)) P f + (if P v then f v else 0)
       = sum_where m P f + (if P w then f w else 0)"
proof -
  have "sum_where (m(k \<mapsto> w)) P f = sum_where (m(k := None)) P f + (if P w then f w else 0)"
    using sum_where_insert [of "m(k := None)" k w P f] assms(1) by simp
  then show ?thesis
    using sum_where_delete [OF assms, of P f] by simp
qed

lemma sum_where_member:
  assumes "finite (dom m)" and "m k = Some v" and "P v"
  shows "f v \<le> sum_where m P f"
  using sum_where_delete [OF assms(1,2), of P f] assms(3) by simp

lemma count_where_empty [simp]: "count_where Map.empty P = 0"
  by (simp add: count_where_def)

lemma count_where_0_iff:
  assumes "finite (dom m)"
  shows "count_where m P = 0 \<longleftrightarrow> (\<forall>k v. m k = Some v \<longrightarrow> \<not> P v)"
proof -
  have "count_where m P = 0 \<longleftrightarrow> (\<forall>k \<in> dom m. \<not> P (the (m k)))"
    using assms by (simp add: count_where_def sum_where_def)
  then show ?thesis
    by (auto simp: dom_def)
qed

lemmas count_where_insert = sum_where_insert [where f = "\<lambda>_. 1", folded count_where_def]
lemmas count_where_delete = sum_where_delete [where f = "\<lambda>_. 1", folded count_where_def]
lemmas count_where_update = sum_where_update [where f = "\<lambda>_. 1", folded count_where_def]

lemma count_where_pos: "finite (dom m) \<Longrightarrow> m k = Some v \<Longrightarrow> P v \<Longrightarrow> 0 < count_where m P"
  using count_where_0_iff [of m P] by auto

lemma sum_where_0: "finite (dom m) \<Longrightarrow> count_where m P = 0 \<Longrightarrow> sum_where m P f = 0"
  by (auto simp: count_where_0_iff sum_where_def intro!: sum.neutral)

section \<open>Lists\<close>

lemma take_drop_append_mid:
  "length xs = n \<Longrightarrow> length ys = k \<Longrightarrow> take k (drop n (xs @ ys @ zs)) = ys"
  by simp

lemma sorted_wrt_snoc: "sorted_wrt P (xs @ [x]) \<longleftrightarrow> sorted_wrt P xs \<and> (\<forall>y \<in> set xs. P y x)"
  by (auto simp: sorted_wrt_append)

section \<open>Runs and refinement\<close>

text \<open>
  A component answers a sequence of inputs one after another. A detailed step function refines an
  abstract one when, on every input that is \<open>ok\<close> in the abstract state, it gives the same output,
  follows the abstract state and keeps its own invariant; this then holds of whole runs.
\<close>

fun run :: "('s \<Rightarrow> 'i \<Rightarrow> 'o \<times> 's) \<Rightarrow> 's \<Rightarrow> 'i list \<Rightarrow> 'o list \<times> 's" where
  "run step s [] = ([], s)"
| "run step s (i # is) =
     (let (out, s') = step s i; (outs, s'') = run step s' is in (out # outs, s''))"

fun run_ok :: "('s \<Rightarrow> 'i \<Rightarrow> bool) \<Rightarrow> ('s \<Rightarrow> 'i \<Rightarrow> 'o \<times> 's) \<Rightarrow> 's \<Rightarrow> 'i list \<Rightarrow> bool" where
  "run_ok ok step s [] = True"
| "run_ok ok step s (i # is) = (ok s i \<and> run_ok ok step (snd (step s i)) is)"

lemma run_snoc: "snd (run step s (is @ [i])) = snd (step (snd (run step s is)) i)"
  by (induction "is" arbitrary: s) (auto simp: Let_def split_beta)

locale refinement =
  fixes abs :: "'c \<Rightarrow> 'a"
    and inv :: "'c \<Rightarrow> bool"
    and cstep :: "'c \<Rightarrow> 'i \<Rightarrow> 'o \<times> 'c"
    and astep :: "'a \<Rightarrow> 'i \<Rightarrow> 'o \<times> 'a"
    and ok :: "'a \<Rightarrow> 'i \<Rightarrow> bool"
  assumes step: "inv c \<Longrightarrow> ok (abs c) i \<Longrightarrow>
    fst (cstep c i) = fst (astep (abs c) i) \<and> abs (snd (cstep c i)) = snd (astep (abs c) i)
    \<and> inv (snd (cstep c i))"
begin

lemma run_refines:
  "inv c \<Longrightarrow> run_ok ok astep (abs c) is \<Longrightarrow>
     fst (run cstep c is) = fst (run astep (abs c) is)
     \<and> abs (snd (run cstep c is)) = snd (run astep (abs c) is) \<and> inv (snd (run cstep c is))"
proof (induction "is" arbitrary: c)
  case (Cons i "is")
  note st = step [OF Cons.prems(1), of i]
  obtain out c' where c: "cstep c i = (out, c')" by force
  have "inv c'" "fst (astep (abs c) i) = out" "snd (astep (abs c) i) = abs c'"
    "run_ok ok astep (abs c') is"
    using st Cons.prems(2) c by auto
  moreover from this have "astep (abs c) i = (out, abs c')"
    by (metis prod.collapse)
  ultimately show ?case
    using Cons.IH [of c'] c by (auto simp: Let_def split_beta)
qed simp

end

end
