(* ===== verification/Bytes.thy ===== *)
theory Bytes
  imports Prelude
begin

text \<open>
  Bytes in memory. The wire structs of the source are packed and copied with \<open>std::memcpy\<close>, so
  an integer field is its little-endian bytes (the only layout the program is built for, x86), and
  a copy that leaves the object it reads or writes is a failure (\<open>None\<close>).
\<close>

type_synonym bytes = "u8 list"

fun nat_to_le :: "nat \<Rightarrow> nat \<Rightarrow> bytes" where
  "nat_to_le 0 n = []"
| "nat_to_le (Suc k) n = of_nat n # nat_to_le k (n div 256)"

fun le_to_nat :: "bytes \<Rightarrow> nat" where
  "le_to_nat [] = 0"
| "le_to_nat (b # bs) = unat b + 256 * le_to_nat bs"

lemma length_nat_to_le [simp]: "length (nat_to_le k n) = k"
  by (induction k arbitrary: n) auto

lemma unat_of_nat_u8: "unat (of_nat n :: u8) = n mod 256"
  by (simp add: unat_of_nat)

lemma le_to_nat_nat_to_le: "le_to_nat (nat_to_le k n) = n mod 256 ^ k"
  by (induction k arbitrary: n) (simp_all add: unat_of_nat_u8 mod_mult2_eq)

lemma le_to_nat_bound: "le_to_nat bs < 256 ^ length bs"
proof (induction bs)
  case (Cons b bs)
  have "unat b < 256" by simp
  then have "unat b + 256 * le_to_nat bs < 256 + 256 * le_to_nat bs"
    by simp
  also have "\<dots> \<le> 256 * 256 ^ length bs"
    using Cons.IH by (metis Suc_leI mult_Suc_right mult_le_mono2)
  finally show ?case by simp
qed simp

lemma nat_to_le_le_to_nat: "nat_to_le (length bs) (le_to_nat bs) = bs"
proof (induction bs)
  case (Cons b bs)
  have "(unat b + 256 * le_to_nat bs) div 256 = le_to_nat bs"
    using unat_u8_lt [of b] by simp
  moreover have "(of_nat (unat b + 256 * le_to_nat bs) :: u8) = b"
  proof (rule word_unat_eq_iff [THEN iffD2])
    show "unat (of_nat (unat b + 256 * le_to_nat bs) :: u8) = unat b"
      using unat_u8_lt [of b] by (simp only: unat_of_nat_u8) simp
  qed
  ultimately show ?case
    using Cons.IH by simp
qed simp

lemma le_to_nat_inject: "length bs = length cs \<Longrightarrow> le_to_nat bs = le_to_nat cs \<longleftrightarrow> bs = cs"
  by (metis nat_to_le_le_to_nat)

section \<open>Integer fields\<close>

definition put_u16 :: "u16 \<Rightarrow> bytes" where "put_u16 w = nat_to_le 2 (unat w)"
definition put_u32 :: "u32 \<Rightarrow> bytes" where "put_u32 w = nat_to_le 4 (unat w)"
definition put_u64 :: "u64 \<Rightarrow> bytes" where "put_u64 w = nat_to_le 8 (unat w)"

definition get_u16 :: "bytes \<Rightarrow> u16" where "get_u16 bs = of_nat (le_to_nat (take 2 bs))"
definition get_u32 :: "bytes \<Rightarrow> u32" where "get_u32 bs = of_nat (le_to_nat (take 4 bs))"
definition get_u64 :: "bytes \<Rightarrow> u64" where "get_u64 bs = of_nat (le_to_nat (take 8 bs))"

lemma length_put [simp]:
  "length (put_u16 a) = 2" "length (put_u32 b) = 4" "length (put_u64 c) = 8"
  by (simp_all add: put_u16_def put_u32_def put_u64_def)

lemma get_put_u16 [simp]: "get_u16 (put_u16 w @ bs) = w"
  by (simp add: get_u16_def put_u16_def le_to_nat_nat_to_le)

lemma get_put_u32 [simp]: "get_u32 (put_u32 w @ bs) = w"
  by (simp add: get_u32_def put_u32_def le_to_nat_nat_to_le)

lemma get_put_u64 [simp]: "get_u64 (put_u64 w @ bs) = w"
  by (simp add: get_u64_def put_u64_def le_to_nat_nat_to_le)

lemmas get_put_end [simp] =
  get_put_u16 [of _ "[]", simplified] get_put_u32 [of _ "[]", simplified]
  get_put_u64 [of _ "[]", simplified]

lemma get_u64_inject:
  assumes "length bs = 8" and "length cs = 8"
  shows "get_u64 bs = get_u64 cs \<longleftrightarrow> bs = cs"
proof
  assume eq: "get_u64 bs = get_u64 cs"
  have "le_to_nat bs < 2 ^ 64" "le_to_nat cs < 2 ^ 64"
    using le_to_nat_bound [of bs] le_to_nat_bound [of cs] assms by simp_all
  then have "le_to_nat bs = le_to_nat cs"
    using eq assms by (simp add: get_u64_def of_nat_inverse word_of_nat_eq_iff take_bit_nat_eq_self)
  then show "bs = cs"
    using assms by (simp add: le_to_nat_inject)
qed simp

section \<open>Copies between objects\<close>

definition mem_read :: "bytes \<Rightarrow> nat \<Rightarrow> nat \<Rightarrow> bytes option" where
  "mem_read buf off n = (if off + n \<le> length buf then Some (take n (drop off buf)) else None)"

definition mem_write :: "bytes \<Rightarrow> nat \<Rightarrow> bytes \<Rightarrow> bytes option" where
  "mem_write buf off src =
     (if off + length src \<le> length buf
      then Some (take off buf @ src @ drop (off + length src) buf) else None)"

lemma mem_write_Some:
  assumes "mem_write buf off src = Some buf'"
  shows "length buf' = length buf" "take off buf' = take off buf"
    "take (length src) (drop off buf') = src"
    "take (off + length src) buf' = take off buf @ src"
  using assms by (auto simp: mem_write_def split: if_splits)

lemma mem_write_ok: "off + length src \<le> length buf \<Longrightarrow> \<exists>buf'. mem_write buf off src = Some buf'"
  by (simp add: mem_write_def)

lemma mem_read_length: "mem_read buf off n = Some bs \<Longrightarrow> length bs = n"
  by (auto simp: mem_read_def split: if_splits)

lemma mem_read_append:
  "length pre = off \<Longrightarrow> length mid = n \<Longrightarrow> mem_read (pre @ mid @ post) off n = Some mid"
  by (simp add: mem_read_def)

end
