(* ===== verification/Common_Types.thy ===== *)
theory Common_Types
  imports Bytes
begin

text \<open>
  The common vocabulary of the program (\<open>include/qf/common\<close>): fixed-point prices, quantities and
  ids at their width, the eight byte symbol, the error codes, the compile-time constants, and the
  order record the books share (\<open>include/qf/core/order.hpp\<close>).

  A \<open>Side\<close> is an \<open>enum class\<close> over \<open>uint8_t\<close>. A side decoded from the wire is whatever byte the
  sender wrote, and the code only ever asks whether it is \<open>Side::Buy\<close>; so a side is a byte here,
  with the two enumerators as its named values.
\<close>

type_synonym side = u8
type_synonym price = u32
type_synonym quantity = u32
type_synonym order_id = u64
type_synonym timestamp = u64

definition Side_Buy :: side where "Side_Buy = 1"
definition Side_Sell :: side where "Side_Sell = 2"

lemma Side_Buy_neq_Sell [simp]: "Side_Buy \<noteq> Side_Sell" "Side_Sell \<noteq> Side_Buy"
  by (simp_all add: Side_Buy_def Side_Sell_def)

section \<open>Symbols\<close>

datatype symbol = Symbol u8 u8 u8 u8 u8 u8 u8 u8

fun sym_data :: "symbol \<Rightarrow> bytes" where
  "sym_data (Symbol a b c d e f g h) = [a, b, c, d, e, f, g, h]"

definition byte_at :: "bytes \<Rightarrow> nat \<Rightarrow> u8" where
  "byte_at bs i = (if i < length bs then bs ! i else 0)"

definition symbol_of_data :: "bytes \<Rightarrow> symbol" where
  "symbol_of_data bs = Symbol (byte_at bs 0) (byte_at bs 1) (byte_at bs 2) (byte_at bs 3)
     (byte_at bs 4) (byte_at bs 5) (byte_at bs 6) (byte_at bs 7)"

definition symbol_default :: symbol where
  "symbol_default = symbol_of_data []"

text \<open>\<open>strncpy\<close> stops at the terminating zero of the C string and pads with zeros.\<close>

definition symbol_of_cstr :: "bytes \<Rightarrow> symbol" where
  "symbol_of_cstr str = symbol_of_data (take 8 (takeWhile (\<lambda>c. c \<noteq> 0) str))"

definition as_key :: "symbol \<Rightarrow> u64" where
  "as_key s = get_u64 (sym_data s)"

lemma length_sym_data [simp]: "length (sym_data s) = 8"
  by (cases s) simp

lemma symbol_of_sym_data [simp]: "symbol_of_data (sym_data s @ bs) = s"
  by (cases s) (simp add: symbol_of_data_def byte_at_def)

lemma symbol_of_sym_data_end [simp]: "symbol_of_data (sym_data s) = s"
  using symbol_of_sym_data [of s "[]"] by simp

lemma sym_data_inject: "sym_data s = sym_data t \<longleftrightarrow> s = t"
  by (metis symbol_of_sym_data_end)

lemma as_key_inject [simp]: "as_key s = as_key t \<longleftrightarrow> s = t"
  by (simp add: as_key_def get_u64_inject sym_data_inject)

lemma as_key_default: "as_key s = 0 \<longleftrightarrow> s = symbol_default"
proof -
  have "as_key symbol_default = 0"
    by (simp add: as_key_def symbol_default_def symbol_of_data_def byte_at_def get_u64_def)
  then show ?thesis
    by (metis as_key_inject)
qed

section \<open>Constants and error codes\<close>

definition MAX_DATAGRAM :: nat where "MAX_DATAGRAM = 1400"
definition BATCH_HEADER_SIZE :: nat where "BATCH_HEADER_SIZE = 12"
definition Q1_CAPACITY :: u64 where "Q1_CAPACITY = 65536"
definition Q2_CAPACITY :: u64 where "Q2_CAPACITY = 65536"
definition Q3_CAPACITY :: u64 where "Q3_CAPACITY = 16384"

datatype error_code =
    Ok
  | BufferTooSmall
  | UnknownMessageType
  | InvalidLength
  | InvalidPrice
  | InvalidQuantity
  | TimestampOutOfOrder
  | GapDetected
  | DuplicateSequence
  | QueueFull
  | OrderNotFound
  | BookNotFound
  | ConfigLoadFailed
  | NetworkError
  | ShutdownRequested

fun error_to_string :: "error_code \<Rightarrow> string" where
  "error_to_string Ok = ''Ok''"
| "error_to_string BufferTooSmall = ''BufferTooSmall''"
| "error_to_string UnknownMessageType = ''UnknownMessageType''"
| "error_to_string InvalidLength = ''InvalidLength''"
| "error_to_string InvalidPrice = ''InvalidPrice''"
| "error_to_string InvalidQuantity = ''InvalidQuantity''"
| "error_to_string TimestampOutOfOrder = ''TimestampOutOfOrder''"
| "error_to_string GapDetected = ''GapDetected''"
| "error_to_string DuplicateSequence = ''DuplicateSequence''"
| "error_to_string QueueFull = ''QueueFull''"
| "error_to_string OrderNotFound = ''OrderNotFound''"
| "error_to_string BookNotFound = ''BookNotFound''"
| "error_to_string ConfigLoadFailed = ''ConfigLoadFailed''"
| "error_to_string NetworkError = ''NetworkError''"
| "error_to_string ShutdownRequested = ''ShutdownRequested''"

lemma error_to_string_inject: "error_to_string a = error_to_string b \<longleftrightarrow> a = b"
  by (cases a; cases b) simp_all

section \<open>Orders\<close>

record order =
  o_order_id :: order_id
  o_symbol :: symbol
  o_side :: side
  o_price :: price
  o_remaining_quantity :: quantity
  o_timestamp :: u64

end
