(* ===== verification/Messages.thy ===== *)
theory Messages
  imports Common_Types
begin

text \<open>
  The MiniITCH wire messages (\<open>include/qf/protocol/messages.hpp\<close>) and the encoder and decoder
  (\<open>include/qf/protocol/encoder.hpp\<close>). Every struct is packed, so its bytes are its fields in
  order, little-endian. The template parameter \<open>MsgT\<close> of the encoder ranges over the alternatives
  of the variant \<open>ParsedMessage\<close>; here the operations take the variant.
\<close>

record message_header =
  message_length :: u16
  message_type :: u8
  timestamp :: u64

record add_order =
  ao_order_id :: order_id
  ao_side :: side
  ao_symbol :: symbol
  ao_price :: price
  ao_quantity :: quantity

record cancel_order =
  co_order_id :: order_id

record execute_order =
  eo_order_id :: order_id
  eo_exec_quantity :: quantity

record replace_order =
  ro_order_id :: order_id
  ro_new_price :: price
  ro_new_quantity :: quantity

record trade_message =
  tm_symbol :: symbol
  tm_price :: price
  tm_quantity :: quantity
  tm_buy_order_id :: order_id
  tm_sell_order_id :: order_id

datatype parsed_message =
    AddOrder add_order
  | CancelOrder cancel_order
  | ExecuteOrder execute_order
  | ReplaceOrder replace_order
  | TradeMessage trade_message

text \<open>The type characters \<open>'A'\<close>, \<open>'X'\<close>, \<open>'E'\<close>, \<open>'R'\<close>, \<open>'T'\<close> and the wire sizes.\<close>

fun msg_TYPE :: "parsed_message \<Rightarrow> u8" where
  "msg_TYPE (AddOrder _) = 65"
| "msg_TYPE (CancelOrder _) = 88"
| "msg_TYPE (ExecuteOrder _) = 69"
| "msg_TYPE (ReplaceOrder _) = 82"
| "msg_TYPE (TradeMessage _) = 84"

fun msg_WIRE_SIZE :: "parsed_message \<Rightarrow> nat" where
  "msg_WIRE_SIZE (AddOrder _) = 36"
| "msg_WIRE_SIZE (CancelOrder _) = 19"
| "msg_WIRE_SIZE (ExecuteOrder _) = 23"
| "msg_WIRE_SIZE (ReplaceOrder _) = 27"
| "msg_WIRE_SIZE (TradeMessage _) = 43"

section \<open>Struct layouts\<close>

definition sizeof_header :: nat where "sizeof_header = 11"

definition header_bytes :: "message_header \<Rightarrow> bytes" where
  "header_bytes h = put_u16 (message_length h) @ [message_type h] @ put_u64 (timestamp h)"

definition header_of_bytes :: "bytes \<Rightarrow> message_header" where
  "header_of_bytes bs =
     \<lparr>message_length = get_u16 bs, message_type = bs ! 2, timestamp = get_u64 (drop 3 bs)\<rparr>"

fun payload_bytes :: "parsed_message \<Rightarrow> bytes" where
  "payload_bytes (AddOrder m) =
     put_u64 (ao_order_id m) @ [ao_side m] @ sym_data (ao_symbol m) @ put_u32 (ao_price m)
     @ put_u32 (ao_quantity m)"
| "payload_bytes (CancelOrder m) = put_u64 (co_order_id m)"
| "payload_bytes (ExecuteOrder m) = put_u64 (eo_order_id m) @ put_u32 (eo_exec_quantity m)"
| "payload_bytes (ReplaceOrder m) =
     put_u64 (ro_order_id m) @ put_u32 (ro_new_price m) @ put_u32 (ro_new_quantity m)"
| "payload_bytes (TradeMessage m) =
     sym_data (tm_symbol m) @ put_u32 (tm_price m) @ put_u32 (tm_quantity m)
     @ put_u64 (tm_buy_order_id m) @ put_u64 (tm_sell_order_id m)"

definition add_order_of_bytes :: "bytes \<Rightarrow> add_order" where
  "add_order_of_bytes bs =
     \<lparr>ao_order_id = get_u64 bs, ao_side = bs ! 8, ao_symbol = symbol_of_data (drop 9 bs),
      ao_price = get_u32 (drop 17 bs), ao_quantity = get_u32 (drop 21 bs)\<rparr>"

definition cancel_order_of_bytes :: "bytes \<Rightarrow> cancel_order" where
  "cancel_order_of_bytes bs = \<lparr>co_order_id = get_u64 bs\<rparr>"

definition execute_order_of_bytes :: "bytes \<Rightarrow> execute_order" where
  "execute_order_of_bytes bs =
     \<lparr>eo_order_id = get_u64 bs, eo_exec_quantity = get_u32 (drop 8 bs)\<rparr>"

definition replace_order_of_bytes :: "bytes \<Rightarrow> replace_order" where
  "replace_order_of_bytes bs =
     \<lparr>ro_order_id = get_u64 bs, ro_new_price = get_u32 (drop 8 bs),
      ro_new_quantity = get_u32 (drop 12 bs)\<rparr>"

definition trade_message_of_bytes :: "bytes \<Rightarrow> trade_message" where
  "trade_message_of_bytes bs =
     \<lparr>tm_symbol = symbol_of_data bs, tm_price = get_u32 (drop 8 bs),
      tm_quantity = get_u32 (drop 12 bs), tm_buy_order_id = get_u64 (drop 16 bs),
      tm_sell_order_id = get_u64 (drop 24 bs)\<rparr>"

lemmas of_bytes_defs = add_order_of_bytes_def cancel_order_of_bytes_def
  execute_order_of_bytes_def replace_order_of_bytes_def trade_message_of_bytes_def

section \<open>Encoder\<close>

definition encode :: "parsed_message \<Rightarrow> timestamp \<Rightarrow> bytes \<Rightarrow> nat \<Rightarrow> (nat \<times> bytes) option" where
  "encode msg ts buffer buffer_size =
     (let wire_size = msg_WIRE_SIZE msg in
      if buffer_size < wire_size then Some (0, buffer)
      else
        let header = \<lparr>message_length = of_nat wire_size, message_type = msg_TYPE msg,
                      timestamp = ts\<rparr>
        in case mem_write buffer 0 (header_bytes header) of
             None \<Rightarrow> None
           | Some b1 \<Rightarrow>
               (case mem_write b1 sizeof_header (payload_bytes msg) of
                  None \<Rightarrow> None
                | Some b2 \<Rightarrow> Some (wire_size, b2)))"

definition decode_header :: "bytes \<Rightarrow> message_header option" where
  "decode_header buffer = map_option header_of_bytes (mem_read buffer 0 sizeof_header)"

definition peek_message_type :: "bytes \<Rightarrow> u8 option" where
  "peek_message_type buffer = map_option hd (mem_read buffer 2 1)"

definition decode_payload :: "nat \<Rightarrow> (bytes \<Rightarrow> 'm) \<Rightarrow> bytes \<Rightarrow> nat \<Rightarrow> 'm option" where
  "decode_payload n of_bytes buffer payload = map_option of_bytes (mem_read buffer payload n)"

text \<open>\<open>AddOrder{}\<close>, value-initialised: every field zero.\<close>

definition add_order_zero :: add_order where
  "add_order_zero = \<lparr>ao_order_id = 0, ao_side = 0, ao_symbol = symbol_default, ao_price = 0,
     ao_quantity = 0\<rparr>"

definition parse :: "bytes \<Rightarrow> parsed_message option" where
  "parse buffer =
     (case decode_header buffer of
        None \<Rightarrow> None
      | Some header \<Rightarrow>
          let t = message_type header; payload = sizeof_header in
          if t = 65 then map_option AddOrder (decode_payload 25 add_order_of_bytes buffer payload)
          else if t = 88 then
            map_option CancelOrder (decode_payload 8 cancel_order_of_bytes buffer payload)
          else if t = 69 then
            map_option ExecuteOrder (decode_payload 12 execute_order_of_bytes buffer payload)
          else if t = 82 then
            map_option ReplaceOrder (decode_payload 16 replace_order_of_bytes buffer payload)
          else if t = 84 then
            map_option TradeMessage (decode_payload 32 trade_message_of_bytes buffer payload)
          else Some (AddOrder add_order_zero))"

section \<open>Lemmas\<close>

lemma length_header_bytes [simp]: "length (header_bytes h) = sizeof_header"
  by (simp add: header_bytes_def sizeof_header_def)

lemma length_payload_bytes: "length (payload_bytes m) = msg_WIRE_SIZE m - sizeof_header"
  by (cases m) (simp_all add: sizeof_header_def)

lemma wire_size_bounds: "19 \<le> msg_WIRE_SIZE m" "msg_WIRE_SIZE m \<le> 43"
  by (cases m; simp)+

lemma wire_size_ge_header: "sizeof_header \<le> msg_WIRE_SIZE m"
  using wire_size_bounds [of m] by (simp add: sizeof_header_def)

lemma unat_wire_size: "unat (of_nat (msg_WIRE_SIZE m) :: u16) = msg_WIRE_SIZE m"
  using wire_size_bounds [of m] by (simp add: unat_of_nat)

lemma header_roundtrip [simp]: "header_of_bytes (header_bytes h @ bs) = h"
  by (simp add: header_of_bytes_def header_bytes_def nth_append)

lemma header_roundtrip_end [simp]: "header_of_bytes (header_bytes h) = h"
  using header_roundtrip [of h "[]"] by simp

text \<open>The bytes a message has on the wire: header, then payload.\<close>

definition wire_header :: "parsed_message \<Rightarrow> timestamp \<Rightarrow> message_header" where
  "wire_header m ts =
     \<lparr>message_length = of_nat (msg_WIRE_SIZE m), message_type = msg_TYPE m, timestamp = ts\<rparr>"

definition wire :: "parsed_message \<Rightarrow> timestamp \<Rightarrow> bytes" where
  "wire m ts = header_bytes (wire_header m ts) @ payload_bytes m"

lemma length_wire [simp]: "length (wire m ts) = msg_WIRE_SIZE m"
  using wire_size_ge_header [of m] by (simp add: wire_def length_payload_bytes)

lemma encode_too_small: "n < msg_WIRE_SIZE m \<Longrightarrow> encode m ts buf n = Some (0, buf)"
  by (simp add: encode_def)

lemma encode_ok:
  assumes "msg_WIRE_SIZE m \<le> n" and "n \<le> length buf"
  shows "encode m ts buf n = Some (msg_WIRE_SIZE m, wire m ts @ drop (msg_WIRE_SIZE m) buf)"
proof -
  have "sizeof_header + length (payload_bytes m) = msg_WIRE_SIZE m"
    using wire_size_ge_header [of m] by (simp add: length_payload_bytes)
  then show ?thesis
    using assms wire_size_ge_header [of m]
    by (simp add: encode_def Let_def mem_write_def wire_def wire_header_def add.commute)
qed

lemma decode_header_wire: "decode_header (wire m ts @ rest) = Some (wire_header m ts)"
  by (simp add: decode_header_def mem_read_def wire_def)

lemma decode_payload_append:
  "length p = n \<Longrightarrow> length h = k \<Longrightarrow> decode_payload n f (h @ p @ rest) k = Some (f p)"
  by (simp add: decode_payload_def mem_read_append)

lemma payload_roundtrip:
  "add_order_of_bytes (payload_bytes (AddOrder a)) = a"
  "cancel_order_of_bytes (payload_bytes (CancelOrder c)) = c"
  "execute_order_of_bytes (payload_bytes (ExecuteOrder e)) = e"
  "replace_order_of_bytes (payload_bytes (ReplaceOrder r)) = r"
  "trade_message_of_bytes (payload_bytes (TradeMessage t)) = t"
  by (simp_all add: of_bytes_defs nth_append)

lemma decode_payload_wire:
  assumes "msg_WIRE_SIZE m = n + sizeof_header"
  shows "decode_payload n f (wire m ts @ rest) sizeof_header = Some (f (payload_bytes m))"
  unfolding wire_def append_assoc
  by (rule decode_payload_append) (simp_all add: length_payload_bytes assms)

lemmas decode_payload_wire_11 = decode_payload_wire [unfolded sizeof_header_def]

lemma parse_wire: "parse (wire m ts @ rest) = Some m"
  by (cases m) (simp_all add: parse_def decode_header_wire wire_header_def Let_def
      sizeof_header_def decode_payload_wire_11 payload_roundtrip del: payload_bytes.simps)

section \<open>Properties\<close>

text \<open>
  Encoding and parsing are inverse: into a buffer that can hold it, every message is written as
  its header and payload, the bytes behind it untouched, and parsing the buffer gives the message
  back, its header announcing its type, its length and the timestamp; a buffer that is too small is
  left alone and the result is 0.
\<close>

theorem encode_parse_roundtrip:
  assumes "buffer_size \<le> length buffer"
  shows "if buffer_size < msg_WIRE_SIZE m then encode m ts buffer buffer_size = Some (0, buffer)
    else \<exists>out. encode m ts buffer buffer_size = Some (msg_WIRE_SIZE m, out) \<and> length out = length buffer
      \<and> drop (msg_WIRE_SIZE m) out = drop (msg_WIRE_SIZE m) buffer
      \<and> parse out = Some m \<and> peek_message_type out = Some (msg_TYPE m)
      \<and> decode_header out = Some \<lparr>message_length = of_nat (msg_WIRE_SIZE m), message_type = msg_TYPE m, timestamp = ts\<rparr>"
proof (cases "buffer_size < msg_WIRE_SIZE m")
  case True
  then show ?thesis by (simp add: encode_too_small)
next
  case False
  let ?rest = "drop (msg_WIRE_SIZE m) buffer"
  have fits: "msg_WIRE_SIZE m \<le> buffer_size" "msg_WIRE_SIZE m \<le> length buffer"
    using False assms by simp_all
  have "peek_message_type (wire m ts @ ?rest) = Some (msg_TYPE m)"
    using wire_size_ge_header [of m] fits
    by (simp add: peek_message_type_def mem_read_def wire_def header_bytes_def wire_header_def sizeof_header_def)
  then show ?thesis
    using False fits encode_ok [OF fits(1) assms, of ts] parse_wire [of m ts ?rest]
      decode_header_wire [of m ts ?rest]
    by (simp add: wire_header_def)
qed

theorem encode_parse_roundtrip_witness:
  "\<exists>out. encode (CancelOrder \<lparr>co_order_id = 77\<rparr>) 5 (replicate 64 0) 64 = Some (19, out)
     \<and> parse out = Some (CancelOrder \<lparr>co_order_id = 77\<rparr>)"
  using encode_parse_roundtrip [of 64 "replicate 64 0" "CancelOrder \<lparr>co_order_id = 77\<rparr>" 5] by auto

end
