(* ===== verification/Validator.thy ===== *)
theory Validator
  imports Messages
begin

text \<open>
  The message validator (\<open>src/protocol/validator.cpp\<close>). A buffer argument \<open>(buffer, len)\<close> is the
  list of the \<open>len\<close> bytes it spans.
\<close>

record validation_result =
  vr_code :: error_code
  vr_detail :: "string option"

definition vr_ok :: "validation_result \<Rightarrow> bool" where
  "vr_ok r \<longleftrightarrow> vr_code r = Ok"

abbreviation vr_fail :: "error_code \<Rightarrow> string \<Rightarrow> validation_result" where
  "vr_fail c d \<equiv> \<lparr>vr_code = c, vr_detail = Some d\<rparr>"

abbreviation vr_pass :: validation_result where
  "vr_pass \<equiv> \<lparr>vr_code = Ok, vr_detail = None\<rparr>"

definition expected_wire_size :: "u8 \<Rightarrow> u16" where
  "expected_wire_size t =
     (if t = 65 then 36 else if t = 88 then 19 else if t = 69 then 23
      else if t = 82 then 27 else if t = 84 then 43 else 0)"

definition is_known_type :: "u8 \<Rightarrow> bool" where
  "is_known_type t \<longleftrightarrow> expected_wire_size t \<noteq> 0"

definition validate :: "bytes \<Rightarrow> validation_result" where
  "validate buffer =
     (if length buffer < sizeof_header then
        vr_fail BufferTooSmall ''buffer shorter than message header''
      else
        let header = header_of_bytes (take sizeof_header buffer) in
        if \<not> is_known_type (message_type header) then
          vr_fail UnknownMessageType ''unknown message type''
        else if message_length header \<noteq> expected_wire_size (message_type header) then
          vr_fail InvalidLength ''message_length does not match expected size for type''
        else if length buffer < unat (message_length header) then
          vr_fail BufferTooSmall ''payload truncated''
        else vr_pass)"

definition validate_length :: "message_header \<Rightarrow> validation_result" where
  "validate_length header =
     (if \<not> is_known_type (message_type header) then
        vr_fail UnknownMessageType ''unknown message type''
      else if message_length header \<noteq> expected_wire_size (message_type header) then
        vr_fail InvalidLength ''message_length does not match expected size for type''
      else vr_pass)"

definition validate_add_order :: "add_order \<Rightarrow> validation_result" where
  "validate_add_order msg =
     (if ao_price msg = 0 then vr_fail InvalidPrice ''price must be > 0''
      else if ao_quantity msg = 0 then vr_fail InvalidQuantity ''quantity must be > 0''
      else if ao_side msg \<noteq> 1 \<and> ao_side msg \<noteq> 2 then
        vr_fail UnknownMessageType ''invalid side value''
      else vr_pass)"

definition validate_cancel_order :: "cancel_order \<Rightarrow> validation_result" where
  "validate_cancel_order msg =
     (if co_order_id msg = 0 then vr_fail InvalidLength ''order_id must be > 0'' else vr_pass)"

definition validate_execute_order :: "execute_order \<Rightarrow> validation_result" where
  "validate_execute_order msg =
     (if eo_order_id msg = 0 then vr_fail InvalidLength ''order_id must be > 0''
      else if eo_exec_quantity msg = 0 then
        vr_fail InvalidQuantity ''exec_quantity must be > 0''
      else vr_pass)"

definition validate_replace_order :: "replace_order \<Rightarrow> validation_result" where
  "validate_replace_order msg =
     (if ro_new_price msg = 0 then vr_fail InvalidPrice ''new_price must be > 0''
      else if ro_new_quantity msg = 0 then
        vr_fail InvalidQuantity ''new_quantity must be > 0''
      else vr_pass)"

definition validate_trade_message :: "trade_message \<Rightarrow> validation_result" where
  "validate_trade_message msg =
     (if tm_price msg = 0 then vr_fail InvalidPrice ''price must be > 0''
      else if tm_quantity msg = 0 then vr_fail InvalidQuantity ''quantity must be > 0''
      else vr_pass)"

record validator =
  last_timestamp :: u64

definition check_timestamp :: "validator \<Rightarrow> u64 \<Rightarrow> validator \<times> bool" where
  "check_timestamp v ts =
     (if ts < last_timestamp v then (v, False) else (v\<lparr>last_timestamp := ts\<rparr>, True))"

fun check_timestamps :: "validator \<Rightarrow> u64 list \<Rightarrow> validator \<times> bool list" where
  "check_timestamps v [] = (v, [])"
| "check_timestamps v (t # ts) =
     (let (v', ok) = check_timestamp v t; (v'', oks) = check_timestamps v' ts in (v'', ok # oks))"

section \<open>Lemmas\<close>

lemma expected_wire_size_msg: "expected_wire_size (msg_TYPE m) = of_nat (msg_WIRE_SIZE m)"
  by (cases m) (simp_all add: expected_wire_size_def)

lemma is_known_type_msg [simp]: "is_known_type (msg_TYPE m)"
  by (cases m) (simp_all add: is_known_type_def expected_wire_size_def)

lemma validate_wire: "validate (wire m ts @ rest) = vr_pass"
proof -
  have h: "header_of_bytes (take sizeof_header (wire m ts @ rest)) = wire_header m ts"
    by (simp add: wire_def)
  have len: "\<not> length (wire m ts @ rest) < sizeof_header"
    using wire_size_ge_header [of m] by simp
  show ?thesis
    by (simp only: validate_def len h if_False Let_def)
      (simp add: wire_header_def expected_wire_size_msg unat_wire_size)
qed

text \<open>Integer fields are determined by their bytes, in both directions.\<close>

lemma put_get:
  "2 \<le> length bs \<Longrightarrow> put_u16 (get_u16 bs) = take 2 bs"
  "4 \<le> length bs \<Longrightarrow> put_u32 (get_u32 bs) = take 4 bs"
  "8 \<le> length bs \<Longrightarrow> put_u64 (get_u64 bs) = take 8 bs"
proof -
  have *: "nat_to_le n (le_to_nat (take n bs) mod 256 ^ n) = take n bs" if "n \<le> length bs" for n
    using that le_to_nat_bound [of "take n bs"] nat_to_le_le_to_nat [of "take n bs"] by simp
  show "2 \<le> length bs \<Longrightarrow> put_u16 (get_u16 bs) = take 2 bs"
    using * [of 2] by (simp add: put_u16_def get_u16_def unat_of_nat)
  show "4 \<le> length bs \<Longrightarrow> put_u32 (get_u32 bs) = take 4 bs"
    using * [of 4] by (simp add: put_u32_def get_u32_def unat_of_nat)
  show "8 \<le> length bs \<Longrightarrow> put_u64 (get_u64 bs) = take 8 bs"
    using * [of 8] by (simp add: put_u64_def get_u64_def unat_of_nat)
qed

lemma sym_data_of_data: "8 \<le> length bs \<Longrightarrow> sym_data (symbol_of_data bs) = take 8 bs"
  by (rule nth_equalityI)
    (auto simp: symbol_of_data_def byte_at_def less_Suc_eq numeral_eq_Suc)

lemma chunk: "m = n + k \<Longrightarrow> take n (drop k xs) @ drop m xs = drop k xs"
  by (metis add.commute append_take_drop_id drop_drop)

lemma header_bytes_of_bytes:
  assumes "length bs = sizeof_header"
  shows "header_bytes (header_of_bytes bs) = bs"
proof -
  have "[bs ! 2] @ drop 3 bs = drop 2 bs"
    using assms Cons_nth_drop_Suc [of 2 bs] by (simp add: sizeof_header_def)
  moreover have "take 2 bs @ drop 2 bs = bs"
    by simp
  ultimately show ?thesis
    using assms by (simp add: header_bytes_def header_of_bytes_def put_get sizeof_header_def)
qed

lemma payload_bytes_of_bytes:
  "length p = 25 \<Longrightarrow> payload_bytes (AddOrder (add_order_of_bytes p)) = p"
  "length p = 8 \<Longrightarrow> payload_bytes (CancelOrder (cancel_order_of_bytes p)) = p"
  "length p = 12 \<Longrightarrow> payload_bytes (ExecuteOrder (execute_order_of_bytes p)) = p"
  "length p = 16 \<Longrightarrow> payload_bytes (ReplaceOrder (replace_order_of_bytes p)) = p"
  "length p = 32 \<Longrightarrow> payload_bytes (TradeMessage (trade_message_of_bytes p)) = p"
proof -
  assume len: "length p = 25"
  have "[p ! 8] @ drop 9 p = drop 8 p"
    using len Cons_nth_drop_Suc [of 8 p] by simp
  then show "payload_bytes (AddOrder (add_order_of_bytes p)) = p"
    using len chunk [of 17 8 9 p] chunk [of 21 4 17 p]
    by (simp add: of_bytes_defs put_get sym_data_of_data)
next
  assume "length p = 16"
  then show "payload_bytes (ReplaceOrder (replace_order_of_bytes p)) = p"
    using chunk [of 12 4 8 p] by (simp add: of_bytes_defs put_get)
next
  assume "length p = 32"
  then show "payload_bytes (TradeMessage (trade_message_of_bytes p)) = p"
    using chunk [of 12 4 8 p] chunk [of 16 4 12 p] chunk [of 24 8 16 p]
    by (simp add: of_bytes_defs put_get sym_data_of_data)
qed (simp_all add: of_bytes_defs put_get)

lemma known_type_cases:
  assumes "is_known_type t"
  obtains "t = 65" | "t = 88" | "t = 69" | "t = 82" | "t = 84"
  using assms by (auto simp: is_known_type_def expected_wire_size_def split: if_splits)

text \<open>
  A payload of the size its type demands is the payload of exactly one message of that type.
\<close>

lemma payload_exists:
  assumes "is_known_type t" and "length p + sizeof_header = unat (expected_wire_size t)"
  shows "\<exists>m. msg_TYPE m = t \<and> payload_bytes m = p"
  using assms(1)
proof (cases rule: known_type_cases)
  case 1
  then show ?thesis using assms(2) payload_bytes_of_bytes(1) [of p]
    by (intro exI [of _ "AddOrder (add_order_of_bytes p)"])
      (simp add: expected_wire_size_def sizeof_header_def)
next
  case 2
  then show ?thesis using assms(2) payload_bytes_of_bytes(2) [of p]
    by (intro exI [of _ "CancelOrder (cancel_order_of_bytes p)"])
      (simp add: expected_wire_size_def sizeof_header_def)
next
  case 3
  then show ?thesis using assms(2) payload_bytes_of_bytes(3) [of p]
    by (intro exI [of _ "ExecuteOrder (execute_order_of_bytes p)"])
      (simp add: expected_wire_size_def sizeof_header_def)
next
  case 4
  then show ?thesis using assms(2) payload_bytes_of_bytes(4) [of p]
    by (intro exI [of _ "ReplaceOrder (replace_order_of_bytes p)"])
      (simp add: expected_wire_size_def sizeof_header_def)
next
  case 5
  then show ?thesis using assms(2) payload_bytes_of_bytes(5) [of p]
    by (intro exI [of _ "TradeMessage (trade_message_of_bytes p)"])
      (simp add: expected_wire_size_def sizeof_header_def)
qed

lemma validate_okD:
  assumes "vr_ok (validate buf)"
  shows "sizeof_header \<le> length buf" "is_known_type (buf ! 2)"
    "message_length (header_of_bytes (take sizeof_header buf)) = expected_wire_size (buf ! 2)"
    "unat (expected_wire_size (buf ! 2)) \<le> length buf"
proof -
  have t: "message_type (header_of_bytes (take sizeof_header buf)) = buf ! 2"
    by (simp add: header_of_bytes_def sizeof_header_def)
  show "sizeof_header \<le> length buf" "is_known_type (buf ! 2)"
    "message_length (header_of_bytes (take sizeof_header buf)) = expected_wire_size (buf ! 2)"
    "unat (expected_wire_size (buf ! 2)) \<le> length buf"
    using assms t by (auto simp: validate_def vr_ok_def Let_def split: if_splits)
qed

lemma validate_ok_is_wire:
  assumes ok: "vr_ok (validate buf)"
  shows "\<exists>m ts. buf = wire m ts @ drop (msg_WIRE_SIZE m) buf"
proof -
  let ?h = "header_of_bytes (take sizeof_header buf)" and ?w = "unat (expected_wire_size (buf ! 2))"
  note D = validate_okD [OF ok]
  have w: "sizeof_header \<le> ?w"
    using D(2) by (cases rule: known_type_cases) (simp_all add: expected_wire_size_def sizeof_header_def)
  obtain m where m: "msg_TYPE m = buf ! 2"
    "payload_bytes m = take (?w - sizeof_header) (drop sizeof_header buf)"
    using payload_exists [OF D(2), of "take (?w - sizeof_header) (drop sizeof_header buf)"] w D(4)
    by auto
  have sz: "msg_WIRE_SIZE m = ?w"
    using m(1) unat_wire_size [of m] by (simp add: expected_wire_size_msg [symmetric])
  have "message_type ?h = buf ! 2"
    by (simp add: header_of_bytes_def sizeof_header_def)
  then have "wire_header m (timestamp ?h) = ?h"
    using D(3) m(1) expected_wire_size_msg [of m] by (simp add: wire_header_def)
  then have "wire m (timestamp ?h) = take sizeof_header buf @ payload_bytes m"
    using D(1) header_bytes_of_bytes [of "take sizeof_header buf"] by (simp add: wire_def)
  also have "\<dots> = take ?w buf"
    using m(2) w by (metis le_add_diff_inverse take_add)
  finally have "buf = wire m (timestamp ?h) @ drop (msg_WIRE_SIZE m) buf"
    using sz by simp
  then show ?thesis by blast
qed

lemma check_timestamp_mono: "last_timestamp v \<le> last_timestamp (fst (check_timestamp v ts))"
  by (auto simp: check_timestamp_def not_less)

definition accepted :: "u64 list \<Rightarrow> bool list \<Rightarrow> u64 list" where
  "accepted ts oks = map fst (filter snd (zip ts oks))"

lemma check_timestamps_accepted:
  "check_timestamps v ts = (v', oks) \<Longrightarrow>
     length oks = length ts \<and> sorted (last_timestamp v # accepted ts oks)
     \<and> last_timestamp v' = last (last_timestamp v # accepted ts oks)"
proof (induction ts arbitrary: v v' oks)
  case Nil
  then show ?case by (auto simp: accepted_def)
next
  case (Cons t ts)
  obtain v1 ok oks' where step: "check_timestamp v t = (v1, ok)"
    and rest: "check_timestamps v1 ts = (v', oks')" and oks: "oks = ok # oks'"
    using Cons.prems by (auto simp: Let_def split: prod.splits)
  note IH = Cons.IH [OF rest]
  show ?case
  proof (cases "t < last_timestamp v")
    case True
    then have "v1 = v" "\<not> ok"
      using step by (auto simp: check_timestamp_def)
    then show ?thesis
      using IH oks by (simp add: accepted_def)
  next
    case False
    then have "last_timestamp v1 = t" "ok"
      using step by (auto simp: check_timestamp_def)
    then show ?thesis
      using IH oks False by (auto simp: accepted_def not_less)
  qed
qed

section \<open>Properties\<close>


text \<open>
  The timestamp check accepts a timestamp exactly when no accepted one is later: over any
  sequence the accepted timestamps are in order, and the state is the last of them.
\<close>

theorem accepted_timestamps_sorted:
  assumes "check_timestamps \<lparr>last_timestamp = 0\<rparr> ts = (v, oks)"
  shows "sorted (accepted ts oks) \<and> length oks = length ts \<and> last_timestamp v = last (0 # accepted ts oks)"
  using check_timestamps_accepted [OF assms] by auto

theorem accepted_timestamps_sorted_witness:
  "sorted (accepted [5, 3, 9] (snd (check_timestamps \<lparr>last_timestamp = 0\<rparr> [5, 3, 9])))"
  using accepted_timestamps_sorted [of "[5, 3, 9]" "fst (check_timestamps \<lparr>last_timestamp = 0\<rparr> [5, 3, 9])"
      "snd (check_timestamps \<lparr>last_timestamp = 0\<rparr> [5, 3, 9])"]
  by simp

end
