(* ===== verification/Frame_Parser.thy ===== *)
theory Frame_Parser
  imports Validator
begin

text \<open>
  Splitting a datagram into messages (\<open>include/qf/protocol/frame_parser.hpp\<close>,
  \<open>src/protocol/frame_parser.cpp\<close>). A pointer argument is \<open>None\<close> for \<open>nullptr\<close> and otherwise the
  bytes it spans; a pointer into a datagram is its offset. The callback of the template parser
  threads a state, as the lambdas of the two callers do.
\<close>

record batch_header =
  seq_num :: u64
  msg_count :: u16
  total_len :: u16

definition batch_header_bytes :: "batch_header \<Rightarrow> bytes" where
  "batch_header_bytes h = put_u64 (seq_num h) @ put_u16 (msg_count h) @ put_u16 (total_len h)"

definition batch_header_of_bytes :: "bytes \<Rightarrow> batch_header" where
  "batch_header_of_bytes bs =
     \<lparr>seq_num = get_u64 bs, msg_count = get_u16 (drop 8 bs), total_len = get_u16 (drop 10 bs)\<rparr>"

record message_view =
  mv_data :: nat
  mv_len :: nat

record frame_parse_result =
  fpr_batch_header :: batch_header
  fpr_messages :: "message_view list"
  fpr_error :: error_code

definition fpr_ok :: "frame_parse_result \<Rightarrow> bool" where
  "fpr_ok r \<longleftrightarrow> fpr_error r = Ok"

function frame_loop ::
  "('s \<Rightarrow> message_header \<Rightarrow> nat \<Rightarrow> 's) \<Rightarrow> bytes \<Rightarrow> nat \<Rightarrow> nat \<Rightarrow> 's \<Rightarrow> nat \<times> 's" where
  "frame_loop callback buffer offset cnt s =
     (if offset + sizeof_header \<le> length buffer then
        let header = header_of_bytes (take sizeof_header (drop offset buffer)) in
        if unat (message_length header) < sizeof_header then (cnt, s)
        else if length buffer - offset < unat (message_length header) then (cnt, s)
        else frame_loop callback buffer (offset + unat (message_length header)) (Suc cnt)
               (callback s header (offset + sizeof_header))
      else (cnt, s))"
  by pat_completeness auto
termination
  by (relation "measure (\<lambda>(callback, buffer, offset, cnt, s). length buffer - offset)")
    (auto simp: sizeof_header_def)

declare frame_loop.simps [simp del]

definition parse_messages ::
  "bytes option \<Rightarrow> ('s \<Rightarrow> message_header \<Rightarrow> nat \<Rightarrow> 's) \<Rightarrow> 's \<Rightarrow> nat \<times> 's" where
  "parse_messages buffer callback s =
     (case buffer of
        None \<Rightarrow> (0, s)
      | Some b \<Rightarrow> if length b = 0 then (0, s) else frame_loop callback b 0 0 s)"

definition push_view :: "nat \<Rightarrow> message_view list \<Rightarrow> message_header \<Rightarrow> nat \<Rightarrow> message_view list" where
  "push_view base views header payload =
     views @ [\<lparr>mv_data = base + (payload - sizeof_header), mv_len = unat (message_length header)\<rparr>]"

definition frame_parse :: "bytes option \<Rightarrow> frame_parse_result" where
  "frame_parse datagram =
     (let empty = \<lparr>fpr_batch_header = \<lparr>seq_num = 0, msg_count = 0, total_len = 0\<rparr>,
                   fpr_messages = [], fpr_error = Ok\<rparr> in
      case datagram of
        None \<Rightarrow> empty
      | Some d \<Rightarrow>
          if length d = 0 then empty
          else if length d < BATCH_HEADER_SIZE then empty\<lparr>fpr_error := BufferTooSmall\<rparr>
          else
            let header = batch_header_of_bytes (take BATCH_HEADER_SIZE d);
                views = snd (parse_messages (Some (drop BATCH_HEADER_SIZE d))
                               (push_view BATCH_HEADER_SIZE) [])
            in \<lparr>fpr_batch_header = header, fpr_messages = views, fpr_error = Ok\<rparr>)"

definition parse_raw :: "bytes option \<Rightarrow> message_view list" where
  "parse_raw d = snd (parse_messages d (push_view 0) [])"

section \<open>Lemmas\<close>

lemma length_batch_header_bytes [simp]: "length (batch_header_bytes h) = BATCH_HEADER_SIZE"
  by (simp add: batch_header_bytes_def BATCH_HEADER_SIZE_def)

lemma batch_header_roundtrip [simp]: "batch_header_of_bytes (batch_header_bytes h) = h"
  by (simp add: batch_header_of_bytes_def batch_header_bytes_def)

text \<open>The bytes a view points at.\<close>

definition view_bytes :: "bytes \<Rightarrow> message_view \<Rightarrow> bytes" where
  "view_bytes d v = take (mv_len v) (drop (mv_data v) d)"

text \<open>A byte string the parser takes as one message: its header announces its own length.\<close>

definition well_framed :: "bytes \<Rightarrow> bool" where
  "well_framed m \<longleftrightarrow> sizeof_header \<le> length m
     \<and> unat (message_length (header_of_bytes (take sizeof_header m))) = length m"

lemma well_framed_wire [simp]: "well_framed (wire m ts)"
  using wire_size_ge_header [of m]
  by (simp add: well_framed_def wire_def length_payload_bytes wire_header_def unat_wire_size)

lemma frame_loop_step:
  assumes "well_framed m" and "length pre = offset"
  shows "frame_loop cb (pre @ m @ rest) offset n s =
    frame_loop cb (pre @ m @ rest) (offset + length m) (Suc n)
      (cb s (header_of_bytes (take sizeof_header m)) (offset + sizeof_header))"
  using assms
  by (subst frame_loop.simps) (simp add: well_framed_def Let_def)

lemma frame_loop_end: "length buf < offset + sizeof_header \<Longrightarrow> frame_loop cb buf offset n s = (n, s)"
  by (subst frame_loop.simps) simp

text \<open>Views of consecutive messages, the first of them at a given offset.\<close>

fun views_from :: "nat \<Rightarrow> bytes list \<Rightarrow> message_view list" where
  "views_from k [] = []"
| "views_from k (m # ms) = \<lparr>mv_data = k, mv_len = length m\<rparr> # views_from (k + length m) ms"

lemma frame_loop_concat:
  assumes "\<forall>m \<in> set ms. well_framed m" and "length rest < sizeof_header"
  shows "frame_loop (push_view base) (pre @ concat ms @ rest) (length pre) n vs
       = (n + length ms, vs @ views_from (base + length pre) ms)"
  using assms(1)
proof (induction ms arbitrary: pre n vs)
  case Nil
  then show ?case using assms(2) by (simp add: frame_loop_end)
next
  case (Cons m ms)
  have m: "well_framed m" and len: "unat (message_length (header_of_bytes (take sizeof_header m))) = length m"
    using Cons.prems by (auto simp: well_framed_def)
  have "frame_loop (push_view base) (pre @ concat (m # ms) @ rest) (length pre) n vs
      = frame_loop (push_view base) ((pre @ m) @ concat ms @ rest) (length (pre @ m)) (Suc n)
          (vs @ [\<lparr>mv_data = base + length pre, mv_len = length m\<rparr>])"
    using frame_loop_step [OF m refl, of "push_view base" pre "concat ms @ rest" n vs]
    by (simp add: push_view_def len)
  also have "\<dots> = (Suc n + length ms,
      (vs @ [\<lparr>mv_data = base + length pre, mv_len = length m\<rparr>])
        @ views_from (base + length (pre @ m)) ms)"
    using Cons.prems by (intro Cons.IH) simp
  finally show ?case by (simp add: add.assoc)
qed

lemma view_bytes_views_from:
  "map (view_bytes (pre @ concat ms @ rest)) (views_from (length pre) ms) = ms"
proof (induction ms arbitrary: pre)
  case (Cons m ms)
  then show ?case using Cons.IH [of "pre @ m"] by (simp add: view_bytes_def)
qed simp

lemma length_views_from [simp]: "length (views_from k ms) = length ms"
  by (induction ms arbitrary: k) auto

lemma frame_parse_batch:
  assumes "\<forall>m \<in> set ms. well_framed m" and "length rest < sizeof_header"
    and d: "d = batch_header_bytes h @ concat ms @ rest"
  shows "frame_parse (Some d) =
    \<lparr>fpr_batch_header = h, fpr_messages = views_from BATCH_HEADER_SIZE ms, fpr_error = Ok\<rparr>"
proof -
  have len: "BATCH_HEADER_SIZE \<le> length d"
    using d by simp
  moreover from len have "d \<noteq> []"
    by (auto simp: BATCH_HEADER_SIZE_def)
  moreover have "snd (parse_messages (Some (concat ms @ rest)) (push_view BATCH_HEADER_SIZE) [])
      = views_from BATCH_HEADER_SIZE ms"
  proof (cases "concat ms @ rest = []")
    case True
    have "ms = []"
    proof (cases ms)
      case (Cons a list)
      then have "sizeof_header \<le> length a" using assms(1) by (simp add: well_framed_def)
      then show ?thesis using True Cons by (simp add: sizeof_header_def)
    qed
    then show ?thesis using True by (simp add: parse_messages_def)
  next
    case False
    then show ?thesis
      using frame_loop_concat [OF assms(1,2), of BATCH_HEADER_SIZE "[]" 0 "[]"]
      by (auto simp: parse_messages_def)
  qed
  moreover have "take BATCH_HEADER_SIZE d = batch_header_bytes h"
    "drop BATCH_HEADER_SIZE d = concat ms @ rest"
    by (simp_all add: d)
  ultimately show ?thesis
    by (simp add: frame_parse_def Let_def)
qed

text \<open>
  Whatever the bytes are, the views the parser hands out are consecutive: each starts where the
  one before it ends, each is at least a header long, and the last one ends inside the buffer.
\<close>

fun consecutive :: "nat \<Rightarrow> nat \<Rightarrow> message_view list \<Rightarrow> bool" where
  "consecutive from to [] \<longleftrightarrow> from \<le> to"
| "consecutive from to (v # vs) \<longleftrightarrow>
     mv_data v = from \<and> sizeof_header \<le> mv_len v \<and> consecutive (from + mv_len v) to vs"

lemma consecutive_bound: "consecutive from to vs \<Longrightarrow> from \<le> to"
  by (induction vs arbitrary: "from") (auto, metis add_leD1)

lemma consecutive_in_bounds:
  "consecutive from to vs \<Longrightarrow> v \<in> set vs \<Longrightarrow> from \<le> mv_data v \<and> mv_data v + mv_len v \<le> to"
proof (induction vs arbitrary: "from")
  case (Cons w vs)
  then show ?case
    using consecutive_bound [of "from + mv_len w" to vs] by (fastforce)
qed simp

lemma frame_loop_consecutive:
  assumes "offset \<le> length buf"
  shows "\<exists>new. frame_loop (push_view base) buf offset n vs = (n + length new, vs @ new)
    \<and> consecutive (base + offset) (base + length buf) new"
  using assms
proof (induction "length buf - offset" arbitrary: offset n vs rule: less_induct)
  case less
  let ?h = "header_of_bytes (take sizeof_header (drop offset buf))"
  let ?l = "unat (message_length ?h)"
  show ?case
  proof (cases "offset + sizeof_header \<le> length buf \<and> sizeof_header \<le> ?l \<and> ?l \<le> length buf - offset")
    case False
    then have "frame_loop (push_view base) buf offset n vs = (n, vs)"
      by (subst frame_loop.simps) (auto simp: Let_def)
    then show ?thesis using less.prems by (intro exI [of _ "[]"]) simp
  next
    case True
    let ?v = "\<lparr>mv_data = base + offset, mv_len = ?l\<rparr>"
    have step: "frame_loop (push_view base) buf offset n vs =
        frame_loop (push_view base) buf (offset + ?l) (Suc n) (vs @ [?v])"
      using True by (subst frame_loop.simps) (simp add: Let_def push_view_def)
    have "length buf - (offset + ?l) < length buf - offset" "offset + ?l \<le> length buf"
      using True by (auto simp: sizeof_header_def)
    from less.hyps [OF this, of "Suc n" "vs @ [?v]"] obtain new where
      "frame_loop (push_view base) buf (offset + ?l) (Suc n) (vs @ [?v])
         = (Suc n + length new, (vs @ [?v]) @ new)"
      "consecutive (base + (offset + ?l)) (base + length buf) new"
      by blast
    then show ?thesis
      using step True by (intro exI [of _ "?v # new"]) (simp add: add.assoc)
  qed
qed

lemma frame_parse_consecutive:
  assumes "BATCH_HEADER_SIZE \<le> length d"
  shows "consecutive BATCH_HEADER_SIZE (length d) (fpr_messages (frame_parse (Some d)))"
proof (cases "drop BATCH_HEADER_SIZE d = []")
  case True
  have "d \<noteq> []" using assms by (auto simp: BATCH_HEADER_SIZE_def)
  then show ?thesis
    using True assms by (simp add: frame_parse_def parse_messages_def Let_def)
next
  case False
  have "d \<noteq> []" using assms by (auto simp: BATCH_HEADER_SIZE_def)
  with False show ?thesis
    using assms frame_loop_consecutive [of 0 "drop BATCH_HEADER_SIZE d" BATCH_HEADER_SIZE 0 "[]"]
    by (auto simp: frame_parse_def parse_messages_def Let_def)
qed

section \<open>Properties\<close>

text \<open>
  Whatever bytes a datagram holds, the parser ends, and the message views it returns are
  consecutive from the end of the batch header, at least a header long, and lie inside the
  datagram: no view can be read out of bounds. A datagram shorter than the batch header gives an
  error and no views.
\<close>

theorem frame_parse_safe:
  "if d \<noteq> [] \<and> length d < BATCH_HEADER_SIZE
   then fpr_error (frame_parse (Some d)) = BufferTooSmall \<and> fpr_messages (frame_parse (Some d)) = []
   else fpr_ok (frame_parse (Some d)) \<and>
     (d = [] \<or> consecutive BATCH_HEADER_SIZE (length d) (fpr_messages (frame_parse (Some d))))"
proof (cases "d \<noteq> [] \<and> length d < BATCH_HEADER_SIZE")
  case True
  then show ?thesis by (simp add: frame_parse_def)
next
  case False
  then show ?thesis
    using frame_parse_consecutive [of d] by (auto simp: frame_parse_def Let_def fpr_ok_def)
qed

end
