(* ===== verification/Batcher.thy ===== *)
theory Batcher
  imports Frame_Parser
begin

text \<open>
  Packing messages into datagrams (\<open>include/qf/protocol/batcher.hpp\<close>,
  \<open>src/protocol/batcher.cpp\<close>). The batcher owns one buffer of \<open>MAX_DATAGRAM\<close> bytes; an operation
  that would copy past its end has the value \<open>None\<close>. A callback threads a state \<open>'s\<close>; the callers
  of the source send the datagram or append it to a list.
\<close>

record batcher =
  bt_buffer :: bytes
  bt_max_size :: nat
  bt_write_pos :: nat
  bt_msg_count :: u16
  bt_seq_num :: u64

definition batcher_new :: "nat \<Rightarrow> batcher" where
  "batcher_new max_datagram_size =
     \<lparr>bt_buffer = replicate MAX_DATAGRAM 0, bt_max_size = max_datagram_size,
      bt_write_pos = BATCH_HEADER_SIZE, bt_msg_count = 0, bt_seq_num = 0\<rparr>"

text \<open>The copy at the end of the batch that \<open>add\<close> and \<open>add_and_flush\<close> share.\<close>

definition batcher_append :: "batcher \<Rightarrow> bytes \<Rightarrow> batcher option" where
  "batcher_append b msg_data =
     (case mem_write (bt_buffer b) (bt_write_pos b) msg_data of
        None \<Rightarrow> None
      | Some buf \<Rightarrow>
          Some (b\<lparr>bt_buffer := buf, bt_write_pos := bt_write_pos b + length msg_data,
                  bt_msg_count := bt_msg_count b + 1\<rparr>))"

definition batcher_add :: "batcher \<Rightarrow> bytes option \<Rightarrow> (bool \<times> batcher) option" where
  "batcher_add b msg =
     (case msg of
        None \<Rightarrow> Some (False, b)
      | Some msg_data \<Rightarrow>
          if length msg_data = 0 then Some (False, b)
          else if bt_max_size b < bt_write_pos b + length msg_data then Some (False, b)
          else if bt_max_size b < BATCH_HEADER_SIZE + length msg_data then Some (False, b)
          else map_option (Pair True) (batcher_append b msg_data))"

definition write_header :: "batcher \<Rightarrow> batcher option" where
  "write_header b =
     (let header = \<lparr>seq_num = bt_seq_num b, msg_count = bt_msg_count b,
                    total_len = of_nat (bt_write_pos b)\<rparr> in
      case mem_write (bt_buffer b) 0 (batch_header_bytes header) of
        None \<Rightarrow> None
      | Some buf \<Rightarrow> Some (b\<lparr>bt_buffer := buf, bt_seq_num := bt_seq_num b + 1\<rparr>))"

definition batcher_flush :: "batcher \<Rightarrow> (bytes option \<times> batcher) option" where
  "batcher_flush b =
     (if bt_msg_count b = 0 then Some (None, b)
      else case write_header b of
             None \<Rightarrow> None
           | Some b1 \<Rightarrow>
               (case mem_read (bt_buffer b1) 0 (bt_write_pos b1) of
                  None \<Rightarrow> None
                | Some d \<Rightarrow>
                    Some (Some d, b1\<lparr>bt_write_pos := BATCH_HEADER_SIZE, bt_msg_count := 0\<rparr>)))"

definition flush_cb :: "('s \<Rightarrow> bytes \<Rightarrow> 's) \<Rightarrow> batcher \<Rightarrow> 's \<Rightarrow> (batcher \<times> 's) option" where
  "flush_cb callback b s =
     (if bt_msg_count b = 0 then Some (b, s)
      else case write_header b of
             None \<Rightarrow> None
           | Some b1 \<Rightarrow>
               (case mem_read (bt_buffer b1) 0 (bt_write_pos b1) of
                  None \<Rightarrow> None
                | Some d \<Rightarrow>
                    Some (b1\<lparr>bt_write_pos := BATCH_HEADER_SIZE, bt_msg_count := 0\<rparr>,
                          callback s d)))"

definition add_and_flush ::
  "('s \<Rightarrow> bytes \<Rightarrow> 's) \<Rightarrow> batcher \<Rightarrow> bytes option \<Rightarrow> 's \<Rightarrow> (bool \<times> batcher \<times> 's) option" where
  "add_and_flush callback b msg s =
     (case msg of
        None \<Rightarrow> Some (False, b, s)
      | Some msg_data \<Rightarrow>
          if length msg_data = 0 then Some (False, b, s)
          else if bt_max_size b < BATCH_HEADER_SIZE + length msg_data then Some (False, b, s)
          else
            case (if bt_max_size b < bt_write_pos b + length msg_data
                  then flush_cb callback b s else Some (b, s)) of
              None \<Rightarrow> None
            | Some (b1, s1) \<Rightarrow> map_option (\<lambda>b2. (True, b2, s1)) (batcher_append b1 msg_data))"

definition batcher_is_empty :: "batcher \<Rightarrow> bool" where
  "batcher_is_empty b \<longleftrightarrow> bt_msg_count b = 0"

definition batches_sent :: "batcher \<Rightarrow> u64" where
  "batches_sent b = bt_seq_num b"

text \<open>
  The use the simulator makes of it: messages are added one after another, the datagrams collected
  in order, and the last batch flushed.
\<close>

fun send_all :: "batcher \<Rightarrow> bytes list \<Rightarrow> bytes list \<Rightarrow> (batcher \<times> bytes list) option" where
  "send_all b [] out = flush_cb (\<lambda>s d. s @ [d]) b out"
| "send_all b (m # ms) out =
     (case add_and_flush (\<lambda>s d. s @ [d]) b (Some m) out of
        None \<Rightarrow> None
      | Some (_, b', out') \<Rightarrow> send_all b' ms out')"

section \<open>What the buffer holds\<close>

text \<open>
  \<open>batch_holds b ms\<close>: the batch under construction is the messages \<open>ms\<close>, in order, after room for
  the header. It needs a limit that the buffer can hold.
\<close>

definition batch_holds :: "batcher \<Rightarrow> bytes list \<Rightarrow> bool" where
  "batch_holds b ms \<longleftrightarrow>
     length (bt_buffer b) = MAX_DATAGRAM \<and> BATCH_HEADER_SIZE \<le> bt_max_size b
     \<and> bt_max_size b \<le> MAX_DATAGRAM \<and> bt_write_pos b \<le> bt_max_size b
     \<and> bt_write_pos b = BATCH_HEADER_SIZE + length (concat ms)
     \<and> take (length (concat ms)) (drop BATCH_HEADER_SIZE (bt_buffer b)) = concat ms
     \<and> unat (bt_msg_count b) = length ms \<and> [] \<notin> set ms"

lemma batch_holds_new:
  "BATCH_HEADER_SIZE \<le> n \<Longrightarrow> n \<le> MAX_DATAGRAM \<Longrightarrow> batch_holds (batcher_new n) []"
  by (simp add: batch_holds_def batcher_new_def)

lemma length_le_concat: "[] \<notin> set ms \<Longrightarrow> length ms \<le> length (concat ms)"
proof (induction ms)
  case (Cons m ms)
  then show ?case by (cases m) auto
qed simp

lemma batch_holds_count: "batch_holds b ms \<Longrightarrow> length ms \<le> 1388"
  using length_le_concat [of ms]
  by (auto simp: batch_holds_def BATCH_HEADER_SIZE_def MAX_DATAGRAM_def)

lemma batch_holds_empty: "batch_holds b ms \<Longrightarrow> bt_msg_count b = 0 \<longleftrightarrow> ms = []"
  by (auto simp: batch_holds_def unat_eq_zero)

lemma batcher_append_holds:
  assumes h: "batch_holds b ms" and m: "m \<noteq> []" and fits: "bt_write_pos b + length m \<le> bt_max_size b"
  obtains b' where "batcher_append b m = Some b'" "batch_holds b' (ms @ [m])"
    "bt_max_size b' = bt_max_size b" "bt_seq_num b' = bt_seq_num b"
proof -
  let ?p = "bt_write_pos b"
  have room: "?p + length m \<le> length (bt_buffer b)" and pos: "?p = BATCH_HEADER_SIZE + length (concat ms)"
    using h fits by (auto simp: batch_holds_def)
  let ?buf = "take ?p (bt_buffer b) @ m @ drop (?p + length m) (bt_buffer b)"
  let ?b = "b\<lparr>bt_buffer := ?buf, bt_write_pos := ?p + length m, bt_msg_count := bt_msg_count b + 1\<rparr>"
  have app: "batcher_append b m = Some ?b"
    using room by (simp add: batcher_append_def mem_write_def)
  have "take (length (concat (ms @ [m]))) (drop BATCH_HEADER_SIZE ?buf) = concat (ms @ [m])"
    using h room pos by (simp add: batch_holds_def drop_take)
  moreover have "unat (bt_msg_count b + 1) = length (ms @ [m])"
    using h batch_holds_count [OF h] by (simp add: batch_holds_def unat_word_ariths)
  ultimately have "batch_holds ?b (ms @ [m])"
    using h m fits room pos by (simp add: batch_holds_def)
  then show ?thesis using app that by simp
qed

text \<open>A flushed datagram: a header that numbers it, counts its messages and gives its length.\<close>

definition datagram :: "u64 \<Rightarrow> bytes list \<Rightarrow> bytes" where
  "datagram k ms =
     batch_header_bytes \<lparr>seq_num = k, msg_count = of_nat (length ms),
       total_len = of_nat (BATCH_HEADER_SIZE + length (concat ms))\<rparr> @ concat ms"

lemma length_datagram [simp]: "length (datagram k ms) = BATCH_HEADER_SIZE + length (concat ms)"
  by (simp add: datagram_def)

lemma write_header_holds:
  assumes h: "batch_holds b ms"
  obtains b1 where "write_header b = Some b1"
    "mem_read (bt_buffer b1) 0 (bt_write_pos b1) = Some (datagram (bt_seq_num b) ms)"
    "batch_holds (b1\<lparr>bt_write_pos := BATCH_HEADER_SIZE, bt_msg_count := 0\<rparr>) []"
    "bt_max_size b1 = bt_max_size b" "bt_seq_num b1 = bt_seq_num b + 1"
proof -
  let ?h = "batch_header_bytes \<lparr>seq_num = bt_seq_num b, msg_count = bt_msg_count b,
    total_len = of_nat (bt_write_pos b)\<rparr>"
  let ?b = "b\<lparr>bt_buffer := ?h @ drop BATCH_HEADER_SIZE (bt_buffer b), bt_seq_num := bt_seq_num b + 1\<rparr>"
  have cnt: "bt_msg_count b = of_nat (length ms)"
    using h by (intro unat_eq_of_nat) (simp add: batch_holds_def)
  have "write_header b = Some ?b"
    using h by (simp add: write_header_def mem_write_def batch_holds_def)
  moreover have "mem_read (bt_buffer ?b) 0 (bt_write_pos ?b) = Some (datagram (bt_seq_num b) ms)"
    using h cnt by (simp add: mem_read_def batch_holds_def datagram_def)
  moreover have "batch_holds (?b\<lparr>bt_write_pos := BATCH_HEADER_SIZE, bt_msg_count := 0\<rparr>) []"
    using h by (simp add: batch_holds_def)
  ultimately show ?thesis using that [of ?b] by simp
qed

lemma flush_cb_holds:
  assumes h: "batch_holds b ms" and ne: "ms \<noteq> []"
  obtains b' where "flush_cb cb b s = Some (b', cb s (datagram (bt_seq_num b) ms))"
    "batch_holds b' []" "bt_max_size b' = bt_max_size b" "bt_seq_num b' = bt_seq_num b + 1"
proof -
  from write_header_holds [OF h] obtain b1 where b1: "write_header b = Some b1"
    "mem_read (bt_buffer b1) 0 (bt_write_pos b1) = Some (datagram (bt_seq_num b) ms)"
    "batch_holds (b1\<lparr>bt_write_pos := BATCH_HEADER_SIZE, bt_msg_count := 0\<rparr>) []"
    "bt_max_size b1 = bt_max_size b" "bt_seq_num b1 = bt_seq_num b + 1" .
  show ?thesis
    by (rule that [of "b1\<lparr>bt_write_pos := BATCH_HEADER_SIZE, bt_msg_count := 0\<rparr>"])
      (use b1 batch_holds_empty [OF h] ne in \<open>simp_all add: flush_cb_def\<close>)
qed

lemma batcher_flush_holds:
  assumes h: "batch_holds b ms" and ne: "ms \<noteq> []"
  obtains b' where "batcher_flush b = Some (Some (datagram (bt_seq_num b) ms), b')"
    "batch_holds b' []" "bt_max_size b' = bt_max_size b" "bt_seq_num b' = bt_seq_num b + 1"
proof -
  from write_header_holds [OF h] obtain b1 where b1: "write_header b = Some b1"
    "mem_read (bt_buffer b1) 0 (bt_write_pos b1) = Some (datagram (bt_seq_num b) ms)"
    "batch_holds (b1\<lparr>bt_write_pos := BATCH_HEADER_SIZE, bt_msg_count := 0\<rparr>) []"
    "bt_max_size b1 = bt_max_size b" "bt_seq_num b1 = bt_seq_num b + 1" .
  show ?thesis
    by (rule that [of "b1\<lparr>bt_write_pos := BATCH_HEADER_SIZE, bt_msg_count := 0\<rparr>"])
      (use b1 batch_holds_empty [OF h] ne in \<open>simp_all add: batcher_flush_def\<close>)
qed

lemma flush_cb_empty: "batch_holds b [] \<Longrightarrow> flush_cb cb b s = Some (b, s)"
  using batch_holds_empty [of b "[]"] by (simp add: flush_cb_def)

section \<open>A whole run\<close>

text \<open>
  The datagrams of a run, numbered from \<open>k\<close>: the batches of a grouping of the messages, none
  empty and none above the limit.
\<close>

fun datagrams :: "u64 \<Rightarrow> bytes list list \<Rightarrow> bytes list" where
  "datagrams k [] = []"
| "datagrams k (g # gs) = datagram k g # datagrams (k + 1) gs"

definition grouping :: "nat \<Rightarrow> bytes list list \<Rightarrow> bool" where
  "grouping n gs \<longleftrightarrow> (\<forall>g \<in> set gs. g \<noteq> [] \<and> BATCH_HEADER_SIZE + length (concat g) \<le> n)"

lemma batch_holds_fits:
  "batch_holds b ms \<Longrightarrow> BATCH_HEADER_SIZE + length (concat ms) \<le> bt_max_size b"
  by (simp add: batch_holds_def)

lemma add_and_flush_holds:
  assumes h: "batch_holds b ms" and m: "m \<noteq> []"
    and fits: "BATCH_HEADER_SIZE + length m \<le> bt_max_size b"
  shows "(\<exists>b'. add_and_flush cb b (Some m) s = Some (True, b', s) \<and> batch_holds b' (ms @ [m])
            \<and> bt_max_size b' = bt_max_size b \<and> bt_seq_num b' = bt_seq_num b)
       \<or> (\<exists>b'. add_and_flush cb b (Some m) s = Some (True, b', cb s (datagram (bt_seq_num b) ms))
            \<and> ms \<noteq> [] \<and> batch_holds b' [m]
            \<and> bt_max_size b' = bt_max_size b \<and> bt_seq_num b' = bt_seq_num b + 1)"
proof (cases "bt_write_pos b + length m \<le> bt_max_size b")
  case True
  from batcher_append_holds [OF h m True] obtain b' where
    "batcher_append b m = Some b'" "batch_holds b' (ms @ [m])"
    "bt_max_size b' = bt_max_size b" "bt_seq_num b' = bt_seq_num b" .
  then show ?thesis
    using m fits True by (intro disjI1 exI [of _ b']) (simp add: add_and_flush_def)
next
  case False
  then have ne: "ms \<noteq> []"
    using h fits by (auto simp: batch_holds_def)
  from flush_cb_holds [OF h ne] obtain b1 where
    b1: "flush_cb cb b s = Some (b1, cb s (datagram (bt_seq_num b) ms))" "batch_holds b1 []"
    "bt_max_size b1 = bt_max_size b" "bt_seq_num b1 = bt_seq_num b + 1" .
  have "bt_write_pos b1 + length m \<le> bt_max_size b1"
    using b1 fits by (simp add: batch_holds_def)
  from batcher_append_holds [OF b1(2) m this] obtain b' where
    "batcher_append b1 m = Some b'" "batch_holds b' [m]"
    "bt_max_size b' = bt_max_size b1" "bt_seq_num b' = bt_seq_num b1" by auto
  then show ?thesis
    using m fits False ne b1 by (intro disjI2 exI [of _ b']) (simp add: add_and_flush_def)
qed

lemma send_all_groups:
  assumes "batch_holds b cur" and "\<forall>m \<in> set ms. m \<noteq> [] \<and> BATCH_HEADER_SIZE + length m \<le> bt_max_size b"
  shows "\<exists>b' gs. send_all b ms out = Some (b', out @ datagrams (bt_seq_num b) gs)
    \<and> concat gs = cur @ ms \<and> grouping (bt_max_size b) gs"
  using assms
proof (induction ms arbitrary: b cur out)
  case Nil
  show ?case
  proof (cases "cur = []")
    case True
    then show ?thesis using Nil flush_cb_empty [of b]
      by (intro exI [of _ b] exI [of _ "[]"]) (simp add: grouping_def)
  next
    case False
    from flush_cb_holds [OF Nil(1) False] obtain b' where
      "flush_cb (\<lambda>s d. s @ [d]) b out = Some (b', out @ [datagram (bt_seq_num b) cur])" .
    then show ?thesis using False batch_holds_fits [OF Nil(1)]
      by (intro exI [of _ b'] exI [of _ "[cur]"]) (simp add: grouping_def)
  qed
next
  case (Cons m ms)
  have m: "m \<noteq> []" "BATCH_HEADER_SIZE + length m \<le> bt_max_size b"
    using Cons.prems(2) by auto
  let ?cb = "\<lambda>s d. s @ [d]"
  from add_and_flush_holds [OF Cons.prems(1) m, of ?cb out] show ?case
  proof (elim disjE exE conjE)
    fix b1
    assume b1: "add_and_flush ?cb b (Some m) out = Some (True, b1, out)"
      "batch_holds b1 (cur @ [m])" "bt_max_size b1 = bt_max_size b" "bt_seq_num b1 = bt_seq_num b"
    from Cons.IH [OF b1(2), of out] Cons.prems(2) b1 show ?thesis by simp
  next
    fix b1
    assume b1: "add_and_flush ?cb b (Some m) out = Some (True, b1, out @ [datagram (bt_seq_num b) cur])"
      "cur \<noteq> []" "batch_holds b1 [m]" "bt_max_size b1 = bt_max_size b"
      "bt_seq_num b1 = bt_seq_num b + 1"
    from Cons.IH [OF b1(3), of "out @ [datagram (bt_seq_num b) cur]"] Cons.prems(2) b1
    obtain b' gs where gs: "send_all b1 ms (out @ [datagram (bt_seq_num b) cur])
        = Some (b', (out @ [datagram (bt_seq_num b) cur]) @ datagrams (bt_seq_num b1) gs)"
      "concat gs = [m] @ ms" "grouping (bt_max_size b) gs"
      by auto
    then show ?thesis
      using b1 batch_holds_fits [OF Cons.prems(1)]
      by (intro exI [of _ b'] exI [of _ "cur # gs"]) (simp add: grouping_def)
  qed
qed

lemma length_datagrams [simp]: "length (datagrams k gs) = length gs"
  by (induction gs arbitrary: k) auto

lemma datagrams_nth: "i < length gs \<Longrightarrow> datagrams k gs ! i = datagram (k + of_nat i) (gs ! i)"
proof (induction gs arbitrary: k i)
  case (Cons g gs)
  then show ?case by (cases i) (simp_all add: algebra_simps)
qed simp

text \<open>The messages the frame parser finds in a datagram.\<close>

definition parsed_messages :: "bytes \<Rightarrow> bytes list" where
  "parsed_messages d = map (view_bytes d) (fpr_messages (frame_parse (Some d)))"

lemma frame_parse_datagram:
  assumes "\<forall>m \<in> set ms. well_framed m"
  shows "frame_parse (Some (datagram k ms)) =
    \<lparr>fpr_batch_header = \<lparr>seq_num = k, msg_count = of_nat (length ms),
        total_len = of_nat (BATCH_HEADER_SIZE + length (concat ms))\<rparr>,
     fpr_messages = views_from BATCH_HEADER_SIZE ms, fpr_error = Ok\<rparr>"
  using frame_parse_batch [OF assms, of "[]"] by (simp add: datagram_def sizeof_header_def)

lemma parsed_messages_datagram:
  assumes "\<forall>m \<in> set ms. well_framed m"
  shows "parsed_messages (datagram k ms) = ms"
proof -
  have "map (view_bytes (datagram k ms)) (views_from BATCH_HEADER_SIZE ms) = ms"
    unfolding datagram_def using view_bytes_views_from [of "batch_header_bytes h" ms "[]" for h] by simp
  then show ?thesis
    by (simp add: parsed_messages_def frame_parse_datagram [OF assms])
qed

lemma concat_parsed_datagrams:
  assumes "\<forall>m \<in> set (concat gs). well_framed m"
  shows "concat (map parsed_messages (datagrams k gs)) = concat gs"
  using assms by (induction gs arbitrary: k) (auto simp: parsed_messages_datagram)

lemma well_framed_nonempty: "well_framed m \<Longrightarrow> m \<noteq> []"
  by (auto simp: well_framed_def sizeof_header_def)

lemma send_all_new:
  assumes "BATCH_HEADER_SIZE \<le> n" and "n \<le> MAX_DATAGRAM"
    and "\<forall>m \<in> set ms. well_framed m \<and> BATCH_HEADER_SIZE + length m \<le> n"
  obtains b gs where "send_all (batcher_new n) ms [] = Some (b, datagrams 0 gs)"
    "concat gs = ms" "grouping n gs"
proof -
  have "\<forall>m \<in> set ms. m \<noteq> [] \<and> BATCH_HEADER_SIZE + length m \<le> bt_max_size (batcher_new n)"
    using assms(3) by (auto simp: batcher_new_def dest: well_framed_nonempty)
  from send_all_groups [OF batch_holds_new [OF assms(1,2)] this, of "[]"] that show ?thesis
    by (auto simp: batcher_new_def)
qed

text \<open>Messages as the sender encodes them, each with its timestamp.\<close>

definition encoded :: "(parsed_message \<times> timestamp) list \<Rightarrow> bytes list" where
  "encoded ms = map (\<lambda>(m, ts). wire m ts) ms"

lemma encoded_framed:
  "\<forall>b \<in> set (encoded ms). well_framed b \<and> BATCH_HEADER_SIZE + length b \<le> MAX_DATAGRAM"
  using order.trans [OF wire_size_bounds(2), of 1388]
  by (auto simp: encoded_def BATCH_HEADER_SIZE_def MAX_DATAGRAM_def)

section \<open>Properties\<close>

text \<open>
  C4. Any sequence of well-framed messages that each fit a datagram, sent through \<open>add_and_flush\<close>
  and a final \<open>flush\<close> of a fresh batcher whose limit the buffer can hold, never leaves the buffer;
  the datagrams respect the limit, are numbered consecutively from 0, announce their own length and
  message count, and the frame parser finds in them exactly the messages that were sent, in order.
\<close>

theorem batcher_roundtrip:
  assumes "BATCH_HEADER_SIZE \<le> n" and "n \<le> MAX_DATAGRAM"
    and "\<forall>m \<in> set ms. well_framed m \<and> BATCH_HEADER_SIZE + length m \<le> n"
  shows "\<exists>b ds. send_all (batcher_new n) ms [] = Some (b, ds)
    \<and> concat (map parsed_messages ds) = ms
    \<and> (\<forall>i < length ds. length (ds ! i) \<le> n \<and> fpr_ok (frame_parse (Some (ds ! i)))
         \<and> fpr_batch_header (frame_parse (Some (ds ! i))) =
             \<lparr>seq_num = of_nat i, msg_count = of_nat (length (parsed_messages (ds ! i))),
              total_len = of_nat (length (ds ! i))\<rparr>)"
proof -
  from send_all_new [OF assms] obtain b gs where
    gs: "send_all (batcher_new n) ms [] = Some (b, datagrams 0 gs)" "concat gs = ms" "grouping n gs" .
  have wf: "\<forall>m \<in> set (concat gs). well_framed m"
    using gs(2) assms(3) by simp
  have each: "length d \<le> n \<and> fpr_ok (frame_parse (Some d)) \<and> fpr_batch_header (frame_parse (Some d)) =
      \<lparr>seq_num = of_nat i, msg_count = of_nat (length (parsed_messages d)), total_len = of_nat (length d)\<rparr>"
    if i: "i < length gs" and d: "d = datagrams 0 gs ! i" for i d
  proof -
    have g: "gs ! i \<in> set gs" "\<forall>m \<in> set (gs ! i). well_framed m"
      using i wf by auto
    have "d = datagram (of_nat i) (gs ! i)"
      using datagrams_nth [OF i, of 0] d by simp
    then show ?thesis
      using gs(3) g frame_parse_datagram [OF g(2)] parsed_messages_datagram [OF g(2)]
      by (simp add: grouping_def fpr_ok_def)
  qed
  show ?thesis
    using gs concat_parsed_datagrams [OF wf] each
    by (intro exI [of _ b] exI [of _ "datagrams 0 gs"]) auto
qed

theorem batcher_roundtrip_witness:
  "\<exists>b ds. send_all (batcher_new 60) [wire (CancelOrder \<lparr>co_order_id = 7\<rparr>) 1,
       wire (ExecuteOrder \<lparr>eo_order_id = 7, eo_exec_quantity = 5\<rparr>) 2,
       wire (CancelOrder \<lparr>co_order_id = 8\<rparr>) 3] [] = Some (b, ds)
    \<and> concat (map parsed_messages ds) = [wire (CancelOrder \<lparr>co_order_id = 7\<rparr>) 1,
       wire (ExecuteOrder \<lparr>eo_order_id = 7, eo_exec_quantity = 5\<rparr>) 2,
       wire (CancelOrder \<lparr>co_order_id = 8\<rparr>) 3]"
  using batcher_roundtrip [of 60 "[wire (CancelOrder \<lparr>co_order_id = 7\<rparr>) 1,
       wire (ExecuteOrder \<lparr>eo_order_id = 7, eo_exec_quantity = 5\<rparr>) 2,
       wire (CancelOrder \<lparr>co_order_id = 8\<rparr>) 3]"]
  by (auto simp: BATCH_HEADER_SIZE_def MAX_DATAGRAM_def)

text \<open>
  The constructor accepts any limit, but the buffer has \<open>MAX_DATAGRAM\<close> bytes: with a larger
  limit, a message that the guards of \<open>add\<close> and \<open>add_and_flush\<close> accept is copied past its end.
\<close>

theorem batcher_oversize_overrun:
  "\<exists>n msg. batcher_add (batcher_new n) (Some msg) = None
     \<and> add_and_flush cb (batcher_new n) (Some msg) s = None"
  by (intro exI [of _ 2000] exI [of _ "replicate 1389 0"])
    (simp add: batcher_add_def add_and_flush_def batcher_append_def mem_write_def batcher_new_def
      BATCH_HEADER_SIZE_def MAX_DATAGRAM_def)

end
