(* ===== verification/Order_Store.thy ===== *)
theory Order_Store
  imports Common_Types
begin

text \<open>
  The store of live orders (\<open>include/qf/core/order_store.hpp\<close>, \<open>src/core/order_store.cpp\<close>) and the
  aggregate of a price (\<open>include/qf/core/price_level.hpp\<close>). The hash map is a finite map; a pointer
  that \<open>find\<close> returns is the order it points at, and a write through it is \<open>store_modify\<close>.
\<close>

record order_store =
  os_orders :: "order_id \<rightharpoonup> order"

definition order_store_new :: order_store where
  "order_store_new = \<lparr>os_orders = Map.empty\<rparr>"

definition store_add :: "order_store \<Rightarrow> order \<Rightarrow> bool \<times> order_store" where
  "store_add s ord =
     (case os_orders s (o_order_id ord) of
        Some _ \<Rightarrow> (False, s)
      | None \<Rightarrow> (True, s\<lparr>os_orders := (os_orders s)(o_order_id ord \<mapsto> ord)\<rparr>))"

definition store_find :: "order_store \<Rightarrow> order_id \<Rightarrow> order option" where
  "store_find s oid = os_orders s oid"

definition store_remove :: "order_store \<Rightarrow> order_id \<Rightarrow> order option \<times> order_store" where
  "store_remove s oid =
     (case os_orders s oid of
        None \<Rightarrow> (None, s)
      | Some removed \<Rightarrow> (Some removed, s\<lparr>os_orders := (os_orders s)(oid := None)\<rparr>))"

definition store_modify :: "order_store \<Rightarrow> order_id \<Rightarrow> (order \<Rightarrow> order) \<Rightarrow> order_store" where
  "store_modify s oid f =
     (case os_orders s oid of
        None \<Rightarrow> s
      | Some ord \<Rightarrow> s\<lparr>os_orders := (os_orders s)(oid \<mapsto> f ord)\<rparr>)"

definition update_price_qty :: "order_store \<Rightarrow> order_id \<Rightarrow> price \<Rightarrow> quantity \<Rightarrow> bool \<times> order_store" where
  "update_price_qty s oid new_price new_qty =
     (case os_orders s oid of
        None \<Rightarrow> (False, s)
      | Some ord \<Rightarrow>
          (True, s\<lparr>os_orders := (os_orders s)(oid \<mapsto>
                     ord\<lparr>o_price := new_price, o_remaining_quantity := new_qty\<rparr>)\<rparr>))"

definition reduce_quantity :: "order_store \<Rightarrow> order_id \<Rightarrow> quantity \<Rightarrow> bool \<times> order_store" where
  "reduce_quantity s oid amount =
     (case os_orders s oid of
        None \<Rightarrow> (False, s)
      | Some ord \<Rightarrow>
          if o_remaining_quantity ord < amount then (False, s)
          else (True, s\<lparr>os_orders := (os_orders s)(oid \<mapsto>
                  ord\<lparr>o_remaining_quantity := o_remaining_quantity ord - amount\<rparr>)\<rparr>))"

definition store_size :: "order_store \<Rightarrow> nat" where
  "store_size s = card (dom (os_orders s))"

definition store_clear :: "order_store \<Rightarrow> order_store" where
  "store_clear s = s\<lparr>os_orders := Map.empty\<rparr>"

section \<open>Price levels\<close>

record price_level =
  pl_price :: price
  pl_total_quantity :: quantity
  pl_order_count :: u32

definition price_level_new :: price_level where
  "price_level_new = \<lparr>pl_price = 0, pl_total_quantity = 0, pl_order_count = 0\<rparr>"

definition level_add :: "price_level \<Rightarrow> quantity \<Rightarrow> price_level" where
  "level_add l qty =
     l\<lparr>pl_total_quantity := pl_total_quantity l + qty, pl_order_count := pl_order_count l + 1\<rparr>"

definition level_remove :: "price_level \<Rightarrow> quantity \<Rightarrow> bool \<times> price_level" where
  "level_remove l qty =
     (let l1 = l\<lparr>pl_total_quantity :=
                   if pl_total_quantity l \<le> qty then 0 else pl_total_quantity l - qty\<rparr>;
          l2 = (if 0 < pl_order_count l1 then l1\<lparr>pl_order_count := pl_order_count l1 - 1\<rparr> else l1)
      in (pl_order_count l2 = 0, l2))"

definition level_modify :: "price_level \<Rightarrow> quantity \<Rightarrow> quantity \<Rightarrow> price_level" where
  "level_modify l old_qty new_qty =
     (let l1 = l\<lparr>pl_total_quantity :=
                   if pl_total_quantity l \<le> old_qty then 0 else pl_total_quantity l - old_qty\<rparr>
      in l1\<lparr>pl_total_quantity := pl_total_quantity l1 + new_qty\<rparr>)"

definition level_is_empty :: "price_level \<Rightarrow> bool" where
  "level_is_empty l \<longleftrightarrow> pl_order_count l = 0"

section \<open>The contract of the store\<close>

text \<open>
  What a client of the store relies on, in terms of the orders it can find: an insertion is
  refused exactly for a key that is present, a removal returns what was found, and no operation
  touches another key.
\<close>

locale keyed_store =
  fixes find :: "'s \<Rightarrow> 'k \<Rightarrow> 'v option"
    and key :: "'v \<Rightarrow> 'k"
    and add :: "'s \<Rightarrow> 'v \<Rightarrow> bool \<times> 's"
    and remove :: "'s \<Rightarrow> 'k \<Rightarrow> 'v option \<times> 's"
    and modify :: "'s \<Rightarrow> 'k \<Rightarrow> ('v \<Rightarrow> 'v) \<Rightarrow> 's"
  assumes add_ok: "fst (add s v) \<longleftrightarrow> find s (key v) = None"
    and find_add: "find (snd (add s v)) k =
      (if k = key v \<and> find s k = None then Some v else find s k)"
    and remove_ok: "fst (remove s k) = find s k"
    and find_remove: "find (snd (remove s k)) k' = (if k' = k then None else find s k')"
    and find_modify: "find (modify s k f) k' = (if k' = k then map_option f (find s k) else find s k')"
begin

definition keyed :: "'s \<Rightarrow> bool" where
  "keyed s \<longleftrightarrow> (\<forall>k v. find s k = Some v \<longrightarrow> key v = k)"

lemma keyed_add: "keyed s \<Longrightarrow> keyed (snd (add s v))"
  by (auto simp: keyed_def find_add split: if_splits)

lemma keyed_remove: "keyed s \<Longrightarrow> keyed (snd (remove s k))"
  by (auto simp: keyed_def find_remove split: if_splits)

lemma keyed_modify: "keyed s \<Longrightarrow> (\<And>v. key (f v) = key v) \<Longrightarrow> keyed (modify s k f)"
  by (auto simp: keyed_def find_modify split: if_splits)

lemma add_remove:
  "find s (key v) = None \<Longrightarrow> fst (remove (snd (add s v)) (key v)) = Some v
     \<and> find (snd (remove (snd (add s v)) (key v))) = find s"
  by (auto simp: remove_ok find_remove find_add fun_eq_iff)

end

lemmas store_defs = store_add_def store_find_def store_remove_def store_modify_def

interpretation ostore: keyed_store store_find o_order_id store_add store_remove store_modify
  by unfold_locales (auto simp: store_defs split: option.splits)

lemma reduce_quantity_spec:
  "reduce_quantity s oid amount = (ok, s') \<Longrightarrow>
     (ok \<longleftrightarrow> (\<exists>ord. store_find s oid = Some ord \<and> amount \<le> o_remaining_quantity ord))
     \<and> s' = (if ok then store_modify s oid
              (\<lambda>ord. ord\<lparr>o_remaining_quantity := o_remaining_quantity ord - amount\<rparr>) else s)"
  by (auto simp: reduce_quantity_def store_defs not_less split: option.splits if_splits)

lemma update_price_qty_spec:
  "update_price_qty s oid p q = (ok, s') \<Longrightarrow>
     (ok \<longleftrightarrow> store_find s oid \<noteq> None)
     \<and> s' = store_modify s oid (\<lambda>ord. ord\<lparr>o_price := p, o_remaining_quantity := q\<rparr>)"
  by (auto simp: update_price_qty_def store_defs split: option.splits)

section \<open>Levels as aggregates\<close>

text \<open>
  The level that stands for \<open>c\<close> orders of total quantity \<open>n\<close>. It is what the two counters hold as
  long as neither wraps.
\<close>

definition level_for :: "price \<Rightarrow> nat \<Rightarrow> nat \<Rightarrow> price_level" where
  "level_for p n c = \<lparr>pl_price = p, pl_total_quantity = of_nat n, pl_order_count = of_nat c\<rparr>"

lemma level_add_for:
  "level_add (level_for p n c) q = level_for p (n + unat q) (Suc c)"
  by (simp add: level_add_def level_for_def add.commute)

lemma level_remove_for:
  assumes "unat q \<le> n" "n < 2 ^ 32" "c < 2 ^ 32" "0 < c"
  shows "level_remove (level_for p n c) q = (c = 1, level_for p (n - unat q) (c - 1))"
proof -
  have tot: "(if (of_nat n :: u32) \<le> q then 0 else of_nat n - q) = of_nat (n - unat q)"
  proof (cases "(of_nat n :: u32) \<le> q")
    case True
    then have "n \<le> unat q"
      using assms(2) by (simp add: word_le_nat_alt unat_of_nat)
    then show ?thesis using True by simp
  qed (use assms(1) in \<open>simp add: of_nat_diff\<close>)
  have cnt: "0 < (of_nat c :: u32)" "(of_nat c :: u32) - 1 = of_nat (c - 1)"
    using assms(3,4) by (auto simp: word_gt_0 of_nat_diff word_of_nat_eq_0_iff dvd_imp_le)
  have "((of_nat (c - 1) :: u32) = 0) = (c = 1)"
    using assms(3,4) of_nat_eq_0_small [of "c - 1", where 'a = 32] by auto
  then show ?thesis
    using tot cnt by (auto simp: level_remove_def level_for_def Let_def split: if_splits)
qed

end
