(* ===== verification/Ordered_Map.thy ===== *)
theory Ordered_Map
  imports Prelude
begin

text \<open>
  \<open>std::map\<close> as the program uses it: an association list in the order of its comparator. The
  comparator is a parameter of the operations, because the order book keeps one side under
  \<open>std::greater\<close> and the other under the default \<open>std::less\<close>. The locale \<open>strict_order\<close> is what the
  container asks of a comparator; it is interpreted for both.
\<close>

fun om_insert :: "('k \<Rightarrow> 'k \<Rightarrow> bool) \<Rightarrow> 'k \<Rightarrow> 'v \<Rightarrow> ('k \<times> 'v) list \<Rightarrow> ('k \<times> 'v) list" where
  "om_insert lt k v [] = [(k, v)]"
| "om_insert lt k v ((k', v') # m) =
     (if k = k' then (k, v) # m
      else if lt k k' then (k, v) # (k', v') # m
      else (k', v') # om_insert lt k v m)"

definition om_erase :: "'k \<Rightarrow> ('k \<times> 'v) list \<Rightarrow> ('k \<times> 'v) list" where
  "om_erase k m = filter (\<lambda>(k', _). k' \<noteq> k) m"

abbreviation om_find :: "('k \<times> 'v) list \<Rightarrow> 'k \<Rightarrow> 'v option" where
  "om_find m k \<equiv> map_of m k"

definition om_begin :: "('k \<times> 'v) list \<Rightarrow> ('k \<times> 'v) option" where
  "om_begin m = (case m of [] \<Rightarrow> None | e # _ \<Rightarrow> Some e)"

definition om_sorted :: "('k \<Rightarrow> 'k \<Rightarrow> bool) \<Rightarrow> ('k \<times> 'v) list \<Rightarrow> bool" where
  "om_sorted lt m \<longleftrightarrow> sorted_wrt lt (map fst m)"

lemma om_sorted_Nil [simp]: "om_sorted lt []"
  by (simp add: om_sorted_def)

lemma om_sorted_Cons: "om_sorted lt ((k, v) # m) \<longleftrightarrow> (\<forall>k' \<in> fst ` set m. lt k k') \<and> om_sorted lt m"
  by (simp add: om_sorted_def)

lemma set_om_insert: "fst ` set (om_insert lt k v m) = insert k (fst ` set m)"
  by (induction lt k v m rule: om_insert.induct) auto

lemma map_of_om_insert [simp]: "map_of (om_insert lt k v m) = (map_of m)(k \<mapsto> v)"
  by (induction lt k v m rule: om_insert.induct) (auto simp: fun_upd_twist)

lemma map_of_om_erase [simp]: "map_of (om_erase k m) = (map_of m)(k := None)"
  by (induction m) (auto simp: om_erase_def)

lemma om_sorted_erase [simp]: "om_sorted lt m \<Longrightarrow> om_sorted lt (om_erase k m)"
  unfolding om_sorted_def om_erase_def by (induction m) auto

lemma om_begin_Nil [simp]: "om_begin [] = None"
  by (simp add: om_begin_def)

lemma om_begin_None [simp]: "om_begin m = None \<longleftrightarrow> m = []"
  by (simp add: om_begin_def split: list.splits)

lemma om_empty_iff: "m = [] \<longleftrightarrow> map_of m = Map.empty"
  by (metis map_of.simps(1) map_of_eq_empty_iff)

locale strict_order =
  fixes lt :: "'k \<Rightarrow> 'k \<Rightarrow> bool"
  assumes irrefl: "\<not> lt k k"
    and trans: "lt a b \<Longrightarrow> lt b c \<Longrightarrow> lt a c"
    and total: "lt a b \<or> a = b \<or> lt b a"
begin

lemma om_sorted_insert [simp]: "om_sorted lt m \<Longrightarrow> om_sorted lt (om_insert lt k v m)"
proof (induction m)
  case (Cons e m)
  obtain k' v' where e: "e = (k', v')" by force
  consider "k = k'" | "lt k k'" | "k \<noteq> k'" "lt k' k" "\<not> lt k k'"
    using total [of k k'] by auto
  then show ?case
  proof cases
    case 2
    then show ?thesis
      using Cons.prems irrefl e by (auto simp: om_sorted_Cons intro: trans)
  qed (use Cons e in \<open>auto simp: om_sorted_Cons set_om_insert irrefl\<close>)
qed (simp add: om_sorted_Cons)

lemma om_sorted_distinct: "om_sorted lt m \<Longrightarrow> distinct (map fst m)"
  unfolding om_sorted_def by (induction m) (auto simp: irrefl)

lemma om_begin_least:
  assumes "om_sorted lt m" and "om_begin m = Some (k, v)"
  shows "map_of m k = Some v" and "map_of m k' = Some v' \<Longrightarrow> k' = k \<or> lt k k'"
  using assms by (auto simp: om_begin_def om_sorted_Cons split: list.splits if_splits dest: map_of_SomeD)
    (metis fst_conv image_eqI map_of_SomeD)

text \<open>A sorted list is determined by the map it represents.\<close>

lemma om_sorted_unique:
  "om_sorted lt m \<Longrightarrow> om_sorted lt m' \<Longrightarrow> map_of m = map_of m' \<Longrightarrow> m = m'"
proof (induction m arbitrary: m')
  case Nil
  then show ?case by (metis om_empty_iff)
next
  case (Cons e m)
  obtain k v where e: "e = (k, v)" by force
  have "m' \<noteq> []"
    using fun_cong [OF Cons.prems(3), of k] e by auto
  then obtain k' v' n where m': "m' = (k', v') # n"
    by (metis list.exhaust surj_pair)
  have at: "(if x = k then Some v else map_of m x) = (if x = k' then Some v' else map_of n x)" for x
    using fun_cong [OF Cons.prems(3), of x] e m' by simp
  have lts: "lt k x" if "map_of m x = Some y" for x y
    using Cons.prems(1) e map_of_SomeD [OF that] by (force simp: om_sorted_Cons)
  have lts': "lt k' x" if "map_of n x = Some y" for x y
    using Cons.prems(2) m' map_of_SomeD [OF that] by (force simp: om_sorted_Cons)
  have k: "k' = k"
  proof (rule ccontr)
    assume "k' \<noteq> k"
    then have "map_of n k = Some v" "map_of m k' = Some v'"
      using at [of k] at [of k'] by auto
    then show False using lts lts' trans irrefl by blast
  qed
  have notin: "map_of m k = None" "map_of n k = None"
    using lts [of k] lts' [of k] irrefl [of k] k by (cases "map_of m k"; cases "map_of n k"; simp)+
  have "v' = v"
    using at [of k] k by simp
  moreover have "map_of m = map_of n"
  proof
    fix x show "map_of m x = map_of n x"
      using at [of x] k notin by (cases "x = k") auto
  qed
  ultimately show ?case
    using Cons.IH [of n] Cons.prems e m' k by (simp add: om_sorted_Cons)
qed

end

interpretation asc: strict_order "(<) :: 'a::linorder \<Rightarrow> 'a \<Rightarrow> bool"
  by unfold_locales auto

interpretation desc: strict_order "(>) :: 'a::linorder \<Rightarrow> 'a \<Rightarrow> bool"
  by unfold_locales auto

end
