(* ===== verification/Order_Book.thy ===== *)
theory Order_Book
  imports Order_Store Ordered_Map
begin

text \<open>
  The limit order book of one symbol (\<open>include/qf/core/order_book.hpp\<close>,
  \<open>src/core/order_book.cpp\<close>). \<open>bids_\<close> is ordered by \<open>std::greater\<close>, \<open>asks_\<close> by \<open>std::less\<close>; the
  operations on a side take the comparator. \<open>spread\<close>, a difference of doubles for display, is not
  modelled.
\<close>

record order_book =
  ob_symbol :: symbol
  ob_store :: order_store
  ob_bids :: "(price \<times> price_level) list"
  ob_asks :: "(price \<times> price_level) list"

record book_snapshot =
  bs_symbol :: symbol
  bs_best_bid :: "price option"
  bs_best_ask :: "price option"
  bs_timestamp :: u64

record depth_level =
  dl_price :: price
  dl_quantity :: quantity
  dl_order_count :: u32

definition order_book_new :: "symbol \<Rightarrow> order_book" where
  "order_book_new symb = \<lparr>ob_symbol = symb, ob_store = order_store_new, ob_bids = [], ob_asks = []\<rparr>"

definition best_bid :: "order_book \<Rightarrow> price option" where
  "best_bid b = map_option fst (om_begin (ob_bids b))"

definition best_ask :: "order_book \<Rightarrow> price option" where
  "best_ask b = map_option fst (om_begin (ob_asks b))"

definition make_update :: "order_book \<Rightarrow> u64 \<Rightarrow> book_snapshot" where
  "make_update b ts = \<lparr>bs_symbol = ob_symbol b, bs_best_bid = best_bid b, bs_best_ask = best_ask b,
     bs_timestamp = ts\<rparr>"

section \<open>One side\<close>

definition level_insert ::
  "(price \<Rightarrow> price \<Rightarrow> bool) \<Rightarrow> price \<Rightarrow> quantity \<Rightarrow> (price \<times> price_level) list
     \<Rightarrow> (price \<times> price_level) list" where
  "level_insert lt price qty m =
     (let level = (case om_find m price of None \<Rightarrow> price_level_new | Some l \<Rightarrow> l);
          level1 = (if pl_price level = 0 then level\<lparr>pl_price := price\<rparr> else level)
      in om_insert lt price (level_add level1 qty) m)"

definition level_delete ::
  "(price \<Rightarrow> price \<Rightarrow> bool) \<Rightarrow> price \<Rightarrow> quantity \<Rightarrow> (price \<times> price_level) list
     \<Rightarrow> (price \<times> price_level) list" where
  "level_delete lt price qty m =
     (case om_find m price of
        None \<Rightarrow> m
      | Some l \<Rightarrow>
          let (emptied, l1) = level_remove l qty
          in if emptied then om_erase price m else om_insert lt price l1 m)"

text \<open>The lambda \<open>update_level\<close> of \<open>execute_order\<close>; the flag tells whether the order leaves the store.\<close>

definition update_level ::
  "(price \<Rightarrow> price \<Rightarrow> bool) \<Rightarrow> price \<Rightarrow> quantity \<Rightarrow> quantity \<Rightarrow> (price \<times> price_level) list
     \<Rightarrow> bool \<times> (price \<times> price_level) list" where
  "update_level lt price exec_qty remaining m =
     (case om_find m price of
        None \<Rightarrow> (False, m)
      | Some l \<Rightarrow>
          let l1 = l\<lparr>pl_total_quantity := pl_total_quantity l - exec_qty\<rparr> in
          if remaining = 0 then
            let l2 = l1\<lparr>pl_order_count := pl_order_count l1 - 1\<rparr>
            in (True, if level_is_empty l2 then om_erase price m else om_insert lt price l2 m)
          else (False, om_insert lt price l1 m))"

definition add_to_side :: "order_book \<Rightarrow> side \<Rightarrow> price \<Rightarrow> quantity \<Rightarrow> order_book" where
  "add_to_side b sd price qty =
     (if sd = Side_Buy then b\<lparr>ob_bids := level_insert (>) price qty (ob_bids b)\<rparr>
      else b\<lparr>ob_asks := level_insert (<) price qty (ob_asks b)\<rparr>)"

definition remove_from_side :: "order_book \<Rightarrow> side \<Rightarrow> price \<Rightarrow> quantity \<Rightarrow> order_book" where
  "remove_from_side b sd price qty =
     (if sd = Side_Buy then b\<lparr>ob_bids := level_delete (>) price qty (ob_bids b)\<rparr>
      else b\<lparr>ob_asks := level_delete (<) price qty (ob_asks b)\<rparr>)"

section \<open>Operations\<close>

definition book_add_order ::
  "order_book \<Rightarrow> order_id \<Rightarrow> side \<Rightarrow> price \<Rightarrow> quantity \<Rightarrow> u64 \<Rightarrow> book_snapshot option \<times> order_book" where
  "book_add_order b oid sd price qty ts =
     (let ord = \<lparr>o_order_id = oid, o_symbol = ob_symbol b, o_side = sd, o_price = price,
                 o_remaining_quantity = qty, o_timestamp = ts\<rparr>;
          (inserted, store) = store_add (ob_store b) ord
      in if \<not> inserted then (None, b)
         else let b1 = add_to_side (b\<lparr>ob_store := store\<rparr>) sd price qty
              in (Some (make_update b1 ts), b1))"

definition book_cancel_order :: "order_book \<Rightarrow> order_id \<Rightarrow> book_snapshot option \<times> order_book" where
  "book_cancel_order b oid =
     (case store_remove (ob_store b) oid of
        (None, _) \<Rightarrow> (None, b)
      | (Some removed, store) \<Rightarrow>
          let b1 = remove_from_side (b\<lparr>ob_store := store\<rparr>) (o_side removed) (o_price removed)
                     (o_remaining_quantity removed)
          in (Some (make_update b1 (o_timestamp removed)), b1))"

definition book_execute_order ::
  "order_book \<Rightarrow> order_id \<Rightarrow> quantity \<Rightarrow> book_snapshot option \<times> order_book" where
  "book_execute_order b oid exec_qty =
     (case store_find (ob_store b) oid of
        None \<Rightarrow> (None, b)
      | Some ord \<Rightarrow>
          if exec_qty = 0 \<or> o_remaining_quantity ord < exec_qty then (None, b)
          else
            let remaining = o_remaining_quantity ord - exec_qty;
                store1 = store_modify (ob_store b) oid (\<lambda>ord. ord\<lparr>o_remaining_quantity := remaining\<rparr>);
                b1 = b\<lparr>ob_store := store1\<rparr>;
                (gone, b2) =
                  (if o_side ord = Side_Buy
                   then let (g, m) = update_level (>) (o_price ord) exec_qty remaining (ob_bids b1)
                        in (g, b1\<lparr>ob_bids := m\<rparr>)
                   else let (g, m) = update_level (<) (o_price ord) exec_qty remaining (ob_asks b1)
                        in (g, b1\<lparr>ob_asks := m\<rparr>));
                b3 = (if gone then b2\<lparr>ob_store := snd (store_remove (ob_store b2) oid)\<rparr> else b2)
            in (Some (make_update b3 (o_timestamp ord)), b3))"

definition book_replace_order ::
  "order_book \<Rightarrow> order_id \<Rightarrow> price \<Rightarrow> quantity \<Rightarrow> book_snapshot option \<times> order_book" where
  "book_replace_order b oid new_price new_qty =
     (case store_find (ob_store b) oid of
        None \<Rightarrow> (None, b)
      | Some ord \<Rightarrow>
          let b1 = remove_from_side b (o_side ord) (o_price ord) (o_remaining_quantity ord);
              b2 = b1\<lparr>ob_store := store_modify (ob_store b1) oid
                        (\<lambda>ord. ord\<lparr>o_price := new_price, o_remaining_quantity := new_qty\<rparr>)\<rparr>;
              b3 = add_to_side b2 (o_side ord) new_price new_qty
          in (Some (make_update b3 (o_timestamp ord)), b3))"

definition side_depth :: "(price \<times> price_level) list \<Rightarrow> nat \<Rightarrow> depth_level list" where
  "side_depth m n = map (\<lambda>(p, l). \<lparr>dl_price = p, dl_quantity = pl_total_quantity l,
     dl_order_count = pl_order_count l\<rparr>) (take n m)"

definition bid_depth :: "order_book \<Rightarrow> nat \<Rightarrow> depth_level list" where
  "bid_depth b n = side_depth (ob_bids b) n"

definition ask_depth :: "order_book \<Rightarrow> nat \<Rightarrow> depth_level list" where
  "ask_depth b n = side_depth (ob_asks b) n"

definition top_n_levels :: "order_book \<Rightarrow> side \<Rightarrow> nat \<Rightarrow> depth_level list" where
  "top_n_levels b sd n = (if sd = Side_Buy then bid_depth b n else ask_depth b n)"

definition best_bid_qty :: "order_book \<Rightarrow> quantity" where
  "best_bid_qty b = (case om_begin (ob_bids b) of None \<Rightarrow> 0 | Some (_, l) \<Rightarrow> pl_total_quantity l)"

definition best_ask_qty :: "order_book \<Rightarrow> quantity" where
  "best_ask_qty b = (case om_begin (ob_asks b) of None \<Rightarrow> 0 | Some (_, l) \<Rightarrow> pl_total_quantity l)"

definition book_order_count :: "order_book \<Rightarrow> nat" where
  "book_order_count b = store_size (ob_store b)"

section \<open>What a side means\<close>

text \<open>
  A side is the view of the live orders it selects: one level per price that has an order, holding
  the number of orders there and the sum of their remaining quantities.
\<close>

abbreviation rem_qty :: "order \<Rightarrow> nat" where
  "rem_qty ord \<equiv> unat (o_remaining_quantity ord)"

definition at_level :: "(side \<Rightarrow> bool) \<Rightarrow> price \<Rightarrow> order \<Rightarrow> bool" where
  "at_level sel p ord \<longleftrightarrow> sel (o_side ord) \<and> o_price ord = p"

definition spec_level :: "(order_id \<rightharpoonup> order) \<Rightarrow> (side \<Rightarrow> bool) \<Rightarrow> price \<Rightarrow> price_level option" where
  "spec_level A sel p =
     (if count_where A (at_level sel p) = 0 then None
      else Some (level_for p (sum_where A (at_level sel p) rem_qty) (count_where A (at_level sel p))))"

definition level_fits :: "(order_id \<rightharpoonup> order) \<Rightarrow> (side \<Rightarrow> bool) \<Rightarrow> price \<Rightarrow> bool" where
  "level_fits A sel p \<longleftrightarrow> sum_where A (at_level sel p) rem_qty < 2 ^ 32
     \<and> count_where A (at_level sel p) < 2 ^ 32"

definition side_agrees ::
  "(price \<Rightarrow> price \<Rightarrow> bool) \<Rightarrow> (side \<Rightarrow> bool) \<Rightarrow> (order_id \<rightharpoonup> order) \<Rightarrow> (price \<times> price_level) list \<Rightarrow> bool" where
  "side_agrees lt sel A m \<longleftrightarrow> om_sorted lt m \<and> (\<forall>p. map_of m p = spec_level A sel p)"

definition side_prices :: "(side \<Rightarrow> bool) \<Rightarrow> (order_id \<rightharpoonup> order) \<Rightarrow> price set" where
  "side_prices sel A = {o_price ord | oid ord. A oid = Some ord \<and> sel (o_side ord)}"

lemma side_prices_spec_level:
  "finite (dom A) \<Longrightarrow> p \<in> side_prices sel A \<longleftrightarrow> spec_level A sel p \<noteq> None"
  by (auto simp: side_prices_def spec_level_def count_where_0_iff at_level_def)

lemma spec_level_other:
  assumes "finite (dom A)" and "A oid = None" and "\<not> at_level sel p ord"
  shows "spec_level (A(oid \<mapsto> ord)) sel p = spec_level A sel p"
  using assms by (simp add: spec_level_def count_where_insert sum_where_insert)

lemma spec_level_insert:
  assumes "finite (dom A)" and "A oid = None" and "at_level sel p ord"
  shows "spec_level (A(oid \<mapsto> ord)) sel p =
    Some (level_for p (sum_where A (at_level sel p) rem_qty + rem_qty ord)
           (Suc (count_where A (at_level sel p))))"
  using assms by (simp add: spec_level_def count_where_insert sum_where_insert)

lemma delete_insert_map: "A oid = Some ord \<Longrightarrow> (A(oid := None))(oid \<mapsto> ord) = A"
  by auto

text \<open>
  The bid and the ask side share this contract: a strict order on prices and the orders the side
  selects. Each operation on a level moves the agreement from one set of orders to the next.
\<close>

locale book_side = strict_order lt for lt :: "price \<Rightarrow> price \<Rightarrow> bool" +
  fixes sel :: "side \<Rightarrow> bool"
begin

abbreviation agrees :: "(order_id \<rightharpoonup> order) \<Rightarrow> (price \<times> price_level) list \<Rightarrow> bool" where
  "agrees \<equiv> side_agrees lt sel"

lemma agreesD: "agrees A m \<Longrightarrow> om_sorted lt m" "agrees A m \<Longrightarrow> map_of m p = spec_level A sel p"
  by (simp_all add: side_agrees_def)

text \<open>A change of one entry, against a change of the orders that only that price sees.\<close>

lemma agrees_update:
  assumes "agrees A m" and "om_sorted lt m'" and "map_of m' = (map_of m)(p := spec_level B sel p)"
    and "\<And>p'. p' \<noteq> p \<Longrightarrow> spec_level B sel p' = spec_level A sel p'"
  shows "agrees B m'"
  using assms by (simp add: side_agrees_def)

lemma agrees_empty: "agrees Map.empty []"
  by (simp add: side_agrees_def spec_level_def)

lemma agrees_other:
  assumes "agrees A m" "finite (dom A)" "A oid = None" "\<not> sel (o_side ord)"
  shows "agrees (A(oid \<mapsto> ord)) m"
  using assms by (simp add: side_agrees_def spec_level_other at_level_def)

lemma agrees_other_delete:
  assumes m: "agrees A m" and fin: "finite (dom A)" and old: "A oid = Some ord"
    and sel: "\<not> sel (o_side ord)"
  shows "agrees (A(oid := None)) m"
proof -
  have "spec_level (A(oid := None)) sel p = spec_level A sel p" for p
    using spec_level_other [of "A(oid := None)" oid sel p ord] fin delete_insert_map [of A oid ord] old sel
    by (simp add: at_level_def)
  then show ?thesis
    using m by (simp add: side_agrees_def)
qed

lemma level_insert_agrees:
  assumes m: "agrees A m" and fin: "finite (dom A)" and new: "A oid = None"
    and sel: "sel (o_side ord)"
  shows "agrees (A(oid \<mapsto> ord)) (level_insert lt (o_price ord) (o_remaining_quantity ord) m)"
proof -
  let ?p = "o_price ord"
  have at: "at_level sel ?p ord"
    using sel by (simp add: at_level_def)
  define old where "old = (case map_of m ?p of None \<Rightarrow> price_level_new | Some l \<Rightarrow> l)"
  have fresh: "old\<lparr>pl_price := ?p\<rparr> = level_for ?p (sum_where A (at_level sel ?p) rem_qty)
      (count_where A (at_level sel ?p))" "pl_price old = 0 \<or> pl_price old = ?p"
    using m fin sum_where_0 [OF fin, of "at_level sel ?p" rem_qty]
    by (auto simp: side_agrees_def spec_level_def old_def level_for_def price_level_new_def)
  have li: "level_insert lt ?p q m = om_insert lt ?p (level_add (old\<lparr>pl_price := ?p\<rparr>) q) m" for q
    using fresh(2) by (cases old) (auto simp: level_insert_def old_def [symmetric] Let_def)
  show ?thesis
    using m spec_level_insert [OF fin new at] spec_level_other [OF fin new, of sel _ ord]
    by (auto simp: side_agrees_def li fresh(1) level_add_for at_level_def)
qed

lemma level_delete_agrees:
  assumes m: "agrees A m" and fin: "finite (dom A)" and old: "A oid = Some ord"
    and sel: "sel (o_side ord)" and fits: "level_fits A sel (o_price ord)"
  shows "agrees (A(oid := None)) (level_delete lt (o_price ord) (o_remaining_quantity ord) m)"
proof -
  let ?p = "o_price ord" and ?B = "A(oid := None)"
  have at: "at_level sel ?p ord"
    using sel by (simp add: at_level_def)
  let ?n = "sum_where A (at_level sel ?p) rem_qty" and ?c = "count_where A (at_level sel ?p)"
  have B: "sum_where ?B (at_level sel ?p) rem_qty = ?n - rem_qty ord"
    "count_where ?B (at_level sel ?p) = ?c - 1" "rem_qty ord \<le> ?n" "0 < ?c"
    using sum_where_delete [OF fin old, of "at_level sel ?p" rem_qty]
      count_where_delete [OF fin old, of "at_level sel ?p"] at by simp_all
  have find: "map_of m ?p = Some (level_for ?p ?n ?c)"
    using m B(4) by (simp add: side_agrees_def spec_level_def)
  have rem: "level_remove (level_for ?p ?n ?c) (o_remaining_quantity ord)
      = (?c = 1, level_for ?p (?n - rem_qty ord) (?c - 1))"
    using fits B by (intro level_remove_for) (auto simp: level_fits_def)
  have at_p: "spec_level ?B sel ?p = (if ?c = 1 then None else Some (level_for ?p (?n - rem_qty ord) (?c - 1)))"
    using B by (simp add: spec_level_def)
  have other: "spec_level ?B sel p = spec_level A sel p" if "p \<noteq> ?p" for p
    using spec_level_other [of ?B oid sel p ord] fin delete_insert_map [of A oid ord] old that
    by (simp add: at_level_def)
  show ?thesis
    by (rule agrees_update [OF m _ _ other])
      (use agreesD(1) [OF m] in \<open>auto simp: level_delete_def find rem at_p\<close>)
qed

text \<open>Executing part of an order, and executing all of it.\<close>

lemma update_level_partial:
  assumes m: "agrees A m" and fin: "finite (dom A)" and old: "A oid = Some ord"
    and sel: "sel (o_side ord)" and q: "q \<le> o_remaining_quantity ord"
    and r: "r = o_remaining_quantity ord - q" "r \<noteq> 0"
  shows "\<exists>m'. update_level lt (o_price ord) q r m = (False, m')
    \<and> agrees (A(oid \<mapsto> ord\<lparr>o_remaining_quantity := r\<rparr>)) m'"
proof -
  let ?p = "o_price ord" and ?ord' = "ord\<lparr>o_remaining_quantity := r\<rparr>"
  let ?B = "A(oid \<mapsto> ?ord')"
  let ?n = "sum_where A (at_level sel ?p) rem_qty" and ?c = "count_where A (at_level sel ?p)"
  have at: "at_level sel p ord = at_level sel p ?ord'" "at_level sel ?p ord" for p
    using sel by (simp_all add: at_level_def)
  have rq: "rem_qty ?ord' + unat q = rem_qty ord"
    using q r(1) by (simp add: unat_minus_le word_le_nat_alt)
  have c: "count_where ?B (at_level sel p) = count_where A (at_level sel p)" for p
    using count_where_update [OF fin old, of ?ord' "at_level sel p"] at(1) by (auto split: if_splits)
  have n: "sum_where ?B (at_level sel ?p) rem_qty + unat q = ?n"
    using sum_where_update [OF fin old, of ?ord' "at_level sel ?p" rem_qty] at rq by simp
  have other: "spec_level ?B sel p = spec_level A sel p" if "p \<noteq> ?p" for p
    using sum_where_update [OF fin old, of ?ord' "at_level sel p" rem_qty] that c
    by (simp add: spec_level_def at_level_def)
  have find: "map_of m ?p = Some (level_for ?p ?n ?c)" "?c \<noteq> 0"
    using m count_where_pos [of A, OF fin old, of "at_level sel ?p"] at(2) by (simp_all add: side_agrees_def spec_level_def)
  have "(level_for ?p ?n ?c)\<lparr>pl_total_quantity := pl_total_quantity (level_for ?p ?n ?c) - q\<rparr>
      = level_for ?p (sum_where ?B (at_level sel ?p) rem_qty) ?c"
    using n [symmetric] by (simp add: level_for_def)
  then have "update_level lt ?p q r m =
      (False, om_insert lt ?p (level_for ?p (sum_where ?B (at_level sel ?p) rem_qty) ?c) m)"
    using find r(2) by (simp add: update_level_def Let_def)
  moreover have "spec_level ?B sel ?p = Some (level_for ?p (sum_where ?B (at_level sel ?p) rem_qty) ?c)"
    using find(2) c by (simp add: spec_level_def)
  then have "agrees ?B (om_insert lt ?p (level_for ?p (sum_where ?B (at_level sel ?p) rem_qty) ?c) m)"
    by (intro agrees_update [OF m _ _ other]) (use agreesD(1) [OF m] in auto)
  ultimately show ?thesis by blast
qed

lemma update_level_full:
  assumes m: "agrees A m" and fin: "finite (dom A)" and old: "A oid = Some ord"
    and sel: "sel (o_side ord)" and fits: "level_fits A sel (o_price ord)"
  shows "\<exists>m'. update_level lt (o_price ord) (o_remaining_quantity ord) 0 m = (True, m')
    \<and> agrees (A(oid := None)) m'"
proof -
  let ?q = "o_remaining_quantity ord" and ?p = "o_price ord"
  let ?n = "sum_where A (at_level sel ?p) rem_qty" and ?c = "count_where A (at_level sel ?p)"
  have at: "at_level sel ?p ord"
    using sel by (simp add: at_level_def)
  have B: "rem_qty ord \<le> ?n" "0 < ?c" "?c < 2 ^ 32" "?n < 2 ^ 32"
    using sum_where_member [of A, OF fin old, of "at_level sel ?p" rem_qty] at fits
      count_where_pos [of A, OF fin old, of "at_level sel ?p"]
    by (auto simp: level_fits_def)
  have find: "map_of m ?p = Some (level_for ?p ?n ?c)"
    using m B(2) by (simp add: side_agrees_def spec_level_def)
  define l2 where "l2 = level_for ?p (?n - rem_qty ord) (?c - 1)"
  have l2: "(level_for ?p ?n ?c)\<lparr>pl_total_quantity := of_nat ?n - ?q, pl_order_count := of_nat ?c - 1\<rparr> = l2"
    using B by (simp add: level_for_def l2_def of_nat_diff)
  have empty: "level_is_empty l2 \<longleftrightarrow> ?c = 1"
    unfolding level_is_empty_def l2_def level_for_def price_level.simps
    using of_nat_eq_0_small [of "?c - 1", where 'a = 32] B(2,3) by auto
  have "update_level lt ?p ?q 0 m = (True, if ?c = 1 then om_erase ?p m else om_insert lt ?p l2 m)"
    unfolding empty [symmetric] l2 [symmetric]
    by (simp add: update_level_def find Let_def) (simp add: level_for_def)
  also have "\<dots> = (True, level_delete lt ?p ?q m)"
    by (simp only: level_delete_def find option.case level_remove_for [OF B(1,4,3,2)] l2_def Let_def split)
  finally have "update_level lt ?p ?q 0 m = (True, level_delete lt ?p ?q m)" .
  then show ?thesis
    using level_delete_agrees [OF m fin old sel fits] by simp
qed

text \<open>The first entry of a side is its best price.\<close>

abbreviation prices :: "(order_id \<rightharpoonup> order) \<Rightarrow> price set" where
  "prices \<equiv> side_prices sel"

lemma begin_best:
  assumes m: "agrees A m" and fin: "finite (dom A)"
  shows "case om_begin m of
      None \<Rightarrow> prices A = {}
    | Some (p, l) \<Rightarrow> p \<in> prices A \<and> (\<forall>p' \<in> prices A. p' = p \<or> lt p p')
        \<and> spec_level A sel p = Some l"
proof (cases "om_begin m")
  case None
  then have "spec_level A sel p = None" for p
    using m by (auto simp: side_agrees_def dest!: spec [of _ p])
  then show ?thesis
    using side_prices_spec_level [OF fin] by (simp only: None option.case) auto
next
  case (Some e)
  obtain p l where e: "e = (p, l)" by force
  have srt: "om_sorted lt m" and eq: "map_of m x = spec_level A sel x" for x
    using m by (auto simp: side_agrees_def)
  have least: "spec_level A sel p = Some l" "spec_level A sel p' = Some l' \<Longrightarrow> p' = p \<or> lt p p'" for p' l'
    using om_begin_least [OF srt, of p l] Some e by (auto simp: eq)
  then show ?thesis
    using Some e side_prices_spec_level [OF fin] by (simp only: option.case split) blast
qed

end

interpretation bid: book_side "(>)" "\<lambda>s. s = Side_Buy"
  by unfold_locales

interpretation ask: book_side "(<)" "\<lambda>s. s \<noteq> Side_Buy"
  by unfold_locales

section \<open>The abstract book\<close>

text \<open>
  The specification keeps the symbol and the live orders only; the best prices are maxima and
  minima over them.
\<close>

type_synonym abs_book = "symbol \<times> (order_id \<rightharpoonup> order)"

abbreviation is_buy :: "side \<Rightarrow> bool" where "is_buy \<equiv> \<lambda>s. s = Side_Buy"
abbreviation is_ask :: "side \<Rightarrow> bool" where "is_ask \<equiv> \<lambda>s. s \<noteq> Side_Buy"

definition spec_best_bid :: "(order_id \<rightharpoonup> order) \<Rightarrow> price option" where
  "spec_best_bid A = (if side_prices is_buy A = {} then None else Some (Max (side_prices is_buy A)))"

definition spec_best_ask :: "(order_id \<rightharpoonup> order) \<Rightarrow> price option" where
  "spec_best_ask A = (if side_prices is_ask A = {} then None else Some (Min (side_prices is_ask A)))"

definition spec_update :: "abs_book \<Rightarrow> u64 \<Rightarrow> book_snapshot" where
  "spec_update a ts = \<lparr>bs_symbol = fst a, bs_best_bid = spec_best_bid (snd a),
     bs_best_ask = spec_best_ask (snd a), bs_timestamp = ts\<rparr>"

datatype book_op =
    OpAdd order_id side price quantity u64
  | OpCancel order_id
  | OpExecute order_id quantity
  | OpReplace order_id price quantity

fun book_step :: "order_book \<Rightarrow> book_op \<Rightarrow> book_snapshot option \<times> order_book" where
  "book_step b (OpAdd oid sd p q ts) = book_add_order b oid sd p q ts"
| "book_step b (OpCancel oid) = book_cancel_order b oid"
| "book_step b (OpExecute oid q) = book_execute_order b oid q"
| "book_step b (OpReplace oid p q) = book_replace_order b oid p q"

abbreviation spec_answer :: "symbol \<Rightarrow> (order_id \<rightharpoonup> order) \<Rightarrow> u64 \<Rightarrow> book_snapshot option \<times> abs_book" where
  "spec_answer symb A ts \<equiv> (Some (spec_update (symb, A) ts), symb, A)"

fun spec_step :: "abs_book \<Rightarrow> book_op \<Rightarrow> book_snapshot option \<times> abs_book" where
  "spec_step (symb, A) (OpAdd oid sd p q ts) =
     (if A oid \<noteq> None then (None, symb, A)
      else spec_answer symb (A(oid \<mapsto> \<lparr>o_order_id = oid, o_symbol = symb, o_side = sd, o_price = p,
             o_remaining_quantity = q, o_timestamp = ts\<rparr>)) ts)"
| "spec_step (symb, A) (OpCancel oid) =
     (case A oid of
        None \<Rightarrow> (None, symb, A)
      | Some ord \<Rightarrow> spec_answer symb (A(oid := None)) (o_timestamp ord))"
| "spec_step (symb, A) (OpExecute oid q) =
     (case A oid of
        None \<Rightarrow> (None, symb, A)
      | Some ord \<Rightarrow>
          if q = 0 \<or> o_remaining_quantity ord < q then (None, symb, A)
          else spec_answer symb
            (if q = o_remaining_quantity ord then A(oid := None)
             else A(oid \<mapsto> ord\<lparr>o_remaining_quantity := o_remaining_quantity ord - q\<rparr>)) (o_timestamp ord))"
| "spec_step (symb, A) (OpReplace oid p q) =
     (case A oid of
        None \<Rightarrow> (None, symb, A)
      | Some ord \<Rightarrow> spec_answer symb (A(oid \<mapsto> ord\<lparr>o_price := p, o_remaining_quantity := q\<rparr>))
          (o_timestamp ord))"

text \<open>The counters of a level are 32 bits wide: what they aggregate has to fit.\<close>

definition book_fits :: "abs_book \<Rightarrow> bool" where
  "book_fits a \<longleftrightarrow> (\<forall>p. level_fits (snd a) is_buy p \<and> level_fits (snd a) is_ask p)"

definition abs_book :: "order_book \<Rightarrow> abs_book" where
  "abs_book b = (ob_symbol b, os_orders (ob_store b))"

definition sides_agree :: "(order_id \<rightharpoonup> order) \<Rightarrow> order_book \<Rightarrow> bool" where
  "sides_agree A b \<longleftrightarrow> side_agrees (>) is_buy A (ob_bids b) \<and> side_agrees (<) is_ask A (ob_asks b)"

definition book_inv :: "order_book \<Rightarrow> bool" where
  "book_inv b \<longleftrightarrow> finite (dom (os_orders (ob_store b))) \<and> sides_agree (os_orders (ob_store b)) b
     \<and> book_fits (abs_book b)
     \<and> (\<forall>oid ord. os_orders (ob_store b) oid = Some ord \<longrightarrow>
          o_order_id ord = oid \<and> o_symbol ord = ob_symbol b)"

lemma book_inv_new: "book_inv (order_book_new symb)"
  by (simp add: book_inv_def order_book_new_def order_store_new_def sides_agree_def
      bid.agrees_empty ask.agrees_empty book_fits_def abs_book_def level_fits_def)

lemma sides_agree_store [simp]: "sides_agree A (b\<lparr>ob_store := s\<rparr>) = sides_agree A b"
  by (simp add: sides_agree_def)

lemma add_to_side_agree:
  assumes "sides_agree A b" "finite (dom A)" "A oid = None"
  shows "sides_agree (A(oid \<mapsto> ord)) (add_to_side b (o_side ord) (o_price ord) (o_remaining_quantity ord))"
  using assms bid.level_insert_agrees [of A _ oid ord] ask.level_insert_agrees [of A _ oid ord]
    bid.agrees_other [of A _ oid ord] ask.agrees_other [of A _ oid ord]
  by (auto simp: sides_agree_def add_to_side_def)

lemma remove_from_side_agree:
  assumes "sides_agree A b" "finite (dom A)" "A oid = Some ord" "book_fits (symb, A)"
  shows "sides_agree (A(oid := None))
    (remove_from_side b (o_side ord) (o_price ord) (o_remaining_quantity ord))"
  using assms bid.level_delete_agrees [of A _ oid ord] ask.level_delete_agrees [of A _ oid ord]
    bid.agrees_other_delete [of A _ oid ord] ask.agrees_other_delete [of A _ oid ord]
  by (auto simp: sides_agree_def remove_from_side_def book_fits_def)

lemma add_to_side_simps [simp]:
  "ob_symbol (add_to_side b sd p q) = ob_symbol b" "ob_store (add_to_side b sd p q) = ob_store b"
  "ob_symbol (remove_from_side b sd p q) = ob_symbol b" "ob_store (remove_from_side b sd p q) = ob_store b"
  by (simp_all add: add_to_side_def remove_from_side_def)

lemma finite_side_prices: "finite (dom A) \<Longrightarrow> finite (side_prices sel A)"
proof -
  assume fin: "finite (dom A)"
  have "side_prices sel A \<subseteq> (\<lambda>oid. o_price (the (A oid))) ` dom A"
    by (force simp: side_prices_def image_iff dom_def)
  then show ?thesis using fin finite_surj by blast
qed

lemma Max_greatest: "finite P \<Longrightarrow> p \<in> P \<Longrightarrow> \<forall>p' \<in> P. p' = p \<or> p' < p \<Longrightarrow> Max P = p"
  for p :: "'a::linorder"
  by (rule Max_eqI) (auto intro: order.strict_implies_order)

lemma Min_least: "finite P \<Longrightarrow> p \<in> P \<Longrightarrow> \<forall>p' \<in> P. p' = p \<or> p < p' \<Longrightarrow> Min P = p"
  for p :: "'a::linorder"
  by (rule Min_eqI) (auto intro: order.strict_implies_order)

lemma best_bid_agrees:
  assumes "sides_agree A b" and fin: "finite (dom A)"
  shows "best_bid b = spec_best_bid A"
proof -
  have "case om_begin (ob_bids b) of None \<Rightarrow> side_prices is_buy A = {}
    | Some (p, l) \<Rightarrow> p \<in> side_prices is_buy A \<and> (\<forall>p' \<in> side_prices is_buy A. p' = p \<or> p > p')
        \<and> spec_level A is_buy p = Some l"
    using assms by (intro bid.begin_best) (simp_all add: sides_agree_def)
  then show ?thesis
    using finite_side_prices [OF fin]
    by (auto simp: best_bid_def spec_best_bid_def Max_greatest split: option.splits)
qed

lemma best_ask_agrees:
  assumes "sides_agree A b" and fin: "finite (dom A)"
  shows "best_ask b = spec_best_ask A"
proof -
  have "case om_begin (ob_asks b) of None \<Rightarrow> side_prices is_ask A = {}
    | Some (p, l) \<Rightarrow> p \<in> side_prices is_ask A \<and> (\<forall>p' \<in> side_prices is_ask A. p' = p \<or> p < p')
        \<and> spec_level A is_ask p = Some l"
    using assms by (intro ask.begin_best) (simp_all add: sides_agree_def)
  then show ?thesis
    using finite_side_prices [OF fin]
    by (auto simp: best_ask_def spec_best_ask_def Min_least split: option.splits)
qed

lemma make_update_agrees:
  "sides_agree A b \<Longrightarrow> finite (dom A) \<Longrightarrow> make_update b ts = spec_update (ob_symbol b, A) ts"
  by (simp add: make_update_def spec_update_def best_bid_agrees best_ask_agrees)

text \<open>Every operation follows the specification.\<close>

abbreviation follows_spec :: "order_book \<Rightarrow> book_op \<Rightarrow> bool" where
  "follows_spec b op \<equiv>
     fst (book_step b op) = fst (spec_step (abs_book b) op)
     \<and> abs_book (snd (book_step b op)) = snd (spec_step (abs_book b) op)
     \<and> book_inv (snd (book_step b op))"

lemma book_invD:
  assumes "book_inv b"
  shows "finite (dom (os_orders (ob_store b)))" "sides_agree (os_orders (ob_store b)) b"
    "book_fits (ob_symbol b, os_orders (ob_store b))"
    "os_orders (ob_store b) oid = Some ord \<Longrightarrow> o_order_id ord = oid \<and> o_symbol ord = ob_symbol b"
  using assms by (auto simp: book_inv_def abs_book_def)

text \<open>
  A book whose sides agree with its new orders answers as the specification does; this is the last
  step of each operation that succeeds.
\<close>

lemma book_inv_answer:
  assumes "os_orders (ob_store b) = A" "sides_agree A b" "finite (dom A)" "book_fits (ob_symbol b, A)"
    and "\<And>oid ord. A oid = Some ord \<Longrightarrow> o_order_id ord = oid \<and> o_symbol ord = ob_symbol b"
  shows "make_update b ts = spec_update (ob_symbol b, A) ts \<and> abs_book b = (ob_symbol b, A) \<and> book_inv b"
  using assms make_update_agrees [OF assms(2,3)] by (auto simp: book_inv_def abs_book_def)

lemma book_add_follows:
  assumes inv: "book_inv b" and fits: "book_fits (snd (spec_step (abs_book b) (OpAdd oid sd p q ts)))"
  shows "follows_spec b (OpAdd oid sd p q ts)"
proof (cases "os_orders (ob_store b) oid")
  case None
  note D = book_invD [OF inv]
  let ?ord = "\<lparr>o_order_id = oid, o_symbol = ob_symbol b, o_side = sd, o_price = p,
    o_remaining_quantity = q, o_timestamp = ts\<rparr>" and ?A = "os_orders (ob_store b)"
  let ?b = "add_to_side (b\<lparr>ob_store := (ob_store b)\<lparr>os_orders := ?A(oid \<mapsto> ?ord)\<rparr>\<rparr>) sd p q"
  have "make_update ?b ts = spec_update (ob_symbol ?b, ?A(oid \<mapsto> ?ord)) ts
      \<and> abs_book ?b = (ob_symbol ?b, ?A(oid \<mapsto> ?ord)) \<and> book_inv ?b"
    using add_to_side_agree [of ?A "b\<lparr>ob_store := (ob_store b)\<lparr>os_orders := ?A(oid \<mapsto> ?ord)\<rparr>\<rparr>" oid ?ord] D(1,2,4) None fits
    by (intro book_inv_answer) (auto simp: abs_book_def split: if_splits)
  then show ?thesis
    using None by (simp add: book_add_order_def store_add_def abs_book_def Let_def)
next
  case (Some ord)
  then show ?thesis
    using inv by (simp add: book_add_order_def store_add_def abs_book_def Let_def)
qed

lemma book_cancel_follows:
  assumes inv: "book_inv b" and fits: "book_fits (snd (spec_step (abs_book b) (OpCancel oid)))"
  shows "follows_spec b (OpCancel oid)"
proof (cases "os_orders (ob_store b) oid")
  case None
  then show ?thesis
    using inv by (simp add: book_cancel_order_def store_remove_def abs_book_def)
next
  case (Some ord)
  note D = book_invD [OF inv]
  let ?A = "os_orders (ob_store b)"
  let ?b = "remove_from_side (b\<lparr>ob_store := (ob_store b)\<lparr>os_orders := ?A(oid := None)\<rparr>\<rparr>)
    (o_side ord) (o_price ord) (o_remaining_quantity ord)"
  have "make_update ?b (o_timestamp ord) = spec_update (ob_symbol ?b, ?A(oid := None)) (o_timestamp ord)
      \<and> abs_book ?b = (ob_symbol ?b, ?A(oid := None)) \<and> book_inv ?b"
    using remove_from_side_agree [OF _ D(1) Some D(3)] D(1,2,4) fits Some
    by (intro book_inv_answer) (auto simp: abs_book_def split: if_splits)
  then show ?thesis
    using Some by (simp add: book_cancel_order_def store_remove_def abs_book_def Let_def)
qed

lemma book_replace_follows:
  assumes inv: "book_inv b" and fits: "book_fits (snd (spec_step (abs_book b) (OpReplace oid p q)))"
  shows "follows_spec b (OpReplace oid p q)"
proof (cases "os_orders (ob_store b) oid")
  case None
  then show ?thesis
    using inv by (simp add: book_replace_order_def store_find_def abs_book_def)
next
  case (Some ord)
  note D = book_invD [OF inv]
  let ?A = "os_orders (ob_store b)" and ?ord = "ord\<lparr>o_price := p, o_remaining_quantity := q\<rparr>"
  let ?b1 = "remove_from_side b (o_side ord) (o_price ord) (o_remaining_quantity ord)"
  let ?b2 = "?b1\<lparr>ob_store := (ob_store b)\<lparr>os_orders := ?A(oid \<mapsto> ?ord)\<rparr>\<rparr>"
  let ?b = "add_to_side ?b2 (o_side ord) p q"
  have "sides_agree (?A(oid := None)) ?b2"
    using remove_from_side_agree [OF D(2,1) Some D(3)] by simp
  then have "sides_agree (?A(oid \<mapsto> ?ord)) ?b"
    using add_to_side_agree [of "?A(oid := None)" ?b2 oid ?ord] D(1) by simp
  then have "make_update ?b (o_timestamp ord) = spec_update (ob_symbol ?b, ?A(oid \<mapsto> ?ord)) (o_timestamp ord)
      \<and> abs_book ?b = (ob_symbol ?b, ?A(oid \<mapsto> ?ord)) \<and> book_inv ?b"
    using D(1,4) fits Some by (intro book_inv_answer) (auto simp: abs_book_def split: if_splits)
  then show ?thesis
    using Some by (simp add: book_replace_order_def store_find_def store_modify_def abs_book_def Let_def)
qed

text \<open>The side update of an execution, on whichever side the order rests.\<close>

definition execute_sides :: "order_book \<Rightarrow> order \<Rightarrow> quantity \<Rightarrow> quantity \<Rightarrow> bool \<times> order_book" where
  "execute_sides b1 ord exec_qty remaining =
     (if o_side ord = Side_Buy
      then let (g, m) = update_level (>) (o_price ord) exec_qty remaining (ob_bids b1)
           in (g, b1\<lparr>ob_bids := m\<rparr>)
      else let (g, m) = update_level (<) (o_price ord) exec_qty remaining (ob_asks b1)
           in (g, b1\<lparr>ob_asks := m\<rparr>))"

lemma execute_sides_simps [simp]:
  "ob_symbol (snd (execute_sides b ord q r)) = ob_symbol b"
  "ob_store (snd (execute_sides b ord q r)) = ob_store b"
  by (simp_all add: execute_sides_def split: prod.splits)

lemma execute_sides_full:
  assumes "sides_agree A b" "finite (dom A)" "A oid = Some ord" "book_fits (symb, A)"
  shows "\<exists>b'. execute_sides b ord (o_remaining_quantity ord) 0 = (True, b') \<and> sides_agree (A(oid := None)) b'"
proof (cases "o_side ord = Side_Buy")
  case True
  then show ?thesis
    using assms bid.update_level_full [of A _ oid ord] ask.agrees_other_delete [of A _ oid ord]
    by (force simp: sides_agree_def execute_sides_def book_fits_def)
next
  case False
  then show ?thesis
    using assms ask.update_level_full [of A _ oid ord] bid.agrees_other_delete [of A _ oid ord]
    by (force simp: sides_agree_def execute_sides_def book_fits_def)
qed

lemma execute_sides_partial:
  assumes A: "sides_agree A b" "finite (dom A)" "A oid = Some ord"
    and r: "q \<le> o_remaining_quantity ord" "r = o_remaining_quantity ord - q" "r \<noteq> 0"
  shows "\<exists>b'. execute_sides b ord q r = (False, b')
    \<and> sides_agree (A(oid \<mapsto> ord\<lparr>o_remaining_quantity := r\<rparr>)) b'"
proof (cases "o_side ord = Side_Buy")
  case True
  then have "side_agrees (<) is_ask (A(oid \<mapsto> ord\<lparr>o_remaining_quantity := r\<rparr>)) (ob_asks b)"
    using A ask.agrees_other_delete [of A _ oid ord]
      ask.agrees_other [of "A(oid := None)" _ oid "ord\<lparr>o_remaining_quantity := r\<rparr>"]
    by (simp add: sides_agree_def)
  then show ?thesis
    using A True bid.update_level_partial [of A _ oid ord, OF _ _ _ _ r]
    by (force simp: sides_agree_def execute_sides_def)
next
  case False
  then have "side_agrees (>) is_buy (A(oid \<mapsto> ord\<lparr>o_remaining_quantity := r\<rparr>)) (ob_bids b)"
    using A bid.agrees_other_delete [of A _ oid ord]
      bid.agrees_other [of "A(oid := None)" _ oid "ord\<lparr>o_remaining_quantity := r\<rparr>"]
    by (simp add: sides_agree_def)
  then show ?thesis
    using A False ask.update_level_partial [of A _ oid ord, OF _ _ _ _ r]
    by (force simp: sides_agree_def execute_sides_def)
qed

lemma book_execute_order_eq:
  assumes ord: "os_orders (ob_store b) oid = Some ord" and q: "q \<noteq> 0" "q \<le> o_remaining_quantity ord"
    and r: "r = o_remaining_quantity ord - q"
    and ex: "execute_sides (b\<lparr>ob_store := (ob_store b)\<lparr>os_orders :=
      (os_orders (ob_store b))(oid \<mapsto> ord\<lparr>o_remaining_quantity := r\<rparr>)\<rparr>\<rparr>) ord q r = (gone, b2)"
    and b3: "b3 = (if gone then b2\<lparr>ob_store := snd (store_remove (ob_store b2) oid)\<rparr> else b2)"
  shows "book_execute_order b oid q = (Some (make_update b3 (o_timestamp ord)), b3)"
  using q ex [unfolded r] unfolding book_execute_order_def store_find_def store_modify_def ord b3
    execute_sides_def [symmetric]
  by (simp add: Let_def not_less)

lemma book_execute_follows:
  assumes inv: "book_inv b" and fits: "book_fits (snd (spec_step (abs_book b) (OpExecute oid q)))"
  shows "follows_spec b (OpExecute oid q)"
proof (cases "\<exists>ord. os_orders (ob_store b) oid = Some ord \<and> q \<noteq> 0 \<and> q \<le> o_remaining_quantity ord")
  case False
  then show ?thesis
    using inv by (auto simp: book_execute_order_def store_find_def abs_book_def not_less split: option.splits)
next
  case True
  then obtain ord where ord: "os_orders (ob_store b) oid = Some ord"
    and q: "q \<noteq> 0" "q \<le> o_remaining_quantity ord" by blast
  note D = book_invD [OF inv]
  let ?A = "os_orders (ob_store b)" and ?r = "o_remaining_quantity ord - q"
  let ?ord = "ord\<lparr>o_remaining_quantity := ?r\<rparr>"
  let ?A' = "if ?r = 0 then ?A(oid := None) else ?A(oid \<mapsto> ?ord)"
  let ?b1 = "b\<lparr>ob_store := (ob_store b)\<lparr>os_orders := ?A(oid \<mapsto> ?ord)\<rparr>\<rparr>"
  have r0: "?r = 0 \<longleftrightarrow> q = o_remaining_quantity ord"
    by auto
  obtain gone b2 where b2: "execute_sides ?b1 ord q ?r = (gone, b2)" by force
  have gone: "gone \<longleftrightarrow> ?r = 0" "sides_agree ?A' b2"
    using execute_sides_full [OF _ D(1) ord D(3), of ?b1]
      execute_sides_partial [OF _ D(1) ord q(2) refl, of ?b1] D(2) b2 r0
    by (auto split: if_splits)
  define b3 where "b3 = (if gone then b2\<lparr>ob_store := snd (store_remove (ob_store b2) oid)\<rparr> else b2)"
  have b2': "ob_symbol b2 = ob_symbol b" "ob_store b2 = ob_store ?b1"
    using execute_sides_simps [of ?b1 ord q ?r] unfolding b2 by simp_all
  then have st: "os_orders (ob_store b3) = ?A'" "ob_symbol b3 = ob_symbol b" "sides_agree ?A' b3"
    using gone by (auto simp: b3_def store_remove_def)
  have exec: "book_execute_order b oid q = (Some (make_update b3 (o_timestamp ord)), b3)"
    by (rule book_execute_order_eq [OF ord q refl b2 b3_def])
  have spec: "spec_step (abs_book b) (OpExecute oid q) = spec_answer (ob_symbol b) ?A' (o_timestamp ord)"
    using ord q r0 by (auto simp: abs_book_def not_less)
  have "book_fits (ob_symbol b, ?A')"
    using fits unfolding spec by simp
  then have "make_update b3 (o_timestamp ord) = spec_update (ob_symbol b3, ?A') (o_timestamp ord)
      \<and> abs_book b3 = (ob_symbol b3, ?A') \<and> book_inv b3"
    using st D(1,4) ord by (intro book_inv_answer) (auto split: if_splits)
  then show ?thesis
    unfolding book_step.simps exec spec using st(2) by simp
qed

lemma book_step_follows:
  assumes "book_inv b" and "book_fits (snd (spec_step (abs_book b) op))"
  shows "follows_spec b op"
proof (cases op)
  case (OpAdd oid sd p q ts)
  then show ?thesis using book_add_follows assms by blast
next
  case (OpCancel oid)
  then show ?thesis using book_cancel_follows assms by blast
next
  case (OpExecute oid q)
  then show ?thesis using book_execute_follows assms by blast
next
  case (OpReplace oid p q)
  then show ?thesis using book_replace_follows assms by blast
qed

definition book_room :: "abs_book \<Rightarrow> book_op \<Rightarrow> bool" where
  "book_room a op \<longleftrightarrow> book_fits (snd (spec_step a op))"

interpretation book: refinement abs_book book_inv book_step spec_step book_room
  by unfold_locales (rule book_step_follows, simp_all add: book_room_def)

section \<open>Depth\<close>

definition depth_at :: "(order_id \<rightharpoonup> order) \<Rightarrow> (side \<Rightarrow> bool) \<Rightarrow> price \<Rightarrow> depth_level" where
  "depth_at A sel p = \<lparr>dl_price = p, dl_quantity = of_nat (sum_where A (at_level sel p) rem_qty),
     dl_order_count = of_nat (count_where A (at_level sel p))\<rparr>"

lemma side_depth_agrees:
  assumes "side_agrees lt sel A m" and "distinct (map fst m)"
  shows "side_depth m n = map (depth_at A sel) (take n (map fst m))"
proof -
  have "(case e of (p, l) \<Rightarrow> \<lparr>dl_price = p, dl_quantity = pl_total_quantity l,
      dl_order_count = pl_order_count l\<rparr>) = depth_at A sel (fst e)" if "e \<in> set m" for e
  proof -
    obtain p l where e: "e = (p, l)" by force
    have "spec_level A sel p = Some l"
      using map_of_is_SomeI [OF assms(2), of p l] assms(1) that e by (simp add: side_agrees_def)
    then show ?thesis
      by (auto simp: e depth_at_def spec_level_def level_for_def split: if_splits)
  qed
  then show ?thesis
    by (auto simp: side_depth_def take_map dest: in_set_takeD)
qed

lemma side_keys:
  assumes "side_agrees lt sel A m" and "finite (dom A)"
  shows "fst ` set m = side_prices sel A"
proof -
  have "p \<in> fst ` set m \<longleftrightarrow> spec_level A sel p \<noteq> None" for p
    using assms(1) by (metis map_of_eq_None_iff side_agrees_def)
  then show ?thesis
    using side_prices_spec_level [OF assms(2)] by blast
qed

lemma ask_keys:
  assumes "sides_agree A b" "finite (dom A)"
  shows "map fst (ob_asks b) = sorted_list_of_set (side_prices is_ask A)"
proof (rule sorted_distinct_set_unique)
  have srt: "om_sorted (<) (ob_asks b)"
    using assms by (simp add: sides_agree_def side_agrees_def)
  then show "sorted (map fst (ob_asks b))" "distinct (map fst (ob_asks b))"
    using strict_sorted_iff [of "map fst (ob_asks b)"] by (auto simp: om_sorted_def)
  show "set (map fst (ob_asks b)) = set (sorted_list_of_set (side_prices is_ask A))"
    using side_keys [of "(<)" is_ask A "ob_asks b"] finite_side_prices [OF assms(2)] assms
    by (simp add: sides_agree_def)
qed simp_all

lemma bid_keys:
  assumes "sides_agree A b" "finite (dom A)"
  shows "map fst (ob_bids b) = rev (sorted_list_of_set (side_prices is_buy A))"
proof -
  have srt: "sorted_wrt (<) (rev (map fst (ob_bids b)))"
    using assms by (simp add: sides_agree_def side_agrees_def om_sorted_def sorted_wrt_rev)
  have "rev (map fst (ob_bids b)) = sorted_list_of_set (side_prices is_buy A)"
  proof (rule sorted_distinct_set_unique)
    show "sorted (rev (map fst (ob_bids b)))" "distinct (rev (map fst (ob_bids b)))"
      using srt strict_sorted_iff [of "rev (map fst (ob_bids b))"] by auto
    show "set (rev (map fst (ob_bids b))) = set (sorted_list_of_set (side_prices is_buy A))"
      using side_keys [of "(>)" is_buy A "ob_bids b"] finite_side_prices [OF assms(2)] assms
      by (simp add: sides_agree_def)
  qed simp_all
  then show ?thesis by (metis rev_rev_ident)
qed

lemma book_depth_inv:
  assumes "book_inv b" and "A = os_orders (ob_store b)"
  shows "bid_depth b n = map (depth_at A is_buy) (take n (rev (sorted_list_of_set (side_prices is_buy A))))"
    "ask_depth b n = map (depth_at A is_ask) (take n (sorted_list_of_set (side_prices is_ask A)))"
proof -
  note D = book_invD [OF assms(1)]
  have "side_agrees (>) is_buy A (ob_bids b)" "side_agrees (<) is_ask A (ob_asks b)"
    using D(2) assms(2) by (auto simp: sides_agree_def)
  then show "bid_depth b n = map (depth_at A is_buy) (take n (rev (sorted_list_of_set (side_prices is_buy A))))"
    "ask_depth b n = map (depth_at A is_ask) (take n (sorted_list_of_set (side_prices is_ask A)))"
    using D(1,2) bid_keys ask_keys assms(2)
    by (simp_all add: bid_depth_def ask_depth_def side_depth_agrees)
qed

section \<open>Properties\<close>

text \<open>
  C2. The order book refines the abstract book. For any sequence of add, cancel, execute and replace
  requests on a fresh book, as long as the aggregates of a price level fit their 32-bit counters,
  every answer (refusal, or a snapshot with the best bid and ask) is the one computed from the set
  of live orders alone, and the order store holds exactly the orders of the specification.
\<close>

theorem order_book_refines:
  assumes "run_ok book_room spec_step (symb, Map.empty) ops"
  shows "fst (run book_step (order_book_new symb) ops) = fst (run spec_step (symb, Map.empty) ops)
    \<and> abs_book (snd (run book_step (order_book_new symb) ops)) = snd (run spec_step (symb, Map.empty) ops)"
  using book.run_refines [OF book_inv_new, of symb ops] assms
  by (simp add: abs_book_def order_book_new_def order_store_new_def)

theorem order_book_refines_witness:
  "fst (run book_step (order_book_new symbol_default) [OpAdd 1 Side_Buy 100 10 7, OpExecute 1 4]) =
   fst (run spec_step (symbol_default, Map.empty) [OpAdd 1 Side_Buy 100 10 7, OpExecute 1 4])"
  using order_book_refines [of symbol_default "[OpAdd 1 Side_Buy 100 10 7, OpExecute 1 4]"]
  by (simp add: book_room_def book_fits_def level_fits_def count_where_def sum_where_insert at_level_def)

text \<open>
  On every book reached by requests whose aggregates fit, the depth views list, best price
  first, exactly the prices that have a live order, each with the exact sum of the remaining
  quantities and the exact number of its orders.
\<close>

theorem order_book_depth:
  assumes "run_ok book_room spec_step (symb, Map.empty) ops"
    and "b = snd (run book_step (order_book_new symb) ops)"
    and "A = snd (snd (run spec_step (symb, Map.empty) ops))"
  shows "bid_depth b n = map (depth_at A is_buy) (take n (rev (sorted_list_of_set (side_prices is_buy A))))
    \<and> ask_depth b n = map (depth_at A is_ask) (take n (sorted_list_of_set (side_prices is_ask A)))
    \<and> (\<forall>p. level_fits A is_buy p \<and> level_fits A is_ask p)"
proof -
  have "book_inv b" "abs_book b = snd (run spec_step (symb, Map.empty) ops)"
    using book.run_refines [OF book_inv_new, of symb ops] assms(1,2)
    by (simp_all add: abs_book_def order_book_new_def order_store_new_def)
  then show ?thesis
    using book_depth_inv [of b A n] book_invD(3) [of b] assms(3)
    by (metis (no_types, lifting) abs_book_def book_fits_def snd_conv)
qed

theorem order_book_depth_witness:
  "\<exists>A. A = snd (snd (run spec_step (symbol_default, Map.empty) [OpAdd 1 Side_Buy 100 10 7])) \<and>
     bid_depth (snd (run book_step (order_book_new symbol_default) [OpAdd 1 Side_Buy 100 10 7])) 5
     = map (depth_at A is_buy) (take 5 (rev (sorted_list_of_set (side_prices is_buy A))))"
  using order_book_depth [of symbol_default "[OpAdd 1 Side_Buy 100 10 7]", OF _ refl refl, of 5]
  by (simp add: book_room_def book_fits_def level_fits_def count_where_def sum_where_insert at_level_def)

end
