(* ===== verification/Book_Manager.thy ===== *)
theory Book_Manager
  imports Order_Book Messages
begin

text \<open>
  The books of all symbols (\<open>include/qf/core/book_manager.hpp\<close>, \<open>src/core/book_manager.cpp\<close>,
  \<open>include/qf/core/pipeline_types.hpp\<close>). The clock reading that \<open>make_update\<close> takes is an argument,
  and so is the iteration order of the hash map where an operation walks it.
\<close>

record parsed_event =
  pe_message :: parsed_message
  pe_receive_timestamp :: u64

record book_update =
  bu_symbol :: symbol
  bu_best_bid :: "price_level option"
  bu_best_ask :: "price_level option"
  bu_receive_timestamp :: u64
  bu_book_timestamp :: u64

record book_manager =
  bm_books :: "u64 \<rightharpoonup> order_book"
  bm_order_to_symbol :: "order_id \<rightharpoonup> u64"

definition book_manager_new :: book_manager where
  "book_manager_new = \<lparr>bm_books = Map.empty, bm_order_to_symbol = Map.empty\<rparr>"

definition book_update_default :: book_update where
  "book_update_default = \<lparr>bu_symbol = symbol_default, bu_best_bid = None, bu_best_ask = None,
     bu_receive_timestamp = 0, bu_book_timestamp = 0\<rparr>"

definition bm_make_update :: "order_book \<Rightarrow> u64 \<Rightarrow> u64 \<Rightarrow> book_update" where
  "bm_make_update b recv_timestamp now =
     \<lparr>bu_symbol = ob_symbol b,
      bu_best_bid = map_option (\<lambda>p. \<lparr>pl_price = p, pl_total_quantity = best_bid_qty b,
        pl_order_count = 1\<rparr>) (best_bid b),
      bu_best_ask = map_option (\<lambda>p. \<lparr>pl_price = p, pl_total_quantity = best_ask_qty b,
        pl_order_count = 1\<rparr>) (best_ask b),
      bu_receive_timestamp = recv_timestamp, bu_book_timestamp = now\<rparr>"

definition get_book :: "book_manager \<Rightarrow> symbol \<Rightarrow> order_book option" where
  "get_book m symb = bm_books m (as_key symb)"

definition get_or_create :: "book_manager \<Rightarrow> symbol \<Rightarrow> order_book \<times> book_manager" where
  "get_or_create m symb =
     (case bm_books m (as_key symb) of
        None \<Rightarrow> let b = order_book_new symb
                in (b, m\<lparr>bm_books := (bm_books m)(as_key symb \<mapsto> b)\<rparr>)
      | Some b \<Rightarrow> (b, m))"

text \<open>The lookups of an order message: its symbol key, then its book.\<close>

definition bm_route :: "book_manager \<Rightarrow> order_id \<Rightarrow> (u64 \<times> order_book) option" where
  "bm_route m oid =
     (case bm_order_to_symbol m oid of
        None \<Rightarrow> None
      | Some k \<Rightarrow> map_option (Pair k) (bm_books m k))"

definition bm_process :: "book_manager \<Rightarrow> parsed_event \<Rightarrow> u64 \<Rightarrow> book_update \<times> book_manager" where
  "bm_process m event now =
     (let recv_ts = pe_receive_timestamp event in
      case pe_message event of
        AddOrder msg \<Rightarrow>
          let (b, m1) = get_or_create m (ao_symbol msg);
              m2 = m1\<lparr>bm_order_to_symbol :=
                        (bm_order_to_symbol m1)(ao_order_id msg \<mapsto> as_key (ao_symbol msg))\<rparr>;
              b1 = snd (book_add_order b (ao_order_id msg) (ao_side msg) (ao_price msg)
                          (ao_quantity msg) 0)
          in (bm_make_update b1 recv_ts now,
              m2\<lparr>bm_books := (bm_books m2)(as_key (ao_symbol msg) \<mapsto> b1)\<rparr>)
      | CancelOrder msg \<Rightarrow>
          (case bm_route m (co_order_id msg) of
             None \<Rightarrow> (book_update_default, m)
           | Some (k, b) \<Rightarrow>
               let b1 = snd (book_cancel_order b (co_order_id msg))
               in (bm_make_update b1 recv_ts now,
                   m\<lparr>bm_books := (bm_books m)(k \<mapsto> b1),
                     bm_order_to_symbol := (bm_order_to_symbol m)(co_order_id msg := None)\<rparr>))
      | ExecuteOrder msg \<Rightarrow>
          (case bm_route m (eo_order_id msg) of
             None \<Rightarrow> (book_update_default, m)
           | Some (k, b) \<Rightarrow>
               let b1 = snd (book_execute_order b (eo_order_id msg) (eo_exec_quantity msg))
               in (bm_make_update b1 recv_ts now, m\<lparr>bm_books := (bm_books m)(k \<mapsto> b1)\<rparr>))
      | ReplaceOrder msg \<Rightarrow>
          (case bm_route m (ro_order_id msg) of
             None \<Rightarrow> (book_update_default, m)
           | Some (k, b) \<Rightarrow>
               let b1 = snd (book_replace_order b (ro_order_id msg) (ro_new_price msg)
                               (ro_new_quantity msg))
               in (bm_make_update b1 recv_ts now, m\<lparr>bm_books := (bm_books m)(k \<mapsto> b1)\<rparr>))
      | TradeMessage msg \<Rightarrow>
          let (b, m1) = get_or_create m (tm_symbol msg)
          in (bm_make_update b recv_ts now, m1))"

definition get_all_symbols :: "u64 list \<Rightarrow> book_manager \<Rightarrow> symbol list" where
  "get_all_symbols keys m = map (\<lambda>k. ob_symbol (the (bm_books m k))) keys"

definition get_snapshot :: "u64 list \<Rightarrow> book_manager \<Rightarrow> u64 \<Rightarrow> u64 list \<Rightarrow> book_update list" where
  "get_snapshot keys m now clocks =
     map (\<lambda>(k, t). bm_make_update (the (bm_books m k)) now t) (zip keys clocks)"

definition bm_book_count :: "book_manager \<Rightarrow> nat" where
  "bm_book_count m = card (dom (bm_books m))"

definition bm_reset :: "book_manager \<Rightarrow> book_manager" where
  "bm_reset m = m\<lparr>bm_books := Map.empty, bm_order_to_symbol := Map.empty\<rparr>"

section \<open>The abstract market\<close>

text \<open>
  The specification keeps one set of live orders for all symbols, and for each order id the symbol
  it was last added under. An order message is one step of the abstract book over that set; the
  answer is the best level of each side among the orders of the symbol.
\<close>

type_synonym market = "(order_id \<rightharpoonup> symbol) \<times> (order_id \<rightharpoonup> order)"

definition orders_of :: "(order_id \<rightharpoonup> order) \<Rightarrow> symbol \<Rightarrow> (order_id \<rightharpoonup> order)" where
  "orders_of M symb = (\<lambda>oid. case M oid of None \<Rightarrow> None
     | Some ord \<Rightarrow> if o_symbol ord = symb then Some ord else None)"

definition best_level :: "(order_id \<rightharpoonup> order) \<Rightarrow> (side \<Rightarrow> bool) \<Rightarrow> price \<Rightarrow> price_level" where
  "best_level A sel p = \<lparr>pl_price = p, pl_total_quantity = of_nat (sum_where A (at_level sel p) rem_qty),
     pl_order_count = 1\<rparr>"

definition market_update :: "symbol \<Rightarrow> (order_id \<rightharpoonup> order) \<Rightarrow> u64 \<Rightarrow> u64 \<Rightarrow> book_update" where
  "market_update symb M recv_ts now =
     (let A = orders_of M symb in
      \<lparr>bu_symbol = symb,
       bu_best_bid = map_option (best_level A is_buy) (spec_best_bid A),
       bu_best_ask = map_option (best_level A is_ask) (spec_best_ask A),
       bu_receive_timestamp = recv_ts, bu_book_timestamp = now\<rparr>)"

fun market_op :: "parsed_message \<Rightarrow> book_op option" where
  "market_op (AddOrder m) =
     Some (OpAdd (ao_order_id m) (ao_side m) (ao_price m) (ao_quantity m) 0)"
| "market_op (CancelOrder m) = Some (OpCancel (co_order_id m))"
| "market_op (ExecuteOrder m) = Some (OpExecute (eo_order_id m) (eo_exec_quantity m))"
| "market_op (ReplaceOrder m) = Some (OpReplace (ro_order_id m) (ro_new_price m) (ro_new_quantity m))"
| "market_op (TradeMessage m) = None"

fun op_id :: "book_op \<Rightarrow> order_id" where
  "op_id (OpAdd oid _ _ _ _) = oid"
| "op_id (OpCancel oid) = oid"
| "op_id (OpExecute oid _) = oid"
| "op_id (OpReplace oid _ _) = oid"

text \<open>The symbol a message is about, and what it does to the routing of ids.\<close>

fun market_symbol :: "(order_id \<rightharpoonup> symbol) \<Rightarrow> parsed_message \<Rightarrow> symbol option" where
  "market_symbol R (AddOrder m) = Some (ao_symbol m)"
| "market_symbol R (CancelOrder m) = R (co_order_id m)"
| "market_symbol R (ExecuteOrder m) = R (eo_order_id m)"
| "market_symbol R (ReplaceOrder m) = R (ro_order_id m)"
| "market_symbol R (TradeMessage m) = Some (tm_symbol m)"

fun market_routing :: "(order_id \<rightharpoonup> symbol) \<Rightarrow> parsed_message \<Rightarrow> (order_id \<rightharpoonup> symbol)" where
  "market_routing R (AddOrder m) = R(ao_order_id m \<mapsto> ao_symbol m)"
| "market_routing R (CancelOrder m) = R(co_order_id m := None)"
| "market_routing R _ = R"

definition market_orders :: "symbol \<Rightarrow> (order_id \<rightharpoonup> order) \<Rightarrow> parsed_message \<Rightarrow> (order_id \<rightharpoonup> order)" where
  "market_orders symb M msg =
     (case market_op msg of None \<Rightarrow> M | Some op \<Rightarrow> snd (snd (spec_step (symb, M) op)))"

definition market_step :: "market \<Rightarrow> parsed_event \<times> u64 \<Rightarrow> book_update \<times> market" where
  "market_step a i =
     (let (R, M) = a; (event, now) = i; msg = pe_message event in
      case market_symbol R msg of
        None \<Rightarrow> (book_update_default, R, M)
      | Some symb \<Rightarrow>
          let M1 = market_orders symb M msg
          in (market_update symb M1 (pe_receive_timestamp event) now, market_routing R msg, M1))"

text \<open>
  What the feed has to promise: an id that is live under one symbol is not added under another, and
  the aggregates fit.
\<close>

definition market_ok :: "market \<Rightarrow> parsed_event \<times> u64 \<Rightarrow> bool" where
  "market_ok a i \<longleftrightarrow>
     (let (R, M) = a; msg = pe_message (fst i) in
      (\<forall>m ord. msg = AddOrder m \<and> M (ao_order_id m) = Some ord \<longrightarrow> o_symbol ord = ao_symbol m)
      \<and> (\<forall>symb. market_symbol R msg = Some symb \<longrightarrow>
            book_fits (symb, orders_of (market_orders symb M msg) symb)))"

section \<open>The manager follows the market\<close>

definition mgr_inv :: "book_manager \<Rightarrow> bool" where
  "mgr_inv m \<longleftrightarrow>
     (\<forall>k b. bm_books m k = Some b \<longrightarrow> book_inv b \<and> as_key (ob_symbol b) = k)
     \<and> (\<forall>k b oid ord. bm_books m k = Some b \<longrightarrow> os_orders (ob_store b) oid = Some ord \<longrightarrow>
          bm_order_to_symbol m oid = Some k)
     \<and> (\<forall>oid k. bm_order_to_symbol m oid = Some k \<longrightarrow> bm_books m k \<noteq> None)"

definition abs_market :: "book_manager \<Rightarrow> market" where
  "abs_market m =
     (\<lambda>oid. map_option (\<lambda>(k, b). ob_symbol b) (bm_route m oid),
      \<lambda>oid. case bm_route m oid of None \<Rightarrow> None | Some (k, b) \<Rightarrow> os_orders (ob_store b) oid)"

lemma mgr_inv_new: "mgr_inv book_manager_new"
  by (simp add: mgr_inv_def book_manager_new_def)

lemma mgr_invD:
  assumes "mgr_inv m"
  shows "bm_books m k = Some b \<Longrightarrow> book_inv b"
    "bm_books m k = Some b \<Longrightarrow> as_key (ob_symbol b) = k"
    "bm_books m k = Some b \<Longrightarrow> os_orders (ob_store b) oid = Some ord \<Longrightarrow> bm_order_to_symbol m oid = Some k"
    "bm_order_to_symbol m oid = Some k \<Longrightarrow> \<exists>b. bm_books m k = Some b"
  using assms unfolding mgr_inv_def by blast+

lemma bm_route_Some: "bm_route m oid = Some (k, b) \<longleftrightarrow> bm_order_to_symbol m oid = Some k \<and> bm_books m k = Some b"
  by (auto simp: bm_route_def split: option.splits)

text \<open>The orders of a book are the orders of its symbol in the market.\<close>

lemma orders_of_abs:
  assumes inv: "mgr_inv m" and b: "bm_books m k = Some b"
  shows "orders_of (snd (abs_market m)) (ob_symbol b) = os_orders (ob_store b)"
proof
  fix oid
  note D = mgr_invD [OF inv]
  have sym: "o_symbol ord = ob_symbol b'" if "bm_books m k' = Some b'" "os_orders (ob_store b') oid = Some ord"
    for k' b' ord
    using book_invD(4) [OF D(1) [OF that(1)] that(2)] by simp
  show "orders_of (snd (abs_market m)) (ob_symbol b) oid = os_orders (ob_store b) oid"
  proof (cases "bm_route m oid")
    case None
    then have "os_orders (ob_store b) oid = None"
      using D(3) [OF b, of oid] b by (cases "os_orders (ob_store b) oid") (auto simp: bm_route_def)
    then show ?thesis
      using None by (simp add: orders_of_def abs_market_def)
  next
    case (Some kb)
    obtain k' b' where kb: "kb = (k', b')" by force
    then have r: "bm_order_to_symbol m oid = Some k'" "bm_books m k' = Some b'"
      using Some by (simp_all add: bm_route_Some)
    show ?thesis
    proof (cases "k' = k")
      case True
      then show ?thesis
        using Some kb r b sym [OF b] by (simp add: orders_of_def abs_market_def split: option.splits)
    next
      case False
      then have "ob_symbol b' \<noteq> ob_symbol b"
        using D(2) [OF r(2)] D(2) [OF b] by auto
      moreover have "os_orders (ob_store b) oid = None"
        using D(3) [OF b, of oid] r(1) False by (cases "os_orders (ob_store b) oid") auto
      ultimately show ?thesis
        using Some kb sym [OF r(2)] by (simp add: orders_of_def abs_market_def split: option.splits)
    qed
  qed
qed

lemma best_qty_agrees:
  assumes "sides_agree A b" "finite (dom A)"
  shows "best_bid b = Some p \<Longrightarrow> best_bid_qty b = of_nat (sum_where A (at_level is_buy p) rem_qty)"
    "best_ask b = Some p \<Longrightarrow> best_ask_qty b = of_nat (sum_where A (at_level is_ask p) rem_qty)"
proof -
  have s: "side_agrees (>) is_buy A (ob_bids b)" "side_agrees (<) is_ask A (ob_asks b)"
    using assms by (simp_all add: sides_agree_def)
  show "best_bid b = Some p \<Longrightarrow> best_bid_qty b = of_nat (sum_where A (at_level is_buy p) rem_qty)"
    using bid.begin_best [OF s(1) assms(2)]
    by (auto simp: best_bid_def best_bid_qty_def spec_level_def level_for_def split: option.splits if_splits)
  show "best_ask b = Some p \<Longrightarrow> best_ask_qty b = of_nat (sum_where A (at_level is_ask p) rem_qty)"
    using ask.begin_best [OF s(2) assms(2)]
    by (auto simp: best_ask_def best_ask_qty_def spec_level_def level_for_def split: option.splits if_splits)
qed

lemma bm_make_update_market:
  assumes inv: "book_inv b" and eq: "orders_of M (ob_symbol b) = os_orders (ob_store b)"
  shows "bm_make_update b ts now = market_update (ob_symbol b) M ts now"
proof -
  note D = book_invD [OF inv]
  have "best_bid b = spec_best_bid (os_orders (ob_store b))" "best_ask b = spec_best_ask (os_orders (ob_store b))"
    using D(1,2) by (simp_all add: best_bid_agrees best_ask_agrees)
  then show ?thesis
    using best_qty_agrees [OF D(2,1)]
    by (auto simp: bm_make_update_def market_update_def eq Let_def best_level_def intro!: option.map_cong0)
qed

lemma orders_of_empty [simp]: "orders_of Map.empty symb = Map.empty"
  by (simp add: orders_of_def)

lemma orders_of_upd:
  "(\<And>ord. x = Some ord \<Longrightarrow> o_symbol ord = symb) \<Longrightarrow>
     orders_of (M(i := x)) symb = (orders_of M symb)(i := x)"
  by (auto simp: orders_of_def split: option.splits)

lemma orders_of_insert: "o_symbol ord = symb \<Longrightarrow> orders_of (M(i \<mapsto> ord)) symb = (orders_of M symb)(i \<mapsto> ord)"
  by (rule orders_of_upd) simp

text \<open>A step of the abstract book looks at one id only.\<close>

lemma spec_step_local:
  assumes "\<And>ord. M (op_id op) = Some ord \<Longrightarrow> o_symbol ord = symb"
  shows "snd (snd (spec_step (symb, M) op)) =
    M(op_id op := snd (snd (spec_step (symb, orders_of M symb) op)) (op_id op))"
proof -
  have "orders_of M symb (op_id op) = M (op_id op)"
    using assms by (auto simp: orders_of_def split: option.splits)
  then show ?thesis
    by (cases op) (auto split: option.splits)
qed

text \<open>
  The effect of one book operation on the whole manager: the book of key \<open>k\<close> changes at one id,
  whose routing becomes \<open>r\<close>.
\<close>

lemma mgr_update:
  assumes inv: "mgr_inv m" and b: "bm_books m k = Some b" and b': "book_inv b'" "ob_symbol b' = ob_symbol b"
    and st: "os_orders (ob_store b') = (os_orders (ob_store b))(i := x)"
    and r: "r = Some k \<or> r = None \<and> x = None"
    and lone: "\<And>k2 b2 ord. bm_books m k2 = Some b2 \<Longrightarrow> os_orders (ob_store b2) i = Some ord \<Longrightarrow> k2 = k"
    and m': "m' = m\<lparr>bm_books := (bm_books m)(k \<mapsto> b'), bm_order_to_symbol := (bm_order_to_symbol m)(i := r)\<rparr>"
  shows "mgr_inv m'"
    and "abs_market m' = ((fst (abs_market m))(i := map_option (\<lambda>_. ob_symbol b) r), (snd (abs_market m))(i := x))"
proof -
  note D = mgr_invD [OF inv]
  show "mgr_inv m'"
    unfolding mgr_inv_def m'
    using D r b b' st lone by (auto split: if_splits)
  have route: "bm_route m' oid = (if oid = i then map_option (\<lambda>k. (k, b')) r
      else map_option (\<lambda>(k', c). (k', if k' = k then b' else c)) (bm_route m oid))" for oid
    using r b by (auto simp: bm_route_def m' map_option_case split: option.splits)
  have "fst (abs_market m') oid = ((fst (abs_market m))(i := map_option (\<lambda>_. ob_symbol b) r)) oid
      \<and> snd (abs_market m') oid = ((snd (abs_market m))(i := x)) oid" for oid
  proof (cases "oid = i")
    case True
    then show ?thesis
      using r b'(2) st by (auto simp: abs_market_def route)
  next
    case False
    then show ?thesis
      using b b'(2) st by (cases "bm_route m oid") (auto simp: abs_market_def route bm_route_Some)
  qed
  then show "abs_market m' = ((fst (abs_market m))(i := map_option (\<lambda>_. ob_symbol b) r), (snd (abs_market m))(i := x))"
    by (simp add: prod_eq_iff fun_eq_iff)
qed

lemma get_or_create_keeps:
  assumes inv: "mgr_inv m" and g: "get_or_create m symb = (b, m1)"
  shows "mgr_inv m1" "abs_market m1 = abs_market m" "bm_books m1 (as_key symb) = Some b"
    "ob_symbol b = symb"
proof -
  note D = mgr_invD [OF inv]
  show bk: "bm_books m1 (as_key symb) = Some b"
    using g by (auto simp: get_or_create_def Let_def split: option.splits)
  show symb: "ob_symbol b = symb"
    using g D(2) [of "as_key symb" b]
    by (auto simp: get_or_create_def Let_def order_book_new_def split: option.splits)
  have "mgr_inv m1 \<and> abs_market m1 = abs_market m"
  proof (cases "bm_books m (as_key symb)")
    case None
    then have m1: "m1 = m\<lparr>bm_books := (bm_books m)(as_key symb \<mapsto> order_book_new symb)\<rparr>"
      using g by (auto simp: get_or_create_def Let_def)
    have none: "bm_order_to_symbol m oid \<noteq> Some (as_key symb)" for oid
      using D(4) [of oid "as_key symb"] None by auto
    have "bm_route m1 oid = bm_route m oid" for oid
      using none [of oid] by (auto simp: bm_route_def m1 split: option.splits)
    moreover have "mgr_inv m1"
      unfolding mgr_inv_def m1 using D book_inv_new
      by (auto simp: order_book_new_def order_store_new_def)
    ultimately show ?thesis by (simp add: abs_market_def)
  next
    case (Some c)
    then show ?thesis using g inv by (simp add: get_or_create_def)
  qed
  then show "mgr_inv m1" "abs_market m1 = abs_market m" by simp_all
qed

text \<open>
  One order message on the book it is routed to. The premises say what the message handlers have in
  common: the book found, the operation applied to it, the new routing of the id.
\<close>

lemma mgr_op_follows:
  assumes inv: "mgr_inv m" and b: "bm_books m k = Some b" and op: "i = op_id op" "b' = snd (book_step b op)"
    and r: "r = Some k \<or> r = None \<and> op = OpCancel i"
    and live: "\<And>ord. snd (abs_market m) i = Some ord \<Longrightarrow> o_symbol ord = ob_symbol b"
    and M: "M' = snd (snd (spec_step (ob_symbol b, snd (abs_market m)) op))"
    and fits: "book_fits (ob_symbol b, orders_of M' (ob_symbol b))"
    and m': "m' = m\<lparr>bm_books := (bm_books m)(k \<mapsto> b'), bm_order_to_symbol := (bm_order_to_symbol m)(i := r)\<rparr>"
  shows "mgr_inv m'"
    and "abs_market m' = ((fst (abs_market m))(i := map_option (\<lambda>_. ob_symbol b) r), M')"
    and "bm_make_update b' ts now = market_update (ob_symbol b) M' ts now"
proof -
  note D = mgr_invD [OF inv]
  let ?S = "ob_symbol b" and ?M = "snd (abs_market m)" and ?A = "os_orders (ob_store b)"
  have A: "orders_of ?M ?S = ?A"
    by (rule orders_of_abs [OF inv b])
  let ?A' = "snd (snd (spec_step (?S, ?A) op))"
  have loc: "M' = ?M(i := ?A' i)"
    unfolding M op(1) A [symmetric] by (rule spec_step_local) (use live op(1) in simp)
  have A': "?A' = ?A(i := ?A' i)" "fst (snd (spec_step (?S, ?A) op)) = ?S"
    unfolding op(1) by (cases op; auto split: option.splits)+
  have symb: "o_symbol ord = ?S" if "?A' i = Some ord" for ord
    using that live A book_invD(4) [OF D(1) [OF b]] unfolding op(1)
    by (cases op) (auto split: option.splits if_splits)
  have oo: "orders_of M' ?S = ?A'"
  proof -
    have "orders_of M' ?S = (orders_of ?M ?S)(i := ?A' i)"
      unfolding loc by (rule orders_of_upd) (rule symb)
    also have "\<dots> = ?A'"
      unfolding A by (rule A'(1) [symmetric])
    finally show ?thesis .
  qed
  then have fits': "book_fits (snd (spec_step (abs_book b) op))"
    using fits A'(2) by (simp add: abs_book_def book_fits_def)
  note F = book_step_follows [OF D(1) [OF b] fits', folded op(2)]
  have b': "book_inv b'" "ob_symbol b' = ?S" "os_orders (ob_store b') = ?A'"
    using F A'(2) by (auto simp: abs_book_def prod_eq_iff)
  have lone: "k2 = k" if "bm_books m k2 = Some b2" "os_orders (ob_store b2) i = Some ord" for k2 b2 ord
  proof -
    have "bm_route m i = Some (k2, b2)"
      using D(3) [OF that] that(1) by (simp add: bm_route_Some)
    then have "o_symbol ord = ?S"
      using live [of ord] that by (simp add: abs_market_def)
    then show ?thesis
      using book_invD(4) [OF D(1) [OF that(1)] that(2)] D(2) [OF that(1)] D(2) [OF b] by simp
  qed
  have r': "r = Some k \<or> r = None \<and> ?A' i = None"
    using r by (auto split: option.splits)
  have st: "os_orders (ob_store b') = ?A(i := ?A' i)"
    unfolding b'(3) by (rule A'(1))
  show "mgr_inv m'"
    by (rule mgr_update(1) [OF inv b b'(1,2) st r' _ m']) (rule lone)
  show "abs_market m' = ((fst (abs_market m))(i := map_option (\<lambda>_. ?S) r), M')"
    unfolding loc by (rule mgr_update(2) [OF inv b b'(1,2) st r' _ m']) (rule lone)
  show "bm_make_update b' ts now = market_update ?S M' ts now"
    using bm_make_update_market [OF b'(1), of M' ts now] oo b' by simp
qed

definition mgr_step :: "book_manager \<Rightarrow> parsed_event \<times> u64 \<Rightarrow> book_update \<times> book_manager" where
  "mgr_step m i = bm_process m (fst i) (snd i)"

abbreviation follows_market :: "book_manager \<Rightarrow> parsed_event \<times> u64 \<Rightarrow> bool" where
  "follows_market m i \<equiv>
     fst (mgr_step m i) = fst (market_step (abs_market m) i)
     \<and> abs_market (snd (mgr_step m i)) = snd (market_step (abs_market m) i)
     \<and> mgr_inv (snd (mgr_step m i))"

text \<open>The routed messages: cancel, execute and replace.\<close>

lemma abs_market_route:
  assumes "mgr_inv m" and "bm_route m oid = Some (k, b)"
  shows "fst (abs_market m) oid = Some (ob_symbol b)"
    and "snd (abs_market m) oid = Some ord \<Longrightarrow> o_symbol ord = ob_symbol b"
    and "bm_books m k = Some b" and "bm_order_to_symbol m oid = Some k"
proof -
  show bk: "bm_books m k = Some b" "bm_order_to_symbol m oid = Some k"
    using assms(2) by (simp_all add: bm_route_Some)
  show "fst (abs_market m) oid = Some (ob_symbol b)"
    using assms(2) by (simp add: abs_market_def)
  show "snd (abs_market m) oid = Some ord \<Longrightarrow> o_symbol ord = ob_symbol b"
    using assms(2) book_invD(4) [OF mgr_invD(1) [OF assms(1) bk(1)]] by (simp add: abs_market_def)
qed

lemma mgr_routed_follows:
  assumes inv: "mgr_inv m" and ok: "market_ok (abs_market m) (ev, now)"
    and msg: "market_op (pe_message ev) = Some op" "i = op_id op"
      "market_symbol (fst (abs_market m)) (pe_message ev) = fst (abs_market m) i"
      "market_routing (fst (abs_market m)) (pe_message ev) = (fst (abs_market m))(i := map_option (\<lambda>_. S) r)"
    and route: "bm_route m i = Some (k, b)" "S = ob_symbol b"
    and r: "r = Some k \<or> r = None \<and> op = OpCancel i"
    and proc: "mgr_step m (ev, now) = (bm_make_update (snd (book_step b op)) (pe_receive_timestamp ev) now,
      m\<lparr>bm_books := (bm_books m)(k \<mapsto> snd (book_step b op)), bm_order_to_symbol := (bm_order_to_symbol m)(i := r)\<rparr>)"
  shows "follows_market m (ev, now)"
proof -
  note R = abs_market_route [OF inv route(1)]
  let ?M' = "snd (snd (spec_step (ob_symbol b, snd (abs_market m)) op))"
  have MO: "market_orders (ob_symbol b) (snd (abs_market m)) (pe_message ev) = ?M'"
    by (simp add: market_orders_def msg)
  have fits: "book_fits (ob_symbol b, orders_of ?M' (ob_symbol b))"
    using ok R(1) by (simp add: market_ok_def Let_def split_beta msg(3) MO)
  note F = mgr_op_follows [OF inv R(3) msg(2) refl r R(2) refl fits refl]
  show ?thesis
    using F msg(3,4) R(1) route(2) MO by (simp add: proc market_step_def split_beta Let_def)
qed

lemma mgr_unrouted_follows:
  assumes "mgr_inv m" and "bm_route m i = None"
    and "market_symbol (fst (abs_market m)) (pe_message ev) = fst (abs_market m) i"
    and "mgr_step m (ev, now) = (book_update_default, m)"
  shows "follows_market m (ev, now)"
  using assms by (simp add: market_step_def split_beta Let_def) (simp add: abs_market_def)

lemma routing_same: "bm_order_to_symbol m i = Some k \<Longrightarrow> m\<lparr>bm_books := B, bm_order_to_symbol := (bm_order_to_symbol m)(i \<mapsto> k)\<rparr> = m\<lparr>bm_books := B\<rparr>"
  by (simp add: map_upd_triv)

lemma mgr_step_follows:
  assumes inv: "mgr_inv m" and ok: "market_ok (abs_market m) (ev, now)"
  shows "follows_market m (ev, now)"
proof (cases "pe_message ev")
  case (AddOrder msg)
  let ?S = "ao_symbol msg" and ?i = "ao_order_id msg"
  let ?op = "OpAdd ?i (ao_side msg) (ao_price msg) (ao_quantity msg) 0"
  obtain b m1 where g: "get_or_create m ?S = (b, m1)" by force
  note G = get_or_create_keeps [OF inv g]
  let ?M' = "snd (snd (spec_step (ob_symbol b, snd (abs_market m1)) ?op))"
  have MO: "market_orders ?S (snd (abs_market m)) (AddOrder msg) = ?M'"
    by (simp add: market_orders_def G)
  have live: "snd (abs_market m1) ?i = Some ord \<Longrightarrow> o_symbol ord = ob_symbol b" for ord
    using ok G by (simp add: market_ok_def split_beta Let_def AddOrder)
  have fits: "book_fits (ob_symbol b, orders_of ?M' (ob_symbol b))"
    using ok MO G by (simp add: market_ok_def split_beta Let_def AddOrder)
  note F = mgr_op_follows [OF G(1,3) _ refl _ live refl fits refl, of ?i "Some (as_key ?S)"]
  have proc: "mgr_step m (ev, now) =
      (bm_make_update (snd (book_step b ?op)) (pe_receive_timestamp ev) now,
       m1\<lparr>bm_books := (bm_books m1)(as_key ?S \<mapsto> snd (book_step b ?op)),
         bm_order_to_symbol := (bm_order_to_symbol m1)(?i := Some (as_key ?S))\<rparr>)"
    by (cases m1) (simp add: mgr_step_def bm_process_def Let_def AddOrder g)
  have spec: "market_step (abs_market m) (ev, now) =
      (market_update ?S ?M' (pe_receive_timestamp ev) now,
       (fst (abs_market m))(?i := Some ?S), ?M')"
    unfolding MO [symmetric] by (simp add: market_step_def split_beta Let_def AddOrder)
  show ?thesis
    unfolding proc spec using F G by (simp del: spec_step.simps book_step.simps)
next
  case (TradeMessage msg)
  let ?S = "tm_symbol msg"
  obtain b m1 where g: "get_or_create m ?S = (b, m1)" by force
  note G = get_or_create_keeps [OF inv g]
  have "bm_make_update b (pe_receive_timestamp ev) now
      = market_update ?S (snd (abs_market m)) (pe_receive_timestamp ev) now"
    using bm_make_update_market [OF mgr_invD(1) [OF G(1,3)], of "snd (abs_market m1)"]
      orders_of_abs [OF G(1,3)] G by simp
  then show ?thesis
    using G by (simp add: mgr_step_def bm_process_def market_step_def market_orders_def split_beta Let_def
        TradeMessage g prod_eq_iff)
next
  case (CancelOrder msg)
  show ?thesis
  proof (cases "bm_route m (co_order_id msg)")
    case None
    then show ?thesis
      by (intro mgr_unrouted_follows [OF inv None]) (simp_all add: CancelOrder mgr_step_def bm_process_def)
  next
    case (Some kb)
    obtain k b where kb: "kb = (k, b)" by force
    show ?thesis
      by (rule mgr_routed_follows [OF inv ok, of "OpCancel (co_order_id msg)" "co_order_id msg" "ob_symbol b" None k b])
        (use Some kb in \<open>simp_all add: CancelOrder mgr_step_def bm_process_def Let_def\<close>)
  qed
next
  case (ExecuteOrder msg)
  show ?thesis
  proof (cases "bm_route m (eo_order_id msg)")
    case None
    then show ?thesis
      by (intro mgr_unrouted_follows [OF inv None]) (simp_all add: ExecuteOrder mgr_step_def bm_process_def)
  next
    case (Some kb)
    obtain k b where kb: "kb = (k, b)" by force
    note R = abs_market_route [OF inv Some [unfolded kb]]
    show ?thesis
      by (rule mgr_routed_follows [OF inv ok, of "OpExecute (eo_order_id msg) (eo_exec_quantity msg)"
            "eo_order_id msg" "ob_symbol b" "Some k" k b])
        (use Some kb R(1,4) in \<open>simp_all add: ExecuteOrder mgr_step_def bm_process_def Let_def routing_same map_upd_triv\<close>)
  qed
next
  case (ReplaceOrder msg)
  show ?thesis
  proof (cases "bm_route m (ro_order_id msg)")
    case None
    then show ?thesis
      by (intro mgr_unrouted_follows [OF inv None]) (simp_all add: ReplaceOrder mgr_step_def bm_process_def)
  next
    case (Some kb)
    obtain k b where kb: "kb = (k, b)" by force
    note R = abs_market_route [OF inv Some [unfolded kb]]
    show ?thesis
      by (rule mgr_routed_follows [OF inv ok, of "OpReplace (ro_order_id msg) (ro_new_price msg) (ro_new_quantity msg)"
            "ro_order_id msg" "ob_symbol b" "Some k" k b])
        (use Some kb R(1,4) in \<open>simp_all add: ReplaceOrder mgr_step_def bm_process_def Let_def routing_same map_upd_triv\<close>)
  qed
qed

interpretation mgr: refinement abs_market mgr_inv mgr_step market_step market_ok
proof
  fix m and i :: "parsed_event \<times> u64"
  assume "mgr_inv m" "market_ok (abs_market m) i"
  then show "follows_market m i"
    using mgr_step_follows [of m "fst i" "snd i"] by simp
qed

section \<open>Properties\<close>

text \<open>
  C3. The book manager refines the abstract market. For any sequence of messages in which no id
  that is live under one symbol is added under another, and whose aggregates fit their counters,
  each update it publishes names the symbol of the message and carries the best bid and ask price of
  that symbol with the total quantity resting there, computed from the set of all live orders; a
  message for an id it does not know gives the empty update and changes nothing.
\<close>

theorem book_manager_refines:
  assumes "run_ok market_ok market_step (Map.empty, Map.empty) evs"
  shows "fst (run mgr_step book_manager_new evs) = fst (run market_step (Map.empty, Map.empty) evs)
    \<and> abs_market (snd (run mgr_step book_manager_new evs)) = snd (run market_step (Map.empty, Map.empty) evs)
    \<and> mgr_inv (snd (run mgr_step book_manager_new evs))"
proof -
  have "abs_market book_manager_new = (Map.empty, Map.empty)"
    by (simp add: abs_market_def book_manager_new_def bm_route_def)
  then show ?thesis
    using mgr.run_refines [OF mgr_inv_new, of evs] assms by simp
qed

definition sample_add :: "order_id \<Rightarrow> symbol \<Rightarrow> parsed_event" where
  "sample_add oid symb = \<lparr>pe_message = AddOrder \<lparr>ao_order_id = oid, ao_side = Side_Buy, ao_symbol = symb,
     ao_price = 100, ao_quantity = 10\<rparr>, pe_receive_timestamp = 5\<rparr>"

definition sample_cancel :: "order_id \<Rightarrow> parsed_event" where
  "sample_cancel oid = \<lparr>pe_message = CancelOrder \<lparr>co_order_id = oid\<rparr>, pe_receive_timestamp = 6\<rparr>"

theorem book_manager_refines_witness:
  "fst (run mgr_step book_manager_new [(sample_add 1 symbol_default, 8)])
     = fst (run market_step (Map.empty, Map.empty) [(sample_add 1 symbol_default, 8)])"
proof -
  have "run_ok market_ok market_step (Map.empty, Map.empty) [(sample_add 1 symbol_default, 8)]"
    by (simp add: market_ok_def market_orders_def orders_of_insert sample_add_def Let_def
        book_fits_def level_fits_def count_where_def sum_where_insert at_level_def)
  from book_manager_refines [OF this] show ?thesis by blast
qed

text \<open>
  Without that promise of the feed an order is lost: when an id that is live under one symbol is
  added under another, the routing forgets the first book, so a later cancel of the id removes the
  second order only, and the first stays in its book where no message can reach it any more.
\<close>

theorem duplicate_id_orphans_order:
  assumes "s1 \<noteq> s2"
  shows "let m = snd (run mgr_step book_manager_new
               [(sample_add 1 s1, t1), (sample_add 1 s2, t2), (sample_cancel 1, t3)])
    in bm_route m 1 = None
     \<and> (\<exists>b. get_book m s1 = Some b \<and> os_orders (ob_store b) 1 \<noteq> None \<and> best_bid b = Some 100)"
  using assms
  by (simp add: Let_def mgr_step_def bm_process_def sample_add_def sample_cancel_def book_manager_new_def
      get_or_create_def order_book_new_def order_store_new_def book_add_order_def store_add_def
      add_to_side_def level_insert_def price_level_new_def level_add_def bm_route_def
      book_cancel_order_def store_remove_def remove_from_side_def level_delete_def level_remove_def
      get_book_def best_bid_def om_begin_def)

theorem duplicate_id_orphans_order_witness:
  "let m = snd (run mgr_step book_manager_new
       [(sample_add 1 symbol_default, 0), (sample_add 1 (symbol_of_cstr [65]), 0), (sample_cancel 1, 0)])
   in bm_route m 1 = None
     \<and> (\<exists>b. get_book m symbol_default = Some b \<and> os_orders (ob_store b) 1 \<noteq> None \<and> best_bid b = Some 100)"
  by (rule duplicate_id_orphans_order)
    (simp add: symbol_default_def symbol_of_cstr_def symbol_of_data_def byte_at_def)

end
