(* ===== verification/Stats.thy ===== *)
theory Stats
  imports Book_Manager
begin

text \<open>
  The consumer's statistics (\<open>include/qf/consumer\<close>, \<open>src/consumer\<close>): the latency histogram, the
  throughput window and the collector that feeds them. Two places of the source compute with
  \<open>double\<close>: the rank \<open>static_cast<uint64_t>(p * count_)\<close> of a percentile is an argument of the loop
  that uses it, and the quotient of the window sum and its length is an argument \<open>rate\<close> with values
  in any linearly ordered type \<open>'d\<close> with a zero, of which the code uses only the comparison.
\<close>

record latency_histogram =
  lh_buckets :: "u64 list"
  lh_max_latency_ns :: u64
  lh_bucket_width_ns :: u64
  lh_count :: u64
  lh_sum :: u64
  lh_min :: u64
  lh_max :: u64
  lh_overflow :: u64

definition histogram_new :: "u64 \<Rightarrow> nat \<Rightarrow> latency_histogram" where
  "histogram_new max_latency_us bucket_count =
     \<lparr>lh_buckets = replicate bucket_count 0, lh_max_latency_ns = max_latency_us * 1000,
      lh_bucket_width_ns = max_latency_us * 1000 div of_nat bucket_count, lh_count = 0, lh_sum = 0,
      lh_min = - 1, lh_max = 0, lh_overflow = 0\<rparr>"

definition bucket_index :: "latency_histogram \<Rightarrow> u64 \<Rightarrow> nat" where
  "bucket_index h latency_ns =
     (if lh_bucket_width_ns h = 0 then 0
      else min (unat (latency_ns div lh_bucket_width_ns h)) (length (lh_buckets h) - 1))"

definition histogram_record :: "latency_histogram \<Rightarrow> u64 \<Rightarrow> latency_histogram" where
  "histogram_record h latency_ns =
     (let idx = bucket_index h latency_ns in
      h\<lparr>lh_buckets := (lh_buckets h)[idx := lh_buckets h ! idx + 1],
        lh_count := lh_count h + 1,
        lh_sum := lh_sum h + latency_ns,
        lh_min := if latency_ns < lh_min h then latency_ns else lh_min h,
        lh_max := if lh_max h < latency_ns then latency_ns else lh_max h,
        lh_overflow := if lh_max_latency_ns h \<le> latency_ns then lh_overflow h + 1 else lh_overflow h\<rparr>)"

fun percentile_loop :: "latency_histogram \<Rightarrow> u64 \<Rightarrow> u64 list \<Rightarrow> nat \<Rightarrow> u64 \<Rightarrow> u64" where
  "percentile_loop h threshold [] i cumulative = lh_max_latency_ns h"
| "percentile_loop h threshold (b # bs) i cumulative =
     (let cumulative1 = cumulative + b in
      if threshold \<le> cumulative1 then of_nat (i + 1) * lh_bucket_width_ns h
      else percentile_loop h threshold bs (Suc i) cumulative1)"

definition percentile :: "latency_histogram \<Rightarrow> u64 \<Rightarrow> u64" where
  "percentile h p_count =
     (if lh_count h = 0 then 0
      else let threshold = (if p_count = 0 then 1 else p_count)
           in percentile_loop h threshold (lh_buckets h) 0 0)"

definition histogram_reset :: "latency_histogram \<Rightarrow> latency_histogram" where
  "histogram_reset h = h\<lparr>lh_buckets := map (\<lambda>_. 0) (lh_buckets h), lh_count := 0, lh_sum := 0,
     lh_min := - 1, lh_max := 0, lh_overflow := 0\<rparr>"

section \<open>Throughput\<close>

record 'd throughput_tracker =
  tt_window :: "u64 list"
  tt_window_size :: nat
  tt_write_pos :: nat
  tt_filled :: bool
  tt_total :: u64
  tt_peak_rate :: 'd

definition throughput_new :: "nat \<Rightarrow> 'd::{linorder,zero} throughput_tracker" where
  "throughput_new window_seconds =
     \<lparr>tt_window = replicate window_seconds 0, tt_window_size = window_seconds, tt_write_pos = 0,
      tt_filled = False, tt_total = 0, tt_peak_rate = 0\<rparr>"

definition current_rate :: "(u64 \<Rightarrow> nat \<Rightarrow> 'd::{linorder,zero}) \<Rightarrow> 'd throughput_tracker \<Rightarrow> 'd" where
  "current_rate rate t =
     (let slots = (if tt_filled t then tt_window_size t else tt_write_pos t) in
      if slots = 0 then 0
      else rate (sum_list (if tt_filled t then tt_window t else take (tt_write_pos t) (tt_window t))) slots)"

definition throughput_tick ::
  "(u64 \<Rightarrow> nat \<Rightarrow> 'd::{linorder,zero}) \<Rightarrow> 'd throughput_tracker \<Rightarrow> u64 \<Rightarrow> 'd throughput_tracker" where
  "throughput_tick rate t cnt =
     (let pos = (tt_write_pos t + 1) mod tt_window_size t;
          t1 = t\<lparr>tt_window := (tt_window t)[tt_write_pos t := cnt], tt_write_pos := pos,
                 tt_filled := tt_filled t \<or> pos = 0, tt_total := tt_total t + cnt\<rparr>;
          r = current_rate rate t1
      in if tt_peak_rate t1 < r then t1\<lparr>tt_peak_rate := r\<rparr> else t1)"

definition throughput_reset :: "'d::{linorder,zero} throughput_tracker \<Rightarrow> 'd throughput_tracker" where
  "throughput_reset t = t\<lparr>tt_window := map (\<lambda>_. 0) (tt_window t), tt_write_pos := 0,
     tt_filled := False, tt_total := 0, tt_peak_rate := 0\<rparr>"

section \<open>Collector\<close>

record 'd stats_collector =
  sc_histogram :: latency_histogram
  sc_throughput :: "'d throughput_tracker"
  sc_updates_this_tick :: u64
  sc_gap_count :: u64

definition stats_collector_new :: "'d::{linorder,zero} stats_collector" where
  "stats_collector_new = \<lparr>sc_histogram = histogram_new 10000 1000, sc_throughput = throughput_new 5,
     sc_updates_this_tick = 0, sc_gap_count = 0\<rparr>"

definition stats_process :: "'d stats_collector \<Rightarrow> book_update \<Rightarrow> 'd stats_collector" where
  "stats_process c update =
     (let latency = bu_book_timestamp update - bu_receive_timestamp update in
      c\<lparr>sc_histogram := histogram_record (sc_histogram c) latency,
        sc_updates_this_tick := sc_updates_this_tick c + 1\<rparr>)"

definition stats_tick ::
  "(u64 \<Rightarrow> nat \<Rightarrow> 'd::{linorder,zero}) \<Rightarrow> 'd stats_collector \<Rightarrow> 'd stats_collector" where
  "stats_tick rate c =
     c\<lparr>sc_throughput := throughput_tick rate (sc_throughput c) (sc_updates_this_tick c),
       sc_updates_this_tick := 0\<rparr>"

definition set_gap_count :: "'d stats_collector \<Rightarrow> u64 \<Rightarrow> 'd stats_collector" where
  "set_gap_count c gaps = c\<lparr>sc_gap_count := gaps\<rparr>"

definition stats_reset :: "'d::{linorder,zero} stats_collector \<Rightarrow> 'd stats_collector" where
  "stats_reset c = c\<lparr>sc_histogram := histogram_reset (sc_histogram c),
     sc_throughput := throughput_reset (sc_throughput c), sc_updates_this_tick := 0, sc_gap_count := 0\<rparr>"

section \<open>What the histogram holds\<close>

text \<open>
  \<open>hist_holds h xs\<close>: the histogram is that of the samples \<open>xs\<close>, its buckets counting the samples of
  each index.
\<close>

definition hist_holds :: "latency_histogram \<Rightarrow> u64 list \<Rightarrow> bool" where
  "hist_holds h xs \<longleftrightarrow> lh_buckets h \<noteq> []
     \<and> (\<forall>i < length (lh_buckets h). lh_buckets h ! i = of_nat (length (filter (\<lambda>x. bucket_index h x = i) xs)))
     \<and> lh_count h = of_nat (length xs) \<and> lh_sum h = sum_list xs
     \<and> lh_overflow h = of_nat (length (filter (\<lambda>x. lh_max_latency_ns h \<le> x) xs))
     \<and> (xs \<noteq> [] \<longrightarrow> lh_min h = Min (set xs) \<and> lh_max h = Max (set xs))
     \<and> (xs = [] \<longrightarrow> lh_min h = - 1 \<and> lh_max h = 0)"

lemma bucket_index_less: "lh_buckets h \<noteq> [] \<Longrightarrow> bucket_index h x < length (lh_buckets h)"
  by (cases "lh_buckets h") (auto simp: bucket_index_def min_def less_Suc_eq_le)

lemma bucket_index_record [simp]: "bucket_index (histogram_record h x) = bucket_index h"
  by (rule ext) (simp add: bucket_index_def histogram_record_def Let_def)

lemma hist_holds_new: "0 < n \<Longrightarrow> hist_holds (histogram_new m n) []"
  by (simp add: hist_holds_def histogram_new_def)

lemma record_min_max:
  assumes "hist_holds h xs"
  shows "lh_min (histogram_record h x) = Min (set (xs @ [x]))"
    "lh_max (histogram_record h x) = Max (set (xs @ [x]))"
proof -
  have rec: "lh_min (histogram_record h x) = min x (lh_min h)" "lh_max (histogram_record h x) = max x (lh_max h)"
    by (auto simp: histogram_record_def Let_def min_def max_def)
  have "min x (- 1) = x"
    by (rule min.absorb1) (rule word_order.extremum)
  then show "lh_min (histogram_record h x) = Min (set (xs @ [x]))"
    unfolding rec using assms by (cases "xs = []") (simp_all add: hist_holds_def)
  show "lh_max (histogram_record h x) = Max (set (xs @ [x]))"
    unfolding rec using assms by (cases "xs = []") (simp_all add: hist_holds_def)
qed

lemma hist_holds_record:
  assumes h: "hist_holds h xs"
  shows "hist_holds (histogram_record h x) (xs @ [x])"
proof -
  have "bucket_index h x < length (lh_buckets h)"
    using h by (intro bucket_index_less) (simp add: hist_holds_def)
  then have "lh_buckets (histogram_record h x) ! i
      = of_nat (length (filter (\<lambda>y. bucket_index h y = i) (xs @ [x])))"
    if "i < length (lh_buckets h)" for i
    using h that by (cases "i = bucket_index h x") (auto simp: hist_holds_def histogram_record_def Let_def)
  then show ?thesis
    using h record_min_max [OF h, of x]
    unfolding hist_holds_def bucket_index_record
    by (auto simp: histogram_record_def Let_def)
qed

lemma percentile_loop_rank:
  assumes "\<And>i. i < length bs \<Longrightarrow> bs ! i = of_nat (cnt (j + i))"
    and "c = of_nat (\<Sum>i<j. cnt i)" and "(\<Sum>i<j + length bs. cnt i) < 2 ^ 64"
    and "(\<Sum>i<j. cnt i) < unat threshold" and "unat threshold \<le> (\<Sum>i<j + length bs. cnt i)"
  shows "\<exists>i \<ge> j. i < j + length bs \<and> percentile_loop h threshold bs j c = of_nat (i + 1) * lh_bucket_width_ns h
    \<and> (\<Sum>m<i. cnt m) < unat threshold \<and> unat threshold \<le> (\<Sum>m\<le>i. cnt m)"
  using assms
proof (induction bs arbitrary: j c)
  case Nil
  then show ?case by simp
next
  case (Cons b bs)
  have le: "(\<Sum>i<Suc j. cnt i) \<le> (\<Sum>i<j + length (b # bs). cnt i)"
    by (intro sum_mono2) auto
  have b: "c + b = of_nat (\<Sum>i<Suc j. cnt i)"
    using Cons.prems(1) [of 0] Cons.prems(2) by simp
  have u: "unat (c + b) = (\<Sum>i<Suc j. cnt i)"
    unfolding b unat_of_nat using le Cons.prems(3) by simp
  show ?case
  proof (cases "threshold \<le> c + b")
    case True
    then have "unat threshold \<le> (\<Sum>m\<le>j. cnt m)"
      using u by (simp add: word_le_nat_alt lessThan_Suc_atMost)
    then show ?thesis
      using True Cons.prems(4) by (intro exI [of _ j]) simp
  next
    case False
    then have lt: "(\<Sum>i<Suc j. cnt i) < unat threshold"
      using u by (simp add: word_le_nat_alt)
    have "\<And>i. i < length bs \<Longrightarrow> bs ! i = of_nat (cnt (Suc j + i))"
      using Cons.prems(1) [of "Suc _"] by simp
    from Cons.IH [OF this b _ lt] Cons.prems(3,5) obtain i where
      "Suc j \<le> i" "i < Suc j + length bs"
      "percentile_loop h threshold bs (Suc j) (c + b) = of_nat (i + 1) * lh_bucket_width_ns h"
      "(\<Sum>m<i. cnt m) < unat threshold" "unat threshold \<le> (\<Sum>m\<le>i. cnt m)"
      by auto
    then show ?thesis
      using False by (intro exI [of _ i]) simp
  qed
qed

text \<open>Counting samples by bucket.\<close>

lemma sum_bucket_counts:
  "(\<Sum>i<m. length (filter (\<lambda>x. f x = i) xs)) = length (filter (\<lambda>x. f x < (m::nat)) xs)"
proof (induction m)
  case (Suc m)
  have "length (filter (\<lambda>x. f x < m) xs) + length (filter (\<lambda>x. f x = m) xs) = length (filter (\<lambda>x. f x < Suc m) xs)"
    by (induction xs) auto
  then show ?case using Suc by simp
qed simp

lemma histogram_run_holds:
  "hist_holds h ys \<Longrightarrow> hist_holds (foldl histogram_record h xs) (ys @ xs)"
proof (induction xs arbitrary: h ys)
  case (Cons x xs)
  from Cons.IH [OF hist_holds_record [OF Cons.prems]] show ?case by simp
qed simp

section \<open>Properties\<close>

text \<open>
  A histogram fed with any samples reports a percentile faithfully: for a rank between 1 and the
  number of samples, the value is the upper edge of a bucket such that fewer than \<open>rank\<close> samples
  lie in the buckets below it and at least \<open>rank\<close> samples lie in the buckets up to it; the count, the
  sum, the extremes and the overflow count are those of the samples.
\<close>

theorem percentile_is_rank_bucket:
  assumes "0 < n" and "length xs < 2 ^ 64" and "0 < unat rank" and "unat rank \<le> length xs"
    and "h = foldl histogram_record (histogram_new m n) xs"
  shows "(\<exists>i < n. percentile h rank = of_nat (i + 1) * lh_bucket_width_ns h
      \<and> length (filter (\<lambda>x. bucket_index h x < i) xs) < unat rank
      \<and> unat rank \<le> length (filter (\<lambda>x. bucket_index h x \<le> i) xs))
    \<and> unat (lh_count h) = length xs \<and> lh_sum h = sum_list xs \<and> lh_min h = Min (set xs) \<and> lh_max h = Max (set xs)"
proof -
  have holds: "hist_holds h xs"
    using histogram_run_holds [OF hist_holds_new [OF assms(1)], of m xs] assms(5) by simp
  have len: "length (lh_buckets h) = n"
  proof -
    have "length (lh_buckets (foldl histogram_record g xs)) = length (lh_buckets g)" for g
      by (induction xs arbitrary: g) (simp_all add: histogram_record_def Let_def)
    then show ?thesis using assms(5) by (simp add: histogram_new_def)
  qed
  let ?cnt = "\<lambda>i. length (filter (\<lambda>x. bucket_index h x = i) xs)"
  have all: "filter (\<lambda>x. bucket_index h x < n) xs = xs"
    using bucket_index_less [of h] holds len by (simp add: hist_holds_def)
  have ne: "xs \<noteq> []" and c: "lh_count h \<noteq> 0" "unat (lh_count h) = length xs"
    using assms(2-4) holds by (auto simp: hist_holds_def unat_of_nat of_nat_eq_0_small)
  have "\<exists>i\<ge>0. i < 0 + length (lh_buckets h)
      \<and> percentile_loop h rank (lh_buckets h) 0 0 = of_nat (i + 1) * lh_bucket_width_ns h
      \<and> (\<Sum>m<i. ?cnt m) < unat rank \<and> unat rank \<le> (\<Sum>m\<le>i. ?cnt m)"
    using holds assms(2-4) all len
    by (intro percentile_loop_rank) (auto simp: hist_holds_def sum_bucket_counts)
  moreover have "rank \<noteq> 0" using assms(3) by auto
  ultimately have "\<exists>i < n. percentile h rank = of_nat (i + 1) * lh_bucket_width_ns h
      \<and> length (filter (\<lambda>x. bucket_index h x < i) xs) < unat rank
      \<and> unat rank \<le> length (filter (\<lambda>x. bucket_index h x \<le> i) xs)"
    using c len
    by (auto simp: percentile_def Let_def sum_bucket_counts lessThan_Suc_atMost [symmetric] less_Suc_eq_le)
  then show ?thesis
    using holds ne c(2) by (simp add: hist_holds_def)
qed

theorem percentile_is_rank_bucket_witness:
  "\<exists>i < 10. percentile (foldl histogram_record (histogram_new 1 10) [50, 150, 950]) 2
     = of_nat (i + 1) * lh_bucket_width_ns (foldl histogram_record (histogram_new 1 10) [50, 150, 950])"
  using percentile_is_rank_bucket [of 10 "[50, 150, 950]" 2 _ 1, OF _ _ _ _ refl] by auto

text \<open>
  An event for an order the books do not know is still published, as an update whose two
  timestamps are zero, and the collector records it as a sample of latency zero: from then on the
  reported minimum is zero, whatever was measured.
\<close>

theorem unknown_order_is_zero_sample:
  assumes "bm_route m oid = None"
  shows "lh_min (sc_histogram (stats_process c
      (fst (bm_process m \<lparr>pe_message = CancelOrder \<lparr>co_order_id = oid\<rparr>, pe_receive_timestamp = ts\<rparr> now)))) = 0"
  using assms
  by (simp add: bm_process_def stats_process_def histogram_record_def book_update_default_def Let_def word_gt_0)

theorem unknown_order_is_zero_sample_witness:
  "lh_min (sc_histogram (stats_process (stats_collector_new :: nat stats_collector)
     (fst (bm_process book_manager_new
        \<lparr>pe_message = CancelOrder \<lparr>co_order_id = 7\<rparr>, pe_receive_timestamp = 100\<rparr> 200)))) = 0"
  by (rule unknown_order_is_zero_sample) (simp add: bm_route_def book_manager_new_def)

end
