(* ===== verification/Spsc_Queue.thy ===== *)
theory Spsc_Queue
  imports Common_Types
begin

unbundle bit_operations_syntax

text \<open>
  The bounded queue between two pipeline threads (\<open>include/qf/core/spsc_queue.hpp\<close>). The template
  parameter \<open>Capacity\<close> is an argument; the static assertions of the class are \<open>capacity_ok\<close>. First
  the operations as one thread sees them, then both threads interleaved at the granularity of
  their accesses to shared memory (sequentially consistent; the acquire and release orders of the
  source are what makes that view sound on the target).
\<close>

record 'a spsc_queue =
  sq_buffer :: "'a list"
  sq_head :: u64
  sq_tail :: u64

text \<open>The index step shared by the ring buffers of the program: \<open>(i + 1) & MASK\<close>.\<close>

definition next_index :: "u64 \<Rightarrow> u64 \<Rightarrow> u64" where
  "next_index capacity i = (i + 1) AND (capacity - 1)"

definition capacity_ok :: "u64 \<Rightarrow> bool" where
  "capacity_ok capacity \<longleftrightarrow> capacity AND (capacity - 1) = 0 \<and> 0 < capacity"

definition spsc_new :: "u64 \<Rightarrow> 'a \<Rightarrow> 'a spsc_queue" where
  "spsc_new capacity dflt = \<lparr>sq_buffer = replicate (unat capacity) dflt, sq_head = 0, sq_tail = 0\<rparr>"

definition spsc_try_push :: "u64 \<Rightarrow> 'a spsc_queue \<Rightarrow> 'a \<Rightarrow> bool \<times> 'a spsc_queue" where
  "spsc_try_push capacity q item =
     (let head = sq_head q; nxt = next_index capacity head in
      if nxt = sq_tail q then (False, q)
      else (True, q\<lparr>sq_buffer := (sq_buffer q)[unat head := item], sq_head := nxt\<rparr>))"

definition spsc_try_pop :: "u64 \<Rightarrow> 'a spsc_queue \<Rightarrow> 'a option \<times> 'a spsc_queue" where
  "spsc_try_pop capacity q =
     (let tail = sq_tail q in
      if tail = sq_head q then (None, q)
      else (Some (sq_buffer q ! unat tail), q\<lparr>sq_tail := next_index capacity tail\<rparr>))"

fun spsc_try_push_batch :: "u64 \<Rightarrow> 'a spsc_queue \<Rightarrow> 'a list \<Rightarrow> nat \<times> 'a spsc_queue" where
  "spsc_try_push_batch capacity q [] = (0, q)"
| "spsc_try_push_batch capacity q (item # items) =
     (let (ok, q1) = spsc_try_push capacity q item in
      if \<not> ok then (0, q1)
      else let (pushed, q2) = spsc_try_push_batch capacity q1 items in (Suc pushed, q2))"

fun spsc_try_pop_batch :: "u64 \<Rightarrow> 'a spsc_queue \<Rightarrow> nat \<Rightarrow> 'a list \<times> 'a spsc_queue" where
  "spsc_try_pop_batch capacity q 0 = ([], q)"
| "spsc_try_pop_batch capacity q (Suc n) =
     (case spsc_try_pop capacity q of
        (None, q1) \<Rightarrow> ([], q1)
      | (Some item, q1) \<Rightarrow>
          let (items, q2) = spsc_try_pop_batch capacity q1 n in (item # items, q2))"

definition spsc_size :: "u64 \<Rightarrow> 'a spsc_queue \<Rightarrow> u64" where
  "spsc_size capacity q = (sq_head q - sq_tail q) AND (capacity - 1)"

definition spsc_empty :: "'a spsc_queue \<Rightarrow> bool" where
  "spsc_empty q \<longleftrightarrow> sq_head q = sq_tail q"

definition spsc_full :: "u64 \<Rightarrow> 'a spsc_queue \<Rightarrow> bool" where
  "spsc_full capacity q \<longleftrightarrow> spsc_size capacity q = capacity - 1"

section \<open>Index arithmetic\<close>

text \<open>
  The capacities the class accepts are the powers of two, so masking is reduction modulo the
  capacity.
\<close>

lemma mask_mod:
  fixes x :: u64
  assumes "k < 64" and "capacity = 2 ^ k"
  shows "unat (x AND (capacity - 1)) = unat x mod 2 ^ k"
proof -
  have "x AND (capacity - 1) = take_bit k x"
    using assms by (simp add: take_bit_eq_mask mask_eq_exp_minus_1)
  then show ?thesis
    by (simp add: unsigned_take_bit_eq take_bit_nat_def)
qed

lemma power_capacity_ok:
  assumes "k < 64"
  shows "capacity_ok (2 ^ k)" and "unat (2 ^ k :: u64) = 2 ^ k"
proof -
  show u: "unat (2 ^ k :: u64) = 2 ^ k"
  proof -
    have "unat (of_nat (2 ^ k) :: u64) = 2 ^ k mod 2 ^ 64"
      by (simp only: unat_of_nat) simp
    also have "\<dots> = 2 ^ k"
      using power_strict_increasing [OF assms, of "2::nat"] by (intro mod_less) simp
    finally show ?thesis by simp
  qed
  have "unat ((2 ^ k :: u64) AND (2 ^ k - 1)) = 0"
    using mask_mod [OF assms refl, of "2 ^ k"] u by simp
  then show "capacity_ok (2 ^ k)"
    using u assms by (auto simp: capacity_ok_def unat_eq_0 word_gt_0)
qed

lemma next_index_mod:
  assumes "k < 64" and "capacity = 2 ^ k" and "unat i = n mod 2 ^ k"
  shows "unat (next_index capacity i) = Suc n mod 2 ^ k"
proof -
  have "n mod 2 ^ k < 2 ^ k"
    by simp
  also have "(2::nat) ^ k \<le> 2 ^ 63"
    using assms(1) by (intro power_increasing) auto
  finally have "unat i + 1 < 2 ^ 64"
    using assms(3) by simp
  then have "unat (i + 1) = Suc (n mod 2 ^ k)"
    using assms(3) unat_plus_small [of i 1] by simp
  then show ?thesis
    unfolding next_index_def mask_mod [OF assms(1,2)] by (simp add: mod_Suc_eq)
qed

text \<open>Conversely, every accepted capacity is a power of two.\<close>

lemma mod_eq_near:
  fixes a b :: nat
  assumes "a mod c = b mod c" and "b \<le> a" and "a < b + c"
  shows "a = b"
proof -
  have "c dvd a - b"
    using assms(1,2) by (simp add: mod_eq_dvd_iff_nat)
  then show ?thesis
    using assms(2,3) by (auto dest!: dvd_imp_le)
qed

text \<open>
  A ring of \<open>c\<close> slots whose consumer is at position \<open>t\<close> of the stream and whose producer is at
  \<open>t + length xs\<close> holds the elements \<open>xs\<close>.
\<close>

definition ring_holds :: "nat \<Rightarrow> 'a list \<Rightarrow> nat \<Rightarrow> 'a list \<Rightarrow> bool" where
  "ring_holds c buf t xs \<longleftrightarrow> length buf = c \<and> length xs < c
     \<and> (\<forall>i < length xs. buf ! ((t + i) mod c) = xs ! i)"

lemma ring_push:
  assumes h: "ring_holds c buf t xs" and room: "Suc (length xs) < c"
  shows "ring_holds c (buf[(t + length xs) mod c := x]) t (xs @ [x])"
proof -
  have c: "0 < c" using room by simp
  have "(t + length xs) mod c \<noteq> (t + i) mod c" if "i < length xs" for i
  proof
    assume eq: "(t + length xs) mod c = (t + i) mod c"
    have "t + length xs = t + i"
      by (rule mod_eq_near [OF eq]) (use that room in linarith)+
    then show False using that by simp
  qed
  then show ?thesis
    using h room c by (auto simp: ring_holds_def nth_append less_Suc_eq)
qed

lemma ring_pop:
  assumes h: "ring_holds c buf t (x # xs)"
  shows "buf ! (t mod c) = x" and "ring_holds c buf (Suc t) xs"
proof -
  show "buf ! (t mod c) = x"
    using h by (auto simp: ring_holds_def dest!: spec [of _ 0])
  have "buf ! ((Suc t + i) mod c) = xs ! i" if "i < length xs" for i
    using h that by (auto simp: ring_holds_def dest!: spec [of _ "Suc i"])
  then show "ring_holds c buf (Suc t) xs"
    using h by (simp add: ring_holds_def)
qed

text \<open>Full and empty, read off the two indices.\<close>

lemma ring_full_iff:
  assumes "length xs < c"
  shows "Suc (t + length xs) mod c = t mod c \<longleftrightarrow> Suc (length xs) = c"
proof
  assume "Suc (t + length xs) mod c = t mod c"
  then have "c dvd Suc (length xs)"
    using mod_eq_dvd_iff_nat [of t "Suc (t + length xs)" c] by simp
  then show "Suc (length xs) = c"
    using assms by (auto dest!: dvd_imp_le)
next
  assume c: "Suc (length xs) = c"
  then have "Suc (t + length xs) = t + c" by simp
  then show "Suc (t + length xs) mod c = t mod c" by (simp only: mod_add_self2)
qed

lemma ring_empty_iff:
  assumes "length xs < c"
  shows "t mod c = (t + length xs) mod c \<longleftrightarrow> xs = []"
proof
  assume eq: "t mod c = (t + length xs) mod c"
  have "t + length xs = t"
    by (rule mod_eq_near [OF eq [symmetric]]) (use assms in linarith)+
  then show "xs = []" by simp
qed simp

section \<open>The contract of a bounded queue\<close>

text \<open>
  What the pipeline relies on: a queue holds a list of at most \<open>bound\<close> elements; a push appends
  unless the bound is reached, a pop takes the first element unless there is none.
\<close>

datatype 'a queue_op = Push 'a | Pop

text \<open>Sequences of pushes and pops, with the elements accepted and the elements taken out.\<close>

fun queue_run ::
  "('q \<Rightarrow> 'a \<Rightarrow> bool \<times> 'q) \<Rightarrow> ('q \<Rightarrow> 'a option \<times> 'q) \<Rightarrow> 'q \<Rightarrow> 'a queue_op list
     \<Rightarrow> 'a list \<times> 'a list \<times> 'q" where
  "queue_run push pop q [] = ([], [], q)"
| "queue_run push pop q (Push x # ops) =
     (let (ok, q') = push q x; (ins, outs, q'') = queue_run push pop q' ops
      in (if ok then x # ins else ins, outs, q''))"
| "queue_run push pop q (Pop # ops) =
     (let (r, q') = pop q; (ins, outs, q'') = queue_run push pop q' ops
      in (ins, case r of None \<Rightarrow> outs | Some x \<Rightarrow> x # outs, q''))"

locale bounded_queue =
  fixes holds :: "'q \<Rightarrow> 'a list \<Rightarrow> bool"
    and push :: "'q \<Rightarrow> 'a \<Rightarrow> bool \<times> 'q"
    and pop :: "'q \<Rightarrow> 'a option \<times> 'q"
    and bound :: nat
  assumes holds_bound: "holds q xs \<Longrightarrow> length xs \<le> bound"
    and push_room: "holds q xs \<Longrightarrow> length xs < bound \<Longrightarrow> \<exists>q'. push q x = (True, q') \<and> holds q' (xs @ [x])"
    and push_full: "holds q xs \<Longrightarrow> length xs = bound \<Longrightarrow> push q x = (False, q)"
    and pop_Cons: "holds q (x # xs) \<Longrightarrow> \<exists>q'. pop q = (Some x, q') \<and> holds q' xs"
    and pop_Nil: "holds q [] \<Longrightarrow> pop q = (None, q)"
begin

lemma push_spec:
  assumes "holds q xs" and "push q x = (ok, q')"
  shows "(ok \<longleftrightarrow> length xs < bound) \<and> holds q' (if ok then xs @ [x] else xs)"
  using assms push_room [of q xs x] push_full [of q xs x] holds_bound [of q xs]
  by (cases "length xs < bound") auto

lemma pop_spec:
  assumes "holds q xs" and "pop q = (r, q')"
  shows "r = (case xs of [] \<Rightarrow> None | x # _ \<Rightarrow> Some x) \<and> holds q' (tl xs)"
  using assms pop_Nil [of q] pop_Cons [of q] by (cases xs) auto

lemma queue_fifo:
  "holds q xs \<Longrightarrow> queue_run push pop q ops = (ins, outs, q') \<Longrightarrow>
     \<exists>ys. holds q' ys \<and> xs @ ins = outs @ ys"
proof (induction ops arbitrary: q xs ins outs)
  case (Cons oper ops)
  show ?case
  proof (cases oper)
    case (Push x)
    obtain ok q1 where p: "push q x = (ok, q1)" by force
    obtain ins1 where r: "queue_run push pop q1 ops = (ins1, outs, q')" "ins = (if ok then x # ins1 else ins1)"
      using Cons.prems(2) Push p by (auto split: prod.splits)
    have "holds q1 (if ok then xs @ [x] else xs)"
      using push_spec [OF Cons.prems(1) p] by blast
    from Cons.IH [OF this r(1)] r(2) show ?thesis
      by (cases ok) auto
  next
    case Pop
    obtain y q1 where p: "pop q = (y, q1)" by force
    obtain outs1 where r: "queue_run push pop q1 ops = (ins, outs1, q')"
      "outs = (case y of None \<Rightarrow> outs1 | Some x \<Rightarrow> x # outs1)"
      using Cons.prems(2) Pop p by (auto split: prod.splits)
    note ps = pop_spec [OF Cons.prems(1) p]
    from Cons.IH [OF conjunct2 [OF ps] r(1)] r(2) conjunct1 [OF ps] show ?thesis
      by (cases xs) auto
  qed
qed simp

end

text \<open>\<open>spsc_holds\<close>: the two indices are stream positions reduced by the mask.\<close>

definition spsc_holds :: "nat \<Rightarrow> 'a spsc_queue \<Rightarrow> 'a list \<Rightarrow> bool" where
  "spsc_holds k q xs \<longleftrightarrow> k < 64 \<and> (\<exists>t. ring_holds (2 ^ k) (sq_buffer q) t xs
     \<and> unat (sq_tail q) = t mod 2 ^ k \<and> unat (sq_head q) = (t + length xs) mod 2 ^ k)"

lemma spsc_holds_new:
  assumes "k < 64"
  shows "spsc_holds k (spsc_new (2 ^ k) d) []"
  using assms power_capacity_ok(2) [OF assms]
  by (auto simp: spsc_holds_def spsc_new_def ring_holds_def intro!: exI [of _ 0])

lemma spsc_full_test:
  assumes "k < 64" "length xs < 2 ^ k" "unat tail = t mod 2 ^ k" "unat head = (t + length xs) mod 2 ^ k"
  shows "next_index (2 ^ k) head = tail \<longleftrightarrow> Suc (length xs) = 2 ^ k"
  using next_index_mod [OF assms(1) refl assms(4)] ring_full_iff [OF assms(2), of t] assms(3)
  by (simp add: word_unat_eq_iff)

lemma spsc_empty_test:
  assumes "length xs < 2 ^ k" "unat (tail :: u64) = t mod 2 ^ k" "unat head = (t + length xs) mod 2 ^ k"
  shows "tail = head \<longleftrightarrow> xs = []"
  using ring_empty_iff [OF assms(1), of t] assms(2,3) by (simp add: word_unat_eq_iff)

interpretation spsc: bounded_queue "spsc_holds k" "spsc_try_push (2 ^ k)" "spsc_try_pop (2 ^ k)" "2 ^ k - 1" for k
proof
  fix q :: "'a spsc_queue" and xs :: "'a list" and x :: 'a
  show "length xs \<le> 2 ^ k - 1" if "spsc_holds k q xs"
    using that by (auto simp: spsc_holds_def ring_holds_def)
  show "\<exists>q'. spsc_try_push (2 ^ k) q x = (True, q') \<and> spsc_holds k q' (xs @ [x])"
    if h: "spsc_holds k q xs" and room: "length xs < 2 ^ k - 1"
  proof -
    obtain t where t: "k < 64" "ring_holds (2 ^ k) (sq_buffer q) t xs" "unat (sq_tail q) = t mod 2 ^ k"
      "unat (sq_head q) = (t + length xs) mod 2 ^ k"
      using h by (auto simp: spsc_holds_def)
    have "next_index (2 ^ k) (sq_head q) \<noteq> sq_tail q"
      using spsc_full_test [OF t(1) _ t(3,4)] room by simp
    moreover have "ring_holds (2 ^ k) ((sq_buffer q)[unat (sq_head q) := x]) t (xs @ [x])"
      unfolding t(4) using ring_push [OF t(2)] room by simp
    ultimately show ?thesis
      using t next_index_mod [OF t(1) refl t(4)] by (auto simp: spsc_try_push_def Let_def spsc_holds_def)
  qed
  show "spsc_try_push (2 ^ k) q x = (False, q)"
    if h: "spsc_holds k q xs" and full: "length xs = 2 ^ k - 1"
  proof -
    obtain t where t: "k < 64" "ring_holds (2 ^ k) (sq_buffer q) t xs" "unat (sq_tail q) = t mod 2 ^ k"
      "unat (sq_head q) = (t + length xs) mod 2 ^ k"
      using h by (auto simp: spsc_holds_def)
    then have "next_index (2 ^ k) (sq_head q) = sq_tail q"
      using spsc_full_test [OF t(1) _ t(3,4)] full by simp
    then show ?thesis by (simp add: spsc_try_push_def)
  qed
  show "\<exists>q'. spsc_try_pop (2 ^ k) q = (Some x, q') \<and> spsc_holds k q' xs" if h: "spsc_holds k q (x # xs)"
  proof -
    obtain t where t: "k < 64" "ring_holds (2 ^ k) (sq_buffer q) t (x # xs)" "unat (sq_tail q) = t mod 2 ^ k"
      "unat (sq_head q) = (t + length (x # xs)) mod 2 ^ k"
      using h by (auto simp: spsc_holds_def)
    have ne: "sq_tail q \<noteq> sq_head q"
      using spsc_empty_test [OF _ t(3,4)] t(2) by (simp add: ring_holds_def)
    have "spsc_holds k (q\<lparr>sq_tail := next_index (2 ^ k) (sq_tail q)\<rparr>) xs"
      using t(1,4) ring_pop(2) [OF t(2)] next_index_mod [OF t(1) refl t(3)]
      by (auto simp: spsc_holds_def intro!: exI [of _ "Suc t"])
    then show ?thesis
      using ne ring_pop(1) [OF t(2)] t(3) by (simp add: spsc_try_pop_def Let_def)
  qed
  show "spsc_try_pop (2 ^ k) q = (None, q)" if "spsc_holds k q []"
    using that by (auto simp: spsc_holds_def spsc_try_pop_def word_unat_eq_iff)
qed

lemma masked_distance:
  fixes head tail :: u64
  assumes k: "k < 64" and len: "n < 2 ^ k" and t: "unat tail = t mod 2 ^ k" and h: "unat head = (t + n) mod 2 ^ k"
  shows "(head - tail) AND (2 ^ k - 1) = of_nat n"
proof -
  have dvd: "(2::int) ^ k dvd 2 ^ 64"
    using k by (intro le_imp_power_dvd) simp
  have u: "uint tail = int t mod 2 ^ k" "uint head = (int t + int n) mod 2 ^ k"
    using arg_cong [OF t, of int] arg_cong [OF h, of int] by (simp_all add: zmod_int)
  have "int (unat (head - tail) mod 2 ^ k) = (uint head - uint tail) mod 2 ^ 64 mod 2 ^ k"
    by (simp add: zmod_int uint_word_ariths)
  also have "\<dots> = ((int t + int n) mod 2 ^ k - int t mod 2 ^ k) mod 2 ^ k"
    unfolding u by (rule mod_mod_cancel [OF dvd])
  also have "\<dots> = int n mod 2 ^ k"
    by (simp add: mod_diff_eq)
  finally have "unat (head - tail) mod 2 ^ k = n"
    using len by (simp flip: zmod_int)
  then have "unat ((head - tail) AND (2 ^ k - 1)) = n"
    by (simp add: mask_mod [OF k refl])
  then show ?thesis by (rule unat_eq_of_nat)
qed

lemma spsc_size_holds:
  assumes "spsc_holds k q xs"
  shows "spsc_size (2 ^ k) q = of_nat (length xs)"
    and "spsc_empty q \<longleftrightarrow> xs = []" and "spsc_full (2 ^ k) q \<longleftrightarrow> length xs = 2 ^ k - 1"
proof -
  obtain t where t: "k < 64" "ring_holds (2 ^ k) (sq_buffer q) t xs" "unat (sq_tail q) = t mod 2 ^ k"
    "unat (sq_head q) = (t + length xs) mod 2 ^ k"
    using assms by (auto simp: spsc_holds_def)
  have len: "length xs < 2 ^ k"
    using t(2) by (simp add: ring_holds_def)
  show sz: "spsc_size (2 ^ k) q = of_nat (length xs)"
    unfolding spsc_size_def by (rule masked_distance [OF t(1) len t(3,4)])
  show "spsc_empty q \<longleftrightarrow> xs = []"
    using spsc_empty_test [OF len t(3,4)] by (auto simp: spsc_empty_def)
  have "unat (2 ^ k - 1 :: u64) = 2 ^ k - 1" "unat (of_nat (length xs) :: u64) = length xs"
    using power_capacity_ok [OF t(1)] len unat_lt_pow [of "2 ^ k :: u64"]
    by (simp_all add: unat_minus_one unat_of_nat capacity_ok_def word_gt_0)
  then show "spsc_full (2 ^ k) q \<longleftrightarrow> length xs = 2 ^ k - 1"
    by (simp add: spsc_full_def sz word_unat_eq_iff)
qed

section \<open>Producer and consumer interleaved\<close>

text \<open>
  Where each thread stands inside \<open>try_push\<close> and \<open>try_pop\<close>: between two constructors lies one access
  to shared memory. The histories \<open>sc_pushed\<close> and \<open>sc_popped\<close> are the elements whose push has
  published the head and whose pop has published the tail.
\<close>

datatype 'a spsc_producer = PIdle | PLoaded 'a u64 | PRoom 'a u64 | PWritten 'a u64

datatype 'a spsc_consumer = CIdle | CLoaded u64 | CReady u64 | CRead u64 'a

record 'a spsc_conc =
  sc_q :: "'a spsc_queue"
  sc_prod :: "'a spsc_producer"
  sc_cons :: "'a spsc_consumer"
  sc_pushed :: "'a list"
  sc_popped :: "'a list"

definition spsc_conc_init :: "u64 \<Rightarrow> 'a \<Rightarrow> 'a spsc_conc" where
  "spsc_conc_init capacity d =
     \<lparr>sc_q = spsc_new capacity d, sc_prod = PIdle, sc_cons = CIdle, sc_pushed = [], sc_popped = []\<rparr>"

inductive spsc_step :: "u64 \<Rightarrow> 'a spsc_conc \<Rightarrow> 'a spsc_conc \<Rightarrow> bool" for capacity where
  p_load: "sc_prod s = PIdle \<Longrightarrow> spsc_step capacity s (s\<lparr>sc_prod := PLoaded item (sq_head (sc_q s))\<rparr>)"
| p_full: "sc_prod s = PLoaded item h \<Longrightarrow> next_index capacity h = sq_tail (sc_q s) \<Longrightarrow>
    spsc_step capacity s (s\<lparr>sc_prod := PIdle\<rparr>)"
| p_room: "sc_prod s = PLoaded item h \<Longrightarrow> next_index capacity h \<noteq> sq_tail (sc_q s) \<Longrightarrow>
    spsc_step capacity s (s\<lparr>sc_prod := PRoom item h\<rparr>)"
| p_write: "sc_prod s = PRoom item h \<Longrightarrow>
    spsc_step capacity s (s\<lparr>sc_q := (sc_q s)\<lparr>sq_buffer := (sq_buffer (sc_q s))[unat h := item]\<rparr>,
      sc_prod := PWritten item h\<rparr>)"
| p_publish: "sc_prod s = PWritten item h \<Longrightarrow>
    spsc_step capacity s (s\<lparr>sc_q := (sc_q s)\<lparr>sq_head := next_index capacity h\<rparr>, sc_prod := PIdle,
      sc_pushed := sc_pushed s @ [item]\<rparr>)"
| c_load: "sc_cons s = CIdle \<Longrightarrow> spsc_step capacity s (s\<lparr>sc_cons := CLoaded (sq_tail (sc_q s))\<rparr>)"
| c_empty: "sc_cons s = CLoaded t \<Longrightarrow> t = sq_head (sc_q s) \<Longrightarrow> spsc_step capacity s (s\<lparr>sc_cons := CIdle\<rparr>)"
| c_ready: "sc_cons s = CLoaded t \<Longrightarrow> t \<noteq> sq_head (sc_q s) \<Longrightarrow>
    spsc_step capacity s (s\<lparr>sc_cons := CReady t\<rparr>)"
| c_read: "sc_cons s = CReady t \<Longrightarrow>
    spsc_step capacity s (s\<lparr>sc_cons := CRead t (sq_buffer (sc_q s) ! unat t)\<rparr>)"
| c_publish: "sc_cons s = CRead t item \<Longrightarrow>
    spsc_step capacity s (s\<lparr>sc_q := (sc_q s)\<lparr>sq_tail := next_index capacity t\<rparr>, sc_cons := CIdle,
      sc_popped := sc_popped s @ [item]\<rparr>)"

inductive spsc_reach :: "u64 \<Rightarrow> 'a \<Rightarrow> 'a spsc_conc \<Rightarrow> bool" for capacity d where
  start: "spsc_reach capacity d (spsc_conc_init capacity d)"
| step: "spsc_reach capacity d s \<Longrightarrow> spsc_step capacity s s' \<Longrightarrow> spsc_reach capacity d s'"

text \<open>
  The invariant: positions in the stream are the lengths of the two histories, the slots between
  them hold what was pushed, and each thread's local knowledge is still true.
\<close>

definition prod_inv :: "nat \<Rightarrow> 'a spsc_conc \<Rightarrow> bool" where
  "prod_inv k s \<longleftrightarrow>
     (case sc_prod s of
        PIdle \<Rightarrow> True
      | PLoaded _ h \<Rightarrow> h = sq_head (sc_q s)
      | PRoom _ h \<Rightarrow> h = sq_head (sc_q s) \<and> Suc (length (sc_pushed s)) < length (sc_popped s) + 2 ^ k
      | PWritten x h \<Rightarrow> h = sq_head (sc_q s) \<and> Suc (length (sc_pushed s)) < length (sc_popped s) + 2 ^ k
          \<and> sq_buffer (sc_q s) ! unat h = x)"

definition cons_inv :: "'a spsc_conc \<Rightarrow> bool" where
  "cons_inv s \<longleftrightarrow>
     (case sc_cons s of
        CIdle \<Rightarrow> True
      | CLoaded t \<Rightarrow> t = sq_tail (sc_q s)
      | CReady t \<Rightarrow> t = sq_tail (sc_q s) \<and> length (sc_popped s) < length (sc_pushed s)
      | CRead t x \<Rightarrow> t = sq_tail (sc_q s) \<and> length (sc_popped s) < length (sc_pushed s)
          \<and> x = sc_pushed s ! length (sc_popped s))"

definition ring_inv :: "nat \<Rightarrow> 'a spsc_conc \<Rightarrow> bool" where
  "ring_inv k s \<longleftrightarrow>
     unat (sq_head (sc_q s)) = length (sc_pushed s) mod 2 ^ k
     \<and> unat (sq_tail (sc_q s)) = length (sc_popped s) mod 2 ^ k
     \<and> sc_popped s = take (length (sc_popped s)) (sc_pushed s)
     \<and> ring_holds (2 ^ k) (sq_buffer (sc_q s)) (length (sc_popped s))
         (drop (length (sc_popped s)) (sc_pushed s))"

lemma ring_invD:
  assumes "ring_inv k s"
  shows "length (sc_popped s) \<le> length (sc_pushed s)"
    "length (sc_pushed s) < length (sc_popped s) + 2 ^ k"
    "length (sq_buffer (sc_q s)) = 2 ^ k"
proof -
  have "length (sc_popped s) = min (length (sc_pushed s)) (length (sc_popped s))"
    using assms unfolding ring_inv_def by (metis length_take min.commute)
  then show "length (sc_popped s) \<le> length (sc_pushed s)" by simp
  then show "length (sc_pushed s) < length (sc_popped s) + 2 ^ k" "length (sq_buffer (sc_q s)) = 2 ^ k"
    using assms by (auto simp: ring_inv_def ring_holds_def)
qed

text \<open>The slot the producer writes is none of those the consumer may read.\<close>

lemma slots_apart:
  assumes "(T::nat) \<le> i" "i < H" "Suc H < T + c"
  shows "i mod c \<noteq> H mod c"
proof
  assume eq: "i mod c = H mod c"
  have "H = i"
    by (rule mod_eq_near [OF eq [symmetric]]) (use assms in linarith)+
  then show False using assms(2) by simp
qed

lemma publish_head_inv:
  assumes k: "k < 64" and inv: "ring_inv k s" "prod_inv k s" and w: "sc_prod s = PWritten item h"
  shows "ring_inv k (s\<lparr>sc_q := (sc_q s)\<lparr>sq_head := next_index (2 ^ k) h\<rparr>, sc_prod := PIdle,
    sc_pushed := sc_pushed s @ [item]\<rparr>)"
proof -
  let ?T = "length (sc_popped s)" and ?H = "length (sc_pushed s)"
  note D = ring_invD [OF inv(1)]
  have h: "h = sq_head (sc_q s)" "Suc ?H < ?T + 2 ^ k" "sq_buffer (sc_q s) ! unat h = item"
    using inv(2) w by (auto simp: prod_inv_def)
  have hm: "unat h = ?H mod 2 ^ k"
    using inv(1) h(1) by (simp add: ring_inv_def)
  have "ring_holds (2 ^ k) ((sq_buffer (sc_q s))[(?T + length (drop ?T (sc_pushed s))) mod 2 ^ k := item]) ?T
      (drop ?T (sc_pushed s) @ [item])"
    using inv(1) h(2) D(1) by (intro ring_push) (auto simp: ring_inv_def)
  moreover have "(sq_buffer (sc_q s))[(?T + length (drop ?T (sc_pushed s))) mod 2 ^ k := item] = sq_buffer (sc_q s)"
    using D(1) h(3) hm by (simp add: list_update_same_conv D(3))
  ultimately show ?thesis
    using inv(1) D(1) next_index_mod [OF k refl hm] by (simp add: ring_inv_def)
qed

lemma publish_tail_inv:
  assumes k: "k < 64" and inv: "ring_inv k s" "cons_inv s" and r: "sc_cons s = CRead t item"
  shows "ring_inv k (s\<lparr>sc_q := (sc_q s)\<lparr>sq_tail := next_index (2 ^ k) t\<rparr>, sc_cons := CIdle,
    sc_popped := sc_popped s @ [item]\<rparr>)"
proof -
  let ?T = "length (sc_popped s)"
  have t: "t = sq_tail (sc_q s)" "?T < length (sc_pushed s)" "item = sc_pushed s ! ?T"
    using inv(2) r by (auto simp: cons_inv_def)
  have tm: "unat t = ?T mod 2 ^ k"
    using inv(1) t(1) by (simp add: ring_inv_def)
  have "ring_holds (2 ^ k) (sq_buffer (sc_q s)) ?T (sc_pushed s ! ?T # drop (Suc ?T) (sc_pushed s))"
    using inv(1) t(2) by (simp add: ring_inv_def Cons_nth_drop_Suc)
  then have "ring_holds (2 ^ k) (sq_buffer (sc_q s)) (Suc ?T) (drop (Suc ?T) (sc_pushed s))"
    by (rule ring_pop(2))
  moreover have "sc_popped s @ [item] = take (Suc ?T) (sc_pushed s)"
    using inv(1) t(2,3) by (metis ring_inv_def take_Suc_conv_app_nth)
  ultimately show ?thesis
    using inv(1) t(2) next_index_mod [OF k refl tm] by (simp add: ring_inv_def min_absorb2)
qed

lemma write_slot_inv:
  assumes inv: "ring_inv k s" "prod_inv k s" and w: "sc_prod s = PRoom item h"
  shows "ring_holds (2 ^ k) ((sq_buffer (sc_q s))[unat h := item]) (length (sc_popped s))
    (drop (length (sc_popped s)) (sc_pushed s))"
proof -
  let ?T = "length (sc_popped s)" and ?H = "length (sc_pushed s)"
  note D = ring_invD [OF inv(1)]
  have h: "unat h = ?H mod 2 ^ k" "Suc ?H < ?T + 2 ^ k"
    using inv w by (auto simp: prod_inv_def ring_inv_def)
  have "(?T + i) mod 2 ^ k \<noteq> ?H mod 2 ^ k" if "i < ?H - ?T" for i
    using slots_apart [of ?T "?T + i" ?H "2 ^ k"] that h(2) by simp
  then have "?H mod 2 ^ k \<noteq> (?T + i) mod 2 ^ k" if "i < ?H - ?T" for i
    using that by metis
  then show ?thesis
    using inv(1) h(1) by (simp add: ring_inv_def ring_holds_def)
qed

lemma spsc_step_inv:
  assumes k: "k < 64" and st: "spsc_step (2 ^ k) s s'" and inv: "ring_inv k s \<and> prod_inv k s \<and> cons_inv s"
  shows "ring_inv k s' \<and> prod_inv k s' \<and> cons_inv s'"
  using st
proof cases
  case (p_room item h)
  note D = ring_invD [of k s]
  have "length (drop (length (sc_popped s)) (sc_pushed s)) < 2 ^ k"
    using inv D by auto
  then have "Suc (length (drop (length (sc_popped s)) (sc_pushed s))) \<noteq> 2 ^ k"
    using spsc_full_test [OF k, of "drop (length (sc_popped s)) (sc_pushed s)" "sq_tail (sc_q s)"
        "length (sc_popped s)" h] p_room inv D
    by (auto simp: prod_inv_def ring_inv_def)
  then have "Suc (length (sc_pushed s)) < length (sc_popped s) + 2 ^ k"
    using inv D by auto
  then show ?thesis
    using p_room inv by (auto simp: ring_inv_def prod_inv_def cons_inv_def split: spsc_consumer.splits)
next
  case (p_write item h)
  have "length (sq_buffer (sc_q s)) = 2 ^ k" "unat h < 2 ^ k"
    using inv p_write ring_invD(3) [of k s] by (auto simp: ring_inv_def prod_inv_def)
  then show ?thesis
    using inv p_write write_slot_inv [of k s item h]
    by (auto simp: ring_inv_def prod_inv_def cons_inv_def split: spsc_consumer.splits)
next
  case (p_publish item h)
  have "length (sc_popped s) < length (sc_pushed s) \<Longrightarrow>
      (sc_pushed s @ [item]) ! length (sc_popped s) = sc_pushed s ! length (sc_popped s)"
    by (simp add: nth_append)
  then show ?thesis
    using p_publish inv publish_head_inv [OF k, of s item h]
    by (auto simp: prod_inv_def cons_inv_def split: spsc_consumer.splits)
next
  case (c_ready t)
  let ?T = "length (sc_popped s)"
  have D: "?T \<le> length (sc_pushed s)" "length (drop ?T (sc_pushed s)) < 2 ^ k"
    using inv ring_invD [of k s] by auto
  have t: "unat t = ?T mod 2 ^ k" "unat (sq_head (sc_q s)) = (?T + length (drop ?T (sc_pushed s))) mod 2 ^ k"
    using c_ready inv D(1) by (auto simp: cons_inv_def ring_inv_def)
  have "drop ?T (sc_pushed s) \<noteq> []"
    using spsc_empty_test [OF D(2) t] c_ready by blast
  then have "?T < length (sc_pushed s)" by simp
  then show ?thesis
    using c_ready inv by (auto simp: ring_inv_def prod_inv_def cons_inv_def split: spsc_producer.splits)
next
  case (c_read t)
  let ?T = "length (sc_popped s)"
  have t: "?T < length (sc_pushed s)" "unat t = ?T mod 2 ^ k"
    using c_read inv by (auto simp: cons_inv_def ring_inv_def)
  then have "sq_buffer (sc_q s) ! unat t = sc_pushed s ! ?T"
    using inv ring_pop(1) [of "2 ^ k" "sq_buffer (sc_q s)" ?T "sc_pushed s ! ?T" "drop (Suc ?T) (sc_pushed s)"]
    by (simp add: ring_inv_def Cons_nth_drop_Suc)
  then show ?thesis
    using c_read inv by (auto simp: ring_inv_def prod_inv_def cons_inv_def split: spsc_producer.splits)
next
  case (c_publish t item)
  then show ?thesis
    using inv publish_tail_inv [OF k, of s t item]
    by (auto simp: prod_inv_def cons_inv_def split: spsc_producer.splits)
qed (use inv in \<open>auto simp: ring_inv_def prod_inv_def cons_inv_def split: spsc_producer.splits spsc_consumer.splits\<close>)

lemma spsc_reach_inv:
  assumes k: "k < 64" and "spsc_reach (2 ^ k) d s"
  shows "ring_inv k s \<and> prod_inv k s \<and> cons_inv s"
  using assms(2)
proof induction
  case start
  then show ?case
    using power_capacity_ok(2) [OF k]
    by (simp add: ring_inv_def prod_inv_def cons_inv_def spsc_conc_init_def spsc_new_def ring_holds_def)
next
  case (step s s')
  then show ?case using spsc_step_inv [OF k] by blast
qed

section \<open>Properties\<close>

text \<open>
  C10. Concurrent safety of the queue. In every interleaving of one producer and one consumer, what
  the consumer has taken out is a prefix of what the producer has put in, at most \<open>Capacity - 1\<close>
  elements are in between, and whenever the producer is about to write a slot while the consumer is
  about to read one, the two slots are different, so no element is torn, lost, duplicated or
  reordered.
\<close>

theorem spsc_concurrent_fifo:
  assumes "k < 64" and "spsc_reach (2 ^ k) d s"
  shows "(\<exists>queued. sc_pushed s = sc_popped s @ queued \<and> length queued \<le> 2 ^ k - 1)
    \<and> (\<forall>item h t. sc_prod s = PRoom item h \<longrightarrow> sc_cons s = CReady t \<longrightarrow> h \<noteq> t)"
proof (intro conjI allI impI)
  note inv = spsc_reach_inv [OF assms]
  have D: "length (sc_popped s) \<le> length (sc_pushed s)" "length (sc_pushed s) < length (sc_popped s) + 2 ^ k"
    using inv ring_invD by blast+
  show "\<exists>queued. sc_pushed s = sc_popped s @ queued \<and> length queued \<le> 2 ^ k - 1"
    using inv D by (intro exI [of _ "drop (length (sc_popped s)) (sc_pushed s)"])
      (auto simp: ring_inv_def, metis append_take_drop_id)
  fix item h t
  assume pc: "sc_prod s = PRoom item h" "sc_cons s = CReady t"
  have "unat t \<noteq> unat h"
    using slots_apart [of "length (sc_popped s)" "length (sc_popped s)" "length (sc_pushed s)" "2 ^ k"] inv pc
    by (auto simp: prod_inv_def cons_inv_def ring_inv_def)
  then show "h \<noteq> t" by auto
qed

lemma spsc_reach_one_push:
  "\<exists>s. spsc_reach (2 ^ 4) (0::nat) s \<and> sc_pushed s = [5] \<and> sc_popped s = []"
proof -
  let ?s0 = "spsc_conc_init (2 ^ 4) (0::nat)"
  let ?s1 = "?s0\<lparr>sc_prod := PLoaded 5 0\<rparr>" and ?s2 = "?s0\<lparr>sc_prod := PRoom 5 0\<rparr>"
  have s1: "spsc_reach (2 ^ 4) 0 ?s1"
    using spsc_reach.step [OF spsc_reach.start spsc_step.p_load [of ?s0 "2 ^ 4" 5]]
    by (simp add: spsc_conc_init_def spsc_new_def)
  have s2: "spsc_reach (2 ^ 4) 0 ?s2"
    using spsc_reach.step [OF s1 spsc_step.p_room [of ?s1 5 0]]
    by (simp add: spsc_conc_init_def spsc_new_def next_index_def)
  from spsc_reach.step [OF s2 spsc_step.p_write [of ?s2 5 0]] obtain s3 where
    s3: "spsc_reach (2 ^ 4) (0::nat) s3" "sc_prod s3 = PWritten 5 0" "sc_pushed s3 = []" "sc_popped s3 = []"
    by (fastforce simp: spsc_conc_init_def)
  from spsc_reach.step [OF s3(1) spsc_step.p_publish [OF s3(2)]] s3(3,4) show ?thesis by fastforce
qed

theorem spsc_concurrent_fifo_witness:
  "\<exists>s. spsc_reach (2 ^ 4) (0::nat) s \<and> sc_pushed s = [5]
     \<and> (\<exists>queued. sc_pushed s = sc_popped s @ queued \<and> length queued \<le> 2 ^ 4 - 1)"
proof -
  obtain s where s: "spsc_reach (2 ^ 4) (0::nat) s" "sc_pushed s = [5]"
    using spsc_reach_one_push by blast
  have "\<exists>queued. sc_pushed s = sc_popped s @ queued \<and> length queued \<le> 2 ^ 4 - 1"
    using spsc_concurrent_fifo [OF _ s(1)] by simp
  with s show ?thesis by blast
qed

text \<open>
  Sequential behaviour of the queue: over any sequence of pushes and pops on an empty queue the
  elements taken out, followed by the elements still inside, are the accepted elements in order; a
  push is refused exactly when \<open>Capacity - 1\<close> elements are inside, and \<open>size\<close> counts them.
\<close>

theorem spsc_fifo:
  assumes "k < 64" and "queue_run (spsc_try_push (2 ^ k)) (spsc_try_pop (2 ^ k)) (spsc_new (2 ^ k) d) ops
      = (ins, outs, q)"
  shows "\<exists>ys. ins = outs @ ys \<and> length ys \<le> 2 ^ k - 1 \<and> spsc_size (2 ^ k) q = of_nat (length ys)
    \<and> (fst (spsc_try_push (2 ^ k) q x) \<longleftrightarrow> length ys < 2 ^ k - 1)
    \<and> (spsc_full (2 ^ k) q \<longleftrightarrow> length ys = 2 ^ k - 1) \<and> (spsc_empty q \<longleftrightarrow> ys = [])"
proof -
  from spsc.queue_fifo [OF spsc_holds_new [OF assms(1)] assms(2)] obtain ys where
    ys: "spsc_holds k q ys" "ins = outs @ ys" by auto
  show ?thesis
    using ys spsc_size_holds [OF ys(1)] spsc.holds_bound [OF ys(1)]
      spsc.push_spec [OF ys(1), of x "fst (spsc_try_push (2 ^ k) q x)" "snd (spsc_try_push (2 ^ k) q x)"]
    by (intro exI [of _ ys]) auto
qed

theorem spsc_fifo_witness:
  "\<exists>ys. [10, 20] = [10] @ ys \<and> length ys \<le> 2 ^ 2 - 1
     \<and> spsc_size (2 ^ 2) (snd (snd (queue_run (spsc_try_push (2 ^ 2)) (spsc_try_pop (2 ^ 2))
         (spsc_new (2 ^ 2) (0::nat)) [Push 10, Push 20, Pop]))) = of_nat (length ys)"
proof -
  have run: "queue_run (spsc_try_push (2 ^ 2)) (spsc_try_pop (2 ^ 2)) (spsc_new (2 ^ 2) (0::nat)) [Push 10, Push 20, Pop]
      = ([10, 20], [10], snd (snd (queue_run (spsc_try_push (2 ^ 2)) (spsc_try_pop (2 ^ 2))
         (spsc_new (2 ^ 2) (0::nat)) [Push 10, Push 20, Pop])))"
    by (simp add: spsc_new_def spsc_try_push_def spsc_try_pop_def next_index_def Let_def)
  from spsc_fifo [OF _ run, of 0] show ?thesis by auto
qed

end
