(* ===== verification/Pipeline.thy ===== *)
theory Pipeline
  imports Batcher Stats Spsc_Queue "HOL-Library.Sublist"
begin

text \<open>
  The four stages of the feed handler and the three queues between them
  (\<open>include/qf/core/pipeline.hpp\<close>, \<open>src/handler/network_stage.cpp\<close>, \<open>parser_stage.cpp\<close>,
  \<open>book_stage.cpp\<close>, \<open>consumer_stage.cpp\<close>). One round of a stage's loop is one operation on the
  shared state; threads are sequences of such rounds in any order. The socket and the clocks are
  arguments. The display and the CSV logger the consumer starts only read and are not modelled.
\<close>

record raw_packet =
  rp_data :: bytes
  rp_receive_timestamp :: u64

record pipeline_stats =
  ps_packets_received :: u64
  ps_messages_parsed :: u64
  ps_book_updates :: u64
  ps_parse_errors :: u64
  ps_queue_drops :: u64

record 'd pipeline =
  pp_q1 :: "raw_packet spsc_queue"
  pp_q2 :: "parsed_event spsc_queue"
  pp_q3 :: "book_update spsc_queue"
  pp_books :: book_manager
  pp_collector :: "'d stats_collector"
  pp_stats :: pipeline_stats

definition RAW_PACKET_MAX :: nat where "RAW_PACKET_MAX = 1500"

text \<open>
  The elements a queue is built with are never read; they are whatever the default constructors
  leave there.
\<close>

definition packet_blank :: raw_packet where
  "packet_blank = \<lparr>rp_data = [], rp_receive_timestamp = 0\<rparr>"

definition event_blank :: parsed_event where
  "event_blank = \<lparr>pe_message = AddOrder add_order_zero, pe_receive_timestamp = 0\<rparr>"

definition stats_zero :: pipeline_stats where
  "stats_zero = \<lparr>ps_packets_received = 0, ps_messages_parsed = 0, ps_book_updates = 0,
     ps_parse_errors = 0, ps_queue_drops = 0\<rparr>"

definition pipeline_new :: "'d::{linorder,zero} pipeline" where
  "pipeline_new =
     \<lparr>pp_q1 = spsc_new Q1_CAPACITY packet_blank, pp_q2 = spsc_new Q2_CAPACITY event_blank,
      pp_q3 = spsc_new Q3_CAPACITY book_update_default, pp_books = book_manager_new,
      pp_collector = stats_collector_new, pp_stats = stats_zero\<rparr>"

definition count_drop :: "pipeline_stats \<Rightarrow> pipeline_stats" where
  "count_drop s = s\<lparr>ps_queue_drops := ps_queue_drops s + 1\<rparr>"

definition count_error :: "pipeline_stats \<Rightarrow> pipeline_stats" where
  "count_error s = s\<lparr>ps_parse_errors := ps_parse_errors s + 1\<rparr>"

section \<open>Stages\<close>

definition network_receive :: "'d pipeline \<Rightarrow> bytes \<Rightarrow> u64 \<Rightarrow> 'd pipeline" where
  "network_receive p data receive_ts =
     (let pkt = \<lparr>rp_data = take RAW_PACKET_MAX data, rp_receive_timestamp = receive_ts\<rparr>;
          (pushed, q1) = spsc_try_push Q1_CAPACITY (pp_q1 p) pkt
      in if \<not> pushed then p\<lparr>pp_q1 := q1, pp_stats := count_drop (pp_stats p)\<rparr>
         else p\<lparr>pp_q1 := q1, pp_stats := (pp_stats p)\<lparr>ps_packets_received := ps_packets_received (pp_stats p) + 1\<rparr>\<rparr>)"

definition parse_view ::
  "raw_packet \<Rightarrow> parsed_event spsc_queue \<times> pipeline_stats \<Rightarrow> message_view
     \<Rightarrow> (parsed_event spsc_queue \<times> pipeline_stats) option" where
  "parse_view pkt st view =
     (let (q2, stats) = st; bytes = view_bytes (rp_data pkt) view; vr = validate bytes in
      if \<not> vr_ok vr then Some (q2, count_error stats)
      else
        (case parse bytes of
           None \<Rightarrow> None
         | Some message \<Rightarrow>
             let event = \<lparr>pe_message = message, pe_receive_timestamp = rp_receive_timestamp pkt\<rparr>;
                 (pushed, q2') = spsc_try_push Q2_CAPACITY q2 event
             in if \<not> pushed then Some (q2', count_drop stats)
                else Some (q2', stats\<lparr>ps_messages_parsed := ps_messages_parsed stats + 1\<rparr>)))"

fun parse_views ::
  "raw_packet \<Rightarrow> parsed_event spsc_queue \<times> pipeline_stats \<Rightarrow> message_view list
     \<Rightarrow> (parsed_event spsc_queue \<times> pipeline_stats) option" where
  "parse_views pkt st [] = Some st"
| "parse_views pkt st (v # vs) =
     (case parse_view pkt st v of None \<Rightarrow> None | Some st' \<Rightarrow> parse_views pkt st' vs)"

definition parser_round :: "'d pipeline \<Rightarrow> 'd pipeline option" where
  "parser_round p =
     (case spsc_try_pop Q1_CAPACITY (pp_q1 p) of
        (None, q1) \<Rightarrow> Some (p\<lparr>pp_q1 := q1\<rparr>)
      | (Some pkt, q1) \<Rightarrow>
          let result = frame_parse (Some (rp_data pkt)) in
          if \<not> fpr_ok result then Some (p\<lparr>pp_q1 := q1, pp_stats := count_error (pp_stats p)\<rparr>)
          else map_option (\<lambda>(q2, stats). p\<lparr>pp_q1 := q1, pp_q2 := q2, pp_stats := stats\<rparr>)
                 (parse_views pkt (pp_q2 p, pp_stats p) (fpr_messages result)))"

definition book_round :: "'d pipeline \<Rightarrow> u64 \<Rightarrow> 'd pipeline" where
  "book_round p now =
     (case spsc_try_pop Q2_CAPACITY (pp_q2 p) of
        (None, q2) \<Rightarrow> p\<lparr>pp_q2 := q2\<rparr>
      | (Some event, q2) \<Rightarrow>
          let (update, books) = bm_process (pp_books p) event now;
              (pushed, q3) = spsc_try_push Q3_CAPACITY (pp_q3 p) update;
              p1 = p\<lparr>pp_q2 := q2, pp_books := books, pp_q3 := q3\<rparr>
          in if \<not> pushed then p1\<lparr>pp_stats := count_drop (pp_stats p)\<rparr>
             else p1\<lparr>pp_stats := (pp_stats p)\<lparr>ps_book_updates := ps_book_updates (pp_stats p) + 1\<rparr>\<rparr>)"

definition consumer_round :: "(u64 \<Rightarrow> nat \<Rightarrow> 'd::{linorder,zero}) \<Rightarrow> 'd pipeline \<Rightarrow> bool \<Rightarrow> 'd pipeline" where
  "consumer_round rate p second_elapsed =
     (let p1 = (case spsc_try_pop Q3_CAPACITY (pp_q3 p) of
                  (None, q3) \<Rightarrow> p\<lparr>pp_q3 := q3\<rparr>
                | (Some update, q3) \<Rightarrow>
                    p\<lparr>pp_q3 := q3, pp_collector := stats_process (pp_collector p) update\<rparr>)
      in if second_elapsed then p1\<lparr>pp_collector := stats_tick rate (pp_collector p1)\<rparr> else p1)"

section \<open>The parser stage never leaves a packet\<close>

lemma parse_of_valid:
  assumes "vr_ok (validate buf)"
  shows "\<exists>m ts. parse buf = Some m \<and> buf = wire m ts @ drop (msg_WIRE_SIZE m) buf"
  using validate_ok_is_wire [OF assms] parse_wire by metis

lemma parse_view_total: "\<exists>st'. parse_view pkt st v = Some st'"
  using parse_of_valid [of "view_bytes (rp_data pkt) v"]
  by (auto simp: parse_view_def Let_def split: prod.splits)

lemma parse_views_total: "\<exists>st'. parse_views pkt st vs = Some st'"
proof (induction vs arbitrary: st)
  case (Cons v vs)
  obtain st1 where "parse_view pkt st v = Some st1" using parse_view_total by blast
  then show ?case using Cons.IH by simp
qed simp

section \<open>What a packet carries\<close>

definition view_events :: "raw_packet \<Rightarrow> message_view list \<Rightarrow> parsed_event list" where
  "view_events pkt vs =
     concat (map (\<lambda>v. if vr_ok (validate (view_bytes (rp_data pkt) v))
       then [\<lparr>pe_message = the (parse (view_bytes (rp_data pkt) v)),
              pe_receive_timestamp = rp_receive_timestamp pkt\<rparr>]
       else []) vs)"

definition packet_events :: "raw_packet \<Rightarrow> parsed_event list" where
  "packet_events pkt =
     (let result = frame_parse (Some (rp_data pkt))
      in if fpr_ok result then view_events pkt (fpr_messages result) else [])"

lemma capacities: "Q1_CAPACITY = 2 ^ 16" "Q2_CAPACITY = 2 ^ 16" "Q3_CAPACITY = 2 ^ 14"
  by (simp_all add: Q1_CAPACITY_def Q2_CAPACITY_def Q3_CAPACITY_def)

lemma parse_view_effect:
  assumes q: "spsc_holds 16 q2 xs" and st: "parse_view pkt (q2, stats) v = Some (q2', stats')"
  shows "\<exists>acc D. subseq acc (view_events pkt [v]) \<and> spsc_holds 16 q2' (xs @ acc)
    \<and> ps_queue_drops stats' = ps_queue_drops stats + of_nat D
    \<and> length acc + D = length (view_events pkt [v])"
proof (cases "vr_ok (validate (view_bytes (rp_data pkt) v))")
  case False
  then show ?thesis
    using q st by (intro exI [of _ "[]"] exI [of _ 0])
      (auto simp: parse_view_def view_events_def count_error_def Let_def)
next
  case True
  then obtain m where m: "parse (view_bytes (rp_data pkt) v) = Some m"
    using parse_of_valid by blast
  let ?ev = "\<lparr>pe_message = m, pe_receive_timestamp = rp_receive_timestamp pkt\<rparr>"
  have ev: "view_events pkt [v] = [?ev]"
    using True m by (simp add: view_events_def)
  obtain ok q where push: "spsc_try_push (2 ^ 16) q2 ?ev = (ok, q)" by force
  have push': "spsc_try_push Q2_CAPACITY q2 ?ev = (ok, q)"
    by (simp only: capacities push)
  have h: "spsc_holds 16 q (if ok then xs @ [?ev] else xs)"
    using spsc.push_spec [OF q push] by blast
  show ?thesis
  proof (cases ok)
    case True
    then have "q2' = q" "ps_queue_drops stats' = ps_queue_drops stats"
      using st m push' \<open>vr_ok _\<close> by (auto simp: parse_view_def Let_def)
    then show ?thesis
      using h True ev by (intro exI [of _ "[?ev]"] exI [of _ 0]) simp
  next
    case False
    then have "q2' = q" "ps_queue_drops stats' = ps_queue_drops stats + 1"
      using st m push' \<open>vr_ok _\<close> by (auto simp: parse_view_def Let_def count_drop_def)
    then show ?thesis
      using h False ev by (intro exI [of _ "[]"] exI [of _ 1]) simp
  qed
qed

lemma view_events_Cons: "view_events pkt (v # vs) = view_events pkt [v] @ view_events pkt vs"
  by (simp add: view_events_def)

lemma parse_views_effect:
  assumes "spsc_holds 16 q2 xs" and "parse_views pkt (q2, stats) vs = Some (q2', stats')"
  shows "\<exists>acc D. subseq acc (view_events pkt vs) \<and> spsc_holds 16 q2' (xs @ acc)
    \<and> ps_queue_drops stats' = ps_queue_drops stats + of_nat D
    \<and> length acc + D = length (view_events pkt vs)"
  using assms
proof (induction vs arbitrary: q2 stats xs)
  case Nil
  then show ?case by (intro exI [of _ "[]"] exI [of _ 0]) (simp add: view_events_def)
next
  case (Cons v vs)
  obtain q s where st: "parse_view pkt (q2, stats) v = Some (q, s)"
    "parse_views pkt (q, s) vs = Some (q2', stats')"
    using Cons.prems(2) by (auto split: option.splits)
  from parse_view_effect [OF Cons.prems(1) st(1)] obtain acc D where
    a: "subseq acc (view_events pkt [v])" "spsc_holds 16 q (xs @ acc)"
    "ps_queue_drops s = ps_queue_drops stats + of_nat D" "length acc + D = length (view_events pkt [v])"
    by blast
  from Cons.IH [OF a(2) st(2)] obtain acc' D' where
    b: "subseq acc' (view_events pkt vs)" "spsc_holds 16 q2' ((xs @ acc) @ acc')"
    "ps_queue_drops stats' = ps_queue_drops s + of_nat D'" "length acc' + D' = length (view_events pkt vs)"
    by blast
  show ?case
    unfolding view_events_Cons [of pkt v vs] using a b
    by (intro exI [of _ "acc @ acc'"] exI [of _ "D + D'"]) (simp add: list_emb_append_mono)
qed

section \<open>Rounds in any order\<close>

text \<open>
  The history of a run: the packets the socket delivered, and the events the book stage took from
  its queue with the clock reading of each.
\<close>

record pipe_history =
  ph_received :: "raw_packet list"
  ph_processed :: "(parsed_event \<times> u64) list"

definition received_events :: "pipe_history \<Rightarrow> parsed_event list" where
  "received_events H = concat (map packet_events (ph_received H))"

inductive pipe_run ::
  "(u64 \<Rightarrow> nat \<Rightarrow> 'd::{linorder,zero}) \<Rightarrow> 'd pipeline \<Rightarrow> pipe_history \<Rightarrow> bool" for rate where
  start: "pipe_run rate pipeline_new \<lparr>ph_received = [], ph_processed = []\<rparr>"
| net: "pipe_run rate p H \<Longrightarrow>
    pipe_run rate (network_receive p data ts) (H\<lparr>ph_received := ph_received H
      @ [\<lparr>rp_data = take RAW_PACKET_MAX data, rp_receive_timestamp = ts\<rparr>]\<rparr>)"
| parser: "pipe_run rate p H \<Longrightarrow> parser_round p = Some p' \<Longrightarrow> pipe_run rate p' H"
| book: "pipe_run rate p H \<Longrightarrow>
    pipe_run rate (book_round p now) (case fst (spsc_try_pop Q2_CAPACITY (pp_q2 p)) of
        None \<Rightarrow> H
      | Some ev \<Rightarrow> H\<lparr>ph_processed := ph_processed H @ [(ev, now)]\<rparr>)"
| consumer: "pipe_run rate p H \<Longrightarrow> pipe_run rate (consumer_round rate p elapsed) H"

definition push_attempts :: "pipe_history \<Rightarrow> nat" where
  "push_attempts H = length (ph_received H) + length (received_events H) + length (ph_processed H)"

text \<open>
  The invariant: the queues hold lists, the books are those of the processed events, and the
  processed events followed by what is still queued are the received events, less what was
  dropped and counted.
\<close>

definition pipe_holds ::
  "'d pipeline \<Rightarrow> pipe_history \<Rightarrow> raw_packet list \<Rightarrow> parsed_event list \<Rightarrow> book_update list \<Rightarrow> nat \<Rightarrow> bool" where
  "pipe_holds p H xs1 xs2 xs3 D \<longleftrightarrow>
     spsc_holds 16 (pp_q1 p) xs1 \<and> spsc_holds 16 (pp_q2 p) xs2 \<and> spsc_holds 14 (pp_q3 p) xs3
     \<and> pp_books p = snd (run mgr_step book_manager_new (ph_processed H))
     \<and> subseq (map fst (ph_processed H) @ xs2 @ concat (map packet_events xs1)) (received_events H)
     \<and> ps_queue_drops (pp_stats p) = of_nat D
     \<and> (D = 0 \<longrightarrow> map fst (ph_processed H) @ xs2 @ concat (map packet_events xs1) = received_events H)
     \<and> D + length xs1 + length xs2 + length (concat (map packet_events xs1)) \<le> push_attempts H"

definition pipe_inv :: "'d pipeline \<Rightarrow> pipe_history \<Rightarrow> bool" where
  "pipe_inv p H \<longleftrightarrow> (\<exists>xs1 xs2 xs3 D. pipe_holds p H xs1 xs2 xs3 D)"

lemma pipe_invI: "pipe_holds p H xs1 xs2 xs3 D \<Longrightarrow> pipe_inv p H"
  unfolding pipe_inv_def by blast

lemma pipe_inv_start: "pipe_inv (pipeline_new :: 'd::{linorder,zero} pipeline) \<lparr>ph_received = [], ph_processed = []\<rparr>"
  using spsc_holds_new [of 16 packet_blank] spsc_holds_new [of 16 event_blank] spsc_holds_new [of 14 book_update_default]
  by (intro pipe_invI [of _ _ "[]" "[]" "[]" 0])
    (simp add: pipe_holds_def pipeline_new_def capacities stats_zero_def received_events_def)

lemma pipe_inv_net:
  assumes "pipe_inv p H"
  shows "pipe_inv (network_receive p data ts) (H\<lparr>ph_received := ph_received H
    @ [\<lparr>rp_data = take RAW_PACKET_MAX data, rp_receive_timestamp = ts\<rparr>]\<rparr>)"
    (is "pipe_inv ?p (H\<lparr>ph_received := _ @ [?pkt]\<rparr>)")
proof -
  obtain xs1 xs2 xs3 D where I: "pipe_holds p H xs1 xs2 xs3 D"
    using assms unfolding pipe_inv_def by blast
  obtain ok q1 where push: "spsc_try_push (2 ^ 16) (pp_q1 p) ?pkt = (ok, q1)" by force
  have h: "spsc_holds 16 q1 (if ok then xs1 @ [?pkt] else xs1)"
    using spsc.push_spec [OF _ push] I unfolding pipe_holds_def by blast
  let ?H = "H\<lparr>ph_received := ph_received H @ [?pkt]\<rparr>"
  have rec: "received_events ?H = received_events H @ packet_events ?pkt"
    "push_attempts ?H = Suc (push_attempts H + length (packet_events ?pkt))"
    by (simp_all add: received_events_def push_attempts_def)
  show ?thesis
  proof (cases ok)
    case True
    then have "pipe_holds ?p ?H (xs1 @ [?pkt]) xs2 xs3 D"
      using h I push list_emb_append_mono [of "(=)" _ _ "packet_events ?pkt" "packet_events ?pkt"] rec
      by (auto simp: pipe_holds_def network_receive_def capacities simp flip: append_assoc)
    then show ?thesis by (rule pipe_invI)
  next
    case False
    then have "pipe_holds ?p ?H xs1 xs2 xs3 (Suc D)"
      using h I push list_emb_prefix [of "(=)" _ _ "packet_events ?pkt"] rec
      by (auto simp: pipe_holds_def network_receive_def capacities count_drop_def)
    then show ?thesis by (rule pipe_invI)
  qed
qed

lemma pipe_inv_parser:
  assumes "pipe_inv p H" and st: "parser_round p = Some p'"
  shows "pipe_inv p' H"
proof -
  obtain xs1 xs2 xs3 D where I: "pipe_holds p H xs1 xs2 xs3 D"
    using assms unfolding pipe_inv_def by blast
  have q1: "spsc_holds 16 (pp_q1 p) xs1" and q2: "spsc_holds 16 (pp_q2 p) xs2"
    using I by (simp_all add: pipe_holds_def)
  show ?thesis
  proof (cases xs1)
    case Nil
    then have "p' = p"
      using st q1 spsc.pop_Nil [of 16 "pp_q1 p"] by (simp add: parser_round_def capacities)
    then show ?thesis using I pipe_invI by blast
  next
    case (Cons pkt ys)
    from spsc.pop_Cons [OF q1 [unfolded Cons]] obtain q where
      q: "spsc_try_pop (2 ^ 16) (pp_q1 p) = (Some pkt, q)" "spsc_holds 16 q ys" by blast
    let ?r = "frame_parse (Some (rp_data pkt))"
    show ?thesis
    proof (cases "fpr_ok ?r")
      case False
      then have "p' = p\<lparr>pp_q1 := q, pp_stats := count_error (pp_stats p)\<rparr>"
        using st q(1) by (simp add: parser_round_def capacities Let_def)
      moreover have "packet_events pkt = []"
        using False by (simp add: packet_events_def Let_def)
      ultimately have "pipe_holds p' H ys xs2 xs3 D"
        using I q(2) Cons by (simp add: pipe_holds_def count_error_def)
      then show ?thesis by (rule pipe_invI)
    next
      case True
      then obtain q2' stats' where pv: "parse_views pkt (pp_q2 p, pp_stats p) (fpr_messages ?r) = Some (q2', stats')"
        and p': "p' = p\<lparr>pp_q1 := q, pp_q2 := q2', pp_stats := stats'\<rparr>"
        using st q(1) by (auto simp: parser_round_def capacities Let_def)
      from parse_views_effect [OF q2 pv] obtain acc D' where
        e: "subseq acc (packet_events pkt)" "spsc_holds 16 q2' (xs2 @ acc)"
        "ps_queue_drops stats' = ps_queue_drops (pp_stats p) + of_nat D'" "length acc + D' = length (packet_events pkt)"
        using True by (auto simp: packet_events_def Let_def)
      have "subseq (map fst (ph_processed H) @ (xs2 @ acc) @ concat (map packet_events ys))
          (map fst (ph_processed H) @ (xs2 @ packet_events pkt) @ concat (map packet_events ys))"
        using e(1) by (intro list_emb_append_mono) auto
      also have "subseq \<dots> (received_events H)"
        using I Cons by (simp add: pipe_holds_def)
      finally have sub: "subseq (map fst (ph_processed H) @ (xs2 @ acc) @ concat (map packet_events ys)) (received_events H)" .
      have all: "D' = 0 \<Longrightarrow> acc = packet_events pkt"
        using e(1,4) by (simp add: subseq_same_length)
      have "pipe_holds p' H ys (xs2 @ acc) xs3 (D + D')"
        using I q(2) Cons e(2-4) sub all p' by (auto simp: pipe_holds_def)
      then show ?thesis by (rule pipe_invI)
    qed
  qed
qed

lemma pipe_inv_book:
  assumes "pipe_inv p H"
  shows "pipe_inv (book_round p now) (case fst (spsc_try_pop Q2_CAPACITY (pp_q2 p)) of
      None \<Rightarrow> H | Some ev \<Rightarrow> H\<lparr>ph_processed := ph_processed H @ [(ev, now)]\<rparr>)"
proof -
  obtain xs1 xs2 xs3 D where I: "pipe_holds p H xs1 xs2 xs3 D"
    using assms unfolding pipe_inv_def by blast
  have q2: "spsc_holds 16 (pp_q2 p) xs2" and q3: "spsc_holds 14 (pp_q3 p) xs3"
    using I by (simp_all add: pipe_holds_def)
  show ?thesis
  proof (cases xs2)
    case Nil
    then show ?thesis
      using assms q2 spsc.pop_Nil [of 16 "pp_q2 p"] by (simp add: book_round_def capacities)
  next
    case (Cons ev ys)
    from spsc.pop_Cons [OF q2 [unfolded Cons]] obtain q where
      q: "spsc_try_pop (2 ^ 16) (pp_q2 p) = (Some ev, q)" "spsc_holds 16 q ys" by blast
    obtain upd bm where bm: "bm_process (pp_books p) ev now = (upd, bm)" by force
    obtain ok q3' where push: "spsc_try_push (2 ^ 14) (pp_q3 p) upd = (ok, q3')" by force
    have h: "spsc_holds 14 q3' (if ok then xs3 @ [upd] else xs3)"
      using spsc.push_spec [OF q3 push] by blast
    let ?H = "H\<lparr>ph_processed := ph_processed H @ [(ev, now)]\<rparr>"
    have H: "received_events ?H = received_events H" "push_attempts ?H = Suc (push_attempts H)"
      by (simp_all add: received_events_def push_attempts_def)
    have books: "bm = snd (run mgr_step book_manager_new (ph_processed H @ [(ev, now)]))"
      using I bm by (simp add: run_snoc pipe_holds_def mgr_step_def)
    have "pipe_holds (book_round p now) ?H xs1 ys (if ok then xs3 @ [upd] else xs3) (if ok then D else Suc D)"
      using I q h H books Cons bm push
      by (auto simp: pipe_holds_def book_round_def capacities Let_def count_drop_def)
    then show ?thesis
      using q(1) pipe_invI by (fastforce simp: capacities)
  qed
qed

lemma pipe_inv_consumer:
  assumes "pipe_inv p H"
  shows "pipe_inv (consumer_round rate p elapsed) H"
proof -
  obtain xs1 xs2 xs3 D where I: "pipe_holds p H xs1 xs2 xs3 D"
    using assms unfolding pipe_inv_def by blast
  obtain r q3 where pop: "spsc_try_pop (2 ^ 14) (pp_q3 p) = (r, q3)" by force
  have "spsc_holds 14 q3 (tl xs3)"
    using spsc.pop_spec [OF _ pop] I unfolding pipe_holds_def by blast
  then have "pipe_holds (consumer_round rate p elapsed) H xs1 xs2 (tl xs3) D"
    using I pop by (simp add: pipe_holds_def consumer_round_def capacities Let_def split: option.splits)
  then show ?thesis by (rule pipe_invI)
qed

lemma pipe_run_inv: "pipe_run rate p H \<Longrightarrow> pipe_inv p H"
proof (induction rule: pipe_run.induct)
  case (book p H now)
  then show ?case by (simp only: pipe_inv_book)
qed (simp_all add: pipe_inv_start pipe_inv_net pipe_inv_parser pipe_inv_consumer)

section \<open>Properties\<close>

lemma pipe_run_in_order:
  assumes "pipe_run rate p H" and "push_attempts H < 2 ^ 64"
  shows "pp_books p = snd (run mgr_step book_manager_new (ph_processed H))
    \<and> subseq (map fst (ph_processed H)) (received_events H)
    \<and> (ps_queue_drops (pp_stats p) = 0 \<and> spsc_empty (pp_q1 p) \<and> spsc_empty (pp_q2 p) \<longrightarrow>
         map fst (ph_processed H) = received_events H)"
proof -
  obtain xs1 xs2 xs3 D where I: "pipe_holds p H xs1 xs2 xs3 D"
    using pipe_run_inv [OF assms(1)] unfolding pipe_inv_def by blast
  have "subseq (map fst (ph_processed H)) (map fst (ph_processed H) @ xs2 @ concat (map packet_events xs1))"
    by (rule list_emb_prefix) simp
  moreover have "D < 2 ^ 64"
    using I assms(2) by (auto simp: pipe_holds_def)
  then have "ps_queue_drops (pp_stats p) = 0 \<longleftrightarrow> D = 0"
    using I of_nat_eq_0_small [of D, where 'a = 64] by (simp add: pipe_holds_def)
  moreover have "spsc_empty (pp_q1 p) \<longleftrightarrow> xs1 = []" "spsc_empty (pp_q2 p) \<longleftrightarrow> xs2 = []"
    using I spsc_size_holds(2) unfolding pipe_holds_def by blast+
  ultimately show ?thesis
    using I unfolding pipe_holds_def by (auto intro: subseq_order.trans)
qed

text \<open>
  In every order in which the stages take their rounds, the book stage processes received
  messages only, each at most once and in the order of arrival, and the books are those of the
  processed messages; if nothing was dropped and the queues are drained, every valid message of
  every received packet has been processed.
\<close>

theorem pipeline_in_order:
  assumes "pipe_run rate p H" and "push_attempts H < 2 ^ 64"
  shows "pp_books p = snd (run mgr_step book_manager_new (ph_processed H))
    \<and> subseq (map fst (ph_processed H)) (received_events H)
    \<and> (ps_queue_drops (pp_stats p) = 0 \<and> spsc_empty (pp_q1 p) \<and> spsc_empty (pp_q2 p) \<longrightarrow>
         map fst (ph_processed H) = received_events H)"
  by (rule pipe_run_in_order [OF assms])

theorem pipeline_in_order_witness:
  "pp_books (book_round (pipeline_new :: nat pipeline) 5) =
     snd (run mgr_step book_manager_new
       (ph_processed (case fst (spsc_try_pop Q2_CAPACITY (pp_q2 (pipeline_new :: nat pipeline))) of
          None \<Rightarrow> \<lparr>ph_received = [], ph_processed = []\<rparr>
        | Some ev \<Rightarrow> \<lparr>ph_received = [], ph_processed = [(ev, 5)]\<rparr>)))"
proof -
  have none: "fst (spsc_try_pop Q2_CAPACITY (pp_q2 (pipeline_new :: nat pipeline))) = None"
    by (simp add: pipeline_new_def spsc_new_def spsc_try_pop_def)
  have "pipe_run (\<lambda>_ n. n) (book_round (pipeline_new :: nat pipeline) 5) \<lparr>ph_received = [], ph_processed = []\<rparr>"
    using pipe_run.book [OF pipe_run.start [of "\<lambda>_ n. n"], of 5] none by simp
  from pipeline_in_order [OF this] none show ?thesis
    by (simp add: push_attempts_def received_events_def)
qed

text \<open>
  The parser stage reads no byte outside the packet it took: whatever a packet holds, a round of
  the stage completes, because a message is decoded only after its length was checked.
\<close>

theorem parser_round_total: "\<exists>p'. parser_round p = Some p'"
  using parse_views_total by (auto simp: parser_round_def Let_def split: option.splits prod.splits)

end
