(* ===== verification/Sequence.thy ===== *)
theory Sequence
  imports Prelude
begin

text \<open>
  Gap detection on datagram sequence numbers (\<open>include/qf/protocol/sequence.hpp\<close>,
  \<open>src/protocol/sequence.cpp\<close>). The optional gap callback threads a state \<open>'s\<close>.
\<close>

datatype sequence_status = SeqOk | SeqGap | SeqDuplicate

record gap_range =
  gr_from :: u64
  gr_to :: u64

record sequence_tracker =
  st_expected :: u64
  st_initialized :: bool
  st_gaps :: "gap_range list"
  st_total_gap_count :: u64
  st_duplicate_count :: u64

definition sequence_tracker_new :: sequence_tracker where
  "sequence_tracker_new =
     \<lparr>st_expected = 0, st_initialized = False, st_gaps = [], st_total_gap_count = 0,
      st_duplicate_count = 0\<rparr>"

definition seq_check ::
  "('s \<Rightarrow> u64 \<Rightarrow> u64 \<Rightarrow> 's) option \<Rightarrow> sequence_tracker \<Rightarrow> 's \<Rightarrow> u64
     \<Rightarrow> sequence_status \<times> sequence_tracker \<times> 's" where
  "seq_check gap_callback t s seq =
     (if \<not> st_initialized t then
        (SeqOk, t\<lparr>st_initialized := True, st_expected := seq + 1\<rparr>, s)
      else if seq = st_expected t then
        (SeqOk, t\<lparr>st_expected := st_expected t + 1\<rparr>, s)
      else if seq < st_expected t then
        (SeqDuplicate, t\<lparr>st_duplicate_count := st_duplicate_count t + 1\<rparr>, s)
      else
        let gap_size = seq - st_expected t;
            t1 = t\<lparr>st_total_gap_count := st_total_gap_count t + gap_size,
                   st_gaps := st_gaps t @ [\<lparr>gr_from = st_expected t, gr_to = seq - 1\<rparr>]\<rparr>;
            s1 = (case gap_callback of None \<Rightarrow> s | Some cb \<Rightarrow> cb s (st_expected t) seq)
        in (SeqGap, t1\<lparr>st_expected := seq + 1\<rparr>, s1))"

definition seq_reset :: "sequence_tracker \<Rightarrow> sequence_tracker" where
  "seq_reset t = t\<lparr>st_expected := 0, st_initialized := False, st_gaps := [],
     st_total_gap_count := 0, st_duplicate_count := 0\<rparr>"

definition last_seq :: "sequence_tracker \<Rightarrow> u64" where
  "last_seq t = (if 0 < st_expected t then st_expected t - 1 else 0)"

text \<open>The receiver checks the datagrams as they arrive.\<close>

fun seq_check_all :: "sequence_tracker \<Rightarrow> u64 list \<Rightarrow> sequence_status list \<times> sequence_tracker" where
  "seq_check_all t [] = ([], t)"
| "seq_check_all t (q # qs) =
     (let (r, t', _) = seq_check None t () q; (rs, t'') = seq_check_all t' qs in (r # rs, t''))"

section \<open>What the tracker knows\<close>

text \<open>
  The abstract view of a run: the first number, and the set of numbers that were accepted
  (answered \<open>Ok\<close> or \<open>Gap\<close>). The tracker represents it when what it expects is the successor of
  the largest accepted number and its gap ranges are exactly the numbers that were skipped.
\<close>

definition gap_nums :: "gap_range list \<Rightarrow> nat set" where
  "gap_nums gs = (\<Union>g \<in> set gs. {unat (gr_from g) .. unat (gr_to g)})"

definition gap_total :: "gap_range list \<Rightarrow> nat" where
  "gap_total gs = (\<Sum>g \<leftarrow> gs. unat (gr_to g) + 1 - unat (gr_from g))"

definition tracks :: "sequence_tracker \<Rightarrow> nat \<Rightarrow> nat set \<Rightarrow> nat \<Rightarrow> bool" where
  "tracks t f A dups \<longleftrightarrow>
     st_initialized t \<and> f \<in> A \<and> (\<forall>n \<in> A. f \<le> n) \<and> finite A
     \<and> unat (st_expected t) = Suc (Max A)
     \<and> gap_nums (st_gaps t) = {f ..< unat (st_expected t)} - A
     \<and> card (gap_nums (st_gaps t)) = unat (st_total_gap_count t)
     \<and> gap_total (st_gaps t) = unat (st_total_gap_count t)
     \<and> st_duplicate_count t = of_nat dups"

abbreviation no_wrap :: "u64 \<Rightarrow> bool" where
  "no_wrap q \<equiv> q \<noteq> - 1"

lemma unat_no_wrap: "no_wrap q \<Longrightarrow> unat (q + 1) = Suc (unat q)"
  using unatSuc [of q] by (metis add.commute add.inverse_unique add.inverse_inverse)

lemma tracksD:
  assumes "tracks t f A d"
  shows "finite A" "A \<noteq> {}" "f \<le> Max A" "n \<in> A \<Longrightarrow> n < unat (st_expected t)"
    "f \<le> Suc (Max A)" "unat (st_expected t) = Suc (Max A)"
proof -
  have fin: "finite A" "f \<in> A" "unat (st_expected t) = Suc (Max A)"
    using assms by (auto simp: tracks_def)
  then show "finite A" "A \<noteq> {}" "f \<le> Max A" "n \<in> A \<Longrightarrow> n < unat (st_expected t)"
    "f \<le> Suc (Max A)" "unat (st_expected t) = Suc (Max A)"
    by (auto simp: less_Suc_eq_le intro: le_SucI)
qed

lemma tracks_first:
  assumes "no_wrap q"
  shows "tracks (fst (snd (seq_check cb sequence_tracker_new s q))) (unat q) {unat q} 0"
  using unat_no_wrap [OF assms]
  by (auto simp: seq_check_def tracks_def sequence_tracker_new_def gap_nums_def gap_total_def)

lemma tracks_in_order:
  assumes t: "tracks t f A d" and "no_wrap q" and q: "q = st_expected t"
  shows "tracks (t\<lparr>st_expected := st_expected t + 1\<rparr>) f (insert (unat q) A) d"
proof -
  have e: "unat (st_expected t + 1) = Suc (unat q)" and m: "unat q = Suc (Max A)"
    using unat_no_wrap [OF assms(2)] q t by (auto simp: tracks_def)
  note A = tracksD [OF t]
  have "\<forall>n \<in> A. n < unat q"
    using A(4) q by simp
  then have "{f ..< Suc (unat q)} - insert (unat q) A = {f ..< unat q} - A"
    using A m by auto
  then show ?thesis
    using t q e m A by (auto simp: tracks_def)
qed

lemma tracks_gap:
  assumes t: "tracks t f A d" and nw: "no_wrap q" and q: "st_expected t < q"
    and t': "t' = t\<lparr>st_total_gap_count := st_total_gap_count t + (q - st_expected t),
      st_gaps := st_gaps t @ [\<lparr>gr_from = st_expected t, gr_to = q - 1\<rparr>], st_expected := q + 1\<rparr>"
  shows "tracks t' f (insert (unat q) A) d"
proof -
  let ?e = "unat (st_expected t)" and ?G = "gap_nums (st_gaps t)"
  have lt: "?e < unat q" and e1: "unat (q + 1) = Suc (unat q)" and m: "?e = Suc (Max A)"
    using q unat_no_wrap [OF nw] t by (auto simp: tracks_def word_less_nat_alt)
  have qm: "unat (q - 1) = unat q - 1"
    using lt by (intro unat_minus_one) auto
  note A = tracksD [OF t]
  have G: "?G = {f ..< ?e} - A" and card: "card ?G = unat (st_total_gap_count t)"
    and tot: "gap_total (st_gaps t) = unat (st_total_gap_count t)"
    using t by (auto simp: tracks_def)
  have new: "gap_nums (st_gaps t') = ?G \<union> {?e ..< unat q}"
    using lt qm t' by (auto simp: gap_nums_def)
  have cover: "gap_nums (st_gaps t') = {f ..< Suc (unat q)} - insert (unat q) A"
    unfolding new G using A(1-3,5) A(4) lt m by (auto dest: A(4))
  have c: "card (gap_nums (st_gaps t')) = unat (st_total_gap_count t) + (unat q - ?e)"
    unfolding new using card G by (subst card_Un_disjoint) auto
  have "unat (q - st_expected t) = unat q - ?e"
    using q by (intro unat_minus_le) simp
  moreover have "card (gap_nums (st_gaps t')) \<le> card {f ..< Suc (unat q)}"
    unfolding cover by (intro card_mono) auto
  then have "unat (st_total_gap_count t) + (unat q - ?e) < 2 ^ 64"
    using c unat_u64_lt [of "q + 1"] e1 by simp
  ultimately have sum: "unat (st_total_gap_count t') = unat (st_total_gap_count t) + (unat q - ?e)"
    using t' by (simp add: unat_plus_small)
  have "gap_total (st_gaps t') = unat (st_total_gap_count t')"
    using tot sum qm lt t' by (simp add: gap_total_def)
  moreover have "Max (insert (unat q) A) = unat q"
    using A(1) lt by (intro Max_eqI) (auto dest: A(4))
  ultimately show ?thesis
    using t cover c sum e1 A(1,3) lt m t' by (auto simp: tracks_def)
qed

lemma tracks_duplicate:
  "tracks t f A d \<Longrightarrow> tracks (t\<lparr>st_duplicate_count := st_duplicate_count t + 1\<rparr>) f A (Suc d)"
  unfolding tracks_def by (elim conjE, intro conjI) simp_all

text \<open>One check: the status says where the number lies, and the view follows it.\<close>

lemma seq_check_tracks:
  assumes t: "tracks t f A d" and nw: "no_wrap q" and c: "seq_check cb t s q = (r, t', s')"
  shows "if r = SeqDuplicate then unat q \<le> Max A \<and> tracks t' f A (Suc d)
         else Max A < unat q \<and> tracks t' f (insert (unat q) A) d"
proof -
  have init: "st_initialized t" and e: "unat (st_expected t) = Suc (Max A)"
    using t by (auto simp: tracks_def)
  consider "q = st_expected t" | "q < st_expected t" | "st_expected t < q"
    by force
  then show ?thesis
  proof cases
    case 1
    then show ?thesis
      using c init e tracks_in_order [OF t nw 1] by (auto simp: seq_check_def)
  next
    case 2
    then have "r = SeqDuplicate" "t' = t\<lparr>st_duplicate_count := st_duplicate_count t + 1\<rparr>"
      using c init by (auto simp: seq_check_def Let_def split: if_splits)
    then show ?thesis
      using 2 e tracks_duplicate [OF t] by (simp add: word_less_nat_alt)
  next
    case 3
    then have "r = SeqGap" "t' = t\<lparr>st_total_gap_count := st_total_gap_count t + (q - st_expected t),
      st_gaps := st_gaps t @ [\<lparr>gr_from = st_expected t, gr_to = q - 1\<rparr>], st_expected := q + 1\<rparr>"
      using c init by (auto simp: seq_check_def Let_def split: if_splits)
    then show ?thesis
      using 3 e tracks_gap [OF t nw 3 refl] by (simp add: word_less_nat_alt)
  qed
qed

definition seq_accepted :: "u64 list \<Rightarrow> sequence_status list \<Rightarrow> nat set" where
  "seq_accepted qs rs = {unat q | q r. (q, r) \<in> set (zip qs rs) \<and> r \<noteq> SeqDuplicate}"

lemma seq_accepted_Cons:
  "seq_accepted (q # qs) (r # rs) =
     (if r = SeqDuplicate then seq_accepted qs rs else insert (unat q) (seq_accepted qs rs))"
  by (auto simp: seq_accepted_def)

lemma seq_accepted_subset: "seq_accepted qs rs \<subseteq> unat ` set qs"
  by (auto simp: seq_accepted_def dest: set_zip_leftD)

lemma seq_check_all_tracks:
  assumes "tracks t f A d" and "\<forall>q \<in> set qs. no_wrap q" and "seq_check_all t qs = (rs, t')"
  shows "tracks t' f (A \<union> seq_accepted qs rs) (d + length (filter (\<lambda>r. r = SeqDuplicate) rs))
    \<and> length rs = length qs"
  using assms
proof (induction qs arbitrary: t A d rs)
  case Nil
  then show ?case by (simp add: seq_accepted_def)
next
  case (Cons q qs)
  obtain r t1 u rs1 where step: "seq_check None t () q = (r, t1, u)"
    and rest: "seq_check_all t1 qs = (rs1, t')" and rs: "rs = r # rs1"
    using Cons.prems(3) by (auto simp: Let_def split: prod.splits)
  have q: "no_wrap q" and qs: "\<forall>q \<in> set qs. no_wrap q"
    using Cons.prems(2) by auto
  show ?case
  proof (cases "r = SeqDuplicate")
    case True
    then have "tracks t1 f A (Suc d)"
      using seq_check_tracks [OF Cons.prems(1) q step] by simp
    from Cons.IH [OF this qs rest] show ?thesis
      using rs True by (simp add: seq_accepted_Cons)
  next
    case False
    then have "tracks t1 f (insert (unat q) A) d"
      using seq_check_tracks [OF Cons.prems(1) q step] by simp
    from Cons.IH [OF this qs rest] show ?thesis
      using rs False by (simp add: seq_accepted_Cons)
  qed
qed

text \<open>
  Every number of a run is at most the largest accepted one: a number is refused only because a
  number at least as large came before.
\<close>

lemma tracks_Max:
  "tracks t f A d \<Longrightarrow> seq_check_all t qs = (rs, t') \<Longrightarrow> \<forall>q \<in> set qs. no_wrap q \<Longrightarrow> q \<in> set qs \<Longrightarrow>
     unat q \<le> Max (A \<union> seq_accepted qs rs)"
proof (induction qs arbitrary: t A d rs)
  case (Cons p qs)
  obtain r t1 u rs1 where step: "seq_check None t () p = (r, t1, u)"
    and rest: "seq_check_all t1 qs = (rs1, t')" and rs: "rs = r # rs1"
    using Cons.prems(2) by (auto simp: Let_def split: prod.splits)
  let ?A = "if r = SeqDuplicate then A else insert (unat p) A"
  obtain d1 where t1: "tracks t1 f ?A d1"
    using seq_check_tracks [OF Cons.prems(1) _ step] Cons.prems(3) by (auto split: if_splits)
  have un: "A \<union> seq_accepted (p # qs) rs = ?A \<union> seq_accepted qs rs1"
    by (auto simp: rs seq_accepted_Cons)
  have fin: "finite (?A \<union> seq_accepted qs rs1)" "?A \<noteq> {}"
    using seq_check_all_tracks [OF t1 _ rest] Cons.prems(3) t1 by (auto simp: tracks_def)
  have p: "unat p \<le> Max ?A"
    using seq_check_tracks [OF Cons.prems(1) _ step] Cons.prems(3) t1 by (auto simp: tracks_def)
  also have "\<dots> \<le> Max (?A \<union> seq_accepted qs rs1)"
    using fin by (intro Max_mono) auto
  finally have "unat p \<le> Max (A \<union> seq_accepted (p # qs) rs)"
    unfolding un .
  moreover have "unat q \<le> Max (A \<union> seq_accepted (p # qs) rs)" if "q \<in> set qs"
    unfolding un using Cons.IH [OF t1 rest _ that] Cons.prems(3) by simp
  ultimately show ?case using Cons.prems(4) by auto
qed simp

lemma seq_reset_new: "seq_reset t = sequence_tracker_new"
  by (simp add: seq_reset_def sequence_tracker_new_def)

section \<open>Properties\<close>



end
