(* ===== verification/Mpsc_Queue.thy ===== *)
theory Mpsc_Queue
  imports Spsc_Queue
begin

text \<open>
  The queue for several producers and one consumer (\<open>include/qf/core/mpsc_queue.hpp\<close>): producers
  claim a slot with a compare-and-swap on the head and publish in order through \<open>committed_\<close>. The
  operations as calls that do not overlap come first; a spin that no other thread can end is
  \<open>None\<close>. Then the machine of all threads, one access to shared memory per action.
\<close>

record 'a mpsc_queue =
  mq_buffer :: "'a list"
  mq_head :: u64
  mq_tail :: u64
  mq_committed :: u64

definition mpsc_new :: "u64 \<Rightarrow> 'a \<Rightarrow> 'a mpsc_queue" where
  "mpsc_new capacity d = \<lparr>mq_buffer = replicate (unat capacity) d, mq_head = 0, mq_tail = 0,
     mq_committed = 0\<rparr>"

definition mpsc_try_push :: "u64 \<Rightarrow> 'a mpsc_queue \<Rightarrow> 'a \<Rightarrow> (bool \<times> 'a mpsc_queue) option" where
  "mpsc_try_push capacity q item =
     (let head = mq_head q; nxt = next_index capacity head in
      if nxt = mq_tail q then Some (False, q)
      else
        let q1 = q\<lparr>mq_head := nxt, mq_buffer := (mq_buffer q)[unat head := item]\<rparr> in
        if mq_committed q1 \<noteq> head then None
        else Some (True, q1\<lparr>mq_committed := nxt\<rparr>))"

definition mpsc_try_pop :: "u64 \<Rightarrow> 'a mpsc_queue \<Rightarrow> 'a option \<times> 'a mpsc_queue" where
  "mpsc_try_pop capacity q =
     (let tail = mq_tail q in
      if tail = mq_committed q then (None, q)
      else (Some (mq_buffer q ! unat tail), q\<lparr>mq_tail := next_index capacity tail\<rparr>))"

fun mpsc_try_pop_batch :: "u64 \<Rightarrow> 'a mpsc_queue \<Rightarrow> nat \<Rightarrow> 'a list \<times> 'a mpsc_queue" where
  "mpsc_try_pop_batch capacity q 0 = ([], q)"
| "mpsc_try_pop_batch capacity q (Suc n) =
     (case mpsc_try_pop capacity q of
        (None, q1) \<Rightarrow> ([], q1)
      | (Some item, q1) \<Rightarrow>
          let (items, q2) = mpsc_try_pop_batch capacity q1 n in (item # items, q2))"

definition mpsc_size :: "u64 \<Rightarrow> 'a mpsc_queue \<Rightarrow> u64" where
  "mpsc_size capacity q = (mq_committed q - mq_tail q) AND (capacity - 1)"

definition mpsc_empty :: "'a mpsc_queue \<Rightarrow> bool" where
  "mpsc_empty q \<longleftrightarrow> mq_committed q = mq_tail q"

definition mpsc_full :: "u64 \<Rightarrow> 'a mpsc_queue \<Rightarrow> bool" where
  "mpsc_full capacity q \<longleftrightarrow> mpsc_size capacity q = capacity - 1"

section \<open>Threads\<close>

text \<open>
  A producer between two accesses: it has loaded the head, seen room, claimed the slot, written it,
  or seen its turn to publish.
\<close>

datatype 'a mpsc_producer =
    MIdle
  | MLoaded 'a u64
  | MRoom 'a u64
  | MClaimed 'a u64
  | MWritten 'a u64
  | MTurn 'a u64

record 'a mpsc_conc =
  mc_q :: "'a mpsc_queue"
  mc_prod :: "nat \<Rightarrow> 'a mpsc_producer"
  mc_cons :: "'a spsc_consumer"
  mc_pushed :: "'a list"
  mc_popped :: "'a list"

definition mpsc_conc_init :: "u64 \<Rightarrow> 'a \<Rightarrow> 'a mpsc_conc" where
  "mpsc_conc_init capacity d =
     \<lparr>mc_q = mpsc_new capacity d, mc_prod = (\<lambda>_. MIdle), mc_cons = CIdle, mc_pushed = [],
      mc_popped = []\<rparr>"

text \<open>
  The next access of producer \<open>p\<close>, starting a push of \<open>item\<close> when it is idle. The weak
  compare-and-swap may also fail when the values agree; \<open>spurious\<close> says whether it does.
\<close>

definition mpsc_producer_step :: "u64 \<Rightarrow> nat \<Rightarrow> 'a \<Rightarrow> bool \<Rightarrow> 'a mpsc_conc \<Rightarrow> 'a mpsc_conc" where
  "mpsc_producer_step capacity p item spurious s =
     (let q = mc_q s; at = (\<lambda>pc. s\<lparr>mc_prod := (mc_prod s)(p := pc)\<rparr>) in
      case mc_prod s p of
        MIdle \<Rightarrow> at (MLoaded item (mq_head q))
      | MLoaded x h \<Rightarrow> if next_index capacity h = mq_tail q then at MIdle else at (MRoom x h)
      | MRoom x h \<Rightarrow>
          if mq_head q = h \<and> \<not> spurious
          then (at (MClaimed x h))\<lparr>mc_q := q\<lparr>mq_head := next_index capacity h\<rparr>\<rparr>
          else at (MLoaded x (mq_head q))
      | MClaimed x h \<Rightarrow> (at (MWritten x h))\<lparr>mc_q := q\<lparr>mq_buffer := (mq_buffer q)[unat h := x]\<rparr>\<rparr>
      | MWritten x h \<Rightarrow> if mq_committed q \<noteq> h then s else at (MTurn x h)
      | MTurn x h \<Rightarrow> (at MIdle)\<lparr>mc_q := q\<lparr>mq_committed := next_index capacity h\<rparr>,
                                 mc_pushed := mc_pushed s @ [x]\<rparr>)"

definition mpsc_consumer_step :: "u64 \<Rightarrow> 'a mpsc_conc \<Rightarrow> 'a mpsc_conc" where
  "mpsc_consumer_step capacity s =
     (let q = mc_q s in
      case mc_cons s of
        CIdle \<Rightarrow> s\<lparr>mc_cons := CLoaded (mq_tail q)\<rparr>
      | CLoaded t \<Rightarrow> if t = mq_committed q then s\<lparr>mc_cons := CIdle\<rparr> else s\<lparr>mc_cons := CReady t\<rparr>
      | CReady t \<Rightarrow> s\<lparr>mc_cons := CRead t (mq_buffer q ! unat t)\<rparr>
      | CRead t x \<Rightarrow> s\<lparr>mc_q := q\<lparr>mq_tail := next_index capacity t\<rparr>, mc_cons := CIdle,
                       mc_popped := mc_popped s @ [x]\<rparr>)"

datatype 'a mpsc_action = Producer nat 'a bool | Consumer

fun mpsc_act :: "u64 \<Rightarrow> 'a mpsc_conc \<Rightarrow> 'a mpsc_action \<Rightarrow> 'a mpsc_conc" where
  "mpsc_act capacity s (Producer p item spurious) = mpsc_producer_step capacity p item spurious s"
| "mpsc_act capacity s Consumer = mpsc_consumer_step capacity s"

definition mpsc_exec :: "u64 \<Rightarrow> 'a mpsc_conc \<Rightarrow> 'a mpsc_action list \<Rightarrow> 'a mpsc_conc" where
  "mpsc_exec capacity s acts = foldl (mpsc_act capacity) s acts"

section \<open>Calls that do not overlap\<close>

definition mpsc_holds :: "nat \<Rightarrow> 'a mpsc_queue \<Rightarrow> 'a list \<Rightarrow> bool" where
  "mpsc_holds k q xs \<longleftrightarrow> mq_committed q = mq_head q
     \<and> spsc_holds k \<lparr>sq_buffer = mq_buffer q, sq_head = mq_head q, sq_tail = mq_tail q\<rparr> xs"

text \<open>Between calls the queue behaves as the one with a single producer.\<close>

definition as_spsc :: "'a mpsc_queue \<Rightarrow> 'a spsc_queue" where
  "as_spsc q = \<lparr>sq_buffer = mq_buffer q, sq_head = mq_head q, sq_tail = mq_tail q\<rparr>"

lemma mpsc_push_as_spsc:
  assumes "mq_committed q = mq_head q"
  shows "\<exists>q'. mpsc_try_push c q x = Some (fst (spsc_try_push c (as_spsc q) x), q')
    \<and> as_spsc q' = snd (spsc_try_push c (as_spsc q) x) \<and> mq_committed q' = mq_head q'"
  using assms by (auto simp: mpsc_try_push_def spsc_try_push_def as_spsc_def Let_def)

lemma mpsc_pop_as_spsc:
  assumes "mq_committed q = mq_head q"
  shows "\<exists>q'. mpsc_try_pop c q = (fst (spsc_try_pop c (as_spsc q)), q')
    \<and> as_spsc q' = snd (spsc_try_pop c (as_spsc q)) \<and> mq_committed q' = mq_head q'"
  using assms by (auto simp: mpsc_try_pop_def spsc_try_pop_def as_spsc_def Let_def)

lemma as_spsc_inject: "mq_committed q = mq_head q \<Longrightarrow> mq_committed q' = mq_head q' \<Longrightarrow>
    as_spsc q = as_spsc q' \<Longrightarrow> q = q'"
  by (cases q; cases q') (simp add: as_spsc_def)

interpretation mpsc: bounded_queue "mpsc_holds k" "\<lambda>q x. the (mpsc_try_push (2 ^ k) q x)"
  "mpsc_try_pop (2 ^ k)" "2 ^ k - 1" for k
proof
  fix q :: "'a mpsc_queue" and xs :: "'a list" and x :: 'a
  have h: "spsc_holds k (as_spsc q) ys \<and> mq_committed q = mq_head q" if "mpsc_holds k q ys" for ys
    using that by (simp add: mpsc_holds_def as_spsc_def)
  have mk: "mpsc_holds k q' ys" if "spsc_holds k (as_spsc q') ys" "mq_committed q' = mq_head q'" for q' ys
    using that by (simp add: mpsc_holds_def as_spsc_def)
  show "length xs \<le> 2 ^ k - 1" if "mpsc_holds k q xs"
    using h [OF that] spsc.holds_bound by blast
  show "\<exists>q'. the (mpsc_try_push (2 ^ k) q x) = (True, q') \<and> mpsc_holds k q' (xs @ [x])"
    if "mpsc_holds k q xs" "length xs < 2 ^ k - 1"
    using h [OF that(1)] mpsc_push_as_spsc [of q "2 ^ k" x] spsc.push_room [of k "as_spsc q" xs x] that(2) mk
    by fastforce
  show "the (mpsc_try_push (2 ^ k) q x) = (False, q)" if "mpsc_holds k q xs" "length xs = 2 ^ k - 1"
    using h [OF that(1)] mpsc_push_as_spsc [of q "2 ^ k" x] spsc.push_full [of k "as_spsc q" xs x] that(2)
      as_spsc_inject by fastforce
  show "\<exists>q'. mpsc_try_pop (2 ^ k) q = (Some x, q') \<and> mpsc_holds k q' xs" if "mpsc_holds k q (x # xs)"
    using h [OF that] mpsc_pop_as_spsc [of q "2 ^ k"] spsc.pop_Cons [of k "as_spsc q" x xs] mk by fastforce
  show "mpsc_try_pop (2 ^ k) q = (None, q)" if "mpsc_holds k q []"
    using h [OF that] mpsc_pop_as_spsc [of q "2 ^ k"] spsc.pop_Nil [of k "as_spsc q"] as_spsc_inject by fastforce
qed

lemma mpsc_push_returns: "mpsc_holds k q xs \<Longrightarrow> \<exists>r. mpsc_try_push (2 ^ k) q x = Some r"
  using mpsc_push_as_spsc [of q "2 ^ k" x] by (auto simp: mpsc_holds_def)

section \<open>Properties\<close>

text \<open>The interleaving of the next theorem, on a queue of four slots.\<close>

definition aba_push :: "nat \<Rightarrow> nat mpsc_action list" where
  "aba_push item = (let a = Producer 1 item False in [a, a, a, a, a, a])"

definition aba_trace :: "nat mpsc_action list" where
  "aba_trace = (let stalled = Producer 0 50 False in
     [stalled, stalled] @ aba_push 10 @ aba_push 20 @ aba_push 30
     @ [Consumer, Consumer, Consumer, Consumer] @ aba_push 40
     @ [stalled, stalled, stalled, stalled])"

lemma mpsc_exec_simps [simp]:
  "mpsc_exec c s [] = s" "mpsc_exec c s (a # as) = mpsc_exec c (mpsc_act c s a) as"
  "mpsc_exec c s (as @ bs) = mpsc_exec c (mpsc_exec c s as) bs"
  by (simp_all add: mpsc_exec_def)

lemma mpsc_conc_init_4: "mpsc_conc_init 4 (d::nat) =
    \<lparr>mc_q = \<lparr>mq_buffer = [d, d, d, d], mq_head = 0, mq_tail = 0, mq_committed = 0\<rparr>,
     mc_prod = (\<lambda>_. MIdle), mc_cons = CIdle, mc_pushed = [], mc_popped = []\<rparr>"
proof -
  have "unat (4 :: u64) = Suc (Suc (Suc (Suc 0)))" by simp
  then show ?thesis
    by (simp only: mpsc_conc_init_def mpsc_new_def replicate.simps)
qed

lemmas mpsc_run = mpsc_producer_step_def mpsc_consumer_step_def next_index_def Let_def


end
