(* ===== verification/Ring_Buffer.thy ===== *)
theory Ring_Buffer
  imports Mpsc_Queue
begin

text \<open>
  The generic ring buffer with its access policies (\<open>include/qf/core/ring_buffer.hpp\<close>). A policy is
  a value; the static functions of the policy structs are the functions \<open>claim_head\<close>, \<open>rb_commit\<close>,
  \<open>claim_tail\<close>, \<open>readable\<close> and \<open>rb_is_empty\<close>. As before, the calls that do not overlap come first
  and the machine of all threads after them.
\<close>

datatype rb_policy = SPSCPolicy | MPSCPolicy | MPMCPolicy

record 'a ring_buffer =
  rb_buffer :: "'a list"
  rb_head :: u64
  rb_tail :: u64
  rb_committed :: u64

definition rb_new :: "u64 \<Rightarrow> 'a \<Rightarrow> 'a ring_buffer" where
  "rb_new capacity d = \<lparr>rb_buffer = replicate (unat capacity) d, rb_head = 0, rb_tail = 0,
     rb_committed = 0\<rparr>"

text \<open>Without interference the compare-and-swap loops end in their first round.\<close>

definition claim_head :: "u64 \<Rightarrow> 'a ring_buffer \<Rightarrow> (u64 \<times> 'a ring_buffer) option" where
  "claim_head capacity r =
     (let h = rb_head r; nxt = next_index capacity h in
      if nxt = rb_tail r then None else Some (h, r\<lparr>rb_head := nxt\<rparr>))"

definition rb_commit :: "rb_policy \<Rightarrow> u64 \<Rightarrow> 'a ring_buffer \<Rightarrow> u64 \<Rightarrow> 'a ring_buffer option" where
  "rb_commit policy capacity r slot =
     (if policy = SPSCPolicy then Some r
      else if rb_committed r \<noteq> slot then None
      else Some (r\<lparr>rb_committed := next_index capacity slot\<rparr>))"

text \<open>How far a consumer may read: up to the head, or up to the committed index.\<close>

definition rb_limit :: "rb_policy \<Rightarrow> 'a ring_buffer \<Rightarrow> u64" where
  "rb_limit policy r = (if policy = SPSCPolicy then rb_head r else rb_committed r)"

definition claim_tail :: "rb_policy \<Rightarrow> u64 \<Rightarrow> 'a ring_buffer \<Rightarrow> (u64 \<times> 'a ring_buffer) option" where
  "claim_tail policy capacity r =
     (let t = rb_tail r in
      if t = rb_limit policy r then None else Some (t, r\<lparr>rb_tail := next_index capacity t\<rparr>))"

definition readable :: "rb_policy \<Rightarrow> u64 \<Rightarrow> 'a ring_buffer \<Rightarrow> u64" where
  "readable policy capacity r = (rb_limit policy r - rb_tail r) AND (capacity - 1)"

definition rb_is_empty :: "rb_policy \<Rightarrow> 'a ring_buffer \<Rightarrow> bool" where
  "rb_is_empty policy r \<longleftrightarrow> rb_limit policy r = rb_tail r"

definition rb_try_push :: "rb_policy \<Rightarrow> u64 \<Rightarrow> 'a ring_buffer \<Rightarrow> 'a \<Rightarrow> (bool \<times> 'a ring_buffer) option" where
  "rb_try_push policy capacity r item =
     (case claim_head capacity r of
        None \<Rightarrow> Some (False, r)
      | Some (slot, r1) \<Rightarrow>
          map_option (Pair True)
            (rb_commit policy capacity (r1\<lparr>rb_buffer := (rb_buffer r1)[unat slot := item]\<rparr>) slot))"

definition rb_try_pop :: "rb_policy \<Rightarrow> u64 \<Rightarrow> 'a ring_buffer \<Rightarrow> 'a option \<times> 'a ring_buffer" where
  "rb_try_pop policy capacity r =
     (case claim_tail policy capacity r of
        None \<Rightarrow> (None, r)
      | Some (slot, r1) \<Rightarrow> (Some (rb_buffer r1 ! unat slot), r1))"

fun rb_try_pop_batch :: "rb_policy \<Rightarrow> u64 \<Rightarrow> 'a ring_buffer \<Rightarrow> nat \<Rightarrow> 'a list \<times> 'a ring_buffer" where
  "rb_try_pop_batch policy capacity r 0 = ([], r)"
| "rb_try_pop_batch policy capacity r (Suc n) =
     (case rb_try_pop policy capacity r of
        (None, r1) \<Rightarrow> ([], r1)
      | (Some item, r1) \<Rightarrow>
          let (items, r2) = rb_try_pop_batch policy capacity r1 n in (item # items, r2))"

definition rb_size :: "rb_policy \<Rightarrow> u64 \<Rightarrow> 'a ring_buffer \<Rightarrow> u64" where
  "rb_size policy capacity r = readable policy capacity r"

definition rb_full :: "rb_policy \<Rightarrow> u64 \<Rightarrow> 'a ring_buffer \<Rightarrow> bool" where
  "rb_full policy capacity r \<longleftrightarrow> rb_size policy capacity r = capacity - 1"

section \<open>Threads\<close>

text \<open>
  A push under \<open>SPSCPolicy\<close> advances the head when it claims the slot and has nothing to commit; the
  other policies claim by compare-and-swap and commit in order. A pop advances the tail when it
  claims the slot, by a plain store or, under \<open>MPMCPolicy\<close>, by compare-and-swap, and reads the slot
  afterwards.
\<close>

datatype rb_consumer = RIdle | RLoaded u64 | RReady u64 | RClaimed u64

record 'a rb_conc =
  rc_r :: "'a ring_buffer"
  rc_prod :: "nat \<Rightarrow> 'a mpsc_producer"
  rc_cons :: "nat \<Rightarrow> rb_consumer"
  rc_pushed :: "'a list"
  rc_popped :: "'a list"

definition rb_conc_init :: "u64 \<Rightarrow> 'a \<Rightarrow> 'a rb_conc" where
  "rb_conc_init capacity d =
     \<lparr>rc_r = rb_new capacity d, rc_prod = (\<lambda>_. MIdle), rc_cons = (\<lambda>_. RIdle), rc_pushed = [],
      rc_popped = []\<rparr>"

definition rb_producer_step :: "rb_policy \<Rightarrow> u64 \<Rightarrow> nat \<Rightarrow> 'a \<Rightarrow> 'a rb_conc \<Rightarrow> 'a rb_conc" where
  "rb_producer_step policy capacity p item s =
     (let r = rc_r s; at = (\<lambda>pc. s\<lparr>rc_prod := (rc_prod s)(p := pc)\<rparr>) in
      case rc_prod s p of
        MIdle \<Rightarrow> at (MLoaded item (rb_head r))
      | MLoaded x h \<Rightarrow> if next_index capacity h = rb_tail r then at MIdle else at (MRoom x h)
      | MRoom x h \<Rightarrow>
          if policy = SPSCPolicy \<or> rb_head r = h
          then (at (MClaimed x h))\<lparr>rc_r := r\<lparr>rb_head := next_index capacity h\<rparr>\<rparr>
          else at (MLoaded x (rb_head r))
      | MClaimed x h \<Rightarrow>
          (if policy = SPSCPolicy then (at MIdle)\<lparr>rc_pushed := rc_pushed s @ [x]\<rparr>
           else at (MWritten x h))\<lparr>rc_r := r\<lparr>rb_buffer := (rb_buffer r)[unat h := x]\<rparr>\<rparr>
      | MWritten x h \<Rightarrow> if rb_committed r \<noteq> h then s else at (MTurn x h)
      | MTurn x h \<Rightarrow> (at MIdle)\<lparr>rc_r := r\<lparr>rb_committed := next_index capacity h\<rparr>,
                                 rc_pushed := rc_pushed s @ [x]\<rparr>)"

definition rb_consumer_step :: "rb_policy \<Rightarrow> u64 \<Rightarrow> nat \<Rightarrow> 'a rb_conc \<Rightarrow> 'a rb_conc" where
  "rb_consumer_step policy capacity c s =
     (let r = rc_r s; at = (\<lambda>pc. s\<lparr>rc_cons := (rc_cons s)(c := pc)\<rparr>) in
      case rc_cons s c of
        RIdle \<Rightarrow> at (RLoaded (rb_tail r))
      | RLoaded t \<Rightarrow> if t = rb_limit policy r then at RIdle else at (RReady t)
      | RReady t \<Rightarrow>
          if policy \<noteq> MPMCPolicy \<or> rb_tail r = t
          then (at (RClaimed t))\<lparr>rc_r := r\<lparr>rb_tail := next_index capacity t\<rparr>\<rparr>
          else at (RLoaded (rb_tail r))
      | RClaimed t \<Rightarrow> (at RIdle)\<lparr>rc_popped := rc_popped s @ [rb_buffer r ! unat t]\<rparr>)"

datatype 'a rb_action = RProducer nat 'a | RConsumer nat

fun rb_act :: "rb_policy \<Rightarrow> u64 \<Rightarrow> 'a rb_conc \<Rightarrow> 'a rb_action \<Rightarrow> 'a rb_conc" where
  "rb_act policy capacity s (RProducer p item) = rb_producer_step policy capacity p item s"
| "rb_act policy capacity s (RConsumer c) = rb_consumer_step policy capacity c s"

definition rb_exec :: "rb_policy \<Rightarrow> u64 \<Rightarrow> 'a rb_conc \<Rightarrow> 'a rb_action list \<Rightarrow> 'a rb_conc" where
  "rb_exec policy capacity s acts = foldl (rb_act policy capacity) s acts"

section \<open>Calls that do not overlap\<close>

definition rb_as_spsc :: "'a ring_buffer \<Rightarrow> 'a spsc_queue" where
  "rb_as_spsc r = \<lparr>sq_buffer = rb_buffer r, sq_head = rb_head r, sq_tail = rb_tail r\<rparr>"

text \<open>Between calls everything claimed is committed (\<open>SPSCPolicy\<close> never touches \<open>committed_\<close>).\<close>

definition rb_quiet :: "rb_policy \<Rightarrow> 'a ring_buffer \<Rightarrow> bool" where
  "rb_quiet policy r \<longleftrightarrow> rb_committed r = (if policy = SPSCPolicy then 0 else rb_head r)"

definition rb_holds :: "rb_policy \<Rightarrow> nat \<Rightarrow> 'a ring_buffer \<Rightarrow> 'a list \<Rightarrow> bool" where
  "rb_holds policy k r xs \<longleftrightarrow> rb_quiet policy r \<and> spsc_holds k (rb_as_spsc r) xs"

lemma rb_limit_quiet: "rb_quiet policy r \<Longrightarrow> rb_limit policy r = rb_head r"
  by (auto simp: rb_quiet_def rb_limit_def split: if_splits)

lemma rb_push_as_spsc:
  assumes "rb_quiet policy r"
  shows "\<exists>r'. rb_try_push policy c r x = Some (fst (spsc_try_push c (rb_as_spsc r) x), r')
    \<and> rb_as_spsc r' = snd (spsc_try_push c (rb_as_spsc r) x) \<and> rb_quiet policy r'"
  using assms
  by (auto simp: rb_try_push_def spsc_try_push_def claim_head_def rb_commit_def rb_as_spsc_def rb_quiet_def Let_def)

lemma rb_pop_as_spsc:
  assumes "rb_quiet policy r"
  shows "\<exists>r'. rb_try_pop policy c r = (fst (spsc_try_pop c (rb_as_spsc r)), r')
    \<and> rb_as_spsc r' = snd (spsc_try_pop c (rb_as_spsc r)) \<and> rb_quiet policy r'"
  using assms rb_limit_quiet [OF assms]
  by (auto simp: rb_try_pop_def spsc_try_pop_def claim_tail_def rb_as_spsc_def rb_quiet_def Let_def)

lemma rb_as_spsc_inject:
  "rb_quiet policy r \<Longrightarrow> rb_quiet policy r' \<Longrightarrow> rb_as_spsc r = rb_as_spsc r' \<Longrightarrow> r = r'"
  by (cases r; cases r') (simp add: rb_as_spsc_def rb_quiet_def split: if_splits)

interpretation rb: bounded_queue "rb_holds policy k" "\<lambda>r x. the (rb_try_push policy (2 ^ k) r x)"
  "rb_try_pop policy (2 ^ k)" "2 ^ k - 1" for policy k
proof
  fix r :: "'a ring_buffer" and xs :: "'a list" and x :: 'a
  have h: "spsc_holds k (rb_as_spsc r) ys" "rb_quiet policy r" if "rb_holds policy k r ys" for ys
    using that by (simp_all add: rb_holds_def)
  have mk: "rb_holds policy k r' ys" if "spsc_holds k (rb_as_spsc r') ys" "rb_quiet policy r'" for r' ys
    using that by (simp add: rb_holds_def)
  show "length xs \<le> 2 ^ k - 1" if "rb_holds policy k r xs"
    using h [OF that] spsc.holds_bound by blast
  show "\<exists>r'. the (rb_try_push policy (2 ^ k) r x) = (True, r') \<and> rb_holds policy k r' (xs @ [x])"
    if "rb_holds policy k r xs" "length xs < 2 ^ k - 1"
    using rb_push_as_spsc [OF h(2) [OF that(1)], of "2 ^ k" x] spsc.push_room [OF h(1) [OF that(1)] that(2), of x] mk
    by fastforce
  show "the (rb_try_push policy (2 ^ k) r x) = (False, r)" if "rb_holds policy k r xs" "length xs = 2 ^ k - 1"
    using rb_push_as_spsc [OF h(2) [OF that(1)], of "2 ^ k" x] spsc.push_full [OF h(1) [OF that(1)] that(2), of x]
      rb_as_spsc_inject [OF h(2) [OF that(1)]] by fastforce
  show "\<exists>r'. rb_try_pop policy (2 ^ k) r = (Some x, r') \<and> rb_holds policy k r' xs" if "rb_holds policy k r (x # xs)"
    using rb_pop_as_spsc [OF h(2) [OF that], of "2 ^ k"] spsc.pop_Cons [OF h(1) [OF that]] mk by fastforce
  show "rb_try_pop policy (2 ^ k) r = (None, r)" if "rb_holds policy k r []"
    using rb_pop_as_spsc [OF h(2) [OF that], of "2 ^ k"] spsc.pop_Nil [OF h(1) [OF that]]
      rb_as_spsc_inject [OF h(2) [OF that]] by fastforce
qed

lemma rb_holds_new: "k < 64 \<Longrightarrow> rb_holds policy k (rb_new (2 ^ k) d) []"
  using spsc_holds_new [of k d]
  by (simp add: rb_holds_def rb_quiet_def rb_as_spsc_def rb_new_def spsc_new_def)

section \<open>Properties\<close>

text \<open>
  Used by one thread at a time, the ring buffer is a bounded queue under each of its policies:
  what comes out is what was accepted, in order, and a push is refused exactly at \<open>Capacity - 1\<close>
  elements.
\<close>

theorem ring_buffer_fifo:
  assumes "k < 64"
    and "queue_run (\<lambda>r x. the (rb_try_push policy (2 ^ k) r x)) (rb_try_pop policy (2 ^ k)) (rb_new (2 ^ k) d) ops
      = (ins, outs, r)"
  shows "\<exists>ys. ins = outs @ ys \<and> length ys \<le> 2 ^ k - 1
    \<and> rb_try_push policy (2 ^ k) r x \<noteq> None
    \<and> (fst (the (rb_try_push policy (2 ^ k) r x)) \<longleftrightarrow> length ys < 2 ^ k - 1)"
proof -
  from rb.queue_fifo [OF rb_holds_new [OF assms(1)] assms(2)] obtain ys where
    ys: "rb_holds policy k r ys" "ins = outs @ ys" by auto
  show ?thesis
    using ys rb.holds_bound [OF ys(1)] rb_push_as_spsc [of policy r "2 ^ k" x]
      rb.push_spec [OF ys(1), of x "fst (the (rb_try_push policy (2 ^ k) r x))"
        "snd (the (rb_try_push policy (2 ^ k) r x))"]
    by (intro exI [of _ ys]) (auto simp: rb_holds_def)
qed

theorem ring_buffer_fifo_witness:
  "\<exists>ys r. queue_run (\<lambda>r x. the (rb_try_push MPMCPolicy (2 ^ 2) r x)) (rb_try_pop MPMCPolicy (2 ^ 2))
      (rb_new (2 ^ 2) (0::nat)) [Push 7, Push 8, Pop] = ([7] @ ys, [7], r)
     \<and> fst (the (rb_try_push MPMCPolicy (2 ^ 2) r 0)) = (length ys < 2 ^ 2 - 1)"
proof -
  have "\<exists>r. queue_run (\<lambda>r x. the (rb_try_push MPMCPolicy (2 ^ 2) r x)) (rb_try_pop MPMCPolicy (2 ^ 2))
      (rb_new (2 ^ 2) (0::nat)) [Push 7, Push 8, Pop] = ([7, 8], [7], r)"
    by (simp add: rb_new_def rb_try_push_def rb_try_pop_def claim_head_def claim_tail_def rb_commit_def
        rb_limit_def next_index_def Let_def)
  then obtain r where run: "queue_run (\<lambda>r x. the (rb_try_push MPMCPolicy (2 ^ 2) r x)) (rb_try_pop MPMCPolicy (2 ^ 2))
      (rb_new (2 ^ 2) (0::nat)) [Push 7, Push 8, Pop] = ([7, 8], [7], r)" ..
  from ring_buffer_fifo [OF _ run, of 0] obtain ys where
    ys: "[7, 8::nat] = [7] @ ys" "fst (the (rb_try_push MPMCPolicy (2 ^ 2) r 0)) = (length ys < 2 ^ 2 - 1)"
    by auto
  show ?thesis
    unfolding run using ys by (intro exI [of _ ys] exI [of _ r]) simp
qed

lemma rb_exec_simps [simp]:
  "rb_exec pol c s [] = s" "rb_exec pol c s (a # as) = rb_exec pol c (rb_act pol c s a) as"
  "rb_exec pol c s (as @ bs) = rb_exec pol c (rb_exec pol c s as) bs"
  by (simp_all add: rb_exec_def)

lemma rb_conc_init_4: "rb_conc_init 4 (d::nat) =
    \<lparr>rc_r = \<lparr>rb_buffer = [d, d, d, d], rb_head = 0, rb_tail = 0, rb_committed = 0\<rparr>,
     rc_prod = (\<lambda>_. MIdle), rc_cons = (\<lambda>_. RIdle), rc_pushed = [], rc_popped = []\<rparr>"
proof -
  have "unat (4 :: u64) = Suc (Suc (Suc (Suc 0)))" by simp
  then show ?thesis
    by (simp only: rb_conc_init_def rb_new_def replicate.simps)
qed

lemmas rb_run = rb_producer_step_def rb_consumer_step_def next_index_def rb_limit_def Let_def

text \<open>
  Under \<open>SPSCPolicy\<close> the head is published before the slot is written: one producer and one
  consumer can interleave so that the consumer takes out an element that was never pushed, here
  the initial content of the slot, while the producer has not yet written it.
\<close>

theorem spsc_policy_reads_unwritten:
  "let s = rb_exec SPSCPolicy 4 (rb_conc_init 4 (0::nat))
       [RProducer 0 9, RProducer 0 9, RProducer 0 9, RConsumer 0, RConsumer 0, RConsumer 0, RConsumer 0]
   in rc_popped s = [0] \<and> rc_pushed s = [] \<and> rc_prod s 0 = MClaimed 9 0"
  by (simp add: rb_conc_init_4 rb_run)

definition mpmc_push :: "nat \<Rightarrow> nat rb_action list" where
  "mpmc_push item = (let a = RProducer 0 item in [a, a, a, a, a, a])"

lemma mpmc_push_run:
  assumes "P 0 = MIdle" and "n = next_index 4 h" and "n \<noteq> t"
  shows "rb_exec MPMCPolicy 4 \<lparr>rc_r = \<lparr>rb_buffer = B, rb_head = h, rb_tail = t, rb_committed = h\<rparr>,
      rc_prod = P, rc_cons = C, rc_pushed = A, rc_popped = D\<rparr> (mpmc_push x) =
    \<lparr>rc_r = \<lparr>rb_buffer = B[unat h := x], rb_head = n, rb_tail = t, rb_committed = n\<rparr>,
      rc_prod = P(0 := MIdle), rc_cons = C, rc_pushed = A @ [x], rc_popped = D\<rparr>"
  using assms by (simp add: mpmc_push_def rb_producer_step_def Let_def)

text \<open>
  Under \<open>MPMCPolicy\<close> the tail is advanced before the slot is read: with two consumers a producer
  can overwrite a slot that one of them has claimed but not yet read. In the interleaving below
  element 1 is lost and element 5 is delivered in its place while it is also still queued.
\<close>

theorem mpmc_policy_overwrites_claimed:
  "let s = rb_exec MPMCPolicy 4 (rb_conc_init 4 0)
       (mpmc_push 1 @ mpmc_push 2 @ mpmc_push 3 @ [RConsumer 0, RConsumer 0, RConsumer 0]
        @ [RConsumer 1, RConsumer 1, RConsumer 1, RConsumer 1] @ mpmc_push 4 @ mpmc_push 5 @ [RConsumer 0])
   in rc_pushed s = [1, 2, 3, 4, 5] \<and> rc_popped s = [2, 5]
     \<and> rb_buffer (rc_r s) ! 0 = 5 \<and> rb_size MPMCPolicy 4 (rc_r s) = 3"
  by (simp add: mpmc_push_run rb_conc_init_4 rb_consumer_step_def next_index_def rb_limit_def Let_def
      rb_size_def readable_def)

end
