(* ===== verification/Object_Pool.thy ===== *)
theory Object_Pool
  imports Common_Types
begin

unbundle bit_operations_syntax

text \<open>
  The pre-allocated object pool (\<open>include/qf/core/object_pool.hpp\<close>): a free list of slot indices
  threaded through \<open>free_list_\<close>, its head an index with a tag that changes on every operation. A
  pointer into \<open>storage_\<close> is the index of its slot. Calls do not overlap here, so that each
  compare-and-swap succeeds in its first round.
\<close>

definition POOL_INVALID :: u32 where "POOL_INVALID = 0xFFFFFFFF"

definition index_of :: "u64 \<Rightarrow> u32" where
  "index_of tagged = ucast (tagged AND 0xFFFFFFFF)"

definition tag_of :: "u64 \<Rightarrow> u32" where
  "tag_of tagged = ucast (drop_bit 32 tagged)"

definition make_tagged :: "u32 \<Rightarrow> u32 \<Rightarrow> u64" where
  "make_tagged idx tag = push_bit 32 (ucast tag) OR ucast idx"

record object_pool =
  op_free_list :: "u32 list"
  op_head :: u64

definition object_pool_new :: "nat \<Rightarrow> object_pool" where
  "object_pool_new n =
     \<lparr>op_free_list = map (\<lambda>i. of_nat (i + 1)) [0 ..< n - 1] @ [POOL_INVALID], op_head = 0\<rparr>"

definition pool_acquire :: "object_pool \<Rightarrow> nat option \<times> object_pool" where
  "pool_acquire p =
     (let old_head = op_head p; idx = index_of old_head in
      if idx = POOL_INVALID then (None, p)
      else
        let nxt = op_free_list p ! unat idx;
            tag = tag_of old_head + 1
        in (Some (unat idx), p\<lparr>op_head := make_tagged nxt tag\<rparr>))"

definition pool_release :: "object_pool \<Rightarrow> nat \<Rightarrow> object_pool" where
  "pool_release p idx =
     (let old_head = op_head p;
          tag = tag_of old_head + 1
      in p\<lparr>op_free_list := (op_free_list p)[idx := index_of old_head],
           op_head := make_tagged (of_nat idx) tag\<rparr>)"

section \<open>Tagged indices\<close>

lemma index_of_make_tagged [simp]: "index_of (make_tagged i t) = i"
proof -
  have low: "(0xFFFFFFFF :: u64) = mask 32"
    by (simp add: mask_eq_exp_minus_1)
  show ?thesis
    unfolding index_of_def make_tagged_def low by (rule bit_word_eqI) (auto simp: bit_simps)
qed

lemma tag_of_make_tagged [simp]: "tag_of (make_tagged i t) = t"
  by (rule bit_word_eqI) (auto simp: tag_of_def make_tagged_def bit_simps dest: bit_imp_le_length)

section \<open>The free list\<close>

text \<open>\<open>chain next i is\<close>: following the links from index \<open>i\<close> visits exactly the slots \<open>is\<close>.\<close>

fun chain :: "u32 list \<Rightarrow> u32 \<Rightarrow> nat list \<Rightarrow> bool" where
  "chain nxt i [] \<longleftrightarrow> i = POOL_INVALID"
| "chain nxt i (j # js) \<longleftrightarrow> i \<noteq> POOL_INVALID \<and> unat i = j \<and> j < length nxt \<and> chain nxt (nxt ! j) js"

definition pool_free :: "nat \<Rightarrow> object_pool \<Rightarrow> nat list \<Rightarrow> bool" where
  "pool_free n p free \<longleftrightarrow> 0 < n \<and> n < 2 ^ 32 \<and> length (op_free_list p) = n \<and> distinct free
     \<and> chain (op_free_list p) (index_of (op_head p)) free"

lemma chain_bound: "chain nxt i js \<Longrightarrow> j \<in> set js \<Longrightarrow> j < length nxt"
  by (induction js arbitrary: i) auto

lemma chain_update: "j \<notin> set js \<Longrightarrow> chain (nxt[j := x]) i js = chain nxt i js"
  by (induction js arbitrary: i) auto

lemma pool_free_acquire:
  assumes "pool_free n p (i # free)"
  shows "\<exists>p'. pool_acquire p = (Some i, p') \<and> pool_free n p' free"
  using assms by (auto simp: pool_free_def pool_acquire_def Let_def)

lemma pool_free_exhausted: "pool_free n p [] \<Longrightarrow> pool_acquire p = (None, p)"
  by (simp add: pool_free_def pool_acquire_def)

lemma pool_index: "i < n \<Longrightarrow> n < 2 ^ 32 \<Longrightarrow> unat (of_nat i :: u32) = i \<and> (of_nat i :: u32) \<noteq> POOL_INVALID"
  by (auto simp: unat_of_nat POOL_INVALID_def word_unat_eq_iff)

lemma pool_free_release:
  assumes p: "pool_free n p free" and i: "i < n" "i \<notin> set free"
  shows "pool_free n (pool_release p i) (i # free)"
  using assms pool_index [OF i(1)] chain_update [OF i(2)]
  by (auto simp: pool_free_def pool_release_def Let_def)

lemma pool_new_chain:
  assumes "0 < n" "n < 2 ^ 32" "i < n"
  shows "chain (op_free_list (object_pool_new n)) (of_nat i) [i ..< n]"
  using assms(3)
proof (induction "n - i" arbitrary: i)
  case (Suc d)
  let ?nxt = "op_free_list (object_pool_new n)"
  have len: "length ?nxt = n"
    using assms(1) by (simp add: object_pool_new_def)
  have nth: "?nxt ! i = (if Suc i < n then of_nat (Suc i) else POOL_INVALID)"
    using Suc.prems by (auto simp: object_pool_new_def nth_append)
  have "chain ?nxt (?nxt ! i) [Suc i ..< n]"
    using Suc.hyps(1) [of "Suc i"] Suc.hyps(2) nth by auto
  then show ?case
    using Suc.prems pool_index [OF Suc.prems assms(2)] len by (simp add: upt_rec [of i])
qed simp

lemma pool_free_new: "0 < n \<Longrightarrow> n < 2 ^ 32 \<Longrightarrow> pool_free n (object_pool_new n) [0 ..< n]"
  using pool_new_chain [of n 0]
  by (simp add: pool_free_def) (simp add: object_pool_new_def index_of_def)

section \<open>Use of the pool\<close>

text \<open>
  A client acquires objects and gives back objects it holds; \<open>held\<close> is what it has. A release of
  something it does not hold is outside the contract of the class.
\<close>

datatype pool_op = Acquire | Release nat

inductive pool_run :: "nat \<Rightarrow> object_pool \<Rightarrow> nat set \<Rightarrow> bool" for n where
  fresh: "pool_run n (object_pool_new n) {}"
| acquired: "pool_run n p held \<Longrightarrow> pool_acquire p = (Some i, p') \<Longrightarrow> pool_run n p' (insert i held)"
| exhausted: "pool_run n p held \<Longrightarrow> pool_acquire p = (None, p') \<Longrightarrow> pool_run n p' held"
| released: "pool_run n p held \<Longrightarrow> i \<in> held \<Longrightarrow> pool_run n (pool_release p i) (held - {i})"

lemma pool_run_inv:
  assumes "pool_run n p held" and "0 < n" "n < 2 ^ 32"
  shows "\<exists>free. pool_free n p free \<and> set free \<inter> held = {} \<and> set free \<union> held = {..<n}"
  using assms(1)
proof induction
  case fresh
  then show ?case using pool_free_new [OF assms(2,3)] by (intro exI [of _ "[0 ..< n]"]) auto
next
  case (acquired p held i p')
  then obtain free where f: "pool_free n p free" "set free \<inter> held = {}" "set free \<union> held = {..<n}" by blast
  then obtain j js where js: "free = j # js"
    using acquired(2) pool_free_exhausted by (cases free) auto
  with f(1) acquired(2) have "j = i" "pool_free n p' js"
    using pool_free_acquire by fastforce+
  then show ?case
    using f js by (intro exI [of _ js]) (auto simp: pool_free_def)
next
  case (exhausted p held p')
  then obtain free where f: "pool_free n p free" "set free \<inter> held = {}" "set free \<union> held = {..<n}" by blast
  then have "free = []" "p' = p"
    using exhausted(2) pool_free_acquire pool_free_exhausted by (cases free; force)+
  then show ?case using f by blast
next
  case (released p held i)
  then obtain free where f: "pool_free n p free" "set free \<inter> held = {}" "set free \<union> held = {..<n}" by blast
  then have "pool_free n (pool_release p i) (i # free)"
    using released(2) by (intro pool_free_release) auto
  then show ?case
    using f released(2) by (intro exI [of _ "i # free"]) auto
qed

section \<open>Properties\<close>

text \<open>
  Whatever a client that only gives back what it holds has done with a pool of \<open>n\<close> objects, an
  acquisition returns an object of the pool that nobody holds, and fails exactly when all \<open>n\<close>
  objects are held.
\<close>

theorem pool_acquire_exclusive:
  assumes "pool_run n p held" and "0 < n" and "n < 2 ^ 32"
  shows "held \<subseteq> {..<n} \<and> (case fst (pool_acquire p) of
      None \<Rightarrow> card held = n
    | Some i \<Rightarrow> i < n \<and> i \<notin> held)"
proof -
  obtain free where f: "pool_free n p free" "set free \<inter> held = {}" "set free \<union> held = {..<n}"
    using pool_run_inv [OF assms] by blast
  show ?thesis
  proof (cases free)
    case Nil
    then show ?thesis using f pool_free_exhausted by simp
  next
    case (Cons j js)
    then show ?thesis using f pool_free_acquire [of n p j js] by auto
  qed
qed

theorem pool_acquire_exclusive_witness:
  "fst (pool_acquire (snd (pool_acquire (object_pool_new 2)))) = Some 1
   \<and> {0} \<subseteq> {..<2::nat} \<and> (1::nat) \<notin> {0}"
proof -
  have a: "pool_acquire (object_pool_new 2) = (Some 0, (object_pool_new 2)\<lparr>op_head := make_tagged 1 1\<rparr>)"
    by (simp add: pool_acquire_def object_pool_new_def index_of_def tag_of_def POOL_INVALID_def Let_def
        upt_rec [of 0])
  have r: "pool_run 2 (snd (pool_acquire (object_pool_new 2))) {0}"
    using pool_run.acquired [OF pool_run.fresh a] a by simp
  have "fst (pool_acquire (snd (pool_acquire (object_pool_new 2)))) = Some 1"
    unfolding a by (simp add: pool_acquire_def POOL_INVALID_def Let_def)
  then show ?thesis
    using pool_acquire_exclusive [OF r] by simp
qed

end
