(* ===== verification/Event_Bus.thy ===== *)
theory Event_Bus
  imports Prelude
begin

text \<open>
  The internal publish/subscribe bus (\<open>include/qf/core/event_bus.hpp\<close>). An event type is a key of
  type \<open>'k\<close> (\<open>std::type_index\<close>), an event a value of type \<open>'e\<close>, and a callback a function on the
  state \<open>'s\<close> of the subscribers. \<open>subscribe\<close> holds the lock exclusively and \<open>publish\<close> holds it
  shared, so a publication sees the subscriber lists as they are before or after a subscription.
\<close>

type_synonym ('e, 's) callback = "'e \<Rightarrow> 's \<Rightarrow> 's"

record ('k, 'e, 's) event_bus =
  eb_subscribers :: "'k \<rightharpoonup> ('e, 's) callback list"

definition event_bus_new :: "('k, 'e, 's) event_bus" where
  "event_bus_new = \<lparr>eb_subscribers = Map.empty\<rparr>"

definition list_add :: "('e, 's) callback list \<Rightarrow> ('e, 's) callback \<Rightarrow> ('e, 's) callback list" where
  "list_add callbacks cb = callbacks @ [cb]"

fun dispatch :: "('e, 's) callback list \<Rightarrow> 'e \<Rightarrow> 's \<Rightarrow> 's" where
  "dispatch [] event s = s"
| "dispatch (cb # cbs) event s = dispatch cbs event (cb event s)"

definition subscribe :: "('k, 'e, 's) event_bus \<Rightarrow> 'k \<Rightarrow> ('e, 's) callback \<Rightarrow> ('k, 'e, 's) event_bus" where
  "subscribe bus key cb =
     (case eb_subscribers bus key of
        None \<Rightarrow> bus\<lparr>eb_subscribers := (eb_subscribers bus)(key \<mapsto> list_add [] cb)\<rparr>
      | Some callbacks \<Rightarrow>
          bus\<lparr>eb_subscribers := (eb_subscribers bus)(key \<mapsto> list_add callbacks cb)\<rparr>)"

definition publish :: "('k, 'e, 's) event_bus \<Rightarrow> 'k \<Rightarrow> 'e \<Rightarrow> 's \<Rightarrow> 's" where
  "publish bus key event s =
     (case eb_subscribers bus key of
        None \<Rightarrow> s
      | Some callbacks \<Rightarrow> dispatch callbacks event s)"

definition subscriber_count :: "('k, 'e, 's) event_bus \<Rightarrow> 'k \<Rightarrow> nat" where
  "subscriber_count bus key =
     (case eb_subscribers bus key of
        None \<Rightarrow> 0
      | Some callbacks \<Rightarrow> length callbacks)"

section \<open>Lemmas\<close>

definition subscribers_of :: "('k, 'e, 's) event_bus \<Rightarrow> 'k \<Rightarrow> ('e, 's) callback list" where
  "subscribers_of bus key = (case eb_subscribers bus key of None \<Rightarrow> [] | Some cbs \<Rightarrow> cbs)"

lemma subscribers_of_subscribe:
  "subscribers_of (subscribe bus key cb) key' =
     (if key' = key then subscribers_of bus key @ [cb] else subscribers_of bus key')"
  by (simp add: subscribers_of_def subscribe_def list_add_def split: option.splits)

lemma dispatch_fold: "dispatch cbs event s = fold (\<lambda>cb. cb event) cbs s"
  by (induction cbs arbitrary: s) auto

lemma subscribe_all:
  "subscribers_of (foldl (\<lambda>bus (key, cb). subscribe bus key cb) bus subs) key =
     subscribers_of bus key @ map snd (filter (\<lambda>(key', _). key' = key) subs)"
  by (induction subs arbitrary: bus) (auto simp: subscribers_of_subscribe)

section \<open>Properties\<close>

text \<open>
  After any sequence of subscriptions, publishing an event runs exactly the callbacks that were
  subscribed for its type, each once and in the order of subscription, and no callback of another
  type; the subscriber count is their number.
\<close>

theorem publish_runs_subscribers:
  "let bus = foldl (\<lambda>bus (key, cb). subscribe bus key cb) event_bus_new subs;
       cbs = map snd (filter (\<lambda>(key', _). key' = key) subs)
   in publish bus key event s = fold (\<lambda>cb. cb event) cbs s \<and> subscriber_count bus key = length cbs"
proof -
  let ?bus = "foldl (\<lambda>bus (key, cb). subscribe bus key cb) event_bus_new subs"
  have "subscribers_of ?bus key = map snd (filter (\<lambda>(key', _). key' = key) subs)"
    by (simp add: subscribe_all) (simp add: subscribers_of_def event_bus_new_def)
  moreover have "publish ?bus key event s = fold (\<lambda>cb. cb event) (subscribers_of ?bus key) s"
    "subscriber_count ?bus key = length (subscribers_of ?bus key)"
    by (simp_all add: publish_def subscriber_count_def subscribers_of_def dispatch_fold split: option.splits)
  ultimately show ?thesis by (simp add: Let_def)
qed

end
