(* ===== verification/State_Transitions.thy ===== *)
theory State_Transitions
  imports Common_Types
begin

text \<open>
  The order lifecycle of the order management system: the types of \<open>oms/oms_types.hpp\<close>, the table
  of \<open>state_machine/order_states.hpp\<close> and the state machine of
  \<open>state_machine/state_transitions.{hpp,cpp}\<close>.

  An \<open>OrderState\<close> is an \<open>enum class\<close> over \<open>uint8_t\<close>. The journal reads states back from a file with
  a cast, so a state can also be a byte that is no enumerator: those are the values \<open>Unlisted b\<close>.
  The clock is an argument: an operation that calls \<open>Clock::now_ns\<close> takes the value of each call.
\<close>

section \<open>Types\<close>

datatype order_type = Market | Limit

datatype order_state = New | Sent | Acked | PartialFill | Filled | Cancelled | Rejected | Unlisted u8

fun state_byte :: "order_state \<Rightarrow> u8" where
  "state_byte New = 0"
| "state_byte Sent = 1"
| "state_byte Acked = 2"
| "state_byte PartialFill = 3"
| "state_byte Filled = 4"
| "state_byte Cancelled = 5"
| "state_byte Rejected = 6"
| "state_byte (Unlisted b) = b"

definition state_of_byte :: "u8 \<Rightarrow> order_state" where
  "state_of_byte b =
     (if b = 0 then New else if b = 1 then Sent else if b = 2 then Acked
      else if b = 3 then PartialFill else if b = 4 then Filled else if b = 5 then Cancelled
      else if b = 6 then Rejected else Unlisted b)"

fun listed :: "order_state \<Rightarrow> bool" where
  "listed (Unlisted b) = False"
| "listed _ = True"

record oms_order =
  om_order_id :: order_id
  om_symbol :: symbol
  om_side :: side
  om_type :: order_type
  om_price :: price
  om_quantity :: quantity
  om_filled_quantity :: quantity
  om_state :: order_state
  om_created :: timestamp
  om_sent :: timestamp
  om_acked :: timestamp
  om_last_fill :: timestamp

definition remaining :: "oms_order \<Rightarrow> quantity" where
  "remaining ord = om_quantity ord - om_filled_quantity ord"

definition is_terminal_state :: "order_state \<Rightarrow> bool" where
  "is_terminal_state s \<longleftrightarrow> s = Filled \<or> s = Cancelled \<or> s = Rejected"

definition is_terminal :: "oms_order \<Rightarrow> bool" where
  "is_terminal ord \<longleftrightarrow> is_terminal_state (om_state ord)"

record fill_report =
  fr_order_id :: order_id
  fr_fill_price :: price
  fr_fill_quantity :: quantity
  fr_timestamp :: timestamp
  fr_is_final :: bool

record order_event =
  ev_order_id :: order_id
  ev_from_state :: order_state
  ev_to_state :: order_state
  ev_timestamp :: timestamp
  ev_reason :: string

definition order_event_default :: order_event where
  "order_event_default = \<lparr>ev_order_id = 0, ev_from_state = New, ev_to_state = New,
     ev_timestamp = 0, ev_reason = []\<rparr>"

section \<open>The two transition tables\<close>

definition table_at :: "bool list list \<Rightarrow> nat \<Rightarrow> nat \<Rightarrow> bool" where
  "table_at t f g = (if f \<ge> 7 \<or> g \<ge> 7 then False else t ! f ! g)"

definition is_valid_transition :: "order_state \<Rightarrow> order_state \<Rightarrow> bool" where
  "is_valid_transition s t = table_at
     [[False, True,  False, False, False, True,  True],
      [False, False, True,  False, False, True,  True],
      [False, False, False, True,  True,  True,  False],
      [False, False, False, True,  True,  True,  False],
      [False, False, False, False, False, False, False],
      [False, False, False, False, False, False, False],
      [False, False, False, False, False, False, False]]
     (unat (state_byte s)) (unat (state_byte t))"

fun state_to_string :: "order_state \<Rightarrow> string" where
  "state_to_string New = ''New''"
| "state_to_string Sent = ''Sent''"
| "state_to_string Acked = ''Acked''"
| "state_to_string PartialFill = ''PartialFill''"
| "state_to_string Filled = ''Filled''"
| "state_to_string Cancelled = ''Cancelled''"
| "state_to_string Rejected = ''Rejected''"
| "state_to_string (Unlisted b) = ''Unknown''"

definition table_set :: "nat \<Rightarrow> nat \<Rightarrow> bool list list \<Rightarrow> bool list list" where
  "table_set f g t = t[f := (t ! f)[g := True]]"

definition build_transition_table :: "bool list list" where
  "build_transition_table =
     (let t = replicate 7 (replicate 7 False);
          t = table_set 0 1 t;
          t = table_set 1 2 t;
          t = table_set 1 6 t;
          t = table_set 2 3 t;
          t = table_set 2 4 t;
          t = table_set 2 5 t;
          t = table_set 3 3 t;
          t = table_set 3 4 t;
          t = table_set 3 5 t
      in t)"

definition is_valid :: "order_state \<Rightarrow> order_state \<Rightarrow> bool" where
  "is_valid s t = table_at build_transition_table (unat (state_byte s)) (unat (state_byte t))"

section \<open>The state machine\<close>

record transition_result =
  tr_success :: bool
  tr_event :: order_event
  tr_error :: string

type_synonym 's event_callback = "order_event \<Rightarrow> 's \<Rightarrow> 's"

definition transition ::
  "'s event_callback option \<Rightarrow> timestamp \<Rightarrow> oms_order \<Rightarrow> order_state \<Rightarrow> string \<Rightarrow> 's
     \<Rightarrow> transition_result \<times> oms_order \<times> 's" where
  "transition callback now ord new_state reason s =
     (let old_state = om_state ord in
      if \<not> is_valid old_state new_state
      then (\<lparr>tr_success = False, tr_event = order_event_default,
             tr_error = ''Invalid transition: '' @ state_to_string old_state @ '' -> ''
               @ state_to_string new_state\<rparr>, ord, s)
      else
        let ord' = ord\<lparr>om_state := new_state\<rparr>;
            event = \<lparr>ev_order_id = om_order_id ord', ev_from_state = old_state,
              ev_to_state = new_state, ev_timestamp = now, ev_reason = reason\<rparr>;
            s' = (case callback of None \<Rightarrow> s | Some cb \<Rightarrow> cb event s)
        in (\<lparr>tr_success = True, tr_event = event, tr_error = []\<rparr>, ord', s'))"

text \<open>\<open>transition_or_throw\<close> raises a \<open>std::runtime_error\<close> with the message on an invalid transition.\<close>

definition transition_or_throw ::
  "'s event_callback option \<Rightarrow> timestamp \<Rightarrow> oms_order \<Rightarrow> order_state \<Rightarrow> string \<Rightarrow> 's
     \<Rightarrow> (string + order_event) \<times> oms_order \<times> 's" where
  "transition_or_throw callback now ord new_state reason s =
     (let (result, ord', s') = transition callback now ord new_state reason s in
      if \<not> tr_success result then (Inl (tr_error result), ord', s')
      else (Inr (tr_event result), ord', s'))"

section \<open>Facts\<close>

lemma state_of_state_byte: "listed s \<Longrightarrow> state_of_byte (state_byte s) = s"
  by (cases s) (simp_all add: state_of_byte_def)

lemma state_byte_of_byte: "state_byte (state_of_byte b) = b"
  by (simp add: state_of_byte_def)

lemma build_transition_table_eq:
  "build_transition_table =
     [[False, True,  False, False, False, False, False],
      [False, False, True,  False, False, False, True],
      [False, False, False, True,  True,  True,  False],
      [False, False, False, True,  True,  True,  False],
      [False, False, False, False, False, False, False],
      [False, False, False, False, False, False, False],
      [False, False, False, False, False, False, False]]"
  by (simp add: build_transition_table_def table_set_def Let_def numeral_eq_Suc)

text \<open>The edges of the state machine, spelled out.\<close>

inductive lifecycle_edge :: "order_state \<Rightarrow> order_state \<Rightarrow> bool" where
  send: "lifecycle_edge New Sent"
| ack: "lifecycle_edge Sent Acked"
| reject: "lifecycle_edge Sent Rejected"
| fill_part: "s = Acked \<or> s = PartialFill \<Longrightarrow> lifecycle_edge s PartialFill"
| fill_all: "s = Acked \<or> s = PartialFill \<Longrightarrow> lifecycle_edge s Filled"
| cancel: "s = Acked \<or> s = PartialFill \<Longrightarrow> lifecycle_edge s Cancelled"

inductive_simps lifecycle_edge_from [simp]:
  "lifecycle_edge New t" "lifecycle_edge Sent t" "lifecycle_edge Acked t"
  "lifecycle_edge PartialFill t" "lifecycle_edge Filled t" "lifecycle_edge Cancelled t"
  "lifecycle_edge Rejected t" "lifecycle_edge (Unlisted b) t"

inductive_cases lifecycle_edgeE: "lifecycle_edge s t"

lemma is_valid_listed: "listed s \<Longrightarrow> listed t \<Longrightarrow> is_valid s t \<longleftrightarrow> lifecycle_edge s t"
  by (cases s; cases t) (simp_all add: is_valid_def table_at_def build_transition_table_eq)

lemma lifecycle_edge_listed: "lifecycle_edge s t \<Longrightarrow> listed s \<and> listed t"
  by (auto elim: lifecycle_edgeE)

lemma terminal_no_edge: "is_terminal_state s \<Longrightarrow> \<not> lifecycle_edge s t"
  by (auto simp: is_terminal_state_def)

lemma edge_valid_transition: "lifecycle_edge s t \<Longrightarrow> is_valid_transition s t"
  by (auto simp: is_valid_transition_def table_at_def elim!: lifecycle_edgeE)

text \<open>A path of the machine: the states an order goes through.\<close>

fun lifecycle_path :: "order_state \<Rightarrow> order_state list \<Rightarrow> bool" where
  "lifecycle_path s [] = True"
| "lifecycle_path s (t # ts) = (is_valid s t \<and> lifecycle_path t ts)"

lemma lifecycle_path_append:
  "lifecycle_path s (xs @ ys) \<longleftrightarrow> lifecycle_path s xs \<and> lifecycle_path (last (s # xs)) ys"
  by (induction xs arbitrary: s) auto

section \<open>Properties\<close>

text \<open>
  The table of \<open>order_states.hpp\<close>, which the documentation of the lifecycle names, and the
  table the state machine uses differ in exactly three places: only the former lets an order be
  cancelled or rejected before it is sent, or cancelled while it waits for the acknowledgement.
\<close>

theorem transition_tables_differ:
  assumes "listed s" and "listed t"
  shows "is_valid_transition s t \<noteq> is_valid s t
    \<longleftrightarrow> (s, t) \<in> {(New, Cancelled), (New, Rejected), (Sent, Cancelled)}"
  using assms
  by (cases s; cases t)
    (simp_all add: is_valid_transition_def is_valid_def table_at_def build_transition_table_eq)

theorem transition_tables_differ_witness:
  "is_valid_transition Sent Cancelled \<noteq> is_valid Sent Cancelled"
  using transition_tables_differ [of Sent Cancelled] by simp

end
