(* ===== verification/Order_Journal.thy ===== *)
theory Order_Journal
  imports State_Transitions
begin

text \<open>
  The audit log of the order management system (\<open>state_machine/order_journal.{hpp,cpp}\<close>): the
  entries, the secondary index from order ids to positions, the sequence counter, and the binary
  file the log is flushed to and loaded from.

  A file is the list of its bytes, and a stream the bytes not yet read with its \<open>good\<close> flag:
  \<open>std::istream::read\<close> stores what it finds, and when that is less than what was asked it fails
  and every later read leaves its destination alone. Memory allocation succeeds, except that
  \<open>entries_.reserve\<close> raises \<open>std::length_error\<close> beyond the vector's \<open>max_size\<close>, an argument here.
\<close>

section \<open>State and operations\<close>

record journal_entry =
  je_sequence_number :: u64
  je_event :: order_event

record order_journal =
  oj_entries :: "journal_entry list"
  oj_index :: "order_id \<rightharpoonup> nat list"
  oj_next_sequence :: u64

definition journal_new :: order_journal where
  "journal_new = \<lparr>oj_entries = [], oj_index = Map.empty, oj_next_sequence = 1\<rparr>"

definition index_push :: "(order_id \<rightharpoonup> nat list) \<Rightarrow> order_id \<Rightarrow> nat \<Rightarrow> (order_id \<rightharpoonup> nat list)" where
  "index_push ix k i = ix(k \<mapsto> (case ix k of None \<Rightarrow> [] | Some is \<Rightarrow> is) @ [i])"

definition journal_append :: "order_event \<Rightarrow> order_journal \<Rightarrow> u64 \<times> order_journal" where
  "journal_append event j =
     (let seq = oj_next_sequence j;
          entry = \<lparr>je_sequence_number = seq, je_event = event\<rparr>;
          idx = length (oj_entries j)
      in (seq, \<lparr>oj_entries = oj_entries j @ [entry],
                oj_index = index_push (oj_index j) (ev_order_id event) idx,
                oj_next_sequence = seq + 1\<rparr>))"

text \<open>Reading \<open>entries_[idx]\<close> past the end is undefined behaviour, \<open>None\<close> here.\<close>

fun entries_at :: "journal_entry list \<Rightarrow> nat list \<Rightarrow> journal_entry list option" where
  "entries_at es [] = Some []"
| "entries_at es (i # is) =
     (if i < length es
      then (case entries_at es is of None \<Rightarrow> None | Some r \<Rightarrow> Some (es ! i # r)) else None)"

definition get_history :: "order_journal \<Rightarrow> order_id \<Rightarrow> journal_entry list option" where
  "get_history j k =
     (case oj_index j k of None \<Rightarrow> Some [] | Some is \<Rightarrow> entries_at (oj_entries j) is)"

definition get_recent :: "order_journal \<Rightarrow> nat \<Rightarrow> journal_entry list" where
  "get_recent j n =
     (if n = 0 \<or> oj_entries j = [] then []
      else let cnt = min n (length (oj_entries j));
               start = length (oj_entries j) - cnt
           in drop start (oj_entries j))"

definition journal_size :: "order_journal \<Rightarrow> nat" where
  "journal_size j = length (oj_entries j)"

section \<open>The file format\<close>

definition char_byte :: "char \<Rightarrow> u8" where "char_byte c = of_nat (of_char c)"
definition byte_char :: "u8 \<Rightarrow> char" where "byte_char b = char_of (unat b)"

definition MAGIC :: bytes where
  "MAGIC = map char_byte ''OJOURNAL''"

definition flush_entry :: "journal_entry \<Rightarrow> bytes" where
  "flush_entry entry =
     (let reason = ev_reason (je_event entry);
          reason_len = (of_nat (length reason) :: u32)
      in put_u64 (je_sequence_number entry) @ put_u64 (ev_order_id (je_event entry))
         @ [state_byte (ev_from_state (je_event entry))]
         @ [state_byte (ev_to_state (je_event entry))]
         @ put_u64 (ev_timestamp (je_event entry))
         @ put_u32 reason_len
         @ (if 0 < reason_len then map char_byte (take (unat reason_len) reason) else []))"

definition flush_to_file :: "order_journal \<Rightarrow> bytes" where
  "flush_to_file j =
     MAGIC @ put_u64 (of_nat (length (oj_entries j))) @ concat (map flush_entry (oj_entries j))"

record istream =
  is_rest :: bytes
  is_good :: bool

definition stream_read :: "nat \<Rightarrow> bytes \<Rightarrow> istream \<Rightarrow> bytes \<times> istream" where
  "stream_read n dst s =
     (if \<not> is_good s then (dst, s)
      else if n \<le> length (is_rest s)
      then (take n (is_rest s), s\<lparr>is_rest := drop n (is_rest s)\<rparr>)
      else (is_rest s @ drop (length (is_rest s)) dst, \<lparr>is_rest = [], is_good = False\<rparr>))"

definition read_u64 :: "istream \<Rightarrow> u64 \<times> istream" where
  "read_u64 s = (let (bs, s') = stream_read 8 (put_u64 0) s in (get_u64 bs, s'))"

definition read_u32 :: "istream \<Rightarrow> u32 \<times> istream" where
  "read_u32 s = (let (bs, s') = stream_read 4 (put_u32 0) s in (get_u32 bs, s'))"

definition read_u8 :: "istream \<Rightarrow> u8 \<times> istream" where
  "read_u8 s = (let (bs, s') = stream_read 1 [0] s in (byte_at bs 0, s'))"

definition read_entry :: "istream \<Rightarrow> journal_entry \<times> istream" where
  "read_entry s =
     (let (seq, s) = read_u64 s;
          (oid, s) = read_u64 s;
          (frm, s) = read_u8 s;
          (to, s) = read_u8 s;
          (ts, s) = read_u64 s;
          (reason_len, s) = read_u32 s;
          (reason, s) =
            (if 0 < reason_len
             then stream_read (unat reason_len) (replicate (unat reason_len) 0) s else ([], s))
      in (\<lparr>je_sequence_number = seq,
           je_event = \<lparr>ev_order_id = oid, ev_from_state = state_of_byte frm,
             ev_to_state = state_of_byte to, ev_timestamp = ts,
             ev_reason = map byte_char reason\<rparr>\<rparr>, s))"

definition load_push :: "journal_entry \<Rightarrow> order_journal \<Rightarrow> order_journal" where
  "load_push entry j =
     \<lparr>oj_entries = oj_entries j @ [entry],
      oj_index = index_push (oj_index j) (ev_order_id (je_event entry)) (length (oj_entries j)),
      oj_next_sequence =
        (if je_sequence_number entry \<ge> oj_next_sequence j then je_sequence_number entry + 1
         else oj_next_sequence j)\<rparr>"

fun load_loop :: "nat \<Rightarrow> istream \<Rightarrow> order_journal \<Rightarrow> bool \<times> order_journal" where
  "load_loop 0 s j = (True, j)"
| "load_loop (Suc i) s j =
     (let (entry, s') = read_entry s in
      if \<not> is_good s' then (False, j) else load_loop i s' (load_push entry j))"

datatype load_result = Load bool | Length_Error

text \<open>
  \<open>stack\<close> is what the eight bytes of the local \<open>magic\<close> hold before the read; it matters only for a
  file shorter than the magic.
\<close>

definition load_from_file ::
  "nat \<Rightarrow> bytes \<Rightarrow> bytes option \<Rightarrow> order_journal \<Rightarrow> load_result \<times> order_journal" where
  "load_from_file max_size stack file j =
     (case file of
        None \<Rightarrow> (Load False, j)
      | Some content \<Rightarrow>
          let (magic, s) = stream_read 8 stack \<lparr>is_rest = content, is_good = True\<rparr> in
          if magic \<noteq> MAGIC then (Load False, j)
          else
            let (cnt, s) = read_u64 s in
            if max_size < unat cnt
            then (Length_Error, j\<lparr>oj_entries := [], oj_index := Map.empty\<rparr>)
            else
              let (ok, j') = load_loop (unat cnt) s journal_new
              in (Load ok, j'))"

section \<open>The index invariant\<close>

abbreviation entry_order :: "journal_entry \<Rightarrow> order_id" where
  "entry_order e \<equiv> ev_order_id (je_event e)"

definition positions :: "journal_entry list \<Rightarrow> order_id \<Rightarrow> nat list" where
  "positions es k = filter (\<lambda>i. entry_order (es ! i) = k) [0..<length es]"

definition index_ok :: "order_journal \<Rightarrow> bool" where
  "index_ok j \<longleftrightarrow> (\<forall>k. oj_index j k =
     (if positions (oj_entries j) k = [] then None else Some (positions (oj_entries j) k)))"

definition seq_ok :: "order_journal \<Rightarrow> bool" where
  "seq_ok j \<longleftrightarrow> map je_sequence_number (oj_entries j)
       = map (\<lambda>i. of_nat (Suc i)) [0..<length (oj_entries j)]
     \<and> oj_next_sequence j = of_nat (Suc (length (oj_entries j)))"

lemma positions_snoc:
  "positions (es @ [e]) k = positions es k @ (if entry_order e = k then [length es] else [])"
proof -
  have "filter (\<lambda>i. entry_order ((es @ [e]) ! i) = k) [0..<length es] = positions es k"
    unfolding positions_def by (rule filter_cong) (auto simp: nth_append)
  then show ?thesis
    by (simp add: positions_def)
qed

lemma index_push_ok:
  assumes "\<forall>k. ix k = (if positions es k = [] then None else Some (positions es k))"
  shows "\<forall>k. index_push ix (entry_order e) (length es) k =
    (if positions (es @ [e]) k = [] then None else Some (positions (es @ [e]) k))"
  using assms by (auto simp: index_push_def positions_snoc split: option.splits)

lemma index_ok_new [simp]: "index_ok journal_new"
  by (simp add: index_ok_def journal_new_def positions_def)

lemma seq_ok_new [simp]: "seq_ok journal_new"
  by (simp add: seq_ok_def journal_new_def)

lemma index_ok_append [inv_rules]: "index_ok j \<Longrightarrow> index_ok (snd (journal_append ev j))"
  using index_push_ok [of "oj_index j" "oj_entries j"
      "\<lparr>je_sequence_number = oj_next_sequence j, je_event = ev\<rparr>"]
  by (simp add: index_ok_def journal_append_def Let_def)

lemma seq_ok_append [inv_rules]: "seq_ok j \<Longrightarrow> seq_ok (snd (journal_append ev j))"
  by (simp add: seq_ok_def journal_append_def Let_def)

lemma index_ok_load_push [inv_rules]: "index_ok j \<Longrightarrow> index_ok (load_push e j)"
  using index_push_ok [of "oj_index j" "oj_entries j" e] by (simp add: index_ok_def load_push_def)

lemma entries_at_in_range:
  "\<forall>i \<in> set is. i < length es \<Longrightarrow> entries_at es is = Some (map ((!) es) is)"
  by (induction "is") simp_all

lemma map_positions: "map ((!) es) (positions es k) = filter (\<lambda>e. entry_order e = k) es"
proof (induction es rule: rev_induct)
  case (snoc e es)
  have "map ((!) (es @ [e])) (positions es k) = map ((!) es) (positions es k)"
    by (rule map_cong) (auto simp: positions_def nth_append)
  then show ?case
    using snoc.IH by (simp add: positions_snoc)
qed (simp add: positions_def)

lemma get_history_exact:
  assumes "index_ok j"
  shows "get_history j k = Some (filter (\<lambda>e. entry_order e = k) (oj_entries j))"
proof -
  have "entries_at (oj_entries j) (positions (oj_entries j) k)
      = Some (filter (\<lambda>e. entry_order e = k) (oj_entries j))"
    using map_positions by (subst entries_at_in_range) (auto simp: positions_def)
  moreover have "positions (oj_entries j) k = [] \<Longrightarrow> filter (\<lambda>e. entry_order e = k) (oj_entries j) = []"
    using map_positions [of "oj_entries j" k] by simp
  ultimately show ?thesis
    using assms by (auto simp: get_history_def index_ok_def)
qed

section \<open>Appending events\<close>

fun journal_of :: "order_event list \<Rightarrow> order_journal \<Rightarrow> order_journal" where
  "journal_of [] j = j"
| "journal_of (ev # evs) j = journal_of evs (snd (journal_append ev j))"

lemma journal_of_inv: "index_ok j \<Longrightarrow> seq_ok j \<Longrightarrow> index_ok (journal_of evs j) \<and> seq_ok (journal_of evs j)"
  by (induction evs arbitrary: j) (auto intro: inv_rules)

lemma journal_of_events:
  "map je_event (oj_entries (journal_of evs j)) = map je_event (oj_entries j) @ evs"
  by (induction evs arbitrary: j) (auto simp: journal_append_def Let_def)

text \<open>
  The history of an order is exactly the events journalled for it, in the order they happened;
  the recent view is the last \<open>n\<close> of all events; and the sequence numbers are 1, 2, 3 and so on.
\<close>

theorem journal_history_exact:
  fixes evs :: "order_event list"
  defines "j \<equiv> journal_of evs journal_new"
  shows "\<exists>h. get_history j k = Some h \<and> map je_event h = filter (\<lambda>ev. ev_order_id ev = k) evs"
    and "map je_event (get_recent j n) = drop (length evs - n) evs"
    and "map je_sequence_number (oj_entries j) = map (\<lambda>i. of_nat (Suc i)) [0..<journal_size j]"
    and "journal_size j = length evs"
proof -
  have inv: "index_ok j" "seq_ok j"
    using journal_of_inv [of journal_new evs] by (simp_all add: j_def)
  have evs: "map je_event (oj_entries j) = evs"
    using journal_of_events [of evs journal_new] by (simp add: j_def journal_new_def)
  have "map je_event (filter (\<lambda>e. entry_order e = k) (oj_entries j)) = filter (\<lambda>ev. ev_order_id ev = k) evs"
    by (simp add: evs [symmetric] filter_map comp_def)
  then show "\<exists>h. get_history j k = Some h \<and> map je_event h = filter (\<lambda>ev. ev_order_id ev = k) evs"
    using get_history_exact [OF inv(1)] by simp
  have len: "length (oj_entries j) = length evs"
    using evs by (metis length_map)
  then show "journal_size j = length evs"
    by (simp add: journal_size_def)
  show "map je_event (get_recent j n) = drop (length evs - n) evs"
    using len by (auto simp: get_recent_def Let_def evs [symmetric] drop_map [symmetric] min_def)
  show "map je_sequence_number (oj_entries j) = map (\<lambda>i. of_nat (Suc i)) [0..<journal_size j]"
    using inv(2) by (simp add: seq_ok_def journal_size_def)
qed

section \<open>The file round trip\<close>

abbreviation stream :: "bytes \<Rightarrow> istream" where
  "stream bs \<equiv> \<lparr>is_rest = bs, is_good = True\<rparr>"

lemma byte_char_byte [simp]: "byte_char (char_byte c) = c"
  by (simp add: byte_char_def char_byte_def unat_of_nat)

lemma map_byte_char_byte [simp]: "map byte_char (map char_byte cs) = cs"
  by (simp add: comp_def)

lemma read_u64_put [simp]: "read_u64 (stream (put_u64 w @ bs)) = (w, stream bs)"
  by (simp add: read_u64_def stream_read_def)

lemma read_u32_put [simp]: "read_u32 (stream (put_u32 w @ bs)) = (w, stream bs)"
  by (simp add: read_u32_def stream_read_def)

lemma read_u8_put [simp]: "read_u8 (stream (b # bs)) = (b, stream bs)"
  by (simp add: read_u8_def stream_read_def byte_at_def)

definition entry_ok :: "journal_entry \<Rightarrow> bool" where
  "entry_ok e \<longleftrightarrow> listed (ev_from_state (je_event e)) \<and> listed (ev_to_state (je_event e))
     \<and> length (ev_reason (je_event e)) < 2 ^ 32"

lemma read_flush_entry:
  assumes "entry_ok e"
  shows "read_entry (stream (flush_entry e @ bs)) = (e, stream bs)"
proof -
  let ?r = "ev_reason (je_event e)"
  have len: "unat (of_nat (length ?r) :: u32) = length ?r"
    using assms by (simp add: entry_ok_def unat_of_nat)
  have pos: "0 < (of_nat (length ?r) :: u32) \<longleftrightarrow> ?r \<noteq> []"
    using len by (simp add: word_less_nat_alt)
  have reason: "(if 0 < (of_nat (length ?r) :: u32)
      then stream_read (unat (of_nat (length ?r) :: u32)) (replicate (unat (of_nat (length ?r) :: u32)) 0)
        (stream ((if 0 < (of_nat (length ?r) :: u32)
           then map char_byte (take (unat (of_nat (length ?r) :: u32)) ?r) else []) @ bs))
      else ([], stream ((if 0 < (of_nat (length ?r) :: u32)
           then map char_byte (take (unat (of_nat (length ?r) :: u32)) ?r) else []) @ bs)))
      = (map char_byte ?r, stream bs)"
    using pos by (simp add: len stream_read_def)
  show ?thesis
    using assms unfolding read_entry_def flush_entry_def Let_def append.assoc append_Cons append_Nil
    by (simp only: read_u64_put read_u32_put read_u8_put split_conv reason map_byte_char_byte
        state_of_state_byte entry_ok_def) simp
qed

text \<open>The journal that the loader builds from a list of entries.\<close>

definition journal_loaded :: "journal_entry list \<Rightarrow> order_journal" where
  "journal_loaded es = fold load_push es journal_new"

lemma load_loop_flush:
  "\<forall>e \<in> set es. entry_ok e \<Longrightarrow>
     load_loop (length es) (stream (concat (map flush_entry es) @ bs)) j = (True, fold load_push es j)"
  by (induction es arbitrary: j) (simp_all add: read_flush_entry)

lemma loaded_entries: "oj_entries (fold load_push es j) = oj_entries j @ es"
  by (induction es arbitrary: j) (simp_all add: load_push_def)

lemma loaded_index_ok: "index_ok j \<Longrightarrow> index_ok (fold load_push es j)"
  by (induction es arbitrary: j) (simp_all add: index_ok_load_push)

lemma index_ok_unique:
  "index_ok j \<Longrightarrow> index_ok j' \<Longrightarrow> oj_entries j = oj_entries j' \<Longrightarrow> oj_index j = oj_index j'"
  by (auto simp: index_ok_def)

lemma loaded_next_sequence:
  assumes "n < 2 ^ 64 - 1"
    and "map je_sequence_number es = map (\<lambda>i. of_nat (Suc i)) [0..<n]"
  shows "oj_next_sequence (journal_loaded es) = of_nat (Suc n)"
  using assms
proof (induction n arbitrary: es)
  case 0
  then show ?case by (simp add: journal_loaded_def journal_new_def)
next
  case (Suc n)
  then obtain es' e where es: "es = es' @ [e]" "je_sequence_number e = of_nat (Suc n)"
    "map je_sequence_number es' = map (\<lambda>i. of_nat (Suc i)) [0..<n]"
    by (cases es rule: rev_cases) auto
  have "oj_next_sequence (journal_loaded es') = of_nat (Suc n)"
    using Suc.IH [OF _ es(3)] Suc.prems(1) by simp
  then show ?case
    using es(1,2) by (simp add: journal_loaded_def load_push_def)
qed

lemma load_flush_eq:
  assumes "index_ok j" and "seq_ok j" and "\<forall>e \<in> set (oj_entries j). entry_ok e"
    and "length (oj_entries j) < 2 ^ 64 - 1"
  shows "journal_loaded (oj_entries j) = j"
proof -
  let ?j = "journal_loaded (oj_entries j)"
  have "oj_entries ?j = oj_entries j" "index_ok ?j"
    using loaded_index_ok [of journal_new] loaded_entries [of _ journal_new]
    by (simp_all add: journal_loaded_def) (simp add: journal_new_def)
  moreover have "oj_next_sequence ?j = oj_next_sequence j"
    using loaded_next_sequence [OF assms(4)] assms(2) by (simp add: seq_ok_def)
  ultimately show ?thesis
    using index_ok_unique [OF _ assms(1), of ?j] by (intro order_journal.equality) auto
qed


lemma load_from_flush:
  assumes "\<forall>e \<in> set es. entry_ok e" and "length es < 2 ^ 64 - 1" and "length es \<le> max_size"
    and "oj_entries j = es"
  shows "load_from_file max_size stack (Some (flush_to_file j)) j0 = (Load True, journal_loaded es)"
proof -
  have "unat (of_nat (length es) :: u64) = length es"
    using assms(2) by (simp add: unat_of_nat)
  moreover have "stream_read 8 stack (stream (MAGIC @ bs)) = (MAGIC, stream bs)" for bs
    by (simp add: stream_read_def MAGIC_def)
  ultimately show ?thesis
    using load_loop_flush [OF assms(1), of "[]" journal_new] assms(3,4)
    by (simp add: load_from_file_def flush_to_file_def journal_loaded_def)
qed

text \<open>
  Flushing a journal and loading the file, into whatever journal the loader held before, gives
  the same journal back: entries, index and sequence counter. (The reasons are shorter than
  \<open>2 ^ 32\<close> bytes, and the vector may grow to the number of entries.)
\<close>

theorem journal_file_roundtrip:
  fixes evs :: "order_event list"
  defines "j \<equiv> journal_of evs journal_new"
  assumes "\<forall>ev \<in> set evs. listed (ev_from_state ev) \<and> listed (ev_to_state ev)
      \<and> length (ev_reason ev) < 2 ^ 32"
    and "length evs < 2 ^ 64 - 1" and "length evs \<le> max_size"
  shows "load_from_file max_size stack (Some (flush_to_file j)) j0 = (Load True, j)"
proof -
  have inv: "index_ok j" "seq_ok j"
    using journal_of_inv [of journal_new evs] by (simp_all add: j_def)
  have evs: "map je_event (oj_entries j) = evs"
    using journal_of_events [of evs journal_new] by (simp add: j_def journal_new_def)
  then have len: "length (oj_entries j) = length evs"
    by (metis length_map)
  have ok: "\<forall>e \<in> set (oj_entries j). entry_ok e"
    using assms(2) by (auto simp: evs [symmetric] entry_ok_def)
  show ?thesis
    using load_from_flush [OF ok, of max_size j stack j0] load_flush_eq [OF inv ok] assms(3,4) len
    by simp
qed

theorem journal_file_roundtrip_witness:
  "load_from_file 10 [] (Some (flush_to_file (journal_of [order_event_default\<lparr>ev_to_state := Sent,
       ev_reason := ''submit''\<rparr>] journal_new))) journal_new
   = (Load True, journal_of [order_event_default\<lparr>ev_to_state := Sent, ev_reason := ''submit''\<rparr>]
       journal_new)"
  by (rule journal_file_roundtrip) (simp_all add: order_event_default_def)

section \<open>Damaged files\<close>

text \<open>
  A reader that ends with the stream still good has seen a prefix of the file, and gives the same
  answer on every longer file. Sequencing keeps this.
\<close>

definition extend :: "istream \<Rightarrow> bytes \<Rightarrow> istream" where
  "extend s bs = s\<lparr>is_rest := is_rest s @ bs\<rparr>"

definition prefix_reader :: "(istream \<Rightarrow> 'a \<times> istream) \<Rightarrow> bool" where
  "prefix_reader r \<longleftrightarrow> (\<forall>s bs. is_good (snd (r s)) \<longrightarrow>
     is_good s \<and> r (extend s bs) = (fst (r s), extend (snd (r s)) bs))"

lemma prefix_reader_read [intro]: "prefix_reader (stream_read n dst)"
  by (auto simp: prefix_reader_def stream_read_def extend_def)

lemma prefix_reader_return [intro]: "prefix_reader (\<lambda>s. (x, s))"
  by (simp add: prefix_reader_def)

lemma prefix_reader_bind [intro]:
  assumes "prefix_reader r" and "\<And>x. prefix_reader (k x)"
  shows "prefix_reader (\<lambda>s. let (x, s') = r s in k x s')"
  unfolding prefix_reader_def
proof (intro allI impI)
  fix s bs
  assume good: "is_good (snd (let (x, s') = r s in k x s'))"
  obtain x s' where rs: "r s = (x, s')" by force
  have ks: "is_good s'" "k x (extend s' bs) = (fst (k x s'), extend (snd (k x s')) bs)"
    using good rs assms(2) [of x] by (simp_all add: prefix_reader_def)
  moreover have "is_good s" "r (extend s bs) = (x, extend s' bs)"
    using ks(1) rs assms(1) by (simp_all add: prefix_reader_def)
  ultimately show "is_good s \<and> (let (x, s') = r (extend s bs) in k x s')
      = (fst (let (x, s') = r s in k x s'), extend (snd (let (x, s') = r s in k x s')) bs)"
    using rs by simp
qed

lemma prefix_reader_if [intro]:
  "prefix_reader r \<Longrightarrow> prefix_reader r' \<Longrightarrow> prefix_reader (\<lambda>s. if b then r s else r' s)"
  by (cases b) simp_all

lemma prefix_reader_fields [intro]:
  "prefix_reader read_u64" "prefix_reader read_u32" "prefix_reader read_u8"
  unfolding read_u64_def [abs_def] read_u32_def [abs_def] read_u8_def [abs_def]
  by (intro prefix_reader_bind prefix_reader_read prefix_reader_return)+

lemma prefix_reader_entry: "prefix_reader read_entry"
  unfolding read_entry_def [abs_def]
  by (intro prefix_reader_bind prefix_reader_if prefix_reader_read prefix_reader_return
      prefix_reader_fields)

lemma read_cut_entry:
  assumes "entry_ok e" and "m < length (flush_entry e)"
  shows "\<not> is_good (snd (read_entry (stream (take m (flush_entry e)))))"
proof
  let ?s = "stream (take m (flush_entry e))"
  assume "is_good (snd (read_entry ?s))"
  then have "read_entry (extend ?s (drop m (flush_entry e)))
      = (fst (read_entry ?s), extend (snd (read_entry ?s)) (drop m (flush_entry e)))"
    using prefix_reader_entry unfolding prefix_reader_def by blast
  moreover have "read_entry (extend ?s (drop m (flush_entry e))) = (e, stream [])"
    using read_flush_entry [OF assms(1), of "[]"] by (simp add: extend_def)
  ultimately have "extend (snd (read_entry ?s)) (drop m (flush_entry e)) = stream []"
    by simp
  then have "is_rest (extend (snd (read_entry ?s)) (drop m (flush_entry e))) = []"
    by simp
  then show False
    using assms(2) by (simp add: extend_def)
qed

lemma load_loop_cut:
  assumes "\<forall>e \<in> set es. entry_ok e" and "m < length (concat (map flush_entry es))"
  shows "\<exists>k < length es. load_loop (length es) (stream (take m (concat (map flush_entry es)))) j
    = (False, fold load_push (take k es) j)"
  using assms
proof (induction es arbitrary: m j)
  case (Cons e es)
  show ?case
  proof (cases "m < length (flush_entry e)")
    case True
    then have "\<not> is_good (snd (read_entry (stream (take m (flush_entry e)))))"
      using read_cut_entry Cons.prems(1) by simp
    then show ?thesis
      using True by (intro exI [of _ 0]) (simp add: split_beta)
  next
    case False
    then have "m - length (flush_entry e) < length (concat (map flush_entry es))"
      using Cons.prems(2) by simp
    then obtain k where "k < length es"
      "load_loop (length es) (stream (take (m - length (flush_entry e)) (concat (map flush_entry es))))
         (load_push e j) = (False, fold load_push (take k es) (load_push e j))"
      using Cons.IH [of "m - length (flush_entry e)" "load_push e j"] Cons.prems(1) by auto
    then show ?thesis
      using False Cons.prems(1) read_flush_entry [of e]
      by (intro exI [of _ "Suc k"]) (simp add: take_append)
  qed
qed simp

text \<open>
  A journal file that was cut anywhere after its header is refused: the load answers false.
  What the loader then holds is some of the first entries, with a correct index.
\<close>

theorem journal_cut_file_refused:
  assumes "\<forall>e \<in> set (oj_entries j). entry_ok e" and "length (oj_entries j) < 2 ^ 64 - 1"
    and "length (oj_entries j) \<le> max_size"
    and "16 \<le> n" and "n < length (flush_to_file j)"
  shows "\<exists>k < length (oj_entries j).
    load_from_file max_size stack (Some (take n (flush_to_file j))) j0
      = (Load False, journal_loaded (take k (oj_entries j)))"
proof -
  let ?es = "oj_entries j"
  let ?c = "concat (map flush_entry ?es)"
  have len: "length MAGIC = 8"
    by (simp add: MAGIC_def)
  have cnt: "unat (of_nat (length ?es) :: u64) = length ?es"
    using assms(2) by (simp add: unat_of_nat)
  have cut: "take n (flush_to_file j) = MAGIC @ put_u64 (of_nat (length ?es)) @ take (n - 16) ?c"
    using assms(4) by (simp add: flush_to_file_def take_append len)
  have magic: "stream_read 8 stack (stream (MAGIC @ bs)) = (MAGIC, stream bs)" for bs
    by (simp add: stream_read_def len)
  have "n - 16 < length ?c"
    using assms(4,5) by (simp add: flush_to_file_def len)
  then obtain k where "k < length ?es" "load_loop (length ?es) (stream (take (n - 16) ?c)) journal_new
      = (False, fold load_push (take k ?es) journal_new)"
    using load_loop_cut [OF assms(1)] by blast
  then show ?thesis
    using assms(3) by (intro exI [of _ k])
      (simp add: cut load_from_file_def magic cnt journal_loaded_def)
qed

theorem journal_cut_file_refused_witness:
  "\<exists>k < 1. load_from_file 10 [] (Some (take 20 (flush_to_file (snd (journal_append
       order_event_default journal_new))))) journal_new
     = (Load False, journal_loaded (take k (oj_entries (snd (journal_append
         order_event_default journal_new)))))"
  using journal_cut_file_refused
    [of "snd (journal_append order_event_default journal_new)" 10 20 "[]" journal_new]
  by (simp add: journal_append_def journal_new_def Let_def order_event_default_def entry_ok_def
      flush_to_file_def flush_entry_def MAGIC_def)

text \<open>
  A file cut inside its header is not refused: a file that holds only the magic is loaded
  with the answer true, and every entry the journal held is gone. The count is read without looking
  at the state of the stream afterwards.
\<close>

theorem journal_header_cut_accepted:
  "load_from_file max_size stack (Some MAGIC) j = (Load True, journal_new)"
  by (simp add: load_from_file_def stream_read_def read_u64_def MAGIC_def)

end
