(* ===== verification/Strategy_Types.thy ===== *)
theory Strategy_Types
  imports Common_Types
begin

text \<open>
  The decision a strategy hands to the order management system
  (\<open>include/qf/strategy/strategy_types.hpp\<close>).
\<close>

datatype decision_type = Decision_Market | Decision_Limit

datatype urgency = Low | Medium | High

record decision =
  dec_symbol :: symbol
  dec_side :: side
  dec_quantity :: quantity
  dec_order_type :: decision_type
  dec_limit_price :: price
  dec_urgency :: urgency

end
