(* ===== verification/Order_Manager.thy ===== *)
theory Order_Manager
  imports Order_Journal Strategy_Types
begin

text \<open>
  The order lifecycle manager (\<open>oms/order_manager.{hpp,cpp}\<close>): the orders by id, the state machine
  whose callback appends to the journal, and the id counter. Each call of \<open>Clock::now_ns\<close> in an
  operation is an argument of its definition, in the order of the calls.
\<close>

section \<open>State and operations\<close>

record om_result =
  omr_success :: bool
  omr_order_id :: order_id
  omr_error :: string

record order_manager =
  omg_orders :: "order_id \<rightharpoonup> oms_order"
  omg_journal :: order_journal
  omg_next_id :: order_id

definition order_manager_new :: order_manager where
  "order_manager_new =
     \<lparr>omg_orders = Map.empty, omg_journal = journal_new, omg_next_id = 1\<rparr>"

definition journal_callback :: "order_event \<Rightarrow> order_journal \<Rightarrow> order_journal" where
  "journal_callback event j = snd (journal_append event j)"

text \<open>The order is a reference into \<open>orders_\<close>: the changed order is stored back under its key.\<close>

definition apply_transition ::
  "timestamp \<Rightarrow> order_id \<Rightarrow> oms_order \<Rightarrow> order_state \<Rightarrow> string \<Rightarrow> order_manager
     \<Rightarrow> om_result \<times> order_manager" where
  "apply_transition now k ord target reason om =
     (let (tr, ord', j') = transition (Some journal_callback) now ord target reason (omg_journal om)
      in (if tr_success tr
          then \<lparr>omr_success = True, omr_order_id = om_order_id ord', omr_error = []\<rparr>
          else \<lparr>omr_success = False, omr_order_id = om_order_id ord', omr_error = tr_error tr\<rparr>,
          om\<lparr>omg_orders := (omg_orders om)(k \<mapsto> ord'), omg_journal := j'\<rparr>))"

fun cast_order_type :: "decision_type \<Rightarrow> order_type" where
  "cast_order_type Decision_Market = Market"
| "cast_order_type Decision_Limit = Limit"

definition order_of_decision :: "order_id \<Rightarrow> decision \<Rightarrow> timestamp \<Rightarrow> oms_order" where
  "order_of_decision k d created =
     \<lparr>om_order_id = k, om_symbol = dec_symbol d, om_side = dec_side d,
      om_type = cast_order_type (dec_order_type d), om_price = dec_limit_price d,
      om_quantity = dec_quantity d, om_filled_quantity = 0, om_state = New,
      om_created = created, om_sent = 0, om_acked = 0, om_last_fill = 0\<rparr>"

definition omg_find :: "order_manager \<Rightarrow> order_id \<Rightarrow> oms_order option" where
  "omg_find om k = omg_orders om k"

definition om_set :: "order_id \<Rightarrow> (oms_order \<Rightarrow> oms_order) \<Rightarrow> order_manager \<Rightarrow> order_manager" where
  "om_set k f om = om\<lparr>omg_orders := (omg_orders om)(k := map_option f (omg_orders om k))\<rparr>"

definition not_found :: "order_id \<Rightarrow> om_result" where
  "not_found k = \<lparr>omr_success = False, omr_order_id = k, omr_error = ''Order not found''\<rparr>"

definition om_submit ::
  "timestamp \<Rightarrow> timestamp \<Rightarrow> timestamp \<Rightarrow> decision \<Rightarrow> order_manager \<Rightarrow> om_result \<times> order_manager" where
  "om_submit t_created t_event t_sent d om =
     (if dec_quantity d = 0
      then (\<lparr>omr_success = False, omr_order_id = 0, omr_error = ''Decision has zero quantity''\<rparr>, om)
      else
        let k = omg_next_id om;
            ord = order_of_decision k d t_created;
            om = om\<lparr>omg_next_id := k + 1, omg_orders := (omg_orders om)(k \<mapsto> ord)\<rparr>;
            (tr, om) = apply_transition t_event k ord Sent ''submit'' om
        in if \<not> omr_success tr
           then (tr, om\<lparr>omg_orders := (omg_orders om)(k := None)\<rparr>)
           else (\<lparr>omr_success = True, omr_order_id = k, omr_error = []\<rparr>,
                 om_set k (\<lambda>ord. ord\<lparr>om_sent := t_sent\<rparr>) om))"

definition om_on_ack ::
  "timestamp \<Rightarrow> timestamp \<Rightarrow> order_id \<Rightarrow> order_manager \<Rightarrow> om_result \<times> order_manager" where
  "om_on_ack t_event t_acked k om =
     (case omg_find om k of
        None \<Rightarrow> (not_found k, om)
      | Some ord \<Rightarrow>
          let (result, om) = apply_transition t_event k ord Acked ''ack'' om
          in (result, if omr_success result then om_set k (\<lambda>ord. ord\<lparr>om_acked := t_acked\<rparr>) om
                      else om))"

definition om_on_fill ::
  "timestamp \<Rightarrow> timestamp \<Rightarrow> fill_report \<Rightarrow> order_manager \<Rightarrow> om_result \<times> order_manager" where
  "om_on_fill t_fill t_event report om =
     (case omg_find om (fr_order_id report) of
        None \<Rightarrow> (not_found (fr_order_id report), om)
      | Some ord \<Rightarrow>
          let ord = ord\<lparr>om_filled_quantity := om_filled_quantity ord + fr_fill_quantity report,
                om_last_fill := (if fr_timestamp report \<noteq> 0 then fr_timestamp report else t_fill)\<rparr>;
              target = (if om_filled_quantity ord \<ge> om_quantity ord then Filled else PartialFill)
          in apply_transition t_event (fr_order_id report) ord target ''fill'' om)"

definition om_cancel :: "timestamp \<Rightarrow> order_id \<Rightarrow> order_manager \<Rightarrow> om_result \<times> order_manager" where
  "om_cancel t_event k om =
     (case omg_find om k of
        None \<Rightarrow> (not_found k, om)
      | Some ord \<Rightarrow> apply_transition t_event k ord Cancelled ''cancel'' om)"

definition om_on_reject ::
  "timestamp \<Rightarrow> order_id \<Rightarrow> string \<Rightarrow> order_manager \<Rightarrow> om_result \<times> order_manager" where
  "om_on_reject t_event k reason om =
     (case omg_find om k of
        None \<Rightarrow> (not_found k, om)
      | Some ord \<Rightarrow> apply_transition t_event k ord Rejected reason om)"

definition get_order :: "order_manager \<Rightarrow> order_id \<Rightarrow> oms_order option" where
  "get_order om k = omg_orders om k"

definition order_count :: "order_manager \<Rightarrow> nat" where
  "order_count om = card (dom (omg_orders om))"

text \<open>A client of the manager issues a sequence of requests.\<close>

datatype om_request =
    Submit timestamp timestamp timestamp decision
  | Ack timestamp timestamp order_id
  | Fill timestamp timestamp fill_report
  | Cancel timestamp order_id
  | Reject timestamp order_id string

fun om_step :: "order_manager \<Rightarrow> om_request \<Rightarrow> om_result \<times> order_manager" where
  "om_step om (Submit t t' t'' d) = om_submit t t' t'' d om"
| "om_step om (Ack t t' k) = om_on_ack t t' k om"
| "om_step om (Fill t t' report) = om_on_fill t t' report om"
| "om_step om (Cancel t k) = om_cancel t k om"
| "om_step om (Reject t k reason) = om_on_reject t k reason om"

section \<open>The effect of a transition\<close>

definition lifecycle_event :: "oms_order \<Rightarrow> order_state \<Rightarrow> timestamp \<Rightarrow> string \<Rightarrow> order_event" where
  "lifecycle_event ord target now reason =
     \<lparr>ev_order_id = om_order_id ord, ev_from_state = om_state ord, ev_to_state = target,
      ev_timestamp = now, ev_reason = reason\<rparr>"

lemma apply_transition_edge:
  assumes "listed (om_state ord)" and "listed target" and "lifecycle_edge (om_state ord) target"
  shows "apply_transition now k ord target reason om =
    (\<lparr>omr_success = True, omr_order_id = om_order_id ord, omr_error = []\<rparr>,
     om\<lparr>omg_orders := (omg_orders om)(k \<mapsto> ord\<lparr>om_state := target\<rparr>),
        omg_journal := snd (journal_append (lifecycle_event ord target now reason) (omg_journal om))\<rparr>)"
  using assms
  by (simp add: apply_transition_def transition_def is_valid_listed Let_def journal_callback_def
      lifecycle_event_def)

lemma apply_transition_refused:
  assumes "listed (om_state ord)" and "listed target" and "\<not> lifecycle_edge (om_state ord) target"
  shows "\<exists>err. apply_transition now k ord target reason om =
    (\<lparr>omr_success = False, omr_order_id = om_order_id ord, omr_error = err\<rparr>,
     om\<lparr>omg_orders := (omg_orders om)(k \<mapsto> ord)\<rparr>)"
  using assms by (simp add: apply_transition_def transition_def is_valid_listed Let_def)

section \<open>The audit invariant\<close>

definition om_events :: "order_manager \<Rightarrow> order_id \<Rightarrow> order_event list" where
  "om_events om k = filter (\<lambda>ev. ev_order_id ev = k) (map je_event (oj_entries (omg_journal om)))"

text \<open>The events of one order lead from a state, along edges of the state machine, to another.\<close>

fun event_chain :: "order_state \<Rightarrow> order_event list \<Rightarrow> order_state \<Rightarrow> bool" where
  "event_chain s [] t = (s = t)"
| "event_chain s (ev # evs) t =
     (ev_from_state ev = s \<and> lifecycle_edge s (ev_to_state ev) \<and> event_chain (ev_to_state ev) evs t)"

lemma event_chain_snoc:
  "event_chain s (evs @ [ev]) t \<longleftrightarrow> (\<exists>u. event_chain s evs u \<and> event_chain u [ev] t)"
  by (induction evs arbitrary: s) auto

definition om_inv :: "order_manager \<Rightarrow> bool" where
  "om_inv om \<longleftrightarrow> index_ok (omg_journal om)
     \<and> (\<forall>k. case omg_orders om k of
          None \<Rightarrow> om_events om k = []
        | Some ord \<Rightarrow> om_order_id ord = k \<and> k < omg_next_id om \<and> listed (om_state ord)
            \<and> event_chain New (om_events om k) (om_state ord))"

lemma om_invI:
  assumes "index_ok (omg_journal om)"
    and "\<And>k. omg_orders om k = None \<Longrightarrow> om_events om k = []"
    and "\<And>k ord. omg_orders om k = Some ord \<Longrightarrow> om_order_id ord = k \<and> k < omg_next_id om
      \<and> listed (om_state ord) \<and> event_chain New (om_events om k) (om_state ord)"
  shows "om_inv om"
  using assms by (simp add: om_inv_def split: option.splits)

lemma om_inv_index: "om_inv om \<Longrightarrow> index_ok (omg_journal om)"
  by (simp add: om_inv_def)

lemma om_inv_orderD:
  assumes "om_inv om" and "omg_orders om k = Some ord"
  shows "om_order_id ord = k" "k < omg_next_id om" "listed (om_state ord)"
    "event_chain New (om_events om k) (om_state ord)"
  using assms by (auto simp: om_inv_def dest: spec [of _ k])

lemma om_inv_none: "om_inv om \<Longrightarrow> omg_orders om k = None \<Longrightarrow> om_events om k = []"
  by (auto simp: om_inv_def dest: spec [of _ k])

lemma om_inv_new: "om_inv order_manager_new"
  by (simp add: om_inv_def order_manager_new_def om_events_def journal_new_def)
    (simp add: journal_new_def [symmetric])

lemma om_events_append:
  "om_events (om\<lparr>omg_orders := os, omg_journal := snd (journal_append ev (omg_journal om))\<rparr>) k
   = om_events om k @ (if ev_order_id ev = k then [ev] else [])"
  by (simp add: om_events_def journal_append_def Let_def)

lemma om_events_cong: "omg_journal om = omg_journal om' \<Longrightarrow> om_events om k = om_events om' k"
  by (simp add: om_events_def)

lemma om_inv_update:
  assumes "om_inv om" and "omg_orders om k = Some ord"
    and "om_order_id ord' = k" and "om_state ord' = om_state ord"
  shows "om_inv (om\<lparr>omg_orders := (omg_orders om)(k \<mapsto> ord')\<rparr>)"
proof -
  have "om_events (om\<lparr>omg_orders := os\<rparr>) j = om_events om j" for os j
    by (rule om_events_cong) simp
  then show ?thesis
    using assms om_inv_orderD [OF assms(1)] om_inv_none [OF assms(1)] om_inv_index [OF assms(1)]
    by (intro om_invI) (auto split: if_splits)
qed

lemma om_inv_event:
  assumes inv: "om_inv om" "omg_orders om k = Some ord"
    and ord': "om_order_id ord' = k" "om_state ord' = om_state ord"
    and edge: "lifecycle_edge (om_state ord) target"
  shows "om_inv (om\<lparr>omg_orders := (omg_orders om)(k \<mapsto> ord'\<lparr>om_state := target\<rparr>),
     omg_journal := snd (journal_append (lifecycle_event ord' target now reason) (omg_journal om))\<rparr>)"
proof -
  have "index_ok (snd (journal_append (lifecycle_event ord' target now reason) (omg_journal om)))"
    using om_inv_index [OF inv(1)] by (rule index_ok_append)
  moreover have "event_chain New (om_events om k @ [lifecycle_event ord' target now reason]) target"
    using om_inv_orderD(4) [OF inv] edge ord'
    by (auto simp: event_chain_snoc lifecycle_event_def)
  moreover have "listed target"
    using lifecycle_edge_listed [OF edge] by simp
  ultimately show ?thesis
    using inv ord' om_inv_orderD [OF inv(1)] om_inv_none [OF inv(1)]
    by (intro om_invI) (auto simp: om_events_append lifecycle_event_def split: if_splits)
qed

lemma om_inv_apply:
  assumes "om_inv om" and "omg_orders om k = Some ord"
    and "om_order_id ord' = k" and "om_state ord' = om_state ord" and "listed target"
  shows "om_inv (snd (apply_transition now k ord' target reason om))"
proof (cases "lifecycle_edge (om_state ord') target")
  case True
  then show ?thesis
    using apply_transition_edge [of ord' target now k reason om] om_inv_event [OF assms(1-4), of target]
      om_inv_orderD(3) [OF assms(1,2)] assms(4,5) by simp
next
  case False
  then obtain err where "apply_transition now k ord' target reason om =
    (\<lparr>omr_success = False, omr_order_id = om_order_id ord', omr_error = err\<rparr>,
     om\<lparr>omg_orders := (omg_orders om)(k \<mapsto> ord')\<rparr>)"
    using apply_transition_refused [of ord' target now k reason om]
      om_inv_orderD(3) [OF assms(1,2)] assms(4,5) by auto
  then show ?thesis
    using om_inv_update [OF assms(1-4)] by simp
qed

lemma om_inv_set:
  assumes "om_inv om" and "\<And>ord. om_order_id (f ord) = om_order_id ord \<and> om_state (f ord) = om_state ord"
  shows "om_inv (om_set k f om)"
proof (cases "omg_orders om k")
  case None
  then have "om_set k f om = om"
    by (simp add: om_set_def fun_upd_idem)
  then show ?thesis
    using assms(1) by simp
next
  case (Some ord)
  then show ?thesis
    using om_inv_update [OF assms(1) Some, of "f ord"] om_inv_orderD(1) [OF assms(1) Some] assms(2)
    by (simp add: om_set_def)
qed

lemma om_inv_insert:
  assumes "om_inv om" and "unat (omg_next_id om) < 2 ^ 64 - 1" and "dec_quantity d \<noteq> 0"
  shows "om_inv (om\<lparr>omg_next_id := omg_next_id om + 1,
    omg_orders := (omg_orders om)(omg_next_id om \<mapsto> order_of_decision (omg_next_id om) d t)\<rparr>)"
proof -
  have next_id: "unat (omg_next_id om + 1) = unat (omg_next_id om) + 1"
    using assms(2) by (subst unat_plus_small) simp_all
  have fresh: "omg_orders om (omg_next_id om) = None"
    using om_inv_orderD(2) [OF assms(1), of "omg_next_id om"] by fastforce
  have lt: "k < omg_next_id om \<Longrightarrow> k < omg_next_id om + 1" for k
    using next_id by (simp add: word_less_nat_alt)
  moreover have "omg_next_id om < omg_next_id om + 1"
    using next_id by (simp add: word_less_nat_alt)
  moreover have "om_events (om\<lparr>omg_next_id := i, omg_orders := os\<rparr>) k = om_events om k" for os i k
    by (rule om_events_cong) simp
  ultimately show ?thesis
    using fresh om_inv_orderD [OF assms(1)] om_inv_none [OF assms(1)] om_inv_index [OF assms(1)]
    by (intro om_invI) (auto simp: order_of_decision_def split: if_splits)
qed

lemma om_inv_submit [inv_rules]:
  assumes "om_inv om" and "unat (omg_next_id om) < 2 ^ 64 - 1"
  shows "om_inv (snd (om_submit t t' t'' d om))"
proof (cases "dec_quantity d = 0")
  case False
  let ?k = "omg_next_id om"
  let ?ord = "order_of_decision ?k d t"
  let ?om = "om\<lparr>omg_next_id := ?k + 1, omg_orders := (omg_orders om)(?k \<mapsto> ?ord)\<rparr>"
  have "om_inv (snd (apply_transition t' ?k ?ord Sent ''submit'' ?om))"
    by (rule om_inv_apply [OF om_inv_insert [OF assms False], where ord = ?ord])
      (simp_all add: order_of_decision_def)
  moreover have "omr_success (fst (apply_transition t' ?k ?ord Sent ''submit'' ?om))"
    by (subst apply_transition_edge) (simp_all add: order_of_decision_def)
  ultimately show ?thesis
    using False by (simp add: om_submit_def Let_def split_beta om_inv_set)
qed (use assms in \<open>simp add: om_submit_def\<close>)

lemma om_inv_on_ack [inv_rules]: "om_inv om \<Longrightarrow> om_inv (snd (om_on_ack t t' k om))"
  by (auto simp: om_on_ack_def omg_find_def Let_def split_beta om_inv_orderD om_inv_apply
      intro!: om_inv_set split: option.splits)

lemma om_inv_on_fill [inv_rules]: "om_inv om \<Longrightarrow> om_inv (snd (om_on_fill t t' report om))"
  by (auto simp: om_on_fill_def omg_find_def Let_def om_inv_orderD om_inv_apply split: option.splits)

lemma om_inv_cancel [inv_rules]: "om_inv om \<Longrightarrow> om_inv (snd (om_cancel t k om))"
  by (auto simp: om_cancel_def omg_find_def om_inv_orderD om_inv_apply split: option.splits)

lemma om_inv_on_reject [inv_rules]: "om_inv om \<Longrightarrow> om_inv (snd (om_on_reject t k reason om))"
  by (auto simp: om_on_reject_def omg_find_def om_inv_orderD om_inv_apply split: option.splits)

lemma om_inv_step [inv_rules]:
  "om_inv om \<Longrightarrow> unat (omg_next_id om) < 2 ^ 64 - 1 \<Longrightarrow> om_inv (snd (om_step om req))"
  by (cases req) (auto intro: inv_rules)

lemma apply_transition_next_id [simp]:
  "omg_next_id (snd (apply_transition now k ord target reason om)) = omg_next_id om"
  by (simp add: apply_transition_def split_beta Let_def)

lemma om_set_next_id [simp]: "omg_next_id (om_set k f om) = omg_next_id om"
  by (simp add: om_set_def)

lemma om_step_next_id:
  "omg_next_id (snd (om_step om req)) = omg_next_id om
   \<or> omg_next_id (snd (om_step om req)) = omg_next_id om + 1"
  by (cases req) (auto simp: om_submit_def om_on_ack_def om_on_fill_def om_cancel_def om_on_reject_def
      Let_def split_beta split: option.splits)

lemma om_step_next_id_le:
  assumes "unat (omg_next_id om) + 1 < 2 ^ 64"
  shows "unat (omg_next_id (snd (om_step om req))) \<le> unat (omg_next_id om) + 1"
    "unat (omg_next_id om) \<le> unat (omg_next_id (snd (om_step om req)))"
proof -
  have "unat (omg_next_id om + 1) = unat (omg_next_id om) + 1"
    using assms by (subst unat_plus_small) simp_all
  then show "unat (omg_next_id (snd (om_step om req))) \<le> unat (omg_next_id om) + 1"
    "unat (omg_next_id om) \<le> unat (omg_next_id (snd (om_step om req)))"
    using om_step_next_id [of om req] by auto
qed

lemma om_run_inv:
  assumes "om_inv om" and "unat (omg_next_id om) + length reqs < 2 ^ 64"
  shows "om_inv (snd (run om_step om reqs))"
  using assms
proof (induction reqs arbitrary: om)
  case (Cons req reqs)
  have "om_inv (snd (om_step om req))"
    using Cons.prems by (auto intro: om_inv_step)
  moreover have "unat (omg_next_id (snd (om_step om req))) + length reqs < 2 ^ 64"
    using om_step_next_id_le(1) [of om req] Cons.prems(2) by simp
  ultimately show ?case
    using Cons.IH by (simp add: Let_def split_beta)
qed simp

section \<open>Properties\<close>

text \<open>
  C18. The journal is a complete audit of the orders. After any sequence of requests, whatever their
  order and whether they were answered or refused, the history of every order the manager knows is
  a path of the state machine from \<open>New\<close> to exactly the state the order is in, and there is no
  history of an id that was never given out.
\<close>

theorem journal_audits_orders:
  assumes "length reqs < 2 ^ 64 - 1"
  shows "\<exists>h. get_history (omg_journal (snd (run om_step order_manager_new reqs))) k = Some h \<and>
    (case get_order (snd (run om_step order_manager_new reqs)) k of
       None \<Rightarrow> h = []
     | Some ord \<Rightarrow> om_order_id ord = k \<and> event_chain New (map je_event h) (om_state ord))"
proof -
  let ?om = "snd (run om_step order_manager_new reqs)"
  have inv: "om_inv ?om"
    using om_run_inv [OF om_inv_new, of reqs] assms by (simp add: order_manager_new_def)
  have ev: "map je_event (filter (\<lambda>e. entry_order e = k) (oj_entries (omg_journal ?om)))
      = om_events ?om k"
    by (simp add: om_events_def filter_map comp_def)
  show ?thesis
    using get_history_exact [OF om_inv_index [OF inv], of k] ev
      om_inv_none [OF inv, of k] om_inv_orderD [OF inv, of k]
    by (cases "omg_orders ?om k") (auto simp: get_order_def)
qed

definition sample_decision :: decision where
  "sample_decision = \<lparr>dec_symbol = symbol_default, dec_side = Side_Buy, dec_quantity = 10,
     dec_order_type = Decision_Limit, dec_limit_price = 100, dec_urgency = Low\<rparr>"

theorem journal_audits_orders_witness:
  "\<exists>h. get_history (omg_journal (snd (run om_step order_manager_new
        [Submit 1 2 3 sample_decision, Ack 4 5 1, Cancel 6 1]))) 1 = Some h \<and>
    (case get_order (snd (run om_step order_manager_new
        [Submit 1 2 3 sample_decision, Ack 4 5 1, Cancel 6 1])) 1 of
       None \<Rightarrow> h = []
     | Some ord \<Rightarrow> om_order_id ord = 1 \<and> event_chain New (map je_event h) (om_state ord))"
  by (rule journal_audits_orders) simp

text \<open>
  What one request does to one order that exists: nothing when it is about another order, and
  otherwise its state moves along an edge or stays.
\<close>

definition req_about :: "order_id \<Rightarrow> om_request \<Rightarrow> bool" where
  "req_about k req = (case req of
       Submit _ _ _ _ \<Rightarrow> False
     | Ack _ _ k' \<Rightarrow> k' = k
     | Fill _ _ report \<Rightarrow> fr_order_id report = k
     | Cancel _ k' \<Rightarrow> k' = k
     | Reject _ k' _ \<Rightarrow> k' = k)"

lemma apply_transition_other:
  "j \<noteq> k \<Longrightarrow> omg_orders (snd (apply_transition now k ord target reason om)) j = omg_orders om j"
  by (simp add: apply_transition_def split_beta Let_def)

lemma om_set_other: "j \<noteq> k \<Longrightarrow> omg_orders (om_set k f om) j = omg_orders om j"
  by (simp add: om_set_def)

lemma om_step_other:
  assumes "om_inv om" and "omg_orders om k = Some ord" and "\<not> req_about k req"
  shows "omg_orders (snd (om_step om req)) k = Some ord"
proof -
  have "k \<noteq> omg_next_id om"
    using om_inv_orderD(2) [OF assms(1,2)] by auto
  then show ?thesis
    using assms(2,3) by (cases req) (auto simp: om_submit_def om_on_ack_def om_on_fill_def
      om_cancel_def om_on_reject_def omg_find_def req_about_def apply_transition_other om_set_other
      Let_def split_beta split: option.splits)
qed

lemma apply_transition_same:
  "\<exists>ord'. omg_orders (snd (apply_transition now k ord target reason om)) k = Some ord'
     \<and> (ord' = ord \<or> is_valid (om_state ord) target \<and> ord' = ord\<lparr>om_state := target\<rparr>)"
  by (simp add: apply_transition_def transition_def Let_def)

text \<open>The fields that no request changes.\<close>

definition same_terms :: "oms_order \<Rightarrow> oms_order \<Rightarrow> bool" where
  "same_terms a b \<longleftrightarrow> om_order_id a = om_order_id b \<and> om_symbol a = om_symbol b
     \<and> om_side a = om_side b \<and> om_type a = om_type b \<and> om_price a = om_price b
     \<and> om_quantity a = om_quantity b \<and> om_created a = om_created b"

lemma om_step_order:
  assumes "om_inv om" and "omg_orders om k = Some ord"
  shows "\<exists>ord'. omg_orders (snd (om_step om req)) k = Some ord' \<and> same_terms ord ord'
    \<and> (om_state ord' = om_state ord \<or> is_valid (om_state ord) (om_state ord'))"
proof (cases "req_about k req")
  case False
  then show ?thesis
    using om_step_other [OF assms] by (simp add: same_terms_def)
next
  case True
  note same = apply_transition_same [of _ k]
  show ?thesis
  proof (cases req)
    case (Ack t t' k')
    with True assms(2) same [of t ord Acked "''ack''" om] show ?thesis
      by (auto simp: req_about_def om_on_ack_def omg_find_def Let_def split_beta om_set_def same_terms_def)
  next
    case (Fill t t' report)
    with True assms(2) same [of t'] show ?thesis
      by (auto simp: req_about_def om_on_fill_def omg_find_def Let_def same_terms_def
          apply_transition_def transition_def)
  next
    case (Cancel t k')
    with True assms(2) same [of t ord Cancelled "''cancel''" om] show ?thesis
      by (auto simp: req_about_def om_cancel_def omg_find_def same_terms_def)
  next
    case (Reject t k' reason)
    with True assms(2) same [of t ord Rejected reason om] show ?thesis
      by (auto simp: req_about_def om_on_reject_def omg_find_def same_terms_def)
  qed (use True in \<open>simp add: req_about_def\<close>)
qed

lemma same_terms_trans: "same_terms a b \<Longrightarrow> same_terms b c \<Longrightarrow> same_terms a c"
  by (simp add: same_terms_def)

lemma om_run_terminal:
  assumes "om_inv om" and "unat (omg_next_id om) + length reqs < 2 ^ 64"
    and "omg_orders om k = Some ord" and "is_terminal ord"
  shows "\<exists>ord'. omg_orders (snd (run om_step om reqs)) k = Some ord' \<and> same_terms ord ord'
    \<and> om_state ord' = om_state ord"
  using assms
proof (induction reqs arbitrary: om ord)
  case (Cons req reqs)
  obtain ord' where ord': "omg_orders (snd (om_step om req)) k = Some ord'" "same_terms ord ord'"
    "om_state ord' = om_state ord \<or> is_valid (om_state ord) (om_state ord')"
    using om_step_order [OF Cons.prems(1,3)] by blast
  have inv: "om_inv (snd (om_step om req))"
    "unat (omg_next_id (snd (om_step om req))) + length reqs < 2 ^ 64"
    using Cons.prems om_step_next_id_le(1) [of om req] by (auto intro: om_inv_step)
  have "om_state ord' = om_state ord"
    using ord'(3) terminal_no_edge is_valid_listed Cons.prems(4)
      om_inv_orderD(3) [OF Cons.prems(1,3)] om_inv_orderD(3) [OF inv(1) ord'(1)]
    by (auto simp: is_terminal_def)
  then show ?case
    using Cons.IH [OF inv ord'(1)] ord'(2) Cons.prems(4) same_terms_trans
    by (auto simp: Let_def split_beta is_terminal_def)
qed (simp add: same_terms_def)

lemma om_run_next_id:
  "unat (omg_next_id om) + length rs < 2 ^ 64 \<Longrightarrow>
     unat (omg_next_id (snd (run om_step om rs))) \<le> unat (omg_next_id om) + length rs"
proof (induction rs arbitrary: om)
  case (Cons r rs)
  then have "unat (omg_next_id (snd (om_step om r))) \<le> unat (omg_next_id om) + 1"
    using om_step_next_id_le(1) by simp
  then show ?case
    using Cons.IH [of "snd (om_step om r)"] Cons.prems by (simp add: Let_def split_beta)
qed simp

lemma run_append: "snd (run step s (xs @ ys)) = snd (run step (snd (run step s xs)) ys)"
  by (induction xs arbitrary: s) (auto simp: Let_def split_beta)

text \<open>
  Terminal states are final: an order that is filled, cancelled or rejected stays in that state,
  with the same symbol, side, type, price and quantity, whatever requests follow.
\<close>

theorem terminal_orders_final:
  assumes "length reqs + length later < 2 ^ 64 - 1"
    and "get_order (snd (run om_step order_manager_new reqs)) k = Some ord" and "is_terminal ord"
  shows "\<exists>ord'. get_order (snd (run om_step order_manager_new (reqs @ later))) k = Some ord'
    \<and> same_terms ord ord' \<and> om_state ord' = om_state ord"
proof -
  let ?om = "snd (run om_step order_manager_new reqs)"
  have "unat (omg_next_id ?om) + length later < 2 ^ 64"
    using assms(1) om_run_next_id [of order_manager_new reqs] by (simp add: order_manager_new_def)
  moreover have "om_inv ?om"
    using om_run_inv [OF om_inv_new, of reqs] assms(1) by (simp add: order_manager_new_def)
  ultimately show ?thesis
    using om_run_terminal [of ?om later k ord] assms(2,3) by (simp add: get_order_def run_append)
qed


theorem terminal_orders_final_witness:
  "\<exists>ord ord'. get_order (snd (run om_step order_manager_new
       [Submit 1 2 3 sample_decision, Reject 4 1 ''no''])) 1 = Some ord \<and> is_terminal ord
     \<and> get_order (snd (run om_step order_manager_new
       ([Submit 1 2 3 sample_decision, Reject 4 1 ''no''] @ [Ack 5 6 1, Cancel 7 1]))) 1 = Some ord'
     \<and> same_terms ord ord' \<and> om_state ord' = om_state ord"
proof -
  let ?reqs = "[Submit 1 2 3 sample_decision, Reject 4 1 ''no'']"
  obtain ord where ord: "get_order (snd (run om_step order_manager_new ?reqs)) 1 = Some ord"
    "is_terminal ord"
    by (simp add: om_submit_def om_on_reject_def order_manager_new_def sample_decision_def Let_def
        split_beta apply_transition_edge order_of_decision_def om_set_def omg_find_def get_order_def
        is_terminal_def is_terminal_state_def)
  then show ?thesis
    using terminal_orders_final [of ?reqs "[Ack 5 6 1, Cancel 7 1]" 1 ord] by auto
qed

section \<open>Fills\<close>

definition fill_total :: "order_id \<Rightarrow> om_request list \<Rightarrow> nat" where
  "fill_total k reqs = (\<Sum>req \<leftarrow> reqs. case req of
     Fill _ _ report \<Rightarrow> if fr_order_id report = k then unat (fr_fill_quantity report) else 0
   | _ \<Rightarrow> 0)"

text \<open>Of the requests about the order, all are fills of a positive quantity.\<close>

fun only_fills :: "order_id \<Rightarrow> om_request \<Rightarrow> bool" where
  "only_fills k (Fill t t' report) = (fr_order_id report = k \<longrightarrow> fr_fill_quantity report \<noteq> 0)"
| "only_fills k req = (\<not> req_about k req)"

definition fill_state :: "quantity \<Rightarrow> quantity \<Rightarrow> order_state" where
  "fill_state q f = (if f = 0 then Acked else if f = q then Filled else PartialFill)"

lemma om_fill_step:
  assumes "om_inv om" and "omg_orders om k = Some ord"
    and "om_quantity ord = q" and "om_state ord = fill_state q (om_filled_quantity ord)"
    and "only_fills k req"
    and "unat (om_filled_quantity ord) + fill_total k [req] \<le> unat q"
  shows "\<exists>ord'. omg_orders (snd (om_step om req)) k = Some ord' \<and> om_quantity ord' = q
    \<and> om_state ord' = fill_state q (om_filled_quantity ord')
    \<and> unat (om_filled_quantity ord') = unat (om_filled_quantity ord) + fill_total k [req]"
proof (cases "req_about k req")
  case False
  then have "fill_total k [req] = 0"
    by (cases req) (auto simp: fill_total_def req_about_def)
  then show ?thesis
    using om_step_other [OF assms(1,2) False] assms(3,4) by simp
next
  case True
  then obtain t t' report where req: "req = Fill t t' report" "fr_order_id report = k"
    "fr_fill_quantity report \<noteq> 0"
    using assms(5) by (cases req) (auto simp: req_about_def)
  let ?f = "om_filled_quantity ord" and ?n = "fr_fill_quantity report"
  have le: "unat ?f + unat ?n \<le> unat q"
    using assms(6) req by (simp add: fill_total_def)
  have sum: "unat (?f + ?n) = unat ?f + unat ?n"
    by (intro unat_plus_small order.strict_trans1 [OF le]) simp
  have n: "0 < unat ?n"
    using req(3) by (simp add: unat_gt_0)
  then have f: "?f + ?n \<noteq> 0" "?f \<noteq> q"
    using sum le by (metis add_gr_0 less_irrefl unat_0, auto)
  have ge: "q \<le> ?f + ?n \<longleftrightarrow> ?f + ?n = q"
    using sum le by (auto simp: word_le_nat_alt word_unat_eq_iff)
  let ?ord = "ord\<lparr>om_filled_quantity := ?f + ?n,
      om_last_fill := (if fr_timestamp report \<noteq> 0 then fr_timestamp report else t)\<rparr>"
  have "om_state ord = Acked \<or> om_state ord = PartialFill"
    using assms(4) f(2) by (simp add: fill_state_def)
  then have "snd (om_step om req) = om\<lparr>omg_orders := (omg_orders om)(k \<mapsto> ?ord\<lparr>om_state :=
        (if ?f + ?n = q then Filled else PartialFill)\<rparr>),
      omg_journal := snd (journal_append (lifecycle_event ?ord
        (if ?f + ?n = q then Filled else PartialFill) t' ''fill'') (omg_journal om))\<rparr>"
    using req(1,2) assms(2,3) ge
    by (auto simp: om_on_fill_def omg_find_def Let_def apply_transition_edge)
  then show ?thesis
    using req assms(3) sum f(1) by (simp add: fill_state_def fill_total_def)
qed

lemma om_fill_run:
  assumes "om_inv om" and "unat (omg_next_id om) + length reqs < 2 ^ 64"
    and "omg_orders om k = Some ord" and "om_quantity ord = q"
    and "om_state ord = fill_state q (om_filled_quantity ord)"
    and "list_all (only_fills k) reqs"
    and "unat (om_filled_quantity ord) + fill_total k reqs \<le> unat q"
  shows "\<exists>ord'. omg_orders (snd (run om_step om reqs)) k = Some ord' \<and> om_quantity ord' = q
    \<and> om_state ord' = fill_state q (om_filled_quantity ord')
    \<and> unat (om_filled_quantity ord') = unat (om_filled_quantity ord) + fill_total k reqs"
  using assms
proof (induction reqs arbitrary: om ord)
  case Nil
  then show ?case by (simp add: fill_total_def)
next
  case (Cons req reqs)
  have total: "fill_total k (req # reqs) = fill_total k [req] + fill_total k reqs"
    by (simp add: fill_total_def)
  obtain ord' where ord': "omg_orders (snd (om_step om req)) k = Some ord'" "om_quantity ord' = q"
    "om_state ord' = fill_state q (om_filled_quantity ord')"
    "unat (om_filled_quantity ord') = unat (om_filled_quantity ord) + fill_total k [req]"
    using om_fill_step [OF Cons.prems(1,3,4,5), of req] Cons.prems(6,7) total by auto
  have inv: "om_inv (snd (om_step om req))"
    "unat (omg_next_id (snd (om_step om req))) + length reqs < 2 ^ 64"
    using Cons.prems om_step_next_id_le(1) [of om req] by (auto intro: om_inv_step)
  show ?case
    using Cons.IH [OF inv ord'(1-3)] Cons.prems(6,7) ord'(4) total
    by (auto simp: Let_def split_beta)
qed

text \<open>
  C19. Fills add up: while the reports for an acknowledged order are of positive quantities that do
  not exceed what was ordered, whatever happens to other orders in between, the filled quantity is
  their exact sum, \<open>remaining\<close> is the rest, and the order is \<open>Filled\<close> exactly when all of it is.
\<close>

theorem fills_add_up:
  assumes "length reqs + length later < 2 ^ 64 - 1"
    and "get_order (snd (run om_step order_manager_new reqs)) k = Some ord"
    and "om_state ord = Acked" and "om_filled_quantity ord = 0"
    and "list_all (only_fills k) later" and "fill_total k later \<le> unat (om_quantity ord)"
  shows "\<exists>ord'. get_order (snd (run om_step order_manager_new (reqs @ later))) k = Some ord'
    \<and> unat (om_filled_quantity ord') = fill_total k later
    \<and> unat (remaining ord') = unat (om_quantity ord) - fill_total k later
    \<and> om_state ord' = (if fill_total k later = 0 then Acked
        else if fill_total k later = unat (om_quantity ord) then Filled else PartialFill)"
proof -
  let ?om = "snd (run om_step order_manager_new reqs)"
  have inv: "om_inv ?om" "unat (omg_next_id ?om) + length later < 2 ^ 64"
    using om_run_inv [OF om_inv_new, of reqs] om_run_next_id [of order_manager_new reqs] assms(1)
    by (simp_all add: order_manager_new_def)
  obtain ord' where ord': "omg_orders (snd (run om_step ?om later)) k = Some ord'"
    "om_quantity ord' = om_quantity ord"
    "om_state ord' = fill_state (om_quantity ord) (om_filled_quantity ord')"
    "unat (om_filled_quantity ord') = fill_total k later"
    using om_fill_run [OF inv, of k ord "om_quantity ord"] assms(2-6)
    by (auto simp: get_order_def fill_state_def)
  have "om_filled_quantity ord' \<le> om_quantity ord'"
    using ord'(2,4) assms(6) by (simp add: word_le_nat_alt)
  then have "unat (remaining ord') = unat (om_quantity ord) - fill_total k later"
    using ord'(2,4) by (simp add: remaining_def unat_minus_le)
  moreover have "om_filled_quantity ord' = 0 \<longleftrightarrow> fill_total k later = 0"
    "om_filled_quantity ord' = om_quantity ord \<longleftrightarrow> fill_total k later = unat (om_quantity ord)"
    using ord'(4) by (metis unat_eq_zero, metis word_unat_eq_iff)
  ultimately show ?thesis
    using ord' by (simp add: get_order_def run_append fill_state_def)
qed

definition sample_fill :: "quantity \<Rightarrow> fill_report" where
  "sample_fill n = \<lparr>fr_order_id = 1, fr_fill_price = 100, fr_fill_quantity = n, fr_timestamp = 0,
     fr_is_final = False\<rparr>"

theorem fills_add_up_witness:
  "\<exists>ord'. get_order (snd (run om_step order_manager_new ([Submit 1 2 3 sample_decision, Ack 4 5 1]
       @ [Fill 6 7 (sample_fill 4), Submit 8 9 10 sample_decision, Fill 11 12 (sample_fill 6)]))) 1
     = Some ord' \<and> unat (om_filled_quantity ord') = 10 \<and> unat (remaining ord') = 0
     \<and> om_state ord' = Filled"
proof -
  let ?reqs = "[Submit 1 2 3 sample_decision, Ack 4 5 1]"
  let ?later = "[Fill 6 7 (sample_fill 4), Submit 8 9 10 sample_decision, Fill 11 12 (sample_fill 6)]"
  obtain ord where ord: "get_order (snd (run om_step order_manager_new ?reqs)) 1 = Some ord"
    "om_state ord = Acked" "om_filled_quantity ord = 0" "om_quantity ord = 10"
    by (simp add: om_submit_def om_on_ack_def order_manager_new_def sample_decision_def Let_def
        split_beta apply_transition_edge order_of_decision_def om_set_def omg_find_def get_order_def)
  have "list_all (only_fills 1) ?later" "fill_total 1 ?later = 10"
    by (simp_all add: sample_fill_def req_about_def fill_total_def)
  then show ?thesis
    using fills_add_up [of ?reqs ?later 1 ord] ord by auto
qed

text \<open>
  A fill is booked even when it is refused: for an order that is already filled, cancelled or
  rejected \<open>on_fill\<close> answers with an error and journals nothing, but the filled quantity of the
  order has grown by the reported quantity all the same.
\<close>

theorem refused_fill_still_booked:
  assumes "get_order om k = Some ord" and "is_terminal ord" and "fr_order_id report = k"
  shows "\<not> omr_success (fst (om_on_fill t t' report om))
    \<and> omg_journal (snd (om_on_fill t t' report om)) = omg_journal om
    \<and> (\<exists>ord'. get_order (snd (om_on_fill t t' report om)) k = Some ord'
         \<and> om_filled_quantity ord' = om_filled_quantity ord + fr_fill_quantity report)"
proof -
  have "om_state ord = Filled \<or> om_state ord = Cancelled \<or> om_state ord = Rejected"
    using assms(2) by (simp add: is_terminal_def is_terminal_state_def)
  then have "\<not> is_valid (om_state ord) Filled" "\<not> is_valid (om_state ord) PartialFill"
    by (auto simp: is_valid_listed)
  then show ?thesis
    using assms(1,3)
    by (simp add: om_on_fill_def omg_find_def get_order_def apply_transition_def transition_def Let_def)
qed

theorem refused_fill_still_booked_witness:
  "\<exists>om ord. get_order om 1 = Some ord \<and> om_state ord = Rejected
     \<and> \<not> omr_success (fst (om_on_fill 1 2 (sample_fill 4) om))
     \<and> (\<exists>ord'. get_order (snd (om_on_fill 1 2 (sample_fill 4) om)) 1 = Some ord'
          \<and> om_filled_quantity ord' = om_filled_quantity ord + 4)"
proof -
  let ?ord = "order_of_decision 1 sample_decision 1\<lparr>om_state := Rejected\<rparr>"
  let ?om = "order_manager_new\<lparr>omg_orders := [1 \<mapsto> ?ord]\<rparr>"
  have "get_order ?om 1 = Some ?ord" "is_terminal ?ord" "fr_order_id (sample_fill 4) = 1"
    by (simp_all add: get_order_def is_terminal_def is_terminal_state_def sample_fill_def)
  from refused_fill_still_booked [OF this, of 1 2] this(1) show ?thesis
    by (intro exI [of _ ?om] exI [of _ ?ord]) (simp add: sample_fill_def)
qed

end
