(* ===== verification/Floating.thy ===== *)
theory Floating
  imports Complex_Main Common_Types
begin

text \<open>
  Double precision arithmetic. The code that works with \<open>double\<close> takes the arithmetic as an
  argument, a record of the operations it uses: so a definition says which operation is applied to
  what and in which order, and holds for IEEE arithmetic as for any other. Facts that need no law
  of the arithmetic are proved for every such record; facts about the value an amount would have
  without rounding are proved for \<open>exact_fp\<close>, the arithmetic of the real numbers.
\<close>

record 'd fp =
  fp_of_nat :: "nat \<Rightarrow> 'd"
  fp_of_int :: "int \<Rightarrow> 'd"
  fp_add :: "'d \<Rightarrow> 'd \<Rightarrow> 'd"
  fp_sub :: "'d \<Rightarrow> 'd \<Rightarrow> 'd"
  fp_mul :: "'d \<Rightarrow> 'd \<Rightarrow> 'd"
  fp_div :: "'d \<Rightarrow> 'd \<Rightarrow> 'd"
  fp_less :: "'d \<Rightarrow> 'd \<Rightarrow> bool"
  fp_le :: "'d \<Rightarrow> 'd \<Rightarrow> bool"
  fp_trunc :: "'d \<Rightarrow> int"

definition exact_fp :: "real fp" where
  "exact_fp = \<lparr>fp_of_nat = of_nat, fp_of_int = of_int, fp_add = (+), fp_sub = (-), fp_mul = (*),
     fp_div = (/), fp_less = (<), fp_le = (\<le>),
     fp_trunc = (\<lambda>x. if 0 \<le> x then floor x else ceiling x)\<rparr>"

lemma exact_fp_simps [simp]:
  "fp_of_nat exact_fp = of_nat" "fp_of_int exact_fp = of_int" "fp_add exact_fp = (+)"
  "fp_sub exact_fp = (-)" "fp_mul exact_fp = (*)" "fp_div exact_fp = (/)" "fp_less exact_fp = (<)"
  "fp_le exact_fp = (\<le>)"
  by (simp_all add: exact_fp_def)

definition fp_zero :: "'d fp \<Rightarrow> 'd" where
  "fp_zero fp = fp_of_nat fp 0"

lemma fp_zero_exact [simp]: "fp_zero exact_fp = 0"
  by (simp add: fp_zero_def)

text \<open>
  A decimal literal is the correctly rounded quotient of two integers, a unary minus a product with
  \<open>-1\<close>, and \<open>std::abs\<close> a choice between a number and its negation.
\<close>

definition fp_ratio :: "'d fp \<Rightarrow> nat \<Rightarrow> nat \<Rightarrow> 'd" where
  "fp_ratio fp a b = fp_div fp (fp_of_nat fp a) (fp_of_nat fp b)"

definition fp_neg :: "'d fp \<Rightarrow> 'd \<Rightarrow> 'd" where
  "fp_neg fp d = fp_mul fp (fp_of_int fp (- 1)) d"

definition fp_abs :: "'d fp \<Rightarrow> 'd \<Rightarrow> 'd" where
  "fp_abs fp d = (if fp_less fp d (fp_zero fp) then fp_neg fp d else d)"

lemma fp_neg_exact [simp]: "fp_neg exact_fp d = - d"
  by (simp add: fp_neg_def)

lemma fp_abs_exact [simp]: "fp_abs exact_fp d = \<bar>d\<bar>"
  by (simp add: fp_abs_def abs_if)

text \<open>\<open>price_to_double\<close> of \<open>common/types.hpp\<close>.\<close>

definition price_to_double :: "'d fp \<Rightarrow> price \<Rightarrow> 'd" where
  "price_to_double fp p = fp_div fp (fp_of_nat fp (unat p)) (fp_of_nat fp 10000)"

definition double_to_price :: "'d fp \<Rightarrow> 'd \<Rightarrow> price" where
  "double_to_price fp d = of_int (fp_trunc fp (fp_mul fp d (fp_of_nat fp 10000)))"

definition fp_clamp :: "'d fp \<Rightarrow> 'd \<Rightarrow> 'd \<Rightarrow> 'd \<Rightarrow> 'd" where
  "fp_clamp fp v lo hi = (if fp_less fp v lo then lo else if fp_less fp hi v then hi else v)"

text \<open>Comparison for equality, which no NaN passes, and \<open>std::min\<close> and \<open>std::max\<close> as they are specified.\<close>

definition fp_eq :: "'d fp \<Rightarrow> 'd \<Rightarrow> 'd \<Rightarrow> bool" where
  "fp_eq fp a b \<longleftrightarrow> fp_le fp a b \<and> fp_le fp b a"

definition fp_min :: "'d fp \<Rightarrow> 'd \<Rightarrow> 'd \<Rightarrow> 'd" where
  "fp_min fp a b = (if fp_less fp b a then b else a)"

definition fp_max :: "'d fp \<Rightarrow> 'd \<Rightarrow> 'd \<Rightarrow> 'd" where
  "fp_max fp a b = (if fp_less fp a b then b else a)"

lemma fp_compare_exact [simp]:
  "fp_eq exact_fp a b \<longleftrightarrow> a = b" "fp_min exact_fp a b = min a b" "fp_max exact_fp a b = max a b"
  by (auto simp: fp_eq_def fp_min_def fp_max_def min_def max_def)

lemma fp_ratio_exact [simp]: "fp_ratio exact_fp a b = real a / real b"
  by (simp add: fp_ratio_def)

text \<open>The functions of the mathematical library are arguments like the arithmetic itself.\<close>

record 'd sim_math =
  sm_fp :: "'d fp"
  sm_sqrt :: "'d \<Rightarrow> 'd"
  sm_round :: "'d \<Rightarrow> 'd"
  sm_floor :: "'d \<Rightarrow> 'd"
  sm_log :: "'d \<Rightarrow> 'd"
  sm_exp :: "'d \<Rightarrow> 'd"

definition exact_math :: "real sim_math" where
  "exact_math = \<lparr>sm_fp = exact_fp, sm_sqrt = sqrt, sm_round = (\<lambda>x. of_int (round x)),
     sm_floor = (\<lambda>x. of_int (floor x)), sm_log = ln, sm_exp = exp\<rparr>"

lemma exact_math_simps [simp]:
  "sm_fp exact_math = exact_fp" "sm_sqrt exact_math = sqrt" "sm_round exact_math = (\<lambda>x. of_int (round x))"
  "sm_floor exact_math = (\<lambda>x. of_int (floor x))" "sm_log exact_math = ln" "sm_exp exact_math = exp"
  by (simp_all add: exact_math_def)

end
