(* ===== verification/Position.thy ===== *)
theory Position
  imports Floating
begin

text \<open>
  The portfolio of a strategy (\<open>strategy/position\<close>): the net position per symbol, the fills per
  symbol, and profit and loss by first-in first-out lots, behind one \<open>Portfolio\<close>.

  A position is an \<open>int64_t\<close>; it is kept as the 64 bit word whose signed reading it is. The
  iteration order of an \<open>unordered_map\<close> is an argument of the sums over one.
\<close>

section \<open>Fills and positions\<close>

record fill =
  f_timestamp :: timestamp
  f_symbol :: symbol
  f_side :: side
  f_price :: price
  f_quantity :: quantity

type_synonym position_tracker = "u64 \<rightharpoonup> u64"

definition position_update :: "symbol \<Rightarrow> side \<Rightarrow> quantity \<Rightarrow> position_tracker \<Rightarrow> position_tracker" where
  "position_update sy side q m =
     (let key = as_key sy;
          delta = (ucast q :: u64);
          old = (case m key of None \<Rightarrow> 0 | Some p \<Rightarrow> p)
      in if side = Side_Buy then m(key \<mapsto> old + delta) else m(key \<mapsto> old - delta))"

definition position_get :: "position_tracker \<Rightarrow> symbol \<Rightarrow> u64" where
  "position_get m sy = (case m (as_key sy) of None \<Rightarrow> 0 | Some p \<Rightarrow> p)"

definition position_reset :: "position_tracker \<Rightarrow> position_tracker" where
  "position_reset m = Map.empty"

type_synonym fill_tracker = "u64 \<rightharpoonup> fill list"

definition fill_record ::
  "timestamp \<Rightarrow> symbol \<Rightarrow> side \<Rightarrow> price \<Rightarrow> quantity \<Rightarrow> fill_tracker \<Rightarrow> fill_tracker" where
  "fill_record ts sy side p q m =
     (let key = as_key sy;
          old = (case m key of None \<Rightarrow> [] | Some fs \<Rightarrow> fs)
      in m(key \<mapsto> old @ [\<lparr>f_timestamp = ts, f_symbol = sy, f_side = side, f_price = p, f_quantity = q\<rparr>]))"

definition fills_of :: "fill_tracker \<Rightarrow> symbol \<Rightarrow> fill list" where
  "fills_of m sy = (case m (as_key sy) of None \<Rightarrow> [] | Some fs \<Rightarrow> fs)"

fun value_and_quantity :: "fill list \<Rightarrow> u64 \<Rightarrow> u64 \<Rightarrow> u64 \<times> u64" where
  "value_and_quantity [] v n = (v, n)"
| "value_and_quantity (f # fs) v n =
     value_and_quantity fs (v + ucast (f_price f) * ucast (f_quantity f)) (n + ucast (f_quantity f))"

definition average_price :: "'d fp \<Rightarrow> fill_tracker \<Rightarrow> symbol \<Rightarrow> 'd" where
  "average_price fp m sy =
     (case m (as_key sy) of
        None \<Rightarrow> fp_zero fp
      | Some fs \<Rightarrow>
          if fs = [] then fp_zero fp
          else let (total_value, total_qty) = value_and_quantity fs 0 0 in
               if total_qty = 0 then fp_zero fp
               else fp_div fp (fp_of_nat fp (unat total_value)) (fp_of_nat fp (unat total_qty)))"

definition total_fills :: "u64 list \<Rightarrow> fill_tracker \<Rightarrow> nat" where
  "total_fills keys m = (\<Sum>k \<leftarrow> keys. case m k of None \<Rightarrow> 0 | Some fs \<Rightarrow> length fs)"

section \<open>Profit and loss\<close>

record lot =
  lot_price :: price
  lot_quantity :: u32

record 'd symbol_state =
  ss_long_lots :: "lot list"
  ss_short_lots :: "lot list"
  ss_realized :: 'd
  ss_unrealized :: 'd

type_synonym 'd pnl_calculator = "u64 \<rightharpoonup> 'd symbol_state"

definition symbol_state_new :: "'d fp \<Rightarrow> 'd symbol_state" where
  "symbol_state_new fp = \<lparr>ss_long_lots = [], ss_short_lots = [], ss_realized = fp_zero fp,
     ss_unrealized = fp_zero fp\<rparr>"

definition pnl_state :: "'d fp \<Rightarrow> 'd pnl_calculator \<Rightarrow> symbol \<Rightarrow> 'd symbol_state" where
  "pnl_state fp m sy = (case m (as_key sy) of None \<Rightarrow> symbol_state_new fp | Some s \<Rightarrow> s)"

text \<open>
  The loop that closes open lots from the front of the queue; \<open>gain\<close> is the profit per unit on a
  lot bought or sold at the given price. It returns what is left of the fill, the lots and the
  realized profit.
\<close>

function close_lots ::
  "'d fp \<Rightarrow> (price \<Rightarrow> 'd) \<Rightarrow> u32 \<Rightarrow> lot list \<Rightarrow> 'd \<Rightarrow> u32 \<times> lot list \<times> 'd" where
  "close_lots fp gain rem [] realized = (rem, [], realized)"
| "close_lots fp gain rem (front # lots) realized =
     (if rem = 0 then (rem, front # lots, realized)
      else
        let matched = min rem (lot_quantity front);
            realized' = fp_add fp realized
              (fp_mul fp (gain (lot_price front)) (fp_of_nat fp (unat matched)));
            front' = front\<lparr>lot_quantity := lot_quantity front - matched\<rparr>;
            rem' = rem - matched
        in if lot_quantity front' = 0 then close_lots fp gain rem' lots realized'
           else close_lots fp gain rem' (front' # lots) realized')"
  by pat_completeness auto

lemma min_left_over:
  fixes a b :: u32
  assumes "a \<noteq> 0" and "b - min a b \<noteq> 0"
  shows "min a b = a" "a - min a b = 0"
  using assms by (auto simp: min_def split: if_splits)

termination close_lots
proof (relation "measures [\<lambda>(_, _, rem, lots, _). length lots, \<lambda>(_, _, rem, lots, _). unat rem]")
  fix fp :: "'d fp" and gain rem front lots realized matched realized' front' rem'
  assume "rem \<noteq> (0 :: u32)" "matched = min rem (lot_quantity front)"
    "front' = front\<lparr>lot_quantity := lot_quantity front - matched\<rparr>" "rem' = rem - matched"
    "lot_quantity (front' :: lot) \<noteq> 0"
  then have "rem' = 0" "0 < unat rem"
    using min_left_over [of rem "lot_quantity front"] by (auto simp: unat_gt_0)
  then show "((fp, gain, rem', front' # lots, realized'), fp, gain, rem, front # lots, realized)
      \<in> measures [\<lambda>(_, _, rem, lots, _). length lots, \<lambda>(_, _, rem, lots, _). unat rem]"
    by simp
qed auto

definition pnl_on_fill :: "'d fp \<Rightarrow> fill \<Rightarrow> 'd pnl_calculator \<Rightarrow> 'd pnl_calculator" where
  "pnl_on_fill fp fill m =
     (let s = pnl_state fp m (f_symbol fill);
          qty = f_quantity fill;
          px = f_price fill
      in m(as_key (f_symbol fill) \<mapsto>
        (if f_side fill = Side_Buy
         then
           let (rem, lots, realized) = close_lots fp
                 (\<lambda>entry. fp_sub fp (price_to_double fp entry) (price_to_double fp px))
                 qty (ss_short_lots s) (ss_realized s)
           in s\<lparr>ss_short_lots := lots, ss_realized := realized,
                ss_long_lots := (if 0 < rem
                  then ss_long_lots s @ [\<lparr>lot_price = px, lot_quantity = rem\<rparr>] else ss_long_lots s)\<rparr>
         else
           let (rem, lots, realized) = close_lots fp
                 (\<lambda>entry. fp_sub fp (price_to_double fp px) (price_to_double fp entry))
                 qty (ss_long_lots s) (ss_realized s)
           in s\<lparr>ss_long_lots := lots, ss_realized := realized,
                ss_short_lots := (if 0 < rem
                  then ss_short_lots s @ [\<lparr>lot_price = px, lot_quantity = rem\<rparr>]
                  else ss_short_lots s)\<rparr>)))"

definition mark_lots :: "'d fp \<Rightarrow> (price \<Rightarrow> 'd) \<Rightarrow> lot list \<Rightarrow> 'd \<Rightarrow> 'd" where
  "mark_lots fp gain lots u =
     foldl (\<lambda>u l. fp_add fp u (fp_mul fp (gain (lot_price l)) (fp_of_nat fp (unat (lot_quantity l)))))
       u lots"

definition mark_to_market :: "'d fp \<Rightarrow> symbol \<Rightarrow> price \<Rightarrow> 'd pnl_calculator \<Rightarrow> 'd pnl_calculator" where
  "mark_to_market fp sy current_price m =
     (let s = pnl_state fp m sy;
          mark = price_to_double fp current_price;
          u = mark_lots fp (\<lambda>p. fp_sub fp mark (price_to_double fp p)) (ss_long_lots s) (fp_zero fp);
          u = mark_lots fp (\<lambda>p. fp_sub fp (price_to_double fp p) mark) (ss_short_lots s) u
      in m(as_key sy \<mapsto> s\<lparr>ss_unrealized := u\<rparr>))"

definition realized_pnl :: "'d fp \<Rightarrow> 'd pnl_calculator \<Rightarrow> symbol \<Rightarrow> 'd" where
  "realized_pnl fp m sy =
     (case m (as_key sy) of None \<Rightarrow> fp_zero fp | Some s \<Rightarrow> ss_realized s)"

definition unrealized_pnl :: "'d fp \<Rightarrow> 'd pnl_calculator \<Rightarrow> symbol \<Rightarrow> 'd" where
  "unrealized_pnl fp m sy =
     (case m (as_key sy) of None \<Rightarrow> fp_zero fp | Some s \<Rightarrow> ss_unrealized s)"

definition total_realized_pnl :: "'d fp \<Rightarrow> u64 list \<Rightarrow> 'd pnl_calculator \<Rightarrow> 'd" where
  "total_realized_pnl fp keys m =
     foldl (\<lambda>t k. case m k of None \<Rightarrow> t | Some s \<Rightarrow> fp_add fp t (ss_realized s)) (fp_zero fp) keys"

definition total_unrealized_pnl :: "'d fp \<Rightarrow> u64 list \<Rightarrow> 'd pnl_calculator \<Rightarrow> 'd" where
  "total_unrealized_pnl fp keys m =
     foldl (\<lambda>t k. case m k of None \<Rightarrow> t | Some s \<Rightarrow> fp_add fp t (ss_unrealized s)) (fp_zero fp) keys"

definition total_pnl :: "'d fp \<Rightarrow> u64 list \<Rightarrow> 'd pnl_calculator \<Rightarrow> 'd" where
  "total_pnl fp keys m = fp_add fp (total_realized_pnl fp keys m) (total_unrealized_pnl fp keys m)"

section \<open>The portfolio\<close>

record 'd portfolio =
  pf_positions :: position_tracker
  pf_fills :: fill_tracker
  pf_pnl :: "'d pnl_calculator"
  pf_symbols :: "u64 \<rightharpoonup> symbol"

definition portfolio_new :: "'d portfolio" where
  "portfolio_new = \<lparr>pf_positions = Map.empty, pf_fills = Map.empty, pf_pnl = Map.empty,
     pf_symbols = Map.empty\<rparr>"

definition portfolio_on_fill ::
  "'d fp \<Rightarrow> timestamp \<Rightarrow> symbol \<Rightarrow> side \<Rightarrow> price \<Rightarrow> quantity \<Rightarrow> 'd portfolio \<Rightarrow> 'd portfolio" where
  "portfolio_on_fill fp ts sy side p q pf =
     pf\<lparr>pf_symbols := (pf_symbols pf)(as_key sy \<mapsto> sy),
        pf_positions := position_update sy side q (pf_positions pf),
        pf_fills := fill_record ts sy side p q (pf_fills pf),
        pf_pnl := pnl_on_fill fp \<lparr>f_timestamp = ts, f_symbol = sy, f_side = side, f_price = p,
          f_quantity = q\<rparr> (pf_pnl pf)\<rparr>"

definition portfolio_mark_to_market ::
  "'d fp \<Rightarrow> symbol \<Rightarrow> price \<Rightarrow> 'd portfolio \<Rightarrow> 'd portfolio" where
  "portfolio_mark_to_market fp sy p pf = pf\<lparr>pf_pnl := mark_to_market fp sy p (pf_pnl pf)\<rparr>"

definition portfolio_reset :: "'d portfolio \<Rightarrow> 'd portfolio" where
  "portfolio_reset pf = pf\<lparr>pf_positions := position_reset (pf_positions pf), pf_fills := Map.empty,
     pf_pnl := Map.empty, pf_symbols := Map.empty\<rparr>"

section \<open>Closing lots\<close>

definition lots_pos :: "lot list \<Rightarrow> bool" where
  "lots_pos ls \<longleftrightarrow> (\<forall>l \<in> set ls. lot_quantity l \<noteq> 0)"

definition lot_total :: "lot list \<Rightarrow> nat" where
  "lot_total ls = (\<Sum>l \<leftarrow> ls. unat (lot_quantity l))"

lemma lots_pos_simps [simp]:
  "lots_pos []" "lots_pos (l # ls) \<longleftrightarrow> lot_quantity l \<noteq> 0 \<and> lots_pos ls"
  "lots_pos (ls @ ls') \<longleftrightarrow> lots_pos ls \<and> lots_pos ls'"
  by (auto simp: lots_pos_def)

lemma lot_total_simps [simp]:
  "lot_total [] = 0" "lot_total (l # ls) = unat (lot_quantity l) + lot_total ls"
  "lot_total (ls @ ls') = lot_total ls + lot_total ls'"
  by (simp_all add: lot_total_def)

text \<open>The loop by cases on the front lot: it is larger than the fill, or it is used up.\<close>

declare close_lots.simps(2) [simp del]

lemma close_lots_0: "close_lots fp gain 0 lots r = (0, lots, r)"
  by (cases lots) (simp_all add: close_lots.simps)

lemma close_lots_Cons:
  "close_lots fp gain rem (front # lots) r =
     (if rem = 0 then (0, front # lots, r)
      else if rem < lot_quantity front
      then (0, front\<lparr>lot_quantity := lot_quantity front - rem\<rparr> # lots,
            fp_add fp r (fp_mul fp (gain (lot_price front)) (fp_of_nat fp (unat rem))))
      else close_lots fp gain (rem - lot_quantity front) lots
            (fp_add fp r (fp_mul fp (gain (lot_price front)) (fp_of_nat fp (unat (lot_quantity front))))))"
  by (auto simp: close_lots.simps(2) Let_def min_def close_lots_0)

text \<open>The quantities: what the lots lose is what the fill loses, and a rest is left only without lots.\<close>

lemma close_lots_total:
  "close_lots fp gain rem lots r = (rem', lots', r') \<Longrightarrow> lots_pos lots \<Longrightarrow>
     lot_total lots' + unat rem = lot_total lots + unat rem' \<and> lots_pos lots'
     \<and> (rem' \<noteq> 0 \<longrightarrow> lots' = [])"
proof (induction lots arbitrary: rem r)
  case (Cons front lots)
  let ?q = "lot_quantity front"
  consider "rem = 0" | "rem \<noteq> 0" "rem < ?q" | "rem \<noteq> 0" "?q \<le> rem"
    by fastforce
  then show ?case
  proof cases
    case 2
    then have "unat (?q - rem) + unat rem = unat ?q"
      by (intro unat_diff_add) simp
    then show ?thesis
      using Cons.prems 2 by (auto simp: close_lots_Cons)
  next
    case 3
    then have "unat (rem - ?q) + unat ?q = unat rem"
      by (intro unat_diff_add) simp
    moreover from 3 have "close_lots fp gain (rem - ?q) lots
        (fp_add fp r (fp_mul fp (gain (lot_price front)) (fp_of_nat fp (unat ?q)))) = (rem', lots', r')"
      using Cons.prems(1) by (simp add: close_lots_Cons leD)
    from Cons.IH [OF this] Cons.prems(2) have "lot_total lots' + unat (rem - ?q) = lot_total lots + unat rem'
        \<and> lots_pos lots' \<and> (rem' \<noteq> 0 \<longrightarrow> lots' = [])"
      by simp
    ultimately show ?thesis
      by auto
  qed (use Cons.prems in \<open>auto simp: close_lots_Cons\<close>)
qed simp

definition lot_cost :: "lot list \<Rightarrow> real" where
  "lot_cost ls = (\<Sum>l \<leftarrow> ls. price_to_double exact_fp (lot_price l) * real (unat (lot_quantity l)))"

lemma lot_cost_simps [simp]:
  "lot_cost [] = 0"
  "lot_cost (l # ls) = price_to_double exact_fp (lot_price l) * real (unat (lot_quantity l)) + lot_cost ls"
  "lot_cost (ls @ ls') = lot_cost ls + lot_cost ls'"
  by (simp_all add: lot_cost_def)

text \<open>The money: in exact arithmetic the realized profit grows by the value of what was closed.\<close>

lemma real_unat_diff: "b \<le> a \<Longrightarrow> real (unat (a - b)) = real (unat a) - real (unat b)"
  for a b :: "'a::len word"
  using unat_diff_add [of b a] by (metis add_diff_cancel_right' of_nat_add)

lemma close_lots_value:
  assumes "\<And>p. gain p = c * (price_to_double exact_fp p - x)"
  shows "close_lots exact_fp gain rem lots r = (rem', lots', r') \<Longrightarrow>
    r' = r + c * (lot_cost lots - lot_cost lots' - x * (real (unat rem) - real (unat rem')))"
proof (induction lots arbitrary: rem r)
  case (Cons front lots)
  let ?q = "lot_quantity front"
  consider "rem = 0" | "rem \<noteq> 0" "rem < ?q" | "rem \<noteq> 0" "?q \<le> rem"
    by fastforce
  then show ?case
  proof cases
    case 2
    then have diff: "real (unat (?q - rem)) = real (unat ?q) - real (unat rem)"
      by (intro real_unat_diff) simp
    show ?thesis
      using Cons.prems 2
      by (auto simp: close_lots_Cons assms diff algebra_simps simp del: of_nat_unat)
  next
    case 3
    then have diff: "real (unat (rem - ?q)) = real (unat rem) - real (unat ?q)"
      by (intro real_unat_diff) simp
    have "\<not> rem < ?q"
      using 3 by simp
    then show ?thesis
      using Cons.IH [of "rem - ?q"] Cons.prems 3
      by (simp add: close_lots_Cons assms diff algebra_simps del: of_nat_unat)
  qed (use Cons.prems in \<open>auto simp: close_lots_Cons\<close>)
qed simp

section \<open>A sequence of fills\<close>

definition portfolio_fills :: "'d fp \<Rightarrow> fill list \<Rightarrow> 'd portfolio \<Rightarrow> 'd portfolio" where
  "portfolio_fills fp fs pf = foldl (\<lambda>pf f. portfolio_on_fill fp (f_timestamp f) (f_symbol f)
     (f_side f) (f_price f) (f_quantity f) pf) pf fs"

definition signed_quantity :: "fill \<Rightarrow> int" where
  "signed_quantity f = (if f_side f = Side_Buy then int (unat (f_quantity f))
     else - int (unat (f_quantity f)))"

definition net_quantity :: "fill list \<Rightarrow> symbol \<Rightarrow> int" where
  "net_quantity fs sy = (\<Sum>f \<leftarrow> filter (\<lambda>f. f_symbol f = sy) fs. signed_quantity f)"

text \<open>The cash a sequence of fills of a symbol brings in: sales minus purchases, without rounding.\<close>

definition cash_flow :: "fill list \<Rightarrow> symbol \<Rightarrow> real" where
  "cash_flow fs sy = (\<Sum>f \<leftarrow> filter (\<lambda>f. f_symbol f = sy) fs.
     - (real_of_int (signed_quantity f) * price_to_double exact_fp (f_price f)))"

lemma portfolio_fills_snoc:
  "portfolio_fills fp (fs @ [f]) pf = portfolio_on_fill fp (f_timestamp f) (f_symbol f)
     (f_side f) (f_price f) (f_quantity f) (portfolio_fills fp fs pf)"
  by (simp add: portfolio_fills_def)

lemma fill_eta:
  "\<lparr>f_timestamp = f_timestamp f, f_symbol = f_symbol f, f_side = f_side f, f_price = f_price f,
    f_quantity = f_quantity f\<rparr> = f"
  by simp

lemma portfolio_pnl_snoc:
  "pf_pnl (portfolio_fills fp (fs @ [f]) pf) = pnl_on_fill fp f (pf_pnl (portfolio_fills fp fs pf))"
  unfolding portfolio_fills_snoc portfolio_on_fill_def fill_eta by simp

lemma net_quantity_snoc [simp]:
  "net_quantity [] sy = 0"
  "net_quantity (fs @ [f]) sy = net_quantity fs sy + (if f_symbol f = sy then signed_quantity f else 0)"
  by (simp_all add: net_quantity_def)

lemma cash_flow_snoc [simp]:
  "cash_flow [] sy = 0"
  "cash_flow (fs @ [f]) sy = cash_flow fs sy
     - (if f_symbol f = sy then real_of_int (signed_quantity f) * price_to_double exact_fp (f_price f)
        else 0)"
  by (simp_all add: cash_flow_def)

lemma position_word:
  "position_get (pf_positions (portfolio_fills fp fs portfolio_new)) sy = of_int (net_quantity fs sy)"
proof (induction fs rule: rev_induct)
  case Nil
  then show ?case
    by (simp add: portfolio_fills_def position_get_def portfolio_new_def)
next
  case (snoc f fs)
  have "(ucast (f_quantity f) :: u64) = of_int (int (unat (f_quantity f)))"
    by (simp add: unsigned_ucast_eq [symmetric])
  then show ?case
    using snoc.IH by (auto simp: portfolio_fills_snoc portfolio_on_fill_def position_get_def
        position_update_def signed_quantity_def Let_def)
qed

lemma fills_recorded:
  "fills_of (pf_fills (portfolio_fills fp fs portfolio_new)) sy = filter (\<lambda>f. f_symbol f = sy) fs"
proof (induction fs rule: rev_induct)
  case (snoc f fs)
  then show ?case
    by (auto simp: portfolio_fills_snoc portfolio_on_fill_def fills_of_def fill_record_def Let_def)
qed (simp add: portfolio_fills_def fills_of_def portfolio_new_def)

lemma net_quantity_bound:
  "\<bar>net_quantity fs sy\<bar> \<le> int (length fs) * 4294967295"
proof (induction fs rule: rev_induct)
  case (snoc f fs)
  have "\<bar>signed_quantity f\<bar> \<le> 4294967295"
    using uint_bounded [of "f_quantity f"] by (simp add: signed_quantity_def)
  then show ?case
    using snoc.IH by (auto simp: algebra_simps)
qed simp

text \<open>The lots of one symbol: they are open on one side only and add up to the net quantity.\<close>

definition lots_ok :: "int \<Rightarrow> 'd symbol_state \<Rightarrow> bool" where
  "lots_ok n s \<longleftrightarrow> lots_pos (ss_long_lots s) \<and> lots_pos (ss_short_lots s)
     \<and> (ss_long_lots s = [] \<or> ss_short_lots s = [])
     \<and> int (lot_total (ss_long_lots s)) - int (lot_total (ss_short_lots s)) = n"

text \<open>What a fill does to the state of its own symbol.\<close>

definition fill_state_of :: "'d fp \<Rightarrow> fill \<Rightarrow> 'd symbol_state \<Rightarrow> 'd symbol_state" where
  "fill_state_of fp f s = the (pnl_on_fill fp f [as_key (f_symbol f) \<mapsto> s] (as_key (f_symbol f)))"

lemma pnl_state_on_fill:
  "pnl_state fp (pnl_on_fill fp f m) sy =
     (if f_symbol f = sy then fill_state_of fp f (pnl_state fp m sy) else pnl_state fp m sy)"
  by (auto simp: pnl_state_def fill_state_of_def pnl_on_fill_def Let_def split_beta)

lemma fill_state_buy:
  assumes "close_lots fp (\<lambda>entry. fp_sub fp (price_to_double fp entry) (price_to_double fp (f_price f)))
      (f_quantity f) (ss_short_lots s) (ss_realized s) = (rem, lots, r)"
    and "f_side f = Side_Buy"
  shows "fill_state_of fp f s = s\<lparr>ss_short_lots := lots, ss_realized := r, ss_long_lots :=
      (if rem \<noteq> 0 then ss_long_lots s @ [\<lparr>lot_price = f_price f, lot_quantity = rem\<rparr>]
       else ss_long_lots s)\<rparr>"
  using assms word_neq_0_conv [of rem]
  by (simp add: fill_state_of_def pnl_on_fill_def Let_def pnl_state_def)

lemma fill_state_sell:
  assumes "close_lots fp (\<lambda>entry. fp_sub fp (price_to_double fp (f_price f)) (price_to_double fp entry))
      (f_quantity f) (ss_long_lots s) (ss_realized s) = (rem, lots, r)"
    and "f_side f \<noteq> Side_Buy"
  shows "fill_state_of fp f s = s\<lparr>ss_long_lots := lots, ss_realized := r, ss_short_lots :=
      (if rem \<noteq> 0 then ss_short_lots s @ [\<lparr>lot_price = f_price f, lot_quantity = rem\<rparr>]
       else ss_short_lots s)\<rparr>"
  using assms word_neq_0_conv [of rem]
  by (simp add: fill_state_of_def pnl_on_fill_def Let_def pnl_state_def)

lemma lots_ok_buy:
  assumes "lots_ok n s" and "f_side f = Side_Buy"
  shows "lots_ok (n + signed_quantity f) (fill_state_of fp f s)"
proof -
  obtain rem lots r where c: "close_lots fp
      (\<lambda>entry. fp_sub fp (price_to_double fp entry) (price_to_double fp (f_price f)))
      (f_quantity f) (ss_short_lots s) (ss_realized s) = (rem, lots, r)"
    by (rule prod_cases3)
  have ok: "lots_pos (ss_long_lots s)" "lots_pos (ss_short_lots s)"
    "ss_long_lots s = [] \<or> ss_short_lots s = []"
    "int (lot_total (ss_long_lots s)) - int (lot_total (ss_short_lots s)) = n"
    using assms(1) by (auto simp: lots_ok_def)
  have t: "lot_total lots + unat (f_quantity f) = lot_total (ss_short_lots s) + unat rem"
    "lots_pos lots" "rem \<noteq> 0 \<Longrightarrow> lots = []"
    using close_lots_total [OF c ok(2)] by auto
  note s' = fill_state_buy [OF c assms(2)]
  have one: "ss_long_lots s = [] \<or> lots = []"
    using ok(3) c by auto
  show ?thesis
    using s' ok t one assms(2) by (auto simp: lots_ok_def signed_quantity_def simp del: of_nat_unat)
qed

lemma lots_ok_sell:
  assumes "lots_ok n s" and "f_side f \<noteq> Side_Buy"
  shows "lots_ok (n + signed_quantity f) (fill_state_of fp f s)"
proof -
  obtain rem lots r where c: "close_lots fp
      (\<lambda>entry. fp_sub fp (price_to_double fp (f_price f)) (price_to_double fp entry))
      (f_quantity f) (ss_long_lots s) (ss_realized s) = (rem, lots, r)"
    by (rule prod_cases3)
  have ok: "lots_pos (ss_long_lots s)" "lots_pos (ss_short_lots s)"
    "ss_long_lots s = [] \<or> ss_short_lots s = []"
    "int (lot_total (ss_long_lots s)) - int (lot_total (ss_short_lots s)) = n"
    using assms(1) by (auto simp: lots_ok_def)
  have t: "lot_total lots + unat (f_quantity f) = lot_total (ss_long_lots s) + unat rem"
    "lots_pos lots" "rem \<noteq> 0 \<Longrightarrow> lots = []"
    using close_lots_total [OF c ok(1)] by auto
  note s' = fill_state_sell [OF c assms(2)]
  have one: "ss_short_lots s = [] \<or> lots = []"
    using ok(3) c by auto
  show ?thesis
    using s' ok t one assms(2) by (auto simp: lots_ok_def signed_quantity_def simp del: of_nat_unat)
qed

lemma lots_ok_fills:
  "lots_ok (net_quantity fs sy) (pnl_state fp (pf_pnl (portfolio_fills fp fs portfolio_new)) sy)"
proof (induction fs rule: rev_induct)
  case Nil
  then show ?case
    by (simp add: portfolio_fills_def portfolio_new_def pnl_state_def symbol_state_new_def lots_ok_def)
next
  case (snoc f fs)
  then show ?case
    using lots_ok_buy [of _ _ f fp] lots_ok_sell [of _ _ f fp]
    by (cases "f_side f = Side_Buy")
      (simp_all add: portfolio_pnl_snoc pnl_state_on_fill)
qed

text \<open>
  The parts of a portfolio agree. After any sequence of fills the net position of a symbol is
  what was bought minus what was sold, the fill tracker lists exactly the fills of the symbol in
  order, and the open lots are on one side only, none of them empty, and add up to the position.
  (Fewer than \<open>2 ^ 31\<close> fills, so that the signed 64 bit position cannot overflow.)
\<close>

theorem portfolio_consistent:
  assumes "length fs < 2 ^ 31"
  shows "sint (position_get (pf_positions (portfolio_fills fp fs portfolio_new)) sy)
      = net_quantity fs sy
    \<and> fills_of (pf_fills (portfolio_fills fp fs portfolio_new)) sy = filter (\<lambda>f. f_symbol f = sy) fs
    \<and> lots_ok (net_quantity fs sy) (pnl_state fp (pf_pnl (portfolio_fills fp fs portfolio_new)) sy)"
proof -
  have "int (length fs) * 4294967295 < 2 ^ 31 * 4294967295"
    using assms by simp
  then have "\<bar>net_quantity fs sy\<bar> < 2 ^ 63"
    using net_quantity_bound [of fs sy] by simp
  then have "sint (of_int (net_quantity fs sy) :: u64) = net_quantity fs sy"
    by (simp add: signed_of_int signed_take_bit_int_eq_self)
  then show ?thesis
    by (simp add: position_word fills_recorded lots_ok_fills)
qed

definition sample_fills :: "fill list" where
  "sample_fills =
     [\<lparr>f_timestamp = 1, f_symbol = symbol_default, f_side = Side_Buy, f_price = 1000000, f_quantity = 10\<rparr>,
      \<lparr>f_timestamp = 2, f_symbol = symbol_default, f_side = Side_Sell, f_price = 1010000, f_quantity = 15\<rparr>]"

theorem portfolio_consistent_witness:
  "sint (position_get (pf_positions (portfolio_fills exact_fp sample_fills portfolio_new)) symbol_default)
     = -5"
  using portfolio_consistent [of sample_fills exact_fp symbol_default]
  by (simp add: sample_fills_def net_quantity_def signed_quantity_def)

lemma realized_fill:
  assumes "ss_realized s = v + lot_cost (ss_long_lots s) - lot_cost (ss_short_lots s)"
  shows "ss_realized (fill_state_of exact_fp f s)
    = v - real_of_int (signed_quantity f) * price_to_double exact_fp (f_price f)
      + lot_cost (ss_long_lots (fill_state_of exact_fp f s))
      - lot_cost (ss_short_lots (fill_state_of exact_fp f s))"
proof (cases "f_side f = Side_Buy")
  case True
  let ?x = "price_to_double exact_fp (f_price f)"
  obtain rem lots r where c: "close_lots exact_fp (\<lambda>entry. price_to_double exact_fp entry - ?x)
      (f_quantity f) (ss_short_lots s) (ss_realized s) = (rem, lots, r)"
    by (rule prod_cases3)
  have "r = ss_realized s + 1 * (lot_cost (ss_short_lots s) - lot_cost lots
      - ?x * (real (unat (f_quantity f)) - real (unat rem)))"
    by (rule close_lots_value [OF _ c]) simp
  then show ?thesis
    using fill_state_buy [of exact_fp f s rem lots r] c True assms by (auto simp: signed_quantity_def algebra_simps)
next
  case False
  let ?x = "price_to_double exact_fp (f_price f)"
  obtain rem lots r where c: "close_lots exact_fp (\<lambda>entry. ?x - price_to_double exact_fp entry)
      (f_quantity f) (ss_long_lots s) (ss_realized s) = (rem, lots, r)"
    by (rule prod_cases3)
  have "r = ss_realized s + (- 1) * (lot_cost (ss_long_lots s) - lot_cost lots
      - ?x * (real (unat (f_quantity f)) - real (unat rem)))"
    by (rule close_lots_value [OF _ c]) simp
  then show ?thesis
    using fill_state_sell [of exact_fp f s rem lots r] c False assms by (auto simp: signed_quantity_def algebra_simps)
qed

lemma realized_fills:
  defines "st fs sy \<equiv> pnl_state exact_fp (pf_pnl (portfolio_fills exact_fp fs portfolio_new)) sy"
  shows "ss_realized (st fs sy) = cash_flow fs sy + lot_cost (ss_long_lots (st fs sy))
    - lot_cost (ss_short_lots (st fs sy))"
proof (induction fs rule: rev_induct)
  case Nil
  then show ?case
    by (simp add: st_def portfolio_fills_def portfolio_new_def pnl_state_def symbol_state_new_def)
next
  case (snoc f fs)
  have st: "st (fs @ [f]) sy = (if f_symbol f = sy then fill_state_of exact_fp f (st fs sy) else st fs sy)"
    by (simp add: st_def portfolio_pnl_snoc pnl_state_on_fill)
  then show ?case
    using snoc.IH realized_fill [OF snoc.IH, of f] by simp
qed

lemma mark_lots_exact:
  "mark_lots exact_fp (\<lambda>p. c * (price_to_double exact_fp p - x)) lots u
   = u + c * (lot_cost lots - x * real (lot_total lots))"
proof (induction lots arbitrary: u)
  case (Cons l lots)
  have "mark_lots exact_fp (\<lambda>p. c * (price_to_double exact_fp p - x)) (l # lots) u
      = mark_lots exact_fp (\<lambda>p. c * (price_to_double exact_fp p - x)) lots
          (u + c * (price_to_double exact_fp (lot_price l) - x) * real (unat (lot_quantity l)))"
    by (simp add: mark_lots_def)
  also have "\<dots> = u + c * (price_to_double exact_fp (lot_price l) - x) * real (unat (lot_quantity l))
      + c * (lot_cost lots - x * real (lot_total lots))"
    by (rule Cons.IH)
  finally show ?case
    by (simp add: algebra_simps del: of_nat_unat)
qed (simp add: mark_lots_def)

text \<open>
  C20. The accounting identity, without rounding: after any fills, and marking a symbol to a price,
  realized plus unrealized profit of the symbol is the cash its fills brought in plus the value of
  the net position at that price.
\<close>

theorem pnl_accounting_identity:
  fixes fs :: "fill list" and sy :: symbol and p :: price
  defines "m \<equiv> pf_pnl (portfolio_mark_to_market exact_fp sy p (portfolio_fills exact_fp fs portfolio_new))"
  shows "realized_pnl exact_fp m sy + unrealized_pnl exact_fp m sy
    = cash_flow fs sy + real_of_int (net_quantity fs sy) * price_to_double exact_fp p"
proof -
  let ?s = "pnl_state exact_fp (pf_pnl (portfolio_fills exact_fp fs portfolio_new)) sy"
  let ?x = "price_to_double exact_fp p"
  have long: "mark_lots exact_fp (\<lambda>q. ?x - price_to_double exact_fp q) lots 0
      = (- 1) * (lot_cost lots - ?x * real (lot_total lots))" for lots
    using mark_lots_exact [of "- 1" ?x lots 0] by simp
  have short: "mark_lots exact_fp (\<lambda>q. price_to_double exact_fp q - ?x) lots u
      = u + (lot_cost lots - ?x * real (lot_total lots))" for lots u
    using mark_lots_exact [of 1 ?x lots u] by simp
  have net: "real_of_int (net_quantity fs sy)
      = real (lot_total (ss_long_lots ?s)) - real (lot_total (ss_short_lots ?s))"
    using lots_ok_fills [of fs sy exact_fp] by (auto simp: lots_ok_def)
  show ?thesis
    using realized_fills [of fs sy]
    by (simp add: net m_def portfolio_mark_to_market_def mark_to_market_def Let_def realized_pnl_def
        unrealized_pnl_def long short algebra_simps)
qed

end
