(* ===== verification/Oms_Flow.thy ===== *)
theory Oms_Flow
  imports Order_Manager Position
begin

text \<open>
  The parts around the order manager: the validation of a strategy's decision
  (\<open>oms/order_validator\<close>), the id generator (\<open>oms/order_id_generator.hpp\<close>), the router
  (\<open>oms/order_router\<close>) and the fill manager (\<open>oms/fill_manager\<close>), which passes fill reports to the
  order manager and the portfolio and keeps statistics.

  An \<open>ExchangeConnector\<close> is an interface: its \<open>send_order\<close> is a function on a state of the venue.
\<close>

section \<open>The order validator\<close>

record decision_validation =
  vr_pass :: bool
  vr_reason :: string

type_synonym order_validator = "u64 set"

definition add_known_symbol :: "symbol \<Rightarrow> order_validator \<Rightarrow> order_validator" where
  "add_known_symbol sy known = insert (as_key sy) known"

definition validate_decision :: "order_validator \<Rightarrow> decision \<Rightarrow> decision_validation" where
  "validate_decision known d =
     (if dec_quantity d = 0
      then \<lparr>vr_pass = False, vr_reason = ''Quantity must be greater than zero''\<rparr>
      else if dec_order_type d = Decision_Limit \<and> dec_limit_price d = 0
      then \<lparr>vr_pass = False, vr_reason = ''Limit order must have price greater than zero''\<rparr>
      else if as_key (dec_symbol d) \<notin> known
      then \<lparr>vr_pass = False, vr_reason = ''Unknown symbol''\<rparr>
      else \<lparr>vr_pass = True, vr_reason = []\<rparr>)"

definition known_symbol_count :: "order_validator \<Rightarrow> nat" where
  "known_symbol_count known = card known"

section \<open>The id generator\<close>

record id_generator =
  ig_next_id :: u64
  ig_start :: u64

text \<open>The constructor initialises \<open>next_id_\<close> only; \<open>start_\<close> keeps its default member initializer.\<close>

definition id_generator_new :: "u64 \<Rightarrow> id_generator" where
  "id_generator_new start = \<lparr>ig_next_id = start, ig_start = 1\<rparr>"

definition ig_next :: "id_generator \<Rightarrow> u64 \<times> id_generator" where
  "ig_next g = (ig_next_id g, g\<lparr>ig_next_id := ig_next_id g + 1\<rparr>)"

definition ig_peek :: "id_generator \<Rightarrow> u64" where
  "ig_peek g = ig_next_id g"

definition ig_count :: "id_generator \<Rightarrow> u64" where
  "ig_count g = ig_next_id g - ig_start g"

section \<open>The router\<close>

record 'v connector =
  venue_name :: string
  send_order :: "oms_order \<Rightarrow> 'v \<Rightarrow> bool \<times> 'v"

record routing_confirmation =
  rc_routed :: bool
  rc_order_id :: order_id
  rc_venue :: string
  rc_error :: string

text \<open>A \<open>shared_ptr\<close> to a connector may be null.\<close>

record 'v order_router =
  or_default_connector :: "'v connector option"
  or_symbol_connectors :: "u64 \<rightharpoonup> 'v connector option"

definition router_new :: "'v order_router" where
  "router_new = \<lparr>or_default_connector = None, or_symbol_connectors = Map.empty\<rparr>"

definition set_default_connector :: "'v connector option \<Rightarrow> 'v order_router \<Rightarrow> 'v order_router" where
  "set_default_connector c r = r\<lparr>or_default_connector := c\<rparr>"

definition map_symbol :: "symbol \<Rightarrow> 'v connector option \<Rightarrow> 'v order_router \<Rightarrow> 'v order_router" where
  "map_symbol sy c r = r\<lparr>or_symbol_connectors := (or_symbol_connectors r)(as_key sy \<mapsto> c)\<rparr>"

definition resolve :: "'v order_router \<Rightarrow> symbol \<Rightarrow> 'v connector option" where
  "resolve r sy = (case or_symbol_connectors r (as_key sy) of
     Some c \<Rightarrow> c | None \<Rightarrow> or_default_connector r)"

definition route :: "'v order_router \<Rightarrow> oms_order \<Rightarrow> 'v \<Rightarrow> routing_confirmation \<times> 'v" where
  "route r ord v =
     (let conf = \<lparr>rc_routed = False, rc_order_id = om_order_id ord, rc_venue = [], rc_error = []\<rparr> in
      case resolve r (om_symbol ord) of
        None \<Rightarrow> (conf\<lparr>rc_error := ''No exchange connector available for symbol''\<rparr>, v)
      | Some c \<Rightarrow>
          let (sent, v') = send_order c ord v in
          if \<not> sent then (conf\<lparr>rc_error := ''Exchange connector rejected the order''\<rparr>, v')
          else (conf\<lparr>rc_routed := True, rc_venue := venue_name c\<rparr>, v'))"

section \<open>The fill manager\<close>

record 'd symbol_fill_stats =
  sfs_fill_count :: u64
  sfs_total_volume :: u64
  sfs_total_notional :: 'd

definition stats_empty :: "'d fp \<Rightarrow> 'd symbol_fill_stats" where
  "stats_empty fp = \<lparr>sfs_fill_count = 0, sfs_total_volume = 0, sfs_total_notional = fp_zero fp\<rparr>"

definition average_fill_price :: "'d fp \<Rightarrow> 'd symbol_fill_stats \<Rightarrow> 'd" where
  "average_fill_price fp st =
     (if 0 < sfs_total_volume st
      then fp_div fp (sfs_total_notional st) (fp_of_nat fp (unat (sfs_total_volume st)))
      else fp_zero fp)"

text \<open>The order manager and the portfolio are held by reference; both are part of the state here.\<close>

record 'd fill_manager =
  fm_order_mgr :: order_manager
  fm_portfolio :: "'d portfolio"
  fm_total_fills :: u64
  fm_total_volume :: u64
  fm_stats :: "u64 \<rightharpoonup> 'd symbol_fill_stats"

definition fill_manager_new :: "order_manager \<Rightarrow> 'd portfolio \<Rightarrow> 'd fill_manager" where
  "fill_manager_new om pf = \<lparr>fm_order_mgr = om, fm_portfolio = pf, fm_total_fills = 0,
     fm_total_volume = 0, fm_stats = Map.empty\<rparr>"

definition fm_on_fill ::
  "'d fp \<Rightarrow> timestamp \<Rightarrow> timestamp \<Rightarrow> fill_report \<Rightarrow> 'd fill_manager \<Rightarrow> om_result \<times> 'd fill_manager" where
  "fm_on_fill fp t t' report fm =
     (let (result, om) = om_on_fill t t' report (fm_order_mgr fm);
          fm = fm\<lparr>fm_order_mgr := om\<rparr>
      in if \<not> omr_success result then (result, fm)
         else case get_order om (fr_order_id report) of
           None \<Rightarrow> (\<lparr>omr_success = False, omr_order_id = fr_order_id report,
                     omr_error = ''Order not found after fill''\<rparr>, fm)
         | Some ord \<Rightarrow>
             let key = as_key (om_symbol ord);
                 st = (case fm_stats fm key of None \<Rightarrow> stats_empty fp | Some st \<Rightarrow> st);
                 st' = \<lparr>sfs_fill_count = sfs_fill_count st + 1,
                   sfs_total_volume = sfs_total_volume st + ucast (fr_fill_quantity report),
                   sfs_total_notional = fp_add fp (sfs_total_notional st)
                     (fp_mul fp (price_to_double fp (fr_fill_price report))
                        (fp_of_nat fp (unat (fr_fill_quantity report))))\<rparr>
             in (result, fm\<lparr>
                   fm_portfolio := portfolio_on_fill fp (fr_timestamp report) (om_symbol ord)
                     (om_side ord) (fr_fill_price report) (fr_fill_quantity report) (fm_portfolio fm),
                   fm_total_fills := fm_total_fills fm + 1,
                   fm_total_volume := fm_total_volume fm + ucast (fr_fill_quantity report),
                   fm_stats := (fm_stats fm)(key \<mapsto> st')\<rparr>))"

definition stats_for :: "'d fp \<Rightarrow> 'd fill_manager \<Rightarrow> symbol \<Rightarrow> 'd symbol_fill_stats" where
  "stats_for fp fm sy = (case fm_stats fm (as_key sy) of None \<Rightarrow> stats_empty fp | Some st \<Rightarrow> st)"

section \<open>Facts on the fill manager\<close>

text \<open>
  The reports that pass through the fill manager are interleaved with requests other parts of the
  program make to the order manager. The fill a step books is the report with the symbol and side
  of its order, if the order manager accepts it.
\<close>

datatype fm_request = Report timestamp timestamp fill_report | Other om_request

fun fm_step :: "'d fp \<Rightarrow> 'd fill_manager \<Rightarrow> fm_request \<Rightarrow> om_result \<times> 'd fill_manager" where
  "fm_step fp fm (Report t t' report) = fm_on_fill fp t t' report fm"
| "fm_step fp fm (Other req) =
     (let (result, om) = om_step (fm_order_mgr fm) req in (result, fm\<lparr>fm_order_mgr := om\<rparr>))"

definition report_fill :: "oms_order \<Rightarrow> fill_report \<Rightarrow> fill" where
  "report_fill ord report = \<lparr>f_timestamp = fr_timestamp report, f_symbol = om_symbol ord,
     f_side = om_side ord, f_price = fr_fill_price report, f_quantity = fr_fill_quantity report\<rparr>"

fun booked :: "order_manager \<Rightarrow> fm_request \<Rightarrow> fill list" where
  "booked om (Report t t' report) =
     (if omr_success (fst (om_on_fill t t' report om))
      then map (\<lambda>ord. report_fill ord report) (case get_order om (fr_order_id report) of
         None \<Rightarrow> [] | Some ord \<Rightarrow> [ord]) else [])"
| "booked om (Other req) = []"

fun booked_all :: "'d fp \<Rightarrow> 'd fill_manager \<Rightarrow> fm_request list \<Rightarrow> fill list" where
  "booked_all fp fm [] = []"
| "booked_all fp fm (req # reqs) =
     booked (fm_order_mgr fm) req @ booked_all fp (snd (fm_step fp fm req)) reqs"

lemma om_on_fill_success:
  assumes "omr_success (fst (om_on_fill t t' report om))"
  shows "\<exists>ord ord'. get_order om (fr_order_id report) = Some ord
    \<and> get_order (snd (om_on_fill t t' report om)) (fr_order_id report) = Some ord'
    \<and> om_symbol ord' = om_symbol ord \<and> om_side ord' = om_side ord"
  using assms
  by (auto simp: om_on_fill_def omg_find_def get_order_def not_found_def apply_transition_def
      transition_def Let_def split: option.splits)

definition volume :: "fill list \<Rightarrow> nat" where
  "volume fs = (\<Sum>f \<leftarrow> fs. unat (f_quantity f))"

text \<open>What the statistics of the fill manager say when \<open>fs\<close> are the fills it booked.\<close>

definition fm_accounts :: "'d fp \<Rightarrow> 'd portfolio \<Rightarrow> fill list \<Rightarrow> 'd fill_manager \<Rightarrow> bool" where
  "fm_accounts fp pf fs fm \<longleftrightarrow> fm_portfolio fm = portfolio_fills fp fs pf
     \<and> fm_total_fills fm = of_nat (length fs) \<and> fm_total_volume fm = of_nat (volume fs)
     \<and> (\<forall>sy. sfs_fill_count (stats_for fp fm sy) = of_nat (length (filter (\<lambda>f. f_symbol f = sy) fs))
           \<and> sfs_total_volume (stats_for fp fm sy) = of_nat (volume (filter (\<lambda>f. f_symbol f = sy) fs)))"

lemma volume_append [simp]: "volume (fs @ fs') = volume fs + volume fs'"
  by (simp add: volume_def)

lemma ucast_of_nat_unat: "(ucast (q :: u32) :: u64) = of_nat (unat q)"
  by (simp add: unsigned_ucast_eq [symmetric])

text \<open>The effect of an accepted report.\<close>

lemma fm_on_fill_booked:
  fixes fp :: "'d fp" and fm :: "'d fill_manager"
  assumes "omr_success (fst (om_on_fill t t' report (fm_order_mgr fm)))"
    and "get_order (fm_order_mgr fm) (fr_order_id report) = Some ord"
  defines "f \<equiv> report_fill ord report" and "fm' \<equiv> snd (fm_on_fill fp t t' report fm)"
  shows "fm_portfolio fm' = portfolio_fills fp [f] (fm_portfolio fm)"
    and "fm_total_fills fm' = fm_total_fills fm + 1"
    and "fm_total_volume fm' = fm_total_volume fm + of_nat (unat (f_quantity f))"
    and "sfs_fill_count (stats_for fp fm' sy)
      = sfs_fill_count (stats_for fp fm sy) + (if f_symbol f = sy then 1 else 0)"
    and "sfs_total_volume (stats_for fp fm' sy)
      = sfs_total_volume (stats_for fp fm sy) + (if f_symbol f = sy then of_nat (unat (f_quantity f)) else 0)"
proof -
  obtain ord' where "get_order (snd (om_on_fill t t' report (fm_order_mgr fm))) (fr_order_id report) = Some ord'"
      "om_symbol ord' = om_symbol ord" "om_side ord' = om_side ord"
    using om_on_fill_success [OF assms(1)] assms(2) by auto
  note upd = this fm'_def f_def assms(1) report_fill_def fm_on_fill_def
  show "fm_portfolio fm' = portfolio_fills fp [f] (fm_portfolio fm)"
    by (simp add: upd split_beta Let_def portfolio_fills_def)
  show "fm_total_fills fm' = fm_total_fills fm + 1"
    by (simp add: upd split_beta Let_def)
  show "fm_total_volume fm' = fm_total_volume fm + of_nat (unat (f_quantity f))"
    by (simp only: upd) (simp add: upd split_beta Let_def)
  show "sfs_fill_count (stats_for fp fm' sy)
      = sfs_fill_count (stats_for fp fm sy) + (if f_symbol f = sy then 1 else 0)"
    by (simp add: upd split_beta Let_def stats_for_def)
  show "sfs_total_volume (stats_for fp fm' sy)
      = sfs_total_volume (stats_for fp fm sy) + (if f_symbol f = sy then of_nat (unat (f_quantity f)) else 0)"
    by (simp add: upd split_beta Let_def stats_for_def)
qed

lemma fm_accounts_step:
  assumes "fm_accounts fp pf fs fm"
  shows "fm_accounts fp pf (fs @ booked (fm_order_mgr fm) req) (snd (fm_step fp fm req))"
proof (cases req)
  case (Other r)
  then show ?thesis
    using assms by (simp add: fm_accounts_def stats_for_def split_beta)
next
  case (Report t t' report)
  show ?thesis
  proof (cases "omr_success (fst (om_on_fill t t' report (fm_order_mgr fm)))")
    case False
    then show ?thesis
      using Report assms by (simp add: fm_accounts_def stats_for_def fm_on_fill_def split_beta)
  next
    case True
    then obtain ord where o: "get_order (fm_order_mgr fm) (fr_order_id report) = Some ord"
      using om_on_fill_success by blast
    have pf: "portfolio_fills fp (fs @ [g]) p = portfolio_fills fp [g] (portfolio_fills fp fs p)" for g p
      by (simp add: portfolio_fills_def)
    note upd = fm_on_fill_booked [OF True o]
    show ?thesis
      using Report True o assms by (simp add: fm_accounts_def upd pf volume_def)
  qed
qed

lemma fm_accounts_run:
  "fm_accounts fp pf fs fm \<Longrightarrow>
     fm_accounts fp pf (fs @ booked_all fp fm reqs) (snd (run (fm_step fp) fm reqs))"
proof (induction reqs arbitrary: fs fm)
  case (Cons req reqs)
  have "fm_accounts fp pf ((fs @ booked (fm_order_mgr fm) req) @ booked_all fp (snd (fm_step fp fm req)) reqs)
      (snd (run (fm_step fp) (snd (fm_step fp fm req)) reqs))"
    by (rule Cons.IH [OF fm_accounts_step [OF Cons.prems]])
  then show ?case
    by (simp add: Let_def split_beta)
qed simp

section \<open>Properties\<close>

text \<open>
  The fill manager books exactly the fills the order manager accepts. Whatever reports come in
  and whatever other requests the order manager gets in between, the portfolio is the one that got
  the accepted reports, with the symbol and side of their orders, each once and in order; the total
  and per-symbol counts and volumes are those of the same fills.
\<close>

theorem fill_manager_books_accepted:
  "fm_accounts fp pf (booked_all fp (fill_manager_new om pf) reqs)
     (snd (run (fm_step fp) (fill_manager_new om pf) reqs))"
proof -
  have "fm_accounts fp pf [] (fill_manager_new om pf)"
    by (simp add: fm_accounts_def fill_manager_new_def portfolio_fills_def volume_def stats_for_def
        stats_empty_def)
  from fm_accounts_run [OF this] show ?thesis
    by simp
qed

fun ig_nexts :: "nat \<Rightarrow> id_generator \<Rightarrow> u64 list \<times> id_generator" where
  "ig_nexts 0 g = ([], g)"
| "ig_nexts (Suc n) g = (let (i, g) = ig_next g; (is, g) = ig_nexts n g in (i # is, g))"

lemma ig_nexts_eq:
  "ig_nexts n g = (map (\<lambda>i. ig_next_id g + of_nat i) [0..<n], g\<lparr>ig_next_id := ig_next_id g + of_nat n\<rparr>)"
proof (induction n arbitrary: g)
  case (Suc n)
  have "map (\<lambda>i. ig_next_id g + of_nat i) [0..<Suc n]
      = ig_next_id g # map (\<lambda>i. ig_next_id g + 1 + of_nat i) [0..<n]"
    by (simp add: upt_conv_Cons map_Suc_upt [symmetric] add.assoc del: upt_Suc)
  then show ?case
    by (simp add: Suc.IH ig_next_def Let_def add.assoc del: upt_Suc)
qed simp

text \<open>
  The id generator gives out consecutive ids, all different up to \<open>2 ^ 64\<close> of them, but its
  count of the ids given out is right only when it was started at 1: the constructor does not
  remember where it started.
\<close>

theorem id_generator_count_needs_start_1:
  fixes n :: nat and start :: u64
  defines "r \<equiv> ig_nexts n (id_generator_new start)"
  assumes "n \<le> 2 ^ 64"
  shows "fst r = map (\<lambda>i. start + of_nat i) [0..<n] \<and> distinct (fst r)
    \<and> (ig_count (snd r) = of_nat n \<longleftrightarrow> start = 1)"
proof -
  have "inj_on (\<lambda>i. start + of_nat i) {0..<n}"
  proof (rule inj_onI)
    fix i j assume "i \<in> {0..<n}" "j \<in> {0..<n}" "start + of_nat i = start + of_nat j"
    then have "(of_nat i :: u64) = of_nat j" "i < 2 ^ 64" "j < 2 ^ 64"
      using assms(2) by auto
    then show "i = j"
      by (simp add: word_of_nat_eq_iff take_bit_nat_eq_self)
  qed
  then show ?thesis
    by (simp add: r_def ig_nexts_eq id_generator_new_def ig_count_def distinct_map)
qed

theorem id_generator_count_needs_start_1_witness:
  "ig_count (snd (ig_nexts 3 (id_generator_new 100))) \<noteq> 3"
  using id_generator_count_needs_start_1 [of 3 100] by simp

text \<open>A decision that passes validation is accepted by the order manager.\<close>

lemma validated_decision_submitted:
  "vr_pass (validate_decision known d) \<Longrightarrow> omr_success (fst (om_submit t t' t'' d om))"
  by (auto simp: validate_decision_def om_submit_def apply_transition_edge order_of_decision_def
      Let_def split: if_splits)

end
