(* ===== verification/Sim_Exchange.thy ===== *)
theory Sim_Exchange
  imports Oms_Flow
begin

text \<open>
  The simulated venue of the order management system (\<open>oms/sim_exchange\<close>): the fill model, which
  decides on rejects and splits an order into partial fills, the exchange itself, and the connector
  that lets the router send orders to it.

  The clock and the random number generator are an environment, a state with the three operations
  the code calls; what the standard promises of \<open>std::uniform_int_distribution\<close>, that its values lie
  between its bounds, is the hypothesis \<open>env_in_range\<close>. The fill callback is a function on a state.
\<close>

section \<open>The fill model\<close>

record ('e, 'd) env =
  env_now :: "'e \<Rightarrow> timestamp \<times> 'e"
  env_uniform :: "'e \<Rightarrow> 'd \<times> 'e"
  env_int :: "u32 \<Rightarrow> u32 \<Rightarrow> 'e \<Rightarrow> u32 \<times> 'e"

definition env_in_range :: "('e, 'd) env \<Rightarrow> bool" where
  "env_in_range en \<longleftrightarrow> (\<forall>lo hi e. lo \<le> hi \<longrightarrow>
     lo \<le> fst (env_int en lo hi e) \<and> fst (env_int en lo hi e) \<le> hi)"

record 'd fill_model_config =
  fmc_latency_ns :: u64
  fmc_partial_fill_prob :: 'd
  fmc_min_partial_fills :: u32
  fmc_max_partial_fills :: u32
  fmc_reject_rate :: 'd
  fmc_partial_fill_threshold :: u32

definition should_reject :: "'d fp \<Rightarrow> ('e, 'd) env \<Rightarrow> 'd fill_model_config \<Rightarrow> 'e \<Rightarrow> bool \<times> 'e" where
  "should_reject fp en cfg e =
     (let (u, e') = env_uniform en e in (fp_less fp u (fmc_reject_rate cfg), e'))"

definition apply_latency :: "'d fill_model_config \<Rightarrow> timestamp \<Rightarrow> timestamp" where
  "apply_latency cfg base = base + fmc_latency_ns cfg"

text \<open>The loop of \<open>split_quantity\<close>: \<open>k\<close> iterations are left, and \<open>num_fills - 1 - i = k\<close>.\<close>

fun split_loop :: "('e, 'd) env \<Rightarrow> nat \<Rightarrow> quantity \<Rightarrow> 'e \<Rightarrow> quantity list \<times> quantity \<times> 'e" where
  "split_loop en 0 left e = ([], left, e)"
| "split_loop en (Suc k) left e =
     (let max_this = left - of_nat (Suc k);
          (fill_qty, e) = env_int en 1 (max 1 max_this) e;
          (fills, left', e) = split_loop en k (left - fill_qty) e
      in (fill_qty # fills, left', e))"

definition split_quantity ::
  "'d fp \<Rightarrow> ('e, 'd) env \<Rightarrow> 'd fill_model_config \<Rightarrow> quantity \<Rightarrow> 'e \<Rightarrow> quantity list \<times> 'e" where
  "split_quantity fp en cfg qty e =
     (if qty \<le> fmc_partial_fill_threshold cfg then ([qty], e)
      else
        let (u, e) = env_uniform en e in
        if fp_le fp (fmc_partial_fill_prob cfg) u then ([qty], e)
        else
          let (num_fills, e) = env_int en (fmc_min_partial_fills cfg) (fmc_max_partial_fills cfg) e;
              num_fills = min num_fills qty;
              (fills, left, e) = split_loop en (unat (num_fills - 1)) qty e
          in (fills @ [left], e))"

section \<open>The exchange\<close>

record market_quote =
  mq_best_bid :: price
  mq_best_ask :: price

record ('e, 'd) sim_exchange =
  se_config :: "'d fill_model_config"
  se_env :: 'e
  se_pending_orders :: "oms_order list"
  se_quotes :: "u64 \<rightharpoonup> market_quote"
  se_total_fills :: u64
  se_total_rejects :: u64

definition sim_exchange_new :: "'d fill_model_config \<Rightarrow> 'e \<Rightarrow> ('e, 'd) sim_exchange" where
  "sim_exchange_new cfg e = \<lparr>se_config = cfg, se_env = e, se_pending_orders = [],
     se_quotes = Map.empty, se_total_fills = 0, se_total_rejects = 0\<rparr>"

type_synonym 'w fill_callback = "fill_report \<Rightarrow> 'w \<Rightarrow> 'w"

definition market_price_for :: "('e, 'd) sim_exchange \<Rightarrow> symbol \<Rightarrow> side \<Rightarrow> price" where
  "market_price_for se sy side =
     (case se_quotes se (as_key sy) of
        None \<Rightarrow> 0
      | Some q \<Rightarrow> if side = Side_Buy then mq_best_ask q else mq_best_bid q)"

text \<open>The reports for the quantities \<open>qs\<close>, from index \<open>i\<close> of \<open>n\<close>.\<close>

fun fill_reports ::
  "'d fill_model_config \<Rightarrow> order_id \<Rightarrow> price \<Rightarrow> timestamp \<Rightarrow> nat \<Rightarrow> nat \<Rightarrow> quantity list
     \<Rightarrow> fill_report list" where
  "fill_reports cfg k p base_ts n i [] = []"
| "fill_reports cfg k p base_ts n i (q # qs) =
     \<lparr>fr_order_id = k, fr_fill_price = p, fr_fill_quantity = q,
      fr_timestamp = apply_latency cfg (base_ts + of_nat i * 1000), fr_is_final = (i = n - 1)\<rparr>
     # fill_reports cfg k p base_ts n (Suc i) qs"

definition generate_fills ::
  "'d fp \<Rightarrow> ('e, 'd) env \<Rightarrow> 'w fill_callback \<Rightarrow> oms_order \<Rightarrow> price
     \<Rightarrow> ('e, 'd) sim_exchange \<times> 'w \<Rightarrow> ('e, 'd) sim_exchange \<times> 'w" where
  "generate_fills fp en on_fill ord p st =
     (let (se, w) = st;
          (base_ts, e) = env_now en (se_env se);
          (qs, e) = split_quantity fp en (se_config se) (remaining ord) e;
          reports = fill_reports (se_config se) (om_order_id ord) p base_ts (length qs) 0 qs
      in (se\<lparr>se_env := e, se_total_fills := se_total_fills se + of_nat (length qs)\<rparr>,
          fold on_fill reports w))"

definition try_fill_limit ::
  "'d fp \<Rightarrow> ('e, 'd) env \<Rightarrow> 'w fill_callback \<Rightarrow> oms_order
     \<Rightarrow> ('e, 'd) sim_exchange \<times> 'w \<Rightarrow> bool \<times> ('e, 'd) sim_exchange \<times> 'w" where
  "try_fill_limit fp en on_fill ord st =
     (let market = market_price_for (fst st) (om_symbol ord) (om_side ord) in
      if market = 0 then (False, st)
      else
        let should_fill = (if om_side ord = Side_Buy then market \<le> om_price ord
                           else om_price ord \<le> market)
        in if should_fill then (True, generate_fills fp en on_fill ord (om_price ord) st)
           else (False, st))"

definition reject_order ::
  "('e, 'd) env \<Rightarrow> 'w fill_callback \<Rightarrow> oms_order
     \<Rightarrow> ('e, 'd) sim_exchange \<times> 'w \<Rightarrow> ('e, 'd) sim_exchange \<times> 'w" where
  "reject_order en on_fill ord st =
     (let (se, w) = st;
          (now, e) = env_now en (se_env se)
      in (se\<lparr>se_env := e, se_total_rejects := se_total_rejects se + 1\<rparr>,
          on_fill \<lparr>fr_order_id = om_order_id ord, fr_fill_price = 0, fr_fill_quantity = 0,
            fr_timestamp = apply_latency (se_config se) now, fr_is_final = True\<rparr> w))"

definition submit_order ::
  "'d fp \<Rightarrow> ('e, 'd) env \<Rightarrow> 'w fill_callback \<Rightarrow> oms_order
     \<Rightarrow> ('e, 'd) sim_exchange \<times> 'w \<Rightarrow> ('e, 'd) sim_exchange \<times> 'w" where
  "submit_order fp en on_fill ord st =
     (let (se, w) = st;
          (rej, e) = should_reject fp en (se_config se) (se_env se);
          st = (se\<lparr>se_env := e\<rparr>, w)
      in if rej then reject_order en on_fill ord st
         else if om_type ord = Market
         then
           let fill_price = market_price_for (fst st) (om_symbol ord) (om_side ord) in
           if fill_price = 0 then reject_order en on_fill ord st
           else generate_fills fp en on_fill ord fill_price st
         else
           let (filled, se, w) = try_fill_limit fp en on_fill ord st in
           if \<not> filled then (se\<lparr>se_pending_orders := se_pending_orders se @ [ord]\<rparr>, w)
           else (se, w))"

text \<open>\<open>std::remove_if\<close> calls the predicate once on each order, from first to last.\<close>

fun check_loop ::
  "'d fp \<Rightarrow> ('e, 'd) env \<Rightarrow> 'w fill_callback \<Rightarrow> oms_order list
     \<Rightarrow> ('e, 'd) sim_exchange \<times> 'w \<Rightarrow> oms_order list \<times> ('e, 'd) sim_exchange \<times> 'w" where
  "check_loop fp en on_fill [] st = ([], st)"
| "check_loop fp en on_fill (ord # ords) st =
     (let (filled, st) = try_fill_limit fp en on_fill ord st;
          (kept, st) = check_loop fp en on_fill ords st
      in (if filled then kept else ord # kept, st))"

definition check_pending_orders ::
  "'d fp \<Rightarrow> ('e, 'd) env \<Rightarrow> 'w fill_callback
     \<Rightarrow> ('e, 'd) sim_exchange \<times> 'w \<Rightarrow> ('e, 'd) sim_exchange \<times> 'w" where
  "check_pending_orders fp en on_fill st =
     (let (kept, se, w) = check_loop fp en on_fill (se_pending_orders (fst st)) st
      in (se\<lparr>se_pending_orders := kept\<rparr>, w))"

definition on_market_update ::
  "'d fp \<Rightarrow> ('e, 'd) env \<Rightarrow> 'w fill_callback \<Rightarrow> symbol \<Rightarrow> price \<Rightarrow> price
     \<Rightarrow> ('e, 'd) sim_exchange \<times> 'w \<Rightarrow> ('e, 'd) sim_exchange \<times> 'w" where
  "on_market_update fp en on_fill sy bid ask st =
     (let (se, w) = st
      in check_pending_orders fp en on_fill
           (se\<lparr>se_quotes := (se_quotes se)(as_key sy \<mapsto> \<lparr>mq_best_bid = bid, mq_best_ask = ask\<rparr>)\<rparr>, w))"

section \<open>The connector\<close>

record ('e, 'd, 'w) sim_connector_state =
  sc_exchange :: "('e, 'd) sim_exchange"
  sc_orders_sent :: nat
  sc_world :: 'w

definition sim_send_order ::
  "'d fp \<Rightarrow> ('e, 'd) env \<Rightarrow> 'w fill_callback \<Rightarrow> oms_order
     \<Rightarrow> ('e, 'd, 'w) sim_connector_state \<Rightarrow> bool \<times> ('e, 'd, 'w) sim_connector_state" where
  "sim_send_order fp en on_fill ord st =
     (let (se, w) = submit_order fp en on_fill ord (sc_exchange st, sc_world st)
      in (True, \<lparr>sc_exchange = se, sc_orders_sent = sc_orders_sent st + 1, sc_world = w\<rparr>))"

definition sim_connector ::
  "'d fp \<Rightarrow> ('e, 'd) env \<Rightarrow> 'w fill_callback \<Rightarrow> ('e, 'd, 'w) sim_connector_state connector" where
  "sim_connector fp en on_fill =
     \<lparr>venue_name = ''SimExchange'', send_order = sim_send_order fp en on_fill\<rparr>"

section \<open>Splitting\<close>

abbreviation quantity_sum :: "quantity list \<Rightarrow> nat" where
  "quantity_sum qs \<equiv> (\<Sum>q \<leftarrow> qs. unat q)"

lemma split_loop_exact:
  assumes "env_in_range en"
  shows "split_loop en k left e = (fills, left', e') \<Longrightarrow> k < unat left \<Longrightarrow>
    length fills = k \<and> 0 \<notin> set fills \<and> left' \<noteq> 0 \<and> quantity_sum fills + unat left' = unat left"
proof (induction k arbitrary: left e fills left' e')
  case (Suc k)
  let ?max = "left - of_nat (Suc k)"
  obtain q e1 where q: "env_int en 1 (max 1 ?max) e = (q, e1)"
    by force
  obtain fills1 where rest: "split_loop en k (left - q) e1 = (fills1, left', e')" "fills = q # fills1"
    using Suc.prems(1) q by (auto simp: Let_def split: prod.splits)
  have k: "unat (of_nat (Suc k) :: u32) = Suc k"
    by (intro unat_of_nat_small order.strict_trans [OF Suc.prems(2)]) simp
  then have "of_nat (Suc k) \<le> left"
    using Suc.prems(2) by (simp add: word_le_nat_alt del: of_nat_Suc)
  then have max: "unat ?max = unat left - Suc k"
    using k by (simp add: unat_minus_le del: of_nat_Suc)
  then have "1 \<le> ?max"
    using Suc.prems(2) by (simp add: word_le_nat_alt del: of_nat_Suc)
  then have range: "1 \<le> q" "q \<le> ?max"
    using assms q unfolding env_in_range_def by (metis fst_conv max.absorb2 max.cobounded1)+
  then have q_nat: "1 \<le> unat q" "unat q \<le> unat left - Suc k"
    using max by (simp_all add: word_le_nat_alt del: of_nat_Suc)
  then have diff: "unat (left - q) = unat left - unat q" "q \<noteq> 0"
    using Suc.prems(2) by (auto simp: unat_minus_le word_le_nat_alt)
  then have "k < unat (left - q)"
    using q_nat Suc.prems(2) by simp
  from Suc.IH [OF rest(1) this] show ?case
    using rest(2) diff q_nat Suc.prems(2) by auto
qed auto

lemma split_quantity_sum:
  assumes "env_in_range en" and "1 \<le> fmc_min_partial_fills cfg"
    and "fmc_min_partial_fills cfg \<le> fmc_max_partial_fills cfg"
  shows "quantity_sum (fst (split_quantity fp en cfg qty e)) = unat qty
    \<and> (qty \<noteq> 0 \<longrightarrow> 0 \<notin> set (fst (split_quantity fp en cfg qty e)))
    \<and> fst (split_quantity fp en cfg qty e) \<noteq> []
    \<and> length (fst (split_quantity fp en cfg qty e)) \<le> unat (fmc_max_partial_fills cfg)"
proof -
  let ?lo = "fmc_min_partial_fills cfg" and ?hi = "fmc_max_partial_fills cfg"
  have hi: "1 \<le> unat ?hi"
    using assms(2,3) by (metis order_trans unat_1 word_le_nat_alt)
  obtain u e1 where u: "env_uniform en e = (u, e1)" by force
  obtain n e2 where n: "env_int en ?lo ?hi e1 = (n, e2)" by force
  have range: "1 \<le> n" "n \<le> ?hi"
    using assms n unfolding env_in_range_def by (metis fst_conv order_trans)+
  let ?n = "min n qty"
  obtain fills left e3 where loop: "split_loop en (unat (?n - 1)) qty e2 = (fills, left, e3)"
    by (rule prod_cases3)
  show ?thesis
  proof (cases "qty \<le> fmc_partial_fill_threshold cfg \<or> fp_le fp (fmc_partial_fill_prob cfg) u")
    case True
    then show ?thesis
      using u hi by (auto simp: split_quantity_def)
  next
    case False
    then have "qty \<noteq> 0"
      by auto
    then have "1 \<le> ?n"
      using range(1) by (auto simp: word_le_nat_alt min_def unat_gt_0 Suc_le_eq)
    then have n1: "unat (?n - 1) = unat ?n - 1" "1 \<le> unat ?n" "unat ?n \<le> unat qty" "unat ?n \<le> unat ?hi"
      using range(2) by (simp_all add: unat_minus_le) (auto simp: word_le_nat_alt min_def)
    then have "unat (?n - 1) < unat qty"
      by simp
    from split_loop_exact [OF assms(1) loop this] show ?thesis
      using False u n loop n1 by (auto simp: split_quantity_def Let_def)
  qed
qed

text \<open>
  The fill model splits an order without loss: the parts add up to the quantity exactly, none
  is empty, and there are between one and \<open>max_partial_fills\<close> of them, whatever the random numbers.
\<close>

theorem split_quantity_exact:
  assumes "env_in_range en" and "1 \<le> fmc_min_partial_fills cfg"
    and "fmc_min_partial_fills cfg \<le> fmc_max_partial_fills cfg" and "qty \<noteq> 0"
  shows "quantity_sum (fst (split_quantity fp en cfg qty e)) = unat qty
    \<and> 0 \<notin> set (fst (split_quantity fp en cfg qty e))
    \<and> fst (split_quantity fp en cfg qty e) \<noteq> []
    \<and> length (fst (split_quantity fp en cfg qty e)) \<le> unat (fmc_max_partial_fills cfg)"
  using split_quantity_sum [OF assms(1-3), of fp qty e] assms(4) by auto

definition sample_env :: "(nat, real) env" where
  "sample_env = \<lparr>env_now = (\<lambda>e. (of_nat e, Suc e)), env_uniform = (\<lambda>e. (1 / 4, Suc e)),
     env_int = (\<lambda>lo hi e. (hi, Suc e))\<rparr>"

definition sample_config :: "real fill_model_config" where
  "sample_config = \<lparr>fmc_latency_ns = 50000, fmc_partial_fill_prob = 3 / 10, fmc_min_partial_fills = 2,
     fmc_max_partial_fills = 5, fmc_reject_rate = 2 / 100, fmc_partial_fill_threshold = 100\<rparr>"

lemma sample_env_in_range: "env_in_range sample_env"
  by (simp add: env_in_range_def sample_env_def)

theorem split_quantity_exact_witness:
  "quantity_sum (fst (split_quantity exact_fp sample_env sample_config 1000 0)) = 1000"
  using split_quantity_exact [OF sample_env_in_range, of sample_config 1000 exact_fp 0]
  by (simp add: sample_config_def)

section \<open>Submitting an order\<close>

text \<open>When the exchange would trade an order now, and at which price.\<close>

definition marketable :: "('e, 'd) sim_exchange \<Rightarrow> oms_order \<Rightarrow> bool" where
  "marketable se ord \<longleftrightarrow> (let market = market_price_for se (om_symbol ord) (om_side ord) in
     market \<noteq> 0 \<and> (om_type ord = Market
       \<or> (if om_side ord = Side_Buy then market \<le> om_price ord else om_price ord \<le> market)))"

definition trade_price :: "('e, 'd) sim_exchange \<Rightarrow> oms_order \<Rightarrow> price" where
  "trade_price se ord = (if om_type ord = Market
     then market_price_for se (om_symbol ord) (om_side ord) else om_price ord)"

text \<open>Reports that fill an order completely: the last one, and only it, is final.\<close>

definition complete_fill :: "oms_order \<Rightarrow> price \<Rightarrow> fill_report list \<Rightarrow> bool" where
  "complete_fill ord p reports \<longleftrightarrow> reports \<noteq> []
     \<and> (\<forall>r \<in> set reports. fr_order_id r = om_order_id ord \<and> fr_fill_price r = p)
     \<and> quantity_sum (map fr_fill_quantity reports) = unat (remaining ord)
     \<and> map fr_is_final reports = replicate (length reports - 1) False @ [True]"

lemma fill_reports_fields:
  "map fr_fill_quantity (fill_reports cfg k p t n i qs) = qs"
  "\<forall>r \<in> set (fill_reports cfg k p t n i qs). fr_order_id r = k \<and> fr_fill_price r = p"
  "length (fill_reports cfg k p t n i qs) = length qs"
  by (induction qs arbitrary: i) simp_all

lemma fill_reports_final:
  "qs \<noteq> [] \<Longrightarrow> map fr_is_final (fill_reports cfg k p t (i + length qs) i qs)
     = replicate (length qs - 1) False @ [True]"
proof (induction qs arbitrary: i)
  case (Cons q qs)
  show ?case
  proof (cases "qs = []")
    case False
    then obtain m where m: "length qs = Suc m"
      by (cases qs) auto
    have "map fr_is_final (fill_reports cfg k p t (Suc i + length qs) (Suc i) qs)
        = replicate (length qs - 1) False @ [True]"
      using Cons.IH [OF False, of "Suc i"] .
    then show ?thesis
      using m by simp
  qed simp
qed simp

lemma market_price_env [simp]:
  "market_price_for (se\<lparr>se_env := e\<rparr>) sy side = market_price_for se sy side"
  "market_price_for (se\<lparr>se_env := e, se_total_fills := n\<rparr>) sy side = market_price_for se sy side"
  by (simp_all add: market_price_for_def)

lemma marketable_env [simp]:
  "marketable (se\<lparr>se_env := e\<rparr>) ord = marketable se ord"
  "marketable (se\<lparr>se_env := e, se_total_fills := n\<rparr>) ord = marketable se ord"
  by (simp_all add: marketable_def)

definition config_ok :: "'d fill_model_config \<Rightarrow> bool" where
  "config_ok cfg \<longleftrightarrow> 1 \<le> fmc_min_partial_fills cfg \<and> fmc_min_partial_fills cfg \<le> fmc_max_partial_fills cfg"

lemma generate_fills_complete:
  assumes "env_in_range en" and "config_ok (se_config se)"
  shows "\<exists>reports e. generate_fills fp en on_fill ord p (se, w)
      = (se\<lparr>se_env := e, se_total_fills := se_total_fills se + of_nat (length reports)\<rparr>,
         fold on_fill reports w) \<and> complete_fill ord p reports"
proof -
  obtain base_ts e1 where now: "env_now en (se_env se) = (base_ts, e1)" by force
  obtain qs e2 where qs: "split_quantity fp en (se_config se) (remaining ord) e1 = (qs, e2)" by force
  have sum: "quantity_sum qs = unat (remaining ord)" "qs \<noteq> []"
    using split_quantity_sum [of en "se_config se" fp "remaining ord" e1] assms qs
    by (auto simp: config_ok_def)
  let ?r = "fill_reports (se_config se) (om_order_id ord) p base_ts (length qs) 0 qs"
  have "complete_fill ord p ?r"
    using sum fill_reports_fields [of "se_config se" "om_order_id ord" p base_ts "length qs" 0 qs]
      fill_reports_final [OF sum(2), of "se_config se" "om_order_id ord" p base_ts 0]
    by (auto simp: complete_fill_def simp flip: length_greater_0_conv)
  then show ?thesis
    using now qs by (intro exI [of _ ?r] exI [of _ e2]) (simp add: generate_fills_def fill_reports_fields)
qed

lemma try_fill_limit_cases:
  assumes "om_type ord \<noteq> Market"
  shows "try_fill_limit fp en on_fill ord st =
    (if marketable (fst st) ord then (True, generate_fills fp en on_fill ord (om_price ord) st)
     else (False, st))"
  using assms by (simp add: try_fill_limit_def marketable_def Let_def)

definition reject_report :: "oms_order \<Rightarrow> timestamp \<Rightarrow> fill_report" where
  "reject_report ord t = \<lparr>fr_order_id = om_order_id ord, fr_fill_price = 0, fr_fill_quantity = 0,
     fr_timestamp = t, fr_is_final = True\<rparr>"

text \<open>
  What the exchange does with an order. Whatever the random numbers, a submitted order is either
  rejected with a single empty report; or, if it is a limit order that does not trade now, queued
  behind the others with no report; or, if it trades now, reported filled completely: the reports
  add up to its remaining quantity, are at the quote for a market order and at the limit for a
  limit order, and only the last of them is final. The counters count exactly this.
\<close>

theorem submit_order_exact:
  assumes "env_in_range en" and "config_ok (se_config se)"
  shows "\<exists>reports se'. submit_order fp en on_fill ord (se, w) = (se', fold on_fill reports w)
    \<and> se_quotes se' = se_quotes se
    \<and> ((\<exists>t. reports = [reject_report ord t] \<and> se_pending_orders se' = se_pending_orders se
          \<and> se_total_rejects se' = se_total_rejects se + 1 \<and> se_total_fills se' = se_total_fills se)
      \<or> (reports = [] \<and> om_type ord \<noteq> Market \<and> \<not> marketable se ord
          \<and> se_pending_orders se' = se_pending_orders se @ [ord]
          \<and> se_total_rejects se' = se_total_rejects se \<and> se_total_fills se' = se_total_fills se)
      \<or> (complete_fill ord (trade_price se ord) reports \<and> marketable se ord
          \<and> se_pending_orders se' = se_pending_orders se
          \<and> se_total_rejects se' = se_total_rejects se
          \<and> se_total_fills se' = se_total_fills se + of_nat (length reports)))"
proof -
  obtain rej e where rej: "should_reject fp en (se_config se) (se_env se) = (rej, e)" by force
  let ?se = "se\<lparr>se_env := e\<rparr>"
  have reject: ?thesis if "submit_order fp en on_fill ord (se, w) = reject_order en on_fill ord (?se, w)"
  proof -
    obtain t e' where t: "env_now en e = (t, e')" by force
    then show ?thesis
      using that by (intro exI [of _ "[reject_report ord (apply_latency (se_config se) t)]"]
          exI [of _ "se\<lparr>se_env := e', se_total_rejects := se_total_rejects se + 1\<rparr>"])
        (simp add: reject_order_def reject_report_def)
  qed
  have fill: ?thesis if "submit_order fp en on_fill ord (se, w)
      = generate_fills fp en on_fill ord (trade_price se ord) (?se, w)" "marketable se ord"
  proof -
    obtain reports e' where "generate_fills fp en on_fill ord (trade_price se ord) (?se, w)
        = (?se\<lparr>se_env := e', se_total_fills := se_total_fills ?se + of_nat (length reports)\<rparr>,
           fold on_fill reports w)" "complete_fill ord (trade_price se ord) reports"
      using generate_fills_complete [OF assms(1), of ?se fp on_fill ord "trade_price se ord" w] assms(2) by auto
    with that show ?thesis
      by (intro exI [of _ reports] exI [of _ "?se\<lparr>se_env := e', se_total_fills := se_total_fills ?se + of_nat (length reports)\<rparr>"]) simp
  qed
  consider "rej" | "\<not> rej" "om_type ord = Market" "market_price_for se (om_symbol ord) (om_side ord) = 0"
    | "\<not> rej" "marketable se ord" | "\<not> rej" "om_type ord \<noteq> Market" "\<not> marketable se ord"
    by (auto simp: marketable_def Let_def)
  then show ?thesis
  proof cases
    case 1 then show ?thesis using rej reject by (simp add: submit_order_def)
  next
    case 2 then show ?thesis using rej reject by (simp add: submit_order_def)
  next
    case 3
    then have "submit_order fp en on_fill ord (se, w)
        = generate_fills fp en on_fill ord (trade_price se ord) (?se, w)"
      using rej by (cases "om_type ord = Market")
        (auto simp: submit_order_def trade_price_def try_fill_limit_cases Let_def marketable_def
          split: prod.splits)
    then show ?thesis
      using fill 3 by simp
  next
    case 4
    then show ?thesis
      using rej by (intro exI [of _ "[]"] exI [of _ "?se\<lparr>se_pending_orders := se_pending_orders se @ [ord]\<rparr>"])
        (simp add: submit_order_def try_fill_limit_cases)
  qed
qed

definition sample_order :: oms_order where
  "sample_order = order_of_decision 1 sample_decision 0"

theorem submit_order_exact_witness:
  "let se = sim_exchange_new sample_config 0;
       (se', w) = submit_order exact_fp sample_env (\<lambda>r w. w @ [r]) sample_order (se, [])
   in (w = [] \<and> se_pending_orders se' = [sample_order]) \<or> (\<exists>t. w = [reject_report sample_order t])"
proof -
  let ?se = "sim_exchange_new sample_config (0 :: nat)"
  have no_trade: "\<not> marketable ?se sample_order" and pending: "se_pending_orders ?se = []"
    by (simp_all add: marketable_def market_price_for_def sim_exchange_new_def)
  have trace: "fold (\<lambda>r w. w @ [r]) rs w = w @ rs" for rs w :: "fill_report list"
    by (induction rs arbitrary: w) simp_all
  have "config_ok (se_config ?se)"
    by (simp add: config_ok_def sim_exchange_new_def sample_config_def)
  from submit_order_exact [OF sample_env_in_range this, of exact_fp "\<lambda>r w. w @ [r]" sample_order "[]"]
  show ?thesis
    using no_trade pending by (auto simp: trace)
qed

section \<open>Pending orders\<close>

lemma generate_fills_keeps:
  "market_price_for (fst (generate_fills fp en on_fill ord p st)) = market_price_for (fst st)"
  "se_pending_orders (fst (generate_fills fp en on_fill ord p st)) = se_pending_orders (fst st)"
  by (simp_all add: generate_fills_def split_beta Let_def market_price_for_def fun_eq_iff)

lemma marketable_cong:
  "market_price_for se = market_price_for se' \<Longrightarrow> marketable se = marketable se'"
  by (simp add: marketable_def fun_eq_iff)

lemma check_loop_filter:
  assumes "\<forall>ord \<in> set ords. om_type ord \<noteq> Market"
  shows "fst (check_loop fp en on_fill ords st) = filter (\<lambda>ord. \<not> marketable (fst st) ord) ords
    \<and> market_price_for (fst (snd (check_loop fp en on_fill ords st))) = market_price_for (fst st)"
  using assms
proof (induction ords arbitrary: st)
  case (Cons ord ords)
  show ?case
  proof (cases "marketable (fst st) ord")
    case True
    let ?st = "generate_fills fp en on_fill ord (om_price ord) st"
    have "marketable (fst ?st) = marketable (fst st)"
      by (rule marketable_cong) (rule generate_fills_keeps)
    then show ?thesis
      using Cons.IH [of ?st] Cons.prems True generate_fills_keeps(1) [of fp en on_fill ord "om_price ord" st]
      by (simp add: try_fill_limit_cases split_beta Let_def)
  next
    case False
    then show ?thesis
      using Cons.IH [of st] Cons.prems by (simp add: try_fill_limit_cases split_beta Let_def)
  qed
qed simp

text \<open>
  After a market update no order that could trade is left waiting: the pending orders are
  those, in their order, that do not trade at the new quote, and all others were filled.
\<close>

theorem market_update_fills_crossed:
  fixes se :: "('e, 'd) sim_exchange" and fp en on_fill w sy bid ask
  defines "se' \<equiv> fst (on_market_update fp en on_fill sy bid ask (se, w))"
  assumes "\<forall>ord \<in> set (se_pending_orders se). om_type ord \<noteq> Market"
  shows "se_pending_orders se' = filter (\<lambda>ord. \<not> marketable se' ord) (se_pending_orders se)
    \<and> (\<forall>ord \<in> set (se_pending_orders se'). \<not> marketable se' ord)"
proof -
  let ?q = "se\<lparr>se_quotes := (se_quotes se)(as_key sy \<mapsto> \<lparr>mq_best_bid = bid, mq_best_ask = ask\<rparr>)\<rparr>"
  let ?c = "check_loop fp en on_fill (se_pending_orders se) (?q, w)"
  have se': "se' = (fst (snd ?c))\<lparr>se_pending_orders := fst ?c\<rparr>"
    by (simp add: se'_def on_market_update_def check_pending_orders_def split_beta Let_def)
  have c: "fst ?c = filter (\<lambda>ord. \<not> marketable ?q ord) (se_pending_orders se)"
    "market_price_for (fst (snd ?c)) = market_price_for ?q"
    using check_loop_filter [OF assms(2), of fp en on_fill "(?q, w)"] by simp_all
  have "market_price_for se' = market_price_for (fst (snd ?c))"
    by (simp add: se' market_price_for_def fun_eq_iff)
  then have "marketable se' = marketable ?q"
    using c(2) by (intro marketable_cong) simp
  then show ?thesis
    using se' c(1) by simp
qed

theorem market_update_fills_crossed_witness:
  "se_pending_orders (fst (on_market_update exact_fp sample_env (\<lambda>r w. w @ [r]) symbol_default 99 100
     ((sim_exchange_new sample_config 0)\<lparr>se_pending_orders := [sample_order]\<rparr>, []))) = []"
  using market_update_fills_crossed [of "(sim_exchange_new sample_config 0)\<lparr>se_pending_orders := [sample_order]\<rparr>"
      exact_fp sample_env "\<lambda>r w. w @ [r]" symbol_default 99 100 "[]"]
  by (simp add: sample_order_def order_of_decision_def sample_decision_def marketable_def Let_def
      on_market_update_def check_pending_orders_def try_fill_limit_def market_price_for_def
      generate_fills_def split_beta sim_exchange_new_def)

text \<open>
  A rejection by the exchange reaches the order manager as a fill. The exchange reports a
  rejection as a final fill of quantity zero; the order manager accepts it for an acknowledged
  order, answers with success and leaves the order open as \<open>PartialFill\<close>, so the order is never
  \<open>Rejected\<close>.
\<close>

theorem exchange_reject_is_partial_fill:
  assumes "get_order om (om_order_id ord) = Some ord" and "om_state ord = Acked"
    and "om_filled_quantity ord < om_quantity ord"
  shows "\<exists>ord'. om_on_fill t t' (reject_report ord ts) om
      = (\<lparr>omr_success = True, omr_order_id = om_order_id ord, omr_error = []\<rparr>,
         snd (om_on_fill t t' (reject_report ord ts) om))
    \<and> get_order (snd (om_on_fill t t' (reject_report ord ts) om)) (om_order_id ord) = Some ord'
    \<and> om_state ord' = PartialFill \<and> \<not> is_terminal ord'"
  using assms
  by (auto simp: om_on_fill_def omg_find_def get_order_def reject_report_def apply_transition_edge
      Let_def is_terminal_def is_terminal_state_def not_le)

theorem exchange_reject_is_partial_fill_witness:
  "\<exists>ord'. get_order (snd (om_on_fill 1 2 (reject_report (sample_order\<lparr>om_state := Acked\<rparr>) 3)
       (order_manager_new\<lparr>omg_orders := [1 \<mapsto> sample_order\<lparr>om_state := Acked\<rparr>]\<rparr>))) 1 = Some ord'
     \<and> om_state ord' = PartialFill"
  using exchange_reject_is_partial_fill [of "order_manager_new\<lparr>omg_orders := [1 \<mapsto> sample_order\<lparr>om_state := Acked\<rparr>]\<rparr>"
      "sample_order\<lparr>om_state := Acked\<rparr>" 1 2 3]
  by (auto simp: get_order_def sample_order_def order_of_decision_def sample_decision_def)

end
