(* ===== verification/Decimal.thy ===== *)
theory Decimal
  imports Prelude
begin

text \<open>
  Decimal text, as the standard library writes and reads it: \<open>std::to_string\<close> of an integer,
  \<open>snprintf\<close> with \<open>%03u\<close>, and \<open>std::stoi\<close> / \<open>std::stoll\<close>, which skip white space, take a sign and the
  longest run of digits, ignore what follows, and raise an exception (\<open>None\<close>) when there is no
  digit or the value does not fit.
\<close>

definition digit_char :: "nat \<Rightarrow> char" where
  "digit_char d = char_of (48 + d)"

definition digit_value :: "char \<Rightarrow> nat" where
  "digit_value c = of_char c - 48"

definition is_digit :: "char \<Rightarrow> bool" where
  "is_digit c \<longleftrightarrow> 48 \<le> (of_char c :: nat) \<and> (of_char c :: nat) \<le> 57"

fun show_nat :: "nat \<Rightarrow> string" where
  "show_nat n = (if n < 10 then [digit_char n] else show_nat (n div 10) @ [digit_char (n mod 10)])"

declare show_nat.simps [simp del]

definition show_int :: "int \<Rightarrow> string" where
  "show_int i = (if i < 0 then CHR ''-'' # show_nat (nat (- i)) else show_nat (nat i))"

definition pad3 :: "nat \<Rightarrow> string" where
  "pad3 n = replicate (3 - length (show_nat n)) (CHR ''0'') @ show_nat n"

definition digits_value :: "string \<Rightarrow> nat" where
  "digits_value ds = foldl (\<lambda>v c. 10 * v + digit_value c) 0 ds"

definition is_space :: "char \<Rightarrow> bool" where
  "is_space c \<longleftrightarrow> (of_char c :: nat) = 32 \<or> 9 \<le> (of_char c :: nat) \<and> (of_char c :: nat) \<le> 13"

definition sto_int :: "nat \<Rightarrow> string \<Rightarrow> int option" where
  "sto_int bits str =
     (let str = dropWhile is_space str;
          (neg, str) = (case str of
             c # cs \<Rightarrow> if c = CHR ''-'' then (True, cs) else if c = CHR ''+'' then (False, cs) else (False, str)
           | [] \<Rightarrow> (False, []));
          ds = takeWhile is_digit str;
          v = (if neg then - int (digits_value ds) else int (digits_value ds))
      in if ds = [] then None
         else if v < - (2 ^ (bits - 1)) \<or> 2 ^ (bits - 1) \<le> v then None else Some v)"

abbreviation stoi :: "string \<Rightarrow> int option" where "stoi \<equiv> sto_int 32"
abbreviation stoll :: "string \<Rightarrow> int option" where "stoll \<equiv> sto_int 64"

section \<open>Reading back what was written\<close>

lemma digit_char_value [simp]: "d < 10 \<Longrightarrow> digit_value (digit_char d) = d"
  by (simp add: digit_value_def digit_char_def)

lemma is_digit_digit_char [simp]: "d < 10 \<Longrightarrow> is_digit (digit_char d)"
  by (simp add: is_digit_def digit_char_def)

lemma digits_value_snoc [simp]: "digits_value (ds @ [c]) = 10 * digits_value ds + digit_value c"
  by (simp add: digits_value_def)

lemma digits_value_show_nat [simp]: "digits_value (show_nat n) = n"
proof (induction n rule: show_nat.induct)
  case (1 n)
  have "digits_value [digit_char n] = n" if "n < 10"
    using that by (simp add: digits_value_def)
  then show ?case
    using 1 by (subst show_nat.simps) auto
qed

lemma show_nat_digits: "list_all is_digit (show_nat n)"
proof (induction n rule: show_nat.induct)
  case (1 n)
  then show ?case
    by (subst show_nat.simps) auto
qed

lemma show_nat_not_Nil [simp]: "show_nat n \<noteq> []"
  by (subst show_nat.simps) auto

lemma length_show_nat: "length (show_nat n) \<le> Suc n"
proof (induction n rule: show_nat.induct)
  case (1 n)
  then show ?case
    by (subst show_nat.simps) auto
qed

lemma length_show_nat_3: "n < 1000 \<Longrightarrow> length (show_nat n) \<le> 3"
  by (simp add: show_nat.simps [of n] show_nat.simps [of "n div 10"] show_nat.simps [of "n div 10 div 10"])

lemma length_pad3: "n < 1000 \<Longrightarrow> length (pad3 n) = 3"
  using length_show_nat_3 [of n] by (simp add: pad3_def)

lemma show_nat_Cons:
  obtains c cs where "show_nat n = c # cs" "is_digit c" "list_all is_digit cs"
  using show_nat_digits [of n] by (cases "show_nat n") auto

lemma digit_not_special:
  assumes "is_digit c"
  shows "\<not> is_space c" "c \<noteq> CHR ''-''" "c \<noteq> CHR ''+''" "c \<noteq> CHR ''=''"
    "c \<noteq> CHR 0x01"
  using assms by (auto simp: is_digit_def is_space_def)

lemma takeWhile_digits:
  "list_all is_digit ds \<Longrightarrow> (case rest of [] \<Rightarrow> True | c # _ \<Rightarrow> \<not> is_digit c) \<Longrightarrow>
     takeWhile is_digit (ds @ rest) = ds"
  by (induction ds) (auto split: list.splits)

lemma sto_int_show_nat:
  assumes "n < 2 ^ (bits - 1)"
  shows "sto_int bits (show_nat n) = Some (int n)"
proof -
  obtain c cs where n: "show_nat n = c # cs" "is_digit c" "list_all is_digit cs"
    by (rule show_nat_Cons)
  have ds: "takeWhile is_digit (c # cs) = c # cs"
    using takeWhile_digits [of "c # cs" "[]"] n(2,3) by simp
  have v: "digits_value (c # cs) = n"
    using digits_value_show_nat [of n] n(1) by simp
  have "\<not> int n < - (2 ^ (bits - 1))"
    by (simp add: not_less order_trans [of _ 0])
  then show ?thesis
    using assms digit_not_special [OF n(2)]
    by (simp add: sto_int_def n(1) Let_def ds v del: takeWhile.simps)
qed

lemma sto_int_show_int:
  assumes "- (2 ^ (bits - 1)) \<le> i" and "i < 2 ^ (bits - 1)"
  shows "sto_int bits (show_int i) = Some i"
proof (cases "i < 0")
  case False
  then have "nat i < 2 ^ (bits - 1)"
    using assms(2) by (simp add: nat_less_iff)
  then show ?thesis
    using sto_int_show_nat [of "nat i" bits] False by (simp add: show_int_def)
next
  case True
  have ds: "takeWhile is_digit (show_nat (nat (- i))) = show_nat (nat (- i))"
    using takeWhile_digits [of "show_nat (nat (- i))" "[]"] show_nat_digits by simp
  have "\<not> is_space (CHR ''-'')"
    by (simp add: is_space_def)
  then show ?thesis
    using True assms by (simp add: show_int_def sto_int_def Let_def ds)
qed

lemma show_int_chars:
  "c \<in> set (show_int i) \<Longrightarrow> c \<noteq> CHR ''='' \<and> c \<noteq> CHR 0x01"
  using show_nat_digits digit_not_special(4,5)
  by (auto simp: show_int_def list_all_iff split: if_splits)

lemma show_nat_chars: "c \<in> set (show_nat n) \<Longrightarrow> c \<noteq> CHR ''='' \<and> c \<noteq> CHR 0x01"
  using show_nat_digits digit_not_special(4,5) by (auto simp: list_all_iff)

lemma show_int_of_nat: "show_int (int n) = show_nat n"
  by (simp add: show_int_def)

lemma show_int_inject_nat: "show_nat a = show_nat b \<longleftrightarrow> a = b"
  by (metis digits_value_show_nat)

end
