(* ===== verification/Fix_Message.thy ===== *)
theory Fix_Message
  imports Decimal Floating
begin

text \<open>
  FIX 4.4 messages (\<open>protocol/fix/fix_fields.hpp\<close>, \<open>protocol/fix/fix_message.hpp\<close>): the field list
  with its builder and accessors, serialization with body length and checksum, the parser, the
  validators, and the framing helper that finds the first complete message of a byte stream.

  A message is the list of its fields. A position in a text is a \<open>nat\<close>; the end of a framed message
  is computed in \<open>size_t\<close> from an \<open>int\<close> body length that may be negative, so that sum is a 64 bit
  word. Formatting and reading a \<open>double\<close> are parameters of the code that uses them.
\<close>

section \<open>Fields\<close>

definition Tag_BeginString :: int where "Tag_BeginString = 8"
definition Tag_BodyLength :: int where "Tag_BodyLength = 9"
definition Tag_CheckSum :: int where "Tag_CheckSum = 10"
definition Tag_MsgSeqNum :: int where "Tag_MsgSeqNum = 34"
definition Tag_MsgType :: int where "Tag_MsgType = 35"
definition Tag_SenderCompID :: int where "Tag_SenderCompID = 49"
definition Tag_SendingTime :: int where "Tag_SendingTime = 52"
definition Tag_TargetCompID :: int where "Tag_TargetCompID = 56"
definition Tag_EncryptMethod :: int where "Tag_EncryptMethod = 98"
definition Tag_HeartBtInt :: int where "Tag_HeartBtInt = 108"
definition Tag_TestReqID :: int where "Tag_TestReqID = 112"
definition Tag_ResetSeqNumFlag :: int where "Tag_ResetSeqNumFlag = 141"
definition Tag_BeginSeqNo :: int where "Tag_BeginSeqNo = 7"
definition Tag_EndSeqNo :: int where "Tag_EndSeqNo = 16"
definition Tag_NewSeqNo :: int where "Tag_NewSeqNo = 36"
definition Tag_GapFillFlag :: int where "Tag_GapFillFlag = 123"
definition Tag_RefSeqNum :: int where "Tag_RefSeqNum = 45"
definition Tag_Text :: int where "Tag_Text = 58"
definition Tag_SessionRejectReason :: int where "Tag_SessionRejectReason = 373"
definition Tag_AvgPx :: int where "Tag_AvgPx = 6"
definition Tag_ClOrdID :: int where "Tag_ClOrdID = 11"
definition Tag_CumQty :: int where "Tag_CumQty = 14"
definition Tag_ExecID :: int where "Tag_ExecID = 17"
definition Tag_HandlInst :: int where "Tag_HandlInst = 21"
definition Tag_OrderID :: int where "Tag_OrderID = 37"
definition Tag_OrderQty :: int where "Tag_OrderQty = 38"
definition Tag_OrdStatus :: int where "Tag_OrdStatus = 39"
definition Tag_OrdType :: int where "Tag_OrdType = 40"
definition Tag_OrigClOrdID :: int where "Tag_OrigClOrdID = 41"
definition Tag_Price :: int where "Tag_Price = 44"
definition Tag_Side :: int where "Tag_Side = 54"
definition Tag_Symbol :: int where "Tag_Symbol = 55"
definition Tag_TimeInForce :: int where "Tag_TimeInForce = 59"
definition Tag_TransactTime :: int where "Tag_TransactTime = 60"
definition Tag_ExecType :: int where "Tag_ExecType = 150"
definition Tag_LeavesQty :: int where "Tag_LeavesQty = 151"
definition Tag_LastQty :: int where "Tag_LastQty = 32"
definition Tag_LastPx :: int where "Tag_LastPx = 31"

lemmas tag_defs = Tag_BeginString_def Tag_BodyLength_def Tag_CheckSum_def Tag_MsgSeqNum_def
  Tag_MsgType_def Tag_SenderCompID_def Tag_SendingTime_def Tag_TargetCompID_def
  Tag_EncryptMethod_def Tag_HeartBtInt_def Tag_TestReqID_def Tag_ResetSeqNumFlag_def
  Tag_BeginSeqNo_def Tag_EndSeqNo_def Tag_NewSeqNo_def Tag_GapFillFlag_def Tag_RefSeqNum_def
  Tag_Text_def Tag_SessionRejectReason_def Tag_AvgPx_def Tag_ClOrdID_def Tag_CumQty_def
  Tag_ExecID_def Tag_HandlInst_def Tag_OrderID_def Tag_OrderQty_def Tag_OrdStatus_def
  Tag_OrdType_def Tag_OrigClOrdID_def Tag_Price_def Tag_Side_def Tag_Symbol_def
  Tag_TimeInForce_def Tag_TransactTime_def Tag_ExecType_def Tag_LeavesQty_def Tag_LastQty_def
  Tag_LastPx_def

definition MsgType_Heartbeat :: char where "MsgType_Heartbeat = CHR ''0''"
definition MsgType_TestRequest :: char where "MsgType_TestRequest = CHR ''1''"
definition MsgType_ResendRequest :: char where "MsgType_ResendRequest = CHR ''2''"
definition MsgType_Reject :: char where "MsgType_Reject = CHR ''3''"
definition MsgType_SequenceReset :: char where "MsgType_SequenceReset = CHR ''4''"
definition MsgType_Logout :: char where "MsgType_Logout = CHR ''5''"
definition MsgType_Logon :: char where "MsgType_Logon = CHR ''A''"
definition MsgType_NewOrderSingle :: char where "MsgType_NewOrderSingle = CHR ''D''"
definition MsgType_OrderCancelRequest :: char where "MsgType_OrderCancelRequest = CHR ''F''"
definition MsgType_ExecutionReport :: char where "MsgType_ExecutionReport = CHR ''8''"
definition MsgType_OrderCancelReject :: char where "MsgType_OrderCancelReject = CHR ''9''"

lemmas msg_type_defs = MsgType_Heartbeat_def MsgType_TestRequest_def MsgType_ResendRequest_def
  MsgType_Reject_def MsgType_SequenceReset_def MsgType_Logout_def MsgType_Logon_def
  MsgType_NewOrderSingle_def MsgType_OrderCancelRequest_def MsgType_ExecutionReport_def
  MsgType_OrderCancelReject_def

definition FIX_BEGIN_STRING :: string where "FIX_BEGIN_STRING = ''FIX.4.4''"
definition SOH :: char where "SOH = CHR 0x01"

section \<open>Building and reading\<close>

type_synonym fix_message = "(int \<times> string) list"

fun set_tag :: "int \<Rightarrow> string \<Rightarrow> fix_message \<Rightarrow> fix_message" where
  "set_tag tag v [] = [(tag, v)]"
| "set_tag tag v ((t, u) # fs) =
     (if t = tag then (t, v) # fs else (t, u) # set_tag tag v fs)"

definition set_tag_char :: "int \<Rightarrow> char \<Rightarrow> fix_message \<Rightarrow> fix_message" where
  "set_tag_char tag c msg = set_tag tag [c] msg"

definition set_tag_int :: "int \<Rightarrow> int \<Rightarrow> fix_message \<Rightarrow> fix_message" where
  "set_tag_int tag i msg = set_tag tag (show_int i) msg"

fun get_tag :: "fix_message \<Rightarrow> int \<Rightarrow> string option" where
  "get_tag [] tag = None"
| "get_tag ((t, v) # fs) tag = (if t = tag then Some v else get_tag fs tag)"

definition has_tag :: "fix_message \<Rightarrow> int \<Rightarrow> bool" where
  "has_tag msg tag = list_ex (\<lambda>f. fst f = tag) msg"

definition get_tag_int :: "fix_message \<Rightarrow> int \<Rightarrow> int option" where
  "get_tag_int msg tag = (case get_tag msg tag of None \<Rightarrow> None | Some v \<Rightarrow> stoll v)"

definition get_tag_double :: "(string \<Rightarrow> 'd option) \<Rightarrow> fix_message \<Rightarrow> int \<Rightarrow> 'd option" where
  "get_tag_double stod msg tag = (case get_tag msg tag of None \<Rightarrow> None | Some v \<Rightarrow> stod v)"

definition msg_type :: "fix_message \<Rightarrow> char" where
  "msg_type msg = (case get_tag msg Tag_MsgType of
     Some (c # _) \<Rightarrow> c | _ \<Rightarrow> CHR 0x00)"

definition msg_seq_num :: "fix_message \<Rightarrow> u32" where
  "msg_seq_num msg = (case get_tag_int msg Tag_MsgSeqNum of Some i \<Rightarrow> of_int i | None \<Rightarrow> 0)"

definition remove_tag :: "int \<Rightarrow> fix_message \<Rightarrow> fix_message" where
  "remove_tag tag msg = filter (\<lambda>f. fst f \<noteq> tag) msg"

definition field_count :: "fix_message \<Rightarrow> nat" where
  "field_count msg = length msg"

lemma get_tag_set_tag [simp]: "get_tag (set_tag t v msg) u = (if t = u then Some v else get_tag msg u)"
  by (induction t v msg rule: set_tag.induct) auto

lemma get_tag_set_tag_int [simp]:
  "get_tag (set_tag_int t i msg) u = (if t = u then Some (show_int i) else get_tag msg u)"
  by (simp add: set_tag_int_def)

lemma get_tag_set_tag_char [simp]:
  "get_tag (set_tag_char t c msg) u = (if t = u then Some [c] else get_tag msg u)"
  by (simp add: set_tag_char_def)

section \<open>Serialization\<close>

definition field_text :: "int \<Rightarrow> string \<Rightarrow> string" where
  "field_text tag v = show_int tag @ CHR ''='' # v @ [SOH]"

definition fields_text :: "fix_message \<Rightarrow> string" where
  "fields_text fs = concat (map (\<lambda>(t, v). field_text t v) fs)"

definition body_fields :: "fix_message \<Rightarrow> fix_message" where
  "body_fields msg =
     filter (\<lambda>(t, _). \<not> (t = Tag_BeginString \<or> t = Tag_BodyLength \<or> t = Tag_CheckSum)) msg"

definition checksum :: "string \<Rightarrow> nat" where
  "checksum str = unat (foldl (\<lambda>s c. s + of_nat (of_char c)) (0 :: u32) str mod 256)"

definition serialize :: "fix_message \<Rightarrow> string" where
  "serialize msg =
     (let body = fields_text (body_fields msg);
          header = field_text Tag_BeginString FIX_BEGIN_STRING
            @ field_text Tag_BodyLength (show_nat (length body));
          pre_checksum = header @ body
      in pre_checksum @ field_text Tag_CheckSum (pad3 (checksum pre_checksum)))"

section \<open>Parsing\<close>

text \<open>
  The loop on the rest of the input from \<open>pos\<close>. A value runs to the next delimiter, or to the end
  when there is none; \<open>stoi\<close> raising makes the whole message malformed.
\<close>

function parse_loop :: "string \<Rightarrow> fix_message \<Rightarrow> fix_message option" where
  "parse_loop input fs =
     (if input = [] then Some fs
      else if CHR ''='' \<notin> set input then Some fs
      else
        let tag_str = takeWhile (\<lambda>c. c \<noteq> CHR ''='') input;
            after_eq = drop 1 (dropWhile (\<lambda>c. c \<noteq> CHR ''='') input);
            v = takeWhile (\<lambda>c. c \<noteq> SOH) after_eq;
            rest = drop 1 (dropWhile (\<lambda>c. c \<noteq> SOH) after_eq)
        in case stoi tag_str of
             None \<Rightarrow> None
           | Some tag \<Rightarrow> parse_loop rest (fs @ [(tag, v)]))"
  by pat_completeness auto

lemma drop_dropWhile_length: "length (drop 1 (dropWhile P xs)) \<le> length xs - 1"
  using length_dropWhile_le [of P xs] by simp

lemma parse_rest_shorter:
  assumes "xs \<noteq> []"
  shows "length (drop 1 (dropWhile P (drop 1 (dropWhile Q xs)))) < length xs"
proof -
  have "length (drop 1 (dropWhile P (drop 1 (dropWhile Q xs)))) \<le> length (drop 1 (dropWhile Q xs)) - 1"
    by (rule drop_dropWhile_length)
  also have "\<dots> \<le> length xs - 1"
    using drop_dropWhile_length [of Q xs] by simp
  also have "\<dots> < length xs"
    using assms by simp
  finally show ?thesis .
qed

termination parse_loop
  using parse_rest_shorter by (relation "measure (\<lambda>(input, _). length input)") auto

declare parse_loop.simps [simp del]

definition parse_fix :: "string \<Rightarrow> fix_message option" where
  "parse_fix input =
     (if input = [] then None
      else case parse_loop input [] of
             None \<Rightarrow> None
           | Some fs \<Rightarrow> if fs = [] then None else Some fs)"

section \<open>Validation and framing\<close>

definition validate_checksum :: "fix_message \<Rightarrow> bool" where
  "validate_checksum msg =
     (case get_tag msg Tag_CheckSum of
        None \<Rightarrow> False
      | Some declared \<Rightarrow>
          let body = fields_text (filter (\<lambda>(t, _). t \<noteq> Tag_CheckSum) msg)
          in declared = pad3 (checksum body))"

definition validate_body_length :: "fix_message \<Rightarrow> bool" where
  "validate_body_length msg =
     (case get_tag_int msg Tag_BodyLength of
        None \<Rightarrow> False
      | Some declared \<Rightarrow> int (length (fields_text (body_fields msg))) = declared)"

definition fix_is_valid :: "fix_message \<Rightarrow> bool" where
  "fix_is_valid msg \<longleftrightarrow> has_tag msg Tag_BeginString \<and> has_tag msg Tag_BodyLength
     \<and> has_tag msg Tag_MsgType \<and> has_tag msg Tag_SenderCompID \<and> has_tag msg Tag_TargetCompID
     \<and> has_tag msg Tag_MsgSeqNum \<and> has_tag msg Tag_SendingTime \<and> has_tag msg Tag_CheckSum"

fun find_text :: "string \<Rightarrow> string \<Rightarrow> nat option" where
  "find_text pat [] = (if pat = [] then Some 0 else None)"
| "find_text pat (c # cs) =
     (if take (length pat) (c # cs) = pat then Some 0 else map_option Suc (find_text pat cs))"

definition extract_message_length :: "string \<Rightarrow> nat" where
  "extract_message_length input =
     (if take 2 input \<noteq> ''8='' then 0
      else case find_text (SOH # ''9='') input of
        None \<Rightarrow> 0
      | Some tag9_pos \<Rightarrow>
          let eq_pos = tag9_pos + 2;
              after_eq = drop (eq_pos + 1) input;
              body_len_str = takeWhile (\<lambda>c. c \<noteq> SOH) after_eq
          in if SOH \<notin> set after_eq then 0
             else case stoi body_len_str of
               None \<Rightarrow> 0
             | Some body_length \<Rightarrow>
                 let soh_after_9 = eq_pos + 1 + length body_len_str;
                     body_start = soh_after_9 + 1;
                     checksum_end = (of_nat body_start + of_int body_length + 7 :: u64)
                 in if length input < unat checksum_end then 0 else unat checksum_end)"

section \<open>The round trip\<close>

text \<open>
  Texts that a FIX message can carry: a tag that is an \<open>int\<close>, and a value without the delimiter.
\<close>

definition field_ok :: "int \<times> string \<Rightarrow> bool" where
  "field_ok f \<longleftrightarrow> - (2 ^ 31) \<le> fst f \<and> fst f < 2 ^ 31 \<and> SOH \<notin> set (snd f)"

definition wire_fields :: "fix_message \<Rightarrow> fix_message" where
  "wire_fields msg =
     (let body = fields_text (body_fields msg);
          header = [(Tag_BeginString, FIX_BEGIN_STRING), (Tag_BodyLength, show_nat (length body))]
      in header @ body_fields msg
         @ [(Tag_CheckSum, pad3 (checksum (fields_text (header @ body_fields msg))))])"

lemma fields_text_simps [simp]:
  "fields_text [] = []" "fields_text ((t, v) # fs) = field_text t v @ fields_text fs"
  "fields_text (fs @ gs) = fields_text fs @ fields_text gs"
  by (simp_all add: fields_text_def)

lemma serialize_wire_fields: "serialize msg = fields_text (wire_fields msg)"
  by (simp add: serialize_def wire_fields_def Let_def)

lemma takeWhile_neq: "c \<notin> set xs \<Longrightarrow> takeWhile (\<lambda>x. x \<noteq> c) (xs @ c # ys) = xs"
  by (induction xs) auto

lemma dropWhile_neq: "c \<notin> set xs \<Longrightarrow> dropWhile (\<lambda>x. x \<noteq> c) (xs @ c # ys) = c # ys"
  by (induction xs) auto

lemma parse_loop_field:
  assumes "field_ok (t, v)"
  shows "parse_loop (field_text t v @ rest) fs = parse_loop rest (fs @ [(t, v)])"
proof -
  have tag: "CHR ''='' \<notin> set (show_int t)"
    using show_int_chars by blast
  have "stoi (show_int t) = Some t"
    using assms by (intro sto_int_show_int) (simp_all add: field_ok_def)
  then show ?thesis
    using assms
    by (subst parse_loop.simps)
      (simp add: field_text_def takeWhile_neq [OF tag] dropWhile_neq [OF tag] Let_def field_ok_def
        takeWhile_neq dropWhile_neq)
qed

lemma parse_loop_fields:
  "list_all field_ok gs \<Longrightarrow> parse_loop (fields_text gs @ rest) fs = parse_loop rest (fs @ gs)"
proof (induction gs arbitrary: fs)
  case (Cons g gs)
  then show ?case
    by (cases g) (simp add: parse_loop_field)
qed simp

lemma pad3_chars: "SOH \<notin> set (pad3 n)"
  using show_nat_chars by (auto simp: pad3_def SOH_def)

lemma wire_fields_ok: "list_all field_ok msg \<Longrightarrow> list_all field_ok (wire_fields msg)"
  using pad3_chars show_nat_chars
  by (auto simp: wire_fields_def Let_def field_ok_def tag_defs FIX_BEGIN_STRING_def SOH_def
      body_fields_def list_all_iff)

lemma parse_serialize:
  assumes "list_all field_ok msg"
  shows "parse_fix (serialize msg) = Some (wire_fields msg)"
proof -
  have "parse_loop (fields_text (wire_fields msg)) [] = parse_loop [] (wire_fields msg)"
    using parse_loop_fields [OF wire_fields_ok [OF assms], of "[]" "[]"] by simp
  also have "\<dots> = Some (wire_fields msg)"
    by (subst parse_loop.simps) simp
  moreover have "fields_text (wire_fields msg) \<noteq> []" "wire_fields msg \<noteq> []"
    by (simp_all add: wire_fields_def Let_def field_text_def)
  ultimately show ?thesis
    by (simp add: parse_fix_def serialize_wire_fields)
qed

lemma body_fields_no_special:
  "(t, v) \<in> set (body_fields msg) \<Longrightarrow> t \<noteq> Tag_BeginString \<and> t \<noteq> Tag_BodyLength \<and> t \<noteq> Tag_CheckSum"
  by (auto simp: body_fields_def)

lemma get_tag_append:
  "get_tag (fs @ gs) t = (case get_tag fs t of None \<Rightarrow> get_tag gs t | Some v \<Rightarrow> Some v)"
  by (induction fs) auto

lemma get_tag_None: "get_tag fs t = None \<longleftrightarrow> t \<notin> fst ` set fs"
  by (induction fs) (auto split: if_splits)

lemma get_tag_body:
  "t \<noteq> Tag_BeginString \<Longrightarrow> t \<noteq> Tag_BodyLength \<Longrightarrow> t \<noteq> Tag_CheckSum \<Longrightarrow>
     get_tag (body_fields msg) t = get_tag msg t"
  unfolding body_fields_def by (induction msg) auto

lemma get_tag_special:
  "get_tag (body_fields msg) Tag_CheckSum = None"
  "get_tag (body_fields msg) Tag_BodyLength = None"
  by (auto simp: get_tag_None dest: body_fields_no_special)

lemma get_tag_wire:
  "t \<noteq> Tag_BeginString \<Longrightarrow> t \<noteq> Tag_BodyLength \<Longrightarrow> t \<noteq> Tag_CheckSum \<Longrightarrow>
     get_tag (wire_fields msg) t = get_tag msg t"
  using get_tag_body [of t msg]
  by (auto simp: wire_fields_def Let_def get_tag_append split: option.splits)

lemma list_all_set_tag: "field_ok (t, v) \<Longrightarrow> list_all field_ok msg \<Longrightarrow> list_all field_ok (set_tag t v msg)"
  by (induction t v msg rule: set_tag.induct) (auto simp: field_ok_def)

lemma checksum_less: "checksum str < 256"
  by (simp add: checksum_def unat_mod)

lemma length_serialize:
  "length (serialize msg) = length (fields_text (body_fields msg))
     + length (show_nat (length (fields_text (body_fields msg)))) + 20"
  using length_pad3 [OF less_trans [OF checksum_less]]
  by (simp add: serialize_def Let_def field_text_def tag_defs FIX_BEGIN_STRING_def show_int_def
      show_nat.simps [of 8] show_nat.simps [of 9] show_nat.simps [of 10] show_nat.simps [of "Suc 0"])

text \<open>
  C14. FIX messages survive the wire. Serializing a message and parsing the text gives its fields in
  order, between the generated begin string and body length and the generated checksum; the
  checksum and the body length of the result validate; and every tag but these three reads as it
  did before.
\<close>

theorem fix_roundtrip:
  assumes "list_all field_ok msg" and "length (serialize msg) < 2 ^ 31"
  shows "\<exists>parsed. parse_fix (serialize msg) = Some parsed
    \<and> body_fields parsed = body_fields msg
    \<and> validate_checksum parsed \<and> validate_body_length parsed
    \<and> (\<forall>t. t \<notin> {Tag_BeginString, Tag_BodyLength, Tag_CheckSum} \<longrightarrow> get_tag parsed t = get_tag msg t)"
proof (intro exI conjI allI impI)
  let ?b = "body_fields msg"
  let ?h = "[(Tag_BeginString, FIX_BEGIN_STRING), (Tag_BodyLength, show_nat (length (fields_text ?b)))]"
  have body: "body_fields (wire_fields msg) = ?b"
    by (auto simp: wire_fields_def Let_def body_fields_def)
  show "parse_fix (serialize msg) = Some (wire_fields msg)"
    by (rule parse_serialize [OF assms(1)])
  show "body_fields (wire_fields msg) = ?b"
    by (rule body)
  have "filter (\<lambda>(t, _). t \<noteq> Tag_CheckSum) ?b = ?b"
    using body_fields_no_special by (fastforce intro: filter_True)
  then show "validate_checksum (wire_fields msg)"
    by (simp add: validate_checksum_def wire_fields_def Let_def get_tag_append get_tag_special)
      (simp add: tag_defs)
  have "length (fields_text ?b) < 2 ^ 31"
    using assms(2) by (simp add: serialize_def Let_def)
  then have "stoll (show_nat (length (fields_text ?b))) = Some (int (length (fields_text ?b)))"
    by (intro sto_int_show_nat) simp
  then show "validate_body_length (wire_fields msg)"
    using body by (simp add: validate_body_length_def get_tag_int_def)
      (simp add: wire_fields_def Let_def tag_defs)
  show "get_tag (wire_fields msg) t = get_tag msg t"
    if "t \<notin> {Tag_BeginString, Tag_BodyLength, Tag_CheckSum}" for t
    using that by (intro get_tag_wire) auto
qed

definition sample_fix :: fix_message where
  "sample_fix = [(Tag_MsgType, ''D''), (Tag_SenderCompID, ''A''), (Tag_Symbol, ''AAPL'')]"

theorem fix_roundtrip_witness:
  "\<exists>parsed. parse_fix (serialize sample_fix) = Some parsed \<and> validate_checksum parsed
     \<and> get_tag parsed Tag_Symbol = Some ''AAPL''"
proof -
  have "length (serialize sample_fix) < 2 ^ 31"
    using length_show_nat [of 35] length_show_nat [of 49] length_show_nat [of 55]
      length_show_nat [of "length (fields_text sample_fix)"]
    by (simp add: length_serialize) (simp add: sample_fix_def body_fields_def tag_defs field_text_def show_int_def)
  moreover have "list_all field_ok sample_fix"
    by (simp add: sample_fix_def field_ok_def tag_defs SOH_def)
  ultimately obtain parsed where "parse_fix (serialize sample_fix) = Some parsed"
    "validate_checksum parsed"
    "\<forall>t. t \<notin> {Tag_BeginString, Tag_BodyLength, Tag_CheckSum} \<longrightarrow> get_tag parsed t = get_tag sample_fix t"
    using fix_roundtrip [of sample_fix] by blast
  then show ?thesis
    by (simp add: sample_fix_def tag_defs)
qed

section \<open>Framing\<close>

definition fix_prefix :: string where
  "fix_prefix = ''8=FIX.4.4'' @ SOH # ''9=''"

lemma digit_char_8_9: "digit_char 8 = CHR ''8''" "digit_char 9 = CHR ''9''"
  by code_simp+

lemma serialize_shape:
  "\<exists>tail. serialize msg = fix_prefix @ show_nat (length (fields_text (body_fields msg))) @ SOH # tail
     \<and> length tail = length (fields_text (body_fields msg)) + 7"
  using length_pad3 [OF less_trans [OF checksum_less]]
  by (simp add: serialize_def Let_def field_text_def tag_defs FIX_BEGIN_STRING_def show_int_def
      show_nat.simps [of 8] show_nat.simps [of 9] show_nat.simps [of 10] show_nat.simps [of "Suc 0"]
      fix_prefix_def digit_char_8_9)

lemma find_text_prefix: "find_text (SOH # ''9='') (fix_prefix @ rest) = Some 9"
  by (simp add: fix_prefix_def SOH_def)

lemma extract_short_prefix:
  assumes "n < 12"
  shows "extract_message_length (take n (fix_prefix @ rest)) = 0"
proof -
  have "n \<in> {0, 1, 2, 3, 4, 5, 6, 7, 8, 9, 10, 11}"
    using assms by simp presburger
  then show ?thesis
    by (elim insertE emptyE)
      (simp_all add: extract_message_length_def fix_prefix_def SOH_def numeral_eq_Suc)
qed

lemma extract_after_prefix:
  "extract_message_length (fix_prefix @ rest) =
    (if SOH \<notin> set rest then 0
     else case stoi (takeWhile (\<lambda>c. c \<noteq> SOH) rest) of
       None \<Rightarrow> 0
     | Some len \<Rightarrow>
         let stop = (of_nat (13 + length (takeWhile (\<lambda>c. c \<noteq> SOH) rest)) + of_int len + 7 :: u64)
         in if 12 + length rest < unat stop then 0 else unat stop)"
proof -
  have "take 2 fix_prefix = ''8=''" "drop (Suc 11) fix_prefix = []" "length fix_prefix = 12"
    by (simp_all add: fix_prefix_def)
  then show ?thesis
    by (auto simp: extract_message_length_def find_text_prefix Let_def algebra_simps split: option.split)
qed

lemma extract_serialize:
  assumes "length (serialize msg) < 2 ^ 31"
  shows "extract_message_length (serialize msg @ rest) = length (serialize msg)"
    and "n < length (serialize msg) \<Longrightarrow> extract_message_length (take n (serialize msg)) = 0"
proof -
  let ?L = "length (fields_text (body_fields msg))"
  let ?ds = "show_nat ?L"
  obtain tail where w: "serialize msg = fix_prefix @ ?ds @ SOH # tail" "length tail = ?L + 7"
    using serialize_shape by blast
  have len: "length (serialize msg) = 13 + length ?ds + ?L + 7"
    using w by (simp add: fix_prefix_def)
  have plen: "length fix_prefix = 12"
    by (simp add: fix_prefix_def)
  have ds: "SOH \<notin> set ?ds"
    using show_nat_chars by (auto simp: SOH_def)
  have "stoi ?ds = Some (int ?L)"
    using assms len by (intro sto_int_show_nat) simp
  moreover have "unat (of_nat (13 + length ?ds) + of_int (int ?L) + 7 :: u64) = length (serialize msg)"
  proof -
    have "(of_nat (13 + length ?ds) + of_int (int ?L) + 7 :: u64) = of_nat (length (serialize msg))"
      by (simp add: len)
    then show ?thesis
      using assms by (simp add: unat_of_nat_small)
  qed
  ultimately have ext: "extract_message_length (fix_prefix @ ?ds @ SOH # x)
      = (if 12 + length (?ds @ SOH # x) < length (serialize msg) then 0 else length (serialize msg))" for x
    by (simp add: extract_after_prefix takeWhile_neq [OF ds] Let_def del: of_nat_add of_int_of_nat_eq)
  show "extract_message_length (serialize msg @ rest) = length (serialize msg)"
    using ext [of "tail @ rest"] w by (simp add: fix_prefix_def)
  show "extract_message_length (take n (serialize msg)) = 0" if n: "n < length (serialize msg)"
  proof -
    consider "n < 12" | "12 \<le> n" "n - 12 \<le> length ?ds" | "12 + length ?ds < n"
      by linarith
    then show ?thesis
    proof cases
      case 1
      then show ?thesis
        unfolding w(1) by (rule extract_short_prefix)
    next
      case 2
      have "take n (serialize msg) = fix_prefix @ take (n - 12) ?ds"
        using 2 w(1) by (simp add: fix_prefix_def take_Cons' numeral_eq_Suc)
      moreover have "SOH \<notin> set (take (n - 12) ?ds)"
        using ds by (meson in_set_takeD)
      ultimately show ?thesis
        by (simp add: extract_after_prefix)
    next
      case 3
      have "take n (serialize msg) = fix_prefix @ ?ds @ SOH # take (n - 13 - length ?ds) tail"
        using 3 w(1) plen by (simp add: take_Cons')
      then show ?thesis
        using ext [of "take (n - 13 - length ?ds) tail"] 3 n len by simp
    qed
  qed
qed

end
