(* ===== verification/Fix_Session.thy ===== *)
theory Fix_Session
  imports Fix_Message
begin

text \<open>
  The FIX session layer (\<open>protocol/fix/fix_session.hpp\<close>): logon and logout, sequence numbers in both
  directions, heartbeats and test requests, gap detection and sequence resets.

  Every public operation runs under the session's mutex, so operations happen one at a time, and
  a callback cannot call back into the session without deadlock; what the callbacks are given is
  therefore the output of an operation, a list of events in the order of the calls. The clocks
  (\<open>sending_time_str\<close>, the steady clock in nanoseconds, \<open>Clock::now_ns\<close>) read an environment that is
  a component of the session state.
\<close>

section \<open>State\<close>

datatype session_state = Disconnected | LogonSent | Active | LogoutSent

fun session_state_to_string :: "session_state \<Rightarrow> string" where
  "session_state_to_string Disconnected = ''Disconnected''"
| "session_state_to_string LogonSent = ''LogonSent''"
| "session_state_to_string Active = ''Active''"
| "session_state_to_string LogoutSent = ''LogoutSent''"

record 'e fix_clock =
  fc_sending_time :: "'e \<Rightarrow> string \<times> 'e"
  fc_steady_now :: "'e \<Rightarrow> int \<times> 'e"
  fc_now_ns :: "'e \<Rightarrow> u64 \<times> 'e"

record 'e fix_session =
  fs_sender_comp_id :: string
  fs_target_comp_id :: string
  fs_heartbeat_interval_sec :: int
  fs_state :: session_state
  fs_outbound_seq :: u32
  fs_inbound_seq :: u32
  fs_last_send_time :: int
  fs_last_recv_time :: int
  fs_test_request_sent_time :: int
  fs_pending_test_req_id :: string
  fs_env :: 'e

datatype session_event =
    Wire string
  | App_Message fix_message
  | State_Change session_state session_state

type_synonym 'e session_op = "'e fix_session \<Rightarrow> session_event list \<times> 'e fix_session"

text \<open>One operation after another, with the events in order.\<close>

definition then_op :: "'e session_op \<Rightarrow> 'e session_op \<Rightarrow> 'e session_op" where
  "then_op f g s = (let (evs, s') = f s; (evs', s'') = g s' in (evs @ evs', s''))"

definition skip_op :: "'e session_op" where
  "skip_op s = ([], s)"

definition fix_session_new :: "'e fix_clock \<Rightarrow> string \<Rightarrow> string \<Rightarrow> int \<Rightarrow> 'e \<Rightarrow> 'e fix_session" where
  "fix_session_new ck sender target interval e =
     (let (t, e) = fc_steady_now ck e;
          (t', e) = fc_steady_now ck e
      in \<lparr>fs_sender_comp_id = sender, fs_target_comp_id = target, fs_heartbeat_interval_sec = interval,
          fs_state = Disconnected, fs_outbound_seq = 1, fs_inbound_seq = 1, fs_last_send_time = t,
          fs_last_recv_time = t', fs_test_request_sent_time = 0, fs_pending_test_req_id = [],
          fs_env = e\<rparr>)"

definition set_comp_ids :: "string \<Rightarrow> string \<Rightarrow> 'e fix_session \<Rightarrow> 'e fix_session" where
  "set_comp_ids sender target s = s\<lparr>fs_sender_comp_id := sender, fs_target_comp_id := target\<rparr>"

definition set_heartbeat_interval :: "int \<Rightarrow> 'e fix_session \<Rightarrow> 'e fix_session" where
  "set_heartbeat_interval seconds s = s\<lparr>fs_heartbeat_interval_sec := seconds\<rparr>"

section \<open>Helpers\<close>

definition test_request_pending :: "'e fix_session \<Rightarrow> bool" where
  "test_request_pending s \<longleftrightarrow> fs_pending_test_req_id s \<noteq> []"

definition transition_locked :: "session_state \<Rightarrow> 'e session_op" where
  "transition_locked new_state s =
     (if fs_state s = new_state then ([], s)
      else ([State_Change (fs_state s) new_state], s\<lparr>fs_state := new_state\<rparr>))"

text \<open>\<open>static_cast<int>\<close> of a \<open>uint32_t\<close> is its signed reading.\<close>

definition stamp :: "string \<Rightarrow> 'e fix_session \<Rightarrow> fix_message \<Rightarrow> fix_message" where
  "stamp now s msg =
     set_tag Tag_SendingTime now
       (set_tag_int Tag_MsgSeqNum (sint (fs_outbound_seq s))
         (set_tag Tag_TargetCompID (fs_target_comp_id s)
           (set_tag Tag_SenderCompID (fs_sender_comp_id s) msg)))"

definition send_message_locked :: "'e fix_clock \<Rightarrow> fix_message \<Rightarrow> 'e session_op" where
  "send_message_locked ck msg s =
     (let (now, e) = fc_sending_time ck (fs_env s);
          wire = serialize (stamp now s msg);
          (t, e) = fc_steady_now ck e
      in ([Wire wire], s\<lparr>fs_outbound_seq := fs_outbound_seq s + 1, fs_last_send_time := t,
            fs_env := e\<rparr>))"

section \<open>Outbound session messages\<close>

definition send_logon :: "'e fix_clock \<Rightarrow> bool \<Rightarrow> 'e session_op" where
  "send_logon ck reset_seq s =
     (let s = (if reset_seq then s\<lparr>fs_outbound_seq := 1, fs_inbound_seq := 1\<rparr> else s);
          msg = set_tag_int Tag_HeartBtInt (fs_heartbeat_interval_sec s)
            (set_tag_int Tag_EncryptMethod 0 (set_tag_char Tag_MsgType MsgType_Logon []));
          msg = (if reset_seq then set_tag Tag_ResetSeqNumFlag ''Y'' msg else msg)
      in then_op (send_message_locked ck msg) (transition_locked LogonSent) s)"

definition send_logout :: "'e fix_clock \<Rightarrow> string \<Rightarrow> 'e session_op" where
  "send_logout ck txt s =
     (let msg = set_tag_char Tag_MsgType MsgType_Logout [];
          msg = (if txt \<noteq> [] then set_tag Tag_Text txt msg else msg)
      in then_op (send_message_locked ck msg) (transition_locked LogoutSent) s)"

definition send_heartbeat :: "'e fix_clock \<Rightarrow> string \<Rightarrow> 'e session_op" where
  "send_heartbeat ck test_req_id s =
     (let msg = set_tag_char Tag_MsgType MsgType_Heartbeat [];
          msg = (if test_req_id \<noteq> [] then set_tag Tag_TestReqID test_req_id msg else msg)
      in send_message_locked ck msg s)"

definition test_request_msg :: "string \<Rightarrow> fix_message" where
  "test_request_msg test_id =
     set_tag Tag_TestReqID test_id (set_tag_char Tag_MsgType MsgType_TestRequest [])"

definition send_test_request :: "'e fix_clock \<Rightarrow> 'e session_op" where
  "send_test_request ck s =
     (let (ns, e) = fc_now_ns ck (fs_env s);
          test_id = ''TR-'' @ show_nat (unat ns);
          s = s\<lparr>fs_env := e, fs_pending_test_req_id := test_id\<rparr>;
          (evs, s) = send_message_locked ck (test_request_msg test_id) s;
          (t, e) = fc_steady_now ck (fs_env s)
      in (evs, s\<lparr>fs_env := e, fs_test_request_sent_time := t\<rparr>))"

definition send_resend_request :: "'e fix_clock \<Rightarrow> u32 \<Rightarrow> u32 \<Rightarrow> 'e session_op" where
  "send_resend_request ck begin_seq end_seq s =
     send_message_locked ck
       (set_tag_int Tag_EndSeqNo (sint end_seq)
         (set_tag_int Tag_BeginSeqNo (sint begin_seq)
           (set_tag_char Tag_MsgType MsgType_ResendRequest []))) s"

definition send_sequence_reset :: "'e fix_clock \<Rightarrow> u32 \<Rightarrow> bool \<Rightarrow> 'e session_op" where
  "send_sequence_reset ck new_seq gap_fill s =
     (let msg = set_tag_int Tag_NewSeqNo (sint new_seq)
            (set_tag_char Tag_MsgType MsgType_SequenceReset []);
          msg = (if gap_fill then set_tag Tag_GapFillFlag ''Y'' msg else msg)
      in send_message_locked ck msg s)"

definition send_reject :: "'e fix_clock \<Rightarrow> u32 \<Rightarrow> string \<Rightarrow> int \<Rightarrow> 'e session_op" where
  "send_reject ck ref_seq txt reason s =
     (let msg = set_tag_int Tag_RefSeqNum (sint ref_seq) (set_tag_char Tag_MsgType MsgType_Reject []);
          msg = (if txt \<noteq> [] then set_tag Tag_Text txt msg else msg);
          msg = (if reason \<ge> 0 then set_tag_int Tag_SessionRejectReason reason msg else msg)
      in send_message_locked ck msg s)"

definition send_app_message :: "'e fix_clock \<Rightarrow> fix_message \<Rightarrow> 'e session_op" where
  "send_app_message ck msg s = send_message_locked ck msg s"

section \<open>Inbound handlers\<close>

definition handle_logon :: "'e fix_clock \<Rightarrow> fix_message \<Rightarrow> 'e session_op" where
  "handle_logon ck msg s =
     (let s = (case get_tag_int msg Tag_HeartBtInt of
            Some hb \<Rightarrow> if hb > 0
              then s\<lparr>fs_heartbeat_interval_sec := sint (of_int hb :: u32)\<rparr> else s
          | None \<Rightarrow> s);
          (evs, s) =
            (if fs_state s = LogonSent then transition_locked Active s
             else if fs_state s = Disconnected
             then then_op (send_message_locked ck
                    (set_tag_int Tag_HeartBtInt (fs_heartbeat_interval_sec s)
                      (set_tag_int Tag_EncryptMethod 0 (set_tag_char Tag_MsgType MsgType_Logon []))))
                    (transition_locked Active) s
             else ([], s))
      in (evs, if get_tag msg Tag_ResetSeqNumFlag = Some ''Y''
               then s\<lparr>fs_inbound_seq := msg_seq_num msg + 1\<rparr> else s))"

definition handle_logout :: "'e fix_clock \<Rightarrow> fix_message \<Rightarrow> 'e session_op" where
  "handle_logout ck msg s =
     (if fs_state s = LogoutSent then transition_locked Disconnected s
      else
        let reply = set_tag_char Tag_MsgType MsgType_Logout [];
            reply = (case get_tag msg Tag_Text of Some txt \<Rightarrow> set_tag Tag_Text txt reply | None \<Rightarrow> reply)
        in then_op (send_message_locked ck reply) (transition_locked Disconnected) s)"

definition handle_heartbeat :: "fix_message \<Rightarrow> 'e session_op" where
  "handle_heartbeat msg s =
     ([], case get_tag msg Tag_TestReqID of
        Some test_id \<Rightarrow> if test_id = fs_pending_test_req_id s
          then s\<lparr>fs_pending_test_req_id := []\<rparr> else s
      | None \<Rightarrow> s)"

definition handle_test_request :: "'e fix_clock \<Rightarrow> fix_message \<Rightarrow> 'e session_op" where
  "handle_test_request ck msg s =
     (let hb = set_tag_char Tag_MsgType MsgType_Heartbeat [];
          hb = (case get_tag msg Tag_TestReqID of
             Some test_id \<Rightarrow> set_tag Tag_TestReqID test_id hb | None \<Rightarrow> hb)
      in send_message_locked ck hb s)"

definition gap_fill_msg :: "string \<Rightarrow> int \<Rightarrow> u32 \<Rightarrow> 'e fix_session \<Rightarrow> fix_message" where
  "gap_fill_msg now begin_seq end_seq s =
     set_tag Tag_SendingTime now
       (set_tag Tag_TargetCompID (fs_target_comp_id s)
         (set_tag Tag_SenderCompID (fs_sender_comp_id s)
           (set_tag_int Tag_MsgSeqNum (sint (of_int begin_seq :: u32))
             (set_tag_int Tag_NewSeqNo (sint end_seq)
               (set_tag Tag_GapFillFlag ''Y''
                 (set_tag_char Tag_MsgType MsgType_SequenceReset []))))))"

text \<open>A gap fill uses the requested number and does not advance the outbound counter.\<close>

definition handle_resend_request :: "'e fix_clock \<Rightarrow> fix_message \<Rightarrow> 'e session_op" where
  "handle_resend_request ck msg s =
     (case get_tag_int msg Tag_BeginSeqNo of
        None \<Rightarrow> ([], s)
      | Some begin_seq \<Rightarrow>
          let end_seq = (case get_tag_int msg Tag_EndSeqNo of
                Some i \<Rightarrow> if i > 0 then of_int (i + 1) else fs_outbound_seq s
              | None \<Rightarrow> fs_outbound_seq s);
              (now, e) = fc_sending_time ck (fs_env s);
              wire = serialize (gap_fill_msg now begin_seq end_seq s);
              (t, e) = fc_steady_now ck e
          in ([Wire wire], s\<lparr>fs_last_send_time := t, fs_env := e\<rparr>))"

definition handle_sequence_reset :: "fix_message \<Rightarrow> 'e session_op" where
  "handle_sequence_reset msg s =
     (case get_tag_int msg Tag_NewSeqNo of
        None \<Rightarrow> ([], s)
      | Some i \<Rightarrow>
          let new_seq = (of_int i :: u32) in
          if get_tag msg Tag_GapFillFlag = Some ''Y''
          then ([], if fs_inbound_seq s < new_seq then s\<lparr>fs_inbound_seq := new_seq\<rparr> else s)
          else ([], s\<lparr>fs_inbound_seq := new_seq\<rparr>))"

section \<open>Inbound messages\<close>

definition dispatch_message :: "'e fix_clock \<Rightarrow> fix_message \<Rightarrow> 'e session_op" where
  "dispatch_message ck msg s =
     (let mt = msg_type msg in
      if mt = MsgType_Logon then handle_logon ck msg s
      else if mt = MsgType_Logout then handle_logout ck msg s
      else if mt = MsgType_Heartbeat then handle_heartbeat msg s
      else if mt = MsgType_TestRequest then handle_test_request ck msg s
      else if mt = MsgType_ResendRequest then handle_resend_request ck msg s
      else if mt = MsgType_Reject then ([], s)
      else ([App_Message msg], s))"

definition on_message_received :: "'e fix_clock \<Rightarrow> fix_message \<Rightarrow> 'e session_op" where
  "on_message_received ck msg s =
     (let (t, e) = fc_steady_now ck (fs_env s);
          s = s\<lparr>fs_last_recv_time := t, fs_env := e\<rparr>;
          sender = get_tag msg Tag_SenderCompID;
          target = get_tag msg Tag_TargetCompID
      in if sender \<noteq> None \<and> sender \<noteq> Some (fs_target_comp_id s) then ([], s)
         else if target \<noteq> None \<and> target \<noteq> Some (fs_sender_comp_id s) then ([], s)
         else
           let seq = msg_seq_num msg in
           if msg_type msg = MsgType_SequenceReset then handle_sequence_reset msg s
           else
             let (evs, s) = (if fs_inbound_seq s < seq
                   then send_resend_request ck (fs_inbound_seq s) (seq - 1) s else ([], s))
             in if seq < fs_inbound_seq s then (evs, s)
                else
                  let s = s\<lparr>fs_inbound_seq := seq + 1\<rparr>;
                      (evs', s) = dispatch_message ck msg s
                  in (evs @ evs', s))"

section \<open>The heartbeat timer, reset and disconnection\<close>

definition check_heartbeat :: "'e fix_clock \<Rightarrow> 'e session_op" where
  "check_heartbeat ck s =
     (if fs_state s \<noteq> Active then ([], s)
      else
        let (now, e) = fc_steady_now ck (fs_env s);
            s = s\<lparr>fs_env := e\<rparr>;
            interval = fs_heartbeat_interval_sec s * 1000000000;
            (evs, s) = (if now - fs_last_send_time s \<ge> interval
              then send_message_locked ck (set_tag_char Tag_MsgType MsgType_Heartbeat []) s
              else ([], s));
            recv_silence = now - fs_last_recv_time s
        in if recv_silence \<ge> interval + 2 * 1000000000
           then
             if \<not> test_request_pending s
             then
               let (ns, e) = fc_now_ns ck (fs_env s);
                   test_id = ''TR-'' @ show_nat (unat ns);
                   s = s\<lparr>fs_env := e, fs_pending_test_req_id := test_id\<rparr>;
                   (evs', s) = send_message_locked ck (test_request_msg test_id) s
               in (evs @ evs', s\<lparr>fs_test_request_sent_time := now\<rparr>)
             else if now - fs_test_request_sent_time s \<ge> interval
             then
               let (evs', s) = then_op (send_message_locked ck
                     (set_tag Tag_Text ''TestRequest timeout'' (set_tag_char Tag_MsgType MsgType_Logout [])))
                     (transition_locked LogoutSent) s
               in (evs @ evs', s)
             else (evs, s)
           else (evs, s))"

definition session_reset :: "'e fix_session \<Rightarrow> 'e fix_session" where
  "session_reset s = s\<lparr>fs_state := Disconnected, fs_outbound_seq := 1, fs_inbound_seq := 1,
     fs_pending_test_req_id := []\<rparr>"

definition on_disconnect :: "'e session_op" where
  "on_disconnect s = transition_locked Disconnected s"

section \<open>Outbound sequence numbers\<close>

text \<open>
  The messages on the wire, from outbound number \<open>n\<close> on: each is stamped with the ids of the session
  and the next number, except that a gap fill uses up none.
\<close>

definition stamped :: "string \<Rightarrow> string \<Rightarrow> u32 \<Rightarrow> string \<Rightarrow> bool" where
  "stamped sender target n w \<longleftrightarrow> (\<exists>m. w = serialize m \<and> get_tag m Tag_SenderCompID = Some sender
     \<and> get_tag m Tag_TargetCompID = Some target \<and> get_tag m Tag_MsgSeqNum = Some (show_int (sint n)))"

definition gap_filling :: "string \<Rightarrow> string \<Rightarrow> string \<Rightarrow> bool" where
  "gap_filling sender target w \<longleftrightarrow> (\<exists>m. w = serialize m \<and> get_tag m Tag_SenderCompID = Some sender
     \<and> get_tag m Tag_TargetCompID = Some target \<and> msg_type m = MsgType_SequenceReset
     \<and> get_tag m Tag_GapFillFlag = Some ''Y'')"

fun numbered :: "string \<Rightarrow> string \<Rightarrow> u32 \<Rightarrow> session_event list \<Rightarrow> u32 \<Rightarrow> bool" where
  "numbered sender target n [] n' = (n = n')"
| "numbered sender target n (Wire w # evs) n' =
     (stamped sender target n w \<and> numbered sender target (n + 1) evs n'
      \<or> gap_filling sender target w \<and> numbered sender target n evs n')"
| "numbered sender target n (App_Message m # evs) n' = numbered sender target n evs n'"
| "numbered sender target n (State_Change a b # evs) n' = numbered sender target n evs n'"

lemma numbered_append:
  "numbered sd tg n xs k \<Longrightarrow> numbered sd tg k ys n' \<Longrightarrow> numbered sd tg n (xs @ ys) n'"
  by (induction sd tg n xs k rule: numbered.induct) auto

definition same_ids :: "'e fix_session \<Rightarrow> 'e fix_session \<Rightarrow> bool" where
  "same_ids s s' \<longleftrightarrow> fs_sender_comp_id s' = fs_sender_comp_id s \<and> fs_target_comp_id s' = fs_target_comp_id s"

definition op_ok :: "'e session_op \<Rightarrow> bool" where
  "op_ok f \<longleftrightarrow> (\<forall>s. same_ids s (snd (f s)) \<and> numbered (fs_sender_comp_id s) (fs_target_comp_id s)
     (fs_outbound_seq s) (fst (f s)) (fs_outbound_seq (snd (f s))))"

named_theorems op_rules

lemma op_okD:
  assumes "op_ok f" and "f s = (evs, s')"
  shows "same_ids s s'" "numbered (fs_sender_comp_id s) (fs_target_comp_id s) (fs_outbound_seq s) evs
    (fs_outbound_seq s')"
  using assms unfolding op_ok_def by (metis fst_conv snd_conv)+

lemma op_ok_send [op_rules]: "op_ok (send_message_locked ck msg)"
proof -
  have "stamped (fs_sender_comp_id s) (fs_target_comp_id s) (fs_outbound_seq s)
      (serialize (stamp now s msg))" for now and s :: "'a fix_session"
    unfolding stamped_def by (rule exI [of _ "stamp now s msg"]) (simp add: stamp_def tag_defs)
  then show ?thesis
    by (simp add: op_ok_def send_message_locked_def split_beta Let_def same_ids_def)
qed

lemma op_ok_transition [op_rules]: "op_ok (transition_locked st)"
  by (simp add: op_ok_def transition_locked_def same_ids_def)

lemma op_ok_then [op_rules]:
  assumes "op_ok f" and "op_ok g"
  shows "op_ok (then_op f g)"
  unfolding op_ok_def
proof
  fix s
  obtain evs s' where f: "f s = (evs, s')" by force
  obtain evs' s'' where g: "g s' = (evs', s'')" by force
  show "same_ids s (snd (then_op f g s)) \<and> numbered (fs_sender_comp_id s) (fs_target_comp_id s)
      (fs_outbound_seq s) (fst (then_op f g s)) (fs_outbound_seq (snd (then_op f g s)))"
    using op_okD [OF assms(1) f] op_okD [OF assms(2) g] numbered_append f g
    by (auto simp: then_op_def same_ids_def)
qed

text \<open>
  Operations that read the clocks or set other fields before and after: an operation started in a
  state with the same ids and number.
\<close>

definition ok_step :: "'e fix_session \<Rightarrow> session_event list \<Rightarrow> 'e fix_session \<Rightarrow> bool" where
  "ok_step s evs s' \<longleftrightarrow> same_ids s s'
     \<and> numbered (fs_sender_comp_id s) (fs_target_comp_id s) (fs_outbound_seq s) evs (fs_outbound_seq s')"

lemma ok_step_at: "op_ok f \<Longrightarrow> ok_step s0 [] s \<Longrightarrow> ok_step s0 (fst (f s)) (snd (f s))"
  unfolding op_ok_def ok_step_def same_ids_def by (metis numbered.simps(1))

lemma op_ok_if [op_rules]: "op_ok f \<Longrightarrow> op_ok g \<Longrightarrow> op_ok (\<lambda>s. if b then f s else g s)"
  by (cases b) simp_all

lemma op_ok_emit [op_rules]: "op_ok (\<lambda>s. ([], s))" "op_ok (\<lambda>s. ([App_Message msg], s))"
  by (simp_all add: op_ok_def same_ids_def)

lemma ok_step_trans: "ok_step s evs s' \<Longrightarrow> ok_step s' evs' s'' \<Longrightarrow> ok_step s (evs @ evs') s''"
  using numbered_append by (fastforce simp: ok_step_def same_ids_def)

lemma ok_step_update [simp]:
  "ok_step s evs (s'\<lparr>fs_env := e\<rparr>) = ok_step s evs s'"
  "ok_step s evs (s'\<lparr>fs_state := st\<rparr>) = ok_step s evs s'"
  "ok_step s evs (s'\<lparr>fs_inbound_seq := n\<rparr>) = ok_step s evs s'"
  "ok_step s evs (s'\<lparr>fs_heartbeat_interval_sec := i\<rparr>) = ok_step s evs s'"
  "ok_step s evs (s'\<lparr>fs_last_recv_time := t\<rparr>) = ok_step s evs s'"
  "ok_step s evs (s'\<lparr>fs_last_send_time := t\<rparr>) = ok_step s evs s'"
  "ok_step s evs (s'\<lparr>fs_test_request_sent_time := t\<rparr>) = ok_step s evs s'"
  "ok_step s evs (s'\<lparr>fs_pending_test_req_id := i'\<rparr>) = ok_step s evs s'"
  by (simp_all add: ok_step_def same_ids_def)

lemma ok_step_refl [simp]: "ok_step s [] s"
  by (simp add: ok_step_def same_ids_def)

lemma op_okI: "(\<And>s. ok_step s (fst (f s)) (snd (f s))) \<Longrightarrow> op_ok f"
  by (simp add: op_ok_def ok_step_def)

lemma op_ok_logout [op_rules]: "op_ok (send_logout ck txt)"
  unfolding send_logout_def [abs_def] Let_def by (intro op_rules)

lemma op_ok_heartbeat [op_rules]: "op_ok (send_heartbeat ck i)"
  unfolding send_heartbeat_def [abs_def] Let_def by (intro op_rules)

lemma op_ok_resend [op_rules]: "op_ok (send_resend_request ck b e)"
  unfolding send_resend_request_def [abs_def] by (intro op_rules)

lemma op_ok_seq_reset [op_rules]: "op_ok (send_sequence_reset ck n g)"
  unfolding send_sequence_reset_def [abs_def] Let_def by (intro op_rules)

lemma op_ok_reject [op_rules]: "op_ok (send_reject ck r txt i)"
  unfolding send_reject_def [abs_def] Let_def by (intro op_rules)

lemma op_ok_app [op_rules]: "op_ok (send_app_message ck msg)"
  unfolding send_app_message_def [abs_def] by (intro op_rules)

lemma op_ok_disconnect [op_rules]: "op_ok on_disconnect"
  unfolding on_disconnect_def [abs_def] by (intro op_rules)

lemma op_ok_logon [op_rules]: "op_ok (send_logon ck False)"
  unfolding send_logon_def [abs_def] Let_def if_False
  by (rule op_okI, rule ok_step_at) (intro op_rules, simp)

lemma op_ok_test_request [op_rules]: "op_ok (send_test_request ck)"
  by (rule op_okI)
    (auto simp: send_test_request_def split_beta Let_def intro!: ok_step_at op_rules)

lemma op_ok_handle_logon [op_rules]: "op_ok (handle_logon ck msg)"
  by (rule op_okI)
    (auto simp: handle_logon_def split_beta Let_def split: option.splits
      intro!: ok_step_at [OF op_ok_then [OF op_ok_send op_ok_transition]] ok_step_at [OF op_ok_transition])

lemma op_ok_handle_logout [op_rules]: "op_ok (handle_logout ck msg)"
  by (rule op_okI)
    (auto simp: handle_logout_def Let_def intro!: ok_step_at op_rules)

lemma op_ok_handle_heartbeat [op_rules]: "op_ok (handle_heartbeat msg)"
  by (rule op_okI) (simp add: handle_heartbeat_def split: option.splits)

lemma op_ok_handle_test_request [op_rules]: "op_ok (handle_test_request ck msg)"
  unfolding handle_test_request_def [abs_def] Let_def by (intro op_rules)

lemma op_ok_handle_sequence_reset [op_rules]: "op_ok (handle_sequence_reset msg)"
  by (rule op_okI) (simp add: handle_sequence_reset_def Let_def split: option.splits)

lemma op_ok_handle_resend_request [op_rules]: "op_ok (handle_resend_request ck msg)"
proof (rule op_okI)
  fix s :: "'a fix_session"
  have gap: "gap_filling (fs_sender_comp_id s) (fs_target_comp_id s) (serialize (gap_fill_msg now b e s))"
    for now b e
    unfolding gap_filling_def
    by (rule exI [of _ "gap_fill_msg now b e s"])
      (simp add: gap_fill_msg_def tag_defs msg_type_def)
  then show "ok_step s (fst (handle_resend_request ck msg s)) (snd (handle_resend_request ck msg s))"
    by (auto simp: handle_resend_request_def split_beta Let_def ok_step_def same_ids_def split: option.splits)
qed

lemma op_ok_dispatch [op_rules]: "op_ok (dispatch_message ck msg)"
  unfolding dispatch_message_def [abs_def] Let_def by (intro op_rules)

lemma op_ok_message [op_rules]: "op_ok (on_message_received ck msg)"
proof (rule op_okI)
  fix s :: "'a fix_session"
  obtain t e where t: "fc_steady_now ck (fs_env s) = (t, e)" by force
  let ?s = "s\<lparr>fs_last_recv_time := t, fs_env := e\<rparr>"
  let ?seq = "msg_seq_num msg"
  obtain evs s1 where gap: "(if fs_inbound_seq ?s < ?seq
      then send_resend_request ck (fs_inbound_seq ?s) (?seq - 1) ?s else ([], ?s)) = (evs, s1)" by force
  have "op_ok (\<lambda>s. if fs_inbound_seq ?s < ?seq
      then send_resend_request ck (fs_inbound_seq ?s) (?seq - 1) s else ([], s))"
    by (intro op_rules)
  from ok_step_at [OF this, of s ?s] have s1: "ok_step s evs s1"
    using gap by auto
  have "ok_step s1 (fst (dispatch_message ck msg (s1\<lparr>fs_inbound_seq := ?seq + 1\<rparr>)))
      (snd (dispatch_message ck msg (s1\<lparr>fs_inbound_seq := ?seq + 1\<rparr>)))"
    by (rule ok_step_at) (simp_all add: op_ok_dispatch)
  note both = ok_step_trans [OF s1 this]
  let ?d = "dispatch_message ck msg (s1\<lparr>fs_inbound_seq := ?seq + 1\<rparr>)"
  have eq: "on_message_received ck msg s =
    (if get_tag msg Tag_SenderCompID \<noteq> None \<and> get_tag msg Tag_SenderCompID \<noteq> Some (fs_target_comp_id ?s)
     then ([], ?s)
     else if get_tag msg Tag_TargetCompID \<noteq> None
       \<and> get_tag msg Tag_TargetCompID \<noteq> Some (fs_sender_comp_id ?s) then ([], ?s)
     else if msg_type msg = MsgType_SequenceReset then handle_sequence_reset msg ?s
     else if ?seq < fs_inbound_seq s1 then (evs, s1) else (evs @ fst ?d, snd ?d))"
    unfolding on_message_received_def Let_def t prod.case gap by (simp only: split_beta)
  have "ok_step s (fst (handle_sequence_reset msg ?s)) (snd (handle_sequence_reset msg ?s))"
    by (rule ok_step_at [OF op_ok_handle_sequence_reset]) simp
  then show "ok_step s (fst (on_message_received ck msg s)) (snd (on_message_received ck msg s))"
    unfolding eq using s1 both by (simp del: ok_step_update(5)) simp
qed

lemma op_ok_check [op_rules]: "op_ok (check_heartbeat ck)"
proof (rule op_okI)
  fix s :: "'a fix_session"
  obtain now e where now: "fc_steady_now ck (fs_env s) = (now, e)" by force
  let ?hb = "set_tag_char Tag_MsgType MsgType_Heartbeat []"
  let ?due = "now - fs_last_send_time s \<ge> fs_heartbeat_interval_sec s * 1000000000"
  have "op_ok (\<lambda>s. if ?due then send_message_locked ck ?hb s else ([], s))"
    by (intro op_rules)
  note first = ok_step_at [OF this, of s "s\<lparr>fs_env := e\<rparr>", simplified]
  obtain evs s1 where one: "(if ?due then send_message_locked ck ?hb (s\<lparr>fs_env := e\<rparr>)
      else ([], s\<lparr>fs_env := e\<rparr>)) = (evs, s1)" by force
  have s1: "ok_step s evs s1"
    using first one by (auto split: if_splits)
  have "ok_step s1 (fst (send_message_locked ck m (s1\<lparr>fs_env := e', fs_pending_test_req_id := i\<rparr>)))
      (snd (send_message_locked ck m (s1\<lparr>fs_env := e', fs_pending_test_req_id := i\<rparr>)))" for m e' i
    by (rule ok_step_at [OF op_ok_send]) simp
  note req = ok_step_trans [OF s1 this]
  have "ok_step s1 (fst (then_op (send_message_locked ck m) (transition_locked st) s1))
      (snd (then_op (send_message_locked ck m) (transition_locked st) s1))" for m st
    by (rule ok_step_at [OF op_ok_then [OF op_ok_send op_ok_transition]]) simp
  note out = ok_step_trans [OF s1 this]
  show "ok_step s (fst (check_heartbeat ck s)) (snd (check_heartbeat ck s))"
    using one s1 req out by (simp add: check_heartbeat_def now split_beta Let_def)
qed

section \<open>Runs of a session\<close>

datatype session_input =
    Do_Logon bool
  | Do_Logout string
  | Do_Heartbeat string
  | Do_Test_Request
  | Do_Resend_Request u32 u32
  | Do_Sequence_Reset u32 bool
  | Do_Reject u32 string int
  | Do_App_Message fix_message
  | Receive fix_message
  | Check_Timer
  | Disconnect

fun session_step :: "'e fix_clock \<Rightarrow> 'e fix_session \<Rightarrow> session_input \<Rightarrow> session_event list \<times> 'e fix_session" where
  "session_step ck s (Do_Logon b) = send_logon ck b s"
| "session_step ck s (Do_Logout txt) = send_logout ck txt s"
| "session_step ck s (Do_Heartbeat i) = send_heartbeat ck i s"
| "session_step ck s Do_Test_Request = send_test_request ck s"
| "session_step ck s (Do_Resend_Request b e) = send_resend_request ck b e s"
| "session_step ck s (Do_Sequence_Reset n g) = send_sequence_reset ck n g s"
| "session_step ck s (Do_Reject r txt i) = send_reject ck r txt i s"
| "session_step ck s (Do_App_Message msg) = send_app_message ck msg s"
| "session_step ck s (Receive msg) = on_message_received ck msg s"
| "session_step ck s Check_Timer = check_heartbeat ck s"
| "session_step ck s Disconnect = on_disconnect s"

lemma session_step_ok:
  "inp \<noteq> Do_Logon True \<Longrightarrow> ok_step s (fst (session_step ck s inp)) (snd (session_step ck s inp))"
  by (cases inp) (auto intro!: ok_step_at op_rules)

lemma session_run_ok:
  "Do_Logon True \<notin> set inps \<Longrightarrow>
     ok_step s (concat (fst (run (session_step ck) s inps))) (snd (run (session_step ck) s inps))"
proof (induction inps arbitrary: s)
  case (Cons inp inps)
  have "ok_step s (fst (session_step ck s inp)) (snd (session_step ck s inp))"
    using Cons.prems by (intro session_step_ok) auto
  moreover have "ok_step (snd (session_step ck s inp))
      (concat (fst (run (session_step ck) (snd (session_step ck s inp)) inps)))
      (snd (run (session_step ck) (snd (session_step ck s inp)) inps))"
    using Cons.IH Cons.prems by simp
  ultimately show ?case
    using ok_step_trans by (fastforce simp: Let_def split_beta)
qed simp

text \<open>
  Everything a session sends is numbered without gaps: through any sequence of operations and
  received messages, as long as no logon asks for a reset, each text on the wire is a message with
  the ids of the session and the next sequence number, in order; only a gap fill takes no number.
\<close>

theorem session_outbound_numbered:
  assumes "Do_Logon True \<notin> set inps"
  shows "numbered (fs_sender_comp_id s) (fs_target_comp_id s) (fs_outbound_seq s)
    (concat (fst (run (session_step ck) s inps)))
    (fs_outbound_seq (snd (run (session_step ck) s inps)))"
  using session_run_ok [OF assms, of s ck] by (simp add: ok_step_def)

definition sample_clock :: "unit fix_clock" where
  "sample_clock = \<lparr>fc_sending_time = (\<lambda>e. (''20240101-00:00:00.000'', e)),
     fc_steady_now = (\<lambda>e. (0, e)), fc_now_ns = (\<lambda>e. (0, e))\<rparr>"

theorem session_outbound_numbered_witness:
  "numbered ''A'' ''B'' 1
     (concat (fst (run (session_step sample_clock) (fix_session_new sample_clock ''A'' ''B'' 30 ())
        [Do_Logon False, Do_Heartbeat []])))
     (fs_outbound_seq (snd (run (session_step sample_clock) (fix_session_new sample_clock ''A'' ''B'' 30 ())
        [Do_Logon False, Do_Heartbeat []])))"
  using session_outbound_numbered [of "[Do_Logon False, Do_Heartbeat []]"
      "fix_session_new sample_clock ''A'' ''B'' 30 ()" sample_clock]
  by (simp add: fix_session_new_def sample_clock_def)

section \<open>Inbound sequence numbers\<close>

definition app_messages :: "session_event list \<Rightarrow> fix_message list" where
  "app_messages evs = concat (map (\<lambda>ev. case ev of App_Message m \<Rightarrow> [m] | _ \<Rightarrow> []) evs)"

lemma app_messages_simps [simp]:
  "app_messages [] = []" "app_messages (xs @ ys) = app_messages xs @ app_messages ys"
  "app_messages (Wire w # xs) = app_messages xs" "app_messages (App_Message m # xs) = m # app_messages xs"
  "app_messages (State_Change a b # xs) = app_messages xs"
  by (simp_all add: app_messages_def)

text \<open>Operations that deliver nothing and leave the expected number alone.\<close>

definition quiet :: "'e session_op \<Rightarrow> bool" where
  "quiet f \<longleftrightarrow> (\<forall>s. fs_inbound_seq (snd (f s)) = fs_inbound_seq s \<and> app_messages (fst (f s)) = [])"

lemma quiet_send [simp]:
  "fs_inbound_seq (snd (send_message_locked ck msg s)) = fs_inbound_seq s"
  "app_messages (fst (send_message_locked ck msg s)) = []"
  "fs_inbound_seq (snd (transition_locked st s)) = fs_inbound_seq s"
  "app_messages (fst (transition_locked st s)) = []"
  by (simp_all add: send_message_locked_def transition_locked_def split_beta Let_def)

lemma quiet_then [simp]:
  "fs_inbound_seq (snd (then_op (send_message_locked ck msg) (transition_locked st) s)) = fs_inbound_seq s"
  "app_messages (fst (then_op (send_message_locked ck msg) (transition_locked st) s)) = []"
  by (simp_all add: then_op_def split_beta)

lemma quiet_outbound:
  "quiet (send_logon ck False)" "quiet (send_logout ck txt)" "quiet (send_heartbeat ck i)"
  "quiet (send_test_request ck)" "quiet (send_resend_request ck b e)"
  "quiet (send_sequence_reset ck n g)" "quiet (send_reject ck r txt j)" "quiet (send_app_message ck msg)"
  "quiet on_disconnect"
  by (simp_all add: quiet_def send_logon_def send_logout_def send_heartbeat_def send_test_request_def
      send_resend_request_def send_sequence_reset_def send_reject_def send_app_message_def
      on_disconnect_def split_beta Let_def)

lemma quiet_check: "quiet (check_heartbeat ck)"
  by (simp add: quiet_def check_heartbeat_def split_beta Let_def)

lemma dispatch_inbound:
  fixes s :: "'e fix_session"
  assumes "fs_inbound_seq s = msg_seq_num msg + 1"
  shows "fs_inbound_seq (snd (dispatch_message ck msg s)) = msg_seq_num msg + 1"
    "app_messages (fst (dispatch_message ck msg s)) = [] \<or> app_messages (fst (dispatch_message ck msg s)) = [msg]"
proof -
  have logon: "fs_inbound_seq (snd (handle_logon ck msg s)) = msg_seq_num msg + 1"
    "app_messages (fst (handle_logon ck msg s)) = []"
    using assms by (auto simp: handle_logon_def split_beta Let_def split: option.splits)
  have other: "quiet (handle_logout ck msg)" "quiet (handle_heartbeat msg :: 'e session_op)"
    "quiet (handle_test_request ck msg)" "quiet (handle_resend_request ck msg)"
    by (auto simp: quiet_def handle_logout_def handle_heartbeat_def handle_test_request_def
        handle_resend_request_def split_beta Let_def split: option.splits)
  show "fs_inbound_seq (snd (dispatch_message ck msg s)) = msg_seq_num msg + 1"
    using assms logon other by (simp add: dispatch_message_def quiet_def Let_def)
  show "app_messages (fst (dispatch_message ck msg s)) = [] \<or> app_messages (fst (dispatch_message ck msg s)) = [msg]"
    using logon other by (simp add: dispatch_message_def quiet_def Let_def)
qed

text \<open>Inputs that do not set the expected number back: no reset, and no number at the end of the range.\<close>

fun no_reset :: "session_input \<Rightarrow> bool" where
  "no_reset (Do_Logon b) = (\<not> b)"
| "no_reset (Receive msg) = (msg_seq_num msg \<noteq> - 1
     \<and> (msg_type msg = MsgType_SequenceReset \<longrightarrow> get_tag msg Tag_GapFillFlag = Some ''Y''))"
| "no_reset _ = True"

definition delivers :: "u32 \<Rightarrow> session_event list \<Rightarrow> u32 \<Rightarrow> bool" where
  "delivers n evs n' \<longleftrightarrow> n \<le> n' \<and> sorted_wrt (<) (map msg_seq_num (app_messages evs))
     \<and> (\<forall>m \<in> set (app_messages evs). n \<le> msg_seq_num m \<and> msg_seq_num m < n')"

lemma delivers_trans: "delivers n evs n' \<Longrightarrow> delivers n' evs' n'' \<Longrightarrow> delivers n (evs @ evs') n''"
  by (fastforce simp: delivers_def sorted_wrt_append)

lemma receive_delivers:
  assumes "no_reset (Receive msg)"
  shows "delivers (fs_inbound_seq s) (fst (on_message_received ck msg s))
    (fs_inbound_seq (snd (on_message_received ck msg s)))"
proof -
  obtain t e where t: "fc_steady_now ck (fs_env s) = (t, e)" by force
  let ?s = "s\<lparr>fs_last_recv_time := t, fs_env := e\<rparr>"
  let ?seq = "msg_seq_num msg"
  have lt: "?seq < ?seq + 1"
    using assms by (intro word_less_plus_1) simp
  obtain evs s1 where gap: "(if fs_inbound_seq s < ?seq
      then send_resend_request ck (fs_inbound_seq s) (?seq - 1) ?s else ([], ?s)) = (evs, s1)" by force
  have s1: "fs_inbound_seq s1 = fs_inbound_seq s" "app_messages evs = []"
    using gap quiet_outbound(5) [of ck "fs_inbound_seq s" "?seq - 1"]
    by (auto simp: quiet_def split: if_splits dest: spec [of _ ?s])
  let ?d = "dispatch_message ck msg (s1\<lparr>fs_inbound_seq := ?seq + 1\<rparr>)"
  have d: "fs_inbound_seq (snd ?d) = ?seq + 1" "app_messages (fst ?d) = [] \<or> app_messages (fst ?d) = [msg]"
    using dispatch_inbound [of "s1\<lparr>fs_inbound_seq := ?seq + 1\<rparr>" msg ck] by simp_all
  have accepted: "delivers (fs_inbound_seq s) (evs @ fst ?d) (?seq + 1)" if "\<not> ?seq < fs_inbound_seq s"
    using that lt s1 d(2) by (auto simp: delivers_def)
  have reset: "delivers (fs_inbound_seq s) (fst (handle_sequence_reset msg ?s))
      (fs_inbound_seq (snd (handle_sequence_reset msg ?s)))" if "msg_type msg = MsgType_SequenceReset"
    using assms that by (auto simp: handle_sequence_reset_def delivers_def Let_def split: option.splits)
  show ?thesis
    using gap s1 d accepted reset
    by (auto simp: on_message_received_def t Let_def split_beta delivers_def)
qed

lemma session_step_delivers:
  assumes "no_reset inp"
  shows "delivers (fs_inbound_seq s) (fst (session_step ck s inp))
    (fs_inbound_seq (snd (session_step ck s inp)))"
proof -
  have quiet: "delivers (fs_inbound_seq s) (fst (f s)) (fs_inbound_seq (snd (f s)))" if "quiet f" for f
    using that by (simp add: quiet_def delivers_def)
  note rules = quiet_outbound [THEN quiet] quiet_check [THEN quiet] receive_delivers
  show ?thesis
    using assms by (cases inp) (simp_all add: rules)
qed

lemma session_run_delivers:
  "list_all no_reset inps \<Longrightarrow>
     delivers (fs_inbound_seq s) (concat (fst (run (session_step ck) s inps)))
       (fs_inbound_seq (snd (run (session_step ck) s inps)))"
proof (induction inps arbitrary: s)
  case (Cons inp inps)
  then show ?case
    using delivers_trans [OF session_step_delivers [of inp s ck] Cons.IH [of "snd (session_step ck s inp)"]]
    by (simp add: Let_def split_beta)
qed (simp add: delivers_def)

text \<open>
  C12. No application message is delivered twice or out of order: through any sequence of operations
  and received messages without a sequence reset, the sequence numbers of the messages handed to the
  application are strictly increasing, none is below the number that was expected at the start, and
  the expected number ends above all of them.
\<close>

theorem session_delivers_in_order:
  assumes "list_all no_reset inps"
  shows "sorted_wrt (<) (map msg_seq_num (app_messages (concat (fst (run (session_step ck) s inps)))))
    \<and> (\<forall>m \<in> set (app_messages (concat (fst (run (session_step ck) s inps)))).
         fs_inbound_seq s \<le> msg_seq_num m
         \<and> msg_seq_num m < fs_inbound_seq (snd (run (session_step ck) s inps)))"
  using session_run_delivers [OF assms, of s ck] by (simp add: delivers_def)

definition sample_exec :: "string \<Rightarrow> fix_message" where
  "sample_exec n = [(Tag_MsgType, ''8''), (Tag_MsgSeqNum, n)]"

theorem session_delivers_in_order_witness:
  "sorted_wrt (<) (map msg_seq_num (app_messages (concat (fst (run (session_step sample_clock)
     (fix_session_new sample_clock ''A'' ''B'' 30 ())
     [Receive (sample_exec ''1''), Receive (sample_exec ''1''), Receive (sample_exec ''2'')])))))"
proof -
  have seq: "msg_seq_num (sample_exec ''1'') = 1" "msg_seq_num (sample_exec ''2'') = 2"
    "msg_type (sample_exec n) = CHR ''8''" for n
    by (simp_all add: sample_exec_def msg_seq_num_def get_tag_int_def tag_defs sto_int_def is_space_def
        is_digit_def digits_value_def digit_value_def msg_type_def)
  have "list_all no_reset [Receive (sample_exec ''1''), Receive (sample_exec ''1''), Receive (sample_exec ''2'')]"
    by (simp add: seq msg_type_defs)
  from session_delivers_in_order [OF this] show ?thesis by (rule conjunct1)
qed

section \<open>Logon\<close>

text \<open>
  A logon that asks for a reset of the sequence numbers is dropped when it matters. The check for
  duplicates comes before the logon is looked at: a logon with \<open>ResetSeqNumFlag\<close> whose number is below
  the expected one has no effect but on the time of the last message, so the counterparty cannot
  restart the numbering.
\<close>

theorem logon_reset_dropped:
  assumes "msg_type msg = MsgType_Logon" and "get_tag msg Tag_ResetSeqNumFlag = Some ''Y''"
    and "msg_seq_num msg < fs_inbound_seq s"
  shows "fst (on_message_received ck msg s) = []
    \<and> fs_inbound_seq (snd (on_message_received ck msg s)) = fs_inbound_seq s
    \<and> fs_outbound_seq (snd (on_message_received ck msg s)) = fs_outbound_seq s
    \<and> fs_state (snd (on_message_received ck msg s)) = fs_state s"
proof -
  have "MsgType_Logon \<noteq> MsgType_SequenceReset" "\<not> fs_inbound_seq s < msg_seq_num msg"
    using assms(3) by (simp_all add: msg_type_defs)
  then show ?thesis
    using assms by (simp add: on_message_received_def split_beta Let_def)
qed

definition sample_logon :: fix_message where
  "sample_logon = [(Tag_MsgType, ''A''), (Tag_MsgSeqNum, ''1''), (Tag_ResetSeqNumFlag, ''Y'')]"

theorem logon_reset_dropped_witness:
  "fs_state (snd (on_message_received sample_clock sample_logon
     ((fix_session_new sample_clock ''A'' ''B'' 30 ())\<lparr>fs_inbound_seq := 7\<rparr>))) = Disconnected"
proof -
  have "msg_type sample_logon = MsgType_Logon" "get_tag sample_logon Tag_ResetSeqNumFlag = Some ''Y''"
    "msg_seq_num sample_logon = 1"
    by (simp_all add: sample_logon_def msg_seq_num_def get_tag_int_def tag_defs sto_int_def is_space_def
        is_digit_def digits_value_def digit_value_def msg_type_def msg_type_defs)
  then show ?thesis
    using logon_reset_dropped [of sample_logon
        "(fix_session_new sample_clock ''A'' ''B'' 30 ())\<lparr>fs_inbound_seq := 7\<rparr>" sample_clock]
    by (simp add: fix_session_new_def sample_clock_def)
qed

text \<open>
  A session becomes active only by a logon of its counterparty.
\<close>

lemma active_outbound:
  "fs_state (snd (send_message_locked ck msg s)) = fs_state s"
  "fs_state (snd (transition_locked st s)) = st"
  by (simp_all add: send_message_locked_def transition_locked_def split_beta Let_def)

lemma active_then:
  "fs_state (snd (then_op (send_message_locked ck msg) (transition_locked st) s)) = st"
  by (simp add: then_op_def split_beta active_outbound)

lemma dispatch_active:
  assumes "fs_state (snd (dispatch_message ck msg s)) = Active" and "fs_state s \<noteq> Active"
  shows "msg_type msg = MsgType_Logon"
proof (rule ccontr)
  assume "msg_type msg \<noteq> MsgType_Logon"
  then show False
    using assms
    by (auto simp: dispatch_message_def Let_def handle_logout_def handle_heartbeat_def
        handle_test_request_def handle_resend_request_def split_beta active_outbound active_then
        split: if_splits option.splits)
qed

text \<open>A message on the wire, as the other side reads it.\<close>

lemma field_ok_show_int: "0 \<le> t \<Longrightarrow> t < 2 ^ 31 \<Longrightarrow> field_ok (t, show_int i)"
  using show_int_chars [of SOH i] by (auto simp: field_ok_def SOH_def)

lemma wire_fields_read:
  "get_tag (wire_fields m) Tag_SenderCompID = get_tag m Tag_SenderCompID"
  "get_tag (wire_fields m) Tag_TargetCompID = get_tag m Tag_TargetCompID"
  "get_tag (wire_fields m) Tag_ResetSeqNumFlag = get_tag m Tag_ResetSeqNumFlag"
  "get_tag_int (wire_fields m) Tag_HeartBtInt = get_tag_int m Tag_HeartBtInt"
  "msg_type (wire_fields m) = msg_type m" "msg_seq_num (wire_fields m) = msg_seq_num m"
proof -
  have tags: "get_tag (wire_fields m) t = get_tag m t"
    if "t \<in> {Tag_SenderCompID, Tag_TargetCompID, Tag_ResetSeqNumFlag, Tag_HeartBtInt, Tag_MsgType, Tag_MsgSeqNum}" for t
    using that by (intro get_tag_wire) (auto simp: tag_defs)
  show "get_tag (wire_fields m) Tag_SenderCompID = get_tag m Tag_SenderCompID"
    "get_tag (wire_fields m) Tag_TargetCompID = get_tag m Tag_TargetCompID"
    "get_tag (wire_fields m) Tag_ResetSeqNumFlag = get_tag m Tag_ResetSeqNumFlag"
    "get_tag_int (wire_fields m) Tag_HeartBtInt = get_tag_int m Tag_HeartBtInt"
    "msg_type (wire_fields m) = msg_type m" "msg_seq_num (wire_fields m) = msg_seq_num m"
    by (simp_all add: tags get_tag_int_def msg_type_def msg_seq_num_def)
qed

definition clean :: "string \<Rightarrow> bool" where
  "clean v \<longleftrightarrow> SOH \<notin> set v"

lemma parse_stamped:
  assumes "list_all field_ok msg" and "clean now" and "clean (fs_sender_comp_id s)"
    and "clean (fs_target_comp_id s)"
  shows "parse_fix (serialize (stamp now s msg)) = Some (wire_fields (stamp now s msg))"
proof (rule parse_serialize)
  show "list_all field_ok (stamp now s msg)"
    using assms field_ok_show_int [of Tag_MsgSeqNum]
    unfolding stamp_def set_tag_int_def
    by (intro list_all_set_tag) (simp_all add: field_ok_def clean_def tag_defs)
qed

definition logon_msg :: "int \<Rightarrow> fix_message" where
  "logon_msg interval = set_tag_int Tag_HeartBtInt interval
     (set_tag_int Tag_EncryptMethod 0 (set_tag_char Tag_MsgType MsgType_Logon []))"

lemma logon_msg_ok: "list_all field_ok (logon_msg i)"
  unfolding logon_msg_def set_tag_int_def set_tag_char_def
  by (intro list_all_set_tag field_ok_show_int)
    (simp_all add: field_ok_def tag_defs MsgType_Logon_def SOH_def)

lemma stamped_logon:
  assumes "- (2 ^ 31) \<le> i" and "i < 2 ^ 31"
  shows "msg_type (stamp now s (logon_msg i)) = MsgType_Logon"
    "msg_seq_num (stamp now s (logon_msg i)) = fs_outbound_seq s"
    "get_tag_int (stamp now s (logon_msg i)) Tag_HeartBtInt = Some i"
    "get_tag (stamp now s (logon_msg i)) Tag_SenderCompID = Some (fs_sender_comp_id s)"
    "get_tag (stamp now s (logon_msg i)) Tag_TargetCompID = Some (fs_target_comp_id s)"
    "get_tag (stamp now s (logon_msg i)) Tag_ResetSeqNumFlag = None"
proof -
  have "stoll (show_int (sint (fs_outbound_seq s))) = Some (sint (fs_outbound_seq s))"
    using sint_ge [of "fs_outbound_seq s"] sint_lt [of "fs_outbound_seq s"]
    by (intro sto_int_show_int) simp_all
  moreover have "stoll (show_int i) = Some i"
    using assms by (intro sto_int_show_int) simp_all
  ultimately show "msg_type (stamp now s (logon_msg i)) = MsgType_Logon"
    "msg_seq_num (stamp now s (logon_msg i)) = fs_outbound_seq s"
    "get_tag_int (stamp now s (logon_msg i)) Tag_HeartBtInt = Some i"
    "get_tag (stamp now s (logon_msg i)) Tag_SenderCompID = Some (fs_sender_comp_id s)"
    "get_tag (stamp now s (logon_msg i)) Tag_TargetCompID = Some (fs_target_comp_id s)"
    "get_tag (stamp now s (logon_msg i)) Tag_ResetSeqNumFlag = None"
    by (simp_all add: stamp_def logon_msg_def msg_type_def msg_seq_num_def get_tag_int_def tag_defs)
qed

lemma receive_logon:
  assumes "msg_type m = MsgType_Logon" and "msg_seq_num m = fs_inbound_seq s"
    and "get_tag m Tag_SenderCompID = Some (fs_target_comp_id s)"
    and "get_tag m Tag_TargetCompID = Some (fs_sender_comp_id s)"
  shows "on_message_received ck m s = handle_logon ck m
    (s\<lparr>fs_last_recv_time := fst (fc_steady_now ck (fs_env s)),
       fs_env := snd (fc_steady_now ck (fs_env s)), fs_inbound_seq := fs_inbound_seq s + 1\<rparr>)"
proof -
  have "MsgType_Logon \<noteq> MsgType_SequenceReset"
    by (simp add: msg_type_defs)
  then show ?thesis
    using assms by (simp add: on_message_received_def dispatch_message_def split_beta Let_def)
qed

abbreviation sent_text :: "'e fix_clock \<Rightarrow> fix_message \<Rightarrow> 'e fix_session \<Rightarrow> string" where
  "sent_text ck msg s \<equiv> serialize (stamp (fst (fc_sending_time ck (fs_env s))) s msg)"

lemma send_message_fields:
  "fst (send_message_locked ck msg s) = [Wire (sent_text ck msg s)]"
  "fs_state (snd (send_message_locked ck msg s)) = fs_state s"
  "fs_sender_comp_id (snd (send_message_locked ck msg s)) = fs_sender_comp_id s"
  "fs_target_comp_id (snd (send_message_locked ck msg s)) = fs_target_comp_id s"
  "fs_outbound_seq (snd (send_message_locked ck msg s)) = fs_outbound_seq s + 1"
  "fs_inbound_seq (snd (send_message_locked ck msg s)) = fs_inbound_seq s"
  by (simp_all add: send_message_locked_def split_beta Let_def)

lemma logon_sent:
  assumes "fs_state s = Disconnected"
  shows "fst (send_logon ck False s) = [Wire (sent_text ck (logon_msg (fs_heartbeat_interval_sec s)) s),
      State_Change Disconnected LogonSent]"
    "fs_state (snd (send_logon ck False s)) = LogonSent"
    "fs_sender_comp_id (snd (send_logon ck False s)) = fs_sender_comp_id s"
    "fs_target_comp_id (snd (send_logon ck False s)) = fs_target_comp_id s"
    "fs_outbound_seq (snd (send_logon ck False s)) = fs_outbound_seq s + 1"
    "fs_inbound_seq (snd (send_logon ck False s)) = fs_inbound_seq s"
  using assms
  by (simp_all add: send_logon_def then_op_def transition_locked_def logon_msg_def split_beta
      send_message_fields Let_def)

lemma logon_answered:
  assumes "fs_state s = Disconnected" and "get_tag_int m Tag_HeartBtInt = Some i" and "0 < i"
    and "i < 2 ^ 31" and "get_tag m Tag_ResetSeqNumFlag = None"
  shows "fst (handle_logon ck m s) = [Wire (sent_text ck (logon_msg i) s), State_Change Disconnected Active]"
    "fs_state (snd (handle_logon ck m s)) = Active"
    "fs_outbound_seq (snd (handle_logon ck m s)) = fs_outbound_seq s + 1"
    "fs_inbound_seq (snd (handle_logon ck m s)) = fs_inbound_seq s"
proof -
  have "sint (of_int i :: u32) = i"
    using assms(3,4) by (simp add: signed_of_int signed_take_bit_int_eq_self)
  then show "fst (handle_logon ck m s) = [Wire (sent_text ck (logon_msg i) s), State_Change Disconnected Active]"
    "fs_state (snd (handle_logon ck m s)) = Active"
    "fs_outbound_seq (snd (handle_logon ck m s)) = fs_outbound_seq s + 1"
    "fs_inbound_seq (snd (handle_logon ck m s)) = fs_inbound_seq s"
    using assms
    by (simp_all add: handle_logon_def then_op_def transition_locked_def logon_msg_def split_beta
        send_message_fields stamp_def Let_def)
qed

lemma logon_confirmed:
  assumes "fs_state s = LogonSent" and "get_tag m Tag_ResetSeqNumFlag = None"
  shows "fst (handle_logon ck m s) = [State_Change LogonSent Active]"
    "fs_state (snd (handle_logon ck m s)) = Active"
    "fs_outbound_seq (snd (handle_logon ck m s)) = fs_outbound_seq s"
    "fs_inbound_seq (snd (handle_logon ck m s)) = fs_inbound_seq s"
  using assms by (auto simp: handle_logon_def transition_locked_def split: option.splits)

text \<open>
  C13. The logon handshake completes. When a disconnected session sends a logon, and a disconnected
  session of the counterparty with mirrored ids and matching sequence numbers parses and processes
  it, the latter answers and is active; when the first parses and processes the answer it is active
  too. Both are then in step: each expects the number the other will send next.
\<close>

theorem logon_handshake:
  fixes a b :: "'e fix_session"
  assumes ids: "fs_target_comp_id a = fs_sender_comp_id b" "fs_target_comp_id b = fs_sender_comp_id a"
    and clean_ids: "clean (fs_sender_comp_id a)" "clean (fs_sender_comp_id b)"
    and clean_time: "\<And>e. clean (fst (fc_sending_time ck e))"
    and interval: "0 < fs_heartbeat_interval_sec a" "fs_heartbeat_interval_sec a < 2 ^ 31"
    and off: "fs_state a = Disconnected" "fs_state b = Disconnected"
    and sync: "fs_inbound_seq b = fs_outbound_seq a" "fs_inbound_seq a = fs_outbound_seq b"
  shows "\<exists>w1 a1 m1 w2 b1 m2 a2.
    send_logon ck False a = ([Wire w1, State_Change Disconnected LogonSent], a1)
    \<and> parse_fix w1 = Some m1
    \<and> on_message_received ck m1 b = ([Wire w2, State_Change Disconnected Active], b1)
    \<and> parse_fix w2 = Some m2
    \<and> on_message_received ck m2 a1 = ([State_Change LogonSent Active], a2)
    \<and> fs_state a2 = Active \<and> fs_state b1 = Active
    \<and> fs_inbound_seq b1 = fs_outbound_seq a2 \<and> fs_inbound_seq a2 = fs_outbound_seq b1"
proof -
  let ?i = "fs_heartbeat_interval_sec a"
  have range: "- (2 ^ 31) \<le> ?i" using interval by simp
  let ?a1 = "snd (send_logon ck False a)"
  let ?w1 = "sent_text ck (logon_msg ?i) a"
  let ?m1 = "wire_fields (stamp (fst (fc_sending_time ck (fs_env a))) a (logon_msg ?i))"
  let ?b = "b\<lparr>fs_last_recv_time := fst (fc_steady_now ck (fs_env b)),
       fs_env := snd (fc_steady_now ck (fs_env b)), fs_inbound_seq := fs_inbound_seq b + 1\<rparr>"
  let ?b1 = "snd (handle_logon ck ?m1 ?b)"
  let ?w2 = "sent_text ck (logon_msg ?i) ?b"
  let ?m2 = "wire_fields (stamp (fst (fc_sending_time ck (fs_env ?b))) ?b (logon_msg ?i))"
  let ?a = "?a1\<lparr>fs_last_recv_time := fst (fc_steady_now ck (fs_env ?a1)),
       fs_env := snd (fc_steady_now ck (fs_env ?a1)), fs_inbound_seq := fs_inbound_seq ?a1 + 1\<rparr>"
  note sent = logon_sent [OF off(1), of ck]
  note read = stamped_logon [OF range interval(2)] wire_fields_read
  have p1: "parse_fix ?w1 = Some ?m1"
    using clean_ids ids by (intro parse_stamped logon_msg_ok clean_time) simp_all
  have rb: "on_message_received ck ?m1 b = handle_logon ck ?m1 ?b"
    using ids sync by (intro receive_logon) (simp_all add: read)
  have ans: "fst (handle_logon ck ?m1 ?b) = [Wire ?w2, State_Change Disconnected Active]"
    "fs_state ?b1 = Active" "fs_outbound_seq ?b1 = fs_outbound_seq b + 1"
    "fs_inbound_seq ?b1 = fs_inbound_seq b + 1"
    using logon_answered [of ?b ?m1 ?i ck] off(2) interval by (simp_all add: read)
  have p2: "parse_fix ?w2 = Some ?m2"
    using clean_ids ids by (intro parse_stamped logon_msg_ok clean_time) simp_all
  have ra: "on_message_received ck ?m2 ?a1 = handle_logon ck ?m2 ?a"
    using ids sync by (intro receive_logon) (simp_all add: read sent)
  have conf: "fst (handle_logon ck ?m2 ?a) = [State_Change LogonSent Active]"
    "fs_state (snd (handle_logon ck ?m2 ?a)) = Active"
    "fs_outbound_seq (snd (handle_logon ck ?m2 ?a)) = fs_outbound_seq a + 1"
    "fs_inbound_seq (snd (handle_logon ck ?m2 ?a)) = fs_inbound_seq a + 1"
    using logon_confirmed [of ?a ?m2 ck] by (simp_all add: read sent)
  show ?thesis
  proof (intro exI conjI)
    show "send_logon ck False a = ([Wire ?w1, State_Change Disconnected LogonSent], ?a1)"
      by (simp add: prod_eq_iff sent)
    show "parse_fix ?w1 = Some ?m1" by (rule p1)
    show "on_message_received ck ?m1 b = ([Wire ?w2, State_Change Disconnected Active], ?b1)"
      by (simp only: rb prod_eq_iff ans) simp
    show "parse_fix ?w2 = Some ?m2" by (rule p2)
    show "on_message_received ck ?m2 ?a1 = ([State_Change LogonSent Active], snd (handle_logon ck ?m2 ?a))"
      by (simp only: ra prod_eq_iff conf) simp
    show "fs_state (snd (handle_logon ck ?m2 ?a)) = Active" "fs_state ?b1 = Active"
      by (rule conf(2), rule ans(2))
    show "fs_inbound_seq ?b1 = fs_outbound_seq (snd (handle_logon ck ?m2 ?a))"
      unfolding ans(4) conf(3) by (simp only: sync)
    show "fs_inbound_seq (snd (handle_logon ck ?m2 ?a)) = fs_outbound_seq ?b1"
      unfolding conf(4) ans(3) by (simp only: sync)
  qed
qed

theorem logon_handshake_witness:
  "\<exists>w1 a1 m1 w2 b1 m2 a2.
    send_logon sample_clock False (fix_session_new sample_clock ''A'' ''B'' 30 ())
      = ([Wire w1, State_Change Disconnected LogonSent], a1)
    \<and> parse_fix w1 = Some m1
    \<and> on_message_received sample_clock m1 (fix_session_new sample_clock ''B'' ''A'' 30 ())
      = ([Wire w2, State_Change Disconnected Active], b1)
    \<and> parse_fix w2 = Some m2
    \<and> on_message_received sample_clock m2 a1 = ([State_Change LogonSent Active], a2)
    \<and> fs_state a2 = Active \<and> fs_state b1 = Active
    \<and> fs_inbound_seq b1 = fs_outbound_seq a2 \<and> fs_inbound_seq a2 = fs_outbound_seq b1"
  by (rule logon_handshake)
    (simp_all add: fix_session_new_def sample_clock_def clean_def SOH_def)

end
