(* ===== verification/Fix_Gateway.thy ===== *)
theory Fix_Gateway
  imports Fix_Session
begin

text \<open>
  The order gateway over a FIX session (\<open>protocol/fix/fix_gateway.hpp\<close>): order entry and cancels,
  the maps from client order ids, the framing of the byte stream from the TCP connection, and the
  translation of execution reports and cancel rejects.

  The TCP client is the flag \<open>is_connected\<close> and the texts handed to \<open>send\<close>; connecting, the timer
  and the sockets are left to the network library. The output of an operation is the list of its
  effects in order. Formatting a price (\<open>%.4f\<close>) and reading a \<open>double\<close> (\<open>std::stod\<close>) are arguments.
\<close>

section \<open>State\<close>

record 'd exec_report =
  er_cl_ord_id :: string
  er_order_id :: string
  er_exec_id :: string
  er_symbol :: string
  er_exec_type :: char
  er_ord_status :: char
  er_side :: side
  er_avg_px :: 'd
  er_last_px :: 'd
  er_last_qty :: quantity
  er_cum_qty :: quantity
  er_leaves_qty :: quantity
  er_text :: string

definition exec_report_new :: "'d fp \<Rightarrow> 'd exec_report" where
  "exec_report_new fp = \<lparr>er_cl_ord_id = [], er_order_id = [], er_exec_id = [], er_symbol = [],
     er_exec_type = CHR 0x00, er_ord_status = CHR 0x00, er_side = Side_Buy, er_avg_px = fp_zero fp,
     er_last_px = fp_zero fp, er_last_qty = 0, er_cum_qty = 0, er_leaves_qty = 0, er_text = []\<rparr>"

record pending_order =
  po_symbol :: symbol
  po_side :: side
  po_quantity :: quantity
  po_price :: price

record 'e fix_gateway =
  gw_session :: "'e fix_session"
  gw_connected :: bool
  gw_cl_ord_seq :: u64
  gw_pending_orders :: "string \<rightharpoonup> pending_order"
  gw_cancel_to_orig :: "string \<rightharpoonup> string"
  gw_clordid_to_internal :: "string \<rightharpoonup> order_id"
  gw_recv_buf :: string

definition fix_gateway_new :: "'e fix_clock \<Rightarrow> string \<Rightarrow> string \<Rightarrow> int \<Rightarrow> 'e \<Rightarrow> 'e fix_gateway" where
  "fix_gateway_new ck sender target interval e =
     \<lparr>gw_session = fix_session_new ck sender target interval e, gw_connected = False,
      gw_cl_ord_seq = 1, gw_pending_orders = Map.empty, gw_cancel_to_orig = Map.empty,
      gw_clordid_to_internal = Map.empty, gw_recv_buf = []\<rparr>"

datatype 'd gateway_event =
    Tcp_Send string
  | Exec_Callback "'d exec_report"
  | State_Callback session_state session_state

text \<open>The operations on \<open>double\<close> the gateway needs: the arithmetic, \<open>snprintf\<close> and \<open>std::stod\<close>.\<close>

record 'd fix_text =
  ft_fp :: "'d fp"
  ft_format :: "'d \<Rightarrow> string"
  ft_stod :: "string \<Rightarrow> 'd option"

section \<open>Application messages\<close>

definition OrdStatus_Filled :: char where "OrdStatus_Filled = CHR ''2''"
definition OrdStatus_Cancelled :: char where "OrdStatus_Cancelled = CHR ''4''"
definition OrdStatus_Rejected :: char where "OrdStatus_Rejected = CHR ''8''"
definition ExecType_Rejected :: char where "ExecType_Rejected = CHR ''8''"
definition OrdType_Market :: char where "OrdType_Market = CHR ''1''"
definition OrdType_Limit :: char where "OrdType_Limit = CHR ''2''"
definition FixSide_Buy :: char where "FixSide_Buy = CHR ''1''"
definition FixSide_Sell :: char where "FixSide_Sell = CHR ''2''"
definition TimeInForce_Day :: char where "TimeInForce_Day = CHR ''0''"
definition HandlInst_AutoPrivate :: char where "HandlInst_AutoPrivate = CHR ''1''"

definition or_else :: "'a option \<Rightarrow> 'a \<Rightarrow> 'a" where
  "or_else x d = (case x of Some v \<Rightarrow> v | None \<Rightarrow> d)"

definition front_or :: "string option \<Rightarrow> char \<Rightarrow> char" where
  "front_or x d = (case x of Some (c # _) \<Rightarrow> c | _ \<Rightarrow> d)"

definition exec_report_of :: "'d fix_text \<Rightarrow> fix_message \<Rightarrow> 'd exec_report" where
  "exec_report_of ft msg =
     (let r = exec_report_new (ft_fp ft);
          quantity_of = (\<lambda>tag d. case get_tag_int msg tag of Some i \<Rightarrow> of_int i | None \<Rightarrow> d);
          double_of = (\<lambda>tag d. or_else (get_tag_double (ft_stod ft) msg tag) d)
      in r\<lparr>er_cl_ord_id := or_else (get_tag msg Tag_ClOrdID) (er_cl_ord_id r),
           er_order_id := or_else (get_tag msg Tag_OrderID) (er_order_id r),
           er_exec_id := or_else (get_tag msg Tag_ExecID) (er_exec_id r),
           er_symbol := or_else (get_tag msg Tag_Symbol) (er_symbol r),
           er_text := or_else (get_tag msg Tag_Text) (er_text r),
           er_exec_type := front_or (get_tag msg Tag_ExecType) (er_exec_type r),
           er_ord_status := front_or (get_tag msg Tag_OrdStatus) (er_ord_status r),
           er_side := (case get_tag msg Tag_Side of
               Some (c # _) \<Rightarrow> if c = FixSide_Buy then Side_Buy else Side_Sell | _ \<Rightarrow> er_side r),
           er_avg_px := double_of Tag_AvgPx (er_avg_px r),
           er_last_px := double_of Tag_LastPx (er_last_px r),
           er_last_qty := quantity_of Tag_LastQty (er_last_qty r),
           er_cum_qty := quantity_of Tag_CumQty (er_cum_qty r),
           er_leaves_qty := quantity_of Tag_LeavesQty (er_leaves_qty r)\<rparr>)"

definition handle_execution_report ::
  "'d fix_text \<Rightarrow> fix_message \<Rightarrow> 'e fix_gateway \<Rightarrow> 'd gateway_event list \<times> 'e fix_gateway" where
  "handle_execution_report ft msg g =
     (let rpt = exec_report_of ft msg;
          g = (if er_ord_status rpt = OrdStatus_Filled \<or> er_ord_status rpt = OrdStatus_Cancelled
                 \<or> er_ord_status rpt = OrdStatus_Rejected
               then g\<lparr>gw_pending_orders := (gw_pending_orders g)(er_cl_ord_id rpt := None)\<rparr> else g)
      in ([Exec_Callback rpt], g))"

definition handle_cancel_reject ::
  "'d fix_text \<Rightarrow> fix_message \<Rightarrow> 'e fix_gateway \<Rightarrow> 'd gateway_event list \<times> 'e fix_gateway" where
  "handle_cancel_reject ft msg g =
     (let r = exec_report_new (ft_fp ft);
          r = r\<lparr>er_cl_ord_id := or_else (get_tag msg Tag_ClOrdID) (er_cl_ord_id r),
                er_order_id := or_else (get_tag msg Tag_OrderID) (er_order_id r),
                er_text := or_else (get_tag msg Tag_Text) (er_text r),
                er_exec_type := ExecType_Rejected, er_ord_status := OrdStatus_Rejected\<rparr>
      in case get_tag msg Tag_OrigClOrdID of
           None \<Rightarrow> ([Exec_Callback r], g)
         | Some orig \<Rightarrow>
             (case gw_cancel_to_orig g orig of
                None \<Rightarrow> ([Exec_Callback r], g)
              | Some k \<Rightarrow> ([Exec_Callback (r\<lparr>er_cl_ord_id := k\<rparr>)],
                  g\<lparr>gw_cancel_to_orig := (gw_cancel_to_orig g)(orig := None)\<rparr>)))"

definition on_app_message ::
  "'d fix_text \<Rightarrow> fix_message \<Rightarrow> 'e fix_gateway \<Rightarrow> 'd gateway_event list \<times> 'e fix_gateway" where
  "on_app_message ft msg g =
     (if msg_type msg = MsgType_ExecutionReport then handle_execution_report ft msg g
      else if msg_type msg = MsgType_OrderCancelReject then handle_cancel_reject ft msg g
      else ([], g))"

section \<open>The wiring of the session\<close>

text \<open>What the callbacks set by the constructor do with the events of the session, in their order.\<close>

fun on_session_event ::
  "'d fix_text \<Rightarrow> session_event \<Rightarrow> 'e fix_gateway \<Rightarrow> 'd gateway_event list \<times> 'e fix_gateway" where
  "on_session_event ft (Wire raw) g = (if gw_connected g then ([Tcp_Send raw], g) else ([], g))"
| "on_session_event ft (App_Message msg) g = on_app_message ft msg g"
| "on_session_event ft (State_Change a b) g = ([State_Callback a b], g)"

fun on_session_events ::
  "'d fix_text \<Rightarrow> session_event list \<Rightarrow> 'e fix_gateway \<Rightarrow> 'd gateway_event list \<times> 'e fix_gateway" where
  "on_session_events ft [] g = ([], g)"
| "on_session_events ft (ev # evs) g =
     (let (out, g) = on_session_event ft ev g; (outs, g) = on_session_events ft evs g
      in (out @ outs, g))"

definition with_session ::
  "'d fix_text \<Rightarrow> 'e session_op \<Rightarrow> 'e fix_gateway \<Rightarrow> 'd gateway_event list \<times> 'e fix_gateway" where
  "with_session ft f g =
     (let (evs, s) = f (gw_session g) in on_session_events ft evs (g\<lparr>gw_session := s\<rparr>))"

section \<open>Order entry\<close>

definition generate_cl_ord_id :: "'e fix_clock \<Rightarrow> 'e fix_gateway \<Rightarrow> string \<times> 'e fix_gateway" where
  "generate_cl_ord_id ck g =
     (let seq = gw_cl_ord_seq g;
          s = gw_session g;
          (ns, e) = fc_now_ns ck (fs_env s)
      in (''QF-'' @ show_nat (unat ns) @ ''-'' @ show_nat (unat seq),
          g\<lparr>gw_cl_ord_seq := seq + 1, gw_session := s\<lparr>fs_env := e\<rparr>\<rparr>))"

definition symbol_text :: "symbol \<Rightarrow> string" where
  "symbol_text sy = map (\<lambda>b. char_of (unat b)) (takeWhile (\<lambda>b. b \<noteq> 0) (sym_data sy))"

definition fix_side_of :: "side \<Rightarrow> char" where
  "fix_side_of sd = (if sd = Side_Buy then FixSide_Buy else FixSide_Sell)"

definition send_new_order ::
  "'d fix_text \<Rightarrow> 'e fix_clock \<Rightarrow> symbol \<Rightarrow> side \<Rightarrow> quantity \<Rightarrow> price \<Rightarrow> char \<Rightarrow> 'e fix_gateway
     \<Rightarrow> string \<times> 'd gateway_event list \<times> 'e fix_gateway" where
  "send_new_order ft ck sy sd qty p tif g =
     (let (cl_ord_id, g) = generate_cl_ord_id ck g;
          ord_type = (if p = 0 then OrdType_Market else OrdType_Limit);
          (now, e) = fc_sending_time ck (fs_env (gw_session g));
          g = g\<lparr>gw_session := gw_session g\<lparr>fs_env := e\<rparr>\<rparr>;
          msg = set_tag_char Tag_MsgType MsgType_NewOrderSingle [];
          msg = set_tag Tag_ClOrdID cl_ord_id msg;
          msg = set_tag_char Tag_HandlInst HandlInst_AutoPrivate msg;
          msg = set_tag Tag_Symbol (symbol_text sy) msg;
          msg = set_tag_char Tag_Side (fix_side_of sd) msg;
          msg = set_tag Tag_TransactTime now msg;
          msg = set_tag Tag_OrderQty (show_nat (unat qty)) msg;
          msg = set_tag_char Tag_OrdType ord_type msg;
          msg = set_tag_char Tag_TimeInForce tif msg;
          msg = (if p \<noteq> 0
                 then set_tag Tag_Price (ft_format ft (price_to_double (ft_fp ft) p)) msg else msg);
          (evs, g) = with_session ft (send_app_message ck msg) g;
          pending = gw_pending_orders g
      in (cl_ord_id, evs, g\<lparr>gw_pending_orders :=
            (case pending cl_ord_id of
               Some _ \<Rightarrow> pending
             | None \<Rightarrow> pending(cl_ord_id \<mapsto> \<lparr>po_symbol = sy, po_side = sd, po_quantity = qty,
                 po_price = p\<rparr>))\<rparr>))"

definition send_cancel ::
  "'d fix_text \<Rightarrow> 'e fix_clock \<Rightarrow> string \<Rightarrow> 'e fix_gateway
     \<Rightarrow> string \<times> 'd gateway_event list \<times> 'e fix_gateway" where
  "send_cancel ft ck cl_ord_id g =
     (let (cancel_id, g) = generate_cl_ord_id ck g;
          (sym_buf, fix_side, qty) =
            (case gw_pending_orders g cl_ord_id of
               None \<Rightarrow> ([], FixSide_Buy, 0)
             | Some po \<Rightarrow> (symbol_text (po_symbol po), fix_side_of (po_side po), po_quantity po));
          (now, e) = fc_sending_time ck (fs_env (gw_session g));
          g = g\<lparr>gw_session := gw_session g\<lparr>fs_env := e\<rparr>\<rparr>;
          msg = set_tag_char Tag_MsgType MsgType_OrderCancelRequest [];
          msg = set_tag Tag_ClOrdID cancel_id msg;
          msg = set_tag Tag_OrigClOrdID cl_ord_id msg;
          msg = set_tag Tag_Symbol sym_buf msg;
          msg = set_tag_char Tag_Side fix_side msg;
          msg = set_tag Tag_TransactTime now msg;
          msg = set_tag Tag_OrderQty (show_nat (unat qty)) msg;
          (evs, g) = with_session ft (send_app_message ck msg) g
      in (cancel_id, evs,
          g\<lparr>gw_cancel_to_orig := (gw_cancel_to_orig g)(cancel_id \<mapsto> cl_ord_id)\<rparr>))"

definition map_order_id :: "string \<Rightarrow> order_id \<Rightarrow> 'e fix_gateway \<Rightarrow> 'e fix_gateway" where
  "map_order_id cl_ord_id k g =
     g\<lparr>gw_clordid_to_internal := (gw_clordid_to_internal g)(cl_ord_id \<mapsto> k)\<rparr>"

definition get_internal_id :: "'e fix_gateway \<Rightarrow> string \<Rightarrow> order_id option" where
  "get_internal_id g cl_ord_id = gw_clordid_to_internal g cl_ord_id"

section \<open>Connection events\<close>

definition gw_disconnect ::
  "'d fix_text \<Rightarrow> 'e fix_clock \<Rightarrow> 'e fix_gateway \<Rightarrow> 'd gateway_event list \<times> 'e fix_gateway" where
  "gw_disconnect ft ck g = with_session ft (send_logout ck ''Client disconnect'') g"

definition gw_is_active :: "'e fix_gateway \<Rightarrow> bool" where
  "gw_is_active g \<longleftrightarrow> fs_state (gw_session g) = Active"

definition on_tcp_connected ::
  "'d fix_text \<Rightarrow> 'e fix_clock \<Rightarrow> 'e fix_gateway \<Rightarrow> 'd gateway_event list \<times> 'e fix_gateway" where
  "on_tcp_connected ft ck g = with_session ft (send_logon ck False) g"

definition on_tcp_disconnected ::
  "'d fix_text \<Rightarrow> 'e fix_gateway \<Rightarrow> 'd gateway_event list \<times> 'e fix_gateway" where
  "on_tcp_disconnected ft g = with_session ft on_disconnect g"

definition gw_receive ::
  "'d fix_text \<Rightarrow> 'e fix_clock \<Rightarrow> fix_message \<Rightarrow> 'e fix_gateway \<Rightarrow> 'd gateway_event list \<times> 'e fix_gateway" where
  "gw_receive ft ck msg g = with_session ft (on_message_received ck msg) g"

text \<open>The loop of \<open>on_tcp_data\<close> on the receive buffer.\<close>

function frame_loop_fix ::
  "'d fix_text \<Rightarrow> 'e fix_clock \<Rightarrow> string \<Rightarrow> 'e fix_gateway
     \<Rightarrow> 'd gateway_event list \<times> string \<times> 'e fix_gateway" where
  "frame_loop_fix ft ck buf g =
     (if buf = [] then ([], buf, g)
      else
        let msg_len = extract_message_length buf in
        if msg_len = 0 then ([], buf, g)
        else
          let (evs, g) = (case parse_fix (take msg_len buf) of
                None \<Rightarrow> ([], g) | Some msg \<Rightarrow> gw_receive ft ck msg g);
              (evs', buf', g) = frame_loop_fix ft ck (drop msg_len buf) g
          in (evs @ evs', buf', g))"
  by pat_completeness auto
termination
  by (relation "measure (\<lambda>(_, _, buf, _). length buf)") auto

declare frame_loop_fix.simps [simp del]

definition on_tcp_data ::
  "'d fix_text \<Rightarrow> 'e fix_clock \<Rightarrow> string \<Rightarrow> 'e fix_gateway \<Rightarrow> 'd gateway_event list \<times> 'e fix_gateway" where
  "on_tcp_data ft ck data g =
     (let (evs, buf, g) = frame_loop_fix ft ck (gw_recv_buf g @ data) g
      in (evs, g\<lparr>gw_recv_buf := (if length buf > 1024 * 1024 then [] else buf)\<rparr>))"

definition heartbeat_tick ::
  "'d fix_text \<Rightarrow> 'e fix_clock \<Rightarrow> 'e fix_gateway \<Rightarrow> 'd gateway_event list \<times> 'e fix_gateway" where
  "heartbeat_tick ft ck g = with_session ft (check_heartbeat ck) g"

section \<open>Framing the stream\<close>

fun receive_all ::
  "'d fix_text \<Rightarrow> 'e fix_clock \<Rightarrow> fix_message list \<Rightarrow> 'e fix_gateway \<Rightarrow> 'd gateway_event list \<times> 'e fix_gateway" where
  "receive_all ft ck [] g = ([], g)"
| "receive_all ft ck (m # ms) g =
     (let (evs, g) = gw_receive ft ck m g; (evs', g) = receive_all ft ck ms g in (evs @ evs', g))"

lemma receive_all_append:
  "receive_all ft ck (ms @ ms') g =
     (let (evs, g) = receive_all ft ck ms g; (evs', g) = receive_all ft ck ms' g in (evs @ evs', g))"
  by (induction ms arbitrary: g) (simp_all add: split_beta Let_def)

text \<open>The messages a counterparty sends: fields that can be sent, and at most a mebibyte of text.\<close>

definition sendable :: "fix_message \<Rightarrow> bool" where
  "sendable m \<longleftrightarrow> list_all field_ok m \<and> length (serialize m) \<le> 1024 * 1024"

abbreviation wire_stream :: "fix_message list \<Rightarrow> string" where
  "wire_stream ms \<equiv> concat (map serialize ms)"

lemma serialize_not_Nil: "serialize m \<noteq> []"
  by (simp add: length_serialize flip: length_greater_0_conv)

lemma frame_loop_fix_message:
  assumes "sendable m"
  shows "frame_loop_fix ft ck (serialize m @ rest) g =
    (let (evs, g) = gw_receive ft ck (wire_fields m) g;
         (evs', buf', g) = frame_loop_fix ft ck rest g in (evs @ evs', buf', g))"
proof -
  have "extract_message_length (serialize m @ rest) = length (serialize m)"
    using assms by (intro extract_serialize(1)) (simp add: sendable_def)
  moreover have "parse_fix (serialize m) = Some (wire_fields m)"
    using assms by (intro parse_serialize) (simp add: sendable_def)
  ultimately show ?thesis
    by (subst frame_loop_fix.simps) (simp add: serialize_not_Nil)
qed

lemma frame_loop_fix_partial:
  assumes "sendable m" and "n < length (serialize m)"
  shows "frame_loop_fix ft ck (take n (serialize m)) g = ([], take n (serialize m), g)"
proof -
  have "extract_message_length (take n (serialize m)) = 0"
    using assms by (intro extract_serialize(2)) (simp_all add: sendable_def)
  then show ?thesis
    by (subst frame_loop_fix.simps) simp
qed

text \<open>What is left of the messages when the buffer holds the start of the stream.\<close>

lemma frame_loop_fix_stream:
  assumes "list_all sendable ms" and "buf @ later = wire_stream ms"
  shows "\<exists>ms1 ms2 rest. ms = ms1 @ ms2 \<and> rest @ later = wire_stream ms2
    \<and> (case ms2 of [] \<Rightarrow> rest = [] | m # _ \<Rightarrow> length rest < length (serialize m))
    \<and> frame_loop_fix ft ck buf g = (fst (receive_all ft ck (map wire_fields ms1) g), rest,
        snd (receive_all ft ck (map wire_fields ms1) g))"
  using assms
proof (induction ms arbitrary: buf g)
  case Nil
  then have "frame_loop_fix ft ck buf g = ([], [], g)"
    by (subst frame_loop_fix.simps) simp
  then show ?case
    using Nil by auto
next
  case (Cons m ms)
  show ?case
  proof (cases "length (serialize m) \<le> length buf")
    case True
    then obtain buf' where buf: "buf = serialize m @ buf'" "buf' @ later = wire_stream ms"
      using Cons.prems(2) by (metis append_eq_append_conv_if append_take_drop_id concat.simps(2) list.simps(9) same_append_eq append_assoc)
    let ?r = "gw_receive ft ck (wire_fields m) g"
    obtain ms1 ms2 rest where ih: "ms = ms1 @ ms2" "rest @ later = wire_stream ms2"
      "case ms2 of [] \<Rightarrow> rest = [] | m # _ \<Rightarrow> length rest < length (serialize m)"
      "frame_loop_fix ft ck buf' (snd ?r) = (fst (receive_all ft ck (map wire_fields ms1) (snd ?r)), rest,
        snd (receive_all ft ck (map wire_fields ms1) (snd ?r)))"
      using Cons.IH [OF _ buf(2), of "snd ?r"] Cons.prems(1) by auto
    have "frame_loop_fix ft ck buf g = (fst (receive_all ft ck (map wire_fields (m # ms1)) g), rest,
        snd (receive_all ft ck (map wire_fields (m # ms1)) g))"
      using buf(1) Cons.prems(1) ih(4) by (simp add: frame_loop_fix_message split_beta Let_def)
    then show ?thesis
      using ih(1-3) by (intro exI [of _ "m # ms1"] exI [of _ ms2] exI [of _ rest]) simp
  next
    case False
    then have "buf = take (length buf) (serialize m)"
      using Cons.prems(2) by (metis append_eq_conv_conj concat.simps(2) linorder_not_le list.simps(9)
          nat_less_le take_all_iff take_append diff_is_0_eq take0 append_Nil2)
    then have "frame_loop_fix ft ck buf g = ([], buf, g)"
      using frame_loop_fix_partial [of m "length buf" ft ck g] False Cons.prems(1) by simp
    then show ?thesis
      using False Cons.prems(2)
      by (intro exI [of _ "[]"] exI [of _ "m # ms"] exI [of _ buf]) simp
  qed
qed

fun on_tcp_chunks ::
  "'d fix_text \<Rightarrow> 'e fix_clock \<Rightarrow> string list \<Rightarrow> 'e fix_gateway \<Rightarrow> 'd gateway_event list \<times> 'e fix_gateway" where
  "on_tcp_chunks ft ck [] g = ([], g)"
| "on_tcp_chunks ft ck (c # cs) g =
     (let (evs, g) = on_tcp_data ft ck c g; (evs', g) = on_tcp_chunks ft ck cs g in (evs @ evs', g))"

text \<open>Processing messages neither reads nor writes the receive buffer.\<close>

abbreviation set_buf :: "string \<Rightarrow> 'e fix_gateway \<Rightarrow> 'e fix_gateway" where
  "set_buf b g \<equiv> g\<lparr>gw_recv_buf := b\<rparr>"

lemma on_app_message_buf: "on_app_message ft m (set_buf b g) = apsnd (set_buf b) (on_app_message ft m g)"
  by (simp add: on_app_message_def handle_execution_report_def handle_cancel_reject_def Let_def
      split: option.splits)

lemma on_session_event_buf:
  "on_session_event ft ev (set_buf b g) = apsnd (set_buf b) (on_session_event ft ev g)"
  by (cases ev) (simp_all add: on_app_message_buf)

lemma on_session_events_buf:
  "on_session_events ft evs (set_buf b g) = apsnd (set_buf b) (on_session_events ft evs g)"
  by (induction evs arbitrary: g) (simp_all add: on_session_event_buf split_beta Let_def)

lemma gw_receive_buf: "gw_receive ft ck m (set_buf b g) = apsnd (set_buf b) (gw_receive ft ck m g)"
proof -
  have "(set_buf b g)\<lparr>gw_session := s\<rparr> = set_buf b (g\<lparr>gw_session := s\<rparr>)" for s
    by simp
  then show ?thesis
    unfolding gw_receive_def with_session_def Let_def split_beta by (metis on_session_events_buf fix_gateway.select_convs(1) fix_gateway.surjective fix_gateway.update_convs(7))
qed

lemma receive_all_buf:
  "receive_all ft ck ms (set_buf b g) = apsnd (set_buf b) (receive_all ft ck ms g)"
  by (induction ms arbitrary: g) (simp_all add: gw_receive_buf split_beta Let_def)

lemma on_tcp_chunks_stream:
  assumes "list_all sendable ms" and "gw_recv_buf g @ concat chunks = wire_stream ms"
    and "case ms of [] \<Rightarrow> True | m # _ \<Rightarrow> length (gw_recv_buf g) < length (serialize m)"
  shows "on_tcp_chunks ft ck chunks g = apsnd (set_buf []) (receive_all ft ck (map wire_fields ms) g)"
  using assms
proof (induction chunks arbitrary: ms g)
  case Nil
  then have "ms = []"
    by (cases ms) auto
  then show ?case
    using Nil.prems(2) by simp
next
  case (Cons c cs)
  obtain ms1 ms2 rest where f: "ms = ms1 @ ms2" "rest @ concat cs = wire_stream ms2"
    "case ms2 of [] \<Rightarrow> rest = [] | m # _ \<Rightarrow> length rest < length (serialize m)"
    "frame_loop_fix ft ck (gw_recv_buf g @ c) g
       = (fst (receive_all ft ck (map wire_fields ms1) g), rest, snd (receive_all ft ck (map wire_fields ms1) g))"
    using frame_loop_fix_stream [OF Cons.prems(1), of "gw_recv_buf g @ c" "concat cs" ft ck g] Cons.prems(2)
    by auto
  have "length rest \<le> 1024 * 1024"
    using f(1,3) Cons.prems(1) by (cases ms2) (auto simp: sendable_def)
  then have data: "on_tcp_data ft ck c g = (fst (receive_all ft ck (map wire_fields ms1) g),
      set_buf rest (snd (receive_all ft ck (map wire_fields ms1) g)))"
    using f(4) by (simp add: on_tcp_data_def)
  have "on_tcp_chunks ft ck cs (set_buf rest (snd (receive_all ft ck (map wire_fields ms1) g)))
      = apsnd (set_buf []) (receive_all ft ck (map wire_fields ms2)
          (set_buf rest (snd (receive_all ft ck (map wire_fields ms1) g))))"
  proof (rule Cons.IH)
    show "list_all sendable ms2"
      using Cons.prems(1) f(1) by simp
  qed (use f(2,3) in \<open>auto split: list.splits\<close>)
  then show ?case
    using data by (simp add: f(1) receive_all_append receive_all_buf split_beta Let_def)
qed

text \<open>
  C11. TCP framing is transparent. When the bytes that arrive are the texts of a sequence of
  messages, cut into chunks at arbitrary places, the gateway processes exactly these messages, each
  once and in order, with the effects and the final state of processing them one by one, and its
  receive buffer is empty at the end.
\<close>

theorem gateway_framing_exact:
  assumes "list_all sendable ms" and "concat chunks = wire_stream ms" and "gw_recv_buf g = []"
  shows "on_tcp_chunks ft ck chunks g
    = (fst (receive_all ft ck (map wire_fields ms) g),
       (snd (receive_all ft ck (map wire_fields ms) g))\<lparr>gw_recv_buf := []\<rparr>)"
proof -
  have "case ms of [] \<Rightarrow> True | m # _ \<Rightarrow> length (gw_recv_buf g) < length (serialize m)"
    using assms(3) serialize_not_Nil by (cases ms) auto
  then show ?thesis
    using on_tcp_chunks_stream [OF assms(1), of g chunks ft ck] assms(2,3)
    by (simp add: apsnd_def map_prod_def split_beta)
qed

definition sample_text :: "real fix_text" where
  "sample_text = \<lparr>ft_fp = exact_fp, ft_format = (\<lambda>_. ''0.0000''), ft_stod = (\<lambda>_. None)\<rparr>"

theorem gateway_framing_exact_witness:
  "let g = fix_gateway_new sample_clock ''A'' ''B'' 30 () in
   on_tcp_chunks sample_text sample_clock
     [take 5 (serialize sample_fix), drop 5 (serialize sample_fix) @ serialize sample_fix] g
   = (fst (receive_all sample_text sample_clock [wire_fields sample_fix, wire_fields sample_fix] g),
      (snd (receive_all sample_text sample_clock [wire_fields sample_fix, wire_fields sample_fix] g))
        \<lparr>gw_recv_buf := []\<rparr>)"
proof -
  have "sendable sample_fix"
    using length_show_nat [of 35] length_show_nat [of 49] length_show_nat [of 55]
      length_show_nat [of "length (fields_text sample_fix)"]
    by (simp add: sendable_def length_serialize)
      (simp add: sample_fix_def body_fields_def tag_defs field_text_def show_int_def field_ok_def SOH_def)
  then show ?thesis
    using gateway_framing_exact [of "[sample_fix, sample_fix]"
        "[take 5 (serialize sample_fix), drop 5 (serialize sample_fix) @ serialize sample_fix]"
        "fix_gateway_new sample_clock ''A'' ''B'' 30 ()" sample_text sample_clock]
    by (simp add: fix_gateway_new_def)
qed

text \<open>
  A single stray byte stalls the stream. Once the receive buffer holds two bytes that are not the
  start of a message, no message that arrives is processed any more, however complete it is, until
  the buffer has grown beyond a mebibyte and everything in it is thrown away.
\<close>

theorem stray_bytes_stall_stream:
  assumes "2 \<le> length (gw_recv_buf g)" and "take 2 (gw_recv_buf g) \<noteq> ''8=''"
    and "length (gw_recv_buf g) + length (concat chunks) \<le> 1024 * 1024"
  shows "on_tcp_chunks ft ck chunks g = ([], g\<lparr>gw_recv_buf := gw_recv_buf g @ concat chunks\<rparr>)"
  using assms
proof (induction chunks arbitrary: g)
  case (Cons c cs)
  have "extract_message_length (gw_recv_buf g @ c) = 0"
    using Cons.prems(1,2) by (simp add: extract_message_length_def)
  then have "on_tcp_data ft ck c g = ([], set_buf (gw_recv_buf g @ c) g)"
    using Cons.prems(3) by (simp add: on_tcp_data_def frame_loop_fix.simps)
  then show ?case
    using Cons.IH [of "set_buf (gw_recv_buf g @ c) g"] Cons.prems by simp
qed simp

theorem stray_bytes_stall_stream_witness:
  "on_tcp_chunks sample_text sample_clock [''8=FIX.4.4'']
     ((fix_gateway_new sample_clock ''A'' ''B'' 30 ())\<lparr>gw_recv_buf := ''??''\<rparr>)
   = ([], (fix_gateway_new sample_clock ''A'' ''B'' 30 ())\<lparr>gw_recv_buf := ''??8=FIX.4.4''\<rparr>)"
  using stray_bytes_stall_stream [of "(fix_gateway_new sample_clock ''A'' ''B'' 30 ())\<lparr>gw_recv_buf := ''??''\<rparr>"
      "[''8=FIX.4.4'']" sample_text sample_clock] by simp

section \<open>Client order ids\<close>

definition cl_ord_text :: "nat \<Rightarrow> nat \<Rightarrow> string" where
  "cl_ord_text ns seq = ''QF-'' @ show_nat ns @ ''-'' @ show_nat seq"

lemma cl_ord_text_inject:
  assumes "cl_ord_text a n = cl_ord_text b m"
  shows "n = m"
proof -
  have rev_digits: "takeWhile (\<lambda>c. c \<noteq> CHR ''-'') (rev (cl_ord_text x y)) = rev (show_nat y)" for x y
  proof -
    have "CHR ''-'' \<notin> set (rev (show_nat y))"
      using show_nat_digits [of y] digit_not_special(2) by (auto simp: list_all_iff)
    then show ?thesis
      by (simp add: cl_ord_text_def takeWhile_neq)
  qed
  have "rev (show_nat n) = rev (show_nat m)"
    using rev_digits [of a n] rev_digits [of b m] assms by simp
  then show ?thesis
    by (simp add: show_int_inject_nat)
qed

lemma generate_cl_ord_id_fields:
  "\<exists>ns. fst (generate_cl_ord_id ck g) = cl_ord_text ns (unat (gw_cl_ord_seq g))"
  "gw_cl_ord_seq (snd (generate_cl_ord_id ck g)) = gw_cl_ord_seq g + 1"
  "gw_cancel_to_orig (snd (generate_cl_ord_id ck g)) = gw_cancel_to_orig g"
  by (auto simp: generate_cl_ord_id_def cl_ord_text_def split_beta Let_def)

lemma wire_events_keep:
  "app_messages evs = [] \<Longrightarrow>
     gw_cl_ord_seq (snd (on_session_events ft evs g)) = gw_cl_ord_seq g
     \<and> gw_cancel_to_orig (snd (on_session_events ft evs g)) = gw_cancel_to_orig g
     \<and> gw_pending_orders (snd (on_session_events ft evs g)) = gw_pending_orders g"
proof (induction evs arbitrary: g)
  case (Cons ev evs)
  then show ?case
    by (cases ev) (simp_all add: split_beta Let_def)
qed simp

lemma send_app_keep:
  "gw_cl_ord_seq (snd (with_session ft (send_app_message ck msg) g)) = gw_cl_ord_seq g"
  "gw_cancel_to_orig (snd (with_session ft (send_app_message ck msg) g)) = gw_cancel_to_orig g"
  "gw_pending_orders (snd (with_session ft (send_app_message ck msg) g)) = gw_pending_orders g"
  by (simp_all add: with_session_def split_beta Let_def wire_events_keep send_app_message_def)

lemma send_new_order_fields:
  "\<exists>ns. fst (send_new_order ft ck sy sd qty p tif g) = cl_ord_text ns (unat (gw_cl_ord_seq g))"
  "gw_cl_ord_seq (snd (snd (send_new_order ft ck sy sd qty p tif g))) = gw_cl_ord_seq g + 1"
  using generate_cl_ord_id_fields [of ck g]
  by (auto simp: send_new_order_def split_beta Let_def send_app_keep)

lemma send_cancel_fields:
  "\<exists>ns. fst (send_cancel ft ck k g) = cl_ord_text ns (unat (gw_cl_ord_seq g))"
  "gw_cl_ord_seq (snd (snd (send_cancel ft ck k g))) = gw_cl_ord_seq g + 1"
  "gw_cancel_to_orig (snd (snd (send_cancel ft ck k g)))
     = (gw_cancel_to_orig g)(fst (send_cancel ft ck k g) \<mapsto> k)"
  using generate_cl_ord_id_fields [of ck g]
  by (auto simp: send_cancel_def split_beta Let_def send_app_keep)

datatype gw_request =
    New_Order symbol side quantity price char
  | Cancel_Order string

fun gw_step ::
  "'d fix_text \<Rightarrow> 'e fix_clock \<Rightarrow> 'e fix_gateway \<Rightarrow> gw_request \<Rightarrow> string \<times> 'e fix_gateway" where
  "gw_step ft ck g (New_Order sy sd qty p tif) =
     (let (k, _, g) = send_new_order ft ck sy sd qty p tif g in (k, g))"
| "gw_step ft ck g (Cancel_Order cl_ord_id) = (let (k, _, g) = send_cancel ft ck cl_ord_id g in (k, g))"

lemma gw_step_fields:
  "\<exists>ns. fst (gw_step ft ck g r) = cl_ord_text ns (unat (gw_cl_ord_seq g))"
  "gw_cl_ord_seq (snd (gw_step ft ck g r)) = gw_cl_ord_seq g + 1"
proof -
  have "(\<exists>ns. fst (gw_step ft ck g r) = cl_ord_text ns (unat (gw_cl_ord_seq g)))
      \<and> gw_cl_ord_seq (snd (gw_step ft ck g r)) = gw_cl_ord_seq g + 1"
  proof (cases r)
    case (New_Order sy sd qty p tif)
    then show ?thesis
      using send_new_order_fields [of ft ck sy sd qty p tif g] by (simp add: split_beta)
  next
    case (Cancel_Order k)
    then show ?thesis
      using send_cancel_fields(1,2) [of ft ck k g] by (simp add: split_beta)
  qed
  then show "\<exists>ns. fst (gw_step ft ck g r) = cl_ord_text ns (unat (gw_cl_ord_seq g))"
    "gw_cl_ord_seq (snd (gw_step ft ck g r)) = gw_cl_ord_seq g + 1"
    by simp_all
qed

lemma gw_run_ids:
  "length rs + unat (gw_cl_ord_seq g) < 2 ^ 64 \<Longrightarrow>
     \<exists>nss. length nss = length rs \<and> fst (run (gw_step ft ck) g rs)
       = map2 cl_ord_text nss (map (\<lambda>i. unat (gw_cl_ord_seq g) + i) [0..<length rs])"
proof (induction rs arbitrary: g)
  case (Cons r rs)
  let ?g = "snd (gw_step ft ck g r)"
  have seq: "unat (gw_cl_ord_seq ?g) = unat (gw_cl_ord_seq g) + 1"
    using Cons.prems by (simp add: gw_step_fields(2) unat_plus_small)
  obtain ns where ns: "fst (gw_step ft ck g r) = cl_ord_text ns (unat (gw_cl_ord_seq g))"
    using gw_step_fields(1) by blast
  obtain nss where nss: "length nss = length rs" "fst (run (gw_step ft ck) ?g rs)
      = map2 cl_ord_text nss (map (\<lambda>i. unat (gw_cl_ord_seq ?g) + i) [0..<length rs])"
    using Cons.IH [of ?g] Cons.prems seq by auto
  have "map (\<lambda>i. unat (gw_cl_ord_seq g) + i) [0..<length (r # rs)]
      = unat (gw_cl_ord_seq g) # map (\<lambda>i. unat (gw_cl_ord_seq ?g) + i) [0..<length rs]"
    unfolding seq by (simp add: upt_conv_Cons map_Suc_upt [symmetric] del: upt_Suc)
  then show ?case
    using ns nss by (intro exI [of _ "ns # nss"]) (simp add: Let_def split_beta del: upt_Suc)
qed simp

text \<open>
  Client order ids are unique: the ids that any sequence of new orders and cancels gets from one
  gateway are all different, whatever the clock says, even when it stands still or runs backwards.
\<close>

theorem cl_ord_ids_distinct:
  assumes "length rs + unat (gw_cl_ord_seq g) < 2 ^ 64"
  shows "distinct (fst (run (gw_step ft ck) g rs))"
proof -
  obtain nss where nss: "length nss = length rs" "fst (run (gw_step ft ck) g rs)
      = map2 cl_ord_text nss (map (\<lambda>i. unat (gw_cl_ord_seq g) + i) [0..<length rs])"
    using gw_run_ids [OF assms] by blast
  show ?thesis
    unfolding nss(2)
    by (auto simp: distinct_conv_nth nss(1) dest: cl_ord_text_inject)
qed

theorem cl_ord_ids_distinct_witness:
  "distinct (fst (run (gw_step sample_text sample_clock) (fix_gateway_new sample_clock ''A'' ''B'' 30 ())
     [New_Order symbol_default Side_Buy 100 0 TimeInForce_Day, Cancel_Order ''x'',
      New_Order symbol_default Side_Buy 100 0 TimeInForce_Day]))"
  by (rule cl_ord_ids_distinct) (simp add: fix_gateway_new_def)

text \<open>
  The report of a rejected cancel does not name the order. A reject carries the id of the cancel
  request and, as \<open>OrigClOrdID\<close>, the id of the order; the gateway looks the latter up in a map whose
  keys are the ids of cancels. So for a cancel of an order the reported id is that of the cancel,
  and the entry that leads to the order stays in the map.
\<close>

theorem cancel_reject_not_resolved:
  fixes g :: "'e fix_gateway" and order_k :: string and ft :: "'d fix_text" and ck :: "'e fix_clock"
  defines "cancel_k \<equiv> fst (send_cancel ft ck order_k g)"
    and "g' \<equiv> snd (snd (send_cancel ft ck order_k g))"
  assumes "gw_cancel_to_orig g order_k = None" and "order_k \<noteq> cancel_k"
    and "get_tag msg Tag_ClOrdID = Some cancel_k" and "get_tag msg Tag_OrigClOrdID = Some order_k"
  shows "\<exists>rpt. handle_cancel_reject ft msg g' = ([Exec_Callback rpt], g') \<and> er_cl_ord_id rpt = cancel_k
    \<and> gw_cancel_to_orig g' cancel_k = Some order_k"
proof -
  have "gw_cancel_to_orig g' = (gw_cancel_to_orig g)(cancel_k \<mapsto> order_k)"
    using send_cancel_fields(3) [of ft ck order_k g] by (simp add: g'_def cancel_k_def)
  then show ?thesis
    using assms(3-6) by (simp add: handle_cancel_reject_def or_else_def Let_def)
qed

theorem cancel_reject_not_resolved_witness:
  "let g = fix_gateway_new sample_clock ''A'' ''B'' 30 ();
       k = fst (send_cancel sample_text sample_clock ''order'' g);
       g' = snd (snd (send_cancel sample_text sample_clock ''order'' g))
   in \<exists>rpt. handle_cancel_reject sample_text [(Tag_ClOrdID, k), (Tag_OrigClOrdID, ''order'')] g'
       = ([Exec_Callback rpt], g') \<and> er_cl_ord_id rpt = k"
proof -
  let ?g = "fix_gateway_new sample_clock ''A'' ''B'' 30 ()"
  let ?k = "fst (send_cancel sample_text sample_clock ''order'' ?g)"
  obtain ns where k: "?k = cl_ord_text ns (unat (gw_cl_ord_seq ?g))"
    using send_cancel_fields(1) by blast
  have "''order'' \<noteq> ?k"
    unfolding k by (simp add: cl_ord_text_def)
  moreover have "gw_cancel_to_orig ?g ''order'' = None"
    by (simp add: fix_gateway_new_def)
  ultimately show ?thesis
    using cancel_reject_not_resolved [of ?g "''order''" sample_text sample_clock
        "[(Tag_ClOrdID, ?k), (Tag_OrigClOrdID, ''order'')]"]
    by (auto simp: tag_defs Let_def)
qed

end
