(* ===== verification/Sim_Book.thy ===== *)
theory Sim_Book
  imports Messages Ordered_Map
begin

text \<open>
  The order book of the market simulator (\<open>simulator/sim_order_book.{hpp,cpp}\<close>) and the matching
  engine over it (\<open>simulator/sim_matching_engine.{hpp,cpp}\<close>).

  The hash map \<open>orders_\<close> is iterated by the code, so it is the list of its entries in the order of
  iteration. An erasure keeps that order, as the standard promises; where an insertion leaves the
  entries is up to the implementation, so the rearrangement is an argument of \<open>sb_add\<close>.
\<close>

section \<open>The book\<close>

type_synonym entries = "(order_id \<times> order) list"

record sim_book =
  sb_orders :: entries
  sb_order_ids :: "order_id list"

definition sim_book_new :: sim_book where
  "sim_book_new = \<lparr>sb_orders = [], sb_order_ids = []\<rparr>"

definition sb_find :: "sim_book \<Rightarrow> order_id \<Rightarrow> order option" where
  "sb_find b oid = map_of (sb_orders b) oid"

definition rebuild_ids :: "sim_book \<Rightarrow> sim_book" where
  "rebuild_ids b = b\<lparr>sb_order_ids := map fst (sb_orders b)\<rparr>"

definition sb_add :: "(entries \<Rightarrow> entries) \<Rightarrow> order \<Rightarrow> sim_book \<Rightarrow> bool \<times> sim_book" where
  "sb_add arrange ord b =
     (if sb_find b (o_order_id ord) \<noteq> None then (False, b)
      else (True, b\<lparr>sb_orders := arrange ((o_order_id ord, ord) # sb_orders b),
                    sb_order_ids := sb_order_ids b @ [o_order_id ord]\<rparr>))"

definition sb_erase :: "order_id \<Rightarrow> sim_book \<Rightarrow> sim_book" where
  "sb_erase oid b = b\<lparr>sb_orders := om_erase oid (sb_orders b)\<rparr>"

text \<open>A write through the reference \<open>it->second\<close>.\<close>

definition sb_modify :: "order_id \<Rightarrow> (order \<Rightarrow> order) \<Rightarrow> sim_book \<Rightarrow> sim_book" where
  "sb_modify oid f b =
     b\<lparr>sb_orders := map (\<lambda>(k, ord). (k, if k = oid then f ord else ord)) (sb_orders b)\<rparr>"

definition sb_cancel :: "order_id \<Rightarrow> sim_book \<Rightarrow> order option \<times> sim_book" where
  "sb_cancel oid b =
     (case sb_find b oid of
        None \<Rightarrow> (None, b)
      | Some ord \<Rightarrow> (Some ord, rebuild_ids (sb_erase oid b)))"

definition sb_execute :: "order_id \<Rightarrow> quantity \<Rightarrow> sim_book \<Rightarrow> order option \<times> sim_book" where
  "sb_execute oid qty b =
     (case sb_find b oid of
        None \<Rightarrow> (None, b)
      | Some ord \<Rightarrow>
          if o_remaining_quantity ord \<le> qty
          then (Some (ord\<lparr>o_remaining_quantity := 0\<rparr>), rebuild_ids (sb_erase oid b))
          else
            let left = o_remaining_quantity ord - qty
            in (Some (ord\<lparr>o_remaining_quantity := left\<rparr>),
                sb_modify oid (\<lambda>ord. ord\<lparr>o_remaining_quantity := left\<rparr>) b))"

definition sb_replace :: "order_id \<Rightarrow> price \<Rightarrow> quantity \<Rightarrow> sim_book \<Rightarrow> bool \<times> sim_book" where
  "sb_replace oid new_price new_qty b =
     (case sb_find b oid of
        None \<Rightarrow> (False, b)
      | Some _ \<Rightarrow>
          (True, sb_modify oid (\<lambda>ord. ord\<lparr>o_price := new_price, o_remaining_quantity := new_qty\<rparr>) b))"

definition live_order_count :: "sim_book \<Rightarrow> nat" where
  "live_order_count b = length (sb_orders b)"

definition sb_empty :: "sim_book \<Rightarrow> bool" where
  "sb_empty b \<longleftrightarrow> sb_orders b = []"

definition sb_clear :: "sim_book \<Rightarrow> sim_book" where
  "sb_clear b = b\<lparr>sb_orders := [], sb_order_ids := []\<rparr>"

text \<open>
  A random choice draws an index between two bounds, both included; \<open>draw\<close> stands for the
  distribution applied to the generator and returns the state of the generator.
\<close>

type_synonym 'g draw = "nat \<Rightarrow> nat \<Rightarrow> 'g \<Rightarrow> nat \<times> 'g"

definition random_live_order :: "'g draw \<Rightarrow> sim_book \<Rightarrow> 'g \<Rightarrow> order_id option \<times> 'g" where
  "random_live_order draw b g =
     (if sb_order_ids b = [] then (None, g)
      else let (i, g) = draw 0 (length (sb_order_ids b) - 1) g in (Some (sb_order_ids b ! i), g))"

definition random_live_order_on :: "'g draw \<Rightarrow> side \<Rightarrow> sim_book \<Rightarrow> 'g \<Rightarrow> order_id option \<times> 'g" where
  "random_live_order_on draw sd b g =
     (let filtered = map fst (filter (\<lambda>(_, ord). o_side ord = sd) (sb_orders b))
      in if filtered = [] then (None, g)
         else let (i, g) = draw 0 (length filtered - 1) g in (Some (filtered ! i), g))"

text \<open>The loops over the entries: the best price, and the id of the first order that has it.\<close>

fun best_price_loop ::
  "(price \<Rightarrow> price \<Rightarrow> bool) \<Rightarrow> side \<Rightarrow> entries \<Rightarrow> price option \<Rightarrow> price option" where
  "best_price_loop better sd [] best = best"
| "best_price_loop better sd ((_, ord) # es) best =
     best_price_loop better sd es
       (if o_side ord = sd
        then (case best of
                None \<Rightarrow> Some (o_price ord)
              | Some p \<Rightarrow> if better (o_price ord) p then Some (o_price ord) else best)
        else best)"

definition sb_best_bid :: "sim_book \<Rightarrow> price option" where
  "sb_best_bid b = best_price_loop (>) Side_Buy (sb_orders b) None"

definition sb_best_ask :: "sim_book \<Rightarrow> price option" where
  "sb_best_ask b = best_price_loop (<) Side_Sell (sb_orders b) None"

fun best_order_loop ::
  "(price \<Rightarrow> price \<Rightarrow> bool) \<Rightarrow> side \<Rightarrow> entries \<Rightarrow> order_id option \<Rightarrow> price \<Rightarrow> order_id option" where
  "best_order_loop better sd [] best_id best_price = best_id"
| "best_order_loop better sd ((oid, ord) # es) best_id best_price =
     (if o_side ord = sd \<and> (best_id = None \<or> better (o_price ord) best_price)
      then best_order_loop better sd es (Some oid) (o_price ord)
      else best_order_loop better sd es best_id best_price)"

definition best_bid_order :: "sim_book \<Rightarrow> order_id option" where
  "best_bid_order b = best_order_loop (>) Side_Buy (sb_orders b) None 0"

definition best_ask_order :: "sim_book \<Rightarrow> order_id option" where
  "best_ask_order b = best_order_loop (<) Side_Sell (sb_orders b) None (- 1)"

section \<open>What the operations do to the orders\<close>

definition sb_inv :: "sim_book \<Rightarrow> bool" where
  "sb_inv b \<longleftrightarrow> distinct (map fst (sb_orders b)) \<and> set (sb_order_ids b) = fst ` set (sb_orders b)
     \<and> (\<forall>(oid, ord) \<in> set (sb_orders b). o_order_id ord = oid)"

lemma om_erase_length: "length (om_erase k m) \<le> length m"
  by (simp add: om_erase_def)

lemma om_erase_shorter: "map_of m k = Some v \<Longrightarrow> length (om_erase k m) < length m"
  unfolding om_erase_def by (rule length_filter_less [of "(k, v)"]) (auto dest: map_of_SomeD)

lemma keys_om_erase: "map fst (om_erase k m) = filter (\<lambda>k'. k' \<noteq> k) (map fst m)"
  by (induction m) (auto simp: om_erase_def)

lemma keys_modify [simp]: "map fst (map (\<lambda>(k, v). (k, g k v)) m) = map fst m"
  by (induction m) auto

lemma map_of_modify:
  "map_of (map (\<lambda>(k, v). (k, if k = oid then f v else v)) m) =
     (map_of m)(oid := map_option f (map_of m oid))"
  by (induction m) (auto simp: fun_eq_iff)

lemma sb_find_rebuild [simp]: "sb_find (rebuild_ids b) = sb_find b"
  by (simp add: sb_find_def rebuild_ids_def fun_eq_iff)

lemma sb_find_erase [simp]: "sb_find (sb_erase oid b) = (sb_find b)(oid := None)"
  by (simp add: sb_find_def sb_erase_def fun_eq_iff)

lemma sb_find_modify [simp]: "sb_find (sb_modify oid f b) = (sb_find b)(oid := map_option f (sb_find b oid))"
  by (simp add: sb_find_def sb_modify_def map_of_modify fun_eq_iff)

lemma sb_find_cancel: "sb_find (snd (sb_cancel oid b)) = (sb_find b)(oid := None)"
  by (auto simp: sb_cancel_def split: option.splits)

text \<open>What an execution leaves of an order; nothing, when it takes all.\<close>

definition take_quantity :: "quantity \<Rightarrow> order \<Rightarrow> order option" where
  "take_quantity qty ord =
     (if o_remaining_quantity ord \<le> qty then None
      else Some (ord\<lparr>o_remaining_quantity := o_remaining_quantity ord - qty\<rparr>))"

lemma sb_find_execute:
  "sb_find (snd (sb_execute oid qty b)) = (sb_find b)(oid := Option.bind (sb_find b oid) (take_quantity qty))"
  by (auto simp: sb_execute_def take_quantity_def Let_def split: option.splits)

lemma sb_execute_length: "length (sb_orders (snd (sb_execute oid qty b))) \<le> length (sb_orders b)"
  by (simp add: sb_execute_def rebuild_ids_def sb_erase_def sb_modify_def om_erase_length Let_def
      split: option.split)

lemma sb_execute_all:
  "sb_find b oid = Some ord \<Longrightarrow> o_remaining_quantity ord \<le> qty \<Longrightarrow>
     length (sb_orders (snd (sb_execute oid qty b))) < length (sb_orders b)"
  by (simp add: sb_execute_def rebuild_ids_def sb_erase_def om_erase_shorter sb_find_def)

lemma sb_find_new [simp]: "sb_find sim_book_new oid = None"
  by (simp add: sb_find_def sim_book_new_def)

lemma sb_inv_new [simp]: "sb_inv sim_book_new"
  by (simp add: sb_inv_def sim_book_new_def)

lemma sb_inv_erase [inv_rules]: "sb_inv b \<Longrightarrow> sb_inv (rebuild_ids (sb_erase oid b))"
  by (auto simp: sb_inv_def rebuild_ids_def sb_erase_def keys_om_erase om_erase_def
      intro: distinct_map_filter)

lemma sb_inv_modify [inv_rules]:
  assumes "sb_inv b" and "\<And>ord. o_order_id (f ord) = o_order_id ord"
  shows "sb_inv (sb_modify oid f b)"
proof -
  define es where "es = map (\<lambda>(k, ord). (k, if k = oid then f ord else ord)) (sb_orders b)"
  have "map fst es = map fst (sb_orders b)"
    unfolding es_def by (rule keys_modify)
  moreover from this have "fst ` set es = fst ` set (sb_orders b)"
    by (metis set_map)
  moreover have "\<forall>(k, ord) \<in> set es. o_order_id ord = k"
    using assms by (auto simp: sb_inv_def es_def)
  moreover have "sb_modify oid f b = b\<lparr>sb_orders := es\<rparr>"
    by (simp add: sb_modify_def es_def)
  ultimately show ?thesis
    using assms(1) by (simp add: sb_inv_def)
qed

lemma sb_inv_execute [inv_rules]: "sb_inv b \<Longrightarrow> sb_inv (snd (sb_execute oid qty b))"
  by (auto simp: sb_execute_def Let_def intro!: inv_rules split: option.split)

lemma sb_inv_cancel [inv_rules]: "sb_inv b \<Longrightarrow> sb_inv (snd (sb_cancel oid b))"
  by (auto simp: sb_cancel_def intro!: inv_rules split: option.split)

lemma sb_inv_replace [inv_rules]: "sb_inv b \<Longrightarrow> sb_inv (snd (sb_replace oid p q b))"
  by (auto simp: sb_replace_def intro!: inv_rules split: option.split)

lemma sb_inv_add [inv_rules]:
  assumes "sb_inv b" and "mset (arrange ((o_order_id ord, ord) # sb_orders b)) = mset ((o_order_id ord, ord) # sb_orders b)"
  shows "sb_inv (snd (sb_add arrange ord b))"
proof (cases "sb_find b (o_order_id ord)")
  case None
  then have "o_order_id ord \<notin> fst ` set (sb_orders b)"
    by (simp add: sb_find_def map_of_eq_None_iff)
  moreover have "mset (map fst (arrange ((o_order_id ord, ord) # sb_orders b))) = mset (o_order_id ord # map fst (sb_orders b))"
    using arg_cong [OF assms(2), of "image_mset fst"] by simp
  moreover from this have "distinct (map fst (arrange ((o_order_id ord, ord) # sb_orders b))) =
      distinct (o_order_id ord # map fst (sb_orders b))"
    by (rule mset_eq_imp_distinct_iff)
  moreover have "set (arrange ((o_order_id ord, ord) # sb_orders b)) = insert (o_order_id ord, ord) (set (sb_orders b))"
    using mset_eq_setD [OF assms(2)] by simp
  ultimately show ?thesis
    using None assms(1) by (auto simp: sb_inv_def sb_add_def)
qed (use assms in \<open>simp add: sb_add_def\<close>)

lemma sb_find_add:
  assumes "mset (arrange ((o_order_id ord, ord) # sb_orders b)) = mset ((o_order_id ord, ord) # sb_orders b)"
    and "sb_inv b" and "sb_find b (o_order_id ord) = None"
  shows "sb_find (snd (sb_add arrange ord b)) = (sb_find b)(o_order_id ord \<mapsto> ord)"
proof -
  have "sb_inv (snd (sb_add arrange ord b))"
    using assms(2,1) by (rule sb_inv_add)
  then have "distinct (map fst (arrange ((o_order_id ord, ord) # sb_orders b)))"
    using assms(3) by (simp add: sb_inv_def sb_add_def)
  then have "map_of (arrange ((o_order_id ord, ord) # sb_orders b)) = map_of ((o_order_id ord, ord) # sb_orders b)"
    using assms mset_eq_setD [OF assms(1)]
    by (intro map_of_inject_set [THEN iffD2]) (simp_all add: sb_inv_def sb_find_def map_of_eq_None_iff)
  then show ?thesis
    using assms(3) by (simp add: sb_add_def sb_find_def fun_eq_iff)
qed

section \<open>The best orders\<close>

text \<open>
  One side of the simulated book: the orders of a side under the order of its prices. The loop ends
  with an order of the side that no other order of the side improves on.
\<close>

locale price_side = strict_order lt for lt :: "price \<Rightarrow> price \<Rightarrow> bool" +
  fixes sd :: side
begin

lemma best_order_loop_None:
  "best_order_loop lt sd es best_id p = None \<longleftrightarrow>
     best_id = None \<and> (\<forall>(_, ord) \<in> set es. o_side ord \<noteq> sd)"
  by (induction lt sd es best_id p rule: best_order_loop.induct) auto

lemma better_asym: "lt a b \<Longrightarrow> \<not> lt b a"
  using trans irrefl by blast

lemma not_better: "\<not> lt a b \<Longrightarrow> \<not> lt b c \<Longrightarrow> \<not> lt a c"
  using total trans irrefl by blast

lemma best_order_loop_Some:
  "best_order_loop lt sd es best_id best_price = Some oid \<Longrightarrow>
     \<exists>p. (best_id = Some oid \<and> p = best_price
            \<or> (\<exists>ord. (oid, ord) \<in> set es \<and> o_side ord = sd \<and> o_price ord = p))
       \<and> (best_id \<noteq> None \<longrightarrow> \<not> lt best_price p)
       \<and> (\<forall>(_, ord) \<in> set es. o_side ord = sd \<longrightarrow> \<not> lt (o_price ord) p)"
proof (induction es arbitrary: best_id best_price)
  case (Cons e es)
  obtain k ord where e: "e = (k, ord)" by force
  show ?case
  proof (cases "o_side ord = sd \<and> (best_id = None \<or> lt (o_price ord) best_price)")
    case True
    then have "best_order_loop lt sd es (Some k) (o_price ord) = Some oid"
      using Cons.prems e by simp
    from Cons.IH [OF this] obtain p where
      p: "k = oid \<and> p = o_price ord \<or> (\<exists>ord. (oid, ord) \<in> set es \<and> o_side ord = sd \<and> o_price ord = p)"
      "\<not> lt (o_price ord) p" "\<forall>(_, ord) \<in> set es. o_side ord = sd \<longrightarrow> \<not> lt (o_price ord) p"
      by auto
    have "\<not> lt best_price p" if "best_id \<noteq> None"
      using True that by (intro not_better [OF better_asym p(2)]) auto
    then show ?thesis
      using p True e by (intro exI [of _ p]) auto
  next
    case False
    then have "best_order_loop lt sd es best_id best_price = Some oid"
      using Cons.prems e by (auto split: if_splits)
    from Cons.IH [OF this] obtain p where
      p: "best_id = Some oid \<and> p = best_price \<or> (\<exists>ord. (oid, ord) \<in> set es \<and> o_side ord = sd \<and> o_price ord = p)"
      "best_id \<noteq> None \<longrightarrow> \<not> lt best_price p" "\<forall>(_, ord) \<in> set es. o_side ord = sd \<longrightarrow> \<not> lt (o_price ord) p"
      by auto
    have "\<not> lt (o_price ord) p" if "o_side ord = sd"
    proof (rule not_better)
      show "\<not> lt (o_price ord) best_price" "\<not> lt best_price p"
        using False that p(2) by auto
    qed
    then show ?thesis
      using p e by (intro exI [of _ p]) auto
  qed
qed (auto simp: irrefl)

lemma best_order:
  assumes "distinct (map fst es)"
  shows "best_order_loop lt sd es None p0 = None \<longleftrightarrow> (\<forall>oid ord. map_of es oid = Some ord \<longrightarrow> o_side ord \<noteq> sd)"
    and "best_order_loop lt sd es None p0 = Some oid \<Longrightarrow>
      \<exists>ord. map_of es oid = Some ord \<and> o_side ord = sd
        \<and> (\<forall>oid' ord'. map_of es oid' = Some ord' \<longrightarrow> o_side ord' = sd \<longrightarrow> \<not> lt (o_price ord') (o_price ord))"
proof -
  have entry: "(k, ord) \<in> set es \<longleftrightarrow> map_of es k = Some ord" for k ord
    using assms by (simp add: map_of_eq_Some_iff)
  show "best_order_loop lt sd es None p0 = None \<longleftrightarrow> (\<forall>oid ord. map_of es oid = Some ord \<longrightarrow> o_side ord \<noteq> sd)"
    by (simp add: best_order_loop_None Ball_def entry)
  assume "best_order_loop lt sd es None p0 = Some oid"
  from best_order_loop_Some [OF this] show
    "\<exists>ord. map_of es oid = Some ord \<and> o_side ord = sd
        \<and> (\<forall>oid' ord'. map_of es oid' = Some ord' \<longrightarrow> o_side ord' = sd \<longrightarrow> \<not> lt (o_price ord') (o_price ord))"
    by (auto simp: entry Ball_def)
qed

end

interpretation sim_bids: price_side "(>)" Side_Buy
  by unfold_locales

interpretation sim_asks: price_side "(<)" Side_Sell
  by unfold_locales

lemma best_bid_order_Some:
  assumes "sb_inv b" and "best_bid_order b = Some oid"
  shows "\<exists>bid. sb_find b oid = Some bid \<and> o_side bid = Side_Buy
    \<and> (\<forall>k ord. sb_find b k = Some ord \<longrightarrow> o_side ord = Side_Buy \<longrightarrow> o_price ord \<le> o_price bid)"
  using sim_bids.best_order(2) [of "sb_orders b" 0 oid] assms
  by (auto simp: sb_inv_def best_bid_order_def sb_find_def not_less)

lemma best_ask_order_Some:
  assumes "sb_inv b" and "best_ask_order b = Some oid"
  shows "\<exists>ask. sb_find b oid = Some ask \<and> o_side ask = Side_Sell
    \<and> (\<forall>k ord. sb_find b k = Some ord \<longrightarrow> o_side ord = Side_Sell \<longrightarrow> o_price ask \<le> o_price ord)"
  using sim_asks.best_order(2) [of "sb_orders b" "- 1" oid] assms
  by (auto simp: sb_inv_def best_ask_order_def sb_find_def not_less)

lemma best_order_None:
  assumes "sb_inv b"
  shows "best_bid_order b = None \<longleftrightarrow> (\<forall>k ord. sb_find b k = Some ord \<longrightarrow> o_side ord \<noteq> Side_Buy)"
    and "best_ask_order b = None \<longleftrightarrow> (\<forall>k ord. sb_find b k = Some ord \<longrightarrow> o_side ord \<noteq> Side_Sell)"
  using sim_bids.best_order(1) [of "sb_orders b" 0] sim_asks.best_order(1) [of "sb_orders b" "- 1"] assms
  by (simp_all add: sb_inv_def best_bid_order_def best_ask_order_def sb_find_def)

section \<open>The matching engine\<close>

text \<open>One round of the loop of \<open>try_match\<close>; \<open>None\<close> is a \<open>break\<close>.\<close>

definition match_round :: "symbol \<Rightarrow> sim_book \<Rightarrow> (trade_message \<times> sim_book) option" where
  "match_round symb b =
     (case (best_bid_order b, best_ask_order b) of
        (Some bid_id, Some ask_id) \<Rightarrow>
          (case (sb_find b bid_id, sb_find b ask_id) of
             (Some bid, Some ask) \<Rightarrow>
               if o_price bid < o_price ask then None
               else
                 let match_qty = min (o_remaining_quantity bid) (o_remaining_quantity ask);
                     trade = \<lparr>tm_symbol = symb, tm_price = o_price ask, tm_quantity = match_qty,
                              tm_buy_order_id = bid_id, tm_sell_order_id = ask_id\<rparr>;
                     b = snd (sb_execute bid_id match_qty b);
                     b = snd (sb_execute ask_id match_qty b)
                 in Some (trade, b)
           | _ \<Rightarrow> None)
      | _ \<Rightarrow> None)"

lemma match_round_SomeE:
  assumes "match_round symb b = Some (trade, b')"
  obtains bid_id bid ask_id ask qty where
    "best_bid_order b = Some bid_id" "best_ask_order b = Some ask_id"
    "sb_find b bid_id = Some bid" "sb_find b ask_id = Some ask" "o_price ask \<le> o_price bid"
    "qty = min (o_remaining_quantity bid) (o_remaining_quantity ask)"
    "trade = \<lparr>tm_symbol = symb, tm_price = o_price ask, tm_quantity = qty,
       tm_buy_order_id = bid_id, tm_sell_order_id = ask_id\<rparr>"
    "b' = snd (sb_execute ask_id qty (snd (sb_execute bid_id qty b)))"
  using assms by (auto simp: match_round_def Let_def not_less split: option.splits if_splits)

text \<open>Every trade uses up one of its two orders, so the loop ends.\<close>

lemma match_round_shorter:
  assumes "match_round symb b = Some (trade, b')"
  shows "length (sb_orders b') < length (sb_orders b)"
  using assms
proof (rule match_round_SomeE)
  fix bid_id bid ask_id ask qty
  assume find: "sb_find b bid_id = Some bid" "sb_find b ask_id = Some ask"
    and qty: "qty = min (o_remaining_quantity bid) (o_remaining_quantity ask)"
    and b': "b' = snd (sb_execute ask_id qty (snd (sb_execute bid_id qty b)))"
  let ?b = "snd (sb_execute bid_id qty b)"
  show "length (sb_orders b') < length (sb_orders b)"
  proof (cases "o_remaining_quantity bid \<le> qty")
    case True
    then show ?thesis
      using sb_execute_all [OF find(1) True] sb_execute_length [of ask_id qty ?b] b' by simp
  next
    case False
    then have all: "o_remaining_quantity ask \<le> qty" "bid_id \<noteq> ask_id"
      using qty find by (auto simp: min_def split: if_splits)
    then have "sb_find ?b ask_id = Some ask"
      using find by (simp add: sb_find_execute)
    from sb_execute_all [OF this all(1)] show ?thesis
      using sb_execute_length [of bid_id qty b] b' by simp
  qed
qed

function try_match :: "symbol \<Rightarrow> sim_book \<Rightarrow> trade_message list \<times> sim_book" where
  "try_match symb b =
     (case match_round symb b of
        None \<Rightarrow> ([], b)
      | Some (trade, b') \<Rightarrow> let (trades, b'') = try_match symb b' in (trade # trades, b''))"
  by pat_completeness auto

termination try_match
  by (relation "measure (\<lambda>(_, b). length (sb_orders b))") (auto dest: match_round_shorter)

declare try_match.simps [simp del]

definition open_quantity :: "sim_book \<Rightarrow> order_id \<Rightarrow> nat" where
  "open_quantity b oid = (case sb_find b oid of None \<Rightarrow> 0 | Some ord \<Rightarrow> unat (o_remaining_quantity ord))"

definition traded :: "trade_message list \<Rightarrow> order_id \<Rightarrow> nat" where
  "traded trades oid = (\<Sum>t \<leftarrow> trades. if oid = tm_buy_order_id t \<or> oid = tm_sell_order_id t
     then unat (tm_quantity t) else 0)"

definition crossed :: "sim_book \<Rightarrow> bool" where
  "crossed b \<longleftrightarrow> (\<exists>k bid k' ask. sb_find b k = Some bid \<and> o_side bid = Side_Buy
     \<and> sb_find b k' = Some ask \<and> o_side ask = Side_Sell \<and> o_price ask \<le> o_price bid)"

text \<open>The orders of one book are those of another, with some of their quantity gone.\<close>

definition reduced_from :: "sim_book \<Rightarrow> sim_book \<Rightarrow> bool" where
  "reduced_from b b' \<longleftrightarrow> (\<forall>k ord'. sb_find b' k = Some ord' \<longrightarrow>
     (\<exists>ord qty. sb_find b k = Some ord \<and> ord' = ord\<lparr>o_remaining_quantity := qty\<rparr>))"

definition fair_trade :: "symbol \<Rightarrow> sim_book \<Rightarrow> trade_message \<Rightarrow> bool" where
  "fair_trade symb b t \<longleftrightarrow> (\<exists>bid ask. sb_find b (tm_buy_order_id t) = Some bid \<and> o_side bid = Side_Buy
     \<and> sb_find b (tm_sell_order_id t) = Some ask \<and> o_side ask = Side_Sell
     \<and> tm_symbol t = symb \<and> tm_price t = o_price ask \<and> o_price ask \<le> o_price bid)"

lemma order_same_quantity: "\<exists>qty. ord = ord\<lparr>o_remaining_quantity := qty\<rparr>" for ord :: order
  by (rule exI [of _ "o_remaining_quantity ord"]) simp

lemma reduced_from_refl [simp]: "reduced_from b b"
  unfolding reduced_from_def using order_same_quantity by blast

lemma reduced_from_trans:
  assumes "reduced_from a b" and "reduced_from b c"
  shows "reduced_from a c"
  unfolding reduced_from_def
proof (intro allI impI)
  fix k ord'
  assume "sb_find c k = Some ord'"
  then obtain ord1 q1 where 1: "sb_find b k = Some ord1" "ord' = ord1\<lparr>o_remaining_quantity := q1\<rparr>"
    using assms(2) unfolding reduced_from_def by blast
  then obtain ord q where "sb_find a k = Some ord" "ord1 = ord\<lparr>o_remaining_quantity := q\<rparr>"
    using assms(1) unfolding reduced_from_def by blast
  then show "\<exists>ord qty. sb_find a k = Some ord \<and> ord' = ord\<lparr>o_remaining_quantity := qty\<rparr>"
    using 1 by auto
qed

lemma reduced_from_execute [simp]: "reduced_from b (snd (sb_execute oid qty b))"
  unfolding reduced_from_def sb_find_execute take_quantity_def
  by (auto simp: bind_eq_Some_conv intro: order_same_quantity split: if_splits)

lemma fair_trade_reduced:
  assumes "reduced_from b b'" and "fair_trade symb b' t"
  shows "fair_trade symb b t"
proof -
  have same: "\<exists>ord. sb_find b k = Some ord \<and> o_side ord = o_side ord' \<and> o_price ord = o_price ord'"
    if find: "sb_find b' k = Some ord'" for k ord'
  proof -
    obtain ord qty where "sb_find b k = Some ord" "ord' = ord\<lparr>o_remaining_quantity := qty\<rparr>"
      using assms(1) find unfolding reduced_from_def by blast
    then show ?thesis
      by simp
  qed
  then show ?thesis
    using assms(2) unfolding fair_trade_def by metis
qed

lemma open_quantity_execute:
  "open_quantity (snd (sb_execute oid qty b)) k =
     (if k = oid then open_quantity b k - unat qty else open_quantity b k)"
  by (auto simp: open_quantity_def sb_find_execute take_quantity_def word_le_nat_alt unat_minus_le
      split: option.splits)

lemma match_round_spec:
  assumes inv: "sb_inv b" and round: "match_round symb b = Some (trade, b')"
  shows "sb_inv b'" "reduced_from b b'" "fair_trade symb b trade"
    "open_quantity b k = open_quantity b' k + traded [trade] k"
  using round
proof (atomize (full), rule match_round_SomeE, goal_cases)
  case (1 bid_id bid ask_id ask qty)
  note b' = 1(8) and trade = 1(7)
  have sides: "o_side bid = Side_Buy" "o_side ask = Side_Sell"
    using best_bid_order_Some [OF inv 1(1)] best_ask_order_Some [OF inv 1(2)] 1(3,4) by auto
  then have "bid_id \<noteq> ask_id"
    using 1(3,4) by auto
  moreover have "open_quantity b bid_id = unat (o_remaining_quantity bid)"
    "open_quantity b ask_id = unat (o_remaining_quantity ask)"
    using 1(3,4) by (simp_all add: open_quantity_def)
  ultimately have "open_quantity b k = open_quantity b' k + traded [trade] k"
    using 1(6) b' trade
    by (auto simp: open_quantity_execute traded_def min_def word_le_nat_alt)
  moreover have "sb_inv b'"
    using inv b' by (simp add: inv_rules)
  moreover have "reduced_from b b'"
    unfolding b' by (rule reduced_from_trans [OF reduced_from_execute reduced_from_execute])
  moreover have "fair_trade symb b trade"
    using 1(3-5) sides trade by (simp add: fair_trade_def)
  ultimately show ?case
    by blast
qed

lemma match_round_None:
  assumes inv: "sb_inv b" and round: "match_round symb b = None"
  shows "\<not> crossed b"
proof (cases "best_bid_order b = None \<or> best_ask_order b = None")
  case True
  then show ?thesis
    using best_order_None [OF inv] by (auto simp: crossed_def)
next
  case False
  then obtain bid_id ask_id where best: "best_bid_order b = Some bid_id" "best_ask_order b = Some ask_id"
    by auto
  from best_bid_order_Some [OF inv best(1)] best_ask_order_Some [OF inv best(2)] round best show ?thesis
    by (fastforce simp: match_round_def crossed_def Let_def split: if_splits)
qed

section \<open>Properties\<close>

text \<open>
  C6. Matching leaves no crossed orders and loses no quantity. The loop ends, with at most one trade
  for every order it uses up; afterwards no live bid reaches the price of a live ask. Every trade is
  between a live buy and a live sell order whose prices cross, at the price of the sell order. What
  an order had open is what it still has open plus what was traded of it, and nothing else about an
  order changes.
\<close>

theorem try_match_uncrosses:
  assumes "sb_inv b" and "try_match symb b = (trades, b')"
  shows "sb_inv b' \<and> \<not> crossed b' \<and> (\<forall>t \<in> set trades. fair_trade symb b t)
    \<and> (\<forall>k. open_quantity b k = open_quantity b' k + traded trades k)
    \<and> reduced_from b b' \<and> length trades + live_order_count b' \<le> live_order_count b"
  using assms
proof (induction symb b arbitrary: trades rule: try_match.induct)
  case (1 symb b)
  show ?case
  proof (cases "match_round symb b")
    case None
    then show ?thesis
      using 1 match_round_None [of b symb] by (simp add: try_match.simps [of symb b] traded_def)
  next
    case (Some r)
    then obtain trade b1 where r: "match_round symb b = Some (trade, b1)"
      by force
    obtain ts where ts: "try_match symb b1 = (ts, b')" "trades = trade # ts"
      using 1(3) r by (auto simp: try_match.simps [of symb b] split: prod.splits)
    note step = match_round_spec [OF 1(2) r]
    have IH: "sb_inv b' \<and> \<not> crossed b' \<and> (\<forall>t \<in> set ts. fair_trade symb b1 t)
      \<and> (\<forall>k. open_quantity b1 k = open_quantity b' k + traded ts k)
      \<and> reduced_from b1 b' \<and> length ts + live_order_count b' \<le> live_order_count b1"
      using 1(1) [OF r refl step(1) ts(1)] .
    then show ?thesis
      using step ts(2) match_round_shorter [OF r] reduced_from_trans [OF step(2)] fair_trade_reduced [OF step(2)]
      by (auto simp: traded_def live_order_count_def)
  qed
qed

definition sim_order :: "order_id \<Rightarrow> side \<Rightarrow> price \<Rightarrow> quantity \<Rightarrow> order" where
  "sim_order oid sd p q = \<lparr>o_order_id = oid, o_symbol = symbol_default, o_side = sd, o_price = p,
     o_remaining_quantity = q, o_timestamp = 0\<rparr>"

definition sim_sample_book :: sim_book where
  "sim_sample_book = snd (sb_add id (sim_order 2 Side_Sell 90 30)
     (snd (sb_add id (sim_order 1 Side_Buy 100 50) sim_book_new)))"

lemma sim_sample_inv: "sb_inv sim_sample_book"
  unfolding sim_sample_book_def by (intro inv_rules sb_inv_new) simp_all

lemma sim_sample_match:
  "try_match symbol_default sim_sample_book =
     ([\<lparr>tm_symbol = symbol_default, tm_price = 90, tm_quantity = 30, tm_buy_order_id = 1,
        tm_sell_order_id = 2\<rparr>],
      \<lparr>sb_orders = [(1, sim_order 1 Side_Buy 100 20)], sb_order_ids = [1]\<rparr>)"
  by (simp add: try_match.simps match_round_def sim_sample_book_def sim_order_def sb_add_def sb_find_def
      sim_book_new_def best_bid_order_def best_ask_order_def sb_execute_def sb_modify_def sb_erase_def
      om_erase_def rebuild_ids_def Let_def)

theorem try_match_uncrosses_witness:
  "\<not> crossed (snd (try_match symbol_default sim_sample_book))
   \<and> open_quantity sim_sample_book 1 = 20 + traded (fst (try_match symbol_default sim_sample_book)) 1"
  using try_match_uncrosses [OF sim_sample_inv sim_sample_match] sim_sample_match
  by (simp add: open_quantity_def sb_find_def sim_order_def)

text \<open>
  The comment says the aggressor pays the passive price. A sell order that arrives below a resting
  bid trades at its own price instead: the price of a trade is that of the sell order whichever of
  the two was there first.
\<close>

theorem sell_aggressor_sets_price:
  assumes "bid_price \<ge> ask_price" and "0 < qty"
  shows "let resting = snd (sb_add id (sim_order 1 Side_Buy bid_price qty) sim_book_new);
             b = snd (sb_add id (sim_order 2 Side_Sell ask_price qty) resting)
         in map tm_price (fst (try_match symbol_default b)) = [ask_price]"
  using assms
  by (simp add: try_match.simps match_round_def sim_order_def sb_add_def sb_find_def
      sim_book_new_def best_bid_order_def best_ask_order_def sb_execute_def sb_modify_def sb_erase_def
      om_erase_def rebuild_ids_def Let_def not_less)

theorem sell_aggressor_sets_price_witness:
  "let resting = snd (sb_add id (sim_order 1 Side_Buy 100 5) sim_book_new);
       b = snd (sb_add id (sim_order 2 Side_Sell 90 5) resting)
   in map tm_price (fst (try_match symbol_default b)) = [90]"
  by (rule sell_aggressor_sets_price) simp_all

end
