(* ===== verification/Price_Walk.thy ===== *)
theory Price_Walk
  imports Floating
begin

text \<open>
  The random prices of the market simulator: the mean reverting walk
  (\<open>simulator/price_walk.{hpp,cpp}\<close>), the volatility regime (\<open>simulator/volatility_regime.{hpp,cpp}\<close>)
  and the news events (\<open>simulator/news_event_generator.{hpp,cpp}\<close>).

  A distribution applied to a generator is a function on the state of the generator.
\<close>

section \<open>The walk\<close>

record ('d, 'r) price_walk =
  pw_current_price :: 'd
  pw_mean_price :: 'd
  pw_volatility :: 'd
  pw_tick_size :: 'd
  pw_theta :: 'd
  pw_dt :: 'd
  pw_rng :: 'r

definition price_walk_new :: "'d fp \<Rightarrow> 'd \<Rightarrow> 'd \<Rightarrow> 'd \<Rightarrow> 'r \<Rightarrow> ('d, 'r) price_walk" where
  "price_walk_new fp start_price volatility tick_size rng =
     \<lparr>pw_current_price = start_price, pw_mean_price = start_price, pw_volatility = volatility,
      pw_tick_size = tick_size, pw_theta = fp_ratio fp 1 10, pw_dt = fp_ratio fp 1 1000, pw_rng = rng\<rparr>"

definition snap_to_tick :: "'d sim_math \<Rightarrow> ('d, 'r) price_walk \<Rightarrow> 'd \<Rightarrow> 'd" where
  "snap_to_tick mt w p =
     (let fp = sm_fp mt in fp_mul fp (sm_round mt (fp_div fp p (pw_tick_size w))) (pw_tick_size w))"

definition pw_current :: "'d fp \<Rightarrow> ('d, 'r) price_walk \<Rightarrow> price" where
  "pw_current fp w = double_to_price fp (pw_current_price w)"

text \<open>Both changes of the price clamp it to the interval from one tick to twice the mean.\<close>

definition pw_settle :: "'d sim_math \<Rightarrow> 'd \<Rightarrow> ('d, 'r) price_walk \<Rightarrow> ('d, 'r) price_walk" where
  "pw_settle mt new_price w =
     (let fp = sm_fp mt;
          min_price = pw_tick_size w;
          max_price = fp_mul fp (pw_mean_price w) (fp_of_nat fp 2);
          new_price = fp_clamp fp new_price min_price max_price
      in w\<lparr>pw_current_price := snap_to_tick mt w new_price\<rparr>)"

definition pw_next_noise :: "'d sim_math \<Rightarrow> 'd \<Rightarrow> ('d, 'r) price_walk \<Rightarrow> price \<times> ('d, 'r) price_walk" where
  "pw_next_noise mt noise w =
     (let fp = sm_fp mt;
          drift = fp_mul fp (fp_mul fp (pw_theta w) (fp_sub fp (pw_mean_price w) (pw_current_price w))) (pw_dt w);
          diffusion = fp_mul fp (fp_mul fp (pw_volatility w) (sm_sqrt mt (pw_dt w))) noise;
          new_price = fp_add fp (fp_add fp (pw_current_price w) drift) diffusion;
          w = pw_settle mt new_price w
      in (pw_current fp w, w))"

definition pw_next :: "'d sim_math \<Rightarrow> ('r \<Rightarrow> 'd \<times> 'r) \<Rightarrow> ('d, 'r) price_walk \<Rightarrow> price \<times> ('d, 'r) price_walk" where
  "pw_next mt normal w =
     (let (noise, r) = normal (pw_rng w) in pw_next_noise mt noise (w\<lparr>pw_rng := r\<rparr>))"

definition apply_jump :: "'d sim_math \<Rightarrow> 'd \<Rightarrow> ('d, 'r) price_walk \<Rightarrow> ('d, 'r) price_walk" where
  "apply_jump mt fraction w =
     (let fp = sm_fp mt; jump = fp_mul fp (pw_current_price w) fraction
      in pw_settle mt (fp_add fp (pw_current_price w) jump) w)"

definition set_volatility :: "'d \<Rightarrow> ('d, 'r) price_walk \<Rightarrow> ('d, 'r) price_walk" where
  "set_volatility vol w = w\<lparr>pw_volatility := vol\<rparr>"

section \<open>The volatility regime\<close>

datatype regime_state = Calm | Volatile | Crash

record 'd regime_params =
  rp_volatility_multiplier :: 'd
  rp_rate_multiplier :: 'd

record 'd regime_config =
  rc_matrix :: "regime_state \<Rightarrow> regime_state \<Rightarrow> 'd"
  rc_params :: "regime_state \<Rightarrow> 'd regime_params"
  rc_check_interval :: u32

record ('d, 'r) volatility_regime =
  rg_state :: regime_state
  rg_config :: "'d regime_config"
  rg_ticks_since_check :: u32
  rg_rng :: 'r

definition volatility_regime_new :: "'r \<Rightarrow> 'd regime_config \<Rightarrow> ('d, 'r) volatility_regime" where
  "volatility_regime_new rng cfg =
     \<lparr>rg_state = Calm, rg_config = cfg, rg_ticks_since_check = 0, rg_rng = rng\<rparr>"

fun transition_loop ::
  "'d fp \<Rightarrow> (regime_state \<Rightarrow> 'd) \<Rightarrow> 'd \<Rightarrow> 'd \<Rightarrow> regime_state list \<Rightarrow> regime_state option" where
  "transition_loop fp row roll cumulative [] = None"
| "transition_loop fp row roll cumulative (to # tos) =
     (let cumulative = fp_add fp cumulative (row to)
      in if fp_less fp roll cumulative then Some to else transition_loop fp row roll cumulative tos)"

definition try_transition ::
  "'d fp \<Rightarrow> ('r \<Rightarrow> 'd \<times> 'r) \<Rightarrow> ('d, 'r) volatility_regime \<Rightarrow> ('d, 'r) volatility_regime" where
  "try_transition fp uniform v =
     (let (roll, r) = uniform (rg_rng v); v = v\<lparr>rg_rng := r\<rparr>
      in case transition_loop fp (rc_matrix (rg_config v) (rg_state v)) roll (fp_zero fp)
                [Calm, Volatile, Crash] of
           Some to \<Rightarrow> v\<lparr>rg_state := to\<rparr>
         | None \<Rightarrow> v)"

definition regime_update ::
  "'d fp \<Rightarrow> ('r \<Rightarrow> 'd \<times> 'r) \<Rightarrow> ('d, 'r) volatility_regime \<Rightarrow> ('d, 'r) volatility_regime" where
  "regime_update fp uniform v =
     (let v = v\<lparr>rg_ticks_since_check := rg_ticks_since_check v + 1\<rparr>
      in if rc_check_interval (rg_config v) \<le> rg_ticks_since_check v
         then try_transition fp uniform (v\<lparr>rg_ticks_since_check := 0\<rparr>) else v)"

definition volatility_multiplier :: "('d, 'r) volatility_regime \<Rightarrow> 'd" where
  "volatility_multiplier v = rp_volatility_multiplier (rc_params (rg_config v) (rg_state v))"

definition rate_multiplier :: "('d, 'r) volatility_regime \<Rightarrow> 'd" where
  "rate_multiplier v = rp_rate_multiplier (rc_params (rg_config v) (rg_state v))"

definition set_transition_matrix ::
  "(regime_state \<Rightarrow> regime_state \<Rightarrow> 'd) \<Rightarrow> ('d, 'r) volatility_regime \<Rightarrow> ('d, 'r) volatility_regime" where
  "set_transition_matrix matrix v = v\<lparr>rg_config := (rg_config v)\<lparr>rc_matrix := matrix\<rparr>\<rparr>"

section \<open>News events\<close>

datatype event_magnitude = Small | Medium | Large
datatype event_direction = Up | Down
datatype event_scope = Single | Systemic

record 'd news_event =
  ne_magnitude :: event_magnitude
  ne_direction :: event_direction
  ne_scope :: event_scope
  ne_symbol_index :: nat
  ne_price_jump :: 'd

record 'd news_config =
  nc_event_probability :: 'd
  nc_check_interval :: u32
  nc_jump :: "event_magnitude \<Rightarrow> 'd"
  nc_systemic_prob :: 'd

record ('d, 'r) news_generator =
  ng_config :: "'d news_config"
  ng_num_symbols :: nat
  ng_ticks_since_check :: u32
  ng_total_events :: u64
  ng_rng :: 'r

definition news_generator_new :: "'r \<Rightarrow> nat \<Rightarrow> 'd news_config \<Rightarrow> ('d, 'r) news_generator" where
  "news_generator_new rng n cfg =
     \<lparr>ng_config = cfg, ng_num_symbols = n, ng_ticks_since_check = 0, ng_total_events = 0, ng_rng = rng\<rparr>"

text \<open>The distributions of the generator: a uniform number, a magnitude and an index.\<close>

record ('d, 'r) news_random =
  nr_uniform :: "'r \<Rightarrow> 'd \<times> 'r"
  nr_magnitude :: "'r \<Rightarrow> event_magnitude \<times> 'r"
  nr_index :: "nat \<Rightarrow> nat \<Rightarrow> 'r \<Rightarrow> nat \<times> 'r"

definition news_check ::
  "'d fp \<Rightarrow> ('d, 'r) news_random \<Rightarrow> ('d, 'r) news_generator
     \<Rightarrow> 'd news_event option \<times> ('d, 'r) news_generator" where
  "news_check fp rnd n =
     (let n = n\<lparr>ng_ticks_since_check := ng_ticks_since_check n + 1\<rparr>; cfg = ng_config n in
      if ng_ticks_since_check n < nc_check_interval cfg then (None, n)
      else
        let n = n\<lparr>ng_ticks_since_check := 0\<rparr>; (u, r) = nr_uniform rnd (ng_rng n) in
        if fp_le fp (nc_event_probability cfg) u then (None, n\<lparr>ng_rng := r\<rparr>)
        else
          let (mag, r) = nr_magnitude rnd r;
              (u, r) = nr_uniform rnd r;
              dir = (if fp_less fp u (fp_ratio fp 1 2) then Up else Down);
              (u, r) = nr_uniform rnd r;
              scope = (if fp_less fp u (nc_systemic_prob cfg) then Systemic else Single);
              (i, r) = (if 0 < ng_num_symbols n then nr_index rnd 0 (ng_num_symbols n - 1) r else (0, r));
              base_jump = nc_jump cfg mag
          in (Some \<lparr>ne_magnitude = mag, ne_direction = dir, ne_scope = scope, ne_symbol_index = i,
                    ne_price_jump = (if dir = Up then base_jump else fp_neg fp base_jump)\<rparr>,
              n\<lparr>ng_total_events := ng_total_events n + 1, ng_rng := r\<rparr>))"

section \<open>Bounds of the walk\<close>

text \<open>
  In exact arithmetic: a settled price is a positive multiple of the tick. It lies below twice the
  mean but for the half tick the rounding may add.
\<close>

definition pw_ok :: "(real, 'r) price_walk \<Rightarrow> bool" where
  "pw_ok w \<longleftrightarrow> (\<exists>k :: int. 1 \<le> k \<and> pw_current_price w = of_int k * pw_tick_size w)
     \<and> pw_current_price w \<le> 2 * pw_mean_price w + pw_tick_size w / 2"

lemma pw_settle_ok:
  assumes "0 < pw_tick_size w" and "pw_tick_size w \<le> 2 * pw_mean_price w"
  shows "pw_ok (pw_settle exact_math p w)"
proof -
  let ?tick = "pw_tick_size w"
  define c where "c = fp_clamp exact_fp p ?tick (pw_mean_price w * 2)"
  have c: "?tick \<le> c" "c \<le> 2 * pw_mean_price w"
    using assms(2) by (auto simp: c_def fp_clamp_def)
  let ?k = "round (c / ?tick)"
  have current: "pw_current_price (pw_settle exact_math p w) = of_int ?k * ?tick"
    by (simp add: pw_settle_def snap_to_tick_def exact_math_def c_def Let_def)
  have "1 \<le> c / ?tick"
    using c(1) assms(1) by simp
  then have k: "1 \<le> ?k"
    using round_mono [of 1 "c / ?tick"] by simp
  have "of_int ?k * ?tick \<le> (c / ?tick + 1 / 2) * ?tick"
    using assms(1) of_int_round_le [of "c / ?tick"] by (intro mult_right_mono) simp_all
  moreover have "(c / ?tick + 1 / 2) * ?tick = c + ?tick / 2"
    using assms(1) by (simp add: distrib_right)
  ultimately have "of_int ?k * ?tick \<le> 2 * pw_mean_price w + ?tick / 2"
    using c(2) by linarith
  moreover have "pw_tick_size (pw_settle exact_math p w) = ?tick" "pw_mean_price (pw_settle exact_math p w) = pw_mean_price w"
    by (simp_all add: pw_settle_def Let_def)
  ultimately show ?thesis
    using current k unfolding pw_ok_def by auto
qed

text \<open>The moves of a walk between two readings of its price.\<close>

datatype walk_move = Step real | Jump real | Revolatilize real

fun pw_move :: "walk_move \<Rightarrow> (real, 'r) price_walk \<Rightarrow> (real, 'r) price_walk" where
  "pw_move (Step noise) w = snd (pw_next_noise exact_math noise w)"
| "pw_move (Jump fraction) w = apply_jump exact_math fraction w"
| "pw_move (Revolatilize vol) w = set_volatility vol w"

lemma pw_move_constants:
  "pw_tick_size (pw_move m w) = pw_tick_size w" "pw_mean_price (pw_move m w) = pw_mean_price w"
  by (cases m; simp add: pw_next_noise_def apply_jump_def set_volatility_def pw_settle_def Let_def)+

lemma pw_move_ok:
  assumes "0 < pw_tick_size w" and "pw_tick_size w \<le> 2 * pw_mean_price w" and "pw_ok w"
  shows "pw_ok (pw_move m w)"
  using assms pw_settle_ok [OF assms(1,2)]
  by (cases m) (simp_all add: pw_next_noise_def apply_jump_def set_volatility_def pw_ok_def Let_def)

lemma pw_moves_ok:
  assumes "0 < pw_tick_size w" and "pw_tick_size w \<le> 2 * pw_mean_price w" and "pw_ok w"
  shows "pw_ok (fold pw_move ms w)"
    and "pw_tick_size (fold pw_move ms w) = pw_tick_size w" and "pw_mean_price (fold pw_move ms w) = pw_mean_price w"
  using assms by (induction ms arbitrary: w) (simp_all add: pw_move_ok pw_move_constants)

lemma pw_current_positive:
  assumes "pw_ok w" and "1 / 10000 \<le> pw_tick_size w"
    and "2 * pw_mean_price w + pw_tick_size w / 2 < 429496"
  shows "0 < pw_current exact_fp w"
proof -
  let ?x = "pw_current_price w * 10000"
  obtain k :: int where k: "1 \<le> k" "pw_current_price w = of_int k * pw_tick_size w"
    using assms(1) by (auto simp: pw_ok_def)
  have "1 * pw_tick_size w \<le> of_int k * pw_tick_size w"
    using k(1) assms(2) by (intro mult_right_mono) simp_all
  then have "1 \<le> ?x"
    using k(2) assms(2) by linarith
  moreover have "?x < 4294960000"
    using assms(1,3) by (simp add: pw_ok_def)
  ultimately have "1 \<le> \<lfloor>?x\<rfloor>" "\<lfloor>?x\<rfloor> < 4294960000"
    by (simp_all add: le_floor_iff floor_less_iff)
  then have "uint (of_int \<lfloor>?x\<rfloor> :: price) = \<lfloor>?x\<rfloor>"
    by (simp add: uint_word_of_int)
  then have "0 < uint (of_int \<lfloor>?x\<rfloor> :: price)"
    using \<open>1 \<le> \<lfloor>?x\<rfloor>\<close> by linarith
  then show ?thesis
    using \<open>1 \<le> ?x\<close> by (simp add: pw_current_def double_to_price_def exact_fp_def word_less_def)
qed

section \<open>Properties\<close>

text \<open>
  C16. A simulated price never leaves its grid. In exact arithmetic, a walk that starts on a positive
  multiple of its tick stays, through any steps, news jumps and changes of volatility, on positive
  multiples of the tick, and exceeds twice the mean by at most half a tick; when the tick is at
  least the resolution of a fixed-point price and the bound fits its 32 bits, the price it
  publishes is never 0.
\<close>

theorem price_walk_bounds:
  assumes "0 < tick" and "tick \<le> 2 * start" and "start = of_int k * tick"
  shows "let w = fold pw_move ms (price_walk_new exact_fp start vol tick rng)
    in (\<exists>j :: int. 1 \<le> j \<and> pw_current_price w = of_int j * tick)
     \<and> pw_current_price w \<le> 2 * start + tick / 2
     \<and> (1 / 10000 \<le> tick \<and> 2 * start + tick / 2 < 429496 \<longrightarrow> 0 < pw_current exact_fp w)"
proof -
  let ?w = "price_walk_new exact_fp start vol tick rng"
  have "0 < of_int k * tick"
    using assms by linarith
  then have "1 \<le> k"
    using assms(1) by (simp add: zero_less_mult_iff)
  moreover have "start \<le> 2 * start + tick / 2"
    using assms(1,2) by linarith
  ultimately have "pw_ok ?w"
    unfolding pw_ok_def using assms(3) by (auto simp: price_walk_new_def)
  then have "pw_ok (fold pw_move ms ?w)" "pw_tick_size (fold pw_move ms ?w) = tick"
    "pw_mean_price (fold pw_move ms ?w) = start"
    using pw_moves_ok [of ?w ms] assms(1,2) by (simp_all add: price_walk_new_def)
  then show ?thesis
    using pw_current_positive [of "fold pw_move ms ?w"] by (auto simp: pw_ok_def Let_def)
qed

theorem price_walk_bounds_witness:
  "let w = fold pw_move [Step 3, Jump (- 2), Step (- 5)] (price_walk_new exact_fp 100 2 (1 / 100) ())
   in (\<exists>j :: int. 1 \<le> j \<and> pw_current_price w = of_int j * (1 / 100)) \<and> 0 < pw_current exact_fp w"
  using price_walk_bounds [of "1 / 100" 100 10000 "[Step 3, Jump (- 2), Step (- 5)]" 2 "()"]
  by (simp add: Let_def)

end
