(* ===== verification/Order_Generator.thy ===== *)
theory Order_Generator
  imports Sim_Book Price_Walk
begin

text \<open>
  The generator of the simulated feed (\<open>simulator/order_generator.{hpp,cpp}\<close>): it draws a kind of
  message, fills it in from its own book of live orders, encodes it into a buffer and applies it to
  that book.

  The distributions, the clock and the place a hash map insertion leaves the entries are a record of
  functions on the state of the random number generator; \<open>random_ok\<close> is what the standard promises
  of them. An access outside \<open>symbols_\<close> or \<open>price_walks_\<close>, and an encoding that leaves the buffer,
  are \<open>None\<close>.
\<close>

section \<open>State and operations\<close>

record 'g sim_random =
  rnd_type :: "'g \<Rightarrow> nat \<times> 'g"
  rnd_index :: "'g draw"
  rnd_quantity :: "u32 \<Rightarrow> u32 \<Rightarrow> 'g \<Rightarrow> u32 \<times> 'g"
  rnd_clock :: "'g \<Rightarrow> timestamp \<times> 'g"
  rnd_arrange :: "'g \<Rightarrow> entries \<Rightarrow> entries"

definition random_ok :: "'g sim_random \<Rightarrow> bool" where
  "random_ok rnd \<longleftrightarrow>
     (\<forall>lo hi g. lo \<le> hi \<longrightarrow> lo \<le> fst (rnd_index rnd lo hi g) \<and> fst (rnd_index rnd lo hi g) \<le> hi)
     \<and> (\<forall>lo hi g. lo \<le> hi \<longrightarrow> lo \<le> fst (rnd_quantity rnd lo hi g) \<and> fst (rnd_quantity rnd lo hi g) \<le> hi)
     \<and> (\<forall>g es. mset (rnd_arrange rnd g es) = mset es)"

text \<open>The weights of the configuration only parameterise the distribution \<open>rnd_type\<close>.\<close>

record generator_config =
  gc_min_qty :: u32
  gc_max_qty :: u32

definition generator_config_default :: generator_config where
  "generator_config_default = \<lparr>gc_min_qty = 10, gc_max_qty = 1000\<rparr>"

record ('d, 'r, 'g) order_generator =
  og_symbols :: "symbol list"
  og_price_walks :: "('d, 'r) price_walk list"
  og_book :: sim_book
  og_config :: generator_config
  og_rng :: 'g
  og_next_order_id :: order_id
  og_total_generated :: u64

definition order_generator_new ::
  "symbol list \<Rightarrow> ('d, 'r) price_walk list \<Rightarrow> 'g \<Rightarrow> generator_config \<Rightarrow> ('d, 'r, 'g) order_generator" where
  "order_generator_new symbols walks rng cfg =
     \<lparr>og_symbols = symbols, og_price_walks = walks, og_book = sim_book_new, og_config = cfg,
      og_rng = rng, og_next_order_id = 1, og_total_generated = 0\<rparr>"

definition vector_at :: "'a list \<Rightarrow> nat \<Rightarrow> 'a option" where
  "vector_at xs i = (if i < length xs then Some (xs ! i) else None)"

definition random_quantity ::
  "'g sim_random \<Rightarrow> ('d, 'r, 'g) order_generator \<Rightarrow> quantity \<times> ('d, 'r, 'g) order_generator" where
  "random_quantity rnd og =
     (let (q, g) = rnd_quantity rnd (gc_min_qty (og_config og)) (gc_max_qty (og_config og)) (og_rng og)
      in (q, og\<lparr>og_rng := g\<rparr>))"

text \<open>\<open>price_walks_[sym_idx].next()\<close>\<close>

definition walk_next ::
  "'d sim_math \<Rightarrow> ('r \<Rightarrow> 'd \<times> 'r) \<Rightarrow> nat \<Rightarrow> ('d, 'r, 'g) order_generator
     \<Rightarrow> (price \<times> ('d, 'r, 'g) order_generator) option" where
  "walk_next mt normal i og =
     (case vector_at (og_price_walks og) i of
        None \<Rightarrow> None
      | Some w \<Rightarrow>
          let (p, w') = pw_next mt normal w
          in Some (p, og\<lparr>og_price_walks := (og_price_walks og)[i := w']\<rparr>))"

text \<open>
  The end all generators share: read the clock, encode, and when something was written apply the
  message to the book with \<open>apply\<close> and count it.
\<close>

definition emit ::
  "'g sim_random \<Rightarrow> parsed_message \<Rightarrow> (timestamp \<Rightarrow> 'g \<Rightarrow> sim_book \<Rightarrow> sim_book) \<Rightarrow> bytes \<Rightarrow> nat
     \<Rightarrow> ('d, 'r, 'g) order_generator \<Rightarrow> (nat \<times> bytes \<times> ('d, 'r, 'g) order_generator) option" where
  "emit rnd msg apply_to buffer buffer_size og =
     (let (ts, g) = rnd_clock rnd (og_rng og); og = og\<lparr>og_rng := g\<rparr> in
      case encode msg ts buffer buffer_size of
        None \<Rightarrow> None
      | Some (n, buffer) \<Rightarrow>
          Some (n, buffer,
            if 0 < n then og\<lparr>og_book := apply_to ts g (og_book og),
                             og_total_generated := og_total_generated og + 1\<rparr> else og))"

type_synonym ('d, 'r, 'g) gen_op =
  "'d sim_math \<Rightarrow> ('r \<Rightarrow> 'd \<times> 'r) \<Rightarrow> 'g sim_random \<Rightarrow> bytes \<Rightarrow> nat \<Rightarrow> ('d, 'r, 'g) order_generator
     \<Rightarrow> (nat \<times> bytes \<times> ('d, 'r, 'g) order_generator) option"

definition generate_add :: "('d, 'r, 'g) gen_op" where
  "generate_add mt normal rnd buffer buffer_size og =
     (let (sym_idx, g) = rnd_index rnd 0 (length (og_symbols og) - 1) (og_rng og);
          oid = og_next_order_id og;
          (sd, g) = rnd_index rnd 0 1 g;
          og = og\<lparr>og_rng := g, og_next_order_id := oid + 1\<rparr>
      in case vector_at (og_symbols og) sym_idx of
           None \<Rightarrow> None
         | Some symb \<Rightarrow>
             (case walk_next mt normal sym_idx og of
                None \<Rightarrow> None
              | Some (p, og) \<Rightarrow>
                  let (q, og) = random_quantity rnd og;
                      msg = \<lparr>ao_order_id = oid, ao_side = (if sd = 0 then Side_Buy else Side_Sell),
                             ao_symbol = symb, ao_price = p, ao_quantity = q\<rparr>
                  in emit rnd (AddOrder msg)
                       (\<lambda>ts g b. snd (sb_add (rnd_arrange rnd g)
                          \<lparr>o_order_id = oid, o_symbol = symb, o_side = ao_side msg, o_price = p,
                           o_remaining_quantity = q, o_timestamp = ts\<rparr> b))
                       buffer buffer_size og))"

definition generate_cancel :: "('d, 'r, 'g) gen_op" where
  "generate_cancel mt normal rnd buffer buffer_size og =
     (let (oid, g) = random_live_order (rnd_index rnd) (og_book og) (og_rng og);
          og = og\<lparr>og_rng := g\<rparr>
      in case oid of
           None \<Rightarrow> generate_add mt normal rnd buffer buffer_size og
         | Some oid \<Rightarrow>
             emit rnd (CancelOrder \<lparr>co_order_id = oid\<rparr>) (\<lambda>_ _ b. snd (sb_cancel oid b))
               buffer buffer_size og)"

definition generate_execute :: "('d, 'r, 'g) gen_op" where
  "generate_execute mt normal rnd buffer buffer_size og =
     (let (oid, g) = random_live_order (rnd_index rnd) (og_book og) (og_rng og);
          og = og\<lparr>og_rng := g\<rparr>
      in case oid of
           None \<Rightarrow> generate_add mt normal rnd buffer buffer_size og
         | Some oid \<Rightarrow>
             (case sb_find (og_book og) oid of
                None \<Rightarrow> generate_add mt normal rnd buffer buffer_size og
              | Some ord \<Rightarrow>
                  let (q, g) = rnd_quantity rnd 1 (o_remaining_quantity ord) (og_rng og)
                  in emit rnd (ExecuteOrder \<lparr>eo_order_id = oid, eo_exec_quantity = q\<rparr>)
                       (\<lambda>_ _ b. snd (sb_execute oid q b)) buffer buffer_size (og\<lparr>og_rng := g\<rparr>)))"

text \<open>The index of the first symbol that is that of the order; 0 when there is none.\<close>

fun symbol_index :: "symbol list \<Rightarrow> symbol \<Rightarrow> nat" where
  "symbol_index [] s = 0"
| "symbol_index (t # ts) s = (if t = s then 0 else if s \<in> set ts then Suc (symbol_index ts s) else 0)"

definition generate_replace :: "('d, 'r, 'g) gen_op" where
  "generate_replace mt normal rnd buffer buffer_size og =
     (let (oid, g) = random_live_order (rnd_index rnd) (og_book og) (og_rng og);
          og = og\<lparr>og_rng := g\<rparr>
      in case oid of
           None \<Rightarrow> generate_add mt normal rnd buffer buffer_size og
         | Some oid \<Rightarrow>
             (case sb_find (og_book og) oid of
                None \<Rightarrow> generate_add mt normal rnd buffer buffer_size og
              | Some ord \<Rightarrow>
                  (case walk_next mt normal (symbol_index (og_symbols og) (o_symbol ord)) og of
                     None \<Rightarrow> None
                   | Some (p, og) \<Rightarrow>
                       let (q, og) = random_quantity rnd og
                       in emit rnd (ReplaceOrder \<lparr>ro_order_id = oid, ro_new_price = p, ro_new_quantity = q\<rparr>)
                            (\<lambda>_ _ b. snd (sb_replace oid p q b)) buffer buffer_size og)))"

text \<open>The case of \<open>next\<close> that makes a trade, or an add when a side of the book is empty.\<close>

definition generate_trade :: "('d, 'r, 'g) gen_op" where
  "generate_trade mt normal rnd buffer buffer_size og =
     (let (bid_id, g) = random_live_order_on (rnd_index rnd) Side_Buy (og_book og) (og_rng og);
          (ask_id, g) = random_live_order_on (rnd_index rnd) Side_Sell (og_book og) g;
          og = og\<lparr>og_rng := g\<rparr>
      in case (bid_id, ask_id) of
           (Some bid_id, Some ask_id) \<Rightarrow>
             (case (sb_find (og_book og) bid_id, sb_find (og_book og) ask_id) of
                (Some bid, Some ask) \<Rightarrow>
                  let trade_qty = min (o_remaining_quantity bid) (o_remaining_quantity ask);
                      trade_qty = (if trade_qty = 0 then 1 else trade_qty)
                  in emit rnd (TradeMessage \<lparr>tm_symbol = o_symbol bid, tm_price = o_price ask,
                         tm_quantity = trade_qty, tm_buy_order_id = bid_id, tm_sell_order_id = ask_id\<rparr>)
                       (\<lambda>_ _ b. snd (sb_execute ask_id trade_qty (snd (sb_execute bid_id trade_qty b))))
                       buffer buffer_size og
              | _ \<Rightarrow> generate_add mt normal rnd buffer buffer_size og)
         | _ \<Rightarrow> generate_add mt normal rnd buffer buffer_size og)"

definition gen_next :: "('d, 'r, 'g) gen_op" where
  "gen_next mt normal rnd buffer buffer_size og =
     (let (type, g) = rnd_type rnd (og_rng og);
          og = og\<lparr>og_rng := g\<rparr>;
          type = (if sb_empty (og_book og) \<and> type \<noteq> 0 then 0 else type)
      in if type = 1 then generate_cancel mt normal rnd buffer buffer_size og
         else if type = 2 then generate_execute mt normal rnd buffer buffer_size og
         else if type = 3 then generate_replace mt normal rnd buffer buffer_size og
         else if type = 4 then generate_trade mt normal rnd buffer buffer_size og
         else generate_add mt normal rnd buffer buffer_size og)"

end
