(* ===== verification/Sim_Feed.thy ===== *)
theory Sim_Feed
  imports Order_Generator Book_Manager Batcher
begin

text \<open>
  The simulated feed against the feed handler: every message the order generator emits refers to its
  live orders, and the book manager that processes the messages keeps the same live orders as the
  generator, as long as no trade message is among them.
\<close>

section \<open>The live orders of the generator\<close>

text \<open>The handler does not know the timestamps of the generator, so they are left out.\<close>

definition unstamped :: "order \<Rightarrow> order" where
  "unstamped ord = ord\<lparr>o_timestamp := 0\<rparr>"

definition gen_live :: "('d, 'r, 'g) order_generator \<Rightarrow> order_id \<rightharpoonup> order" where
  "gen_live og oid = map_option unstamped (sb_find (og_book og) oid)"

text \<open>What a message does to a set of live orders, and when it makes sense there.\<close>

fun msg_effect :: "(order_id \<rightharpoonup> order) \<Rightarrow> parsed_message \<Rightarrow> (order_id \<rightharpoonup> order)" where
  "msg_effect M (AddOrder m) = M(ao_order_id m \<mapsto> \<lparr>o_order_id = ao_order_id m, o_symbol = ao_symbol m,
     o_side = ao_side m, o_price = ao_price m, o_remaining_quantity = ao_quantity m, o_timestamp = 0\<rparr>)"
| "msg_effect M (CancelOrder m) = M(co_order_id m := None)"
| "msg_effect M (ExecuteOrder m) =
     M(eo_order_id m := Option.bind (M (eo_order_id m)) (take_quantity (eo_exec_quantity m)))"
| "msg_effect M (ReplaceOrder m) = M(ro_order_id m := map_option
     (\<lambda>ord. ord\<lparr>o_price := ro_new_price m, o_remaining_quantity := ro_new_quantity m\<rparr>) (M (ro_order_id m)))"
| "msg_effect M (TradeMessage m) =
     (let M = M(tm_buy_order_id m := Option.bind (M (tm_buy_order_id m)) (take_quantity (tm_quantity m)))
      in M(tm_sell_order_id m := Option.bind (M (tm_sell_order_id m)) (take_quantity (tm_quantity m))))"

fun msg_refers :: "(order_id \<rightharpoonup> order) \<Rightarrow> parsed_message \<Rightarrow> bool" where
  "msg_refers M (AddOrder m) \<longleftrightarrow> M (ao_order_id m) = None \<and> ao_quantity m \<noteq> 0
     \<and> (ao_side m = Side_Buy \<or> ao_side m = Side_Sell)"
| "msg_refers M (CancelOrder m) \<longleftrightarrow> M (co_order_id m) \<noteq> None"
| "msg_refers M (ExecuteOrder m) \<longleftrightarrow> (\<exists>ord. M (eo_order_id m) = Some ord
     \<and> eo_exec_quantity m \<noteq> 0 \<and> eo_exec_quantity m \<le> o_remaining_quantity ord)"
| "msg_refers M (ReplaceOrder m) \<longleftrightarrow> M (ro_order_id m) \<noteq> None \<and> ro_new_quantity m \<noteq> 0"
| "msg_refers M (TradeMessage m) \<longleftrightarrow> (\<exists>bid ask. M (tm_buy_order_id m) = Some bid \<and> o_side bid = Side_Buy
     \<and> M (tm_sell_order_id m) = Some ask \<and> o_side ask = Side_Sell
     \<and> tm_quantity m = min (o_remaining_quantity bid) (o_remaining_quantity ask) \<and> tm_quantity m \<noteq> 0)"

definition gen_inv :: "('d, 'r, 'g) order_generator \<Rightarrow> bool" where
  "gen_inv og \<longleftrightarrow> sb_inv (og_book og)
     \<and> (\<forall>oid ord. sb_find (og_book og) oid = Some ord \<longrightarrow> o_remaining_quantity ord \<noteq> 0
          \<and> o_remaining_quantity ord \<le> gc_max_qty (og_config og) \<and> oid < og_next_order_id og)
     \<and> og_symbols og \<noteq> [] \<and> length (og_price_walks og) = length (og_symbols og)
     \<and> gc_min_qty (og_config og) \<noteq> 0 \<and> gc_min_qty (og_config og) \<le> gc_max_qty (og_config og)"

lemma unstamped_simps [simp]:
  "o_remaining_quantity (unstamped ord) = o_remaining_quantity ord" "o_side (unstamped ord) = o_side ord"
  "o_symbol (unstamped ord) = o_symbol ord" "o_price (unstamped ord) = o_price ord"
  "o_order_id (unstamped ord) = o_order_id ord"
  by (simp_all add: unstamped_def)

lemma take_unstamped:
  "map_option unstamped (Option.bind x (take_quantity q)) = Option.bind (map_option unstamped x) (take_quantity q)"
  by (cases x) (simp_all add: take_quantity_def unstamped_def)

lemma take_unstamped_Some: "map_option unstamped (take_quantity q ord) = take_quantity q (unstamped ord)"
  using take_unstamped [of "Some ord" q] by simp

lemma gen_invD:
  assumes "gen_inv og"
  shows "sb_inv (og_book og)" "og_symbols og \<noteq> []" "length (og_price_walks og) = length (og_symbols og)"
    "gc_min_qty (og_config og) \<noteq> 0" "gc_min_qty (og_config og) \<le> gc_max_qty (og_config og)"
    "sb_find (og_book og) oid = Some ord \<Longrightarrow> o_remaining_quantity ord \<noteq> 0"
    "sb_find (og_book og) oid = Some ord \<Longrightarrow> o_remaining_quantity ord \<le> gc_max_qty (og_config og)"
    "sb_find (og_book og) oid = Some ord \<Longrightarrow> oid < og_next_order_id og"
  using assms unfolding gen_inv_def by blast+

section \<open>One message\<close>

text \<open>
  What a call of the generator promises: it wrote one message into the buffer, the message refers to
  its live orders, it applied the message to them, and its invariant holds again.
\<close>

definition gen_ok ::
  "('d, 'r, 'g) order_generator \<Rightarrow> bytes \<Rightarrow> (nat \<times> bytes \<times> ('d, 'r, 'g) order_generator) option \<Rightarrow> bool" where
  "gen_ok og buffer r \<longleftrightarrow> (\<exists>msg ts og'.
     r = Some (msg_WIRE_SIZE msg, wire msg ts @ drop (msg_WIRE_SIZE msg) buffer, og')
     \<and> msg_refers (gen_live og) msg \<and> gen_live og' = msg_effect (gen_live og) msg \<and> gen_inv og'
     \<and> (og_config og', og_symbols og') = (og_config og, og_symbols og)
     \<and> og_next_order_id og' \<in> {og_next_order_id og, og_next_order_id og + 1})"

lemma random_okD:
  assumes "random_ok rnd"
  shows "lo \<le> hi \<Longrightarrow> lo \<le> fst (rnd_index rnd lo hi g)" "lo \<le> hi \<Longrightarrow> fst (rnd_index rnd lo hi g) \<le> hi"
    "lo' \<le> hi' \<Longrightarrow> lo' \<le> fst (rnd_quantity rnd lo' hi' g)" "lo' \<le> hi' \<Longrightarrow> fst (rnd_quantity rnd lo' hi' g) \<le> hi'"
    "mset (rnd_arrange rnd g es) = mset es"
  using assms unfolding random_ok_def by blast+

lemma emit_ok:
  assumes buf: "43 \<le> n" "n \<le> length buffer"
    and og': "og' = og1\<lparr>og_rng := snd (rnd_clock rnd (og_rng og1)),
        og_book := apply_to (fst (rnd_clock rnd (og_rng og1))) (snd (rnd_clock rnd (og_rng og1))) (og_book og1),
        og_total_generated := og_total_generated og1 + 1\<rparr>"
    and "msg_refers (gen_live og) msg" "gen_live og' = msg_effect (gen_live og) msg" "gen_inv og'"
    and "(og_config og', og_symbols og') = (og_config og, og_symbols og)" "og_next_order_id og' \<in> {og_next_order_id og, og_next_order_id og + 1}"
  shows "gen_ok og buffer (emit rnd msg apply_to buffer n og1)"
proof -
  have "msg_WIRE_SIZE msg \<le> n" "0 < msg_WIRE_SIZE msg"
    using wire_size_bounds [of msg] buf(1) by simp_all
  then have "emit rnd msg apply_to buffer n og1 =
      Some (msg_WIRE_SIZE msg, wire msg (fst (rnd_clock rnd (og_rng og1))) @ drop (msg_WIRE_SIZE msg) buffer, og')"
    using encode_ok [OF _ buf(2), of msg] og' by (simp add: emit_def split_beta Let_def)
  then show ?thesis
    using assms(4-8) unfolding gen_ok_def by blast
qed

lemma gen_live_rng [simp]: "gen_live (og\<lparr>og_rng := g\<rparr>) = gen_live og"
  by (simp add: gen_live_def fun_eq_iff)

lemma gen_inv_rng [simp]: "gen_inv (og\<lparr>og_rng := g\<rparr>) = gen_inv og"
  by (simp add: gen_inv_def)

lemma gen_ok_rng [simp]: "gen_ok (og\<lparr>og_rng := g\<rparr>) = gen_ok og"
  by (simp add: gen_ok_def fun_eq_iff)

lemma random_quantity_range:
  assumes "gen_inv og" and "random_ok rnd" and "random_quantity rnd og = (q, og')"
  shows "q \<noteq> 0" "q \<le> gc_max_qty (og_config og)" "\<exists>g. og' = og\<lparr>og_rng := g\<rparr>"
  using random_okD(3,4) [OF assms(2) gen_invD(5) [OF assms(1)], of "og_rng og"] gen_invD(4) [OF assms(1)] assms(3)
  by (auto simp: random_quantity_def split_beta Let_def)

lemma walk_next_Some:
  assumes "gen_inv og" and "i < length (og_symbols og)"
  shows "\<exists>p ws. walk_next mt normal i og = Some (p, og\<lparr>og_price_walks := ws\<rparr>) \<and> length ws = length (og_symbols og)"
  using gen_invD(3) [OF assms(1)] assms(2)
  by (auto simp: walk_next_def vector_at_def split_beta Let_def)

lemma generate_add_ok:
  assumes inv: "gen_inv og" and rnd: "random_ok rnd" and next_id: "og_next_order_id og \<noteq> - 1"
    and buf: "43 \<le> n" "n \<le> length buffer"
  shows "gen_ok og buffer (generate_add mt normal rnd buffer n og)"
proof -
  note D = gen_invD [OF inv] and R = random_okD [OF rnd]
  obtain i g1 where i: "rnd_index rnd 0 (length (og_symbols og) - 1) (og_rng og) = (i, g1)" by force
  obtain sd g2 where sd: "rnd_index rnd 0 1 g1 = (sd, g2)" by force
  let ?oid = "og_next_order_id og"
  let ?og1 = "og\<lparr>og_rng := g2, og_next_order_id := ?oid + 1\<rparr>"
  have "i \<le> length (og_symbols og) - 1"
    using R(2) [of 0 "length (og_symbols og) - 1" "og_rng og"] i by simp
  then have i_lt: "i < length (og_symbols og)"
    using D(2) by (cases "og_symbols og") auto
  have less: "?oid < ?oid + 1"
    using next_id by (rule word_less_plus_1)
  then have inv1: "gen_inv ?og1"
    using inv unfolding gen_inv_def by (auto intro: less_trans)
  obtain p ws where w: "walk_next mt normal i ?og1 = Some (p, ?og1\<lparr>og_price_walks := ws\<rparr>)"
    "length ws = length (og_symbols og)"
    using walk_next_Some [OF inv1, where i = i and mt = mt and normal = normal] i_lt by auto
  let ?og2 = "?og1\<lparr>og_price_walks := ws\<rparr>"
  have inv2: "gen_inv ?og2"
    using inv1 w(2) by (simp add: gen_inv_def)
  obtain q og3 where q: "random_quantity rnd ?og2 = (q, og3)" by force
  obtain g3 where og3: "og3 = ?og2\<lparr>og_rng := g3\<rparr>"
    using random_quantity_range(3) [OF inv2 rnd q] by auto
  note qr = random_quantity_range(1,2) [OF inv2 rnd q]
  have free: "sb_find (og_book og) ?oid = None"
    using D(8) [of ?oid] by (cases "sb_find (og_book og) ?oid") auto
  define sd' where "sd' = (if sd = 0 then Side_Buy else Side_Sell)"
  have sd': "sd' = Side_Buy \<or> sd' = Side_Sell"
    by (simp add: sd'_def)
  let ?ord = "\<lambda>ts. \<lparr>o_order_id = ?oid, o_symbol = og_symbols og ! i, o_side = sd', o_price = p,
    o_remaining_quantity = q, o_timestamp = ts\<rparr>"
  have find: "sb_find (snd (sb_add (rnd_arrange rnd g) (?ord ts) (og_book og))) = (sb_find (og_book og))(?oid \<mapsto> ?ord ts)"
    for g ts
    using sb_find_add [where arrange = "rnd_arrange rnd g" and ord = "?ord ts" and b = "og_book og"] R(5) D(1) free
    by simp
  have book: "sb_inv (snd (sb_add (rnd_arrange rnd g) (?ord ts) (og_book og)))" for g ts
    using D(1) R(5) by (rule sb_inv_add)
  have "gen_ok og buffer (emit rnd (AddOrder \<lparr>ao_order_id = ?oid, ao_side = sd', ao_symbol = og_symbols og ! i,
      ao_price = p, ao_quantity = q\<rparr>) (\<lambda>ts g b. snd (sb_add (rnd_arrange rnd g) (?ord ts) b)) buffer n og3)"
    using free qr less inv2 D book sd'
    by (intro emit_ok [OF buf refl])
      (auto simp: og3 gen_live_def find unstamped_def gen_inv_def fun_eq_iff intro: less_trans)
  then show ?thesis
    using i sd i_lt w(1) q by (simp add: generate_add_def vector_at_def sd'_def Let_def)
qed

text \<open>A random choice among the live orders finds one.\<close>

lemma random_live_order_Some:
  assumes "sb_inv b" and "random_ok rnd" and "random_live_order (rnd_index rnd) b g = (Some oid, g')"
  shows "sb_find b oid \<noteq> None"
proof -
  let ?ids = "sb_order_ids b"
  obtain i where i: "?ids \<noteq> []" "fst (rnd_index rnd 0 (length ?ids - 1) g) = i" "oid = ?ids ! i"
    using assms(3) by (auto simp: random_live_order_def Let_def split_beta split: if_splits)
  then have "i \<le> length ?ids - 1"
    using random_okD(2) [OF assms(2), of 0 "length ?ids - 1" g] by simp
  then have "i < length ?ids"
    using i(1) by (cases ?ids) auto
  then have "oid \<in> set ?ids"
    using i(3) nth_mem by blast
  then show ?thesis
    using assms(1) by (auto simp: sb_inv_def sb_find_def map_of_eq_None_iff)
qed

lemma random_live_order_on_Some:
  assumes "sb_inv b" and "random_ok rnd" and "random_live_order_on (rnd_index rnd) sd b g = (Some oid, g')"
  shows "\<exists>ord. sb_find b oid = Some ord \<and> o_side ord = sd"
proof -
  let ?ids = "map fst (filter (\<lambda>(_, ord). o_side ord = sd) (sb_orders b))"
  obtain i where i: "?ids \<noteq> []" "fst (rnd_index rnd 0 (length ?ids - 1) g) = i" "oid = ?ids ! i"
    using assms(3) by (auto simp: random_live_order_on_def Let_def split_beta split: if_splits)
  then have "i \<le> length ?ids - 1"
    using random_okD(2) [OF assms(2), of 0 "length ?ids - 1" g] by simp
  then have "i < length ?ids"
    using i(1) by (cases ?ids) auto
  then have "oid \<in> set ?ids"
    using i(3) nth_mem by blast
  then show ?thesis
    using assms(1) by (auto simp: sb_inv_def sb_find_def intro: map_of_is_SomeI)
qed

lemma gen_live_book:
  "gen_live (og\<lparr>og_rng := g, og_book := b, og_total_generated := t\<rparr>) = (\<lambda>oid. map_option unstamped (sb_find b oid))"
  by (simp add: gen_live_def fun_eq_iff)

lemma generate_cancel_ok:
  assumes inv: "gen_inv og" and rnd: "random_ok rnd" and next_id: "og_next_order_id og \<noteq> - 1"
    and buf: "43 \<le> n" "n \<le> length buffer"
  shows "gen_ok og buffer (generate_cancel mt normal rnd buffer n og)"
proof -
  note D = gen_invD [OF inv]
  obtain pick g where pick: "random_live_order (rnd_index rnd) (og_book og) (og_rng og) = (pick, g)" by force
  show ?thesis
  proof (cases pick)
    case None
    then show ?thesis
      using generate_add_ok [OF _ rnd _ buf, of "og\<lparr>og_rng := g\<rparr>"] inv next_id pick by (simp add: generate_cancel_def)
  next
    case (Some oid)
    have "sb_find (og_book og) oid \<noteq> None"
      using random_live_order_Some [OF D(1) rnd] pick Some by simp
    moreover have "gen_inv (og\<lparr>og_rng := g', og_book := snd (sb_cancel oid (og_book og)), og_total_generated := t\<rparr>)" for g' t
      using inv by (auto simp: gen_inv_def sb_find_cancel inv_rules)
    ultimately have "gen_ok og buffer (emit rnd (CancelOrder \<lparr>co_order_id = oid\<rparr>)
        (\<lambda>_ _ b. snd (sb_cancel oid b)) buffer n (og\<lparr>og_rng := g\<rparr>))"
      by (intro emit_ok [OF buf refl]) (auto simp: gen_live_book gen_live_def sb_find_cancel fun_eq_iff)
    then show ?thesis
      using pick Some by (simp add: generate_cancel_def)
  qed
qed

lemma take_quantity_Some:
  assumes "take_quantity q ord = Some ord'"
  shows "o_remaining_quantity ord' \<noteq> 0" "o_remaining_quantity ord' \<le> o_remaining_quantity ord"
  using assms unat_minus_le [of q "o_remaining_quantity ord"]
  by (auto simp: take_quantity_def word_le_nat_alt split: if_splits)

lemma gen_inv_execute:
  assumes "gen_inv og"
  shows "gen_inv (og\<lparr>og_rng := g, og_book := snd (sb_execute oid q (og_book og)), og_total_generated := t\<rparr>)"
proof -
  have "o_remaining_quantity ord' \<noteq> 0 \<and> o_remaining_quantity ord' \<le> gc_max_qty (og_config og)"
    if "sb_find (og_book og) oid = Some ord" "take_quantity q ord = Some ord'" for ord ord'
    using take_quantity_Some [OF that(2)] gen_invD(7) [OF assms that(1)] by (auto intro: order_trans)
  then show ?thesis
    using assms by (auto simp: gen_inv_def sb_find_execute inv_rules bind_eq_Some_conv split: if_splits)
qed

lemma generate_execute_ok:
  assumes inv: "gen_inv og" and rnd: "random_ok rnd" and next_id: "og_next_order_id og \<noteq> - 1"
    and buf: "43 \<le> n" "n \<le> length buffer"
  shows "gen_ok og buffer (generate_execute mt normal rnd buffer n og)"
proof -
  note D = gen_invD [OF inv]
  obtain pick g where pick: "random_live_order (rnd_index rnd) (og_book og) (og_rng og) = (pick, g)" by force
  show ?thesis
  proof (cases pick)
    case None
    then show ?thesis
      using generate_add_ok [OF _ rnd _ buf, of "og\<lparr>og_rng := g\<rparr>"] inv next_id pick by (simp add: generate_execute_def)
  next
    case (Some oid)
    then obtain ord where ord: "sb_find (og_book og) oid = Some ord"
      using random_live_order_Some [OF D(1) rnd] pick by blast
    obtain q g' where q: "rnd_quantity rnd 1 (o_remaining_quantity ord) g = (q, g')" by force
    have "1 \<le> o_remaining_quantity ord"
      using D(6) [OF ord] by (simp add: word_le_nat_alt Suc_le_eq unat_gt_0)
    then have "1 \<le> q" "q \<le> o_remaining_quantity ord"
      using random_okD(3,4) [OF rnd, of 1 "o_remaining_quantity ord" g] q by simp_all
    then have range: "q \<noteq> 0" "q \<le> o_remaining_quantity ord"
      by auto
    have "gen_ok og buffer (emit rnd (ExecuteOrder \<lparr>eo_order_id = oid, eo_exec_quantity = q\<rparr>)
        (\<lambda>_ _ b. snd (sb_execute oid q b)) buffer n (og\<lparr>og_rng := g'\<rparr>))"
      using ord range gen_inv_execute [OF inv, where oid = oid and q = q]
      by (intro emit_ok [OF buf refl])
        (auto simp: gen_live_book gen_live_def sb_find_execute fun_eq_iff take_unstamped_Some)
    then show ?thesis
      using pick Some ord q by (simp add: generate_execute_def)
  qed
qed

lemma symbol_index_less: "ss \<noteq> [] \<Longrightarrow> symbol_index ss s < length ss"
proof (induction ss s rule: symbol_index.induct)
  case (2 t ts s)
  then show ?case
    by (cases "ts = []") auto
qed simp

lemma sb_find_replace:
  "sb_find (snd (sb_replace oid p q b)) =
     (sb_find b)(oid := map_option (\<lambda>ord. ord\<lparr>o_price := p, o_remaining_quantity := q\<rparr>) (sb_find b oid))"
  by (auto simp: sb_replace_def split: option.split)

lemma generate_replace_ok:
  assumes inv: "gen_inv og" and rnd: "random_ok rnd" and next_id: "og_next_order_id og \<noteq> - 1"
    and buf: "43 \<le> n" "n \<le> length buffer"
  shows "gen_ok og buffer (generate_replace mt normal rnd buffer n og)"
proof -
  note D = gen_invD [OF inv]
  obtain pick g where pick: "random_live_order (rnd_index rnd) (og_book og) (og_rng og) = (pick, g)" by force
  show ?thesis
  proof (cases pick)
    case None
    then show ?thesis
      using generate_add_ok [OF _ rnd _ buf, of "og\<lparr>og_rng := g\<rparr>"] inv next_id pick by (simp add: generate_replace_def)
  next
    case (Some oid)
    then obtain ord where ord: "sb_find (og_book og) oid = Some ord"
      using random_live_order_Some [OF D(1) rnd] pick by blast
    let ?i = "symbol_index (og_symbols og) (o_symbol ord)"
    obtain p ws where w: "walk_next mt normal ?i (og\<lparr>og_rng := g\<rparr>) = Some (p, og\<lparr>og_rng := g, og_price_walks := ws\<rparr>)"
      "length ws = length (og_symbols og)"
      using walk_next_Some [where og = "og\<lparr>og_rng := g\<rparr>" and i = ?i and mt = mt and normal = normal] inv
        symbol_index_less [OF D(2)] by auto
    let ?og = "og\<lparr>og_rng := g, og_price_walks := ws\<rparr>"
    have inv': "gen_inv ?og"
      using inv w(2) by (simp add: gen_inv_def)
    obtain q og' where q: "random_quantity rnd ?og = (q, og')" by force
    obtain g' where og': "og' = ?og\<lparr>og_rng := g'\<rparr>"
      using random_quantity_range(3) [OF inv' rnd q] by auto
    have "gen_ok og buffer (emit rnd (ReplaceOrder \<lparr>ro_order_id = oid, ro_new_price = p, ro_new_quantity = q\<rparr>)
        (\<lambda>_ _ b. snd (sb_replace oid p q b)) buffer n og')"
      using ord random_quantity_range(1,2) [OF inv' rnd q] inv'
      by (intro emit_ok [OF buf refl])
        (auto simp: og' gen_live_def gen_inv_def sb_find_replace fun_eq_iff unstamped_def inv_rules
          option.map_comp comp_def)
    then show ?thesis
      using pick Some ord w(1) q by (simp add: generate_replace_def)
  qed
qed

lemma generate_trade_ok:
  assumes inv: "gen_inv og" and rnd: "random_ok rnd" and next_id: "og_next_order_id og \<noteq> - 1"
    and buf: "43 \<le> n" "n \<le> length buffer"
  shows "gen_ok og buffer (generate_trade mt normal rnd buffer n og)"
proof -
  note D = gen_invD [OF inv]
  obtain bid_id g where b: "random_live_order_on (rnd_index rnd) Side_Buy (og_book og) (og_rng og) = (bid_id, g)" by force
  obtain ask_id g' where a: "random_live_order_on (rnd_index rnd) Side_Sell (og_book og) g = (ask_id, g')" by force
  show ?thesis
  proof (cases "\<exists>k k'. bid_id = Some k \<and> ask_id = Some k'")
    case False
    then show ?thesis
      using generate_add_ok [OF _ rnd _ buf, of "og\<lparr>og_rng := g'\<rparr>"] inv next_id a b
      by (cases bid_id; cases ask_id) (simp_all add: generate_trade_def)
  next
    case True
    then obtain k k' where k: "bid_id = Some k" "ask_id = Some k'" by auto
    obtain bid where bid: "sb_find (og_book og) k = Some bid" "o_side bid = Side_Buy"
      using random_live_order_on_Some [OF D(1) rnd] b k by blast
    obtain ask where ask: "sb_find (og_book og) k' = Some ask" "o_side ask = Side_Sell"
      using random_live_order_on_Some [OF D(1) rnd] a k by blast
    let ?q = "min (o_remaining_quantity bid) (o_remaining_quantity ask)"
    have q: "?q \<noteq> 0"
      using D(6) [OF bid(1)] D(6) [OF ask(1)] by (simp add: min_def)
    have ne: "k \<noteq> k'"
      using bid ask by auto
    have "gen_inv (og\<lparr>og_rng := g1, og_book := snd (sb_execute k' ?q (snd (sb_execute k ?q (og_book og)))),
        og_total_generated := t\<rparr>)" for g1 t
      using gen_inv_execute [OF gen_inv_execute [OF inv, where g = g1 and oid = k and q = ?q and t = t],
          where g = g1 and oid = k' and q = ?q and t = t] by simp
    then have "gen_ok og buffer (emit rnd (TradeMessage \<lparr>tm_symbol = o_symbol bid, tm_price = o_price ask,
          tm_quantity = ?q, tm_buy_order_id = k, tm_sell_order_id = k'\<rparr>)
        (\<lambda>_ _ b. snd (sb_execute k' ?q (snd (sb_execute k ?q b)))) buffer n (og\<lparr>og_rng := g'\<rparr>))"
      using bid ask q ne
      by (intro emit_ok [OF buf refl])
        (auto simp: gen_live_book gen_live_def sb_find_execute fun_eq_iff take_unstamped_Some Let_def)
    then show ?thesis
      using a b k bid ask q by (simp add: generate_trade_def Let_def)
  qed
qed

lemma gen_next_ok:
  assumes "gen_inv og" and "random_ok rnd" and "og_next_order_id og \<noteq> - 1" and "43 \<le> n" and "n \<le> length buffer"
  shows "gen_ok og buffer (gen_next mt normal rnd buffer n og)"
proof -
  obtain type g where t: "rnd_type rnd (og_rng og) = (type, g)" by force
  note ok = generate_add_ok generate_cancel_ok generate_execute_ok generate_replace_ok generate_trade_ok
  show ?thesis
    using ok [where og = "og\<lparr>og_rng := g\<rparr>", OF _ assms(2) _ assms(4,5)] assms(1,3) t
    by (simp add: gen_next_def Let_def)
qed

section \<open>The handler follows the messages\<close>

definition is_trade :: "parsed_message \<Rightarrow> bool" where
  "is_trade m \<longleftrightarrow> (\<exists>t. m = TradeMessage t)"

text \<open>
  A feed over a set of live orders: each message refers to the orders the ones before it left, and no
  order is ever larger than \<open>mx\<close>.
\<close>

definition orders_below :: "quantity \<Rightarrow> (order_id \<rightharpoonup> order) \<Rightarrow> bool" where
  "orders_below mx M \<longleftrightarrow> (\<forall>oid ord. M oid = Some ord \<longrightarrow> o_remaining_quantity ord \<le> mx)"

fun feed_chain :: "quantity \<Rightarrow> (order_id \<rightharpoonup> order) \<Rightarrow> parsed_message list \<Rightarrow> bool" where
  "feed_chain mx M [] \<longleftrightarrow> True"
| "feed_chain mx M (m # ms) \<longleftrightarrow>
     msg_refers M m \<and> orders_below mx (msg_effect M m) \<and> feed_chain mx (msg_effect M m) ms"

definition routed :: "(order_id \<rightharpoonup> symbol) \<Rightarrow> (order_id \<rightharpoonup> order) \<Rightarrow> bool" where
  "routed R M \<longleftrightarrow> (\<forall>oid ord. M oid = Some ord \<longrightarrow> R oid = Some (o_symbol ord))"

lemma finite_msg_effect: "finite (dom M) \<Longrightarrow> finite (dom (msg_effect M m))"
  by (cases m) (simp_all add: Let_def del: fun_upd_apply)

lemma card_dom_upd: "finite (dom M) \<Longrightarrow> card (dom (M(k := x))) \<le> Suc (card (dom M))"
  by (cases x) (auto simp: card_insert_if intro: le_SucI card_Diff1_le order_trans)

lemma card_msg_effect:
  assumes "finite (dom M)" and "\<not> is_trade m"
  shows "card (dom (msg_effect M m)) \<le> Suc (card (dom M))"
  using assms by (cases m) (auto simp: is_trade_def simp del: fun_upd_apply dom_fun_upd intro: card_dom_upd)

lemma sum_where_le:
  assumes "finite (dom A)" and "\<And>k v. A k = Some v \<Longrightarrow> f v \<le> c"
  shows "sum_where A P f \<le> card (dom A) * c"
proof -
  have "sum_where A P f \<le> of_nat (card (dom A)) * c"
    unfolding sum_where_def using assms(2) by (intro sum_bounded_above) auto
  then show ?thesis
    by simp
qed

lemma orders_below_fits:
  assumes "finite (dom M)" and "orders_below mx M" and "card (dom M) * max 1 (unat mx) < 2 ^ 32"
  shows "book_fits (symb, orders_of M symb)"
proof -
  let ?A = "orders_of M symb"
  have sub: "dom ?A \<subseteq> dom M"
    by (auto simp: orders_of_def split: option.splits if_splits)
  then have fin: "finite (dom ?A)" and card: "card (dom ?A) \<le> card (dom M)"
    using assms(1) finite_subset card_mono by blast+
  have "o_remaining_quantity ord \<le> mx" if "?A k = Some ord" for k ord
    using that assms(2) by (auto simp: orders_of_def orders_below_def split: option.splits if_splits)
  then have "sum_where ?A P rem_qty \<le> card (dom ?A) * unat mx" for P
    using fin by (intro sum_where_le) (auto simp: word_le_nat_alt)
  moreover have "card (dom ?A) * unat mx \<le> card (dom M) * max 1 (unat mx)"
    using card by (intro mult_le_mono) auto
  moreover have "count_where ?A P \<le> card (dom ?A) * 1" for P
    unfolding count_where_def using fin by (intro sum_where_le) auto
  moreover have "card (dom ?A) * 1 \<le> card (dom M) * max 1 (unat mx)"
    using card by (intro mult_le_mono) auto
  ultimately show ?thesis
    using assms(3) unfolding book_fits_def level_fits_def by (auto intro: le_less_trans order_trans)
qed

lemma market_follows_message:
  assumes "msg_refers M m" and "\<not> is_trade m" and "routed R M" and "pe_message ev = m"
  shows "\<exists>symb. market_symbol R m = Some symb \<and> market_orders symb M m = msg_effect M m
    \<and> snd (market_step (R, M) (ev, now)) = (market_routing R m, msg_effect M m)
    \<and> routed (market_routing R m) (msg_effect M m)"
  using assms
  by (cases m) (auto simp: is_trade_def routed_def market_step_def market_orders_def take_quantity_def
      Let_def bind_eq_Some_conv fun_eq_iff split: if_splits)

lemma market_follows_feed:
  assumes "routed R M" and "finite (dom M)" and "feed_chain mx M (map (\<lambda>(ev, _). pe_message ev) evs)"
    and "\<forall>(ev, _) \<in> set evs. \<not> is_trade (pe_message ev)"
    and "(card (dom M) + length evs) * max 1 (unat mx) < 2 ^ 32"
  shows "run_ok market_ok market_step (R, M) evs
    \<and> snd (snd (run market_step (R, M) evs)) = foldl msg_effect M (map (\<lambda>(ev, _). pe_message ev) evs)"
  using assms
proof (induction evs arbitrary: R M)
  case (Cons e evs)
  obtain ev now where e: "e = (ev, now)" by force
  let ?m = "pe_message ev"
  let ?M = "msg_effect M ?m" and ?R = "market_routing R ?m"
  have m: "msg_refers M ?m" "\<not> is_trade ?m" "orders_below mx ?M" "feed_chain mx ?M (map (\<lambda>(ev, _). pe_message ev) evs)"
    using Cons.prems e by simp_all
  obtain symb where symb: "market_symbol R ?m = Some symb" "market_orders symb M ?m = ?M"
    "snd (market_step (R, M) (ev, now)) = (?R, ?M)" "routed ?R ?M"
    using market_follows_message [OF m(1,2) Cons.prems(1) refl] by blast
  have fin: "finite (dom ?M)"
    using Cons.prems(2) by (rule finite_msg_effect)
  have card: "card (dom ?M) \<le> Suc (card (dom M))"
    using Cons.prems(2) m(2) by (rule card_msg_effect)
  have le: "card (dom ?M) + length evs \<le> card (dom M) + length (e # evs)"
    using card by simp
  have room: "(card (dom ?M) + length evs) * max 1 (unat mx) < 2 ^ 32"
    using Cons.prems(5) mult_le_mono1 [OF le, of "max 1 (unat mx)"] by linarith
  then have "card (dom ?M) * max 1 (unat mx) < 2 ^ 32"
    using mult_le_mono1 [of "card (dom ?M)" "card (dom ?M) + length evs" "max 1 (unat mx)"] by linarith
  then have "book_fits (symb, orders_of ?M symb)"
    by (rule orders_below_fits [OF fin m(3)])
  then have "market_ok (R, M) (ev, now)"
    using m(1) symb(1,2) by (auto simp: market_ok_def Let_def)
  then show ?case
    using Cons.IH [OF symb(4) fin m(4) _ room] Cons.prems(4) symb(3) e
    by (auto simp: Let_def split_beta)
qed simp

lemma handler_follows_feed:
  assumes "feed_chain mx Map.empty (map (\<lambda>(ev, _). pe_message ev) evs)"
    and "\<forall>(ev, _) \<in> set evs. \<not> is_trade (pe_message ev)" and "length evs * max 1 (unat mx) < 2 ^ 32"
  shows "snd (abs_market (snd (run mgr_step book_manager_new evs))) =
    foldl msg_effect Map.empty (map (\<lambda>(ev, _). pe_message ev) evs)"
proof -
  have "abs_market book_manager_new = (Map.empty, Map.empty)"
    by (simp add: abs_market_def book_manager_new_def bm_route_def)
  then show ?thesis
    using market_follows_feed [of Map.empty Map.empty mx evs] assms mgr.run_refines [OF mgr_inv_new, of evs]
    by (simp add: routed_def)
qed

section \<open>Properties\<close>

text \<open>
  The handler does not follow a trade. A trade message the simulator makes takes its quantity off
  both orders in the simulator's book; the book manager leaves every order as it was, so after any
  trade that refers to live orders the two sides disagree about what is live.
\<close>

theorem trade_not_followed:
  assumes "mgr_inv m" and "msg_refers (snd (abs_market m)) (TradeMessage t)"
    and "market_ok (abs_market m) (\<lparr>pe_message = TradeMessage t, pe_receive_timestamp = ts\<rparr>, now)"
  shows "let m' = snd (bm_process m \<lparr>pe_message = TradeMessage t, pe_receive_timestamp = ts\<rparr> now)
    in snd (abs_market m') = snd (abs_market m)
     \<and> msg_effect (snd (abs_market m)) (TradeMessage t) (tm_buy_order_id t) \<noteq> snd (abs_market m') (tm_buy_order_id t)
     \<and> msg_effect (snd (abs_market m)) (TradeMessage t) (tm_sell_order_id t) \<noteq> snd (abs_market m') (tm_sell_order_id t)"
proof -
  let ?M = "snd (abs_market m)" and ?ev = "\<lparr>pe_message = TradeMessage t, pe_receive_timestamp = ts\<rparr>"
  obtain bid ask where M: "?M (tm_buy_order_id t) = Some bid" "o_side bid = Side_Buy"
    "?M (tm_sell_order_id t) = Some ask" "o_side ask = Side_Sell" "tm_quantity t \<noteq> 0"
    using assms(2) by auto
  have change: "take_quantity (tm_quantity t) ord \<noteq> Some ord" for ord
  proof
    assume "take_quantity (tm_quantity t) ord = Some ord"
    then have "ord\<lparr>o_remaining_quantity := o_remaining_quantity ord - tm_quantity t\<rparr> = ord"
      by (simp add: take_quantity_def split: if_splits)
    from arg_cong [OF this, of o_remaining_quantity] show False
      using M(5) by simp
  qed
  have "abs_market (snd (mgr_step m (?ev, now))) = snd (market_step (abs_market m) (?ev, now))"
    using mgr.step [OF assms(1,3)] by simp
  then have "snd (abs_market (snd (bm_process m ?ev now))) = ?M"
    by (simp add: mgr_step_def market_step_def market_orders_def Let_def split_beta)
  moreover have "tm_buy_order_id t \<noteq> tm_sell_order_id t"
    using M by auto
  ultimately show ?thesis
    using M change by (simp add: Let_def)
qed

definition two_orders :: "(parsed_event \<times> u64) list" where
  "two_orders = map (\<lambda>m. (\<lparr>pe_message = m, pe_receive_timestamp = 0\<rparr>, 0))
     [AddOrder \<lparr>ao_order_id = 1, ao_side = Side_Buy, ao_symbol = symbol_default, ao_price = 100, ao_quantity = 10\<rparr>,
      AddOrder \<lparr>ao_order_id = 2, ao_side = Side_Sell, ao_symbol = symbol_default, ao_price = 90, ao_quantity = 10\<rparr>]"

definition two_trade :: trade_message where
  "two_trade = \<lparr>tm_symbol = symbol_default, tm_price = 90, tm_quantity = 10, tm_buy_order_id = 1, tm_sell_order_id = 2\<rparr>"

theorem trade_not_followed_witness:
  "let m = snd (run mgr_step book_manager_new two_orders);
       m' = snd (bm_process m \<lparr>pe_message = TradeMessage two_trade, pe_receive_timestamp = 3\<rparr> 4)
   in msg_effect (snd (abs_market m)) (TradeMessage two_trade) 1 \<noteq> snd (abs_market m') 1"
proof -
  let ?m = "snd (run mgr_step book_manager_new two_orders)"
  let ?evs = "map (\<lambda>(ev, _). pe_message ev) two_orders"
  have chain: "feed_chain 10 Map.empty ?evs" "\<forall>(ev, _) \<in> set two_orders. \<not> is_trade (pe_message ev)"
    by (simp_all add: two_orders_def orders_below_def is_trade_def)
  have abs: "abs_market book_manager_new = (Map.empty, Map.empty)"
    by (simp add: abs_market_def book_manager_new_def bm_route_def)
  have ok: "run_ok market_ok market_step (Map.empty, Map.empty) two_orders"
    using market_follows_feed [of Map.empty Map.empty 10 two_orders] chain by (simp add: routed_def two_orders_def)
  have M: "snd (abs_market ?m) = foldl msg_effect Map.empty ?evs"
    using handler_follows_feed [OF chain] by (simp add: two_orders_def)
  have inv: "mgr_inv ?m"
    using mgr.run_refines [OF mgr_inv_new, of two_orders] ok abs by simp
  have refers: "msg_refers (snd (abs_market ?m)) (TradeMessage two_trade)"
    unfolding M by (simp add: two_orders_def two_trade_def)
  have below: "orders_below 10 (snd (abs_market ?m))" "finite (dom (snd (abs_market ?m)))"
    "card (dom (snd (abs_market ?m))) = 2"
    unfolding M by (simp_all add: two_orders_def orders_below_def)
  have "market_ok (abs_market ?m) (\<lparr>pe_message = TradeMessage two_trade, pe_receive_timestamp = 3\<rparr>, 4)"
    using orders_below_fits [OF below(2,1)] below(3) by (simp add: market_ok_def market_orders_def split_beta Let_def)
  note differs = trade_not_followed [OF inv refers this]
  have "tm_buy_order_id two_trade = 1"
    by (simp add: two_trade_def)
  then show ?thesis
    using differs unfolding Let_def by metis
qed

end
