(* ===== verification/Market_Simulator.thy ===== *)
theory Market_Simulator
  imports Sim_Feed
begin

text \<open>
  The run of the market simulator (\<open>simulator/market_simulator.{hpp,cpp}\<close>): regime and news move the
  price walks, the generator makes a message when its time has come, the batcher packs the messages
  into datagrams and the sender gets them.

  The readings of the steady clock at the head of the loop are a list of times in nanoseconds; it
  ends where \<open>stop\<close> is seen. The sender is the list of datagrams sent. The matching engine is
  constructed by the simulator and never called.
\<close>

section \<open>State and operations\<close>

record ('d, 'r, 'g) market_sim =
  ms_generator :: "('d, 'r, 'g) order_generator"
  ms_base_volatilities :: "'d list"
  ms_volatility_regime :: "('d, 'r) volatility_regime"
  ms_news_generator :: "('d, 'r) news_generator"
  ms_batcher :: batcher
  ms_sent :: "bytes list"
  ms_encode_buf :: bytes
  ms_messages_sent :: u64
  ms_next_send :: int

record 'd symbol_config =
  sc_name :: bytes
  sc_start_price :: 'd
  sc_volatility :: 'd
  sc_tick_size :: 'd

definition market_sim_new ::
  "'d fp \<Rightarrow> 'd symbol_config list \<Rightarrow> (nat \<Rightarrow> 'r) \<Rightarrow> 'g \<Rightarrow> 'd regime_config \<Rightarrow> 'd news_config \<Rightarrow> bytes \<Rightarrow> int
     \<Rightarrow> ('d, 'r, 'g) market_sim" where
  "market_sim_new fp symbols seeded rng rcfg ncfg stack start =
     \<lparr>ms_generator = order_generator_new (map (\<lambda>s. symbol_of_cstr (sc_name s)) symbols)
        (map (\<lambda>s. price_walk_new fp (sc_start_price s) (sc_volatility s) (sc_tick_size s) (seeded 0)) symbols)
        rng generator_config_default,
      ms_base_volatilities = map sc_volatility symbols,
      ms_volatility_regime = volatility_regime_new (seeded 100) rcfg,
      ms_news_generator = news_generator_new (seeded 200) (length symbols) ncfg,
      ms_batcher = batcher_new MAX_DATAGRAM, ms_sent = [], ms_encode_buf = stack,
      ms_messages_sent = 0, ms_next_send = start\<rparr>"

text \<open>\<open>price_walks_\<close> and \<open>base_volatilities_\<close> have the same length by construction.\<close>

definition set_volatilities ::
  "'d fp \<Rightarrow> 'd \<Rightarrow> 'd list \<Rightarrow> ('d, 'r) price_walk list \<Rightarrow> ('d, 'r) price_walk list" where
  "set_volatilities fp vol_mult base walks =
     map (\<lambda>(w, v). set_volatility (fp_mul fp v vol_mult) w) (zip walks base)"

definition apply_news_event ::
  "'d sim_math \<Rightarrow> 'd news_event \<Rightarrow> ('d, 'r) price_walk list \<Rightarrow> ('d, 'r) price_walk list" where
  "apply_news_event mt event walks =
     (if ne_scope event = Systemic then map (apply_jump mt (ne_price_jump event)) walks
      else if ne_symbol_index event < length walks
      then walks[ne_symbol_index event := apply_jump mt (ne_price_jump event) (walks ! ne_symbol_index event)]
      else walks)"

record ('d, 'r, 'g) sim_env =
  se_math :: "'d sim_math"
  se_normal :: "'r \<Rightarrow> 'd \<times> 'r"
  se_uniform :: "'r \<Rightarrow> 'd \<times> 'r"
  se_news :: "('d, 'r) news_random"
  se_random :: "'g sim_random"

text \<open>The part of a round before the rate limit.\<close>

definition move_market :: "('d, 'r, 'g) sim_env \<Rightarrow> ('d, 'r, 'g) market_sim \<Rightarrow> ('d, 'r, 'g) market_sim" where
  "move_market en ms =
     (let fp = sm_fp (se_math en);
          regime = regime_update fp (se_uniform en) (ms_volatility_regime ms);
          og = ms_generator ms;
          walks = set_volatilities fp (volatility_multiplier regime) (ms_base_volatilities ms) (og_price_walks og);
          (event, news) = news_check fp (se_news en) (ms_news_generator ms);
          walks = (case event of None \<Rightarrow> walks | Some e \<Rightarrow> apply_news_event (se_math en) e walks)
      in ms\<lparr>ms_generator := og\<lparr>og_price_walks := walks\<rparr>, ms_volatility_regime := regime,
            ms_news_generator := news\<rparr>)"

definition effective_interval :: "'d fp \<Rightarrow> int \<Rightarrow> 'd \<Rightarrow> int" where
  "effective_interval fp interval_ns rate_mult =
     (if fp_less fp (fp_zero fp) rate_mult
      then fp_trunc fp (fp_div fp (fp_of_int fp interval_ns) rate_mult) else interval_ns)"

definition sim_round ::
  "('d, 'r, 'g) sim_env \<Rightarrow> int \<Rightarrow> int \<Rightarrow> ('d, 'r, 'g) market_sim \<Rightarrow> ('d, 'r, 'g) market_sim option" where
  "sim_round en interval_ns now ms =
     (let ms = move_market en ms;
          step = effective_interval (sm_fp (se_math en)) interval_ns (rate_multiplier (ms_volatility_regime ms))
      in if now < ms_next_send ms then Some ms
         else case gen_next (se_math en) (se_normal en) (se_random en) (ms_encode_buf ms)
                     (length (ms_encode_buf ms)) (ms_generator ms) of
           None \<Rightarrow> None
         | Some (n, buf, og) \<Rightarrow>
             let ms = ms\<lparr>ms_generator := og, ms_encode_buf := buf, ms_next_send := ms_next_send ms + step\<rparr>
             in if n = 0 then Some ms
                else (case add_and_flush (\<lambda>s d. s @ [d]) (ms_batcher ms) (Some (take n buf)) (ms_sent ms) of
                        None \<Rightarrow> None
                      | Some (_, b, sent) \<Rightarrow>
                          Some (ms\<lparr>ms_batcher := b, ms_sent := sent,
                                   ms_messages_sent := ms_messages_sent ms + 1\<rparr>)))"

fun sim_loop ::
  "('d, 'r, 'g) sim_env \<Rightarrow> int \<Rightarrow> int \<Rightarrow> int list \<Rightarrow> ('d, 'r, 'g) market_sim \<Rightarrow> ('d, 'r, 'g) market_sim option" where
  "sim_loop en interval_ns end_time [] ms = Some ms"
| "sim_loop en interval_ns end_time (now # nows) ms =
     (if end_time \<le> now then Some ms
      else case sim_round en interval_ns now ms of
        None \<Rightarrow> None
      | Some ms' \<Rightarrow> sim_loop en interval_ns end_time nows ms')"

definition msg_interval :: "u32 \<Rightarrow> int" where
  "msg_interval msg_rate = (if 0 < msg_rate then 1000000000 div uint msg_rate else 0)"

definition sim_run ::
  "('d, 'r, 'g) sim_env \<Rightarrow> u32 \<Rightarrow> int \<Rightarrow> int list \<Rightarrow> ('d, 'r, 'g) market_sim \<Rightarrow> ('d, 'r, 'g) market_sim option" where
  "sim_run en msg_rate end_time nows ms =
     (case sim_loop en (msg_interval msg_rate) end_time nows ms of
        None \<Rightarrow> None
      | Some ms \<Rightarrow>
          (case flush_cb (\<lambda>s d. s @ [d]) (ms_batcher ms) (ms_sent ms) of
             None \<Rightarrow> None
           | Some (b, sent) \<Rightarrow> Some (ms\<lparr>ms_batcher := b, ms_sent := sent\<rparr>)))"

section \<open>What a run sends\<close>

lemma feed_chain_snoc:
  "feed_chain mx M (ms @ [m]) \<longleftrightarrow> feed_chain mx M ms \<and> msg_refers (foldl msg_effect M ms) m
     \<and> orders_below mx (msg_effect (foldl msg_effect M ms) m)"
  by (induction ms arbitrary: M) auto

lemma send_encoded: "send_all (batcher_new MAX_DATAGRAM) (encoded msgs) [] \<noteq> None"
  by (rule send_all_new [OF _ _ encoded_framed, of msgs])
    (auto simp: BATCH_HEADER_SIZE_def MAX_DATAGRAM_def)

text \<open>
  The state after some rounds, in terms of the messages sent so far: the batcher and the datagrams
  are those of sending the messages, and the generator's live orders are what the messages made.
\<close>

definition sim_holds :: "('d, 'r, 'g) market_sim \<Rightarrow> (parsed_message \<times> timestamp) list \<Rightarrow> bool" where
  "sim_holds ms msgs \<longleftrightarrow>
     (\<forall>rest. send_all (batcher_new MAX_DATAGRAM) (encoded msgs @ rest) [] =
        send_all (ms_batcher ms) rest (ms_sent ms))
     \<and> gen_inv (ms_generator ms)
     \<and> gen_live (ms_generator ms) = foldl msg_effect Map.empty (map fst msgs)
     \<and> feed_chain (gc_max_qty (og_config (ms_generator ms))) Map.empty (map fst msgs)
     \<and> length (ms_encode_buf ms) = MAX_DATAGRAM
     \<and> length (ms_base_volatilities ms) = length (og_price_walks (ms_generator ms))
     \<and> unat (og_next_order_id (ms_generator ms)) \<le> Suc (length msgs)
     \<and> ms_messages_sent ms = of_nat (length msgs)"

lemma length_apply_news [simp]: "length (apply_news_event mt e walks) = length walks"
  by (simp add: apply_news_event_def)

lemma move_market_same:
  assumes "length (ms_base_volatilities ms) = length (og_price_walks (ms_generator ms))"
  shows "\<exists>walks regime news. length walks = length (og_price_walks (ms_generator ms)) \<and> move_market en ms =
    ms\<lparr>ms_generator := (ms_generator ms)\<lparr>og_price_walks := walks\<rparr>, ms_volatility_regime := regime,
       ms_news_generator := news\<rparr>"
proof -
  let ?fp = "sm_fp (se_math en)"
  let ?regime = "regime_update ?fp (se_uniform en) (ms_volatility_regime ms)"
  obtain event news where n: "news_check ?fp (se_news en) (ms_news_generator ms) = (event, news)" by force
  define walks where "walks = (let ws = set_volatilities ?fp (volatility_multiplier ?regime)
      (ms_base_volatilities ms) (og_price_walks (ms_generator ms))
    in case event of None \<Rightarrow> ws | Some e \<Rightarrow> apply_news_event (se_math en) e ws)"
  have "length walks = length (og_price_walks (ms_generator ms))"
    using assms by (simp add: walks_def set_volatilities_def Let_def split: option.split)
  moreover have "move_market en ms = ms\<lparr>ms_generator := (ms_generator ms)\<lparr>og_price_walks := walks\<rparr>,
      ms_volatility_regime := ?regime, ms_news_generator := news\<rparr>"
    by (simp add: move_market_def n walks_def Let_def)
  ultimately show ?thesis
    by blast
qed

lemma sim_holds_move:
  assumes "sim_holds ms msgs"
  shows "sim_holds (move_market en ms) msgs"
proof -
  have "length (ms_base_volatilities ms) = length (og_price_walks (ms_generator ms))"
    using assms by (simp add: sim_holds_def)
  then obtain walks regime news where
    "length walks = length (og_price_walks (ms_generator ms))"
    "move_market en ms = ms\<lparr>ms_generator := (ms_generator ms)\<lparr>og_price_walks := walks\<rparr>,
       ms_volatility_regime := regime, ms_news_generator := news\<rparr>"
    using move_market_same by blast
  then show ?thesis
    using assms by (simp add: sim_holds_def gen_inv_def gen_live_def fun_eq_iff)
qed

lemma sim_round_holds:
  assumes holds: "sim_holds ms msgs" and rnd: "random_ok (se_random en)" and room: "Suc (length msgs) < 2 ^ 64 - 1"
  shows "\<exists>ms' msgs'. sim_round en interval_ns now ms = Some ms' \<and> sim_holds ms' msgs'
    \<and> length msgs' \<le> Suc (length msgs) \<and> og_config (ms_generator ms') = og_config (ms_generator ms)"
proof -
  let ?ms = "move_market en ms"
  have config: "og_config (ms_generator ?ms) = og_config (ms_generator ms)"
    by (simp add: move_market_def Let_def split_beta)
  have H: "sim_holds ?ms msgs"
    using holds by (rule sim_holds_move)
  show ?thesis
  proof (cases "now < ms_next_send ?ms")
    case True
    then show ?thesis
      using H config by (auto simp: sim_round_def Let_def)
  next
    case False
    let ?og = "ms_generator ?ms" and ?buf = "ms_encode_buf ?ms"
    have inv: "gen_inv ?og" and len: "length ?buf = MAX_DATAGRAM" and ids: "unat (og_next_order_id ?og) \<le> Suc (length msgs)"
      using H by (simp_all add: sim_holds_def)
    have next_id: "og_next_order_id ?og \<noteq> - 1"
      using ids room by (auto simp: unsigned_minus_1_eq_mask mask_eq_exp_minus_1)
    have "gen_ok ?og ?buf (gen_next (se_math en) (se_normal en) (se_random en) ?buf (length ?buf) ?og)"
      using len by (intro gen_next_ok [OF inv rnd next_id]) (simp_all add: MAX_DATAGRAM_def)
    then obtain msg ts og where
      gen: "gen_next (se_math en) (se_normal en) (se_random en) ?buf (length ?buf) ?og =
        Some (msg_WIRE_SIZE msg, wire msg ts @ drop (msg_WIRE_SIZE msg) ?buf, og)"
      and msg: "msg_refers (gen_live ?og) msg" "gen_live og = msg_effect (gen_live ?og) msg" "gen_inv og"
        "og_config og = og_config ?og" "og_symbols og = og_symbols ?og" "og_next_order_id og \<in> {og_next_order_id ?og, og_next_order_id ?og + 1}"
      unfolding gen_ok_def by blast
    note og_same = msg(4,5)
    let ?msgs = "msgs @ [(msg, ts)]"
    have send: "send_all (batcher_new MAX_DATAGRAM) (encoded ?msgs @ rest) [] =
        send_all (ms_batcher ?ms) (wire msg ts # rest) (ms_sent ?ms)" for rest
      using H unfolding sim_holds_def by (simp add: encoded_def)
    have "send_all (ms_batcher ?ms) [wire msg ts] (ms_sent ?ms) \<noteq> None"
      using send [of "[]"] send_encoded [of ?msgs] by simp
    then obtain ok b sent where add: "add_and_flush (\<lambda>s d. s @ [d]) (ms_batcher ?ms) (Some (wire msg ts)) (ms_sent ?ms)
        = Some (ok, b, sent)"
      by (auto split: option.splits)
    have below: "orders_below (gc_max_qty (og_config ?og)) (gen_live og)"
      using gen_invD(7) [OF msg(3)] msg(4) by (auto simp: orders_below_def gen_live_def)
    have "unat (og_next_order_id ?og + 1) \<le> Suc (unat (og_next_order_id ?og))"
      using next_id word_less_plus_1 unatSuc [of "og_next_order_id ?og"] by (simp add: add.commute eq_neg_iff_add_eq_0)
    then have ids': "unat (og_next_order_id og) \<le> Suc (length ?msgs)"
      using msg(6) ids by auto
    have wire: "0 < msg_WIRE_SIZE msg" "msg_WIRE_SIZE msg \<le> MAX_DATAGRAM"
      using wire_size_bounds [of msg] by (simp_all add: MAX_DATAGRAM_def)
    let ?ms' = "?ms\<lparr>ms_generator := og, ms_encode_buf := wire msg ts @ drop (msg_WIRE_SIZE msg) ?buf,
      ms_next_send := ms_next_send ?ms + effective_interval (sm_fp (se_math en)) interval_ns
        (rate_multiplier (ms_volatility_regime ?ms)),
      ms_batcher := b, ms_sent := sent, ms_messages_sent := ms_messages_sent ?ms + 1\<rparr>"
    have "sim_round en interval_ns now ms = Some ?ms'"
      using False gen add wire(1) by (simp add: sim_round_def Let_def)
    moreover have "sim_holds ?ms' ?msgs"
      using H msg below ids' send add wire len
      by (simp add: sim_holds_def feed_chain_snoc gen_inv_def)
    ultimately show ?thesis
      using msg(4) config by fastforce
  qed
qed

lemma sim_loop_holds:
  assumes "sim_holds ms msgs" and "random_ok (se_random en)" and "Suc (length msgs + length nows) < 2 ^ 64 - 1"
  shows "\<exists>ms' msgs'. sim_loop en interval_ns end_time nows ms = Some ms' \<and> sim_holds ms' msgs'
    \<and> length msgs' \<le> length msgs + length nows \<and> og_config (ms_generator ms') = og_config (ms_generator ms)"
  using assms
proof (induction nows arbitrary: ms msgs)
  case (Cons now nows)
  have "Suc (length msgs) < 2 ^ 64 - 1"
    using Cons.prems(3) by simp
  from sim_round_holds [OF Cons.prems(1,2) this, of interval_ns now]
  obtain ms' msgs' where r: "sim_round en interval_ns now ms = Some ms'" "sim_holds ms' msgs'"
    "length msgs' \<le> Suc (length msgs)" "og_config (ms_generator ms') = og_config (ms_generator ms)"
    by blast
  have "Suc (length msgs' + length nows) < 2 ^ 64 - 1"
    using Cons.prems(3) r(3) by simp
  from Cons.IH [OF r(2) Cons.prems(2) this] obtain ms2 msgs2 where
    "sim_loop en interval_ns end_time nows ms' = Some ms2" "sim_holds ms2 msgs2"
    "length msgs2 \<le> length msgs' + length nows" "og_config (ms_generator ms2) = og_config (ms_generator ms')"
    by blast
  then show ?case
    using r Cons.prems(1) by (cases "end_time \<le> now") force+
qed (use le_refl in force)

lemma sim_holds_new:
  assumes "symbols \<noteq> []" and "length stack = MAX_DATAGRAM"
  shows "sim_holds (market_sim_new fp symbols seeded rng rcfg ncfg stack start) []"
  using assms
  by (simp add: sim_holds_def market_sim_new_def order_generator_new_def encoded_def gen_inv_def
      gen_live_def generator_config_default_def fun_eq_iff)

lemma sim_run_sends:
  assumes "symbols \<noteq> []" and "random_ok (se_random en)" and "length stack = MAX_DATAGRAM"
    and "length nows < 2 ^ 64 - 2"
  shows "\<exists>ms msgs. sim_run en msg_rate end_time nows
        (market_sim_new (sm_fp (se_math en)) symbols seeded rng rcfg ncfg stack start) = Some ms
    \<and> send_all (batcher_new MAX_DATAGRAM) (encoded msgs) [] = Some (ms_batcher ms, ms_sent ms)
    \<and> feed_chain 1000 Map.empty (map fst msgs)
    \<and> gen_live (ms_generator ms) = foldl msg_effect Map.empty (map fst msgs)
    \<and> ms_messages_sent ms = of_nat (length msgs) \<and> length msgs \<le> length nows"
proof -
  let ?ms0 = "market_sim_new (sm_fp (se_math en)) symbols seeded rng rcfg ncfg stack start"
  have init: "sim_holds ?ms0 []"
    using assms(1,3) by (rule sim_holds_new)
  have "Suc (length ([] :: (parsed_message \<times> timestamp) list) + length nows) < 2 ^ 64 - 1"
    using assms(4) by simp
  from sim_loop_holds [OF init assms(2) this, of "msg_interval msg_rate" end_time] obtain ms msgs where
    loop: "sim_loop en (msg_interval msg_rate) end_time nows ?ms0 = Some ms" "sim_holds ms msgs"
    "length msgs \<le> length nows" "og_config (ms_generator ms) = og_config (ms_generator ?ms0)"
    by auto
  have "send_all (batcher_new MAX_DATAGRAM) (encoded msgs) [] = flush_cb (\<lambda>s d. s @ [d]) (ms_batcher ms) (ms_sent ms)"
    using loop(2) unfolding sim_holds_def by (metis append_Nil2 send_all.simps(1))
  moreover from this obtain b sent where "flush_cb (\<lambda>s d. s @ [d]) (ms_batcher ms) (ms_sent ms) = Some (b, sent)"
    using send_encoded [of msgs] by auto
  moreover have "gc_max_qty (og_config (ms_generator ms)) = 1000"
    using loop(4) by (simp add: market_sim_new_def order_generator_new_def generator_config_default_def)
  ultimately show ?thesis
    using loop
    by (intro exI [of _ "ms\<lparr>ms_batcher := b, ms_sent := sent\<rparr>"] exI [of _ msgs])
      (simp add: sim_run_def sim_holds_def)
qed

section \<open>Properties\<close>

text \<open>
  The simulator emits a consistent feed. A run over any readings of the clock and any random
  numbers never leaves its buffers, and what it sends is exactly a batch of encoded messages in which
  every add has a new id, every cancel, execution, replacement and trade refers to orders that are
  live at that point, with quantities that fit them; the simulator's own book is what these messages
  make of the empty book.
\<close>

theorem sim_run_consistent_feed:
  assumes "symbols \<noteq> []" and "random_ok (se_random en)" and "length stack = MAX_DATAGRAM"
    and "length nows < 2 ^ 64 - 2"
  shows "\<exists>ms msgs. sim_run en msg_rate end_time nows
        (market_sim_new (sm_fp (se_math en)) symbols seeded rng rcfg ncfg stack start) = Some ms
    \<and> send_all (batcher_new MAX_DATAGRAM) (encoded msgs) [] = Some (ms_batcher ms, ms_sent ms)
    \<and> feed_chain 1000 Map.empty (map fst msgs)
    \<and> gen_live (ms_generator ms) = foldl msg_effect Map.empty (map fst msgs)
    \<and> ms_messages_sent ms = of_nat (length msgs)"
  using sim_run_sends [OF assms] by blast

text \<open>An environment whose draws are the least the bounds allow.\<close>

definition least_random :: "nat \<Rightarrow> unit sim_random" where
  "least_random kind = \<lparr>rnd_type = Pair kind, rnd_index = (\<lambda>lo hi g. (lo, g)),
     rnd_quantity = (\<lambda>lo hi g. (lo, g)), rnd_clock = Pair 7, rnd_arrange = (\<lambda>_ es. es)\<rparr>"

lemma least_random_ok: "random_ok (least_random kind)"
  by (simp add: random_ok_def least_random_def)

definition quiet_env :: "nat \<Rightarrow> (real, unit, unit) sim_env" where
  "quiet_env kind = \<lparr>se_math = exact_math, se_normal = Pair 0, se_uniform = Pair 1,
     se_news = \<lparr>nr_uniform = Pair 1, nr_magnitude = Pair Small, nr_index = (\<lambda>lo hi g. (lo, g))\<rparr>,
     se_random = least_random kind\<rparr>"

definition plain_regime :: "real regime_config" where
  "plain_regime = \<lparr>rc_matrix = (\<lambda>_ _. 0), rc_params = (\<lambda>_. \<lparr>rp_volatility_multiplier = 1, rp_rate_multiplier = 1\<rparr>),
     rc_check_interval = 1000\<rparr>"

definition plain_news :: "real news_config" where
  "plain_news = \<lparr>nc_event_probability = 0, nc_check_interval = 500, nc_jump = (\<lambda>_. 0), nc_systemic_prob = 0\<rparr>"

definition plain_symbol :: "real symbol_config" where
  "plain_symbol = \<lparr>sc_name = [65], sc_start_price = 100, sc_volatility = 1, sc_tick_size = 1 / 100\<rparr>"

theorem sim_run_consistent_feed_witness:
  "\<exists>ms (msgs :: (parsed_message \<times> timestamp) list). sim_run (quiet_env 2) 1000 10000000 [0, 1000000, 2000000]
      (market_sim_new (sm_fp (se_math (quiet_env 2))) [plain_symbol] (\<lambda>_. ()) () plain_regime plain_news
        (replicate MAX_DATAGRAM 0) 0) = Some ms
    \<and> feed_chain 1000 Map.empty (map fst msgs)
    \<and> gen_live (ms_generator ms) = foldl msg_effect Map.empty (map fst msgs)"
proof -
  have "random_ok (se_random (quiet_env 2))"
    using least_random_ok by (simp add: quiet_env_def)
  from sim_run_consistent_feed [OF _ this, where symbols = "[plain_symbol]" and stack = "replicate MAX_DATAGRAM 0"
      and nows = "[0, 1000000, 2000000]" and msg_rate = 1000 and end_time = 10000000 and seeded = "\<lambda>_. ()"
      and rng = "()" and rcfg = plain_regime and ncfg = plain_news and start = 0]
  show ?thesis
    by simp blast
qed

end
