(* ===== verification/Risk_Limits.thy ===== *)
theory Risk_Limits
  imports Position Strategy_Types State_Transitions Decimal
begin

text \<open>
  The pre-trade limits (\<open>risk/limits\<close>) and their orchestration (\<open>risk/pre_trade_risk.{hpp,cpp}\<close>).

  Doubles are those of an arbitrary arithmetic, and the text an \<open>ostringstream\<close> makes of one is the
  argument \<open>sd\<close>. The positions a check iterates over, \<open>keys\<close>, are the keys of the position map in
  the order of iteration; \<open>pkeys\<close> are those of the profit and loss map. Logging is left out.
\<close>

section \<open>Results\<close>

datatype risk_check =
    PositionLimit
  | NotionalLimit
  | LossLimit
  | OrderRateLimit
  | ConcentrationLimit
  | PnLWarning
  | ExposureLimit

fun risk_check_to_string :: "risk_check \<Rightarrow> string" where
  "risk_check_to_string PositionLimit = ''PositionLimit''"
| "risk_check_to_string NotionalLimit = ''NotionalLimit''"
| "risk_check_to_string LossLimit = ''LossLimit''"
| "risk_check_to_string OrderRateLimit = ''OrderRateLimit''"
| "risk_check_to_string ConcentrationLimit = ''ConcentrationLimit''"
| "risk_check_to_string PnLWarning = ''PnLWarning''"
| "risk_check_to_string ExposureLimit = ''ExposureLimit''"

record 'd risk_result =
  rr_check_type :: risk_check
  rr_passed :: bool
  rr_current_value :: 'd
  rr_limit_value :: 'd
  rr_message :: string

record 'd exposure =
  ex_net :: 'd
  ex_gross :: 'd
  ex_per_symbol :: "u64 \<rightharpoonup> 'd"

definition exposure_new :: "'d fp \<Rightarrow> 'd exposure" where
  "exposure_new fp = \<lparr>ex_net = fp_zero fp, ex_gross = fp_zero fp, ex_per_symbol = Map.empty\<rparr>"

text \<open>A position is read as the signed 64 bit integer it is.\<close>

definition signed_delta :: "decision \<Rightarrow> u64" where
  "signed_delta d = (if dec_side d = Side_Buy then ucast (dec_quantity d) else - ucast (dec_quantity d))"

definition abs_i64 :: "u64 \<Rightarrow> u64" where
  "abs_i64 w = (if w <s 0 then - w else w)"

definition fp_of_i64 :: "'d fp \<Rightarrow> u64 \<Rightarrow> 'd" where
  "fp_of_i64 fp w = fp_of_int fp (sint w)"

section \<open>Position limit\<close>

record position_limit =
  pos_global_max :: u64
  pos_symbol_limits :: "u64 \<rightharpoonup> u64"

definition position_limit_new :: "u64 \<Rightarrow> position_limit" where
  "position_limit_new global_max = \<lparr>pos_global_max = global_max, pos_symbol_limits = Map.empty\<rparr>"

definition position_set_symbol_limit :: "symbol \<Rightarrow> u64 \<Rightarrow> position_limit \<Rightarrow> position_limit" where
  "position_set_symbol_limit sy max_shares l =
     l\<lparr>pos_symbol_limits := (pos_symbol_limits l)(as_key sy \<mapsto> max_shares)\<rparr>"

definition position_limit_for :: "position_limit \<Rightarrow> u64 \<Rightarrow> u64" where
  "position_limit_for l key = (case pos_symbol_limits l key of Some x \<Rightarrow> x | None \<Rightarrow> pos_global_max l)"

definition position_check :: "'d fp \<Rightarrow> decision \<Rightarrow> 'd portfolio \<Rightarrow> position_limit \<Rightarrow> 'd risk_result" where
  "position_check fp d pf l =
     (let key = as_key (dec_symbol d);
          current_pos = position_get (pf_positions pf) (dec_symbol d);
          proposed_pos = current_pos + signed_delta d;
          abs_proposed = abs_i64 proposed_pos;
          max_shares = position_limit_for l key;
          passed = (abs_proposed \<le>s max_shares)
      in \<lparr>rr_check_type = PositionLimit, rr_passed = passed, rr_current_value = fp_of_i64 fp abs_proposed,
          rr_limit_value = fp_of_i64 fp max_shares,
          rr_message = (if passed then [] else ''Position limit breached for symbol: |''
            @ show_int (sint abs_proposed) @ ''| > '' @ show_int (sint max_shares))\<rparr>)"

section \<open>Notional limit\<close>

record 'd notional_limit =
  ntl_global_max :: 'd
  ntl_symbol_limits :: "u64 \<rightharpoonup> 'd"

definition notional_limit_new :: "'d \<Rightarrow> 'd notional_limit" where
  "notional_limit_new global_max = \<lparr>ntl_global_max = global_max, ntl_symbol_limits = Map.empty\<rparr>"

definition notional_set_symbol_limit :: "symbol \<Rightarrow> 'd \<Rightarrow> 'd notional_limit \<Rightarrow> 'd notional_limit" where
  "notional_set_symbol_limit sy max_dollars l =
     l\<lparr>ntl_symbol_limits := (ntl_symbol_limits l)(as_key sy \<mapsto> max_dollars)\<rparr>"

definition notional_limit_for :: "'d notional_limit \<Rightarrow> u64 \<Rightarrow> 'd" where
  "notional_limit_for l key = (case ntl_symbol_limits l key of Some x \<Rightarrow> x | None \<Rightarrow> ntl_global_max l)"

text \<open>
  The gross exposure over all positions that the code also adds up, and the notional of the order
  itself, do not enter the result.
\<close>

definition notional_check ::
  "'d fp \<Rightarrow> ('d \<Rightarrow> string) \<Rightarrow> decision \<Rightarrow> 'd portfolio \<Rightarrow> price \<Rightarrow> 'd notional_limit \<Rightarrow> 'd risk_result" where
  "notional_check fp sd d pf reference_price l =
     (let key = as_key (dec_symbol d);
          current_pos = position_get (pf_positions pf) (dec_symbol d);
          proposed_pos = current_pos + signed_delta d;
          price_dbl = price_to_double fp reference_price;
          proposed_notional = fp_mul fp (fp_abs fp (fp_of_i64 fp proposed_pos)) price_dbl;
          max_dollars = notional_limit_for l key;
          passed = fp_le fp proposed_notional max_dollars
      in \<lparr>rr_check_type = NotionalLimit, rr_passed = passed, rr_current_value = proposed_notional,
          rr_limit_value = max_dollars,
          rr_message = (if passed then [] else ''Notional limit breached: $'' @ sd proposed_notional
            @ '' > $'' @ sd max_dollars)\<rparr>)"

definition add_exposure :: "'d fp \<Rightarrow> (u64 \<rightharpoonup> price) \<Rightarrow> position_tracker \<Rightarrow> 'd exposure \<Rightarrow> u64 \<Rightarrow> 'd exposure" where
  "add_exposure fp prices positions e key =
     (case (positions key, prices key) of
        (Some pos, Some p) \<Rightarrow>
          let notional = fp_mul fp (fp_of_i64 fp pos) (price_to_double fp p)
          in e\<lparr>ex_per_symbol := (ex_per_symbol e)(key \<mapsto> notional), ex_net := fp_add fp (ex_net e) notional,
               ex_gross := fp_add fp (ex_gross e) (fp_abs fp notional)\<rparr>
      | _ \<Rightarrow> e)"

definition compute_exposure ::
  "'d fp \<Rightarrow> u64 list \<Rightarrow> 'd portfolio \<Rightarrow> (u64 \<rightharpoonup> price) \<Rightarrow> 'd exposure" where
  "compute_exposure fp keys pf prices = foldl (add_exposure fp prices (pf_positions pf)) (exposure_new fp) keys"

section \<open>Loss limit\<close>

record 'd loss_limit =
  ll_max_daily_loss :: 'd
  ll_reset_interval_ns :: u64
  ll_running_pnl :: 'd
  ll_last_reset_ts :: u64

definition loss_limit_new :: "'d fp \<Rightarrow> 'd \<Rightarrow> u64 \<Rightarrow> 'd loss_limit" where
  "loss_limit_new fp max_daily_loss reset_interval_ns =
     \<lparr>ll_max_daily_loss = max_daily_loss, ll_reset_interval_ns = reset_interval_ns,
      ll_running_pnl = fp_zero fp, ll_last_reset_ts = 0\<rparr>"

definition maybe_reset :: "'d fp \<Rightarrow> timestamp \<Rightarrow> 'd loss_limit \<Rightarrow> 'd loss_limit" where
  "maybe_reset fp current_ts l =
     (if ll_reset_interval_ns l = 0 \<or> current_ts = 0 then l
      else if ll_last_reset_ts l = 0 then l\<lparr>ll_last_reset_ts := current_ts\<rparr>
      else if ll_reset_interval_ns l \<le> current_ts - ll_last_reset_ts l
      then l\<lparr>ll_running_pnl := fp_zero fp, ll_last_reset_ts := current_ts\<rparr> else l)"

definition loss_check ::
  "'d fp \<Rightarrow> ('d \<Rightarrow> string) \<Rightarrow> u64 list \<Rightarrow> 'd portfolio \<Rightarrow> timestamp \<Rightarrow> 'd loss_limit
     \<Rightarrow> 'd risk_result \<times> 'd loss_limit" where
  "loss_check fp sd pkeys pf current_ts l =
     (let l = maybe_reset fp current_ts l;
          effective_pnl = fp_add fp (ll_running_pnl l) (total_pnl fp pkeys (pf_pnl pf));
          loss_floor = fp_neg fp (ll_max_daily_loss l);
          passed = fp_less fp loss_floor effective_pnl
      in (\<lparr>rr_check_type = LossLimit, rr_passed = passed, rr_current_value = effective_pnl,
           rr_limit_value = loss_floor,
           rr_message = (if passed then [] else ''Daily loss limit breached: PnL $'' @ sd effective_pnl
             @ '' <= -$'' @ sd (ll_max_daily_loss l))\<rparr>, l))"

definition record_pnl :: "'d fp \<Rightarrow> 'd \<Rightarrow> 'd loss_limit \<Rightarrow> 'd loss_limit" where
  "record_pnl fp pnl_delta l = l\<lparr>ll_running_pnl := fp_add fp (ll_running_pnl l) pnl_delta\<rparr>"

definition set_running_pnl :: "'d \<Rightarrow> 'd loss_limit \<Rightarrow> 'd loss_limit" where
  "set_running_pnl pnl l = l\<lparr>ll_running_pnl := pnl\<rparr>"

definition loss_reset :: "'d fp \<Rightarrow> 'd loss_limit \<Rightarrow> 'd loss_limit" where
  "loss_reset fp l = l\<lparr>ll_running_pnl := fp_zero fp\<rparr>"

section \<open>Order rate limit\<close>

record order_rate_limit =
  rl_max_orders_per_second :: u32
  rl_timestamps :: "timestamp list"

definition ONE_SECOND_NS :: u64 where "ONE_SECOND_NS = 1000000000"

definition order_rate_limit_new :: "u32 \<Rightarrow> order_rate_limit" where
  "order_rate_limit_new mx = \<lparr>rl_max_orders_per_second = mx, rl_timestamps = []\<rparr>"

fun prune_loop :: "timestamp \<Rightarrow> timestamp list \<Rightarrow> timestamp list" where
  "prune_loop now [] = []"
| "prune_loop now (t # ts) = (if t + ONE_SECOND_NS \<le> now then prune_loop now ts else t # ts)"

definition prune :: "timestamp \<Rightarrow> order_rate_limit \<Rightarrow> order_rate_limit" where
  "prune current_ts l = l\<lparr>rl_timestamps := prune_loop current_ts (rl_timestamps l)\<rparr>"

definition rate_check :: "'d fp \<Rightarrow> timestamp \<Rightarrow> order_rate_limit \<Rightarrow> 'd risk_result \<times> order_rate_limit" where
  "rate_check fp current_ts l =
     (let l = prune current_ts l;
          n = (of_nat (length (rl_timestamps l)) :: u32);
          passed = (n < rl_max_orders_per_second l)
      in (\<lparr>rr_check_type = OrderRateLimit, rr_passed = passed, rr_current_value = fp_of_nat fp (unat n),
           rr_limit_value = fp_of_nat fp (unat (rl_max_orders_per_second l)),
           rr_message = (if passed then [] else ''Order rate limit breached: '' @ show_nat (unat n)
             @ '' orders in last second >= '' @ show_nat (unat (rl_max_orders_per_second l)))\<rparr>, l))"

definition record_order :: "timestamp \<Rightarrow> order_rate_limit \<Rightarrow> order_rate_limit" where
  "record_order ts l = l\<lparr>rl_timestamps := rl_timestamps l @ [ts]\<rparr>"

definition rate_reset :: "order_rate_limit \<Rightarrow> order_rate_limit" where
  "rate_reset l = l\<lparr>rl_timestamps := []\<rparr>"

section \<open>Concentration limit\<close>

record 'd concentration_limit =
  cl_max_pct :: 'd
  cl_symbol_limits :: "u64 \<rightharpoonup> 'd"

definition concentration_limit_new :: "'d \<Rightarrow> 'd concentration_limit" where
  "concentration_limit_new max_pct = \<lparr>cl_max_pct = max_pct, cl_symbol_limits = Map.empty\<rparr>"

definition concentration_set_symbol_limit :: "symbol \<Rightarrow> 'd \<Rightarrow> 'd concentration_limit \<Rightarrow> 'd concentration_limit" where
  "concentration_set_symbol_limit sy max_pct l =
     l\<lparr>cl_symbol_limits := (cl_symbol_limits l)(as_key sy \<mapsto> max_pct)\<rparr>"

definition concentration_limit_for :: "'d concentration_limit \<Rightarrow> u64 \<Rightarrow> 'd" where
  "concentration_limit_for l key = (case cl_symbol_limits l key of Some x \<Rightarrow> x | None \<Rightarrow> cl_max_pct l)"

definition add_gross ::
  "'d fp \<Rightarrow> (u64 \<rightharpoonup> price) \<Rightarrow> position_tracker \<Rightarrow> u64 \<Rightarrow> 'd \<Rightarrow> 'd \<Rightarrow> u64 \<Rightarrow> 'd" where
  "add_gross fp prices positions key symbol_notional total_notional sym_key =
     (if sym_key = key then fp_add fp total_notional symbol_notional
      else case (positions sym_key, prices sym_key) of
        (Some pos, Some p) \<Rightarrow>
          fp_add fp total_notional (fp_mul fp (fp_abs fp (fp_of_i64 fp pos)) (price_to_double fp p))
      | _ \<Rightarrow> total_notional)"

definition concentration_check ::
  "'d fp \<Rightarrow> ('d \<Rightarrow> string) \<Rightarrow> u64 list \<Rightarrow> decision \<Rightarrow> 'd portfolio \<Rightarrow> (u64 \<rightharpoonup> price) \<Rightarrow> price
     \<Rightarrow> 'd concentration_limit \<Rightarrow> 'd risk_result" where
  "concentration_check fp sd keys d pf prices reference_price l =
     (let key = as_key (dec_symbol d);
          current_pos = position_get (pf_positions pf) (dec_symbol d);
          proposed_pos = current_pos + signed_delta d;
          symbol_notional = fp_mul fp (fp_abs fp (fp_of_i64 fp proposed_pos)) (price_to_double fp reference_price);
          total_notional = foldl (add_gross fp prices (pf_positions pf) key symbol_notional) (fp_zero fp) keys;
          total_notional = (if pf_positions pf key = None then fp_add fp total_notional symbol_notional
                            else total_notional);
          concentration = (if fp_less fp (fp_zero fp) total_notional then fp_div fp symbol_notional total_notional
                           else if fp_less fp (fp_zero fp) symbol_notional then fp_of_nat fp 1 else fp_zero fp);
          max_pct = concentration_limit_for l key;
          passed = fp_le fp concentration max_pct
      in \<lparr>rr_check_type = ConcentrationLimit, rr_passed = passed, rr_current_value = concentration,
          rr_limit_value = max_pct,
          rr_message = (if passed then [] else ''Concentration limit breached: ''
            @ sd (fp_mul fp concentration (fp_of_nat fp 100)) @ ''% > ''
            @ sd (fp_mul fp max_pct (fp_of_nat fp 100)) @ ''%'')\<rparr>)"

end
