(* ===== verification/Pre_Trade.thy ===== *)
theory Pre_Trade
  imports Risk_Limits
begin

text \<open>
  The orchestration of the pre-trade checks (\<open>risk/pre_trade_risk.{hpp,cpp}\<close>): five limits in a
  fixed order, stopping at the first failure in fail-fast mode. Logging is left out.
\<close>

section \<open>State and operations\<close>

record 'd pre_trade_config =
  ptc_max_position_shares :: u64
  ptc_max_notional_dollars :: 'd
  ptc_max_daily_loss :: 'd
  ptc_max_orders_per_second :: u32
  ptc_max_concentration_pct :: 'd
  ptc_fail_fast :: bool

record 'd pre_trade_risk =
  ptr_fail_fast :: bool
  ptr_current_ts :: timestamp
  ptr_prices :: "u64 \<rightharpoonup> price"
  ptr_position_limit :: position_limit
  ptr_notional_limit :: "'d notional_limit"
  ptr_loss_limit :: "'d loss_limit"
  ptr_order_rate_limit :: order_rate_limit
  ptr_concentration_limit :: "'d concentration_limit"

definition pre_trade_risk_new :: "'d fp \<Rightarrow> 'd pre_trade_config \<Rightarrow> 'd pre_trade_risk" where
  "pre_trade_risk_new fp cfg =
     \<lparr>ptr_fail_fast = ptc_fail_fast cfg, ptr_current_ts = 0, ptr_prices = Map.empty,
      ptr_position_limit = position_limit_new (ptc_max_position_shares cfg),
      ptr_notional_limit = notional_limit_new (ptc_max_notional_dollars cfg),
      ptr_loss_limit = loss_limit_new fp (ptc_max_daily_loss cfg) 0,
      ptr_order_rate_limit = order_rate_limit_new (ptc_max_orders_per_second cfg),
      ptr_concentration_limit = concentration_limit_new (ptc_max_concentration_pct cfg)\<rparr>"

definition reference_price :: "decision \<Rightarrow> 'd pre_trade_risk \<Rightarrow> price" where
  "reference_price d r =
     (if dec_order_type d = Decision_Limit \<and> 0 < dec_limit_price d then dec_limit_price d
      else case ptr_prices r (as_key (dec_symbol d)) of Some p \<Rightarrow> p | None \<Rightarrow> 0)"

definition check_pre_trade ::
  "'d fp \<Rightarrow> ('d \<Rightarrow> string) \<Rightarrow> u64 list \<Rightarrow> u64 list \<Rightarrow> decision \<Rightarrow> 'd portfolio \<Rightarrow> 'd pre_trade_risk
     \<Rightarrow> 'd risk_result list \<times> 'd pre_trade_risk" where
  "check_pre_trade fp sd keys pkeys d pf r =
     (let ref_price = reference_price d r;
          r1 = position_check fp d pf (ptr_position_limit r)
      in if \<not> rr_passed r1 \<and> ptr_fail_fast r then ([r1], r)
         else
           let r2 = notional_check fp sd d pf ref_price (ptr_notional_limit r)
           in if \<not> rr_passed r2 \<and> ptr_fail_fast r then ([r1, r2], r)
              else
                let (r3, loss) = loss_check fp sd pkeys pf (ptr_current_ts r) (ptr_loss_limit r);
                    r = r\<lparr>ptr_loss_limit := loss\<rparr>
                in if \<not> rr_passed r3 \<and> ptr_fail_fast r then ([r1, r2, r3], r)
                   else
                     let (r4, rate) = rate_check fp (ptr_current_ts r) (ptr_order_rate_limit r);
                         r = r\<lparr>ptr_order_rate_limit := rate\<rparr>
                     in if \<not> rr_passed r4 \<and> ptr_fail_fast r then ([r1, r2, r3, r4], r)
                        else
                          let r5 = concentration_check fp sd keys d pf (ptr_prices r) ref_price
                                     (ptr_concentration_limit r)
                          in ([r1, r2, r3, r4, r5], r))"

definition check_post_trade ::
  "'d fp \<Rightarrow> u64 list \<Rightarrow> fill_report \<Rightarrow> 'd portfolio \<Rightarrow> 'd pre_trade_risk \<Rightarrow> 'd pre_trade_risk" where
  "check_post_trade fp pkeys report pf r =
     r\<lparr>ptr_loss_limit := set_running_pnl (total_pnl fp pkeys (pf_pnl pf)) (ptr_loss_limit r),
       ptr_order_rate_limit := record_order (fr_timestamp report) (ptr_order_rate_limit r)\<rparr>"

definition ptr_current_exposure :: "'d fp \<Rightarrow> 'd pre_trade_risk \<Rightarrow> 'd exposure" where
  "ptr_current_exposure fp r = exposure_new fp"

definition set_fail_fast :: "bool \<Rightarrow> 'd pre_trade_risk \<Rightarrow> 'd pre_trade_risk" where
  "set_fail_fast enabled r = r\<lparr>ptr_fail_fast := enabled\<rparr>"

definition ptr_set_price :: "symbol \<Rightarrow> price \<Rightarrow> 'd pre_trade_risk \<Rightarrow> 'd pre_trade_risk" where
  "ptr_set_price sy p r = r\<lparr>ptr_prices := (ptr_prices r)(as_key sy \<mapsto> p)\<rparr>"

definition set_current_timestamp :: "timestamp \<Rightarrow> 'd pre_trade_risk \<Rightarrow> 'd pre_trade_risk" where
  "set_current_timestamp ts r = r\<lparr>ptr_current_ts := ts\<rparr>"

section \<open>Fail-fast against check-all\<close>

text \<open>The results up to and including the first failure.\<close>

fun until_failure :: "'d risk_result list \<Rightarrow> 'd risk_result list" where
  "until_failure [] = []"
| "until_failure (r # rs) = (if rr_passed r then r # until_failure rs else [r])"

lemma until_failure_verdict: "list_all rr_passed (until_failure rs) \<longleftrightarrow> list_all rr_passed rs"
  by (induction rs) auto

lemma until_failure_Nil [simp]: "until_failure rs = [] \<longleftrightarrow> rs = []"
  by (cases rs) auto

lemma until_failure_last: "rs \<noteq> [] \<Longrightarrow> rr_passed (last (until_failure rs)) \<longleftrightarrow> list_all rr_passed rs"
  by (induction rs) (auto split: if_splits)

definition all_results ::
  "'d fp \<Rightarrow> ('d \<Rightarrow> string) \<Rightarrow> u64 list \<Rightarrow> u64 list \<Rightarrow> decision \<Rightarrow> 'd portfolio \<Rightarrow> 'd pre_trade_risk
     \<Rightarrow> 'd risk_result list" where
  "all_results fp sd keys pkeys d pf r =
     [position_check fp d pf (ptr_position_limit r),
      notional_check fp sd d pf (reference_price d r) (ptr_notional_limit r),
      fst (loss_check fp sd pkeys pf (ptr_current_ts r) (ptr_loss_limit r)),
      fst (rate_check fp (ptr_current_ts r) (ptr_order_rate_limit r)),
      concentration_check fp sd keys d pf (ptr_prices r) (reference_price d r) (ptr_concentration_limit r)]"

lemma check_types:
  "map rr_check_type (all_results fp sd keys pkeys d pf r) =
     [PositionLimit, NotionalLimit, LossLimit, OrderRateLimit, ConcentrationLimit]"
  by (simp add: all_results_def position_check_def notional_check_def loss_check_def rate_check_def
      concentration_check_def Let_def)

lemma check_pre_trade_results:
  "fst (check_pre_trade fp sd keys pkeys d pf r) =
     (if ptr_fail_fast r then until_failure (all_results fp sd keys pkeys d pf r)
      else all_results fp sd keys pkeys d pf r)"
  by (simp add: check_pre_trade_def all_results_def Let_def split_beta)

section \<open>Positions\<close>

lemma sint_of_small: "- (2 ^ 63) \<le> i \<Longrightarrow> i < 2 ^ 63 \<Longrightarrow> sint (of_int i :: u64) = i"
  by (simp add: signed_of_int signed_take_bit_int_eq_self)

lemma sint_abs_i64:
  assumes "\<bar>i\<bar> < 2 ^ 63"
  shows "sint (abs_i64 (of_int i)) = \<bar>i\<bar>"
proof -
  have "sint (of_int i :: u64) = i" "sint (of_int (- i) :: u64) = - i"
    using assms sint_of_small [of i] sint_of_small [of "- i"] by (simp_all del: of_int_minus)
  moreover have "- of_int i = (of_int (- i) :: u64)"
    by simp
  ultimately show ?thesis
    unfolding abs_i64_def word_sless_alt by (auto simp del: of_int_minus)
qed

definition decision_change :: "decision \<Rightarrow> int" where
  "decision_change d = (if dec_side d = Side_Buy then int (unat (dec_quantity d)) else - int (unat (dec_quantity d)))"

lemma signed_delta_change: "signed_delta d = of_int (decision_change d)"
  by (simp add: signed_delta_def decision_change_def unsigned_ucast_eq)

lemma position_after_fill:
  "position_get (pf_positions (portfolio_on_fill fp ts (dec_symbol d) (dec_side d) p (dec_quantity d) pf)) (dec_symbol d)
     = position_get (pf_positions pf) (dec_symbol d) + signed_delta d"
  by (simp add: portfolio_on_fill_def position_get_def position_update_def signed_delta_def Let_def)

lemma position_after_fill_int:
  assumes "\<bar>sint (position_get (pf_positions pf) (dec_symbol d))\<bar> < 2 ^ 62"
  shows "position_get (pf_positions pf) (dec_symbol d) + signed_delta d =
      of_int (sint (position_get (pf_positions pf) (dec_symbol d)) + decision_change d)"
    and "\<bar>sint (position_get (pf_positions pf) (dec_symbol d)) + decision_change d\<bar> < 2 ^ 63"
proof -
  define n where "n = int (unat (dec_quantity d))"
  have "0 \<le> n" "n < 2 ^ 32"
    using uint_lt2p [of "dec_quantity d"] by (simp_all add: n_def)
  moreover have "decision_change d = n \<or> decision_change d = - n"
    by (simp add: decision_change_def n_def)
  ultimately show "\<bar>sint (position_get (pf_positions pf) (dec_symbol d)) + decision_change d\<bar> < 2 ^ 63"
    using assms by auto
qed (simp add: signed_delta_change)

section \<open>The sliding window\<close>

lemma prune_loop_filter:
  assumes "sorted ts" and "\<forall>t \<in> set ts. unat t + 1000000000 < 2 ^ 64"
  shows "prune_loop now ts = filter (\<lambda>t. unat now < unat t + 1000000000) ts"
  using assms
proof (induction ts)
  case (Cons t ts)
  have "unat (t + ONE_SECOND_NS) = unat t + 1000000000"
    using Cons.prems(2) by (subst unat_plus_small) (simp_all add: ONE_SECOND_NS_def)
  then have le: "t + ONE_SECOND_NS \<le> now \<longleftrightarrow> unat t + 1000000000 \<le> unat now"
    by (simp add: word_le_nat_alt)
  show ?case
  proof (cases "t + ONE_SECOND_NS \<le> now")
    case True
    then show ?thesis
      using Cons le by simp
  next
    case False
    then have "\<forall>u \<in> set (t # ts). unat now < unat u + 1000000000"
      using le Cons.prems(1) by (fastforce simp: word_le_nat_alt)
    then have "filter (\<lambda>t. unat now < unat t + 1000000000) (t # ts) = t # ts"
      by (simp only: filter_True)
    then show ?thesis
      using False by simp
  qed
qed simp

section \<open>Properties\<close>

text \<open>
  Fail-fast changes the work, not the verdict. With all checks run, the results are one each for
  position, notional, loss, rate and concentration, in this order; in fail-fast mode they are the
  same results up to the first failure. So an order is approved in one mode exactly when it is
  approved in the other, and the last result in fail-fast mode tells which.
\<close>

theorem fail_fast_same_verdict:
  "let all = fst (check_pre_trade fp sd keys pkeys d pf (set_fail_fast False r));
       fast = fst (check_pre_trade fp sd keys pkeys d pf (set_fail_fast True r))
   in map rr_check_type all = [PositionLimit, NotionalLimit, LossLimit, OrderRateLimit, ConcentrationLimit]
    \<and> fast = until_failure all \<and> (list_all rr_passed fast \<longleftrightarrow> list_all rr_passed all)
    \<and> rr_passed (last fast) = list_all rr_passed all"
proof -
  have "all_results fp sd keys pkeys d pf (set_fail_fast b r) = all_results fp sd keys pkeys d pf r" for b
    by (simp add: all_results_def set_fail_fast_def reference_price_def)
  moreover have "all_results fp sd keys pkeys d pf r \<noteq> []"
    by (simp add: all_results_def)
  ultimately show ?thesis
    using until_failure_last [of "all_results fp sd keys pkeys d pf r"]
    by (simp add: check_pre_trade_results until_failure_verdict check_types Let_def)
      (auto simp: set_fail_fast_def)
qed

text \<open>
  C21. An approved order keeps the portfolio within its limits. In exact arithmetic, when every check
  of an order passes and the order is then filled completely, the position of its symbol moves by
  exactly the ordered quantity and is within the position limit, its value at the reference price is
  within the notional limit, and the running loss was still above the floor. (For positions below
  \<open>2 ^ 62\<close>, so that the signed sum cannot overflow.)
\<close>

theorem approved_order_within_limits:
  assumes "list_all rr_passed (fst (check_pre_trade exact_fp sd keys pkeys d pf r))"
    and "\<bar>sint (position_get (pf_positions pf) (dec_symbol d))\<bar> < 2 ^ 62"
  shows "let pf' = portfolio_on_fill exact_fp ts (dec_symbol d) (dec_side d) p (dec_quantity d) pf;
             pos = sint (position_get (pf_positions pf') (dec_symbol d));
             key = as_key (dec_symbol d);
             loss = maybe_reset exact_fp (ptr_current_ts r) (ptr_loss_limit r)
    in pos = sint (position_get (pf_positions pf) (dec_symbol d)) + decision_change d
     \<and> \<bar>pos\<bar> \<le> sint (position_limit_for (ptr_position_limit r) key)
     \<and> \<bar>real_of_int pos\<bar> * (real (unat (reference_price d r)) / 10000) \<le> notional_limit_for (ptr_notional_limit r) key
     \<and> - ll_max_daily_loss loss < ll_running_pnl loss + total_pnl exact_fp pkeys (pf_pnl pf)"
proof -
  let ?pos = "sint (position_get (pf_positions pf) (dec_symbol d)) + decision_change d"
  note word = position_after_fill_int [OF assms(2)]
  have small: "sint (of_int ?pos :: u64) = ?pos"
    using word(2) by (intro sint_of_small) auto
  have "list_all rr_passed (all_results exact_fp sd keys pkeys d pf r)"
    using assms(1) by (auto simp: check_pre_trade_results until_failure_verdict split: if_splits)
  then have passed: "rr_passed (position_check exact_fp d pf (ptr_position_limit r))"
    "rr_passed (notional_check exact_fp sd d pf (reference_price d r) (ptr_notional_limit r))"
    "rr_passed (fst (loss_check exact_fp sd pkeys pf (ptr_current_ts r) (ptr_loss_limit r)))"
    by (simp_all add: all_results_def)
  have "\<bar>?pos\<bar> \<le> sint (position_limit_for (ptr_position_limit r) (as_key (dec_symbol d)))"
    using passed(1) sint_abs_i64 [OF word(2)] unfolding position_check_def word(1) Let_def
    by (simp add: word_sle_eq del: of_int_add)
  moreover have "\<bar>real_of_int ?pos\<bar> * (real (unat (reference_price d r)) / 10000)
      \<le> notional_limit_for (ptr_notional_limit r) (as_key (dec_symbol d))"
    using passed(2) unfolding notional_check_def word(1) Let_def
    by (simp add: fp_of_i64_def small price_to_double_def del: of_int_add)
  ultimately show ?thesis
    using passed(3) unfolding Let_def position_after_fill word(1) small
    by (simp add: loss_check_def Let_def)
qed

definition risk_decision :: decision where
  "risk_decision = \<lparr>dec_symbol = symbol_default, dec_side = Side_Buy, dec_quantity = 100,
     dec_order_type = Decision_Limit, dec_limit_price = 500000, dec_urgency = Low\<rparr>"

definition sample_risk :: "real pre_trade_risk" where
  "sample_risk = pre_trade_risk_new exact_fp \<lparr>ptc_max_position_shares = 1000, ptc_max_notional_dollars = 10000,
     ptc_max_daily_loss = 500, ptc_max_orders_per_second = 10, ptc_max_concentration_pct = 1, ptc_fail_fast = True\<rparr>"

lemma sample_order_approved:
  "list_all rr_passed (fst (check_pre_trade exact_fp sd [] [] risk_decision portfolio_new sample_risk))"
  by (simp add: check_pre_trade_results until_failure_verdict all_results_def position_check_def notional_check_def
      loss_check_def rate_check_def concentration_check_def risk_decision_def sample_risk_def pre_trade_risk_new_def
      reference_price_def portfolio_new_def position_get_def signed_delta_def abs_i64_def position_limit_for_def
      position_limit_new_def notional_limit_for_def notional_limit_new_def loss_limit_new_def maybe_reset_def
      order_rate_limit_new_def prune_def concentration_limit_for_def concentration_limit_new_def fp_of_i64_def
      price_to_double_def total_pnl_def total_realized_pnl_def total_unrealized_pnl_def Let_def
      word_sless_alt word_sle_eq)

theorem approved_order_within_limits_witness:
  "let pf' = portfolio_on_fill exact_fp 5 symbol_default Side_Buy 499000 100 portfolio_new
   in \<bar>sint (position_get (pf_positions pf') symbol_default)\<bar>
     \<le> sint (position_limit_for (ptr_position_limit sample_risk) (as_key symbol_default))"
proof -
  have "\<bar>sint (position_get (pf_positions (portfolio_new :: real portfolio)) (dec_symbol risk_decision))\<bar> < 2 ^ 62"
    by (simp add: portfolio_new_def position_get_def)
  moreover have "dec_symbol risk_decision = symbol_default" "dec_side risk_decision = Side_Buy"
    "dec_quantity risk_decision = 100"
    by (simp_all add: risk_decision_def)
  ultimately show ?thesis
    using approved_order_within_limits [OF sample_order_approved, of 5 499000] unfolding Let_def by metis
qed

text \<open>
  A loss counts twice. The profit and loss of the portfolio is stored in the loss limit after a
  fill and added to the same profit and loss at the next check, so an order is refused although the
  loss is within the limit, as soon as it reaches half of it.
\<close>

theorem loss_counted_twice:
  assumes "total_pnl exact_fp pkeys (pf_pnl pf) = - loss" and "ll_reset_interval_ns (ptr_loss_limit r) = 0"
    and "loss < ll_max_daily_loss (ptr_loss_limit r)" and "ll_max_daily_loss (ptr_loss_limit r) \<le> 2 * loss"
  shows "let r' = check_post_trade exact_fp pkeys report pf r;
             result = fst (loss_check exact_fp sd pkeys pf (ptr_current_ts r') (ptr_loss_limit r'))
    in \<not> rr_passed result \<and> rr_current_value result = - 2 * loss
     \<and> result \<in> set (fst (check_pre_trade exact_fp sd keys pkeys d pf (set_fail_fast False r')))"
  using assms
  by (simp add: Let_def check_post_trade_def set_running_pnl_def loss_check_def maybe_reset_def
      check_pre_trade_results all_results_def set_fail_fast_def)

definition losing_portfolio :: "real portfolio" where
  "losing_portfolio = portfolio_new\<lparr>pf_pnl := [0 \<mapsto> \<lparr>ss_long_lots = [], ss_short_lots = [], ss_realized = - 300,
     ss_unrealized = 0\<rparr>]\<rparr>"

theorem loss_counted_twice_witness:
  "\<exists>result \<in> set (fst (check_pre_trade exact_fp (\<lambda>_. []) [] [0] risk_decision losing_portfolio
      (set_fail_fast False (check_post_trade exact_fp [0]
        \<lparr>fr_order_id = 1, fr_fill_price = 1, fr_fill_quantity = 1, fr_timestamp = 1, fr_is_final = True\<rparr>
        losing_portfolio sample_risk)))). \<not> rr_passed result \<and> rr_current_value result = - 600"
proof -
  have "total_pnl exact_fp [0] (pf_pnl losing_portfolio) = - 300"
    "ll_reset_interval_ns (ptr_loss_limit sample_risk) = 0" "300 < ll_max_daily_loss (ptr_loss_limit sample_risk)"
    "ll_max_daily_loss (ptr_loss_limit sample_risk) \<le> 2 * 300"
    by (simp_all add: total_pnl_def total_realized_pnl_def total_unrealized_pnl_def losing_portfolio_def
        sample_risk_def pre_trade_risk_new_def loss_limit_new_def)
  from loss_counted_twice [OF this, of "\<lparr>fr_order_id = 1, fr_fill_price = 1, fr_fill_quantity = 1, fr_timestamp = 1,
      fr_is_final = True\<rparr>" "\<lambda>_. []" "[]" risk_decision]
  show ?thesis
    unfolding Let_def by (elim conjE) (rule bexI, simp)
qed

text \<open>
  The rate window is exact. When the recorded times are in order, a check passes exactly when
  fewer orders than the maximum were recorded within the last second, and it forgets exactly the
  older ones.
\<close>

theorem rate_window_exact:
  assumes "sorted (rl_timestamps l)" and "\<forall>t \<in> set (rl_timestamps l). unat t + 1000000000 < 2 ^ 64"
    and "length (rl_timestamps l) < 2 ^ 32"
  shows "let recent = filter (\<lambda>t. unat now < unat t + 1000000000) (rl_timestamps l)
    in (rr_passed (fst (rate_check fp now l)) \<longleftrightarrow> length recent < unat (rl_max_orders_per_second l))
     \<and> rl_timestamps (snd (rate_check fp now l)) = recent"
proof -
  let ?recent = "filter (\<lambda>t. unat now < unat t + 1000000000) (rl_timestamps l)"
  have "length ?recent < 2 ^ 32"
    using assms(3) le_less_trans [OF length_filter_le] by blast
  then have "unat (of_nat (length ?recent) :: u32) = length ?recent"
    by (intro unat_of_nat_small) simp
  then show ?thesis
    using prune_loop_filter [OF assms(1,2), of now]
    by (simp add: rate_check_def prune_def Let_def word_less_nat_alt)
qed

theorem rate_window_exact_witness:
  "rl_timestamps (snd (rate_check exact_fp 2000000005
     \<lparr>rl_max_orders_per_second = 3, rl_timestamps = [1, 1000000006, 2000000000]\<rparr>)) = [1000000006, 2000000000]"
  using rate_window_exact [of "\<lparr>rl_max_orders_per_second = 3, rl_timestamps = [1, 1000000006, 2000000000]\<rparr>"
      2000000005 exact_fp]
  by (simp add: Let_def)

text \<open>
  An order without a price is unlimited in value. A market order in a symbol for which no price
  was stored is valued at price 0, so it passes the notional and the concentration check whatever
  its quantity, for any limits that are not negative.
\<close>

theorem unpriced_order_passes:
  assumes "dec_order_type d = Decision_Market" and "ptr_prices r (as_key (dec_symbol d)) = None"
    and "0 \<le> notional_limit_for (ptr_notional_limit r) (as_key (dec_symbol d))"
    and "0 \<le> concentration_limit_for (ptr_concentration_limit r) (as_key (dec_symbol d))"
  shows "\<forall>result \<in> set (fst (check_pre_trade exact_fp sd keys pkeys d pf r)).
    rr_check_type result \<in> {NotionalLimit, ConcentrationLimit} \<longrightarrow> rr_passed result \<and> rr_current_value result = 0"
proof -
  have ref: "reference_price d r = 0"
    using assms(1,2) by (simp add: reference_price_def)
  have sub: "set (until_failure rs) \<subseteq> set rs" for rs :: "real risk_result list"
    by (induction rs) auto
  have "\<forall>result \<in> set (all_results exact_fp sd keys pkeys d pf r).
      rr_check_type result \<in> {NotionalLimit, ConcentrationLimit} \<longrightarrow> rr_passed result \<and> rr_current_value result = 0"
    using assms(3,4)
    by (simp add: all_results_def ref position_check_def notional_check_def loss_check_def rate_check_def
        concentration_check_def price_to_double_def Let_def)
  then show ?thesis
    using sub by (auto simp: check_pre_trade_results)
qed

theorem unpriced_order_passes_witness:
  "\<forall>result \<in> set (fst (check_pre_trade exact_fp (\<lambda>_. []) [] []
      (risk_decision\<lparr>dec_order_type := Decision_Market, dec_quantity := 4000000000\<rparr>) portfolio_new sample_risk)).
    rr_check_type result \<in> {NotionalLimit, ConcentrationLimit} \<longrightarrow> rr_passed result \<and> rr_current_value result = 0"
  by (rule unpriced_order_passes)
    (simp_all add: risk_decision_def sample_risk_def pre_trade_risk_new_def notional_limit_for_def
      notional_limit_new_def concentration_limit_for_def concentration_limit_new_def)

end
