(* ===== verification/Risk_Monitors.thy ===== *)
theory Risk_Monitors
  imports Risk_Limits Event_Bus
begin

text \<open>
  The post-trade side of risk: the circuit breaker (\<open>risk/monitors/circuit_breaker.{hpp,cpp}\<close>), the
  monitors of profit and loss and of exposure, and the orchestration that runs them after a fill
  (\<open>risk/post_trade_risk.{hpp,cpp}\<close>). Logging is left out; callbacks are functions on a state.
\<close>

section \<open>The circuit breaker\<close>

record 'd breaker_event =
  bev_timestamp :: timestamp
  bev_reason :: string
  bev_drawdown :: 'd
  bev_drawdown_limit :: 'd
  bev_manual :: bool

text \<open>The key of the event type on the bus is \<open>()\<close>.\<close>

record ('d, 's) circuit_breaker =
  cb_drawdown_threshold :: 'd
  cb_current_drawdown :: 'd
  cb_tripped :: bool
  cb_event_bus :: "(unit, 'd breaker_event, 's) event_bus option"
  cb_cancel_callback :: "('s \<Rightarrow> 's) option"
  cb_disable_callback :: "('s \<Rightarrow> 's) option"
  cb_alert_callback :: "(string \<Rightarrow> 's \<Rightarrow> 's) option"

definition circuit_breaker_new ::
  "'d fp \<Rightarrow> 'd \<Rightarrow> (unit, 'd breaker_event, 's) event_bus option \<Rightarrow> ('d, 's) circuit_breaker" where
  "circuit_breaker_new fp threshold bus =
     \<lparr>cb_drawdown_threshold = threshold, cb_current_drawdown = fp_zero fp, cb_tripped = False,
      cb_event_bus = bus, cb_cancel_callback = None, cb_disable_callback = None, cb_alert_callback = None\<rparr>"

definition set_cancel_callback :: "('s \<Rightarrow> 's) \<Rightarrow> ('d, 's) circuit_breaker \<Rightarrow> ('d, 's) circuit_breaker" where
  "set_cancel_callback f b = b\<lparr>cb_cancel_callback := Some f\<rparr>"

definition set_disable_callback :: "('s \<Rightarrow> 's) \<Rightarrow> ('d, 's) circuit_breaker \<Rightarrow> ('d, 's) circuit_breaker" where
  "set_disable_callback f b = b\<lparr>cb_disable_callback := Some f\<rparr>"

definition set_alert_callback :: "(string \<Rightarrow> 's \<Rightarrow> 's) \<Rightarrow> ('d, 's) circuit_breaker \<Rightarrow> ('d, 's) circuit_breaker" where
  "set_alert_callback f b = b\<lparr>cb_alert_callback := Some f\<rparr>"

text \<open>The event is value-initialised, and its timestamp stays 0.\<close>

definition trip_event :: "string \<Rightarrow> bool \<Rightarrow> ('d, 's) circuit_breaker \<Rightarrow> 'd breaker_event" where
  "trip_event reason manual b =
     \<lparr>bev_timestamp = 0, bev_reason = reason, bev_drawdown = cb_current_drawdown b,
      bev_drawdown_limit = cb_drawdown_threshold b, bev_manual = manual\<rparr>"

definition execute_trip ::
  "string \<Rightarrow> bool \<Rightarrow> ('d, 's) circuit_breaker \<Rightarrow> 's \<Rightarrow> ('d, 's) circuit_breaker \<times> 's" where
  "execute_trip reason manual b s =
     (let b = b\<lparr>cb_tripped := True\<rparr>;
          s = (case cb_cancel_callback b of None \<Rightarrow> s | Some f \<Rightarrow> f s);
          s = (case cb_disable_callback b of None \<Rightarrow> s | Some f \<Rightarrow> f s);
          s = (case cb_alert_callback b of None \<Rightarrow> s | Some f \<Rightarrow> f reason s);
          s = (case cb_event_bus b of None \<Rightarrow> s | Some bus \<Rightarrow> publish bus () (trip_event reason manual b) s)
      in (b, s))"

definition drawdown_text :: "'d fp \<Rightarrow> ('d \<Rightarrow> string) \<Rightarrow> 'd \<Rightarrow> 'd \<Rightarrow> string" where
  "drawdown_text fp sd drawdown threshold =
     ''drawdown '' @ sd (fp_mul fp drawdown (fp_of_nat fp 100)) @ ''% exceeds limit ''
     @ sd (fp_mul fp threshold (fp_of_nat fp 100)) @ ''%''"

definition update_drawdown ::
  "'d fp \<Rightarrow> ('d \<Rightarrow> string) \<Rightarrow> 'd \<Rightarrow> ('d, 's) circuit_breaker \<Rightarrow> 's \<Rightarrow> ('d, 's) circuit_breaker \<times> 's" where
  "update_drawdown fp sd drawdown b s =
     (let b = b\<lparr>cb_current_drawdown := drawdown\<rparr>
      in if \<not> cb_tripped b \<and> fp_less fp (cb_drawdown_threshold b) drawdown
         then execute_trip (drawdown_text fp sd drawdown (cb_drawdown_threshold b)) False b s
         else (b, s))"

definition trip :: "string \<Rightarrow> ('d, 's) circuit_breaker \<Rightarrow> 's \<Rightarrow> ('d, 's) circuit_breaker \<times> 's" where
  "trip reason b s = (if cb_tripped b then (b, s) else execute_trip reason True b s)"

definition breaker_reset :: "('d, 's) circuit_breaker \<Rightarrow> ('d, 's) circuit_breaker" where
  "breaker_reset b = (if \<not> cb_tripped b then b else b\<lparr>cb_tripped := False\<rparr>)"

definition is_tripped :: "('d, 's) circuit_breaker \<Rightarrow> bool" where
  "is_tripped b = cb_tripped b"

section \<open>The monitors\<close>

record 'd pnl_monitor =
  pm_max_loss :: 'd
  pm_warning_threshold :: 'd
  pm_running_pnl :: 'd

definition pnl_monitor_new :: "'d fp \<Rightarrow> 'd \<Rightarrow> 'd \<Rightarrow> 'd pnl_monitor" where
  "pnl_monitor_new fp max_loss warning = \<lparr>pm_max_loss = max_loss, pm_warning_threshold = warning,
     pm_running_pnl = fp_zero fp\<rparr>"

definition pnl_monitor_update :: "'d fp \<Rightarrow> u64 list \<Rightarrow> 'd portfolio \<Rightarrow> 'd pnl_monitor \<Rightarrow> 'd pnl_monitor" where
  "pnl_monitor_update fp pkeys pf m = m\<lparr>pm_running_pnl := total_pnl fp pkeys (pf_pnl pf)\<rparr>"

definition is_warning :: "'d fp \<Rightarrow> 'd pnl_monitor \<Rightarrow> bool" where
  "is_warning fp m \<longleftrightarrow> fp_le fp (pm_running_pnl m) (fp_neg fp (fp_mul fp (pm_max_loss m) (pm_warning_threshold m)))"

definition is_breached :: "'d fp \<Rightarrow> 'd pnl_monitor \<Rightarrow> bool" where
  "is_breached fp m \<longleftrightarrow> fp_le fp (pm_running_pnl m) (fp_neg fp (pm_max_loss m))"

definition pnl_monitor_check :: "'d fp \<Rightarrow> ('d \<Rightarrow> string) \<Rightarrow> 'd pnl_monitor \<Rightarrow> 'd risk_result" where
  "pnl_monitor_check fp sd m =
     (if is_breached fp m
      then \<lparr>rr_check_type = LossLimit, rr_passed = False, rr_current_value = pm_running_pnl m,
            rr_limit_value = fp_neg fp (pm_max_loss m),
            rr_message = ''PnL '' @ sd (pm_running_pnl m) @ '' breaches loss limit '' @ sd (fp_neg fp (pm_max_loss m))\<rparr>
      else if is_warning fp m
      then \<lparr>rr_check_type = PnLWarning, rr_passed = False, rr_current_value = pm_running_pnl m,
            rr_limit_value = fp_neg fp (fp_mul fp (pm_max_loss m) (pm_warning_threshold m)),
            rr_message = ''PnL '' @ sd (pm_running_pnl m) @ '' approaching loss limit (warning at ''
              @ sd (fp_mul fp (pm_warning_threshold m) (fp_of_nat fp 100)) @ ''%)''\<rparr>
      else \<lparr>rr_check_type = LossLimit, rr_passed = True, rr_current_value = pm_running_pnl m,
            rr_limit_value = fp_neg fp (pm_max_loss m), rr_message = []\<rparr>)"

record 'd exposure_monitor =
  em_max_net :: 'd
  em_max_gross :: 'd
  em_prices :: "u64 \<rightharpoonup> price"
  em_exposure :: "'d exposure"

definition exposure_monitor_new :: "'d fp \<Rightarrow> 'd \<Rightarrow> 'd \<Rightarrow> 'd exposure_monitor" where
  "exposure_monitor_new fp max_net max_gross = \<lparr>em_max_net = max_net, em_max_gross = max_gross,
     em_prices = Map.empty, em_exposure = exposure_new fp\<rparr>"

definition em_set_price :: "symbol \<Rightarrow> price \<Rightarrow> 'd exposure_monitor \<Rightarrow> 'd exposure_monitor" where
  "em_set_price sy p m = m\<lparr>em_prices := (em_prices m)(as_key sy \<mapsto> p)\<rparr>"

text \<open>The update is the loop of \<open>NotionalLimit::compute_exposure\<close> on the positions of the snapshot.\<close>

definition exposure_monitor_update ::
  "'d fp \<Rightarrow> u64 list \<Rightarrow> 'd portfolio \<Rightarrow> 'd exposure_monitor \<Rightarrow> 'd exposure_monitor" where
  "exposure_monitor_update fp keys pf m =
     m\<lparr>em_exposure := foldl (add_exposure fp (em_prices m) (pf_positions pf)) (exposure_new fp) keys\<rparr>"

definition exposure_monitor_check :: "'d fp \<Rightarrow> ('d \<Rightarrow> string) \<Rightarrow> 'd exposure_monitor \<Rightarrow> 'd risk_result" where
  "exposure_monitor_check fp sd m =
     (let gross = ex_gross (em_exposure m); abs_net = fp_abs fp (ex_net (em_exposure m)) in
      if fp_less fp (em_max_gross m) gross
      then \<lparr>rr_check_type = ExposureLimit, rr_passed = False, rr_current_value = gross,
            rr_limit_value = em_max_gross m,
            rr_message = ''Gross exposure '' @ sd gross @ '' exceeds limit '' @ sd (em_max_gross m)\<rparr>
      else if fp_less fp (em_max_net m) abs_net
      then \<lparr>rr_check_type = ExposureLimit, rr_passed = False, rr_current_value = abs_net,
            rr_limit_value = em_max_net m,
            rr_message = ''Net exposure '' @ sd abs_net @ '' exceeds limit '' @ sd (em_max_net m)\<rparr>
      else \<lparr>rr_check_type = ExposureLimit, rr_passed = True, rr_current_value = gross,
            rr_limit_value = em_max_gross m, rr_message = []\<rparr>)"

definition symbol_net_exposure :: "'d fp \<Rightarrow> symbol \<Rightarrow> 'd exposure_monitor \<Rightarrow> 'd" where
  "symbol_net_exposure fp sy m =
     (case ex_per_symbol (em_exposure m) (as_key sy) of Some x \<Rightarrow> x | None \<Rightarrow> fp_zero fp)"

section \<open>After a fill\<close>

record 'd post_trade_config =
  poc_max_daily_loss :: 'd
  poc_pnl_warning_threshold :: 'd
  poc_max_net_exposure :: 'd
  poc_max_gross_exposure :: 'd

record 'd post_trade_risk =
  por_pnl_monitor :: "'d pnl_monitor"
  por_exposure_monitor :: "'d exposure_monitor"

definition post_trade_risk_new :: "'d fp \<Rightarrow> 'd post_trade_config \<Rightarrow> 'd post_trade_risk" where
  "post_trade_risk_new fp cfg =
     \<lparr>por_pnl_monitor = pnl_monitor_new fp (poc_max_daily_loss cfg) (poc_pnl_warning_threshold cfg),
      por_exposure_monitor = exposure_monitor_new fp (poc_max_net_exposure cfg) (poc_max_gross_exposure cfg)\<rparr>"

definition post_trade_on_fill ::
  "'d fp \<Rightarrow> ('d \<Rightarrow> string) \<Rightarrow> u64 list \<Rightarrow> u64 list \<Rightarrow> 'd portfolio \<Rightarrow> 'd post_trade_risk
     \<Rightarrow> 'd risk_result list \<times> 'd post_trade_risk" where
  "post_trade_on_fill fp sd keys pkeys pf r =
     (let pnl = pnl_monitor_update fp pkeys pf (por_pnl_monitor r);
          exposure = exposure_monitor_update fp keys pf (por_exposure_monitor r);
          pnl_result = pnl_monitor_check fp sd pnl;
          exp_result = exposure_monitor_check fp sd exposure
      in ((if rr_passed pnl_result then [] else [pnl_result])
          @ (if rr_passed exp_result then [] else [exp_result]),
          r\<lparr>por_pnl_monitor := pnl, por_exposure_monitor := exposure\<rparr>))"

definition post_trade_set_price :: "symbol \<Rightarrow> price \<Rightarrow> 'd post_trade_risk \<Rightarrow> 'd post_trade_risk" where
  "post_trade_set_price sy p r = r\<lparr>por_exposure_monitor := em_set_price sy p (por_exposure_monitor r)\<rparr>"

section \<open>Runs of the breaker\<close>

datatype 'd breaker_op = Drawdown 'd | Trip string | Reset

fun breaker_step ::
  "'d fp \<Rightarrow> ('d \<Rightarrow> string) \<Rightarrow> 'd breaker_op \<Rightarrow> ('d, 's) circuit_breaker \<times> 's \<Rightarrow> ('d, 's) circuit_breaker \<times> 's" where
  "breaker_step fp sd (Drawdown x) (b, s) = update_drawdown fp sd x b s"
| "breaker_step fp sd (Trip reason) (b, s) = trip reason b s"
| "breaker_step fp sd Reset (b, s) = (breaker_reset b, s)"

text \<open>
  The specification: resets cut a run into segments, and in each segment the first manual trip or
  drawdown above the threshold, if there is one, trips the breaker.
\<close>

fun triggers :: "'d fp \<Rightarrow> 'd \<Rightarrow> 'd breaker_op \<Rightarrow> bool" where
  "triggers fp threshold (Drawdown x) \<longleftrightarrow> fp_less fp threshold x"
| "triggers fp threshold (Trip _) \<longleftrightarrow> True"
| "triggers fp threshold Reset \<longleftrightarrow> False"

fun segments :: "'d breaker_op list \<Rightarrow> 'd breaker_op list list" where
  "segments [] = [[]]"
| "segments (Reset # ops) = [] # segments ops"
| "segments (op # ops) = (op # hd (segments ops)) # tl (segments ops)"

definition first_triggers :: "'d fp \<Rightarrow> 'd \<Rightarrow> 'd breaker_op list list \<Rightarrow> 'd breaker_op list" where
  "first_triggers fp threshold segs = List.map_filter (find (triggers fp threshold)) segs"

datatype 'd breaker_action = CancelAll | DisableAll | Alert string | Published "'d breaker_event"

text \<open>A breaker wired to log what it does, as a system wires it to its order manager and strategies.\<close>

definition logging_breaker :: "'d fp \<Rightarrow> 'd \<Rightarrow> ('d, 'd breaker_action list) circuit_breaker" where
  "logging_breaker fp threshold =
     set_cancel_callback (\<lambda>s. s @ [CancelAll]) (set_disable_callback (\<lambda>s. s @ [DisableAll])
       (set_alert_callback (\<lambda>r s. s @ [Alert r]) (circuit_breaker_new fp threshold
         (Some (subscribe event_bus_new () (\<lambda>e s. s @ [Published e]))))))"

text \<open>What a trip does: cancel, disable, alert, publish, in this order, with the reason of its trigger.\<close>

fun trip_actions :: "'d fp \<Rightarrow> ('d \<Rightarrow> string) \<Rightarrow> 'd \<Rightarrow> 'd breaker_op \<Rightarrow> 'd breaker_action list \<Rightarrow> bool" where
  "trip_actions fp sd threshold (Drawdown x) g \<longleftrightarrow>
     (let reason = drawdown_text fp sd x threshold
      in g = [CancelAll, DisableAll, Alert reason,
              Published \<lparr>bev_timestamp = 0, bev_reason = reason, bev_drawdown = x,
                bev_drawdown_limit = threshold, bev_manual = False\<rparr>])"
| "trip_actions fp sd threshold (Trip reason) g \<longleftrightarrow>
     (\<exists>x. g = [CancelAll, DisableAll, Alert reason,
              Published \<lparr>bev_timestamp = 0, bev_reason = reason, bev_drawdown = x,
                bev_drawdown_limit = threshold, bev_manual = True\<rparr>])"
| "trip_actions fp sd threshold Reset g \<longleftrightarrow> False"

definition breaker_at :: "'d fp \<Rightarrow> 'd \<Rightarrow> bool \<Rightarrow> 'd \<Rightarrow> ('d, 'd breaker_action list) circuit_breaker" where
  "breaker_at fp threshold t x = (logging_breaker fp threshold)\<lparr>cb_tripped := t, cb_current_drawdown := x\<rparr>"

lemma logging_breaker_at: "logging_breaker fp threshold = breaker_at fp threshold False (fp_zero fp)"
  by (simp add: breaker_at_def logging_breaker_def set_cancel_callback_def set_disable_callback_def
      set_alert_callback_def circuit_breaker_new_def)

lemma execute_trip_at:
  "execute_trip reason manual (breaker_at fp threshold t x) s =
     (breaker_at fp threshold True x, s @ [CancelAll, DisableAll, Alert reason,
        Published \<lparr>bev_timestamp = 0, bev_reason = reason, bev_drawdown = x,
          bev_drawdown_limit = threshold, bev_manual = manual\<rparr>])"
  by (simp add: execute_trip_def breaker_at_def logging_breaker_def set_cancel_callback_def set_disable_callback_def
      set_alert_callback_def circuit_breaker_new_def trip_event_def publish_def subscribe_def event_bus_new_def
      list_add_def Let_def)

lemma breaker_at_simps [simp]:
  "cb_tripped (breaker_at fp threshold t x) = t" "cb_drawdown_threshold (breaker_at fp threshold t x) = threshold"
  "(breaker_at fp threshold t x)\<lparr>cb_current_drawdown := y\<rparr> = breaker_at fp threshold t y"
  "(breaker_at fp threshold t x)\<lparr>cb_tripped := u\<rparr> = breaker_at fp threshold u x"
  by (simp_all add: breaker_at_def logging_breaker_def set_cancel_callback_def set_disable_callback_def
      set_alert_callback_def circuit_breaker_new_def)

lemma segments_not_Nil [simp]: "segments ops \<noteq> []"
  by (induction ops rule: segments.induct) auto

lemma first_triggers_simps [simp]:
  "first_triggers fp th [] = []"
  "first_triggers fp th ([] # segs) = first_triggers fp th segs"
  "first_triggers fp th ((op # seg) # segs) =
     (if triggers fp th op then op # first_triggers fp th segs else first_triggers fp th (seg # segs))"
  by (simp_all add: first_triggers_def map_filter_simps)

lemma segments_Cons: "op \<noteq> Reset \<Longrightarrow> segments (op # ops) = (op # hd (segments ops)) # tl (segments ops)"
  by (cases op) simp_all

text \<open>One step from a breaker in a known position: a reset, a trigger that trips it, or no effect.\<close>

lemma breaker_step_reset:
  "breaker_step fp sd Reset (breaker_at fp th t x, s) = (breaker_at fp th False x, s)"
  by (simp add: breaker_reset_def)

lemma breaker_step_trips:
  assumes "triggers fp th op"
  shows "\<exists>g y. breaker_step fp sd op (breaker_at fp th False x, s) = (breaker_at fp th True y, s @ g)
    \<and> trip_actions fp sd th op g"
  using assms by (cases op) (auto simp: update_drawdown_def trip_def execute_trip_at Let_def)

lemma breaker_step_ignored:
  assumes "op \<noteq> Reset" "t \<or> \<not> triggers fp th op"
  shows "\<exists>y. breaker_step fp sd op (breaker_at fp th t x, s) = (breaker_at fp th t y, s)"
  using assms by (cases op) (auto simp: update_drawdown_def trip_def Let_def)

lemma breaker_run:
  "\<exists>groups x'. fold (breaker_step fp sd) ops (breaker_at fp th t x, s) =
      (breaker_at fp th (t \<and> tl (segments ops) = [] \<or> list_ex (triggers fp th) (last (segments ops))) x',
       s @ concat groups)
    \<and> list_all2 (trip_actions fp sd th) (first_triggers fp th (if t then tl (segments ops) else segments ops)) groups"
proof (induction ops arbitrary: t x s)
  case Nil
  then show ?case
    by (intro exI [of _ "[]"] exI [of _ x]) (simp add: first_triggers_def map_filter_simps)
next
  case (Cons op ops)
  obtain seg segs where segs: "segments ops = seg # segs"
    by (meson list.exhaust segments_not_Nil)
  consider "op = Reset" | "op \<noteq> Reset" "triggers fp th op" "\<not> t" | "op \<noteq> Reset" "t \<or> \<not> triggers fp th op"
    by blast
  then show ?case
  proof cases
    case 1
    then show ?thesis
      using Cons.IH [of False x s] segs by (simp add: breaker_step_reset del: breaker_step.simps)
  next
    case 2
    then obtain g y where st: "breaker_step fp sd op (breaker_at fp th False x, s) = (breaker_at fp th True y, s @ g)"
      and g: "trip_actions fp sd th op g"
      using breaker_step_trips [of fp th op sd x s] by blast
    obtain groups z where run: "fold (breaker_step fp sd) ops (breaker_at fp th True y, s @ g) =
        (breaker_at fp th (segs = [] \<or> list_ex (triggers fp th) (last (seg # segs))) z, (s @ g) @ concat groups)"
      and rest: "list_all2 (trip_actions fp sd th) (first_triggers fp th segs) groups"
      using Cons.IH [of True y "s @ g"] segs by auto
    have "(segs = [] \<or> list_ex (triggers fp th) (last (seg # segs))) = list_ex (triggers fp th) (last ((op # seg) # segs))"
      using 2 by auto
    then show ?thesis
      using 2 st run rest g segs by (intro exI [of _ "g # groups"] exI [of _ z]) (simp add: segments_Cons)
  next
    case 3
    then obtain y where st: "breaker_step fp sd op (breaker_at fp th t x, s) = (breaker_at fp th t y, s)"
      using breaker_step_ignored [of op t fp th sd x s] by blast
    have "(t \<and> segs = [] \<or> list_ex (triggers fp th) (last (seg # segs))) =
        (t \<and> segs = [] \<or> list_ex (triggers fp th) (last ((op # seg) # segs)))"
      using 3 by auto
    then show ?thesis
      using Cons.IH [of t y s] 3 st segs by (auto simp: segments_Cons)
  qed
qed

text \<open>
  C22. A circuit breaker that starts untripped and receives any sequence of drawdown updates, manual trips and
  resets acts exactly once between two resets: on the first manual trip or drawdown above the threshold it
  cancels the orders, disables the strategies, raises the alert and publishes the event, in this order, and
  ignores every later trigger until the next reset; it ends tripped exactly if a trigger came after the last
  reset.
\<close>

theorem circuit_breaker_latches:
  "\<exists>groups b. fold (breaker_step fp sd) ops (logging_breaker fp th, []) = (b, concat groups)
    \<and> list_all2 (trip_actions fp sd th) (first_triggers fp th (segments ops)) groups
    \<and> is_tripped b = list_ex (triggers fp th) (last (segments ops))"
  using breaker_run [of fp sd ops th False "fp_zero fp" "[]"]
  by (auto simp: logging_breaker_at is_tripped_def)

section \<open>What a fill reports\<close>

text \<open>The dollar value of a position at the last price, and nothing for a symbol without one.\<close>

definition position_value :: "(u64 \<rightharpoonup> price) \<Rightarrow> position_tracker \<Rightarrow> u64 \<Rightarrow> real" where
  "position_value prices positions key =
     (case (positions key, prices key) of
        (Some pos, Some p) \<Rightarrow> of_int (sint pos) * price_to_double exact_fp p | _ \<Rightarrow> 0)"

lemma add_exposure_exact:
  "ex_net (add_exposure exact_fp prices positions e key) = ex_net e + position_value prices positions key"
  "ex_gross (add_exposure exact_fp prices positions e key) = ex_gross e + \<bar>position_value prices positions key\<bar>"
  by (simp_all add: add_exposure_def position_value_def fp_of_i64_def Let_def split: option.splits)

lemma exposure_sums:
  "ex_net (foldl (add_exposure exact_fp prices positions) e keys) =
     ex_net e + (\<Sum>k\<leftarrow>keys. position_value prices positions k)"
  "ex_gross (foldl (add_exposure exact_fp prices positions) e keys) =
     ex_gross e + (\<Sum>k\<leftarrow>keys. \<bar>position_value prices positions k\<bar>)"
  by (induction keys arbitrary: e) (simp_all add: add_exposure_exact)

lemma pnl_monitor_verdict:
  "rr_passed (pnl_monitor_check fp sd m) \<longleftrightarrow> \<not> is_breached fp m \<and> \<not> is_warning fp m"
  "rr_check_type (pnl_monitor_check fp sd m) = (if is_warning fp m \<and> \<not> is_breached fp m then PnLWarning else LossLimit)"
  by (simp_all add: pnl_monitor_check_def)

lemma exposure_monitor_verdict:
  "rr_passed (exposure_monitor_check fp sd m) \<longleftrightarrow>
     \<not> fp_less fp (em_max_gross m) (ex_gross (em_exposure m))
     \<and> \<not> fp_less fp (em_max_net m) (fp_abs fp (ex_net (em_exposure m)))"
  "rr_check_type (exposure_monitor_check fp sd m) = ExposureLimit"
  by (simp_all add: exposure_monitor_check_def Let_def)

text \<open>
  After a fill, with exact arithmetic, the reported breaches are exactly these, in this order: a loss
  breach if the total profit and loss of the portfolio is at or below minus the daily loss limit; else a
  warning if it is at or below the warning fraction of it; and an exposure breach if the sum of the absolute
  position values exceeds the gross limit or the absolute sum of the signed values exceeds the net limit, where
  a position without a known price counts for nothing.
\<close>

theorem post_trade_reports_breaches:
  "map rr_check_type (fst (post_trade_on_fill exact_fp sd keys pkeys pf r)) =
     (let pnl = total_pnl exact_fp pkeys (pf_pnl pf);
          loss = pm_max_loss (por_pnl_monitor r);
          warn = pm_warning_threshold (por_pnl_monitor r);
          m = por_exposure_monitor r;
          values = map (position_value (em_prices m) (pf_positions pf)) keys
      in (if pnl \<le> - loss then [LossLimit] else if pnl \<le> - (loss * warn) then [PnLWarning] else [])
         @ (if em_max_gross m < sum_list (map abs values) \<or> em_max_net m < \<bar>sum_list values\<bar>
            then [ExposureLimit] else []))"
  by (simp add: post_trade_on_fill_def pnl_monitor_verdict exposure_monitor_verdict Let_def is_breached_def
      is_warning_def pnl_monitor_update_def exposure_monitor_update_def exposure_sums exposure_new_def comp_def)

end
