(* ===== verification/Tick_File.thy ===== *)
theory Tick_File
  imports Common_Types
begin

text \<open>
  Tick files: the record and file header layouts (\<open>data/data_types.hpp\<close>), the buffered writer
  (\<open>recorder/binary_writer.{hpp,cpp}\<close>) and the time index (\<open>storage/time_index.{hpp,cpp}\<close>).

  The file behind a path is the list of its bytes on disk, \<open>None\<close> when there is none. An open C
  stream keeps bytes it was given and has not passed on yet; a second stream opened on the path
  reads only what was passed on. What one \<open>fwrite\<close> does is an \<open>io\<close> value: how many items it accepts,
  and how many of the waiting bytes the C library passes on. \<open>fseek\<close>, \<open>fflush\<close> and \<open>fclose\<close> pass on
  all of them. As in the journal, a vector that would grow beyond its \<open>max_size\<close> raises an error,
  and \<open>std::sort\<close> is an argument: it sorts, and orders equal keys as it likes.
\<close>

section \<open>Records and layouts\<close>

definition MAX_PAYLOAD_SIZE :: nat where "MAX_PAYLOAD_SIZE = 128"

record tick_record =
  tr_timestamp :: timestamp
  tr_symbol :: symbol
  tr_message_type :: u8
  tr_payload_length :: u16
  tr_payload :: bytes

definition tick_record_new :: tick_record where
  "tick_record_new = \<lparr>tr_timestamp = 0, tr_symbol = symbol_default, tr_message_type = 0, tr_payload_length = 0,
     tr_payload = replicate MAX_PAYLOAD_SIZE 0\<rparr>"

definition tick_bytes :: "tick_record \<Rightarrow> bytes" where
  "tick_bytes r = put_u64 (tr_timestamp r) @ sym_data (tr_symbol r) @ [tr_message_type r]
     @ put_u16 (tr_payload_length r) @ tr_payload r"

definition sizeof_tick :: nat where "sizeof_tick = 147"

definition tick_of_bytes :: "bytes \<Rightarrow> tick_record" where
  "tick_of_bytes bs = \<lparr>tr_timestamp = get_u64 bs, tr_symbol = symbol_of_data (drop 8 bs), tr_message_type = bs ! 16,
     tr_payload_length = get_u16 (drop 17 bs), tr_payload = take MAX_PAYLOAD_SIZE (drop 19 bs)\<rparr>"

record file_header =
  fh_magic :: u32
  fh_version :: u16
  fh_record_count :: u64
  fh_created_ns :: u64

definition BINARY_FILE_MAGIC :: u32 where "BINARY_FILE_MAGIC = 0x51464254"
definition BINARY_FILE_VERSION :: u16 where "BINARY_FILE_VERSION = 1"
definition DEFAULT_FLUSH_COUNT :: nat where "DEFAULT_FLUSH_COUNT = 256"

definition file_header_new :: file_header where
  "file_header_new = \<lparr>fh_magic = 0x51464254, fh_version = 1, fh_record_count = 0, fh_created_ns = 0\<rparr>"

definition file_header_bytes :: "file_header \<Rightarrow> bytes" where
  "file_header_bytes h = put_u32 (fh_magic h) @ put_u16 (fh_version h) @ put_u64 (fh_record_count h)
     @ put_u64 (fh_created_ns h)"

definition sizeof_file_header :: nat where "sizeof_file_header = 22"

definition file_header_of_bytes :: "bytes \<Rightarrow> file_header" where
  "file_header_of_bytes bs = \<lparr>fh_magic = get_u32 bs, fh_version = get_u16 (drop 4 bs),
     fh_record_count = get_u64 (drop 6 bs), fh_created_ns = get_u64 (drop 14 bs)\<rparr>"

section \<open>The writer\<close>

definition disk_bytes :: "bytes option \<Rightarrow> bytes" where
  "disk_bytes disk = (case disk of None \<Rightarrow> [] | Some bs \<Rightarrow> bs)"

lemma disk_bytes_Some [simp]: "disk_bytes (Some bs) = bs"
  by (simp add: disk_bytes_def)

record io =
  io_accepts :: nat
  io_passes :: nat

record binary_writer =
  bw_open :: bool
  bw_waiting :: bytes
  bw_flush_count :: nat
  bw_record_count :: u64
  bw_next_offset :: u64
  bw_buffer :: "tick_record list"

datatype writer_error = Failed_To_Open | Failed_To_Write_Header | Not_Open | Incomplete_Write

text \<open>\<open>fwrite\<close> on the stream at its end.\<close>

definition stream_append :: "io \<Rightarrow> bytes list \<Rightarrow> bytes \<Rightarrow> bytes \<Rightarrow> bytes \<times> bytes" where
  "stream_append io items waiting disk =
     (let waiting = waiting @ concat (take (io_accepts io) items)
      in (drop (io_passes io) waiting, disk @ take (io_passes io) waiting))"

definition binary_writer_new ::
  "bool \<Rightarrow> io \<Rightarrow> nat \<Rightarrow> bytes option \<Rightarrow> (writer_error + binary_writer) \<times> bytes option" where
  "binary_writer_new opens io flush_count disk =
     (if \<not> opens then (Inl Failed_To_Open, disk)
      else let (waiting, bytes) = stream_append io [file_header_bytes file_header_new] [] [] in
        if io_accepts io < 1 then (Inl Failed_To_Write_Header, Some bytes)
        else (Inr \<lparr>bw_open = True, bw_waiting = waiting, bw_flush_count = flush_count, bw_record_count = 0,
                   bw_next_offset = of_nat sizeof_file_header, bw_buffer = []\<rparr>, Some bytes))"

definition flush_buffer :: "io \<Rightarrow> binary_writer \<times> bytes \<Rightarrow> writer_error option \<times> binary_writer \<times> bytes" where
  "flush_buffer io = (\<lambda>(w, disk).
     if bw_buffer w = [] \<or> \<not> bw_open w then (None, w, disk)
     else let (waiting, disk) = stream_append io (map tick_bytes (bw_buffer w)) (bw_waiting w) disk;
              w = w\<lparr>bw_waiting := waiting\<rparr>
          in if min (io_accepts io) (length (bw_buffer w)) \<noteq> length (bw_buffer w) then (Some Incomplete_Write, w, disk)
             else (None, w\<lparr>bw_next_offset := bw_next_offset w + of_nat (length (bw_buffer w) * sizeof_tick),
                           bw_buffer := []\<rparr>, disk))"

definition bw_write ::
  "io \<Rightarrow> tick_record \<Rightarrow> binary_writer \<times> bytes \<Rightarrow> (writer_error + u64) \<times> binary_writer \<times> bytes" where
  "bw_write io r = (\<lambda>(w, disk).
     if \<not> bw_open w then (Inl Not_Open, w, disk)
     else let offset = bw_next_offset w + of_nat (length (bw_buffer w) * sizeof_tick);
              w = w\<lparr>bw_buffer := bw_buffer w @ [r], bw_record_count := bw_record_count w + 1\<rparr>
          in if bw_flush_count w \<le> length (bw_buffer w)
             then (case flush_buffer io (w, disk) of
                     (Some e, w, disk) \<Rightarrow> (Inl e, w, disk) | (None, w, disk) \<Rightarrow> (Inr offset, w, disk))
             else (Inr offset, w, disk))"

text \<open>\<open>fflush\<close>.\<close>

definition pass_all :: "binary_writer \<times> bytes \<Rightarrow> binary_writer \<times> bytes" where
  "pass_all = (\<lambda>(w, disk). (w\<lparr>bw_waiting := []\<rparr>, disk @ bw_waiting w))"

definition bw_flush :: "io \<Rightarrow> binary_writer \<times> bytes \<Rightarrow> writer_error option \<times> binary_writer \<times> bytes" where
  "bw_flush io = (\<lambda>(w, disk).
     if \<not> bw_open w then (None, w, disk)
     else (case flush_buffer io (w, disk) of
             (Some e, w, disk) \<Rightarrow> (Some e, w, disk) | (None, w, disk) \<Rightarrow> (None, pass_all (w, disk))))"

text \<open>
  The header is written over the beginning of the file; the result of this \<open>fwrite\<close> is not looked
  at. The seeks before and after it pass on what waits.
\<close>

definition write_file_header :: "io \<Rightarrow> binary_writer \<times> bytes \<Rightarrow> binary_writer \<times> bytes" where
  "write_file_header io = (\<lambda>(w, disk).
     if \<not> bw_open w then (w, disk)
     else let (w, disk) = pass_all (w, disk);
              hdr = file_header_bytes (file_header_new\<lparr>fh_record_count := bw_record_count w\<rparr>);
              hdr = (if io_accepts io < 1 then [] else hdr)
          in (w, hdr @ drop (length hdr) disk))"

definition bw_close :: "io \<Rightarrow> io \<Rightarrow> binary_writer \<times> bytes \<Rightarrow> writer_error option \<times> binary_writer \<times> bytes" where
  "bw_close io io' = (\<lambda>(w, disk).
     if \<not> bw_open w then (None, w, disk)
     else (case flush_buffer io (w, disk) of
             (Some e, w, disk) \<Rightarrow> (Some e, w, disk)
           | (None, w, disk) \<Rightarrow>
               let (w, disk) = write_file_header io' (w, disk)
               in (None, w\<lparr>bw_open := False\<rparr>, disk)))"

section \<open>The time index\<close>

record index_entry =
  ix_timestamp :: timestamp
  ix_offset :: u64

type_synonym time_index = "index_entry list"

datatype build_result = Built u64 | Build_Length_Error

function scan_records :: "bytes \<Rightarrow> u64 \<Rightarrow> time_index" where
  "scan_records bs offset =
     (if length bs < sizeof_tick then []
      else \<lparr>ix_timestamp = tr_timestamp (tick_of_bytes (take sizeof_tick bs)), ix_offset = offset\<rparr>
           # scan_records (drop sizeof_tick bs) (offset + of_nat sizeof_tick))"
  by pat_completeness auto
termination scan_records
  by (relation "measure (\<lambda>(bs, _). length bs)") (auto simp: sizeof_tick_def)

declare scan_records.simps [simp del]

definition ti_build ::
  "nat \<Rightarrow> (time_index \<Rightarrow> time_index) \<Rightarrow> bytes option \<Rightarrow> build_result \<times> time_index" where
  "ti_build max_size std_sort file =
     (case file of
        None \<Rightarrow> (Built 0, [])
      | Some bs \<Rightarrow>
          if length bs < sizeof_file_header then (Built 0, [])
          else let header = file_header_of_bytes bs in
            if fh_magic header \<noteq> BINARY_FILE_MAGIC then (Built 0, [])
            else if 0 < fh_record_count header \<and> max_size < unat (fh_record_count header)
            then (Build_Length_Error, [])
            else let entries = std_sort (scan_records (drop sizeof_file_header bs) (of_nat sizeof_file_header))
                 in (Built (of_nat (length entries)), entries))"

text \<open>The search of \<open>std::lower_bound\<close> and \<open>std::upper_bound\<close>: halve the range that holds the answer.\<close>

function bound_loop :: "('e \<Rightarrow> bool) \<Rightarrow> 'e list \<Rightarrow> nat \<Rightarrow> nat \<Rightarrow> nat" where
  "bound_loop before es first len =
     (if len = 0 then first
      else let half = len div 2; middle = first + half in
        if before (es ! middle) then bound_loop before es (middle + 1) (len - half - 1)
        else bound_loop before es first half)"
  by pat_completeness auto
termination bound_loop
  by (relation "measure (\<lambda>(_, _, _, len). len)") auto

declare bound_loop.simps [simp del]

definition std_lower_bound :: "timestamp \<Rightarrow> time_index \<Rightarrow> nat" where
  "std_lower_bound target es = bound_loop (\<lambda>e. ix_timestamp e < target) es 0 (length es)"

definition std_upper_bound :: "timestamp \<Rightarrow> time_index \<Rightarrow> nat" where
  "std_upper_bound target es = bound_loop (\<lambda>e. \<not> target < ix_timestamp e) es 0 (length es)"

definition ti_find :: "timestamp \<Rightarrow> time_index \<Rightarrow> u64" where
  "ti_find target es =
     (if es = [] then 0
      else let it = std_lower_bound target es in if it = length es then 0 else ix_offset (es ! it))"

definition ti_upper_bound :: "timestamp \<Rightarrow> time_index \<Rightarrow> u64" where
  "ti_upper_bound target es =
     (if es = [] then 0
      else let it = std_upper_bound target es in if it = length es then 0 else ix_offset (es ! it))"

definition add_entry :: "timestamp \<Rightarrow> u64 \<Rightarrow> time_index \<Rightarrow> time_index" where
  "add_entry ts offset es = es @ [\<lparr>ix_timestamp = ts, ix_offset = offset\<rparr>]"

definition index_entry_bytes :: "index_entry \<Rightarrow> bytes" where
  "index_entry_bytes e = put_u64 (ix_timestamp e) @ put_u64 (ix_offset e)"

definition index_entry_of_bytes :: "bytes \<Rightarrow> index_entry" where
  "index_entry_of_bytes bs = \<lparr>ix_timestamp = get_u64 bs, ix_offset = get_u64 (drop 8 bs)\<rparr>"

definition ti_save :: "bool \<Rightarrow> io \<Rightarrow> io \<Rightarrow> time_index \<Rightarrow> bytes option \<Rightarrow> bool \<times> bytes option" where
  "ti_save opens io io' es file =
     (if \<not> opens then (False, file)
      else if io_accepts io < 1 then (False, Some [])
      else let content = put_u64 (of_nat (length es)) @ concat (take (io_accepts io') (map index_entry_bytes es)) in
        if es \<noteq> [] \<and> min (io_accepts io') (length es) \<noteq> length es then (False, Some content)
        else (True, Some content))"

fun read_index_entries :: "nat \<Rightarrow> bytes \<Rightarrow> time_index" where
  "read_index_entries 0 bs = []"
| "read_index_entries (Suc n) bs =
     (if length bs < 16 then [] else index_entry_of_bytes (take 16 bs) # read_index_entries n (drop 16 bs))"

datatype index_load_result = Index_Load bool | Index_Length_Error

definition ti_load :: "nat \<Rightarrow> bytes option \<Rightarrow> index_load_result \<times> time_index" where
  "ti_load max_size file =
     (case file of
        None \<Rightarrow> (Index_Load False, [])
      | Some bs \<Rightarrow>
          if length bs < 8 then (Index_Load False, [])
          else let cnt = unat (get_u64 bs) in
            if max_size < cnt then (Index_Length_Error, [])
            else let entries = read_index_entries cnt (drop 8 bs)
                 in if length entries \<noteq> cnt then (Index_Load False, []) else (Index_Load True, entries))"

section \<open>Layouts\<close>

definition tick_ok :: "tick_record \<Rightarrow> bool" where
  "tick_ok r \<longleftrightarrow> length (tr_payload r) = MAX_PAYLOAD_SIZE"

lemma length_tick_bytes: "tick_ok r \<Longrightarrow> length (tick_bytes r) = sizeof_tick"
  by (simp add: tick_ok_def tick_bytes_def sizeof_tick_def MAX_PAYLOAD_SIZE_def)

lemma tick_of_tick_bytes: "tick_ok r \<Longrightarrow> tick_of_bytes (tick_bytes r) = r"
  by (simp add: tick_ok_def tick_bytes_def tick_of_bytes_def MAX_PAYLOAD_SIZE_def nth_append)

lemma length_file_header_bytes [simp]: "length (file_header_bytes h) = sizeof_file_header"
  by (simp add: file_header_bytes_def sizeof_file_header_def)

lemma file_header_of_file_header_bytes [simp]: "file_header_of_bytes (file_header_bytes h @ bs) = h"
  by (simp add: file_header_bytes_def file_header_of_bytes_def)

abbreviation ticks_bytes :: "tick_record list \<Rightarrow> bytes" where
  "ticks_bytes rs \<equiv> concat (map tick_bytes rs)"

lemma length_ticks_bytes: "\<forall>r \<in> set rs. tick_ok r \<Longrightarrow> length (ticks_bytes rs) = length rs * sizeof_tick"
  by (induction rs) (simp_all add: length_tick_bytes)

text \<open>The byte offset of the \<open>n\<close>-th record of a file.\<close>

definition tick_offset :: "nat \<Rightarrow> nat" where
  "tick_offset n = sizeof_file_header + n * sizeof_tick"

definition entry_for :: "tick_record list \<Rightarrow> nat \<Rightarrow> index_entry" where
  "entry_for rs i = \<lparr>ix_timestamp = tr_timestamp (rs ! i), ix_offset = of_nat (tick_offset i)\<rparr>"

definition file_index :: "tick_record list \<Rightarrow> time_index" where
  "file_index rs = map (entry_for rs) [0..<length rs]"

lemma file_index_snoc:
  "file_index (rs @ [r]) = add_entry (tr_timestamp r) (of_nat (tick_offset (length rs))) (file_index rs)"
  by (simp add: file_index_def add_entry_def entry_for_def nth_append)

lemma length_file_index [simp]: "length (file_index rs) = length rs"
  by (simp add: file_index_def)

lemma map_timestamp_file_index: "map ix_timestamp (file_index rs) = map tr_timestamp rs"
  by (rule nth_equalityI) (simp_all add: file_index_def entry_for_def)

lemma scan_records_ticks:
  assumes "\<forall>r \<in> set rs. tick_ok r" and "length junk < sizeof_tick"
  shows "scan_records (ticks_bytes rs @ junk) (of_nat (tick_offset k)) =
    map (\<lambda>i. \<lparr>ix_timestamp = tr_timestamp (rs ! i), ix_offset = of_nat (tick_offset (k + i))\<rparr>) [0..<length rs]"
  using assms(1)
proof (induction rs arbitrary: k)
  case Nil
  then show ?case
    using assms(2) by (simp add: scan_records.simps)
next
  case (Cons r rs)
  have len: "length (tick_bytes r) = sizeof_tick"
    using Cons.prems by (simp add: length_tick_bytes)
  have next_off: "of_nat (tick_offset k) + of_nat sizeof_tick = (of_nat (tick_offset (Suc k)) :: u64)"
    by (simp add: tick_offset_def)
  have "scan_records (ticks_bytes (r # rs) @ junk) (of_nat (tick_offset k)) =
      \<lparr>ix_timestamp = tr_timestamp r, ix_offset = of_nat (tick_offset k)\<rparr>
        # scan_records (ticks_bytes rs @ junk) (of_nat (tick_offset (Suc k)))"
    using Cons.prems by (subst scan_records.simps) (simp add: len next_off tick_of_tick_bytes)
  then show ?case
    using Cons.IH [of "Suc k"] Cons.prems
    by (simp add: map_upt_Suc del: upt_Suc)
qed

section \<open>The binary search\<close>

lemma bound_loop_result:
  assumes "first + len \<le> length es" and "k \<le> first + len" and "first \<le> k"
    and "\<And>i. first \<le> i \<Longrightarrow> i < first + len \<Longrightarrow> before (es ! i) \<longleftrightarrow> i < k"
  shows "bound_loop before es first len = k"
  using assms
proof (induction before es first len rule: bound_loop.induct)
  case (1 before es first len)
  show ?case
  proof (cases "len = 0")
    case True
    then show ?thesis
      using 1 by (simp add: bound_loop.simps)
  next
    case False
    define half where "half = len div 2"
    have half: "half < len"
      using False by (simp add: half_def)
    show ?thesis
    proof (cases "before (es ! (first + half))")
      case True
      then have "first + half < k"
        using "1.prems"(4) [of "first + half"] half by simp
      then have "bound_loop before es (first + half + 1) (len - half - 1) = k"
        using "1.IH"(1) [OF False half_def refl] True "1.prems" half by simp
      then show ?thesis
        using False True by (simp add: bound_loop.simps [of before es first] half_def Let_def)
    next
      case no: False
      then have "k \<le> first + half"
        using "1.prems"(4) [of "first + half"] half by simp
      then have "bound_loop before es first half = k"
        using "1.IH"(2) [OF False half_def refl] no "1.prems" half by simp
      then show ?thesis
        using False no by (simp add: bound_loop.simps [of before es first] half_def Let_def)
    qed
  qed
qed

lemma takeWhile_partition:
  assumes "sorted_wrt (\<lambda>x y. P y \<longrightarrow> P x) xs" and "i < length xs"
  shows "P (xs ! i) \<longleftrightarrow> i < length (takeWhile P xs)"
proof
  assume "i < length (takeWhile P xs)"
  then show "P (xs ! i)"
    by (metis nth_mem set_takeWhileD takeWhile_nth)
next
  assume Pi: "P (xs ! i)"
  show "i < length (takeWhile P xs)"
  proof (rule ccontr)
    let ?n = "length (takeWhile P xs)"
    assume "\<not> i < ?n"
    then have "?n \<le> i"
      by simp
    then have "\<not> P (xs ! ?n)" "P (xs ! ?n)"
      using assms Pi nth_length_takeWhile [of P xs] sorted_wrt_nth_less [OF assms(1), of ?n i]
      by (auto simp: le_less)
    then show False
      by blast
  qed
qed

lemma bound_loop_takeWhile:
  assumes "sorted_wrt (\<lambda>x y. before y \<longrightarrow> before x) es"
  shows "bound_loop before es 0 (length es) = length (takeWhile before es)"
  using takeWhile_partition [OF assms] by (intro bound_loop_result) (simp_all add: length_takeWhile_le)

lemma std_lower_bound_sorted:
  "sorted (map ix_timestamp es) \<Longrightarrow> std_lower_bound t es = length (takeWhile (\<lambda>e. ix_timestamp e < t) es)"
  unfolding std_lower_bound_def sorted_map
  by (rule bound_loop_takeWhile) (erule sorted_wrt_mono_rel [rotated], auto)

lemma std_upper_bound_sorted:
  "sorted (map ix_timestamp es) \<Longrightarrow> std_upper_bound t es = length (takeWhile (\<lambda>e. ix_timestamp e \<le> t) es)"
  unfolding std_upper_bound_def sorted_map not_less
  by (rule bound_loop_takeWhile) (erule sorted_wrt_mono_rel [rotated], auto)

section \<open>What a writer holds\<close>

text \<open>
  The bytes on disk, those that wait in the stream and the buffered records make up the file: the
  first header followed by all records written.
\<close>

definition writer_holds :: "tick_record list \<Rightarrow> binary_writer \<Rightarrow> bytes \<Rightarrow> bool" where
  "writer_holds rs w disk \<longleftrightarrow> bw_open w
     \<and> disk @ bw_waiting w @ ticks_bytes (bw_buffer w) = file_header_bytes file_header_new @ ticks_bytes rs
     \<and> length (bw_buffer w) \<le> length rs
     \<and> bw_next_offset w + of_nat (length (bw_buffer w) * sizeof_tick) = of_nat (tick_offset (length rs))
     \<and> bw_record_count w = of_nat (length rs)"

lemma stream_append_accepting:
  assumes "length items \<le> io_accepts io" and "stream_append io items waiting disk = (waiting', disk')"
  shows "disk' @ waiting' = disk @ waiting @ concat items"
  using assms by (auto simp: stream_append_def Let_def simp del: take_append drop_append)

lemma binary_writer_new_holds:
  assumes "1 \<le> io_accepts io"
  shows "\<exists>w disk'. binary_writer_new True io n disk = (Inr w, Some disk') \<and> writer_holds [] w disk'
    \<and> bw_flush_count w = n"
  using assms
  by (simp add: binary_writer_new_def stream_append_def Let_def writer_holds_def tick_offset_def)

lemma flush_buffer_holds:
  assumes "writer_holds rs w disk" and "length rs \<le> io_accepts io"
  shows "\<exists>w' disk'. flush_buffer io (w, disk) = (None, w', disk') \<and> writer_holds rs w' disk' \<and> bw_buffer w' = []
    \<and> bw_flush_count w' = bw_flush_count w"
proof (cases "bw_buffer w = []")
  case True
  then show ?thesis
    using assms(1) by (simp add: flush_buffer_def)
next
  case False
  obtain waiting disk' where st: "stream_append io (map tick_bytes (bw_buffer w)) (bw_waiting w) disk = (waiting, disk')"
    by fastforce
  have acc: "length (bw_buffer w) \<le> io_accepts io"
    using assms by (simp add: writer_holds_def)
  have "disk' @ waiting = disk @ bw_waiting w @ ticks_bytes (bw_buffer w)"
    using stream_append_accepting [OF _ st] acc by simp
  then show ?thesis
    using False assms(1) acc st by (auto simp: flush_buffer_def writer_holds_def Let_def min_def)
qed

lemma bw_write_holds:
  assumes "writer_holds rs w disk" and "Suc (length rs) \<le> io_accepts io"
  shows "\<exists>w' disk'. bw_write io r (w, disk) = (Inr (of_nat (tick_offset (length rs))), w', disk')
    \<and> writer_holds (rs @ [r]) w' disk' \<and> bw_flush_count w' = bw_flush_count w"
proof -
  let ?w = "w\<lparr>bw_buffer := bw_buffer w @ [r], bw_record_count := bw_record_count w + 1\<rparr>"
  have off: "bw_next_offset w + of_nat (length (bw_buffer w) * sizeof_tick) = of_nat (tick_offset (length rs))"
    and opn: "bw_open w"
    using assms(1) by (simp_all add: writer_holds_def)
  have next_off: "bw_next_offset w + of_nat (Suc (length (bw_buffer w)) * sizeof_tick) =
      of_nat (tick_offset (Suc (length rs)))"
    using off by (simp add: tick_offset_def algebra_simps)
  have "disk @ bw_waiting w @ ticks_bytes (bw_buffer w) @ tick_bytes r =
      (disk @ bw_waiting w @ ticks_bytes (bw_buffer w)) @ tick_bytes r"
    by simp
  then have holds: "writer_holds (rs @ [r]) ?w disk"
    using assms(1) next_off by (simp add: writer_holds_def)
  show ?thesis
  proof (cases "bw_flush_count w \<le> Suc (length (bw_buffer w))")
    case True
    then show ?thesis
      using flush_buffer_holds [OF holds, of io] assms(2) off opn
      by (auto simp: bw_write_def Let_def)
  next
    case False
    then show ?thesis
      using holds off opn by (simp add: bw_write_def Let_def)
  qed
qed

lemma bw_flush_holds:
  assumes "writer_holds rs w disk" and "length rs \<le> io_accepts io"
  shows "\<exists>w'. bw_flush io (w, disk) = (None, w', file_header_bytes file_header_new @ ticks_bytes rs)
    \<and> writer_holds rs w' (file_header_bytes file_header_new @ ticks_bytes rs)"
proof -
  obtain w' disk' where "flush_buffer io (w, disk) = (None, w', disk')" "writer_holds rs w' disk'" "bw_buffer w' = []"
    using flush_buffer_holds [OF assms] by blast
  then show ?thesis
    using assms(1) by (auto simp: bw_flush_def pass_all_def writer_holds_def)
qed

definition final_header :: "nat \<Rightarrow> file_header" where
  "final_header n = file_header_new\<lparr>fh_record_count := of_nat n\<rparr>"

lemma bw_close_holds:
  assumes "writer_holds rs w disk" and "length rs \<le> io_accepts io" and "1 \<le> io_accepts io'"
  shows "\<exists>w'. bw_close io io' (w, disk) = (None, w', file_header_bytes (final_header (length rs)) @ ticks_bytes rs)
    \<and> \<not> bw_open w'"
proof -
  obtain w' disk' where fl: "flush_buffer io (w, disk) = (None, w', disk')" and holds: "writer_holds rs w' disk'"
    and "bw_buffer w' = []"
    using flush_buffer_holds [OF assms(1,2)] by blast
  then have "disk' @ bw_waiting w' = file_header_bytes file_header_new @ ticks_bytes rs"
    by (simp add: writer_holds_def)
  then have "drop sizeof_file_header (disk' @ bw_waiting w') = ticks_bytes rs"
    by simp
  then show ?thesis
    using assms(1,3) fl holds
    by (simp add: bw_close_def write_file_header_def pass_all_def writer_holds_def final_header_def Let_def
        del: drop_append)
qed

section \<open>The index of a file\<close>

lemma sorted_key_perm_unique:
  assumes "sorted (map f xs)" and "sorted_wrt (<) (map f ys)" and "mset xs = mset ys"
  shows "xs = ys"
proof -
  have ys: "sorted (map f ys)" "distinct (map f ys)"
    using assms(2) by (simp_all add: strict_sorted_iff)
  have "mset (map f xs) = mset (map f ys)"
    using assms(3) by (metis mset_map)
  then have "map f xs = map f ys"
    using assms(1) ys(1) by (metis properties_for_sort)
  moreover have "inj_on f (set xs \<union> set ys)"
    using ys(2) mset_eq_setD [OF assms(3)] by (simp add: distinct_map)
  ultimately show ?thesis
    by (metis inj_on_map_eq_map)
qed

text \<open>What the standard library promises of \<open>std::sort\<close> with the order of the entries.\<close>

definition sorts_entries :: "(time_index \<Rightarrow> time_index) \<Rightarrow> bool" where
  "sorts_entries srt \<longleftrightarrow> (\<forall>es. sorted (map ix_timestamp (srt es)) \<and> mset (srt es) = mset es)"

lemma sorts_entries_distinct:
  "sorts_entries srt \<Longrightarrow> sorted_wrt (<) (map ix_timestamp es) \<Longrightarrow> srt es = es"
  by (rule sorted_key_perm_unique [of ix_timestamp]) (simp_all only: sorts_entries_def)

lemma ti_build_file:
  assumes "\<forall>r \<in> set rs. tick_ok r" and "fh_magic h = BINARY_FILE_MAGIC" and "unat (fh_record_count h) \<le> max_size"
    and "length junk < sizeof_tick"
  shows "ti_build max_size srt (Some (file_header_bytes h @ ticks_bytes rs @ junk)) =
    (Built (of_nat (length (srt (file_index rs)))), srt (file_index rs))"
proof -
  have "scan_records (ticks_bytes rs @ junk) (of_nat sizeof_file_header) = file_index rs"
    using scan_records_ticks [OF assms(1,4), of 0] by (simp add: file_index_def entry_for_def tick_offset_def)
  then show ?thesis
    using assms(2,3) by (auto simp: ti_build_def Let_def)
qed

text \<open>Saving an index and loading the file gives the entries back.\<close>

lemma length_index_entry_bytes [simp]: "length (index_entry_bytes e) = 16"
  by (simp add: index_entry_bytes_def)

lemma read_index_entries_save:
  "read_index_entries (length es) (concat (map index_entry_bytes es) @ bs) = es"
  by (induction es) (simp_all add: index_entry_bytes_def index_entry_of_bytes_def)

theorem time_index_roundtrip:
  assumes "1 \<le> io_accepts io" and "length es \<le> io_accepts io'" and "length es < 2 ^ 64" and "length es \<le> max_size"
  shows "fst (ti_save True io io' es file)
    \<and> ti_load max_size (snd (ti_save True io io' es file)) = (Index_Load True, es)"
proof -
  have "unat (of_nat (length es) :: u64) = length es"
    using assms(3) by (simp add: unat_of_nat)
  then show ?thesis
    using assms read_index_entries_save [of es "[]"] by (simp add: ti_save_def ti_load_def Let_def)
qed

end
