(* ===== verification/Tick_Store.thy ===== *)
theory Tick_Store
  imports Tick_File
begin

text \<open>
  The tick store (\<open>storage/tick_store.{hpp,cpp}\<close>): a tick file, the time index kept beside it in memory,
  and a writer that is opened at the first write. Its theorems say when a range query returns exactly
  the records of the range, and two ways in which it does not.
\<close>

section \<open>State and operations\<close>

record tick_store =
  ts_index :: time_index
  ts_writer :: "binary_writer option"

text \<open>The constructor, \<open>None\<close> for an index that cannot be held.\<close>

definition tick_store_new ::
  "nat \<Rightarrow> (time_index \<Rightarrow> time_index) \<Rightarrow> bytes option \<Rightarrow> tick_store option" where
  "tick_store_new max_size std_sort disk =
     (if disk = None then Some \<lparr>ts_index = [], ts_writer = None\<rparr>
      else case ti_build max_size std_sort disk of
          (Build_Length_Error, _) \<Rightarrow> None
        | (Built _, es) \<Rightarrow> Some \<lparr>ts_index = es, ts_writer = None\<rparr>)"

function read_loop :: "bool \<Rightarrow> symbol \<Rightarrow> timestamp \<Rightarrow> timestamp \<Rightarrow> bytes \<Rightarrow> tick_record list" where
  "read_loop filter_symbol symbol start_time end_time bs =
     (if length bs < sizeof_tick then []
      else let record = tick_of_bytes (take sizeof_tick bs) in
        if end_time < tr_timestamp record then []
        else (if start_time \<le> tr_timestamp record \<and> (\<not> filter_symbol \<or> tr_symbol record = symbol) then [record] else [])
             @ read_loop filter_symbol symbol start_time end_time (drop sizeof_tick bs))"
  by pat_completeness auto
termination read_loop
  by (relation "measure (\<lambda>(_, _, _, _, bs). length bs)") (auto simp: sizeof_tick_def)

declare read_loop.simps [simp del]

text \<open>A byte offset of \<open>2 ^ 63\<close> or more is a negative \<open>long\<close>, which \<open>fseek\<close> refuses.\<close>

definition read_range ::
  "symbol \<Rightarrow> timestamp \<Rightarrow> timestamp \<Rightarrow> bytes option \<Rightarrow> tick_store \<Rightarrow> tick_record list" where
  "read_range symbol start_time end_time disk st =
     (if ts_index st = [] then []
      else case disk of
          None \<Rightarrow> []
        | Some bs \<Rightarrow>
            let start_offset = ti_find start_time (ts_index st);
                filter_symbol = (as_key symbol \<noteq> 0)
            in if start_offset = 0 \<or> 2 ^ 63 \<le> unat start_offset then []
               else read_loop filter_symbol symbol start_time end_time (drop (unat start_offset) bs))"

definition read_range_all :: "timestamp \<Rightarrow> timestamp \<Rightarrow> bytes option \<Rightarrow> tick_store \<Rightarrow> tick_record list" where
  "read_range_all start_time end_time disk st = read_range symbol_default start_time end_time disk st"

text \<open>The writer, opened by the first write; the file behind an open writer exists.\<close>

definition ensure_writer ::
  "bool \<Rightarrow> io \<Rightarrow> tick_store \<Rightarrow> bytes option \<Rightarrow> (writer_error + binary_writer \<times> bytes) \<times> bytes option" where
  "ensure_writer opens io st disk =
     (case ts_writer st of
        Some w \<Rightarrow> (Inr (w, disk_bytes disk), disk)
      | None \<Rightarrow>
          (case binary_writer_new opens io DEFAULT_FLUSH_COUNT disk of
             (Inl e, disk) \<Rightarrow> (Inl e, disk)
           | (Inr w, disk) \<Rightarrow> (Inr (w, disk_bytes disk), disk)))"

definition ts_write ::
  "bool \<Rightarrow> io \<Rightarrow> io \<Rightarrow> tick_record \<Rightarrow> tick_store \<times> bytes option
     \<Rightarrow> (writer_error + u64) \<times> tick_store \<times> bytes option" where
  "ts_write opens io io' record = (\<lambda>(st, disk).
     case ensure_writer opens io st disk of
       (Inl e, disk) \<Rightarrow> (Inl e, st, disk)
     | (Inr (w, bs), _) \<Rightarrow>
         (case bw_write io' record (w, bs) of
            (Inl e, w, bs) \<Rightarrow> (Inl e, st\<lparr>ts_writer := Some w\<rparr>, Some bs)
          | (Inr offset, w, bs) \<Rightarrow>
              (Inr offset, st\<lparr>ts_writer := Some w, ts_index := add_entry (tr_timestamp record) offset (ts_index st)\<rparr>,
               Some bs)))"

definition ts_flush ::
  "io \<Rightarrow> tick_store \<times> bytes option \<Rightarrow> writer_error option \<times> tick_store \<times> bytes option" where
  "ts_flush io = (\<lambda>(st, disk).
     case ts_writer st of
       None \<Rightarrow> (None, st, disk)
     | Some w \<Rightarrow> (case bw_flush io (w, disk_bytes disk) of
                    (e, w, bs) \<Rightarrow> (e, st\<lparr>ts_writer := Some w\<rparr>, Some bs)))"

definition ts_close ::
  "io \<Rightarrow> io \<Rightarrow> tick_store \<times> bytes option \<Rightarrow> writer_error option \<times> tick_store \<times> bytes option" where
  "ts_close io io' = (\<lambda>(st, disk).
     case ts_writer st of
       None \<Rightarrow> (None, st, disk)
     | Some w \<Rightarrow> (case bw_close io io' (w, disk_bytes disk) of
                    (Some e, w, bs) \<Rightarrow> (Some e, st\<lparr>ts_writer := Some w\<rparr>, Some bs)
                  | (None, w, bs) \<Rightarrow> (None, st\<lparr>ts_writer := None\<rparr>, Some bs)))"

text \<open>\<open>Inl None\<close> stands for the length error of the vector.\<close>

definition rebuild_index ::
  "nat \<Rightarrow> (time_index \<Rightarrow> time_index) \<Rightarrow> io \<Rightarrow> io \<Rightarrow> tick_store \<times> bytes option
     \<Rightarrow> (writer_error option + u64) \<times> tick_store \<times> bytes option" where
  "rebuild_index max_size std_sort io io' s =
     (case ts_close io io' s of
        (Some e, st, disk) \<Rightarrow> (Inl (Some e), st, disk)
      | (None, st, disk) \<Rightarrow>
          (case ti_build max_size std_sort disk of
             (Build_Length_Error, es) \<Rightarrow> (Inl None, st\<lparr>ts_index := es\<rparr>, disk)
           | (Built n, es) \<Rightarrow> (Inr n, st\<lparr>ts_index := es\<rparr>, disk)))"

definition record_count :: "tick_store \<Rightarrow> nat" where
  "record_count st = length (ts_index st)"

section \<open>Range queries\<close>

definition in_range :: "symbol \<Rightarrow> timestamp \<Rightarrow> timestamp \<Rightarrow> tick_record \<Rightarrow> bool" where
  "in_range symbol a b r \<longleftrightarrow> a \<le> tr_timestamp r \<and> tr_timestamp r \<le> b \<and> (symbol = symbol_default \<or> tr_symbol r = symbol)"

lemma read_loop_ticks:
  assumes "\<forall>r \<in> set rs. tick_ok r" and "sorted (map tr_timestamp rs)"
  shows "read_loop (as_key symbol \<noteq> 0) symbol a b (ticks_bytes rs) = filter (in_range symbol a b) rs"
  using assms
proof (induction rs)
  case Nil
  then show ?case
    by (simp add: read_loop.simps sizeof_tick_def)
next
  case (Cons r rs)
  have "read_loop (as_key symbol \<noteq> 0) symbol a b (ticks_bytes (r # rs)) =
      (if b < tr_timestamp r then []
       else (if in_range symbol a b r then [r] else [])
         @ read_loop (as_key symbol \<noteq> 0) symbol a b (ticks_bytes rs))"
    using Cons.prems(1)
    by (subst read_loop.simps) (auto simp: length_tick_bytes tick_of_tick_bytes as_key_default in_range_def)
  moreover have "b < tr_timestamp r \<Longrightarrow> filter (in_range symbol a b) (r # rs) = []"
    using Cons.prems(2) by (auto simp: in_range_def filter_empty_conv)
  ultimately show ?case
    using Cons by auto
qed

lemma drop_tick_offset:
  assumes "\<forall>r \<in> set rs. tick_ok r" and "i \<le> length rs"
  shows "drop (tick_offset i) (file_header_bytes h @ ticks_bytes rs) = ticks_bytes (drop i rs)"
proof -
  have "length (ticks_bytes (take i rs)) = i * sizeof_tick"
    using length_ticks_bytes [of "take i rs"] assms by (auto dest: in_set_takeD)
  moreover have "ticks_bytes rs = ticks_bytes (take i rs) @ ticks_bytes (drop i rs)"
    by (metis append_take_drop_id concat_append map_append)
  ultimately show ?thesis
    by (simp add: tick_offset_def)
qed

lemma filter_drop_takeWhile:
  "(\<And>x. P x \<Longrightarrow> \<not> Q x) \<Longrightarrow> filter Q (drop (length (takeWhile P xs)) xs) = filter Q xs"
  by (induction xs) auto

text \<open>A store whose index lists the records of its file in time order answers every query exactly.\<close>

lemma read_range_exact:
  assumes ok: "\<forall>r \<in> set rs. tick_ok r" and srt: "sorted (map tr_timestamp rs)"
    and small: "tick_offset (length rs) < 2 ^ 63" and ix: "ts_index st = file_index rs"
  shows "read_range symbol a b (Some (file_header_bytes h @ ticks_bytes rs)) st = filter (in_range symbol a b) rs"
proof (cases "rs = []")
  case True
  then show ?thesis
    using ix by (simp add: read_range_def file_index_def)
next
  case False
  define i where "i = length (takeWhile (\<lambda>r. tr_timestamp r < a) rs)"
  have "length (takeWhile (\<lambda>e. ix_timestamp e < a) (file_index rs)) =
      length (takeWhile (\<lambda>t. t < a) (map ix_timestamp (file_index rs)))"
    by (simp add: takeWhile_map comp_def)
  then have it: "std_lower_bound a (file_index rs) = i"
    using srt by (subst std_lower_bound_sorted) (simp_all add: map_timestamp_file_index takeWhile_map i_def comp_def)
  have le: "i \<le> length rs"
    by (simp add: i_def length_takeWhile_le)
  have rest: "filter (in_range symbol a b) (drop i rs) = filter (in_range symbol a b) rs"
    unfolding i_def by (rule filter_drop_takeWhile) (auto simp: in_range_def)
  have none: "i = length rs \<Longrightarrow> filter (in_range symbol a b) rs = []"
    using rest by simp
  have off: "0 < tick_offset i" "tick_offset i < 2 ^ 63"
    using small le by (auto simp: tick_offset_def sizeof_tick_def sizeof_file_header_def)
  then have unat_off: "unat (of_nat (tick_offset i) :: u64) = tick_offset i"
    by (intro unat_of_nat_small) simp
  then have pos: "(of_nat (tick_offset i) :: u64) \<noteq> 0"
    using off(1) by (metis less_numeral_extra(3) unat_0)
  have find: "ti_find a (file_index rs) = (if i = length rs then 0 else of_nat (tick_offset i))"
    using False le it by (auto simp: ti_find_def Let_def file_index_def entry_for_def)
  have "read_loop (as_key symbol \<noteq> 0) symbol a b (ticks_bytes (drop i rs)) = filter (in_range symbol a b) rs"
    using ok srt rest by (subst read_loop_ticks) (auto dest: in_set_dropD simp: drop_map [symmetric] sorted_wrt_drop)
  moreover have "file_index rs \<noteq> []"
    using False by (simp add: file_index_def)
  ultimately show ?thesis
    using ix off unat_off pos none drop_tick_offset [OF ok le, of h]
    by (auto simp: read_range_def find Let_def simp del: drop_append)
qed

section \<open>Runs of writes\<close>

fun write_all ::
  "(io \<times> io \<times> tick_record) list \<Rightarrow> tick_store \<times> bytes option \<Rightarrow> writer_error option \<times> tick_store \<times> bytes option" where
  "write_all [] s = (None, s)"
| "write_all ((io, io', r) # ws) s =
     (case ts_write True io io' r s of (Inl e, s) \<Rightarrow> (Some e, s) | (Inr _, s) \<Rightarrow> write_all ws s)"

abbreviation written :: "(io \<times> io \<times> tick_record) list \<Rightarrow> tick_record list" where
  "written ws \<equiv> map (\<lambda>(_, _, r). r) ws"

text \<open>Every \<open>fwrite\<close> of a run takes all it is given.\<close>

definition accepting :: "(io \<times> io \<times> tick_record) list \<Rightarrow> bool" where
  "accepting ws \<longleftrightarrow> (\<forall>(io, io', r) \<in> set ws. length ws \<le> io_accepts io \<and> length ws \<le> io_accepts io')"

definition store_holds :: "tick_record list \<Rightarrow> tick_store \<times> bytes option \<Rightarrow> bool" where
  "store_holds rs s \<longleftrightarrow> (\<exists>st w disk. s = (st, Some disk) \<and> ts_writer st = Some w \<and> writer_holds rs w disk)"

lemma ts_write_holds:
  assumes "store_holds rs s" and "Suc (length rs) \<le> io_accepts io'"
  shows "\<exists>offset s'. ts_write opens io io' r s = (Inr offset, s') \<and> store_holds (rs @ [r]) s'
    \<and> ts_index (fst s') = add_entry (tr_timestamp r) (of_nat (tick_offset (length rs))) (ts_index (fst s))"
proof -
  obtain st w disk where s: "s = (st, Some disk)" "ts_writer st = Some w" "writer_holds rs w disk"
    using assms(1) by (auto simp: store_holds_def)
  then show ?thesis
    using bw_write_holds [OF s(3) assms(2), of r] by (auto simp: ts_write_def ensure_writer_def store_holds_def)
qed

text \<open>The first write of a store opens a new file, whatever was there before.\<close>

lemma ts_write_first:
  assumes "ts_writer st = None" and "1 \<le> io_accepts io" and "1 \<le> io_accepts io'"
  shows "\<exists>offset s'. ts_write True io io' r (st, disk) = (Inr offset, s') \<and> store_holds [r] s'
    \<and> ts_index (fst s') = add_entry (tr_timestamp r) (of_nat (tick_offset 0)) (ts_index st)"
proof -
  obtain w disk' where new: "binary_writer_new True io DEFAULT_FLUSH_COUNT disk = (Inr w, Some disk')"
    and holds: "writer_holds [] w disk'"
    using binary_writer_new_holds [OF assms(2), of DEFAULT_FLUSH_COUNT disk] by blast
  then show ?thesis
    using bw_write_holds [OF holds, of io' r] assms
    by (auto simp: ts_write_def ensure_writer_def store_holds_def)
qed

lemma write_all_holds:
  assumes "store_holds rs s" and "\<forall>(io, io', r) \<in> set ws. length rs + length ws \<le> io_accepts io'"
    and "ts_index (fst s) = pre @ file_index rs"
  shows "\<exists>s'. write_all ws s = (None, s') \<and> store_holds (rs @ written ws) s'
    \<and> ts_index (fst s') = pre @ file_index (rs @ written ws)"
  using assms
proof (induction ws arbitrary: rs s)
  case Nil
  then show ?case by simp
next
  case (Cons x ws)
  obtain io io' r where x: "x = (io, io', r)"
    by (cases x)
  obtain offset s' where s': "ts_write True io io' r s = (Inr offset, s')" "store_holds (rs @ [r]) s'"
    "ts_index (fst s') = add_entry (tr_timestamp r) (of_nat (tick_offset (length rs))) (ts_index (fst s))"
    using ts_write_holds [OF Cons.prems(1), of io' True io r] Cons.prems(2) x by auto
  have "ts_index (fst s') = pre @ file_index (rs @ [r])"
    using s'(3) Cons.prems(3) by (simp add: file_index_snoc) (simp add: add_entry_def)
  then show ?case
    using Cons.IH [OF s'(2)] Cons.prems(2) s'(1) x by fastforce
qed

lemma write_all_new:
  assumes "accepting ws" and "ws \<noteq> []" and "ts_writer st = None"
  shows "\<exists>s'. write_all ws (st, disk) = (None, s') \<and> store_holds (written ws) s'
    \<and> ts_index (fst s') = ts_index st @ file_index (written ws)"
proof -
  obtain io io' r ws' where ws: "ws = (io, io', r) # ws'"
    using assms(2) by (cases ws) auto
  have acc: "1 \<le> io_accepts io" "1 \<le> io_accepts io'" "\<forall>(io, io', r) \<in> set ws'. length [r] + length ws' \<le> io_accepts io'"
    using assms(1) ws by (auto simp: accepting_def)
  obtain offset s' where s': "ts_write True io io' r (st, disk) = (Inr offset, s')" "store_holds [r] s'"
    "ts_index (fst s') = add_entry (tr_timestamp r) (of_nat (tick_offset 0)) (ts_index st)"
    using ts_write_first [OF assms(3) acc(1,2)] by blast
  have "ts_index (fst s') = ts_index st @ file_index [r]"
    using s'(3) by (simp add: add_entry_def file_index_def entry_for_def)
  then show ?thesis
    using write_all_holds [OF s'(2), of ws' "ts_index st"] acc(3) s'(1) ws by auto
qed

lemma ts_flush_holds:
  assumes "store_holds rs (st, disk)" and "length rs \<le> io_accepts io"
  shows "\<exists>st'. ts_flush io (st, disk) = (None, st', Some (file_header_bytes file_header_new @ ticks_bytes rs))
    \<and> ts_index st' = ts_index st"
  using assms bw_flush_holds [of rs _ _ io] by (fastforce simp: store_holds_def ts_flush_def)

lemma ts_close_holds:
  assumes "store_holds rs (st, disk)" and "length rs \<le> io_accepts io" and "1 \<le> io_accepts io'"
  shows "ts_close io io' (st, disk) =
    (None, st\<lparr>ts_writer := None\<rparr>, Some (file_header_bytes (final_header (length rs)) @ ticks_bytes rs))"
  using assms bw_close_holds [of rs _ _ io io'] by (fastforce simp: store_holds_def ts_close_def)

lemma tick_store_reopened:
  assumes "\<forall>r \<in> set rs. tick_ok r" and "length rs \<le> max_size" and "length rs < 2 ^ 64"
  shows "tick_store_new max_size srt (Some (file_header_bytes (final_header (length rs)) @ ticks_bytes rs)) =
    Some \<lparr>ts_index = srt (file_index rs), ts_writer = None\<rparr>"
proof -
  have "unat (fh_record_count (final_header (length rs))) \<le> max_size"
    using assms(2,3) by (simp add: final_header_def unat_of_nat)
  moreover have "fh_magic (final_header (length rs)) = BINARY_FILE_MAGIC"
    by (simp add: final_header_def file_header_new_def BINARY_FILE_MAGIC_def)
  ultimately show ?thesis
    using ti_build_file [OF assms(1), of "final_header (length rs)" max_size "[]" srt]
    by (simp add: tick_store_new_def sizeof_tick_def)
qed

section \<open>Properties\<close>

definition empty_store :: tick_store where
  "empty_store = \<lparr>ts_index = [], ts_writer = None\<rparr>"

text \<open>
  C23. What is written to a tick store is what a range query returns. Records written in time order to
  a new store and flushed, wherever the buffers of the writer and of the C library were passed on, are returned
  by \<open>read_range\<close> exactly when they are in the time range and of the asked symbol, in the order they were written.
  The same holds after the store is closed and the file opened by another store, whatever \<open>std::sort\<close> does with
  equal keys, if no two records have the same time. (The file is smaller than \<open>2 ^ 63\<close> bytes and no \<open>fwrite\<close> fails.)
\<close>

theorem tick_store_range_exact:
  assumes "accepting ws" and "ws \<noteq> []" and "\<forall>r \<in> set (written ws). tick_ok r"
    and "sorted (map tr_timestamp (written ws))" and "tick_offset (length ws) < 2 ^ 63"
    and "length ws \<le> io_accepts io" and "1 \<le> io_accepts io'"
  shows "\<exists>st disk. write_all ws (empty_store, None) = (None, st, disk)
    \<and> (\<exists>st1 disk1. ts_flush io (st, disk) = (None, st1, disk1)
        \<and> read_range symbol a b disk1 st1 = filter (in_range symbol a b) (written ws))
    \<and> (\<forall>srt max_size. sorts_entries srt \<and> length ws \<le> max_size \<and> distinct (map tr_timestamp (written ws)) \<longrightarrow>
        (\<exists>st2 disk2 st3. ts_close io io' (st, disk) = (None, st2, disk2) \<and> tick_store_new max_size srt disk2 = Some st3
          \<and> read_range symbol a b disk2 st3 = filter (in_range symbol a b) (written ws)))"
proof -
  let ?rs = "written ws"
  obtain st disk where run: "write_all ws (empty_store, None) = (None, st, disk)" "store_holds ?rs (st, disk)"
    and ix: "ts_index st = file_index ?rs"
    using write_all_new [OF assms(1,2), of empty_store None] by (auto simp: empty_store_def)
  obtain st1 where "ts_flush io (st, disk) = (None, st1, Some (file_header_bytes file_header_new @ ticks_bytes ?rs))"
    and "ts_index st1 = ts_index st"
    using ts_flush_holds [OF run(2), of io] assms(6) by auto
  then have flushed: "\<exists>st1 disk1. ts_flush io (st, disk) = (None, st1, disk1)
      \<and> read_range symbol a b disk1 st1 = filter (in_range symbol a b) ?rs"
    using read_range_exact [OF assms(3,4)] assms(5) ix by auto
  moreover have "\<exists>st2 disk2 st3. ts_close io io' (st, disk) = (None, st2, disk2) \<and> tick_store_new max_size srt disk2 = Some st3
      \<and> read_range symbol a b disk2 st3 = filter (in_range symbol a b) ?rs"
    if hyps: "sorts_entries srt" "length ws \<le> max_size" "distinct (map tr_timestamp ?rs)" for srt max_size
  proof -
    have "sorted_wrt (<) (map ix_timestamp (file_index ?rs))"
      using assms(4) hyps(3) by (simp add: map_timestamp_file_index strict_sorted_iff)
    then have "srt (file_index ?rs) = file_index ?rs"
      using sorts_entries_distinct [OF hyps(1)] by simp
    moreover have "length ?rs < 2 ^ 64"
      using assms(5) by (simp add: tick_offset_def sizeof_tick_def)
    ultimately show ?thesis
      using ts_close_holds [OF run(2), of io io'] tick_store_reopened [OF assms(3), of max_size srt] hyps(2) assms
        read_range_exact [OF assms(3,4)] by auto
  qed
  ultimately show ?thesis
    using run(1) by blast
qed

definition sample_tick :: "u64 \<Rightarrow> tick_record" where
  "sample_tick t = tick_record_new\<lparr>tr_timestamp := t\<rparr>"

lemma tick_ok_sample [simp]: "tick_ok (sample_tick t)"
  by (simp add: tick_ok_def sample_tick_def tick_record_new_def)

theorem tick_store_range_exact_witness:
  "\<exists>st disk st1 disk1. write_all [(\<lparr>io_accepts = 9, io_passes = 3\<rparr>, \<lparr>io_accepts = 9, io_passes = 0\<rparr>, sample_tick 5),
        (\<lparr>io_accepts = 9, io_passes = 1\<rparr>, \<lparr>io_accepts = 9, io_passes = 50\<rparr>, sample_tick 7)] (empty_store, None)
      = (None, st, disk)
    \<and> ts_flush \<lparr>io_accepts = 9, io_passes = 100\<rparr> (st, disk) = (None, st1, disk1)
    \<and> read_range symbol_default 6 9 disk1 st1 = [sample_tick 7]"
proof -
  let ?ws = "[(\<lparr>io_accepts = 9, io_passes = 3\<rparr>, \<lparr>io_accepts = 9, io_passes = 0\<rparr>, sample_tick 5),
        (\<lparr>io_accepts = 9, io_passes = 1\<rparr>, \<lparr>io_accepts = 9, io_passes = 50\<rparr>, sample_tick 7)]"
  have "accepting ?ws" "?ws \<noteq> []" "\<forall>r \<in> set (written ?ws). tick_ok r" "sorted (map tr_timestamp (written ?ws))"
    "tick_offset (length ?ws) < 2 ^ 63"
    by (simp_all add: accepting_def tick_offset_def sizeof_tick_def sizeof_file_header_def)
      (simp add: sample_tick_def)
  from tick_store_range_exact [OF this, of "\<lparr>io_accepts = 9, io_passes = 100\<rparr>" "\<lparr>io_accepts = 9, io_passes = 100\<rparr>"
      symbol_default 6 9]
  show ?thesis
    by (auto simp: in_range_def) (auto simp: sample_tick_def)
qed

text \<open>
  Writing to a store opened on an existing file destroys it. The index that the constructor builds lists the
  records of the file; the first write opens the file for writing from scratch. After one write and a close the file
  holds the new record alone, while the index still counts the lost ones.
\<close>

theorem reopened_store_truncates:
  assumes "\<forall>r \<in> set rs. tick_ok r" and "length rs \<le> max_size" and "length rs < 2 ^ 64" and "sorts_entries srt"
    and "1 \<le> io_accepts io" and "1 \<le> io_accepts io'"
  shows "\<exists>st offset st1 disk1 st2 disk2.
    tick_store_new max_size srt (Some (file_header_bytes (final_header (length rs)) @ ticks_bytes rs)) = Some st
    \<and> ts_write True io io r (st, Some (file_header_bytes (final_header (length rs)) @ ticks_bytes rs)) = (Inr offset, st1, disk1)
    \<and> ts_close io io' (st1, disk1) = (None, st2, disk2)
    \<and> record_count st2 = length rs + 1 \<and> disk2 = Some (file_header_bytes (final_header 1) @ tick_bytes r)"
proof -
  let ?disk = "Some (file_header_bytes (final_header (length rs)) @ ticks_bytes rs)"
  obtain st where st: "tick_store_new max_size srt ?disk = Some st" "ts_writer st = None"
    "length (ts_index st) = length rs"
    using tick_store_reopened [OF assms(1-3), of srt] mset_eq_length [of "srt (file_index rs)" "file_index rs"] assms(4)
    by (simp add: sorts_entries_def)
  obtain offset st1 disk1 where w: "ts_write True io io r (st, ?disk) = (Inr offset, st1, disk1)"
    "store_holds [r] (st1, disk1)" "length (ts_index st1) = Suc (length rs)"
    using ts_write_first [OF st(2) assms(5,5), of r ?disk] st(3) by (auto simp: add_entry_def)
  then show ?thesis
    using st(1) ts_close_holds [OF w(2), of io io'] assms(5,6) by (simp add: record_count_def)
qed

theorem reopened_store_truncates_witness:
  "\<exists>st offset st1 disk1 st2 disk2.
    tick_store_new 9 (sort_key ix_timestamp)
      (Some (file_header_bytes (final_header 2) @ ticks_bytes [sample_tick 5, sample_tick 7])) = Some st
    \<and> ts_write True \<lparr>io_accepts = 1, io_passes = 0\<rparr> \<lparr>io_accepts = 1, io_passes = 0\<rparr> (sample_tick 8)
        (st, Some (file_header_bytes (final_header 2) @ ticks_bytes [sample_tick 5, sample_tick 7])) = (Inr offset, st1, disk1)
    \<and> ts_close \<lparr>io_accepts = 1, io_passes = 0\<rparr> \<lparr>io_accepts = 1, io_passes = 0\<rparr> (st1, disk1) = (None, st2, disk2)
    \<and> record_count st2 = 3 \<and> disk2 = Some (file_header_bytes (final_header 1) @ tick_bytes (sample_tick 8))"
proof -
  have "\<forall>r \<in> set [sample_tick 5, sample_tick 7]. tick_ok r" "length [sample_tick 5, sample_tick 7] \<le> 9"
    "length [sample_tick 5, sample_tick 7] < 2 ^ 64" "sorts_entries (sort_key ix_timestamp)"
    "1 \<le> io_accepts \<lparr>io_accepts = 1, io_passes = 0\<rparr>"
    by (simp_all add: sorts_entries_def)
  from reopened_store_truncates [OF this this(5), of "sample_tick 8"] show ?thesis
    by (simp add: numeral_2_eq_2 numeral_3_eq_3)
qed

text \<open>
  Records with equal times can be lost by reopening: \<open>std::sort\<close> may put the entry of the later of two such records
  first, and a query that starts at their time then starts reading behind the earlier one.
\<close>

lemma sorts_entries_swap:
  assumes "ix_timestamp e = ix_timestamp e'"
  shows "sorts_entries (\<lambda>es. if es = [e, e'] then [e', e] else sort_key ix_timestamp es)"
  using assms by (simp add: sorts_entries_def)

theorem equal_times_lost:
  assumes "tick_ok r1" and "tick_ok r2" and "tr_timestamp r1 = t" and "tr_timestamp r2 = t"
  shows "\<exists>srt st. sorts_entries srt
    \<and> tick_store_new 2 srt (Some (file_header_bytes (final_header 2) @ ticks_bytes [r1, r2])) = Some st
    \<and> read_range symbol_default t t (Some (file_header_bytes (final_header 2) @ ticks_bytes [r1, r2])) st = [r2]"
proof -
  let ?e = "entry_for [r1, r2] 0" and ?e' = "entry_for [r1, r2] 1"
  let ?srt = "\<lambda>es. if es = [?e, ?e'] then [?e', ?e] else sort_key ix_timestamp es"
  let ?st = "\<lparr>ts_index = [?e', ?e], ts_writer = None\<rparr>"
  have srt: "sorts_entries ?srt"
    by (rule sorts_entries_swap) (simp add: entry_for_def assms(3,4))
  have two: "length [r1, r2] = 2" "length [r1, r2] < 2 ^ 64"
    by simp_all
  have "file_index [r1, r2] = [?e, ?e']"
    by (simp add: file_index_def)
  then have new: "tick_store_new 2 ?srt (Some (file_header_bytes (final_header 2) @ ticks_bytes [r1, r2])) = Some ?st"
    using tick_store_reopened [OF _ _ two(2), of 2 ?srt] assms(1,2) unfolding two(1) by simp
  have "std_lower_bound t [?e', ?e] = 0"
    by (subst std_lower_bound_sorted) (simp_all add: entry_for_def assms(3,4))
  then have "ti_find t [?e', ?e] = of_nat (tick_offset 1)"
    by (simp add: ti_find_def entry_for_def)
  moreover have "drop (tick_offset 1) (file_header_bytes (final_header 2) @ ticks_bytes [r1, r2]) = ticks_bytes [r2]"
    using drop_tick_offset [of "[r1, r2]" 1] assms(1,2) by simp
  moreover have "read_loop (as_key symbol_default \<noteq> 0) symbol_default t t (ticks_bytes [r2]) = [r2]"
    using read_loop_ticks [of "[r2]" symbol_default t t] assms(2,4) by (simp add: in_range_def)
  ultimately have "read_range symbol_default t t (Some (file_header_bytes (final_header 2) @ ticks_bytes [r1, r2])) ?st = [r2]"
    by (simp add: read_range_def Let_def tick_offset_def sizeof_file_header_def sizeof_tick_def del: drop_append)
  then show ?thesis
    using srt new by blast
qed

end
