(* ===== verification/Replay.thy ===== *)
theory Replay
  imports Tick_Store Pipeline Floating
begin

text \<open>
  Recording and replay: the recorder that stores every parsed event (\<open>recorder/tick_recorder.{hpp,cpp}\<close>), the
  virtual clock, the engine that publishes the ticks of a store, the merger of several streams and the publisher
  with pause and seek (\<open>data/replay/*.{hpp,cpp}\<close>). The wall clock is an argument, in nanoseconds. The
  priority queue of the merger is the list of its entries, and \<open>pick\<close> says which of the smallest it yields.
\<close>

section \<open>The recorder\<close>

record tick_recorder =
  tre_recording :: bool
  tre_writer :: "binary_writer option"

definition tick_recorder_new :: tick_recorder where
  "tick_recorder_new = \<lparr>tre_recording = False, tre_writer = None\<rparr>"

text \<open>
  The struct of the message is copied to the front of the zeroed payload. Only additions and trades
  carry a symbol.
\<close>

fun tick_symbol :: "parsed_message \<Rightarrow> symbol" where
  "tick_symbol (AddOrder m) = ao_symbol m"
| "tick_symbol (TradeMessage m) = tm_symbol m"
| "tick_symbol _ = symbol_default"

definition to_tick_record :: "parsed_event \<Rightarrow> tick_record" where
  "to_tick_record event =
     (let bs = payload_bytes (pe_message event) in
      tick_record_new\<lparr>tr_timestamp := pe_receive_timestamp event,
        tr_message_type := msg_TYPE (pe_message event), tr_symbol := tick_symbol (pe_message event),
        tr_payload_length := of_nat (length bs),
        tr_payload := bs @ drop (length bs) (replicate MAX_PAYLOAD_SIZE 0)\<rparr>)"

datatype recorder_error = Already_Recording | Writer_Error writer_error

definition recorder_start ::
  "bool \<Rightarrow> io \<Rightarrow> tick_recorder \<times> bytes option \<Rightarrow> recorder_error option \<times> tick_recorder \<times> bytes option" where
  "recorder_start opens io = (\<lambda>(r, disk).
     if tre_recording r then (Some Already_Recording, r, disk)
     else case binary_writer_new opens io DEFAULT_FLUSH_COUNT disk of
         (Inl e, disk) \<Rightarrow> (Some (Writer_Error e), r, disk)
       | (Inr w, disk) \<Rightarrow> (None, \<lparr>tre_recording = True, tre_writer = Some w\<rparr>, disk))"

text \<open>\<open>writer_\<close> is set whenever \<open>recording_\<close> is.\<close>

definition on_parsed_event ::
  "io \<Rightarrow> parsed_event \<Rightarrow> tick_recorder \<times> bytes option \<Rightarrow> recorder_error option \<times> tick_recorder \<times> bytes option" where
  "on_parsed_event io event = (\<lambda>(r, disk).
     if \<not> tre_recording r then (None, r, disk)
     else case bw_write io (to_tick_record event) (the (tre_writer r), disk_bytes disk) of
         (Inl e, w, bs) \<Rightarrow> (Some (Writer_Error e), r\<lparr>tre_writer := Some w\<rparr>, Some bs)
       | (Inr _, w, bs) \<Rightarrow> (None, r\<lparr>tre_writer := Some w\<rparr>, Some bs))"

definition recorder_stop ::
  "io \<Rightarrow> io \<Rightarrow> tick_recorder \<times> bytes option \<Rightarrow> recorder_error option \<times> tick_recorder \<times> bytes option" where
  "recorder_stop io io' = (\<lambda>(r, disk).
     if \<not> tre_recording r then (None, r, disk)
     else let r = r\<lparr>tre_recording := False\<rparr> in
       case bw_close io io' (the (tre_writer r), disk_bytes disk) of
         (Some e, w, bs) \<Rightarrow> (Some (Writer_Error e), r\<lparr>tre_writer := Some w\<rparr>, Some bs)
       | (None, _, bs) \<Rightarrow> (None, r\<lparr>tre_writer := None\<rparr>, Some bs))"

definition records_written :: "tick_recorder \<Rightarrow> u64" where
  "records_written r = (case tre_writer r of Some w \<Rightarrow> bw_record_count w | None \<Rightarrow> 0)"

section \<open>The clock\<close>

record 'd replay_clock =
  rc_speed :: 'd
  rc_running :: bool
  rc_wall_origin :: int
  rc_virtual_origin :: timestamp
  rc_manual_now :: timestamp

definition replay_clock_new :: "'d fp \<Rightarrow> 'd replay_clock" where
  "replay_clock_new fp = \<lparr>rc_speed = fp_of_nat fp 1, rc_running = False, rc_wall_origin = 0, rc_virtual_origin = 0,
     rc_manual_now = 0\<rparr>"

definition speed_is_zero :: "'d fp \<Rightarrow> 'd replay_clock \<Rightarrow> bool" where
  "speed_is_zero fp c \<longleftrightarrow> fp_le fp (rc_speed c) (fp_zero fp) \<and> fp_le fp (fp_zero fp) (rc_speed c)"

definition clock_now :: "'d fp \<Rightarrow> int \<Rightarrow> 'd replay_clock \<Rightarrow> timestamp" where
  "clock_now fp wall c =
     (if \<not> rc_running c \<or> speed_is_zero fp c then rc_manual_now c
      else rc_virtual_origin c
        + of_int (fp_trunc fp (fp_mul fp (fp_of_int fp (wall - rc_wall_origin c)) (rc_speed c))))"

text \<open>The current time is read before the lock, the new origin under it.\<close>

definition set_speed :: "'d fp \<Rightarrow> int \<Rightarrow> int \<Rightarrow> 'd \<Rightarrow> 'd replay_clock \<Rightarrow> 'd replay_clock" where
  "set_speed fp wall wall' multiplier c =
     (let multiplier = (if fp_less fp multiplier (fp_zero fp) then fp_zero fp else multiplier);
          c = (if rc_running c
               then let cur = clock_now fp wall c
                    in c\<lparr>rc_virtual_origin := cur, rc_wall_origin := wall', rc_manual_now := cur\<rparr>
               else c)
      in c\<lparr>rc_speed := multiplier\<rparr>)"

definition clock_start :: "int \<Rightarrow> timestamp \<Rightarrow> 'd replay_clock \<Rightarrow> 'd replay_clock" where
  "clock_start wall origin c =
     c\<lparr>rc_virtual_origin := origin, rc_manual_now := origin, rc_wall_origin := wall, rc_running := True\<rparr>"

definition advance_to :: "timestamp \<Rightarrow> 'd replay_clock \<Rightarrow> 'd replay_clock" where
  "advance_to ts c = c\<lparr>rc_manual_now := ts\<rparr>"

text \<open>
  Whether \<open>wait_until\<close> returns at once, and otherwise the wall time at which it gives up waiting. The
  arguments are the successive readings of the wall clock.
\<close>

definition wait_deadline :: "'d fp \<Rightarrow> int \<Rightarrow> int \<Rightarrow> int \<Rightarrow> timestamp \<Rightarrow> 'd replay_clock \<Rightarrow> int option" where
  "wait_deadline fp wall wall' wall'' target c =
     (if speed_is_zero fp c then None
      else if target \<le> clock_now fp wall c then None
      else let cur_virtual = clock_now fp wall' c in
        if target \<le> cur_virtual then None
        else let virtual_delta = target - cur_virtual
             in Some (wall'' + fp_trunc fp (fp_div fp (fp_of_nat fp (unat virtual_delta)) (rc_speed c))))"

section \<open>The engine\<close>

text \<open>What reaches the callback: the bytes of the payload and the time of the tick.\<close>

type_synonym published = "bytes \<times> timestamp"

definition publish_tick :: "tick_record \<Rightarrow> published" where
  "publish_tick t = (take (unat (tr_payload_length t)) (tr_payload t), tr_timestamp t)"

record 'd replay_engine =
  re_ticks :: "tick_record list"
  re_running :: bool
  re_ticks_published :: u64
  re_bytes_published :: u64
  re_clock :: "'d replay_clock"

definition engine_load ::
  "(tick_record list \<Rightarrow> tick_record list) \<Rightarrow> timestamp \<Rightarrow> timestamp \<Rightarrow> bytes option \<Rightarrow> tick_store
     \<Rightarrow> 'd replay_engine \<Rightarrow> 'd replay_engine" where
  "engine_load std_sort start_time end_time disk st e =
     e\<lparr>re_ticks := std_sort (read_range_all start_time end_time disk st)\<rparr>"

definition engine_load_symbol ::
  "(tick_record list \<Rightarrow> tick_record list) \<Rightarrow> symbol \<Rightarrow> timestamp \<Rightarrow> timestamp \<Rightarrow> bytes option \<Rightarrow> tick_store
     \<Rightarrow> 'd replay_engine \<Rightarrow> 'd replay_engine" where
  "engine_load_symbol std_sort symbol start_time end_time disk st e =
     e\<lparr>re_ticks := std_sort (read_range symbol start_time end_time disk st)\<rparr>"

text \<open>
  The loop: \<open>stops\<close> tells for each tick whether another thread called \<open>stop\<close> before the first or before the
  second look at \<open>running_\<close>; without an entry nobody did.
\<close>

fun engine_loop ::
  "'d fp \<Rightarrow> (bool \<times> bool) list \<Rightarrow> tick_record list \<Rightarrow> 'd replay_engine \<Rightarrow> published list \<times> 'd replay_engine" where
  "engine_loop fp stops [] e = ([], e)"
| "engine_loop fp stops (tick # ticks) e =
     (let (stop1, stop2) = (case stops of [] \<Rightarrow> (False, False) | s # _ \<Rightarrow> s) in
      if stop1 \<or> stop2 then ([], e\<lparr>re_running := False\<rparr>)
      else let e = (if speed_is_zero fp (re_clock e)
                    then e\<lparr>re_clock := advance_to (tr_timestamp tick) (re_clock e)\<rparr> else e);
               e = e\<lparr>re_ticks_published := re_ticks_published e + 1,
                     re_bytes_published := re_bytes_published e + ucast (tr_payload_length tick)\<rparr>;
               (out, e) = engine_loop fp (tl stops) ticks e
           in (publish_tick tick # out, e))"

definition engine_start ::
  "'d fp \<Rightarrow> int \<Rightarrow> (bool \<times> bool) list \<Rightarrow> 'd replay_engine \<Rightarrow> published list \<times> 'd replay_engine" where
  "engine_start fp wall stops e =
     (if re_ticks e = [] then ([], e)
      else let e = e\<lparr>re_running := True, re_ticks_published := 0, re_bytes_published := 0,
                     re_clock := clock_start wall (tr_timestamp (hd (re_ticks e))) (re_clock e)\<rparr>;
               (out, e) = engine_loop fp stops (re_ticks e) e
           in (out, e\<lparr>re_running := False\<rparr>))"

section \<open>The merger\<close>

record stream_merger =
  sm_merged_ticks :: "tick_record list"
  sm_total_ticks :: nat
  sm_stream_count :: nat

definition stream_merger_new :: stream_merger where
  "stream_merger_new = \<lparr>sm_merged_ticks = [], sm_total_ticks = 0, sm_stream_count = 0\<rparr>"

definition add_ticks :: "tick_record list \<Rightarrow> stream_merger \<Rightarrow> stream_merger" where
  "add_ticks ticks m = \<lparr>sm_merged_ticks = sm_merged_ticks m @ ticks, sm_total_ticks = length (sm_merged_ticks m @ ticks),
     sm_stream_count = sm_stream_count m + 1\<rparr>"

definition add_stream ::
  "bytes option \<Rightarrow> tick_store \<Rightarrow> symbol \<Rightarrow> timestamp \<Rightarrow> timestamp \<Rightarrow> stream_merger \<Rightarrow> stream_merger" where
  "add_stream disk st symbol start_time end_time m = add_ticks (read_range symbol start_time end_time disk st) m"

record heap_entry =
  he_timestamp :: timestamp
  he_tick_index :: nat

definition build_heap :: "tick_record list \<Rightarrow> heap_entry list" where
  "build_heap ticks = map (\<lambda>i. \<lparr>he_timestamp = tr_timestamp (ticks ! i), he_tick_index = i\<rparr>) [0..<length ticks]"

definition heap_pop :: "(heap_entry list \<Rightarrow> nat) \<Rightarrow> heap_entry list \<Rightarrow> heap_entry \<times> heap_entry list" where
  "heap_pop pick heap = (heap ! pick heap, take (pick heap) heap @ drop (Suc (pick heap)) heap)"

text \<open>The ticks the loop hands to its callback when nobody stops it; the heap has \<open>n\<close> entries.\<close>

fun pop_all :: "(heap_entry list \<Rightarrow> nat) \<Rightarrow> nat \<Rightarrow> heap_entry list \<Rightarrow> heap_entry list" where
  "pop_all pick 0 heap = []"
| "pop_all pick (Suc n) heap = (let (entry, heap) = heap_pop pick heap in entry # pop_all pick n heap)"

definition merge_order :: "(heap_entry list \<Rightarrow> nat) \<Rightarrow> stream_merger \<Rightarrow> tick_record list" where
  "merge_order pick m =
     map (\<lambda>entry. sm_merged_ticks m ! he_tick_index entry)
       (pop_all pick (length (sm_merged_ticks m)) (build_heap (sm_merged_ticks m)))"

section \<open>The publisher\<close>

text \<open>
  The thread that runs \<open>start\<close> and the threads that call the controls share the flags of the publisher and of
  the merger. The first is at one of four places: at the head of the merger's loop, waiting for the
  end of a pause with a tick that passed the seek, waiting for the clock with a tick, or done.
\<close>

datatype publisher_place = At_Head | In_Pause tick_record | At_Clock tick_record | Done

record 'd publisher =
  pb_running :: bool
  pb_merger_running :: bool
  pb_paused :: bool
  pb_seek_target :: timestamp
  pb_place :: publisher_place
  pb_todo :: "tick_record list"
  pb_clock_started :: bool
  pb_clock :: "'d replay_clock"
  pb_ticks_merged :: u64
  pb_ticks_published :: u64
  pb_bytes_published :: u64
  pb_out :: "published list"

definition publisher_start :: "tick_record list \<Rightarrow> 'd replay_clock \<Rightarrow> 'd publisher" where
  "publisher_start ticks clock = \<lparr>pb_running = True, pb_merger_running = True, pb_paused = False, pb_seek_target = 0,
     pb_place = At_Head, pb_todo = ticks, pb_clock_started = False, pb_clock = clock, pb_ticks_merged = 0,
     pb_ticks_published = 0, pb_bytes_published = 0, pb_out = []\<rparr>"

text \<open>The return of the callback to the loop of the merger.\<close>

definition callback_returns :: "'d publisher \<Rightarrow> 'd publisher" where
  "callback_returns p = p\<lparr>pb_place := At_Head, pb_ticks_merged := pb_ticks_merged p + 1\<rparr>"

text \<open>
  One step of the publishing thread, at a wall time. A step that waits leaves the state as it is.
\<close>

definition publisher_step :: "'d fp \<Rightarrow> int \<Rightarrow> 'd publisher \<Rightarrow> 'd publisher" where
  "publisher_step fp wall p =
     (case pb_place p of
        Done \<Rightarrow> p
      | At_Head \<Rightarrow>
          (if pb_todo p = [] \<or> \<not> pb_merger_running p
           then p\<lparr>pb_place := Done, pb_merger_running := False, pb_running := False\<rparr>
           else let tick = hd (pb_todo p); p = p\<lparr>pb_todo := tl (pb_todo p)\<rparr> in
             if \<not> pb_running p then callback_returns p
             else if 0 < pb_seek_target p \<and> tr_timestamp tick < pb_seek_target p then callback_returns p
             else p\<lparr>pb_place := In_Pause tick\<rparr>)
      | In_Pause tick \<Rightarrow>
          (if pb_paused p \<and> pb_running p then p
           else if \<not> pb_running p then callback_returns p
           else let p = (if pb_clock_started p then p
                         else p\<lparr>pb_clock := clock_start wall (tr_timestamp tick) (pb_clock p), pb_clock_started := True\<rparr>)
                in p\<lparr>pb_place := At_Clock tick\<rparr>)
      | At_Clock tick \<Rightarrow>
          (if \<not> pb_running p then callback_returns p
           else let p = (if speed_is_zero fp (pb_clock p)
                         then p\<lparr>pb_clock := advance_to (tr_timestamp tick) (pb_clock p)\<rparr> else p)
                in callback_returns (p\<lparr>pb_out := pb_out p @ [publish_tick tick],
                     pb_ticks_published := pb_ticks_published p + 1,
                     pb_bytes_published := pb_bytes_published p + ucast (tr_payload_length tick)\<rparr>)))"

datatype control = Stop | Pause | Resume | Seek timestamp

fun publisher_control :: "control \<Rightarrow> 'd publisher \<Rightarrow> 'd publisher" where
  "publisher_control Stop p = p\<lparr>pb_running := False, pb_merger_running := False, pb_paused := False\<rparr>"
| "publisher_control Pause p = p\<lparr>pb_paused := True\<rparr>"
| "publisher_control Resume p = p\<lparr>pb_paused := False\<rparr>"
| "publisher_control (Seek target) p = p\<lparr>pb_seek_target := target\<rparr>"

text \<open>A run: steps of the publishing thread and calls of other threads, each call one step.\<close>

datatype publisher_op = Work int | Control control

definition publisher_run :: "'d fp \<Rightarrow> publisher_op list \<Rightarrow> 'd publisher \<Rightarrow> 'd publisher" where
  "publisher_run fp = fold (\<lambda>x. case x of Work wall \<Rightarrow> publisher_step fp wall | Control c \<Rightarrow> publisher_control c)"

section \<open>Recording\<close>

lemma tick_ok_to_tick_record [simp]: "tick_ok (to_tick_record event)"
  by (cases "pe_message event")
    (simp_all add: tick_ok_def to_tick_record_def tick_record_new_def MAX_PAYLOAD_SIZE_def Let_def)

lemma publish_to_tick_record [simp]:
  "publish_tick (to_tick_record event) = (payload_bytes (pe_message event), pe_receive_timestamp event)"
  by (cases "pe_message event") (simp_all add: publish_tick_def to_tick_record_def Let_def)

lemma to_tick_record_timestamp [simp]: "tr_timestamp (to_tick_record event) = pe_receive_timestamp event"
  by (simp add: to_tick_record_def Let_def)

fun record_all ::
  "(io \<times> parsed_event) list \<Rightarrow> tick_recorder \<times> bytes option \<Rightarrow> recorder_error option \<times> tick_recorder \<times> bytes option" where
  "record_all [] s = (None, s)"
| "record_all ((io, event) # evs) s =
     (case on_parsed_event io event s of (Some e, s) \<Rightarrow> (Some e, s) | (None, s) \<Rightarrow> record_all evs s)"

definition recording_of :: "tick_record list \<Rightarrow> tick_recorder \<times> bytes option \<Rightarrow> bool" where
  "recording_of rs s \<longleftrightarrow> (\<exists>w disk. s = (\<lparr>tre_recording = True, tre_writer = Some w\<rparr>, Some disk) \<and> writer_holds rs w disk)"

lemma record_all_holds:
  assumes "recording_of rs s" and "\<forall>(io, event) \<in> set evs. length rs + length evs \<le> io_accepts io"
  shows "\<exists>s'. record_all evs s = (None, s') \<and> recording_of (rs @ map (to_tick_record \<circ> snd) evs) s'"
  using assms
proof (induction evs arbitrary: rs s)
  case Nil
  then show ?case by simp
next
  case (Cons x evs)
  obtain io event where x: "x = (io, event)"
    by fastforce
  obtain w disk where s: "s = (\<lparr>tre_recording = True, tre_writer = Some w\<rparr>, Some disk)" "writer_holds rs w disk"
    using Cons.prems(1) by (auto simp: recording_of_def)
  obtain w' disk' where "bw_write io (to_tick_record event) (w, disk) = (Inr (of_nat (tick_offset (length rs))), w', disk')"
    and holds: "writer_holds (rs @ [to_tick_record event]) w' disk'"
    using bw_write_holds [OF s(2), of io "to_tick_record event"] Cons.prems(2) x by auto
  then have st: "on_parsed_event io event s = (None, \<lparr>tre_recording = True, tre_writer = Some w'\<rparr>, Some disk')"
    using s(1) by (simp add: on_parsed_event_def)
  have "recording_of (rs @ [to_tick_record event]) (\<lparr>tre_recording = True, tre_writer = Some w'\<rparr>, Some disk')"
    using holds by (simp add: recording_of_def)
  from Cons.IH [OF this] Cons.prems(2) show ?case
    using st x by (fastforce)
qed

lemma recorded_file:
  assumes "1 \<le> io_accepts io" and "\<forall>(io, event) \<in> set evs. length evs \<le> io_accepts io"
    and "length evs \<le> io_accepts io1" and "1 \<le> io_accepts io2"
  shows "\<exists>s1 s2 r. recorder_start True io (tick_recorder_new, disk) = (None, s1) \<and> record_all evs s1 = (None, s2)
    \<and> recorder_stop io1 io2 s2 = (None, r, Some (file_header_bytes (final_header (length evs))
        @ ticks_bytes (map (to_tick_record \<circ> snd) evs)))"
proof -
  obtain w disk' where new: "binary_writer_new True io DEFAULT_FLUSH_COUNT disk = (Inr w, Some disk')"
    and holds: "writer_holds [] w disk'"
    using binary_writer_new_holds [OF assms(1), of DEFAULT_FLUSH_COUNT disk] by blast
  let ?s1 = "(\<lparr>tre_recording = True, tre_writer = Some w\<rparr>, Some disk')"
  have start: "recorder_start True io (tick_recorder_new, disk) = (None, ?s1)"
    using new by (simp add: recorder_start_def tick_recorder_new_def)
  have "recording_of [] ?s1"
    using holds by (simp add: recording_of_def)
  from record_all_holds [OF this, of evs] assms(2) obtain s2 where run: "record_all evs ?s1 = (None, s2)"
    and "recording_of (map (to_tick_record \<circ> snd) evs) s2"
    by auto
  then obtain w2 disk2 where s2: "s2 = (\<lparr>tre_recording = True, tre_writer = Some w2\<rparr>, Some disk2)"
    and holds2: "writer_holds (map (to_tick_record \<circ> snd) evs) w2 disk2"
    by (auto simp: recording_of_def)
  then show ?thesis
    using start run bw_close_holds [OF holds2, of io1 io2] assms(3,4)
    by (fastforce simp: recorder_stop_def)
qed

section \<open>Publishing\<close>

lemma engine_loop_all: "fst (engine_loop fp [] ticks e) = map publish_tick ticks"
  by (induction ticks arbitrary: e) (simp_all add: Let_def split_beta)

definition sorts_ticks :: "(tick_record list \<Rightarrow> tick_record list) \<Rightarrow> bool" where
  "sorts_ticks srt \<longleftrightarrow> (\<forall>ts. sorted (map tr_timestamp (srt ts)) \<and> mset (srt ts) = mset ts)"

text \<open>
  C24. A recording replays completely and in order. Record any events with increasing times, stop, open
  the file with a store, load all of it into the engine and start it, whatever \<open>std::sort\<close> does with equal
  keys and wherever the buffers were passed on: the callback receives exactly one call per
  event, in order, with the event's time and the bytes of its message struct. (The file is smaller than
  \<open>2 ^ 63\<close> bytes, no \<open>fwrite\<close> fails and nobody stops the engine.)
\<close>

theorem recording_replays:
  assumes "1 \<le> io_accepts io" and "\<forall>(io, event) \<in> set evs. length evs \<le> io_accepts io"
    and "length evs \<le> io_accepts io1" and "1 \<le> io_accepts io2"
    and "sorted_wrt (<) (map (pe_receive_timestamp \<circ> snd) evs)" and "tick_offset (length evs) < 2 ^ 63"
    and "length evs \<le> max_size" and "sorts_entries srt" and "sorts_ticks tsrt"
  shows "\<exists>s1 s2 r disk' st. recorder_start True io (tick_recorder_new, disk) = (None, s1) \<and> record_all evs s1 = (None, s2)
    \<and> recorder_stop io1 io2 s2 = (None, r, disk') \<and> tick_store_new max_size srt disk' = Some st
    \<and> fst (engine_start fp wall [] (engine_load tsrt 0 (- 1) disk' st e)) =
        map (\<lambda>(_, event). (payload_bytes (pe_message event), pe_receive_timestamp event)) evs"
proof -
  let ?rs = "map (to_tick_record \<circ> snd) evs"
  let ?disk = "Some (file_header_bytes (final_header (length ?rs)) @ ticks_bytes ?rs)"
  let ?st = "\<lparr>ts_index = file_index ?rs, ts_writer = None\<rparr>"
  have times: "map tr_timestamp ?rs = map (pe_receive_timestamp \<circ> snd) evs"
    by simp
  have ok: "\<forall>r \<in> set ?rs. tick_ok r"
    by simp
  have "length ?rs < 2 ^ 64"
    using assms(6) by (simp add: tick_offset_def sizeof_tick_def)
  moreover have "sorted_wrt (<) (map ix_timestamp (file_index ?rs))"
    using assms(5) by (simp only: map_timestamp_file_index times)
  then have "srt (file_index ?rs) = file_index ?rs"
    by (rule sorts_entries_distinct [OF assms(8)])
  ultimately have new: "tick_store_new max_size srt ?disk = Some ?st"
    using tick_store_reopened [OF ok, of max_size srt] assms(7) by simp
  have srt: "sorted (map tr_timestamp ?rs)"
    using assms(5) by (simp only: times strict_sorted_iff)
  have "read_range symbol_default 0 (- 1) ?disk ?st = filter (in_range symbol_default 0 (- 1)) ?rs"
    using assms(6) by (intro read_range_exact [OF ok srt]) simp_all
  moreover have "filter (in_range symbol_default 0 (- 1)) ?rs = ?rs"
    by (simp add: filter_id_conv in_range_def)
  ultimately have "read_range_all 0 (- 1) ?disk ?st = ?rs"
    by (simp add: read_range_all_def)
  moreover have "tsrt ?rs = ?rs"
    using assms(9) assms(5) times by (intro sorted_key_perm_unique [of tr_timestamp]) (simp_all only: sorts_ticks_def)
  ultimately have "fst (engine_start fp wall [] (engine_load tsrt 0 (- 1) ?disk ?st e)) = map publish_tick ?rs"
    by (simp add: engine_start_def engine_load_def Let_def split_beta engine_loop_all)
  moreover have "map publish_tick ?rs = map (\<lambda>(_, event). (payload_bytes (pe_message event), pe_receive_timestamp event)) evs"
    by auto
  ultimately show ?thesis
    using recorded_file [OF assms(1-4), of disk] new by fastforce
qed

definition carries_trade :: "parsed_message \<Rightarrow> bool" where
  "carries_trade m = (case m of TradeMessage _ \<Rightarrow> True | _ \<Rightarrow> False)"

lemma short_datagram_no_events:
  assumes "length d < BATCH_HEADER_SIZE + 19"
  shows "packet_events \<lparr>rp_data = d, rp_receive_timestamp = t\<rparr> = []"
proof (cases "length d < BATCH_HEADER_SIZE")
  case True
  then show ?thesis
    by (auto simp: packet_events_def frame_parse_def fpr_ok_def Let_def view_events_def)
next
  case False
  have "\<not> vr_ok (validate (view_bytes d v))" if "v \<in> set (fpr_messages (frame_parse (Some d)))" for v
  proof
    assume "vr_ok (validate (view_bytes d v))"
    then obtain m ts rest where "view_bytes d v = wire m ts @ rest"
      using validate_ok_is_wire by metis
    then have "msg_WIRE_SIZE m \<le> length (view_bytes d v)"
      using length_wire [of m ts] by simp
    moreover have "19 \<le> msg_WIRE_SIZE m"
      by (cases m) simp_all
    moreover have "length (view_bytes d v) \<le> length d - BATCH_HEADER_SIZE"
      using consecutive_in_bounds [OF frame_parse_consecutive that] False by (auto simp: view_bytes_def)
    ultimately show False
      using assms False by simp
  qed
  then show ?thesis
    by (auto simp: packet_events_def view_events_def Let_def)
qed

text \<open>
  A replayed order message is never parsed. What the engine hands to the network stage is the bare
  struct, without the batch header and the message header that the parser expects: whatever the message, an add,
  cancel, execute or replace that comes back from a recording yields no event at all in the parser stage.
\<close>

theorem replayed_orders_not_parsed:
  "carries_trade (pe_message event)
     \<or> packet_events \<lparr>rp_data = take RAW_PACKET_MAX (fst (publish_tick (to_tick_record event))),
         rp_receive_timestamp = snd (publish_tick (to_tick_record event))\<rparr> = []"
proof (cases "carries_trade (pe_message event)")
  case False
  then have "length (payload_bytes (pe_message event)) < BATCH_HEADER_SIZE + 19"
    by (cases "pe_message event") (simp_all add: carries_trade_def BATCH_HEADER_SIZE_def)
  then show ?thesis
    using short_datagram_no_events by (simp add: min.strict_coboundedI2)
qed simp

definition sample_events :: "(io \<times> parsed_event) list" where
  "sample_events = [(\<lparr>io_accepts = 9, io_passes = 4\<rparr>, \<lparr>pe_message = CancelOrder \<lparr>co_order_id = 17\<rparr>, pe_receive_timestamp = 5\<rparr>),
     (\<lparr>io_accepts = 9, io_passes = 0\<rparr>, \<lparr>pe_message = CancelOrder \<lparr>co_order_id = 18\<rparr>, pe_receive_timestamp = 8\<rparr>)]"

theorem recording_replays_witness:
  "\<exists>s1 s2 r disk' st. recorder_start True \<lparr>io_accepts = 1, io_passes = 0\<rparr> (tick_recorder_new, None) = (None, s1)
    \<and> record_all sample_events s1 = (None, s2)
    \<and> recorder_stop \<lparr>io_accepts = 9, io_passes = 0\<rparr> \<lparr>io_accepts = 1, io_passes = 0\<rparr> s2 = (None, r, disk')
    \<and> tick_store_new 10 (sort_key ix_timestamp) disk' = Some st
    \<and> fst (engine_start exact_fp 0 [] (engine_load (sort_key tr_timestamp) 0 (- 1) disk' st
        \<lparr>re_ticks = [], re_running = False, re_ticks_published = 0, re_bytes_published = 0, re_clock = replay_clock_new exact_fp\<rparr>))
      = [(put_u64 17, 5), (put_u64 18, 8)]"
  using recording_replays [of "\<lparr>io_accepts = 1, io_passes = 0\<rparr>" sample_events "\<lparr>io_accepts = 9, io_passes = 0\<rparr>"
      "\<lparr>io_accepts = 1, io_passes = 0\<rparr>" 10 "sort_key ix_timestamp" "sort_key tr_timestamp" None exact_fp 0
      "\<lparr>re_ticks = [], re_running = False, re_ticks_published = 0, re_bytes_published = 0, re_clock = replay_clock_new exact_fp\<rparr>"]
  by (simp add: sample_events_def sorts_entries_def sorts_ticks_def tick_offset_def sizeof_tick_def sizeof_file_header_def)

section \<open>Merging\<close>

text \<open>What the standard library promises of the priority queue.\<close>

definition picks_min :: "(heap_entry list \<Rightarrow> nat) \<Rightarrow> bool" where
  "picks_min pick \<longleftrightarrow> (\<forall>heap. heap \<noteq> [] \<longrightarrow> pick heap < length heap
     \<and> (\<forall>e \<in> set heap. he_timestamp (heap ! pick heap) \<le> he_timestamp e))"

lemma mset_heap_pop:
  assumes "picks_min pick" and "heap \<noteq> []" and "heap_pop pick heap = (e, heap')"
  shows "mset heap = add_mset e (mset heap')" "\<forall>x \<in> set heap. he_timestamp e \<le> he_timestamp x"
proof -
  have i: "pick heap < length heap"
    using assms(1,2) by (simp add: picks_min_def)
  have "heap = take (pick heap) heap @ heap ! pick heap # drop (Suc (pick heap)) heap"
    using i by (rule id_take_nth_drop)
  then have "mset heap = mset (take (pick heap) heap @ heap ! pick heap # drop (Suc (pick heap)) heap)"
    by simp
  then show "mset heap = add_mset e (mset heap')"
    using assms(3) by (auto simp: heap_pop_def)
  show "\<forall>x \<in> set heap. he_timestamp e \<le> he_timestamp x"
    using assms by (auto simp: picks_min_def heap_pop_def)
qed

lemma pop_all_sorted:
  assumes "picks_min pick" and "length heap = n"
  shows "mset (pop_all pick n heap) = mset heap \<and> sorted (map he_timestamp (pop_all pick n heap))"
  using assms(2)
proof (induction n arbitrary: heap)
  case 0
  then show ?case by simp
next
  case (Suc n)
  obtain e heap' where pop: "heap_pop pick heap = (e, heap')"
    by fastforce
  have "heap \<noteq> []"
    using Suc.prems by auto
  note popped = mset_heap_pop [OF assms(1) this pop]
  have "size (mset heap) = Suc (size (mset heap'))"
    using popped(1) by simp
  then have len: "length heap' = n"
    using Suc.prems by simp
  have "set heap = insert e (set heap')"
    using popped(1) by (metis set_mset_add_mset_insert set_mset_mset)
  moreover have "set (pop_all pick n heap') = set heap'"
    using Suc.IH [OF len] mset_eq_setD by blast
  ultimately show ?case
    using Suc.IH [OF len] pop popped by (auto simp: Let_def)
qed

text \<open>
  The merger emits every tick of every stream exactly once and in global time order, whatever the order
  of the streams and of the ticks in them, and whichever of several earliest entries the priority queue yields.
\<close>

theorem merge_emits_in_order:
  assumes "picks_min pick"
  shows "mset (merge_order pick m) = mset (sm_merged_ticks m)
    \<and> sorted (map tr_timestamp (merge_order pick m))"
proof -
  let ?ts = "sm_merged_ticks m" and ?es = "pop_all pick (length (sm_merged_ticks m)) (build_heap (sm_merged_ticks m))"
  have all: "mset ?es = mset (build_heap ?ts)" "sorted (map he_timestamp ?es)"
    using pop_all_sorted [OF assms, of "build_heap ?ts" "length ?ts"] by (simp_all add: build_heap_def)
  have "mset (merge_order pick m) = image_mset (\<lambda>e. ?ts ! he_tick_index e) (mset (build_heap ?ts))"
    by (simp only: merge_order_def mset_map all(1))
  also have "\<dots> = mset (map (\<lambda>i. ?ts ! i) [0..<length ?ts])"
    by (simp add: build_heap_def multiset.map_comp comp_def flip: mset_map)
  finally have ms: "mset (merge_order pick m) = mset ?ts"
    by (simp add: map_nth)
  have "\<forall>e \<in> set ?es. tr_timestamp (?ts ! he_tick_index e) = he_timestamp e"
    using mset_eq_setD [OF all(1)] by (auto simp: build_heap_def)
  then have "map tr_timestamp (merge_order pick m) = map he_timestamp ?es"
    by (simp add: merge_order_def)
  then show ?thesis
    using ms all(2) by simp
qed

text \<open>The first of the earliest entries, as an instance.\<close>

fun first_min :: "heap_entry list \<Rightarrow> nat" where
  "first_min [] = 0"
| "first_min (e # es) = (if \<forall>x \<in> set es. he_timestamp e \<le> he_timestamp x then 0 else Suc (first_min es))"

lemma first_min_least:
  "heap \<noteq> [] \<Longrightarrow> first_min heap < length heap
     \<and> (\<forall>x \<in> set heap. he_timestamp (heap ! first_min heap) \<le> he_timestamp x)"
proof (induction heap)
  case (Cons e es)
  then show ?case
    by (cases "es = []") (auto simp: not_le intro: order.trans dest: less_imp_le)
qed simp

lemma picks_min_first_min: "picks_min first_min"
  using first_min_least by (simp add: picks_min_def)

theorem merge_emits_in_order_witness:
  "sorted (map tr_timestamp (merge_order first_min (add_ticks [sample_tick 3, sample_tick 9]
      (add_ticks [sample_tick 7, sample_tick 2] stream_merger_new))))"
  using merge_emits_in_order [OF picks_min_first_min] by blast

section \<open>Pausing and seeking\<close>

text \<open>The tick the publishing thread carries, past the check of the seek target.\<close>

definition in_flight :: "'d publisher \<Rightarrow> tick_record list" where
  "in_flight p = (case pb_place p of In_Pause t \<Rightarrow> [t] | At_Clock t \<Rightarrow> [t] | _ \<Rightarrow> [])"

abbreviation not_before :: "timestamp \<Rightarrow> tick_record \<Rightarrow> bool" where
  "not_before t r \<equiv> t \<le> tr_timestamp r"

definition apply_op :: "'d fp \<Rightarrow> publisher_op \<Rightarrow> 'd publisher \<Rightarrow> 'd publisher" where
  "apply_op fp x = (case x of Work wall \<Rightarrow> publisher_step fp wall | Control c \<Rightarrow> publisher_control c)"

lemma publisher_run_simps [simp]:
  "publisher_run fp [] p = p" "publisher_run fp (x # xs) p = publisher_run fp xs (apply_op fp x p)"
  by (simp_all add: publisher_run_def apply_op_def)

fun is_seek :: "publisher_op \<Rightarrow> bool" where
  "is_seek (Control (Seek _)) = True"
| "is_seek _ = False"

text \<open>
  One step publishes a part of what was in flight; what is left was in flight or still to do, and while the seek
  target stands, nothing before it goes from the second to the first.
\<close>

lemma publisher_step_order:
  "\<exists>sel. pb_out (publisher_step fp wall p) = pb_out p @ map publish_tick sel
    \<and> pb_seek_target (publisher_step fp wall p) = pb_seek_target p
    \<and> subseq (sel @ in_flight (publisher_step fp wall p) @ pb_todo (publisher_step fp wall p)) (in_flight p @ pb_todo p)
    \<and> subseq (sel @ in_flight (publisher_step fp wall p)
          @ filter (not_before (pb_seek_target p)) (pb_todo (publisher_step fp wall p)))
        (in_flight p @ filter (not_before (pb_seek_target p)) (pb_todo p))"
proof (cases "pb_place p")
  case At_Head
  then show ?thesis
    by (cases "pb_todo p")
      (auto simp: publisher_step_def in_flight_def callback_returns_def Let_def word_greater_zero_iff)
next
  case (In_Pause t)
  then show ?thesis
    by (auto simp: publisher_step_def in_flight_def callback_returns_def Let_def)
next
  case (At_Clock t)
  then show ?thesis
    by (intro exI [of _ "if pb_running p then [t] else []"])
      (auto simp: publisher_step_def in_flight_def callback_returns_def Let_def)
next
  case Done
  then show ?thesis
    by (auto simp: publisher_step_def in_flight_def)
qed

lemma publisher_control_order:
  "pb_out (publisher_control c p) = pb_out p" "in_flight (publisher_control c p) = in_flight p"
  "pb_todo (publisher_control c p) = pb_todo p"
  "\<not> is_seek (Control c) \<Longrightarrow> pb_seek_target (publisher_control c p) = pb_seek_target p"
  by (cases c; simp add: in_flight_def)+

lemma subseq_append_trans: "subseq (b @ c) d \<Longrightarrow> subseq e c \<Longrightarrow> subseq (b @ e) d"
  by (meson subseq_append_iff subseq_order.dual_order.trans list_emb_append_mono subseq_order.order_refl)

lemma publisher_run_order:
  "\<exists>sel. pb_out (publisher_run fp ops p) = pb_out p @ map publish_tick sel
    \<and> subseq (sel @ in_flight (publisher_run fp ops p) @ pb_todo (publisher_run fp ops p)) (in_flight p @ pb_todo p)"
proof (induction ops arbitrary: p)
  case Nil
  then show ?case by simp
next
  case (Cons x ops)
  obtain sel1 where "pb_out (apply_op fp x p) = pb_out p @ map publish_tick sel1"
    and st: "subseq (sel1 @ in_flight (apply_op fp x p) @ pb_todo (apply_op fp x p)) (in_flight p @ pb_todo p)"
    using publisher_step_order [of fp _ p] by (cases x) (auto simp: apply_op_def publisher_control_order)
  moreover obtain sel2 where "pb_out (publisher_run fp ops (apply_op fp x p)) = pb_out (apply_op fp x p) @ map publish_tick sel2"
    and "subseq (sel2 @ in_flight (publisher_run fp ops (apply_op fp x p)) @ pb_todo (publisher_run fp ops (apply_op fp x p)))
      (in_flight (apply_op fp x p) @ pb_todo (apply_op fp x p))"
    using Cons.IH by blast
  ultimately show ?case
    using subseq_append_trans [OF st] by (intro exI [of _ "sel1 @ sel2"]) simp
qed

lemma publisher_run_seek:
  assumes "list_all (\<lambda>x. \<not> is_seek x) ops" and "pb_seek_target p = t"
  shows "\<exists>sel. pb_out (publisher_run fp ops p) = pb_out p @ map publish_tick sel
    \<and> subseq sel (in_flight p @ filter (not_before t) (pb_todo p))"
proof -
  have "\<exists>sel. pb_out (publisher_run fp ops p) = pb_out p @ map publish_tick sel
      \<and> subseq (sel @ in_flight (publisher_run fp ops p) @ filter (not_before t) (pb_todo (publisher_run fp ops p)))
        (in_flight p @ filter (not_before t) (pb_todo p))"
    using assms
  proof (induction ops arbitrary: p)
    case Nil
    then show ?case by simp
  next
    case (Cons x ops)
    let ?p = "apply_op fp x p"
    obtain sel1 where "pb_out ?p = pb_out p @ map publish_tick sel1"
      and st: "subseq (sel1 @ in_flight ?p @ filter (not_before t) (pb_todo ?p))
        (in_flight p @ filter (not_before t) (pb_todo p))"
      and t: "pb_seek_target ?p = t"
      using publisher_step_order [of fp _ p] Cons.prems by (cases x) (auto simp: apply_op_def publisher_control_order)
    moreover obtain sel2 where "pb_out (publisher_run fp ops ?p) = pb_out ?p @ map publish_tick sel2"
      and "subseq (sel2 @ in_flight (publisher_run fp ops ?p) @ filter (not_before t) (pb_todo (publisher_run fp ops ?p)))
        (in_flight ?p @ filter (not_before t) (pb_todo ?p))"
      using Cons.IH [of ?p] Cons.prems t by auto
    ultimately show ?case
      using subseq_append_trans [OF st] by (intro exI [of _ "sel1 @ sel2"]) simp
  qed
  then show ?thesis
    by (metis append.right_neutral list_emb_Nil subseq_append_trans)
qed

text \<open>
  Pausing, resuming, seeking and stopping never disturb the order of a replay, however the calls interleave with the
  publishing thread: what is published is a selection of the ticks in their order. After a seek, as long as
  there is no other, at most one published tick is before the target, the one the publishing thread already carried when
  the seek came; all others are at or after it.
\<close>

theorem replay_controls_keep_order:
  assumes "list_all (\<lambda>x. \<not> is_seek x) ops'"
  shows "\<exists>sel first rest.
    pb_out (publisher_run fp ops (publisher_start ticks clock)) = map publish_tick sel
    \<and> pb_out (publisher_run fp (ops @ Control (Seek t) # ops') (publisher_start ticks clock)) =
        map publish_tick (sel @ first @ rest)
    \<and> subseq (sel @ first @ rest) ticks \<and> length first \<le> 1 \<and> list_all (not_before t) rest"
proof -
  let ?p = "publisher_run fp ops (publisher_start ticks clock)" and ?q = "publisher_control (Seek t)"
  obtain sel where sel: "pb_out ?p = map publish_tick sel" "subseq (sel @ in_flight ?p @ pb_todo ?p) ticks"
    using publisher_run_order [of fp ops "publisher_start ticks clock"] by (auto simp: publisher_start_def in_flight_def)
  obtain more where more: "pb_out (publisher_run fp ops' (?q ?p)) = pb_out (?q ?p) @ map publish_tick more"
    "subseq more (in_flight (?q ?p) @ filter (not_before t) (pb_todo (?q ?p)))"
    using publisher_run_seek [OF assms, of "?q ?p" t fp] by auto
  then obtain first rest where split: "more = first @ rest" "subseq first (in_flight ?p)"
    "subseq rest (filter (not_before t) (pb_todo ?p))"
    unfolding publisher_control_order subseq_append_iff by blast
  have run: "publisher_run fp (ops @ Control (Seek t) # ops') (publisher_start ticks clock) = publisher_run fp ops' (?q ?p)"
    by (simp add: publisher_run_def)
  have "subseq rest (pb_todo ?p)"
    using split(3) subseq_filter_left by (metis subseq_order.dual_order.trans)
  then have "subseq (sel @ first @ rest) ticks"
    using sel(2) split(2) by (meson list_emb_append_mono subseq_append_trans)
  moreover have "length first \<le> 1"
    using list_emb_length [OF split(2)] by (auto simp: in_flight_def split: publisher_place.splits)
  moreover have "list_all (not_before t) rest"
    using list_emb_set [OF split(3)] by (auto simp: list_all_iff)
  ultimately show ?thesis
    using sel(1) more(1) split(1) run by (auto simp: publisher_control_order)
qed

text \<open>
  The tick in flight is published even when the seek comes while the publisher is paused, against the
  documentation of \<open>seek\<close>: here a tick of time 3 goes out after a seek to time 7.
\<close>

theorem seek_while_paused_publishes_one:
  "pb_out (publisher_run exact_fp [Control Pause, Work 0, Control (Seek 7), Control Resume, Work 0, Work 0]
     (publisher_start [sample_tick 3, sample_tick 9] (replay_clock_new exact_fp))) = [publish_tick (sample_tick 3)]"
  by (simp add: publisher_start_def apply_op_def publisher_step_def callback_returns_def Let_def)

theorem replay_controls_keep_order_witness:
  "\<exists>sel first rest.
    pb_out (publisher_run exact_fp [Control Pause, Work 0] (publisher_start [sample_tick 3, sample_tick 9] (replay_clock_new exact_fp)))
      = map publish_tick sel
    \<and> pb_out (publisher_run exact_fp ([Control Pause, Work 0] @ Control (Seek 7) # [Control Resume, Work 0, Work 0])
        (publisher_start [sample_tick 3, sample_tick 9] (replay_clock_new exact_fp))) = map publish_tick (sel @ first @ rest)
    \<and> subseq (sel @ first @ rest) [sample_tick 3, sample_tick 9] \<and> length first \<le> 1 \<and> list_all (not_before 7) rest"
  by (rule replay_controls_keep_order) simp

text \<open>A change of the speed of a running clock does not move the virtual time.\<close>

theorem set_speed_continuous:
  assumes "rc_running c"
  shows "clock_now exact_fp wall' (set_speed exact_fp wall wall' multiplier c) = clock_now exact_fp wall c"
  using assms by (simp add: set_speed_def clock_now_def Let_def speed_is_zero_def exact_fp_def)

lemma publisher_three_steps:
  assumes "pb_place p = At_Head" "pb_running p" "pb_merger_running p" "\<not> pb_paused p" "pb_seek_target p = 0"
    "pb_todo p = t # ts"
  shows "\<exists>p'. publisher_step fp w3 (publisher_step fp w2 (publisher_step fp w1 p)) = p'
    \<and> pb_place p' = At_Head \<and> pb_running p' \<and> pb_merger_running p' \<and> \<not> pb_paused p' \<and> pb_seek_target p' = 0
    \<and> pb_todo p' = ts \<and> pb_out p' = pb_out p @ [publish_tick t]"
  using assms by (simp add: publisher_step_def callback_returns_def Let_def)

lemma publisher_done: "pb_place p = Done \<Longrightarrow> publisher_run fp (map Work walls) p = p"
  by (induction walls) (simp_all add: apply_op_def publisher_step_def)

lemma three_elements: "2 < length xs \<Longrightarrow> \<exists>a b c ys. xs = a # b # c # ys"
  by (auto simp: numeral_2_eq_2 Suc_less_eq2 length_Suc_conv neq_Nil_conv)

lemma publisher_completes:
  assumes "pb_place p = At_Head" "pb_running p" "pb_merger_running p" "\<not> pb_paused p" "pb_seek_target p = 0"
    and "3 * length (pb_todo p) < length walls"
  shows "pb_out (publisher_run fp (map Work walls) p) = pb_out p @ map publish_tick (pb_todo p)
    \<and> pb_place (publisher_run fp (map Work walls) p) = Done"
  using assms
proof (induction "pb_todo p" arbitrary: p walls)
  case Nil
  then obtain w walls' where "walls = w # walls'"
    by (cases walls) auto
  moreover have "pb_place (publisher_step fp w p) = Done" "pb_out (publisher_step fp w p) = pb_out p"
    using Nil by (simp_all add: publisher_step_def)
  ultimately show ?case
    using Nil(1) by (simp add: apply_op_def publisher_done)
next
  case (Cons t ts)
  have "2 < length walls"
    using Cons.prems(6) Cons.hyps(2) [symmetric] by simp
  then obtain w1 w2 w3 walls' where walls: "walls = w1 # w2 # w3 # walls'"
    using three_elements [of walls] by auto
  obtain p' where p': "publisher_step fp w3 (publisher_step fp w2 (publisher_step fp w1 p)) = p'"
    "pb_place p' = At_Head" "pb_running p'" "pb_merger_running p'" "\<not> pb_paused p'" "pb_seek_target p' = 0"
    "pb_todo p' = ts" "pb_out p' = pb_out p @ [publish_tick t]"
    using publisher_three_steps [OF Cons.prems(1-5) Cons.hyps(2) [symmetric]] by blast
  have "3 * length (pb_todo p') < length walls'"
    using Cons.prems(6) Cons.hyps(2) [symmetric] walls p'(7) by simp
  then show ?case
    using Cons.hyps(1) [of p' walls'] p' walls Cons.hyps(2) [symmetric] by (simp add: apply_op_def)
qed

text \<open>
  An undisturbed replay completes: after three steps of the publishing thread for every tick and one more, all
  ticks have been published in order and the publisher is done.
\<close>

theorem replay_completes:
  assumes "3 * length ticks < length walls"
  shows "pb_out (publisher_run fp (map Work walls) (publisher_start ticks clock)) = map publish_tick ticks
    \<and> pb_place (publisher_run fp (map Work walls) (publisher_start ticks clock)) = Done"
  using publisher_completes [of "publisher_start ticks clock" walls fp] assms by (simp add: publisher_start_def)

theorem replay_completes_witness:
  "pb_out (publisher_run exact_fp (map Work [0, 1, 2, 3, 4, 5, 6])
     (publisher_start [sample_tick 3, sample_tick 9] (replay_clock_new exact_fp))) =
     [publish_tick (sample_tick 3), publish_tick (sample_tick 9)]"
  using replay_completes [of "[sample_tick 3, sample_tick 9]" "[0, 1, 2, 3, 4, 5, 6]" exact_fp "replay_clock_new exact_fp"]
  by simp

end
