(* ===== verification/Bars.thy ===== *)
theory Bars
  imports Common_Types
begin

text \<open>
  Aggregation of ticks into bars (\<open>storage/bar_aggregator.{hpp,cpp}\<close>, the bar of \<open>data/data_types.hpp\<close>) and the catalog of
  the recorded days (\<open>storage/symbol_catalog.{hpp,cpp}\<close>). The bars handed to the callback are the list an operation
  returns; the iteration order of a hash map is an argument, a list of its keys.
\<close>

section \<open>Bars\<close>

record bar =
  bar_symbol :: symbol
  bar_open :: price
  bar_high :: price
  bar_low :: price
  bar_close :: price
  bar_volume :: u64
  bar_tick_count :: u32
  bar_start_time :: timestamp
  bar_end_time :: timestamp

datatype bar_interval = OneSecond | OneMinute | FiveMinute | OneHour

fun interval_ns :: "bar_interval \<Rightarrow> u64" where
  "interval_ns OneSecond = 1000000000"
| "interval_ns OneMinute = 60000000000"
| "interval_ns FiveMinute = 300000000000"
| "interval_ns OneHour = 3600000000000"

record bar_state =
  bs_bar :: bar
  bs_active :: bool

record bar_aggregator =
  ba_interval :: bar_interval
  ba_on_bar :: bool
  ba_bars :: "u64 \<rightharpoonup> bar_state"

definition bar_aggregator_new :: "bar_interval \<Rightarrow> bool \<Rightarrow> bar_aggregator" where
  "bar_aggregator_new interval on_bar = \<lparr>ba_interval = interval, ba_on_bar = on_bar, ba_bars = Map.empty\<rparr>"

definition align_to_interval :: "bar_interval \<Rightarrow> timestamp \<Rightarrow> timestamp" where
  "align_to_interval interval ts = (ts div interval_ns interval) * interval_ns interval"

definition new_bar :: "symbol \<Rightarrow> price \<Rightarrow> quantity \<Rightarrow> timestamp \<Rightarrow> timestamp \<Rightarrow> bar" where
  "new_bar symbol p q start ts =
     \<lparr>bar_symbol = symbol, bar_open = p, bar_high = p, bar_low = p, bar_close = p, bar_volume = ucast q,
      bar_tick_count = 1, bar_start_time = start, bar_end_time = ts\<rparr>"

definition update_bar :: "price \<Rightarrow> quantity \<Rightarrow> timestamp \<Rightarrow> bar \<Rightarrow> bar" where
  "update_bar p q ts b =
     b\<lparr>bar_high := (if bar_high b < p then p else bar_high b), bar_low := (if p < bar_low b then p else bar_low b),
       bar_close := p, bar_volume := bar_volume b + ucast q, bar_tick_count := bar_tick_count b + 1, bar_end_time := ts\<rparr>"

definition emit_bar :: "bar_aggregator \<Rightarrow> bar \<Rightarrow> bar list" where
  "emit_bar a b = (if ba_on_bar a then [b] else [])"

definition set_bar :: "u64 \<Rightarrow> bar \<Rightarrow> bar_aggregator \<Rightarrow> bar_aggregator" where
  "set_bar key b a = a\<lparr>ba_bars := (ba_bars a)(key \<mapsto> \<lparr>bs_bar = b, bs_active = True\<rparr>)\<rparr>"

text \<open>An absent key is an inactive slot: \<open>operator[]\<close> creates it.\<close>

definition add_tick ::
  "symbol \<Rightarrow> price \<Rightarrow> quantity \<Rightarrow> timestamp \<Rightarrow> bar_aggregator \<Rightarrow> bar list \<times> bar_aggregator" where
  "add_tick symbol p q ts a =
     (let key = as_key symbol; bar_start = align_to_interval (ba_interval a) ts;
          active = (case ba_bars a key of Some s \<Rightarrow> bs_active s | None \<Rightarrow> False);
          current = bs_bar (the (ba_bars a key))
      in if \<not> active then ([], set_bar key (new_bar symbol p q bar_start ts) a)
         else if bar_start \<noteq> bar_start_time current
         then (emit_bar a current, set_bar key (new_bar symbol p q bar_start ts) a)
         else ([], set_bar key (update_bar p q ts current) a))"

text \<open>\<open>flush\<close> visits the slots in the order of the hash map.\<close>

fun bars_flush :: "u64 list \<Rightarrow> bar_aggregator \<Rightarrow> bar list \<times> bar_aggregator" where
  "bars_flush [] a = ([], a)"
| "bars_flush (key # keys) a =
     (case ba_bars a key of
        Some s \<Rightarrow>
          if bs_active s
          then let (out, a') = bars_flush keys (a\<lparr>ba_bars := (ba_bars a)(key \<mapsto> s\<lparr>bs_active := False\<rparr>)\<rparr>)
               in (emit_bar a (bs_bar s) @ out, a')
          else bars_flush keys a
      | None \<Rightarrow> bars_flush keys a)"

definition current_bar :: "symbol \<Rightarrow> bar_aggregator \<Rightarrow> bar option" where
  "current_bar symbol a =
     (case ba_bars a (as_key symbol) of Some s \<Rightarrow> if bs_active s then Some (bs_bar s) else None | None \<Rightarrow> None)"

section \<open>The catalog\<close>

type_synonym date_key = u32

record symbol_catalog =
  sc_catalog :: "u64 \<rightharpoonup> date_key set"
  sc_symbol_map :: "u64 \<rightharpoonup> symbol"

definition symbol_catalog_new :: symbol_catalog where
  "symbol_catalog_new = \<lparr>sc_catalog = Map.empty, sc_symbol_map = Map.empty\<rparr>"

definition catalog_add_entry :: "symbol \<Rightarrow> date_key \<Rightarrow> symbol_catalog \<Rightarrow> symbol_catalog" where
  "catalog_add_entry symbol date c =
     (let key = as_key symbol; dates = (case sc_catalog c key of Some ds \<Rightarrow> ds | None \<Rightarrow> {})
      in \<lparr>sc_catalog = (sc_catalog c)(key \<mapsto> insert date dates), sc_symbol_map = (sc_symbol_map c)(key \<mapsto> symbol)\<rparr>)"

definition get_available_dates :: "symbol \<Rightarrow> symbol_catalog \<Rightarrow> date_key list" where
  "get_available_dates symbol c =
     (case sc_catalog c (as_key symbol) of None \<Rightarrow> [] | Some dates \<Rightarrow> sorted_list_of_set dates)"

definition get_symbols :: "u64 list \<Rightarrow> symbol_catalog \<Rightarrow> symbol list" where
  "get_symbols keys c = List.map_filter (sc_symbol_map c) keys"

definition has_data :: "symbol \<Rightarrow> date_key \<Rightarrow> symbol_catalog \<Rightarrow> bool" where
  "has_data symbol date c = (case sc_catalog c (as_key symbol) of None \<Rightarrow> False | Some dates \<Rightarrow> date \<in> dates)"

definition entry_count :: "u64 list \<Rightarrow> symbol_catalog \<Rightarrow> nat" where
  "entry_count keys c = sum_list (map (\<lambda>key. case sc_catalog c key of None \<Rightarrow> 0 | Some dates \<Rightarrow> card dates) keys)"

section \<open>Groups of ticks\<close>

record tick =
  tk_symbol :: symbol
  tk_price :: price
  tk_quantity :: quantity
  tk_timestamp :: timestamp

text \<open>The bar that a group of ticks of one symbol in one interval stands for.\<close>

definition bar_of_group :: "bar_interval \<Rightarrow> tick list \<Rightarrow> bar" where
  "bar_of_group interval g =
     \<lparr>bar_symbol = tk_symbol (hd g), bar_open = tk_price (hd g), bar_high = Max (tk_price ` set g),
      bar_low = Min (tk_price ` set g), bar_close = tk_price (last g), bar_volume = (\<Sum>t\<leftarrow>g. ucast (tk_quantity t)),
      bar_tick_count = of_nat (length g), bar_start_time = align_to_interval interval (tk_timestamp (hd g)),
      bar_end_time = tk_timestamp (last g)\<rparr>"

text \<open>A list of ticks cut where the interval changes.\<close>

abbreviation interval_of :: "bar_interval \<Rightarrow> tick \<Rightarrow> timestamp" where
  "interval_of interval t \<equiv> align_to_interval interval (tk_timestamp t)"

definition cut_at_intervals :: "bar_interval \<Rightarrow> tick list \<Rightarrow> tick list list \<Rightarrow> bool" where
  "cut_at_intervals interval ticks groups \<longleftrightarrow> concat groups = ticks \<and> [] \<notin> set groups
     \<and> (\<forall>g \<in> set groups. \<exists>x. \<forall>t \<in> set g. interval_of interval t = x)
     \<and> successively (\<lambda>g h. interval_of interval (hd g) \<noteq> interval_of interval (hd h)) groups"

lemma cut_start: "cut_at_intervals interval [t] [[t]]"
  by (simp add: cut_at_intervals_def)

lemma cut_same:
  assumes "cut_at_intervals interval ticks (gs @ [g])" and "interval_of interval t = interval_of interval (hd g)"
  shows "cut_at_intervals interval (ticks @ [t]) (gs @ [g @ [t]])"
proof -
  have g: "g \<noteq> []"
    using assms(1) by (auto simp: cut_at_intervals_def)
  obtain x where "\<forall>u \<in> set g. interval_of interval u = x"
    using assms(1) by (auto simp: cut_at_intervals_def)
  then have "\<forall>u \<in> set (g @ [t]). interval_of interval u = x"
    using assms(2) g by simp
  then have "\<exists>x. \<forall>u \<in> set (g @ [t]). interval_of interval u = x"
    by blast
  then show ?thesis
    using assms(1) g by (simp add: cut_at_intervals_def successively_append_iff)
qed

lemma cut_new:
  assumes "cut_at_intervals interval ticks (gs @ [g])" and "interval_of interval t \<noteq> interval_of interval (hd g)"
  shows "cut_at_intervals interval (ticks @ [t]) ((gs @ [g]) @ [[t]])"
  using assms by (auto simp: cut_at_intervals_def successively_append_iff)

text \<open>Adding a tick to a group updates its bar as the code does.\<close>

lemma bar_of_new: "bar_of_group interval [t] =
    new_bar (tk_symbol t) (tk_price t) (tk_quantity t) (interval_of interval t) (tk_timestamp t)"
  by (simp add: bar_of_group_def new_bar_def)

lemma bar_of_update:
  assumes "g \<noteq> []"
  shows "bar_of_group interval (g @ [t]) = update_bar (tk_price t) (tk_quantity t) (tk_timestamp t) (bar_of_group interval g)"
proof -
  define hi lo where "hi = Max (tk_price ` set g)" and "lo = Min (tk_price ` set g)"
  have "Max (insert (tk_price t) (tk_price ` set g)) = max (tk_price t) hi"
    unfolding hi_def using assms by (intro Max_insert) auto
  then have hi: "Max (tk_price ` set (g @ [t])) = (if hi < tk_price t then tk_price t else hi)"
    by (auto simp: max_def)
  have "Min (insert (tk_price t) (tk_price ` set g)) = min (tk_price t) lo"
    unfolding lo_def using assms by (intro Min_insert) auto
  then have lo: "Min (tk_price ` set (g @ [t])) = (if tk_price t < lo then tk_price t else lo)"
    by (auto simp: min_def)
  show ?thesis
    unfolding bar_of_group_def update_bar_def hi lo using assms by (simp add: hi_def [symmetric] lo_def [symmetric])
qed

section \<open>Runs of the aggregator\<close>

fun feed_ticks :: "tick list \<Rightarrow> bar_aggregator \<Rightarrow> bar list \<times> bar_aggregator" where
  "feed_ticks [] a = ([], a)"
| "feed_ticks (t # ts) a =
     (let (out, a) = add_tick (tk_symbol t) (tk_price t) (tk_quantity t) (tk_timestamp t) a;
          (more, a) = feed_ticks ts a
      in (out @ more, a))"

abbreviation ticks_of :: "symbol \<Rightarrow> tick list \<Rightarrow> tick list" where
  "ticks_of s ticks \<equiv> filter (\<lambda>t. tk_symbol t = s) ticks"

abbreviation bars_for :: "symbol \<Rightarrow> bar list \<Rightarrow> bar list" where
  "bars_for s bars \<equiv> filter (\<lambda>b. bar_symbol b = s) bars"

lemma as_key_surj: "\<exists>s. as_key s = k"
proof -
  have "sym_data (symbol_of_data (put_u64 k)) = map (byte_at (put_u64 k)) [0..<8]"
    by (simp add: symbol_of_data_def upt_rec eval_nat_numeral)
  also have "\<dots> = put_u64 k"
    by (rule nth_equalityI) (simp_all add: byte_at_def)
  finally show ?thesis
    by (metis as_key_def get_put_end(3))
qed

text \<open>For each symbol: all groups but the last have gone out, and the last is in the slot.\<close>

definition slot_agrees :: "bar_interval \<Rightarrow> tick list \<Rightarrow> bar list \<Rightarrow> bar_state option \<Rightarrow> bool" where
  "slot_agrees interval mine out slot \<longleftrightarrow>
     (if mine = [] then slot = None \<and> out = []
      else \<exists>gs g. cut_at_intervals interval mine (gs @ [g]) \<and> out = map (bar_of_group interval) gs
        \<and> slot = Some \<lparr>bs_bar = bar_of_group interval g, bs_active = True\<rparr>)"

definition aggregator_holds :: "bar_interval \<Rightarrow> tick list \<Rightarrow> bar list \<Rightarrow> bar_aggregator \<Rightarrow> bool" where
  "aggregator_holds interval ticks out a \<longleftrightarrow> ba_interval a = interval \<and> ba_on_bar a
     \<and> (\<forall>s. slot_agrees interval (ticks_of s ticks) (bars_for s out) (ba_bars a (as_key s)))"

lemma cut_bars:
  assumes "cut_at_intervals interval (ticks_of s ticks) (gs @ [g])"
  shows "g \<noteq> []" "tk_symbol (hd g) = s" "bar_symbol (bar_of_group interval g) = s"
    "bar_start_time (bar_of_group interval g) = interval_of interval (hd g)"
proof -
  show g: "g \<noteq> []"
    using assms by (auto simp: cut_at_intervals_def)
  have "concat gs @ g = ticks_of s ticks"
    using assms by (simp add: cut_at_intervals_def)
  then have "set g \<subseteq> set (ticks_of s ticks)"
    by (metis Un_upper2 set_append)
  then show "tk_symbol (hd g) = s"
    using hd_in_set [OF g] by auto
  then show "bar_symbol (bar_of_group interval g) = s"
    by (simp add: bar_of_group_def)
  show "bar_start_time (bar_of_group interval g) = interval_of interval (hd g)"
    by (simp add: bar_of_group_def)
qed

text \<open>The slot of the tick's symbol after the tick, and what went out.\<close>

lemma add_tick_slot:
  assumes "slot_agrees (ba_interval a) (ticks_of s ticks) out (ba_bars a (as_key s))" and "ba_on_bar a" and "tk_symbol t = s"
  shows "\<exists>new slot. add_tick s (tk_price t) (tk_quantity t) (tk_timestamp t) a =
      (new, a\<lparr>ba_bars := (ba_bars a)(as_key s \<mapsto> slot)\<rparr>) \<and> bars_for s new = new
    \<and> slot_agrees (ba_interval a) (ticks_of s ticks @ [t]) (out @ new) (Some slot)"
proof (cases "ticks_of s ticks = []")
  case True
  then have "ba_bars a (as_key s) = None" "out = []"
    using assms(1) by (simp_all add: slot_agrees_def)
  then show ?thesis
    using True cut_start [of "ba_interval a" t] assms(3)
    by (force simp: add_tick_def set_bar_def slot_agrees_def bar_of_new Let_def)
next
  case False
  let ?i = "ba_interval a"
  obtain gs g where cut: "cut_at_intervals ?i (ticks_of s ticks) (gs @ [g])" and out: "out = map (bar_of_group ?i) gs"
    and slot: "ba_bars a (as_key s) = Some \<lparr>bs_bar = bar_of_group ?i g, bs_active = True\<rparr>"
    using assms(1) False by (auto simp: slot_agrees_def)
  note g = cut_bars [OF cut]
  show ?thesis
  proof (cases "interval_of ?i t = interval_of ?i (hd g)")
    case True
    have "\<exists>gs' g'. cut_at_intervals ?i (ticks_of s ticks @ [t]) (gs' @ [g']) \<and> out = map (bar_of_group ?i) gs'
        \<and> update_bar (tk_price t) (tk_quantity t) (tk_timestamp t) (bar_of_group ?i g) = bar_of_group ?i g'"
      using cut_same [OF cut True] out bar_of_update [OF g(1)] by metis
    then show ?thesis
      using True slot g by (auto simp: add_tick_def set_bar_def slot_agrees_def Let_def)
  next
    case no: False
    have "\<exists>gs' g'. cut_at_intervals ?i (ticks_of s ticks @ [t]) (gs' @ [g'])
        \<and> out @ [bar_of_group ?i g] = map (bar_of_group ?i) gs'
        \<and> new_bar s (tk_price t) (tk_quantity t) (interval_of ?i t) (tk_timestamp t) = bar_of_group ?i g'"
      using cut_new [OF cut no] out bar_of_new [of ?i t] assms(3) by (intro exI [of _ "gs @ [g]"] exI [of _ "[t]"]) simp
    then show ?thesis
      using no slot g assms(2) by (auto simp: add_tick_def set_bar_def slot_agrees_def emit_bar_def Let_def)
  qed
qed

lemma aggregator_holds_add:
  assumes "aggregator_holds interval ticks out a"
  shows "\<exists>new a'. add_tick (tk_symbol t) (tk_price t) (tk_quantity t) (tk_timestamp t) a = (new, a')
    \<and> aggregator_holds interval (ticks @ [t]) (out @ new) a'"
proof -
  let ?s = "tk_symbol t"
  have agg: "ba_interval a = interval" "ba_on_bar a"
    "\<And>s. slot_agrees interval (ticks_of s ticks) (bars_for s out) (ba_bars a (as_key s))"
    using assms by (simp_all add: aggregator_holds_def)
  obtain new slot where st: "add_tick ?s (tk_price t) (tk_quantity t) (tk_timestamp t) a =
      (new, a\<lparr>ba_bars := (ba_bars a)(as_key ?s \<mapsto> slot)\<rparr>)" and new: "bars_for ?s new = new"
    and ok: "slot_agrees interval (ticks_of ?s ticks @ [t]) (bars_for ?s out @ new) (Some slot)"
    using add_tick_slot [of a ?s ticks "bars_for ?s out" t] agg by auto
  have "bars_for s new = []" if "s \<noteq> ?s" for s
    using new that by (metis (mono_tags, lifting) filter_False filter_id_conv)
  then have "slot_agrees interval (ticks_of s (ticks @ [t])) (bars_for s (out @ new))
      (((ba_bars a)(as_key ?s \<mapsto> slot)) (as_key s))" for s
    using agg(3) [of s] ok new by (cases "s = ?s") auto
  then show ?thesis
    using st agg(1,2) by (simp add: aggregator_holds_def)
qed

lemma aggregator_holds_feed:
  "aggregator_holds interval ticks out a \<Longrightarrow>
     \<exists>new a'. feed_ticks ts a = (new, a') \<and> aggregator_holds interval (ticks @ ts) (out @ new) a'"
proof (induction ts arbitrary: ticks out a)
  case Nil
  then show ?case by simp
next
  case (Cons t ts)
  obtain new a' where "add_tick (tk_symbol t) (tk_price t) (tk_quantity t) (tk_timestamp t) a = (new, a')"
    "aggregator_holds interval (ticks @ [t]) (out @ new) a'"
    using aggregator_holds_add [OF Cons.prems] by blast
  then show ?case
    using Cons.IH [of "ticks @ [t]" "out @ new" a'] by fastforce
qed

text \<open>What a flush lets out for a symbol.\<close>

lemma bars_flush_out:
  assumes "distinct keys" and "ba_on_bar a"
    and "\<forall>k slot. ba_bars a k = Some slot \<longrightarrow> as_key (bar_symbol (bs_bar slot)) = k"
  shows "bars_for s (fst (bars_flush keys a)) =
    (case ba_bars a (as_key s) of
       Some slot \<Rightarrow> if bs_active slot \<and> as_key s \<in> set keys then [bs_bar slot] else [] | None \<Rightarrow> [])"
  using assms
proof (induction keys arbitrary: a)
  case Nil
  then show ?case by (simp split: option.split)
next
  case (Cons key keys)
  show ?case
  proof (cases "\<exists>slot. ba_bars a key = Some slot \<and> bs_active slot")
    case False
    then have "bars_flush (key # keys) a = bars_flush keys a"
      by (auto split: option.split)
    then show ?thesis
      using Cons.IH [of a] Cons.prems False by (auto split: option.split)
  next
    case True
    then obtain slot where slot: "ba_bars a key = Some slot" "bs_active slot"
      by blast
    let ?a = "a\<lparr>ba_bars := (ba_bars a)(key \<mapsto> slot\<lparr>bs_active := False\<rparr>)\<rparr>"
    have sym: "as_key (bar_symbol (bs_bar slot)) = key"
      using Cons.prems(3) slot(1) by blast
    have IH: "bars_for s (fst (bars_flush keys ?a)) =
      (case ba_bars ?a (as_key s) of
         Some slot \<Rightarrow> if bs_active slot \<and> as_key s \<in> set keys then [bs_bar slot] else [] | None \<Rightarrow> [])"
      using Cons.prems slot(1) by (intro Cons.IH) auto
    have st: "fst (bars_flush (key # keys) a) = bs_bar slot # fst (bars_flush keys ?a)"
      using slot Cons.prems(2) by (simp add: emit_bar_def split_beta Let_def)
    show ?thesis
    proof (cases "as_key s = key")
      case True
      then have "bar_symbol (bs_bar slot) = s"
        using sym by (metis as_key_inject)
      then show ?thesis
        using True slot IH st by simp
    next
      case False
      then have "bar_symbol (bs_bar slot) \<noteq> s"
        using sym by auto
      then show ?thesis
        using False IH st by (auto split: option.split)
    qed
  qed
qed

text \<open>
  C25. The bars of a run are exactly the bars of the ticks. Feed any ticks of any symbols, interleaved in any way, and flush:
  for every symbol the bars handed to the callback are, in order, one for each maximal group of its consecutive
  ticks that fall into the same interval, with the first, highest, lowest and last price of the group, the sum of its
  quantities, its size, the start of the interval and the time of its last tick. (The flush visits every slot once.)
\<close>

theorem bars_exact:
  assumes "feed_ticks ticks (bar_aggregator_new interval True) = (out, a)" and "distinct keys" and "set keys = dom (ba_bars a)"
  shows "\<exists>groups. cut_at_intervals interval (ticks_of s ticks) groups
    \<and> bars_for s (out @ fst (bars_flush keys a)) = map (bar_of_group interval) groups"
proof -
  have "aggregator_holds interval [] [] (bar_aggregator_new interval True)"
    by (simp add: aggregator_holds_def slot_agrees_def bar_aggregator_new_def)
  then have "aggregator_holds interval ticks out a"
    using aggregator_holds_feed [of interval "[]" "[]" "bar_aggregator_new interval True" ticks] assms(1) by auto
  then have agg: "ba_on_bar a" "\<And>s. slot_agrees interval (ticks_of s ticks) (bars_for s out) (ba_bars a (as_key s))"
    by (simp_all add: aggregator_holds_def)
  have keys: "as_key (bar_symbol (bs_bar slot)) = k" if "ba_bars a k = Some slot" for k slot
  proof -
    obtain s where "as_key s = k"
      using as_key_surj by blast
    then show ?thesis
      using agg(2) [of s] that cut_bars(3) [of interval s ticks] by (auto simp: slot_agrees_def split: if_splits)
  qed
  have flush: "bars_for s (fst (bars_flush keys a)) =
      (case ba_bars a (as_key s) of
         Some slot \<Rightarrow> if bs_active slot \<and> as_key s \<in> set keys then [bs_bar slot] else [] | None \<Rightarrow> [])"
    using keys by (intro bars_flush_out [OF assms(2) agg(1)]) blast
  show ?thesis
  proof (cases "ticks_of s ticks = []")
    case True
    then show ?thesis
      using agg(2) [of s] flush by (intro exI [of _ "[]"]) (simp add: slot_agrees_def cut_at_intervals_def)
  next
    case False
    then obtain gs g where "cut_at_intervals interval (ticks_of s ticks) (gs @ [g])"
      "bars_for s out = map (bar_of_group interval) gs"
      "ba_bars a (as_key s) = Some \<lparr>bs_bar = bar_of_group interval g, bs_active = True\<rparr>"
      using agg(2) [of s] by (auto simp: slot_agrees_def)
    then show ?thesis
      using flush assms(3) by (intro exI [of _ "gs @ [g]"]) (auto simp: dom_def)
  qed
qed

definition tick_at :: "price \<Rightarrow> timestamp \<Rightarrow> tick" where
  "tick_at p ts = \<lparr>tk_symbol = symbol_default, tk_price = p, tk_quantity = 10, tk_timestamp = ts\<rparr>"

theorem bars_exact_witness:
  "\<exists>out a groups. feed_ticks [tick_at 7 5, tick_at 9 6, tick_at 8 2000000000] (bar_aggregator_new OneSecond True) = (out, a)
    \<and> cut_at_intervals OneSecond [tick_at 7 5, tick_at 9 6, tick_at 8 2000000000] groups
    \<and> bars_for symbol_default (out @ fst (bars_flush [0] a)) = map (bar_of_group OneSecond) groups"
proof -
  obtain out a where run: "feed_ticks [tick_at 7 5, tick_at 9 6, tick_at 8 2000000000] (bar_aggregator_new OneSecond True) = (out, a)"
    by fastforce
  have "as_key symbol_default = 0"
    by (simp add: as_key_default)
  then have "set [0] = dom (ba_bars a)"
    using run by (auto simp: add_tick_def set_bar_def bar_aggregator_new_def tick_at_def Let_def align_to_interval_def
        new_bar_def update_bar_def split: if_splits)
  from bars_exact [OF run _ this, of symbol_default] show ?thesis
    using run by (auto simp: tick_at_def)
qed

section \<open>The catalog records what was added\<close>

lemma catalog_lookup:
  "has_data s d (fold (\<lambda>(s, d). catalog_add_entry s d) entries c) \<longleftrightarrow> (s, d) \<in> set entries \<or> has_data s d c"
  by (induction entries arbitrary: c)
    (auto simp: catalog_add_entry_def has_data_def Let_def split: option.splits if_splits)

text \<open>After any additions the dates of a symbol are exactly those added for it, in ascending order and without repetition.\<close>

theorem catalog_dates_exact:
  fixes entries :: "(symbol \<times> date_key) list"
  defines "c \<equiv> fold (\<lambda>(s, d). catalog_add_entry s d) entries symbol_catalog_new"
  shows "sorted (get_available_dates s c) \<and> distinct (get_available_dates s c)
    \<and> set (get_available_dates s c) = {d. (s, d) \<in> set entries}"
proof -
  have "d \<in> set (get_available_dates s c) \<longleftrightarrow> has_data s d c" for d
    by (auto simp: get_available_dates_def has_data_def split: option.split)
  moreover have "has_data s d c \<longleftrightarrow> (s, d) \<in> set entries" for d
    using catalog_lookup [of s d entries symbol_catalog_new] by (simp add: c_def has_data_def symbol_catalog_new_def)
  ultimately show ?thesis
    by (auto simp: get_available_dates_def split: option.split)
qed

end
