(* ===== verification/Execution.thy ===== *)
theory Execution
  imports Strategy_Types Floating
begin

text \<open>
  The execution algorithms that slice a parent order (\<open>strategy/execution/execution_algo.{hpp,cpp}\<close>), the order
  sizer (\<open>order_sizer.{hpp,cpp}\<close>) and the slippage model (\<open>slippage_model.{hpp,cpp}\<close>).

  The members of the base class are a record, and each algorithm extends it. What the three algorithms have in
  common is the contract of the base class, the locale \<open>execution_algo\<close>: its lemmas hold for each of them.
\<close>

section \<open>Algorithms\<close>

record child_order =
  co_symbol :: symbol
  co_side :: side
  co_quantity :: quantity
  co_type :: decision_type
  co_limit_price :: price

record algo_base =
  ab_symbol :: symbol
  ab_side :: side
  ab_order_type :: decision_type
  ab_limit_price :: price
  ab_total_qty :: quantity
  ab_remaining_qty :: quantity
  ab_slices_sent :: u32
  ab_slices_filled :: u32
  ab_filled_qty :: quantity

definition algo_child :: "quantity \<Rightarrow> 'x algo_base_scheme \<Rightarrow> child_order" where
  "algo_child qty a = \<lparr>co_symbol = ab_symbol a, co_side = ab_side a, co_quantity = qty, co_type = ab_order_type a,
     co_limit_price = ab_limit_price a\<rparr>"

definition algo_is_complete :: "'x algo_base_scheme \<Rightarrow> bool" where
  "algo_is_complete a \<longleftrightarrow> ab_remaining_qty a = 0"

text \<open>The common part of the three \<open>on_fill\<close>.\<close>

definition algo_fill :: "quantity \<Rightarrow> 'x algo_base_scheme \<Rightarrow> 'x algo_base_scheme" where
  "algo_fill qty a =
     (let actual = min qty (ab_remaining_qty a)
      in a\<lparr>ab_filled_qty := ab_filled_qty a + actual, ab_remaining_qty := ab_remaining_qty a - actual,
           ab_slices_filled := ab_slices_filled a + 1\<rparr>)"

subsection \<open>Time weighted\<close>

record twap_algo = algo_base +
  tw_num_slices :: u32
  tw_slice_size :: quantity
  tw_last_slice_size :: quantity

definition twap_algo_new :: "decision \<Rightarrow> u32 \<Rightarrow> twap_algo" where
  "twap_algo_new parent num_slices =
     (let n = max num_slices 1; total_qty = dec_quantity parent; slice = total_qty div n
      in \<lparr>ab_symbol = dec_symbol parent, ab_side = dec_side parent, ab_order_type = dec_order_type parent,
          ab_limit_price = dec_limit_price parent, ab_total_qty = total_qty, ab_remaining_qty = total_qty, ab_slices_sent = 0,
          ab_slices_filled = 0, ab_filled_qty = 0, tw_num_slices = n, tw_slice_size = slice,
          tw_last_slice_size = total_qty - slice * (n - 1)\<rparr>)"

definition twap_next_slice :: "twap_algo \<Rightarrow> child_order \<times> twap_algo" where
  "twap_next_slice a =
     (if algo_is_complete a \<or> tw_num_slices a \<le> ab_slices_sent a then (algo_child 0 a, a)
      else let is_last = (ab_slices_sent a = tw_num_slices a - 1);
               qty = (if is_last then tw_last_slice_size a else tw_slice_size a);
               qty = min qty (ab_remaining_qty a)
           in (algo_child qty a, a\<lparr>ab_slices_sent := ab_slices_sent a + 1\<rparr>))"

definition twap_on_fill :: "quantity \<Rightarrow> twap_algo \<Rightarrow> twap_algo" where
  "twap_on_fill qty a = algo_fill qty a"

subsection \<open>Volume weighted\<close>

record vwap_algo = algo_base +
  vw_slice_sizes :: "quantity list"
  vw_current_idx :: u32

definition vwap_quantity :: "'d fp \<Rightarrow> 'd \<Rightarrow> quantity \<Rightarrow> 'd \<Rightarrow> quantity" where
  "vwap_quantity fp total_weight total_qty w =
     of_int (fp_trunc fp (fp_mul fp (fp_div fp w total_weight) (fp_of_nat fp (unat total_qty))))"

definition vwap_slices :: "'d fp \<Rightarrow> quantity \<Rightarrow> 'd list \<Rightarrow> quantity list" where
  "vwap_slices fp total_qty profile =
     (let total_weight = foldl (fp_add fp) (fp_zero fp) profile in
      if fp_le fp total_weight (fp_zero fp) \<or> profile = [] then [total_qty]
      else let sizes = map (vwap_quantity fp total_weight total_qty) profile;
               allocated = foldl (+) 0 sizes
           in if allocated < total_qty \<and> sizes \<noteq> [] then sizes[0 := sizes ! 0 + (total_qty - allocated)] else sizes)"

definition vwap_algo_new :: "'d fp \<Rightarrow> decision \<Rightarrow> 'd list \<Rightarrow> vwap_algo" where
  "vwap_algo_new fp parent profile =
     \<lparr>ab_symbol = dec_symbol parent, ab_side = dec_side parent, ab_order_type = dec_order_type parent,
      ab_limit_price = dec_limit_price parent, ab_total_qty = dec_quantity parent, ab_remaining_qty = dec_quantity parent,
      ab_slices_sent = 0, ab_slices_filled = 0, ab_filled_qty = 0,
      vw_slice_sizes = vwap_slices fp (dec_quantity parent) profile, vw_current_idx = 0\<rparr>"

definition vwap_next_slice :: "vwap_algo \<Rightarrow> child_order \<times> vwap_algo" where
  "vwap_next_slice a =
     (if algo_is_complete a \<or> length (vw_slice_sizes a) \<le> unat (vw_current_idx a) then (algo_child 0 a, a)
      else let qty = min (vw_slice_sizes a ! unat (vw_current_idx a)) (ab_remaining_qty a)
           in (algo_child qty a, a\<lparr>vw_current_idx := vw_current_idx a + 1, ab_slices_sent := ab_slices_sent a + 1\<rparr>))"

definition vwap_on_fill :: "quantity \<Rightarrow> vwap_algo \<Rightarrow> vwap_algo" where
  "vwap_on_fill qty a = algo_fill qty a"

subsection \<open>Iceberg\<close>

record iceberg_algo = algo_base +
  ib_visible_qty :: quantity
  ib_tranche_remaining :: quantity
  ib_needs_replenish :: bool

definition iceberg_algo_new :: "decision \<Rightarrow> quantity \<Rightarrow> iceberg_algo" where
  "iceberg_algo_new parent visible_qty =
     \<lparr>ab_symbol = dec_symbol parent, ab_side = dec_side parent, ab_order_type = dec_order_type parent,
      ab_limit_price = dec_limit_price parent, ab_total_qty = dec_quantity parent, ab_remaining_qty = dec_quantity parent,
      ab_slices_sent = 0, ab_slices_filled = 0, ab_filled_qty = 0, ib_visible_qty = max visible_qty 1,
      ib_tranche_remaining = 0, ib_needs_replenish = True\<rparr>"

definition iceberg_next_slice :: "iceberg_algo \<Rightarrow> child_order \<times> iceberg_algo" where
  "iceberg_next_slice a =
     (if algo_is_complete a then (algo_child 0 a, a)
      else if \<not> ib_needs_replenish a then (algo_child 0 a, a)
      else let qty = min (ib_visible_qty a) (ab_remaining_qty a)
           in (algo_child qty a, a\<lparr>ib_tranche_remaining := qty, ib_needs_replenish := False,
                                  ab_slices_sent := ab_slices_sent a + 1\<rparr>))"

definition iceberg_on_fill :: "quantity \<Rightarrow> iceberg_algo \<Rightarrow> iceberg_algo" where
  "iceberg_on_fill qty a =
     (let a = algo_fill qty a in
      if ib_tranche_remaining a \<le> qty then a\<lparr>ib_tranche_remaining := 0, ib_needs_replenish := True\<rparr>
      else a\<lparr>ib_tranche_remaining := ib_tranche_remaining a - qty\<rparr>)"

section \<open>Sizing\<close>

datatype sizing_method = Fixed | FixedFractional | Kelly

record 'd risk_budget =
  rbu_win_rate :: 'd
  rbu_win_loss_ratio :: 'd
  rbu_max_portfolio_risk :: 'd

definition risk_budget_default :: "'d fp \<Rightarrow> 'd risk_budget" where
  "risk_budget_default fp = \<lparr>rbu_win_rate = fp_ratio fp 55 100, rbu_win_loss_ratio = fp_ratio fp 15 10,
     rbu_max_portfolio_risk = fp_ratio fp 1 10\<rparr>"

record 'd order_sizer =
  os_method :: sizing_method
  os_fixed_size :: quantity
  os_fractional_pct :: 'd
  os_max_position :: quantity

definition order_sizer_new :: "'d fp \<Rightarrow> sizing_method \<Rightarrow> 'd order_sizer" where
  "order_sizer_new fp m = \<lparr>os_method = m, os_fixed_size = 100, os_fractional_pct = fp_ratio fp 2 100, os_max_position = 10000\<rparr>"

definition set_fixed_size :: "quantity \<Rightarrow> 'd order_sizer \<Rightarrow> 'd order_sizer" where
  "set_fixed_size sz z = z\<lparr>os_fixed_size := sz\<rparr>"

definition set_fractional_pct :: "'d \<Rightarrow> 'd order_sizer \<Rightarrow> 'd order_sizer" where
  "set_fractional_pct pct z = z\<lparr>os_fractional_pct := pct\<rparr>"

definition set_max_position :: "quantity \<Rightarrow> 'd order_sizer \<Rightarrow> 'd order_sizer" where
  "set_max_position max_pos z = z\<lparr>os_max_position := max_pos\<rparr>"

text \<open>\<open>static_cast<Quantity>\<close> of a double.\<close>

definition to_quantity :: "'d fp \<Rightarrow> 'd \<Rightarrow> quantity" where
  "to_quantity fp d = of_int (fp_trunc fp d)"

definition size_fixed :: "'d sim_math \<Rightarrow> 'd \<Rightarrow> 'd order_sizer \<Rightarrow> quantity" where
  "size_fixed mt abs_strength z =
     (let fp = sm_fp mt
      in to_quantity fp (sm_round mt (fp_mul fp (fp_of_nat fp (unat (os_fixed_size z))) abs_strength)))"

definition size_fractional :: "'d sim_math \<Rightarrow> 'd \<Rightarrow> 'd \<Rightarrow> 'd order_sizer \<Rightarrow> quantity" where
  "size_fractional mt abs_strength cash z =
     (let fp = sm_fp mt in
      if fp_le fp cash (fp_zero fp) then 0
      else let notional = fp_mul fp (fp_mul fp cash (os_fractional_pct z)) abs_strength
           in to_quantity fp (fp_max fp (fp_zero fp) (sm_floor mt notional)))"

definition size_kelly :: "'d sim_math \<Rightarrow> 'd \<Rightarrow> 'd \<Rightarrow> 'd risk_budget \<Rightarrow> quantity" where
  "size_kelly mt abs_strength cash budget =
     (let fp = sm_fp mt in
      if fp_le fp cash (fp_zero fp) then 0
      else let p = rbu_win_rate budget; q = fp_sub fp (fp_of_nat fp 1) p; b = rbu_win_loss_ratio budget in
        if fp_less fp b (fp_ratio fp 1 1000000000) then 0
        else let kelly_f = fp_sub fp p (fp_div fp q b) in
          if fp_le fp kelly_f (fp_zero fp) then 0
          else let kelly_f = fp_min fp kelly_f (rbu_max_portfolio_risk budget);
                   notional = fp_mul fp (fp_mul fp cash kelly_f) abs_strength
               in to_quantity fp (fp_max fp (fp_zero fp) (sm_floor mt notional)))"

definition apply_limits :: "quantity \<Rightarrow> 'd order_sizer \<Rightarrow> quantity" where
  "apply_limits raw_qty z = min raw_qty (os_max_position z)"

definition sizer_size :: "'d sim_math \<Rightarrow> 'd \<Rightarrow> 'd \<Rightarrow> 'd risk_budget \<Rightarrow> 'd order_sizer \<Rightarrow> quantity" where
  "sizer_size mt signal_strength cash budget z =
     (let fp = sm_fp mt; abs_str = fp_abs fp signal_strength in
      if fp_less fp abs_str (fp_ratio fp 1 1000000000) then 0
      else apply_limits (case os_method z of
          Fixed \<Rightarrow> size_fixed mt abs_str z
        | FixedFractional \<Rightarrow> size_fractional mt abs_str cash z
        | Kelly \<Rightarrow> size_kelly mt abs_str cash budget) z)"

text \<open>The configuration by the values it holds, \<open>None\<close> for a key that is absent.\<close>

definition sizer_configure ::
  "'d fp \<Rightarrow> string option \<Rightarrow> u32 option \<Rightarrow> 'd option \<Rightarrow> u32 option \<Rightarrow> 'd order_sizer \<Rightarrow> 'd order_sizer" where
  "sizer_configure fp method_str fixed fractional max_position z =
     \<lparr>os_method = (if method_str = Some ''fixed_fractional'' then FixedFractional
                   else if method_str = Some ''kelly'' then Kelly else Fixed),
      os_fixed_size = (case fixed of Some x \<Rightarrow> x | None \<Rightarrow> 100),
      os_fractional_pct = (case fractional of Some x \<Rightarrow> x | None \<Rightarrow> fp_ratio fp 2 100),
      os_max_position = (case max_position of Some x \<Rightarrow> x | None \<Rightarrow> 10000)\<rparr>"

section \<open>Slippage\<close>

record 'd slippage_model =
  sl_alpha :: 'd
  sl_adv :: "u64 \<rightharpoonup> 'd"

definition slippage_model_new :: "'d \<Rightarrow> 'd slippage_model" where
  "slippage_model_new alpha = \<lparr>sl_alpha = alpha, sl_adv = Map.empty\<rparr>"

definition set_alpha :: "'d \<Rightarrow> 'd slippage_model \<Rightarrow> 'd slippage_model" where
  "set_alpha alpha m = m\<lparr>sl_alpha := alpha\<rparr>"

definition set_adv :: "symbol \<Rightarrow> 'd \<Rightarrow> 'd slippage_model \<Rightarrow> 'd slippage_model" where
  "set_adv symbol adv m = m\<lparr>sl_adv := (sl_adv m)(as_key symbol \<mapsto> adv)\<rparr>"

definition slippage_adv :: "'d fp \<Rightarrow> symbol \<Rightarrow> 'd slippage_model \<Rightarrow> 'd" where
  "slippage_adv fp symbol m = (case sl_adv m (as_key symbol) of Some x \<Rightarrow> x | None \<Rightarrow> fp_of_nat fp 1000000)"

definition estimate_slippage :: "'d fp \<Rightarrow> symbol \<Rightarrow> quantity \<Rightarrow> 'd slippage_model \<Rightarrow> 'd" where
  "estimate_slippage fp symbol qty m =
     (let volume = slippage_adv fp symbol m in
      if fp_less fp volume (fp_ratio fp 1 1000000000) then fp_zero fp
      else fp_mul fp (sl_alpha m) (fp_div fp (fp_of_nat fp (unat qty)) volume))"

definition estimated_fill_price :: "'d fp \<Rightarrow> symbol \<Rightarrow> side \<Rightarrow> price \<Rightarrow> quantity \<Rightarrow> 'd slippage_model \<Rightarrow> price" where
  "estimated_fill_price fp symbol sd reference_price qty m =
     (let slip = estimate_slippage fp symbol qty m; ref = price_to_double fp reference_price; one = fp_of_nat fp 1;
          fill = (if sd = Side_Buy then fp_mul fp ref (fp_add fp one slip) else fp_mul fp ref (fp_sub fp one slip));
          fill = (if fp_less fp fill (fp_zero fp) then fp_zero fp else fill)
      in double_to_price fp fill)"

definition slippage_configure :: "'d fp \<Rightarrow> 'd option \<Rightarrow> 'd slippage_model \<Rightarrow> 'd slippage_model" where
  "slippage_configure fp alpha m = m\<lparr>sl_alpha := (case alpha of Some x \<Rightarrow> x | None \<Rightarrow> fp_ratio fp 1 10)\<rparr>"

section \<open>The contract of an execution algorithm\<close>

datatype algo_op = Slice | Fill quantity

text \<open>Any sequence of slices and fills; the child orders are collected in order.\<close>

definition algo_step ::
  "('s \<Rightarrow> child_order \<times> 's) \<Rightarrow> (quantity \<Rightarrow> 's \<Rightarrow> 's) \<Rightarrow> algo_op \<Rightarrow> child_order list \<times> 's \<Rightarrow> child_order list \<times> 's" where
  "algo_step next_slice on_fill x cs = (case x of
     Slice \<Rightarrow> (fst cs @ [fst (next_slice (snd cs))], snd (next_slice (snd cs)))
   | Fill q \<Rightarrow> (fst cs, on_fill q (snd cs)))"

definition algo_run ::
  "('s \<Rightarrow> child_order \<times> 's) \<Rightarrow> (quantity \<Rightarrow> 's \<Rightarrow> 's) \<Rightarrow> algo_op list \<Rightarrow> 's \<Rightarrow> child_order list \<times> 's" where
  "algo_run next_slice on_fill ops s = fold (algo_step next_slice on_fill) ops ([], s)"

lemma algo_run_Nil [simp]: "algo_run next_slice on_fill [] s = ([], s)"
  by (simp add: algo_run_def)

lemma algo_run_snoc: "algo_run next_slice on_fill (ops @ [x]) s = algo_step next_slice on_fill x (algo_run next_slice on_fill ops s)"
  by (simp add: algo_run_def)

definition filled_by :: "algo_op list \<Rightarrow> nat" where
  "filled_by ops = (\<Sum>x\<leftarrow>ops. case x of Slice \<Rightarrow> 0 | Fill q \<Rightarrow> unat q)"

text \<open>
  A slice is never more than what is left of the parent order, and only fills take from it. The client lemmas
  follow any sequence of slices and fills.
\<close>

locale execution_algo =
  fixes next_slice :: "'s \<Rightarrow> child_order \<times> 's"
    and on_fill :: "quantity \<Rightarrow> 's \<Rightarrow> 's"
    and base :: "'s \<Rightarrow> algo_base"
  assumes slice_remaining: "ab_remaining_qty (base (snd (next_slice s))) = ab_remaining_qty (base s)"
    and slice_le: "co_quantity (fst (next_slice s)) \<le> ab_remaining_qty (base s)"
    and slice_child: "fst (next_slice s) = algo_child (co_quantity (fst (next_slice s))) (base s)"
    and slice_parent: "algo_child 0 (base (snd (next_slice s))) = algo_child 0 (base s)"
    and fill_remaining: "ab_remaining_qty (base (on_fill q s)) = ab_remaining_qty (base s) - min q (ab_remaining_qty (base s))"
    and fill_parent: "algo_child 0 (base (on_fill q s)) = algo_child 0 (base s)"
begin

lemma fill_unat: "unat (ab_remaining_qty (base (on_fill q s))) = unat (ab_remaining_qty (base s)) - unat q"
proof -
  have "min q (ab_remaining_qty (base s)) \<le> ab_remaining_qty (base s)"
    by simp
  then show ?thesis
    by (simp add: fill_remaining unat_minus_le min_def word_le_nat_alt)
qed

lemma remaining_after:
  "unat (ab_remaining_qty (base (snd (algo_run next_slice on_fill ops s)))) =
     unat (ab_remaining_qty (base s)) - filled_by ops"
proof (induction ops rule: rev_induct)
  case Nil
  then show ?case by (simp add: filled_by_def)
next
  case (snoc x ops)
  then show ?case
    by (cases x) (simp_all add: algo_run_snoc algo_step_def slice_remaining fill_unat filled_by_def)
qed

lemma parent_kept: "algo_child 0 (base (snd (algo_run next_slice on_fill ops s))) = algo_child 0 (base s)"
proof (induction ops rule: rev_induct)
  case Nil
  then show ?case by simp
next
  case (snoc x ops)
  then show ?case
    by (cases x) (simp_all add: algo_run_snoc algo_step_def slice_parent fill_parent)
qed

lemma slices_within:
  "c \<in> set (fst (algo_run next_slice on_fill ops s)) \<Longrightarrow>
     c = algo_child (co_quantity c) (base s) \<and> co_quantity c \<le> ab_remaining_qty (base s)"
proof (induction ops rule: rev_induct)
  case Nil
  then show ?case by simp
next
  case (snoc x ops)
  show ?case
  proof (cases "c \<in> set (fst (algo_run next_slice on_fill ops s))")
    case True
    then show ?thesis
      by (rule snoc.IH)
  next
    case False
    let ?t = "snd (algo_run next_slice on_fill ops s)"
    have c: "c = fst (next_slice ?t)"
      using snoc.prems False by (cases x) (auto simp: algo_run_snoc algo_step_def)
    have "algo_child (co_quantity c) (base ?t) = algo_child (co_quantity c) (base s)"
      using parent_kept [of ops s] by (simp add: algo_child_def)
    moreover have "ab_remaining_qty (base ?t) \<le> ab_remaining_qty (base s)"
      using remaining_after [of ops s] by (simp add: word_le_nat_alt)
    ultimately show ?thesis
      using slice_child [of ?t] slice_le [of ?t] c by (metis order.trans)
  qed
qed

end

text \<open>The members of the base class of an algorithm.\<close>

abbreviation twap_base :: "twap_algo \<Rightarrow> algo_base" where "twap_base \<equiv> algo_base.truncate"
abbreviation vwap_base :: "vwap_algo \<Rightarrow> algo_base" where "vwap_base \<equiv> algo_base.truncate"
abbreviation iceberg_base :: "iceberg_algo \<Rightarrow> algo_base" where "iceberg_base \<equiv> algo_base.truncate"

lemmas algo_defs = algo_fill_def algo_child_def algo_is_complete_def algo_base.truncate_def Let_def

interpretation twap: execution_algo twap_next_slice twap_on_fill twap_base
  by unfold_locales (simp_all add: twap_next_slice_def twap_on_fill_def algo_defs)

interpretation vwap: execution_algo vwap_next_slice vwap_on_fill vwap_base
  by unfold_locales (simp_all add: vwap_next_slice_def vwap_on_fill_def algo_defs)

interpretation iceberg: execution_algo iceberg_next_slice iceberg_on_fill iceberg_base
  by unfold_locales (simp_all add: iceberg_next_slice_def iceberg_on_fill_def algo_defs)

section \<open>Properties\<close>

text \<open>What the three algorithms owe to their parent order.\<close>

definition respects_parent :: "decision \<Rightarrow> nat \<Rightarrow> child_order list \<Rightarrow> algo_base \<Rightarrow> bool" where
  "respects_parent d filled cs b \<longleftrightarrow>
     list_all (\<lambda>c. co_symbol c = dec_symbol d \<and> co_side c = dec_side d \<and> co_type c = dec_order_type d
       \<and> co_limit_price c = dec_limit_price d \<and> co_quantity c \<le> dec_quantity d) cs
     \<and> unat (ab_remaining_qty b) = unat (dec_quantity d) - filled
     \<and> (algo_is_complete b \<longleftrightarrow> unat (dec_quantity d) \<le> filled)"

lemma respects_parentI:
  assumes "\<And>c. c \<in> set cs \<Longrightarrow> c = algo_child (co_quantity c) b0 \<and> co_quantity c \<le> ab_remaining_qty b0"
    and "unat (ab_remaining_qty b) = unat (ab_remaining_qty b0) - filled"
    and "ab_remaining_qty b0 = dec_quantity d" "ab_symbol b0 = dec_symbol d" "ab_side b0 = dec_side d"
      "ab_order_type b0 = dec_order_type d" "ab_limit_price b0 = dec_limit_price d"
  shows "respects_parent d filled cs b"
proof -
  have "co_symbol c = dec_symbol d \<and> co_side c = dec_side d \<and> co_type c = dec_order_type d
      \<and> co_limit_price c = dec_limit_price d \<and> co_quantity c \<le> dec_quantity d" if "c \<in> set cs" for c
    using assms(1) [OF that] assms(3-7) by (metis algo_child_def child_order.select_convs(1,2,4,5))
  moreover have "algo_is_complete b \<longleftrightarrow> unat (ab_remaining_qty b) = 0"
    by (simp add: algo_is_complete_def unat_eq_0)
  ultimately show ?thesis
    using assms(2,3) by (auto simp: respects_parent_def list_all_iff)
qed

text \<open>
  C27. No execution algorithm trades more than its parent order. Whatever the sequence of slices requested and fills reported,
  every child order of the time weighted, the volume weighted and the iceberg algorithm has the symbol, side, type and
  limit price of the parent and at most its quantity; the quantity that remains is the parent's less the
  fills, and the algorithm is complete exactly when the fills reach the parent's quantity.
\<close>

theorem execution_respects_parent:
  "(let (cs, a) = algo_run twap_next_slice twap_on_fill ops (twap_algo_new d n)
     in respects_parent d (filled_by ops) cs (twap_base a))
   \<and> (let (cs, a) = algo_run vwap_next_slice vwap_on_fill ops (vwap_algo_new fp d profile)
     in respects_parent d (filled_by ops) cs (vwap_base a))
   \<and> (let (cs, a) = algo_run iceberg_next_slice iceberg_on_fill ops (iceberg_algo_new d v)
     in respects_parent d (filled_by ops) cs (iceberg_base a))"
  unfolding Let_def split_beta
  by (intro conjI; rule respects_parentI, erule twap.slices_within vwap.slices_within iceberg.slices_within,
      rule twap.remaining_after vwap.remaining_after iceberg.remaining_after)
    (simp_all add: twap_algo_new_def vwap_algo_new_def iceberg_algo_new_def algo_base.truncate_def Let_def)

lemma algo_run_Slices_Suc:
  assumes "algo_run next_slice on_fill (replicate k Slice) s = (cs, a)" and "next_slice a = (c, a')"
  shows "algo_run next_slice on_fill (replicate (Suc k) Slice) s = (cs @ [c], a')"
  using assms unfolding replicate_Suc replicate_append_same [symmetric] algo_run_snoc by (simp add: algo_step_def)

lemma slices_before_last:
  fixes q N :: nat
  shows "q div N * (N - 1) \<le> q"
proof -
  have "q div N * (N - 1) \<le> q div N * N"
    by (rule mult_le_mono2) simp
  also have "\<dots> \<le> q"
    by simp
  finally show ?thesis .
qed

lemma twap_sizes:
  fixes d :: decision and n :: u32
  defines "N \<equiv> unat (max n 1)" and "q \<equiv> unat (dec_quantity d)"
  shows "0 < N" "unat (tw_slice_size (twap_algo_new d n)) = q div N"
    "unat (tw_last_slice_size (twap_algo_new d n)) = q - q div N * (N - 1)"
proof -
  have one: "max n 1 \<noteq> 0"
    by (metis max.cobounded2 word_le_0_iff zero_neq_one)
  then show N: "0 < N"
    by (simp add: N_def unat_gt_0)
  show slice: "unat (tw_slice_size (twap_algo_new d n)) = q div N"
    by (simp add: twap_algo_new_def Let_def unat_div_distrib N_def q_def)
  have le: "q div N * (N - 1) \<le> q"
    by (rule slices_before_last)
  have q: "q < 2 ^ 32"
    by (simp add: q_def)
  have "unat (max n 1 - 1) = N - 1"
    unfolding N_def using one by (rule unat_minus_one)
  then have prod: "unat (tw_slice_size (twap_algo_new d n) * (max n 1 - 1)) = q div N * (N - 1)"
    using slice le q by (subst unat_mult_lem [THEN iffD1]) simp_all
  then have "tw_slice_size (twap_algo_new d n) * (max n 1 - 1) \<le> dec_quantity d"
    using le by (simp add: word_le_nat_alt q_def)
  then show "unat (tw_last_slice_size (twap_algo_new d n)) = q - q div N * (N - 1)"
    using prod by (simp add: twap_algo_new_def Let_def unat_minus_le q_def)
qed

lemma twap_run_slices:
  fixes d :: decision and n :: u32
  defines "N \<equiv> unat (max n 1)" and "a \<equiv> twap_algo_new d n"
  assumes "k \<le> N" and "dec_quantity d \<noteq> 0"
  shows "algo_run twap_next_slice twap_on_fill (replicate k Slice) a =
    (map (\<lambda>i. algo_child (if Suc i = N then tw_last_slice_size a else tw_slice_size a) a) [0..<k],
     a\<lparr>ab_slices_sent := of_nat k\<rparr>)"
  using assms(3)
proof (induction k)
  case 0
  then show ?case by (simp add: a_def twap_algo_new_def Let_def)
next
  case (Suc k)
  have n: "tw_num_slices a = max n 1" "ab_remaining_qty a = dec_quantity d" "N < 2 ^ 32"
    by (simp_all add: a_def twap_algo_new_def Let_def N_def)
  have k: "unat (of_nat k :: u32) = k"
    using Suc.prems n(3) by (intro unat_of_nat_small) simp
  have lt: "\<not> max n 1 \<le> (of_nat k :: u32)"
    using Suc.prems k by (simp add: word_le_nat_alt N_def)
  have "unat (max n 1 - 1) = N - 1"
    unfolding N_def by (rule unat_minus_one) (metis max.cobounded2 word_le_0_iff zero_neq_one)
  then have last: "(of_nat k = max n 1 - 1) \<longleftrightarrow> Suc k = N"
    using k Suc.prems by (metis Suc_diff_1 Suc_leD Suc_le_eq diff_Suc_1 gr_zeroI less_Suc_eq_le not_less_zero word_unat_eq_iff
        zero_less_diff)
  have sizes: "tw_last_slice_size a \<le> dec_quantity d" "tw_slice_size a \<le> dec_quantity d"
    using twap_sizes(2,3) [of d n] by (simp_all add: word_le_nat_alt a_def)
  have "twap_next_slice (a\<lparr>ab_slices_sent := of_nat k\<rparr>) =
      (algo_child (if Suc k = N then tw_last_slice_size a else tw_slice_size a) a, a\<lparr>ab_slices_sent := of_nat (Suc k)\<rparr>)"
    using lt last sizes n assms(4)
    by (auto simp: twap_next_slice_def algo_is_complete_def Let_def min_def algo_child_def add.commute)
  with Suc show ?case
    by (subst algo_run_Slices_Suc) simp_all
qed

text \<open>
  The time weighted schedule is exact: without fills the slices are equal but for the last, which takes the
  remainder, and together they are the parent's quantity.
\<close>

theorem twap_schedule_exact:
  fixes d :: decision and n :: u32
  defines "N \<equiv> unat (max n 1)" and "q \<equiv> unat (dec_quantity d)"
  shows "map (unat \<circ> co_quantity) (fst (algo_run twap_next_slice twap_on_fill (replicate N Slice) (twap_algo_new d n))) =
      replicate (N - 1) (q div N) @ [q - q div N * (N - 1)]
    \<and> sum_list (replicate (N - 1) (q div N) @ [q - q div N * (N - 1)]) = q"
proof -
  note sizes = twap_sizes(1) [of n, folded N_def] twap_sizes(2,3) [of d n, folded N_def q_def]
  have "q div N * (N - 1) \<le> q"
    by (rule slices_before_last)
  then have total: "sum_list (replicate (N - 1) (q div N) @ [q - q div N * (N - 1)]) = q"
    by (simp add: sum_list_replicate mult.commute)
  have N: "[0..<N] = [0..<N - 1] @ [N - 1]"
    using sizes(1) by (metis Suc_diff_1 upt_Suc zero_le)
  show ?thesis
  proof (cases "dec_quantity d = 0")
    case False
    have "map (\<lambda>i. if Suc i = N then q - q div N * (N - 1) else q div N) [0..<N - 1] = replicate (N - 1) (q div N)"
      by (rule nth_equalityI) auto
    then show ?thesis
      using twap_run_slices [of "unat (max n 1)" n d] False total sizes(1)
      by (simp add: N_def [symmetric] N sizes(2,3) algo_child_def if_distrib [of unat] comp_def cong: if_cong)
  next
    case True
    define a where "a = twap_algo_new d n"
    have idle: "twap_next_slice a = (algo_child 0 a, a)"
      using True by (simp add: a_def twap_next_slice_def algo_is_complete_def twap_algo_new_def Let_def)
    have "algo_run twap_next_slice twap_on_fill (replicate k Slice) a = (replicate k (algo_child 0 a), a)" for k
    proof (induction k)
      case (Suc k)
      from Suc.IH idle show ?case
        unfolding replicate_Suc [of k "algo_child 0 a"] replicate_append_same [symmetric] by (rule algo_run_Slices_Suc)
    qed simp
    then show ?thesis
      using True total sizes(1)
      by (simp add: a_def [symmetric] algo_child_def q_def replicate_append_same flip: replicate_Suc)
  qed
qed

text \<open>The tranches of an iceberg: one round asks for a tranche and fills it.\<close>

definition iceberg_round :: "iceberg_algo \<Rightarrow> iceberg_algo" where
  "iceberg_round a = (let (c, a) = iceberg_next_slice a in iceberg_on_fill (co_quantity c) a)"

definition iceberg_ok :: "quantity \<Rightarrow> iceberg_algo \<Rightarrow> bool" where
  "iceberg_ok v a \<longleftrightarrow> ib_visible_qty a = v \<and> ib_tranche_remaining a = 0 \<and> (ib_needs_replenish a \<or> algo_is_complete a)"

lemma iceberg_round_ok:
  assumes "iceberg_ok v a"
  shows "iceberg_ok v (iceberg_round a)
    \<and> unat (ab_remaining_qty (iceberg_round a)) = unat (ab_remaining_qty a) - unat v"
proof (cases "ab_remaining_qty a = 0")
  case True
  then show ?thesis
    using assms
    by (auto simp: iceberg_ok_def iceberg_round_def iceberg_next_slice_def iceberg_on_fill_def algo_fill_def
        algo_is_complete_def algo_child_def Let_def)
next
  case False
  then have "unat (ab_remaining_qty a - min v (ab_remaining_qty a)) = unat (ab_remaining_qty a) - unat v"
    by (simp add: unat_minus_le min_def word_le_nat_alt)
  then show ?thesis
    using assms False
    by (auto simp: iceberg_ok_def iceberg_round_def iceberg_next_slice_def iceberg_on_fill_def algo_fill_def
        algo_is_complete_def algo_child_def Let_def)
qed

text \<open>
  An iceberg completes: if every tranche is filled, the parent order is complete after as many rounds as its quantity
  has tranches, and not before.
\<close>

theorem iceberg_completes:
  fixes d :: decision and v :: quantity
  defines "V \<equiv> unat (max v 1)"
  shows "algo_is_complete ((iceberg_round ^^ k) (iceberg_algo_new d v)) \<longleftrightarrow> unat (dec_quantity d) \<le> k * V"
proof -
  have "iceberg_ok (max v 1) ((iceberg_round ^^ k) (iceberg_algo_new d v))
      \<and> unat (ab_remaining_qty ((iceberg_round ^^ k) (iceberg_algo_new d v))) = unat (dec_quantity d) - k * V"
  proof (induction k)
    case 0
    then show ?case by (simp add: iceberg_ok_def iceberg_algo_new_def)
  next
    case (Suc k)
    then show ?case
      using iceberg_round_ok [of "max v 1" "(iceberg_round ^^ k) (iceberg_algo_new d v)"] by (simp add: V_def)
  qed
  then show ?thesis
    by (metis algo_is_complete_def diff_is_0_eq unat_eq_0)
qed

end
