(* ===== verification/Signal_Types.thy ===== *)
theory Signal_Types
  imports Floating
begin

text \<open>
  The types the signals and the strategies exchange (\<open>signals/signal_types.hpp\<close>): signals, feature vectors, trade
  records and the bounded trade history of a symbol, and the regime detector
  (\<open>signals/composite/regime_detector.{hpp,cpp}\<close>), which the strategies consult. A feature vector is a map from
  names to doubles.
\<close>

section \<open>Signals and features\<close>

datatype signal_direction = Dir_Buy | Dir_Sell | Dir_Neutral

datatype signal_strength = Strong | Moderate | Weak | No_Strength

datatype signal_type = Momentum | MeanReversion | OrderFlow | Volatility | Composite | Ml_Model

record 'd signal =
  sg_symbol :: symbol
  sg_type :: signal_type
  sg_strength :: 'd
  sg_direction :: signal_direction
  sg_timestamp :: u64

definition classify :: "'d fp \<Rightarrow> 'd signal \<Rightarrow> signal_strength" where
  "classify fp sg =
     (let abs_str = fp_abs fp (sg_strength sg) in
      if fp_le fp (fp_ratio fp 7 10) abs_str then Strong
      else if fp_le fp (fp_ratio fp 4 10) abs_str then Moderate
      else if fp_less fp (fp_zero fp) abs_str then Weak else No_Strength)"

record 'd feature_vector =
  fv_values :: "string \<rightharpoonup> 'd"
  fv_timestamp :: u64

definition fv_set :: "string \<Rightarrow> 'd \<Rightarrow> 'd feature_vector \<Rightarrow> 'd feature_vector" where
  "fv_set name v fv = fv\<lparr>fv_values := (fv_values fv)(name \<mapsto> v)\<rparr>"

definition fv_get :: "'d feature_vector \<Rightarrow> string \<Rightarrow> 'd \<Rightarrow> 'd" where
  "fv_get fv name default_val = (case fv_values fv name of Some v \<Rightarrow> v | None \<Rightarrow> default_val)"

definition fv_has :: "'d feature_vector \<Rightarrow> string \<Rightarrow> bool" where
  "fv_has fv name \<longleftrightarrow> fv_values fv name \<noteq> None"

record trade_record =
  tr_symbol :: symbol
  tr_price :: price
  tr_quantity :: quantity
  tr_aggressor_side :: side
  tr_timestamp :: u64

record trade_history =
  th_trades :: "trade_record list"
  th_max_size :: nat

definition trade_history_new :: "nat \<Rightarrow> trade_history" where
  "trade_history_new n = \<lparr>th_trades = [], th_max_size = n\<rparr>"

text \<open>
  With a maximal size of zero the first \<open>erase\<close> is on an empty vector, which has no behaviour.
\<close>

definition th_add :: "trade_record \<Rightarrow> trade_history \<Rightarrow> trade_history" where
  "th_add t th =
     (let ts = (if th_max_size th \<le> length (th_trades th) then tl (th_trades th) else th_trades th)
      in th\<lparr>th_trades := ts @ [t]\<rparr>)"

definition th_clear :: "trade_history \<Rightarrow> trade_history" where
  "th_clear th = th\<lparr>th_trades := []\<rparr>"

section \<open>The regime detector\<close>

datatype market_regime = Trending | Ranging | Volatile

record 'd regime_detector =
  rd_trend_threshold :: 'd
  rd_volatile_threshold :: 'd
  rd_hysteresis :: 'd
  rd_current_regime :: market_regime
  rd_confidence :: 'd
  rd_initialized :: bool

definition regime_detector_new :: "'d fp \<Rightarrow> 'd \<Rightarrow> 'd \<Rightarrow> 'd \<Rightarrow> 'd regime_detector" where
  "regime_detector_new fp trend volatile hyst =
     \<lparr>rd_trend_threshold = trend, rd_volatile_threshold = volatile, rd_hysteresis = hyst,
      rd_current_regime = Ranging, rd_confidence = fp_zero fp, rd_initialized = False\<rparr>"

definition is_regime :: "market_regime \<Rightarrow> 'd regime_detector \<Rightarrow> bool" where
  "is_regime r d \<longleftrightarrow> rd_current_regime d = r"

definition set_trend_threshold :: "'d fp \<Rightarrow> 'd \<Rightarrow> 'd regime_detector \<Rightarrow> 'd regime_detector" where
  "set_trend_threshold fp x d = d\<lparr>rd_trend_threshold := fp_clamp fp x (fp_zero fp) (fp_of_nat fp 1)\<rparr>"

definition set_volatile_threshold :: "'d fp \<Rightarrow> 'd \<Rightarrow> 'd regime_detector \<Rightarrow> 'd regime_detector" where
  "set_volatile_threshold fp x d = d\<lparr>rd_volatile_threshold := fp_clamp fp x (fp_zero fp) (fp_of_nat fp 1)\<rparr>"

definition set_hysteresis :: "'d fp \<Rightarrow> 'd \<Rightarrow> 'd regime_detector \<Rightarrow> 'd regime_detector" where
  "set_hysteresis fp x d = d\<lparr>rd_hysteresis := fp_clamp fp x (fp_zero fp) (fp_ratio fp 5 10)\<rparr>"

definition rd_reset :: "'d fp \<Rightarrow> 'd regime_detector \<Rightarrow> 'd regime_detector" where
  "rd_reset fp d = d\<lparr>rd_current_regime := Ranging, rd_confidence := fp_zero fp, rd_initialized := False\<rparr>"

definition compute_trending_score :: "'d fp \<Rightarrow> 'd feature_vector \<Rightarrow> 'd" where
  "compute_trending_score fp fv =
     (let zero = fp_zero fp; one = fp_of_nat fp 1;
          dir_strength = fp_clamp fp (fv_get fv ''directional_strength'' zero) zero one;
          autocorr = fp_clamp fp (fv_get fv ''autocorrelation'' zero) (fp_of_int fp (- 1)) one;
          autocorr_contrib = fp_div fp (fp_add fp autocorr one) (fp_of_nat fp 2);
          score = fp_add fp (fp_mul fp (fp_ratio fp 7 10) dir_strength) (fp_mul fp (fp_ratio fp 3 10) autocorr_contrib)
      in fp_clamp fp score zero one)"

definition compute_volatile_score :: "'d fp \<Rightarrow> 'd feature_vector \<Rightarrow> 'd" where
  "compute_volatile_score fp fv =
     (let zero = fp_zero fp; one = fp_of_nat fp 1;
          volatility = fp_clamp fp (fv_get fv ''volatility'' zero) zero one;
          autocorr = fp_clamp fp (fv_get fv ''autocorrelation'' zero) (fp_of_int fp (- 1)) one;
          whipsaw_boost = (if fp_less fp autocorr zero then fp_mul fp (fp_neg fp autocorr) (fp_ratio fp 2 10) else zero)
      in fp_clamp fp (fp_add fp volatility whipsaw_boost) zero one)"

definition compute_ranging_score :: "'d fp \<Rightarrow> 'd \<Rightarrow> 'd \<Rightarrow> 'd" where
  "compute_ranging_score fp trending volatile =
     fp_clamp fp (fp_sub fp (fp_of_nat fp 1) (fp_max fp trending volatile)) (fp_zero fp) (fp_of_nat fp 1)"

text \<open>The two largest of three scores, which is what \<open>std::sort\<close> in descending order puts first.\<close>

definition top_two :: "'d fp \<Rightarrow> 'd \<Rightarrow> 'd \<Rightarrow> 'd \<Rightarrow> 'd \<times> 'd" where
  "top_two fp a b c =
     (let hi = fp_max fp a b; lo = fp_min fp a b
      in if fp_less fp hi c then (c, hi) else (hi, fp_max fp lo c))"

definition detect :: "'d fp \<Rightarrow> 'd feature_vector \<Rightarrow> 'd regime_detector \<Rightarrow> 'd regime_detector" where
  "detect fp fv d =
     (let trend = compute_trending_score fp fv; vol = compute_volatile_score fp fv;
          range = compute_ranging_score fp trend vol;
          bonus = (\<lambda>r x. if rd_initialized d \<and> rd_current_regime d = r then fp_add fp x (rd_hysteresis d) else x);
          adj_trend = bonus Trending trend; adj_vol = bonus Volatile vol; adj_range = bonus Ranging range;
          (best, best_score) = (Ranging, adj_range);
          (best, best_score) = (if fp_less fp best_score adj_trend then (Trending, adj_trend) else (best, best_score));
          (best, best_score) = (if fp_less fp best_score adj_vol then (Volatile, adj_vol) else (best, best_score));
          (first, second) = top_two fp trend range vol;
          confidence = fp_clamp fp (fp_div fp (fp_sub fp first second) (fp_ratio fp 5 10)) (fp_zero fp) (fp_of_nat fp 1);
          raw_best = fp_max fp (fp_max fp trend vol) range;
          confidence = (if fp_less fp raw_best (fp_ratio fp 2 10)
                        then fp_mul fp confidence (fp_div fp raw_best (fp_ratio fp 2 10)) else confidence)
      in d\<lparr>rd_current_regime := best, rd_confidence := confidence, rd_initialized := True\<rparr>)"

text \<open>The score of a regime, which the detector compares.\<close>

definition regime_score :: "'d fp \<Rightarrow> 'd feature_vector \<Rightarrow> market_regime \<Rightarrow> 'd" where
  "regime_score fp fv r = (let t = compute_trending_score fp fv; v = compute_volatile_score fp fv in
     case r of Trending \<Rightarrow> t | Volatile \<Rightarrow> v | Ranging \<Rightarrow> compute_ranging_score fp t v)"

lemma fp_clamp_exact: "a \<le> b \<Longrightarrow> a \<le> fp_clamp exact_fp x a b \<and> fp_clamp exact_fp x a b \<le> b"
  by (auto simp: fp_clamp_def)

lemma regime_score_bounds: "0 \<le> regime_score exact_fp fv r \<and> regime_score exact_fp fv r \<le> 1"
  using fp_clamp_exact [of 0 1]
  by (cases r) (simp_all add: regime_score_def compute_trending_score_def compute_volatile_score_def
      compute_ranging_score_def Let_def)

text \<open>
  Changing the regime needs a margin. After a first detection the regime only changes to one whose score exceeds the
  score of the present regime by at least the hysteresis, the new regime has the largest adjusted score, and the
  confidence is between zero and one.
\<close>

lemma detect_regime:
  fixes fv :: "real feature_vector" and d :: "real regime_detector"
  defines "old \<equiv> rd_current_regime d" and "new \<equiv> rd_current_regime (detect exact_fp fv d)"
  assumes "rd_initialized d" and "new \<noteq> old"
  shows "regime_score exact_fp fv old + rd_hysteresis d \<le> regime_score exact_fp fv new"
  using assms(3,4) unfolding old_def new_def
  by (cases "rd_current_regime d"; cases "rd_current_regime (detect exact_fp fv d)")
    (auto simp: detect_def Let_def regime_score_def split_beta split: if_splits)

lemma detect_confidence:
  fixes fv :: "real feature_vector"
  shows "0 \<le> rd_confidence (detect exact_fp fv d) \<and> rd_confidence (detect exact_fp fv d) \<le> 1"
proof -
  have pos: "0 \<le> compute_trending_score exact_fp fv" "0 \<le> compute_volatile_score exact_fp fv"
    using regime_score_bounds [of fv Trending] regime_score_bounds [of fv Volatile] by (simp_all add: regime_score_def)
  define t v where "t = compute_trending_score exact_fp fv" and "v = compute_volatile_score exact_fp fv"
  define r where "r = compute_ranging_score exact_fp t v"
  define m where "m = max (max t v) r"
  define x where "x = (fst (top_two exact_fp t r v) - snd (top_two exact_fp t r v)) / (5 / 10)"
  have m: "0 \<le> m" "rd_confidence (detect exact_fp fv d) =
      (if m < 2 / 10 then fp_clamp exact_fp x 0 1 * (m / (2 / 10)) else fp_clamp exact_fp x 0 1)"
    using pos by (simp_all add: detect_def Let_def split_beta m_def x_def t_def v_def r_def)
  have "c * (m / (2 / 10)) \<le> 1" if "m < 2 / 10" "0 \<le> c \<and> c \<le> 1" for c
    using that m(1) by (intro mult_le_one) auto
  then show ?thesis
    using m fp_clamp_exact [of 0 1 x] by auto
qed

end
