(* ===== verification/Window.thy ===== *)
theory Window
  imports Floating
begin

text \<open>
  Means and squared deviations of finite sequences of real numbers, the facts that the strategies and the indicators
  share.
\<close>

lemma foldl_plus: "foldl (+) a xs = a + sum_list xs" for a :: "'a :: comm_monoid_add"
  by (induction xs arbitrary: a) (simp_all add: add.assoc)

lemma foldl_plus_map: "foldl (\<lambda>acc x. acc + f x) a xs = a + (\<Sum>x\<leftarrow>xs. f x)" for a :: "'a :: comm_monoid_add"
  by (induction xs arbitrary: a) (simp_all add: add.assoc)

definition mean :: "real list \<Rightarrow> real" where
  "mean xs = sum_list xs / real (length xs)"

definition sq_dev :: "real list \<Rightarrow> real" where
  "sq_dev xs = (\<Sum>x\<leftarrow>xs. (x - mean xs)\<^sup>2)"

lemma sq_dev_nonneg: "0 \<le> sq_dev xs"
  unfolding sq_dev_def by (rule sum_list_nonneg) auto

lemma sum_sq_around: "(\<Sum>x\<leftarrow>xs. (x - c)\<^sup>2) = (\<Sum>x\<leftarrow>xs. x\<^sup>2) - 2 * c * sum_list xs + real (length xs) * c\<^sup>2"
  for c :: real
  by (induction xs) (simp_all add: power2_eq_square algebra_simps)

lemma sum_dev: "(\<Sum>x\<leftarrow>xs. x - c) = sum_list xs - real (length xs) * c" for c :: real
  by (induction xs) (simp_all add: algebra_simps)

text \<open>The variance as the mean of the squares less the square of the mean.\<close>

lemma sq_dev_eq: "sq_dev xs = (\<Sum>x\<leftarrow>xs. x\<^sup>2) - real (length xs) * (mean xs)\<^sup>2"
proof (cases "xs = []")
  case False
  then have "sum_list xs = real (length xs) * mean xs"
    by (simp add: mean_def)
  then show ?thesis
    unfolding sq_dev_def sum_sq_around by (simp add: power2_eq_square)
qed (simp add: sq_dev_def)

lemma sum_list_sq_le: "(sum_list xs)\<^sup>2 \<le> real (length xs) * (\<Sum>x\<leftarrow>xs. x\<^sup>2)"
proof (cases "xs = []")
  case False
  then have "real (length xs) * sq_dev xs = real (length xs) * (\<Sum>x\<leftarrow>xs. x\<^sup>2) - (sum_list xs)\<^sup>2"
    by (simp add: sq_dev_eq mean_def power2_eq_square field_simps)
  then show ?thesis
    using mult_nonneg_nonneg [OF of_nat_0_le_iff sq_dev_nonneg, of "length xs" xs] by linarith
qed simp

text \<open>
  Samuelson's inequality: in a sequence of \<open>n\<close> numbers the square of one deviation is at most \<open>n - 1\<close> times the mean
  of all of them.
\<close>

lemma deviation_bound:
  assumes "xs \<noteq> []"
  shows "real (length xs) * (last xs - mean xs)\<^sup>2 \<le> (real (length xs) - 1) * sq_dev xs"
proof -
  let ?m = "mean xs" and ?ys = "butlast xs"
  have xs: "xs = ?ys @ [last xs]"
    using assms by simp
  have len: "real (length ?ys) = real (length xs) - 1"
    using assms by (simp add: of_nat_diff Suc_leI)
  have "(\<Sum>x\<leftarrow>xs. x - ?m) = 0"
    using assms by (simp add: sum_dev mean_def)
  then have "(\<Sum>x\<leftarrow>?ys. x - ?m) = - (last xs - ?m)"
    by (subst (asm) (2) xs) simp
  then have "(last xs - ?m)\<^sup>2 \<le> (real (length xs) - 1) * (\<Sum>x\<leftarrow>?ys. (x - ?m)\<^sup>2)"
    using sum_list_sq_le [of "map (\<lambda>x. x - ?m) ?ys"] by (simp add: comp_def power2_commute flip: len)
  also have "(\<Sum>x\<leftarrow>?ys. (x - ?m)\<^sup>2) = sq_dev xs - (last xs - ?m)\<^sup>2"
    unfolding sq_dev_def by (subst (3) xs) simp
  finally show ?thesis
    by (simp add: algebra_simps)
qed

text \<open>The last \<open>p\<close> values of a stream.\<close>

definition last_n :: "nat \<Rightarrow> 'a list \<Rightarrow> 'a list" where
  "last_n p xs = drop (length xs - p) xs"

lemma last_n_simps [simp]: "last_n p [] = []" "length (last_n p xs) = min (length xs) p"
  by (auto simp: last_n_def)

lemma last_n_snoc:
  assumes "0 < p"
  shows "last_n p (xs @ [v]) = (if length (last_n p xs) < p then last_n p xs else tl (last_n p xs)) @ [v]"
proof (cases "length xs < p")
  case False
  then have "drop (Suc (length xs - p)) xs = tl (drop (length xs - p) xs)"
    by (simp add: drop_Suc tl_drop)
  then show ?thesis
    using False assms by (simp add: last_n_def Suc_diff_le not_less)
qed (simp add: last_n_def)

end
