(* ===== verification/Strategies.thy ===== *)
theory Strategies
  imports Strategy_Types Signal_Types Window
begin

text \<open>
  The strategies (\<open>strategy/strategies\<close>): market making, mean reversion, momentum following, thresholds on a signal and
  the statistical arbitrage of a pair. A strategy is a record of its configuration and its state; \<open>on_signal\<close> takes
  a signal and the view of the portfolio and returns the decisions and the new state.

  Positions are \<open>int64_t\<close>, kept as the words whose signed reading they are. A regime detector is shared with its owner,
  so a strategy holds its address and reads it from the store of detectors at the time of the signal.
\<close>

section \<open>Portfolio view and helpers\<close>

text \<open>The text of a symbol, \<open>std::string(data, strnlen(data, SYMBOL_LENGTH))\<close>.\<close>

definition symbol_name :: "symbol \<Rightarrow> bytes" where
  "symbol_name sy = takeWhile (\<lambda>c. c \<noteq> 0) (sym_data sy)"

record 'd portfolio_view =
  pv_positions :: "bytes \<rightharpoonup> u64"
  pv_cash :: 'd

definition pv_position :: "'d portfolio_view \<Rightarrow> bytes \<Rightarrow> u64" where
  "pv_position pv name = (case pv_positions pv name of Some p \<Rightarrow> p | None \<Rightarrow> 0)"

definition pv_has_position :: "'d portfolio_view \<Rightarrow> bytes \<Rightarrow> bool" where
  "pv_has_position pv name \<longleftrightarrow> (case pv_positions pv name of Some p \<Rightarrow> p \<noteq> 0 | None \<Rightarrow> False)"

definition market_order :: "symbol \<Rightarrow> side \<Rightarrow> quantity \<Rightarrow> urgency \<Rightarrow> decision" where
  "market_order sy sd qty u = \<lparr>dec_symbol = sy, dec_side = sd, dec_quantity = qty, dec_order_type = Decision_Market,
     dec_limit_price = 0, dec_urgency = u\<rparr>"

definition limit_order :: "symbol \<Rightarrow> side \<Rightarrow> quantity \<Rightarrow> price \<Rightarrow> urgency \<Rightarrow> decision" where
  "limit_order sy sd qty px u = \<lparr>dec_symbol = sy, dec_side = sd, dec_quantity = qty, dec_order_type = Decision_Limit,
     dec_limit_price = px, dec_urgency = u\<rparr>"

text \<open>\<open>std::min<int64_t>\<close> and \<open>std::max<int64_t>\<close>.\<close>

definition smin64 :: "u64 \<Rightarrow> u64 \<Rightarrow> u64" where
  "smin64 a b = (if sint b < sint a then b else a)"

definition smax64 :: "u64 \<Rightarrow> u64 \<Rightarrow> u64" where
  "smax64 a b = (if sint a < sint b then b else a)"

text \<open>The entry of the three directional strategies: the quantity up to the largest position, and no order of quantity 0.\<close>

definition enter_long :: "symbol \<Rightarrow> u64 \<Rightarrow> u64 \<Rightarrow> decision list" where
  "enter_long sy max_position position =
     (let qty = (ucast (smin64 (max_position - position) max_position) :: quantity)
      in if 0 < qty then [market_order sy Side_Buy qty Medium] else [])"

definition enter_short :: "symbol \<Rightarrow> u64 \<Rightarrow> u64 \<Rightarrow> decision list" where
  "enter_short sy max_position position =
     (let qty = (ucast (smin64 (max_position + position) max_position) :: quantity)
      in if 0 < qty then [market_order sy Side_Sell qty Medium] else [])"

type_synonym 'd detectors = "nat \<Rightarrow> 'd regime_detector"

section \<open>Market making\<close>

record 'd market_making =
  mm_spread_ticks :: u32
  mm_quote_size :: quantity
  mm_max_position :: u64
  mm_inventory_skew_factor :: 'd
  mm_last_fair_value :: price

definition market_making_new :: "'d fp \<Rightarrow> 'd market_making" where
  "market_making_new fp = \<lparr>mm_spread_ticks = 2, mm_quote_size = 100, mm_max_position = 1000,
     mm_inventory_skew_factor = fp_ratio fp 5 10, mm_last_fair_value = 0\<rparr>"

definition mm_configure ::
  "'d fp \<Rightarrow> u32 option \<Rightarrow> u32 option \<Rightarrow> u32 option \<Rightarrow> 'd option \<Rightarrow> 'd market_making \<Rightarrow> 'd market_making" where
  "mm_configure fp spread qsize max_pos skew s =
     s\<lparr>mm_spread_ticks := (case spread of Some x \<Rightarrow> x | None \<Rightarrow> 2), mm_quote_size := (case qsize of Some x \<Rightarrow> x | None \<Rightarrow> 100),
       mm_max_position := ucast (case max_pos of Some x \<Rightarrow> x | None \<Rightarrow> 1000),
       mm_inventory_skew_factor := (case skew of Some x \<Rightarrow> x | None \<Rightarrow> fp_ratio fp 5 10)\<rparr>"

definition compute_skew :: "'d fp \<Rightarrow> u64 \<Rightarrow> 'd market_making \<Rightarrow> u64" where
  "compute_skew fp position s = of_int (fp_trunc fp (fp_mul fp (fp_of_int fp (sint (- position))) (mm_inventory_skew_factor s)))"

definition fair_value_from_signal :: "'d signal \<Rightarrow> price" where
  "fair_value_from_signal sg = (if sg_timestamp sg = 0 then 0 else ucast (sg_timestamp sg))"

definition mm_on_signal ::
  "'d fp \<Rightarrow> 'd signal \<Rightarrow> 'd portfolio_view \<Rightarrow> 'd market_making \<Rightarrow> decision list \<times> 'd market_making" where
  "mm_on_signal fp sg pv s =
     (let fair_value = fair_value_from_signal sg in
      if fair_value = 0 then ([], s)
      else
        let position = pv_position pv (symbol_name (sg_symbol sg));
            skew = compute_skew fp position s;
            half_spread = (ucast (mm_spread_ticks s) :: u64);
            bid_raw = ucast fair_value - half_spread + skew;
            ask_raw = ucast fair_value + half_spread + skew;
            bid_price = (ucast (smax64 bid_raw 1) :: price);
            ask_price = (ucast (smax64 ask_raw 1) :: price);
            can_buy = sint (position + ucast (mm_quote_size s)) \<le> sint (mm_max_position s);
            can_sell = sint (- mm_max_position s) \<le> sint (position - ucast (mm_quote_size s))
        in ((if can_buy then [limit_order (sg_symbol sg) Side_Buy (mm_quote_size s) bid_price Low] else []) @
            (if can_sell then [limit_order (sg_symbol sg) Side_Sell (mm_quote_size s) ask_price Low] else []),
            s\<lparr>mm_last_fair_value := fair_value\<rparr>))"

section \<open>Rolling z-score\<close>

text \<open>
  The mean and the standard deviation of a window of doubles and the z-score of the newest value, as
  \<open>MeanReversionStrategy::compute_zscore\<close> and \<open>StatArbStrategy::compute_ratio_zscore\<close> both write it.
\<close>

definition window_mean :: "'d fp \<Rightarrow> 'd list \<Rightarrow> 'd" where
  "window_mean fp w = fp_div fp (foldl (fp_add fp) (fp_zero fp) w) (fp_of_nat fp (length w))"

definition window_stddev :: "'d sim_math \<Rightarrow> 'd list \<Rightarrow> 'd" where
  "window_stddev mt w =
     (let fp = sm_fp mt; mean = window_mean fp w;
          sq_sum = foldl (\<lambda>acc p. let diff = fp_sub fp p mean in fp_add fp acc (fp_mul fp diff diff)) (fp_zero fp) w
      in sm_sqrt mt (fp_div fp sq_sum (fp_of_nat fp (length w))))"

definition window_zscore :: "'d sim_math \<Rightarrow> 'd list \<Rightarrow> 'd \<Rightarrow> 'd" where
  "window_zscore mt w x =
     (let fp = sm_fp mt in
      if length w < 2 then fp_zero fp
      else let stddev = window_stddev mt w in
        if fp_less fp stddev (fp_ratio fp 1 1000000000000) then fp_zero fp
        else fp_div fp (fp_sub fp x (window_mean fp w)) stddev)"

text \<open>A value is appended, and values are removed from the front while the window is longer than \<open>lookback\<close>.\<close>

definition window_push :: "u32 \<Rightarrow> 'd \<Rightarrow> 'd list \<Rightarrow> 'd list" where
  "window_push lookback x w = (let w = w @ [x] in drop (length w - unat lookback) w)"

section \<open>Mean reversion\<close>

record 'd mean_reversion =
  mr_z_entry :: 'd
  mr_z_exit :: 'd
  mr_lookback :: u32
  mr_max_position :: u64
  mr_regime_detector :: "nat option"
  mr_price_windows :: "u64 \<rightharpoonup> 'd list"

definition mean_reversion_new :: "'d fp \<Rightarrow> 'd mean_reversion" where
  "mean_reversion_new fp = \<lparr>mr_z_entry = fp_of_nat fp 2, mr_z_exit = fp_ratio fp 5 10, mr_lookback = 50,
     mr_max_position = 1000, mr_regime_detector = None, mr_price_windows = Map.empty\<rparr>"

definition mr_configure ::
  "'d fp \<Rightarrow> 'd option \<Rightarrow> 'd option \<Rightarrow> u32 option \<Rightarrow> u32 option \<Rightarrow> 'd mean_reversion \<Rightarrow> 'd mean_reversion" where
  "mr_configure fp entry exit lookback max_pos s =
     s\<lparr>mr_z_entry := (case entry of Some x \<Rightarrow> x | None \<Rightarrow> fp_of_nat fp 2),
       mr_z_exit := (case exit of Some x \<Rightarrow> x | None \<Rightarrow> fp_ratio fp 5 10),
       mr_lookback := (case lookback of Some x \<Rightarrow> x | None \<Rightarrow> 50),
       mr_max_position := ucast (case max_pos of Some x \<Rightarrow> x | None \<Rightarrow> 1000)\<rparr>"

definition mr_set_regime_detector :: "nat option \<Rightarrow> 'd mean_reversion \<Rightarrow> 'd mean_reversion" where
  "mr_set_regime_detector p s = s\<lparr>mr_regime_detector := p\<rparr>"

definition mr_window :: "u64 \<Rightarrow> 'd mean_reversion \<Rightarrow> 'd list" where
  "mr_window key s = (case mr_price_windows s key of Some w \<Rightarrow> w | None \<Rightarrow> [])"

definition compute_zscore :: "'d sim_math \<Rightarrow> u64 \<Rightarrow> 'd \<Rightarrow> 'd mean_reversion \<Rightarrow> 'd \<times> 'd mean_reversion" where
  "compute_zscore mt key current_price s =
     (let window = window_push (mr_lookback s) current_price (mr_window key s)
      in (window_zscore mt window current_price, s\<lparr>mr_price_windows := (mr_price_windows s)(key \<mapsto> window)\<rparr>))"

definition mr_on_signal ::
  "'d sim_math \<Rightarrow> 'd detectors \<Rightarrow> 'd signal \<Rightarrow> 'd portfolio_view \<Rightarrow> 'd mean_reversion \<Rightarrow> decision list \<times> 'd mean_reversion" where
  "mr_on_signal mt dets sg pv s =
     (let fp = sm_fp mt; sy = sg_symbol sg in
      if (case mr_regime_detector s of Some a \<Rightarrow> \<not> is_regime Ranging (dets a) | None \<Rightarrow> False) then ([], s)
      else let current_price = price_to_double fp (ucast (sg_timestamp sg)) in
        if fp_le fp current_price (fp_zero fp) then ([], s)
        else
          let position = pv_position pv (symbol_name sy); key = as_key sy;
              (zscore, s) = compute_zscore mt key current_price s in
          if length (mr_window key s) < 2 then ([], s)
          else if 0 < sint position \<and> fp_less fp (fp_neg fp (mr_z_exit s)) zscore
            then ([market_order sy Side_Sell (ucast position) Medium], s)
          else if sint position < 0 \<and> fp_less fp zscore (mr_z_exit s)
            then ([market_order sy Side_Buy (ucast (- position)) Medium], s)
          else if fp_less fp zscore (fp_neg fp (mr_z_entry s)) \<and> sint position < sint (mr_max_position s)
            then (enter_long sy (mr_max_position s) position, s)
          else if fp_less fp (mr_z_entry s) zscore \<and> sint (- mr_max_position s) < sint position
            then (enter_short sy (mr_max_position s) position, s)
          else ([], s))"

section \<open>Momentum following\<close>

record 'd trailing_stop =
  ts_peak_price :: 'd
  ts_trough_price :: 'd
  ts_active :: bool

definition trailing_stop_new :: "'d fp \<Rightarrow> 'd trailing_stop" where
  "trailing_stop_new fp = \<lparr>ts_peak_price = fp_zero fp, ts_trough_price = fp_zero fp, ts_active = False\<rparr>"

record 'd momentum_follower =
  mf_entry_threshold :: 'd
  mf_exit_threshold :: 'd
  mf_lookback_period :: u32
  mf_max_position :: u64
  mf_trailing_stop_pct :: 'd
  mf_regime_detector :: "nat option"
  mf_trailing_stops :: "u64 \<rightharpoonup> 'd trailing_stop"

definition momentum_follower_new :: "'d fp \<Rightarrow> 'd momentum_follower" where
  "momentum_follower_new fp = \<lparr>mf_entry_threshold = fp_ratio fp 5 10, mf_exit_threshold = fp_ratio fp 3 10,
     mf_lookback_period = 20, mf_max_position = 1000, mf_trailing_stop_pct = fp_ratio fp 2 100, mf_regime_detector = None,
     mf_trailing_stops = Map.empty\<rparr>"

definition mf_configure ::
  "'d fp \<Rightarrow> 'd option \<Rightarrow> 'd option \<Rightarrow> u32 option \<Rightarrow> u32 option \<Rightarrow> 'd option \<Rightarrow> 'd momentum_follower \<Rightarrow> 'd momentum_follower" where
  "mf_configure fp entry exit lookback max_pos trailing s =
     s\<lparr>mf_entry_threshold := (case entry of Some x \<Rightarrow> x | None \<Rightarrow> fp_ratio fp 5 10),
       mf_exit_threshold := (case exit of Some x \<Rightarrow> x | None \<Rightarrow> fp_ratio fp 3 10),
       mf_lookback_period := (case lookback of Some x \<Rightarrow> x | None \<Rightarrow> 20),
       mf_max_position := ucast (case max_pos of Some x \<Rightarrow> x | None \<Rightarrow> 1000),
       mf_trailing_stop_pct := (case trailing of Some x \<Rightarrow> x | None \<Rightarrow> fp_ratio fp 2 100)\<rparr>"

definition mf_set_regime_detector :: "nat option \<Rightarrow> 'd momentum_follower \<Rightarrow> 'd momentum_follower" where
  "mf_set_regime_detector p s = s\<lparr>mf_regime_detector := p\<rparr>"

text \<open>\<open>trailing_stops_[key]\<close>, which inserts an inactive stop under an absent key.\<close>

definition mf_stop :: "'d fp \<Rightarrow> u64 \<Rightarrow> 'd momentum_follower \<Rightarrow> 'd trailing_stop" where
  "mf_stop fp key s = (case mf_trailing_stops s key of Some st \<Rightarrow> st | None \<Rightarrow> trailing_stop_new fp)"

definition mf_put_stop :: "u64 \<Rightarrow> 'd trailing_stop \<Rightarrow> 'd momentum_follower \<Rightarrow> 'd momentum_follower" where
  "mf_put_stop key st s = s\<lparr>mf_trailing_stops := (mf_trailing_stops s)(key \<mapsto> st)\<rparr>"

definition trailing_stop_triggered :: "'d fp \<Rightarrow> symbol \<Rightarrow> 'd \<Rightarrow> u64 \<Rightarrow> 'd momentum_follower \<Rightarrow> bool" where
  "trailing_stop_triggered fp sy current_price position s = (case mf_trailing_stops s (as_key sy) of
     None \<Rightarrow> False
   | Some stop \<Rightarrow>
       if \<not> ts_active stop then False
       else if 0 < sint position
         then fp_le fp current_price (fp_mul fp (ts_peak_price stop) (fp_sub fp (fp_of_nat fp 1) (mf_trailing_stop_pct s)))
       else if sint position < 0
         then fp_le fp (fp_mul fp (ts_trough_price stop) (fp_add fp (fp_of_nat fp 1) (mf_trailing_stop_pct s))) current_price
       else False)"

definition update_trailing_stop :: "'d fp \<Rightarrow> symbol \<Rightarrow> 'd \<Rightarrow> u64 \<Rightarrow> 'd momentum_follower \<Rightarrow> 'd momentum_follower" where
  "update_trailing_stop fp sy current_price position s =
     (let stop = mf_stop fp (as_key sy) s;
          stop = (if \<not> ts_active stop
            then \<lparr>ts_peak_price = current_price, ts_trough_price = current_price, ts_active = True\<rparr>
            else if 0 < sint position then stop\<lparr>ts_peak_price := fp_max fp (ts_peak_price stop) current_price\<rparr>
            else if sint position < 0
              then (if fp_le fp (ts_trough_price stop) (fp_zero fp) then stop\<lparr>ts_trough_price := current_price\<rparr>
                    else stop\<lparr>ts_trough_price := fp_min fp (ts_trough_price stop) current_price\<rparr>)
            else stop)
      in mf_put_stop (as_key sy) stop s)"

definition reset_trailing_stop :: "symbol \<Rightarrow> 'd momentum_follower \<Rightarrow> 'd momentum_follower" where
  "reset_trailing_stop sy s = s\<lparr>mf_trailing_stops := (mf_trailing_stops s)(as_key sy := None)\<rparr>"

text \<open>A stop that is not active is set by an entry, the peak by a long and the trough by a short one.\<close>

definition mf_init_stop :: "'d fp \<Rightarrow> symbol \<Rightarrow> ('d trailing_stop \<Rightarrow> 'd trailing_stop) \<Rightarrow> 'd momentum_follower \<Rightarrow> 'd momentum_follower" where
  "mf_init_stop fp sy upd s =
     (let stop = mf_stop fp (as_key sy) s
      in mf_put_stop (as_key sy) (if ts_active stop then stop else (upd stop)\<lparr>ts_active := True\<rparr>) s)"

definition mf_enter ::
  "'d fp \<Rightarrow> 'd signal \<Rightarrow> 'd \<Rightarrow> u64 \<Rightarrow> 'd momentum_follower \<Rightarrow> decision list \<times> 'd momentum_follower" where
  "mf_enter fp sg current_price position s =
     (let momentum = sg_strength sg; sy = sg_symbol sg in
      if fp_less fp (mf_entry_threshold s) momentum \<and> sint position < sint (mf_max_position s)
        then let ds = enter_long sy (mf_max_position s) position
             in (ds, if ds = [] then s else mf_init_stop fp sy (\<lambda>st. st\<lparr>ts_peak_price := current_price\<rparr>) s)
      else if fp_less fp momentum (fp_neg fp (mf_entry_threshold s)) \<and> sint (- mf_max_position s) < sint position
        then let ds = enter_short sy (mf_max_position s) position
             in (ds, if ds = [] then s else mf_init_stop fp sy (\<lambda>st. st\<lparr>ts_trough_price := current_price\<rparr>) s)
      else ([], s))"

definition mf_on_signal ::
  "'d fp \<Rightarrow> 'd detectors \<Rightarrow> 'd signal \<Rightarrow> 'd portfolio_view \<Rightarrow> 'd momentum_follower \<Rightarrow> decision list \<times> 'd momentum_follower" where
  "mf_on_signal fp dets sg pv s =
     (let sy = sg_symbol sg in
      if (case mf_regime_detector s of Some a \<Rightarrow> \<not> is_regime Trending (dets a) | None \<Rightarrow> False) then ([], s)
      else let current_price = price_to_double fp (ucast (sg_timestamp sg)) in
        if fp_le fp current_price (fp_zero fp) then ([], s)
        else
          let position = pv_position pv (symbol_name sy); momentum = sg_strength sg;
              s = (if position \<noteq> 0 then update_trailing_stop fp sy current_price position s else s) in
          if position \<noteq> 0 \<and> trailing_stop_triggered fp sy current_price position s
            then ([market_order sy (if 0 < sint position then Side_Sell else Side_Buy) (of_int \<bar>sint position\<bar>) High],
                  reset_trailing_stop sy s)
          else if 0 < sint position \<and> fp_less fp momentum (fp_neg fp (mf_exit_threshold s))
            then ([market_order sy Side_Sell (ucast position) High], reset_trailing_stop sy s)
          else if sint position < 0 \<and> fp_less fp (mf_exit_threshold s) momentum
            then ([market_order sy Side_Buy (ucast (- position)) High], reset_trailing_stop sy s)
          else mf_enter fp sg current_price position s)"

section \<open>Thresholds on a signal\<close>

record 'd signal_threshold =
  st_signal_name :: string
  st_buy_threshold :: 'd
  st_sell_threshold :: 'd
  st_exit_threshold :: 'd
  st_max_position :: u64

definition signal_threshold_new :: "'d fp \<Rightarrow> 'd signal_threshold" where
  "signal_threshold_new fp = \<lparr>st_signal_name = ''momentum'', st_buy_threshold = fp_ratio fp 5 10,
     st_sell_threshold = fp_neg fp (fp_ratio fp 5 10), st_exit_threshold = fp_zero fp, st_max_position = 1000\<rparr>"

definition st_configure ::
  "'d fp \<Rightarrow> string option \<Rightarrow> 'd option \<Rightarrow> 'd option \<Rightarrow> 'd option \<Rightarrow> u32 option \<Rightarrow> 'd signal_threshold \<Rightarrow> 'd signal_threshold" where
  "st_configure fp name buy sell exit max_pos s =
     \<lparr>st_signal_name = (case name of Some x \<Rightarrow> x | None \<Rightarrow> ''momentum''),
      st_buy_threshold = (case buy of Some x \<Rightarrow> x | None \<Rightarrow> fp_ratio fp 5 10),
      st_sell_threshold = (case sell of Some x \<Rightarrow> x | None \<Rightarrow> fp_neg fp (fp_ratio fp 5 10)),
      st_exit_threshold = (case exit of Some x \<Rightarrow> x | None \<Rightarrow> fp_zero fp),
      st_max_position = ucast (case max_pos of Some x \<Rightarrow> x | None \<Rightarrow> 1000)\<rparr>"

definition signal_type_from_name :: "string \<Rightarrow> signal_type option" where
  "signal_type_from_name name =
     (if name = ''momentum'' then Some Momentum
      else if name = ''mean_reversion'' then Some MeanReversion
      else if name = ''order_flow'' then Some OrderFlow
      else if name = ''volatility'' then Some Volatility
      else if name = ''composite'' then Some Composite
      else if name = ''ml'' then Some Ml_Model
      else None)"

definition matches_signal :: "'d signal \<Rightarrow> 'd signal_threshold \<Rightarrow> bool" where
  "matches_signal sg s = (case signal_type_from_name (st_signal_name s) of
     None \<Rightarrow> True | Some expected \<Rightarrow> sg_type sg = expected)"

definition st_on_signal ::
  "'d fp \<Rightarrow> 'd signal \<Rightarrow> 'd portfolio_view \<Rightarrow> 'd signal_threshold \<Rightarrow> decision list \<times> 'd signal_threshold" where
  "st_on_signal fp sg pv s =
     (if \<not> matches_signal sg s then ([], s)
      else let sy = sg_symbol sg; position = pv_position pv (symbol_name sy); strength = sg_strength sg in
        if 0 < sint position \<and> fp_le fp strength (st_exit_threshold s)
          then ([market_order sy Side_Sell (ucast position) High], s)
        else if sint position < 0 \<and> fp_le fp (fp_neg fp (st_exit_threshold s)) strength
          then ([market_order sy Side_Buy (ucast (- position)) High], s)
        else if fp_less fp (st_buy_threshold s) strength \<and> sint position < sint (st_max_position s)
          then (enter_long sy (st_max_position s) position, s)
        else if fp_less fp strength (st_sell_threshold s) \<and> sint (- st_max_position s) < sint position
          then (enter_short sy (st_max_position s) position, s)
        else ([], s))"

section \<open>Statistical arbitrage\<close>

record 'd stat_arb =
  sa_symbol_a :: bytes
  sa_symbol_b :: bytes
  sa_entry_zscore :: 'd
  sa_exit_zscore :: 'd
  sa_lookback :: u32
  sa_trade_size :: quantity
  sa_last_price_a :: 'd
  sa_last_price_b :: 'd
  sa_ratio_window :: "'d list"
  sa_spread_position :: int

text \<open>The default symbols, \<open>AAPL\<close> and \<open>MSFT\<close>.\<close>

definition default_symbol_a :: bytes where
  "default_symbol_a = [65, 65, 80, 76]"

definition default_symbol_b :: bytes where
  "default_symbol_b = [77, 83, 70, 84]"

definition stat_arb_new :: "'d fp \<Rightarrow> 'd stat_arb" where
  "stat_arb_new fp = \<lparr>sa_symbol_a = default_symbol_a, sa_symbol_b = default_symbol_b, sa_entry_zscore = fp_of_nat fp 2,
     sa_exit_zscore = fp_ratio fp 5 10, sa_lookback = 50, sa_trade_size = 100, sa_last_price_a = fp_zero fp,
     sa_last_price_b = fp_zero fp, sa_ratio_window = [], sa_spread_position = 0\<rparr>"

definition sa_configure ::
  "'d fp \<Rightarrow> bytes option \<Rightarrow> bytes option \<Rightarrow> 'd option \<Rightarrow> 'd option \<Rightarrow> u32 option \<Rightarrow> u32 option \<Rightarrow> 'd stat_arb \<Rightarrow> 'd stat_arb" where
  "sa_configure fp a b entry exit lookback qsize s =
     s\<lparr>sa_symbol_a := (case a of Some x \<Rightarrow> x | None \<Rightarrow> default_symbol_a),
       sa_symbol_b := (case b of Some x \<Rightarrow> x | None \<Rightarrow> default_symbol_b),
       sa_entry_zscore := (case entry of Some x \<Rightarrow> x | None \<Rightarrow> fp_of_nat fp 2),
       sa_exit_zscore := (case exit of Some x \<Rightarrow> x | None \<Rightarrow> fp_ratio fp 5 10),
       sa_lookback := (case lookback of Some x \<Rightarrow> x | None \<Rightarrow> 50),
       sa_trade_size := (case qsize of Some x \<Rightarrow> x | None \<Rightarrow> 100)\<rparr>"

definition is_symbol_a :: "'d signal \<Rightarrow> 'd stat_arb \<Rightarrow> bool" where
  "is_symbol_a sg s \<longleftrightarrow> symbol_name (sg_symbol sg) = sa_symbol_a s"

definition is_symbol_b :: "'d signal \<Rightarrow> 'd stat_arb \<Rightarrow> bool" where
  "is_symbol_b sg s \<longleftrightarrow> symbol_name (sg_symbol sg) = sa_symbol_b s"

definition compute_ratio_zscore :: "'d sim_math \<Rightarrow> 'd \<Rightarrow> 'd stat_arb \<Rightarrow> 'd" where
  "compute_ratio_zscore mt current_ratio s = window_zscore mt (sa_ratio_window s) current_ratio"

definition sa_pair :: "side \<Rightarrow> 'd stat_arb \<Rightarrow> decision list" where
  "sa_pair side_a s =
     [market_order (symbol_of_cstr (sa_symbol_a s)) side_a (sa_trade_size s) Medium,
      market_order (symbol_of_cstr (sa_symbol_b s)) (if side_a = Side_Buy then Side_Sell else Side_Buy) (sa_trade_size s) Medium]"

text \<open>The part of \<open>on_signal\<close> after the window has been updated: the exit, and the entry when flat.\<close>

definition sa_trade :: "'d sim_math \<Rightarrow> 'd \<Rightarrow> 'd stat_arb \<Rightarrow> decision list \<times> 'd stat_arb" where
  "sa_trade mt current_ratio s =
     (let fp = sm_fp mt; zscore = compute_ratio_zscore mt current_ratio s in
      if sa_spread_position s \<noteq> 0 \<and> fp_less fp (fp_abs fp zscore) (sa_exit_zscore s)
        then (sa_pair (if 0 < sa_spread_position s then Side_Sell else Side_Buy) s, s\<lparr>sa_spread_position := 0\<rparr>)
      else if sa_spread_position s = 0 \<and> fp_less fp zscore (fp_neg fp (sa_entry_zscore s))
        then (sa_pair Side_Buy s, s\<lparr>sa_spread_position := 1\<rparr>)
      else if sa_spread_position s = 0 \<and> fp_less fp (sa_entry_zscore s) zscore
        then (sa_pair Side_Sell s, s\<lparr>sa_spread_position := - 1\<rparr>)
      else ([], s))"

definition sa_on_signal ::
  "'d sim_math \<Rightarrow> 'd signal \<Rightarrow> 'd portfolio_view \<Rightarrow> 'd stat_arb \<Rightarrow> decision list \<times> 'd stat_arb" where
  "sa_on_signal mt sg pv s =
     (let fp = sm_fp mt; zero = fp_zero fp; current_price = price_to_double fp (ucast (sg_timestamp sg)) in
      if fp_le fp current_price zero then ([], s)
      else if \<not> is_symbol_a sg s \<and> \<not> is_symbol_b sg s then ([], s)
      else
        let (updated_ratio, s) = (if is_symbol_a sg s
              then (fp_less fp zero (sa_last_price_b s), s\<lparr>sa_last_price_a := current_price\<rparr>)
              else (fp_less fp zero (sa_last_price_a s), s\<lparr>sa_last_price_b := current_price\<rparr>)) in
        if \<not> updated_ratio \<or> fp_le fp (sa_last_price_a s) zero \<or> fp_le fp (sa_last_price_b s) zero then ([], s)
        else
          let current_ratio = fp_div fp (sa_last_price_a s) (sa_last_price_b s);
              s = s\<lparr>sa_ratio_window := window_push (sa_lookback s) current_ratio (sa_ratio_window s)\<rparr> in
          if length (sa_ratio_window s) < 2 then ([], s) else sa_trade mt current_ratio s)"

section \<open>Trading on a strategy\<close>

text \<open>
  A round hands a signal to a strategy and fills its decisions, each up to a quantity that the market decides; the
  portfolio view the strategy sees next has the positions after these fills.
\<close>

definition fill_decision :: "decision \<times> quantity \<Rightarrow> 'd portfolio_view \<Rightarrow> 'd portfolio_view" where
  "fill_decision dq pv =
     (let d = fst dq; name = symbol_name (dec_symbol d); traded = (ucast (min (snd dq) (dec_quantity d)) :: u64);
          old = pv_position pv name
      in pv\<lparr>pv_positions := (pv_positions pv)(name \<mapsto> if dec_side d = Side_Buy then old + traded else old - traded)\<rparr>)"

definition strategy_round ::
  "('d signal \<Rightarrow> 'd portfolio_view \<Rightarrow> 's \<Rightarrow> decision list \<times> 's) \<Rightarrow> 'd signal \<times> quantity list
   \<Rightarrow> 'd portfolio_view \<times> 's \<Rightarrow> 'd portfolio_view \<times> 's" where
  "strategy_round on_signal r x =
     (let (ds, s) = on_signal (fst r) (fst x) (snd x) in (fold fill_decision (zip ds (snd r)) (fst x), s))"

definition strategy_rounds where
  "strategy_rounds on_signal rs x = fold (strategy_round on_signal) rs x"

definition bought :: "decision list \<Rightarrow> int" where
  "bought ds = (\<Sum>d \<leftarrow> ds. if dec_side d = Side_Buy then uint (dec_quantity d) else 0)"

definition sold :: "decision list \<Rightarrow> int" where
  "sold ds = (\<Sum>d \<leftarrow> ds. if dec_side d = Side_Buy then 0 else uint (dec_quantity d))"

lemma bought_sold_simps [simp]:
  "bought [] = 0" "sold [] = 0"
  "bought (d # ds) = (if dec_side d = Side_Buy then uint (dec_quantity d) else 0) + bought ds"
  "sold (d # ds) = (if dec_side d = Side_Buy then 0 else uint (dec_quantity d)) + sold ds"
  by (simp_all add: bought_def sold_def)

lemma bought_sold_nonneg: "0 \<le> bought ds" "0 \<le> sold ds"
  by (induction ds) simp_all

text \<open>What a list of decisions does to a position when it is filled: it stays within a limit, however much is filled.\<close>

definition keeps_within :: "int \<Rightarrow> int \<Rightarrow> decision list \<Rightarrow> bool" where
  "keeps_within L p ds \<longleftrightarrow> p + bought ds \<le> L \<and> - L \<le> p - sold ds"

lemma keeps_within_Nil [simp]: "keeps_within L p [] \<longleftrightarrow> \<bar>p\<bar> \<le> L"
  by (auto simp: keeps_within_def)

lemma sint_of_int64: "- (2 ^ 63) \<le> x \<Longrightarrow> x < 2 ^ 63 \<Longrightarrow> sint (of_int x :: u64) = x"
  by (simp add: signed_of_int signed_take_bit_int_eq_self)

lemma sint_eqI64: "w = (of_int x :: u64) \<Longrightarrow> - (2 ^ 63) \<le> x \<Longrightarrow> x < 2 ^ 63 \<Longrightarrow> sint w = x"
  by (simp only: sint_of_int64)

lemma of_int_sint64 [simp]: "(of_int (sint p) :: u64) = p"
  by simp

lemma sint_ariths64:
  fixes a b :: u64 and q :: u32
  assumes "\<bar>sint a\<bar> < 2 ^ 62"
  shows "\<bar>sint b\<bar> < 2 ^ 62 \<Longrightarrow> sint (a + b) = sint a + sint b" "\<bar>sint b\<bar> < 2 ^ 62 \<Longrightarrow> sint (a - b) = sint a - sint b"
    "sint (- a) = - sint a" "sint (a + ucast q) = sint a + uint q" "sint (a - ucast q) = sint a - uint q"
proof -
  obtain u where u: "uint q = u" "u < 2 ^ 32" "0 \<le> u"
    using uint_bounded [of q] by simp
  have q: "(ucast q :: u64) = of_int u"
    by (simp flip: u(1))
  show "\<bar>sint b\<bar> < 2 ^ 62 \<Longrightarrow> sint (a + b) = sint a + sint b" "\<bar>sint b\<bar> < 2 ^ 62 \<Longrightarrow> sint (a - b) = sint a - sint b"
    "sint (- a) = - sint a" "sint (a + ucast q) = sint a + uint q" "sint (a - ucast q) = sint a - uint q"
    unfolding u(1) q by (rule sint_eqI64, simp; use assms u(2,3) in simp)+
qed

lemma fill_decision_position:
  "pv_position (fill_decision dq pv) name = (if name \<noteq> symbol_name (dec_symbol (fst dq)) then pv_position pv name
     else if dec_side (fst dq) = Side_Buy then pv_position pv name + ucast (min (snd dq) (dec_quantity (fst dq)))
     else pv_position pv name - ucast (min (snd dq) (dec_quantity (fst dq))))"
  by (simp add: fill_decision_def pv_position_def Let_def)

lemma fills_keep_within:
  assumes "keeps_within L (sint (pv_position pv name)) ds" "\<forall>d\<in>set ds. symbol_name (dec_symbol d) = name" "L < 2 ^ 32"
  shows "\<bar>sint (pv_position (fold fill_decision (zip ds qs) pv) name)\<bar> \<le> L"
  using assms
proof (induction ds arbitrary: qs pv)
  case (Cons d ds)
  show ?case
  proof (cases qs)
    case Nil
    then show ?thesis
      using Cons.prems bought_sold_nonneg [of "d # ds"] by (auto simp: keeps_within_def)
  next
    case (Cons q qs')
    define t where "t = uint (min q (dec_quantity d))"
    let ?p = "sint (pv_position pv name)"
    have t: "0 \<le> t" "t \<le> uint (dec_quantity d)"
      by (simp_all add: t_def min_def word_le_def)
    have L: "?p + bought (d # ds) \<le> L" "- L \<le> ?p - sold (d # ds)" "\<bar>?p\<bar> \<le> L" "L < 2 ^ 32"
      using Cons.prems bought_sold_nonneg [of "d # ds"] by (auto simp: keeps_within_def)
    have "sint (pv_position (fill_decision (d, q) pv) name) = (if dec_side d = Side_Buy then ?p + t else ?p - t)"
      using L Cons.prems(2) by (auto simp: fill_decision_position sint_ariths64 t_def)
    then have "keeps_within L (sint (pv_position (fill_decision (d, q) pv) name)) ds"
      using L t by (auto simp: keeps_within_def split: if_splits)
    then show ?thesis
      using Cons.IH [of "fill_decision (d, q) pv" qs'] Cons.prems Cons by simp
  qed
qed simp

lemma fills_of_others:
  assumes "\<forall>d\<in>set ds. symbol_name (dec_symbol d) \<noteq> name"
  shows "pv_position (fold fill_decision (zip ds qs) pv) name = pv_position pv name"
  using assms
proof (induction ds arbitrary: qs pv)
  case (Cons d ds)
  then show ?case by (cases qs) (auto simp: fill_decision_position)
qed simp

section \<open>The position limit\<close>

text \<open>
  What the market maker and the three directional strategies promise: they trade the symbol of the signal only, and
  their decisions, filled or not, leave a position within the limit there.
\<close>

locale position_limited =
  fixes on_signal :: "'d signal \<Rightarrow> 'd portfolio_view \<Rightarrow> 's \<Rightarrow> decision list \<times> 's"
    and limit :: "'s \<Rightarrow> u64"
  assumes limit_kept: "limit (snd (on_signal sg pv s)) = limit s"
    and own_symbol: "list_all (\<lambda>d. dec_symbol d = sg_symbol sg) (fst (on_signal sg pv s))"
    and within: "0 \<le> sint (limit s) \<Longrightarrow> sint (limit s) < 2 ^ 32
      \<Longrightarrow> \<bar>sint (pv_position pv (symbol_name (sg_symbol sg)))\<bar> \<le> sint (limit s)
      \<Longrightarrow> keeps_within (sint (limit s)) (sint (pv_position pv (symbol_name (sg_symbol sg)))) (fst (on_signal sg pv s))"
begin

lemma round_within:
  assumes "sint (limit (snd x)) = L" "0 \<le> L" "L < 2 ^ 32" "\<And>name. \<bar>sint (pv_position (fst x) name)\<bar> \<le> L"
  shows "sint (limit (snd (strategy_round on_signal r x))) = L
    \<and> \<bar>sint (pv_position (fst (strategy_round on_signal r x)) name)\<bar> \<le> L"
proof -
  let ?ds = "fst (on_signal (fst r) (fst x) (snd x))"
  have own: "\<forall>d\<in>set ?ds. dec_symbol d = sg_symbol (fst r)"
    using own_symbol [of "fst r" "fst x" "snd x"] by (simp add: list_all_iff)
  have "\<bar>sint (pv_position (fold fill_decision (zip ?ds (snd r)) (fst x)) name)\<bar> \<le> L"
  proof (cases "symbol_name (sg_symbol (fst r)) = name")
    case True
    then show ?thesis
      using within [of "snd x" "fst x" "fst r"] assms own by (intro fills_keep_within) auto
  next
    case False
    then show ?thesis
      using own assms(4) by (subst fills_of_others) auto
  qed
  then show ?thesis
    using assms(1) by (simp add: strategy_round_def split_beta Let_def limit_kept)
qed

lemma rounds_within:
  assumes "0 \<le> sint (limit s)" "sint (limit s) < 2 ^ 32"
  shows "\<bar>sint (pv_position (fst (strategy_rounds on_signal rs (\<lparr>pv_positions = Map.empty, pv_cash = c\<rparr>, s))) name)\<bar>
    \<le> sint (limit s)"
proof -
  define x where "x = (\<lparr>pv_positions = Map.empty :: bytes \<rightharpoonup> u64, pv_cash = c\<rparr>, s)"
  have "sint (limit (snd (strategy_rounds on_signal rs x))) = sint (limit s)
      \<and> \<bar>sint (pv_position (fst (strategy_rounds on_signal rs x)) name)\<bar> \<le> sint (limit s)" for name
  proof (induction rs arbitrary: name rule: rev_induct)
    case Nil
    then show ?case using assms by (simp add: strategy_rounds_def x_def pv_position_def)
  next
    case (snoc r rs)
    then show ?case
      using round_within [of "strategy_rounds on_signal rs x" "sint (limit s)" r name] assms
      by (simp add: strategy_rounds_def)
  qed
  then show ?thesis
    by (simp add: x_def)
qed

end

lemma uint_ucast_of_int: "0 \<le> x \<Longrightarrow> x < 2 ^ 32 \<Longrightarrow> uint (ucast (of_int x :: u64) :: u32) = x"
  by (simp add: unsigned_ucast_eq unsigned_of_int take_bit_int_eq_self)

lemma uint_ucast_sint: "0 \<le> sint p \<Longrightarrow> sint p < 2 ^ 32 \<Longrightarrow> uint (ucast (p :: u64) :: u32) = sint p"
  by (metis uint_ucast_of_int of_int_sint64)

lemma enter_within:
  assumes "0 \<le> sint m" "sint m < 2 ^ 32" "\<bar>sint p\<bar> \<le> sint m"
  shows "keeps_within (sint m) (sint p) (enter_long sy m p)" "keeps_within (sint m) (sint p) (enter_short sy m p)"
proof -
  have "sint (smin64 (m - p) m) = min (sint m - sint p) (sint m)" "sint (smin64 (m + p) m) = min (sint m + sint p) (sint m)"
    using assms by (auto simp: smin64_def sint_ariths64)
  then show "keeps_within (sint m) (sint p) (enter_long sy m p)" "keeps_within (sint m) (sint p) (enter_short sy m p)"
    using assms
    by (auto simp: enter_long_def enter_short_def Let_def keeps_within_def market_order_def uint_ucast_sint)
qed

lemma exit_within:
  fixes m p :: u64
  assumes "sint m < 2 ^ 32" "\<bar>sint p\<bar> \<le> sint m"
  shows "0 < sint p \<Longrightarrow> keeps_within (sint m) (sint p) [market_order sy Side_Sell (ucast p) u]"
    "sint p < 0 \<Longrightarrow> keeps_within (sint m) (sint p) [market_order sy Side_Buy (ucast (- p)) u]"
    "0 < sint p \<Longrightarrow> keeps_within (sint m) (sint p) [market_order sy Side_Sell (of_int \<bar>sint p\<bar>) u]"
    "sint p < 0 \<Longrightarrow> keeps_within (sint m) (sint p) [market_order sy Side_Buy (of_int \<bar>sint p\<bar>) u]"
proof -
  have "uint (ucast p :: u32) = sint p" if "0 < sint p"
    using uint_ucast_sint [of p] that assms by simp
  moreover have "uint (ucast (- p) :: u32) = - sint p" if "sint p < 0"
    using uint_ucast_sint [of "- p"] sint_ariths64(3) [of p] that assms by simp
  moreover have "uint (of_int \<bar>sint p\<bar> :: u32) = \<bar>sint p\<bar>"
    using assms by (simp add: unsigned_of_int take_bit_int_eq_self)
  ultimately show "0 < sint p \<Longrightarrow> keeps_within (sint m) (sint p) [market_order sy Side_Sell (ucast p) u]"
    "sint p < 0 \<Longrightarrow> keeps_within (sint m) (sint p) [market_order sy Side_Buy (ucast (- p)) u]"
    "0 < sint p \<Longrightarrow> keeps_within (sint m) (sint p) [market_order sy Side_Sell (of_int \<bar>sint p\<bar>) u]"
    "sint p < 0 \<Longrightarrow> keeps_within (sint m) (sint p) [market_order sy Side_Buy (of_int \<bar>sint p\<bar>) u]"
    using assms by (auto simp: keeps_within_def market_order_def)
qed

lemma directional_within:
  fixes m p :: u64
  assumes "0 \<le> sint m" "sint m < 2 ^ 32" "\<bar>sint p\<bar> \<le> sint m"
  shows "keeps_within (sint m) (sint p)
    (if 0 < sint p \<and> A then [market_order sy Side_Sell (ucast p) u]
     else if sint p < 0 \<and> B then [market_order sy Side_Buy (ucast (- p)) u]
     else if C then enter_long sy m p else if D then enter_short sy m p else [])"
  using exit_within(1,2) [of m p sy u] enter_within [of m p sy] assms by simp

lemma enter_symbol [simp]:
  "list_all (\<lambda>d. dec_symbol d = sy) (enter_long sy m p)" "list_all (\<lambda>d. dec_symbol d = sy) (enter_short sy m p)"
  by (simp_all add: enter_long_def enter_short_def market_order_def Let_def)

lemma order_symbol [simp]: "dec_symbol (market_order sy sd q u) = sy" "dec_symbol (limit_order sy sd q p u) = sy"
  by (simp_all add: market_order_def limit_order_def)

interpretation threshold: position_limited "st_on_signal fp" st_max_position for fp :: "'d fp"
proof
  fix sg :: "'d signal" and pv :: "'d portfolio_view" and s :: "'d signal_threshold"
  show "st_max_position (snd (st_on_signal fp sg pv s)) = st_max_position s"
    by (simp add: st_on_signal_def Let_def)
  show "list_all (\<lambda>d. dec_symbol d = sg_symbol sg) (fst (st_on_signal fp sg pv s))"
    by (simp add: st_on_signal_def Let_def)
  assume *: "0 \<le> sint (st_max_position s)" "sint (st_max_position s) < 2 ^ 32"
    "\<bar>sint (pv_position pv (symbol_name (sg_symbol sg)))\<bar> \<le> sint (st_max_position s)"
  show "keeps_within (sint (st_max_position s)) (sint (pv_position pv (symbol_name (sg_symbol sg)))) (fst (st_on_signal fp sg pv s))"
    using * directional_within [OF *] by (simp add: st_on_signal_def Let_def if_distrib [of fst] cong: if_cong)
qed

interpretation reversion: position_limited "mr_on_signal mt dets" mr_max_position for mt :: "'d sim_math" and dets :: "'d detectors"
proof
  fix sg :: "'d signal" and pv :: "'d portfolio_view" and s :: "'d mean_reversion"
  show "mr_max_position (snd (mr_on_signal mt dets sg pv s)) = mr_max_position s"
    by (simp add: mr_on_signal_def compute_zscore_def Let_def split: option.split)
  show "list_all (\<lambda>d. dec_symbol d = sg_symbol sg) (fst (mr_on_signal mt dets sg pv s))"
    by (simp add: mr_on_signal_def compute_zscore_def Let_def split: option.split)
  assume *: "0 \<le> sint (mr_max_position s)" "sint (mr_max_position s) < 2 ^ 32"
    "\<bar>sint (pv_position pv (symbol_name (sg_symbol sg)))\<bar> \<le> sint (mr_max_position s)"
  show "keeps_within (sint (mr_max_position s)) (sint (pv_position pv (symbol_name (sg_symbol sg)))) (fst (mr_on_signal mt dets sg pv s))"
    using * directional_within [OF *]
    by (simp add: mr_on_signal_def compute_zscore_def Let_def if_distrib [of fst] cong: if_cong)
qed

lemma mf_stops_keep [simp]:
  "mf_max_position (update_trailing_stop fp sy x p s) = mf_max_position s"
  "mf_max_position (reset_trailing_stop sy s) = mf_max_position s"
  "mf_max_position (mf_init_stop fp sy f s) = mf_max_position s"
  by (simp_all add: update_trailing_stop_def reset_trailing_stop_def mf_init_stop_def mf_put_stop_def Let_def)

lemma mf_enter_keeps:
  "mf_max_position (snd (mf_enter fp sg x p s)) = mf_max_position s"
  "list_all (\<lambda>d. dec_symbol d = sg_symbol sg) (fst (mf_enter fp sg x p s))"
  by (simp_all add: mf_enter_def Let_def)

lemma mf_enter_within:
  assumes "0 \<le> sint m" "sint m < 2 ^ 32" "\<bar>sint p\<bar> \<le> sint m" "mf_max_position s = m"
  shows "keeps_within (sint m) (sint p) (fst (mf_enter fp sg x p s))"
  using enter_within [OF assms(1-3)] assms by (simp add: mf_enter_def Let_def)

interpretation momentum: position_limited "mf_on_signal fp dets" mf_max_position
  for fp :: "'d fp" and dets :: "'d detectors"
proof
  fix sg :: "'d signal" and pv :: "'d portfolio_view" and s :: "'d momentum_follower"
  let ?p = "pv_position pv (symbol_name (sg_symbol sg))"
  show "mf_max_position (snd (mf_on_signal fp dets sg pv s)) = mf_max_position s"
    by (simp add: mf_on_signal_def Let_def mf_enter_keeps split: option.split)
  show "list_all (\<lambda>d. dec_symbol d = sg_symbol sg) (fst (mf_on_signal fp dets sg pv s))"
    by (simp add: mf_on_signal_def Let_def mf_enter_keeps split: option.split)
  assume *: "0 \<le> sint (mf_max_position s)" "sint (mf_max_position s) < 2 ^ 32" "\<bar>sint ?p\<bar> \<le> sint (mf_max_position s)"
  obtain p where p: "?p = p"
    by simp
  have neg: "sint p < 0" if "p \<noteq> 0" "\<not> 0 < sint p"
    using that by (metis linorder_neqE_linordered_idom signed_eq_0_iff)
  define s' where "s' = (if p \<noteq> 0 then update_trailing_stop fp (sg_symbol sg) (price_to_double fp (ucast (sg_timestamp sg))) p s else s)"
  have s': "mf_max_position s' = mf_max_position s"
    by (simp add: s'_def)
  show "keeps_within (sint (mf_max_position s)) (sint ?p) (fst (mf_on_signal fp dets sg pv s))"
    using * neg exit_within [OF *(2,3), of "sg_symbol sg" High] mf_enter_within [OF * s']
    unfolding p mf_on_signal_def Let_def s'_def [symmetric] by auto
qed

interpretation making: position_limited "mm_on_signal fp" mm_max_position for fp :: "'d fp"
proof
  fix sg :: "'d signal" and pv :: "'d portfolio_view" and s :: "'d market_making"
  let ?p = "pv_position pv (symbol_name (sg_symbol sg))"
  show "mm_max_position (snd (mm_on_signal fp sg pv s)) = mm_max_position s"
    by (simp add: mm_on_signal_def Let_def)
  show "list_all (\<lambda>d. dec_symbol d = sg_symbol sg) (fst (mm_on_signal fp sg pv s))"
    by (simp add: mm_on_signal_def Let_def)
  assume *: "0 \<le> sint (mm_max_position s)" "sint (mm_max_position s) < 2 ^ 32" "\<bar>sint ?p\<bar> \<le> sint (mm_max_position s)"
  then show "keeps_within (sint (mm_max_position s)) (sint ?p) (fst (mm_on_signal fp sg pv s))"
    by (auto simp: mm_on_signal_def Let_def keeps_within_def limit_order_def sint_ariths64)
qed

section \<open>Properties\<close>

text \<open>A portfolio without positions.\<close>

definition no_positions :: "'d \<Rightarrow> 'd portfolio_view" where
  "no_positions c = \<lparr>pv_positions = Map.empty, pv_cash = c\<rparr>"

lemma configured_limit:
  "sint (ucast (x :: u32) :: u64) = uint x" "0 \<le> uint x" "uint x < 2 ^ 32"
  using uint_bounded [of x] sint_ariths64(4) [of 0 x] by simp_all


subsection \<open>Statistical arbitrage\<close>

text \<open>All decisions for a sequence of signals, each with the portfolio view it comes with.\<close>

definition sa_step ::
  "'d sim_math \<Rightarrow> 'd signal \<times> 'd portfolio_view \<Rightarrow> decision list \<times> 'd stat_arb \<Rightarrow> decision list \<times> 'd stat_arb" where
  "sa_step mt x r = (fst r @ fst (sa_on_signal mt (fst x) (snd x) (snd r)), snd (sa_on_signal mt (fst x) (snd x) (snd r)))"

definition sa_run :: "'d sim_math \<Rightarrow> ('d signal \<times> 'd portfolio_view) list \<Rightarrow> 'd stat_arb \<Rightarrow> decision list \<times> 'd stat_arb" where
  "sa_run mt xs s = fold (sa_step mt) xs ([], s)"

definition net_decided :: "decision list \<Rightarrow> symbol \<Rightarrow> int" where
  "net_decided ds sy = bought (filter (\<lambda>d. dec_symbol d = sy) ds) - sold (filter (\<lambda>d. dec_symbol d = sy) ds)"

lemma net_decided_simps [simp]:
  "net_decided [] sy = 0"
  "net_decided (d # ds) sy = (if dec_symbol d \<noteq> sy then 0 else if dec_side d = Side_Buy then uint (dec_quantity d)
     else - uint (dec_quantity d)) + net_decided ds sy"
  by (simp_all add: net_decided_def)

lemma net_decided_append [simp]: "net_decided (xs @ ys) sy = net_decided xs sy + net_decided ys sy"
  by (induction xs) simp_all

text \<open>What a signal leaves of the configuration of the pair, and how the decisions follow the spread.\<close>

definition sa_config :: "'d stat_arb \<Rightarrow> bytes \<times> bytes \<times> 'd \<times> u32 \<times> quantity" where
  "sa_config s = (sa_symbol_a s, sa_symbol_b s, sa_entry_zscore s, sa_lookback s, sa_trade_size s)"

definition hedged_step :: "'d stat_arb \<Rightarrow> decision list \<times> 'd stat_arb \<Rightarrow> bool" where
  "hedged_step s r \<longleftrightarrow>
     (let k = sa_spread_position (snd r) - sa_spread_position s in
      sa_config (snd r) = sa_config s \<and> \<bar>sa_spread_position (snd r)\<bar> \<le> 1
      \<and> (k = 0 \<and> fst r = [] \<or> k = 1 \<and> fst r = sa_pair Side_Buy s \<or> k = - 1 \<and> fst r = sa_pair Side_Sell s))"

lemma sa_trade_hedged:
  assumes "\<bar>sa_spread_position s\<bar> \<le> 1"
  shows "hedged_step s (sa_trade mt x s)"
proof -
  consider "sa_spread_position s = 0" | "sa_spread_position s = 1" | "sa_spread_position s = - 1"
    using assms by linarith
  then show ?thesis
    by cases (simp_all add: hedged_step_def sa_trade_def sa_config_def Let_def)
qed

lemma sa_on_signal_cases:
  assumes "\<And>s'. sa_config s' = sa_config s \<Longrightarrow> sa_spread_position s' = sa_spread_position s \<Longrightarrow> P ([], s')"
    and "\<And>x s'. sa_config s' = sa_config s \<Longrightarrow> sa_spread_position s' = sa_spread_position s
      \<Longrightarrow> \<exists>w. sa_ratio_window s' = window_push (sa_lookback s) x w \<Longrightarrow> P (sa_trade mt x s')"
  shows "P (sa_on_signal mt sg pv s)"
proof -
  have keep: "sa_config (s\<lparr>sa_last_price_a := x\<rparr>) = sa_config s" "sa_config (s\<lparr>sa_last_price_b := x\<rparr>) = sa_config s"
    "sa_config (s\<lparr>sa_ratio_window := w\<rparr>) = sa_config s" for x w s
    by (simp_all add: sa_config_def)
  show ?thesis
    unfolding sa_on_signal_def Let_def split_beta
    by (simp add: assms keep) (auto simp: keep intro!: assms)
qed

lemma hedged_net:
  assumes "hedged_step s r" "a \<noteq> b" "a = symbol_of_cstr (sa_symbol_a s)" "b = symbol_of_cstr (sa_symbol_b s)"
  shows "net_decided (fst r) a = (sa_spread_position (snd r) - sa_spread_position s) * uint (sa_trade_size s)"
    "net_decided (fst r) b = - (sa_spread_position (snd r) - sa_spread_position s) * uint (sa_trade_size s)"
proof -
  define k where "k = sa_spread_position (snd r) - sa_spread_position s"
  show "net_decided (fst r) a = (sa_spread_position (snd r) - sa_spread_position s) * uint (sa_trade_size s)"
    "net_decided (fst r) b = - (sa_spread_position (snd r) - sa_spread_position s) * uint (sa_trade_size s)"
    using assms unfolding hedged_step_def k_def [symmetric]
    by (auto simp: sa_pair_def market_order_def Let_def Side_Buy_def Side_Sell_def)
qed

text \<open>
  The pair is hedged at every moment. Whatever the signals, what the statistical arbitrage strategy has decided
  to buy and sell so far adds up to the spread position times the trade size in the first symbol and to its negation in
  the second, and the spread position is -1, 0 or 1.
\<close>

theorem stat_arb_hedged:
  fixes xs :: "('d signal \<times> 'd portfolio_view) list" and fp :: "'d fp" and mt :: "'d sim_math" and na nb :: bytes
    and entry exit :: "'d option" and lookback :: "u32 option" and q :: u32
  defines "s0 \<equiv> sa_configure fp (Some na) (Some nb) entry exit lookback (Some q) (stat_arb_new fp)"
  defines "r \<equiv> sa_run mt xs s0"
  assumes "symbol_of_cstr na \<noteq> symbol_of_cstr nb"
  shows "net_decided (fst r) (symbol_of_cstr na) = sa_spread_position (snd r) * uint q
    \<and> net_decided (fst r) (symbol_of_cstr nb) = - sa_spread_position (snd r) * uint q
    \<and> \<bar>sa_spread_position (snd r)\<bar> \<le> 1"
proof -
  define ok where "ok r \<longleftrightarrow> sa_config (snd r) = sa_config s0 \<and> \<bar>sa_spread_position (snd r)\<bar> \<le> 1
      \<and> net_decided (fst r) (symbol_of_cstr na) = sa_spread_position (snd r) * uint q
      \<and> net_decided (fst r) (symbol_of_cstr nb) = - sa_spread_position (snd r) * uint q" for r :: "decision list \<times> 'd stat_arb"
  have s0: "sa_symbol_a s0 = na" "sa_symbol_b s0 = nb" "sa_trade_size s0 = q" "sa_spread_position s0 = 0"
    by (simp_all add: s0_def sa_configure_def stat_arb_new_def)
  have step: "ok (sa_step mt x r)" if "ok r" for x r
  proof -
    have c: "sa_config (snd r) = sa_config s0" "\<bar>sa_spread_position (snd r)\<bar> \<le> 1"
      using that by (simp_all add: ok_def)
    have h: "hedged_step (snd r) (sa_on_signal mt (fst x) (snd x) (snd r))"
    proof (rule sa_on_signal_cases)
      fix y s' assume "sa_config s' = sa_config (snd r)" "sa_spread_position s' = sa_spread_position (snd r)"
      then show "hedged_step (snd r) (sa_trade mt y s')"
        using sa_trade_hedged [of s' mt y] c(2) by (simp add: hedged_step_def sa_config_def sa_pair_def)
    qed (use c in \<open>simp add: hedged_step_def\<close>)
    show ?thesis
      using that h hedged_net [OF h assms(3)] c(1) s0
      by (simp add: ok_def sa_step_def hedged_step_def sa_config_def Let_def algebra_simps)
  qed
  have "ok (sa_run mt xs s0)"
    unfolding sa_run_def by (rule fold_invariant [where Q = "\<lambda>_. True"]) (simp_all add: step, simp add: ok_def s0)
  then show ?thesis
    by (simp add: ok_def r_def)
qed

text \<open>Both symbols of the pair are quoted once.\<close>

definition sample_pair :: "(real signal \<times> real portfolio_view) list" where
  "sample_pair = map (\<lambda>(sy, t). (\<lparr>sg_symbol = symbol_of_cstr sy, sg_type = Composite, sg_strength = 0, sg_direction = Dir_Neutral,
       sg_timestamp = t\<rparr>, no_positions 0))
     [(default_symbol_a, 10000), (default_symbol_b, 10000)]"

theorem stat_arb_hedged_witness:
  "net_decided (fst (sa_run exact_math sample_pair
      (sa_configure exact_fp (Some default_symbol_a) (Some default_symbol_b) None None None (Some 100) (stat_arb_new exact_fp))))
     (symbol_of_cstr default_symbol_b)
   = - sa_spread_position (snd (sa_run exact_math sample_pair
      (sa_configure exact_fp (Some default_symbol_a) (Some default_symbol_b) None None None (Some 100) (stat_arb_new exact_fp)))) * 100"
  using stat_arb_hedged [of default_symbol_a default_symbol_b exact_math sample_pair exact_fp None None None 100]
  by (simp add: default_symbol_a_def default_symbol_b_def symbol_of_cstr_def symbol_of_data_def byte_at_def)

subsection \<open>The z-score\<close>

lemma window_stddev_exact: "window_stddev exact_math w = sqrt (sq_dev w / real (length w))"
  by (simp add: window_stddev_def window_mean_def foldl_plus foldl_plus_map sq_dev_def mean_def power2_eq_square Let_def)

lemma window_zscore_bound:
  assumes "w \<noteq> []"
  shows "(window_zscore exact_math w (last w))\<^sup>2 \<le> real (length w) - 1"
proof (cases "length w < 2 \<or> window_stddev exact_math w < 1 / 1000000000000")
  case True
  moreover have "1 \<le> real (length w)"
    using assms by (cases w) simp_all
  ultimately show ?thesis
    by (auto simp: window_zscore_def)
next
  case False
  have n: "0 < real (length w)"
    using assms by simp
  have "1 / 1000000000000 \<le> sqrt (sq_dev w / real (length w))"
    using False by (simp add: window_stddev_exact not_less)
  then have "0 < sqrt (sq_dev w / real (length w))"
    by (rule less_le_trans [rotated]) simp
  then have dev: "0 < sq_dev w"
    using n by (simp add: zero_less_divide_iff)
  have "(window_zscore exact_math w (last w))\<^sup>2 = ((last w - mean w) / sqrt (sq_dev w / real (length w)))\<^sup>2"
    using False by (simp add: window_zscore_def Let_def window_stddev_exact window_mean_def foldl_plus mean_def)
  also have "\<dots> = (last w - mean w)\<^sup>2 / (sq_dev w / real (length w))"
    using dev n by (simp add: power_divide)
  also have "\<dots> = real (length w) * (last w - mean w)\<^sup>2 / sq_dev w"
    by simp
  also have "\<dots> \<le> real (length w) - 1"
    using deviation_bound [OF assms] dev by (simp add: divide_le_eq)
  finally show ?thesis .
qed

lemma zscore_within:
  assumes "w = window_push lookback x w'" "2 \<le> length w" "real (unat lookback) \<le> 1 + z\<^sup>2" "0 \<le> z"
  shows "\<bar>window_zscore exact_math w x\<bar> \<le> z"
proof -
  have len: "length w \<le> unat lookback" "w \<noteq> []" "last w = x"
    using assms(1,2) by (auto simp: window_push_def Let_def)
  then have "real (length w) - 1 \<le> z\<^sup>2"
    using assms(3) by linarith
  then have "(window_zscore exact_math w x)\<^sup>2 \<le> z\<^sup>2"
    using window_zscore_bound [OF len(2)] len(3) by simp
  then show ?thesis
    using assms(4) by (simp add: abs_le_square_iff [symmetric])
qed

lemma fold_fixed:
  assumes "\<And>x r. P r \<Longrightarrow> P (f x r) \<and> g (f x r) = g r" "P r"
  shows "P (fold f xs r) \<and> g (fold f xs r) = g r"
  using assms(2)
proof (induction xs arbitrary: r)
  case (Cons x xs)
  then show ?case using assms(1) [of r x] by simp
qed simp

lemma sa_flat_idle:
  assumes "sa_spread_position s = 0" "real (unat (sa_lookback s)) \<le> 1 + (sa_entry_zscore s)\<^sup>2" "0 \<le> sa_entry_zscore s"
  shows "fst (sa_on_signal exact_math sg pv s) = [] \<and> sa_config (snd (sa_on_signal exact_math sg pv s)) = sa_config s
    \<and> sa_spread_position (snd (sa_on_signal exact_math sg pv s)) = 0"
proof (rule sa_on_signal_cases)
  fix x s'
  assume s': "sa_config s' = sa_config s" "sa_spread_position s' = sa_spread_position s"
    "\<exists>w. sa_ratio_window s' = window_push (sa_lookback s) x w"
  have z: "\<bar>window_zscore exact_math (sa_ratio_window s') x\<bar> \<le> sa_entry_zscore s"
  proof (cases "length (sa_ratio_window s') < 2")
    case True
    then show ?thesis using assms(3) by (simp add: window_zscore_def)
  next
    case False
    then show ?thesis using s'(3) zscore_within [of "sa_ratio_window s'"] assms by auto
  qed
  show "fst (sa_trade exact_math x s') = [] \<and> sa_config (snd (sa_trade exact_math x s')) = sa_config s
      \<and> sa_spread_position (snd (sa_trade exact_math x s')) = 0"
    using s' z assms(1) by (auto simp: sa_trade_def compute_ratio_zscore_def sa_config_def Let_def)
qed (use assms in simp)

lemma mr_flat_idle:
  assumes "real (unat (mr_lookback s)) \<le> 1 + (mr_z_entry s)\<^sup>2" "0 \<le> mr_z_entry s" "pv_position pv (symbol_name (sg_symbol sg)) = 0"
  shows "fst (mr_on_signal exact_math dets sg pv s) = []
    \<and> mr_lookback (snd (mr_on_signal exact_math dets sg pv s)) = mr_lookback s
    \<and> mr_z_entry (snd (mr_on_signal exact_math dets sg pv s)) = mr_z_entry s"
proof -
  define x where "x = price_to_double exact_fp (ucast (sg_timestamp sg) :: price)"
  define w where "w = window_push (mr_lookback s) x (mr_window (as_key (sg_symbol sg)) s)"
  have "\<bar>window_zscore exact_math w x\<bar> \<le> mr_z_entry s" if "\<not> length w < 2"
    using zscore_within [OF w_def] that assms by simp
  moreover have "mr_window k (s\<lparr>mr_price_windows := (mr_price_windows s)(k \<mapsto> w)\<rparr>) = w" for k
    by (simp add: mr_window_def)
  ultimately show ?thesis
    using assms(3) by (auto simp: mr_on_signal_def compute_zscore_def Let_def simp flip: x_def w_def)
qed

text \<open>
  A short window keeps the two z-score strategies from trading at all. In a window of \<open>n\<close> values no value is
  more than \<open>sqrt (n - 1)\<close> standard deviations from the mean, so with a lookback of at most \<open>1 + z\<^sup>2\<close> samples for an
  entry threshold \<open>z\<close> (five for the default of 2), and without rounding, neither the mean reversion strategy nor the
  pair strategy ever opens a position, whatever the prices.
\<close>

theorem short_lookback_never_opens:
  fixes z :: real and n :: u32
  assumes "real (unat n) \<le> 1 + z\<^sup>2" and "0 \<le> z"
  shows "fst (sa_run exact_math xs (sa_configure exact_fp a b (Some z) xt (Some n) q (stat_arb_new exact_fp))) = []
    \<and> fst (strategy_rounds (mr_on_signal exact_math dets) rs
        (no_positions c, mr_configure exact_fp (Some z) xt (Some n) m mr)) = no_positions c"
proof
  let ?s = "sa_configure exact_fp a b (Some z) xt (Some n) q (stat_arb_new exact_fp)"
  let ?P = "\<lambda>r. sa_lookback (snd r) = n \<and> sa_entry_zscore (snd r) = z \<and> sa_spread_position (snd r) = 0"
  have "?P (sa_step exact_math x r) \<and> fst (sa_step exact_math x r) = fst r" if "?P r" for x r
    using sa_flat_idle [of "snd r" "fst x" "snd x"] that assms by (auto simp: sa_step_def sa_config_def)
  from fold_fixed [of ?P "sa_step exact_math" fst "([], ?s)" xs, OF this] show "fst (sa_run exact_math xs ?s) = []"
    by (simp add: sa_run_def sa_configure_def stat_arb_new_def)
next
  let ?s = "mr_configure exact_fp (Some z) xt (Some n) m mr"
  let ?P = "\<lambda>r. mr_lookback (snd r) = n \<and> mr_z_entry (snd r) = z \<and> fst r = no_positions c"
  let ?f = "strategy_round (mr_on_signal exact_math dets)"
  have "?P (?f x r) \<and> fst (?f x r) = fst r" if "?P r" for x r
    using mr_flat_idle [of "snd r" "fst r" "fst x" dets] that assms
    by (auto simp: strategy_round_def split_beta Let_def no_positions_def pv_position_def)
  from fold_fixed [of ?P ?f fst "(no_positions c, ?s)" rs, OF this]
  show "fst (strategy_rounds (mr_on_signal exact_math dets) rs (no_positions c, ?s)) = no_positions c"
    by (simp add: strategy_rounds_def mr_configure_def)
qed

theorem short_lookback_never_opens_witness:
  "fst (sa_run exact_math sample_pair (sa_configure exact_fp None None (Some 2) None (Some 5) None (stat_arb_new exact_fp))) = []"
  using short_lookback_never_opens [of 5 2] by simp

end
