(* ===== verification/Strategy_Engine.thy ===== *)
theory Strategy_Engine
  imports Strategies
begin

text \<open>
  The catalog of strategies and the engine that drives them (\<open>strategy/strategy_base.hpp\<close>,
  \<open>strategy_registry.{hpp,cpp}\<close>, \<open>strategy_engine.{hpp,cpp}\<close>). The virtual call of \<open>on_signal\<close> is a case distinction on
  the class of the object. The order in which an \<open>unordered_map\<close> is iterated is a list of its keys, an argument
  of the operations that iterate. Every operation of the registry holds its mutex, so it is one step.
\<close>

section \<open>Registry\<close>

datatype 'd strategy =
    Market_Making "'d market_making"
  | Mean_Reversion "'d mean_reversion"
  | Momentum_Follower "'d momentum_follower"
  | Signal_Threshold "'d signal_threshold"
  | Stat_Arb "'d stat_arb"

definition strategy_on_signal ::
  "'d sim_math \<Rightarrow> 'd detectors \<Rightarrow> 'd signal \<Rightarrow> 'd portfolio_view \<Rightarrow> 'd strategy \<Rightarrow> decision list \<times> 'd strategy" where
  "strategy_on_signal mt dets sg pv s = (case s of
     Market_Making x \<Rightarrow> map_prod id Market_Making (mm_on_signal (sm_fp mt) sg pv x)
   | Mean_Reversion x \<Rightarrow> map_prod id Mean_Reversion (mr_on_signal mt dets sg pv x)
   | Momentum_Follower x \<Rightarrow> map_prod id Momentum_Follower (mf_on_signal (sm_fp mt) dets sg pv x)
   | Signal_Threshold x \<Rightarrow> map_prod id Signal_Threshold (st_on_signal (sm_fp mt) sg pv x)
   | Stat_Arb x \<Rightarrow> map_prod id Stat_Arb (sa_on_signal mt sg pv x))"

definition strategy_name :: "'d strategy \<Rightarrow> string" where
  "strategy_name s = (case s of Market_Making x \<Rightarrow> ''market_making'' | Mean_Reversion x \<Rightarrow> ''mean_reversion''
     | Momentum_Follower x \<Rightarrow> ''momentum_follower'' | Signal_Threshold x \<Rightarrow> ''signal_threshold'' | Stat_Arb x \<Rightarrow> ''stat_arb'')"

record 'd registry =
  rg_strategies :: "string \<rightharpoonup> 'd strategy"
  rg_active :: "string \<rightharpoonup> bool"

definition registry_new :: "'d registry" where
  "registry_new = \<lparr>rg_strategies = Map.empty, rg_active = Map.empty\<rparr>"

definition register_strategy :: "string \<Rightarrow> 'd strategy \<Rightarrow> 'd registry \<Rightarrow> 'd registry" where
  "register_strategy name s rg =
     \<lparr>rg_strategies = (rg_strategies rg)(name \<mapsto> s), rg_active = (rg_active rg)(name \<mapsto> True)\<rparr>"

definition rg_get :: "'d registry \<Rightarrow> string \<Rightarrow> 'd strategy option" where
  "rg_get rg name = rg_strategies rg name"

definition rg_names :: "string list \<Rightarrow> 'd registry \<Rightarrow> string list" where
  "rg_names keys rg = filter (\<lambda>name. rg_strategies rg name \<noteq> None) keys"

definition rg_count :: "'d registry \<Rightarrow> nat" where
  "rg_count rg = card (dom (rg_strategies rg))"

definition set_active :: "string \<Rightarrow> bool \<Rightarrow> 'd registry \<Rightarrow> 'd registry" where
  "set_active name active rg = rg\<lparr>rg_active := (rg_active rg)(name \<mapsto> active)\<rparr>"

definition is_active :: "'d registry \<Rightarrow> string \<Rightarrow> bool" where
  "is_active rg name = (case rg_active rg name of Some b \<Rightarrow> b | None \<Rightarrow> False)"

definition active_names :: "string list \<Rightarrow> 'd registry \<Rightarrow> string list" where
  "active_names keys rg = filter (\<lambda>name. rg_active rg name = Some True \<and> rg_strategies rg name \<noteq> None) keys"

definition rg_clear :: "'d registry \<Rightarrow> 'd registry" where
  "rg_clear rg = registry_new"

section \<open>Engine\<close>

record 'd strategy_engine =
  se_registry :: "'d registry"
  se_oms_callback :: bool
  se_last_decisions :: "decision list"

definition strategy_engine_new :: "'d strategy_engine" where
  "strategy_engine_new = \<lparr>se_registry = registry_new, se_oms_callback = False, se_last_decisions = []\<rparr>"

definition set_oms_callback :: "bool \<Rightarrow> 'd strategy_engine \<Rightarrow> 'd strategy_engine" where
  "set_oms_callback cb e = e\<lparr>se_oms_callback := cb\<rparr>"

text \<open>One pass of the loop over the active names: the strategy of a name answers, and its decisions are appended.\<close>

definition run_strategy ::
  "'d sim_math \<Rightarrow> 'd detectors \<Rightarrow> 'd signal \<Rightarrow> 'd portfolio_view \<Rightarrow> string \<Rightarrow> 'd strategy_engine \<Rightarrow> 'd strategy_engine" where
  "run_strategy mt dets sg pv name e = (case rg_get (se_registry e) name of
     None \<Rightarrow> e
   | Some strat \<Rightarrow>
       let (ds, strat') = strategy_on_signal mt dets sg pv strat;
           rg = se_registry e
       in e\<lparr>se_registry := rg\<lparr>rg_strategies := (rg_strategies rg)(name \<mapsto> strat')\<rparr>,
            se_last_decisions := se_last_decisions e @ ds\<rparr>)"

text \<open>The list handed to the callback of the order management system, if it is called.\<close>

definition engine_on_signal ::
  "'d sim_math \<Rightarrow> 'd detectors \<Rightarrow> string list \<Rightarrow> 'd signal \<Rightarrow> 'd portfolio_view \<Rightarrow> 'd strategy_engine
   \<Rightarrow> decision list \<times> decision list option \<times> 'd strategy_engine" where
  "engine_on_signal mt dets keys sg pv e =
     (let e = fold (run_strategy mt dets sg pv) (active_names keys (se_registry e)) (e\<lparr>se_last_decisions := []\<rparr>);
          ds = se_last_decisions e
      in (ds, if se_oms_callback e \<and> ds \<noteq> [] then Some ds else None, e))"

definition engine_enable :: "string \<Rightarrow> 'd strategy_engine \<Rightarrow> 'd strategy_engine" where
  "engine_enable name e = e\<lparr>se_registry := set_active name True (se_registry e)\<rparr>"

definition engine_disable :: "string \<Rightarrow> 'd strategy_engine \<Rightarrow> 'd strategy_engine" where
  "engine_disable name e = e\<lparr>se_registry := set_active name False (se_registry e)\<rparr>"

text \<open>The virtual \<open>configure\<close> of the strategy found under a name is an argument.\<close>

definition engine_configure :: "('d strategy \<Rightarrow> 'd strategy) \<Rightarrow> string \<Rightarrow> 'd strategy_engine \<Rightarrow> 'd strategy_engine" where
  "engine_configure conf name e = (let rg = se_registry e in case rg_get rg name of
     None \<Rightarrow> e | Some s \<Rightarrow> e\<lparr>se_registry := rg\<lparr>rg_strategies := (rg_strategies rg)(name \<mapsto> conf s)\<rparr>\<rparr>)"

definition engine_reset :: "'d strategy_engine \<Rightarrow> 'd strategy_engine" where
  "engine_reset e = \<lparr>se_registry = rg_clear (se_registry e), se_oms_callback = False, se_last_decisions = []\<rparr>"

section \<open>Properties\<close>

text \<open>The iteration order of a registry: every key of the table of activity once.\<close>

definition iterates :: "string list \<Rightarrow> 'd registry \<Rightarrow> bool" where
  "iterates keys rg \<longleftrightarrow> distinct keys \<and> set keys = dom (rg_active rg)"

definition is_live :: "'d registry \<Rightarrow> string \<Rightarrow> bool" where
  "is_live rg name \<longleftrightarrow> is_active rg name \<and> rg_strategies rg name \<noteq> None"

definition answer where
  "answer mt dets sg pv rg name = strategy_on_signal mt dets sg pv (the (rg_strategies rg name))"

lemma active_names_live:
  assumes "iterates keys rg"
  shows "set (active_names keys rg) = {name. is_live rg name}" "distinct (active_names keys rg)"
  using assms by (auto simp: active_names_def iterates_def is_live_def is_active_def split: option.splits)

lemma fold_run_strategy:
  assumes "distinct names" "\<forall>name\<in>set names. rg_strategies (se_registry e) name \<noteq> None"
  shows "fold (run_strategy mt dets sg pv) names e =
    e\<lparr>se_registry := (se_registry e)\<lparr>rg_strategies := (\<lambda>n. if n \<in> set names
         then Some (snd (answer mt dets sg pv (se_registry e) n)) else rg_strategies (se_registry e) n)\<rparr>,
      se_last_decisions := se_last_decisions e @ concat (map (\<lambda>n. fst (answer mt dets sg pv (se_registry e) n)) names)\<rparr>"
  using assms
proof (induction names arbitrary: e)
  case (Cons name names)
  obtain strat where strat: "rg_strategies (se_registry e) name = Some strat"
    using Cons.prems by auto
  let ?e = "run_strategy mt dets sg pv name e"
  have e: "?e = e\<lparr>se_registry := (se_registry e)\<lparr>rg_strategies := (rg_strategies (se_registry e))(name \<mapsto>
      snd (answer mt dets sg pv (se_registry e) name))\<rparr>,
      se_last_decisions := se_last_decisions e @ fst (answer mt dets sg pv (se_registry e) name)\<rparr>"
    by (simp add: run_strategy_def rg_get_def strat answer_def split_beta Let_def)
  have same: "answer mt dets sg pv (se_registry ?e) n = answer mt dets sg pv (se_registry e) n" if "n \<in> set names" for n
    using that Cons.prems(1) by (auto simp: e answer_def)
  have concat: "map (\<lambda>n. fst (answer mt dets sg pv (se_registry ?e) n)) names =
      map (\<lambda>n. fst (answer mt dets sg pv (se_registry e) n)) names"
    using same by simp
  have strats: "(\<lambda>n. if n \<in> set names then Some (snd (answer mt dets sg pv (se_registry ?e) n)) else rg_strategies (se_registry ?e) n) =
      (\<lambda>n. if n \<in> set (name # names) then Some (snd (answer mt dets sg pv (se_registry e) n)) else rg_strategies (se_registry e) n)"
    using same Cons.prems(1) by (auto simp: e fun_eq_iff)
  have "fold (run_strategy mt dets sg pv) (name # names) e = fold (run_strategy mt dets sg pv) names ?e"
    by simp
  also have "\<dots> = ?e\<lparr>se_registry := (se_registry ?e)\<lparr>rg_strategies := (\<lambda>n. if n \<in> set (name # names)
         then Some (snd (answer mt dets sg pv (se_registry e) n)) else rg_strategies (se_registry e) n)\<rparr>,
      se_last_decisions := se_last_decisions ?e @ concat (map (\<lambda>n. fst (answer mt dets sg pv (se_registry e) n)) names)\<rparr>"
    unfolding strats [symmetric] concat [symmetric] using Cons.prems by (intro Cons.IH) (auto simp: e)
  also have "\<dots> = e\<lparr>se_registry := (se_registry e)\<lparr>rg_strategies := (\<lambda>n. if n \<in> set (name # names)
         then Some (snd (answer mt dets sg pv (se_registry e) n)) else rg_strategies (se_registry e) n)\<rparr>,
      se_last_decisions := se_last_decisions e @ concat (map (\<lambda>n. fst (answer mt dets sg pv (se_registry e) n)) (name # names))\<rparr>"
    by (simp add: e)
  finally show ?case .
qed simp

text \<open>
  A signal reaches exactly the active strategies. Every strategy that is registered and active answers the signal
  once, from its own state and the same view of the portfolio, and keeps the state it returns; every other strategy
  and the activity of all are left as they were; the decisions are the answers one after the other, and the
  callback is called, with all of them, exactly when there is one and there are decisions.
\<close>

theorem engine_runs_active:
  assumes "iterates keys (se_registry e)"
  shows "case engine_on_signal mt dets keys sg pv e of (ds, forwarded, e') \<Rightarrow>
      ds = concat (map (\<lambda>n. fst (answer mt dets sg pv (se_registry e) n)) (active_names keys (se_registry e)))
    \<and> set (active_names keys (se_registry e)) = {n. is_live (se_registry e) n} \<and> distinct (active_names keys (se_registry e))
    \<and> rg_strategies (se_registry e') = (\<lambda>n. if is_live (se_registry e) n
         then Some (snd (answer mt dets sg pv (se_registry e) n)) else rg_strategies (se_registry e) n)
    \<and> rg_active (se_registry e') = rg_active (se_registry e) \<and> se_last_decisions e' = ds
    \<and> forwarded = (if se_oms_callback e \<and> ds \<noteq> [] then Some ds else None)"
proof -
  have "fold (run_strategy mt dets sg pv) (active_names keys (se_registry e)) (e\<lparr>se_last_decisions := []\<rparr>) =
    e\<lparr>se_registry := (se_registry e)\<lparr>rg_strategies := (\<lambda>n. if is_live (se_registry e) n
         then Some (snd (answer mt dets sg pv (se_registry e) n)) else rg_strategies (se_registry e) n)\<rparr>,
      se_last_decisions := concat (map (\<lambda>n. fst (answer mt dets sg pv (se_registry e) n)) (active_names keys (se_registry e)))\<rparr>"
    using active_names_live [OF assms] by (subst fold_run_strategy) (auto simp: is_live_def cong: if_cong)
  then show ?thesis
    using active_names_live [OF assms] by (simp add: engine_on_signal_def Let_def)
qed

definition sample_engine :: "real strategy_engine" where
  "sample_engine = \<lparr>se_registry = register_strategy ''mm'' (Market_Making (market_making_new exact_fp)) registry_new,
     se_oms_callback = True, se_last_decisions = []\<rparr>"

definition sample_signal :: "real signal" where
  "sample_signal = \<lparr>sg_symbol = symbol_default, sg_type = Composite, sg_strength = 0, sg_direction = Dir_Neutral,
     sg_timestamp = 1000\<rparr>"

theorem engine_runs_active_witness:
  "fst (snd (engine_on_signal exact_math (\<lambda>a. regime_detector_new exact_fp 0 0 0) [''mm''] sample_signal (no_positions 0) sample_engine)) =
   Some [limit_order symbol_default Side_Buy 100 998 Low, limit_order symbol_default Side_Sell 100 1002 Low]"
proof -
  have "iterates [''mm''] (se_registry sample_engine)"
    by (simp add: iterates_def sample_engine_def register_strategy_def registry_new_def)
  note * = engine_runs_active [OF this, of exact_math "\<lambda>a. regime_detector_new exact_fp 0 0 0" sample_signal "no_positions 0"]
  have "fst (answer exact_math (\<lambda>a. regime_detector_new exact_fp 0 0 0) sample_signal (no_positions 0) (se_registry sample_engine) ''mm'') =
      [limit_order symbol_default Side_Buy 100 998 Low, limit_order symbol_default Side_Sell 100 1002 Low]"
    by (simp add: answer_def strategy_on_signal_def sample_engine_def register_strategy_def mm_on_signal_def sample_signal_def
        fair_value_from_signal_def market_making_new_def no_positions_def pv_position_def compute_skew_def exact_fp_def smax64_def Let_def)
  then show ?thesis
    using * by (simp add: split_beta active_names_def sample_engine_def register_strategy_def registry_new_def)
qed

end
