(* ===== verification/Features.thy ===== *)
theory Features
  imports Signal_Types Order_Book Window
begin

text \<open>
  The features (\<open>signals/features\<close>): numbers extracted from an order book and the trade history of a symbol. A
  feature that keeps state is a record; \<open>compute\<close> returns the value and the new state. The features of trades
  remember how many trades of the history they have seen, and take those from that index on as new.

  \<open>nan\<close> stands for the quiet NaN of the library. A window size is positive where the code takes the front of a window of
  that size.
\<close>

section \<open>Features of the book\<close>

definition microprice_compute :: "'d fp \<Rightarrow> 'd \<Rightarrow> order_book \<Rightarrow> 'd" where
  "microprice_compute fp nan book = (case (best_bid book, best_ask book) of
     (Some bid, Some ask) \<Rightarrow>
       let bid_price = price_to_double fp bid; ask_price = price_to_double fp ask;
           bid_qty = fp_of_nat fp (unat (best_bid_qty book)); ask_qty = fp_of_nat fp (unat (best_ask_qty book));
           total_qty = fp_add fp bid_qty ask_qty
       in if fp_eq fp total_qty (fp_zero fp) then nan
          else fp_div fp (fp_add fp (fp_mul fp bid_price ask_qty) (fp_mul fp ask_price bid_qty)) total_qty
   | _ \<Rightarrow> nan)"

definition book_depth_ratio_compute :: "'d fp \<Rightarrow> 'd \<Rightarrow> nat \<Rightarrow> order_book \<Rightarrow> 'd" where
  "book_depth_ratio_compute fp nan num_levels book =
     (let depth = foldl (\<lambda>acc lvl. fp_add fp acc (fp_of_nat fp (unat (dl_quantity lvl)))) (fp_zero fp);
          total_bid = depth (bid_depth book num_levels); total_ask = depth (ask_depth book num_levels) in
      if fp_eq fp total_bid (fp_zero fp) \<and> fp_eq fp total_ask (fp_zero fp) then fp_zero fp
      else if fp_eq fp total_ask (fp_zero fp) then nan
      else fp_div fp total_bid total_ask)"

record 'd spread_tracker =
  sp_window_size :: nat
  sp_samples :: "'d list"
  sp_sum :: 'd
  sp_sum_sq :: 'd
  sp_mean :: 'd
  sp_std :: 'd
  sp_zscore :: 'd

definition spread_tracker_new :: "'d fp \<Rightarrow> nat \<Rightarrow> 'd spread_tracker" where
  "spread_tracker_new fp n = \<lparr>sp_window_size = n, sp_samples = [], sp_sum = fp_zero fp, sp_sum_sq = fp_zero fp,
     sp_mean = fp_zero fp, sp_std = fp_zero fp, sp_zscore = fp_zero fp\<rparr>"

definition update_stats :: "'d sim_math \<Rightarrow> 'd \<Rightarrow> 'd spread_tracker \<Rightarrow> 'd spread_tracker" where
  "update_stats mt new_spread s =
     (let fp = sm_fp mt; zero = fp_zero fp;
          s = (if sp_window_size s \<le> length (sp_samples s)
            then let old = hd (sp_samples s)
                 in s\<lparr>sp_samples := tl (sp_samples s), sp_sum := fp_sub fp (sp_sum s) old,
                      sp_sum_sq := fp_sub fp (sp_sum_sq s) (fp_mul fp old old)\<rparr>
            else s);
          s = s\<lparr>sp_samples := sp_samples s @ [new_spread], sp_sum := fp_add fp (sp_sum s) new_spread,
                sp_sum_sq := fp_add fp (sp_sum_sq s) (fp_mul fp new_spread new_spread)\<rparr>;
          n = fp_of_nat fp (length (sp_samples s));
          mean = fp_div fp (sp_sum s) n;
          variance = fp_sub fp (fp_div fp (sp_sum_sq s) n) (fp_mul fp mean mean);
          variance = (if fp_less fp variance zero then zero else variance);
          std = sm_sqrt mt variance
      in s\<lparr>sp_mean := mean, sp_std := std,
           sp_zscore := (if fp_less fp (fp_ratio fp 1 1000000000000) std then fp_div fp (fp_sub fp new_spread mean) std else zero)\<rparr>)"

definition spread_compute :: "'d sim_math \<Rightarrow> order_book \<Rightarrow> 'd spread_tracker \<Rightarrow> 'd \<times> 'd spread_tracker" where
  "spread_compute mt book s = (case (best_bid book, best_ask book) of
     (Some bid, Some ask) \<Rightarrow>
       let fp = sm_fp mt; s = update_stats mt (fp_sub fp (price_to_double fp ask) (price_to_double fp bid)) s
       in (sp_zscore s, s)
   | _ \<Rightarrow> (fp_zero (sm_fp mt), s))"

section \<open>Features of trades\<close>

definition new_trades :: "nat \<Rightarrow> trade_history \<Rightarrow> trade_record list" where
  "new_trades last_processed th = drop last_processed (th_trades th)"

subsection \<open>Volume weighted average price\<close>

record 'd vwap =
  vf_cum_price_qty :: 'd
  vf_cum_qty :: 'd
  vf_last_processed :: nat

definition vwap_new :: "'d fp \<Rightarrow> 'd vwap" where
  "vwap_new fp = \<lparr>vf_cum_price_qty = fp_zero fp, vf_cum_qty = fp_zero fp, vf_last_processed = 0\<rparr>"

definition vwap_add :: "'d fp \<Rightarrow> trade_record \<Rightarrow> 'd vwap \<Rightarrow> 'd vwap" where
  "vwap_add fp t s =
     (let px = price_to_double fp (tr_price t); qty = fp_of_nat fp (unat (tr_quantity t))
      in s\<lparr>vf_cum_price_qty := fp_add fp (vf_cum_price_qty s) (fp_mul fp px qty), vf_cum_qty := fp_add fp (vf_cum_qty s) qty\<rparr>)"

definition vwap_compute :: "'d fp \<Rightarrow> trade_history \<Rightarrow> 'd vwap \<Rightarrow> 'd \<times> 'd vwap" where
  "vwap_compute fp th s =
     (let s = fold (vwap_add fp) (new_trades (vf_last_processed s) th) s;
          s = s\<lparr>vf_last_processed := length (th_trades th)\<rparr>
      in (if fp_eq fp (vf_cum_qty s) (fp_zero fp) then fp_zero fp else fp_div fp (vf_cum_price_qty s) (vf_cum_qty s), s))"

definition vwap_reset :: "'d fp \<Rightarrow> 'd vwap \<Rightarrow> 'd vwap" where
  "vwap_reset fp s = \<lparr>vf_cum_price_qty = fp_zero fp, vf_cum_qty = fp_zero fp, vf_last_processed = 0\<rparr>"

subsection \<open>Time weighted average price\<close>

record 'd price_sample =
  ps_price :: 'd
  ps_timestamp :: u64

record 'd twap_feature =
  tw_window_ns :: u64
  tw_samples :: "'d price_sample list"

definition twap_feature_new :: "u64 \<Rightarrow> 'd twap_feature" where
  "twap_feature_new w = \<lparr>tw_window_ns = w, tw_samples = []\<rparr>"

definition twap_evict_old :: "u64 \<Rightarrow> 'd twap_feature \<Rightarrow> 'd twap_feature" where
  "twap_evict_old now s =
     (if now < tw_window_ns s then s
      else let cutoff = now - tw_window_ns s in s\<lparr>tw_samples := dropWhile (\<lambda>x. ps_timestamp x < cutoff) (tw_samples s)\<rparr>)"

text \<open>The sum of the prices weighted with the time to the next sample, and the total time.\<close>

fun twap_weights :: "'d fp \<Rightarrow> 'd price_sample list \<Rightarrow> 'd \<Rightarrow> u64 \<Rightarrow> 'd \<times> u64" where
  "twap_weights fp (a # b # xs) ws tt =
     (let dt = ps_timestamp b - ps_timestamp a
      in twap_weights fp (b # xs) (fp_add fp ws (fp_mul fp (ps_price a) (fp_of_nat fp (unat dt)))) (tt + dt))"
| "twap_weights fp xs ws tt = (ws, tt)"

definition twap_average :: "'d fp \<Rightarrow> 'd \<Rightarrow> 'd price_sample list \<Rightarrow> 'd" where
  "twap_average fp nan xs =
     (if xs = [] then nan
      else if length xs = 1 then ps_price (hd xs)
      else let (weighted_sum, total_time) = twap_weights fp xs (fp_zero fp) 0 in
        if total_time = 0
        then fp_div fp (foldl (\<lambda>acc x. fp_add fp acc (ps_price x)) (fp_zero fp) xs) (fp_of_nat fp (length xs))
        else fp_div fp weighted_sum (fp_of_nat fp (unat total_time)))"

definition twap_compute :: "'d fp \<Rightarrow> 'd \<Rightarrow> order_book \<Rightarrow> trade_history \<Rightarrow> 'd twap_feature \<Rightarrow> 'd \<times> 'd twap_feature" where
  "twap_compute fp nan book th s =
     (let sample = (\<lambda>mid_price.
        let now = (if th_trades th = [] then 0 else tr_timestamp (last (th_trades th)));
            s = twap_evict_old now (s\<lparr>tw_samples := tw_samples s @ [\<lparr>ps_price = mid_price, ps_timestamp = now\<rparr>]\<rparr>)
        in (twap_average fp nan (tw_samples s), s))
      in case (best_bid book, best_ask book) of
        (None, None) \<Rightarrow> (nan, s)
      | (Some bid, Some ask) \<Rightarrow> sample (fp_div fp (fp_add fp (price_to_double fp bid) (price_to_double fp ask)) (fp_of_nat fp 2))
      | (Some bid, None) \<Rightarrow> sample (price_to_double fp bid)
      | (None, Some ask) \<Rightarrow> sample (price_to_double fp ask))"

subsection \<open>Order flow imbalance\<close>

record 'd volume_sample =
  vs_quantity :: 'd
  vs_side :: side
  vs_timestamp :: u64

record 'd ofi =
  of_window_ns :: u64
  of_samples :: "'d volume_sample list"
  of_last_processed :: nat

definition ofi_new :: "u64 \<Rightarrow> 'd ofi" where
  "ofi_new w = \<lparr>of_window_ns = w, of_samples = [], of_last_processed = 0\<rparr>"

definition ofi_evict_old :: "u64 \<Rightarrow> 'd ofi \<Rightarrow> 'd ofi" where
  "ofi_evict_old now s =
     (let cutoff = (if of_window_ns s < now then now - of_window_ns s else 0)
      in s\<lparr>of_samples := dropWhile (\<lambda>x. vs_timestamp x < cutoff) (of_samples s)\<rparr>)"

definition ofi_volume :: "'d fp \<Rightarrow> bool \<Rightarrow> 'd volume_sample list \<Rightarrow> 'd" where
  "ofi_volume fp buy xs =
     foldl (\<lambda>acc x. if (vs_side x = Side_Buy) = buy then fp_add fp acc (vs_quantity x) else acc) (fp_zero fp) xs"

definition ofi_compute :: "'d fp \<Rightarrow> trade_history \<Rightarrow> 'd ofi \<Rightarrow> 'd \<times> 'd ofi" where
  "ofi_compute fp th s =
     (let s = s\<lparr>of_samples := of_samples s @ map (\<lambda>t. \<lparr>vs_quantity = fp_of_nat fp (unat (tr_quantity t)),
            vs_side = tr_aggressor_side t, vs_timestamp = tr_timestamp t\<rparr>) (new_trades (of_last_processed s) th),
          of_last_processed := length (th_trades th)\<rparr> in
      if of_samples s = [] then (fp_zero fp, s)
      else
        let s = ofi_evict_old (vs_timestamp (last (of_samples s))) s;
            buy_volume = ofi_volume fp True (of_samples s); sell_volume = ofi_volume fp False (of_samples s);
            total = fp_add fp buy_volume sell_volume
        in (if fp_eq fp total (fp_zero fp) then fp_zero fp else fp_div fp (fp_sub fp buy_volume sell_volume) total, s))"

subsection \<open>Trade flow\<close>

record trade_flow =
  tf_window_size :: nat
  tf_samples :: "bool list"
  tf_buy_count :: nat
  tf_sell_count :: nat
  tf_last_processed :: nat

definition trade_flow_new :: "nat \<Rightarrow> trade_flow" where
  "trade_flow_new n = \<lparr>tf_window_size = n, tf_samples = [], tf_buy_count = 0, tf_sell_count = 0, tf_last_processed = 0\<rparr>"

text \<open>The side of a sample is \<open>True\<close> for a buy aggressor.\<close>

definition add_sample :: "bool \<Rightarrow> trade_flow \<Rightarrow> trade_flow" where
  "add_sample sd s =
     (let s = (if tf_window_size s \<le> length (tf_samples s)
        then let old = hd (tf_samples s); s = s\<lparr>tf_samples := tl (tf_samples s)\<rparr>
             in if old then s\<lparr>tf_buy_count := tf_buy_count s - 1\<rparr> else s\<lparr>tf_sell_count := tf_sell_count s - 1\<rparr>
        else s);
          s = s\<lparr>tf_samples := tf_samples s @ [sd]\<rparr>
      in if sd then s\<lparr>tf_buy_count := tf_buy_count s + 1\<rparr> else s\<lparr>tf_sell_count := tf_sell_count s + 1\<rparr>)"

definition aggressor_is_buy :: "'d fp \<Rightarrow> 'd option \<Rightarrow> trade_record \<Rightarrow> bool" where
  "aggressor_is_buy fp mid t = (case mid of
     Some m \<Rightarrow> fp_le fp m (price_to_double fp (tr_price t)) | None \<Rightarrow> tr_aggressor_side t = Side_Buy)"

definition trade_flow_compute :: "'d fp \<Rightarrow> order_book \<Rightarrow> trade_history \<Rightarrow> trade_flow \<Rightarrow> 'd \<times> trade_flow" where
  "trade_flow_compute fp book th s =
     (let mid = (case (best_bid book, best_ask book) of
            (Some bid, Some ask) \<Rightarrow> Some (fp_div fp (fp_add fp (price_to_double fp bid) (price_to_double fp ask)) (fp_of_nat fp 2))
          | _ \<Rightarrow> None);
          s = fold (\<lambda>t. add_sample (aggressor_is_buy fp mid t)) (new_trades (tf_last_processed s) th) s;
          s = s\<lparr>tf_last_processed := length (th_trades th)\<rparr>
      in (if tf_samples s = [] then fp_zero fp
          else fp_div fp (fp_sub fp (fp_of_nat fp (tf_buy_count s)) (fp_of_nat fp (tf_sell_count s)))
                 (fp_of_nat fp (length (tf_samples s))), s))"

definition buy_ratio :: "'d fp \<Rightarrow> trade_flow \<Rightarrow> 'd" where
  "buy_ratio fp s = (if tf_samples s = [] then fp_zero fp
     else fp_div fp (fp_of_nat fp (tf_buy_count s)) (fp_of_nat fp (length (tf_samples s))))"

definition sell_ratio :: "'d fp \<Rightarrow> trade_flow \<Rightarrow> 'd" where
  "sell_ratio fp s = (if tf_samples s = [] then fp_zero fp
     else fp_div fp (fp_of_nat fp (tf_sell_count s)) (fp_of_nat fp (length (tf_samples s))))"

subsection \<open>Momentum and mean reversion\<close>

record 'd price_feature =
  pr_short_window :: nat
  pr_medium_window :: nat
  pr_long_window :: nat
  pr_last_processed :: nat
  pr_prices :: "'d list"
  pr_short_z :: 'd
  pr_medium_z :: 'd
  pr_long_z :: 'd

definition price_feature_new :: "'d fp \<Rightarrow> nat \<Rightarrow> nat \<Rightarrow> nat \<Rightarrow> 'd price_feature" where
  "price_feature_new fp sw mw lw = \<lparr>pr_short_window = sw, pr_medium_window = mw, pr_long_window = lw, pr_last_processed = 0,
     pr_prices = [], pr_short_z = fp_zero fp, pr_medium_z = fp_zero fp, pr_long_z = fp_zero fp\<rparr>"

definition momentum_zscore :: "'d sim_math \<Rightarrow> nat \<Rightarrow> 'd list \<Rightarrow> 'd" where
  "momentum_zscore mt window prices =
     (let fp = sm_fp mt in
      if length prices < window + 1 then fp_zero fp
      else
        let n = length prices; start = n - window - 1;
            price_change = fp_sub fp (prices ! (n - 1)) (prices ! start);
            rets = map (\<lambda>i. fp_sub fp (prices ! i) (prices ! (i - 1))) [start + 1..<n];
            sum1 = foldl (fp_add fp) (fp_zero fp) rets;
            sum_sq = foldl (\<lambda>acc r. fp_add fp acc (fp_mul fp r r)) (fp_zero fp) rets;
            mean = fp_div fp sum1 (fp_of_nat fp window);
            variance = fp_sub fp (fp_div fp sum_sq (fp_of_nat fp window)) (fp_mul fp mean mean)
        in if fp_le fp variance (fp_zero fp) then fp_zero fp else fp_div fp price_change (sm_sqrt mt variance))"

definition reversion_zscore :: "'d sim_math \<Rightarrow> nat \<Rightarrow> 'd list \<Rightarrow> 'd" where
  "reversion_zscore mt window prices =
     (let fp = sm_fp mt in
      if length prices < window then fp_zero fp
      else
        let n = length prices; ws = drop (n - window) prices;
            mean = fp_div fp (foldl (fp_add fp) (fp_zero fp) ws) (fp_of_nat fp window);
            sum_sq = foldl (\<lambda>acc x. let diff = fp_sub fp x mean in fp_add fp acc (fp_mul fp diff diff)) (fp_zero fp) ws;
            variance = fp_div fp sum_sq (fp_of_nat fp window)
        in if fp_le fp variance (fp_zero fp) then fp_zero fp
           else fp_div fp (fp_sub fp (prices ! (n - 1)) mean) (sm_sqrt mt variance))"

text \<open>
  New prices are appended, the oldest are removed while there are more than \<open>keep\<close>, and the three z-scores are computed.
\<close>

definition price_ingest :: "'d fp \<Rightarrow> nat \<Rightarrow> trade_history \<Rightarrow> 'd price_feature \<Rightarrow> 'd price_feature" where
  "price_ingest fp keep th s =
     (let ps = pr_prices s @ map (\<lambda>t. price_to_double fp (tr_price t)) (new_trades (pr_last_processed s) th)
      in s\<lparr>pr_prices := drop (length ps - keep) ps, pr_last_processed := length (th_trades th)\<rparr>)"

definition price_zscores :: "(nat \<Rightarrow> 'd list \<Rightarrow> 'd) \<Rightarrow> 'd price_feature \<Rightarrow> 'd \<times> 'd price_feature" where
  "price_zscores z s =
     (let s = s\<lparr>pr_short_z := z (pr_short_window s) (pr_prices s), pr_medium_z := z (pr_medium_window s) (pr_prices s),
          pr_long_z := z (pr_long_window s) (pr_prices s)\<rparr>
      in (pr_short_z s, s))"

definition momentum_compute :: "'d sim_math \<Rightarrow> trade_history \<Rightarrow> 'd price_feature \<Rightarrow> 'd \<times> 'd price_feature" where
  "momentum_compute mt th s = price_zscores (momentum_zscore mt) (price_ingest (sm_fp mt) (pr_long_window s + 1) th s)"

definition reversion_compute :: "'d sim_math \<Rightarrow> trade_history \<Rightarrow> 'd price_feature \<Rightarrow> 'd \<times> 'd price_feature" where
  "reversion_compute mt th s = price_zscores (reversion_zscore mt) (price_ingest (sm_fp mt) (pr_long_window s) th s)"

subsection \<open>Tick intensity\<close>

record 'd tick_intensity =
  ti_alpha :: 'd
  ti_window_ns :: u64
  ti_baseline_rate :: 'd
  ti_baseline_variance :: 'd
  ti_baseline_initialized :: bool
  ti_current_rate :: 'd
  ti_spike_magnitude :: 'd
  ti_window_count :: nat
  ti_last_processed :: nat
  ti_ticks_in_window :: nat
  ti_window_start_ns :: u64
  ti_window_started :: bool

definition tick_intensity_new :: "'d fp \<Rightarrow> 'd \<Rightarrow> u64 \<Rightarrow> 'd tick_intensity" where
  "tick_intensity_new fp alpha w = \<lparr>ti_alpha = alpha, ti_window_ns = w, ti_baseline_rate = fp_zero fp,
     ti_baseline_variance = fp_zero fp, ti_baseline_initialized = False, ti_current_rate = fp_zero fp,
     ti_spike_magnitude = fp_zero fp, ti_window_count = 0, ti_last_processed = 0, ti_ticks_in_window = 0,
     ti_window_start_ns = 0, ti_window_started = False\<rparr>"

definition flush_window :: "'d fp \<Rightarrow> 'd tick_intensity \<Rightarrow> 'd tick_intensity" where
  "flush_window fp s =
     (let rate = fp_of_nat fp (ti_ticks_in_window s); s = s\<lparr>ti_window_count := ti_window_count s + 1\<rparr> in
      if \<not> ti_baseline_initialized s
      then s\<lparr>ti_baseline_rate := rate, ti_baseline_variance := fp_zero fp, ti_baseline_initialized := True\<rparr>
      else
        let diff = fp_sub fp rate (ti_baseline_rate s); alpha = ti_alpha s
        in s\<lparr>ti_baseline_rate := fp_add fp (ti_baseline_rate s) (fp_mul fp alpha diff),
             ti_baseline_variance := fp_add fp (fp_mul fp (fp_sub fp (fp_of_nat fp 1) alpha) (ti_baseline_variance s))
               (fp_mul fp (fp_mul fp alpha diff) diff)\<rparr>)"

definition next_window :: "'d fp \<Rightarrow> 'd tick_intensity \<Rightarrow> 'd tick_intensity" where
  "next_window fp s = (flush_window fp s)\<lparr>ti_window_start_ns := ti_window_start_ns s + ti_window_ns s, ti_ticks_in_window := 0\<rparr>"

text \<open>The loop that closes windows up to the time of a trade; it does not return when it runs forever.\<close>

partial_function (option) close_windows :: "'d fp \<Rightarrow> u64 \<Rightarrow> 'd tick_intensity \<Rightarrow> 'd tick_intensity option" where
  "close_windows fp ts s =
     (if ti_window_started s \<and> ti_window_start_ns s + ti_window_ns s \<le> ts then close_windows fp ts (next_window fp s) else Some s)"

definition count_tick :: "'d fp \<Rightarrow> u64 \<Rightarrow> 'd tick_intensity \<Rightarrow> 'd tick_intensity option" where
  "count_tick fp ts s =
     (let s = (if \<not> ti_window_started s then s\<lparr>ti_window_start_ns := ts, ti_window_started := True, ti_ticks_in_window := 0\<rparr> else s)
      in map_option (\<lambda>s. s\<lparr>ti_ticks_in_window := ti_ticks_in_window s + 1\<rparr>) (close_windows fp ts s))"

fun count_ticks :: "'d fp \<Rightarrow> trade_record list \<Rightarrow> 'd tick_intensity \<Rightarrow> 'd tick_intensity option" where
  "count_ticks fp [] s = Some s"
| "count_ticks fp (t # ts) s = (case count_tick fp (tr_timestamp t) s of None \<Rightarrow> None | Some s \<Rightarrow> count_ticks fp ts s)"

definition intensity_ratio :: "'d sim_math \<Rightarrow> 'd tick_intensity \<Rightarrow> 'd \<times> 'd tick_intensity" where
  "intensity_ratio mt s =
     (let fp = sm_fp mt; zero = fp_zero fp; s = s\<lparr>ti_current_rate := fp_of_nat fp (ti_ticks_in_window s)\<rparr> in
      if \<not> ti_baseline_initialized s \<or> fp_le fp (ti_baseline_rate s) zero
      then (fp_of_nat fp 1, s\<lparr>ti_spike_magnitude := zero\<rparr>)
      else
        let stddev = sm_sqrt mt (ti_baseline_variance s)
        in (fp_div fp (ti_current_rate s) (ti_baseline_rate s),
            s\<lparr>ti_spike_magnitude := (if fp_less fp zero stddev
                then fp_div fp (fp_sub fp (ti_current_rate s) (ti_baseline_rate s)) stddev else zero)\<rparr>))"

definition intensity_compute :: "'d sim_math \<Rightarrow> trade_history \<Rightarrow> 'd tick_intensity \<Rightarrow> ('d \<times> 'd tick_intensity) option" where
  "intensity_compute mt th s = map_option (\<lambda>s. intensity_ratio mt (s\<lparr>ti_last_processed := length (th_trades th)\<rparr>))
     (count_ticks (sm_fp mt) (new_trades (ti_last_processed s) th) s)"

subsection \<open>Volatility\<close>

record 'd ohlc_bar =
  oh_open :: 'd
  oh_high :: 'd
  oh_low :: 'd
  oh_close :: 'd

record 'd volatility_estimator =
  ve_window_size :: nat
  ve_annualization_factor :: 'd
  ve_last_processed :: nat
  ve_bars :: "'d ohlc_bar list"
  ve_parkinson_vol :: 'd
  ve_yang_zhang_vol :: 'd
  ve_bar_started :: bool
  ve_cur :: "'d ohlc_bar"

definition zero_bar :: "'d fp \<Rightarrow> 'd ohlc_bar" where
  "zero_bar fp = \<lparr>oh_open = fp_zero fp, oh_high = fp_zero fp, oh_low = fp_zero fp, oh_close = fp_zero fp\<rparr>"

definition volatility_estimator_new :: "'d fp \<Rightarrow> nat \<Rightarrow> 'd \<Rightarrow> 'd volatility_estimator" where
  "volatility_estimator_new fp n ann = \<lparr>ve_window_size = n, ve_annualization_factor = ann, ve_last_processed = 0, ve_bars = [],
     ve_parkinson_vol = fp_zero fp, ve_yang_zhang_vol = fp_zero fp, ve_bar_started = False, ve_cur = zero_bar fp\<rparr>"

definition bar_tick :: "'d fp \<Rightarrow> 'd \<Rightarrow> 'd volatility_estimator \<Rightarrow> 'd volatility_estimator" where
  "bar_tick fp px s =
     (if \<not> ve_bar_started s
      then s\<lparr>ve_cur := \<lparr>oh_open = px, oh_high = px, oh_low = px, oh_close = px\<rparr>, ve_bar_started := True\<rparr>
      else let b = ve_cur s
           in s\<lparr>ve_cur := b\<lparr>oh_high := (if fp_less fp (oh_high b) px then px else oh_high b),
                oh_low := (if fp_less fp px (oh_low b) then px else oh_low b), oh_close := px\<rparr>\<rparr>)"

definition flush_bar :: "'d fp \<Rightarrow> 'd volatility_estimator \<Rightarrow> 'd volatility_estimator" where
  "flush_bar fp s =
     (let bars = (if ve_window_size s \<le> length (ve_bars s) then tl (ve_bars s) else ve_bars s)
      in s\<lparr>ve_bars := bars @ [ve_cur s], ve_bar_started := False, ve_cur := zero_bar fp\<rparr>)"

definition parkinson :: "'d sim_math \<Rightarrow> 'd \<Rightarrow> 'd ohlc_bar list \<Rightarrow> 'd" where
  "parkinson mt ann bars =
     (let fp = sm_fp mt; log = sm_log mt;
          sum_hl_sq = foldl (\<lambda>acc b. let hl = log (fp_div fp (oh_high b) (oh_low b)) in fp_add fp acc (fp_mul fp hl hl))
            (fp_zero fp) bars;
          ln2 = log (fp_of_nat fp 2)
      in sm_sqrt mt (fp_mul fp (fp_div fp ann (fp_mul fp (fp_mul fp (fp_of_nat fp 4) (fp_of_nat fp (length bars))) ln2)) sum_hl_sq))"

text \<open>The log returns from the close of each bar to a price of the next, and their sample variance.\<close>

definition log_returns :: "'d sim_math \<Rightarrow> ('d ohlc_bar \<Rightarrow> 'd) \<Rightarrow> 'd ohlc_bar list \<Rightarrow> 'd list" where
  "log_returns mt px bars =
     map (\<lambda>i. sm_log mt (fp_div (sm_fp mt) (px (bars ! i)) (oh_close (bars ! (i - 1))))) [1..<length bars]"

definition sample_variance :: "'d fp \<Rightarrow> 'd list \<Rightarrow> 'd" where
  "sample_variance fp rs =
     (let m = length rs; mean = fp_div fp (foldl (fp_add fp) (fp_zero fp) rs) (fp_of_nat fp m)
      in fp_div fp (foldl (\<lambda>acc r. let d = fp_sub fp r mean in fp_add fp acc (fp_mul fp d d)) (fp_zero fp) rs) (fp_of_nat fp (m - 1)))"

definition rogers_satchell :: "'d sim_math \<Rightarrow> 'd ohlc_bar list \<Rightarrow> 'd" where
  "rogers_satchell mt bars =
     (let fp = sm_fp mt; log = sm_log mt
      in fp_div fp (foldl (\<lambda>acc b.
           let lnhc = log (fp_div fp (oh_high b) (oh_close b)); lnho = log (fp_div fp (oh_high b) (oh_open b));
               lnlc = log (fp_div fp (oh_low b) (oh_close b)); lnlo = log (fp_div fp (oh_low b) (oh_open b))
           in fp_add fp acc (fp_add fp (fp_mul fp lnhc lnho) (fp_mul fp lnlc lnlo))) (fp_zero fp) (tl bars))
         (fp_of_nat fp (length bars - 1)))"

definition yang_zhang :: "'d sim_math \<Rightarrow> 'd \<Rightarrow> 'd ohlc_bar list \<Rightarrow> 'd" where
  "yang_zhang mt ann bars =
     (let fp = sm_fp mt; m = length bars - 1;
          var_o = sample_variance fp (log_returns mt oh_open bars);
          var_c = sample_variance fp (log_returns mt oh_close bars);
          var_rs = rogers_satchell mt bars;
          k = fp_div fp (fp_ratio fp 34 100)
            (fp_add fp (fp_ratio fp 134 100) (fp_div fp (fp_of_nat fp (m + 1)) (fp_of_nat fp (m - 1))));
          var_yz = fp_add fp (fp_add fp var_o (fp_mul fp k var_c)) (fp_mul fp (fp_sub fp (fp_of_nat fp 1) k) var_rs);
          var_yz = (if fp_less fp var_yz (fp_zero fp) then fp_zero fp else var_yz)
      in sm_sqrt mt (fp_mul fp ann var_yz))"

definition recompute :: "'d sim_math \<Rightarrow> 'd volatility_estimator \<Rightarrow> 'd volatility_estimator" where
  "recompute mt s =
     (let bars = ve_bars s; n = length bars; zero = fp_zero (sm_fp mt); ann = ve_annualization_factor s
      in s\<lparr>ve_parkinson_vol := (if n < 2 then zero else parkinson mt ann bars),
           ve_yang_zhang_vol := (if n < 3 then zero else yang_zhang mt ann bars)\<rparr>)"

definition volatility_compute :: "'d sim_math \<Rightarrow> trade_history \<Rightarrow> 'd volatility_estimator \<Rightarrow> 'd \<times> 'd volatility_estimator" where
  "volatility_compute mt th s =
     (let fp = sm_fp mt;
          s = fold (\<lambda>t. bar_tick fp (price_to_double fp (tr_price t))) (new_trades (ve_last_processed s) th) s;
          s = s\<lparr>ve_last_processed := length (th_trades th)\<rparr>;
          s = recompute mt (if ve_bar_started s then flush_bar fp s else s)
      in (ve_parkinson_vol s, s))"

section \<open>The bounded history\<close>

lemma th_add_all:
  "th_max_size (fold th_add ts th) = th_max_size th"
  "0 < th_max_size th \<Longrightarrow> length (th_trades th) \<le> th_max_size th
    \<Longrightarrow> length (th_trades (fold th_add ts th)) = min (th_max_size th) (length (th_trades th) + length ts)"
  by (induction ts arbitrary: th) (auto simp: th_add_def)

lemma th_add_room:
  "length (th_trades th) + length ts \<le> th_max_size th \<Longrightarrow> th_trades (fold th_add ts th) = th_trades th @ ts"
  by (induction ts arbitrary: th) (auto simp: th_add_def)

lemma no_new_trades: "length (th_trades th) \<le> n \<Longrightarrow> new_trades n th = []"
  by (simp add: new_trades_def)

lemma dropWhile_idem_last: "xs \<noteq> [] \<Longrightarrow> \<not> P (last xs) \<Longrightarrow> dropWhile P xs \<noteq> [] \<and> last (dropWhile P xs) = last xs"
  by (metis append_is_Nil_conv dropWhile_eq_Nil_conv last_appendR last_in_set takeWhile_dropWhile_id)

lemma ofi_recompute:
  assumes "new_trades (length (th_trades th)) th' = []"
  shows "fst (ofi_compute fp th' (snd (ofi_compute fp th s))) = fst (ofi_compute fp th s)"
proof -
  define xs where "xs = of_samples s @ map (\<lambda>t. \<lparr>vs_quantity = fp_of_nat fp (unat (tr_quantity t)),
      vs_side = tr_aggressor_side t, vs_timestamp = tr_timestamp t\<rparr>) (new_trades (of_last_processed s) th)"
  define now where "now = vs_timestamp (last xs)"
  define P where "P x \<longleftrightarrow> vs_timestamp x < (if of_window_ns s < now then now - of_window_ns s else 0)" for x :: "'a volume_sample"
  have "\<not> P (last xs)"
    by (simp add: P_def now_def [symmetric] word_sub_le linorder_not_less)
  then have keep: "xs \<noteq> [] \<Longrightarrow> dropWhile P xs \<noteq> [] \<and> last (dropWhile P xs) = last xs"
    using dropWhile_idem_last [of xs P] by blast
  have evict: "ofi_evict_old now s' = s'\<lparr>of_samples := dropWhile P (of_samples s')\<rparr>" if "of_window_ns s' = of_window_ns s" for s'
    using that by (simp add: ofi_evict_old_def P_def [abs_def] Let_def)
  have idem: "dropWhile P (dropWhile P xs) = dropWhile P xs"
    by (rule dropWhile_idem)
  have first: "ofi_compute fp th s = (if xs = [] then (fp_zero fp, s\<lparr>of_samples := [], of_last_processed := length (th_trades th)\<rparr>)
      else (fst (ofi_compute fp th s), s\<lparr>of_samples := dropWhile P xs, of_last_processed := length (th_trades th)\<rparr>))"
    by (simp add: ofi_compute_def evict xs_def [symmetric] now_def [symmetric] Let_def)
  show ?thesis
  proof (cases "xs = []")
    case True
    then show ?thesis
      using first assms by (simp add: ofi_compute_def Let_def)
  next
    case False
    have s2: "snd (ofi_compute fp th s) = s\<lparr>of_samples := dropWhile P xs, of_last_processed := length (th_trades th)\<rparr>"
      using first False by (metis snd_conv)
    have one: "fst (ofi_compute fp th s) = (let b = ofi_volume fp True (dropWhile P xs); v = ofi_volume fp False (dropWhile P xs);
        total = fp_add fp b v in if fp_eq fp total (fp_zero fp) then fp_zero fp else fp_div fp (fp_sub fp b v) total)"
      using False by (simp add: ofi_compute_def evict xs_def [symmetric] now_def [symmetric] Let_def)
    show ?thesis
      unfolding one s2 using keep [OF False] assms idem
      by (auto simp: ofi_compute_def now_def [symmetric] evict Let_def)
  qed
qed

text \<open>
  A full history stops the features. Once the trade history of a symbol has reached its maximal size and a feature
  has been computed on it, the features of trades never see a trade again: whatever is traded afterwards, the
  volume weighted price, the order flow imbalance, the trade flow, the momentum and the mean reversion are computed from
  what they had before.
\<close>

theorem full_history_freezes_features:
  fixes ts ts' :: "trade_record list" and n :: nat
  defines "th \<equiv> fold th_add ts (trade_history_new (Suc n))"
  defines "th' \<equiv> fold th_add ts' th"
  assumes "Suc n \<le> length ts"
  shows "fst (vwap_compute fp th' (snd (vwap_compute fp th v))) = fst (vwap_compute fp th v)
    \<and> fst (ofi_compute fp th' (snd (ofi_compute fp th f))) = fst (ofi_compute fp th f)
    \<and> fst (trade_flow_compute fp b' th' (snd (trade_flow_compute fp b th g))) = fst (trade_flow_compute fp b th g)
    \<and> fst (momentum_compute mt th' (snd (momentum_compute mt th m))) = fst (momentum_compute mt th m)
    \<and> fst (reversion_compute mt th' (snd (reversion_compute mt th m))) = fst (reversion_compute mt th m)"
proof -
  have len: "length (th_trades th) = Suc n" "th_max_size th = Suc n"
    using assms(3) th_add_all [where th = "trade_history_new (Suc n)"] by (simp_all add: th_def trade_history_new_def)
  then have "length (th_trades th') = Suc n"
    using th_add_all(2) [of th ts'] by (simp add: th'_def)
  then have none: "new_trades (length (th_trades th)) th' = []"
    using len by (simp add: no_new_trades)
  have trim: "length (drop (length ps - k) ps) - k = 0" for ps :: "'z list" and k
    by simp
  have price: "price_ingest fp' k th' (snd (price_zscores z (price_ingest fp' k th m))) =
      (snd (price_zscores z (price_ingest fp' k th m)))\<lparr>pr_last_processed := length (th_trades th')\<rparr>"
    for fp' z k and m :: "'m price_feature"
    using none by (simp add: price_ingest_def price_zscores_def Let_def)
  show ?thesis
    using none
    by (auto simp: vwap_compute_def trade_flow_compute_def momentum_compute_def reversion_compute_def ofi_recompute Let_def
        price price_zscores_def price_ingest_def)
qed

definition sample_trade :: "price \<Rightarrow> quantity \<Rightarrow> trade_record" where
  "sample_trade p q = \<lparr>tr_symbol = symbol_default, tr_price = p, tr_quantity = q, tr_aggressor_side = Side_Buy, tr_timestamp = 1\<rparr>"

theorem full_history_freezes_features_witness:
  "fst (vwap_compute exact_fp (fold th_add [sample_trade 20000 1] (fold th_add [sample_trade 10000 1] (trade_history_new 1)))
     (snd (vwap_compute exact_fp (fold th_add [sample_trade 10000 1] (trade_history_new 1)) (vwap_new exact_fp)))) = 1"
proof -
  have "fst (vwap_compute exact_fp (fold th_add [sample_trade 10000 1] (trade_history_new 1)) (vwap_new exact_fp)) = 1"
    by (simp add: vwap_compute_def vwap_add_def vwap_new_def new_trades_def th_add_def trade_history_new_def sample_trade_def
        price_to_double_def)
  then show ?thesis
    using full_history_freezes_features [of 0 "[sample_trade 10000 1]" exact_fp "[sample_trade 20000 1]" "vwap_new exact_fp",
        THEN conjunct1] by simp
qed

text \<open>
  One feature object serves every symbol, but it counts the trades it has seen in one number: computed for a symbol
  and then for another with a history that is not longer, it reports the value of the first.
\<close>

lemma vwap_shared_between_symbols:
  "length (th_trades th') \<le> length (th_trades th)
    \<Longrightarrow> fst (vwap_compute fp th' (snd (vwap_compute fp th s))) = fst (vwap_compute fp th s)"
  by (simp add: vwap_compute_def no_new_trades Let_def)

section \<open>The volume weighted price\<close>

text \<open>A session: batches of trades are added to the history, and the feature is computed after each.\<close>

definition vwap_batch :: "'d fp \<Rightarrow> trade_record list \<Rightarrow> trade_history \<times> 'd vwap \<Rightarrow> trade_history \<times> 'd vwap" where
  "vwap_batch fp ts x = (let th = fold th_add ts (fst x) in (th, snd (vwap_compute fp th (snd x))))"

definition turnover :: "trade_record list \<Rightarrow> real" where
  "turnover ts = (\<Sum>t\<leftarrow>ts. price_to_double exact_fp (tr_price t) * real (unat (tr_quantity t)))"

definition traded_volume :: "trade_record list \<Rightarrow> real" where
  "traded_volume ts = (\<Sum>t\<leftarrow>ts. real (unat (tr_quantity t)))"

lemma vwap_adds:
  "vf_cum_price_qty (fold (vwap_add exact_fp) ts s) = vf_cum_price_qty s + turnover ts
   \<and> vf_cum_qty (fold (vwap_add exact_fp) ts s) = vf_cum_qty s + traded_volume ts"
  by (induction ts arbitrary: s) (simp_all add: vwap_add_def turnover_def traded_volume_def Let_def)

lemma turnover_volume_append [simp]:
  "turnover [] = 0" "traded_volume [] = 0" "turnover (xs @ ys) = turnover xs + turnover ys" "traded_volume (xs @ ys) = traded_volume xs + traded_volume ys"
  by (simp_all add: turnover_def traded_volume_def)

definition vwap_inv :: "nat \<Rightarrow> trade_record list \<Rightarrow> trade_history \<times> real vwap \<Rightarrow> bool" where
  "vwap_inv n ts x \<longleftrightarrow> th_max_size (fst x) = n \<and> th_trades (fst x) = ts \<and> vf_last_processed (snd x) = length ts
     \<and> vf_cum_price_qty (snd x) = turnover ts \<and> vf_cum_qty (snd x) = traded_volume ts"

lemma vwap_batch_inv:
  assumes "vwap_inv n ts x" "length ts + length b \<le> n"
  shows "vwap_inv n (ts @ b) (vwap_batch exact_fp b x)"
proof -
  have "th_trades (fold th_add b (fst x)) = ts @ b"
    using assms by (subst th_add_room) (auto simp: vwap_inv_def)
  then show ?thesis
    using assms by (simp add: vwap_inv_def vwap_batch_def vwap_compute_def th_add_all(1) new_trades_def vwap_adds Let_def)
qed

text \<open>
  The volume weighted price is exact as long as the history is not full: in a session of at most as many trades as
  the history holds, cut into batches in any way, the value after the last batch is the turnover of all
  trades divided by their volume, and 0 without volume (without rounding).
\<close>

theorem vwap_exact:
  assumes "length (concat bs) + length ts \<le> n"
  shows "let (th, s) = fold (vwap_batch exact_fp) bs (trade_history_new n, vwap_new exact_fp); all = concat bs @ ts
    in fst (vwap_compute exact_fp (fold th_add ts th) s) = (if traded_volume all = 0 then 0 else turnover all / traded_volume all)"
proof -
  define x where "x = fold (vwap_batch exact_fp) bs (trade_history_new n, vwap_new exact_fp)"
  have "length (concat cs) \<le> n \<Longrightarrow> vwap_inv n (concat cs) (fold (vwap_batch exact_fp) cs (trade_history_new n, vwap_new exact_fp))" for cs
  proof (induction cs rule: rev_induct)
    case (snoc b cs)
    then show ?case
      by (simp add: vwap_batch_inv)
  qed (simp add: vwap_inv_def trade_history_new_def vwap_new_def turnover_def traded_volume_def)
  then have inv: "vwap_inv n (concat bs) x"
    using assms by (simp add: x_def)
  then have th: "th_trades (fold th_add ts (fst x)) = concat bs @ ts"
    using assms by (subst th_add_room) (auto simp: vwap_inv_def)
  show ?thesis
    unfolding x_def [symmetric] using inv th
    by (simp add: split_beta vwap_compute_def new_trades_def vwap_adds vwap_inv_def Let_def)
qed

theorem vwap_exact_witness:
  "fst (vwap_compute exact_fp (fold th_add [sample_trade 10000 1, sample_trade 20000 3] (trade_history_new 2)) (vwap_new exact_fp)) = 7 / 4"
  using vwap_exact [of "[]" "[sample_trade 10000 1, sample_trade 20000 3]" 2]
  by (simp add: turnover_def traded_volume_def sample_trade_def price_to_double_def)

section \<open>Bounds\<close>

definition flow_ok :: "nat \<Rightarrow> trade_flow \<Rightarrow> bool" where
  "flow_ok n s \<longleftrightarrow> tf_window_size s = Suc n \<and> length (tf_samples s) \<le> Suc n
     \<and> tf_buy_count s = length (filter id (tf_samples s)) \<and> tf_sell_count s = length (filter Not (tf_samples s))"

lemma add_sample_ok:
  assumes "flow_ok n s"
  shows "flow_ok n (add_sample sd s)"
proof (cases "tf_samples s")
  case Nil
  then show ?thesis
    using assms by (simp add: flow_ok_def add_sample_def Let_def)
next
  case (Cons a xs)
  then show ?thesis
    using assms by (auto simp: flow_ok_def add_sample_def Let_def)
qed

lemma flow_ok_fold: "flow_ok n s \<Longrightarrow> flow_ok n (fold (\<lambda>t. add_sample (f t)) ts s)"
  by (induction ts arbitrary: s) (simp_all add: add_sample_ok)

lemma flow_counts: "flow_ok n s \<Longrightarrow> real (tf_buy_count s) + real (tf_sell_count s) = real (length (tf_samples s))"
  using sum_length_filter_compl [of id "tf_samples s"] by (simp add: flow_ok_def id_def flip: of_nat_add)

lemma ratio_bound: "0 \<le> b \<Longrightarrow> 0 \<le> c \<Longrightarrow> b + c \<noteq> 0 \<Longrightarrow> \<bar>(b - c) / (b + c)\<bar> \<le> 1" for b c :: real
  by (simp add: abs_le_iff divide_le_eq minus_divide_left)

lemma ofi_volume_nonneg: "list_all (\<lambda>x. 0 \<le> vs_quantity x) xs \<Longrightarrow> 0 \<le> ofi_volume exact_fp buy xs"
proof -
  have "0 \<le> a \<Longrightarrow> list_all (\<lambda>x. 0 \<le> vs_quantity x) xs
      \<Longrightarrow> 0 \<le> foldl (\<lambda>acc x. if (vs_side x = Side_Buy) = buy then acc + vs_quantity x else acc) a xs" for a :: real
    by (induction xs arbitrary: a) auto
  then show "list_all (\<lambda>x. 0 \<le> vs_quantity x) xs \<Longrightarrow> 0 \<le> ofi_volume exact_fp buy xs"
    by (simp add: ofi_volume_def cong: if_cong)
qed

definition ofi_run :: "'d fp \<Rightarrow> trade_history list \<Rightarrow> u64 \<Rightarrow> 'd ofi" where
  "ofi_run fp ths w = fold (\<lambda>th s. snd (ofi_compute fp th s)) ths (ofi_new w)"

definition flow_run :: "'d fp \<Rightarrow> (order_book \<times> trade_history) list \<Rightarrow> nat \<Rightarrow> trade_flow" where
  "flow_run fp xs n = fold (\<lambda>x s. snd (trade_flow_compute fp (fst x) (snd x) s)) xs (trade_flow_new n)"

lemma ofi_samples_ok:
  assumes "list_all (\<lambda>x. 0 \<le> vs_quantity x) (of_samples s)"
  shows "list_all (\<lambda>x. 0 \<le> vs_quantity x) (of_samples (snd (ofi_compute exact_fp th s)))"
    "\<bar>fst (ofi_compute exact_fp th s)\<bar> \<le> 1"
proof -
  have drop: "list_all P xs \<Longrightarrow> list_all P (dropWhile Q xs)" for P Q and xs :: "'x list"
    by (meson list.pred_set set_dropWhileD)
  define s' where "s' = s\<lparr>of_samples := of_samples s @ map (\<lambda>t. \<lparr>vs_quantity = real (unat (tr_quantity t)),
      vs_side = tr_aggressor_side t, vs_timestamp = tr_timestamp t\<rparr>) (new_trades (of_last_processed s) th),
      of_last_processed := length (th_trades th)\<rparr>"
  have s': "list_all (\<lambda>x. 0 \<le> vs_quantity x) (of_samples s')"
    using assms by (auto simp: s'_def list_all_iff simp del: of_nat_unat)
  have evict: "list_all (\<lambda>x. 0 \<le> vs_quantity x) (of_samples (ofi_evict_old now s'))" for now
    using s' by (simp add: ofi_evict_old_def Let_def drop)
  have bound: "\<bar>(b - c) / (b + c)\<bar> \<le> 1" if "0 \<le> b" "0 \<le> c" for b c :: real
    using ratio_bound [OF that] by (cases "b + c = 0") auto
  show "list_all (\<lambda>x. 0 \<le> vs_quantity x) (of_samples (snd (ofi_compute exact_fp th s)))"
    using s' evict by (simp add: ofi_compute_def s'_def [symmetric] Let_def del: of_nat_unat)
  show "\<bar>fst (ofi_compute exact_fp th s)\<bar> \<le> 1"
    using bound [OF ofi_volume_nonneg ofi_volume_nonneg, OF evict evict, of True "vs_timestamp (last (of_samples s'))" False]
    by (simp add: ofi_compute_def s'_def [symmetric] Let_def del: abs_divide of_nat_unat)
qed

lemma flow_compute_ok:
  assumes "flow_ok n s"
  shows "flow_ok n (snd (trade_flow_compute fp b th s))" "\<bar>fst (trade_flow_compute exact_fp b th s)\<bar> \<le> 1"
proof -
  show ok: "flow_ok n (snd (trade_flow_compute fp b th s))" for fp :: "'d fp"
    using flow_ok_fold [OF assms] by (simp add: trade_flow_compute_def Let_def flow_ok_def)
  let ?s = "snd (trade_flow_compute exact_fp b th s)"
  have "fst (trade_flow_compute exact_fp b th s) = (if tf_samples ?s = [] then 0
      else (real (tf_buy_count ?s) - real (tf_sell_count ?s)) / (real (tf_buy_count ?s) + real (tf_sell_count ?s)))"
    using flow_counts [OF ok [of exact_fp]] by (simp add: trade_flow_compute_def Let_def)
  then show "\<bar>fst (trade_flow_compute exact_fp b th s)\<bar> \<le> 1"
    using ratio_bound [of "real (tf_buy_count ?s)" "real (tf_sell_count ?s)"] flow_counts [OF ok [of exact_fp]]
    by (auto simp del: abs_divide)
qed

text \<open>
  The two flow features are ratios. After any sequence of histories, and for the trade flow of books, the order
  flow imbalance and the trade flow are between -1 and 1, and the two counters of the trade flow are the numbers of
  buy and sell aggressors in its window, which is never longer than its size (without rounding).
\<close>

theorem flow_features_bounded:
  "\<bar>fst (ofi_compute exact_fp th (ofi_run exact_fp ths w))\<bar> \<le> 1
   \<and> \<bar>fst (trade_flow_compute exact_fp b th (flow_run exact_fp xs (Suc n)))\<bar> \<le> 1
   \<and> tf_buy_count (flow_run exact_fp xs (Suc n)) = length (filter id (tf_samples (flow_run exact_fp xs (Suc n))))
   \<and> tf_sell_count (flow_run exact_fp xs (Suc n)) = length (filter Not (tf_samples (flow_run exact_fp xs (Suc n))))
   \<and> length (tf_samples (flow_run exact_fp xs (Suc n))) \<le> Suc n"
proof -
  have "list_all (\<lambda>x. 0 \<le> vs_quantity x) (of_samples (ofi_run exact_fp ths w))"
    unfolding ofi_run_def by (rule fold_invariant [where Q = "\<lambda>_. True"]) (simp_all add: ofi_samples_ok ofi_new_def)
  moreover have "flow_ok n (flow_run exact_fp xs (Suc n))"
    unfolding flow_run_def
    by (rule fold_invariant [where Q = "\<lambda>_. True"]) (simp_all add: flow_compute_ok, simp add: flow_ok_def trade_flow_new_def)
  ultimately show ?thesis
    using ofi_samples_ok flow_compute_ok by (auto simp: flow_ok_def)
qed

section \<open>The loop of the tick intensity\<close>

lemma next_window_simps [simp]:
  "ti_window_start_ns (next_window fp s) = ti_window_start_ns s + ti_window_ns s" "ti_window_ns (next_window fp s) = ti_window_ns s"
  "ti_window_started (next_window fp s) = ti_window_started s" "ti_ticks_in_window (next_window fp s) = 0"
  "ti_window_count (next_window fp s) = Suc (ti_window_count s)"
  by (simp_all add: next_window_def flush_window_def Let_def)

lemma unat_plus_less:
  fixes a b :: u64
  shows "unat a + unat b < 2 ^ 64 \<Longrightarrow> unat (a + b) = unat a + unat b"
  by (simp add: unat_word_ariths)

lemma close_windows_returns:
  assumes "ti_window_started s" "ti_window_ns s = w" "w \<noteq> 0" "unat ts + unat w < 2 ^ 64" "ti_window_start_ns s \<le> ts"
  shows "\<exists>s'. close_windows fp ts s = Some s' \<and> ti_window_started s' \<and> ti_window_ns s' = w \<and> ti_window_start_ns s' \<le> ts
    \<and> ts < ti_window_start_ns s' + w
    \<and> ti_window_count s' = ti_window_count s + (unat ts - unat (ti_window_start_ns s)) div unat w"
  using assms
proof (induction "unat ts - unat (ti_window_start_ns s)" arbitrary: s rule: less_induct)
  case less
  let ?a = "unat (ti_window_start_ns s)"
  have a: "?a \<le> unat ts" "0 < unat w"
    using less.prems by (simp_all add: word_le_nat_alt unat_gt_0)
  have sum: "unat (ti_window_start_ns s + w) = ?a + unat w"
    using less.prems a by (intro unat_plus_less) simp
  show ?case
  proof (cases "ti_window_start_ns s + w \<le> ts")
    case True
    then have le: "?a + unat w \<le> unat ts"
      using sum by (simp add: word_le_nat_alt)
    have "(unat ts - ?a) div unat w = Suc ((unat ts - (?a + unat w)) div unat w)"
      using le a(2) by (simp add: le_div_geq diff_diff_left)
    moreover have "close_windows fp ts s = close_windows fp ts (next_window fp s)"
      using True less.prems by (subst close_windows.simps) simp
    ultimately show ?thesis
      using less.hyps [of "next_window fp s"] less.prems True sum le a(2) by simp
  next
    case False
    then have "unat ts - ?a < unat w"
      using sum a(2) by (auto simp: word_le_nat_alt)
    then have "(unat ts - ?a) div unat w = 0"
      by simp
    moreover have "close_windows fp ts s = Some s"
      using False less.prems by (subst close_windows.simps) simp
    ultimately show ?thesis
      using less.prems False by simp
  qed
qed

text \<open>
  A window of no length is never closed: the loop adds zero to the start of the window for ever.
\<close>

lemma close_windows_result:
  assumes "close_windows fp ts s = Some r"
  shows "\<not> (ti_window_started s \<and> ti_window_ns s = 0 \<and> ti_window_start_ns s \<le> ts)"
proof (rule close_windows.raw_induct [OF _ assms,
      where P = "\<lambda>fp ts s r. \<not> (ti_window_started s \<and> ti_window_ns s = 0 \<and> ti_window_start_ns s \<le> ts)"])
  fix f fp ts s r
  assume step: "\<And>fp ts s r. f fp ts s = Some r \<Longrightarrow> \<not> (ti_window_started s \<and> ti_window_ns s = 0 \<and> ti_window_start_ns s \<le> ts)"
    and "(if ti_window_started s \<and> ti_window_start_ns s + ti_window_ns s \<le> ts then f fp ts (next_window fp s) else Some s) = Some r"
  then show "\<not> (ti_window_started s \<and> ti_window_ns s = 0 \<and> ti_window_start_ns s \<le> ts)"
    using step [of fp ts "next_window fp s" r] by (auto split: if_splits)
qed

lemma close_windows_hangs:
  assumes "ti_window_started s" "ti_window_ns s = 0" "ti_window_start_ns s \<le> ts"
  shows "close_windows fp ts s = None"
  using assms close_windows_result [of fp ts s] by (cases "close_windows fp ts s") auto

text \<open>
  The tick intensity answers, for a window of positive length: in a history whose times do not decrease and do not
  reach the end of the 64 bit clock the loop that closes windows ends for every trade, and after it the
  last trade lies in the current window. With a window of length zero the first trade makes it run for ever.
\<close>

theorem intensity_answers:
  assumes "sorted (map tr_timestamp ts)" and "w \<noteq> 0" and "list_all (\<lambda>t. unat (tr_timestamp t) + unat w < 2 ^ 64) ts"
  shows "(\<exists>s. count_ticks fp ts (tick_intensity_new fp alpha w) = Some s
      \<and> (ts = [] \<or> ti_window_start_ns s \<le> tr_timestamp (last ts) \<and> tr_timestamp (last ts) < ti_window_start_ns s + w))
    \<and> count_ticks fp (t # ts) (tick_intensity_new fp alpha 0) = None"
proof -
  have run: "\<exists>s'. count_ticks fp ts s = Some s'
      \<and> (ts = [] \<or> ti_window_start_ns s' \<le> tr_timestamp (last ts) \<and> tr_timestamp (last ts) < ti_window_start_ns s' + w)"
    if "sorted (map tr_timestamp ts)" "list_all (\<lambda>t. unat (tr_timestamp t) + unat w < 2 ^ 64) ts" "ti_window_ns s = w"
      "ti_window_started s \<longrightarrow> list_all (\<lambda>t. ti_window_start_ns s \<le> tr_timestamp t) ts" for s
    using that
  proof (induction ts arbitrary: s)
    case (Cons t ts)
    define s0 where "s0 = (if \<not> ti_window_started s
      then s\<lparr>ti_window_start_ns := tr_timestamp t, ti_window_started := True, ti_ticks_in_window := 0\<rparr> else s)"
    have "\<exists>s1. close_windows fp (tr_timestamp t) s0 = Some s1 \<and> ti_window_started s1 \<and> ti_window_ns s1 = w
        \<and> ti_window_start_ns s1 \<le> tr_timestamp t \<and> tr_timestamp t < ti_window_start_ns s1 + w
        \<and> ti_window_count s1 = ti_window_count s0 + (unat (tr_timestamp t) - unat (ti_window_start_ns s0)) div unat w"
      using Cons.prems assms(2) by (intro close_windows_returns) (auto simp: s0_def)
    then obtain s1 where s1: "close_windows fp (tr_timestamp t) s0 = Some s1" "ti_window_started s1" "ti_window_ns s1 = w"
      "ti_window_start_ns s1 \<le> tr_timestamp t" "tr_timestamp t < ti_window_start_ns s1 + w"
      by blast
    have "list_all (\<lambda>u. ti_window_start_ns s1 \<le> tr_timestamp u) ts"
      using Cons.prems(1) s1(4) by (auto simp: list_all_iff intro: order_trans)
    then show ?case
      using Cons.IH [of "s1\<lparr>ti_ticks_in_window := ti_ticks_in_window s1 + 1\<rparr>"] Cons.prems s1
      by (auto simp: count_tick_def s0_def [symmetric] Let_def)
  qed simp
  have "close_windows fp (tr_timestamp t) ((tick_intensity_new fp alpha 0)\<lparr>ti_window_start_ns := tr_timestamp t,
      ti_window_started := True, ti_ticks_in_window := 0\<rparr>) = None"
    by (rule close_windows_hangs) (simp_all add: tick_intensity_new_def)
  then have "count_ticks fp (t # ts) (tick_intensity_new fp alpha 0) = None"
    by (simp add: count_tick_def Let_def) (simp add: tick_intensity_new_def)
  then show ?thesis
    using run [of "tick_intensity_new fp alpha w"] assms by (simp add: tick_intensity_new_def)
qed

theorem intensity_answers_witness:
  "\<exists>s. count_ticks exact_fp [sample_trade 10000 1, sample_trade 10000 1] (tick_intensity_new exact_fp 1 10) = Some s
    \<and> ti_window_start_ns s \<le> 1"
  using intensity_answers [of "[sample_trade 10000 1, sample_trade 10000 1]" 10 exact_fp 1] by (auto simp: sample_trade_def)

end
