(* ===== verification/Indicators.thy ===== *)
theory Indicators
  imports Window Decimal
begin

text \<open>
  The indicators (\<open>signals/indicators\<close>): exponential moving average, convergence and divergence of two of them,
  Bollinger bands, relative strength and rolling z-score. Each consumes a stream of doubles through \<open>update\<close>.

  A period is a positive number; with a period of zero the code divides an index by zero. The counters are natural
  numbers: \<open>int\<close> counters that overflow have no behaviour.
\<close>

section \<open>Exponential moving average\<close>

record 'd ema =
  em_span :: int
  em_alpha :: 'd
  em_ema :: 'd
  em_initialized :: bool

definition ema_new :: "'d fp \<Rightarrow> int \<Rightarrow> 'd ema" where
  "ema_new fp n = \<lparr>em_span = n, em_alpha = fp_div fp (fp_of_nat fp 2) (fp_add fp (fp_of_int fp n) (fp_of_nat fp 1)),
     em_ema = fp_zero fp, em_initialized = False\<rparr>"

definition ema_update :: "'d fp \<Rightarrow> 'd \<Rightarrow> 'd ema \<Rightarrow> 'd \<times> 'd ema" where
  "ema_update fp v s =
     (let e = (if \<not> em_initialized s then v
               else fp_add fp (fp_mul fp (em_alpha s) v)
                      (fp_mul fp (fp_sub fp (fp_of_nat fp 1) (em_alpha s)) (em_ema s)))
      in (e, s\<lparr>em_ema := e, em_initialized := True\<rparr>))"

definition ema_reset :: "'d fp \<Rightarrow> 'd ema \<Rightarrow> 'd ema" where
  "ema_reset fp s = s\<lparr>em_ema := fp_zero fp, em_initialized := False\<rparr>"

definition ema_name :: "'d ema \<Rightarrow> string" where
  "ema_name s = ''ema_'' @ show_int (em_span s)"

section \<open>Convergence and divergence\<close>

record 'd macd_result =
  mr_macd_line :: 'd
  mr_signal_line :: 'd
  mr_histogram :: 'd

record 'd macd =
  mc_fast_ema :: "'d ema"
  mc_slow_ema :: "'d ema"
  mc_signal_ema :: "'d ema"
  mc_result :: "'d macd_result"

definition macd_result_new :: "'d fp \<Rightarrow> 'd macd_result" where
  "macd_result_new fp = \<lparr>mr_macd_line = fp_zero fp, mr_signal_line = fp_zero fp, mr_histogram = fp_zero fp\<rparr>"

definition macd_new :: "'d fp \<Rightarrow> int \<Rightarrow> int \<Rightarrow> int \<Rightarrow> 'd macd" where
  "macd_new fp fast slow signal = \<lparr>mc_fast_ema = ema_new fp fast, mc_slow_ema = ema_new fp slow,
     mc_signal_ema = ema_new fp signal, mc_result = macd_result_new fp\<rparr>"

definition macd_update :: "'d fp \<Rightarrow> 'd \<Rightarrow> 'd macd \<Rightarrow> 'd \<times> 'd macd" where
  "macd_update fp price s =
     (let (fast_val, fast) = ema_update fp price (mc_fast_ema s);
          (slow_val, slow) = ema_update fp price (mc_slow_ema s);
          macd_line = fp_sub fp fast_val slow_val;
          (signal_line, signal) = ema_update fp macd_line (mc_signal_ema s);
          histogram = fp_sub fp macd_line signal_line
      in (macd_line, \<lparr>mc_fast_ema = fast, mc_slow_ema = slow, mc_signal_ema = signal,
            mc_result = \<lparr>mr_macd_line = macd_line, mr_signal_line = signal_line, mr_histogram = histogram\<rparr>\<rparr>))"

definition macd_reset :: "'d fp \<Rightarrow> 'd macd \<Rightarrow> 'd macd" where
  "macd_reset fp s = \<lparr>mc_fast_ema = ema_reset fp (mc_fast_ema s), mc_slow_ema = ema_reset fp (mc_slow_ema s),
     mc_signal_ema = ema_reset fp (mc_signal_ema s), mc_result = macd_result_new fp\<rparr>"

section \<open>Bollinger bands\<close>

record 'd bollinger_result =
  br_upper :: 'd
  br_middle :: 'd
  br_lower :: 'd
  br_percent_b :: 'd
  br_bandwidth :: 'd

record 'd bollinger =
  bo_period :: nat
  bo_num_std :: 'd
  bo_window :: "'d list"
  bo_head :: nat
  bo_count :: nat
  bo_sum :: 'd
  bo_sum_sq :: 'd
  bo_result :: "'d bollinger_result"

definition bollinger_result_new :: "'d fp \<Rightarrow> 'd bollinger_result" where
  "bollinger_result_new fp = \<lparr>br_upper = fp_zero fp, br_middle = fp_zero fp, br_lower = fp_zero fp,
     br_percent_b = fp_zero fp, br_bandwidth = fp_zero fp\<rparr>"

definition bollinger_new :: "'d fp \<Rightarrow> nat \<Rightarrow> 'd \<Rightarrow> 'd bollinger" where
  "bollinger_new fp period num_std = \<lparr>bo_period = period, bo_num_std = num_std, bo_window = replicate period (fp_zero fp),
     bo_head = 0, bo_count = 0, bo_sum = fp_zero fp, bo_sum_sq = fp_zero fp, bo_result = bollinger_result_new fp\<rparr>"

text \<open>The bands from the running sums of \<open>n\<close> values.\<close>

definition bollinger_bands :: "'d sim_math \<Rightarrow> 'd \<Rightarrow> nat \<Rightarrow> 'd \<Rightarrow> 'd \<Rightarrow> 'd \<Rightarrow> 'd bollinger_result" where
  "bollinger_bands mt num_std n sum1 sum_sq price =
     (let fp = sm_fp mt; zero = fp_zero fp;
          mean = fp_div fp sum1 (fp_of_nat fp n);
          variance = fp_sub fp (fp_div fp sum_sq (fp_of_nat fp n)) (fp_mul fp mean mean);
          variance = (if fp_less fp variance zero then zero else variance);
          stddev = sm_sqrt mt variance;
          upper = fp_add fp mean (fp_mul fp num_std stddev);
          lower = fp_sub fp mean (fp_mul fp num_std stddev);
          band_width = fp_sub fp upper lower;
          percent_b = (if fp_less fp zero band_width then fp_div fp (fp_sub fp price lower) band_width else zero);
          bandwidth = (if \<not> fp_eq fp mean zero then fp_div fp band_width mean else zero)
      in \<lparr>br_upper = upper, br_middle = mean, br_lower = lower, br_percent_b = percent_b, br_bandwidth = bandwidth\<rparr>)"

definition bollinger_update :: "'d sim_math \<Rightarrow> 'd \<Rightarrow> 'd bollinger \<Rightarrow> 'd \<times> 'd bollinger" where
  "bollinger_update mt price s =
     (let fp = sm_fp mt; old_val = bo_window s ! bo_head s;
          (sum1, sum_sq) = (if bo_period s \<le> bo_count s
            then (fp_sub fp (bo_sum s) old_val, fp_sub fp (bo_sum_sq s) (fp_mul fp old_val old_val))
            else (bo_sum s, bo_sum_sq s));
          n = (if bo_count s < bo_period s then bo_count s + 1 else bo_count s);
          sum1 = fp_add fp sum1 price;
          sum_sq = fp_add fp sum_sq (fp_mul fp price price);
          res = bollinger_bands mt (bo_num_std s) n sum1 sum_sq price
      in (br_middle res, s\<lparr>bo_window := (bo_window s)[bo_head s := price], bo_head := (bo_head s + 1) mod bo_period s,
            bo_count := n, bo_sum := sum1, bo_sum_sq := sum_sq, bo_result := res\<rparr>))"

definition bollinger_reset :: "'d fp \<Rightarrow> 'd bollinger \<Rightarrow> 'd bollinger" where
  "bollinger_reset fp s = s\<lparr>bo_head := 0, bo_count := 0, bo_sum := fp_zero fp, bo_sum_sq := fp_zero fp,
     bo_result := bollinger_result_new fp, bo_window := map (\<lambda>v. fp_zero fp) (bo_window s)\<rparr>"

section \<open>Relative strength\<close>

record 'd rsi =
  rs_period :: nat
  rs_prev_price :: 'd
  rs_avg_gain :: 'd
  rs_avg_loss :: 'd
  rs_rsi :: 'd
  rs_count :: nat
  rs_gain_sum :: 'd
  rs_loss_sum :: 'd

definition rsi_new :: "'d fp \<Rightarrow> nat \<Rightarrow> 'd rsi" where
  "rsi_new fp period = \<lparr>rs_period = period, rs_prev_price = fp_zero fp, rs_avg_gain = fp_zero fp, rs_avg_loss = fp_zero fp,
     rs_rsi = fp_of_nat fp 50, rs_count = 0, rs_gain_sum = fp_zero fp, rs_loss_sum = fp_zero fp\<rparr>"

definition rsi_value :: "'d fp \<Rightarrow> 'd \<Rightarrow> 'd \<Rightarrow> 'd" where
  "rsi_value fp avg_gain avg_loss =
     (if fp_eq fp avg_loss (fp_zero fp) then fp_of_nat fp 100
      else let rs = fp_div fp avg_gain avg_loss
           in fp_sub fp (fp_of_nat fp 100) (fp_div fp (fp_of_nat fp 100) (fp_add fp (fp_of_nat fp 1) rs)))"

definition rsi_update :: "'d fp \<Rightarrow> 'd \<Rightarrow> 'd rsi \<Rightarrow> 'd \<times> 'd rsi" where
  "rsi_update fp price s =
     (let zero = fp_zero fp; s = s\<lparr>rs_count := rs_count s + 1\<rparr>; period = fp_of_nat fp (rs_period s) in
      if rs_count s = 1 then (fp_of_nat fp 50, s\<lparr>rs_prev_price := price, rs_rsi := fp_of_nat fp 50\<rparr>)
      else
        let delta = fp_sub fp price (rs_prev_price s);
            s = s\<lparr>rs_prev_price := price\<rparr>;
            gain = (if fp_less fp zero delta then delta else zero);
            loss = (if fp_less fp delta zero then fp_neg fp delta else zero);
            s = (if rs_count s \<le> rs_period s + 1
              then
                let s = s\<lparr>rs_gain_sum := fp_add fp (rs_gain_sum s) gain, rs_loss_sum := fp_add fp (rs_loss_sum s) loss\<rparr>;
                    s = (if rs_count s = rs_period s + 1
                      then let ag = fp_div fp (rs_gain_sum s) period; al = fp_div fp (rs_loss_sum s) period
                           in s\<lparr>rs_avg_gain := ag, rs_avg_loss := al, rs_rsi := rsi_value fp ag al\<rparr>
                      else s)
                in if rs_count s < rs_period s + 1 then s\<lparr>rs_rsi := fp_of_nat fp 50\<rparr> else s
              else
                let period1 = fp_of_int fp (int (rs_period s) - 1);
                    ag = fp_div fp (fp_add fp (fp_mul fp (rs_avg_gain s) period1) gain) period;
                    al = fp_div fp (fp_add fp (fp_mul fp (rs_avg_loss s) period1) loss) period
                in s\<lparr>rs_avg_gain := ag, rs_avg_loss := al, rs_rsi := rsi_value fp ag al\<rparr>)
        in (rs_rsi s, s))"

definition rsi_reset :: "'d fp \<Rightarrow> 'd rsi \<Rightarrow> 'd rsi" where
  "rsi_reset fp s = s\<lparr>rs_prev_price := fp_zero fp, rs_avg_gain := fp_zero fp, rs_avg_loss := fp_zero fp,
     rs_gain_sum := fp_zero fp, rs_loss_sum := fp_zero fp, rs_rsi := fp_of_nat fp 50, rs_count := 0\<rparr>"

section \<open>Rolling z-score\<close>

record 'd zscore =
  zs_window :: nat
  zs_buf :: "'d list"
  zs_head :: nat
  zs_count :: nat
  zs_mean :: 'd
  zs_m2 :: 'd
  zs_zscore :: 'd

definition zscore_new :: "'d fp \<Rightarrow> nat \<Rightarrow> 'd zscore" where
  "zscore_new fp window = \<lparr>zs_window = window, zs_buf = replicate window (fp_zero fp), zs_head = 0, zs_count = 0,
     zs_mean = fp_zero fp, zs_m2 = fp_zero fp, zs_zscore = fp_zero fp\<rparr>"

definition zscore_accumulate :: "'d fp \<Rightarrow> 'd \<Rightarrow> 'd zscore \<Rightarrow> 'd zscore" where
  "zscore_accumulate fp v s =
     (if zs_count s < zs_window s
      then
        let n = zs_count s + 1; delta = fp_sub fp v (zs_mean s);
            mean = fp_add fp (zs_mean s) (fp_div fp delta (fp_of_nat fp n));
            delta2 = fp_sub fp v mean
        in s\<lparr>zs_buf := (zs_buf s)[zs_head s := v], zs_head := (zs_head s + 1) mod zs_window s, zs_count := n,
             zs_mean := mean, zs_m2 := fp_add fp (zs_m2 s) (fp_mul fp delta delta2)\<rparr>
      else
        let old_val = zs_buf s ! zs_head s; delta = fp_sub fp v old_val; old_mean = zs_mean s;
            mean = fp_add fp (zs_mean s) (fp_div fp delta (fp_of_nat fp (zs_count s)));
            m2 = fp_add fp (zs_m2 s) (fp_mul fp delta (fp_sub fp (fp_add fp (fp_sub fp v mean) old_val) old_mean))
        in s\<lparr>zs_buf := (zs_buf s)[zs_head s := v], zs_head := (zs_head s + 1) mod zs_window s, zs_mean := mean,
             zs_m2 := (if fp_less fp m2 (fp_zero fp) then fp_zero fp else m2)\<rparr>)"

definition zscore_update :: "'d sim_math \<Rightarrow> 'd \<Rightarrow> 'd zscore \<Rightarrow> 'd \<times> 'd zscore" where
  "zscore_update mt v s =
     (let fp = sm_fp mt; s = zscore_accumulate fp v s;
          z = (if zs_count s < 2 then fp_zero fp
               else let variance = fp_div fp (zs_m2 s) (fp_of_nat fp (zs_count s)) in
                 if fp_le fp variance (fp_zero fp) then fp_zero fp
                 else fp_div fp (fp_sub fp v (zs_mean s)) (sm_sqrt mt variance))
      in (z, s\<lparr>zs_zscore := z\<rparr>))"

definition zscore_reset :: "'d fp \<Rightarrow> 'd zscore \<Rightarrow> 'd zscore" where
  "zscore_reset fp s = s\<lparr>zs_head := 0, zs_count := 0, zs_mean := fp_zero fp, zs_m2 := fp_zero fp,
     zs_zscore := fp_zero fp, zs_buf := map (\<lambda>v. fp_zero fp) (zs_buf s)\<rparr>"

section \<open>Circular buffers\<close>

text \<open>The values a circular buffer holds, oldest first.\<close>

definition ring_values :: "nat \<Rightarrow> 'a list \<Rightarrow> nat \<Rightarrow> nat \<Rightarrow> 'a list" where
  "ring_values p buf head cnt = (if cnt < p then take cnt buf else rotate head buf)"

definition ring_ok :: "nat \<Rightarrow> 'a list \<Rightarrow> nat \<Rightarrow> nat \<Rightarrow> bool" where
  "ring_ok p buf head cnt \<longleftrightarrow> 0 < p \<and> length buf = p \<and> cnt \<le> p \<and> head < p \<and> (cnt < p \<longrightarrow> head = cnt)"

lemma ring_values_length: "ring_ok p buf head cnt \<Longrightarrow> length (ring_values p buf head cnt) = cnt"
  by (auto simp: ring_values_def ring_ok_def)

lemma rotate_as_drop: "n < length xs \<Longrightarrow> rotate n xs = drop n xs @ take n xs"
  by (simp add: rotate_drop_take)

lemma ring_values_push:
  assumes "ring_ok p buf head cnt"
  shows "ring_ok p (buf[head := v]) ((head + 1) mod p) (if cnt < p then cnt + 1 else cnt)"
    and "cnt < p \<Longrightarrow> ring_values p (buf[head := v]) ((head + 1) mod p) (cnt + 1) = ring_values p buf head cnt @ [v]"
    and "\<not> cnt < p \<Longrightarrow> ring_values p buf head cnt = (buf ! head) # tl (ring_values p buf head cnt)"
    and "\<not> cnt < p \<Longrightarrow> ring_values p (buf[head := v]) ((head + 1) mod p) cnt = tl (ring_values p buf head cnt) @ [v]"
proof -
  have ok: "0 < p" "length buf = p" "cnt \<le> p" "head < p" "cnt < p \<Longrightarrow> head = cnt"
    using assms by (auto simp: ring_ok_def)
  show "ring_ok p (buf[head := v]) ((head + 1) mod p) (if cnt < p then cnt + 1 else cnt)"
    using ok by (auto simp: ring_ok_def)
  show "ring_values p (buf[head := v]) ((head + 1) mod p) (cnt + 1) = ring_values p buf head cnt @ [v]" if "cnt < p"
  proof (cases "Suc cnt < p")
    case True
    then show ?thesis
      using ok by (auto simp: ring_values_def take_Suc_conv_app_nth take_update_cancel)
  next
    case False
    then have "Suc cnt = p" "head = cnt"
      using that ok by auto
    then show ?thesis
      using ok by (auto simp: ring_values_def upd_conv_take_nth_drop)
  qed
  show "ring_values p buf head cnt = (buf ! head) # tl (ring_values p buf head cnt)" if "\<not> cnt < p"
    using that ok by (simp add: ring_values_def rotate_as_drop Cons_nth_drop_Suc [symmetric])
  show "ring_values p (buf[head := v]) ((head + 1) mod p) cnt = tl (ring_values p buf head cnt) @ [v]" if "\<not> cnt < p"
  proof -
    have "rotate ((head + 1) mod p) (buf[head := v]) = rotate (head + 1) (buf[head := v])"
      using ok(2) rotate_conv_mod [of "head + 1" "buf[head := v]"] by simp
    also have "\<dots> = rotate1 (rotate head (buf[head := v]))"
      by simp
    also have "rotate head (buf[head := v]) = v # drop (Suc head) buf @ take head buf"
      using ok by (simp add: rotate_as_drop Cons_nth_drop_Suc [symmetric] drop_update_cancel)
    finally show ?thesis
      using that ok by (simp add: ring_values_def rotate_as_drop Cons_nth_drop_Suc [symmetric])
  qed
qed

section \<open>Bands and z-scores of a window\<close>

definition variance :: "real list \<Rightarrow> real" where
  "variance w = sq_dev w / real (length w)"

lemma variance_eq: "w \<noteq> [] \<Longrightarrow> variance w = (\<Sum>x\<leftarrow>w. x\<^sup>2) / real (length w) - (mean w)\<^sup>2"
  by (simp add: variance_def sq_dev_eq diff_divide_distrib)

lemma variance_nonneg: "0 \<le> variance w"
  by (simp add: variance_def sq_dev_nonneg)

definition bands_spec :: "real \<Rightarrow> real list \<Rightarrow> real bollinger_result" where
  "bands_spec k w =
     (let m = mean w; d = k * sqrt (variance w)
      in \<lparr>br_upper = m + d, br_middle = m, br_lower = m - d,
          br_percent_b = (if 0 < d then (last w - (m - d)) / (2 * d) else 0),
          br_bandwidth = (if m \<noteq> 0 then 2 * d / m else 0)\<rparr>)"

definition zscore_spec :: "real list \<Rightarrow> real" where
  "zscore_spec w = (if variance w = 0 then 0 else (last w - mean w) / sqrt (variance w))"

lemma bollinger_bands_exact:
  assumes "w \<noteq> []"
  shows "bollinger_bands exact_math k (length w) (sum_list w) (\<Sum>x\<leftarrow>w. x\<^sup>2) (last w) = bands_spec k w"
proof -
  have v: "(\<Sum>x\<leftarrow>w. x\<^sup>2) / real (length w) - mean w * mean w = variance w"
    using assms by (simp add: variance_eq power2_eq_square)
  show ?thesis
    unfolding bollinger_bands_def Let_def exact_math_simps exact_fp_simps fp_zero_exact fp_compare_exact mean_def [symmetric] v
    using variance_nonneg [of w] by (simp add: bands_spec_def Let_def)
qed

text \<open>The two steps of Welford's algorithm: adding a value, and replacing the oldest one.\<close>

lemma mean_snoc: "mean (w @ [v]) = mean w + (v - mean w) / real (length w + 1)"
proof (cases "w = []")
  case False
  then have "sum_list w = real (length w) * mean w"
    by (simp add: mean_def)
  then show ?thesis
    by (simp add: mean_def [of "w @ [v]"] field_simps)
qed (simp add: mean_def)

lemma sq_dev_snoc: "sq_dev (w @ [v]) = sq_dev w + (v - mean w) * (v - mean (w @ [v]))"
proof -
  let ?n = "real (length w)" and ?m = "mean w" and ?m' = "mean (w @ [v])"
  have m': "(?n + 1) * ?m' = ?n * ?m + v"
    using mean_snoc [of w v] by (simp add: field_simps)
  have "sq_dev (w @ [v]) - sq_dev w = v\<^sup>2 - (?n + 1) * ?m'\<^sup>2 + ?n * ?m\<^sup>2"
    by (simp add: sq_dev_eq algebra_simps)
  also have "\<dots> = v\<^sup>2 - (?n * ?m + v) * ?m' + ?n * ?m\<^sup>2"
    by (simp add: m' power2_eq_square flip: mult.assoc)
  also have "\<dots> = (v - ?m) * (v - ?m')"
    using arg_cong [OF m', of "\<lambda>z. ?m * z"] by (simp add: power2_eq_square algebra_simps)
  finally show ?thesis
    by simp
qed

lemma mean_swap: "mean (w @ [v]) = mean (x # w) + (v - x) / real (length w + 1)"
  by (simp add: mean_def add_divide_distrib diff_divide_distrib add.commute)

lemma sq_dev_swap:
  "sq_dev (w @ [v]) = sq_dev (x # w) + (v - x) * (v - mean (w @ [v]) + x - mean (x # w))"
proof -
  let ?n = "real (length w + 1)" and ?m = "mean (x # w)" and ?m' = "mean (w @ [v])"
  have d: "v - x = ?n * (?m' - ?m)"
    using mean_swap [of w v x] by (simp add: field_simps)
  have "sq_dev (w @ [v]) - sq_dev (x # w) = (v\<^sup>2 - x\<^sup>2) - ?n * (?m'\<^sup>2 - ?m\<^sup>2)"
    by (simp add: sq_dev_eq algebra_simps)
  also have "v\<^sup>2 - x\<^sup>2 = (v - x) * (v + x)"
    by (simp add: power2_eq_square algebra_simps)
  also have "?n * (?m'\<^sup>2 - ?m\<^sup>2) = (v - x) * (?m' + ?m)"
    unfolding d by (simp add: power2_eq_square algebra_simps)
  finally show ?thesis
    by (simp add: algebra_simps)
qed

section \<open>Streams of values\<close>

text \<open>The state of an indicator after a stream of values.\<close>

definition feed :: "('d \<Rightarrow> 's \<Rightarrow> 'd \<times> 's) \<Rightarrow> 'd list \<Rightarrow> 's \<Rightarrow> 's" where
  "feed upd xs s = fold (\<lambda>x s. snd (upd x s)) xs s"

lemma feed_simps [simp]: "feed upd [] s = s" "feed upd (xs @ [x]) s = snd (upd x (feed upd xs s))"
  by (simp_all add: feed_def)

text \<open>
  The interface of an indicator: \<open>value\<close> is what the last \<open>update\<close> returned, and \<open>reset\<close> leaves the object as its
  constructor built it. \<open>conf\<close> is what the constructor was given.
\<close>

locale indicator =
  fixes upd :: "'d \<Rightarrow> 's \<Rightarrow> 'd \<times> 's" and val :: "'s \<Rightarrow> 'd" and reset :: "'s \<Rightarrow> 's"
    and new :: "'c \<Rightarrow> 's" and conf :: "'s \<Rightarrow> 'c" and ok :: "'s \<Rightarrow> bool"
  assumes ok_new: "ok (new c)" and conf_new: "conf (new c) = c"
    and ok_upd: "ok s \<Longrightarrow> ok (snd (upd x s))" and conf_upd: "conf (snd (upd x s)) = conf s"
    and upd_val: "val (snd (upd x s)) = fst (upd x s)" and reset_new: "ok s \<Longrightarrow> reset s = new (conf s)"
begin

lemma feed_ok: "ok (feed upd xs (new c)) \<and> conf (feed upd xs (new c)) = c"
  by (induction xs rule: rev_induct) (simp_all add: ok_new conf_new ok_upd conf_upd)

lemma restart: "feed upd xs (reset (feed upd ys (new c))) = feed upd xs (new c)"
  using feed_ok [of ys c] by (simp add: reset_new)

lemma value_of_last: "val (feed upd (xs @ [x]) s) = fst (upd x (feed upd xs s))"
  by (simp add: upd_val)

end

lemma macd_update_simps:
  "mc_fast_ema (snd (macd_update fp x s)) = snd (ema_update fp x (mc_fast_ema s))"
  "mc_slow_ema (snd (macd_update fp x s)) = snd (ema_update fp x (mc_slow_ema s))"
  "em_span (mc_signal_ema (snd (macd_update fp x s))) = em_span (mc_signal_ema s)"
  "em_alpha (mc_signal_ema (snd (macd_update fp x s))) = em_alpha (mc_signal_ema s)"
  "mr_macd_line (mc_result (snd (macd_update fp x s))) = fst (macd_update fp x s)"
  by (simp_all add: macd_update_def ema_update_def Let_def split_beta)

definition ema_ok :: "'d fp \<Rightarrow> 'd ema \<Rightarrow> bool" where
  "ema_ok fp s \<longleftrightarrow> em_alpha s = em_alpha (ema_new fp (em_span s))"

interpretation ema: indicator "ema_update fp" em_ema "ema_reset fp" "ema_new fp" em_span "ema_ok fp" for fp :: "'d fp"
  by unfold_locales (simp_all add: ema_update_def ema_reset_def ema_new_def ema_ok_def Let_def)

interpretation macd: indicator "macd_update fp" "\<lambda>s. mr_macd_line (mc_result s)" "macd_reset fp" "\<lambda>(a, b, c). macd_new fp a b c"
  "\<lambda>s. (em_span (mc_fast_ema s), em_span (mc_slow_ema s), em_span (mc_signal_ema s))"
  "\<lambda>s. ema_ok fp (mc_fast_ema s) \<and> ema_ok fp (mc_slow_ema s) \<and> ema_ok fp (mc_signal_ema s)" for fp :: "'d fp"
  by unfold_locales (auto simp: macd_update_simps ema.ok_new ema.conf_new ema.ok_upd ema.conf_upd ema.reset_new macd_new_def
      macd_reset_def, simp add: ema_ok_def macd_update_simps)

interpretation bollinger: indicator "bollinger_update mt" "\<lambda>s. br_middle (bo_result s)" "bollinger_reset (sm_fp mt)"
  "\<lambda>(p, k). bollinger_new (sm_fp mt) p k" "\<lambda>s. (bo_period s, bo_num_std s)" "\<lambda>s. length (bo_window s) = bo_period s"
  for mt :: "'d sim_math"
  by unfold_locales (auto simp: bollinger_update_def bollinger_reset_def bollinger_new_def Let_def split_beta map_replicate_const)

interpretation rsi: indicator "rsi_update fp" rs_rsi "rsi_reset fp" "rsi_new fp" rs_period "\<lambda>s. True" for fp :: "'d fp"
  by unfold_locales (simp_all add: rsi_update_def rsi_reset_def rsi_new_def Let_def)

interpretation zscore: indicator "zscore_update mt" zs_zscore "zscore_reset (sm_fp mt)" "zscore_new (sm_fp mt)" zs_window
  "\<lambda>s. length (zs_buf s) = zs_window s" for mt :: "'d sim_math"
  by unfold_locales (auto simp: zscore_update_def zscore_accumulate_def zscore_reset_def zscore_new_def Let_def map_replicate_const)

section \<open>Properties\<close>

text \<open>
  A reset indicator is a new one: whatever it was fed before, after \<open>reset\<close> every indicator answers any stream of values
  as one that was just constructed with the same parameters.
\<close>

theorem indicators_restart:
  "feed (ema_update fp) xs (ema_reset fp (feed (ema_update fp) ys (ema_new fp a))) = feed (ema_update fp) xs (ema_new fp a)
   \<and> feed (macd_update fp) xs (macd_reset fp (feed (macd_update fp) ys (macd_new fp a b c))) = feed (macd_update fp) xs (macd_new fp a b c)
   \<and> feed (bollinger_update mt) xs (bollinger_reset (sm_fp mt) (feed (bollinger_update mt) ys (bollinger_new (sm_fp mt) p k)))
      = feed (bollinger_update mt) xs (bollinger_new (sm_fp mt) p k)
   \<and> feed (rsi_update fp) xs (rsi_reset fp (feed (rsi_update fp) ys (rsi_new fp p))) = feed (rsi_update fp) xs (rsi_new fp p)
   \<and> feed (zscore_update mt) xs (zscore_reset (sm_fp mt) (feed (zscore_update mt) ys (zscore_new (sm_fp mt) p)))
      = feed (zscore_update mt) xs (zscore_new (sm_fp mt) p)"
  using ema.restart macd.restart [of fp xs ys "(a, b, c)"] bollinger.restart [of mt xs ys "(p, k)"] rsi.restart zscore.restart
  by auto

definition bollinger_inv :: "nat \<Rightarrow> real \<Rightarrow> real list \<Rightarrow> real bollinger \<Rightarrow> bool" where
  "bollinger_inv p k w s \<longleftrightarrow> bo_period s = p \<and> bo_num_std s = k \<and> ring_ok p (bo_window s) (bo_head s) (bo_count s)
     \<and> ring_values p (bo_window s) (bo_head s) (bo_count s) = w \<and> bo_sum s = sum_list w \<and> bo_sum_sq s = (\<Sum>x\<leftarrow>w. x\<^sup>2)
     \<and> (w \<noteq> [] \<longrightarrow> bo_result s = bands_spec k w)"

lemma bollinger_step:
  assumes "bollinger_inv p k w s"
  shows "bollinger_inv p k ((if length w < p then w else tl w) @ [v]) (snd (bollinger_update exact_math v s))"
proof -
  have ok: "ring_ok p (bo_window s) (bo_head s) (bo_count s)" "bo_period s = p" "bo_num_std s = k"
    "ring_values p (bo_window s) (bo_head s) (bo_count s) = w" "bo_sum s = sum_list w" "bo_sum_sq s = (\<Sum>x\<leftarrow>w. x\<^sup>2)"
    using assms by (auto simp: bollinger_inv_def)
  have len: "length w = bo_count s"
    using ring_values_length [OF ok(1)] ok(4) by simp
  note push = ring_values_push(1) [OF ok(1), of v] ring_values_push(2) [OF ok(1), of v, unfolded ok(4)] ring_values_push(3) [OF ok(1), unfolded ok(4)]
    ring_values_push(4) [OF ok(1), of v, unfolded ok(4)]
  show ?thesis
  proof (cases "bo_count s < p")
    case True
    then show ?thesis
      using ok push(1,2) bollinger_bands_exact [of "w @ [v]" k] len
      by (simp add: bollinger_inv_def bollinger_update_def Let_def power2_eq_square)
  next
    case False
    then have w: "w = bo_window s ! bo_head s # tl w"
      using push(3) by simp
    then have "sum_list w = bo_window s ! bo_head s + sum_list (tl w)"
      "(\<Sum>x\<leftarrow>w. x\<^sup>2) = (bo_window s ! bo_head s)\<^sup>2 + (\<Sum>x\<leftarrow>tl w. x\<^sup>2)" "length (tl w) + 1 = length w"
      by (metis sum_list.Cons, metis sum_list.Cons list.map(2), metis Suc_eq_plus1 length_Cons)
    then show ?thesis
      using ok push(1,4) bollinger_bands_exact [of "tl w @ [v]" k] len False
      by (simp add: bollinger_inv_def bollinger_update_def Let_def power2_eq_square)
  qed
qed

definition zscore_inv :: "nat \<Rightarrow> real list \<Rightarrow> real zscore \<Rightarrow> bool" where
  "zscore_inv p w s \<longleftrightarrow> zs_window s = p \<and> ring_ok p (zs_buf s) (zs_head s) (zs_count s)
     \<and> ring_values p (zs_buf s) (zs_head s) (zs_count s) = w \<and> zs_mean s = mean w \<and> zs_m2 s = sq_dev w"

lemma zscore_step:
  assumes "zscore_inv p w s"
  shows "zscore_inv p ((if length w < p then w else tl w) @ [v]) (zscore_accumulate exact_fp v s)"
proof -
  have ok: "ring_ok p (zs_buf s) (zs_head s) (zs_count s)" "zs_window s = p"
    "ring_values p (zs_buf s) (zs_head s) (zs_count s) = w" "zs_mean s = mean w" "zs_m2 s = sq_dev w"
    using assms by (auto simp: zscore_inv_def)
  have len: "length w = zs_count s"
    using ring_values_length [OF ok(1)] ok(3) by simp
  note push = ring_values_push(1) [OF ok(1), of v] ring_values_push(2) [OF ok(1), of v, unfolded ok(3)] ring_values_push(3) [OF ok(1), unfolded ok(3)]
    ring_values_push(4) [OF ok(1), of v, unfolded ok(3)]
  show ?thesis
  proof (cases "zs_count s < p")
    case True
    then show ?thesis
      using ok push(1,2) len mean_snoc [of w v] sq_dev_snoc [of w v]
      by (simp add: zscore_inv_def zscore_accumulate_def Let_def add.commute)
  next
    case False
    define x where "x = zs_buf s ! zs_head s"
    have w: "w = x # tl w"
      using push(3) False by (simp add: x_def)
    have n: "real (zs_count s) = real (length (tl w) + 1)"
      using w len by (metis Suc_eq_plus1 length_Cons)
    have m: "mean (tl w @ [v]) = mean w + (v - x) / real (zs_count s)"
      "sq_dev (tl w @ [v]) = sq_dev w + (v - x) * (v - mean (tl w @ [v]) + x - mean w)"
      using mean_swap [of "tl w" v x] sq_dev_swap [of "tl w" v x] unfolding n w [symmetric] by simp_all
    show ?thesis
      using ok push(1,4) len False m sq_dev_nonneg [of "tl w @ [v]"]
      by (simp add: zscore_inv_def zscore_accumulate_def Let_def x_def [symmetric])
  qed
qed

lemma zscore_inv_update: "zscore_inv p w (snd (zscore_update exact_math v s)) \<longleftrightarrow> zscore_inv p w (zscore_accumulate exact_fp v s)"
  by (simp add: zscore_update_def zscore_inv_def Let_def)

lemma zscore_value:
  assumes "zscore_inv p w s" "w \<noteq> []"
  shows "(if zs_count s < 2 then 0 else let u = zs_m2 s / real (zs_count s) in if u \<le> 0 then 0 else (last w - zs_mean s) / sqrt u)
    = zscore_spec w"
proof -
  have len: "zs_count s = length w"
    using assms ring_values_length [of p "zs_buf s" "zs_head s" "zs_count s"] by (auto simp: zscore_inv_def)
  have one: "variance w = 0" if "length w < 2"
    using that assms(2) by (cases w) (auto simp: variance_def sq_dev_def mean_def)
  show ?thesis
    using assms(1) len one variance_nonneg [of w]
    by (auto simp: zscore_inv_def zscore_spec_def Let_def variance_def [symmetric])
qed

text \<open>
  The incremental statistics are exact. After any stream of values, and without rounding, the Bollinger bands, kept
  by adding to and subtracting from two running sums over a circular buffer, and the z-score, kept by
  Welford's updates of mean and squared deviations, are those of the last \<open>p\<close> values of the stream computed from the
  definitions of mean and variance.
\<close>

theorem rolling_statistics_exact:
  fixes xs :: "real list" and x :: real and p :: nat
  defines "w \<equiv> last_n (Suc p) (xs @ [x])"
  shows "bo_result (feed (bollinger_update exact_math) (xs @ [x]) (bollinger_new exact_fp (Suc p) k)) = bands_spec k w
    \<and> zs_zscore (feed (zscore_update exact_math) (xs @ [x]) (zscore_new exact_fp (Suc p))) = zscore_spec w"
proof -
  have w: "w \<noteq> []" "last w = x"
    by (simp_all add: w_def last_n_snoc)
  have "bollinger_inv (Suc p) k (last_n (Suc p) ys) (feed (bollinger_update exact_math) ys (bollinger_new exact_fp (Suc p) k))" for ys
  proof (induction ys rule: rev_induct)
    case (snoc y ys)
    then show ?case
      using bollinger_step [OF snoc, of y] by (simp add: last_n_snoc)
  qed (simp add: bollinger_inv_def bollinger_new_def ring_ok_def ring_values_def)
  then have b: "bollinger_inv (Suc p) k w (feed (bollinger_update exact_math) (xs @ [x]) (bollinger_new exact_fp (Suc p) k))"
    unfolding w_def by blast
  let ?z = "\<lambda>ys. feed (zscore_update exact_math) ys (zscore_new exact_fp (Suc p))"
  have step: "zscore_inv (Suc p) (last_n (Suc p) (ys @ [y])) (zscore_accumulate exact_fp y (?z ys))"
    if "zscore_inv (Suc p) (last_n (Suc p) ys) (?z ys)" for ys y
    using zscore_step [OF that, of y] by (simp add: last_n_snoc)
  have inv: "zscore_inv (Suc p) (last_n (Suc p) ys) (?z ys)" for ys
  proof (induction ys rule: rev_induct)
    case (snoc y ys)
    then show ?case
      using step [OF snoc, of y] by (simp add: zscore_inv_update)
  qed (simp add: zscore_inv_def zscore_new_def ring_ok_def ring_values_def mean_def sq_dev_def)
  define z where "z = ?z xs"
  have "zs_zscore (snd (zscore_update exact_math x z)) = zscore_spec w"
    using zscore_value [OF step [OF inv, of xs x, folded w_def z_def] w(1)] w(2)
    by (auto simp: zscore_update_def Let_def split: if_splits)
  then have "zs_zscore (?z (xs @ [x])) = zscore_spec w"
    by (simp add: z_def)
  then show ?thesis
    using b w(1) by (simp add: bollinger_inv_def)
qed

subsection \<open>Bounds\<close>

definition rsi_inv :: "real rsi \<Rightarrow> bool" where
  "rsi_inv s \<longleftrightarrow> 0 \<le> rs_gain_sum s \<and> 0 \<le> rs_loss_sum s \<and> 0 \<le> rs_avg_gain s \<and> 0 \<le> rs_avg_loss s \<and> 0 \<le> rs_rsi s \<and> rs_rsi s \<le> 100
     \<and> (rs_count s \<le> rs_period s \<longrightarrow> rs_rsi s = 50)"

lemma rsi_value_bounds:
  assumes "0 \<le> g" "0 \<le> l"
  shows "0 \<le> rsi_value exact_fp g l" "rsi_value exact_fp g l \<le> 100"
proof -
  have "1 \<le> 1 + g / l"
    using assms by simp
  then have "100 / (1 + g / l) \<le> 100" "0 \<le> 100 / (1 + g / l)"
    by (auto simp: divide_le_eq simp del: le_add_same_cancel1)
  then show "0 \<le> rsi_value exact_fp g l" "rsi_value exact_fp g l \<le> 100"
    by (simp_all add: rsi_value_def Let_def)
qed

lemma rsi_update_inv:
  assumes "rsi_inv s" "0 < rs_period s"
  shows "rsi_inv (snd (rsi_update exact_fp x s))"
proof -
  have avg: "0 \<le> (a * (real (rs_period s) - 1) + b) / real (rs_period s)" if "0 \<le> a" "0 \<le> b" for a b
    using that assms(2) by (intro divide_nonneg_nonneg add_nonneg_nonneg mult_nonneg_nonneg) auto
  show ?thesis
    using assms(1) avg rsi_value_bounds by (auto simp: rsi_inv_def rsi_update_def Let_def)
qed

lemma rsi_count: "rs_count (feed (rsi_update fp) xs (rsi_new fp p)) = length xs \<and> rs_period (feed (rsi_update fp) xs (rsi_new fp p)) = p"
  by (induction xs rule: rev_induct) (simp_all add: rsi_new_def rsi_update_def Let_def)

lemma rsi_feed_inv: "rsi_inv (feed (rsi_update exact_fp) xs (rsi_new exact_fp (Suc p)))"
proof (induction xs rule: rev_induct)
  case (snoc x xs)
  then show ?case
    using rsi_count [of exact_fp xs "Suc p"] by (simp add: rsi_update_inv)
qed (simp add: rsi_inv_def rsi_new_def)

lemma convex_within:
  fixes a v e lo hi :: real
  assumes "0 \<le> a" "a \<le> 1" "lo \<le> v" "v \<le> hi" "lo \<le> e" "e \<le> hi"
  shows "lo \<le> a * v + (1 - a) * e" "a * v + (1 - a) * e \<le> hi"
proof -
  have "a * lo + (1 - a) * lo \<le> a * v + (1 - a) * e" "a * v + (1 - a) * e \<le> a * hi + (1 - a) * hi"
    using assms by (auto intro!: add_mono mult_left_mono)
  then show "lo \<le> a * v + (1 - a) * e" "a * v + (1 - a) * e \<le> hi"
    by (simp_all add: algebra_simps)
qed

lemma ema_feed_within:
  fixes n :: nat
  assumes "\<forall>x\<in>set xs. lo \<le> x \<and> x \<le> hi" "xs \<noteq> []"
  defines "s \<equiv> feed (ema_update exact_fp) xs (ema_new exact_fp (int (Suc n)))"
  shows "lo \<le> em_ema s \<and> em_ema s \<le> hi \<and> em_initialized s \<and> em_alpha s = 2 / (real n + 2)"
  using assms(1,2) unfolding s_def
proof (induction xs rule: rev_induct)
  case (snoc x xs)
  show ?case
  proof (cases "xs = []")
    case True
    then show ?thesis
      using snoc.prems by (simp add: ema_update_def ema_new_def feed_def Let_def)
  next
    case False
    then show ?thesis
      using snoc convex_within [of "2 / (real n + 2)" lo x hi] by (simp add: ema_update_def Let_def)
  qed
qed simp

text \<open>
  The ranges of two indicators. The relative strength index is between 0 and 100 whatever the prices, and 50
  until one more price than its period has arrived; the exponential moving average is between the least and the
  greatest value it has been fed (without rounding).
\<close>

theorem indicator_bounds:
  fixes xs :: "real list" and x :: real and p n :: nat
  defines "r \<equiv> feed (rsi_update exact_fp) xs (rsi_new exact_fp (Suc p))"
    and "e \<equiv> feed (ema_update exact_fp) (xs @ [x]) (ema_new exact_fp (int (Suc n)))"
  shows "0 \<le> rs_rsi r \<and> rs_rsi r \<le> 100 \<and> rs_rsi r = (if length xs \<le> Suc p then 50 else rs_rsi r)
    \<and> Min (set (xs @ [x])) \<le> em_ema e \<and> em_ema e \<le> Max (set (xs @ [x]))"
proof -
  have "Min (set (xs @ [x])) \<le> em_ema e \<and> em_ema e \<le> Max (set (xs @ [x]))"
    using ema_feed_within [of "xs @ [x]" "Min (set (xs @ [x]))" "Max (set (xs @ [x]))" n] by (simp add: e_def)
  then show ?thesis
    using rsi_feed_inv [of xs p] rsi_count [of exact_fp xs "Suc p"] by (auto simp: r_def rsi_inv_def)
qed

text \<open>A price that never moves is reported as overbought: without a loss the index is 100 even when there is no gain.\<close>

definition rsi_flat :: "real \<Rightarrow> real rsi \<Rightarrow> bool" where
  "rsi_flat c s \<longleftrightarrow> rs_gain_sum s = 0 \<and> rs_loss_sum s = 0 \<and> rs_avg_gain s = 0 \<and> rs_avg_loss s = 0
     \<and> (0 < rs_count s \<longrightarrow> rs_prev_price s = c) \<and> (rs_period s < rs_count s \<longrightarrow> rs_rsi s = 100)"

lemma rsi_flat_update: "rsi_flat c s \<Longrightarrow> 0 < rs_period s \<Longrightarrow> rsi_flat c (snd (rsi_update exact_fp c s))"
  by (auto simp: rsi_flat_def rsi_update_def rsi_value_def Let_def)

lemma rsi_flat_overbought:
  assumes "Suc p < n"
  shows "rs_rsi (feed (rsi_update exact_fp) (replicate n c) (rsi_new exact_fp (Suc p))) = 100"
proof -
  let ?s = "\<lambda>n. feed (rsi_update exact_fp) (replicate n c) (rsi_new exact_fp (Suc p))"
  have "rsi_flat c (?s n)" for n
  proof (induction n)
    case (Suc n)
    have "?s (Suc n) = snd (rsi_update exact_fp c (?s n))"
      unfolding replicate_Suc replicate_append_same [symmetric] by simp
    then show ?case
      using Suc rsi_count [of exact_fp "replicate n c" "Suc p"] by (simp add: rsi_flat_update)
  qed (simp add: rsi_new_def rsi_flat_def)
  then show ?thesis
    using assms rsi_count [of exact_fp "replicate n c" "Suc p"] by (simp add: rsi_flat_def)
qed

end
