(* ===== verification/Signal_Engine.thy ===== *)
theory Signal_Engine
  imports Features Indicators Strategies Book_Manager "HOL-Library.Multiset"
begin

text \<open>
  The composition of signals (\<open>signals/composite\<close>) and the engine (\<open>signals/signal_registry.{hpp,cpp}\<close>,
  \<open>signal_engine.{hpp,cpp}\<close>): features are computed from the book and the trades, indicators applied to them, and
  composites turn the resulting vector into signals.

  The virtual calls are case distinctions on the class of an object. The keys of a hash map in its iteration order are
  an argument of what iterates over it. Every operation of the registry holds its mutex and is one step.
\<close>

section \<open>Combination and decay\<close>

type_synonym 'd alpha_combiner = "string \<rightharpoonup> 'd"

definition set_weight :: "string \<Rightarrow> 'd \<Rightarrow> 'd alpha_combiner \<Rightarrow> 'd alpha_combiner" where
  "set_weight name w ac = ac(name \<mapsto> w)"

definition remove_weight :: "string \<Rightarrow> 'd alpha_combiner \<Rightarrow> 'd alpha_combiner" where
  "remove_weight name ac = ac(name := None)"

definition set_weights :: "(string \<rightharpoonup> 'd) \<Rightarrow> 'd alpha_combiner \<Rightarrow> 'd alpha_combiner" where
  "set_weights ws ac = ws"

definition get_weight :: "'d fp \<Rightarrow> 'd alpha_combiner \<Rightarrow> string \<Rightarrow> 'd" where
  "get_weight fp ac name = (case ac name of Some w \<Rightarrow> w | None \<Rightarrow> fp_zero fp)"

definition alpha_clamp :: "'d fp \<Rightarrow> 'd \<Rightarrow> 'd" where
  "alpha_clamp fp v =
     (if fp_less fp (fp_of_nat fp 1) v then fp_of_nat fp 1 else if fp_less fp v (fp_of_int fp (- 1)) then fp_of_int fp (- 1) else v)"

definition combine :: "'d fp \<Rightarrow> string list \<Rightarrow> 'd feature_vector \<Rightarrow> 'd alpha_combiner \<Rightarrow> 'd" where
  "combine fp keys fv ac = alpha_clamp fp
     (foldl (\<lambda>acc name. case ac name of None \<Rightarrow> acc
        | Some w \<Rightarrow> fp_add fp acc (fp_mul fp w (fv_get fv name (fp_zero fp)))) (fp_zero fp) keys)"

record 'd signal_decay =
  sd_half_life_seconds :: 'd
  sd_lambda :: 'd

text \<open>A half-life that is not positive is refused with an exception, here \<open>None\<close>.\<close>

definition signal_decay_new :: "'d sim_math \<Rightarrow> 'd \<Rightarrow> 'd signal_decay option" where
  "signal_decay_new mt half_life =
     (if fp_le (sm_fp mt) half_life (fp_zero (sm_fp mt)) then None
      else Some \<lparr>sd_half_life_seconds = half_life, sd_lambda = fp_div (sm_fp mt) (sm_log mt (fp_of_nat (sm_fp mt) 2)) half_life\<rparr>)"

definition set_half_life :: "'d sim_math \<Rightarrow> 'd \<Rightarrow> 'd signal_decay \<Rightarrow> 'd signal_decay option" where
  "set_half_life mt half_life s =
     (if fp_le (sm_fp mt) half_life (fp_zero (sm_fp mt)) then None
      else Some (s\<lparr>sd_half_life_seconds := half_life,
             sd_lambda := fp_div (sm_fp mt) (sm_log mt (fp_of_nat (sm_fp mt) 2)) half_life\<rparr>))"

definition decay_factor :: "'d sim_math \<Rightarrow> 'd \<Rightarrow> 'd signal_decay \<Rightarrow> 'd" where
  "decay_factor mt elapsed s =
     (let fp = sm_fp mt in
      if fp_le fp elapsed (fp_zero fp) then fp_of_nat fp 1 else sm_exp mt (fp_mul fp (fp_neg fp (sd_lambda s)) elapsed))"

definition decay :: "'d sim_math \<Rightarrow> 'd \<Rightarrow> 'd \<Rightarrow> 'd signal_decay \<Rightarrow> 'd" where
  "decay mt strength elapsed s =
     (let fp = sm_fp mt in
      if fp_le fp elapsed (fp_zero fp) then strength
      else fp_mul fp strength (sm_exp mt (fp_mul fp (fp_neg fp (sd_lambda s)) elapsed)))"

definition decay_ns :: "'d sim_math \<Rightarrow> 'd \<Rightarrow> u64 \<Rightarrow> u64 \<Rightarrow> 'd signal_decay \<Rightarrow> 'd" where
  "decay_ns mt strength signal_time current_time s =
     (let fp = sm_fp mt in
      if current_time \<le> signal_time then strength
      else decay mt strength (fp_div fp (fp_of_nat fp (unat (current_time - signal_time))) (fp_of_nat fp 1000000000)) s)"

definition time_to_threshold :: "'d sim_math \<Rightarrow> 'd \<Rightarrow> 'd \<Rightarrow> 'd \<Rightarrow> 'd signal_decay \<Rightarrow> 'd" where
  "time_to_threshold mt infinity strength threshold s =
     (let fp = sm_fp mt; abs_signal = fp_abs fp strength in
      if fp_le fp abs_signal threshold then fp_zero fp
      else if fp_le fp threshold (fp_zero fp) then infinity
      else fp_div fp (fp_neg fp (sm_log mt (fp_div fp threshold abs_signal))) (sd_lambda s))"

section \<open>Registry\<close>

datatype 'd feature =
    Vwap "'d vwap" | Twap "'d twap_feature" | Microprice | Book_Depth_Ratio nat | Spread_Tracker "'d spread_tracker"
  | Ofi "'d ofi" | Trade_Flow trade_flow | Momentum_Feature "'d price_feature" | Reversion_Feature "'d price_feature"
  | Tick_Intensity "'d tick_intensity" | Volatility_Estimator "'d volatility_estimator"

datatype 'd indicator_object =
    Ema "'d ema" | Macd "'d macd" | Bollinger "'d bollinger" | Rsi "'d rsi" | Zscore "'d zscore"

text \<open>
  \<open>FeatureBase::compute\<close> and \<open>IndicatorBase::update\<close> of the object. The tick intensity may not return.
\<close>

definition feature_compute ::
  "'d sim_math \<Rightarrow> 'd \<Rightarrow> order_book \<Rightarrow> trade_history \<Rightarrow> 'd feature \<Rightarrow> ('d \<times> 'd feature) option" where
  "feature_compute mt nan book th f = (let fp = sm_fp mt in case f of
     Vwap s \<Rightarrow> Some (map_prod id Vwap (vwap_compute fp th s))
   | Twap s \<Rightarrow> Some (map_prod id Twap (twap_compute fp nan book th s))
   | Microprice \<Rightarrow> Some (microprice_compute fp nan book, Microprice)
   | Book_Depth_Ratio n \<Rightarrow> Some (book_depth_ratio_compute fp nan n book, Book_Depth_Ratio n)
   | Spread_Tracker s \<Rightarrow> Some (map_prod id Spread_Tracker (spread_compute mt book s))
   | Ofi s \<Rightarrow> Some (map_prod id Ofi (ofi_compute fp th s))
   | Trade_Flow s \<Rightarrow> Some (map_prod id Trade_Flow (trade_flow_compute fp book th s))
   | Momentum_Feature s \<Rightarrow> Some (map_prod id Momentum_Feature (momentum_compute mt th s))
   | Reversion_Feature s \<Rightarrow> Some (map_prod id Reversion_Feature (reversion_compute mt th s))
   | Tick_Intensity s \<Rightarrow> map_option (map_prod id Tick_Intensity) (intensity_compute mt th s)
   | Volatility_Estimator s \<Rightarrow> Some (map_prod id Volatility_Estimator (volatility_compute mt th s)))"

definition indicator_update :: "'d sim_math \<Rightarrow> 'd \<Rightarrow> 'd indicator_object \<Rightarrow> 'd \<times> 'd indicator_object" where
  "indicator_update mt v i = (let fp = sm_fp mt in case i of
     Ema s \<Rightarrow> map_prod id Ema (ema_update fp v s)
   | Macd s \<Rightarrow> map_prod id Macd (macd_update fp v s)
   | Bollinger s \<Rightarrow> map_prod id Bollinger (bollinger_update mt v s)
   | Rsi s \<Rightarrow> map_prod id Rsi (rsi_update fp v s)
   | Zscore s \<Rightarrow> map_prod id Zscore (zscore_update mt v s))"

definition indicator_reset :: "'d fp \<Rightarrow> 'd indicator_object \<Rightarrow> 'd indicator_object" where
  "indicator_reset fp i = (case i of Ema s \<Rightarrow> Ema (ema_reset fp s) | Macd s \<Rightarrow> Macd (macd_reset fp s)
     | Bollinger s \<Rightarrow> Bollinger (bollinger_reset fp s) | Rsi s \<Rightarrow> Rsi (rsi_reset fp s) | Zscore s \<Rightarrow> Zscore (zscore_reset fp s))"

text \<open>A catalog: the objects by name, and which of them are active.\<close>

record 'a catalog =
  ct_objects :: "string \<rightharpoonup> 'a"
  ct_active :: "string \<rightharpoonup> bool"

definition catalog_new :: "'a catalog" where
  "catalog_new = \<lparr>ct_objects = Map.empty, ct_active = Map.empty\<rparr>"

definition ct_register :: "string \<Rightarrow> 'a \<Rightarrow> 'a catalog \<Rightarrow> 'a catalog" where
  "ct_register name x c = \<lparr>ct_objects = (ct_objects c)(name \<mapsto> x), ct_active = (ct_active c)(name \<mapsto> True)\<rparr>"

definition ct_set_active :: "string \<Rightarrow> bool \<Rightarrow> 'a catalog \<Rightarrow> 'a catalog" where
  "ct_set_active name active c =
     (if ct_objects c name \<noteq> None then c\<lparr>ct_active := (ct_active c)(name \<mapsto> active)\<rparr> else c)"

definition ct_is_active :: "'a catalog \<Rightarrow> string \<Rightarrow> bool" where
  "ct_is_active c name = (case ct_active c name of Some b \<Rightarrow> b | None \<Rightarrow> False)"

definition ct_active_names :: "string list \<Rightarrow> 'a catalog \<Rightarrow> string list" where
  "ct_active_names keys c = filter (\<lambda>name. ct_active c name = Some True) keys"

definition ct_put :: "string \<Rightarrow> 'a \<Rightarrow> 'a catalog \<Rightarrow> 'a catalog" where
  "ct_put name x c = c\<lparr>ct_objects := (ct_objects c)(name \<mapsto> x)\<rparr>"

record 'd signal_registry =
  sr_features :: "'d feature catalog"
  sr_indicators :: "'d indicator_object catalog"
  sr_composites :: "'d alpha_combiner catalog"

definition register_feature :: "string \<Rightarrow> 'd feature \<Rightarrow> 'd signal_registry \<Rightarrow> 'd signal_registry" where
  "register_feature name x r = r\<lparr>sr_features := ct_register name x (sr_features r)\<rparr>"

definition register_indicator :: "string \<Rightarrow> 'd indicator_object \<Rightarrow> 'd signal_registry \<Rightarrow> 'd signal_registry" where
  "register_indicator key x r = r\<lparr>sr_indicators := ct_register key x (sr_indicators r)\<rparr>"

definition register_composite :: "string \<Rightarrow> 'd alpha_combiner \<Rightarrow> 'd signal_registry \<Rightarrow> 'd signal_registry" where
  "register_composite name x r = r\<lparr>sr_composites := ct_register name x (sr_composites r)\<rparr>"

definition get_feature :: "'d signal_registry \<Rightarrow> string \<Rightarrow> 'd feature option" where
  "get_feature r name = ct_objects (sr_features r) name"

definition get_indicator :: "'d signal_registry \<Rightarrow> string \<Rightarrow> 'd indicator_object option" where
  "get_indicator r key = ct_objects (sr_indicators r) key"

definition get_composite :: "'d signal_registry \<Rightarrow> string \<Rightarrow> 'd alpha_combiner option" where
  "get_composite r name = ct_objects (sr_composites r) name"

definition set_feature_active :: "string \<Rightarrow> bool \<Rightarrow> 'd signal_registry \<Rightarrow> 'd signal_registry" where
  "set_feature_active name active r = r\<lparr>sr_features := ct_set_active name active (sr_features r)\<rparr>"

definition set_indicator_active :: "string \<Rightarrow> bool \<Rightarrow> 'd signal_registry \<Rightarrow> 'd signal_registry" where
  "set_indicator_active key active r = r\<lparr>sr_indicators := ct_set_active key active (sr_indicators r)\<rparr>"

definition set_composite_active :: "string \<Rightarrow> bool \<Rightarrow> 'd signal_registry \<Rightarrow> 'd signal_registry" where
  "set_composite_active name active r = r\<lparr>sr_composites := ct_set_active name active (sr_composites r)\<rparr>"

definition is_feature_active :: "'d signal_registry \<Rightarrow> string \<Rightarrow> bool" where
  "is_feature_active r = ct_is_active (sr_features r)"

definition is_indicator_active :: "'d signal_registry \<Rightarrow> string \<Rightarrow> bool" where
  "is_indicator_active r = ct_is_active (sr_indicators r)"

definition is_composite_active :: "'d signal_registry \<Rightarrow> string \<Rightarrow> bool" where
  "is_composite_active r = ct_is_active (sr_composites r)"

definition active_feature_names :: "string list \<Rightarrow> 'd signal_registry \<Rightarrow> string list" where
  "active_feature_names keys r = ct_active_names keys (sr_features r)"

definition active_indicator_keys :: "string list \<Rightarrow> 'd signal_registry \<Rightarrow> string list" where
  "active_indicator_keys keys r = ct_active_names keys (sr_indicators r)"

definition active_composite_names :: "string list \<Rightarrow> 'd signal_registry \<Rightarrow> string list" where
  "active_composite_names keys r = ct_active_names keys (sr_composites r)"

definition signal_registry_clear :: "'d signal_registry \<Rightarrow> 'd signal_registry" where
  "signal_registry_clear r = \<lparr>sr_features = catalog_new, sr_indicators = catalog_new, sr_composites = catalog_new\<rparr>"

section \<open>Engine\<close>

record 'd signal_engine =
  sn_registry :: "'d signal_registry"
  sn_trade_histories :: "u64 \<rightharpoonup> trade_history"
  sn_last_features :: "'d feature_vector"

definition empty_features :: "u64 \<Rightarrow> 'd feature_vector" where
  "empty_features ts = \<lparr>fv_values = Map.empty, fv_timestamp = ts\<rparr>"

definition sn_trade_history :: "symbol \<Rightarrow> 'd signal_engine \<Rightarrow> trade_history" where
  "sn_trade_history sy e = (case sn_trade_histories e (as_key sy) of Some th \<Rightarrow> th | None \<Rightarrow> trade_history_new 10000)"

text \<open>The loops over the active names; \<open>None\<close> when a feature does not return.\<close>

fun compute_features ::
  "'d sim_math \<Rightarrow> 'd \<Rightarrow> order_book \<Rightarrow> trade_history \<Rightarrow> string list \<Rightarrow> 'd signal_registry \<Rightarrow> 'd feature_vector
   \<Rightarrow> ('d feature_vector \<times> 'd signal_registry) option" where
  "compute_features mt nan book th [] r fv = Some (fv, r)"
| "compute_features mt nan book th (name # names) r fv = (case get_feature r name of
     None \<Rightarrow> compute_features mt nan book th names r fv
   | Some f \<Rightarrow> (case feature_compute mt nan book th f of
       None \<Rightarrow> None
     | Some (v, f) \<Rightarrow> compute_features mt nan book th names (r\<lparr>sr_features := ct_put name f (sr_features r)\<rparr>) (fv_set name v fv)))"

text \<open>The part of a key before its first colon, if it has one.\<close>

definition feature_of_key :: "string \<Rightarrow> string option" where
  "feature_of_key key = (if CHR '':'' \<in> set key then Some (takeWhile (\<lambda>c. c \<noteq> CHR '':'') key) else None)"

definition apply_indicator ::
  "'d sim_math \<Rightarrow> string \<Rightarrow> 'd feature_vector \<times> 'd signal_registry \<Rightarrow> 'd feature_vector \<times> 'd signal_registry" where
  "apply_indicator mt key x = (let (fv, r) = x in case get_indicator r key of
     None \<Rightarrow> (fv, r)
   | Some i \<Rightarrow> (case feature_of_key key of
       None \<Rightarrow> (fv, r)
     | Some name \<Rightarrow>
         if \<not> fv_has fv name then (fv, r)
         else let (output, i) = indicator_update mt (fv_get fv name (fp_zero (sm_fp mt))) i
              in (fv_set key output fv, r\<lparr>sr_indicators := ct_put key i (sr_indicators r)\<rparr>)))"

definition apply_indicators ::
  "'d sim_math \<Rightarrow> string list \<Rightarrow> 'd feature_vector \<times> 'd signal_registry \<Rightarrow> 'd feature_vector \<times> 'd signal_registry" where
  "apply_indicators mt keys x = fold (apply_indicator mt) keys x"

definition direction_of :: "'d fp \<Rightarrow> 'd \<Rightarrow> signal_direction" where
  "direction_of fp strength =
     (if fp_less fp (fp_zero fp) strength then Dir_Buy else if fp_less fp strength (fp_zero fp) then Dir_Sell else Dir_Neutral)"

definition composite_signal :: "'d fp \<Rightarrow> symbol \<Rightarrow> 'd feature_vector \<Rightarrow> 'd \<Rightarrow> 'd signal" where
  "composite_signal fp sy fv strength = \<lparr>sg_symbol = sy, sg_type = Composite, sg_strength = strength,
     sg_direction = direction_of fp strength, sg_timestamp = fv_timestamp fv\<rparr>"

definition evaluate_composites ::
  "'d fp \<Rightarrow> (string \<Rightarrow> string list) \<Rightarrow> string list \<Rightarrow> 'd feature_vector \<Rightarrow> symbol \<Rightarrow> 'd signal_registry \<Rightarrow> 'd signal list" where
  "evaluate_composites fp weight_keys names fv sy r =
     List.map_filter (\<lambda>name. map_option (\<lambda>ac. composite_signal fp sy fv (combine fp (weight_keys name) fv ac)) (get_composite r name)) names"

text \<open>
  The iteration orders of the four kinds of tables that \<open>process\<close> walks.
\<close>

record iteration =
  it_features :: "string list"
  it_indicators :: "string list"
  it_composites :: "string list"
  it_weights :: "string \<Rightarrow> string list"

definition engine_process ::
  "'d sim_math \<Rightarrow> 'd \<Rightarrow> iteration \<Rightarrow> book_update \<Rightarrow> order_book \<Rightarrow> 'd signal_engine \<Rightarrow> ('d signal list \<times> 'd signal_engine) option" where
  "engine_process mt nan it upd book e =
     (let th = sn_trade_history (bu_symbol upd) e; r = sn_registry e in
      case compute_features mt nan book th (active_feature_names (it_features it) r) r (empty_features (bu_book_timestamp upd)) of
        None \<Rightarrow> None
      | Some (fv, r) \<Rightarrow>
          let (fv, r) = apply_indicators mt (active_indicator_keys (it_indicators it) r) (fv, r);
              e = e\<lparr>sn_registry := r, sn_last_features := fv,
                    sn_trade_histories := (sn_trade_histories e)(as_key (bu_symbol upd) \<mapsto> th)\<rparr>
          in Some (evaluate_composites (sm_fp mt) (it_weights it) (active_composite_names (it_composites it) r) fv (bu_symbol upd) r, e))"

definition signal_engine_reset :: "'d fp \<Rightarrow> string list \<Rightarrow> 'd signal_engine \<Rightarrow> 'd signal_engine" where
  "signal_engine_reset fp keys e =
     (let reset_one = (\<lambda>key r. case get_indicator r key of None \<Rightarrow> r
            | Some i \<Rightarrow> r\<lparr>sr_indicators := ct_put key (indicator_reset fp i) (sr_indicators r)\<rparr>)
      in e\<lparr>sn_trade_histories := Map.empty, sn_last_features := empty_features 0,
           sn_registry := fold reset_one (active_indicator_keys keys (sn_registry e)) (sn_registry e)\<rparr>)"

section \<open>What a signal carries\<close>

lemma compute_features_keeps:
  "compute_features mt nan book th names r fv = Some (fv', r') \<Longrightarrow>
     fv_timestamp fv' = fv_timestamp fv \<and> sr_composites r' = sr_composites r \<and> sr_indicators r' = sr_indicators r
     \<and> ct_active (sr_features r') = ct_active (sr_features r)"
  by (induction mt nan book th names r fv rule: compute_features.induct)
    (auto simp: fv_set_def ct_put_def split: option.splits)

lemma apply_indicators_keeps:
  "fv_timestamp (fst (apply_indicators mt keys x)) = fv_timestamp (fst x)
   \<and> sr_composites (snd (apply_indicators mt keys x)) = sr_composites (snd x)"
  by (induction keys arbitrary: x)
    (simp_all add: apply_indicators_def apply_indicator_def fv_set_def split_beta Let_def split: option.split)

lemma alpha_clamp_bounds: "\<bar>alpha_clamp exact_fp v\<bar> \<le> 1"
  by (auto simp: alpha_clamp_def)

lemma evaluate_composites_signals:
  assumes "sg \<in> set (evaluate_composites fp wk names fv sy r)"
  shows "\<exists>v. sg = composite_signal fp sy fv (alpha_clamp fp v)"
  using assms by (auto simp: evaluate_composites_def map_filter_def combine_def)

lemma engine_signals:
  assumes "engine_process mt nan it upd book e = Some (sgs, e')" "sg \<in> set sgs"
  shows "\<exists>fv v. sg = composite_signal (sm_fp mt) (bu_symbol upd) fv (alpha_clamp (sm_fp mt) v) \<and> fv_timestamp fv = bu_book_timestamp upd"
proof -
  let ?r = "sn_registry e" and ?th = "sn_trade_history (bu_symbol upd) e"
  obtain fv r where f: "compute_features mt nan book ?th (active_feature_names (it_features it) ?r) ?r
      (empty_features (bu_book_timestamp upd)) = Some (fv, r)"
    using assms(1) by (auto simp: engine_process_def Let_def split: option.splits)
  have ts: "fv_timestamp fv = bu_book_timestamp upd"
    using compute_features_keeps [OF f] by (simp add: empty_features_def)
  define x where "x = apply_indicators mt (active_indicator_keys (it_indicators it) r) (fv, r)"
  have "fv_timestamp (fst x) = bu_book_timestamp upd"
    using apply_indicators_keeps [of mt _ "(fv, r)"] ts by (simp add: x_def)
  moreover have "sg \<in> set (evaluate_composites (sm_fp mt) (it_weights it) (active_composite_names (it_composites it) (snd x))
      (fst x) (bu_symbol upd) (snd x))"
    using assms f by (auto simp: engine_process_def x_def [symmetric] Let_def split_beta)
  ultimately show ?thesis
    using evaluate_composites_signals by blast
qed

text \<open>
  C31. The strategies trade on the clock. A signal of the engine carries the time of the book update, and its type is
  always that of a composite: so the market maker, which reads the time of a signal as a price, quotes the low 32 bits of
  the time in nanoseconds plus and minus its spread (whatever the prices in the book), and a threshold strategy
  in its default configuration, which waits for momentum signals, never decides anything.
\<close>

theorem strategies_trade_on_the_clock:
  assumes "engine_process mt nan it upd book e = Some (sgs, e')" and "sg \<in> set sgs"
  shows "fair_value_from_signal sg = ucast (bu_book_timestamp upd)
    \<and> (case mm_on_signal fp sg pv s of (ds, s') \<Rightarrow>
         if (ucast (bu_book_timestamp upd) :: price) = 0 then ds = [] else mm_last_fair_value s' = ucast (bu_book_timestamp upd))
    \<and> fst (st_on_signal fp sg pv (signal_threshold_new fp)) = []"
proof -
  have sg: "sg_timestamp sg = bu_book_timestamp upd" "sg_type sg = Composite"
    using engine_signals [OF assms] by (auto simp: composite_signal_def)
  have fair: "fair_value_from_signal sg = ucast (bu_book_timestamp upd)"
    using sg by (simp add: fair_value_from_signal_def)
  have "\<not> matches_signal sg (signal_threshold_new fp)"
    using sg by (simp add: matches_signal_def signal_type_from_name_def signal_threshold_new_def)
  then show ?thesis
    using fair by (simp add: st_on_signal_def mm_on_signal_def Let_def)
qed

definition sample_signal_engine :: "real signal_engine" where
  "sample_signal_engine = \<lparr>sn_registry = register_composite ''alpha'' Map.empty
       \<lparr>sr_features = catalog_new, sr_indicators = catalog_new, sr_composites = catalog_new\<rparr>,
     sn_trade_histories = Map.empty, sn_last_features = empty_features 0\<rparr>"

definition sample_update :: book_update where
  "sample_update = \<lparr>bu_symbol = symbol_default, bu_best_bid = None, bu_best_ask = None, bu_receive_timestamp = 1, bu_book_timestamp = 34200000000000\<rparr>"

definition sample_iteration :: iteration where
  "sample_iteration = \<lparr>it_features = [], it_indicators = [], it_composites = [''alpha''], it_weights = (\<lambda>n. [])\<rparr>"

theorem strategies_trade_on_the_clock_witness:
  "\<exists>sg e'. engine_process exact_math 0 sample_iteration sample_update (order_book_new symbol_default) sample_signal_engine = Some ([sg], e')
     \<and> fair_value_from_signal sg = ucast (34200000000000 :: u64)"
proof -
  obtain sg e' where p: "engine_process exact_math 0 sample_iteration sample_update (order_book_new symbol_default) sample_signal_engine
      = Some ([sg], e')"
    by (simp add: engine_process_def sample_iteration_def sample_update_def sample_signal_engine_def register_composite_def
        active_feature_names_def active_indicator_keys_def active_composite_names_def ct_active_names_def ct_register_def
        catalog_new_def apply_indicators_def evaluate_composites_def map_filter_def get_composite_def Let_def)
  show ?thesis
    using strategies_trade_on_the_clock [OF p, of sg exact_fp "no_positions 0" "market_making_new exact_fp"] p
    by (auto simp: sample_update_def)
qed

section \<open>The order of iteration\<close>

text \<open>What a feature and an indicator contribute, if they are registered and have an input.\<close>

definition feature_value where
  "feature_value mt nan book th r name = (case get_feature r name of None \<Rightarrow> None | Some f \<Rightarrow> feature_compute mt nan book th f)"

definition feature_hangs where
  "feature_hangs mt nan book th r name \<longleftrightarrow> get_feature r name \<noteq> None \<and> feature_value mt nan book th r name = None"

definition indicator_value where
  "indicator_value mt fv r key = (case get_indicator r key of None \<Rightarrow> None
     | Some i \<Rightarrow> (case feature_of_key key of None \<Rightarrow> None
         | Some name \<Rightarrow> map_option (\<lambda>v. indicator_update mt v i) (fv_values fv name)))"

definition override :: "'k set \<Rightarrow> ('k \<rightharpoonup> 'v) \<Rightarrow> ('k \<rightharpoonup> 'v) \<Rightarrow> 'k \<rightharpoonup> 'v" where
  "override S new old = (\<lambda>k. if k \<in> S \<and> new k \<noteq> None then new k else old k)"

lemma override_none: "new k = None \<Longrightarrow> override (insert k S) new old = override S new old"
  by (auto simp: override_def fun_eq_iff)

lemma override_some:
  "k \<notin> S \<Longrightarrow> new k = Some v \<Longrightarrow> (\<And>n. n \<in> S \<Longrightarrow> new' n = new n) \<Longrightarrow> override S new' (old(k \<mapsto> v)) = override (insert k S) new old"
  by (auto simp: override_def fun_eq_iff)

lemma compute_features_exact:
  assumes "distinct names"
  shows "compute_features mt nan book th names r fv =
    (if \<exists>n\<in>set names. feature_hangs mt nan book th r n then None
     else Some (fv\<lparr>fv_values := override (set names) (\<lambda>n. map_option fst (feature_value mt nan book th r n)) (fv_values fv)\<rparr>,
       r\<lparr>sr_features := (sr_features r)\<lparr>ct_objects := override (set names) (\<lambda>n. map_option snd (feature_value mt nan book th r n))
           (ct_objects (sr_features r))\<rparr>\<rparr>))"
  using assms
proof (induction names arbitrary: r fv)
  case (Cons name names)
  show ?case
  proof (cases "get_feature r name")
    case None
    then have none: "feature_value mt nan book th r name = None" "\<not> feature_hangs mt nan book th r name"
      by (simp_all add: feature_value_def feature_hangs_def)
    then show ?thesis
      using Cons None by (simp add: override_none)
  next
    case (Some f)
    show ?thesis
    proof (cases "feature_compute mt nan book th f")
      case None
      then have "feature_hangs mt nan book th r name"
        using Some by (simp add: feature_value_def feature_hangs_def)
      then show ?thesis
        using Some None by simp
    next
      case (Some p)
      obtain v f' where vf: "feature_compute mt nan book th f = Some (v, f')"
        using Some by (cases p) auto
      let ?r = "r\<lparr>sr_features := ct_put name f' (sr_features r)\<rparr>"
      have val: "feature_value mt nan book th r name = Some (v, f')" "\<not> feature_hangs mt nan book th r name"
        using vf \<open>get_feature r name = Some f\<close> by (simp_all add: feature_value_def feature_hangs_def)
      have same: "feature_value mt nan book th ?r n = feature_value mt nan book th r n"
        "feature_hangs mt nan book th ?r n = feature_hangs mt nan book th r n" if "n \<in> set names" for n
        using that Cons.prems by (auto simp: feature_value_def feature_hangs_def get_feature_def ct_put_def)
      have ov: "override (set names) (\<lambda>n. map_option fst (feature_value mt nan book th ?r n)) ((fv_values fv)(name \<mapsto> v)) =
          override (insert name (set names)) (\<lambda>n. map_option fst (feature_value mt nan book th r n)) (fv_values fv)"
        "override (set names) (\<lambda>n. map_option snd (feature_value mt nan book th ?r n)) ((ct_objects (sr_features r))(name \<mapsto> f')) =
          override (insert name (set names)) (\<lambda>n. map_option snd (feature_value mt nan book th r n)) (ct_objects (sr_features r))"
        using same val(1) Cons.prems by (auto intro!: override_some)
      show ?thesis
        using Cons.IH [of ?r "fv_set name v fv"] Cons.prems \<open>get_feature r name = Some f\<close> vf val(2) same ov
        by (simp add: fv_set_def ct_put_def)
    qed
  qed
qed (simp add: override_def)

lemma feature_of_key_colon: "feature_of_key key = Some name \<Longrightarrow> CHR '':'' \<in> set key \<and> CHR '':'' \<notin> set name"
  by (auto simp: feature_of_key_def dest: set_takeWhileD split: if_splits)

lemma apply_indicators_exact:
  assumes "distinct keys"
  shows "apply_indicators mt keys (fv, r) =
    (fv\<lparr>fv_values := override (set keys) (\<lambda>k. map_option fst (indicator_value mt fv r k)) (fv_values fv)\<rparr>,
     r\<lparr>sr_indicators := (sr_indicators r)\<lparr>ct_objects := override (set keys) (\<lambda>k. map_option snd (indicator_value mt fv r k))
         (ct_objects (sr_indicators r))\<rparr>\<rparr>)"
  using assms
proof (induction keys arbitrary: fv r)
  case (Cons key keys)
  show ?case
  proof (cases "indicator_value mt fv r key")
    case None
    then have "apply_indicator mt key (fv, r) = (fv, r)"
      by (auto simp: apply_indicator_def indicator_value_def fv_has_def split: option.splits)
    then show ?thesis
      using Cons None by (simp add: apply_indicators_def override_none)
  next
    case (Some p)
    obtain v i' where vi: "indicator_value mt fv r key = Some (v, i')"
      using Some by (cases p) auto
    obtain name where name: "feature_of_key key = Some name"
      using vi by (auto simp: indicator_value_def split: option.splits)
    let ?fv = "fv_set key v fv" and ?r = "r\<lparr>sr_indicators := ct_put key i' (sr_indicators r)\<rparr>"
    have step: "apply_indicator mt key (fv, r) = (?fv, ?r)"
      using vi by (auto simp: apply_indicator_def indicator_value_def fv_has_def fv_get_def split: option.splits)
    have same: "indicator_value mt ?fv ?r k = indicator_value mt fv r k" if "k \<in> set keys" for k
      using that Cons.prems feature_of_key_colon [of k] feature_of_key_colon [OF name]
      by (auto simp: indicator_value_def get_indicator_def ct_put_def fv_set_def split: option.split)
    have ov: "override (set keys) (\<lambda>n. map_option fst (indicator_value mt ?fv ?r n)) ((fv_values fv)(key \<mapsto> v)) =
        override (insert key (set keys)) (\<lambda>n. map_option fst (indicator_value mt fv r n)) (fv_values fv)"
      "override (set keys) (\<lambda>n. map_option snd (indicator_value mt ?fv ?r n)) ((ct_objects (sr_indicators r))(key \<mapsto> i')) =
        override (insert key (set keys)) (\<lambda>n. map_option snd (indicator_value mt fv r n)) (ct_objects (sr_indicators r))"
      using same vi Cons.prems by (auto intro!: override_some)
    have upd: "?fv\<lparr>fv_values := X\<rparr> = fv\<lparr>fv_values := X\<rparr>" "fv_values ?fv = (fv_values fv)(key \<mapsto> v)"
      "?r\<lparr>sr_indicators := (sr_indicators ?r)\<lparr>ct_objects := Y\<rparr>\<rparr> = r\<lparr>sr_indicators := (sr_indicators r)\<lparr>ct_objects := Y\<rparr>\<rparr>"
      "ct_objects (sr_indicators ?r) = (ct_objects (sr_indicators r))(key \<mapsto> i')" for X Y
      by (simp_all add: fv_set_def ct_put_def)
    have "apply_indicators mt (key # keys) (fv, r) = apply_indicators mt keys (?fv, ?r)"
      by (simp add: apply_indicators_def step)
    also have "\<dots> = (?fv\<lparr>fv_values := override (set keys) (\<lambda>k. map_option fst (indicator_value mt ?fv ?r k)) (fv_values ?fv)\<rparr>,
        ?r\<lparr>sr_indicators := (sr_indicators ?r)\<lparr>ct_objects := override (set keys) (\<lambda>k. map_option snd (indicator_value mt ?fv ?r k))
          (ct_objects (sr_indicators ?r))\<rparr>\<rparr>)"
      using Cons.prems by (intro Cons.IH) simp
    finally show ?thesis
      unfolding upd ov list.set .
  qed
qed (simp add: apply_indicators_def override_def)

definition same_tables :: "iteration \<Rightarrow> iteration \<Rightarrow> bool" where
  "same_tables a b \<longleftrightarrow> distinct (it_features a) \<and> distinct (it_features b) \<and> set (it_features a) = set (it_features b)
     \<and> distinct (it_indicators a) \<and> distinct (it_indicators b) \<and> set (it_indicators a) = set (it_indicators b)
     \<and> mset (it_composites a) = mset (it_composites b) \<and> it_weights a = it_weights b"

lemma mset_map_filter: "mset xs = mset ys \<Longrightarrow> mset (List.map_filter f xs) = mset (List.map_filter f ys)"
  by (simp add: map_filter_def)

lemma active_names_same:
  assumes "same_tables a b"
  shows "set (active_feature_names (it_features a) r) = set (active_feature_names (it_features b) r)"
    "set (active_indicator_keys (it_indicators a) r) = set (active_indicator_keys (it_indicators b) r)"
    "mset (active_composite_names (it_composites a) r) = mset (active_composite_names (it_composites b) r)"
    "distinct (active_feature_names (it_features a) r)" "distinct (active_feature_names (it_features b) r)"
    "distinct (active_indicator_keys (it_indicators a) r)" "distinct (active_indicator_keys (it_indicators b) r)"
  using assms by (auto simp: same_tables_def active_feature_names_def active_indicator_keys_def active_composite_names_def
      ct_active_names_def)



section \<open>Decay\<close>

text \<open>
  After a half-life the signal has half of its strength, and decaying in two steps is decaying in one.
\<close>

theorem decay_half_life:
  assumes "signal_decay_new exact_math h = Some s"
  shows "decay exact_math x h s = x / 2"
    and "0 \<le> a \<Longrightarrow> 0 \<le> b \<Longrightarrow> decay exact_math (decay exact_math x a s) b s = decay exact_math x (a + b) s"
    and "decay exact_math x a s = x * decay_factor exact_math a s"
proof -
  have h: "0 < h" "sd_lambda s = ln 2 / h"
    using assms by (auto simp: signal_decay_new_def split: if_splits)
  have "exp (- (ln 2 / h) * h) = (1 / 2 :: real)"
    using h(1) by (simp add: exp_minus)
  then show "decay exact_math x h s = x / 2"
    using h by (simp add: decay_def Let_def)
  show "0 \<le> a \<Longrightarrow> 0 \<le> b \<Longrightarrow> decay exact_math (decay exact_math x a s) b s = decay exact_math x (a + b) s"
    by (auto simp: decay_def Let_def exp_diff exp_minus divide_inverse algebra_simps add_nonneg_eq_0_iff not_le)
  show "decay exact_math x a s = x * decay_factor exact_math a s"
    by (simp add: decay_def decay_factor_def Let_def)
qed

end
