(* ===== verification/Models.thy ===== *)
theory Models
  imports Signal_Types Indicators Bytes "HOL-Library.Char_ord" "HOL-Library.List_Lexorder"
begin

text \<open>
  The learning side of the signals (\<open>signals/ml\<close>): the online normalizer of features, the store of recent feature
  vectors, the linear model trained by recursive least squares, the file a model is saved to, and the cache of
  predictions. The iteration order of a hash map is a list of its keys, an argument.
\<close>

section \<open>Normalizer\<close>

record 'd feature_stats =
  fs_count :: nat
  fs_mean :: 'd
  fs_m2 :: 'd

type_synonym 'd normalizer = "string \<rightharpoonup> 'd feature_stats"

definition feature_stats_new :: "'d fp \<Rightarrow> 'd feature_stats" where
  "feature_stats_new fp = \<lparr>fs_count = 0, fs_mean = fp_zero fp, fs_m2 = fp_zero fp\<rparr>"

definition stats_variance :: "'d fp \<Rightarrow> 'd feature_stats \<Rightarrow> 'd" where
  "stats_variance fp s = (if fs_count s < 2 then fp_zero fp else fp_div fp (fs_m2 s) (fp_of_nat fp (fs_count s)))"

definition stats_stddev :: "'d sim_math \<Rightarrow> 'd feature_stats \<Rightarrow> 'd" where
  "stats_stddev mt s =
     (let fp = sm_fp mt; var = stats_variance fp s in if fp_less fp (fp_zero fp) var then sm_sqrt mt var else fp_zero fp)"

definition norm_stats :: "'d fp \<Rightarrow> 'd normalizer \<Rightarrow> string \<Rightarrow> 'd feature_stats" where
  "norm_stats fp nz name = (case nz name of Some s \<Rightarrow> s | None \<Rightarrow> feature_stats_new fp)"

definition norm_update :: "'d fp \<Rightarrow> string \<Rightarrow> 'd \<Rightarrow> 'd normalizer \<Rightarrow> 'd normalizer" where
  "norm_update fp name v nz =
     (let s = norm_stats fp nz name; n = fs_count s + 1; delta = fp_sub fp v (fs_mean s);
          mean = fp_add fp (fs_mean s) (fp_div fp delta (fp_of_nat fp n)); delta2 = fp_sub fp v mean
      in nz(name \<mapsto> \<lparr>fs_count = n, fs_mean = mean, fs_m2 = fp_add fp (fs_m2 s) (fp_mul fp delta delta2)\<rparr>))"

definition normalize :: "'d sim_math \<Rightarrow> 'd normalizer \<Rightarrow> string \<Rightarrow> 'd \<Rightarrow> 'd" where
  "normalize mt nz name raw_value =
     (let fp = sm_fp mt in case nz name of
        None \<Rightarrow> fp_zero fp
      | Some s \<Rightarrow>
          if fs_count s < 2 then fp_zero fp
          else let sd = stats_stddev mt s in
            if fp_eq fp sd (fp_zero fp) then fp_zero fp else fp_div fp (fp_sub fp raw_value (fs_mean s)) sd)"

definition norm_update_vector :: "'d fp \<Rightarrow> string list \<Rightarrow> 'd feature_vector \<Rightarrow> 'd normalizer \<Rightarrow> 'd normalizer" where
  "norm_update_vector fp keys fv nz =
     fold (\<lambda>name nz. case fv_values fv name of None \<Rightarrow> nz | Some v \<Rightarrow> norm_update fp name v nz) keys nz"

definition normalize_vector :: "'d sim_math \<Rightarrow> 'd normalizer \<Rightarrow> 'd feature_vector \<Rightarrow> 'd feature_vector" where
  "normalize_vector mt nz fv = fv\<lparr>fv_values := (\<lambda>name. map_option (normalize mt nz name) (fv_values fv name))\<rparr>"

definition norm_reset :: "'d normalizer \<Rightarrow> 'd normalizer" where
  "norm_reset nz = Map.empty"

section \<open>Feature store\<close>

record 'd feature_store =
  fst_max_depth :: nat
  fst_buffer :: "'d feature_vector list"

definition feature_store_new :: "nat \<Rightarrow> 'd feature_store" where
  "feature_store_new n = \<lparr>fst_max_depth = n, fst_buffer = []\<rparr>"

definition store_push :: "'d feature_vector \<Rightarrow> 'd feature_store \<Rightarrow> 'd feature_store" where
  "store_push fv s =
     (let b = (if fst_max_depth s \<le> length (fst_buffer s) then tl (fst_buffer s) else fst_buffer s)
      in s\<lparr>fst_buffer := b @ [fv]\<rparr>)"

definition get_window :: "nat \<Rightarrow> 'd feature_store \<Rightarrow> 'd feature_vector list" where
  "get_window n s = (if length (fst_buffer s) \<le> n then fst_buffer s else drop (length (fst_buffer s) - n) (fst_buffer s))"

text \<open>The columns are collected in a \<open>std::set\<close>, so they are sorted and distinct.\<close>

definition get_matrix ::
  "'d fp \<Rightarrow> ('d feature_vector \<Rightarrow> string list) \<Rightarrow> nat \<Rightarrow> 'd feature_store \<Rightarrow> string list \<times> 'd list list" where
  "get_matrix fp names_of n s =
     (let window = get_window n s in
      if window = [] then ([], [])
      else let columns = sort (remdups (concat (map names_of window)))
           in (columns, map (\<lambda>fv. map (\<lambda>col. fv_get fv col (fp_zero fp)) columns) window))"

definition feature_store_clear :: "'d feature_store \<Rightarrow> 'd feature_store" where
  "feature_store_clear s = s\<lparr>fst_buffer := []\<rparr>"

section \<open>Linear model\<close>

record 'd linear_model =
  lm_num_features :: nat
  lm_lambda :: 'd
  lm_weights :: "'d list"
  lm_bias :: 'd
  lm_num_observations :: nat
  lm_P :: "'d list"

text \<open>The matrix is one vector, row by row.\<close>

definition lm_at :: "'d linear_model \<Rightarrow> nat \<Rightarrow> nat \<Rightarrow> 'd" where
  "lm_at m i j = lm_P m ! (i * lm_num_features m + j)"

definition scaled_identity :: "'d fp \<Rightarrow> nat \<Rightarrow> 'd \<Rightarrow> 'd list" where
  "scaled_identity fp n lambda =
     (let inv_lambda = fp_div fp (fp_of_nat fp 1) lambda
      in map (\<lambda>c. if c div n = c mod n then inv_lambda else fp_zero fp) [0..<n * n])"

definition linear_model_new :: "'d fp \<Rightarrow> nat \<Rightarrow> 'd \<Rightarrow> 'd linear_model" where
  "linear_model_new fp n lambda = \<lparr>lm_num_features = n, lm_lambda = lambda, lm_weights = replicate n (fp_zero fp),
     lm_bias = fp_zero fp, lm_num_observations = 0, lm_P = scaled_identity fp n lambda\<rparr>"

text \<open>\<open>for (i = 0; i < n; ++i) acc += f(i)\<close>\<close>

definition sum_loop :: "'d fp \<Rightarrow> 'd \<Rightarrow> nat \<Rightarrow> (nat \<Rightarrow> 'd) \<Rightarrow> 'd" where
  "sum_loop fp acc n f = foldl (\<lambda>acc i. fp_add fp acc (f i)) acc [0..<n]"

definition lm_predict :: "'d fp \<Rightarrow> 'd list \<Rightarrow> 'd linear_model \<Rightarrow> 'd" where
  "lm_predict fp x m = sum_loop fp (lm_bias m) (lm_num_features m) (\<lambda>i. fp_mul fp (lm_weights m ! i) (x ! i))"

text \<open>A feature vector of another length fails an assertion; below it has the length of the model.\<close>

definition lm_train :: "'d fp \<Rightarrow> 'd list \<Rightarrow> 'd \<Rightarrow> 'd linear_model \<Rightarrow> 'd linear_model" where
  "lm_train fp x target m =
     (let n = lm_num_features m; obs = lm_num_observations m + 1; zero = fp_zero fp;
          Px = map (\<lambda>i. sum_loop fp zero n (\<lambda>j. fp_mul fp (lm_at m i j) (x ! j))) [0..<n];
          xPx = sum_loop fp zero n (\<lambda>i. fp_mul fp (x ! i) (Px ! i));
          denom = fp_add fp (fp_of_nat fp 1) xPx;
          k = map (\<lambda>i. fp_div fp (Px ! i) denom) [0..<n];
          error = fp_sub fp target (lm_predict fp x m);
          xTP = map (\<lambda>j. sum_loop fp zero n (\<lambda>i. fp_mul fp (x ! i) (lm_at m i j))) [0..<n]
      in m\<lparr>lm_num_observations := obs,
           lm_weights := map (\<lambda>i. fp_add fp (lm_weights m ! i) (fp_mul fp (k ! i) error)) [0..<n],
           lm_bias := fp_add fp (lm_bias m) (fp_div fp error (fp_of_nat fp obs)),
           lm_P := map (\<lambda>c. fp_sub fp (lm_P m ! c) (fp_mul fp (k ! (c div n)) (xTP ! (c mod n)))) [0..<n * n]\<rparr>)"

definition lm_set_weights :: "'d list \<Rightarrow> 'd linear_model \<Rightarrow> 'd linear_model" where
  "lm_set_weights w m = m\<lparr>lm_weights := w\<rparr>"

definition lm_reset :: "'d fp \<Rightarrow> 'd linear_model \<Rightarrow> 'd linear_model" where
  "lm_reset fp m = m\<lparr>lm_weights := map (\<lambda>x. fp_zero fp) (lm_weights m), lm_bias := fp_zero fp, lm_num_observations := 0,
     lm_P := scaled_identity fp (lm_num_features m) (lm_lambda m)\<rparr>"

section \<open>Model files\<close>

text \<open>
  The bytes of a double are arguments: \<open>enc\<close> writes the eight bytes and \<open>dec\<close> reads them. A file that cannot be opened is
  \<open>None\<close>; the writer assumes that every write succeeds.
\<close>

definition model_magic :: u32 where
  "model_magic = 0x4D4C4D44"

definition model_version :: u32 where
  "model_version = 1"

datatype model_error = Cannot_Open | No_Header | Bad_Magic | Bad_Version | No_Features | No_Bias | No_Weights | No_Lambda

definition model_save :: "('d \<Rightarrow> bytes) \<Rightarrow> 'd linear_model \<Rightarrow> bytes" where
  "model_save enc m = put_u32 model_magic @ put_u32 model_version @ put_u32 (of_nat (lm_num_features m)) @ enc (lm_bias m)
     @ concat (map enc (lm_weights m)) @ enc (lm_lambda m)"

text \<open>\<open>file.read\<close> of a number of bytes at the position reached so far.\<close>

definition read_n :: "nat \<Rightarrow> bytes \<Rightarrow> (bytes \<times> bytes) option" where
  "read_n n bs = (if n \<le> length bs then Some (take n bs, drop n bs) else None)"

definition doubles_of :: "(bytes \<Rightarrow> 'd) \<Rightarrow> nat \<Rightarrow> bytes \<Rightarrow> 'd list" where
  "doubles_of dec n bs = map (\<lambda>i. dec (take 8 (drop (8 * i) bs))) [0..<n]"

definition model_load :: "'d fp \<Rightarrow> (bytes \<Rightarrow> 'd) \<Rightarrow> bytes option \<Rightarrow> model_error + 'd linear_model" where
  "model_load fp dec file = (case file of None \<Rightarrow> Inl Cannot_Open | Some bs \<Rightarrow>
     case read_n 12 bs of None \<Rightarrow> Inl No_Header | Some (header, bs) \<Rightarrow>
     let magic = get_u32 header; version = get_u32 (drop 4 header); num_features = get_u32 (drop 8 header) in
     if magic \<noteq> model_magic then Inl Bad_Magic
     else if version \<noteq> model_version then Inl Bad_Version
     else if num_features = 0 then Inl No_Features
     else case read_n 8 bs of None \<Rightarrow> Inl No_Bias | Some (bias, bs) \<Rightarrow>
     case read_n (unat num_features * 8) bs of None \<Rightarrow> Inl No_Weights | Some (weights, bs) \<Rightarrow>
     case read_n 8 bs of None \<Rightarrow> Inl No_Lambda | Some (lambda, bs) \<Rightarrow>
     Inr (lm_set_weights (doubles_of dec (unat num_features) weights) (linear_model_new fp (unat num_features) (dec lambda))))"

section \<open>Prediction cache\<close>

text \<open>
  A list of nodes, the most recent first, and a map from keys to nodes. An iterator into the list is the number of
  the node it points to, which moving the node in the list does not change.
\<close>

type_synonym cache_key = "symbol \<times> u64"

record 'd cache_node =
  cn_id :: nat
  cn_key :: cache_key
  cn_prediction :: 'd

record 'd prediction_cache =
  pc_max_size :: nat
  pc_bucket_width_ns :: u64
  pc_hits :: u64
  pc_misses :: u64
  pc_lru :: "'d cache_node list"
  pc_map :: "cache_key \<rightharpoonup> nat"
  pc_next_id :: nat

definition prediction_cache_new :: "nat \<Rightarrow> u64 \<Rightarrow> 'd prediction_cache" where
  "prediction_cache_new n w = \<lparr>pc_max_size = n, pc_bucket_width_ns = w, pc_hits = 0, pc_misses = 0, pc_lru = [],
     pc_map = Map.empty, pc_next_id = 0\<rparr>"

definition make_key :: "symbol \<Rightarrow> u64 \<Rightarrow> 'd prediction_cache \<Rightarrow> cache_key" where
  "make_key sy ts c = (sy, ts div pc_bucket_width_ns c)"

text \<open>\<open>lru_.splice(lru_.begin(), lru_, it)\<close>\<close>

definition splice_front :: "nat \<Rightarrow> 'd cache_node list \<Rightarrow> 'd cache_node list" where
  "splice_front it l = filter (\<lambda>x. cn_id x = it) l @ filter (\<lambda>x. cn_id x \<noteq> it) l"

definition cache_put :: "symbol \<Rightarrow> u64 \<Rightarrow> 'd \<Rightarrow> 'd prediction_cache \<Rightarrow> 'd prediction_cache" where
  "cache_put sy ts prediction c =
     (let key = make_key sy ts c in case pc_map c key of
        Some it \<Rightarrow>
          let l = map (\<lambda>x. if cn_id x = it then x\<lparr>cn_prediction := prediction\<rparr> else x) (pc_lru c)
          in c\<lparr>pc_lru := splice_front it l\<rparr>
      | None \<Rightarrow>
          let c = (if pc_max_size c \<le> card (dom (pc_map c))
                then let back = last (pc_lru c)
                     in c\<lparr>pc_map := (pc_map c)(cn_key back := None), pc_lru := butlast (pc_lru c)\<rparr>
                else c)
          in c\<lparr>pc_lru := \<lparr>cn_id = pc_next_id c, cn_key = key, cn_prediction = prediction\<rparr> # pc_lru c,
               pc_map := (pc_map c)(key \<mapsto> pc_next_id c), pc_next_id := pc_next_id c + 1\<rparr>)"

definition cache_get :: "symbol \<Rightarrow> u64 \<Rightarrow> 'd prediction_cache \<Rightarrow> 'd option \<times> 'd prediction_cache" where
  "cache_get sy ts c =
     (let key = make_key sy ts c in case pc_map c key of
        None \<Rightarrow> (None, c\<lparr>pc_misses := pc_misses c + 1\<rparr>)
      | Some it \<Rightarrow>
          let l = splice_front it (pc_lru c)
          in (Some (cn_prediction (hd l)), c\<lparr>pc_hits := pc_hits c + 1, pc_lru := l\<rparr>))"

definition cache_clear :: "'d prediction_cache \<Rightarrow> 'd prediction_cache" where
  "cache_clear c = c\<lparr>pc_lru := [], pc_map := Map.empty, pc_hits := 0, pc_misses := 0\<rparr>"

section \<open>The cache is a least recently used list\<close>

text \<open>The specification: a list of keys with their predictions, the most recently used first.\<close>

type_synonym 'd lru = "(cache_key \<times> 'd) list"

definition lru_put :: "nat \<Rightarrow> cache_key \<Rightarrow> 'd \<Rightarrow> 'd lru \<Rightarrow> 'd lru" where
  "lru_put n k v l = take n ((k, v) # filter (\<lambda>e. fst e \<noteq> k) l)"

definition lru_get :: "cache_key \<Rightarrow> 'd lru \<Rightarrow> 'd option \<times> 'd lru" where
  "lru_get k l = (case map_of l k of None \<Rightarrow> (None, l) | Some v \<Rightarrow> (Some v, (k, v) # filter (\<lambda>e. fst e \<noteq> k) l))"

definition lru_of :: "'d cache_node list \<Rightarrow> 'd lru" where
  "lru_of l = map (\<lambda>x. (cn_key x, cn_prediction x)) l"

definition cache_ok :: "'d prediction_cache \<Rightarrow> bool" where
  "cache_ok c \<longleftrightarrow> 0 < pc_max_size c \<and> length (pc_lru c) \<le> pc_max_size c
     \<and> distinct (map cn_id (pc_lru c)) \<and> distinct (map cn_key (pc_lru c)) \<and> list_all (\<lambda>x. cn_id x < pc_next_id c) (pc_lru c)
     \<and> pc_map c = map_of (map (\<lambda>x. (cn_key x, cn_id x)) (pc_lru c))"

lemma lru_of_simps [simp]:
  "lru_of [] = []" "lru_of (x # l) = (cn_key x, cn_prediction x) # lru_of l" "lru_of (l @ l') = lru_of l @ lru_of l'"
  "length (lru_of l) = length l"
  by (simp_all add: lru_of_def)

lemma lru_filter: "k \<notin> cn_key ` set l \<Longrightarrow> filter (\<lambda>e. fst e \<noteq> k) (lru_of l) = lru_of l"
  by (induction l) auto

lemma lru_map_of: "k \<notin> cn_key ` set l \<Longrightarrow> map_of (lru_of l) k = None"
  by (induction l) auto

lemma cache_size: "cache_ok c \<Longrightarrow> card (dom (pc_map c)) = length (pc_lru c)"
  by (simp add: cache_ok_def dom_map_of_conv_image_fst image_image comp_def distinct_card [of "map cn_key (pc_lru c)", simplified])

lemma cache_node_split:
  assumes "cache_ok c" "pc_map c k = Some it"
  obtains ys x zs where "pc_lru c = ys @ x # zs" "cn_key x = k" "cn_id x = it"
    "k \<notin> cn_key ` set (ys @ zs)" "it \<notin> cn_id ` set (ys @ zs)"
proof -
  have "(k, it) \<in> set (map (\<lambda>x. (cn_key x, cn_id x)) (pc_lru c))"
    using assms map_of_SomeD [of "map (\<lambda>x. (cn_key x, cn_id x)) (pc_lru c)" k it] by (simp add: cache_ok_def)
  then obtain x where "x \<in> set (pc_lru c)" "cn_key x = k" "cn_id x = it"
    by auto
  then obtain ys zs where "pc_lru c = ys @ x # zs"
    by (meson split_list)
  then show thesis
    using that [of ys x zs] assms(1) \<open>cn_key x = k\<close> \<open>cn_id x = it\<close> by (auto simp: cache_ok_def image_Un)
qed

lemma other_nodes:
  "it \<notin> cn_id ` set l \<Longrightarrow> filter (\<lambda>x. cn_id x = it) l = [] \<and> filter (\<lambda>x. cn_id x \<noteq> it) l = l
    \<and> map (\<lambda>x. if cn_id x = it then f x else x) l = l"
  by (induction l) auto

lemma splice_split:
  assumes "it \<notin> cn_id ` set (ys @ zs)" "cn_id x = it"
  shows "splice_front it (ys @ x # zs) = x # ys @ zs"
    "map (\<lambda>x. if cn_id x = it then x\<lparr>cn_prediction := v\<rparr> else x) (ys @ x # zs) = ys @ x\<lparr>cn_prediction := v\<rparr> # zs"
  using assms other_nodes [of it ys] other_nodes [of it zs] by (simp_all add: splice_front_def image_Un)

lemma cache_ok_moved:
  assumes "cache_ok c" "pc_lru c = ys @ x # zs" "cn_key y = cn_key x" "cn_id y = cn_id x"
  shows "cache_ok (c\<lparr>pc_lru := y # ys @ zs\<rparr>)"
proof -
  have "map_of (map (\<lambda>x. (cn_key x, cn_id x)) (ys @ x # zs)) = map_of (map (\<lambda>x. (cn_key x, cn_id x)) (y # ys @ zs))"
    using assms by (intro map_of_eqI) (auto simp: cache_ok_def map_add_def fun_eq_iff split: option.split dest!: map_of_SomeD)
  then show ?thesis
    using assms by (auto simp: cache_ok_def)
qed

lemma map_of_without_last:
  assumes "k \<notin> fst ` set xs"
  shows "(map_of (xs @ [(k, v)]))(k := None) = map_of xs"
proof
  fix x
  have "map_of xs k = None"
    using assms by (simp add: map_of_eq_None_iff)
  then show "((map_of (xs @ [(k, v)]))(k := None)) x = map_of xs x"
    by (auto simp: map_add_def split: option.split)
qed

lemma cache_put_refines:
  assumes "cache_ok c"
  shows "cache_ok (cache_put sy ts v c) \<and> pc_max_size (cache_put sy ts v c) = pc_max_size c
    \<and> pc_bucket_width_ns (cache_put sy ts v c) = pc_bucket_width_ns c
    \<and> lru_of (pc_lru (cache_put sy ts v c)) = lru_put (pc_max_size c) (make_key sy ts c) v (lru_of (pc_lru c))"
proof (cases "pc_map c (make_key sy ts c)")
  case (Some it)
  obtain ys x zs where l: "pc_lru c = ys @ x # zs" "cn_key x = make_key sy ts c" "cn_id x = it"
      "make_key sy ts c \<notin> cn_key ` set (ys @ zs)" "it \<notin> cn_id ` set (ys @ zs)"
    using cache_node_split [OF assms Some] by blast
  have put: "cache_put sy ts v c = c\<lparr>pc_lru := x\<lparr>cn_prediction := v\<rparr> # ys @ zs\<rparr>"
    using Some splice_split [OF l(5,3)] splice_split(1) [OF l(5), of "x\<lparr>cn_prediction := v\<rparr>"] l(1,3)
    by (simp add: cache_put_def Let_def)
  have "filter (\<lambda>e. fst e \<noteq> make_key sy ts c) (lru_of (pc_lru c)) = lru_of (ys @ zs)"
    using l lru_filter [of "make_key sy ts c" "ys @ zs"] by simp
  moreover have "Suc (length (ys @ zs)) \<le> pc_max_size c"
    using assms l(1) by (simp add: cache_ok_def)
  ultimately show ?thesis
    using put cache_ok_moved [OF assms l(1), of "x\<lparr>cn_prediction := v\<rparr>"] l(2) by (simp add: lru_put_def)
next
  case None
  let ?k = "make_key sy ts c"
  have k: "?k \<notin> cn_key ` set (pc_lru c)"
    using None assms by (simp add: cache_ok_def map_of_eq_None_iff image_image)
  define c' where "c' = (if pc_max_size c \<le> card (dom (pc_map c))
      then c\<lparr>pc_map := (pc_map c)(cn_key (last (pc_lru c)) := None), pc_lru := butlast (pc_lru c)\<rparr> else c)"
  have c': "cache_ok c' \<and> length (pc_lru c') < pc_max_size c \<and> pc_max_size c' = pc_max_size c \<and> pc_next_id c' = pc_next_id c
      \<and> pc_lru c' = take (pc_max_size c - 1) (pc_lru c) \<and> pc_bucket_width_ns c' = pc_bucket_width_ns c"
  proof (cases "pc_max_size c \<le> length (pc_lru c)")
    case True
    then obtain l x where l: "pc_lru c = l @ [x]" "pc_max_size c = Suc (length l)"
      using assms by (cases "pc_lru c" rule: rev_cases) (auto simp: cache_ok_def)
    then show ?thesis
      using assms True map_of_without_last [of "cn_key x" "map (\<lambda>x. (cn_key x, cn_id x)) l" "cn_id x"]
      by (simp add: c'_def cache_size) (auto simp: cache_ok_def image_image)
  next
    case False
    then show ?thesis
      using assms by (simp add: c'_def cache_size)
  qed
  have put: "cache_put sy ts v c = c'\<lparr>pc_lru := \<lparr>cn_id = pc_next_id c', cn_key = ?k, cn_prediction = v\<rparr> # pc_lru c',
      pc_map := (pc_map c')(?k \<mapsto> pc_next_id c'), pc_next_id := pc_next_id c' + 1\<rparr>"
    using None by (simp add: cache_put_def c'_def Let_def)
  have "?k \<notin> cn_key ` set (pc_lru c')" "pc_next_id c' \<notin> cn_id ` set (pc_lru c')"
    using k c' by (auto simp: cache_ok_def list_all_iff dest: in_set_takeD)
  then have ok: "cache_ok (cache_put sy ts v c)"
    using c' unfolding put by (auto simp: cache_ok_def list_all_iff less_Suc_eq)
  have "lru_of (take m l) = take m (lru_of l)" for m and l :: "'a cache_node list"
    by (simp add: lru_of_def take_map)
  then show ?thesis
    using ok c' lru_filter [OF k] assms unfolding put by (simp add: lru_put_def take_Cons' cache_ok_def)
qed

lemma cache_get_refines:
  assumes "cache_ok c"
  shows "cache_ok (snd (cache_get sy ts c)) \<and> pc_max_size (snd (cache_get sy ts c)) = pc_max_size c
    \<and> pc_bucket_width_ns (snd (cache_get sy ts c)) = pc_bucket_width_ns c
    \<and> (fst (cache_get sy ts c), lru_of (pc_lru (snd (cache_get sy ts c)))) = lru_get (make_key sy ts c) (lru_of (pc_lru c))"
proof (cases "pc_map c (make_key sy ts c)")
  case (Some it)
  obtain ys x zs where l: "pc_lru c = ys @ x # zs" "cn_key x = make_key sy ts c" "cn_id x = it"
      "make_key sy ts c \<notin> cn_key ` set (ys @ zs)" "it \<notin> cn_id ` set (ys @ zs)"
    using cache_node_split [OF assms Some] by blast
  have get: "cache_get sy ts c = (Some (cn_prediction x), c\<lparr>pc_hits := pc_hits c + 1, pc_lru := x # ys @ zs\<rparr>)"
    using Some splice_split(1) [OF l(5,3)] l(1) by (simp add: cache_get_def Let_def)
  have "filter (\<lambda>e. fst e \<noteq> make_key sy ts c) (lru_of (pc_lru c)) = lru_of (ys @ zs)"
    "map_of (lru_of (pc_lru c)) (make_key sy ts c) = Some (cn_prediction x)"
    using l lru_filter [of "make_key sy ts c" "ys @ zs"] lru_map_of [of "make_key sy ts c" ys]
    by (simp_all add: image_Un map_add_def)
  then show ?thesis
    using get cache_ok_moved [OF assms l(1) refl refl] l(2) by (simp add: lru_get_def cache_ok_def)
next
  case None
  then have "map_of (lru_of (pc_lru c)) (make_key sy ts c) = None"
    using assms by (simp add: cache_ok_def lru_map_of map_of_eq_None_iff image_image)
  then show ?thesis
    using None assms by (simp add: cache_get_def lru_get_def cache_ok_def)
qed

datatype 'd cache_op = Put symbol u64 'd | Get symbol u64

fun cache_run :: "'d cache_op list \<Rightarrow> 'd prediction_cache \<Rightarrow> 'd option list \<times> 'd prediction_cache" where
  "cache_run [] c = ([], c)"
| "cache_run (Put sy ts v # ops) c = cache_run ops (cache_put sy ts v c)"
| "cache_run (Get sy ts # ops) c =
     (let (r, c) = cache_get sy ts c; (rs, c) = cache_run ops c in (r # rs, c))"

fun lru_run :: "nat \<Rightarrow> u64 \<Rightarrow> 'd cache_op list \<Rightarrow> 'd lru \<Rightarrow> 'd option list \<times> 'd lru" where
  "lru_run n w [] l = ([], l)"
| "lru_run n w (Put sy ts v # ops) l = lru_run n w ops (lru_put n (sy, ts div w) v l)"
| "lru_run n w (Get sy ts # ops) l =
     (let (r, l) = lru_get (sy, ts div w) l; (rs, l) = lru_run n w ops l in (r # rs, l))"

text \<open>
  C29. The prediction cache refines a least recently used list. On every sequence of insertions and lookups the
  cache of linked nodes with a map of iterators gives the answers of a list of at most \<open>max_size\<close> entries, where
  inserting puts the entry of its symbol and time bucket in front and drops what exceeds the size, and a
  lookup moves the entry it finds to the front.
\<close>

theorem cache_refines_lru:
  "fst (cache_run ops (prediction_cache_new (Suc n) w)) = fst (lru_run (Suc n) w ops [])
   \<and> lru_of (pc_lru (snd (cache_run ops (prediction_cache_new (Suc n) w)))) = snd (lru_run (Suc n) w ops [])"
proof -
  have "fst (cache_run ops c) = fst (lru_run m w ops (lru_of (pc_lru c)))
      \<and> lru_of (pc_lru (snd (cache_run ops c))) = snd (lru_run m w ops (lru_of (pc_lru c)))"
    if "cache_ok c" "pc_max_size c = m" "pc_bucket_width_ns c = w" for c m
    using that
  proof (induction ops arbitrary: c)
    case (Cons x ops)
    show ?case
    proof (cases x)
      case (Put sy ts v)
      then show ?thesis
        using cache_put_refines [OF Cons.prems(1), of sy ts v] Cons.IH [of "cache_put sy ts v c"] Cons.prems(2,3)
        by (simp add: make_key_def)
    next
      case (Get sy ts)
      obtain r l where get: "lru_get (sy, ts div w) (lru_of (pc_lru c)) = (r, l)"
        by fastforce
      then show ?thesis
        using Get cache_get_refines [OF Cons.prems(1), of sy ts] Cons.IH [of "snd (cache_get sy ts c)"] Cons.prems(2,3)
        by (simp add: make_key_def split_beta Let_def)
    qed
  qed simp
  from this [of "prediction_cache_new (Suc n) w" "Suc n"] show ?thesis
    by (simp add: cache_ok_def prediction_cache_new_def)
qed

section \<open>Online training\<close>

lemma sum_loop_exact [simp]: "sum_loop exact_fp a n f = a + (\<Sum>i<n. f i)"
  by (simp add: sum_loop_def foldl_plus_map interv_sum_list_conv_sum_set_nat atLeast0LessThan)

text \<open>The matrix of ridge regression on a list of feature vectors.\<close>

definition gram :: "real \<Rightarrow> real list list \<Rightarrow> nat \<Rightarrow> nat \<Rightarrow> real" where
  "gram lambda xs i j = (if i = j then lambda else 0) + (\<Sum>x\<leftarrow>xs. x ! i * x ! j)"

definition inverse_on :: "nat \<Rightarrow> (nat \<Rightarrow> nat \<Rightarrow> real) \<Rightarrow> (nat \<Rightarrow> nat \<Rightarrow> real) \<Rightarrow> bool" where
  "inverse_on n A P \<longleftrightarrow> (\<forall>i<n. \<forall>j<n. (\<Sum>k<n. A i k * P k j) = (if i = j then 1 else 0))"

lemma gram_snoc: "gram lambda (xs @ [x]) i j = gram lambda xs i j + x ! i * x ! j"
  by (simp add: gram_def)

lemma gram_quadratic:
  "(\<Sum>i<n. \<Sum>k<n. y i * (gram lambda xs i k * y k)) = lambda * (\<Sum>i<n. (y i)\<^sup>2) + (\<Sum>x\<leftarrow>xs. (\<Sum>i<n. x ! i * y i)\<^sup>2)"
proof (induction xs rule: rev_induct)
  case Nil
  have "(\<Sum>k<n. y i * ((if i = k then lambda else 0) * y k)) = lambda * (y i)\<^sup>2" if "i < n" for i
    using that by (simp add: if_distrib [of "\<lambda>z. y i * (z * _)"] power2_eq_square cong: if_cong)
  then show ?case
    by (simp add: gram_def sum_distrib_left)
next
  case (snoc x xs)
  have "(\<Sum>i<n. \<Sum>k<n. y i * (x ! i * x ! k * y k)) = (\<Sum>i<n. x ! i * y i)\<^sup>2"
    by (simp add: power2_eq_square sum_product mult_ac)
  then show ?case
    using snoc by (simp add: gram_snoc algebra_simps sum.distrib)
qed

definition solves :: "nat \<Rightarrow> (nat \<Rightarrow> nat \<Rightarrow> real) \<Rightarrow> (nat \<Rightarrow> real) \<Rightarrow> (nat \<Rightarrow> real) \<Rightarrow> bool" where
  "solves n A w r \<longleftrightarrow> (\<forall>i<n. (\<Sum>k<n. A i k * w k) = r i)"

lemma inverse_times:
  assumes "inverse_on n A P"
  shows "solves n A (\<lambda>k. \<Sum>l<n. P k l * x l) x"
  unfolding solves_def
proof (intro allI impI)
  fix i assume i: "i < n"
  have "(\<Sum>k<n. A i k * (\<Sum>l<n. P k l * x l)) = (\<Sum>l<n. (\<Sum>k<n. A i k * P k l) * x l)"
    by (simp add: sum_distrib_left sum_distrib_right mult.assoc) (rule sum.swap)
  also have "\<dots> = (\<Sum>l<n. (if i = l then 1 else 0) * x l)"
    using assms i by (auto simp: inverse_on_def intro!: sum.cong)
  also have "\<dots> = x i"
    using i by (simp add: if_distrib [of "\<lambda>z. z * _"] cong: if_cong)
  finally show "(\<Sum>k<n. A i k * (\<Sum>l<n. P k l * x l)) = x i" .
qed

lemma gram_inverse_positive:
  assumes "inverse_on n (gram lambda xs) P" "0 \<le> lambda"
  shows "0 \<le> (\<Sum>i<n. x i * (\<Sum>l<n. P i l * x l))"
proof -
  let ?y = "\<lambda>k. \<Sum>l<n. P k l * x l"
  have "x i * ?y i = (\<Sum>k<n. ?y i * (gram lambda xs i k * ?y k))" if "i < n" for i
    using inverse_times [OF assms(1), of x] that by (simp add: solves_def mult.commute flip: sum_distrib_left)
  then have "(\<Sum>i<n. x i * ?y i) = lambda * (\<Sum>i<n. (?y i)\<^sup>2) + (\<Sum>v\<leftarrow>xs. (\<Sum>i<n. v ! i * ?y i)\<^sup>2)"
    unfolding gram_quadratic [symmetric] by (intro sum.cong) auto
  moreover have "0 \<le> lambda * (\<Sum>i<n. (?y i)\<^sup>2)"
    using assms(2) by (simp add: sum_nonneg)
  moreover have "0 \<le> (\<Sum>v\<leftarrow>xs. (\<Sum>i<n. v ! i * ?y i)\<^sup>2)"
    by (rule sum_list_nonneg) auto
  ultimately show ?thesis
    by linarith
qed

text \<open>The update of an inverse when the product of a vector with itself is added to the matrix.\<close>

lemma sherman_morrison:
  assumes inv: "inverse_on n A P" and "D = 1 + (\<Sum>i<n. x i * y i)" "D \<noteq> 0"
    and y: "\<And>i. i < n \<Longrightarrow> y i = (\<Sum>l<n. P i l * x l)" and z: "\<And>j. j < n \<Longrightarrow> z j = (\<Sum>l<n. x l * P l j)"
  shows "solves n (\<lambda>i j. A i j + x i * x j) (\<lambda>k. y k / D) x"
    and "inverse_on n (\<lambda>i j. A i j + x i * x j) (\<lambda>i j. P i j - y i / D * z j)"
proof -
  have Ay: "(\<Sum>k<n. A i k * y k) = x i" if "i < n" for i
    using inverse_times [OF inv, of x] that y by (simp add: solves_def)
  have col: "(\<Sum>k<n. (A i k + x i * x k) * (y k / D)) = x i" if "i < n" for i
  proof -
    have "(\<Sum>k<n. (A i k + x i * x k) * (y k / D)) = ((\<Sum>k<n. A i k * y k) + x i * (\<Sum>k<n. x k * y k)) / D"
      by (simp add: algebra_simps sum.distrib sum_distrib_left sum_divide_distrib add_divide_distrib)
    also have "\<dots> = x i"
      using Ay [OF that] assms(2,3) by (simp add: field_simps)
    finally show ?thesis .
  qed
  show "solves n (\<lambda>i j. A i j + x i * x j) (\<lambda>k. y k / D) x"
    using col by (simp add: solves_def)
  show "inverse_on n (\<lambda>i j. A i j + x i * x j) (\<lambda>i j. P i j - y i / D * z j)"
    unfolding inverse_on_def
  proof (intro allI impI)
    fix i j assume ij: "i < n" "j < n"
    have "(\<Sum>k<n. (A i k + x i * x k) * (P k j - y k / D * z j))
        = (\<Sum>k<n. A i k * P k j) + x i * (\<Sum>k<n. x k * P k j) - (\<Sum>k<n. (A i k + x i * x k) * (y k / D)) * z j"
      by (simp add: algebra_simps sum.distrib sum_subtractf sum_distrib_left sum_distrib_right)
    then show "(\<Sum>k<n. (A i k + x i * x k) * (P k j - y k / D * z j)) = (if i = j then 1 else 0)"
      using col [OF ij(1)] z [OF ij(2)] inv ij by (simp add: inverse_on_def)
  qed
qed

definition lm_train_all :: "'d fp \<Rightarrow> ('d list \<times> 'd) list \<Rightarrow> 'd linear_model \<Rightarrow> 'd linear_model" where
  "lm_train_all fp obs m = fold (\<lambda>xt. lm_train fp (fst xt) (snd xt)) obs m"

text \<open>What the weights are fitted to: each target less the bias the model had when it saw it.\<close>

fun fitted_targets :: "(real list \<times> real) list \<Rightarrow> real linear_model \<Rightarrow> (real list \<times> real) list" where
  "fitted_targets [] m = []"
| "fitted_targets ((x, t) # obs) m = (x, t - lm_bias m) # fitted_targets obs (lm_train exact_fp x t m)"

definition moments :: "(real list \<times> real) list \<Rightarrow> nat \<Rightarrow> real" where
  "moments obs i = (\<Sum>(x, t)\<leftarrow>obs. x ! i * t)"

definition ridge_ok :: "real \<Rightarrow> nat \<Rightarrow> (real list \<times> real) list \<Rightarrow> real linear_model \<Rightarrow> bool" where
  "ridge_ok lambda n obs m \<longleftrightarrow> lm_num_features m = n \<and> inverse_on n (gram lambda (map fst obs)) (lm_at m)
     \<and> solves n (gram lambda (map fst obs)) (\<lambda>k. lm_weights m ! k) (moments obs)"

lemma flat_index:
  fixes i j n :: nat
  assumes "i < n" "j < n"
  shows "i * n + j < n * n" "(i * n + j) div n = i" "(i * n + j) mod n = j"
proof -
  have "i * n + j < i * n + n"
    using assms by simp
  also have "\<dots> = Suc i * n"
    by simp
  also have "\<dots> \<le> n * n"
    using assms by (intro mult_le_mono1) simp
  finally show "i * n + j < n * n" .
qed (use assms in auto)

lemma ridge_step:
  assumes "ridge_ok lambda n obs m" "0 \<le> lambda"
  shows "ridge_ok lambda n (obs @ [(x, t - lm_bias m)]) (lm_train exact_fp x t m)"
proof -
  have ok: "lm_num_features m = n" "inverse_on n (gram lambda (map fst obs)) (lm_at m)"
    "solves n (gram lambda (map fst obs)) (\<lambda>k. lm_weights m ! k) (moments obs)"
    using assms(1) by (simp_all add: ridge_ok_def)
  define y where "y = (\<lambda>i. \<Sum>l<n. lm_at m i l * x ! l)"
  define z where "z = (\<lambda>j. \<Sum>l<n. x ! l * lm_at m l j)"
  define D where "D = 1 + (\<Sum>i<n. x ! i * y i)"
  define e where "e = t - (lm_bias m + (\<Sum>i<n. lm_weights m ! i * x ! i))"
  have D: "D \<noteq> 0"
    using gram_inverse_positive [OF ok(2) assms(2), of "\<lambda>i. x ! i"] by (simp add: D_def y_def)
  have A: "gram lambda (map fst (obs @ [(x, t - lm_bias m)])) = (\<lambda>i j. gram lambda (map fst obs) i j + x ! i * x ! j)"
    by (simp add: fun_eq_iff gram_snoc)
  note sm = sherman_morrison [OF ok(2) D_def D, of z, OF y_def [THEN fun_cong] z_def [THEN fun_cong]]
  have at: "lm_at (lm_train exact_fp x t m) i j = lm_at m i j - y i / D * z j" if "i < n" "j < n" for i j
    using flat_index [OF that] that
    by (simp add: lm_at_def lm_train_def ok(1) Let_def) (simp add: lm_at_def ok(1) y_def z_def D_def)
  have w: "lm_weights (lm_train exact_fp x t m) ! k = lm_weights m ! k + y k / D * e" if "k < n" for k
    using that by (simp add: lm_train_def ok(1) Let_def lm_predict_def e_def y_def D_def)
  have "solves n (\<lambda>i j. gram lambda (map fst obs) i j + x ! i * x ! j)
      (\<lambda>k. lm_weights (lm_train exact_fp x t m) ! k) (moments (obs @ [(x, t - lm_bias m)]))"
    unfolding solves_def
  proof (intro allI impI)
    fix i assume i: "i < n"
    let ?A = "\<lambda>k. gram lambda (map fst obs) i k + x ! i * x ! k"
    have "(\<Sum>k<n. ?A k * (lm_weights (lm_train exact_fp x t m) ! k)) = (\<Sum>k<n. ?A k * (lm_weights m ! k + y k / D * e))"
      using w by (intro sum.cong) auto
    also have "\<dots> = (\<Sum>k<n. gram lambda (map fst obs) i k * lm_weights m ! k) + x ! i * (\<Sum>k<n. lm_weights m ! k * x ! k)
        + (\<Sum>k<n. ?A k * (y k / D)) * e"
      by (simp add: algebra_simps sum.distrib sum_distrib_left sum_distrib_right)
    also have "\<dots> = moments obs i + x ! i * (\<Sum>k<n. lm_weights m ! k * x ! k) + x ! i * e"
      using ok(3) sm(1) i by (simp add: solves_def)
    also have "\<dots> = moments (obs @ [(x, t - lm_bias m)]) i"
      by (simp add: moments_def e_def algebra_simps)
    finally show "(\<Sum>k<n. ?A k * (lm_weights (lm_train exact_fp x t m) ! k)) = moments (obs @ [(x, t - lm_bias m)]) i" .
  qed
  moreover have "inverse_on n (\<lambda>i j. gram lambda (map fst obs) i j + x ! i * x ! j) (lm_at (lm_train exact_fp x t m))"
    using sm(2) by (simp add: inverse_on_def at)
  ultimately show ?thesis
    unfolding ridge_ok_def A by (simp add: lm_train_def ok(1) Let_def)
qed

lemma scaled_identity_at:
  assumes "i < n" "j < n"
  shows "lm_at (linear_model_new exact_fp n lambda) i j = (if i = j then 1 / lambda else 0)"
  using flat_index [OF assms] assms by (simp add: lm_at_def linear_model_new_def scaled_identity_def)

lemma ridge_start:
  assumes "0 < lambda"
  shows "ridge_ok lambda n [] (linear_model_new exact_fp n lambda)"
proof -
  have "(\<Sum>k<n. gram lambda [] i k * lm_at (linear_model_new exact_fp n lambda) k j) = (if i = j then 1 else 0)" if "i < n" "j < n" for i j
  proof -
    have "(\<Sum>k<n. gram lambda [] i k * lm_at (linear_model_new exact_fp n lambda) k j)
        = (\<Sum>k<n. if i = k then lambda * (if k = j then 1 / lambda else 0) else 0)"
      using that by (intro sum.cong) (auto simp: gram_def scaled_identity_at)
    then show ?thesis
      using that assms by simp
  qed
  then show ?thesis
    by (simp add: ridge_ok_def inverse_on_def solves_def moments_def) (simp add: linear_model_new_def)
qed

text \<open>
  C28. Online training is ridge regression. After any observations, and without rounding, the matrix the model keeps is the
  inverse of \<open>lambda\<close> times the identity plus the sum of the products of the feature vectors with themselves, and
  the weights solve the normal equations of ridge regression for the targets less the bias the model had
  when it was trained on each of them.
\<close>

theorem training_is_ridge_regression:
  assumes "0 < lambda"
  shows "let m = lm_train_all exact_fp obs (linear_model_new exact_fp n lambda);
             fitted = fitted_targets obs (linear_model_new exact_fp n lambda)
    in map fst fitted = map fst obs \<and> inverse_on n (gram lambda (map fst obs)) (lm_at m)
      \<and> solves n (gram lambda (map fst obs)) (\<lambda>k. lm_weights m ! k) (moments fitted)"
proof -
  have fst: "map fst (fitted_targets obs m) = map fst obs" for m
    by (induction obs m rule: fitted_targets.induct) simp_all
  have "ridge_ok lambda n (pre @ fitted_targets obs m) (lm_train_all exact_fp obs m)" if "ridge_ok lambda n pre m" for pre m
    using that
  proof (induction obs m arbitrary: pre rule: fitted_targets.induct)
    case (2 x t obs m)
    then show ?case
      using 2(1) [OF ridge_step [of lambda n pre m x t]] assms by (simp add: lm_train_all_def)
  qed (simp add: lm_train_all_def)
  from this [OF ridge_start [OF assms, of n]] show ?thesis
    by (simp add: ridge_ok_def fst Let_def)
qed

theorem training_is_ridge_regression_witness:
  "5 * (lm_weights (lm_train_all exact_fp [([2], 3)] (linear_model_new exact_fp 1 1)) ! 0) = 6"
  using training_is_ridge_regression [of 1 "[([2], 3)]" 1]
  by (simp add: solves_def gram_def moments_def linear_model_new_def Let_def)

section \<open>Saving and loading a model\<close>

lemma read_n_append [simp]: "length a = n \<Longrightarrow> read_n n (a @ b) = Some (a, b)"
  by (simp add: read_n_def)

lemma doubles_of_enc:
  assumes "\<And>x. dec (enc x) = x" "\<And>x. length (enc x) = 8"
  shows "doubles_of dec (length ws) (concat (map enc ws)) = ws"
proof (rule nth_equalityI)
  have "take 8 (drop (8 * i) (concat (map enc ws))) = enc (ws ! i)" if "i < length ws" for i
    using that
  proof (induction ws arbitrary: i)
    case (Cons w ws)
    then show ?case
      by (cases i) (simp_all add: assms(2))
  qed simp
  then show "doubles_of dec (length ws) (concat (map enc ws)) ! i = ws ! i" if "i < length (doubles_of dec (length ws) (concat (map enc ws)))" for i
    using that by (simp add: doubles_of_def assms(1))
qed (simp add: doubles_of_def)

lemma length_concat_enc: "(\<And>x. length (enc x) = 8) \<Longrightarrow> length (concat (map enc ws)) = length ws * 8"
  by (induction ws) simp_all

text \<open>
  A model loses its bias when it is saved and loaded. Loading a saved model with at least one feature succeeds
  with the dimension, the weights and the regularization that were saved, but the bias, which is in the file, is
  replaced by zero, so that the loaded model predicts with a different intercept. (\<open>enc\<close> and \<open>dec\<close> are the bytes
  of a double and their reading.)
\<close>

theorem model_file_loses_bias:
  assumes "\<And>x. dec (enc x) = x" "\<And>x. length (enc x) = 8" and "0 < lm_num_features m" "lm_num_features m < 2 ^ 32"
    and "length (lm_weights m) = lm_num_features m"
  shows "model_load fp dec (Some (model_save enc m)) =
    Inr (m\<lparr>lm_bias := fp_zero fp, lm_num_observations := 0, lm_P := scaled_identity fp (lm_num_features m) (lm_lambda m)\<rparr>)"
proof -
  let ?n = "lm_num_features m"
  have n: "unat (of_nat ?n :: u32) = ?n" "(of_nat ?n :: u32) \<noteq> 0"
    using assms(3,4) unat_of_nat_small [of ?n, where 'a = 32] by (auto simp: unat_eq_zero [symmetric] simp del: unat_eq_zero)
  define h where "h = put_u32 model_magic @ put_u32 model_version @ put_u32 (of_nat ?n)"
  have h: "length h = 12" "get_u32 h = model_magic" "get_u32 (drop 4 h) = model_version" "get_u32 (drop 8 h) = of_nat ?n"
    by (simp_all add: h_def)
  have "model_save enc m = h @ enc (lm_bias m) @ concat (map enc (lm_weights m)) @ enc (lm_lambda m)"
    by (simp add: model_save_def h_def)
  moreover have "length (concat (map enc (lm_weights m))) = ?n * 8"
    using length_concat_enc [of enc "lm_weights m"] assms(2,5) by simp
  moreover have "read_n 8 (enc (lm_lambda m)) = Some (enc (lm_lambda m), [])"
    using assms(2) by (simp add: read_n_def)
  ultimately show ?thesis
    using h n assms(1,2) doubles_of_enc [OF assms(1,2), of "lm_weights m"] assms(5)
    by (simp add: model_load_def Let_def lm_set_weights_def linear_model_new_def)
qed

text \<open>A model over the bit patterns of doubles, where encoding and decoding are the little endian bytes.\<close>

definition bits_fp :: "u64 fp" where
  "bits_fp = \<lparr>fp_of_nat = of_nat, fp_of_int = of_int, fp_add = (+), fp_sub = (-), fp_mul = (*), fp_div = (\<lambda>a b. a),
     fp_less = (<), fp_le = (\<le>), fp_trunc = uint\<rparr>"

theorem model_file_loses_bias_witness:
  "model_load bits_fp get_u64 (Some (model_save put_u64
      \<lparr>lm_num_features = 1, lm_lambda = 1, lm_weights = [7], lm_bias = 5, lm_num_observations = 3, lm_P = [1]\<rparr>)) =
   Inr \<lparr>lm_num_features = 1, lm_lambda = 1, lm_weights = [7], lm_bias = 0, lm_num_observations = 0, lm_P = [1]\<rparr>"
  using model_file_loses_bias [of get_u64 put_u64
      "\<lparr>lm_num_features = 1, lm_lambda = 1, lm_weights = [7], lm_bias = 5, lm_num_observations = 3, lm_P = [1]\<rparr>" bits_fp]
  by (simp add: bits_fp_def fp_zero_def scaled_identity_def)

section \<open>Normalizer and store\<close>

text \<open>The values of a feature that a stream of updates has seen.\<close>

definition seen :: "string \<Rightarrow> (string \<times> real) list \<Rightarrow> real list" where
  "seen name us = map snd (filter (\<lambda>u. fst u = name) us)"

definition norm_run :: "(string \<times> real) list \<Rightarrow> real normalizer" where
  "norm_run us = fold (\<lambda>u. norm_update exact_fp (fst u) (snd u)) us Map.empty"

text \<open>
  The normalizer is exact: after any updates of any features, the statistics of a feature are the mean and the squared
  deviations of the values that feature was given, and normalizing subtracts that mean and divides by that deviation.
\<close>

theorem normalizer_exact:
  "norm_stats exact_fp (norm_run us) name = \<lparr>fs_count = length (seen name us), fs_mean = mean (seen name us), fs_m2 = sq_dev (seen name us)\<rparr>"
proof (induction us rule: rev_induct)
  case Nil
  then show ?case
    by (simp add: norm_run_def norm_stats_def feature_stats_new_def seen_def mean_def sq_dev_def)
next
  case (snoc u us)
  have run: "norm_run (us @ [u]) = norm_update exact_fp (fst u) (snd u) (norm_run us)"
    by (simp add: norm_run_def)
  have other: "norm_stats exact_fp (norm_update exact_fp k v nz) name = norm_stats exact_fp nz name" if "k \<noteq> name" for k v nz
    using that by (simp add: norm_update_def norm_stats_def Let_def)
  show ?case
  proof (cases "fst u = name")
    case True
    then have "norm_stats exact_fp (norm_run (us @ [u])) name =
        (let s = norm_stats exact_fp (norm_run us) name; m = fs_mean s + (snd u - fs_mean s) / real (fs_count s + 1)
         in \<lparr>fs_count = fs_count s + 1, fs_mean = m, fs_m2 = fs_m2 s + (snd u - fs_mean s) * (snd u - m)\<rparr>)"
      unfolding run by (simp add: norm_update_def norm_stats_def Let_def)
    then show ?thesis
      using snoc True mean_snoc [of "seen name us" "snd u"] sq_dev_snoc [of "seen name us" "snd u"]
      by (simp add: seen_def Let_def)
  next
    case False
    then show ?thesis
      unfolding run using snoc other [OF False] by (simp add: seen_def)
  qed
qed

definition store_run :: "'d feature_vector list \<Rightarrow> nat \<Rightarrow> 'd feature_store" where
  "store_run fvs n = fold store_push fvs (feature_store_new n)"

lemma last_n_last_n: "last_n k (last_n p xs) = last_n (min k p) xs"
  by (auto simp: last_n_def min_def intro!: arg_cong [where f = "\<lambda>d. drop d xs"])

text \<open>
  C32. The feature store keeps the last observations, and its matrix is rectangular: a window is the last vectors
  pushed, oldest first, at most as many as the store is deep; the matrix has one row for each and in every row one
  number for each column, the columns are distinct and in ascending order, and they are the names that occur in the window.
\<close>

theorem feature_store_exact:
  "get_window k (store_run fvs (Suc n)) = last_n (min k (Suc n)) fvs
   \<and> (case get_matrix fp names_of k (store_run fvs (Suc n)) of (columns, rows) \<Rightarrow>
        length rows = min (length fvs) (min k (Suc n)) \<and> list_all (\<lambda>row. length row = length columns) rows
        \<and> sorted columns \<and> distinct columns
        \<and> set columns = \<Union> (set (map (set \<circ> names_of) (last_n (min k (Suc n)) fvs))))"
proof -
  have buf: "fst_buffer (store_run fvs (Suc n)) = last_n (Suc n) fvs \<and> fst_max_depth (store_run fvs (Suc n)) = Suc n"
  proof (induction fvs rule: rev_induct)
    case (snoc fv fvs)
    then show ?case
      using last_n_snoc [of "Suc n" fvs fv] by (simp add: store_run_def store_push_def not_less)
  qed (simp add: store_run_def feature_store_new_def)
  have win: "get_window k (store_run fvs (Suc n)) = last_n (min k (Suc n)) fvs"
    using buf last_n_last_n [of k "Suc n" fvs] by (auto simp: get_window_def last_n_def)
  define w where "w = last_n (min k (Suc n)) fvs"
  have len: "length w = min (length fvs) (min k (Suc n))"
    by (simp add: w_def)
  show ?thesis
    unfolding get_matrix_def win w_def [symmetric] len [symmetric] Let_def
    by (cases "w = []") (simp_all add: list_all_iff)
qed

end
