(* ===== verification/Value_At_Risk.thy ===== *)
theory Value_At_Risk
  imports Window Pre_Trade Risk_Monitors
begin

text \<open>
  Parametric value at risk (\<open>risk/monitors/var_calculator.{hpp,cpp}\<close>) and the risk report that collects the state of
  all risk components (\<open>risk/reporting/risk_report.{hpp,cpp}\<close>).

  As in the other theories of risk the arithmetic is an argument, and \<open>keys\<close> are the keys of the position map in the
  order of iteration. The theorems are about the values without rounding. Logging is left out.
\<close>

section \<open>The calculator\<close>

record 'd var_config =
  vc_confidence_level :: 'd
  vc_holding_period_days :: u32
  vc_lookback_periods :: u32

record 'd symbol_var =
  sv_symbol_key :: u64
  sv_position_value :: 'd
  sv_volatility :: 'd
  sv_var_dollars :: 'd

record 'd portfolio_var_result =
  vr_per_symbol :: "'d symbol_var list"
  vr_portfolio_var :: 'd
  vr_undiversified_var :: 'd
  vr_diversification_benefit :: 'd
  vr_uses_correlation :: bool

record 'd var_calculator =
  va_config :: "'d var_config"
  va_returns :: "u64 \<rightharpoonup> 'd list"
  va_volatilities :: "u64 \<rightharpoonup> 'd"
  va_correlations :: "u64 \<times> u64 \<rightharpoonup> 'd"
  va_prices :: "u64 \<rightharpoonup> price"

definition var_config_default :: "'d fp \<Rightarrow> 'd var_config" where
  "var_config_default fp = \<lparr>vc_confidence_level = fp_ratio fp 95 100, vc_holding_period_days = 1, vc_lookback_periods = 20\<rparr>"

definition var_calculator_new :: "'d var_config \<Rightarrow> 'd var_calculator" where
  "var_calculator_new config = \<lparr>va_config = config, va_returns = Map.empty, va_volatilities = Map.empty,
     va_correlations = Map.empty, va_prices = Map.empty\<rparr>"

definition set_confidence :: "'d \<Rightarrow> 'd var_calculator \<Rightarrow> 'd var_calculator" where
  "set_confidence level v = v\<lparr>va_config := (va_config v)\<lparr>vc_confidence_level := level\<rparr>\<rparr>"

definition set_holding_period :: "u32 \<Rightarrow> 'd var_calculator \<Rightarrow> 'd var_calculator" where
  "set_holding_period days v = v\<lparr>va_config := (va_config v)\<lparr>vc_holding_period_days := days\<rparr>\<rparr>"

definition set_lookback :: "u32 \<Rightarrow> 'd var_calculator \<Rightarrow> 'd var_calculator" where
  "set_lookback periods v = v\<lparr>va_config := (va_config v)\<lparr>vc_lookback_periods := periods\<rparr>\<rparr>"

definition add_return :: "u64 \<Rightarrow> 'd \<Rightarrow> 'd var_calculator \<Rightarrow> 'd var_calculator" where
  "add_return symbol_key ret v =
     (let hist = (case va_returns v symbol_key of None \<Rightarrow> [] | Some h \<Rightarrow> h) @ [ret];
          hist = (if unat (vc_lookback_periods (va_config v)) < length hist then tl hist else hist)
      in v\<lparr>va_returns := (va_returns v)(symbol_key \<mapsto> hist)\<rparr>)"

definition var_set_volatility :: "u64 \<Rightarrow> 'd \<Rightarrow> 'd var_calculator \<Rightarrow> 'd var_calculator" where
  "var_set_volatility symbol_key vol v = v\<lparr>va_volatilities := (va_volatilities v)(symbol_key \<mapsto> vol)\<rparr>"

definition pair_key :: "u64 \<Rightarrow> u64 \<Rightarrow> u64 \<times> u64" where
  "pair_key a b = (min a b, max a b)"

definition set_correlation :: "u64 \<Rightarrow> u64 \<Rightarrow> 'd \<Rightarrow> 'd var_calculator \<Rightarrow> 'd var_calculator" where
  "set_correlation a b corr v = v\<lparr>va_correlations := (va_correlations v)(pair_key a b \<mapsto> corr)\<rparr>"

definition var_set_price :: "u64 \<Rightarrow> price \<Rightarrow> 'd var_calculator \<Rightarrow> 'd var_calculator" where
  "var_set_price symbol_key p v = v\<lparr>va_prices := (va_prices v)(symbol_key \<mapsto> p)\<rparr>"

definition get_correlation :: "'d fp \<Rightarrow> u64 \<Rightarrow> u64 \<Rightarrow> 'd var_calculator \<Rightarrow> 'd" where
  "get_correlation fp a b v = (case va_correlations v (pair_key a b) of Some c \<Rightarrow> c | None \<Rightarrow> fp_zero fp)"

definition compute_volatility :: "'d sim_math \<Rightarrow> u64 \<Rightarrow> 'd var_calculator \<Rightarrow> 'd" where
  "compute_volatility mt symbol_key v =
     (let fp = sm_fp mt in
      case va_volatilities v symbol_key of
        Some vol \<Rightarrow> vol
      | None \<Rightarrow>
          (case va_returns v symbol_key of
             None \<Rightarrow> fp_zero fp
           | Some rets \<Rightarrow>
               if length rets < 2 then fp_zero fp
               else let n = length rets;
                        m = fp_div fp (foldl (fp_add fp) (fp_zero fp) rets) (fp_of_nat fp n);
                        sum_sq = foldl (\<lambda>acc r. let diff = fp_sub fp r m in fp_add fp acc (fp_mul fp diff diff)) (fp_zero fp) rets
                    in sm_sqrt mt (fp_div fp sum_sq (fp_of_nat fp (n - 1)))))"

text \<open>The table of quantiles, and below it the rational approximation of Abramowitz and Stegun.\<close>

definition inverse_normal :: "'d sim_math \<Rightarrow> 'd \<Rightarrow> 'd" where
  "inverse_normal mt p =
     (let fp = sm_fp mt; mul = fp_mul fp; add = fp_add fp;
          t = sm_sqrt mt (mul (fp_of_int fp (- 2)) (sm_log mt (fp_sub fp (fp_of_nat fp 1) p)));
          c0 = fp_ratio fp 2515517 1000000; c1 = fp_ratio fp 802853 1000000; c2 = fp_ratio fp 10328 1000000;
          d1 = fp_ratio fp 1432788 1000000; d2 = fp_ratio fp 189269 1000000; d3 = fp_ratio fp 1308 1000000
      in fp_sub fp t
           (fp_div fp (add (add c0 (mul c1 t)) (mul (mul c2 t) t))
             (add (add (add (fp_of_nat fp 1) (mul d1 t)) (mul (mul d2 t) t)) (mul (mul (mul d3 t) t) t))))"

definition z_score :: "'d sim_math \<Rightarrow> 'd var_calculator \<Rightarrow> 'd" where
  "z_score mt v =
     (let fp = sm_fp mt; p = vc_confidence_level (va_config v) in
      if fp_le fp (fp_ratio fp 99 100) p then fp_ratio fp 2326 1000
      else if fp_le fp (fp_ratio fp 975 1000) p then fp_ratio fp 1960 1000
      else if fp_le fp (fp_ratio fp 95 100) p then fp_ratio fp 1645 1000
      else if fp_le fp (fp_ratio fp 90 100) p then fp_ratio fp 1282 1000
      else inverse_normal mt p)"

definition symbol_var_of :: "'d sim_math \<Rightarrow> 'd var_calculator \<Rightarrow> u64 \<Rightarrow> u64 \<Rightarrow> 'd symbol_var" where
  "symbol_var_of mt v sym_key qty =
     (let fp = sm_fp mt;
          sqrt_hp = sm_sqrt mt (fp_of_nat fp (unat (vc_holding_period_days (va_config v))));
          price_dbl = (case va_prices v sym_key of Some p \<Rightarrow> price_to_double fp p | None \<Rightarrow> fp_zero fp);
          position_value = fp_mul fp (fp_of_i64 fp qty) price_dbl;
          vol = compute_volatility mt sym_key v
      in \<lparr>sv_symbol_key = sym_key, sv_position_value = position_value, sv_volatility = vol,
          sv_var_dollars = fp_mul fp (fp_mul fp (fp_mul fp (fp_abs fp position_value) vol) (z_score mt v)) sqrt_hp\<rparr>)"

definition per_symbol_vars :: "'d sim_math \<Rightarrow> u64 list \<Rightarrow> position_tracker \<Rightarrow> 'd var_calculator \<Rightarrow> 'd symbol_var list" where
  "per_symbol_vars mt keys positions v =
     List.map_filter (\<lambda>k. case positions k of
         None \<Rightarrow> None
       | Some qty \<Rightarrow> if qty = 0 then None else Some (symbol_var_of mt v k qty)) keys"

definition correlated_sum :: "'d fp \<Rightarrow> 'd symbol_var list \<Rightarrow> 'd var_calculator \<Rightarrow> 'd" where
  "correlated_sum fp vs v =
     foldl (\<lambda>acc i. foldl (\<lambda>acc j.
         let corr = (if i = j then fp_of_nat fp 1 else get_correlation fp (sv_symbol_key (vs ! i)) (sv_symbol_key (vs ! j)) v)
         in fp_add fp acc (fp_mul fp (fp_mul fp (sv_var_dollars (vs ! i)) (sv_var_dollars (vs ! j))) corr))
       acc [0..<length vs]) (fp_zero fp) [0..<length vs]"

definition var_compute_positions ::
  "'d sim_math \<Rightarrow> u64 list \<Rightarrow> position_tracker \<Rightarrow> 'd var_calculator \<Rightarrow> 'd portfolio_var_result" where
  "var_compute_positions mt keys positions v =
     (let fp = sm_fp mt;
          vs = per_symbol_vars mt keys positions v;
          undiversified = foldl (\<lambda>acc x. fp_add fp acc (sv_var_dollars x)) (fp_zero fp) vs;
          has_correlations = (va_correlations v \<noteq> Map.empty);
          portfolio =
            (if length vs \<le> 1 then undiversified
             else if has_correlations then sm_sqrt mt (fp_max fp (fp_zero fp) (correlated_sum fp vs v))
             else sm_sqrt mt (foldl (\<lambda>acc x. fp_add fp acc (fp_mul fp (sv_var_dollars x) (sv_var_dollars x))) (fp_zero fp) vs))
      in \<lparr>vr_per_symbol = vs, vr_portfolio_var = portfolio, vr_undiversified_var = undiversified,
          vr_diversification_benefit = fp_sub fp undiversified portfolio, vr_uses_correlation = has_correlations\<rparr>)"

definition var_compute :: "'d sim_math \<Rightarrow> u64 list \<Rightarrow> 'd portfolio \<Rightarrow> 'd var_calculator \<Rightarrow> 'd portfolio_var_result" where
  "var_compute mt keys pf v = var_compute_positions mt keys (pf_positions pf) v"

section \<open>The risk report\<close>

record 'd limit_utilization =
  lu_check_type :: risk_check
  lu_utilization :: 'd
  lu_current_value :: 'd
  lu_limit_value :: 'd

record 'd risk_snapshot =
  rs_positions :: position_tracker
  rs_exposure :: "'d exposure"
  rs_total_realized_pnl :: 'd
  rs_total_unrealized_pnl :: 'd
  rs_total_pnl :: 'd
  rs_limit_utilizations :: "'d limit_utilization list"
  rs_var :: "'d portfolio_var_result"
  rs_circuit_breaker_tripped :: bool
  rs_circuit_breaker_drawdown :: 'd
  rs_circuit_breaker_threshold :: 'd
  rs_timestamp :: timestamp

definition max_abs_position :: "u64 list \<Rightarrow> position_tracker \<Rightarrow> u64" where
  "max_abs_position keys positions =
     foldl (\<lambda>max_abs k. case positions k of
         None \<Rightarrow> max_abs
       | Some qty \<Rightarrow> let abs_qty = abs_i64 qty in if max_abs <s abs_qty then abs_qty else max_abs) 0 keys"

definition position_utilization :: "'d fp \<Rightarrow> u64 list \<Rightarrow> position_tracker \<Rightarrow> position_limit \<Rightarrow> 'd limit_utilization" where
  "position_utilization fp keys positions l =
     (let max_abs = max_abs_position keys positions; limit_val = fp_of_i64 fp (pos_global_max l)
      in \<lparr>lu_check_type = PositionLimit,
          lu_utilization = (if fp_less fp (fp_zero fp) limit_val then fp_div fp (fp_of_i64 fp max_abs) limit_val else fp_zero fp),
          lu_current_value = fp_of_i64 fp max_abs, lu_limit_value = limit_val\<rparr>)"

definition loss_used :: "'d fp \<Rightarrow> 'd \<Rightarrow> 'd \<Rightarrow> 'd" where
  "loss_used fp max_loss pnl =
     (if fp_less fp (fp_zero fp) max_loss then fp_div fp (fp_abs fp (fp_min fp (fp_zero fp) pnl)) max_loss else fp_zero fp)"

definition loss_utilization :: "'d fp \<Rightarrow> risk_check \<Rightarrow> 'd \<Rightarrow> 'd \<Rightarrow> 'd limit_utilization" where
  "loss_utilization fp chk max_loss pnl =
     \<lparr>lu_check_type = chk, lu_utilization = loss_used fp max_loss pnl, lu_current_value = pnl,
      lu_limit_value = fp_neg fp max_loss\<rparr>"

definition exposure_utilization :: "'d fp \<Rightarrow> 'd exposure_monitor \<Rightarrow> 'd limit_utilization" where
  "exposure_utilization fp em =
     (let gross = ex_gross (em_exposure em); max_gross = em_max_gross em
      in \<lparr>lu_check_type = ExposureLimit,
          lu_utilization = (if fp_less fp (fp_zero fp) max_gross then fp_div fp gross max_gross else fp_zero fp),
          lu_current_value = gross, lu_limit_value = max_gross\<rparr>)"

definition risk_snapshot_of ::
  "'d sim_math \<Rightarrow> u64 list \<Rightarrow> u64 list \<Rightarrow> 'd pre_trade_risk \<Rightarrow> 'd post_trade_risk \<Rightarrow> 'd var_calculator
     \<Rightarrow> ('d, 's) circuit_breaker \<Rightarrow> 'd portfolio \<Rightarrow> timestamp \<Rightarrow> 'd risk_snapshot" where
  "risk_snapshot_of mt keys pkeys pre post var breaker pf ts =
     (let fp = sm_fp mt; total = total_pnl fp pkeys (pf_pnl pf); ll = ptr_loss_limit pre; pm = por_pnl_monitor post
      in \<lparr>rs_positions = pf_positions pf, rs_exposure = em_exposure (por_exposure_monitor post),
          rs_total_realized_pnl = total_realized_pnl fp pkeys (pf_pnl pf),
          rs_total_unrealized_pnl = total_unrealized_pnl fp pkeys (pf_pnl pf), rs_total_pnl = total,
          rs_limit_utilizations =
            [position_utilization fp keys (pf_positions pf) (ptr_position_limit pre),
             loss_utilization fp LossLimit (ll_max_daily_loss ll) (fp_add fp (ll_running_pnl ll) total),
             loss_utilization fp PnLWarning (pm_max_loss pm) (pm_running_pnl pm),
             exposure_utilization fp (por_exposure_monitor post)],
          rs_var = var_compute mt keys pf var, rs_circuit_breaker_tripped = cb_tripped breaker,
          rs_circuit_breaker_drawdown = cb_current_drawdown breaker,
          rs_circuit_breaker_threshold = cb_drawdown_threshold breaker, rs_timestamp = ts\<rparr>)"

section \<open>Sums over the symbols\<close>

lemma sum_list_square_eq: "(\<Sum>x\<leftarrow>xs. \<Sum>y\<leftarrow>xs. f x * f y) = (\<Sum>x\<leftarrow>xs. f x)\<^sup>2" for f :: "'a \<Rightarrow> real"
  by (simp add: sum_list_const_mult sum_list_mult_const power2_eq_square)

lemma sum_squares_le_square:
  fixes xs :: "real list"
  assumes "\<forall>x\<in>set xs. 0 \<le> x"
  shows "(\<Sum>x\<leftarrow>xs. x * x) \<le> (sum_list xs)\<^sup>2"
  using assms
proof (induction xs)
  case (Cons x xs)
  then have "0 \<le> x * sum_list xs"
    by (simp add: sum_list_nonneg)
  moreover have "(\<Sum>x\<leftarrow>xs. x * x) \<le> (sum_list xs)\<^sup>2"
    using Cons by simp
  ultimately show ?case
    by (simp add: power2_eq_square algebra_simps)
qed simp

text \<open>The double sum of the code, with the diagonal of the matrix set to one.\<close>

definition corr_at :: "'d fp \<Rightarrow> 'd var_calculator \<Rightarrow> 'd symbol_var list \<Rightarrow> nat \<Rightarrow> nat \<Rightarrow> 'd" where
  "corr_at fp v vs i j =
     (if i = j then fp_of_nat fp 1 else get_correlation fp (sv_symbol_key (vs ! i)) (sv_symbol_key (vs ! j)) v)"

lemma correlated_sum_exact:
  "correlated_sum exact_fp vs v =
     (\<Sum>i\<leftarrow>[0..<length vs]. \<Sum>j\<leftarrow>[0..<length vs]. sv_var_dollars (vs ! i) * sv_var_dollars (vs ! j) * corr_at exact_fp v vs i j)"
  unfolding correlated_sum_def Let_def corr_at_def [symmetric] by (simp add: foldl_plus_map)

lemma sum_list_index: "(\<Sum>i\<leftarrow>[0..<length vs]. f (vs ! i)) = (\<Sum>x\<leftarrow>vs. f x)"
  using arg_cong [OF map_nth [of vs], of "\<lambda>ys. sum_list (map f ys)"] by (simp add: comp_def)

definition correlations_ok :: "real var_calculator \<Rightarrow> bool" where
  "correlations_ok v \<longleftrightarrow> (\<forall>c\<in>ran (va_correlations v). \<bar>c\<bar> \<le> 1)"

lemma corr_at_le_1: "correlations_ok v \<Longrightarrow> corr_at exact_fp v vs i j \<le> 1"
  unfolding correlations_ok_def corr_at_def get_correlation_def
  using ranI [of "va_correlations v" "pair_key (sv_symbol_key (vs ! i)) (sv_symbol_key (vs ! j))"]
  by (auto simp: abs_le_iff split: option.split)

lemma correlated_sum_le:
  assumes "correlations_ok v" "\<forall>x\<in>set vs. 0 \<le> sv_var_dollars x"
  shows "correlated_sum exact_fp vs v \<le> (\<Sum>x\<leftarrow>vs. sv_var_dollars x)\<^sup>2"
proof -
  have le: "sv_var_dollars (vs ! i) * sv_var_dollars (vs ! j) * corr_at exact_fp v vs i j \<le> sv_var_dollars (vs ! i) * sv_var_dollars (vs ! j)"
    if "i < length vs" "j < length vs" for i j
    using that assms by (intro mult_left_le corr_at_le_1 mult_nonneg_nonneg) simp_all
  have "correlated_sum exact_fp vs v
      \<le> (\<Sum>i\<leftarrow>[0..<length vs]. \<Sum>j\<leftarrow>[0..<length vs]. sv_var_dollars (vs ! i) * sv_var_dollars (vs ! j))"
    unfolding correlated_sum_exact by (intro sum_list_mono le) simp_all
  also have "\<dots> = (\<Sum>x\<leftarrow>vs. sv_var_dollars x)\<^sup>2"
    by (simp add: sum_list_square_eq sum_list_index [where f = sv_var_dollars])
  finally show ?thesis .
qed

section \<open>Diversification\<close>

lemma z_score_pos: "9 / 10 \<le> vc_confidence_level (va_config v) \<Longrightarrow> 0 < z_score exact_math v"
  by (simp add: z_score_def Let_def)

lemma compute_volatility_nonneg:
  assumes "\<forall>x\<in>ran (va_volatilities v). 0 \<le> x"
  shows "0 \<le> compute_volatility exact_math k v"
proof -
  have "0 \<le> (\<Sum>r\<leftarrow>rets. (r - m) * (r - m))" for rets :: "real list" and m
    by (rule sum_list_nonneg) auto
  then show ?thesis
    using assms by (auto simp: compute_volatility_def Let_def foldl_plus_map ranI split: option.splits)
qed

lemma unsigned_real_nonneg [simp]: "0 \<le> (unsigned w :: real)" for w :: "'a :: len word"
  by (metis of_nat_0_le_iff of_nat_unat)

lemma symbol_var_nonneg:
  assumes "9 / 10 \<le> vc_confidence_level (va_config v)" "\<forall>x\<in>ran (va_volatilities v). 0 \<le> x"
  shows "\<forall>x\<in>set (per_symbol_vars exact_math keys positions v). 0 \<le> sv_var_dollars x"
  using z_score_pos [OF assms(1)] compute_volatility_nonneg [OF assms(2)]
  by (auto simp: per_symbol_vars_def map_filter_def symbol_var_of_def Let_def less_imp_le intro!: mult_nonneg_nonneg
      split: option.splits if_splits)

text \<open>The result of the code in terms of sums.\<close>

lemma var_compute_exact:
  fixes keys positions v
  defines "vs \<equiv> per_symbol_vars exact_math keys positions v" and "r \<equiv> var_compute_positions exact_math keys positions v"
  shows "vr_per_symbol r = vs" "vr_undiversified_var r = (\<Sum>x\<leftarrow>vs. sv_var_dollars x)"
    "vr_diversification_benefit r = vr_undiversified_var r - vr_portfolio_var r"
    "vr_portfolio_var r = (if length vs \<le> 1 then \<Sum>x\<leftarrow>vs. sv_var_dollars x
       else if va_correlations v \<noteq> Map.empty then sqrt (max 0 (correlated_sum exact_fp vs v))
       else sqrt (\<Sum>x\<leftarrow>vs. sv_var_dollars x * sv_var_dollars x))"
  by (simp_all add: r_def vs_def var_compute_positions_def Let_def foldl_plus_map)

text \<open>Turning the positions in a set of symbols from long to short and back.\<close>

definition turned :: "u64 set \<Rightarrow> position_tracker \<Rightarrow> position_tracker" where
  "turned S positions = (\<lambda>k. if k \<in> S then map_option uminus (positions k) else positions k)"

lemma abs_sint_uminus: "\<bar>sint (- q)\<bar> = \<bar>sint q\<bar>" for q :: u64
proof (cases "sint q = - (2 ^ 63)")
  case True
  moreover have "(of_int (sint q) :: u64) = q"
    by simp
  ultimately have "q = of_int (- (2 ^ 63))"
    by metis
  then show ?thesis
    by simp
next
  case False
  then have "- (2 ^ 63) \<le> - sint q" "- sint q < 2 ^ 63"
    using sint_range_size [of q] by (simp_all add: word_size)
  then have "sint (of_int (- sint q) :: u64) = - sint q"
    by (intro sint_of_small) simp_all
  then show ?thesis
    by simp
qed

lemma abs_signed_uminus: "\<bar>signed (- q) :: real\<bar> = \<bar>signed q\<bar>" for q :: u64
  using arg_cong [OF abs_sint_uminus [of q], of real_of_int] by simp

lemma map_map_filter_cong:
  assumes "\<And>k. map_option g (f k) = map_option g (f' k)"
  shows "map g (List.map_filter f keys) = map g (List.map_filter f' keys)"
proof (induction keys)
  case (Cons k keys)
  then show ?case
    using assms [of k] by (cases "f k"; cases "f' k") (simp_all add: map_filter_simps)
qed (simp add: map_filter_simps)

text \<open>What the portfolio figure is computed from: the key and the value at risk of each symbol.\<close>

lemma per_symbol_vars_turned:
  "map (\<lambda>x. (sv_symbol_key x, sv_var_dollars x)) (per_symbol_vars exact_math keys (turned S positions) v) =
   map (\<lambda>x. (sv_symbol_key x, sv_var_dollars x)) (per_symbol_vars exact_math keys positions v)"
  unfolding per_symbol_vars_def turned_def
  by (rule map_map_filter_cong)
    (auto simp: symbol_var_of_def Let_def fp_of_i64_def abs_mult abs_signed_uminus split: option.split)

lemma correlated_sum_cong:
  assumes "map (\<lambda>x. (sv_symbol_key x, sv_var_dollars x)) vs = map (\<lambda>x. (sv_symbol_key x, sv_var_dollars x)) ws"
  shows "correlated_sum exact_fp vs v = correlated_sum exact_fp ws v"
proof -
  have len: "length vs = length ws"
    using assms map_eq_imp_length_eq by blast
  have at: "sv_symbol_key (vs ! i) = sv_symbol_key (ws ! i)" "sv_var_dollars (vs ! i) = sv_var_dollars (ws ! i)" if "i < length ws" for i
    using arg_cong [OF assms, of "\<lambda>xs. xs ! i"] that len by simp_all
  show ?thesis
    unfolding correlated_sum_exact corr_at_def len
    by (intro arg_cong [where f = sum_list] map_cong refl) (simp_all add: at cong: map_cong)
qed

lemma var_turned:
  "vr_portfolio_var (var_compute_positions exact_math keys (turned S positions) v) =
   vr_portfolio_var (var_compute_positions exact_math keys positions v)"
proof -
  let ?vs = "per_symbol_vars exact_math keys (turned S positions) v" and ?ws = "per_symbol_vars exact_math keys positions v"
  note same = per_symbol_vars_turned [of keys S positions v]
  have "map sv_var_dollars ?vs = map sv_var_dollars ?ws"
    using arg_cong [OF same, of "map snd"] by (simp add: comp_def)
  moreover from arg_cong [OF this, of "\<lambda>xs. \<Sum>x\<leftarrow>xs. x * x"]
  have "(\<Sum>x\<leftarrow>?vs. sv_var_dollars x * sv_var_dollars x) = (\<Sum>x\<leftarrow>?ws. sv_var_dollars x * sv_var_dollars x)"
    by (simp add: comp_def)
  moreover have "length ?vs = length ?ws"
    using same map_eq_imp_length_eq by blast
  ultimately show ?thesis
    unfolding var_compute_exact correlated_sum_cong [OF same] by simp
qed

text \<open>
  The value at risk of a portfolio rewards diversification and knows no hedges. With a confidence of at least 90
  percent, volatilities that are not negative and correlations between -1 and 1, the portfolio figure is between zero and
  the sum of the figures of the symbols, so that the reported benefit is never negative; and it does not change when
  positions are turned from long to short: a long and a short position in two perfectly correlated symbols are
  given the same risk as two long ones.
\<close>

theorem value_at_risk_diversifies:
  fixes v :: "real var_calculator" and pf :: "real portfolio" and keys :: "u64 list"
  defines "r \<equiv> var_compute exact_math keys pf v"
  assumes "9 / 10 \<le> vc_confidence_level (va_config v)" and "\<forall>x\<in>ran (va_volatilities v). 0 \<le> x" and "correlations_ok v"
  shows "0 \<le> vr_portfolio_var r \<and> vr_portfolio_var r \<le> vr_undiversified_var r \<and> 0 \<le> vr_diversification_benefit r
    \<and> vr_portfolio_var (var_compute exact_math keys (pf\<lparr>pf_positions := turned S (pf_positions pf)\<rparr>) v) = vr_portfolio_var r"
proof -
  let ?vs = "per_symbol_vars exact_math keys (pf_positions pf) v"
  note exact = var_compute_exact [of keys "pf_positions pf" v, folded var_compute_def r_def]
  have pos: "\<forall>x\<in>set ?vs. 0 \<le> sv_var_dollars x"
    by (rule symbol_var_nonneg [OF assms(2,3)])
  then have sum: "0 \<le> (\<Sum>x\<leftarrow>?vs. sv_var_dollars x)"
    by (intro sum_list_nonneg) auto
  have "sqrt (max 0 (correlated_sum exact_fp ?vs v)) \<le> (\<Sum>x\<leftarrow>?vs. sv_var_dollars x)"
    using correlated_sum_le [OF assms(4) pos] sum by (intro real_le_lsqrt) simp_all
  moreover have "sqrt (\<Sum>x\<leftarrow>?vs. sv_var_dollars x * sv_var_dollars x) \<le> (\<Sum>x\<leftarrow>?vs. sv_var_dollars x)"
    using sum_squares_le_square [of "map sv_var_dollars ?vs"] sum pos by (intro real_le_lsqrt) (simp_all add: comp_def)
  moreover have "0 \<le> (\<Sum>x\<leftarrow>?vs. sv_var_dollars x * sv_var_dollars x)"
    by (intro sum_list_nonneg) auto
  ultimately have "0 \<le> vr_portfolio_var r \<and> vr_portfolio_var r \<le> vr_undiversified_var r"
    using sum by (simp add: exact)
  then show ?thesis
    using var_turned [of keys S "pf_positions pf" v] by (simp add: var_compute_exact(3) var_compute_def r_def)
qed

definition sample_calculator :: "real var_calculator" where
  "sample_calculator = set_correlation 2 1 1 (var_set_volatility 1 1 (var_set_volatility 2 1
     (var_set_price 1 10000 (var_set_price 2 10000 (var_calculator_new (var_config_default exact_fp))))))"

definition sample_hedge :: "real portfolio" where
  "sample_hedge = portfolio_new\<lparr>pf_positions := [1 \<mapsto> 100, 2 \<mapsto> - 100]\<rparr>"

lemma sample_calculator_simps:
  "vc_confidence_level (va_config sample_calculator) = 95 / 100" "va_volatilities sample_calculator = [2 \<mapsto> 1, 1 \<mapsto> 1]"
  "va_correlations sample_calculator = [(1, 2) \<mapsto> 1]" "va_prices sample_calculator = [2 \<mapsto> 10000, 1 \<mapsto> 10000]"
  "vc_holding_period_days (va_config sample_calculator) = 1"
  by (simp_all add: sample_calculator_def set_correlation_def var_set_volatility_def var_set_price_def var_calculator_new_def
      var_config_default_def pair_key_def)

theorem value_at_risk_diversifies_witness:
  "vr_portfolio_var (var_compute exact_math [1, 2] sample_hedge sample_calculator) \<le> 329
   \<and> vr_undiversified_var (var_compute exact_math [1, 2] sample_hedge sample_calculator) = 329
   \<and> vr_portfolio_var (var_compute exact_math [1, 2] (sample_hedge\<lparr>pf_positions := [1 \<mapsto> 100, 2 \<mapsto> 100]\<rparr>) sample_calculator) =
       vr_portfolio_var (var_compute exact_math [1, 2] sample_hedge sample_calculator)"
proof -
  have und: "vr_undiversified_var (var_compute exact_math [1, 2] sample_hedge sample_calculator) = 329"
    by (simp add: var_compute_def var_compute_exact per_symbol_vars_def map_filter_simps sample_hedge_def portfolio_new_def
        symbol_var_of_def compute_volatility_def z_score_def sample_calculator_simps Let_def fp_of_i64_def price_to_double_def)
  have "turned {2} (pf_positions sample_hedge) = [1 \<mapsto> 100, 2 \<mapsto> 100]"
    by (auto simp: turned_def sample_hedge_def)
  moreover have "\<forall>x\<in>ran (va_volatilities sample_calculator). 0 \<le> x" "correlations_ok sample_calculator"
    by (auto simp: sample_calculator_simps correlations_ok_def ran_def split: if_splits)
  ultimately show ?thesis
    using value_at_risk_diversifies [of sample_calculator "[1, 2]" sample_hedge "{2}"] und
    by (simp add: sample_calculator_simps(1))
qed

section \<open>The history of returns\<close>

text \<open>With a constant look-back the history is that of the last returns.\<close>

lemma returns_are_last:
  assumes "va_returns v k = None" "unat (vc_lookback_periods (va_config v)) = Suc n"
  shows "va_returns (fold (add_return k) (xs @ [x]) v) k = Some (last_n (Suc n) (xs @ [x]))"
proof -
  have add: "va_config (add_return k r w) = va_config w" for r w
    by (simp add: add_return_def Let_def)
  have "va_config (fold (add_return k) ys v) = va_config v
      \<and> (case va_returns (fold (add_return k) ys v) k of None \<Rightarrow> [] | Some h \<Rightarrow> h) = last_n (Suc n) ys" for ys
  proof (induction ys rule: rev_induct)
    case (snoc y ys)
    then show ?case
      using last_n_snoc [of "Suc n" ys y] assms(2) by (auto simp: add add_return_def Let_def last_n_def)
  qed (simp add: assms(1))
  from this [of xs] show ?thesis
    using last_n_snoc [of "Suc n" xs x] assms(2) by (auto simp: add_return_def Let_def last_n_def)
qed

text \<open>A shorter look-back does not shorten a history: every return that is added replaces one.\<close>

lemma lookback_never_shrinks:
  assumes "va_returns v k = Some h" "unat n \<le> length h" "h \<noteq> []"
  shows "\<exists>h'. va_returns (fold (add_return k) xs (set_lookback n v)) k = Some h' \<and> length h' = length h"
proof -
  have "\<exists>h'. va_returns (fold (add_return k) xs w) k = Some h' \<and> length h' = length h"
    if "\<exists>h'. va_returns w k = Some h' \<and> length h' = length h" "vc_lookback_periods (va_config w) = n" for w
    using that
  proof (induction xs arbitrary: w)
    case (Cons x xs)
    then have "\<exists>h'. va_returns (add_return k x w) k = Some h' \<and> length h' = length h"
      using assms(2) by (auto simp: add_return_def Let_def)
    then show ?case
      using Cons by (simp add: add_return_def Let_def)
  qed simp
  from this [of "set_lookback n v"] show ?thesis
    using assms(1) by (simp add: set_lookback_def)
qed

section \<open>The report and the checks\<close>

text \<open>The reported use of the loss limit is below one exactly when the pre-trade check of that limit passes.\<close>

lemma report_agrees_with_loss_check:
  assumes "0 < ll_max_daily_loss (ptr_loss_limit pre)" "maybe_reset exact_fp ts (ptr_loss_limit pre) = ptr_loss_limit pre"
  shows "rr_passed (fst (loss_check exact_fp sd pkeys pf ts (ptr_loss_limit pre))) \<longleftrightarrow>
    lu_utilization (rs_limit_utilizations (risk_snapshot_of exact_math keys pkeys pre post var breaker pf ts) ! 1) < 1"
proof -
  have "- l < p \<longleftrightarrow> \<bar>min 0 p\<bar> / l < 1" if "0 < l" for l p :: real
    using that by (cases "0 \<le> p") (simp_all add: field_simps min_def)
  from this [OF assms(1)] show ?thesis
    using assms by (simp add: loss_check_def risk_snapshot_of_def loss_utilization_def loss_used_def Let_def)
qed

end
