(* ===== verification/Participants.thy ===== *)
theory Participants
  imports Sim_Feed
begin

text \<open>
  Simulated traders (\<open>simulator/participant_model.{hpp,cpp}\<close>): a pool of participants of three kinds that share the
  price walks and the book of the simulator, each with its own random numbers and its own range of order ids.

  The shared walks and book, which the code keeps as references, are the record \<open>sim_market\<close>, passed into and out of every
  operation. The distributions are functions on the state of the generator of the participant. An access outside
  a vector, an encoding that leaves the buffer and a conversion of a double that does not fit are \<open>None\<close>.
\<close>

section \<open>Profiles\<close>

datatype trader_type = MarketMaker | MomentumTrader | RandomTrader

record 'd trader_profile =
  tp_type :: trader_type
  tp_size_mean :: 'd
  tp_size_stddev :: 'd
  tp_min_qty :: u32
  tp_max_qty :: u32
  tp_weights :: "'d list"
  tp_spread_ticks_mean :: 'd
  tp_spread_ticks_stddev :: 'd
  tp_cancel_rate :: 'd

text \<open>\<open>tp_weights\<close> are the weights for adding, cancelling, executing, replacing and trading, in this order.\<close>

definition default_market_maker_profile :: "'d fp \<Rightarrow> 'd trader_profile" where
  "default_market_maker_profile fp =
     \<lparr>tp_type = MarketMaker, tp_size_mean = fp_of_nat fp 200, tp_size_stddev = fp_of_nat fp 80, tp_min_qty = 50,
      tp_max_qty = 2000,
      tp_weights = [fp_ratio fp 50 100, fp_ratio fp 30 100, fp_ratio fp 5 100, fp_ratio fp 10 100, fp_ratio fp 5 100],
      tp_spread_ticks_mean = fp_of_nat fp 2, tp_spread_ticks_stddev = fp_of_nat fp 1, tp_cancel_rate = fp_ratio fp 40 100\<rparr>"

definition default_momentum_profile :: "'d fp \<Rightarrow> 'd trader_profile" where
  "default_momentum_profile fp =
     \<lparr>tp_type = MomentumTrader, tp_size_mean = fp_of_nat fp 300, tp_size_stddev = fp_of_nat fp 150, tp_min_qty = 100,
      tp_max_qty = 5000,
      tp_weights = [fp_ratio fp 55 100, fp_ratio fp 15 100, fp_ratio fp 15 100, fp_ratio fp 10 100, fp_ratio fp 5 100],
      tp_spread_ticks_mean = fp_of_nat fp 1, tp_spread_ticks_stddev = fp_ratio fp 5 10, tp_cancel_rate = fp_ratio fp 15 100\<rparr>"

definition default_random_profile :: "'d fp \<Rightarrow> 'd trader_profile" where
  "default_random_profile fp =
     \<lparr>tp_type = RandomTrader, tp_size_mean = fp_of_nat fp 100, tp_size_stddev = fp_of_nat fp 50, tp_min_qty = 10,
      tp_max_qty = 1000,
      tp_weights = [fp_ratio fp 40 100, fp_ratio fp 25 100, fp_ratio fp 20 100, fp_ratio fp 10 100, fp_ratio fp 5 100],
      tp_spread_ticks_mean = fp_of_nat fp 5, tp_spread_ticks_stddev = fp_of_nat fp 3, tp_cancel_rate = fp_ratio fp 10 100\<rparr>"

record 'd participant_config =
  pc_num_market_makers :: u32
  pc_num_momentum_traders :: u32
  pc_num_random_traders :: u32
  pc_market_maker_profile :: "'d trader_profile"
  pc_momentum_profile :: "'d trader_profile"
  pc_random_profile :: "'d trader_profile"

definition default_participant_config :: "'d fp \<Rightarrow> 'd participant_config" where
  "default_participant_config fp =
     \<lparr>pc_num_market_makers = 2, pc_num_momentum_traders = 3, pc_num_random_traders = 5,
      pc_market_maker_profile = default_market_maker_profile fp, pc_momentum_profile = default_momentum_profile fp,
      pc_random_profile = default_random_profile fp\<rparr>"

section \<open>A participant\<close>

record ('d, 'r) sim_market =
  mk_price_walks :: "('d, 'r) price_walk list"
  mk_book :: sim_book

record ('d, 'g) participant =
  pa_id :: u32
  pa_profile :: "'d trader_profile"
  pa_symbols :: "symbol list"
  pa_rng :: 'g
  pa_next_order_id :: order_id
  pa_total_generated :: u64
  pa_prev_prices :: "'d list"

text \<open>
  The draws of a participant: the kind of message by the weights, a size by mean and standard deviation, a number
  between 0 and 1, and those of \<open>sim_random\<close>.
\<close>

record ('d, 'g) participant_random =
  pr_random :: "'g sim_random"
  pr_type :: "'d list \<Rightarrow> 'g \<Rightarrow> nat \<times> 'g"
  pr_size :: "'d \<Rightarrow> 'd \<Rightarrow> 'g \<Rightarrow> 'd \<times> 'g"
  pr_uniform :: "'g \<Rightarrow> 'd \<times> 'g"

definition participant_new ::
  "u32 \<Rightarrow> 'd trader_profile \<Rightarrow> symbol list \<Rightarrow> ('d, 'r) price_walk list \<Rightarrow> 'g \<Rightarrow> ('d, 'g) participant" where
  "participant_new i profile symbols walks rng =
     \<lparr>pa_id = i, pa_profile = profile, pa_symbols = symbols, pa_rng = rng,
      pa_next_order_id = ucast i * 1000000 + 1, pa_total_generated = 0, pa_prev_prices = map pw_current_price walks\<rparr>"

text \<open>The conversion to \<open>Quantity\<close> is defined for values that are less than \<open>2 ^ 32\<close> after truncation.\<close>

definition pa_random_quantity ::
  "'d fp \<Rightarrow> ('d, 'g) participant_random \<Rightarrow> ('d, 'g) participant \<Rightarrow> (quantity \<times> ('d, 'g) participant) option" where
  "pa_random_quantity fp rnd p =
     (let (raw, g) = pr_size rnd (tp_size_mean (pa_profile p)) (tp_size_stddev (pa_profile p)) (pa_rng p);
          i = fp_trunc fp (fp_max fp raw (fp_of_nat fp (unat (tp_min_qty (pa_profile p)))))
      in if 0 \<le> i \<and> i < 2 ^ 32 then Some (min (of_int i) (tp_max_qty (pa_profile p)), p\<lparr>pa_rng := g\<rparr>) else None)"

definition either_side :: "('d, 'g) participant_random \<Rightarrow> ('d, 'g) participant \<Rightarrow> side \<times> ('d, 'g) participant" where
  "either_side rnd p =
     (let (k, g) = rnd_index (pr_random rnd) 0 1 (pa_rng p)
      in (if k = 0 then Side_Buy else Side_Sell, p\<lparr>pa_rng := g\<rparr>))"

text \<open>With the trend the first side is taken with a probability of 80 percent, and otherwise the second.\<close>

definition mostly ::
  "'d fp \<Rightarrow> ('d, 'g) participant_random \<Rightarrow> side \<Rightarrow> side \<Rightarrow> ('d, 'g) participant \<Rightarrow> side \<times> ('d, 'g) participant" where
  "mostly fp rnd first second p =
     (let (x, g) = pr_uniform rnd (pa_rng p)
      in (if fp_less fp x (fp_ratio fp 80 100) then first else second, p\<lparr>pa_rng := g\<rparr>))"

definition choose_side ::
  "'d fp \<Rightarrow> ('d, 'g) participant_random \<Rightarrow> nat \<Rightarrow> ('d, 'r) sim_market \<Rightarrow> ('d, 'g) participant
     \<Rightarrow> (side \<times> ('d, 'g) participant) option" where
  "choose_side fp rnd symbol_idx mk p =
     (case tp_type (pa_profile p) of
        MarketMaker \<Rightarrow> Some (either_side rnd p)
      | MomentumTrader \<Rightarrow>
          (case (vector_at (mk_price_walks mk) symbol_idx, vector_at (pa_prev_prices p) symbol_idx) of
             (Some w, Some prev) \<Rightarrow>
               let current = pw_current_price w in
               Some (if fp_less fp prev current then mostly fp rnd Side_Buy Side_Sell p
                     else if fp_less fp current prev then mostly fp rnd Side_Sell Side_Buy p
                     else either_side rnd p)
           | _ \<Rightarrow> None)
      | RandomTrader \<Rightarrow> Some (either_side rnd p))"

type_synonym ('d, 'r, 'g) pa_result = "(nat \<times> bytes \<times> ('d, 'g) participant \<times> ('d, 'r) sim_market) option"

text \<open>\<open>price_walks_[sym_idx].next()\<close>\<close>

definition market_next ::
  "'d sim_math \<Rightarrow> ('r \<Rightarrow> 'd \<times> 'r) \<Rightarrow> nat \<Rightarrow> ('d, 'r) sim_market \<Rightarrow> (price \<times> ('d, 'r) sim_market) option" where
  "market_next mt normal i mk =
     (case vector_at (mk_price_walks mk) i of
        None \<Rightarrow> None
      | Some w \<Rightarrow> let (p, w') = pw_next mt normal w in Some (p, mk\<lparr>mk_price_walks := (mk_price_walks mk)[i := w']\<rparr>))"

text \<open>The common end of the operations: read the clock, encode, and when something was written apply it and count.\<close>

definition pa_emit ::
  "('d, 'g) participant_random \<Rightarrow> parsed_message \<Rightarrow> (timestamp \<Rightarrow> 'g \<Rightarrow> sim_book \<Rightarrow> sim_book) \<Rightarrow> bytes \<Rightarrow> nat
     \<Rightarrow> ('d, 'g) participant \<Rightarrow> ('d, 'r) sim_market \<Rightarrow> ('d, 'r, 'g) pa_result" where
  "pa_emit rnd msg apply_to buffer buffer_size p mk =
     (let (ts, g) = rnd_clock (pr_random rnd) (pa_rng p); p = p\<lparr>pa_rng := g\<rparr> in
      case encode msg ts buffer buffer_size of
        None \<Rightarrow> None
      | Some (n, buffer) \<Rightarrow>
          if 0 < n then Some (n, buffer, p\<lparr>pa_total_generated := pa_total_generated p + 1\<rparr>,
                              mk\<lparr>mk_book := apply_to ts g (mk_book mk)\<rparr>)
          else Some (n, buffer, p, mk))"

type_synonym ('d, 'r, 'g) pa_op =
  "'d sim_math \<Rightarrow> ('r \<Rightarrow> 'd \<times> 'r) \<Rightarrow> ('d, 'g) participant_random \<Rightarrow> bytes \<Rightarrow> nat
     \<Rightarrow> ('d, 'g) participant \<Rightarrow> ('d, 'r) sim_market \<Rightarrow> ('d, 'r, 'g) pa_result"

definition remember_price :: "nat \<Rightarrow> ('d, 'r, 'g) pa_result \<Rightarrow> ('d, 'r, 'g) pa_result" where
  "remember_price i r =
     (case r of
        None \<Rightarrow> None
      | Some (n, buffer, p, mk) \<Rightarrow>
          if n = 0 then r
          else (case (vector_at (mk_price_walks mk) i, vector_at (pa_prev_prices p) i) of
                  (Some w, Some _) \<Rightarrow> Some (n, buffer, p\<lparr>pa_prev_prices := (pa_prev_prices p)[i := pw_current_price w]\<rparr>, mk)
                | _ \<Rightarrow> None))"

definition pa_generate_add :: "('d, 'r, 'g) pa_op" where
  "pa_generate_add mt normal rnd buffer buffer_size p mk =
     (let (sym_idx, g) = rnd_index (pr_random rnd) 0 (length (pa_symbols p) - 1) (pa_rng p);
          oid = pa_next_order_id p;
          p = p\<lparr>pa_rng := g, pa_next_order_id := oid + 1\<rparr>
      in case choose_side (sm_fp mt) rnd sym_idx mk p of
           None \<Rightarrow> None
         | Some (sd, p) \<Rightarrow>
       (case (vector_at (pa_symbols p) sym_idx, market_next mt normal sym_idx mk) of
          (Some symb, Some (px, mk)) \<Rightarrow>
            (case pa_random_quantity (sm_fp mt) rnd p of
               None \<Rightarrow> None
             | Some (q, p) \<Rightarrow>
                 remember_price sym_idx
                   (pa_emit rnd (AddOrder \<lparr>ao_order_id = oid, ao_side = sd, ao_symbol = symb, ao_price = px, ao_quantity = q\<rparr>)
                     (\<lambda>ts g b. snd (sb_add (rnd_arrange (pr_random rnd) g)
                        \<lparr>o_order_id = oid, o_symbol = symb, o_side = sd, o_price = px, o_remaining_quantity = q,
                         o_timestamp = ts\<rparr> b))
                     buffer buffer_size p mk))
        | _ \<Rightarrow> None))"

definition pa_generate_cancel :: "('d, 'r, 'g) pa_op" where
  "pa_generate_cancel mt normal rnd buffer buffer_size p mk =
     (let (oid, g) = random_live_order (rnd_index (pr_random rnd)) (mk_book mk) (pa_rng p);
          p = p\<lparr>pa_rng := g\<rparr>
      in case oid of
           None \<Rightarrow> pa_generate_add mt normal rnd buffer buffer_size p mk
         | Some oid \<Rightarrow>
             pa_emit rnd (CancelOrder \<lparr>co_order_id = oid\<rparr>) (\<lambda>_ _ b. snd (sb_cancel oid b)) buffer buffer_size p mk)"

definition pa_generate_execute :: "('d, 'r, 'g) pa_op" where
  "pa_generate_execute mt normal rnd buffer buffer_size p mk =
     (let (oid, g) = random_live_order (rnd_index (pr_random rnd)) (mk_book mk) (pa_rng p);
          p = p\<lparr>pa_rng := g\<rparr>
      in case oid of
           None \<Rightarrow> pa_generate_add mt normal rnd buffer buffer_size p mk
         | Some oid \<Rightarrow>
             (case sb_find (mk_book mk) oid of
                None \<Rightarrow> pa_generate_add mt normal rnd buffer buffer_size p mk
              | Some ord \<Rightarrow>
                  let (q, g) = rnd_quantity (pr_random rnd) 1 (o_remaining_quantity ord) (pa_rng p)
                  in pa_emit rnd (ExecuteOrder \<lparr>eo_order_id = oid, eo_exec_quantity = q\<rparr>)
                       (\<lambda>_ _ b. snd (sb_execute oid q b)) buffer buffer_size (p\<lparr>pa_rng := g\<rparr>) mk))"

definition pa_generate_replace :: "('d, 'r, 'g) pa_op" where
  "pa_generate_replace mt normal rnd buffer buffer_size p mk =
     (let (oid, g) = random_live_order (rnd_index (pr_random rnd)) (mk_book mk) (pa_rng p);
          p = p\<lparr>pa_rng := g\<rparr>
      in case oid of
           None \<Rightarrow> pa_generate_add mt normal rnd buffer buffer_size p mk
         | Some oid \<Rightarrow>
             (case sb_find (mk_book mk) oid of
                None \<Rightarrow> pa_generate_add mt normal rnd buffer buffer_size p mk
              | Some ord \<Rightarrow>
                  (case market_next mt normal (symbol_index (pa_symbols p) (o_symbol ord)) mk of
                     None \<Rightarrow> None
                   | Some (px, mk) \<Rightarrow>
                       (case pa_random_quantity (sm_fp mt) rnd p of
                          None \<Rightarrow> None
                        | Some (q, p) \<Rightarrow>
                            pa_emit rnd (ReplaceOrder \<lparr>ro_order_id = oid, ro_new_price = px, ro_new_quantity = q\<rparr>)
                              (\<lambda>_ _ b. snd (sb_replace oid px q b)) buffer buffer_size p mk))))"

definition pa_generate_trade :: "('d, 'r, 'g) pa_op" where
  "pa_generate_trade mt normal rnd buffer buffer_size p mk =
     (let (bid_id, g) = random_live_order_on (rnd_index (pr_random rnd)) Side_Buy (mk_book mk) (pa_rng p);
          (ask_id, g) = random_live_order_on (rnd_index (pr_random rnd)) Side_Sell (mk_book mk) g;
          p = p\<lparr>pa_rng := g\<rparr>
      in case (bid_id, ask_id) of
           (Some bid_id, Some ask_id) \<Rightarrow>
             (case (sb_find (mk_book mk) bid_id, sb_find (mk_book mk) ask_id) of
                (Some bid, Some ask) \<Rightarrow>
                  let trade_qty = min (o_remaining_quantity bid) (o_remaining_quantity ask);
                      trade_qty = (if trade_qty = 0 then 1 else trade_qty)
                  in pa_emit rnd (TradeMessage \<lparr>tm_symbol = o_symbol bid, tm_price = o_price ask,
                         tm_quantity = trade_qty, tm_buy_order_id = bid_id, tm_sell_order_id = ask_id\<rparr>)
                       (\<lambda>_ _ b. snd (sb_execute ask_id trade_qty (snd (sb_execute bid_id trade_qty b))))
                       buffer buffer_size p mk
              | _ \<Rightarrow> pa_generate_add mt normal rnd buffer buffer_size p mk)
         | _ \<Rightarrow> pa_generate_add mt normal rnd buffer buffer_size p mk)"

definition pa_next :: "('d, 'r, 'g) pa_op" where
  "pa_next mt normal rnd buffer buffer_size p mk =
     (let (type, g) = pr_type rnd (tp_weights (pa_profile p)) (pa_rng p);
          p = p\<lparr>pa_rng := g\<rparr>;
          type = (if sb_empty (mk_book mk) \<and> type \<noteq> 0 then 0 else type)
      in if type = 1 then pa_generate_cancel mt normal rnd buffer buffer_size p mk
         else if type = 2 then pa_generate_execute mt normal rnd buffer buffer_size p mk
         else if type = 3 then pa_generate_replace mt normal rnd buffer buffer_size p mk
         else if type = 4 then pa_generate_trade mt normal rnd buffer buffer_size p mk
         else pa_generate_add mt normal rnd buffer buffer_size p mk)"

section \<open>The pool\<close>

record ('d, 'g) participant_model =
  pt_participants :: "('d, 'g) participant list"
  pt_rng :: 'g

text \<open>\<open>seeded\<close> is the random number generator for a seed.\<close>

definition participants_of ::
  "(u32 \<Rightarrow> 'g) \<Rightarrow> u32 \<Rightarrow> symbol list \<Rightarrow> ('d, 'r) price_walk list \<Rightarrow> 'd trader_profile list \<Rightarrow> ('d, 'g) participant list" where
  "participants_of seeded seed symbols walks profiles =
     map (\<lambda>(i, profile). participant_new (of_nat i) profile symbols walks (seeded (seed + 1000 + of_nat i)))
       (List.enumerate 0 profiles)"

definition participant_model_new ::
  "(u32 \<Rightarrow> 'g) \<Rightarrow> u32 \<Rightarrow> symbol list \<Rightarrow> ('d, 'r) price_walk list \<Rightarrow> 'd participant_config \<Rightarrow> ('d, 'g) participant_model" where
  "participant_model_new seeded seed symbols walks config =
     \<lparr>pt_participants = participants_of seeded seed symbols walks
        (replicate (unat (pc_num_market_makers config)) (pc_market_maker_profile config)
         @ replicate (unat (pc_num_momentum_traders config)) (pc_momentum_profile config)
         @ replicate (unat (pc_num_random_traders config)) (pc_random_profile config)),
      pt_rng = seeded seed\<rparr>"

definition pt_next ::
  "'d sim_math \<Rightarrow> ('r \<Rightarrow> 'd \<times> 'r) \<Rightarrow> ('d, 'g) participant_random \<Rightarrow> bytes \<Rightarrow> nat \<Rightarrow> ('d, 'g) participant_model
     \<Rightarrow> ('d, 'r) sim_market \<Rightarrow> (nat \<times> bytes \<times> ('d, 'g) participant_model \<times> ('d, 'r) sim_market) option" where
  "pt_next mt normal rnd buffer buffer_size pt mk =
     (if pt_participants pt = [] then Some (0, buffer, pt, mk)
      else let (idx, g) = rnd_index (pr_random rnd) 0 (length (pt_participants pt) - 1) (pt_rng pt)
           in case vector_at (pt_participants pt) idx of
                None \<Rightarrow> None
              | Some p \<Rightarrow>
                  (case pa_next mt normal rnd buffer buffer_size p mk of
                     None \<Rightarrow> None
                   | Some (n, buffer, p, mk) \<Rightarrow>
                       Some (n, buffer, \<lparr>pt_participants = (pt_participants pt)[idx := p], pt_rng = g\<rparr>, mk)))"

text \<open>A sequence of \<open>k\<close> calls with the same buffer: what each of them wrote.\<close>

primrec pt_run ::
  "nat \<Rightarrow> 'd sim_math \<Rightarrow> ('r \<Rightarrow> 'd \<times> 'r) \<Rightarrow> ('d, 'g) participant_random \<Rightarrow> bytes \<Rightarrow> nat \<Rightarrow> ('d, 'g) participant_model
     \<Rightarrow> ('d, 'r) sim_market \<Rightarrow> (bytes list \<times> ('d, 'g) participant_model \<times> ('d, 'r) sim_market) option" where
  "pt_run 0 mt normal rnd buffer n pt mk = Some ([], pt, mk)"
| "pt_run (Suc k) mt normal rnd buffer n pt mk =
     (case pt_next mt normal rnd buffer n pt mk of
        None \<Rightarrow> None
      | Some (written, buffer, pt, mk) \<Rightarrow>
          (case pt_run k mt normal rnd buffer n pt mk of
             None \<Rightarrow> None
           | Some (out, pt, mk) \<Rightarrow> Some (take written buffer # out, pt, mk)))"

definition pt_total_generated :: "('d, 'g) participant_model \<Rightarrow> u64" where
  "pt_total_generated pt = foldl (\<lambda>total p. total + pa_total_generated p) 0 (pt_participants pt)"

section \<open>Messages and the shared book\<close>

definition book_live :: "sim_book \<Rightarrow> order_id \<rightharpoonup> order" where
  "book_live b oid = map_option unstamped (sb_find b oid)"

definition book_ok :: "sim_book \<Rightarrow> bool" where
  "book_ok b \<longleftrightarrow> sb_inv b \<and> (\<forall>oid ord. sb_find b oid = Some ord \<longrightarrow> o_remaining_quantity ord \<noteq> 0)"

text \<open>A message that refers to the live orders of a book, and the book that has applied it.\<close>

definition msg_step :: "sim_book \<Rightarrow> parsed_message \<Rightarrow> sim_book \<Rightarrow> bool" where
  "msg_step b msg b' \<longleftrightarrow> msg_refers (book_live b) msg \<and> book_live b' = msg_effect (book_live b) msg \<and> book_ok b'"

lemma book_okD:
  assumes "book_ok b"
  shows "sb_inv b" "sb_find b oid = Some ord \<Longrightarrow> o_remaining_quantity ord \<noteq> 0"
  using assms unfolding book_ok_def by blast+

lemma book_ok_new: "book_ok sim_book_new" "book_live sim_book_new = Map.empty"
  by (simp_all add: book_ok_def book_live_def fun_eq_iff sim_book_new_def sb_inv_def sb_find_def)

lemma book_ok_execute: "book_ok b \<Longrightarrow> book_ok (snd (sb_execute oid q b))"
  by (auto simp: book_ok_def sb_find_execute inv_rules bind_eq_Some_conv dest: take_quantity_Some(1) split: if_splits)

lemma step_cancel:
  assumes "book_ok b" "sb_find b oid \<noteq> None"
  shows "msg_step b (CancelOrder \<lparr>co_order_id = oid\<rparr>) (snd (sb_cancel oid b))"
  using assms by (auto simp: msg_step_def book_ok_def book_live_def sb_find_cancel inv_rules fun_eq_iff)

lemma step_execute:
  assumes "book_ok b" "sb_find b oid = Some ord" "q \<noteq> 0" "q \<le> o_remaining_quantity ord"
  shows "msg_step b (ExecuteOrder \<lparr>eo_order_id = oid, eo_exec_quantity = q\<rparr>) (snd (sb_execute oid q b))"
  using assms book_ok_execute [OF assms(1), of oid q]
  by (auto simp: msg_step_def book_live_def sb_find_execute fun_eq_iff take_unstamped_Some)

lemma step_replace:
  assumes "book_ok b" "sb_find b oid \<noteq> None" "q \<noteq> 0"
  shows "msg_step b (ReplaceOrder \<lparr>ro_order_id = oid, ro_new_price = p, ro_new_quantity = q\<rparr>) (snd (sb_replace oid p q b))"
  using assms
  by (auto simp: msg_step_def book_ok_def book_live_def sb_find_replace fun_eq_iff unstamped_def inv_rules option.map_comp comp_def)

lemma step_trade:
  assumes "book_ok b" "sb_find b k = Some bid" "o_side bid = Side_Buy" "sb_find b k' = Some ask" "o_side ask = Side_Sell"
  defines "q \<equiv> min (o_remaining_quantity bid) (o_remaining_quantity ask)"
  shows "msg_step b (TradeMessage \<lparr>tm_symbol = o_symbol bid, tm_price = p, tm_quantity = q, tm_buy_order_id = k,
    tm_sell_order_id = k'\<rparr>) (snd (sb_execute k' q (snd (sb_execute k q b))))" and "q \<noteq> 0"
proof -
  show q: "q \<noteq> 0"
    using assms book_okD(2) [OF assms(1)] by (auto simp: q_def min_def)
  have "k \<noteq> k'"
    using assms by auto
  then show "msg_step b (TradeMessage \<lparr>tm_symbol = o_symbol bid, tm_price = p, tm_quantity = q, tm_buy_order_id = k,
      tm_sell_order_id = k'\<rparr>) (snd (sb_execute k' q (snd (sb_execute k q b))))"
    using assms(2-5) q book_ok_execute [OF book_ok_execute [OF assms(1), of k q], of k' q]
    by (auto simp: msg_step_def book_live_def sb_find_execute fun_eq_iff take_unstamped_Some Let_def q_def)
qed

lemma step_add:
  assumes "book_ok b" "sb_find b oid = None" "q \<noteq> 0" "sd = Side_Buy \<or> sd = Side_Sell"
    and "\<And>es. mset (arrange es) = mset es"
  shows "msg_step b (AddOrder \<lparr>ao_order_id = oid, ao_side = sd, ao_symbol = symb, ao_price = px, ao_quantity = q\<rparr>)
    (snd (sb_add arrange \<lparr>o_order_id = oid, o_symbol = symb, o_side = sd, o_price = px, o_remaining_quantity = q,
      o_timestamp = ts\<rparr> b))"
proof -
  let ?ord = "\<lparr>o_order_id = oid, o_symbol = symb, o_side = sd, o_price = px, o_remaining_quantity = q, o_timestamp = ts\<rparr>"
  have "sb_find (snd (sb_add arrange ?ord b)) = (sb_find b)(oid \<mapsto> ?ord)"
    using sb_find_add [where arrange = arrange and ord = ?ord and b = b] assms(2,5) book_okD(1) [OF assms(1)] by simp
  moreover have "sb_inv (snd (sb_add arrange ?ord b))"
    using book_okD(1) [OF assms(1)] assms(5) by (rule sb_inv_add)
  ultimately show ?thesis
    using assms(2-4) book_okD(2) [OF assms(1)] by (auto simp: msg_step_def book_ok_def book_live_def unstamped_def fun_eq_iff)
qed

section \<open>One message\<close>

definition participant_ok :: "('d, 'g) participant \<Rightarrow> ('d, 'r) sim_market \<Rightarrow> bool" where
  "participant_ok p mk \<longleftrightarrow> pa_symbols p \<noteq> [] \<and> length (mk_price_walks mk) = length (pa_symbols p)
     \<and> length (pa_prev_prices p) = length (pa_symbols p) \<and> tp_min_qty (pa_profile p) \<noteq> 0 \<and> tp_max_qty (pa_profile p) \<noteq> 0"

text \<open>What stays the same, and the ids: none, or the next one of the participant, is new in the book.\<close>

definition same_shape ::
  "('d, 'g) participant \<Rightarrow> ('d, 'r) sim_market \<Rightarrow> ('d, 'g) participant \<Rightarrow> ('d, 'r) sim_market \<Rightarrow> bool" where
  "same_shape p mk p' mk' \<longleftrightarrow> pa_id p' = pa_id p \<and> pa_profile p' = pa_profile p \<and> pa_symbols p' = pa_symbols p
     \<and> length (pa_prev_prices p') = length (pa_prev_prices p) \<and> length (mk_price_walks mk') = length (mk_price_walks mk)"

definition new_ids ::
  "('d, 'g) participant \<Rightarrow> ('d, 'r) sim_market \<Rightarrow> ('d, 'g) participant \<Rightarrow> ('d, 'r) sim_market \<Rightarrow> bool" where
  "new_ids p mk p' mk' \<longleftrightarrow>
     pa_next_order_id p' = pa_next_order_id p \<and> dom (book_live (mk_book mk')) \<subseteq> dom (book_live (mk_book mk))
     \<or> pa_next_order_id p' = pa_next_order_id p + 1
       \<and> dom (book_live (mk_book mk')) \<subseteq> insert (pa_next_order_id p) (dom (book_live (mk_book mk)))"

definition pa_ok ::
  "bytes \<Rightarrow> ('d, 'g) participant \<Rightarrow> ('d, 'r) sim_market \<Rightarrow> ('d, 'r, 'g) pa_result \<Rightarrow> bool" where
  "pa_ok buffer p mk r \<longleftrightarrow> (\<exists>msg ts p' mk'.
     r = Some (msg_WIRE_SIZE msg, wire msg ts @ drop (msg_WIRE_SIZE msg) buffer, p', mk')
     \<and> msg_step (mk_book mk) msg (mk_book mk') \<and> same_shape p mk p' mk' \<and> new_ids p mk p' mk')"

lemma pa_ok_rng [simp]: "pa_ok buffer (p\<lparr>pa_rng := g\<rparr>) mk = pa_ok buffer p mk"
  by (simp add: pa_ok_def same_shape_def new_ids_def fun_eq_iff)

lemma participant_ok_rng [simp]: "participant_ok (p\<lparr>pa_rng := g\<rparr>) mk = participant_ok p mk"
  by (simp add: participant_ok_def)

lemma dom_msg_effect:
  assumes "msg_refers M msg"
  shows "dom (msg_effect M msg) \<subseteq> (case msg of AddOrder m \<Rightarrow> insert (ao_order_id m) (dom M) | _ \<Rightarrow> dom M)"
  using assms by (cases msg) (auto simp: Let_def bind_eq_Some_conv split: if_splits)

lemma pa_emit_Some:
  assumes "43 \<le> n" "n \<le> length buffer"
  shows "\<exists>ts g. pa_emit rnd msg apply_to buffer n p mk =
    Some (msg_WIRE_SIZE msg, wire msg ts @ drop (msg_WIRE_SIZE msg) buffer,
      p\<lparr>pa_rng := g, pa_total_generated := pa_total_generated p + 1\<rparr>, mk\<lparr>mk_book := apply_to ts g (mk_book mk)\<rparr>)"
proof -
  have "msg_WIRE_SIZE msg \<le> n" "0 < msg_WIRE_SIZE msg"
    using wire_size_bounds [of msg] assms(1) by simp_all
  then show ?thesis
    using encode_ok [OF _ assms(2), of msg] by (auto simp: pa_emit_def split_beta Let_def)
qed

text \<open>An operation that emits a message other than an addition.\<close>

lemma pa_emit_ok:
  assumes buf: "43 \<le> n" "n \<le> length buffer" and "\<And>ts g. msg_step (mk_book mk) msg (apply_to ts g (mk_book mk))"
    and "\<And>m. msg \<noteq> AddOrder m" "length ws = length (mk_price_walks mk)"
  shows "pa_ok buffer p mk (pa_emit rnd msg apply_to buffer n p (mk\<lparr>mk_price_walks := ws\<rparr>))"
proof -
  have "dom (book_live (apply_to ts g (mk_book mk))) \<subseteq> dom (book_live (mk_book mk))" for ts g
    using assms(3) [of ts g] dom_msg_effect [of "book_live (mk_book mk)" msg] assms(4) by (cases msg) (auto simp: msg_step_def)
  moreover obtain ts g where "pa_emit rnd msg apply_to buffer n p (mk\<lparr>mk_price_walks := ws\<rparr>) =
    Some (msg_WIRE_SIZE msg, wire msg ts @ drop (msg_WIRE_SIZE msg) buffer,
      p\<lparr>pa_rng := g, pa_total_generated := pa_total_generated p + 1\<rparr>, mk\<lparr>mk_price_walks := ws, mk_book := apply_to ts g (mk_book mk)\<rparr>)"
    using pa_emit_Some [OF buf, of rnd msg apply_to p "mk\<lparr>mk_price_walks := ws\<rparr>"] by auto
  ultimately show ?thesis
    using assms(3,5) by (auto simp: pa_ok_def same_shape_def new_ids_def)
qed

lemma market_next_Some:
  assumes "i < length (mk_price_walks mk)"
  obtains px ws where "market_next mt normal i mk = Some (px, mk\<lparr>mk_price_walks := ws\<rparr>)" "length ws = length (mk_price_walks mk)"
  using assms by (auto simp: market_next_def vector_at_def split_beta Let_def)

text \<open>Sizes are drawn below \<open>2 ^ 32\<close>, the least quantity and the largest are not zero: so no quantity is.\<close>

definition sizes_ok :: "(real, 'g) participant_random \<Rightarrow> bool" where
  "sizes_ok rnd \<longleftrightarrow> random_ok (pr_random rnd) \<and> (\<forall>m s g. fst (pr_size rnd m s g) < 2 ^ 32)"

lemma pa_random_quantity_Some:
  assumes "sizes_ok rnd" "participant_ok p mk"
  obtains q g where "pa_random_quantity exact_fp rnd p = Some (q, p\<lparr>pa_rng := g\<rparr>)" "q \<noteq> 0" "q \<le> tp_max_qty (pa_profile p)"
proof -
  let ?raw = "fst (pr_size rnd (tp_size_mean (pa_profile p)) (tp_size_stddev (pa_profile p)) (pa_rng p))"
  let ?lo = "tp_min_qty (pa_profile p)" and ?hi = "tp_max_qty (pa_profile p)"
  define i where "i = \<lfloor>max ?raw (real (unat ?lo))\<rfloor>"
  have nz: "?lo \<noteq> 0" "?hi \<noteq> 0"
    using assms(2) by (simp_all add: participant_ok_def)
  have "1 \<le> unat ?lo" "unat ?lo < 2 ^ 32"
    using unat_lt_pow [of ?lo] unat_gt_0 [of ?lo] nz(1) by (simp_all add: Suc_le_eq)
  then have lo: "1 \<le> real (unat ?lo)" "real (unat ?lo) < 2 ^ 32"
    unfolding of_nat_1 [symmetric, where 'a = real] of_nat_le_iff by (simp, metis of_nat_less_numeral_power_cancel_iff)
  have "?raw < 2 ^ 32"
    using assms(1) by (simp add: sizes_ok_def)
  with lo(2) have "max ?raw (real (unat ?lo)) < 2 ^ 32"
    by simp
  moreover have "1 \<le> max ?raw (real (unat ?lo))"
    using lo(1) by (simp add: le_max_iff_disj)
  ultimately have i: "1 \<le> i" "i < 2 ^ 32" "fp_trunc exact_fp (max ?raw (real (unat ?lo))) = i"
    by (simp_all add: i_def floor_less_iff le_floor_iff exact_fp_def)
  then have "(of_int i :: u32) = of_nat (nat i)"
    by simp
  then have "unat (of_int i :: u32) = nat i"
    using unat_of_nat_small [of "nat i", where 'a = 32] i by (simp add: nat_less_iff)
  with i have "(of_int i :: u32) \<noteq> 0"
    by (auto simp: unat_eq_zero [symmetric] simp del: unat_eq_zero)
  then have "min (of_int i) ?hi \<noteq> 0" "min (of_int i) ?hi \<le> ?hi"
    using nz by (auto simp: min_def)
  then show ?thesis
    using that i by (simp add: pa_random_quantity_def split_beta Let_def)
qed

lemma choose_side_Some:
  assumes "i < length (mk_price_walks mk)" "i < length (pa_prev_prices p)"
  obtains sd g where "choose_side fp rnd i mk p = Some (sd, p\<lparr>pa_rng := g\<rparr>)" "sd = Side_Buy \<or> sd = Side_Sell"
proof -
  have either: "\<exists>sd g. either_side rnd p = (sd, p\<lparr>pa_rng := g\<rparr>) \<and> (sd = Side_Buy \<or> sd = Side_Sell)"
    by (auto simp: either_side_def split_beta Let_def)
  have mostly: "\<exists>sd g. mostly fp rnd a b p = (sd, p\<lparr>pa_rng := g\<rparr>) \<and> (sd = a \<or> sd = b)" for a b
    by (auto simp: mostly_def split_beta Let_def)
  have "\<exists>sd g. choose_side fp rnd i mk p = Some (sd, p\<lparr>pa_rng := g\<rparr>) \<and> (sd = Side_Buy \<or> sd = Side_Sell)"
    using either mostly [of Side_Buy Side_Sell] mostly [of Side_Sell Side_Buy] assms
    by (cases "tp_type (pa_profile p)") (auto simp: choose_side_def vector_at_def Let_def)
  then show ?thesis
    using that by blast
qed

text \<open>What a call needs: a sound market, a participant whose next id is free, and room in the buffer.\<close>

definition pa_ready ::
  "(real, 'g) participant_random \<Rightarrow> bytes \<Rightarrow> nat \<Rightarrow> (real, 'g) participant \<Rightarrow> (real, 'r) sim_market \<Rightarrow> bool" where
  "pa_ready rnd buffer n p mk \<longleftrightarrow> sizes_ok rnd \<and> participant_ok p mk \<and> book_ok (mk_book mk)
     \<and> sb_find (mk_book mk) (pa_next_order_id p) = None \<and> 43 \<le> n \<and> n \<le> length buffer"

lemma pa_ready_rng [simp]: "pa_ready rnd buffer n (p\<lparr>pa_rng := g\<rparr>) mk = pa_ready rnd buffer n p mk"
  by (simp add: pa_ready_def)

lemma pa_readyD:
  assumes "pa_ready rnd buffer n p mk"
  shows "sizes_ok rnd" "participant_ok p mk" "book_ok (mk_book mk)" "sb_find (mk_book mk) (pa_next_order_id p) = None"
    "43 \<le> n" "n \<le> length buffer" "random_ok (pr_random rnd)" "sb_inv (mk_book mk)"
  using assms by (auto simp: pa_ready_def sizes_ok_def book_ok_def)

lemma pa_add_ok:
  assumes ready: "pa_ready rnd buffer n p mk"
  shows "pa_ok buffer p mk (pa_generate_add exact_math normal rnd buffer n p mk)"
proof -
  note rnd = pa_readyD(1) [OF ready] and ok = pa_readyD(2,3) [OF ready] and fresh = pa_readyD(4) [OF ready]
    and buf = pa_readyD(5,6) [OF ready] and R = pa_readyD(7) [OF ready]
  obtain i g where i: "rnd_index (pr_random rnd) 0 (length (pa_symbols p) - 1) (pa_rng p) = (i, g)" by force
  have "i \<le> length (pa_symbols p) - 1" "pa_symbols p \<noteq> []"
    using random_okD(2) [OF R, of 0 "length (pa_symbols p) - 1" "pa_rng p"] i ok(1) by (simp_all add: participant_ok_def)
  then have lt: "i < length (pa_symbols p)" "i < length (mk_price_walks mk)" "i < length (pa_prev_prices p)"
    using ok(1) by (cases "pa_symbols p"; simp add: participant_ok_def less_Suc_eq_le)+
  let ?oid = "pa_next_order_id p"
  let ?p1 = "p\<lparr>pa_rng := g, pa_next_order_id := ?oid + 1\<rparr>"
  obtain sd g1 where sd: "choose_side exact_fp rnd i mk ?p1 = Some (sd, ?p1\<lparr>pa_rng := g1\<rparr>)" "sd = Side_Buy \<or> sd = Side_Sell"
    using choose_side_Some [of i mk ?p1 exact_fp rnd] lt by auto
  obtain px ws where px: "market_next exact_math normal i mk = Some (px, mk\<lparr>mk_price_walks := ws\<rparr>)" "length ws = length (mk_price_walks mk)"
    using market_next_Some [OF lt(2)] by blast
  let ?p2 = "?p1\<lparr>pa_rng := g1\<rparr>"
  have "participant_ok ?p2 mk"
    using ok(1) by (simp add: participant_ok_def)
  then obtain q g2 where q: "pa_random_quantity exact_fp rnd ?p2 = Some (q, ?p2\<lparr>pa_rng := g2\<rparr>)" "q \<noteq> 0"
    using pa_random_quantity_Some [OF rnd] by blast
  define msg where "msg = AddOrder \<lparr>ao_order_id = ?oid, ao_side = sd, ao_symbol = pa_symbols p ! i, ao_price = px, ao_quantity = q\<rparr>"
  define f where "f ts g b = snd (sb_add (rnd_arrange (pr_random rnd) g) \<lparr>o_order_id = ?oid, o_symbol = pa_symbols p ! i,
      o_side = sd, o_price = px, o_remaining_quantity = q, o_timestamp = ts\<rparr> b)" for ts g b
  have step: "msg_step (mk_book mk) msg (f ts g (mk_book mk))" for ts g
    unfolding msg_def f_def using ok(2) fresh q(2) sd(2) random_okD(5) [OF R] by (intro step_add) simp_all
  then have dom: "dom (book_live (f ts g (mk_book mk))) \<subseteq> insert ?oid (dom (book_live (mk_book mk)))" for ts g
    using dom_msg_effect [of "book_live (mk_book mk)" msg] by (auto simp: msg_step_def msg_def)
  have emitted: "pa_generate_add exact_math normal rnd buffer n p mk =
      remember_price i (pa_emit rnd msg f buffer n (?p2\<lparr>pa_rng := g2\<rparr>) (mk\<lparr>mk_price_walks := ws\<rparr>))"
    using i sd(1) px(1) q(1) lt(1) by (simp add: pa_generate_add_def vector_at_def msg_def f_def [abs_def] Let_def)
  obtain ts g3 where emit: "pa_emit rnd msg f buffer n (?p2\<lparr>pa_rng := g2\<rparr>) (mk\<lparr>mk_price_walks := ws\<rparr>) =
      Some (msg_WIRE_SIZE msg, wire msg ts @ drop (msg_WIRE_SIZE msg) buffer,
        p\<lparr>pa_next_order_id := ?oid + 1, pa_rng := g3, pa_total_generated := pa_total_generated p + 1\<rparr>,
        mk\<lparr>mk_price_walks := ws, mk_book := f ts g3 (mk_book mk)\<rparr>)"
    using pa_emit_Some [OF buf, of rnd msg f "?p2\<lparr>pa_rng := g2\<rparr>" "mk\<lparr>mk_price_walks := ws\<rparr>"] by auto
  have "msg_WIRE_SIZE msg \<noteq> 0"
    using wire_size_bounds(1) [of msg] by simp
  then show ?thesis
    unfolding emitted emit using lt px(2) step [of ts g3] dom [of ts g3]
    by (auto simp: remember_price_def vector_at_def pa_ok_def same_shape_def new_ids_def)
qed

lemma pa_add_rng_ok: "pa_ready rnd buffer n p mk \<Longrightarrow>
    pa_ok buffer p mk (pa_generate_add exact_math normal rnd buffer n (p\<lparr>pa_rng := g\<rparr>) mk)"
  using pa_add_ok [of rnd buffer n "p\<lparr>pa_rng := g\<rparr>" mk] by simp

lemma pa_emit_rng_ok:
  assumes "pa_ready rnd buffer n p mk" "\<And>ts g. msg_step (mk_book mk) msg (apply_to ts g (mk_book mk))" "\<And>m. msg \<noteq> AddOrder m"
  shows "pa_ok buffer p mk (pa_emit rnd msg apply_to buffer n (p\<lparr>pa_rng := g\<rparr>) mk)"
  using pa_emit_ok [where apply_to = apply_to, OF pa_readyD(5,6) [OF assms(1)] assms(2,3), of "mk_price_walks mk" "p\<lparr>pa_rng := g\<rparr>"] by simp

lemma pa_cancel_ok:
  assumes "pa_ready rnd buffer n p mk"
  shows "pa_ok buffer p mk (pa_generate_cancel exact_math normal rnd buffer n p mk)"
proof -
  note D = pa_readyD [OF assms]
  obtain pick g where pick: "random_live_order (rnd_index (pr_random rnd)) (mk_book mk) (pa_rng p) = (pick, g)" by force
  show ?thesis
  proof (cases pick)
    case None
    then show ?thesis
      using pa_add_rng_ok [OF assms] pick by (simp add: pa_generate_cancel_def)
  next
    case (Some oid)
    then have "sb_find (mk_book mk) oid \<noteq> None"
      using random_live_order_Some [OF D(8,7)] pick by simp
    then show ?thesis
      using pa_emit_rng_ok [where apply_to = "\<lambda>_ _ b. snd (sb_cancel oid b)", OF assms step_cancel [OF D(3)]] pick Some by (simp add: pa_generate_cancel_def)
  qed
qed

lemma pa_execute_ok:
  assumes "pa_ready rnd buffer n p mk"
  shows "pa_ok buffer p mk (pa_generate_execute exact_math normal rnd buffer n p mk)"
proof -
  note D = pa_readyD [OF assms]
  obtain pick g where pick: "random_live_order (rnd_index (pr_random rnd)) (mk_book mk) (pa_rng p) = (pick, g)" by force
  show ?thesis
  proof (cases pick)
    case None
    then show ?thesis
      using pa_add_rng_ok [OF assms] pick by (simp add: pa_generate_execute_def)
  next
    case (Some oid)
    then obtain ord where ord: "sb_find (mk_book mk) oid = Some ord"
      using random_live_order_Some [OF D(8,7)] pick by blast
    obtain q g' where q: "rnd_quantity (pr_random rnd) 1 (o_remaining_quantity ord) g = (q, g')" by force
    have "1 \<le> o_remaining_quantity ord"
      using book_okD(2) [OF D(3) ord] by (simp add: word_le_nat_alt Suc_le_eq unat_gt_0)
    then have "1 \<le> q" "q \<le> o_remaining_quantity ord"
      using random_okD(3,4) [OF D(7), of 1 "o_remaining_quantity ord" g] q by simp_all
    then have "q \<noteq> 0" "q \<le> o_remaining_quantity ord"
      by auto
    then show ?thesis
      using pa_emit_rng_ok [where apply_to = "\<lambda>_ _ b. snd (sb_execute oid q b)", OF assms step_execute [OF D(3) ord]] pick Some ord q by (simp add: pa_generate_execute_def)
  qed
qed

lemma pa_replace_ok:
  assumes "pa_ready rnd buffer n p mk"
  shows "pa_ok buffer p mk (pa_generate_replace exact_math normal rnd buffer n p mk)"
proof -
  note D = pa_readyD [OF assms]
  obtain pick g where pick: "random_live_order (rnd_index (pr_random rnd)) (mk_book mk) (pa_rng p) = (pick, g)" by force
  show ?thesis
  proof (cases pick)
    case None
    then show ?thesis
      using pa_add_rng_ok [OF assms] pick by (simp add: pa_generate_replace_def)
  next
    case (Some oid)
    then obtain ord where ord: "sb_find (mk_book mk) oid = Some ord"
      using random_live_order_Some [OF D(8,7)] pick by blast
    let ?i = "symbol_index (pa_symbols p) (o_symbol ord)"
    have "?i < length (mk_price_walks mk)"
      using symbol_index_less [of "pa_symbols p"] D(2) by (simp add: participant_ok_def)
    then obtain px ws where px: "market_next exact_math normal ?i mk = Some (px, mk\<lparr>mk_price_walks := ws\<rparr>)"
      "length ws = length (mk_price_walks mk)"
      using market_next_Some by blast
    have "participant_ok (p\<lparr>pa_rng := g\<rparr>) mk"
      using D(2) by simp
    then obtain q g' where "pa_random_quantity exact_fp rnd (p\<lparr>pa_rng := g\<rparr>) = Some (q, p\<lparr>pa_rng := g, pa_rng := g'\<rparr>)" "q \<noteq> 0"
      using pa_random_quantity_Some [OF D(1)] by blast
    then have q: "pa_random_quantity exact_fp rnd (p\<lparr>pa_rng := g\<rparr>) = Some (q, p\<lparr>pa_rng := g'\<rparr>)" "q \<noteq> 0"
      by simp_all
    have "sb_find (mk_book mk) oid \<noteq> None"
      using ord by simp
    from pa_emit_ok [where apply_to = "\<lambda>_ _ b. snd (sb_replace oid px q b)", OF D(5,6) step_replace [OF D(3) this q(2)] _ px(2), where p = "p\<lparr>pa_rng := g'\<rparr>"]
    show ?thesis
      using pick Some ord px(1) q(1) by (simp add: pa_generate_replace_def)
  qed
qed

lemma pa_trade_ok:
  assumes "pa_ready rnd buffer n p mk"
  shows "pa_ok buffer p mk (pa_generate_trade exact_math normal rnd buffer n p mk)"
proof -
  note D = pa_readyD [OF assms]
  obtain bid_id g where b: "random_live_order_on (rnd_index (pr_random rnd)) Side_Buy (mk_book mk) (pa_rng p) = (bid_id, g)" by force
  obtain ask_id g' where a: "random_live_order_on (rnd_index (pr_random rnd)) Side_Sell (mk_book mk) g = (ask_id, g')" by force
  show ?thesis
  proof (cases "\<exists>k k'. bid_id = Some k \<and> ask_id = Some k'")
    case False
    then show ?thesis
      using pa_add_rng_ok [OF assms] a b by (cases bid_id; cases ask_id) (simp_all add: pa_generate_trade_def)
  next
    case True
    then obtain k k' where k: "bid_id = Some k" "ask_id = Some k'" by auto
    obtain bid where bid: "sb_find (mk_book mk) k = Some bid" "o_side bid = Side_Buy"
      using random_live_order_on_Some [OF D(8,7)] b k by blast
    obtain ask where ask: "sb_find (mk_book mk) k' = Some ask" "o_side ask = Side_Sell"
      using random_live_order_on_Some [OF D(8,7)] a k by blast
    let ?q = "min (o_remaining_quantity bid) (o_remaining_quantity ask)"
    show ?thesis
      using pa_emit_rng_ok [where apply_to = "\<lambda>_ _ b. snd (sb_execute k' ?q (snd (sb_execute k ?q b)))",
          OF assms step_trade(1) [OF D(3) bid ask]] step_trade(2) [OF D(3) bid ask] a b k bid ask
      by (simp add: pa_generate_trade_def Let_def)
  qed
qed

lemma pa_next_ok:
  assumes "pa_ready rnd buffer n p mk"
  shows "pa_ok buffer p mk (pa_next exact_math normal rnd buffer n p mk)"
proof -
  obtain type g where t: "pr_type rnd (tp_weights (pa_profile p)) (pa_rng p) = (type, g)" by force
  note ok = pa_add_ok pa_cancel_ok pa_execute_ok pa_replace_ok pa_trade_ok
  show ?thesis
    using ok [where p = "p\<lparr>pa_rng := g\<rparr>" and rnd = rnd and buffer = buffer and n = n and mk = mk] assms t
    by (simp add: pa_next_def Let_def)
qed

section \<open>The feed of the pool\<close>

text \<open>
  After at most \<open>k\<close> messages: every participant has used up at most \<open>k\<close> ids of its range, which starts at a
  million times its number, and every live order has an id that one of them has used.
\<close>

definition id_range :: nat where
  "id_range = 1000000"

definition pool_ok :: "nat \<Rightarrow> (real, 'g) participant_model \<Rightarrow> (real, 'r) sim_market \<Rightarrow> bool" where
  "pool_ok k pt mk \<longleftrightarrow> book_ok (mk_book mk) \<and> 0 < length (pt_participants pt) \<and> length (pt_participants pt) \<le> 2 ^ 32
     \<and> (\<forall>i<length (pt_participants pt). participant_ok (pt_participants pt ! i) mk
          \<and> i * id_range < unat (pa_next_order_id (pt_participants pt ! i))
          \<and> unat (pa_next_order_id (pt_participants pt ! i)) \<le> i * id_range + 1 + k)
     \<and> (\<forall>oid\<in>dom (book_live (mk_book mk)). \<exists>i<length (pt_participants pt).
          i * id_range < unat oid \<and> unat oid < unat (pa_next_order_id (pt_participants pt ! i)))"

lemma ranges_apart:
  fixes i j a b k :: nat
  assumes "i * id_range < a" "a \<le> i * id_range + 1 + k" "j * id_range < a" "a < b" "b \<le> j * id_range + 1 + k" "k < id_range"
  shows "i = j"
proof (rule ccontr)
  assume "i \<noteq> j"
  then consider "i + 1 \<le> j" | "j + 1 \<le> i"
    by linarith
  then show False
  proof cases
    case 1
    then have "(i + 1) * id_range \<le> j * id_range"
      by (rule mult_le_mono1)
    then show False
      using assms by simp
  next
    case 2
    then have "(j + 1) * id_range \<le> i * id_range"
      by (rule mult_le_mono1)
    then show False
      using assms by simp
  qed
qed

lemma pool_fresh:
  assumes ok: "pool_ok k pt mk" and "k < id_range" "i < length (pt_participants pt)"
  shows "sb_find (mk_book mk) (pa_next_order_id (pt_participants pt ! i)) = None"
proof (rule ccontr)
  let ?next = "\<lambda>i. pa_next_order_id (pt_participants pt ! i)"
  assume "sb_find (mk_book mk) (?next i) \<noteq> None"
  then have "?next i \<in> dom (book_live (mk_book mk))"
    by (auto simp: book_live_def)
  then obtain j where j: "j < length (pt_participants pt)" "j * id_range < unat (?next i)" "unat (?next i) < unat (?next j)"
    using ok unfolding pool_ok_def by blast
  moreover have "unat (?next j) \<le> j * id_range + 1 + k" "i * id_range < unat (?next i)" "unat (?next i) \<le> i * id_range + 1 + k"
    using ok j(1) assms(3) by (simp_all add: pool_ok_def)
  ultimately have "i = j"
    using ranges_apart assms(2) by blast
  then show False
    using j(3) by simp
qed

lemma pool_next_id:
  assumes ok: "pool_ok k pt mk" and "k < id_range" "i < length (pt_participants pt)"
  shows "unat (pa_next_order_id (pt_participants pt ! i) + 1) = unat (pa_next_order_id (pt_participants pt ! i)) + 1"
proof -
  have "i \<le> 2 ^ 32" "unat (pa_next_order_id (pt_participants pt ! i)) \<le> i * id_range + 1 + k"
    using ok assms(3) by (auto simp: pool_ok_def)
  moreover from this(1) have "i * id_range \<le> 2 ^ 32 * id_range"
    by (rule mult_le_mono1)
  ultimately show ?thesis
    using assms(2) unat_plus_small [of "pa_next_order_id (pt_participants pt ! i)" 1] by (simp add: id_range_def)
qed

lemma participant_ok_shape: "same_shape p mk p' mk' \<Longrightarrow> participant_ok p mk \<Longrightarrow> participant_ok p' mk'"
  "same_shape p mk p' mk' \<Longrightarrow> participant_ok q mk \<Longrightarrow> participant_ok q mk'"
  by (simp_all add: same_shape_def participant_ok_def)

lemma pool_ok_step:
  assumes ok: "pool_ok k pt mk" and k: "k < id_range" and i: "i < length (pt_participants pt)"
    and step: "same_shape (pt_participants pt ! i) mk p' mk'" "new_ids (pt_participants pt ! i) mk p' mk'" "book_ok (mk_book mk')"
  shows "pool_ok (Suc k) \<lparr>pt_participants = (pt_participants pt)[i := p'], pt_rng = g\<rparr> mk'"
proof -
  let ?ps = "pt_participants pt"
  let ?n = "\<lambda>i. unat (pa_next_order_id (?ps ! i))" and ?n' = "\<lambda>j. unat (pa_next_order_id (?ps[i := p'] ! j))"
  have old: "participant_ok (?ps ! j) mk" "j * id_range < ?n j" "?n j \<le> j * id_range + 1 + k" if "j < length ?ps" for j
    using ok that by (auto simp: pool_ok_def)
  have grow: "?n j \<le> ?n' j" "?n' j \<le> ?n j + 1" for j
    using step(2) i pool_next_id [OF ok k i] by (auto simp: new_ids_def nth_list_update)
  have "participant_ok (?ps[i := p'] ! j) mk'" if "j < length ?ps" for j
    using participant_ok_shape [OF step(1)] old(1) i that by (auto simp: nth_list_update)
  moreover have "\<exists>j<length ?ps. j * id_range < unat oid \<and> unat oid < ?n' j" if "oid \<in> dom (book_live (mk_book mk'))" for oid
  proof (cases "oid \<in> dom (book_live (mk_book mk))")
    case True
    then obtain j where "j < length ?ps" "j * id_range < unat oid" "unat oid < ?n j"
      using ok unfolding pool_ok_def by blast
    then show ?thesis
      using grow(1) by (meson less_le_trans)
  next
    case False
    then have "oid = pa_next_order_id (?ps ! i)" "pa_next_order_id p' = pa_next_order_id (?ps ! i) + 1"
      using step(2) that by (auto simp: new_ids_def)
    then show ?thesis
      using i old(2) [OF i] pool_next_id [OF ok k i] by auto
  qed
  moreover have "j * id_range < ?n' j" "?n' j \<le> j * id_range + 1 + Suc k" if "j < length ?ps" for j
    using old(2,3) [OF that] grow [of j] by linarith+
  ultimately show ?thesis
    using ok step(3) by (auto simp: pool_ok_def)
qed

lemma pt_next_ok:
  assumes ok: "pool_ok k pt mk" and k: "k < id_range" and rnd: "sizes_ok rnd" and buf: "43 \<le> n" "n \<le> length buffer"
  obtains msg ts pt' mk' where
    "pt_next exact_math normal rnd buffer n pt mk = Some (msg_WIRE_SIZE msg, wire msg ts @ drop (msg_WIRE_SIZE msg) buffer, pt', mk')"
    "msg_step (mk_book mk) msg (mk_book mk')" "pool_ok (Suc k) pt' mk'"
proof -
  let ?ps = "pt_participants pt"
  have ne: "?ps \<noteq> []"
    using ok by (auto simp: pool_ok_def)
  obtain i g where i: "rnd_index (pr_random rnd) 0 (length ?ps - 1) (pt_rng pt) = (i, g)" by force
  have "i \<le> length ?ps - 1"
    using random_okD(2) [of "pr_random rnd" 0 "length ?ps - 1" "pt_rng pt"] i rnd by (simp add: sizes_ok_def)
  then have lt: "i < length ?ps"
    using ne by (cases ?ps) auto
  have "pa_ready rnd buffer n (?ps ! i) mk"
    using ok rnd buf lt pool_fresh [OF ok k lt] by (simp add: pa_ready_def pool_ok_def)
  from pa_next_ok [OF this, of normal] obtain msg ts p' mk' where nx:
    "pa_next exact_math normal rnd buffer n (?ps ! i) mk =
       Some (msg_WIRE_SIZE msg, wire msg ts @ drop (msg_WIRE_SIZE msg) buffer, p', mk')"
    "msg_step (mk_book mk) msg (mk_book mk')" "same_shape (?ps ! i) mk p' mk'" "new_ids (?ps ! i) mk p' mk'"
    unfolding pa_ok_def by blast
  let ?pt' = "\<lparr>pt_participants = ?ps[i := p'], pt_rng = g\<rparr>"
  have "pool_ok (Suc k) ?pt' mk'"
    using pool_ok_step [OF ok k lt nx(3,4)] nx(2) by (simp add: msg_step_def)
  then show ?thesis
    using that [of msg ts ?pt' mk'] nx i lt ne by (simp add: pt_next_def vector_at_def)
qed

lemma pt_run_ok:
  assumes "pool_ok j pt mk" "j + k \<le> id_range" "sizes_ok rnd" "43 \<le> n" "n \<le> length buffer"
  shows "\<exists>msgs pt' mk'. pt_run k exact_math normal rnd buffer n pt mk = Some (encoded msgs, pt', mk') \<and> length msgs = k
    \<and> feed_chain (- 1) (book_live (mk_book mk)) (map fst msgs)
    \<and> book_live (mk_book mk') = foldl msg_effect (book_live (mk_book mk)) (map fst msgs)"
  using assms
proof (induction k arbitrary: j pt mk buffer)
  case 0
  then show ?case
    by (auto simp: encoded_def intro!: exI [of _ "[]"])
next
  case (Suc k)
  have j: "j < id_range"
    using Suc.prems(2) by simp
  obtain msg ts pt1 mk1 where nx:
    "pt_next exact_math normal rnd buffer n pt mk = Some (msg_WIRE_SIZE msg, wire msg ts @ drop (msg_WIRE_SIZE msg) buffer, pt1, mk1)"
    "msg_step (mk_book mk) msg (mk_book mk1)" "pool_ok (Suc j) pt1 mk1"
    by (rule pt_next_ok [OF Suc.prems(1) j Suc.prems(3-5)])
  have "n \<le> length (wire msg ts @ drop (msg_WIRE_SIZE msg) buffer)"
    using Suc.prems(4,5) wire_size_bounds(2) [of msg] by simp
  from Suc.IH [OF nx(3) _ Suc.prems(3,4) this] Suc.prems(2) obtain msgs pt' mk' where run:
    "pt_run k exact_math normal rnd (wire msg ts @ drop (msg_WIRE_SIZE msg) buffer) n pt1 mk1 = Some (encoded msgs, pt', mk')"
    "length msgs = k" "feed_chain (- 1) (book_live (mk_book mk1)) (map fst msgs)"
    "book_live (mk_book mk') = foldl msg_effect (book_live (mk_book mk1)) (map fst msgs)"
    by auto
  have "book_live (mk_book mk1) = msg_effect (book_live (mk_book mk)) msg" "msg_refers (book_live (mk_book mk)) msg"
    using nx(2) by (simp_all add: msg_step_def)
  then show ?case
    using nx(1) run by (intro exI [of _ "(msg, ts) # msgs"] exI [of _ pt'] exI [of _ mk'])
      (simp add: encoded_def orders_below_def)
qed

definition config_ok :: "'d participant_config \<Rightarrow> bool" where
  "config_ok c \<longleftrightarrow> list_all (\<lambda>p. tp_min_qty p \<noteq> 0 \<and> tp_max_qty p \<noteq> 0)
       [pc_market_maker_profile c, pc_momentum_profile c, pc_random_profile c]
     \<and> (let n = unat (pc_num_market_makers c) + unat (pc_num_momentum_traders c) + unat (pc_num_random_traders c)
        in 0 < n \<and> n \<le> 2 ^ 32)"

text \<open>The ids of the participants start a million apart.\<close>

lemma participants_of_nth:
  assumes "i < length profiles"
  shows "participants_of seeded seed symbols walks profiles ! i =
    participant_new (of_nat i) (profiles ! i) symbols walks (seeded (seed + 1000 + of_nat i))"
  using assms by (simp add: participants_of_def nth_enumerate_eq)

lemma length_participants_of [simp]: "length (participants_of seeded seed symbols walks profiles) = length profiles"
  by (simp add: participants_of_def)

lemma first_order_id:
  assumes "i < 2 ^ 32"
  shows "unat (pa_next_order_id (participant_new (of_nat i) profile symbols walks g)) = i * id_range + 1"
proof -
  have "ucast (of_nat i :: u32) * 1000000 + 1 = (of_nat (i * id_range + 1) :: u64)"
    using assms unat_of_nat_small [of i, where 'a = 32] of_nat_unat [of "of_nat i :: u32", where 'a = "64 word"]
    by (simp add: id_range_def)
  moreover have "unat (of_nat (i * id_range + 1) :: u64) = i * id_range + 1"
    using assms by (intro unat_of_nat_small) (simp add: id_range_def)
  ultimately show ?thesis
    unfolding participant_new_def participant.simps by metis
qed

lemma pool_ok_new:
  assumes "config_ok config" "symbols \<noteq> []" "length walks = length symbols"
  shows "pool_ok 0 (participant_model_new seeded seed symbols walks config) \<lparr>mk_price_walks = walks, mk_book = sim_book_new\<rparr>"
proof -
  define ps where "ps = replicate (unat (pc_num_market_makers config)) (pc_market_maker_profile config)
         @ replicate (unat (pc_num_momentum_traders config)) (pc_momentum_profile config)
         @ replicate (unat (pc_num_random_traders config)) (pc_random_profile config)"
  have len: "0 < length ps" "length ps \<le> 2 ^ 32"
    using assms(1) by (auto simp: ps_def config_ok_def Let_def)
  have "tp_min_qty p \<noteq> 0 \<and> tp_max_qty p \<noteq> 0" if "p \<in> set ps" for p
    using that assms(1) by (auto simp: ps_def config_ok_def)
  then have "participant_ok (participants_of seeded seed symbols walks ps ! i) \<lparr>mk_price_walks = walks, mk_book = sim_book_new\<rparr>"
    if "i < length ps" for i
    using that assms(2,3) by (simp add: participants_of_nth participant_ok_def participant_new_def)
  then show ?thesis
    using len by (simp add: pool_ok_def participant_model_new_def ps_def [symmetric] book_ok_new participants_of_nth first_order_id)
qed

text \<open>
  The traders produce a consistent feed for a million messages. Whatever the draws (sizes are drawn below \<open>2 ^ 32\<close>),
  a pool whose profiles allow no empty orders writes, in each of up to a million calls, one message that refers to the
  orders that are live at that point, every order added has an id that no live order has, and the shared book holds
  exactly the orders the messages describe.
\<close>

theorem traders_feed_consistent:
  fixes config :: "real participant_config" and walks :: "(real, 'r) price_walk list" and rnd :: "(real, 'g) participant_random"
  assumes "sizes_ok rnd" and "config_ok config" and "symbols \<noteq> []" "length walks = length symbols"
    and "43 \<le> n" "n \<le> length buffer" and "k \<le> 1000000"
  shows "\<exists>msgs pt' mk'. pt_run k exact_math normal rnd buffer n (participant_model_new seeded seed symbols walks config)
      \<lparr>mk_price_walks = walks, mk_book = sim_book_new\<rparr> = Some (encoded msgs, pt', mk')
    \<and> length msgs = k \<and> feed_chain (- 1) Map.empty (map fst msgs)
    \<and> book_live (mk_book mk') = foldl msg_effect Map.empty (map fst msgs)"
  using pt_run_ok [OF pool_ok_new [OF assms(2-4), of seeded seed] _ assms(1,5,6), of k normal] assms(7)
  by (simp add: id_range_def book_ok_new)

definition least_draws :: "nat \<Rightarrow> (real, unit) participant_random" where
  "least_draws kind = \<lparr>pr_random = \<lparr>rnd_type = Pair kind, rnd_index = (\<lambda>lo hi g. (lo, g)), rnd_quantity = (\<lambda>lo hi g. (lo, g)),
       rnd_clock = Pair 7, rnd_arrange = (\<lambda>_ es. es)\<rparr>,
     pr_type = (\<lambda>_. Pair kind), pr_size = (\<lambda>m s. Pair 0), pr_uniform = Pair 0\<rparr>"

lemma least_draws_ok: "sizes_ok (least_draws kind)"
  by (simp add: sizes_ok_def random_ok_def least_draws_def)

theorem traders_feed_consistent_witness:
  "\<exists>msgs pt' mk'. pt_run 3 exact_math (Pair 0) (least_draws 2) (replicate 64 0) 64
      (participant_model_new (\<lambda>_. ()) 42 [symbol_of_cstr [65]] [price_walk_new exact_fp 100 1 (1 / 100) ()]
        (default_participant_config exact_fp))
      \<lparr>mk_price_walks = [price_walk_new exact_fp 100 1 (1 / 100) ()], mk_book = sim_book_new\<rparr> = Some (encoded msgs, pt', mk')
    \<and> length msgs = 3 \<and> feed_chain (- 1) Map.empty (map fst msgs)
    \<and> book_live (mk_book mk') = foldl msg_effect Map.empty (map fst msgs)"
proof -
  have "config_ok (default_participant_config exact_fp)"
    by (simp add: config_ok_def default_participant_config_def default_market_maker_profile_def default_momentum_profile_def
        default_random_profile_def Let_def)
  then show ?thesis
    by (intro traders_feed_consistent least_draws_ok) simp_all
qed

text \<open>
  The ranges meet: after a million additions the next id of a participant is the first of the one that was created
  after it.
\<close>

lemma id_ranges_meet:
  assumes "Suc i < length (pt_participants (participant_model_new seeded seed symbols walks config))"
  shows "pa_next_order_id (pt_participants (participant_model_new seeded seed symbols walks config) ! i) + 1000000
    = pa_next_order_id (pt_participants (participant_model_new seeded seed symbols walks config) ! Suc i) \<or> 2 ^ 32 \<le> Suc i"
proof (cases "Suc i < 2 ^ 32")
  case True
  then have "unat (of_nat (Suc i) :: u32) = Suc i" "unat (of_nat i :: u32) = i"
    using unat_of_nat_small [of "Suc i", where 'a = 32] unat_of_nat_small [of i, where 'a = 32] by simp_all
  then have "(ucast (of_nat (Suc i) :: u32) :: u64) = of_nat (Suc i)" "(ucast (of_nat i :: u32) :: u64) = of_nat i"
    using of_nat_unat [of "of_nat (Suc i) :: u32", where 'a = "64 word"] of_nat_unat [of "of_nat i :: u32", where 'a = "64 word"]
    by simp_all
  then show ?thesis
    using assms by (simp add: participant_model_new_def participants_of_nth participant_new_def distrib_right del: of_nat_Suc)
      (simp add: algebra_simps)
qed simp

end
