(* ===== verification/Multi_Asset.thy ===== *)
theory Multi_Asset
  imports Price_Walk Window
begin

text \<open>
  Correlated price moves (\<open>simulator/multi_asset_sim.{hpp,cpp}\<close>): independent normal draws are multiplied with the Cholesky
  factor of the correlation matrix and move the price walks. The factorisation fills a matrix of zeros in place, cell after
  cell; the three exceptions of the constructor are the errors of the model.
\<close>

section \<open>The factorisation\<close>

datatype multi_asset_error = Size_Mismatch | Not_Square | Not_Positive_Semi_Definite

type_synonym 'd matrix = "'d list list"

definition mat_at :: "'d matrix \<Rightarrow> nat \<Rightarrow> nat \<Rightarrow> 'd" where
  "mat_at m i j = m ! i ! j"

definition mat_set :: "nat \<Rightarrow> nat \<Rightarrow> 'd \<Rightarrow> 'd matrix \<Rightarrow> 'd matrix" where
  "mat_set i j x m = m[i := (m ! i)[j := x]]"

definition row_product :: "'d fp \<Rightarrow> 'd matrix \<Rightarrow> nat \<Rightarrow> nat \<Rightarrow> nat \<Rightarrow> 'd" where
  "row_product fp l i j n = foldl (\<lambda>acc k. fp_add fp acc (fp_mul fp (mat_at l i k) (mat_at l j k))) (fp_zero fp) [0..<n]"

definition cholesky_cell :: "'d sim_math \<Rightarrow> 'd matrix \<Rightarrow> 'd matrix \<Rightarrow> nat \<times> nat \<Rightarrow> 'd option" where
  "cholesky_cell mt matrix l = (\<lambda>(i, j).
     let fp = sm_fp mt in
     if j = i
     then let val = fp_sub fp (mat_at matrix j j) (row_product fp l j j j)
          in if fp_less fp val (fp_zero fp) then None else Some (sm_sqrt mt val)
     else let sum = row_product fp l i j j
          in if fp_eq fp (mat_at l j j) (fp_zero fp) then Some (fp_zero fp)
             else Some (fp_div fp (fp_sub fp (mat_at matrix i j) sum) (mat_at l j j)))"

fun cholesky_cells :: "'d sim_math \<Rightarrow> 'd matrix \<Rightarrow> (nat \<times> nat) list \<Rightarrow> 'd matrix \<Rightarrow> 'd matrix option" where
  "cholesky_cells mt matrix [] l = Some l"
| "cholesky_cells mt matrix (c # cs) l =
     (case cholesky_cell mt matrix l c of
        None \<Rightarrow> None
      | Some x \<Rightarrow> cholesky_cells mt matrix cs (mat_set (fst c) (snd c) x l))"

definition lower_cells :: "nat \<Rightarrow> (nat \<times> nat) list" where
  "lower_cells n = concat (map (\<lambda>i. map (Pair i) [0..<Suc i]) [0..<n])"

definition cholesky_decompose :: "'d sim_math \<Rightarrow> 'd matrix \<Rightarrow> multi_asset_error + 'd matrix" where
  "cholesky_decompose mt matrix =
     (let n = length matrix
      in case cholesky_cells mt matrix (lower_cells n) (replicate n (replicate n (fp_zero (sm_fp mt)))) of
           None \<Rightarrow> Inl Not_Positive_Semi_Definite
         | Some l \<Rightarrow> Inr l)"

definition identity_matrix :: "'d fp \<Rightarrow> nat \<Rightarrow> 'd matrix" where
  "identity_matrix fp n =
     foldl (\<lambda>m i. mat_set i i (fp_of_nat fp 1) m) (replicate n (replicate n (fp_zero fp))) [0..<n]"

section \<open>The simulation\<close>

record ('d, 'g) multi_asset_sim =
  ma_cholesky :: "'d matrix"
  ma_rng :: 'g

definition multi_asset_sim_new ::
  "'d sim_math \<Rightarrow> ('d, 'r) price_walk list \<Rightarrow> 'g \<Rightarrow> 'd matrix \<Rightarrow> multi_asset_error + ('d, 'g) multi_asset_sim" where
  "multi_asset_sim_new mt walks rng correlation_matrix =
     (let n = length walks in
      if n = 0 then Inr \<lparr>ma_cholesky = [], ma_rng = rng\<rparr>
      else if correlation_matrix = [] then Inr \<lparr>ma_cholesky = identity_matrix (sm_fp mt) n, ma_rng = rng\<rparr>
      else if length correlation_matrix \<noteq> n then Inl Size_Mismatch
      else if \<not> list_all (\<lambda>row. length row = n) correlation_matrix then Inl Not_Square
      else (case cholesky_decompose mt correlation_matrix of
              Inl e \<Rightarrow> Inl e
            | Inr l \<Rightarrow> Inr \<lparr>ma_cholesky = l, ma_rng = rng\<rparr>))"

fun draw_n :: "('g \<Rightarrow> 'd \<times> 'g) \<Rightarrow> nat \<Rightarrow> 'g \<Rightarrow> 'd list \<times> 'g" where
  "draw_n normal 0 g = ([], g)"
| "draw_n normal (Suc n) g = (let (z, g) = normal g; (zs, g) = draw_n normal n g in (z # zs, g))"

definition correlated_draw :: "'d fp \<Rightarrow> 'd matrix \<Rightarrow> 'd list \<Rightarrow> nat \<Rightarrow> 'd" where
  "correlated_draw fp l zs i = foldl (\<lambda>acc j. fp_add fp acc (fp_mul fp (mat_at l i j) (zs ! j))) (fp_zero fp) [0..<Suc i]"

definition multi_asset_step ::
  "'d sim_math \<Rightarrow> ('g \<Rightarrow> 'd \<times> 'g) \<Rightarrow> ('d, 'r) price_walk list \<Rightarrow> ('d, 'g) multi_asset_sim
     \<Rightarrow> ('d, 'r) price_walk list \<times> ('d, 'g) multi_asset_sim" where
  "multi_asset_step mt normal walks s =
     (let n = length walks in
      if n = 0 then (walks, s)
      else let (zs, g) = draw_n normal n (ma_rng s);
               correlated = map (correlated_draw (sm_fp mt) (ma_cholesky s) zs) [0..<n]
           in (map2 (\<lambda>c w. snd (pw_next_noise mt c w)) correlated walks, s\<lparr>ma_rng := g\<rparr>))"

section \<open>The order of the cells\<close>

definition square :: "nat \<Rightarrow> 'd matrix \<Rightarrow> bool" where
  "square n m \<longleftrightarrow> length m = n \<and> list_all (\<lambda>row. length row = n) m"

lemma square_nth: "square n m \<Longrightarrow> i < n \<Longrightarrow> length (m ! i) = n"
  by (auto simp: square_def list_all_length)

lemma square_set: "square n m \<Longrightarrow> square n (mat_set i j x m)"
  by (cases "i < length m") (auto simp: square_def mat_set_def list_all_length nth_list_update)

lemma square_zeros: "square n (replicate n (replicate n z))"
  by (simp add: square_def list_all_iff)

lemma mat_at_set:
  "square n m \<Longrightarrow> i < n \<Longrightarrow> j < n \<Longrightarrow> mat_at (mat_set i j x m) a b = (if a = i \<and> b = j then x else mat_at m a b)"
  by (cases "a = i"; cases "b = j") (auto simp: mat_at_def mat_set_def square_def list_all_length)

lemma square_eqI:
  assumes "square n l" "square n m" "\<And>i j. i < n \<Longrightarrow> j < n \<Longrightarrow> mat_at l i j = mat_at m i j"
  shows "l = m"
proof (rule nth_equalityI)
  show "length l = length m"
    using assms by (simp add: square_def)
  fix i assume "i < length l"
  then show "l ! i = m ! i"
    using assms square_nth [OF assms(1), of i] square_nth [OF assms(2), of i]
    by (intro nth_equalityI) (auto simp: square_def mat_at_def)
qed

definition before :: "nat \<times> nat \<Rightarrow> nat \<times> nat \<Rightarrow> bool" where
  "before c d \<longleftrightarrow> fst c < fst d \<or> fst c = fst d \<and> snd c < snd d"

lemma set_lower_cells: "set (lower_cells n) = {(i, j). i < n \<and> j \<le> i}"
  by (auto simp: lower_cells_def simp del: upt_Suc)

lemma lower_cells_Suc: "lower_cells (Suc n) = lower_cells n @ map (Pair n) [0..<Suc n]"
  by (simp add: lower_cells_def)

lemma lower_cells_sorted: "sorted_wrt before (lower_cells n)"
proof (induction n)
  case (Suc n)
  have "sorted_wrt before (map (Pair n) [0..<Suc n])"
    unfolding sorted_wrt_map by (rule sorted_wrt_mono_rel [OF _ sorted_wrt_upt]) (simp add: before_def)
  moreover have "before c d" if "c \<in> set (lower_cells n)" "d \<in> set (map (Pair n) [0..<Suc n])" for c d
    using that by (auto simp: set_lower_cells before_def simp del: upt_Suc)
  ultimately show ?case
    using Suc by (simp add: lower_cells_Suc sorted_wrt_append del: upt_Suc)
qed (simp add: lower_cells_def)

text \<open>The cells a cell is computed from have been computed before it.\<close>

definition cell_reads :: "nat \<times> nat \<Rightarrow> (nat \<times> nat) set" where
  "cell_reads c = {(a, k). (a = fst c \<or> a = snd c) \<and> k < snd c} \<union> (if fst c = snd c then {} else {(snd c, snd c)})"

lemma reads_before:
  assumes "lower_cells n = ds @ c # cs"
  shows "cell_reads c \<subseteq> set ds" "c \<notin> set ds" "c \<notin> set cs" "set ds \<inter> set cs = {}" "fst c < n" "snd c \<le> fst c"
proof -
  have sorted: "sorted_wrt before (ds @ c # cs)"
    using lower_cells_sorted [of n] assms by simp
  have c: "c \<in> set (lower_cells n)"
    using assms by simp
  then show "fst c < n" "snd c \<le> fst c"
    by (auto simp: set_lower_cells)
  show "c \<notin> set ds" "c \<notin> set cs" "set ds \<inter> set cs = {}"
    using sorted by (auto simp: sorted_wrt_append before_def)
  show "cell_reads c \<subseteq> set ds"
  proof
    fix d assume d: "d \<in> cell_reads c"
    then have "d \<in> set (lower_cells n)" "before d c"
      using c by (auto simp: cell_reads_def set_lower_cells before_def split: if_splits)
    moreover from this(2) have "d \<noteq> c" "\<not> before c d"
      by (auto simp: before_def)
    moreover have "\<forall>e\<in>set cs. before c e"
      using sorted by (simp add: sorted_wrt_append)
    ultimately show "d \<in> set ds"
      unfolding assms by (metis Un_iff set_ConsD set_append)
  qed
qed

section \<open>The factor as a solution\<close>

definition cell_at :: "'d matrix \<Rightarrow> nat \<times> nat \<Rightarrow> 'd" where
  "cell_at m c = mat_at m (fst c) (snd c)"

lemma cell_at_set:
  "square n m \<Longrightarrow> fst c < n \<Longrightarrow> snd c < n \<Longrightarrow> cell_at (mat_set (fst c) (snd c) x m) d = (if d = c then x else cell_at m d)"
  by (cases c; cases d) (simp add: cell_at_def mat_at_set)

lemma cholesky_cell_cong:
  assumes "\<forall>d\<in>cell_reads c. cell_at l d = cell_at m d"
  shows "cholesky_cell mt matrix l c = cholesky_cell mt matrix m c"
proof -
  obtain i j where c: "c = (i, j)"
    by fastforce
  have at: "mat_at l a k = mat_at m a k" if "(a, k) \<in> cell_reads c" for a k
    using assms that by (force simp: cell_at_def)
  have "row_product fp l a b j = row_product fp m a b j" if "a \<in> {i, j}" "b \<in> {i, j}" for fp :: "'a fp" and a b
    unfolding row_product_def using that by (intro foldl_cong) (auto intro!: at arg_cong2 [where f = "fp_mul fp"] arg_cong2 [where f = "fp_add fp"] simp: c cell_reads_def)
  moreover have "mat_at l j j = mat_at m j j" if "j \<noteq> i"
    using that by (intro at) (simp add: c cell_reads_def)
  ultimately show ?thesis
    by (cases "j = i") (simp_all add: c cholesky_cell_def Let_def)
qed

text \<open>Every cell of the result satisfies its equation in the result itself.\<close>

lemma cholesky_cells_fix:
  assumes "cholesky_cells mt matrix cs l = Some l'" "lower_cells n = ds @ cs" "square n l"
  shows "square n l' \<and> (\<forall>c\<in>set cs. cholesky_cell mt matrix l' c = Some (cell_at l' c)) \<and> (\<forall>c. c \<notin> set cs \<longrightarrow> cell_at l' c = cell_at l c)"
  using assms
proof (induction cs arbitrary: ds l)
  case (Cons c cs)
  obtain x where x: "cholesky_cell mt matrix l c = Some x" "cholesky_cells mt matrix cs (mat_set (fst c) (snd c) x l) = Some l'"
    using Cons.prems(1) by (auto split: option.splits)
  note R = reads_before [OF Cons.prems(2)]
  have set: "cell_at (mat_set (fst c) (snd c) x l) d = (if d = c then x else cell_at l d)" for d
    using cell_at_set [OF Cons.prems(3)] R(5,6) by auto
  have ds: "lower_cells n = (ds @ [c]) @ cs"
    using Cons.prems(2) by simp
  have IH: "square n l'" "\<forall>d\<in>set cs. cholesky_cell mt matrix l' d = Some (cell_at l' d)"
    and keep: "\<And>d. d \<notin> set cs \<Longrightarrow> cell_at l' d = (if d = c then x else cell_at l d)"
    using Cons.IH [OF x(2) ds square_set [OF Cons.prems(3)]] unfolding set by blast+
  have "cholesky_cell mt matrix l' c = cholesky_cell mt matrix l c"
  proof (intro cholesky_cell_cong ballI)
    fix d assume "d \<in> cell_reads c"
    then have "d \<in> set ds"
      using R(1) by auto
    then have "d \<notin> set cs" "d \<noteq> c"
      using R(2,4) by auto
    then show "cell_at l' d = cell_at l d"
      using keep by simp
  qed
  then show ?case
    using x(1) R(3) IH keep by auto
qed simp

text \<open>A matrix that satisfies the equations is what the loop computes.\<close>

lemma cholesky_cells_unique:
  assumes "\<forall>c\<in>set cs. cholesky_cell mt matrix m c = Some (cell_at m c)" "lower_cells n = ds @ cs" "square n l"
    and "\<forall>c\<in>set ds. cell_at l c = cell_at m c"
  shows "\<exists>l'. cholesky_cells mt matrix cs l = Some l' \<and> (\<forall>c\<in>set (ds @ cs). cell_at l' c = cell_at m c)"
  using assms
proof (induction cs arbitrary: ds l)
  case (Cons c cs)
  note R = reads_before [OF Cons.prems(2)]
  have "cholesky_cell mt matrix l c = cholesky_cell mt matrix m c"
    using R(1) Cons.prems(4) by (intro cholesky_cell_cong) auto
  then have x: "cholesky_cell mt matrix l c = Some (cell_at m c)"
    using Cons.prems(1) by simp
  let ?l = "mat_set (fst c) (snd c) (cell_at m c) l"
  have "cell_at ?l d = (if d = c then cell_at m c else cell_at l d)" for d
    using cell_at_set [OF Cons.prems(3)] R(5,6) by auto
  then have "\<forall>d\<in>set (ds @ [c]). cell_at ?l d = cell_at m d"
    using Cons.prems(4) by simp
  from Cons.IH [OF _ _ square_set [OF Cons.prems(3)] this] show ?case
    using Cons.prems(1,2) x by auto
qed simp

lemma cell_at_zeros: "fst c < n \<Longrightarrow> snd c < n \<Longrightarrow> cell_at (replicate n (replicate n z)) c = z"
  by (simp add: cell_at_def mat_at_def)

definition lower_triangular :: "real matrix \<Rightarrow> bool" where
  "lower_triangular m \<longleftrightarrow> (\<forall>i<length m. \<forall>j<length m. i < j \<longrightarrow> mat_at m i j = 0)"

lemma cholesky_decompose_iff:
  fixes matrix l :: "real matrix"
  defines "n \<equiv> length matrix"
  shows "cholesky_decompose exact_math matrix = Inr l \<longleftrightarrow> square n l \<and> lower_triangular l
    \<and> (\<forall>i<n. \<forall>j\<le>i. cholesky_cell exact_math matrix l (i, j) = Some (mat_at l i j))"
proof
  let ?z = "replicate n (replicate n (0 :: real))"
  assume "cholesky_decompose exact_math matrix = Inr l"
  then have "cholesky_cells exact_math matrix (lower_cells n) ?z = Some l"
    by (simp add: cholesky_decompose_def n_def Let_def split: option.splits)
  from cholesky_cells_fix [OF this append_Nil [symmetric] square_zeros]
  have fixed: "square n l" "\<forall>c\<in>set (lower_cells n). cholesky_cell exact_math matrix l c = Some (cell_at l c)"
    "\<forall>c. c \<notin> set (lower_cells n) \<longrightarrow> cell_at l c = cell_at ?z c"
    by auto
  have "mat_at l i j = 0" if "i < n" "j < n" "i < j" for i j
    using fixed(3) [rule_format, of "(i, j)"] that cell_at_zeros [of "(i, j)" n 0] by (simp add: set_lower_cells cell_at_def)
  then show "square n l \<and> lower_triangular l \<and> (\<forall>i<n. \<forall>j\<le>i. cholesky_cell exact_math matrix l (i, j) = Some (mat_at l i j))"
    using fixed(1,2) by (auto simp: set_lower_cells cell_at_def lower_triangular_def square_def)
next
  let ?z = "replicate n (replicate n (0 :: real))"
  assume r: "square n l \<and> lower_triangular l \<and> (\<forall>i<n. \<forall>j\<le>i. cholesky_cell exact_math matrix l (i, j) = Some (mat_at l i j))"
  then have "\<forall>c\<in>set (lower_cells n). cholesky_cell exact_math matrix l c = Some (cell_at l c)"
    by (auto simp: set_lower_cells cell_at_def)
  from cholesky_cells_unique [OF this append_Nil [symmetric] square_zeros, of 0] obtain l' where l':
    "cholesky_cells exact_math matrix (lower_cells n) ?z = Some l'" "\<forall>c\<in>set (lower_cells n). cell_at l' c = cell_at l c"
    by auto
  from cholesky_cells_fix [OF l'(1) append_Nil [symmetric] square_zeros]
  have keep: "square n l'" "\<forall>c. c \<notin> set (lower_cells n) \<longrightarrow> cell_at l' c = cell_at ?z c"
    by auto
  have "mat_at l' i j = mat_at l i j" if "i < n" "j < n" for i j
  proof (cases "j \<le> i")
    case True
    then show ?thesis
      using l'(2) that by (force simp: set_lower_cells cell_at_def)
  next
    case False
    then have "mat_at l' i j = 0"
      using keep(2) [rule_format, of "(i, j)"] that cell_at_zeros [of "(i, j)" n 0] by (simp add: set_lower_cells cell_at_def)
    then show ?thesis
      using r False that by (simp add: lower_triangular_def square_def)
  qed
  then have "l' = l"
    using r keep(1) by (intro square_eqI [of n]) simp_all
  then show "cholesky_decompose exact_math matrix = Inr l"
    using l'(1) by (simp add: cholesky_decompose_def n_def Let_def)
qed

section \<open>The factor of a correlation matrix\<close>

lemma row_product_exact: "row_product exact_fp l i j n = (\<Sum>k<n. mat_at l i k * mat_at l j k)"
  by (simp add: row_product_def foldl_plus_map interv_sum_list_conv_sum_set_nat lessThan_atLeast0)

definition times_transpose :: "real matrix \<Rightarrow> nat \<Rightarrow> nat \<Rightarrow> real" where
  "times_transpose l i j = (\<Sum>k<length l. mat_at l i k * mat_at l j k)"

lemma times_transpose_commute: "times_transpose l i j = times_transpose l j i"
  by (simp add: times_transpose_def mult.commute)

lemma times_transpose_lower:
  assumes "lower_triangular l" "i < length l" "j \<le> i"
  shows "times_transpose l i j = row_product exact_fp l i j j + mat_at l i j * mat_at l j j"
proof -
  have "times_transpose l i j = (\<Sum>k<Suc j. mat_at l i k * mat_at l j k)"
    unfolding times_transpose_def using assms by (intro sum.mono_neutral_right) (auto simp: lower_triangular_def)
  then show ?thesis
    by (simp add: row_product_exact)
qed

lemma cholesky_cell_exact:
  assumes "j \<le> i"
  shows "cholesky_cell exact_math matrix l (i, j) = Some (mat_at l i j) \<and> mat_at l j j \<noteq> 0 \<longleftrightarrow>
    mat_at matrix i j = row_product exact_fp l i j j + mat_at l i j * mat_at l j j \<and> mat_at l j j \<noteq> 0
      \<and> (i = j \<longrightarrow> 0 < mat_at l j j)"
proof (cases "i = j")
  case True
  have "sqrt v = x \<and> \<not> v < 0 \<and> x \<noteq> 0 \<longleftrightarrow> v = x * x \<and> 0 < x" for v x :: real
    by (auto simp: not_less less_le mult_le_0_iff)
  from this [of "mat_at matrix j j - row_product exact_fp l j j j" "mat_at l j j"] True show ?thesis
    by (auto simp: cholesky_cell_def Let_def algebra_simps)
next
  case False
  then show ?thesis
    by (auto simp: cholesky_cell_def Let_def field_simps)
qed

text \<open>
  C33. The factor of the correlation matrix is the Cholesky factor. For a symmetric matrix the factorisation succeeds
  without a zero on the diagonal exactly with the lower triangular matrix with positive diagonal whose product with its
  transpose is the matrix (without rounding): so it finds the factor whenever there is one, and it is the only one.
\<close>

theorem cholesky_exact:
  fixes matrix l :: "real matrix"
  assumes "square n matrix" and "\<And>i j. i < n \<Longrightarrow> j < n \<Longrightarrow> mat_at matrix i j = mat_at matrix j i"
  shows "cholesky_decompose exact_math matrix = Inr l \<and> (\<forall>j<n. mat_at l j j \<noteq> 0) \<longleftrightarrow>
    square n l \<and> lower_triangular l \<and> (\<forall>j<n. 0 < mat_at l j j)
    \<and> (\<forall>i<n. \<forall>j<n. times_transpose l i j = mat_at matrix i j)"
proof -
  have n: "length matrix = n"
    using assms(1) by (simp add: square_def)
  let ?cells = "\<forall>i<n. \<forall>j\<le>i. cholesky_cell exact_math matrix l (i, j) = Some (mat_at l i j)"
  let ?lower = "\<forall>i<n. \<forall>j\<le>i. times_transpose l i j = mat_at matrix i j"
  have cells: "?cells \<and> (\<forall>j<n. mat_at l j j \<noteq> 0) \<longleftrightarrow> (\<forall>j<n. 0 < mat_at l j j) \<and> ?lower"
    if l: "square n l" "lower_triangular l"
  proof -
    have cell: "cholesky_cell exact_math matrix l (i, j) = Some (mat_at l i j) \<and> mat_at l j j \<noteq> 0 \<longleftrightarrow>
        times_transpose l i j = mat_at matrix i j \<and> mat_at l j j \<noteq> 0 \<and> (i = j \<longrightarrow> 0 < mat_at l j j)" if "i < n" "j \<le> i" for i j
      using cholesky_cell_exact [OF that(2)] times_transpose_lower [OF l(2) _ that(2)] l(1) that(1) by (auto simp: square_def)
    show ?thesis
    proof (intro iffI conjI allI impI; elim conjE)
      fix i j assume "?cells" "\<forall>j<n. mat_at l j j \<noteq> 0" "i < n" "j \<le> i"
      then show "times_transpose l i j = mat_at matrix i j"
        using cell [of i j] by simp
    next
      fix j assume "?cells" "\<forall>j<n. mat_at l j j \<noteq> 0" "j < n"
      then show "0 < mat_at l j j"
        using cell [of j j] by simp
    next
      fix i j assume pos: "\<forall>j<n. 0 < mat_at l j j" and "?lower" and ij: "i < n" "j \<le> i"
      then have "times_transpose l i j = mat_at matrix i j" "0 < mat_at l j j"
        by simp_all
      then show "cholesky_cell exact_math matrix l (i, j) = Some (mat_at l i j)"
        using cell [OF ij] by (metis less_irrefl)
    qed auto
  qed
  have "times_transpose l i j = mat_at matrix i j" if ?lower "i < n" "j < n" for i j
    using that assms(2) [of i j] times_transpose_commute [of l i j] by (cases "j \<le> i") auto
  then have all: "?lower \<longleftrightarrow> (\<forall>i<n. \<forall>j<n. times_transpose l i j = mat_at matrix i j)"
    using le_less_trans by blast
  show ?thesis
  proof (cases "square n l \<and> lower_triangular l")
    case True
    then show ?thesis
      unfolding cholesky_decompose_iff n all [symmetric] using cells by (simp only: simp_thms)
  qed (auto simp: cholesky_decompose_iff n)
qed

theorem cholesky_exact_witness:
  "cholesky_decompose exact_math [[4, 2], [2, 10]] = Inr [[2, 0], [1, 3]]"
proof -
  have "mat_at [[4, 2], [2, 10]] i j = (mat_at [[4, 2], [2, 10 :: real]] j i)" if "i < 2" "j < 2" for i j :: nat
    using that by (auto simp: mat_at_def less_2_cases_iff)
  moreover have "square 2 [[4, 2], [2, 10 :: real]]" "square 2 [[2, 0], [1, 3 :: real]]" "lower_triangular [[2, 0], [1, 3]]"
    "\<forall>j<2. 0 < mat_at [[2, 0], [1, 3 :: real]] j j"
    "\<forall>i<2. \<forall>j<2. times_transpose [[2, 0], [1, 3]] i j = mat_at [[4, 2], [2, 10]] i j"
    by (auto simp: square_def lower_triangular_def mat_at_def times_transpose_def less_Suc_eq numeral_2_eq_2)
  ultimately show ?thesis
    using cholesky_exact [of 2 "[[4, 2], [2, 10]]" "[[2, 0], [1, 3]]"] by blast
qed

text \<open>
  After a zero on the diagonal the cells below it are not checked: a matrix that is not positive semi-definite is then
  accepted, with a factor that does not belong to it.
\<close>

lemma indefinite_matrix_accepted:
  "cholesky_decompose exact_math [[1, 1, 0], [1, 1, 1], [0, 1, 1]] = Inr [[1, 0, 0], [1, 0, 0], [0, 0, 1]]
   \<and> times_transpose [[1, 0, 0], [1, 0, 0], [0, 0, 1]] 2 1 \<noteq> mat_at [[1, 1, 0], [1, 1, 1], [0, 1, 1]] 2 1"
  by (simp add: cholesky_decompose_def lower_cells_def cholesky_cell_def row_product_def mat_at_def mat_set_def Let_def
      times_transpose_def upt_rec numeral_2_eq_2 numeral_3_eq_3)

text \<open>With the default matrix the walks move on the independent draws.\<close>

lemma identity_matrix_at:
  assumes "i < n" "j < n"
  shows "mat_at (identity_matrix exact_fp n) i j = (if i = j then 1 else 0)"
proof -
  have "square n (foldl (\<lambda>m i. mat_set i i (1 :: real) m) (replicate n (replicate n 0)) [0..<k])
      \<and> (\<forall>i<n. \<forall>j<n. mat_at (foldl (\<lambda>m i. mat_set i i (1 :: real) m) (replicate n (replicate n 0)) [0..<k]) i j
          = (if i = j \<and> i < k then 1 else 0))" if "k \<le> n" for k
    using that
  proof (induction k)
    case 0
    then show ?case
      using square_zeros by (simp add: mat_at_def)
  next
    case (Suc k)
    let ?m = "foldl (\<lambda>m i. mat_set i i (1 :: real) m) (replicate n (replicate n 0)) [0..<k]"
    have "square n ?m" "k < n"
      using Suc by simp_all
    then show ?case
      using Suc square_set [of n ?m k k 1] mat_at_set [of n ?m k k 1] by auto
  qed
  from this [of n] show ?thesis
    using assms by (simp add: identity_matrix_def)
qed

lemma independent_draws:
  assumes "i < n" "length zs = n"
  shows "correlated_draw exact_fp (identity_matrix exact_fp n) zs i = zs ! i"
proof -
  have "correlated_draw exact_fp (identity_matrix exact_fp n) zs i = (\<Sum>j<Suc i. (if i = j then 1 else 0) * zs ! j)"
    using assms
    by (simp add: correlated_draw_def foldl_plus_map interv_sum_list_conv_sum_set_nat identity_matrix_at lessThan_atLeast0 del: upt_Suc)
  also have "\<dots> = (\<Sum>j<Suc i. if i = j then zs ! j else 0)"
    by (rule sum.cong) simp_all
  finally show ?thesis
    by simp
qed

end
