(* ===== verification/Tcp.thy ===== *)
theory Tcp
  imports Common_Types
begin

text \<open>
  The TCP server of the network layer (\<open>network/tcp_server\<close>): its sessions, its map of them and the mutex that guards it.

  The socket library is not part of the sources. What the code relies on is its calling convention: an asynchronous
  operation is started, and later its handler is called once with a result. So a state says which operations are
  pending, and the completion of one, with any result, is a step; the handlers are the functions of this theory. Calls
  of the registered callbacks are recorded in the order they are made. \<open>None\<close> is a call that does not return: it waits for
  a mutex that its own thread holds.
\<close>

section \<open>The server\<close>

type_synonym session_id = u64

datatype tcp_call = On_Connect session_id | On_Data session_id bytes | On_Disconnect session_id

record tcp_session =
  se_open :: bool
  se_running :: bool
  se_reading :: bool
  se_writing :: nat
  se_bytes_received :: u64
  se_bytes_sent :: u64

text \<open>
  \<open>sv_objects\<close> are the session objects by their id, which live as long as a handler refers to them; \<open>sv_sessions\<close> are the
  keys of the map \<open>sessions_\<close>, whose entries are the objects of the same id, in the order of iteration.
\<close>

record tcp_server =
  sv_running :: bool
  sv_acceptor_open :: bool
  sv_accepting :: bool
  sv_next_id :: session_id
  sv_locked :: bool
  sv_sessions :: "session_id list"
  sv_objects :: "session_id \<rightharpoonup> tcp_session"
  sv_calls :: "tcp_call list"

definition tcp_server_new :: tcp_server where
  "tcp_server_new = \<lparr>sv_running = False, sv_acceptor_open = False, sv_accepting = False, sv_next_id = 1, sv_locked = False,
     sv_sessions = [], sv_objects = Map.empty, sv_calls = []\<rparr>"

text \<open>\<open>std::lock_guard\<close>: the mutex is not recursive.\<close>

definition with_lock :: "(tcp_server \<Rightarrow> tcp_server option) \<Rightarrow> tcp_server \<Rightarrow> tcp_server option" where
  "with_lock body s =
     (if sv_locked s then None
      else map_option (\<lambda>s. s\<lparr>sv_locked := False\<rparr>) (body (s\<lparr>sv_locked := True\<rparr>)))"

definition upd_session :: "session_id \<Rightarrow> (tcp_session \<Rightarrow> tcp_session) \<Rightarrow> tcp_server \<Rightarrow> tcp_server" where
  "upd_session i f s = s\<lparr>sv_objects := (sv_objects s)(i := map_option f (sv_objects s i))\<rparr>"

definition log_call :: "tcp_call \<Rightarrow> tcp_server \<Rightarrow> tcp_server" where
  "log_call c s = s\<lparr>sv_calls := sv_calls s @ [c]\<rparr>"

definition remove_session :: "session_id \<Rightarrow> tcp_server \<Rightarrow> tcp_server option" where
  "remove_session i = with_lock (\<lambda>s. Some (s\<lparr>sv_sessions := removeAll i (sv_sessions s)\<rparr>))"

text \<open>The handler that \<open>do_accept\<close> gives to a session: remove it from the map, then tell the user.\<close>

definition session_gone :: "session_id \<Rightarrow> tcp_server \<Rightarrow> tcp_server option" where
  "session_gone i s = map_option (log_call (On_Disconnect i)) (remove_session i s)"

definition session_close :: "session_id \<Rightarrow> tcp_server \<Rightarrow> tcp_server option" where
  "session_close i s =
     (case sv_objects s i of
        Some se \<Rightarrow>
          if \<not> se_open se then Some s
          else session_gone i (upd_session i (\<lambda>se. se\<lparr>se_open := False, se_running := False\<rparr>) s)
      | None \<Rightarrow> Some s)"

definition session_stop :: "session_id \<Rightarrow> tcp_server \<Rightarrow> tcp_server option" where
  "session_stop i s = session_close i (upd_session i (\<lambda>se. se\<lparr>se_running := False\<rparr>) s)"

text \<open>A read is started only while the session runs.\<close>

definition session_read :: "session_id \<Rightarrow> tcp_server \<Rightarrow> tcp_server" where
  "session_read i = upd_session i (\<lambda>se. if se_running se then se\<lparr>se_reading := True\<rparr> else se)"

definition session_start :: "session_id \<Rightarrow> tcp_server \<Rightarrow> tcp_server" where
  "session_start i s = session_read i (upd_session i (\<lambda>se. se\<lparr>se_running := True\<rparr>) s)"

text \<open>The buffer is copied and a write is started, when the socket is open.\<close>

definition session_send :: "session_id \<Rightarrow> tcp_server \<Rightarrow> tcp_server" where
  "session_send i = upd_session i (\<lambda>se. if se_open se then se\<lparr>se_writing := se_writing se + 1\<rparr> else se)"

text \<open>
  The handler of a read: without an error and with bytes the data is passed on and the next read started;
  otherwise the session is closed. \<open>None\<close> stands for an error or the end of the stream.
\<close>

definition read_done :: "session_id \<Rightarrow> bytes option \<Rightarrow> tcp_server \<Rightarrow> tcp_server option" where
  "read_done i result s =
     (let s = upd_session i (\<lambda>se. se\<lparr>se_reading := False\<rparr>) s in
      case result of
        Some data \<Rightarrow>
          if data = [] then session_close i s
          else let s = upd_session i (\<lambda>se. se\<lparr>se_bytes_received := se_bytes_received se + of_nat (length data)\<rparr>) s
               in Some (session_read i (log_call (On_Data i data) s))
      | None \<Rightarrow> session_close i s)"

definition write_done :: "session_id \<Rightarrow> nat option \<Rightarrow> tcp_server \<Rightarrow> tcp_server option" where
  "write_done i result s =
     (let s = upd_session i (\<lambda>se. se\<lparr>se_writing := se_writing se - 1\<rparr>) s in
      case result of
        Some n \<Rightarrow> Some (upd_session i (\<lambda>se. se\<lparr>se_bytes_sent := se_bytes_sent se + of_nat n\<rparr>) s)
      | None \<Rightarrow> session_close i s)"

definition do_accept :: "tcp_server \<Rightarrow> tcp_server" where
  "do_accept s = (if sv_running s then s\<lparr>sv_accepting := True\<rparr> else s)"

definition server_start :: "tcp_server \<Rightarrow> tcp_server" where
  "server_start s = do_accept (s\<lparr>sv_acceptor_open := True, sv_running := True\<rparr>)"

definition tcp_session_new :: tcp_session where
  "tcp_session_new = \<lparr>se_open = True, se_running = False, se_reading = False, se_writing = 0, se_bytes_received = 0,
     se_bytes_sent = 0\<rparr>"

text \<open>
  The handler of an accepted connection (\<open>ok\<close>) or a failed one. A new key may stand anywhere in the order of the map. The
  options of the new socket and its address are read before the session exists; an exception there leaves the loop
  of the library and is not a step of the server.
\<close>

definition accept_done :: "bool \<Rightarrow> nat \<Rightarrow> tcp_server \<Rightarrow> tcp_server option" where
  "accept_done ok pos s =
     (let s = s\<lparr>sv_accepting := False\<rparr> in
      if ok
      then let i = sv_next_id s; s = s\<lparr>sv_next_id := i + 1, sv_objects := (sv_objects s)(i \<mapsto> tcp_session_new)\<rparr>
           in case with_lock (\<lambda>s. Some (s\<lparr>sv_sessions := take pos (sv_sessions s) @ i # drop pos (sv_sessions s)\<rparr>)) s of
                None \<Rightarrow> None
              | Some s \<Rightarrow> Some (do_accept (log_call (On_Connect i) (session_start i s)))
      else Some (do_accept s))"

definition server_send :: "session_id \<Rightarrow> tcp_server \<Rightarrow> tcp_server option" where
  "server_send i = with_lock (\<lambda>s. Some (if i \<in> set (sv_sessions s) then session_send i s else s))"

definition broadcast :: "tcp_server \<Rightarrow> tcp_server option" where
  "broadcast = with_lock (\<lambda>s. Some (fold session_send (sv_sessions s) s))"

definition server_disconnect :: "session_id \<Rightarrow> tcp_server \<Rightarrow> tcp_server option" where
  "server_disconnect i = with_lock (\<lambda>s.
     if i \<in> set (sv_sessions s)
     then map_option (\<lambda>s. s\<lparr>sv_sessions := removeAll i (sv_sessions s)\<rparr>) (session_stop i s)
     else Some s)"

fun stop_all :: "session_id list \<Rightarrow> tcp_server \<Rightarrow> tcp_server option" where
  "stop_all [] s = Some s"
| "stop_all (i # is) s = Option.bind (session_stop i s) (stop_all is)"

definition server_stop :: "tcp_server \<Rightarrow> tcp_server option" where
  "server_stop s =
     with_lock (\<lambda>s. map_option (\<lambda>s. s\<lparr>sv_sessions := []\<rparr>) (stop_all (sv_sessions s) s))
       (s\<lparr>sv_running := False, sv_acceptor_open := False\<rparr>)"

definition active_session_count :: "tcp_server \<Rightarrow> nat option" where
  "active_session_count s = (if sv_locked s then None else Some (length (sv_sessions s)))"

text \<open>One step of the server: a call of the user, or the completion of a pending operation.\<close>

inductive server_step :: "tcp_server \<Rightarrow> tcp_server \<Rightarrow> bool" where
  Start: "\<not> sv_running s \<Longrightarrow> server_step s (server_start s)"
| Accept: "sv_accepting s \<Longrightarrow> accept_done ok pos s = Some s' \<Longrightarrow> server_step s s'"
| Read: "sv_objects s i = Some se \<Longrightarrow> se_reading se \<Longrightarrow> read_done i result s = Some s' \<Longrightarrow> server_step s s'"
| Write: "sv_objects s i = Some se \<Longrightarrow> 0 < se_writing se \<Longrightarrow> write_done i written s = Some s' \<Longrightarrow> server_step s s'"
| Send: "server_send i s = Some s' \<Longrightarrow> server_step s s'"
| Broadcast: "broadcast s = Some s' \<Longrightarrow> server_step s s'"
| Disconnect: "server_disconnect i s = Some s' \<Longrightarrow> server_step s s'"
| Stop: "server_stop s = Some s' \<Longrightarrow> server_step s s'"

text \<open>The states after a number of steps.\<close>

inductive server_reach :: "nat \<Rightarrow> tcp_server \<Rightarrow> bool" where
  New: "server_reach 0 tcp_server_new"
| Step: "server_reach n s \<Longrightarrow> server_step s s' \<Longrightarrow> server_reach (Suc n) s'"

inductive_cases server_stepE: "server_step s s'"

section \<open>The map of sessions\<close>

definition opened :: "tcp_server \<Rightarrow> session_id \<Rightarrow> bool" where
  "opened s i \<longleftrightarrow> (\<exists>se. sv_objects s i = Some se \<and> se_open se)"

text \<open>
  The mutex is free, the map holds the open sessions, the ids given out are below the next one, and the user has been told
  of every connection once and of every end once.
\<close>

definition server_inv :: "nat \<Rightarrow> tcp_server \<Rightarrow> bool" where
  "server_inv n s \<longleftrightarrow> \<not> sv_locked s \<and> distinct (sv_sessions s) \<and> set (sv_sessions s) = {i. opened s i}
     \<and> (\<forall>i\<in>dom (sv_objects s). unat i < unat (sv_next_id s)) \<and> unat (sv_next_id s) \<le> n + 1
     \<and> (\<forall>i. count_list (sv_calls s) (On_Connect i) = (if sv_objects s i = None then 0 else 1))
     \<and> (\<forall>i. count_list (sv_calls s) (On_Disconnect i) = (if sv_objects s i = None \<or> opened s i then 0 else 1))"

lemma server_invD:
  assumes "server_inv n s"
  shows "\<not> sv_locked s" "distinct (sv_sessions s)" "set (sv_sessions s) = {i. opened s i}"
    "i \<in> dom (sv_objects s) \<Longrightarrow> unat i < unat (sv_next_id s)" "unat (sv_next_id s) \<le> n + 1"
    "count_list (sv_calls s) (On_Connect i) = (if sv_objects s i = None then 0 else 1)"
    "count_list (sv_calls s) (On_Disconnect i) = (if sv_objects s i = None \<or> opened s i then 0 else 1)"
  using assms unfolding server_inv_def by blast+

lemma server_inv_new: "server_inv n tcp_server_new"
  by (simp add: server_inv_def tcp_server_new_def opened_def)

lemma server_inv_mono: "server_inv n s \<Longrightarrow> server_inv (Suc n) s"
  by (auto simp: server_inv_def)

lemma opened_upd:
  "opened (upd_session i f s) j \<longleftrightarrow> (if j = i then \<exists>se. sv_objects s i = Some se \<and> se_open (f se) else opened s j)"
  by (auto simp: opened_def upd_session_def)

lemma server_inv_upd [simp]:
  assumes "\<And>se. se_open (f se) = se_open se"
  shows "server_inv n (upd_session i f s) \<longleftrightarrow> server_inv n s"
proof -
  have "opened (upd_session i f s) = opened s" "\<And>j. sv_objects (upd_session i f s) j = None \<longleftrightarrow> sv_objects s j = None"
    using assms by (auto simp: opened_upd fun_eq_iff) (auto simp: opened_def upd_session_def split: if_splits)
  moreover have "dom (sv_objects (upd_session i f s)) = dom (sv_objects s)"
    by (auto simp: upd_session_def)
  ultimately show ?thesis
    unfolding server_inv_def by (simp add: upd_session_def)
qed

lemma server_inv_fields [simp]:
  "server_inv n (s\<lparr>sv_running := b\<rparr>) \<longleftrightarrow> server_inv n s" "server_inv n (s\<lparr>sv_acceptor_open := b\<rparr>) \<longleftrightarrow> server_inv n s"
  "server_inv n (s\<lparr>sv_accepting := b\<rparr>) \<longleftrightarrow> server_inv n s" "server_inv n (log_call (On_Data i data) s) \<longleftrightarrow> server_inv n s"
  by (simp_all add: server_inv_def opened_def log_call_def)

lemma server_inv_accept_more [simp]: "server_inv n (do_accept s) \<longleftrightarrow> server_inv n s"
  by (simp add: do_accept_def)

lemma server_inv_session_op [simp]:
  "server_inv n (session_read i s) \<longleftrightarrow> server_inv n s" "server_inv n (session_send i s) \<longleftrightarrow> server_inv n s"
  "server_inv n (session_start i s) \<longleftrightarrow> server_inv n s"
  by (simp_all add: session_read_def session_send_def session_start_def)

lemma server_inv_fold_send [simp]: "server_inv n (fold session_send is s) \<longleftrightarrow> server_inv n s"
  by (induction "is" arbitrary: s) simp_all

lemma session_send_lock [simp]: "session_send i (s\<lparr>sv_locked := b\<rparr>) = (session_send i s)\<lparr>sv_locked := b\<rparr>"
  by (simp add: session_send_def upd_session_def)

lemma fold_send_lock [simp]: "fold session_send is (s\<lparr>sv_locked := b\<rparr>) = (fold session_send is s)\<lparr>sv_locked := b\<rparr>"
  by (induction "is" arbitrary: s) simp_all

lemma server_inv_locked: "server_inv n s \<Longrightarrow> s\<lparr>sv_locked := False\<rparr> = s"
  by (simp add: server_inv_def)

lemma server_inv_unlock: "server_inv n s \<Longrightarrow> server_inv n (s\<lparr>sv_locked := False\<rparr>)"
  by (simp add: server_inv_def opened_def)

lemma session_close_inv:
  assumes "server_inv n s"
  obtains s' where "session_close i s = Some s'" "server_inv n s'"
proof (cases "opened s i")
  case False
  then have "session_close i s = Some s"
    by (auto simp: session_close_def opened_def split: option.splits)
  then show ?thesis
    using assms that by blast
next
  case True
  note D = server_invD [OF assms]
  let ?s = "log_call (On_Disconnect i) ((upd_session i (\<lambda>se. se\<lparr>se_open := False, se_running := False\<rparr>) s)
      \<lparr>sv_sessions := removeAll i (sv_sessions s), sv_locked := False\<rparr>)"
  have "session_close i s = Some ?s"
    using True D(1) by (auto simp: session_close_def opened_def session_gone_def remove_session_def with_lock_def upd_session_def)
  moreover have "server_inv n ?s"
  proof -
    have opened: "opened ?s j \<longleftrightarrow> opened s j \<and> j \<noteq> i" and none: "sv_objects ?s j = None \<longleftrightarrow> sv_objects s j = None" for j
      by (auto simp: opened_def log_call_def upd_session_def split: if_splits)
    have "dom (sv_objects ?s) = dom (sv_objects s)"
      using none by (simp add: dom_def)
    moreover have "sv_next_id ?s = sv_next_id s" "sv_sessions ?s = removeAll i (sv_sessions s)" "\<not> sv_locked ?s"
      "sv_calls ?s = sv_calls s @ [On_Disconnect i]"
      by (simp_all add: log_call_def upd_session_def)
    moreover have "sv_objects s i \<noteq> None"
      using True by (auto simp: opened_def)
    ultimately show ?thesis
      unfolding server_inv_def opened none using D True by (auto simp: distinct_removeAll count_list_append)
  qed
  ultimately show ?thesis
    using that by blast
qed

lemma accept_done_inv:
  assumes "server_inv n s" "n + 2 < 2 ^ 64"
  obtains s' where "accept_done ok pos s = Some s'" "server_inv (Suc n) s'"
proof (cases ok)
  case False
  then show ?thesis
    using that assms server_inv_mono by (simp add: accept_done_def)
next
  case True
  note D = server_invD [OF assms(1)]
  let ?i = "sv_next_id s"
  let ?s = "log_call (On_Connect ?i) (s\<lparr>sv_accepting := False, sv_next_id := ?i + 1,
      sv_objects := (sv_objects s)(?i \<mapsto> tcp_session_new),
      sv_sessions := take pos (sv_sessions s) @ ?i # drop pos (sv_sessions s), sv_locked := False\<rparr>)"
  have "log_call c (session_start i s) = session_start i (log_call c s)" for c i s
    by (simp add: log_call_def session_start_def session_read_def upd_session_def)
  then have result: "accept_done ok pos s = Some (do_accept (session_start ?i ?s))"
    using True D(1) by (simp add: accept_done_def with_lock_def log_call_def Let_def)
  have "server_inv (Suc n) ?s"
  proof -
    have new: "sv_objects s ?i = None" "\<not> opened s ?i"
      using D(4) [of ?i] by (auto simp: opened_def)
    have up: "unat (?i + 1) = unat ?i + 1"
      using D(5) assms(2) unat_plus_small [of ?i 1] by simp
    have opened: "opened ?s j \<longleftrightarrow> opened s j \<or> j = ?i"
      and none: "sv_objects ?s j = None \<longleftrightarrow> sv_objects s j = None \<and> j \<noteq> ?i" for j
      using new by (auto simp: opened_def log_call_def tcp_session_new_def)
    have fields: "sv_next_id ?s = ?i + 1" "\<not> sv_locked ?s" "sv_calls ?s = sv_calls s @ [On_Connect ?i]"
      "sv_sessions ?s = take pos (sv_sessions s) @ ?i # drop pos (sv_sessions s)"
      "dom (sv_objects ?s) = insert ?i (dom (sv_objects s))"
      by (auto simp: log_call_def)
    have "set (take pos (sv_sessions s)) \<union> set (drop pos (sv_sessions s)) = set (sv_sessions s)"
      by (metis append_take_drop_id set_append)
    then have keys: "set (sv_sessions ?s) = {j. opened ?s j}"
      using D(3) unfolding fields opened by auto
    have dist: "distinct (sv_sessions ?s)"
      using D(2,3) new(2) unfolding fields
      by (auto dest: in_set_takeD in_set_dropD simp: set_take_disj_set_drop_if_distinct)
    have below: "unat j < unat (sv_next_id ?s)" if "j \<in> dom (sv_objects ?s)" for j
      using that D(4) [of j] unfolding fields up by (cases "j = ?i") simp_all
    have calls: "count_list (sv_calls ?s) (On_Connect j) = (if sv_objects ?s j = None then 0 else 1)"
      "count_list (sv_calls ?s) (On_Disconnect j) = (if sv_objects ?s j = None \<or> opened ?s j then 0 else 1)" for j
      using D(6,7) [of j] new unfolding none opened fields(3) by (cases "j = ?i"; simp add: count_list_append)+
    have "unat (sv_next_id ?s) \<le> Suc n + 1"
      using D(5) up unfolding fields(1) by simp
    then show ?thesis
      unfolding server_inv_def by (intro conjI ballI allI fields(2) dist keys below calls)
  qed
  then have "server_inv (Suc n) (do_accept (session_start ?i ?s))"
    by (simp only: server_inv_accept_more server_inv_session_op)
  with result show ?thesis
    by (rule that)
qed

lemma session_stop_open:
  assumes "opened s i" "sv_locked s"
  shows "session_stop i s = None"
proof -
  obtain se where "sv_objects s i = Some se" "se_open se"
    using assms(1) by (auto simp: opened_def)
  then show ?thesis
    using assms(2)
    by (simp add: session_stop_def session_close_def session_gone_def remove_session_def with_lock_def upd_session_def)
qed

lemma server_disconnect_hangs:
  assumes "server_inv n s"
  shows "server_disconnect i s = (if i \<in> set (sv_sessions s) then None else Some s)"
proof -
  have "opened (s\<lparr>sv_locked := True\<rparr>) i" if "i \<in> set (sv_sessions s)"
    using that server_invD(3) [OF assms] by (auto simp: opened_def)
  then show ?thesis
    using server_invD(1) [OF assms] server_inv_locked [OF assms] session_stop_open
    by (simp add: server_disconnect_def with_lock_def)
qed

lemma server_stop_hangs:
  assumes "server_inv n s"
  shows "server_stop s = (if sv_sessions s = [] then Some (s\<lparr>sv_running := False, sv_acceptor_open := False\<rparr>) else None)"
proof (cases "sv_sessions s")
  case Nil
  then show ?thesis
    using server_invD(1) [OF assms] by (simp add: server_stop_def with_lock_def)
next
  case (Cons i "is")
  then have "opened (s\<lparr>sv_running := False, sv_acceptor_open := False, sv_locked := True\<rparr>) i"
    using server_invD(3) [OF assms] by (auto simp: opened_def)
  then show ?thesis
    using Cons session_stop_open by (simp add: server_stop_def with_lock_def)
qed

lemma server_step_inv:
  assumes "server_inv n s" "n + 2 < 2 ^ 64" "server_step s s'"
  shows "server_inv (Suc n) s'"
proof -
  have free: "\<not> sv_locked s"
    using assms(1) by (simp add: server_inv_def)
  have more: "server_inv (Suc n) s"
    by (rule server_inv_mono [OF assms(1)])
  have close: "server_inv (Suc n) t'" if "server_inv (Suc n) t" "session_close i t = Some t'" for t t' i
    using session_close_inv [OF that(1), of i] that(2) by (metis option.inject)
  show ?thesis
    using assms(3)
  proof (cases rule: server_step.cases)
    case Start
    then show ?thesis
      using more by (simp add: server_start_def)
  next
    case (Accept ok pos)
    then show ?thesis
      using accept_done_inv [OF assms(1,2), of ok pos] by (metis option.inject)
  next
    case (Read i se result)
    show ?thesis
    proof (cases "result = None \<or> result = Some []")
      case True
      then show ?thesis
        using Read close [of "upd_session i (\<lambda>se. se\<lparr>se_reading := False\<rparr>) s" i s'] more by (auto simp: read_done_def)
    next
      case False
      then show ?thesis
        using Read more by (auto simp: read_done_def Let_def split: if_splits)
    qed
  next
    case (Write i se written)
    then show ?thesis
      using close [of "upd_session i (\<lambda>se. se\<lparr>se_writing := se_writing se - 1\<rparr>) s" i s'] more
      by (cases written) (auto simp: write_done_def)
  next
    case (Send i)
    then show ?thesis
      using free server_inv_unlock [OF more] server_inv_unlock [of "Suc n" "session_send i s"] more by (auto simp: server_send_def with_lock_def split: if_splits)
  next
    case Broadcast
    have "s' = (fold session_send (sv_sessions s) s)\<lparr>sv_locked := False\<rparr>"
      using Broadcast free by (simp add: broadcast_def with_lock_def)
    then show ?thesis
      using server_inv_unlock [of "Suc n" "fold session_send (sv_sessions s) s"] more by simp
  next
    case (Disconnect i)
    then show ?thesis
      using server_disconnect_hangs [OF assms(1), of i] more by (simp split: if_splits)
  next
    case Stop
    then show ?thesis
      using server_stop_hangs [OF assms(1)] more by (auto split: if_splits)
  qed
qed

lemma server_reach_inv: "server_reach n s \<Longrightarrow> n + 2 < 2 ^ 64 \<Longrightarrow> server_inv n s"
proof (induction rule: server_reach.induct)
  case (Step n s s')
  then show ?case
    by (intro server_step_inv [of n s]) simp_all
qed (rule server_inv_new)

text \<open>
  C34. The server tells of every connection once and of its end once, and its map holds the connections in between.
  In every state that fewer than \<open>2 ^ 64\<close> steps lead to, whatever the results of the operations on the sockets, the
  map has each key once, and its keys are the sessions whose connection has been reported and whose end has not; no
  session is reported twice.
\<close>

theorem server_sessions_exact:
  assumes "server_reach n s" "n + 2 < 2 ^ 64"
  shows "distinct (sv_sessions s)
    \<and> set (sv_sessions s) = {i. On_Connect i \<in> set (sv_calls s) \<and> On_Disconnect i \<notin> set (sv_calls s)}
    \<and> count_list (sv_calls s) (On_Connect i) \<le> 1 \<and> count_list (sv_calls s) (On_Disconnect i) \<le> count_list (sv_calls s) (On_Connect i)"
proof -
  note D = server_invD [OF server_reach_inv [OF assms]]
  have "On_Connect i \<in> set (sv_calls s) \<longleftrightarrow> sv_objects s i \<noteq> None" "On_Disconnect i \<in> set (sv_calls s) \<longleftrightarrow> sv_objects s i \<noteq> None \<and> \<not> opened s i" for i
    using D(6,7) [of i] count_list_0_iff [of "sv_calls s" "On_Connect i"] count_list_0_iff [of "sv_calls s" "On_Disconnect i"]
    by (auto split: if_splits)
  moreover have "opened s i \<Longrightarrow> sv_objects s i \<noteq> None" for i
    by (auto simp: opened_def)
  ultimately have "set (sv_sessions s) = {i. On_Connect i \<in> set (sv_calls s) \<and> On_Disconnect i \<notin> set (sv_calls s)}"
    using D(3) by auto
  then show ?thesis
    using D(2) D(6,7) [of i] by simp
qed

text \<open>One connection that has been accepted.\<close>

definition one_session :: tcp_server where
  "one_session = the (accept_done True 0 (server_start tcp_server_new))"

lemma one_session_reached: "server_reach 2 one_session"
proof -
  have "server_reach (Suc 0) (server_start tcp_server_new)"
    by (intro server_reach.Step [OF server_reach.New] server_step.Start) (simp add: tcp_server_new_def)
  moreover have "server_step (server_start tcp_server_new) one_session"
    by (rule server_step.Accept [of _ True 0])
      (simp_all add: one_session_def server_start_def do_accept_def tcp_server_new_def accept_done_def with_lock_def Let_def)
  ultimately have "server_reach (Suc (Suc 0)) one_session"
    by (rule server_reach.Step)
  then show ?thesis
    by (simp add: numeral_2_eq_2)
qed

lemma one_session_simps: "sv_sessions one_session = [1]" "sv_calls one_session = [On_Connect 1]"
  by (simp_all add: one_session_def server_start_def do_accept_def tcp_server_new_def accept_done_def with_lock_def Let_def
      log_call_def session_start_def session_read_def upd_session_def)

theorem server_sessions_exact_witness: "set (sv_sessions one_session) = {1} \<and> distinct (sv_sessions one_session)"
  using server_sessions_exact [OF one_session_reached, of 1] by (auto simp: one_session_simps)

text \<open>
  C35. The server cannot end a connection itself. In every state that fewer than \<open>2 ^ 64\<close> steps lead to,
  \<open>disconnect\<close> of a session in the map and \<open>stop\<close> with a session in the map never return: they hold the mutex of the map
  while the session closes, and the handler of the closing waits for that mutex. Both return only when there is
  nothing to disconnect.
\<close>

theorem server_disconnect_deadlocks:
  assumes "server_reach n s" "n + 2 < 2 ^ 64"
  shows "(server_disconnect i s = None \<longleftrightarrow> i \<in> set (sv_sessions s)) \<and> (server_stop s = None \<longleftrightarrow> sv_sessions s \<noteq> [])"
  using server_disconnect_hangs [OF server_reach_inv [OF assms]] server_stop_hangs [OF server_reach_inv [OF assms]] by simp

theorem server_disconnect_deadlocks_witness: "server_disconnect 1 one_session = None \<and> server_stop one_session = None"
  using server_disconnect_deadlocks [OF one_session_reached, of 1] by (simp add: one_session_simps)

end
