(* ===== verification/Tcp_Client.thy ===== *)
theory Tcp_Client
  imports Common_Types
begin

text \<open>
  The TCP client that reconnects by itself (\<open>network/tcp_client\<close>) and the UDP sockets of the feed
  (\<open>network/multicast_receiver\<close>, \<open>network/multicast_sender\<close>).

  As for the server, the socket library is seen through its calling convention: the state counts the operations whose
  handler has not been called yet, and the call of a handler, with any result the library allows, is one step.
  A connection attempt succeeds only while the socket is open, and a successful resolution has at least one address, so
  that the attempt opens the socket.
\<close>

section \<open>The client\<close>

datatype client_call = Connected | Received bytes | Disconnected

record tcp_client =
  cl_running :: bool
  cl_connected :: bool
  cl_open :: bool
  cl_reconnect_interval_ms :: u32
  cl_resolving :: nat
  cl_connecting :: nat
  cl_reading :: nat
  cl_writing :: nat
  cl_timer :: bool
  cl_cancelled :: nat
  cl_bytes_received :: u64
  cl_bytes_sent :: u64
  cl_calls :: "client_call list"

definition tcp_client_new :: "u32 \<Rightarrow> tcp_client" where
  "tcp_client_new ms = \<lparr>cl_running = False, cl_connected = False, cl_open = False, cl_reconnect_interval_ms = ms,
     cl_resolving = 0, cl_connecting = 0, cl_reading = 0, cl_writing = 0, cl_timer = False, cl_cancelled = 0,
     cl_bytes_received = 0, cl_bytes_sent = 0, cl_calls = []\<rparr>"

definition client_log :: "client_call \<Rightarrow> tcp_client \<Rightarrow> tcp_client" where
  "client_log c s = s\<lparr>cl_calls := cl_calls s @ [c]\<rparr>"

text \<open>\<open>steady_timer::cancel\<close>: the pending wait, when there is one, will be called with an error.\<close>

definition cancel_timer :: "tcp_client \<Rightarrow> tcp_client" where
  "cancel_timer s = (if cl_timer s then s\<lparr>cl_timer := False, cl_cancelled := cl_cancelled s + 1\<rparr> else s)"

definition client_do_connect :: "tcp_client \<Rightarrow> tcp_client" where
  "client_do_connect s = (if \<not> cl_running s then s else s\<lparr>cl_resolving := cl_resolving s + 1\<rparr>)"

definition client_do_close :: "tcp_client \<Rightarrow> tcp_client" where
  "client_do_close s =
     (if \<not> cl_open s then s
      else let was_connected = cl_connected s; s = s\<lparr>cl_connected := False, cl_open := False\<rparr>
           in if was_connected then client_log Disconnected s else s)"

text \<open>\<open>expires_after\<close> cancels the wait that is pending, then \<open>async_wait\<close> starts a new one.\<close>

definition schedule_reconnect :: "tcp_client \<Rightarrow> tcp_client" where
  "schedule_reconnect s =
     (if \<not> cl_running s \<or> cl_reconnect_interval_ms s = 0 then s else (cancel_timer s)\<lparr>cl_timer := True\<rparr>)"

definition client_do_read :: "tcp_client \<Rightarrow> tcp_client" where
  "client_do_read s = (if \<not> cl_connected s then s else s\<lparr>cl_reading := cl_reading s + 1\<rparr>)"

definition client_connect :: "tcp_client \<Rightarrow> tcp_client" where
  "client_connect s = client_do_connect (s\<lparr>cl_running := True\<rparr>)"

definition client_disconnect :: "tcp_client \<Rightarrow> tcp_client" where
  "client_disconnect s = client_do_close (cancel_timer (s\<lparr>cl_running := False\<rparr>))"

definition client_send :: "tcp_client \<Rightarrow> tcp_client" where
  "client_send s = (if \<not> cl_connected s then s else s\<lparr>cl_writing := cl_writing s + 1\<rparr>)"

text \<open>The handlers, each with the result the library passes.\<close>

definition resolve_done :: "bool \<Rightarrow> tcp_client \<Rightarrow> tcp_client" where
  "resolve_done ok s =
     (let s = s\<lparr>cl_resolving := cl_resolving s - 1\<rparr>
      in if \<not> ok then schedule_reconnect s else s\<lparr>cl_connecting := cl_connecting s + 1, cl_open := True\<rparr>)"

text \<open>\<open>apply_socket_options\<close> throws when an option is refused; the exception leaves the loop of the library (\<open>None\<close>).\<close>

definition connect_done :: "bool \<Rightarrow> bool \<Rightarrow> tcp_client \<Rightarrow> tcp_client option" where
  "connect_done ok options s =
     (let s = s\<lparr>cl_connecting := cl_connecting s - 1\<rparr>
      in if ok then if options then Some (client_do_read (client_log Connected (s\<lparr>cl_connected := True\<rparr>))) else None
         else Some (schedule_reconnect s))"

definition client_read_done :: "bytes option \<Rightarrow> tcp_client \<Rightarrow> tcp_client" where
  "client_read_done result s =
     (let s = s\<lparr>cl_reading := cl_reading s - 1\<rparr> in
      case result of
        Some data \<Rightarrow>
          if data = [] then schedule_reconnect (client_do_close s)
          else let s = client_log (Received data) (s\<lparr>cl_bytes_received := cl_bytes_received s + of_nat (length data)\<rparr>)
               in if cl_connected s then client_do_read s else s
      | None \<Rightarrow> schedule_reconnect (client_do_close s))"

definition client_write_done :: "nat option \<Rightarrow> tcp_client \<Rightarrow> tcp_client" where
  "client_write_done result s =
     (let s = s\<lparr>cl_writing := cl_writing s - 1\<rparr> in
      case result of
        Some n \<Rightarrow> s\<lparr>cl_bytes_sent := cl_bytes_sent s + of_nat n\<rparr>
      | None \<Rightarrow> schedule_reconnect (client_do_close s))"

text \<open>The body of the wait's handler when it is called without an error: a fresh socket, not open yet.\<close>

definition reconnect_now :: "tcp_client \<Rightarrow> tcp_client" where
  "reconnect_now s = (if cl_running s then client_do_connect (s\<lparr>cl_open := False\<rparr>) else s)"

text \<open>A cancelled wait is called with an error, or without one when it had expired before.\<close>

definition timer_done :: "tcp_client \<Rightarrow> tcp_client" where
  "timer_done s = reconnect_now (s\<lparr>cl_timer := False\<rparr>)"

definition cancelled_done :: "bool \<Rightarrow> tcp_client \<Rightarrow> tcp_client" where
  "cancelled_done expired s =
     (let s = s\<lparr>cl_cancelled := cl_cancelled s - 1\<rparr> in if expired then reconnect_now s else s)"

text \<open>What can happen to a client while its user does not call \<open>connect\<close> or \<open>disconnect\<close>.\<close>

inductive client_event :: "tcp_client \<Rightarrow> tcp_client \<Rightarrow> bool" where
  Resolve: "0 < cl_resolving s \<Longrightarrow> client_event s (resolve_done ok s)"
| Connect: "0 < cl_connecting s \<Longrightarrow> (ok \<Longrightarrow> cl_open s) \<Longrightarrow> connect_done ok options s = Some s' \<Longrightarrow> client_event s s'"
| Read: "0 < cl_reading s \<Longrightarrow> client_event s (client_read_done result s)"
| Write: "0 < cl_writing s \<Longrightarrow> client_event s (client_write_done written s)"
| Timer: "cl_timer s \<Longrightarrow> client_event s (timer_done s)"
| Cancelled: "0 < cl_cancelled s \<Longrightarrow> client_event s (cancelled_done expired s)"
| Send: "client_event s (client_send s)"

inductive client_reach :: "u32 \<Rightarrow> tcp_client \<Rightarrow> bool" for ms where
  New: "client_reach ms (tcp_client_new ms)"
| User_Connect: "client_reach ms s \<Longrightarrow> client_reach ms (client_connect s)"
| User_Disconnect: "client_reach ms s \<Longrightarrow> client_reach ms (client_disconnect s)"
| Event: "client_reach ms s \<Longrightarrow> client_event s s' \<Longrightarrow> client_reach ms s'"

section \<open>What the client promises\<close>

lemmas client_ops = cancel_timer_def client_do_connect_def client_do_close_def schedule_reconnect_def client_do_read_def
  client_connect_def client_disconnect_def client_send_def resolve_done_def connect_done_def client_read_done_def
  client_write_done_def reconnect_now_def timer_done_def cancelled_done_def client_log_def

text \<open>What a user who follows the callbacks takes the client for.\<close>

definition connected_after :: "client_call list \<Rightarrow> bool" where
  "connected_after calls = fold (\<lambda>c b. case c of Connected \<Rightarrow> True | Disconnected \<Rightarrow> False | Received data \<Rightarrow> b) calls False"

lemma connected_after_simps [simp]:
  "\<not> connected_after []" "connected_after (calls @ [Connected])" "\<not> connected_after (calls @ [Disconnected])"
  "connected_after (calls @ [Received data]) = connected_after calls"
  by (simp_all add: connected_after_def)

text \<open>The flag says what the user has been told, and the end of a connection is reported only to a user who was told of it.\<close>

definition told :: "tcp_client \<Rightarrow> bool" where
  "told s \<longleftrightarrow> cl_connected s = connected_after (cl_calls s)
     \<and> (\<forall>before after. cl_calls s = before @ Disconnected # after \<longrightarrow> connected_after before)"

lemma told_log: "told s \<Longrightarrow> told (client_log Connected (s\<lparr>cl_connected := True\<rparr>))" "told s \<Longrightarrow> told (client_log (Received data) s)"
  "told s \<Longrightarrow> cl_connected s \<Longrightarrow> told (client_log Disconnected (s\<lparr>cl_connected := False\<rparr>))"
  by (auto simp: told_def client_log_def append_eq_append_conv2 append_eq_Cons_conv Cons_eq_append_conv)

lemma told_cong [simp]:
  "told (s\<lparr>cl_running := b\<rparr>) = told s" "told (s\<lparr>cl_open := b\<rparr>) = told s" "told (s\<lparr>cl_timer := b\<rparr>) = told s"
  "told (s\<lparr>cl_resolving := n\<rparr>) = told s" "told (s\<lparr>cl_connecting := n\<rparr>) = told s" "told (s\<lparr>cl_reading := n\<rparr>) = told s"
  "told (s\<lparr>cl_writing := n\<rparr>) = told s" "told (s\<lparr>cl_cancelled := n\<rparr>) = told s"
  "told (s\<lparr>cl_bytes_received := w\<rparr>) = told s" "told (s\<lparr>cl_bytes_sent := w\<rparr>) = told s"
  by (simp_all add: told_def)

lemma told_ops [simp]:
  "told s \<Longrightarrow> told (cancel_timer s)" "told s \<Longrightarrow> told (client_do_connect s)" "told s \<Longrightarrow> told (schedule_reconnect s)"
  "told s \<Longrightarrow> told (client_do_read s)" "told s \<Longrightarrow> told (client_do_close s)"
  using told_log(3) [of "s\<lparr>cl_open := False\<rparr>"]
  by (auto simp: cancel_timer_def client_do_connect_def schedule_reconnect_def client_do_read_def client_do_close_def Let_def
      told_def client_log_def)

lemma told_event: "client_event s s' \<Longrightarrow> told s \<Longrightarrow> told s'"
  by (induction rule: client_event.induct)
    (auto simp: resolve_done_def connect_done_def client_read_done_def client_write_done_def timer_done_def cancelled_done_def
      reconnect_now_def client_send_def told_log Let_def split: if_splits option.splits)

definition trying :: "tcp_client \<Rightarrow> bool" where
  "trying s \<longleftrightarrow> (cl_running s \<and> cl_reconnect_interval_ms s \<noteq> 0 \<longrightarrow>
     cl_connected s \<and> 0 < cl_reading s \<or> cl_timer s \<or> 0 < cl_resolving s \<or> 0 < cl_connecting s)"

lemma trying_event: "client_event s s' \<Longrightarrow> trying s \<Longrightarrow> trying s'"
  by (induction rule: client_event.induct) (auto simp: trying_def client_ops Let_def split: if_splits option.splits)

lemma client_reach_inv: "client_reach ms s \<Longrightarrow> told s \<and> trying s"
proof (induction rule: client_reach.induct)
  case New
  then show ?case
    by (simp add: told_def trying_def tcp_client_new_def)
next
  case (User_Connect s)
  have "trying (client_connect s)"
    by (simp add: trying_def client_ops)
  with User_Connect show ?case
    by (simp add: client_connect_def)
next
  case (User_Disconnect s)
  have "trying (client_disconnect s)"
    by (simp add: trying_def client_ops Let_def)
  with User_Disconnect show ?case
    by (simp add: client_disconnect_def)
next
  case (Event s s')
  then show ?case
    using told_event trying_event by blast
qed

text \<open>
  C36. The client keeps its word. In every state it can reach, whatever its user and the network do, \<open>is_connected\<close>
  is what the callbacks have told the user, \<open>on_disconnect\<close> is called only to a user who was told of a connection that
  has not ended, and while the user wants a connection and reconnecting is on, the client never gives up: it is connected
  and reading, or waits for the reconnect timer, or is resolving the name, or is connecting.
\<close>

theorem client_keeps_trying:
  assumes "client_reach ms s"
  shows "cl_connected s = connected_after (cl_calls s)
    \<and> (\<forall>before after. cl_calls s = before @ Disconnected # after \<longrightarrow> connected_after before)
    \<and> (cl_running s \<and> cl_reconnect_interval_ms s \<noteq> 0 \<longrightarrow>
        cl_connected s \<and> 0 < cl_reading s \<or> cl_timer s \<or> 0 < cl_resolving s \<or> 0 < cl_connecting s)"
  using client_reach_inv [OF assms, unfolded told_def trying_def conj_assoc] .

theorem client_keeps_trying_witness:
  "cl_timer (resolve_done False (client_connect (tcp_client_new 3000)))
    \<or> 0 < cl_resolving (resolve_done False (client_connect (tcp_client_new 3000)))"
proof -
  have "client_reach 3000 (resolve_done False (client_connect (tcp_client_new 3000)))"
    by (rule client_reach.Event [OF client_reach.User_Connect [OF client_reach.New] client_event.Resolve])
      (simp add: client_connect_def client_do_connect_def tcp_client_new_def)
  from client_keeps_trying [OF this] show ?thesis
    by (simp add: client_ops tcp_client_new_def)
qed

text \<open>After \<open>disconnect\<close> with no resolution under way nothing opens the socket again.\<close>

definition shut :: "nat \<Rightarrow> tcp_client \<Rightarrow> bool" where
  "shut n s \<longleftrightarrow> \<not> cl_running s \<and> \<not> cl_open s \<and> cl_resolving s = 0 \<and> count_list (cl_calls s) Connected = n"

lemma shut_event: "client_event s s' \<Longrightarrow> shut n s \<Longrightarrow> shut n s'"
  by (induction rule: client_event.induct) (auto simp: shut_def client_ops Let_def split: if_splits option.splits)

lemma shut_events: "client_event\<^sup>*\<^sup>* s s' \<Longrightarrow> shut n s \<Longrightarrow> shut n s'"
  by (induction rule: rtranclp_induct) (auto intro: shut_event)

lemma disconnect_simps:
  "\<not> cl_running (client_disconnect s)" "\<not> cl_open (client_disconnect s)" "cl_resolving (client_disconnect s) = cl_resolving s"
  by (simp_all add: client_ops Let_def)

text \<open>
  C37. When a \<open>disconnect\<close> is final. After it, without another \<open>connect\<close>, the client can still report a connection exactly
  when the resolution of a name was under way: the handler of the resolution does not look at the user's wish and
  connects. In every other state (connected, connecting, waiting for the timer) no connection is reported any more.
\<close>

theorem client_disconnect_final:
  "(\<exists>s'. client_event\<^sup>*\<^sup>* (client_disconnect s) s'
      \<and> count_list (cl_calls (client_disconnect s)) Connected < count_list (cl_calls s') Connected)
    \<longleftrightarrow> 0 < cl_resolving s"
proof
  assume "\<exists>s'. client_event\<^sup>*\<^sup>* (client_disconnect s) s'
      \<and> count_list (cl_calls (client_disconnect s)) Connected < count_list (cl_calls s') Connected"
  then obtain s' where s': "client_event\<^sup>*\<^sup>* (client_disconnect s) s'"
    "count_list (cl_calls (client_disconnect s)) Connected < count_list (cl_calls s') Connected" by blast
  have "\<not> shut (count_list (cl_calls (client_disconnect s)) Connected) (client_disconnect s)"
    using shut_events [OF s'(1)] s'(2) by (auto simp: shut_def)
  then show "0 < cl_resolving s"
    by (simp add: shut_def disconnect_simps)
next
  assume pending: "0 < cl_resolving s"
  let ?d = "client_disconnect s"
  let ?r = "resolve_done True ?d"
  have "client_event ?d ?r"
    using pending by (intro client_event.Resolve) (simp add: disconnect_simps)
  moreover have "client_event ?r (the (connect_done True True ?r))"
    by (rule client_event.Connect [of _ True True]) (simp_all add: resolve_done_def connect_done_def Let_def)
  ultimately have "client_event\<^sup>*\<^sup>* ?d (the (connect_done True True ?r))"
    by simp
  moreover have "count_list (cl_calls (the (connect_done True True ?r))) Connected = count_list (cl_calls ?d) Connected + 1"
    by (simp add: connect_done_def resolve_done_def client_do_read_def client_log_def Let_def)
  ultimately show "\<exists>s'. client_event\<^sup>*\<^sup>* ?d s' \<and> count_list (cl_calls ?d) Connected < count_list (cl_calls s') Connected"
    by (metis less_add_one)
qed

section \<open>The UDP sockets\<close>

text \<open>The receiver has one operation pending while it runs; its callback gets the bytes and the time of arrival.\<close>

record mc_receiver =
  rx_running :: bool
  rx_receiving :: nat
  rx_bytes_received :: u64
  rx_packets_received :: u64
  rx_calls :: "(bytes \<times> u64) list"

definition mc_receiver_new :: mc_receiver where
  "mc_receiver_new = \<lparr>rx_running = False, rx_receiving = 0, rx_bytes_received = 0, rx_packets_received = 0, rx_calls = []\<rparr>"

definition do_receive :: "mc_receiver \<Rightarrow> mc_receiver" where
  "do_receive r = (if \<not> rx_running r then r else r\<lparr>rx_receiving := rx_receiving r + 1\<rparr>)"

definition receiver_start :: "mc_receiver \<Rightarrow> mc_receiver" where
  "receiver_start r = do_receive (r\<lparr>rx_running := True\<rparr>)"

text \<open>\<open>cancel\<close> makes the pending operation complete with an error, which is a later call of the handler.\<close>

definition receiver_stop :: "mc_receiver \<Rightarrow> mc_receiver" where
  "receiver_stop r = r\<lparr>rx_running := False\<rparr>"

definition receive_done :: "bytes option \<times> u64 \<Rightarrow> mc_receiver \<Rightarrow> mc_receiver" where
  "receive_done = (\<lambda>(result, ts) r.
     let r = r\<lparr>rx_receiving := rx_receiving r - 1\<rparr>;
         r = (case result of
                Some data \<Rightarrow>
                  if data \<noteq> []
                  then r\<lparr>rx_bytes_received := rx_bytes_received r + of_nat (length data),
                         rx_packets_received := rx_packets_received r + 1, rx_calls := rx_calls r @ [(data, ts)]\<rparr>
                  else r
              | None \<Rightarrow> r)
     in if rx_running r then do_receive r else r)"

text \<open>The datagrams that reach the callback.\<close>

definition delivered :: "(bytes option \<times> u64) list \<Rightarrow> (bytes \<times> u64) list" where
  "delivered results = [(data, ts). (Some data, ts) \<leftarrow> results, data \<noteq> []]"

lemma receive_done_running:
  assumes "rx_running r" "rx_receiving r = 1"
  shows "rx_running (receive_done x r) \<and> rx_receiving (receive_done x r) = 1
    \<and> rx_calls (receive_done x r) = rx_calls r @ delivered [x]
    \<and> rx_packets_received (receive_done x r) = rx_packets_received r + of_nat (length (delivered [x]))
    \<and> rx_bytes_received (receive_done x r) = rx_bytes_received r + of_nat (sum_list (map (\<lambda>d. length (fst d)) (delivered [x])))"
  using assms by (cases x; cases "fst x") (auto simp: receive_done_def do_receive_def delivered_def Let_def)

text \<open>
  The receive loop of the feed loses nothing it is given. Once started, after any sequence of results of
  the socket there is exactly one receive pending, the callback has been called with every datagram that is not
  empty, in their order and with their times, and the counters are the number of those datagrams and of their bytes
  modulo \<open>2 ^ 64\<close>; errors and empty datagrams change nothing.
\<close>

theorem receive_loop_delivers:
  "let r = fold receive_done results (receiver_start mc_receiver_new)
   in rx_receiving r = 1 \<and> rx_calls r = delivered results
      \<and> rx_packets_received r = of_nat (length (delivered results))
      \<and> rx_bytes_received r = of_nat (sum_list (map (\<lambda>d. length (fst d)) (delivered results)))"
proof -
  have "rx_running r \<and> rx_receiving r = 1 \<and> rx_calls r = delivered results
      \<and> rx_packets_received r = of_nat (length (delivered results))
      \<and> rx_bytes_received r = of_nat (sum_list (map (\<lambda>d. length (fst d)) (delivered results)))"
    if "r = fold receive_done results (receiver_start mc_receiver_new)" for r
    using that
  proof (induction results arbitrary: r rule: rev_induct)
    case Nil
    then show ?case
      by (simp add: receiver_start_def do_receive_def mc_receiver_new_def delivered_def)
  next
    case (snoc x results)
    have "delivered (results @ [x]) = delivered results @ delivered [x]"
      by (simp add: delivered_def)
    then show ?case
      using snoc.IH [OF refl] receive_done_running [of "fold receive_done results (receiver_start mc_receiver_new)" x] snoc.prems
      by simp
  qed
  then show ?thesis
    by (simp add: Let_def)
qed

record mc_sender =
  tx_bytes_sent :: u64
  tx_packets_sent :: u64
  tx_sent :: "bytes list"

text \<open>\<open>sent\<close> is the result of \<open>send_to\<close>: the number of bytes, or an exception that leaves \<open>send\<close> before the counters.\<close>

definition mc_send :: "nat option \<Rightarrow> bytes \<Rightarrow> mc_sender \<Rightarrow> mc_sender option" where
  "mc_send sent data t =
     (case sent of
        Some n \<Rightarrow> Some (t\<lparr>tx_bytes_sent := tx_bytes_sent t + of_nat n, tx_packets_sent := tx_packets_sent t + 1,
                         tx_sent := tx_sent t @ [data]\<rparr>)
      | None \<Rightarrow> None)"

text \<open>The handler of \<open>async_send\<close>: only a send without an error is counted.\<close>

definition mc_async_send_done :: "nat option \<Rightarrow> mc_sender \<Rightarrow> mc_sender" where
  "mc_async_send_done sent t =
     (case sent of
        Some n \<Rightarrow> t\<lparr>tx_bytes_sent := tx_bytes_sent t + of_nat n, tx_packets_sent := tx_packets_sent t + 1\<rparr>
      | None \<Rightarrow> t)"

lemma mc_send_counts:
  assumes "mc_send (Some (length data)) data t = Some t'"
  shows "tx_packets_sent t' = tx_packets_sent t + 1 \<and> tx_bytes_sent t' = tx_bytes_sent t + of_nat (length data)
    \<and> tx_sent t' = tx_sent t @ [data]"
  using assms by (auto simp: mc_send_def)

end
