(* ===== verification/Config_Store.thy ===== *)
theory Config_Store
  imports Complex_Main Decimal "HOL-Library.List_Lexorder" "HOL-Library.Char_ord" "HOL-Library.Monad_Syntax"
begin

text \<open>
  The configuration (\<open>common/config\<close>, \<open>infra/config\<close>) and the set-up of the log (\<open>infra/logging\<close>).

  A configuration file is read by a YAML library, which is not part of the sources; the code starts from the tree of
  nodes it returns. \<open>as_string\<close> is the library's conversion of a node to text, of which the theorems use only that a
  scalar gives its text. The store is the ordered map of the class, as the list of its entries by increasing key.
\<close>

section \<open>The store\<close>

datatype yaml = Y_Map "(yaml \<times> yaml) list" | Y_Seq "yaml list" | Y_Scalar string | Y_Null

type_synonym config = "(string \<times> string) list"

fun map_put :: "string \<Rightarrow> string \<Rightarrow> config \<Rightarrow> config" where
  "map_put k v [] = [(k, v)]"
| "map_put k v ((k', v') # m) =
     (if k < k' then (k, v) # (k', v') # m else if k = k' then (k, v) # m else (k', v') # map_put k v m)"

fun comma_join :: "string list \<Rightarrow> string" where
  "comma_join [] = []"
| "comma_join [x] = x"
| "comma_join (x # xs) = x @ '','' @ comma_join xs"

definition full_key :: "string \<Rightarrow> string \<Rightarrow> string" where
  "full_key pre key = (if pre = [] then key else pre @ ''.'' @ key)"

fun flatten :: "(yaml \<Rightarrow> string option) \<Rightarrow> yaml \<Rightarrow> string \<Rightarrow> config \<Rightarrow> config option"
  and flatten_entries :: "(yaml \<Rightarrow> string option) \<Rightarrow> (yaml \<times> yaml) list \<Rightarrow> string \<Rightarrow> config \<Rightarrow> config option" where
  "flatten as_string (Y_Map entries) pre out = flatten_entries as_string entries pre out"
| "flatten as_string (Y_Seq items) pre out =
     do { vals \<leftarrow> those (map as_string items); Some (map_put pre (comma_join vals) out) }"
| "flatten as_string (Y_Scalar text) pre out =
     do { val \<leftarrow> as_string (Y_Scalar text); Some (map_put pre val out) }"
| "flatten as_string Y_Null pre out = Some out"
| "flatten_entries as_string [] pre out = Some out"
| "flatten_entries as_string ((k, v) # entries) pre out =
     do { key \<leftarrow> as_string k; out \<leftarrow> flatten as_string v (full_key pre key) out;
          flatten_entries as_string entries pre out }"

definition flatten_root :: "(yaml \<Rightarrow> string option) \<Rightarrow> yaml \<Rightarrow> config option" where
  "flatten_root as_string node = flatten as_string node [] []"

datatype config_error = Load_Failed | Key_Not_Found string | Number_Error

text \<open>\<open>load\<close> and \<open>parse\<close>: \<open>loaded\<close> is what the library returns for the file or the text, \<open>None\<close> when it raises.\<close>

definition config_load :: "(yaml \<Rightarrow> string option) \<Rightarrow> yaml option \<Rightarrow> config_error + config" where
  "config_load as_string loaded =
     (case loaded of
        None \<Rightarrow> Inl Load_Failed
      | Some node \<Rightarrow> (case flatten_root as_string node of None \<Rightarrow> Inl Load_Failed | Some c \<Rightarrow> Inr c))"

definition config_has :: "config \<Rightarrow> string \<Rightarrow> bool" where
  "config_has c key \<longleftrightarrow> map_of c key \<noteq> None"

definition try_raw :: "config \<Rightarrow> string \<Rightarrow> string option" where
  "try_raw c key = map_of c key"

definition config_raw :: "config \<Rightarrow> string \<Rightarrow> config_error + string" where
  "config_raw c key = (case map_of c key of None \<Rightarrow> Inl (Key_Not_Found key) | Some v \<Rightarrow> Inr v)"

text \<open>The keys one level below a prefix.\<close>

definition before_dot :: "string \<Rightarrow> string" where
  "before_dot s = takeWhile (\<lambda>c. c \<noteq> CHR ''.'') s"

definition push_new :: "string \<Rightarrow> string list \<Rightarrow> string list" where
  "push_new x result = (if result = [] \<or> last result \<noteq> x then result @ [x] else result)"

definition config_keys :: "config \<Rightarrow> string \<Rightarrow> string list" where
  "config_keys c pre =
     (let match = (if pre = [] then [] else pre @ ''.'') in
      remdups_adj (fold (\<lambda>(k, v) result.
        if pre = [] then push_new (before_dot k) result
        else if take (length match) k = match then push_new (before_dot (drop (length match) k)) result
        else result) c []))"

section \<open>Typed values\<close>

text \<open>
  \<open>std::stoul\<close> and \<open>std::stoull\<close> on an unsigned type of the given number of bits: as \<open>sto_int\<close>, but a minus sign negates
  the number modulo \<open>2 ^ bits\<close>.
\<close>

definition sto_uint :: "nat \<Rightarrow> string \<Rightarrow> nat option" where
  "sto_uint bits str =
     (let str = dropWhile is_space str;
          (neg, str) = (case str of
             c # cs \<Rightarrow> if c = CHR ''-'' then (True, cs) else if c = CHR ''+'' then (False, cs) else (False, str)
           | [] \<Rightarrow> (False, []));
          ds = takeWhile is_digit str;
          n = digits_value ds
      in if ds = [] then None
         else if 2 ^ bits \<le> n then None
         else Some (if neg then (2 ^ bits - n) mod 2 ^ bits else n))"

definition number :: "'a option \<Rightarrow> config_error + 'a" where
  "number v = (case v of None \<Rightarrow> Inl Number_Error | Some n \<Rightarrow> Inr n)"

definition get_with :: "(string \<Rightarrow> config_error + 'a) \<Rightarrow> config \<Rightarrow> string \<Rightarrow> config_error + 'a" where
  "get_with conv c key = (case config_raw c key of Inl e \<Rightarrow> Inl e | Inr v \<Rightarrow> conv v)"

definition get_default :: "(string \<Rightarrow> config_error + 'a) \<Rightarrow> config \<Rightarrow> string \<Rightarrow> 'a \<Rightarrow> config_error + 'a" where
  "get_default conv c key d = (case try_raw c key of None \<Rightarrow> Inr d | Some v \<Rightarrow> conv v)"

definition as_text :: "string \<Rightarrow> config_error + string" where
  "as_text v = Inr v"

definition as_int :: "string \<Rightarrow> config_error + int" where
  "as_int v = number (stoi v)"

text \<open>\<open>unsigned long\<close> has 32 or 64 bits.\<close>

definition as_uint16 :: "nat \<Rightarrow> string \<Rightarrow> config_error + u16" where
  "as_uint16 long_bits v = number (map_option of_nat (sto_uint long_bits v))"

definition as_uint32 :: "nat \<Rightarrow> string \<Rightarrow> config_error + u32" where
  "as_uint32 long_bits v = number (map_option of_nat (sto_uint long_bits v))"

definition as_uint64 :: "string \<Rightarrow> config_error + u64" where
  "as_uint64 v = number (map_option of_nat (sto_uint 64 v))"

definition as_bool :: "string \<Rightarrow> config_error + bool" where
  "as_bool v = Inr (v = ''true'' \<or> v = ''1'' \<or> v = ''yes'')"

text \<open>\<open>std::stod\<close> is the argument \<open>stod\<close>.\<close>

definition as_double :: "(string \<Rightarrow> real option) \<Rightarrow> string \<Rightarrow> config_error + real" where
  "as_double stod v = number (stod v)"

section \<open>The log\<close>

datatype log_level = Trace | Debug | Info | Warn | Err | Critical | Off

definition to_lower :: "char \<Rightarrow> char" where
  "to_lower c = (let n = (of_char c :: nat) in if 65 \<le> n \<and> n \<le> 90 then char_of (n + 32) else c)"

definition parse_level :: "string \<Rightarrow> log_level" where
  "parse_level level_str =
     (let lower = map to_lower level_str in
      if lower = ''trace'' then Trace
      else if lower = ''debug'' then Debug
      else if lower = ''info'' then Info
      else if lower = ''warn'' \<or> lower = ''warning'' then Warn
      else if lower = ''error'' \<or> lower = ''err'' then Err
      else if lower = ''critical'' then Critical
      else if lower = ''off'' then Off
      else Info)"

record logger =
  lg_level :: log_level
  lg_file :: "string option"
  lg_pattern :: string
  lg_flush_on :: log_level

definition default_pattern :: string where
  "default_pattern = ''[%Y-%m-%d %H:%M:%S.%f] [%t] [%^%l%$] %v''"

definition logger_init :: "string \<Rightarrow> string \<Rightarrow> string \<Rightarrow> logger" where
  "logger_init level file_path pat =
     \<lparr>lg_level = parse_level level, lg_file = (if file_path = [] then None else Some file_path),
      lg_pattern = (if pat = [] then default_pattern else pat), lg_flush_on = Warn\<rparr>"

definition logger_init_config :: "config \<Rightarrow> config_error + logger" where
  "logger_init_config c =
     (let read = (\<lambda>key d. if config_has c key then get_with as_text c key else Inr d) in
      case read ''logging.level'' ''info'' of Inl e \<Rightarrow> Inl e | Inr level \<Rightarrow>
      case read ''logging.file'' [] of Inl e \<Rightarrow> Inl e | Inr file_path \<Rightarrow>
      case read ''logging.pattern'' [] of Inl e \<Rightarrow> Inl e | Inr pat \<Rightarrow>
        Inr (logger_init level file_path pat))"

text \<open>The logger is created on first use.\<close>

definition ensure_default :: "logger option \<Rightarrow> logger" where
  "ensure_default lg = (case lg of None \<Rightarrow> logger_init ''info'' [] [] | Some l \<Rightarrow> l)"

definition set_level :: "string \<Rightarrow> logger option \<Rightarrow> logger" where
  "set_level level lg = (ensure_default lg)\<lparr>lg_level := parse_level level\<rparr>"

section \<open>Paths in the tree\<close>

text \<open>The text stored for a leaf of the tree, found by walking down its maps.\<close>

fun leaf_at :: "(yaml \<Rightarrow> string option) \<Rightarrow> yaml \<Rightarrow> string list \<Rightarrow> string option"
  and leaf_in :: "(yaml \<Rightarrow> string option) \<Rightarrow> (yaml \<times> yaml) list \<Rightarrow> string \<Rightarrow> string list \<Rightarrow> string option" where
  "leaf_at as_string (Y_Map entries) path = (case path of [] \<Rightarrow> None | k # rest \<Rightarrow> leaf_in as_string entries k rest)"
| "leaf_at as_string (Y_Seq items) path =
     (if path = [] then map_option comma_join (those (map as_string items)) else None)"
| "leaf_at as_string (Y_Scalar text) path = (if path = [] then Some text else None)"
| "leaf_at as_string Y_Null path = None"
| "leaf_in as_string [] k rest = None"
| "leaf_in as_string ((k', v) # entries) k rest =
     (if k' = Y_Scalar k then leaf_at as_string v rest else leaf_in as_string entries k rest)"

fun dotted :: "string list \<Rightarrow> string" where
  "dotted [] = []"
| "dotted [k] = k"
| "dotted (k # ks) = k @ ''.'' @ dotted ks"

definition good_key :: "string \<Rightarrow> bool" where
  "good_key k \<longleftrightarrow> k \<noteq> [] \<and> CHR ''.'' \<notin> set k"

text \<open>Maps whose keys are distinct scalars, not empty and without a dot, and sequences of items that convert to text.\<close>

fun plain :: "(yaml \<Rightarrow> string option) \<Rightarrow> yaml \<Rightarrow> bool"
  and plain_entries :: "(yaml \<Rightarrow> string option) \<Rightarrow> (yaml \<times> yaml) list \<Rightarrow> bool" where
  "plain as_string (Y_Map entries) = plain_entries as_string entries"
| "plain as_string (Y_Seq items) = (those (map as_string items) \<noteq> None)"
| "plain as_string (Y_Scalar text) = True"
| "plain as_string Y_Null = True"
| "plain_entries as_string [] = True"
| "plain_entries as_string ((k, v) # entries) =
     ((case k of Y_Scalar key \<Rightarrow> good_key key | _ \<Rightarrow> False) \<and> k \<notin> fst ` set entries
      \<and> plain as_string v \<and> plain_entries as_string entries)"

text \<open>The map of the class.\<close>

lemma map_of_put: "map_of (map_put k v m) = (map_of m)(k \<mapsto> v)"
proof (induction m)
  case (Cons kv m)
  then show ?case
    by (cases kv) (auto simp: fun_eq_iff)
qed simp

lemma fst_map_put: "fst ` set (map_put k v m) = insert k (fst ` set m)"
proof (induction m)
  case (Cons kv m)
  then show ?case
    by (cases kv) auto
qed simp

lemma sorted_map_put: "sorted_wrt (<) (map fst m) \<Longrightarrow> sorted_wrt (<) (map fst (map_put k v m))"
proof (induction m)
  case (Cons kv m)
  then show ?case
    using fst_map_put [of k v m] by (cases kv) (auto simp: less_trans)
qed simp

text \<open>Paths of good keys and their dotted texts.\<close>

lemma dotted_Cons: "dotted (k # ks) = (if ks = [] then k else k @ ''.'' @ dotted ks)"
  by (cases ks) simp_all

lemma dotted_Nil_iff: "list_all good_key p \<Longrightarrow> dotted p = [] \<longleftrightarrow> p = []"
  by (cases p) (simp_all add: dotted_Cons good_key_def)

lemma full_key_dotted: "list_all good_key p \<Longrightarrow> full_key (dotted p) k = dotted (p @ [k])"
proof (induction p)
  case (Cons a p)
  have "dotted (a # p) \<noteq> []"
    using dotted_Nil_iff [OF Cons.prems] by simp
  then show ?case
    using Cons dotted_Nil_iff [of p] by (simp add: full_key_def dotted_Cons split: if_splits)
qed (simp add: full_key_def)

lemma before_dot_dotted: "good_key k \<Longrightarrow> before_dot (dotted (k # ks)) = k"
proof -
  assume "good_key k"
  then have all: "\<forall>c\<in>set k. c \<noteq> CHR ''.''"
    by (auto simp: good_key_def)
  then have "takeWhile (\<lambda>c. c \<noteq> CHR ''.'') (k @ rest) = k @ takeWhile (\<lambda>c. c \<noteq> CHR ''.'') rest" for rest
    by simp
  then show ?thesis
    using all by (simp add: before_dot_def dotted_Cons takeWhile_eq_all_conv)
qed

lemma dotted_inject: "list_all good_key p \<Longrightarrow> list_all good_key q \<Longrightarrow> dotted p = dotted q \<longleftrightarrow> p = q"
proof (induction p arbitrary: q)
  case Nil
  then show ?case
    using dotted_Nil_iff [of q] by auto
next
  case (Cons k p)
  show ?case
  proof (cases q)
    case Nil
    then show ?thesis
      using dotted_Nil_iff [OF Cons.prems(1)] by simp
  next
    case q: (Cons k' q')
    have "k = k'" if "dotted (k # p) = dotted (k' # q')"
      using that before_dot_dotted [of k p] before_dot_dotted [of k' q'] Cons.prems q by simp
    moreover have "dotted (k # p) = dotted (k # q') \<longleftrightarrow> p = q'"
      using Cons.IH [of q'] Cons.prems q by (auto simp: dotted_Cons)
    ultimately show ?thesis
      using q by auto
  qed
qed

lemma leaf_good:
  "plain as_string t \<Longrightarrow> leaf_at as_string t p = Some v \<Longrightarrow> list_all good_key p"
  "plain_entries as_string es \<Longrightarrow> leaf_in as_string es k p = Some v \<Longrightarrow> list_all good_key (k # p)"
  by (induction as_string t p and as_string es k p rule: leaf_at_leaf_in.induct)
    (auto split: list.splits if_splits)

text \<open>
  What \<open>flatten\<close> adds below a prefix: every leaf under its dotted path, and nothing else. \<open>adds p leaf out out'\<close> says so for the
  stores before and after.
\<close>

definition adds :: "string list \<Rightarrow> (string list \<Rightarrow> string option) \<Rightarrow> config \<Rightarrow> config \<Rightarrow> bool" where
  "adds p leaf out out' \<longleftrightarrow> sorted_wrt (<) (map fst out')
     \<and> (\<forall>q v. leaf q = Some v \<longrightarrow> map_of out' (dotted (p @ q)) = Some v)
     \<and> (\<forall>x. (\<forall>q. leaf q \<noteq> None \<longrightarrow> x \<noteq> dotted (p @ q)) \<longrightarrow> map_of out' x = map_of out x)"

lemma adds_put:
  assumes "sorted_wrt (<) (map fst out)"
  shows "adds p (\<lambda>q. if q = [] then Some v else None) out (map_put (dotted p) v out)"
  using assms by (simp add: adds_def map_of_put sorted_map_put)

lemma adds_entry:
  assumes "adds (p @ [k]) leaf out out1" "adds p leaves out1 out2"
    and "\<And>q. leaves (k # q) = None" "leaves [] = None"
    and "list_all good_key (p @ [k])" "\<And>q v. leaf q = Some v \<Longrightarrow> list_all good_key q"
    and "\<And>q v. leaves q = Some v \<Longrightarrow> list_all good_key q"
  shows "adds p (\<lambda>q. case q of [] \<Rightarrow> None | k' # rest \<Rightarrow> if k' = k then leaf rest else leaves q) out out2"
proof -
  let ?l = "\<lambda>q. case q of [] \<Rightarrow> None | k' # rest \<Rightarrow> if k' = k then leaf rest else leaves q"
  have "map_of out2 (dotted (p @ q)) = Some v" if q: "?l q = Some v" for q v
  proof (cases "leaves q")
    case (Some w)
    then show ?thesis
      using q assms(2,3) by (auto simp: adds_def split: list.splits if_splits)
  next
    case None
    then obtain rest where rest: "q = k # rest" "leaf rest = Some v"
      using q by (auto split: list.splits if_splits)
    have "dotted (p @ q) \<noteq> dotted (p @ q')" if "leaves q' \<noteq> None" for q'
      using that rest assms(3,5,6,7) dotted_inject [of "p @ q" "p @ q'"] by auto
    then have "map_of out2 (dotted (p @ q)) = map_of out1 (dotted (p @ q))"
      using assms(2) by (auto simp: adds_def)
    then show ?thesis
      using assms(1) rest by (auto simp: adds_def)
  qed
  moreover have "map_of out2 x = map_of out x" if "\<forall>q. ?l q \<noteq> None \<longrightarrow> x \<noteq> dotted (p @ q)" for x
  proof -
    have "x \<noteq> dotted (p @ [k] @ q)" if "leaf q \<noteq> None" for q
      using that \<open>\<forall>q. ?l q \<noteq> None \<longrightarrow> x \<noteq> dotted (p @ q)\<close> [rule_format, of "k # q"] by simp
    moreover have "x \<noteq> dotted (p @ q)" if "leaves q \<noteq> None" for q
      using that \<open>\<forall>q. ?l q \<noteq> None \<longrightarrow> x \<noteq> dotted (p @ q)\<close> [rule_format, of q] assms(3,4)
      by (cases q; cases "hd q = k") auto
    ultimately show ?thesis
      using assms(1,2) by (simp add: adds_def)
  qed
  ultimately show ?thesis
    using assms(2) by (simp add: adds_def)
qed

lemma leaf_in_fresh: "Y_Scalar k \<notin> fst ` set es \<Longrightarrow> leaf_in as_string es k q = None"
  by (induction es) auto

lemma flatten_adds:
  "(\<And>s. as_string (Y_Scalar s) = Some s) \<Longrightarrow> plain as_string t \<Longrightarrow> list_all good_key p \<Longrightarrow> sorted_wrt (<) (map fst out) \<Longrightarrow>
      \<exists>out'. flatten as_string t (dotted p) out = Some out' \<and> adds p (leaf_at as_string t) out out'"
  "(\<And>s. as_string (Y_Scalar s) = Some s) \<Longrightarrow> plain_entries as_string es \<Longrightarrow> list_all good_key p \<Longrightarrow> sorted_wrt (<) (map fst out) \<Longrightarrow>
      \<exists>out'. flatten_entries as_string es (dotted p) out = Some out'
        \<and> adds p (\<lambda>q. case q of [] \<Rightarrow> None | k # rest \<Rightarrow> leaf_in as_string es k rest) out out'"
proof (induction as_string t and as_string es arbitrary: p out and p out rule: plain_plain_entries.induct)
  case (1 as_string entries)
  then show ?case
    by (simp add: fun_eq_iff)
next
  case (2 as_string items)
  then obtain vals where vals: "those (map as_string items) = Some vals"
    by auto
  then have "leaf_at as_string (Y_Seq items) = (\<lambda>q. if q = [] then Some (comma_join vals) else None)"
    by (auto simp: fun_eq_iff)
  then show ?case
    using adds_put [OF 2(4), of p "comma_join vals"] vals by simp
next
  case (3 as_string val)
  have "leaf_at as_string (Y_Scalar val) = (\<lambda>q. if q = [] then Some val else None)"
    by (auto simp: fun_eq_iff)
  then show ?case
    using adds_put [OF 3(4), of p val] 3(1) by simp
next
  case (4 as_string)
  then show ?case
    by (simp add: adds_def)
next
  case (5 as_string)
  then show ?case
    by (auto simp: adds_def split: list.splits)
next
  case (6 as_string k v es)
  let ?rest = "\<lambda>q. case q of [] \<Rightarrow> None | k # rest \<Rightarrow> leaf_in as_string es k rest"
  obtain key where key: "k = Y_Scalar key" "good_key key"
    using 6(4) by (auto split: yaml.splits)
  have good: "list_all good_key (p @ [key])"
    using 6(5) key by simp
  obtain out1 where out1: "flatten as_string v (dotted (p @ [key])) out = Some out1"
    "adds (p @ [key]) (leaf_at as_string v) out out1"
    using 6(1) [OF 6(3) _ good 6(6)] 6(4) by auto
  moreover obtain out2 where out2: "flatten_entries as_string es (dotted p) out1 = Some out2" "adds p ?rest out1 out2"
    using 6(2) [OF 6(3) _ 6(5), of out1] 6(4) out1(2) by (auto simp: adds_def)
  ultimately have "flatten_entries as_string ((k, v) # es) (dotted p) out = Some out2"
    using key full_key_dotted [OF 6(5)] 6(3) by simp
  moreover have "adds p (\<lambda>q. case q of [] \<Rightarrow> None | k' # rest \<Rightarrow> if k' = key then leaf_at as_string v rest else ?rest q) out out2"
  proof (rule adds_entry [OF out1(2) out2(2) _ _ good])
    show "?rest (key # q) = None" for q
      using leaf_in_fresh 6(4) key by simp
    show "list_all good_key q" if "leaf_at as_string v q = Some w" for q w
      using leaf_good(1) that 6(4) by auto
    show "list_all good_key q" if "?rest q = Some w" for q w
      using leaf_good(2) that 6(4) by (auto split: list.splits)
  qed simp
  moreover have "(\<lambda>q. case q of [] \<Rightarrow> None | k' # rest \<Rightarrow> if k' = key then leaf_at as_string v rest else ?rest q)
      = (\<lambda>q. case q of [] \<Rightarrow> None | k' # rest \<Rightarrow> leaf_in as_string ((k, v) # es) k' rest)"
    using key by (auto simp: fun_eq_iff split: list.split)
  ultimately show ?case
    by simp
qed

section \<open>What the configuration promises\<close>

lemma config_raw_iff: "config_raw c x = Inr v \<longleftrightarrow> map_of c x = Some v"
  by (simp add: config_raw_def split: option.splits)

lemma config_load_leaves:
  assumes "\<And>s. as_string (Y_Scalar s) = Some s" "plain as_string t"
  obtains c where "config_load as_string (Some t) = Inr c" "\<And>x. map_of c x = Some v \<longleftrightarrow> (\<exists>p. leaf_at as_string t p = Some v \<and> x = dotted p)"
proof -
  obtain c where c: "flatten as_string t [] [] = Some c" "adds [] (leaf_at as_string t) [] c"
    using flatten_adds(1) [OF assms, of "[]" "[]"] by auto
  have "map_of c x = Some v \<longleftrightarrow> (\<exists>p. leaf_at as_string t p = Some v \<and> x = dotted p)" for x
  proof (cases "\<exists>p. leaf_at as_string t p \<noteq> None \<and> x = dotted p")
    case True
    then obtain p w where p: "leaf_at as_string t p = Some w" "x = dotted p"
      by blast
    have w: "map_of c x = Some w"
      using c(2) p by (auto simp: adds_def)
    have unique: "p' = p" if "leaf_at as_string t p' = Some u" "x = dotted p'" for p' u
      using dotted_inject [OF leaf_good(1) [OF assms(2) that(1)] leaf_good(1) [OF assms(2) p(1)]] that(2) p(2) by simp
    show ?thesis
    proof
      assume "map_of c x = Some v"
      then show "\<exists>p. leaf_at as_string t p = Some v \<and> x = dotted p"
        using w p by (intro exI [of _ p]) simp
    next
      assume "\<exists>p. leaf_at as_string t p = Some v \<and> x = dotted p"
      then obtain p' where "leaf_at as_string t p' = Some v" "x = dotted p'" by blast
      then show "map_of c x = Some v"
        using unique [of p' v] w p(1) by simp
    qed
  next
    case False
    then have "map_of c x = map_of [] x"
      using c(2) unfolding adds_def by (metis append_Nil)
    with False show ?thesis
      by fastforce
  qed
  with c(1) show ?thesis
    using that by (simp add: config_load_def flatten_root_def)
qed

text \<open>
  C38. The dotted keys of the configuration are the paths of the file. A file whose maps have distinct keys, not empty and
  without a dot, always loads, and afterwards a string is a key with a value exactly when it is the dotted path of a leaf of
  the tree with that text (the items joined by commas, for a sequence); the read of every other key is the error that names
  it.
\<close>

theorem config_paths:
  assumes "\<And>s. as_string (Y_Scalar s) = Some s" "plain as_string t"
  shows "\<exists>c. config_load as_string (Some t) = Inr c
    \<and> (\<forall>x v. config_raw c x = Inr v \<longleftrightarrow> (\<exists>p. leaf_at as_string t p = Some v \<and> x = dotted p))
    \<and> (\<forall>x. \<not> config_has c x \<longrightarrow> config_raw c x = Inl (Key_Not_Found x))"
proof -
  obtain c where c: "config_load as_string (Some t) = Inr c"
    using config_load_leaves [OF assms] by blast
  have "map_of c x = Some v \<longleftrightarrow> (\<exists>p. leaf_at as_string t p = Some v \<and> x = dotted p)" for x v
    using config_load_leaves [OF assms, of v] c by (metis Inr_inject)
  then have "\<forall>x v. config_raw c x = Inr v \<longleftrightarrow> (\<exists>p. leaf_at as_string t p = Some v \<and> x = dotted p)"
    by (simp only: config_raw_iff) simp
  moreover have "\<forall>x. \<not> config_has c x \<longrightarrow> config_raw c x = Inl (Key_Not_Found x)"
    by (simp add: config_raw_def config_has_def)
  ultimately show ?thesis
    using c by blast
qed

text \<open>A file with the address and port of the feed; \<open>as_string\<close> of the library on the nodes of the example.\<close>

definition scalar_text :: "yaml \<Rightarrow> string option" where
  "scalar_text n = (case n of Y_Scalar s \<Rightarrow> Some s | _ \<Rightarrow> None)"

definition feed_file :: yaml where
  "feed_file = Y_Map [(Y_Scalar ''feed'', Y_Map [(Y_Scalar ''port'', Y_Scalar ''30001''),
     (Y_Scalar ''hosts'', Y_Seq [Y_Scalar ''a'', Y_Scalar ''b''])])]"

theorem config_paths_witness:
  "\<exists>c. config_load scalar_text (Some feed_file) = Inr c \<and> config_raw c ''feed.port'' = Inr ''30001''
    \<and> config_raw c ''feed.hosts'' = Inr ''a,b''"
proof -
  have "plain scalar_text feed_file"
    by (simp add: feed_file_def scalar_text_def good_key_def)
  then obtain c where c: "config_load scalar_text (Some feed_file) = Inr c"
    "config_raw c x = Inr v \<longleftrightarrow> (\<exists>p. leaf_at scalar_text feed_file p = Some v \<and> x = dotted p)" for x v
    using config_paths [of scalar_text feed_file] by (auto simp: scalar_text_def)
  have "leaf_at scalar_text feed_file [''feed'', ''port''] = Some ''30001''" "leaf_at scalar_text feed_file [''feed'', ''hosts''] = Some ''a,b''"
    by (simp_all add: feed_file_def scalar_text_def)
  moreover have "dotted [''feed'', ''port''] = ''feed.port''" "dotted [''feed'', ''hosts''] = ''feed.hosts''"
    by simp_all
  ultimately have "config_raw c ''feed.port'' = Inr ''30001''" "config_raw c ''feed.hosts'' = Inr ''a,b''"
    by (auto simp only: c(2))
  with c(1) show ?thesis
    by blast
qed

text \<open>The keys below a path.\<close>

lemma set_push_new: "set (push_new x result) = insert x (set result)"
  by (auto simp: push_new_def)

lemma set_fold_push:
  "set (fold (\<lambda>(k, v) result. if P k then push_new (f k) result else result) c result)
     = set result \<union> f ` {k \<in> fst ` set c. P k}"
proof (induction c arbitrary: result)
  case (Cons kv c)
  have "{k \<in> fst ` set (kv # c). P k} = (if P (fst kv) then {fst kv} else {}) \<union> {k \<in> fst ` set c. P k}"
    by auto
  then show ?case
    using Cons by (cases kv) (auto simp: set_push_new)
qed simp

lemma dotted_append: "p \<noteq> [] \<Longrightarrow> q \<noteq> [] \<Longrightarrow> dotted (p @ q) = dotted p @ ''.'' @ dotted q"
  by (induction p) (auto simp: dotted_Cons)

lemma dotted_prefix:
  assumes "list_all good_key p" "p \<noteq> []" "list_all good_key q" "dotted q = dotted p @ ''.'' @ rest"
  shows "\<exists>q'. q = p @ q' \<and> q' \<noteq> []"
  using assms
proof (induction p arbitrary: q)
  case (Cons a p)
  then obtain b r where q: "q = b # r"
    by (cases q) auto
  let ?tail = "if p = [] then ''.'' @ rest else ''.'' @ dotted p @ ''.'' @ rest"
  have eq: "dotted (b # r) = a @ ?tail"
    using Cons.prems(4) q by (simp add: dotted_Cons split: if_splits)
  have "\<forall>c\<in>set a. c \<noteq> CHR ''.''"
    using Cons.prems(1) by (auto simp: good_key_def)
  then have "before_dot (a @ ?tail) = a"
    by (simp add: before_dot_def)
  then have ab: "a = b"
    using before_dot_dotted [of b r] Cons.prems(3) q eq by simp
  then have r: "r \<noteq> []" "''.'' @ dotted r = ?tail"
    using eq by (auto simp: dotted_Cons split: if_splits)
  show ?case
  proof (cases "p = []")
    case True
    then show ?thesis
      using q ab r(1) by simp
  next
    case False
    then show ?thesis
      using Cons.IH [of r] Cons.prems(1,3) q ab r(2) by simp
  qed
qed simp

lemma before_dot_hd: "list_all good_key q \<Longrightarrow> q \<noteq> [] \<Longrightarrow> before_dot (dotted q) = hd q"
  using before_dot_dotted [of "hd q" "tl q"] by (cases q) simp_all

lemma image_hd_paths: "hd ` {q. q \<noteq> [] \<and> P q} = {k. \<exists>q. P (k # q)}"
proof (intro equalityI subsetI)
  fix k assume "k \<in> hd ` {q. q \<noteq> [] \<and> P q}"
  then show "k \<in> {k. \<exists>q. P (k # q)}"
    by (auto simp: neq_Nil_conv)
next
  fix k assume "k \<in> {k. \<exists>q. P (k # q)}"
  then obtain q where "P (k # q)" by blast
  then show "k \<in> hd ` {q. q \<noteq> [] \<and> P q}"
    by (intro image_eqI [of _ _ "k # q"]) simp_all
qed

lemma keys_top:
  assumes "fst ` set c = dotted ` {q. q \<noteq> [] \<and> P q}" "\<And>q. P q \<Longrightarrow> list_all good_key q"
  shows "set (config_keys c []) = {k. \<exists>q. P (k # q)}"
proof -
  have "set (config_keys c []) = before_dot ` dotted ` {q. q \<noteq> [] \<and> P q}"
    using set_fold_push [of "\<lambda>k. True" before_dot c "[]"] assms(1) by (simp add: config_keys_def)
  also have "\<dots> = hd ` {q. q \<noteq> [] \<and> P q}"
    using before_dot_hd assms(2) by (force simp: image_image intro: image_cong)
  finally show ?thesis
    by (simp only: image_hd_paths)
qed

lemma keys_matching:
  assumes "list_all good_key p" "p \<noteq> []" "\<And>q. P q \<Longrightarrow> list_all good_key q"
  shows "{x \<in> dotted ` {q. P q}. take (length (dotted p @ ''.'')) x = dotted p @ ''.''}
    = (\<lambda>q. dotted p @ ''.'' @ dotted q) ` {q. q \<noteq> [] \<and> P (p @ q)}"
proof (intro equalityI subsetI)
  fix x assume "x \<in> {x \<in> dotted ` {q. P q}. take (length (dotted p @ ''.'')) x = dotted p @ ''.''}"
  then obtain q where q: "P q" "x = dotted q" "take (length (dotted p @ ''.'')) (dotted q) = dotted p @ ''.''"
    by auto
  then have "dotted q = dotted p @ ''.'' @ drop (length (dotted p @ ''.'')) (dotted q)"
    by (metis append_assoc append_take_drop_id)
  from dotted_prefix [OF assms(1,2) assms(3) [OF q(1)] this] obtain q' where "q = p @ q'" "q' \<noteq> []"
    by blast
  then show "x \<in> (\<lambda>q. dotted p @ ''.'' @ dotted q) ` {q. q \<noteq> [] \<and> P (p @ q)}"
    using q(1,2) dotted_append [OF assms(2)] by simp
next
  fix x assume "x \<in> (\<lambda>q. dotted p @ ''.'' @ dotted q) ` {q. q \<noteq> [] \<and> P (p @ q)}"
  then obtain q where q: "q \<noteq> []" "P (p @ q)" "x = dotted p @ ''.'' @ dotted q" by blast
  have "x = dotted (p @ q)"
    using q(3) dotted_append [OF assms(2) q(1)] by simp
  then have "x \<in> dotted ` {q. P q}"
    using q(2) by blast
  then show "x \<in> {x \<in> dotted ` {q. P q}. take (length (dotted p @ ''.'')) x = dotted p @ ''.''}"
    using q(3) by simp
qed

lemma keys_below:
  assumes "fst ` set c = dotted ` {q. P q}" "\<And>q. P q \<Longrightarrow> list_all good_key q" "list_all good_key p" "p \<noteq> []"
  shows "set (config_keys c (dotted p)) = {k. \<exists>q. P (p @ k # q)}"
proof -
  let ?m = "dotted p @ ''.''"
  have "dotted p \<noteq> []"
    using dotted_Nil_iff assms(3,4) by simp
  then have "set (config_keys c (dotted p))
      = (\<lambda>k. before_dot (drop (length ?m) k)) ` {k \<in> dotted ` {q. P q}. take (length ?m) k = ?m}"
    using set_fold_push [of "\<lambda>k. take (length ?m) k = ?m" "\<lambda>k. before_dot (drop (length ?m) k)" c "[]"]
    unfolding assms(1) config_keys_def Let_def by (simp cong: if_cong)
  also have "\<dots> = (\<lambda>q. before_dot (dotted q)) ` {q. q \<noteq> [] \<and> P (p @ q)}"
    by (subst keys_matching [OF assms(3,4,2)]) (simp_all add: image_image)
  also have "\<dots> = hd ` {q. q \<noteq> [] \<and> P (p @ q)}"
    using before_dot_hd assms(2) by (intro image_cong refl) fastforce
  finally show ?thesis
    by (simp only: image_hd_paths)
qed

text \<open>
  \<open>keys\<close> lists the children. After a file of the plain form has been loaded, \<open>keys\<close> of the dotted path of any map of it
  returns the names of exactly those entries of the map that lead to a leaf, and \<open>keys\<close> of the empty prefix those of the
  whole file.
\<close>

theorem config_keys_children:
  assumes "\<And>s. as_string (Y_Scalar s) = Some s" "plain as_string (Y_Map es)" "list_all good_key p"
    and "config_load as_string (Some (Y_Map es)) = Inr c"
  shows "set (config_keys c (dotted p)) = {k. \<exists>q. leaf_at as_string (Y_Map es) (p @ k # q) \<noteq> None}"
proof -
  let ?P = "\<lambda>q. leaf_at as_string (Y_Map es) q \<noteq> None"
  have "map_of c x = Some v \<longleftrightarrow> (\<exists>q. leaf_at as_string (Y_Map es) q = Some v \<and> x = dotted q)" for x v
    using config_load_leaves [OF assms(1,2), of v] assms(4) by (metis Inr_inject)
  then have "x \<in> dom (map_of c) \<longleftrightarrow> x \<in> dotted ` {q. ?P q}" for x
    by (simp only: domIff not_None_eq image_iff Bex_def mem_Collect_eq) blast
  then have keys: "fst ` set c = dotted ` {q. ?P q}"
    unfolding dom_map_of_conv_image_fst by (rule set_eqI)
  have good: "list_all good_key q" if "?P q" for q
    using leaf_good(1) [OF assms(2)] that by blast
  have "{q. ?P q} = {q. q \<noteq> [] \<and> ?P q}"
    by (auto split: list.splits)
  then show ?thesis
    using keys_top [of c ?P, OF _ good] keys_below [of c ?P, OF keys good assms(3)] keys by (cases "p = []") simp_all
qed

theorem config_keys_children_witness:
  "set (config_keys [(''feed.port'', ''1'')] ''feed'') = {''port''}"
proof -
  let ?t = "[(Y_Scalar ''feed'', Y_Map [(Y_Scalar ''port'', Y_Scalar ''1'')])]"
  have "set (config_keys [(''feed.port'', ''1'')] (dotted [''feed'']))
      = {k. \<exists>q. leaf_at scalar_text (Y_Map ?t) ([''feed''] @ k # q) \<noteq> None}"
    by (rule config_keys_children) (simp_all add: scalar_text_def good_key_def config_load_def flatten_root_def full_key_def)
  then show ?thesis
    by auto
qed

text \<open>What the unsigned conversions make of a decimal text.\<close>

lemma sto_uint_show:
  assumes "n < 2 ^ bits"
  shows "sto_uint bits (show_nat n) = Some n" "sto_uint bits (CHR ''-'' # show_nat n) = Some ((2 ^ bits - n) mod 2 ^ bits)"
proof -
  obtain c cs where n: "show_nat n = c # cs" "is_digit c" "list_all is_digit cs"
    by (rule show_nat_Cons)
  have ds: "takeWhile is_digit (c # cs) = c # cs"
    using takeWhile_digits [of "c # cs" "[]"] n(2,3) by simp
  have v: "digits_value (c # cs) = n"
    using digits_value_show_nat [of n] n(1) by simp
  show "sto_uint bits (show_nat n) = Some n"
    using assms digit_not_special [OF n(2)] by (simp add: sto_uint_def n(1) Let_def ds v del: takeWhile.simps)
  have "\<not> is_space (CHR ''-'')"
    by (simp add: is_space_def)
  then show "sto_uint bits (CHR ''-'' # show_nat n) = Some ((2 ^ bits - n) mod 2 ^ bits)"
    using assms by (simp add: sto_uint_def n(1) Let_def ds v del: takeWhile.simps)
qed

lemma sto_uint_too_big:
  assumes "2 ^ bits \<le> n"
  shows "sto_uint bits (show_nat n) = None"
proof -
  obtain c cs where n: "show_nat n = c # cs" "is_digit c" "list_all is_digit cs"
    by (rule show_nat_Cons)
  have ds: "takeWhile is_digit (c # cs) = c # cs"
    using takeWhile_digits [of "c # cs" "[]"] n(2,3) by simp
  have v: "digits_value (c # cs) = n"
    using digits_value_show_nat [of n] n(1) by simp
  show ?thesis
    using assms digit_not_special [OF n(2)] by (simp add: sto_uint_def n(1) Let_def ds v del: takeWhile.simps)
qed

text \<open>
  Unsigned values of the configuration are not checked against their type. For a key whose text is the decimal
  number \<open>n\<close>, \<open>get<uint16_t>\<close> and \<open>get<uint32_t>\<close> return \<open>n\<close> modulo \<open>2 ^ 16\<close> and \<open>2 ^ 32\<close> whenever \<open>n\<close> fits
  \<open>unsigned long\<close>, and an error only above that; a 64-bit value is returned exactly or refused.
\<close>

theorem config_unsigned_wraps:
  assumes "config_raw c key = Inr (show_nat n)"
  shows "get_with (as_uint16 long_bits) c key = (if n < 2 ^ long_bits then Inr (of_nat n) else Inl Number_Error)
    \<and> get_with (as_uint32 long_bits) c key = (if n < 2 ^ long_bits then Inr (of_nat n) else Inl Number_Error)
    \<and> (n < 2 ^ 64 \<longrightarrow> (\<exists>w. get_with as_uint64 c key = Inr w \<and> unat w = n))
    \<and> (2 ^ 64 \<le> n \<longrightarrow> get_with as_uint64 c key = Inl Number_Error)"
proof -
  have "n < 2 ^ 64 \<Longrightarrow> unat (of_nat n :: u64) = n"
    by (simp add: unat_of_nat)
  then show ?thesis
    using assms sto_uint_show(1) [of n long_bits] sto_uint_show(1) [of n 64] sto_uint_too_big [of long_bits n] sto_uint_too_big [of 64 n]
    by (auto simp: get_with_def as_uint16_def as_uint32_def as_uint64_def number_def not_less)
qed

theorem config_unsigned_wraps_witness: "get_with (as_uint16 64) [(''feed.port'', show_nat 70000)] ''feed.port'' = Inr 4464"
  using config_unsigned_wraps [of "[(''feed.port'', show_nat 70000)]" "''feed.port''" 70000 64] by (simp add: config_raw_def)

text \<open>Levels are read without regard to case, and an unknown level is the default.\<close>

lemma to_lower_idem [simp]: "to_lower (to_lower c) = to_lower c"
  by (simp add: to_lower_def Let_def)

lemma parse_level_case: "map to_lower a = map to_lower b \<Longrightarrow> parse_level a = parse_level b"
  by (simp add: parse_level_def)

lemma logger_init_missing:
  assumes "\<not> config_has c ''logging.level''" "\<not> config_has c ''logging.file''" "\<not> config_has c ''logging.pattern''"
  shows "logger_init_config c = Inr (ensure_default None)"
  using assms by (simp add: logger_init_config_def ensure_default_def)

lemma logger_init_no_error: "\<exists>lg. logger_init_config c = Inr lg"
  by (auto simp: logger_init_config_def get_with_def config_raw_def config_has_def as_text_def Let_def split: option.splits sum.splits)

end
