(* ===== verification/Scenario.thy ===== *)
theory Scenario
  imports Market_Simulator "HOL-Library.Monad_Syntax"
begin

text \<open>
  The scenario files and the two programs (\<open>simulator/scenario_loader\<close>, \<open>simulator/main\<close>, \<open>handler/main\<close>): what the
  simulator and the feed handler make of their command line and of one scenario file.

  The JSON library is not part of the sources: a model starts from the value it parses, and its typed conversions are the
  fields of \<open>json_lib\<close>, \<open>None\<close> when they raise. The theorems use of them that a string gives its characters and a number
  that fits the type its value.
\<close>

datatype json = J_Null | J_Bool bool | J_Number real | J_String string | J_Array "json list" | J_Object "(string \<times> json) list"

record json_lib =
  js_string :: "json \<Rightarrow> string option"
  js_u16 :: "json \<Rightarrow> u16 option"
  js_u32 :: "json \<Rightarrow> u32 option"
  js_u64 :: "json \<Rightarrow> u64 option"
  js_bool :: "json \<Rightarrow> bool option"

definition member :: "json \<Rightarrow> string \<Rightarrow> json option" where
  "member j key = (case j of J_Object entries \<Rightarrow> map_of entries key | _ \<Rightarrow> None)"

section \<open>The scenario of the simulator\<close>

definition MULTICAST_GROUP :: string where "MULTICAST_GROUP = ''239.255.0.1''"
definition MULTICAST_PORT :: u16 where "MULTICAST_PORT = 30001"
definition DEFAULT_MSG_RATE :: u32 where "DEFAULT_MSG_RATE = 10000"
definition DEFAULT_DURATION :: u64 where "DEFAULT_DURATION = 30"
definition DEFAULT_SEED :: u32 where "DEFAULT_SEED = 42"

record 'd sim_config =
  cfg_symbols :: "'d symbol_config list"
  cfg_msg_rate :: u32
  cfg_duration_sec :: u64
  cfg_seed :: u32
  cfg_multicast_ip :: string
  cfg_port :: u16
  cfg_initial_prices :: "string \<rightharpoonup> price"

definition sim_config_new :: "'d sim_config" where
  "sim_config_new = \<lparr>cfg_symbols = [], cfg_msg_rate = DEFAULT_MSG_RATE, cfg_duration_sec = DEFAULT_DURATION,
     cfg_seed = DEFAULT_SEED, cfg_multicast_ip = MULTICAST_GROUP, cfg_port = MULTICAST_PORT, cfg_initial_prices = Map.empty\<rparr>"

datatype scenario_error = Cannot_Open | Invalid_Json | Missing_Symbols | Empty_Symbols | Missing_Prices | Json_Type_Error
  | No_Price string

text \<open>An optional field: absent keeps the default, present must convert.\<close>

definition field :: "json \<Rightarrow> string \<Rightarrow> (json \<Rightarrow> 'a option) \<Rightarrow> 'a \<Rightarrow> scenario_error + 'a" where
  "field j key conv d =
     (case member j key of
        None \<Rightarrow> Inr d
      | Some v \<Rightarrow> (case conv v of None \<Rightarrow> Inl Json_Type_Error | Some x \<Rightarrow> Inr x))"

fun read_prices :: "json_lib \<Rightarrow> (string \<times> json) list \<Rightarrow> (string \<rightharpoonup> price) \<Rightarrow> (string \<rightharpoonup> price) option" where
  "read_prices lib [] prices = Some prices"
| "read_prices lib ((symbol, v) # items) prices =
     do { price \<leftarrow> js_u32 lib v; read_prices lib items (prices(symbol \<mapsto> price)) }"

definition name_bytes :: "string \<Rightarrow> bytes" where
  "name_bytes name = map (\<lambda>c. of_nat (of_char c)) name"

fun read_symbols :: "'d fp \<Rightarrow> json_lib \<Rightarrow> (string \<rightharpoonup> price) \<Rightarrow> json list \<Rightarrow> scenario_error + 'd symbol_config list" where
  "read_symbols fp lib prices [] = Inr []"
| "read_symbols fp lib prices (v # vs) =
     (case js_string lib v of
        None \<Rightarrow> Inl Json_Type_Error
      | Some name \<Rightarrow>
          (case prices name of
             None \<Rightarrow> Inl (No_Price name)
           | Some price \<Rightarrow>
               (case read_symbols fp lib prices vs of
                  Inl e \<Rightarrow> Inl e
                | Inr rest \<Rightarrow>
                    Inr (\<lparr>sc_name = name_bytes name, sc_start_price = fp_of_nat fp (unat price),
                          sc_volatility = fp_ratio fp 1 1000, sc_tick_size = fp_of_nat fp 100\<rparr> # rest))))"

definition and_then :: "'e + 'a \<Rightarrow> ('a \<Rightarrow> 'e + 'b) \<Rightarrow> 'e + 'b" where
  "and_then r f = (case r of Inl e \<Rightarrow> Inl e | Inr x \<Rightarrow> f x)"

text \<open>\<open>parsed\<close> is the value the library reads from the text, \<open>None\<close> when the text is not JSON.\<close>

definition scenario_parse :: "'d fp \<Rightarrow> json_lib \<Rightarrow> json option \<Rightarrow> scenario_error + 'd sim_config" where
  "scenario_parse fp lib parsed =
     (case parsed of
        None \<Rightarrow> Inl Invalid_Json
      | Some j \<Rightarrow>
          (case member j ''symbols'' of
             Some (J_Array names) \<Rightarrow>
               if names = [] then Inl Empty_Symbols
               else (case member j ''initial_prices'' of
                  Some (J_Object items) \<Rightarrow>
                    and_then (field j ''multicast_address'' (js_string lib) MULTICAST_GROUP) (\<lambda>ip.
                    and_then (field j ''port'' (js_u16 lib) MULTICAST_PORT) (\<lambda>port.
                    and_then (field j ''messages_per_second'' (js_u32 lib) DEFAULT_MSG_RATE) (\<lambda>rate.
                    and_then (field j ''duration_seconds'' (js_u64 lib) DEFAULT_DURATION) (\<lambda>dur.
                    and_then (field j ''seed'' (js_u32 lib) DEFAULT_SEED) (\<lambda>seed.
                      (case read_prices lib items Map.empty of
                         None \<Rightarrow> Inl Json_Type_Error
                       | Some prices \<Rightarrow>
                           and_then (read_symbols fp lib prices names) (\<lambda>symbols.
                             Inr \<lparr>cfg_symbols = symbols, cfg_msg_rate = rate, cfg_duration_sec = dur, cfg_seed = seed,
                                  cfg_multicast_ip = ip, cfg_port = port, cfg_initial_prices = prices\<rparr>)))))))
                | _ \<Rightarrow> Inl Missing_Prices)
           | _ \<Rightarrow> Inl Missing_Symbols))"

text \<open>\<open>file\<close> is the content of the file at a path, when it can be opened.\<close>

definition scenario_load :: "'d fp \<Rightarrow> json_lib \<Rightarrow> json option option \<Rightarrow> scenario_error + 'd sim_config" where
  "scenario_load fp lib file = (case file of None \<Rightarrow> Inl Cannot_Open | Some parsed \<Rightarrow> scenario_parse fp lib parsed)"

section \<open>The programs\<close>

text \<open>The arguments after the program's name: a path to load (empty for none), or the exit code.\<close>

datatype 'a start = Run 'a | Exit int

fun sim_args :: "string list \<Rightarrow> string \<Rightarrow> string start" where
  "sim_args [] config_path = Run config_path"
| "sim_args (arg # rest) config_path =
     (if arg = ''--config'' \<and> rest \<noteq> [] then sim_args (tl rest) (hd rest)
      else if arg = ''--help'' \<or> arg = ''-h'' then Exit 0
      else Exit 1)"

definition default_scenario :: "'d fp \<Rightarrow> 'd sim_config" where
  "default_scenario fp = sim_config_new\<lparr>cfg_symbols :=
     [\<lparr>sc_name = name_bytes ''AAPL'', sc_start_price = fp_of_nat fp 185, sc_volatility = fp_ratio fp 2 100, sc_tick_size = fp_ratio fp 1 100\<rparr>,
      \<lparr>sc_name = name_bytes ''MSFT'', sc_start_price = fp_of_nat fp 420, sc_volatility = fp_ratio fp 15 1000, sc_tick_size = fp_ratio fp 1 100\<rparr>]\<rparr>"

definition sim_main :: "'d fp \<Rightarrow> json_lib \<Rightarrow> (string \<Rightarrow> json option option) \<Rightarrow> string list \<Rightarrow> 'd sim_config start" where
  "sim_main fp lib files args =
     (case sim_args args [] of
        Exit n \<Rightarrow> Exit n
      | Run config_path \<Rightarrow>
          if config_path \<noteq> []
          then (case scenario_load fp lib (files config_path) of Inl e \<Rightarrow> Exit 1 | Inr cfg \<Rightarrow> Run cfg)
          else Run (default_scenario fp))"

record pipeline_config =
  pc_multicast_group :: string
  pc_port :: u16
  pc_enable_display :: bool
  pc_enable_csv :: bool
  pc_csv_path :: string

definition pipeline_config_new :: pipeline_config where
  "pipeline_config_new = \<lparr>pc_multicast_group = MULTICAST_GROUP, pc_port = MULTICAST_PORT, pc_enable_display = True,
     pc_enable_csv = False, pc_csv_path = ''stats.csv''\<rparr>"

text \<open>An exception of the JSON library is not caught: \<open>Inl\<close> ends the program.\<close>

definition load_config :: "json_lib \<Rightarrow> json option option \<Rightarrow> scenario_error + pipeline_config" where
  "load_config lib file =
     (case file of
        None \<Rightarrow> Inr pipeline_config_new
      | Some None \<Rightarrow> Inl Invalid_Json
      | Some (Some j) \<Rightarrow>
          and_then (field j ''multicast_group'' (js_string lib) (pc_multicast_group pipeline_config_new)) (\<lambda>group.
          and_then (field j ''port'' (js_u16 lib) (pc_port pipeline_config_new)) (\<lambda>port.
          and_then (field j ''display'' (js_bool lib) (pc_enable_display pipeline_config_new)) (\<lambda>display.
          and_then (field j ''csv_logging'' (js_bool lib) (pc_enable_csv pipeline_config_new)) (\<lambda>csv.
          and_then (field j ''csv_path'' (js_string lib) (pc_csv_path pipeline_config_new)) (\<lambda>path.
            Inr \<lparr>pc_multicast_group = group, pc_port = port, pc_enable_display = display, pc_enable_csv = csv,
                 pc_csv_path = path\<rparr>))))))"

fun handler_args :: "string list \<Rightarrow> string \<Rightarrow> bool \<Rightarrow> (string \<times> bool) start" where
  "handler_args [] config_path display = Run (config_path, display)"
| "handler_args (arg # rest) config_path display =
     (if arg = ''--config'' \<and> rest \<noteq> [] then handler_args (tl rest) (hd rest) display
      else if arg = ''--display'' then handler_args rest config_path True
      else if arg = ''--help'' \<or> arg = ''-h'' then Exit 0
      else Exit 1)"

definition handler_main :: "json_lib \<Rightarrow> (string \<Rightarrow> json option option) \<Rightarrow> string list \<Rightarrow> scenario_error + pipeline_config start" where
  "handler_main lib files args =
     (case handler_args args [] (pc_enable_display pipeline_config_new) of
        Exit n \<Rightarrow> Inr (Exit n)
      | Run (config_path, display) \<Rightarrow>
          and_then (if config_path \<noteq> [] then load_config lib (files config_path)
                    else Inr (pipeline_config_new\<lparr>pc_enable_display := display\<rparr>)) (\<lambda>cfg.
            Inr (Run (if ''--display'' \<in> set args then cfg\<lparr>pc_enable_display := True\<rparr> else cfg))))"

section \<open>What a scenario means\<close>

lemma and_then_Inr: "and_then r f = Inr y \<longleftrightarrow> (\<exists>x. r = Inr x \<and> f x = Inr y)"
  by (cases r) (simp_all add: and_then_def)

lemma read_symbols_exact:
  "read_symbols fp lib prices vs = Inr symbols \<Longrightarrow>
     list_all2 (\<lambda>v s. \<exists>name price. js_string lib v = Some name \<and> prices name = Some price
       \<and> s = \<lparr>sc_name = name_bytes name, sc_start_price = fp_of_nat fp (unat price), sc_volatility = fp_ratio fp 1 1000,
              sc_tick_size = fp_of_nat fp 100\<rparr>) vs symbols"
  by (induction vs arbitrary: symbols) (auto split: option.splits sum.splits)

lemma read_prices_exact:
  "read_prices lib items prices = Some result \<Longrightarrow>
     (\<exists>ps. those (map (\<lambda>(k, v). js_u32 lib v) items) = Some ps \<and> result = prices ++ map_of (rev (zip (map fst items) ps)))"
proof (induction items arbitrary: prices)
  case (Cons kv items)
  then obtain p where p: "js_u32 lib (snd kv) = Some p" "read_prices lib items (prices(fst kv \<mapsto> p)) = Some result"
    by (cases kv) (auto split: option.splits bind_splits)
  from Cons.IH [OF p(2)] obtain ps where ps: "those (map (\<lambda>(k, v). js_u32 lib v) items) = Some ps"
    "result = prices(fst kv \<mapsto> p) ++ map_of (rev (zip (map fst items) ps))"
    by blast
  then show ?case
    using p by (intro exI [of _ "p # ps"]) (auto simp: case_prod_unfold map_add_def fun_eq_iff split: option.splits)
qed simp

lemma scenario_parse_fields:
  assumes "scenario_parse fp lib (Some j) = Inr cfg"
  obtains names items where "member j ''symbols'' = Some (J_Array names)" "names \<noteq> []"
    "member j ''initial_prices'' = Some (J_Object items)" "read_prices lib items Map.empty = Some (cfg_initial_prices cfg)"
    "read_symbols fp lib (cfg_initial_prices cfg) names = Inr (cfg_symbols cfg)"
    "field j ''multicast_address'' (js_string lib) MULTICAST_GROUP = Inr (cfg_multicast_ip cfg)"
    "field j ''port'' (js_u16 lib) MULTICAST_PORT = Inr (cfg_port cfg)"
    "field j ''messages_per_second'' (js_u32 lib) DEFAULT_MSG_RATE = Inr (cfg_msg_rate cfg)"
    "field j ''duration_seconds'' (js_u64 lib) DEFAULT_DURATION = Inr (cfg_duration_sec cfg)"
    "field j ''seed'' (js_u32 lib) DEFAULT_SEED = Inr (cfg_seed cfg)"
proof -
  obtain names where names: "member j ''symbols'' = Some (J_Array names)" "names \<noteq> []"
    using assms by (auto simp: scenario_parse_def split: option.splits json.splits if_splits)
  moreover obtain items where "member j ''initial_prices'' = Some (J_Object items)"
    using assms names by (auto simp: scenario_parse_def split: option.splits json.splits)
  ultimately show ?thesis
    using assms that [of names items] by (auto simp: scenario_parse_def and_then_Inr split: option.splits)
qed

lemma field_value: "field j key conv d = Inr x \<Longrightarrow> x = (case member j key of None \<Rightarrow> d | Some v \<Rightarrow> the (conv v))"
  by (auto simp: field_def split: option.splits)

text \<open>
  What a scenario is read as. When \<open>parse\<close> accepts a file, its list of symbols is not empty and the simulator
  gets one entry per symbol in the order of the file, with the name and the price the file gives for it; every optional
  field that is present has its converted value and every absent one the default.
\<close>

theorem scenario_read_exact:
  assumes "scenario_parse fp lib (Some j) = Inr cfg"
  shows "\<exists>names. member j ''symbols'' = Some (J_Array names) \<and> names \<noteq> []
    \<and> list_all2 (\<lambda>v s. \<exists>name price. js_string lib v = Some name \<and> cfg_initial_prices cfg name = Some price
        \<and> s = \<lparr>sc_name = name_bytes name, sc_start_price = fp_of_nat fp (unat price), sc_volatility = fp_ratio fp 1 1000,
              sc_tick_size = fp_of_nat fp 100\<rparr>) names (cfg_symbols cfg)
    \<and> cfg_multicast_ip cfg = (case member j ''multicast_address'' of None \<Rightarrow> MULTICAST_GROUP | Some v \<Rightarrow> the (js_string lib v))
    \<and> cfg_port cfg = (case member j ''port'' of None \<Rightarrow> MULTICAST_PORT | Some v \<Rightarrow> the (js_u16 lib v))
    \<and> cfg_msg_rate cfg = (case member j ''messages_per_second'' of None \<Rightarrow> DEFAULT_MSG_RATE | Some v \<Rightarrow> the (js_u32 lib v))
    \<and> cfg_duration_sec cfg = (case member j ''duration_seconds'' of None \<Rightarrow> DEFAULT_DURATION | Some v \<Rightarrow> the (js_u64 lib v))
    \<and> cfg_seed cfg = (case member j ''seed'' of None \<Rightarrow> DEFAULT_SEED | Some v \<Rightarrow> the (js_u32 lib v))"
  using assms
proof (rule scenario_parse_fields)
  fix names items
  assume symbols: "member j ''symbols'' = Some (J_Array names)" "names \<noteq> []"
      "read_symbols fp lib (cfg_initial_prices cfg) names = Inr (cfg_symbols cfg)"
    and fields: "field j ''multicast_address'' (js_string lib) MULTICAST_GROUP = Inr (cfg_multicast_ip cfg)"
      "field j ''port'' (js_u16 lib) MULTICAST_PORT = Inr (cfg_port cfg)"
      "field j ''messages_per_second'' (js_u32 lib) DEFAULT_MSG_RATE = Inr (cfg_msg_rate cfg)"
      "field j ''duration_seconds'' (js_u64 lib) DEFAULT_DURATION = Inr (cfg_duration_sec cfg)"
      "field j ''seed'' (js_u32 lib) DEFAULT_SEED = Inr (cfg_seed cfg)"
  show ?thesis
    by (intro exI [of _ names] conjI symbols(1,2) read_symbols_exact [OF symbols(3)] fields [THEN field_value])
qed

text \<open>The conversions of the library on the values of an example.\<close>

definition plain_lib :: json_lib where
  "plain_lib = \<lparr>js_string = (\<lambda>j. case j of J_String s \<Rightarrow> Some s | _ \<Rightarrow> None),
     js_u16 = (\<lambda>j. case j of J_Number x \<Rightarrow> Some (of_int (floor x)) | _ \<Rightarrow> None),
     js_u32 = (\<lambda>j. case j of J_Number x \<Rightarrow> Some (of_int (floor x)) | _ \<Rightarrow> None),
     js_u64 = (\<lambda>j. case j of J_Number x \<Rightarrow> Some (of_int (floor x)) | _ \<Rightarrow> None),
     js_bool = (\<lambda>j. case j of J_Bool b \<Rightarrow> Some b | _ \<Rightarrow> None)\<rparr>"

text \<open>The first lines of \<open>config/scenario.json\<close>.\<close>

definition scenario_json :: json where
  "scenario_json = J_Object [(''multicast_address'', J_String ''239.1.1.1''), (''port'', J_Number 12345),
     (''symbols'', J_Array [J_String ''AAPL'']), (''initial_prices'', J_Object [(''AAPL'', J_Number 1850000)])]"

definition scenario_cfg :: "real sim_config" where
  "scenario_cfg = \<lparr>cfg_symbols = [\<lparr>sc_name = name_bytes ''AAPL'', sc_start_price = 1850000, sc_volatility = 1 / 1000, sc_tick_size = 100\<rparr>],
     cfg_msg_rate = DEFAULT_MSG_RATE, cfg_duration_sec = DEFAULT_DURATION, cfg_seed = DEFAULT_SEED, cfg_multicast_ip = ''239.1.1.1'',
     cfg_port = 12345, cfg_initial_prices = [''AAPL'' \<mapsto> 1850000]\<rparr>"

lemma scenario_json_parses: "scenario_parse exact_fp plain_lib (Some scenario_json) = Inr scenario_cfg"
  by (simp add: scenario_parse_def scenario_json_def member_def field_def and_then_def plain_lib_def scenario_cfg_def)

theorem scenario_read_exact_witness: "cfg_port scenario_cfg = 12345 \<and> cfg_seed scenario_cfg = DEFAULT_SEED"
  using scenario_read_exact [OF scenario_json_parses] by (auto simp: scenario_json_def member_def plain_lib_def)



text \<open>
  The handler does not listen where the simulator sends. From one scenario file that names a multicast address, and
  no \<open>multicast_group\<close>, the simulator takes the address and the handler keeps the default group, while both take the
  same port.
\<close>

theorem handler_ignores_scenario_address:
  assumes "scenario_parse fp lib (Some j) = Inr cfg" "load_config lib (Some (Some j)) = Inr pc"
    and "member j ''multicast_address'' = Some (J_String address)" "member j ''multicast_group'' = None"
    and "js_string lib (J_String address) = Some address"
  shows "cfg_multicast_ip cfg = address \<and> pc_multicast_group pc = MULTICAST_GROUP \<and> pc_port pc = cfg_port cfg"
proof -
  have "field j ''multicast_group'' (js_string lib) MULTICAST_GROUP = Inr (pc_multicast_group pc)"
    "field j ''port'' (js_u16 lib) MULTICAST_PORT = Inr (pc_port pc)"
    using assms(2) by (auto simp: load_config_def and_then_Inr pipeline_config_new_def)
  then show ?thesis
    using scenario_read_exact [OF assms(1)] assms(3-5) by (auto dest!: field_value)
qed

theorem handler_ignores_scenario_address_witness:
  "cfg_multicast_ip scenario_cfg = ''239.1.1.1'' \<and> MULTICAST_GROUP \<noteq> ''239.1.1.1''"
  using handler_ignores_scenario_address [OF scenario_json_parses, of "pipeline_config_new\<lparr>pc_port := 12345\<rparr>" "''239.1.1.1''"]
  by (simp add: load_config_def scenario_json_def member_def field_def and_then_def plain_lib_def pipeline_config_new_def MULTICAST_GROUP_def)

text \<open>Files in the form of \<open>config/default_scenario.json\<close>, whose symbols carry their own prices, are refused.\<close>

lemma scenario_without_prices_refused:
  assumes "member j ''initial_prices'' = None"
  shows "\<exists>e\<in>{Missing_Symbols, Empty_Symbols, Missing_Prices}. scenario_parse fp lib (Some j) = Inl e"
  using assms by (auto simp: scenario_parse_def split: option.splits json.splits)

text \<open>A symbol without a price stops the loading at that symbol.\<close>

lemma scenario_missing_price:
  assumes "js_string lib v = Some name" "prices name = None" "read_symbols fp lib prices vs = Inr before"
  shows "read_symbols fp lib prices (vs @ v # rest) = Inl (No_Price name)"
  using assms by (induction vs arbitrary: before) (auto split: option.splits sum.splits)

text \<open>
  The command lines: the last \<open>--config\<close> with a value counts, an unknown argument or a \<open>--config\<close> without a value ends the
  program with code 1.
\<close>

lemma sim_args_config: "sim_args [''--config'', a, ''--config'', b] p = Run b" "sim_args [''--config''] p = Exit 1"
  by simp_all

text \<open>The display is on by default, so that \<open>--display\<close> changes nothing without a file.\<close>

lemma display_flag_without_config:
  "handler_main lib files [''--display''] = handler_main lib files []"
  by (simp add: handler_main_def and_then_def pipeline_config_new_def)

end
