(* ===== verification/Rotation.thy ===== *)
theory Rotation
  imports Common_Types Decimal
begin

text \<open>
  The rotation of recordings by day and their clean-up (\<open>data/recorder/rotation\<close>).

  The conversions between times and dates depend on the time zone of the machine: \<open>localtime\<close> and \<open>mktime\<close> are
  arguments. The base directory is the list of its entries in the order they are read, a directory with the names of what
  it holds and whether \<open>std::remove\<close> can delete it.
\<close>

record tm =
  tm_year :: int
  tm_mon :: int
  tm_mday :: int

text \<open>\<open>std::setw(2)\<close> with the fill \<open>0\<close>.\<close>

definition pad2 :: "int \<Rightarrow> string" where
  "pad2 n = replicate (2 - length (show_int n)) (CHR ''0'') @ show_int n"

definition date_to_string :: "tm \<Rightarrow> string" where
  "date_to_string t = show_int (tm_year t + 1900) @ ''-'' @ pad2 (tm_mon t + 1) @ ''-'' @ pad2 (tm_mday t)"

record rotation =
  ro_base_dir :: string
  ro_retention_days :: u32
  ro_last_day :: int

definition rotation_new :: "string \<Rightarrow> u32 \<Rightarrow> rotation" where
  "rotation_new base_dir days = \<lparr>ro_base_dir = base_dir, ro_retention_days = days, ro_last_day = - 1\<rparr>"

text \<open>The directories \<open>ensure_directory\<close> asks for; the results of the calls are not looked at.\<close>

definition ensure_directory :: "rotation \<Rightarrow> string \<Rightarrow> string list" where
  "ensure_directory r path = [ro_base_dir r, path]"

definition current_path :: "(int \<Rightarrow> tm) \<Rightarrow> int \<Rightarrow> string \<Rightarrow> rotation \<Rightarrow> string \<times> string list \<times> rotation" where
  "current_path localtime now symbol r =
     (let t = localtime now; r = r\<lparr>ro_last_day := tm_mday t\<rparr>; dir = ro_base_dir r @ ''/'' @ date_to_string t
      in (dir @ ''/'' @ symbol @ ''.bin'', ensure_directory r dir, r))"

definition rotate_path :: "(int \<Rightarrow> tm) \<Rightarrow> int \<Rightarrow> string \<Rightarrow> rotation \<Rightarrow> string \<times> string list \<times> rotation" where
  "rotate_path localtime now symbol r = current_path localtime now symbol (r\<lparr>ro_last_day := - 1\<rparr>)"

definition needs_rotation :: "(int \<Rightarrow> tm) \<Rightarrow> int \<Rightarrow> rotation \<Rightarrow> bool" where
  "needs_rotation localtime now r \<longleftrightarrow> ro_last_day r < 0 \<or> tm_mday (localtime now) \<noteq> ro_last_day r"

section \<open>Clean-up\<close>

text \<open>
  Formatted input from a stream: white space is skipped, then an \<open>int\<close> is a sign and digits, in range, and a \<open>char\<close> is any
  character. \<open>None\<close> is a failed stream.
\<close>

definition read_int :: "string \<Rightarrow> (int \<times> string) option" where
  "read_int str =
     (let str = dropWhile is_space str;
          (neg, str) = (case str of
             c # cs \<Rightarrow> if c = CHR ''-'' then (True, cs) else if c = CHR ''+'' then (False, cs) else (False, str)
           | [] \<Rightarrow> (False, []));
          ds = takeWhile is_digit str;
          v = (if neg then - int (digits_value ds) else int (digits_value ds))
      in if ds = [] \<or> v < - (2 ^ 31) \<or> 2 ^ 31 \<le> v then None else Some (v, dropWhile is_digit str))"

definition read_char :: "string \<Rightarrow> (char \<times> string) option" where
  "read_char str = (case dropWhile is_space str of [] \<Rightarrow> None | c # cs \<Rightarrow> Some (c, cs))"

definition parse_dir_name :: "string \<Rightarrow> tm option" where
  "parse_dir_name name =
     (if length name \<noteq> 10 \<or> name ! 4 \<noteq> CHR ''-'' \<or> name ! 7 \<noteq> CHR ''-'' then None
      else Option.bind (read_int name) (\<lambda>(year, rest).
        Option.bind (read_char rest) (\<lambda>(dash, rest).
        Option.bind (read_int rest) (\<lambda>(month, rest).
        Option.bind (read_char rest) (\<lambda>(dash, rest).
        Option.bind (read_int rest) (\<lambda>(day, rest).
          Some \<lparr>tm_year = year - 1900, tm_mon = month - 1, tm_mday = day\<rparr>))))))"

datatype dir_entry = Plain_File | Dir "(string \<times> bool) list"

text \<open>The date of a directory is before the cutoff: its files are removed, then the directory when it is empty.\<close>

definition expired :: "(tm \<Rightarrow> int) \<Rightarrow> int \<Rightarrow> string \<Rightarrow> bool" where
  "expired mktime cutoff name \<longleftrightarrow> (case parse_dir_name name of None \<Rightarrow> False | Some t \<Rightarrow> mktime t < cutoff)"

fun cleanup_loop :: "(tm \<Rightarrow> int) \<Rightarrow> int \<Rightarrow> (string \<times> dir_entry) list \<Rightarrow> u32 \<Rightarrow> u32 \<times> (string \<times> dir_entry) list" where
  "cleanup_loop mktime cutoff [] removed = (removed, [])"
| "cleanup_loop mktime cutoff ((name, e) # entries) removed =
     (if name = ''.'' \<or> name = ''..'' \<or> \<not> expired mktime cutoff name
      then apsnd (Cons (name, e)) (cleanup_loop mktime cutoff entries removed)
      else case e of
        Plain_File \<Rightarrow> apsnd (Cons (name, e)) (cleanup_loop mktime cutoff entries removed)
      | Dir files \<Rightarrow>
          let left = filter (\<lambda>(f, removable). \<not> removable) files
          in if left = [] then cleanup_loop mktime cutoff entries (removed + 1)
             else apsnd (Cons (name, Dir left)) (cleanup_loop mktime cutoff entries removed))"

definition cleanup :: "(tm \<Rightarrow> int) \<Rightarrow> int \<Rightarrow> rotation \<Rightarrow> (string \<times> dir_entry) list option \<Rightarrow> u32 \<times> (string \<times> dir_entry) list option" where
  "cleanup mktime now r base =
     (if ro_retention_days r = 0 then (0, base)
      else let cutoff = now - int (unat (ro_retention_days r)) * 86400
           in case base of
                None \<Rightarrow> (0, None)
              | Some entries \<Rightarrow> apsnd Some (cleanup_loop mktime cutoff entries 0))"

section \<open>Dates as text\<close>

text \<open>The dates of directories: a year of four digits, a month and a day.\<close>

definition valid_tm :: "tm \<Rightarrow> bool" where
  "valid_tm t \<longleftrightarrow> 1000 \<le> tm_year t + 1900 \<and> tm_year t + 1900 \<le> 9999 \<and> 0 \<le> tm_mon t \<and> tm_mon t < 12 \<and> 1 \<le> tm_mday t \<and> tm_mday t \<le> 31"

text \<open>Digits with leading zeros.\<close>

definition number_text :: "nat \<Rightarrow> nat \<Rightarrow> string \<Rightarrow> bool" where
  "number_text len n str \<longleftrightarrow> length str = len \<and> str \<noteq> [] \<and> list_all is_digit str \<and> digits_value str = n"

lemma pad2_number: "n < 100 \<Longrightarrow> number_text 2 n (pad2 (int n))"
proof -
  assume n: "n < 100"
  have "show_nat n = (if n < 10 then [digit_char n] else [digit_char (n div 10), digit_char (n mod 10)])"
    using n by (simp add: show_nat.simps [of n] show_nat.simps [of "n div 10"] less_mult_imp_div_less)
  moreover have "is_digit (CHR ''0'')" "digit_value (CHR ''0'') = 0"
    by (simp_all add: is_digit_def digit_value_def)
  ultimately show ?thesis
    using n by (auto simp: number_text_def pad2_def show_int_def digits_value_def)
qed

lemma year_number:
  assumes "1000 \<le> n" "n < 10000"
  shows "number_text 4 n (show_int (int n))"
proof -
  have step: "length (show_nat k) = Suc (length (show_nat (k div 10)))" if "10 \<le> k" for k
    using that by (subst show_nat.simps) simp
  have last: "length (show_nat k) = 1" if "k < 10" for k
    using that by (subst show_nat.simps) simp
  have "10 \<le> n" "10 \<le> n div 10" "10 \<le> n div 10 div 10" "n div 10 div 10 div 10 < 10"
    using assms by simp_all
  then have "length (show_nat n) = 4"
    using step [of n] step [of "n div 10"] step [of "n div 10 div 10"] last [of "n div 10 div 10 div 10"] by simp
  then show ?thesis
    using show_nat_digits [of n] by (simp add: number_text_def show_int_def)
qed

lemma read_int_number:
  assumes "number_text len n str" "n < 2 ^ 31" "case rest of [] \<Rightarrow> True | c # _ \<Rightarrow> \<not> is_digit c"
  shows "read_int (str @ rest) = Some (int n, rest)"
proof -
  obtain c cs where str: "str = c # cs" "is_digit c"
    using assms(1) by (cases str) (auto simp: number_text_def)
  have "takeWhile is_digit (str @ rest) = str"
    using takeWhile_digits assms(1,3) by (simp add: number_text_def)
  moreover from this have "dropWhile is_digit (str @ rest) = rest"
    by (metis same_append_eq takeWhile_dropWhile_id)
  moreover have "\<not> int n < - (2 ^ 31)" "int n < 2 ^ 31"
    using assms(2) by simp_all
  ultimately show ?thesis
    using assms(1) str digit_not_special [OF str(2)] by (simp add: read_int_def number_text_def Let_def)
qed

lemma valid_tm_bounds:
  assumes "valid_tm t"
  shows "1000 \<le> nat (tm_year t + 1900)" "nat (tm_year t + 1900) < 10000" "nat (tm_mon t + 1) < 100" "nat (tm_mday t) < 100"
    "0 \<le> tm_year t + 1900" "0 \<le> tm_mon t + 1" "0 \<le> tm_mday t"
  using assms by (auto simp: valid_tm_def nat_less_iff le_nat_iff)

lemma date_parts:
  assumes "valid_tm t"
  obtains y m d where "date_to_string t = y @ ''-'' @ m @ ''-'' @ d" "number_text 4 (nat (tm_year t + 1900)) y"
    "number_text 2 (nat (tm_mon t + 1)) m" "number_text 2 (nat (tm_mday t)) d"
proof -
  let ?y = "nat (tm_year t + 1900)" and ?m = "nat (tm_mon t + 1)" and ?d = "nat (tm_mday t)"
  have "date_to_string t = show_int (int ?y) @ ''-'' @ pad2 (int ?m) @ ''-'' @ pad2 (int ?d)"
    using valid_tm_bounds(5-7) [OF assms] by (simp add: date_to_string_def)
  then show ?thesis
    by (rule that [OF _ year_number pad2_number pad2_number]) (rule valid_tm_bounds [OF assms])+
qed

text \<open>
  A directory is dated by its name: the name that \<open>current_path\<close> gives a directory is read back by the clean-up as
  the date it was made from, for every date with a year of four digits; so two days never share a directory.
\<close>

lemma date_roundtrip:
  assumes "valid_tm t"
  shows "parse_dir_name (date_to_string t) = Some \<lparr>tm_year = tm_year t, tm_mon = tm_mon t, tm_mday = tm_mday t\<rparr>"
proof -
  from assms obtain y m d where parts: "date_to_string t = y @ ''-'' @ m @ ''-'' @ d" "number_text 4 (nat (tm_year t + 1900)) y"
    "number_text 2 (nat (tm_mon t + 1)) m" "number_text 2 (nat (tm_mday t)) d"
    by (rule date_parts)
  have dash: "\<not> is_digit (CHR ''-'')" "\<not> is_space (CHR ''-'')"
    by (simp_all add: is_digit_def is_space_def)
  have small: "nat (tm_year t + 1900) < 2 ^ 31" "nat (tm_mon t + 1) < 2 ^ 31" "nat (tm_mday t) < 2 ^ 31"
    and nat: "0 \<le> tm_year t + 1900" "0 \<le> tm_mon t + 1" "0 \<le> tm_mday t"
    using valid_tm_bounds [OF assms] by simp_all
  have char: "read_char (CHR ''-'' # s) = Some (CHR ''-'', s)" for s
    using dash by (simp add: read_char_def)
  have "length (date_to_string t) = 10" "date_to_string t ! 4 = CHR ''-''" "date_to_string t ! 7 = CHR ''-''"
    using parts by (auto simp: number_text_def nth_append)
  moreover have "read_int (y @ ''-'' @ s) = Some (tm_year t + 1900, ''-'' @ s)" "read_int (m @ ''-'' @ s) = Some (tm_mon t + 1, ''-'' @ s)"
    "read_int d = Some (tm_mday t, [])" for s
    using read_int_number [OF parts(2), of "''-'' @ s"] read_int_number [OF parts(3), of "''-'' @ s"] read_int_number [OF parts(4), of "[]"]
      small(1,2,3) nat dash by simp_all
  ultimately show ?thesis
    unfolding parse_dir_name_def parts(1) by (simp add: char)
qed

section \<open>When a file is rotated and what is kept\<close>

lemma date_inject:
  assumes "valid_tm s" "valid_tm t"
  shows "date_to_string s = date_to_string t \<longleftrightarrow> tm_year s = tm_year t \<and> tm_mon s = tm_mon t \<and> tm_mday s = tm_mday t"
proof
  assume "date_to_string s = date_to_string t"
  then have "parse_dir_name (date_to_string s) = parse_dir_name (date_to_string t)"
    by (rule arg_cong)
  then show "tm_year s = tm_year t \<and> tm_mon s = tm_mon t \<and> tm_mday s = tm_mday t"
    unfolding date_roundtrip [OF assms(1)] date_roundtrip [OF assms(2)] by simp
qed (simp add: date_to_string_def)

text \<open>
  Rotation looks at the day of the month only. After a path was made at one time, \<open>needs_rotation\<close> at another says no
  although the path for that time is a different one exactly when the two dates have the same day in different months or
  years; then the recording goes on in the file of the old date.
\<close>

theorem rotation_misses_months:
  assumes "valid_tm (localtime t0)" "valid_tm (localtime t)" "current_path localtime t0 symbol r = (path0, dirs0, r0)"
    and "current_path localtime t symbol r0 = (path, dirs, r')"
  shows "\<not> needs_rotation localtime t r0 \<and> path \<noteq> path0
    \<longleftrightarrow> tm_mday (localtime t) = tm_mday (localtime t0)
      \<and> (tm_mon (localtime t) \<noteq> tm_mon (localtime t0) \<or> tm_year (localtime t) \<noteq> tm_year (localtime t0))"
proof -
  have r0: "r0 = r\<lparr>ro_last_day := tm_mday (localtime t0)\<rparr>"
    using assms(3) by (auto simp: current_path_def Let_def)
  have "path = path0 \<longleftrightarrow> date_to_string (localtime t) = date_to_string (localtime t0)"
    using assms(3,4) r0 by (auto simp: current_path_def Let_def)
  moreover have "0 \<le> tm_mday (localtime t0)"
    using assms(1) by (simp add: valid_tm_def)
  ultimately show ?thesis
    using date_inject [OF assms(2,1)] by (auto simp: r0 needs_rotation_def)
qed

text \<open>January 15 and February 15.\<close>

definition two_months :: "int \<Rightarrow> tm" where
  "two_months t = \<lparr>tm_year = 126, tm_mon = (if t = 0 then 0 else 1), tm_mday = 15\<rparr>"

theorem rotation_misses_months_witness:
  "\<not> needs_rotation two_months 1 ((rotation_new ''data'' 30)\<lparr>ro_last_day := 15\<rparr>)"
  using rotation_misses_months [of two_months 0 1 "''A''" "rotation_new ''data'' 30" _ _ "(rotation_new ''data'' 30)\<lparr>ro_last_day := 15\<rparr>"]
  by (simp add: two_months_def valid_tm_def current_path_def rotation_new_def Let_def)

text \<open>What the loop leaves, entry by entry.\<close>

definition kept :: "(tm \<Rightarrow> int) \<Rightarrow> int \<Rightarrow> string \<times> dir_entry \<Rightarrow> (string \<times> dir_entry) list" where
  "kept mktime cutoff = (\<lambda>(name, e).
     if name = ''.'' \<or> name = ''..'' \<or> \<not> expired mktime cutoff name then [(name, e)]
     else case e of
       Plain_File \<Rightarrow> [(name, e)]
     | Dir files \<Rightarrow> let left = filter (\<lambda>(f, removable). \<not> removable) files in if left = [] then [] else [(name, Dir left)])"

lemma cleanup_loop_kept:
  "cleanup_loop mktime cutoff entries removed
     = (removed + of_nat (length (filter (\<lambda>e. kept mktime cutoff e = []) entries)), concat (map (kept mktime cutoff) entries))"
proof (induction entries arbitrary: removed)
  case (Cons x entries)
  obtain name e where x: "x = (name, e)"
    by (cases x)
  show ?case
  proof (cases "name = ''.'' \<or> name = ''..'' \<or> \<not> expired mktime cutoff name")
    case True
    then have "kept mktime cutoff x = [(name, e)]"
      "cleanup_loop mktime cutoff (x # entries) removed = apsnd (Cons (name, e)) (cleanup_loop mktime cutoff entries removed)"
      by (auto simp: kept_def x)
    then show ?thesis
      using Cons by simp
  next
    case False
    then show ?thesis
      using Cons by (simp add: x kept_def Let_def split: dir_entry.splits)
  qed
qed simp

lemma kept_cases: "kept mktime cutoff e = [] \<or> (\<exists>e'. kept mktime cutoff e = [(fst e, e')])"
  by (cases e) (auto simp: kept_def Let_def split: dir_entry.splits)

lemma kept_count:
  "length (filter (\<lambda>e. kept mktime cutoff e = []) es) + length (concat (map (kept mktime cutoff) es)) = length es"
proof (induction es)
  case (Cons e es)
  then show ?case
    using kept_cases [of mktime cutoff e] by auto
qed simp

lemma expired_gone:
  assumes "valid_tm t" "expired mktime cutoff (date_to_string t)"
    and "\<forall>e. (date_to_string t, e) \<in> set entries \<longrightarrow> (\<exists>files. e = Dir files \<and> (\<forall>f\<in>set files. snd f))"
  shows "(date_to_string t, e') \<notin> set (concat (map (kept mktime cutoff) entries))"
proof
  assume "(date_to_string t, e') \<in> set (concat (map (kept mktime cutoff) entries))"
  then obtain x where x: "x \<in> set entries" "(date_to_string t, e') \<in> set (kept mktime cutoff x)"
    by auto
  then have name: "fst x = date_to_string t"
    using kept_cases [of mktime cutoff x] by auto
  then obtain files where "snd x = Dir files" "\<forall>f\<in>set files. snd f"
    using assms(3) x(1) by (metis prod.collapse)
  moreover have "date_to_string t \<noteq> ''.''" "date_to_string t \<noteq> ''..''"
    using date_roundtrip [OF assms(1)] by (auto simp: parse_dir_name_def split: if_splits)
  ultimately have "kept mktime cutoff x = []"
    using assms(2) name by (cases x) (auto simp: kept_def Let_def filter_empty_conv)
  with x(2) show False
    by simp
qed

text \<open>
  The clean-up removes old recordings and nothing else. When it runs on a base directory at the time \<open>now\<close>, an
  entry whose name is not a date, and every directory of a day that began within the retention period, stays as it is;
  in particular the directory that \<open>current_path\<close> writes to at that time, when the day began no longer ago than the period.
  The directory of every older day whose files can all be removed is gone, and the result counts the
  removed directories.
\<close>

theorem cleanup_exact:
  assumes "ro_retention_days r \<noteq> 0" "cutoff = now - int (unat (ro_retention_days r)) * 86400"
    and "cleanup mktime now r (Some entries) = (removed, Some entries')"
  shows "(\<forall>name e. parse_dir_name name = None \<and> (name, e) \<in> set entries \<longrightarrow> (name, e) \<in> set entries')
    \<and> (\<forall>t e. valid_tm t \<and> cutoff \<le> mktime \<lparr>tm_year = tm_year t, tm_mon = tm_mon t, tm_mday = tm_mday t\<rparr>
        \<and> (date_to_string t, e) \<in> set entries \<longrightarrow> (date_to_string t, e) \<in> set entries')
    \<and> (\<forall>t e'. valid_tm t \<and> mktime \<lparr>tm_year = tm_year t, tm_mon = tm_mon t, tm_mday = tm_mday t\<rparr> < cutoff
        \<and> (\<forall>e. (date_to_string t, e) \<in> set entries \<longrightarrow> (\<exists>files. e = Dir files \<and> (\<forall>f\<in>set files. snd f)))
        \<longrightarrow> (date_to_string t, e') \<notin> set entries')
    \<and> removed = of_nat (length entries - length entries')"
proof -
  have "cleanup mktime now r (Some entries) = apsnd Some (cleanup_loop mktime cutoff entries 0)"
    unfolding cleanup_def Let_def assms(2) using assms(1) by simp
  then have loop: "removed = of_nat (length (filter (\<lambda>e. kept mktime cutoff e = []) entries))"
    "entries' = concat (map (kept mktime cutoff) entries)"
    using assms(3) by (simp_all add: cleanup_loop_kept)
  have stays: "(name, e) \<in> set entries'" if "\<not> expired mktime cutoff name" "(name, e) \<in> set entries" for name e
  proof -
    have "(name, e) \<in> set (kept mktime cutoff (name, e))"
      using that(1) by (simp add: kept_def)
    then show ?thesis
      unfolding loop(2) using that(2) by (simp only: set_concat set_map) blast
  qed
  have exp: "expired mktime cutoff (date_to_string t) \<longleftrightarrow> mktime \<lparr>tm_year = tm_year t, tm_mon = tm_mon t, tm_mday = tm_mday t\<rparr> < cutoff"
    if "valid_tm t" for t
    using date_roundtrip [OF that] by (simp add: expired_def)
  have "removed = of_nat (length entries - length entries')"
    unfolding loop kept_count [of mktime cutoff entries, symmetric] by simp
  moreover have "\<not> expired mktime cutoff name" if "parse_dir_name name = None" for name
    using that by (simp add: expired_def)
  ultimately show ?thesis
    using stays expired_gone [of _ mktime cutoff entries] exp loop(2) by (simp add: not_less)
qed

text \<open>A directory of January and one of March, seen on March 16 with a retention of 30 days; \<open>mktime\<close> counts days of 31-day months.\<close>

definition month_days :: "tm \<Rightarrow> int" where
  "month_days t = 86400 * (tm_mday t + 31 * tm_mon t)"

definition two_dirs :: "(string \<times> dir_entry) list" where
  "two_dirs = [(''2026-01-05'', Dir [(''A.bin'', True)]), (''2026-03-15'', Dir [(''A.bin'', True)])]"

lemma two_dirs_dates: "date_to_string \<lparr>tm_year = 126, tm_mon = 0, tm_mday = 5\<rparr> = ''2026-01-05''" "date_to_string \<lparr>tm_year = 126, tm_mon = 2, tm_mday = 15\<rparr> = ''2026-03-15''"
  by (simp_all add: date_to_string_def pad2_def show_int_def show_nat.simps digit_char_def char_of_def bit_0)

theorem cleanup_exact_witness:
  "\<exists>removed entries'. cleanup month_days (86400 * 78) (rotation_new ''data'' 30) (Some two_dirs) = (removed, Some entries')
    \<and> (''2026-03-15'', Dir [(''A.bin'', True)]) \<in> set entries' \<and> (''2026-01-05'', Dir [(''A.bin'', True)]) \<notin> set entries'"
proof -
  obtain removed entries' where run: "cleanup month_days (86400 * 78) (rotation_new ''data'' 30) (Some two_dirs) = (removed, Some entries')"
    by (simp add: cleanup_def rotation_new_def Let_def cleanup_loop_kept)
  have "ro_retention_days (rotation_new ''data'' 30) \<noteq> 0" "86400 * 48 = 86400 * 78 - int (unat (ro_retention_days (rotation_new ''data'' 30))) * 86400"
    by (simp_all add: rotation_new_def)
  note exact = cleanup_exact [OF this run]
  from exact [THEN conjunct2, THEN conjunct1, rule_format, of "\<lparr>tm_year = 126, tm_mon = 2, tm_mday = 15\<rparr>" "Dir [(''A.bin'', True)]"]
  have "(''2026-03-15'', Dir [(''A.bin'', True)]) \<in> set entries'"
    by (simp add: two_dirs_dates valid_tm_def month_days_def two_dirs_def)
  moreover from exact [THEN conjunct2, THEN conjunct2, THEN conjunct1, rule_format, of "\<lparr>tm_year = 126, tm_mon = 0, tm_mday = 5\<rparr>" "Dir [(''A.bin'', True)]"]
  have "(''2026-01-05'', Dir [(''A.bin'', True)]) \<notin> set entries'"
    by (simp add: two_dirs_dates valid_tm_def month_days_def two_dirs_def)
  ultimately show ?thesis
    using run by blast
qed

end
