(* ===== verification/Compression.thy ===== *)
theory Compression
  imports Common_Types
begin

text \<open>
  The wrapper of the block compression (\<open>data/recorder/compression\<close>).

  The library takes sizes as \<open>int\<close>: its two functions are arguments, from the source buffer, the size and the capacity of
  the output to the bytes written, \<open>None\<close> for a result that is not positive. Of them the theorems use that they read
  only the bytes the size says, and that what was compressed is restored.
\<close>

type_synonym lz4_fun = "bytes \<Rightarrow> int \<Rightarrow> int \<Rightarrow> bytes option"

text \<open>\<open>static_cast<int>\<close> of a \<open>size_t\<close>.\<close>

definition to_int32 :: "nat \<Rightarrow> int" where
  "to_int32 n = sint (of_nat n :: 32 word)"

definition lz4_call :: "lz4_fun \<Rightarrow> bytes \<Rightarrow> nat \<Rightarrow> bytes option" where
  "lz4_call lz4 input capacity =
     (if input = [] \<or> capacity = 0 then None else lz4 input (to_int32 (length input)) (to_int32 capacity))"

definition compress :: "lz4_fun \<Rightarrow> bytes \<Rightarrow> nat \<Rightarrow> bytes option" where
  "compress lz4_compress_default = lz4_call lz4_compress_default"

definition decompress :: "lz4_fun \<Rightarrow> bytes \<Rightarrow> nat \<Rightarrow> bytes option" where
  "decompress lz4_decompress_safe = lz4_call lz4_decompress_safe"

definition max_compressed_size :: "(int \<Rightarrow> int) \<Rightarrow> nat \<Rightarrow> u64" where
  "max_compressed_size lz4_compress_bound n = of_int (lz4_compress_bound (to_int32 n))"

text \<open>The size returned to the caller: \<open>0\<close> for a failure.\<close>

definition returned_size :: "bytes option \<Rightarrow> nat" where
  "returned_size out = (case out of None \<Rightarrow> 0 | Some bs \<Rightarrow> length bs)"

lemma to_int32_small: "n < 2 ^ 31 \<Longrightarrow> to_int32 n = int n"
proof -
  assume "n < 2 ^ 31"
  then have "int n < 2 ^ 31"
    by simp
  then show ?thesis
    by (simp add: to_int32_def signed_of_nat signed_take_bit_int_eq_self)
qed

lemma to_int32_wraps: "to_int32 (2 ^ 32 + n) = to_int32 n"
proof -
  have "(of_nat (2 ^ 32 + n) :: 32 word) = of_nat n"
    by (simp only: word_of_nat_eq_iff) (simp add: take_bit_eq_mod)
  then show ?thesis
    by (simp only: to_int32_def)
qed

definition reads_size :: "lz4_fun \<Rightarrow> bool" where
  "reads_size lz4 \<longleftrightarrow> (\<forall>src n cap. 0 \<le> n \<and> nat n \<le> length src \<longrightarrow> lz4 src n cap = lz4 (take (nat n) src) n cap)"

text \<open>
  Sizes are cut to 32 bits. For a buffer of \<open>2 ^ 32 + k\<close> bytes with \<open>0 < k < 2 ^ 31\<close> the wrapper compresses the
  first \<open>k\<close> bytes only and reports success as for them: the rest is lost without an error.
\<close>

theorem compress_cuts_size:
  assumes "reads_size lz4" "length input = 2 ^ 32 + k" "0 < k" "k < 2 ^ 31"
  shows "compress lz4 input cap = compress lz4 (take k input) cap"
proof -
  have "input \<noteq> []" "take k input \<noteq> []" "length (take k input) = k"
    using assms(2,3) by auto
  moreover have "to_int32 (length input) = int k"
    using assms(2,4) by (simp only: to_int32_wraps to_int32_small)
  moreover have "lz4 input (int k) c = lz4 (take k input) (int k) c" for c
    using assms(1,2) unfolding reads_size_def by (metis le_add2 nat_int of_nat_0_le_iff)
  ultimately show ?thesis
    using assms(4) by (simp add: compress_def lz4_call_def to_int32_small)
qed

text \<open>
  Below two gigabytes nothing is cut: what the library restores, the wrapper restores, with the exact size of
  the input as capacity.
\<close>

lemma compress_restores:
  assumes law: "\<And>src out c. lz4_c src (int (length src)) c = Some out \<Longrightarrow> lz4_d out (int (length out)) (int (length src)) = Some src"
    and "length input < 2 ^ 31" "compress lz4_c input cap = Some out" "out \<noteq> []" "length out < 2 ^ 31"
  shows "decompress lz4_d out (length input) = Some input"
  using assms(2-5) law [of input "to_int32 cap" out]
  by (auto simp: compress_def decompress_def lz4_call_def to_int32_small split: if_splits)

end
