(* ===== verification/Text_Output.thy ===== *)
theory Text_Output
  imports Stats Floating Decimal
begin

text \<open>
  Text for people: the formatting helpers (\<open>utils/format_helpers\<close>), the snapshot of the statistics, the log file of the
  statistics (\<open>consumer/csv_logger\<close>), the console (\<open>consumer/console_display\<close>) and the alerts
  (\<open>consumer/alert_monitor\<close>).

  The text of a \<open>double\<close> with a fixed number of decimals is an argument (\<open>fixed k\<close>), and so is the rank \<open>p * count\<close> of a
  percentile, by its per mille. The threads sleep and write: a run is the list of the snapshots they take.
\<close>

section \<open>Formatting\<close>

text \<open>The output of a C string ends at its first zero.\<close>

definition c_string :: "bytes \<Rightarrow> string" where
  "c_string data = map (\<lambda>b. char_of (unat b)) (takeWhile (\<lambda>b. b \<noteq> 0) data)"

text \<open>A comma is inserted at \<open>pos\<close> and then at every third place before it.\<close>

function insert_commas :: "string \<Rightarrow> int \<Rightarrow> string" where
  "insert_commas s pos = (if 0 < pos then insert_commas (take (nat pos) s @ '','' @ drop (nat pos) s) (pos - 3) else s)"
  by pat_completeness auto
termination insert_commas
  by (relation "measure (\<lambda>(_, pos). nat pos)") auto

declare insert_commas.simps [simp del]

definition format_number :: "u64 \<Rightarrow> string" where
  "format_number n = (let s = show_nat (unat n) in insert_commas s (int (length s) - 3))"

definition format_rate :: "'d fp \<Rightarrow> (nat \<Rightarrow> 'd \<Rightarrow> string) \<Rightarrow> 'd \<Rightarrow> string" where
  "format_rate fp fixed rate =
     (if fp_le fp (fp_of_nat fp 1000000) rate then fixed 1 (fp_div fp rate (fp_of_nat fp 1000000)) @ ''M/s''
      else if fp_le fp (fp_of_nat fp 1000) rate then fixed 1 (fp_div fp rate (fp_of_nat fp 1000)) @ ''K/s''
      else fixed 0 rate @ ''/s'')"

definition format_latency_ns :: "'d fp \<Rightarrow> (nat \<Rightarrow> 'd \<Rightarrow> string) \<Rightarrow> u64 \<Rightarrow> string" where
  "format_latency_ns fp fixed ns =
     (if 1000000 \<le> ns then fixed 1 (fp_div fp (fp_of_nat fp (unat ns)) (fp_of_nat fp 1000000)) @ ''ms''
      else if 1000 \<le> ns then fixed 1 (fp_div fp (fp_of_nat fp (unat ns)) (fp_of_nat fp 1000)) @ ''us''
      else show_nat (unat ns) @ ''ns'')"

definition format_price :: "(nat \<Rightarrow> 'd \<Rightarrow> string) \<Rightarrow> 'd \<Rightarrow> string" where
  "format_price fixed price = fixed 4 price"

section \<open>The snapshot\<close>

record 'd stats_snapshot =
  sn_p50_ns :: u64
  sn_p95_ns :: u64
  sn_p99_ns :: u64
  sn_p999_ns :: u64
  sn_min_ns :: u64
  sn_max_ns :: u64
  sn_msg_rate :: 'd
  sn_peak_rate :: 'd
  sn_total_updates :: u64
  sn_gap_count :: u64

definition snapshot ::
  "(nat \<Rightarrow> u64 \<Rightarrow> u64) \<Rightarrow> (u64 \<Rightarrow> nat \<Rightarrow> 'd::{linorder,zero}) \<Rightarrow> 'd stats_collector \<Rightarrow> 'd stats_snapshot" where
  "snapshot rank rate c =
     (let h = sc_histogram c; t = sc_throughput c; pct = (\<lambda>p. percentile h (rank p (lh_count h)))
      in \<lparr>sn_p50_ns = pct 500, sn_p95_ns = pct 950, sn_p99_ns = pct 990, sn_p999_ns = pct 999, sn_min_ns = lh_min h,
          sn_max_ns = lh_max h, sn_msg_rate = current_rate rate t, sn_peak_rate = tt_peak_rate t, sn_total_updates = tt_total t,
          sn_gap_count = sc_gap_count c\<rparr>)"

section \<open>The log file\<close>

definition UINT64_MAX :: u64 where "UINT64_MAX = - 1"

definition stats_header :: string where
  "stats_header =
     ''timestamp,total_updates,updates_per_sec,peak_rate,p50_us,p95_us,p99_us,p999_us,min_us,max_us,gaps'' @ [CHR 0x0A]"

definition show_word :: "u64 \<Rightarrow> string" where
  "show_word w = show_nat (unat w)"

definition stats_row :: "(nat \<Rightarrow> 'd \<Rightarrow> string) \<Rightarrow> int \<Rightarrow> 'd stats_snapshot \<Rightarrow> string" where
  "stats_row fixed epoch_ms s =
     show_int epoch_ms @ '','' @ show_word (sn_total_updates s) @ '','' @ fixed 1 (sn_msg_rate s) @ '','' @ fixed 1 (sn_peak_rate s)
     @ '','' @ show_word (sn_p50_ns s div 1000) @ '','' @ show_word (sn_p95_ns s div 1000) @ '','' @ show_word (sn_p99_ns s div 1000)
     @ '','' @ show_word (sn_p999_ns s div 1000)
     @ '','' @ show_word (if sn_min_ns s = UINT64_MAX then 0 else sn_min_ns s div 1000)
     @ '','' @ show_word (sn_max_ns s div 1000) @ '','' @ show_word (sn_gap_count s) @ [CHR 0x0A]"

text \<open>
  The thread of the log: after each interval it ends when it has been stopped, and otherwise writes a row. \<open>rounds\<close> are the
  intervals of a run, each with whether the log still runs after it, the time and the snapshot.
\<close>

fun logger_run :: "(nat \<Rightarrow> 'd \<Rightarrow> string) \<Rightarrow> (bool \<times> int \<times> 'd stats_snapshot) list \<Rightarrow> string" where
  "logger_run fixed [] = []"
| "logger_run fixed ((running, epoch_ms, s) # rounds) =
     (if \<not> running then [] else stats_row fixed epoch_ms s @ logger_run fixed rounds)"

definition logger_file :: "(nat \<Rightarrow> 'd \<Rightarrow> string) \<Rightarrow> bool \<Rightarrow> (bool \<times> int \<times> 'd stats_snapshot) list \<Rightarrow> string option" where
  "logger_file fixed opens rounds = (if \<not> opens then None else Some (stats_header @ logger_run fixed rounds))"

section \<open>The console\<close>

definition pad_right :: "nat \<Rightarrow> string \<Rightarrow> string" where
  "pad_right n s = s @ replicate (n - length s) (CHR '' '')"

definition pad_left :: "nat \<Rightarrow> string \<Rightarrow> string" where
  "pad_left n s = replicate (n - length s) (CHR '' '') @ s"

definition newline :: string where "newline = [CHR 0x0A]"

definition clear_screen :: string where
  "clear_screen = [CHR 0x1B] @ ''[2J'' @ [CHR 0x1B] @ ''[H''"

definition latency_cell :: "'d fp \<Rightarrow> (nat \<Rightarrow> 'd \<Rightarrow> string) \<Rightarrow> string \<Rightarrow> u64 \<Rightarrow> string" where
  "latency_cell fp fixed label ns = pad_right 12 label @ pad_left 10 (format_latency_ns fp fixed ns)"

definition render_latency :: "'d fp \<Rightarrow> (nat \<Rightarrow> 'd \<Rightarrow> string) \<Rightarrow> 'd stats_snapshot \<Rightarrow> string" where
  "render_latency fp fixed s =
     (let cell = latency_cell fp fixed in
      ''--- Latency ---'' @ newline
      @ cell ''  p50:'' (sn_p50_ns s) @ ''    '' @ cell ''p95:'' (sn_p95_ns s) @ newline
      @ cell ''  p99:'' (sn_p99_ns s) @ ''    '' @ cell ''p999:'' (sn_p999_ns s) @ newline
      @ cell ''  min:'' (sn_min_ns s) @ ''    '' @ cell ''max:'' (sn_max_ns s) @ newline @ newline)"

definition render_throughput :: "'d fp \<Rightarrow> (nat \<Rightarrow> 'd \<Rightarrow> string) \<Rightarrow> 'd stats_snapshot \<Rightarrow> string" where
  "render_throughput fp fixed s =
     ''--- Throughput ---'' @ newline
     @ ''  Updates/sec: '' @ format_rate fp fixed (sn_msg_rate s) @ ''    Peak: '' @ format_rate fp fixed (sn_peak_rate s)
     @ ''    Total: '' @ format_number (sn_total_updates s) @ ''    Gaps: '' @ show_word (sn_gap_count s) @ newline @ newline"

text \<open>The cells of one side of a book: its best price and the quantity there, or dashes.\<close>

definition level_cells :: "'d fp \<Rightarrow> (nat \<Rightarrow> 'd \<Rightarrow> string) \<Rightarrow> price_level option \<Rightarrow> string" where
  "level_cells fp fixed level =
     (case level of
        None \<Rightarrow> pad_left 12 ''---'' @ pad_left 10 ''---''
      | Some l \<Rightarrow> pad_left 12 (format_price fixed (price_to_double fp (pl_price l))) @ pad_left 10 (show_nat (unat (pl_total_quantity l))))"

definition book_line :: "'d fp \<Rightarrow> (nat \<Rightarrow> 'd \<Rightarrow> string) \<Rightarrow> book_update \<Rightarrow> string" where
  "book_line fp fixed b =
     ''  '' @ pad_right 8 (c_string (sym_data (bu_symbol b))) @ level_cells fp fixed (bu_best_bid b) @ level_cells fp fixed (bu_best_ask b)
     @ newline"

definition render_books :: "'d fp \<Rightarrow> (nat \<Rightarrow> 'd \<Rightarrow> string) \<Rightarrow> book_update list \<Rightarrow> string" where
  "render_books fp fixed books =
     (if books = [] then []
      else ''--- Top of Book ---'' @ newline
        @ pad_right 10 ''  Symbol'' @ pad_left 12 ''Bid Px'' @ pad_left 10 ''Bid Qty'' @ pad_left 12 ''Ask Px'' @ pad_left 10 ''Ask Qty''
        @ newline @ ''  '' @ replicate 52 (CHR ''-'') @ newline @ concat (map (book_line fp fixed) books))"

definition render ::
  "'d fp \<Rightarrow> (nat \<Rightarrow> 'd \<Rightarrow> string) \<Rightarrow> book_update list \<Rightarrow> 'd stats_snapshot \<Rightarrow> string" where
  "render fp fixed books s =
     clear_screen @ ''================ QuantFlow Market Data Feed Handler ================'' @ newline @ newline
     @ render_latency fp fixed s @ render_throughput fp fixed s @ render_books fp fixed books
     @ newline @ replicate 68 (CHR ''='') @ newline"

section \<open>Alerts\<close>

datatype alert_level = Alert_Info | Alert_Warning | Alert_Critical

record alert =
  al_level :: alert_level
  al_message :: string
  al_timestamp_ns :: u64

record 'd alert_config =
  ac_p99_threshold_us :: u64
  ac_rate_drop_pct :: 'd
  ac_stall_timeout_ms :: u64
  ac_alert_on_gaps :: bool

record 'd alert_monitor =
  am_config :: "'d alert_config"
  am_last_rate :: 'd
  am_last_gap_count :: u64
  am_total_alerts :: u64

definition alert_monitor_new :: "'d fp \<Rightarrow> 'd alert_config \<Rightarrow> 'd alert_monitor" where
  "alert_monitor_new fp cfg = \<lparr>am_config = cfg, am_last_rate = fp_zero fp, am_last_gap_count = 0, am_total_alerts = 0\<rparr>"

text \<open>The body of \<open>check\<close> does not look at the snapshot.\<close>

definition alert_check :: "'d alert_monitor \<Rightarrow> 'd stats_snapshot \<Rightarrow> alert list \<times> 'd alert_monitor" where
  "alert_check m s = ([], m)"

section \<open>What is printed\<close>

text \<open>Digits in groups of three from the right.\<close>

function grouped :: "string \<Rightarrow> string" where
  "grouped s = (if length s \<le> 3 then s else grouped (take (length s - 3) s) @ '','' @ drop (length s - 3) s)"
  by pat_completeness auto
termination grouped
  by (relation "measure length") auto

declare grouped.simps [simp del]

lemma insert_commas_grouped: "insert_commas (a @ b) (int (length a) - 3) = grouped a @ b"
proof (induction "length a" arbitrary: a b rule: less_induct)
  case less
  show ?case
  proof (cases "length a \<le> 3")
    case True
    then show ?thesis
      by (simp add: insert_commas.simps grouped.simps)
  next
    case False
    let ?a = "take (length a - 3) a"
    have "nat (int (length a) - 3) = length a - 3" "int (length a) - 3 - 3 = int (length ?a) - 3"
      using False by simp_all
    then have "insert_commas (a @ b) (int (length a) - 3) = insert_commas (?a @ '','' @ drop (length a - 3) a @ b) (int (length ?a) - 3)"
      using False by (subst insert_commas.simps) simp
    also have "\<dots> = grouped ?a @ '','' @ drop (length a - 3) a @ b"
      using False by (intro less) simp
    finally show ?thesis
      using False by (simp add: grouped.simps [of a])
  qed
qed

text \<open>
  Numbers are printed with a comma before every third digit from the right: the loop that inserts the commas from
  the right computes the recursive grouping.
\<close>

lemma format_number_grouped: "format_number n = grouped (show_nat (unat n))"
  using insert_commas_grouped [of "show_nat (unat n)" "[]"] by (simp add: format_number_def Let_def)

lemma grouped_digits: "CHR '','' \<notin> set s \<Longrightarrow> filter (\<lambda>c. c \<noteq> CHR '','') (grouped s) = s"
proof (induction s rule: grouped.induct)
  case (1 s)
  have no: "CHR '','' \<notin> set (take k s)" "CHR '','' \<notin> set (drop k s)" for k
    using 1(2) by (auto dest: in_set_takeD in_set_dropD)
  have keep: "CHR '','' \<notin> set xs \<Longrightarrow> filter (\<lambda>c. c \<noteq> CHR '','') xs = xs" for xs
    by (simp add: filter_id_conv) metis
  show ?case
  proof (cases "length s \<le> 3")
    case True
    then show ?thesis
      using keep [OF 1(2)] by (simp add: grouped.simps)
  next
    case False
    have "filter (\<lambda>c. c \<noteq> CHR '','') (grouped (take (length s - 3) s)) = take (length s - 3) s"
      by (rule 1(1) [OF False no(1)])
    then show ?thesis
      using False keep [OF no(2)] by (simp add: grouped.simps [of s])
  qed
qed

lemma show_nat_no_comma: "CHR '','' \<notin> set (show_nat n)"
proof
  assume "CHR '','' \<in> set (show_nat n)"
  then have "is_digit (CHR '','')"
    using show_nat_digits [of n] by (simp add: list_all_iff)
  then show False
    by (simp add: is_digit_def)
qed

lemma show_int_no_comma: "CHR '','' \<notin> set (show_int i)"
  using show_nat_no_comma by (simp add: show_int_def)

text \<open>
  Every row of the statistics file has the columns of its header, when the texts of the rates have no comma.
\<close>

lemma stats_row_columns:
  assumes "\<And>k x. CHR '','' \<notin> set (fixed k x)"
  shows "count_list (stats_row fixed epoch_ms s) (CHR '','') = count_list stats_header (CHR '','')"
proof -
  have "count_list (show_nat n) (CHR '','') = 0" "count_list (show_int i) (CHR '','') = 0" "count_list (fixed k x) (CHR '','') = 0" for n i k x
    using show_nat_no_comma show_int_no_comma assms by (simp_all add: count_list_0_iff)
  then show ?thesis
    by (simp add: stats_row_def stats_header_def show_word_def count_list_append)
qed

text \<open>The log has one row per interval until it is stopped.\<close>

lemma logger_run_rows: "logger_run fixed rounds = concat (map (\<lambda>(r, ms, s). stats_row fixed ms s) (takeWhile fst rounds))"
  by (induction rounds) auto

text \<open>
  Before the first update the minimum of the histogram is the largest number of 64 bits: the log writes \<open>0\<close> in its place,
  the console prints it as a latency of milliseconds.
\<close>

lemma idle_minimum:
  "sn_min_ns (snapshot rank rate stats_collector_new) = UINT64_MAX"
  "format_latency_ns fp fixed UINT64_MAX = fixed 1 (fp_div fp (fp_of_nat fp (2 ^ 64 - 1)) (fp_of_nat fp 1000000)) @ ''ms''"
proof -
  have "unat (- 1 :: u64) = 2 ^ 64 - 1"
    by (simp add: unsigned_minus_1_eq_mask mask_eq_exp_minus_1)
  then show "format_latency_ns fp fixed UINT64_MAX = fixed 1 (fp_div fp (fp_of_nat fp (2 ^ 64 - 1)) (fp_of_nat fp 1000000)) @ ''ms''"
    by (simp add: format_latency_ns_def UINT64_MAX_def)
qed (simp add: snapshot_def stats_collector_new_def histogram_new_def UINT64_MAX_def Let_def)

end
