(* ===== verification/Csv_Export.thy ===== *)
theory Csv_Export
  imports Replay Text_Output
begin

text \<open>
  The export of recordings as text (\<open>data/recorder/csv_writer\<close>).

  A C stream that is written from its beginning is the text written so far. The text of a \<open>double\<close> with four decimals
  (\<open>%.4f\<close>) is the argument \<open>fixed4\<close>; on exact values it is \<open>exact_fixed4\<close>.
\<close>

section \<open>Rows\<close>

record 'd tick_fields =
  tf_price :: 'd
  tf_quantity :: u32
  tf_order_id :: u64

definition tick_fields_zero :: "'d fp \<Rightarrow> 'd tick_fields" where
  "tick_fields_zero fp = \<lparr>tf_price = fp_zero fp, tf_quantity = 0, tf_order_id = 0\<rparr>"

text \<open>The payload is copied into the struct of the message type, whatever its length field says.\<close>

definition extract_fields :: "'d fp \<Rightarrow> tick_record \<Rightarrow> 'd tick_fields" where
  "extract_fields fp r =
     (let fields = tick_fields_zero fp; payload = tr_payload r; type = tr_message_type r in
      if type = 65 then let m = add_order_of_bytes payload in
        \<lparr>tf_price = price_to_double fp (ao_price m), tf_quantity = ao_quantity m, tf_order_id = ao_order_id m\<rparr>
      else if type = 88 then let m = cancel_order_of_bytes payload in fields\<lparr>tf_order_id := co_order_id m\<rparr>
      else if type = 69 then let m = execute_order_of_bytes payload in
        fields\<lparr>tf_quantity := eo_exec_quantity m, tf_order_id := eo_order_id m\<rparr>
      else if type = 82 then let m = replace_order_of_bytes payload in
        \<lparr>tf_price = price_to_double fp (ro_new_price m), tf_quantity = ro_new_quantity m, tf_order_id = ro_order_id m\<rparr>
      else if type = 84 then let m = trade_message_of_bytes payload in
        \<lparr>tf_price = price_to_double fp (tm_price m), tf_quantity = tm_quantity m, tf_order_id = tm_buy_order_id m\<rparr>
      else fields)"

definition message_type_name :: "u8 \<Rightarrow> string" where
  "message_type_name type =
     (if type = 65 then ''ADD'' else if type = 88 then ''CANCEL'' else if type = 69 then ''EXECUTE''
      else if type = 82 then ''REPLACE'' else if type = 84 then ''TRADE'' else ''UNKNOWN'')"

text \<open>Trailing blanks and zeros are cut.\<close>

definition trim_symbol :: "bytes \<Rightarrow> bytes" where
  "trim_symbol data = rev (dropWhile (\<lambda>b. b = 0 \<or> b = 32) (rev data))"

definition csv_header :: string where
  "csv_header = ''timestamp,symbol,type,price,quantity,order_id'' @ [CHR 0x0A]"

definition csv_row :: "u64 \<Rightarrow> string \<Rightarrow> string \<Rightarrow> string \<Rightarrow> u32 \<Rightarrow> u64 \<Rightarrow> string" where
  "csv_row ts symbol type price quantity order_id =
     show_nat (unat ts) @ '','' @ symbol @ '','' @ type @ '','' @ price @ '','' @ show_nat (unat quantity) @ '','' @ show_nat (unat order_id)
     @ [CHR 0x0A]"

definition tick_row :: "'d fp \<Rightarrow> ('d \<Rightarrow> string) \<Rightarrow> tick_record \<Rightarrow> string" where
  "tick_row fp fixed4 r =
     (let fields = extract_fields fp r
      in csv_row (tr_timestamp r) (c_string (trim_symbol (sym_data (tr_symbol r)))) (message_type_name (tr_message_type r))
           (fixed4 (tf_price fields)) (tf_quantity fields) (tf_order_id fields))"

section \<open>The writer\<close>

datatype csv_error = Csv_Failed_To_Open | Csv_Not_Open | Cannot_Open_Binary | Failed_To_Read_Header | Invalid_Magic

record csv_writer =
  cw_open :: bool
  cw_text :: string
  cw_rows_written :: u64

definition csv_writer_new :: "bool \<Rightarrow> csv_error + csv_writer" where
  "csv_writer_new opens =
     (if \<not> opens then Inl Csv_Failed_To_Open else Inr \<lparr>cw_open = True, cw_text = csv_header, cw_rows_written = 0\<rparr>)"

definition csv_write :: "'d fp \<Rightarrow> ('d \<Rightarrow> string) \<Rightarrow> tick_record \<Rightarrow> csv_writer \<Rightarrow> csv_error + csv_writer" where
  "csv_write fp fixed4 r w =
     (if \<not> cw_open w then Inl Csv_Not_Open
      else Inr (w\<lparr>cw_text := cw_text w @ tick_row fp fixed4 r, cw_rows_written := cw_rows_written w + 1\<rparr>))"

definition csv_close :: "csv_writer \<Rightarrow> csv_writer" where
  "csv_close w = (if \<not> cw_open w then w else w\<lparr>cw_open := False\<rparr>)"

text \<open>The loop of \<open>convert\<close>: whole records are read until there is none.\<close>

function convert_loop :: "'d fp \<Rightarrow> ('d \<Rightarrow> string) \<Rightarrow> bytes \<Rightarrow> u64 \<Rightarrow> csv_writer \<Rightarrow> csv_error + u64 \<times> csv_writer" where
  "convert_loop fp fixed4 bs n w =
     (if length bs < sizeof_tick then Inr (n, w)
      else case csv_write fp fixed4 (tick_of_bytes (take sizeof_tick bs)) w of
        Inl e \<Rightarrow> Inl e
      | Inr w \<Rightarrow> convert_loop fp fixed4 (drop sizeof_tick bs) (n + 1) w)"
  by pat_completeness auto
termination convert_loop
  by (relation "measure (\<lambda>(_, _, bs, _, _). length bs)") (auto simp: sizeof_tick_def)

declare convert_loop.simps [simp del]

text \<open>\<open>convert\<close> of a binary file, when there is one, into a text file that can be opened or not.\<close>

definition csv_convert :: "'d fp \<Rightarrow> ('d \<Rightarrow> string) \<Rightarrow> bytes option \<Rightarrow> bool \<Rightarrow> csv_error + u64 \<times> csv_writer" where
  "csv_convert fp fixed4 binary opens =
     (case binary of
        None \<Rightarrow> Inl Cannot_Open_Binary
      | Some bs \<Rightarrow>
          if length bs < sizeof_file_header then Inl Failed_To_Read_Header
          else if fh_magic (file_header_of_bytes bs) \<noteq> BINARY_FILE_MAGIC then Inl Invalid_Magic
          else (case csv_writer_new opens of
                  Inl e \<Rightarrow> Inl e
                | Inr w \<Rightarrow>
                    (case convert_loop fp fixed4 (drop sizeof_file_header bs) 0 w of
                       Inl e \<Rightarrow> Inl e
                     | Inr (n, w) \<Rightarrow> Inr (n, csv_close w))))"

section \<open>What a recording looks like as text\<close>

text \<open>\<open>%.4f\<close> of a value that is not negative.\<close>

definition pad4 :: "nat \<Rightarrow> string" where
  "pad4 n = replicate (4 - length (show_nat n)) (CHR ''0'') @ show_nat n"

definition exact_fixed4 :: "real \<Rightarrow> string" where
  "exact_fixed4 x = (let n = nat (round (x * 10000)) in show_nat (n div 10000) @ ''.'' @ pad4 (n mod 10000))"

text \<open>A price in the units of the wire as a decimal number.\<close>

definition price_text :: "price \<Rightarrow> string" where
  "price_text p = show_nat (unat p div 10000) @ ''.'' @ pad4 (unat p mod 10000)"

lemma exact_fixed4_price [simp]: "exact_fixed4 (price_to_double exact_fp p) = price_text p"
proof -
  have "real (unat p) / 10000 * 10000 = of_int (int (unat p))"
    by simp
  then have "round (real (unat p) / 10000 * 10000) = int (unat p)"
    by (simp only: round_of_int)
  then show ?thesis
    by (simp add: exact_fixed4_def price_to_double_def price_text_def Let_def del: of_nat_unat)
qed

lemma exact_fixed4_zero [simp]: "exact_fixed4 0 = price_text 0"
  by (simp add: exact_fixed4_def price_text_def)

text \<open>The row of an event: what the message says, and the symbol for additions and trades only.\<close>

definition sym_text :: "symbol \<Rightarrow> string" where
  "sym_text s = c_string (trim_symbol (sym_data s))"

fun event_row :: "timestamp \<Rightarrow> parsed_message \<Rightarrow> string" where
  "event_row ts (AddOrder m) = csv_row ts (sym_text (ao_symbol m)) ''ADD'' (price_text (ao_price m)) (ao_quantity m) (ao_order_id m)"
| "event_row ts (CancelOrder m) = csv_row ts (sym_text symbol_default) ''CANCEL'' (price_text 0) 0 (co_order_id m)"
| "event_row ts (ExecuteOrder m) = csv_row ts (sym_text symbol_default) ''EXECUTE'' (price_text 0) (eo_exec_quantity m) (eo_order_id m)"
| "event_row ts (ReplaceOrder m) = csv_row ts (sym_text symbol_default) ''REPLACE'' (price_text (ro_new_price m)) (ro_new_quantity m) (ro_order_id m)"
| "event_row ts (TradeMessage m) = csv_row ts (sym_text (tm_symbol m)) ''TRADE'' (price_text (tm_price m)) (tm_quantity m) (tm_buy_order_id m)"

lemma tick_row_event: "tick_row exact_fp exact_fixed4 (to_tick_record event) = event_row (pe_receive_timestamp event) (pe_message event)"
  by (cases "pe_message event")
    (simp_all add: tick_row_def to_tick_record_def extract_fields_def message_type_name_def tick_fields_zero_def sym_text_def
      of_bytes_defs Let_def)

lemma convert_loop_ticks:
  assumes "\<forall>r\<in>set rs. tick_ok r" "cw_open w"
  shows "convert_loop fp fixed4 (ticks_bytes rs) n w
    = Inr (n + of_nat (length rs), w\<lparr>cw_text := cw_text w @ concat (map (tick_row fp fixed4) rs),
        cw_rows_written := cw_rows_written w + of_nat (length rs)\<rparr>)"
  using assms
proof (induction rs arbitrary: n w)
  case Nil
  then show ?case
    by (simp add: convert_loop.simps sizeof_tick_def)
next
  case (Cons r rs)
  then show ?case
    by (subst convert_loop.simps) (simp add: length_tick_bytes tick_of_tick_bytes csv_write_def add_ac)
qed

text \<open>
  C40. A recording is exported row by row. Events that were recorded to a file, with streams that take what they are
  given, are converted to a text with the header line and then one line per event, in order: its time, its symbol (for
  additions and trades), its kind, its price as the exact decimal number, its quantity and its order id. The
  conversion returns the number of events.
\<close>

theorem recording_exported:
  assumes "1 \<le> io_accepts io" and "\<forall>(io, event) \<in> set evs. length evs \<le> io_accepts io"
    and "length evs \<le> io_accepts io1" and "1 \<le> io_accepts io2"
  shows "\<exists>s1 s2 r file w. recorder_start True io (tick_recorder_new, disk) = (None, s1) \<and> record_all evs s1 = (None, s2)
    \<and> recorder_stop io1 io2 s2 = (None, r, Some file)
    \<and> csv_convert exact_fp exact_fixed4 (Some file) True = Inr (of_nat (length evs), w)
    \<and> cw_text w = csv_header @ concat (map (\<lambda>(io, event). event_row (pe_receive_timestamp event) (pe_message event)) evs)
    \<and> cw_rows_written w = of_nat (length evs)"
proof -
  let ?rs = "map (to_tick_record \<circ> snd) evs"
  let ?file = "file_header_bytes (final_header (length evs)) @ ticks_bytes ?rs"
  have conv: "csv_convert exact_fp exact_fixed4 (Some ?file) True
      = Inr (of_nat (length evs), \<lparr>cw_open = False, cw_text = csv_header @ concat (map (tick_row exact_fp exact_fixed4) ?rs),
          cw_rows_written = of_nat (length evs)\<rparr>)"
    using convert_loop_ticks [of ?rs "\<lparr>cw_open = True, cw_text = csv_header, cw_rows_written = 0\<rparr>" exact_fp exact_fixed4 0]
    by (simp add: csv_convert_def csv_writer_new_def csv_close_def final_header_def file_header_new_def BINARY_FILE_MAGIC_def)
  have rows: "map (tick_row exact_fp exact_fixed4) ?rs = map (\<lambda>(io, event). event_row (pe_receive_timestamp event) (pe_message event)) evs"
    by (simp add: tick_row_event case_prod_unfold)
  obtain s1 s2 r where s: "recorder_start True io (tick_recorder_new, disk) = (None, s1)" "record_all evs s1 = (None, s2)"
    "recorder_stop io1 io2 s2 = (None, r, Some ?file)"
    using recorded_file [OF assms, of disk] by blast
  show ?thesis
    by (intro exI conjI, rule s(1), rule s(2), rule s(3), rule conv [unfolded rows]) simp_all
qed

text \<open>One addition, recorded and exported.\<close>

definition one_add :: parsed_event where
  "one_add = \<lparr>pe_message = AddOrder \<lparr>ao_order_id = 7, ao_side = 66, ao_symbol = symbol_of_cstr [65], ao_price = 1850500, ao_quantity = 3\<rparr>,
     pe_receive_timestamp = 5\<rparr>"

lemma one_add_row: "event_row 5 (pe_message one_add) = ''5,A,ADD,185.0500,3,7'' @ [CHR 0x0A]"
  by (simp add: one_add_def csv_row_def sym_text_def c_string_def trim_symbol_def price_text_def pad4_def show_nat.simps digit_char_def
      symbol_of_cstr_def symbol_of_data_def byte_at_def char_of_def bit_0)

theorem recording_exported_witness:
  "\<exists>s1 s2 r file w. recorder_start True \<lparr>io_accepts = 1, io_passes = 0\<rparr> (tick_recorder_new, None) = (None, s1)
    \<and> record_all [(\<lparr>io_accepts = 1, io_passes = 0\<rparr>, one_add)] s1 = (None, s2)
    \<and> recorder_stop \<lparr>io_accepts = 1, io_passes = 0\<rparr> \<lparr>io_accepts = 1, io_passes = 0\<rparr> s2 = (None, r, Some file)
    \<and> csv_convert exact_fp exact_fixed4 (Some file) True = Inr (1, w)
    \<and> cw_text w = csv_header @ ''5,A,ADD,185.0500,3,7'' @ [CHR 0x0A] \<and> cw_rows_written w = 1"
  using recording_exported [of "\<lparr>io_accepts = 1, io_passes = 0\<rparr>" "[(\<lparr>io_accepts = 1, io_passes = 0\<rparr>, one_add)]"
      "\<lparr>io_accepts = 1, io_passes = 0\<rparr>" "\<lparr>io_accepts = 1, io_passes = 0\<rparr>" None] one_add_row
  by (simp add: one_add_def)

section \<open>Refused files\<close>

text \<open>The output is not even opened for a file that is missing, too short or of another format.\<close>

lemma csv_convert_refuses:
  "csv_convert fp fixed4 None opens = Inl Cannot_Open_Binary"
  "length bs < sizeof_file_header \<Longrightarrow> csv_convert fp fixed4 (Some bs) opens = Inl Failed_To_Read_Header"
  "sizeof_file_header \<le> length bs \<Longrightarrow> fh_magic (file_header_of_bytes bs) \<noteq> BINARY_FILE_MAGIC \<Longrightarrow>
     csv_convert fp fixed4 (Some bs) opens = Inl Invalid_Magic"
  by (simp_all add: csv_convert_def)

end
