(* ===== verification/Risk_Audit.thy ===== *)
theory Risk_Audit
  imports Pre_Trade Risk_Monitors Text_Output Config_Store
begin

text \<open>
  The audit trail of the risk decisions (\<open>risk/reporting/risk_logger\<close>): the lines that a call writes to the log, with their
  levels, before the logger drops those below its level.

  The symbol of an order is passed to the log as a C string: what is printed are the bytes up to the first zero, which for
  a symbol of eight characters is searched in the memory after it (\<open>after\<close>). The text of a number with \<open>k\<close> decimals is
  \<open>fixed k\<close>.
\<close>

type_synonym audit_line = "log_level \<times> string"

definition audit :: "string \<Rightarrow> string" where
  "audit msg = ''[RISK_AUDIT] '' @ msg"

definition value_and_limit :: "(nat \<Rightarrow> 'd \<Rightarrow> string) \<Rightarrow> 'd risk_result \<Rightarrow> string" where
  "value_and_limit fixed r = '' (current='' @ fixed 2 (rr_current_value r) @ '', limit='' @ fixed 2 (rr_limit_value r) @ '')''"

fun log_results :: "(nat \<Rightarrow> 'd \<Rightarrow> string) \<Rightarrow> 'd risk_result list \<Rightarrow> nat \<Rightarrow> audit_line list \<times> nat" where
  "log_results fixed [] fail_count = ([], fail_count)"
| "log_results fixed (r # rs) fail_count =
     (let (line, fail_count) =
        (if rr_passed r
         then ((Debug, audit (''  '' @ risk_check_to_string (rr_check_type r) @ '' PASSED'' @ value_and_limit fixed r)), fail_count)
         else ((Warn, audit (''  '' @ risk_check_to_string (rr_check_type r) @ '' FAILED: '' @ rr_message r @ value_and_limit fixed r)),
               fail_count + 1));
          (lines, fail_count) = log_results fixed rs fail_count
      in (line # lines, fail_count))"

definition log_pre_trade :: "(nat \<Rightarrow> 'd \<Rightarrow> string) \<Rightarrow> bytes \<Rightarrow> decision \<Rightarrow> 'd risk_result list \<Rightarrow> audit_line list" where
  "log_pre_trade fixed after d results =
     (let side_str = (if dec_side d = Side_Buy then ''BUY'' else ''SELL'');
          (lines, fail_count) = log_results fixed results 0
      in (Info, audit (''PRE-TRADE check: '' @ side_str @ '' '' @ c_string (sym_data (dec_symbol d) @ after)
            @ '' qty='' @ show_nat (unat (dec_quantity d))))
         # lines
         @ [if fail_count = 0
            then (Info, audit (''PRE-TRADE result: APPROVED ('' @ show_nat (length results) @ '' checks passed)''))
            else (Warn, audit (''PRE-TRADE result: REJECTED ('' @ show_nat fail_count @ '' of '' @ show_nat (length results) @ '' failed)''))])"

definition log_post_trade :: "'d fp \<Rightarrow> (nat \<Rightarrow> 'd \<Rightarrow> string) \<Rightarrow> fill_report \<Rightarrow> 'd risk_result list \<Rightarrow> audit_line list" where
  "log_post_trade fp fixed fill breaches =
     (Info, audit (''POST-TRADE update: order='' @ show_nat (unat (fr_order_id fill)) @ '' fill_qty='' @ show_nat (unat (fr_fill_quantity fill))
        @ '' fill_price='' @ fixed 4 (price_to_double fp (fr_fill_price fill)) @ '' final='' @ (if fr_is_final fill then ''true'' else ''false'')))
     # (if breaches = [] then [(Debug, audit ''  POST-TRADE: all monitors OK'')]
        else map (\<lambda>r. (Warn, audit (''  POST-TRADE '' @ risk_check_to_string (rr_check_type r) @ '': '' @ rr_message r @ value_and_limit fixed r)))
               breaches)"

definition log_breaker_event :: "(nat \<Rightarrow> 'd \<Rightarrow> string) \<Rightarrow> 'd breaker_event \<Rightarrow> audit_line list" where
  "log_breaker_event fixed e =
     [(Err, audit (''CIRCUIT BREAKER TRIPPED: reason='' @ [CHR 0x22] @ bev_reason e @ [CHR 0x22] @ '' drawdown='' @ fixed 4 (bev_drawdown e)
        @ '' limit='' @ fixed 4 (bev_drawdown_limit e) @ '' manual='' @ (if bev_manual e then ''true'' else ''false'')))]"

definition log_breaker_reset :: "audit_line list" where
  "log_breaker_reset = [(Info, audit ''CIRCUIT BREAKER RESET: trading re-enabled'')]"

section \<open>What the trail says\<close>

lemma log_results_count: "snd (log_results fixed rs n) = n + length (filter (\<lambda>r. \<not> rr_passed r) rs)"
  by (induction rs arbitrary: n) (auto simp: Let_def split_beta)

lemma log_results_lines:
  "map fst (fst (log_results fixed rs n)) = map (\<lambda>r. if rr_passed r then Debug else Warn) rs"
  by (induction rs arbitrary: n) (auto simp: Let_def split_beta)

text \<open>
  The trail of a check has a line for the order, one line per result, a warning exactly for each failed one, and a verdict;
  the verdict is an approval exactly when no result failed.
\<close>

lemma log_pre_trade_verdict:
  shows "map fst (log_pre_trade fixed after d results)
      = Info # map (\<lambda>r. if rr_passed r then Debug else Warn) results @ [if \<forall>r\<in>set results. rr_passed r then Info else Warn]"
    and "snd (last (log_pre_trade fixed after d results)) = audit (''PRE-TRADE result: APPROVED ('' @ show_nat (length results) @ '' checks passed)'')
      \<longleftrightarrow> (\<forall>r\<in>set results. rr_passed r)"
  using log_results_count [of fixed results 0] log_results_lines [of fixed results 0]
  by (auto simp: log_pre_trade_def Let_def split_beta audit_def filter_empty_conv)

text \<open>A symbol of eight characters is printed with what follows it in memory.\<close>

lemma log_symbol_overread:
  assumes "0 \<notin> set (sym_data s)"
  shows "c_string (sym_data s @ after) = map (\<lambda>b. char_of (unat b)) (sym_data s) @ c_string after"
proof -
  have "takeWhile (\<lambda>b. b \<noteq> 0) (sym_data s @ after) = sym_data s @ takeWhile (\<lambda>b. b \<noteq> 0) after"
    using assms by (intro takeWhile_append2) metis
  then show ?thesis
    by (simp add: c_string_def)
qed

end
