(* ===== verification/Pipeline_Threads.thy ===== *)
theory Pipeline_Threads
  imports Pipeline Tcp_Client
begin

text \<open>
  The life of the pipeline (\<open>core/pipeline.cpp\<close>, the loops of \<open>handler/*_stage.cpp\<close>): its four threads are started, run
  their loops while the flag is set, and are joined by \<open>stop\<close>. A thread tests the flag and runs the body of its loop
  as two steps, so that a stop falls between them as well. The body of the network stage is one burst of the socket
  library: the receive loop of \<open>Tcp_Client\<close> with any list of results, its callback being the one of the network stage.
\<close>

datatype stage = Network | Parser | Book | Consumer

lemma UNIV_stage: "UNIV = {Network, Parser, Book, Consumer}"
  using stage.exhaust by blast

lemma finite_stages [simp]: "finite (S :: stage set)"
  by (rule finite_subset [OF subset_UNIV]) (simp add: UNIV_stage)

text \<open>The threads that have not been joined, those that have not ended, and those that are inside the body of their loop.\<close>

record 'd runner =
  rn_pipe :: "'d pipeline"
  rn_running :: bool
  rn_joinable :: "stage set"
  rn_alive :: "stage set"
  rn_body :: "stage set"
  rn_receiver :: mc_receiver

definition runner_new :: "'d::{linorder,zero} runner" where
  "runner_new = \<lparr>rn_pipe = pipeline_new, rn_running = False, rn_joinable = {}, rn_alive = {}, rn_body = {}, rn_receiver = mc_receiver_new\<rparr>"

text \<open>The assignment of a new thread to a variable whose thread has not been joined ends the program.\<close>

definition pipeline_start :: "'d runner \<Rightarrow> 'd runner option" where
  "pipeline_start r =
     (if rn_joinable r \<noteq> {} then None
      else Some (r\<lparr>rn_running := True, rn_joinable := UNIV, rn_alive := UNIV, rn_body := {},
                   rn_receiver := receiver_start mc_receiver_new\<rparr>))"

text \<open>The two parts of \<open>stop\<close>: the flag, and the joins, which return when the threads have ended.\<close>

definition request_stop :: "'d runner \<Rightarrow> 'd runner" where
  "request_stop r = r\<lparr>rn_running := False\<rparr>"

definition join_threads :: "'d runner \<Rightarrow> 'd runner option" where
  "join_threads r = (if rn_joinable r \<inter> rn_alive r \<noteq> {} then None else Some (r\<lparr>rn_joinable := {}\<rparr>))"

text \<open>One result of the socket: the handler of the receiver, with the callback of the network stage.\<close>

definition receive_one :: "bytes option \<times> u64 \<Rightarrow> mc_receiver \<times> 'd pipeline \<Rightarrow> mc_receiver \<times> 'd pipeline" where
  "receive_one = (\<lambda>(result, ts) (rc, p).
     (receive_done (result, ts) rc,
      case result of Some data \<Rightarrow> if data \<noteq> [] then network_receive p data ts else p | None \<Rightarrow> p))"

definition network_burst :: "(bytes option \<times> u64) list \<Rightarrow> 'd runner \<Rightarrow> 'd runner" where
  "network_burst results r =
     (let (rc, p) = fold receive_one results (rn_receiver r, rn_pipe r) in r\<lparr>rn_receiver := rc, rn_pipe := p\<rparr>)"

definition test_flag :: "stage \<Rightarrow> 'd runner \<Rightarrow> 'd runner" where
  "test_flag st r =
     (if rn_running r then r\<lparr>rn_body := insert st (rn_body r)\<rparr>
      else let r = r\<lparr>rn_alive := rn_alive r - {st}\<rparr>
           in if st = Network then r\<lparr>rn_receiver := receiver_stop (rn_receiver r)\<rparr> else r)"

definition end_body :: "stage \<Rightarrow> 'd runner \<Rightarrow> 'd runner" where
  "end_body st r = r\<lparr>rn_body := rn_body r - {st}\<rparr>"

text \<open>The packets of a burst, as the history of the pipeline has them.\<close>

definition burst_packets :: "(bytes option \<times> u64) list \<Rightarrow> raw_packet list" where
  "burst_packets results =
     map (\<lambda>(data, ts). \<lparr>rp_data = take RAW_PACKET_MAX data, rp_receive_timestamp = ts\<rparr>) (delivered results)"

inductive thread_step ::
  "(u64 \<Rightarrow> nat \<Rightarrow> 'd::{linorder,zero}) \<Rightarrow> 'd runner \<times> pipe_history \<Rightarrow> 'd runner \<times> pipe_history \<Rightarrow> bool" for rate where
  Test: "st \<in> rn_alive r \<Longrightarrow> st \<notin> rn_body r \<Longrightarrow> thread_step rate (r, H) (test_flag st r, H)"
| Network_Body: "Network \<in> rn_body r \<Longrightarrow> thread_step rate (r, H)
    (end_body Network (network_burst results r), H\<lparr>ph_received := ph_received H @ burst_packets results\<rparr>)"
| Parser_Body: "Parser \<in> rn_body r \<Longrightarrow> parser_round (rn_pipe r) = Some p \<Longrightarrow>
    thread_step rate (r, H) (end_body Parser (r\<lparr>rn_pipe := p\<rparr>), H)"
| Book_Body: "Book \<in> rn_body r \<Longrightarrow> thread_step rate (r, H)
    (end_body Book (r\<lparr>rn_pipe := book_round (rn_pipe r) now\<rparr>),
     case fst (spsc_try_pop Q2_CAPACITY (pp_q2 (rn_pipe r))) of
       None \<Rightarrow> H | Some ev \<Rightarrow> H\<lparr>ph_processed := ph_processed H @ [(ev, now)]\<rparr>)"
| Consumer_Body: "Consumer \<in> rn_body r \<Longrightarrow>
    thread_step rate (r, H) (end_body Consumer (r\<lparr>rn_pipe := consumer_round rate (rn_pipe r) elapsed\<rparr>), H)"

text \<open>The states of a program that starts and stops the pipeline, any number of times.\<close>

inductive threads_run :: "(u64 \<Rightarrow> nat \<Rightarrow> 'd::{linorder,zero}) \<Rightarrow> 'd runner \<Rightarrow> pipe_history \<Rightarrow> bool" for rate where
  New: "threads_run rate runner_new \<lparr>ph_received = [], ph_processed = []\<rparr>"
| Start: "threads_run rate r H \<Longrightarrow> pipeline_start r = Some r' \<Longrightarrow> threads_run rate r' H"
| Stop: "threads_run rate r H \<Longrightarrow> threads_run rate (request_stop r) H"
| Join: "threads_run rate r H \<Longrightarrow> join_threads r = Some r' \<Longrightarrow> threads_run rate r' H"
| Thread: "threads_run rate r H \<Longrightarrow> thread_step rate (r, H) (r', H') \<Longrightarrow> threads_run rate r' H'"

inductive_cases thread_stepE: "thread_step rate (r, H) (r', H')"

section \<open>The threads run the pipeline\<close>

lemma pipe_run_burst:
  "pipe_run rate p H \<Longrightarrow>
     pipe_run rate (snd (fold receive_one results (rc, p))) (H\<lparr>ph_received := ph_received H @ burst_packets results\<rparr>)"
proof (induction results arbitrary: rc p H)
  case Nil
  then show ?case
    by (simp add: burst_packets_def delivered_def)
next
  case (Cons x results)
  obtain result ts where x: "x = (result, ts)"
    by (cases x)
  show ?case
  proof (cases "\<exists>data. result = Some data \<and> data \<noteq> []")
    case True
    then obtain data where data: "result = Some data" "data \<noteq> []" by blast
    then have "pipe_run rate (snd (receive_one x (rc, p))) (H\<lparr>ph_received := ph_received H @ burst_packets [x]\<rparr>)"
      using pipe_run.net [OF Cons.prems, of data ts] by (simp add: x receive_one_def burst_packets_def delivered_def)
    from Cons.IH [OF this, of "fst (receive_one x (rc, p))"] show ?thesis
      by (simp add: burst_packets_def delivered_def x)
  next
    case False
    then have "snd (receive_one x (rc, p)) = p" "burst_packets (x # results) = burst_packets results"
      by (auto simp: x receive_one_def burst_packets_def delivered_def split: option.splits)
    with Cons.IH [OF Cons.prems, of "fst (receive_one x (rc, p))"] show ?thesis
      by (metis fold_simps(2) prod.collapse)
  qed
qed

lemma pipe_of_ops [simp]:
  "rn_pipe (end_body st r) = rn_pipe r" "rn_pipe (test_flag st r) = rn_pipe r" "rn_pipe (request_stop r) = rn_pipe r"
  "rn_pipe (network_burst results r) = snd (fold receive_one results (rn_receiver r, rn_pipe r))"
  by (simp_all add: end_body_def test_flag_def request_stop_def network_burst_def Let_def split_beta)

lemma thread_step_pipe_run:
  "thread_step rate s s' \<Longrightarrow> pipe_run rate (rn_pipe (fst s)) (snd s) \<Longrightarrow> pipe_run rate (rn_pipe (fst s')) (snd s')"
proof (induction rule: thread_step.induct)
  case (Network_Body r H results)
  then show ?case
    using pipe_run_burst [of rate "rn_pipe r" H results "rn_receiver r"] by simp
next
  case (Book_Body r H now)
  then show ?case
    using pipe_run.book [of rate "rn_pipe r" H now] by simp
qed (auto intro: pipe_run.intros)

lemma threads_pipe_run: "threads_run rate r H \<Longrightarrow> pipe_run rate (rn_pipe r) H"
proof (induction rule: threads_run.induct)
  case (Thread r H r' H')
  then show ?case
    using thread_step_pipe_run [OF Thread.hyps(2)] by simp
qed (auto simp: runner_new_def pipe_run.start pipeline_start_def join_threads_def split: if_splits)

text \<open>Threads inside a body are alive, and threads that are alive have not been joined.\<close>

definition runner_ok :: "'d runner \<Rightarrow> bool" where
  "runner_ok r \<longleftrightarrow> rn_body r \<subseteq> rn_alive r \<and> rn_alive r \<subseteq> rn_joinable r"

lemma network_burst_fields [simp]:
  "rn_body (network_burst results r) = rn_body r" "rn_alive (network_burst results r) = rn_alive r"
  "rn_joinable (network_burst results r) = rn_joinable r" "rn_running (network_burst results r) = rn_running r"
  by (simp_all add: network_burst_def Let_def split_beta)

lemma thread_step_ok: "thread_step rate s s' \<Longrightarrow> runner_ok (fst s) \<Longrightarrow> runner_ok (fst s')"
  by (induction rule: thread_step.induct) (auto simp: runner_ok_def test_flag_def end_body_def Let_def)

lemma threads_run_ok: "threads_run rate r H \<Longrightarrow> runner_ok r"
proof (induction rule: threads_run.induct)
  case (Thread r H r' H')
  then show ?case
    using thread_step_ok [OF Thread.hyps(2)] by simp
next
  case (Join r H r')
  then have "rn_alive r = {}" "r' = r\<lparr>rn_joinable := {}\<rparr>"
    unfolding runner_ok_def by (auto simp: join_threads_def split: if_splits)
  with Join.IH show ?case
    by (simp add: runner_ok_def)
qed (auto simp: runner_new_def runner_ok_def pipeline_start_def join_threads_def request_stop_def split: if_splits)


definition started :: "nat runner" where
  "started = the (pipeline_start runner_new)"

lemma started_run: "threads_run rate started \<lparr>ph_received = [], ph_processed = []\<rparr>"
  by (rule threads_run.Start [OF threads_run.New]) (simp add: started_def pipeline_start_def runner_new_def)


section \<open>Stopping\<close>

text \<open>The steps the threads have left after a stop: one for the test of each thread, one for a body that is under way.\<close>

definition work_left :: "'d runner \<Rightarrow> nat" where
  "work_left r = card (rn_alive r) + card (rn_body r)"

lemma stage_card: "st \<in> S \<Longrightarrow> 0 < card (S :: stage set)"
  by (auto simp: card_gt_0_iff)

lemma thread_step_work:
  "thread_step rate s s' \<Longrightarrow> \<not> rn_running (fst s) \<Longrightarrow> \<not> rn_running (fst s') \<and> work_left (fst s') + 1 = work_left (fst s)"
proof (induction rule: thread_step.induct)
  case (Test st r H)
  then have "0 < card (rn_alive r)"
    by (simp only: stage_card)
  with Test show ?case
    by (cases "st = Network") (simp_all add: work_left_def test_flag_def Let_def)
qed (auto simp: work_left_def end_body_def dest: stage_card)

lemma thread_step_exists:
  assumes "st \<in> rn_alive r"
  shows "\<exists>s'. thread_step rate (r, H) s'"
proof (cases "st \<in> rn_body r")
  case False
  with assms show ?thesis
    by (blast intro: thread_step.Test)
next
  case True
  obtain p where "parser_round (rn_pipe r) = Some p"
    using parser_round_total by blast
  with True show ?thesis
    by (cases st) (blast intro: thread_step.intros)+
qed



text \<open>Starting a pipeline that has not been stopped ends the program.\<close>

lemma start_twice: "pipeline_start r = Some r' \<Longrightarrow> pipeline_start r' = None"
  by (auto simp: pipeline_start_def split: if_splits)

end
