(* ===== verification/Spec2Isabelle.thy ===== *)
theory Spec2Isabelle
  imports Pipeline Sequence Ring_Buffer Object_Pool Event_Bus Sim_Exchange Fix_Gateway Market_Simulator Pre_Trade Risk_Monitors
    Replay Bars Execution Strategy_Engine Signal_Engine Models Value_At_Risk Participants Multi_Asset Tcp Tcp_Client
    Config_Store Scenario Rotation Compression Csv_Export Risk_Audit Pipeline_Threads
begin

text \<open>
  A verification library for the QuantFlow feed handler and trading stack (\<open>src/\<close>).

  The program and its parts. A market data feed of binary messages arrives in UDP datagrams. The feed handler is a
  pipeline of four threads joined by three bounded queues: the network stage copies datagrams, the parser
  stage splits, validates and decodes them, the book stage keeps one limit order book for each symbol and publishes
  its best levels, the consumer stage keeps statistics. Beside it stand the sender of the feed (encoder, batcher,
  and a market simulator that generates a consistent stream of orders), a recorder and a replay of the feed,
  an order management system with an audit journal and a simulated venue, a FIX gateway, the
  portfolio, the risk checks before and after a trade, the signals computed from books and trades, and the
  strategies that trade on them.

  Theories and sources.

  \<^item> Foundations. \<open>Prelude\<close> (widths, collections, generic lemmas), \<open>Bytes\<close> (little-endian layouts, bounded copies),
    \<open>Ordered_Map\<close> (\<open>std::map\<close>), \<open>Decimal\<close> (decimal text), \<open>Floating\<close> (arithmetic on \<open>double\<close> as an argument),
    \<open>Common_Types\<close> (\<open>include/qf/common\<close>).
  \<^item> Protocol (\<open>protocol/\<close>). \<open>Messages\<close> (\<open>messages.hpp\<close>, \<open>encoder\<close>), \<open>Validator\<close>, \<open>Frame_Parser\<close>, \<open>Batcher\<close>,
    \<open>Sequence\<close>. Messages survive encoding, batching and parsing; validation accepts exactly the complete
    messages; the tracker's gaps are exactly the missing numbers.
  \<^item> Core (\<open>core/\<close>). \<open>Order_Store\<close>, \<open>Order_Book\<close>, \<open>Book_Manager\<close> (a book and the manager of all books refine a set of
    live orders), \<open>Spsc_Queue\<close>, \<open>Mpsc_Queue\<close>, \<open>Ring_Buffer\<close>, \<open>Object_Pool\<close> (concurrent runs as interleavings of the
    single accesses to the shared variables, taken as sequentially consistent), \<open>Event_Bus\<close>, \<open>Stats\<close>
    (\<open>consumer/\<close>), \<open>Pipeline\<close> (\<open>handler/*_stage.cpp\<close>, \<open>core/pipeline.hpp\<close>), \<open>Pipeline_Threads\<close> (\<open>core/pipeline.cpp\<close>: the four
    threads from start to join, with the receive loop of the socket). The locales of these theories
    state what a store, a queue or a map promises to its clients; each is interpreted on the model's own definitions.
  \<^item> Simulator (\<open>simulator/\<close>). \<open>Sim_Book\<close> (\<open>sim_order_book\<close>, \<open>sim_matching_engine\<close>), \<open>Price_Walk\<close>
    (\<open>price_walk\<close>, \<open>volatility_regime\<close>, \<open>news_event_generator\<close>), \<open>Order_Generator\<close>, \<open>Market_Simulator\<close>,
    \<open>Sim_Feed\<close>, which connects the generated feed with the handler's books, \<open>Participants\<close> (\<open>participant_model\<close>: the feed of
    a pool of traders is consistent) and \<open>Multi_Asset\<close> (\<open>multi_asset_sim\<close>: the Cholesky factor of the correlations).
  \<^item> Orders (\<open>oms/\<close>). \<open>Strategy_Types\<close>, \<open>State_Transitions\<close>, \<open>Order_Journal\<close>, \<open>Order_Manager\<close>, \<open>Oms_Flow\<close> (validator,
    ids, router, fills), \<open>Sim_Exchange\<close>. The journal audits every order, fills add up, terminal orders stay as they are.
  \<^item> FIX (\<open>protocol/fix/\<close>). \<open>Fix_Message\<close>, \<open>Fix_Session\<close>, \<open>Fix_Gateway\<close>: the round trip of messages, sequence numbers in
    both directions, the handshake, the framing of the byte stream.
  \<^item> Portfolio and risk (\<open>strategy/position/\<close>, \<open>risk/\<close>). \<open>Position\<close>, \<open>Risk_Limits\<close>, \<open>Pre_Trade\<close>, \<open>Risk_Monitors\<close>,
    \<open>Value_At_Risk\<close> (\<open>var_calculator\<close>, \<open>risk_report\<close>). Profit is accounted for exactly, approved orders stay within the limits, the
    breaker latches, and the value at risk of a portfolio is at most the sum of its parts.
  \<^item> Data (\<open>data/\<close>). \<open>Tick_File\<close> (\<open>binary_writer\<close>, \<open>time_index\<close>), \<open>Tick_Store\<close>, \<open>Replay\<close> (\<open>tick_recorder\<close>, \<open>replay/\<close>),
    \<open>Bars\<close> (\<open>bar_aggregator\<close>, \<open>symbol_catalog\<close>), \<open>Csv_Export\<close> (\<open>csv_writer\<close>), \<open>Rotation\<close>, \<open>Compression\<close>. A recording is
    replayed and exported event by event; the clean-up removes the expired days only.
  \<^item> Network (\<open>network/\<close>). \<open>Tcp\<close> (\<open>tcp_server\<close>: sessions, their map and its mutex) and \<open>Tcp_Client\<close> (\<open>tcp_client\<close>, which
    reconnects, and the loops of the UDP sockets). The socket library is seen through its calling convention: pending
    operations are part of the state, and their completion with any result is a step. Connections are reported once each, the
    client never gives up, and two calls are shown not to do what they promise.
  \<^item> Programs and files (\<open>infra/\<close>, \<open>simulator/scenario_loader\<close>, \<open>simulator/main\<close>, \<open>handler/main\<close>, \<open>consumer/\<close>).
    \<open>Config_Store\<close> (configuration, set-up of the log), \<open>Scenario\<close> (scenario files, command lines), \<open>Text_Output\<close>
    (formatting, statistics file, console, alerts), \<open>Risk_Audit\<close> (\<open>risk_logger\<close>). The parsers of YAML and JSON are
    arguments: the models start from the tree of nodes.
  \<^item> Signals (\<open>signals/\<close>). \<open>Window\<close> (means and deviations of windows), \<open>Signal_Types\<close> (\<open>signal_types.hpp\<close>, \<open>regime_detector\<close>),
    \<open>Indicators\<close> (\<open>indicators/\<close>, behind one interface), \<open>Features\<close> (\<open>features/\<close>), \<open>Models\<close> (\<open>ml/\<close>: normalizer, store, online
    regression, model file, prediction cache), \<open>Signal_Engine\<close> (\<open>composite/\<close>, registry, engine). The incremental statistics
    are those of the window, training solves the normal equations, the cache is a least recently used list, and the
    order of the hash tables does not matter.
  \<^item> Strategies (\<open>strategy/\<close>). \<open>Execution\<close> (\<open>execution/\<close>: sizing, slippage, TWAP, VWAP, iceberg), \<open>Strategies\<close> (the five
    strategies; a locale states what keeps a strategy within its position limit), \<open>Strategy_Engine\<close> (registry, engine).
    Orders stay within their parent, positions within their limit, and the pair of the arbitrage is hedged.
  State and operations. A class is a record of its members, a method a function that returns the changed record
  with the result; errors and exceptions are values; what the code leaves undefined (a read out of bounds) is
  \<open>None\<close>. Integers keep their width; a \<open>size_t\<close> that only counts objects in memory is a \<open>nat\<close>. A callback is a function
  on a state, or the list of its calls.

  Arguments of the models. Clocks, random generators and the distributions on them, the iteration order of hash
  maps, the order that \<open>std::sort\<close> and \<open>std::priority_queue\<close> give to equal keys, the text of a \<open>double\<close>, what the C
  library passes on from a file buffer, and the arithmetic of \<open>double\<close> itself are arguments of the definitions
  that use them. A theorem holds for all of them, or names what it needs (\<open>sorts_entries\<close>, \<open>picks_min\<close>, \<open>exact_fp\<close>:
  arithmetic without rounding). Each such theorem has a witness with concrete functions.

  Bounds and termination. No definition carries fuel. Loops over data are recursive functions with a proof of
  termination; the loop of the simulator runs over the list of clock readings, and pipelines, queues, sessions and the
  replay run over finite lists of steps of any length. Bounds on sizes in the hypotheses (fewer than \<open>2 ^ 32\<close>
  orders, files below \<open>2 ^ 63\<close> bytes) are those of the counters the code uses.

  This theory joins the parts: what the sender encodes and batches is what the book stage processes, once each and in
  order, and a run of the simulator leaves the handler with exactly the live orders of the simulator.

  Not modelled. The operating system and the third-party libraries the code calls: sockets and threads themselves, the
  parsers of JSON and YAML, the sinks of the log, the compression of a block; thread, clock and signal helpers and the
  banners of the programs are calls of these and hold no logic. Memory orders weaker than sequential consistency
  are not modelled. Tests, benchmarks and the build tree hold no logic of the program.
\<close>

section \<open>From the sender to the books\<close>

text \<open>The messages the parser stage finds in a packet, in terms of its frames.\<close>

lemma packet_messages:
  assumes "fpr_ok (frame_parse (Some (rp_data pkt)))"
  shows "map pe_message (packet_events pkt) =
    map (\<lambda>b. the (parse b)) (filter (\<lambda>b. vr_ok (validate b)) (parsed_messages (rp_data pkt)))"
proof -
  have "map pe_message (view_events pkt vs) =
      map (\<lambda>b. the (parse b)) (filter (\<lambda>b. vr_ok (validate b)) (map (view_bytes (rp_data pkt)) vs))" for vs
    by (induction vs) (simp_all add: view_events_def)
  then show ?thesis
    using assms by (simp add: packet_events_def parsed_messages_def Let_def)
qed

lemma encoded_parsed:
  "map (\<lambda>b. the (parse b)) (filter (\<lambda>b. vr_ok (validate b)) (encoded ms)) = map fst ms"
proof -
  have "vr_ok (validate (wire m ts))" "the (parse (wire m ts)) = m" for m ts
    using validate_wire [of m ts "[]"] parse_wire [of m ts "[]"] by (simp_all add: vr_ok_def)
  then show ?thesis
    by (induction ms) (auto simp: encoded_def)
qed

lemma packets_messages:
  assumes "map rp_data pkts = datagrams k gs" and "\<forall>b \<in> set (concat gs). well_framed b"
  shows "map pe_message (concat (map packet_events pkts)) =
    map (\<lambda>b. the (parse b)) (filter (\<lambda>b. vr_ok (validate b)) (concat gs))"
  using assms
proof (induction gs arbitrary: pkts k)
  case (Cons g gs)
  obtain pkt ps where pk: "pkts = pkt # ps" "rp_data pkt = datagram k g" "map rp_data ps = datagrams (k + 1) gs"
    using Cons.prems(1) by auto
  have g: "\<forall>b \<in> set g. well_framed b"
    using Cons.prems(2) by auto
  have "fpr_ok (frame_parse (Some (rp_data pkt)))" "parsed_messages (rp_data pkt) = g"
    using frame_parse_datagram [OF g] parsed_messages_datagram [OF g] pk(2) by (simp_all add: fpr_ok_def)
  then show ?case
    using packet_messages [of pkt] Cons.IH [OF pk(3)] Cons.prems(2) pk(1) by simp
qed simp

lemma feed_processed:
  assumes "send_all (batcher_new MAX_DATAGRAM) (encoded ms) [] = Some (b, ds)"
    and "pipe_run rate p H" and "map rp_data (ph_received H) = ds"
    and "ps_queue_drops (pp_stats p) = 0" and "spsc_empty (pp_q1 p)" and "spsc_empty (pp_q2 p)"
    and "push_attempts H < 2 ^ 64"
  shows "map (\<lambda>(ev, now). pe_message ev) (ph_processed H) = map fst ms
    \<and> pp_books p = snd (run mgr_step book_manager_new (ph_processed H))"
proof -
  obtain b' gs where gs: "send_all (batcher_new MAX_DATAGRAM) (encoded ms) [] = Some (b', datagrams 0 gs)"
    "concat gs = encoded ms"
    by (rule send_all_new [OF _ _ encoded_framed, of ms])
      (auto simp: BATCH_HEADER_SIZE_def MAX_DATAGRAM_def)
  have "map pe_message (received_events H) = map fst ms"
    using packets_messages [of "ph_received H" 0 gs] gs assms(1,3) encoded_framed [of ms] encoded_parsed [of ms]
    by (simp add: received_events_def)
  moreover obtain xs1 xs2 xs3 D where I: "pipe_holds p H xs1 xs2 xs3 D"
    using pipe_run_inv [OF assms(2)] unfolding pipe_inv_def by blast
  have "D = 0"
    using I assms(4,7) of_nat_eq_0_small [of D, where 'a = 64] by (auto simp: pipe_holds_def)
  moreover have "xs1 = []" "xs2 = []"
    using I assms(5,6) spsc_size_holds(2) unfolding pipe_holds_def by blast+
  ultimately have "map pe_message (map fst (ph_processed H)) = map fst ms"
    "pp_books p = snd (run mgr_step book_manager_new (ph_processed H))"
    using I by (auto simp: pipe_holds_def)
  then show ?thesis
    by (simp add: case_prod_beta' comp_def)
qed

text \<open>
  C1. From the sender to the books. Messages that were encoded, batched and flushed on the sending
  side, and whose datagrams all arrive in order, are processed by the book stage exactly once each
  and in the order they were sent, whatever the interleaving of the stages, once the queues are
  drained and as long as no queue was full; the books are then those of the sent messages.
\<close>

theorem feed_end_to_end:
  assumes "send_all (batcher_new MAX_DATAGRAM) (encoded ms) [] = Some (b, ds)"
    and "pipe_run rate p H" and "map rp_data (ph_received H) = ds"
    and "ps_queue_drops (pp_stats p) = 0" and "spsc_empty (pp_q1 p)" and "spsc_empty (pp_q2 p)"
    and "push_attempts H < 2 ^ 64"
  shows "map (\<lambda>(ev, now). pe_message ev) (ph_processed H) = map fst ms
    \<and> pp_books p = snd (run mgr_step book_manager_new (ph_processed H))"
  by (rule feed_processed [OF assms])

text \<open>One message through an idle pipeline.\<close>

lemma one_message_run:
  assumes d: "d = datagram 0 [wire m ts]"
  shows "\<exists>p H. pipe_run (\<lambda>_ n. n) (p :: nat pipeline) H \<and> map rp_data (ph_received H) = [d]
    \<and> ps_queue_drops (pp_stats p) = 0 \<and> spsc_empty (pp_q1 p) \<and> spsc_empty (pp_q2 p)
    \<and> push_attempts H < 2 ^ 64"
proof -
  let ?pkt = "\<lparr>rp_data = d, rp_receive_timestamp = 3\<rparr>"
  let ?ev = "\<lparr>pe_message = m, pe_receive_timestamp = 3\<rparr>"
  let ?p1 = "network_receive (pipeline_new :: nat pipeline) d 3"
  have len: "take RAW_PACKET_MAX d = d"
    using wire_size_bounds(2) [of m] by (simp add: d RAW_PACKET_MAX_def BATCH_HEADER_SIZE_def)
  have f: "frame_parse (Some d) = \<lparr>fpr_batch_header = \<lparr>seq_num = 0, msg_count = 1,
        total_len = of_nat (BATCH_HEADER_SIZE + msg_WIRE_SIZE m)\<rparr>,
      fpr_messages = views_from BATCH_HEADER_SIZE [wire m ts], fpr_error = Ok\<rparr>"
    using frame_parse_datagram [of "[wire m ts]" 0] by (simp add: d)
  have v: "view_bytes d \<lparr>mv_data = BATCH_HEADER_SIZE, mv_len = msg_WIRE_SIZE m\<rparr> = wire m ts"
    by (simp add: view_bytes_def d datagram_def)
  have valid: "vr_ok (validate (wire m ts))" "parse (wire m ts) = Some m"
    using validate_wire [of m ts "[]"] parse_wire [of m ts "[]"] by (simp_all add: vr_ok_def)
  have r1: "pipe_run (\<lambda>_ n. n) ?p1 \<lparr>ph_received = [?pkt], ph_processed = []\<rparr>"
    using pipe_run.net [OF pipe_run.start [of "\<lambda>_ n. n"], of d 3] len by simp
  have "\<exists>p2. parser_round ?p1 = Some p2 \<and> sq_head (pp_q1 p2) = 1 \<and> sq_tail (pp_q1 p2) = 1
      \<and> pp_q2 p2 = \<lparr>sq_buffer = (sq_buffer (spsc_new Q2_CAPACITY event_blank))[0 := ?ev], sq_head = 1, sq_tail = 0\<rparr>
      \<and> pp_q3 p2 = spsc_new Q3_CAPACITY book_update_default \<and> ps_queue_drops (pp_stats p2) = 0"
    by (simp add: network_receive_def pipeline_new_def spsc_new_def spsc_try_push_def spsc_try_pop_def
        parser_round_def parse_view_def f v valid len fpr_ok_def stats_zero_def capacities next_index_def Let_def)
  then obtain p2 where p2: "parser_round ?p1 = Some p2" "sq_head (pp_q1 p2) = 1" "sq_tail (pp_q1 p2) = 1"
    "pp_q2 p2 = \<lparr>sq_buffer = (sq_buffer (spsc_new Q2_CAPACITY event_blank))[0 := ?ev], sq_head = 1, sq_tail = 0\<rparr>"
    "pp_q3 p2 = spsc_new Q3_CAPACITY book_update_default" "ps_queue_drops (pp_stats p2) = 0" by blast
  have pop: "spsc_try_pop Q2_CAPACITY (pp_q2 p2) =
      (Some ?ev, (pp_q2 p2)\<lparr>sq_tail := 1\<rparr>)"
    by (simp add: p2 spsc_try_pop_def spsc_new_def capacities next_index_def)
  have r3: "pipe_run (\<lambda>_ n. n) (book_round p2 9) \<lparr>ph_received = [?pkt], ph_processed = [(?ev, 9)]\<rparr>"
    using pipe_run.book [OF pipe_run.parser [OF r1 p2(1)], of 9] pop by simp
  have ok: "\<exists>q. spsc_try_push Q3_CAPACITY (pp_q3 p2) u = (True, q)" for u
    by (simp add: p2 spsc_try_push_def spsc_new_def capacities next_index_def)
  have q: "pp_q1 (book_round p2 9) = pp_q1 p2" "pp_q2 (book_round p2 9) = (pp_q2 p2)\<lparr>sq_tail := 1\<rparr>"
    "ps_queue_drops (pp_stats (book_round p2 9)) = 0"
    using ok [of "fst (bm_process (pp_books p2) ?ev 9)"] p2(6)
    by (auto simp: book_round_def pop Let_def split: prod.splits)
  have "length (packet_events ?pkt) = 1"
    by (simp add: packet_events_def f fpr_ok_def view_events_def v valid)
  then show ?thesis
    using r3 q p2(2,3,4)
    by (intro exI [of _ "book_round p2 9"] exI [of _ "\<lparr>ph_received = [?pkt], ph_processed = [(?ev, 9)]\<rparr>"])
      (simp add: spsc_empty_def push_attempts_def received_events_def)
qed

lemma one_datagram:
  assumes "send_all (batcher_new MAX_DATAGRAM) (encoded [(m, ts)]) [] = Some (b, ds)"
  shows "ds = [datagram 0 [wire m ts]]"
proof -
  obtain b' gs where gs: "send_all (batcher_new MAX_DATAGRAM) (encoded [(m, ts)]) [] = Some (b', datagrams 0 gs)"
    "concat gs = encoded [(m, ts)]" "grouping MAX_DATAGRAM gs"
    by (rule send_all_new [OF _ _ encoded_framed, of "[(m, ts)]"])
      (auto simp: BATCH_HEADER_SIZE_def MAX_DATAGRAM_def)
  have "gs = [[wire m ts]]"
  proof (cases gs)
    case (Cons g hs)
    then have "g = [wire m ts]" "concat hs = []"
      using gs(2,3) by (cases g; simp add: encoded_def grouping_def)+
    moreover have "hs = []"
      using gs(3) Cons \<open>concat hs = []\<close> by (cases hs) (auto simp: grouping_def)
    ultimately show ?thesis using Cons by simp
  qed (use gs(2) in \<open>simp add: encoded_def\<close>)
  then show ?thesis
    using gs(1) assms by simp
qed

text \<open>A pipeline that has received what sending at most one message gives, and has drained it.\<close>

lemma drained_run:
  assumes "send_all (batcher_new MAX_DATAGRAM) (encoded msgs) [] = Some (b, ds)" and "length msgs \<le> 1"
  shows "\<exists>p H. pipe_run (\<lambda>_ n. n) (p :: nat pipeline) H \<and> map rp_data (ph_received H) = ds
    \<and> ps_queue_drops (pp_stats p) = 0 \<and> spsc_empty (pp_q1 p) \<and> spsc_empty (pp_q2 p)
    \<and> push_attempts H < 2 ^ 64"
proof (cases msgs)
  case Nil
  let ?p = "pipeline_new :: nat pipeline" and ?H = "\<lparr>ph_received = [], ph_processed = []\<rparr>"
  have "ds = []"
    using assms(1) Nil by (simp add: encoded_def flush_cb_def batcher_new_def)
  then have "pipe_run (\<lambda>_ n. n) ?p ?H \<and> map rp_data (ph_received ?H) = ds \<and> ps_queue_drops (pp_stats ?p) = 0
    \<and> spsc_empty (pp_q1 ?p) \<and> spsc_empty (pp_q2 ?p) \<and> push_attempts ?H < 2 ^ 64"
    using pipe_run.start [of "\<lambda>_ n. n"]
    by (simp add: pipeline_new_def stats_zero_def spsc_empty_def spsc_new_def push_attempts_def received_events_def)
  then show ?thesis
    by blast
next
  case (Cons m ms)
  then obtain msg ts where "msgs = [(msg, ts)]"
    using assms(2) by (cases m) auto
  then have "ds = [datagram 0 [wire msg ts]]"
    using one_datagram assms(1) by simp
  then show ?thesis
    using one_message_run [OF refl, of msg ts] by simp
qed

theorem feed_end_to_end_witness:
  "\<exists>b ds p H. send_all (batcher_new MAX_DATAGRAM) (encoded [(CancelOrder \<lparr>co_order_id = 7\<rparr>, 1)]) [] = Some (b, ds)
     \<and> pipe_run (\<lambda>_ n. n) (p :: nat pipeline) H \<and> map rp_data (ph_received H) = ds
     \<and> map (\<lambda>(ev, now). pe_message ev) (ph_processed H) = [CancelOrder \<lparr>co_order_id = 7\<rparr>]"
proof -
  let ?ms = "[(CancelOrder \<lparr>co_order_id = 7\<rparr>, 1)]"
  obtain b ds where sent: "send_all (batcher_new MAX_DATAGRAM) (encoded ?ms) [] = Some (b, ds)"
    using send_encoded [of ?ms] by auto
  obtain p H where r: "pipe_run (\<lambda>_ n. n) (p :: nat pipeline) H" "map rp_data (ph_received H) = ds"
    "ps_queue_drops (pp_stats p) = 0" "spsc_empty (pp_q1 p)" "spsc_empty (pp_q2 p)" "push_attempts H < 2 ^ 64"
    using drained_run [OF sent] by auto
  have "map (\<lambda>(ev, now). pe_message ev) (ph_processed H) = [CancelOrder \<lparr>co_order_id = 7\<rparr>]"
    using feed_end_to_end [OF sent r] by simp
  with sent r(1,2) show ?thesis
    by (intro exI [of _ b] exI [of _ ds] exI [of _ p] exI [of _ H] conjI)
qed

section \<open>From the simulator to the books\<close>

text \<open>
  C5. The handler mirrors the simulator. When the datagrams of a simulator run without trade messages
  reach the pipeline in order and the queues are drained without a drop, the live orders in the
  handler's books are exactly the live orders of the simulator's book, whatever prices, quantities
  and message kinds were drawn and however the stages interleave.
\<close>

theorem simulated_feed_mirrored:
  assumes "symbols \<noteq> []" and "random_ok (se_random en)" and "length stack = MAX_DATAGRAM"
    and "length nows * 1000 < 2 ^ 32"
    and "sim_run en msg_rate end_time nows
      (market_sim_new (sm_fp (se_math en)) symbols seeded rng rcfg ncfg stack start) = Some ms"
    and "pipe_run rate p H" and "map rp_data (ph_received H) = ms_sent ms"
    and "ps_queue_drops (pp_stats p) = 0" and "spsc_empty (pp_q1 p)" and "spsc_empty (pp_q2 p)"
    and "push_attempts H < 2 ^ 64"
    and "\<forall>(ev, _) \<in> set (ph_processed H). \<not> is_trade (pe_message ev)"
  shows "snd (abs_market (pp_books p)) = gen_live (ms_generator ms)"
proof -
  have "length nows < 2 ^ 64 - 2"
    using assms(4) by simp
  from sim_run_sends [OF assms(1-3) this, of msg_rate end_time seeded rng rcfg ncfg start] assms(5)
  obtain msgs where msgs: "send_all (batcher_new MAX_DATAGRAM) (encoded msgs) [] = Some (ms_batcher ms, ms_sent ms)"
    "feed_chain 1000 Map.empty (map fst msgs)" "gen_live (ms_generator ms) = foldl msg_effect Map.empty (map fst msgs)"
    "length msgs \<le> length nows"
    by auto
  have processed: "map (\<lambda>(ev, now). pe_message ev) (ph_processed H) = map fst msgs"
    "pp_books p = snd (run mgr_step book_manager_new (ph_processed H))"
    using feed_processed [OF msgs(1) assms(6-11)] by simp_all
  have "length (ph_processed H) = length msgs"
    using arg_cong [OF processed(1), of length] by simp
  then have "length (ph_processed H) * max 1 (unat (1000 :: quantity)) < 2 ^ 32"
    using msgs(4) assms(4) by simp
  then show ?thesis
    using handler_follows_feed [of 1000 "ph_processed H"] processed msgs(2,3) assms(12) by simp
qed

lemma feed_starts_with_add: "msg_refers Map.empty m \<Longrightarrow> \<not> is_trade m"
  by (auto simp: is_trade_def)

theorem simulated_feed_mirrored_witness:
  "\<exists>ms p H. sim_run (quiet_env 2) 1000 10000000 [0]
      (market_sim_new (sm_fp (se_math (quiet_env 2))) [plain_symbol] (\<lambda>_. ()) () plain_regime plain_news
        (replicate MAX_DATAGRAM 0) 0) = Some ms
    \<and> pipe_run (\<lambda>_ n. n) (p :: nat pipeline) H \<and> map rp_data (ph_received H) = ms_sent ms
    \<and> snd (abs_market (pp_books p)) = gen_live (ms_generator ms)"
proof -
  have rnd: "random_ok (se_random (quiet_env 2))"
    using least_random_ok by (simp add: quiet_env_def)
  note sim = sim_run_sends [OF _ rnd, where symbols = "[plain_symbol]" and stack = "replicate MAX_DATAGRAM 0"
      and nows = "[0]" and msg_rate = 1000 and end_time = 10000000 and seeded = "\<lambda>_. ()"
      and rng = "()" and rcfg = plain_regime and ncfg = plain_news and start = 0]
  obtain ms msgs where run: "sim_run (quiet_env 2) 1000 10000000 [0]
      (market_sim_new (sm_fp (se_math (quiet_env 2))) [plain_symbol] (\<lambda>_. ()) () plain_regime plain_news
        (replicate MAX_DATAGRAM 0) 0) = Some ms"
    and msgs: "send_all (batcher_new MAX_DATAGRAM) (encoded msgs) [] = Some (ms_batcher ms, ms_sent ms)"
    "feed_chain 1000 Map.empty (map fst msgs)" "length msgs \<le> 1"
    using sim by auto
  obtain p H where pipe: "pipe_run (\<lambda>_ n. n) (p :: nat pipeline) H" "map rp_data (ph_received H) = ms_sent ms"
    "ps_queue_drops (pp_stats p) = 0" "spsc_empty (pp_q1 p)" "spsc_empty (pp_q2 p)" "push_attempts H < 2 ^ 64"
    using drained_run [OF msgs(1,3)] by auto
  have processed: "map (\<lambda>(ev, now). pe_message ev) (ph_processed H) = map fst msgs"
    using feed_processed [OF msgs(1) pipe] by simp
  have no_trade: "\<not> is_trade m" if "m \<in> set (map fst msgs)" for m
    using that msgs(2,3) feed_starts_with_add by (cases msgs) auto
  have "\<forall>(ev, _) \<in> set (ph_processed H). \<not> is_trade (pe_message ev)"
    using no_trade unfolding processed [symmetric] by fastforce
  from simulated_feed_mirrored [OF _ rnd _ _ run pipe this] have "snd (abs_market (pp_books p)) = gen_live (ms_generator ms)"
    by simp
  then show ?thesis
    using run pipe(1,2) by blast
qed

end
